(* ===== verification/Prelude.thy ===== *)
theory Prelude
  imports Complex_Main
begin

text \<open>
  Shared vocabulary of the development: insertion-ordered dictionaries (the string-keyed
  objects of the runtime scripts), the string operations the scripts use, and the
  error-and-state computations in which every stateful operation is written.
\<close>

named_theorems dict_simps \<open>equations for insertion-ordered dictionaries\<close>
named_theorems js_defs \<open>definitions of the computation combinators\<close>
named_theorems keeps_intro \<open>rules that establish that a computation keeps an invariant\<close>

section \<open>Insertion-ordered dictionaries\<close>

text \<open>
  A JavaScript object used as a dictionary keeps its string keys in insertion order: a store to a
  present key keeps the key's place, a store to a new key appends it, a deletion removes it.
\<close>

type_synonym ('k, 'v) dict = "('k \<times> 'v) list"

fun dget :: "('k, 'v) dict \<Rightarrow> 'k \<Rightarrow> 'v option" where
  "dget [] k = None"
| "dget ((k', v) # d) k = (if k = k' then Some v else dget d k)"

fun dset :: "('k, 'v) dict \<Rightarrow> 'k \<Rightarrow> 'v \<Rightarrow> ('k, 'v) dict" where
  "dset [] k v = [(k, v)]"
| "dset ((k', w) # d) k v = (if k = k' then (k', v) # d else (k', w) # dset d k v)"

definition ddel :: "('k, 'v) dict \<Rightarrow> 'k \<Rightarrow> ('k, 'v) dict" where
  "ddel d k = filter (\<lambda>p. fst p \<noteq> k) d"

definition dkeys :: "('k, 'v) dict \<Rightarrow> 'k list" where
  "dkeys d = map fst d"

definition dwf :: "('k, 'v) dict \<Rightarrow> bool" where
  "dwf d \<longleftrightarrow> distinct (dkeys d)"

lemma dget_dset [simp, dict_simps]: "dget (dset d k v) j = (if j = k then Some v else dget d j)"
  by (induction d k v rule: dset.induct) auto

lemma dget_ddel [simp, dict_simps]: "dget (ddel d k) j = (if j = k then None else dget d j)"
  by (induction d) (auto simp: ddel_def)

lemma dget_None_iff: "dget d k = None \<longleftrightarrow> k \<notin> set (dkeys d)"
  by (induction d k rule: dget.induct) (auto simp: dkeys_def)

lemma dget_Some_mem: "dget d k = Some v \<Longrightarrow> (k, v) \<in> set d"
  by (induction d k rule: dget.induct) (auto split: if_splits)

lemma mem_dget: "dwf d \<Longrightarrow> (k, v) \<in> set d \<Longrightarrow> dget d k = Some v"
  by (induction d k rule: dget.induct) (auto simp: dwf_def dkeys_def rev_image_eqI)

lemma dkeys_dset: "dkeys (dset d k v) = (if k \<in> set (dkeys d) then dkeys d else dkeys d @ [k])"
  by (induction d k v rule: dset.induct) (auto simp: dkeys_def)

lemma dkeys_ddel: "dkeys (ddel d k) = filter (\<lambda>j. j \<noteq> k) (dkeys d)"
  by (induction d) (auto simp: dkeys_def ddel_def)

lemma dwf_Nil [simp]: "dwf []"
  by (simp add: dwf_def dkeys_def)

lemma dwf_dset [simp]: "dwf d \<Longrightarrow> dwf (dset d k v)"
  by (auto simp: dwf_def dkeys_dset)

lemma dwf_ddel [simp]: "dwf d \<Longrightarrow> dwf (ddel d k)"
  by (simp add: dwf_def dkeys_ddel)

lemma ddel_absent: "dget d k = None \<Longrightarrow> ddel d k = d"
  by (induction d k rule: dget.induct) (auto simp: ddel_def split: if_splits)

lemma ddel_dset_fresh: "dget d k = None \<Longrightarrow> ddel (dset d k v) k = d"
  by (induction d k v rule: dset.induct) (auto simp: ddel_def split: if_splits intro: filter_True)

lemma dset_same: "dget d k = Some v \<Longrightarrow> dset d k v = d"
  by (induction d k v rule: dset.induct) (auto split: if_splits)

section \<open>The dictionary interface\<close>

text \<open>
  The contract that the registry, the instance caches and the handler tables rely on. A client
  that writes a fresh key and deletes it again finds the dictionary as it was.
\<close>

locale keyed_store =
  fixes lookup :: "'m \<Rightarrow> 'k \<Rightarrow> 'v option"
    and insert_at :: "'m \<Rightarrow> 'k \<Rightarrow> 'v \<Rightarrow> 'm"
    and remove_at :: "'m \<Rightarrow> 'k \<Rightarrow> 'm"
    and wf :: "'m \<Rightarrow> bool"
  assumes lookup_insert: "lookup (insert_at m k v) j = (if j = k then Some v else lookup m j)"
    and lookup_remove: "lookup (remove_at m k) j = (if j = k then None else lookup m j)"
    and remove_fresh: "lookup m k = None \<Longrightarrow> remove_at (insert_at m k v) k = m"
    and wf_insert: "wf m \<Longrightarrow> wf (insert_at m k v)"
    and wf_remove: "wf m \<Longrightarrow> wf (remove_at m k)"
begin

lemma lookup_after_insert: "lookup (insert_at m k v) k = Some v"
  by (simp add: lookup_insert)

lemma lookup_after_remove: "lookup (remove_at m k) k = None"
  by (simp add: lookup_remove)

lemma frame_insert: "j \<noteq> k \<Longrightarrow> lookup (insert_at m k v) j = lookup m j"
  by (simp add: lookup_insert)

lemma frame_remove: "j \<noteq> k \<Longrightarrow> lookup (remove_at m k) j = lookup m j"
  by (simp add: lookup_remove)

lemma transient_entry: "lookup m k = None \<Longrightarrow> lookup (remove_at (insert_at m k v) k) = lookup m"
  by (simp add: remove_fresh)

end

interpretation obj: keyed_store dget dset ddel dwf
  by unfold_locales (auto simp: ddel_dset_fresh)

section \<open>Strings\<close>

fun starts_with :: "string \<Rightarrow> string \<Rightarrow> bool" where
  "starts_with [] s = True"
| "starts_with (p # ps) [] = False"
| "starts_with (p # ps) (c # cs) = (p = c \<and> starts_with ps cs)"

definition ends_with :: "string \<Rightarrow> string \<Rightarrow> bool" where
  "ends_with p s \<longleftrightarrow> starts_with (rev p) (rev s)"

definition squote :: string where
  "squote = [CHR 0x27]"

lemma starts_with_append [simp]: "starts_with p (p @ s)"
  by (induction p) auto

lemma starts_with_iff: "starts_with p s \<longleftrightarrow> (\<exists>t. s = p @ t)"
  by (induction p s rule: starts_with.induct) auto

lemma ends_with_iff: "ends_with p s \<longleftrightarrow> (\<exists>t. s = t @ p)"
  unfolding ends_with_def starts_with_iff
  by (metis rev_append rev_rev_ident)

text \<open>\<open>s.split(c)[0]\<close> and \<open>s.split(c).slice(1).join(c)\<close> for a one-character separator.\<close>

definition before :: "char \<Rightarrow> string \<Rightarrow> string" where
  "before c s = takeWhile (\<lambda>x. x \<noteq> c) s"

definition after :: "char \<Rightarrow> string \<Rightarrow> string" where
  "after c s = drop 1 (dropWhile (\<lambda>x. x \<noteq> c) s)"

lemma before_append: "c \<notin> set s \<Longrightarrow> before c (s @ c # t) = s"
  by (induction s) (auto simp: before_def)

lemma after_append: "c \<notin> set s \<Longrightarrow> after c (s @ c # t) = t"
  by (induction s) (auto simp: after_def)

lemma before_absent: "c \<notin> set s \<Longrightarrow> before c s = s"
  by (auto simp: before_def takeWhile_eq_all_conv)

lemma before_no_sep: "c \<notin> set (before c s)"
  unfolding before_def using set_takeWhileD by fastforce

lemma before_after: "c \<in> set s \<Longrightarrow> before c s @ c # after c s = s"
proof (induction s)
  case (Cons x s)
  then show ?case by (cases "x = c") (auto simp: before_def after_def)
qed simp

lemma sep_cong:
  fixes c :: char
  assumes "a @ c # b = a' @ c # b'" and "c \<notin> set a" and "c \<notin> set a'"
  shows "a = a' \<and> b = b'"
proof
  show "a = a'"
    using arg_cong [OF assms(1), of "before c"] assms(2,3) by (simp add: before_append)
  show "b = b'"
    using arg_cong [OF assms(1), of "after c"] assms(2,3) by (simp add: after_append)
qed

section \<open>Computations with a state and exceptions\<close>

text \<open>
  An operation of the runtime reads and writes the globals of its script and either returns or
  throws: a function from the state to the outcome (\<open>Inl\<close> the thrown value, \<open>Inr\<close> the result)
  and the state it leaves. A throw keeps the writes made before it, as in the source.
\<close>

type_synonym ('e, 's, 'a) comp = "'s \<Rightarrow> ('e + 'a) \<times> 's"

definition ret :: "'a \<Rightarrow> ('e, 's, 'a) comp" where
  [js_defs]: "ret a = (\<lambda>s. (Inr a, s))"

definition throw :: "'e \<Rightarrow> ('e, 's, 'a) comp" where
  [js_defs]: "throw e = (\<lambda>s. (Inl e, s))"

definition bind :: "('e, 's, 'a) comp \<Rightarrow> ('a \<Rightarrow> ('e, 's, 'b) comp) \<Rightarrow> ('e, 's, 'b) comp" where
  [js_defs]: "bind m f = (\<lambda>s. case m s of (Inl e, s') \<Rightarrow> (Inl e, s') | (Inr a, s') \<Rightarrow> f a s')"

definition seq :: "('e, 's, 'a) comp \<Rightarrow> ('e, 's, 'b) comp \<Rightarrow> ('e, 's, 'b) comp" where
  [js_defs]: "seq m n = bind m (\<lambda>_. n)"

definition catch :: "('e, 's, 'a) comp \<Rightarrow> ('e \<Rightarrow> ('e, 's, 'a) comp) \<Rightarrow> ('e, 's, 'a) comp" where
  [js_defs]: "catch m h = (\<lambda>s. case m s of (Inl e, s') \<Rightarrow> h e s' | (Inr a, s') \<Rightarrow> (Inr a, s'))"

text \<open>\<open>try { m } finally { f }\<close> with a finaliser that cannot throw.\<close>

definition finally_do :: "('e, 's, 'a) comp \<Rightarrow> ('s \<Rightarrow> 's) \<Rightarrow> ('e, 's, 'a) comp" where
  [js_defs]: "finally_do m f = (\<lambda>s. case m s of (r, s') \<Rightarrow> (r, f s'))"

definition gets :: "('s \<Rightarrow> 'a) \<Rightarrow> ('e, 's, 'a) comp" where
  [js_defs]: "gets f = (\<lambda>s. (Inr (f s), s))"

definition modify :: "('s \<Rightarrow> 's) \<Rightarrow> ('e, 's, unit) comp" where
  [js_defs]: "modify f = (\<lambda>s. (Inr (), f s))"

fun iter_list :: "('a \<Rightarrow> ('e, 's, unit) comp) \<Rightarrow> 'a list \<Rightarrow> ('e, 's, unit) comp" where
  "iter_list f [] = ret ()"
| "iter_list f (x # xs) = seq (f x) (iter_list f xs)"

text \<open>A computation keeps an invariant when it holds after every run from a state where it held.\<close>

definition keeps :: "('s \<Rightarrow> bool) \<Rightarrow> ('e, 's, 'a) comp \<Rightarrow> bool" where
  "keeps I m \<longleftrightarrow> (\<forall>s. I s \<longrightarrow> I (snd (m s)))"

lemma keepsI: "(\<And>s. I s \<Longrightarrow> I (snd (m s))) \<Longrightarrow> keeps I m"
  by (simp add: keeps_def)

lemma keepsD: "keeps I m \<Longrightarrow> I s \<Longrightarrow> I (snd (m s))"
  by (simp add: keeps_def)

lemma keeps_ret [keeps_intro]: "keeps I (ret a)"
  by (simp add: keeps_def js_defs)

lemma keeps_throw [keeps_intro]: "keeps I (throw e)"
  by (simp add: keeps_def js_defs)

lemma keeps_gets [keeps_intro]: "keeps I (gets f)"
  by (simp add: keeps_def js_defs)

lemma keeps_modify: "(\<And>s. I s \<Longrightarrow> I (f s)) \<Longrightarrow> keeps I (modify f)"
  by (simp add: keeps_def js_defs)

lemma keeps_bind [keeps_intro]: "keeps I m \<Longrightarrow> (\<And>a. keeps I (f a)) \<Longrightarrow> keeps I (bind m f)"
  by (fastforce simp: keeps_def js_defs split: prod.splits sum.splits)

lemma keeps_seq [keeps_intro]: "keeps I m \<Longrightarrow> keeps I n \<Longrightarrow> keeps I (seq m n)"
  by (simp add: seq_def keeps_bind)

lemma keeps_catch [keeps_intro]: "keeps I m \<Longrightarrow> (\<And>e. keeps I (h e)) \<Longrightarrow> keeps I (catch m h)"
  by (fastforce simp: keeps_def js_defs split: prod.splits sum.splits)

lemma keeps_if [keeps_intro]: "(b \<Longrightarrow> keeps I m) \<Longrightarrow> (\<not> b \<Longrightarrow> keeps I n) \<Longrightarrow> keeps I (if b then m else n)"
  by simp

lemma keeps_option [keeps_intro]:
  "keeps I m \<Longrightarrow> (\<And>a. keeps I (f a)) \<Longrightarrow> keeps I (case x of None \<Rightarrow> m | Some a \<Rightarrow> f a)"
  by (simp split: option.split)

lemma keeps_iter_list [keeps_intro]: "(\<And>x. keeps I (f x)) \<Longrightarrow> keeps I (iter_list f xs)"
  by (induction xs) (auto intro: keeps_intro)

section \<open>Runs and reachable states\<close>

text \<open>
  A component whose operations arrive in any order is a step function on operations; a property
  that holds at the start and that every step keeps holds after every run.
\<close>

locale machine =
  fixes step :: "'s \<Rightarrow> 'op \<Rightarrow> 's"
    and inv :: "'s \<Rightarrow> bool"
    and ok :: "'s \<Rightarrow> 'op \<Rightarrow> bool"
  assumes step_inv: "inv s \<Longrightarrow> ok s x \<Longrightarrow> inv (step s x)"
begin

fun ok_run :: "'s \<Rightarrow> 'op list \<Rightarrow> bool" where
  "ok_run s [] = True"
| "ok_run s (x # xs) = (ok s x \<and> ok_run (step s x) xs)"

lemma run_inv: "inv s \<Longrightarrow> ok_run s xs \<Longrightarrow> inv (foldl step s xs)"
  by (induction xs arbitrary: s) (auto intro: step_inv)

end

end
