(* ===== verification/Js_Values.thy ===== *)
theory Js_Values
  imports Prelude
begin

text \<open>
  The JavaScript values the runtime scripts handle, the operators they apply to them
  (truthiness, \<open>||\<close>, \<open>===\<close>, \<open>typeof\<close>, property reads) and the part of JSON they rely on.
  A finite number is the rational it denotes, so comparisons and integrality tests are exact.
  Functions are opaque identities; an error object carries its class, message and own properties.
\<close>

datatype jsnum = NaN | PosInf | NegInf | Fin rat

datatype err_class = PlainError | BrainkitErr | TypeErr | SyntaxErr | RefErr

datatype jsval =
    JUndef
  | JNull
  | JBool bool
  | JNum jsnum
  | JBigInt int
  | JStr string
  | JArr "jsval list"
  | JObj "(string \<times> jsval) list"
  | JFun nat
  | JErr err_class string "(string \<times> jsval) list"

type_synonym 's js_unit = "(jsval, 's, unit) comp"

section \<open>Operators\<close>

fun truthy :: "jsval \<Rightarrow> bool" where
  "truthy JUndef = False"
| "truthy JNull = False"
| "truthy (JBool b) = b"
| "truthy (JNum NaN) = False"
| "truthy (JNum (Fin q)) = (q \<noteq> 0)"
| "truthy (JNum PosInf) = True"
| "truthy (JNum NegInf) = True"
| "truthy (JBigInt i) = (i \<noteq> 0)"
| "truthy (JStr s) = (s \<noteq> [])"
| "truthy (JArr vs) = True"
| "truthy (JObj ps) = True"
| "truthy (JFun f) = True"
| "truthy (JErr c m ps) = True"

text \<open>\<open>a || b\<close>\<close>

definition js_or :: "jsval \<Rightarrow> jsval \<Rightarrow> jsval" where
  "js_or a b = (if truthy a then a else b)"

definition str_or :: "string \<Rightarrow> string \<Rightarrow> string" where
  "str_or s t = (if s \<noteq> [] then s else t)"

fun is_num :: "jsval \<Rightarrow> bool" where
  "is_num (JNum n) = True"
| "is_num v = False"

fun is_str :: "jsval \<Rightarrow> bool" where
  "is_str (JStr s) = True"
| "is_str v = False"

fun is_fun :: "jsval \<Rightarrow> bool" where
  "is_fun (JFun f) = True"
| "is_fun v = False"

fun is_array :: "jsval \<Rightarrow> bool" where
  "is_array (JArr vs) = True"
| "is_array v = False"

fun is_bool :: "jsval \<Rightarrow> bool" where
  "is_bool (JBool b) = True"
| "is_bool v = False"

text \<open>\<open>typeof v === "object"\<close> holds of \<open>null\<close>, arrays, plain objects and errors.\<close>

fun is_object :: "jsval \<Rightarrow> bool" where
  "is_object JNull = True"
| "is_object (JArr vs) = True"
| "is_object (JObj ps) = True"
| "is_object (JErr c m ps) = True"
| "is_object v = False"

fun nullish :: "jsval \<Rightarrow> bool" where
  "nullish JUndef = True"
| "nullish JNull = True"
| "nullish v = False"

text \<open>\<open>a ?? b\<close>\<close>

definition js_coalesce :: "jsval \<Rightarrow> jsval \<Rightarrow> jsval" where
  "js_coalesce a b = (if nullish a then b else a)"

text \<open>
  A read of a property that \<open>Object.prototype\<close> does not have: the own property or \<open>undefined\<close>.
  An error's \<open>message\<close> is an own property too.
\<close>

fun getp :: "jsval \<Rightarrow> string \<Rightarrow> jsval" where
  "getp (JObj ps) k = (case dget ps k of Some v \<Rightarrow> v | None \<Rightarrow> JUndef)"
| "getp (JErr c m ps) k =
     (if k = ''message'' then JStr m
      else case dget ps k of Some v \<Rightarrow> v | None \<Rightarrow> JUndef)"
| "getp v k = JUndef"

text \<open>\<open>a === b\<close> for primitive values; two objects met by the model are never the same object.\<close>

definition strict_eq :: "jsval \<Rightarrow> jsval \<Rightarrow> bool" where
  "strict_eq a b =
     (case a of
        JNum n \<Rightarrow> n \<noteq> NaN \<and> b = a
      | JArr vs \<Rightarrow> False
      | JObj ps \<Rightarrow> False
      | JErr c m ps \<Rightarrow> False
      | _ \<Rightarrow> b = a)"

text \<open>\<open>v && v.k\<close>\<close>

definition and_prop :: "jsval \<Rightarrow> string \<Rightarrow> jsval" where
  "and_prop v k = (if truthy v then getp v k else v)"

text \<open>
  The names every object inherits from \<open>Object.prototype\<close>. A read \<open>o[name]\<close> of an object used
  as a dictionary finds them, so a dictionary with a caller-chosen key is read through
  \<open>dict_read\<close>: an own entry first, then the inherited function (represented by its name).
\<close>

definition proto_names :: "string list" where
  "proto_names =
    [''constructor'', ''__defineGetter__'', ''__defineSetter__'', ''hasOwnProperty'',
     ''__lookupGetter__'', ''__lookupSetter__'', ''isPrototypeOf'', ''propertyIsEnumerable'',
     ''toString'', ''valueOf'', ''__proto__'', ''toLocaleString'']"

datatype 'v slot = Own 'v | Inherited string | Missing

definition dict_read :: "(string, 'v) dict \<Rightarrow> string \<Rightarrow> 'v slot" where
  "dict_read d k =
     (case dget d k of
        Some v \<Rightarrow> Own v
      | None \<Rightarrow> if k \<in> set proto_names then Inherited k else Missing)"

lemma dict_read_plain:
  "k \<notin> set proto_names \<Longrightarrow> dict_read d k = (case dget d k of Some v \<Rightarrow> Own v | None \<Rightarrow> Missing)"
  by (simp add: dict_read_def split: option.split)

text \<open>A property read throws on \<open>undefined\<close> and \<open>null\<close>.\<close>

definition member :: "jsval \<Rightarrow> string \<Rightarrow> jsval + jsval" where
  "member v k =
     (if nullish v then Inl (JErr TypeErr (''cannot read property '' @ k) []) else Inr (getp v k))"

section \<open>Numbers\<close>

fun num_less :: "jsnum \<Rightarrow> jsnum \<Rightarrow> bool" where
  "num_less (Fin a) (Fin b) = (a < b)"
| "num_less NegInf (Fin b) = True"
| "num_less NegInf PosInf = True"
| "num_less (Fin a) PosInf = True"
| "num_less a b = False"

fun num_floor :: "jsnum \<Rightarrow> jsnum" where
  "num_floor (Fin a) = Fin (of_int \<lfloor>a\<rfloor>)"
| "num_floor n = n"

text \<open>\<open>a === b\<close> on numbers: NaN differs from itself.\<close>

definition num_eq :: "jsnum \<Rightarrow> jsnum \<Rightarrow> bool" where
  "num_eq a b \<longleftrightarrow> a \<noteq> NaN \<and> a = b"

definition jint :: "int \<Rightarrow> jsval" where
  "jint i = JNum (Fin (of_int i))"

lemma num_less_zero: "num_less n (Fin 0) \<longleftrightarrow> n = NegInf \<or> (\<exists>q. n = Fin q \<and> q < 0)"
  by (cases n) auto

lemma num_floor_same:
  "num_eq (num_floor n) n \<longleftrightarrow> n = PosInf \<or> n = NegInf \<or> (\<exists>i. n = Fin (of_int i))"
proof (cases n)
  case (Fin q)
  have "of_int \<lfloor>q\<rfloor> = q \<longleftrightarrow> (\<exists>i. q = of_int i)"
    by (metis floor_of_int)
  then show ?thesis using Fin by (auto simp: num_eq_def)
qed (auto simp: num_eq_def)

section \<open>JSON\<close>

text \<open>
  \<open>JSON.stringify\<close> is modelled by the tree of the text it prints: \<open>None\<close> when it returns
  \<open>undefined\<close>, otherwise the tree \<open>JSON.parse\<close> gives back. Functions and \<open>undefined\<close> are dropped
  from objects and become \<open>null\<close> in arrays; NaN and the infinities become \<open>null\<close>; of an error
  only the enumerable own properties are printed; a BigInt throws.
\<close>

fun json_tree :: "jsval \<Rightarrow> jsval option"
  and json_members :: "(string \<times> jsval) list \<Rightarrow> (string \<times> jsval) list" where
  "json_tree JUndef = None"
| "json_tree JNull = Some JNull"
| "json_tree (JBool b) = Some (JBool b)"
| "json_tree (JNum n) = (case n of Fin q \<Rightarrow> Some (JNum (Fin q)) | _ \<Rightarrow> Some JNull)"
| "json_tree (JBigInt i) = None"
| "json_tree (JStr s) = Some (JStr s)"
| "json_tree (JArr vs) = Some (JArr (map (\<lambda>v. case json_tree v of Some t \<Rightarrow> t | None \<Rightarrow> JNull) vs))"
| "json_tree (JObj ps) = Some (JObj (json_members ps))"
| "json_tree (JFun f) = None"
| "json_tree (JErr c m ps) = Some (JObj (json_members ps))"
| "json_members [] = []"
| "json_members (p # ps) =
     (case json_tree (snd p) of
        Some t \<Rightarrow> (fst p, t) # json_members ps
      | None \<Rightarrow> json_members ps)"

fun has_bigint :: "jsval \<Rightarrow> bool" where
  "has_bigint (JBigInt i) = True"
| "has_bigint (JArr vs) = list_ex has_bigint vs"
| "has_bigint (JObj ps) = list_ex (\<lambda>p. has_bigint (snd p)) ps"
| "has_bigint (JErr c m ps) = list_ex (\<lambda>p. has_bigint (snd p)) ps"
| "has_bigint v = False"

definition bigint_error :: jsval where
  "bigint_error = JErr TypeErr ''BigInt value is not JSON serializable'' []"

definition stringify :: "jsval \<Rightarrow> jsval + jsval option" where
  "stringify v = (if has_bigint v then Inl bigint_error else Inr (json_tree v))"

text \<open>A text received from the host: JSON with its tree, or something else.\<close>

datatype jtext = Json jsval | NotJson string

definition json_syntax_error :: jsval where
  "json_syntax_error = JErr SyntaxErr ''invalid JSON'' []"

fun json_parse :: "jtext \<Rightarrow> jsval + jsval" where
  "json_parse (Json v) = Inr v"
| "json_parse (NotJson s) = Inl json_syntax_error"

text \<open>The trees of JSON texts: what \<open>json_tree\<close> leaves unchanged.\<close>

fun is_json :: "jsval \<Rightarrow> bool" where
  "is_json JNull = True"
| "is_json (JBool b) = True"
| "is_json (JNum n) = (case n of Fin q \<Rightarrow> True | _ \<Rightarrow> False)"
| "is_json (JStr s) = True"
| "is_json (JArr vs) = list_all is_json vs"
| "is_json (JObj ps) = list_all (\<lambda>p. is_json (snd p)) ps"
| "is_json v = False"

lemma json_members_id: "(\<And>p. p \<in> set ps \<Longrightarrow> json_tree (snd p) = Some (snd p)) \<Longrightarrow> json_members ps = ps"
  by (induction ps) auto

lemma json_tree_is_json: "is_json v \<Longrightarrow> json_tree v = Some v"
proof (induction v rule: is_json.induct)
  case (3 n)
  then show ?case by (cases n) auto
next
  case (5 vs)
  then show ?case by (auto simp: list_all_iff intro!: map_idI)
next
  case (6 ps)
  then show ?case by (auto simp: list_all_iff intro!: json_members_id)
qed auto

lemma is_json_no_bigint: "is_json v \<Longrightarrow> \<not> has_bigint v"
  by (induction v rule: is_json.induct) (auto simp: list_all_iff list_ex_iff)

lemma stringify_is_json: "is_json v \<Longrightarrow> stringify v = Inr (Some v)"
  by (simp add: stringify_def json_tree_is_json is_json_no_bigint)

lemma json_members_is_json:
  "(\<And>p t. p \<in> set ps \<Longrightarrow> json_tree (snd p) = Some t \<Longrightarrow> is_json t) \<Longrightarrow>
   list_all (\<lambda>p. is_json (snd p)) (json_members ps)"
  by (induction ps) (auto split: option.split)

lemma is_json_json_tree: "json_tree v = Some t \<Longrightarrow> is_json t"
proof (induction v arbitrary: t)
  case (JNum n)
  then show ?case by (cases n) auto
next
  case (JArr vs)
  have "\<forall>v \<in> set vs. is_json (case json_tree v of Some t \<Rightarrow> t | None \<Rightarrow> JNull)"
    using JArr.IH by (auto split: option.split)
  then show ?case using JArr.prems by (auto simp: list_all_iff)
next
  case (JObj ps)
  then have "list_all (\<lambda>p. is_json (snd p)) (json_members ps)"
    by (intro json_members_is_json) (metis prod.collapse snds.intros)
  then show ?case using JObj.prems by auto
next
  case (JErr c m ps)
  then have "list_all (\<lambda>p. is_json (snd p)) (json_members ps)"
    by (intro json_members_is_json) (metis prod.collapse snds.intros)
  then show ?case using JErr.prems by auto
qed auto

end
