(* ===== verification/Host.thy ===== *)
theory Host
  imports Js_Values
begin

text \<open>
  The boundary between the runtime scripts and the Go host. The host functions
  (\<open>__go_brainkit_request\<close>, \<open>__go_brainkit_subscribe\<close>, \<dots>) are not JavaScript: the model takes
  them as a parameter of type \<open>host\<close>. Whether a call throws and what it answers may depend on
  the whole history of calls, so any host behaviour is an instance. Every call is appended to
  \<open>host_log\<close>, also a call that throws: the log is the sequence of effects the scripts had.
\<close>

datatype payload = Raw string | Tree "jsval option"

datatype host_call =
    Request string payload
  | RequestAsync string payload
  | Control string payload
  | Emit string "jsval option"
  | Reply string "jsval option" string bool bool
  | Subscribe string
  | Unsubscribe string
  | BusCall string "jsval option" string jsval
  | BusCallStream string "jsval option" string jsval string jsnum string
  | Schedule string string "jsval option" string
  | Unschedule string
  | ResourceRegister string string string string
  | RegistryHas string string
  | RegistryList string
  | RegistryResolve string string
  | RegistryRuntimeResolve string string
  | SecretGet string
  | AwaitApproval string "jsval option" jsval
  | NewInstance string jsval

record host =
  has_request :: bool
  has_request_async :: bool
  has_control :: bool
  has_resource_register :: bool
  has_runtime_resolve :: bool
  has_secret_get :: bool
  throws :: "host_call list \<Rightarrow> host_call \<Rightarrow> jsval option"
  answer :: "host_call list \<Rightarrow> host_call \<Rightarrow> jtext"
  ident :: "host_call list \<Rightarrow> host_call \<Rightarrow> string"

text \<open>
  The globals of the runtime realm that the scripts share: the registry's object references,
  cleanups and subscription handlers (bus.js), the stream handlers, the source tracking, the
  captured handler error, and the abort controllers made by \<open>withCancelController\<close>.
\<close>

record ref_entry =
  re_ref :: jsval
  re_source :: string
  re_name :: string

datatype cleanup =
    CUnsubscribe string
  | CUnschedule string
  | CToolUnregister string
  | CAgentUnregister string

text \<open>A subscription's handler: user code, or the filter \<open>bus.onCancel\<close> installs.\<close>

datatype cancel_target = CallUser nat | AbortController nat

datatype sub_handler = UserHandler nat | CancelFilter jsval cancel_target

record globals =
  host_log :: "host_call list"
  refs :: "(string, ref_entry) dict"
  cleanups :: "(string, cleanup) dict"
  bus_subs :: "(string, sub_handler) dict"
  stream_handlers :: "(string, nat) dict"
  current_source :: string
  deployment_namespace :: "string option"
  pending_handler_err :: jsval
  aborted :: "nat list"
  next_controller :: nat

type_synonym 'a js = "(jsval, globals, 'a) comp"

definition host_do :: "host \<Rightarrow> host_call \<Rightarrow> unit js" where
  "host_do h c = (\<lambda>g. (case throws h (host_log g) c of Some e \<Rightarrow> Inl e | None \<Rightarrow> Inr (),
                       g\<lparr>host_log := host_log g @ [c]\<rparr>))"

definition host_text :: "host \<Rightarrow> host_call \<Rightarrow> jtext js" where
  "host_text h c = (\<lambda>g. (case throws h (host_log g) c of
                           Some e \<Rightarrow> Inl e
                         | None \<Rightarrow> Inr (answer h (host_log g) c),
                         g\<lparr>host_log := host_log g @ [c]\<rparr>))"

definition host_ident :: "host \<Rightarrow> host_call \<Rightarrow> string js" where
  "host_ident h c = (\<lambda>g. (case throws h (host_log g) c of
                            Some e \<Rightarrow> Inl e
                          | None \<Rightarrow> Inr (ident h (host_log g) c),
                          g\<lparr>host_log := host_log g @ [c]\<rparr>))"

definition of_result :: "jsval + 'a \<Rightarrow> 'a js" where
  [js_defs]: "of_result r = (\<lambda>g. (r, g))"

definition never_throws :: "host \<Rightarrow> bool" where
  "never_throws h \<longleftrightarrow> throws h = (\<lambda>_ _. None)"

definition no_log :: "(globals \<Rightarrow> bool) \<Rightarrow> bool" where
  "no_log I \<longleftrightarrow> (\<forall>g l. I g \<longrightarrow> I (g\<lparr>host_log := l\<rparr>))"

lemma keeps_host [keeps_intro]:
  assumes "no_log I"
  shows "keeps I (host_do h c)" and "keeps I (host_text h c)" and "keeps I (host_ident h c)"
  using assms by (auto simp: no_log_def keeps_def host_do_def host_text_def host_ident_def)

lemma keeps_of_result [keeps_intro]: "keeps I (of_result r)"
  by (simp add: keeps_def of_result_def)

lemma snd_host [simp]:
  "snd (host_do h c g) = g\<lparr>host_log := host_log g @ [c]\<rparr>"
  "snd (host_text h c g) = g\<lparr>host_log := host_log g @ [c]\<rparr>"
  "snd (host_ident h c g) = g\<lparr>host_log := host_log g @ [c]\<rparr>"
  by (simp_all add: host_do_def host_text_def host_ident_def)

definition empty_globals :: globals where
  "empty_globals = \<lparr>host_log = [], refs = [], cleanups = [], bus_subs = [], stream_handlers = [],
     current_source = [], deployment_namespace = None, pending_handler_err = JNull,
     aborted = [], next_controller = 0\<rparr>"

text \<open>A host that never throws, answers every request with \<open>null\<close> and numbers its identifiers.\<close>

fun bars :: "nat \<Rightarrow> string" where
  "bars 0 = []"
| "bars (Suc n) = CHR ''i'' # bars n"

definition quiet_host :: host where
  "quiet_host = \<lparr>has_request = True, has_request_async = True, has_control = True,
     has_resource_register = True, has_runtime_resolve = True, has_secret_get = True,
     throws = (\<lambda>_ _. None), answer = (\<lambda>_ _. Json JNull), ident = (\<lambda>l _. bars (Suc (length l)))\<rparr>"

lemma never_throws_quiet_host: "never_throws quiet_host"
  by (simp add: never_throws_def quiet_host_def)

end
