(* ===== verification/Bridges.thy ===== *)
theory Bridges
  imports Host
begin

text \<open>
  \<open>bridges.js\<close>: the \<open>BrainkitError\<close> class, the three bridge helpers and the decoder of the wire
  envelope \<open>{ok, data, error: {code, message, details}}\<close>.
\<close>

section \<open>BrainkitError\<close>

text \<open>
  The conversion of a value to a string. \<open>fmt\<close> prints numbers and function sources; everything
  else is the language's rule, for values without a \<open>toString\<close> of their own. \<open>js_convert\<close> is the
  conversion of every value: a \<open>toString\<close> or \<open>valueOf\<close> of the object's own that is a function answers
  (what it answers is up to \<open>fmt\<close>), and an object whose own \<open>toString\<close> is none cannot be converted.
\<close>

fun joined :: "string list \<Rightarrow> string" where
  "joined [] = []"
| "joined [s] = s"
| "joined (s # t # ss) = s @ '','' @ joined (t # ss)"

definition err_class_name :: "err_class \<Rightarrow> string" where
  "err_class_name c = (case c of PlainError \<Rightarrow> ''Error'' | BrainkitErr \<Rightarrow> ''BrainkitError''
     | TypeErr \<Rightarrow> ''TypeError'' | SyntaxErr \<Rightarrow> ''SyntaxError'' | RefErr \<Rightarrow> ''ReferenceError'')"

fun js_string :: "(jsval \<Rightarrow> string) \<Rightarrow> jsval \<Rightarrow> string" where
  "js_string fmt JUndef = ''undefined''"
| "js_string fmt JNull = ''null''"
| "js_string fmt (JBool b) = (if b then ''true'' else ''false'')"
| "js_string fmt (JNum n) = fmt (JNum n)"
| "js_string fmt (JBigInt i) = fmt (JBigInt i)"
| "js_string fmt (JStr s) = s"
| "js_string fmt (JArr vs) = joined (map (\<lambda>v. if nullish v then [] else js_string fmt v) vs)"
| "js_string fmt (JObj ps) = ''[object Object]''"
| "js_string fmt (JFun f) = fmt (JFun f)"
| "js_string fmt (JErr c m ps) =
     (if m = [] then err_class_name c else err_class_name c @ '': '' @ m)"

definition conversion_error :: jsval where
  "conversion_error = JErr TypeErr ''toPrimitive'' []"

definition own_conversion :: "(jsval \<Rightarrow> string) \<Rightarrow> jsval \<Rightarrow> (string \<times> jsval) list \<Rightarrow> string \<Rightarrow> jsval + string" where
  "own_conversion fmt v ps plain =
     (case dget ps ''toString'' of
        None \<Rightarrow> Inr plain
      | Some f \<Rightarrow>
          if is_fun f then Inr (fmt v)
          else (case dget ps ''valueOf'' of
                  Some g \<Rightarrow> if is_fun g then Inr (fmt v) else Inl conversion_error
                | None \<Rightarrow> Inl conversion_error))"

fun collect_parts :: "(jsval + string) list \<Rightarrow> jsval + string list" where
  "collect_parts [] = Inr []"
| "collect_parts (Inl e # rs) = Inl e"
| "collect_parts (Inr s # rs) = (case collect_parts rs of Inl e \<Rightarrow> Inl e | Inr ss \<Rightarrow> Inr (s # ss))"

fun js_convert :: "(jsval \<Rightarrow> string) \<Rightarrow> jsval \<Rightarrow> jsval + string" where
  "js_convert fmt (JArr vs) =
     (case collect_parts (map (\<lambda>v. if nullish v then Inr [] else js_convert fmt v) vs) of
        Inl e \<Rightarrow> Inl e
      | Inr ss \<Rightarrow> Inr (joined ss))"
| "js_convert fmt (JObj ps) = own_conversion fmt (JObj ps) ps ''[object Object]''"
| "js_convert fmt (JErr c m ps) = own_conversion fmt (JErr c m ps) ps (js_string fmt (JErr c m ps))"
| "js_convert fmt v = Inr (js_string fmt v)"

text \<open>The values that cannot be converted.\<close>

fun unconvertible :: "jsval \<Rightarrow> bool" where
  "unconvertible (JArr vs) = list_ex unconvertible vs"
| "unconvertible (JObj ps) = ((\<exists>f\<in>set_option (dget ps ''toString''). \<not> is_fun f)
     \<and> (\<forall>g\<in>set_option (dget ps ''valueOf''). \<not> is_fun g))"
| "unconvertible (JErr c m ps) = ((\<exists>f\<in>set_option (dget ps ''toString''). \<not> is_fun f)
     \<and> (\<forall>g\<in>set_option (dget ps ''valueOf''). \<not> is_fun g))"
| "unconvertible v = False"

lemma collect_parts_Inl: "(\<exists>e. collect_parts rs = Inl e) \<longleftrightarrow> (\<exists>e. Inl e \<in> set rs)"
  by (induction rs rule: collect_parts.induct) (auto split: sum.split)

lemma collect_parts_error: "collect_parts rs = Inl e \<Longrightarrow> Inl e \<in> set rs"
  by (induction rs rule: collect_parts.induct) (auto split: sum.splits)

lemma js_convert_cases: "if unconvertible v then js_convert fmt v = Inl conversion_error else \<exists>s. js_convert fmt v = Inr s"
proof (induction v)
  case (JArr vs)
  let ?rs = "map (\<lambda>v. if nullish v then Inr [] else js_convert fmt v) vs"
  have nullish: "\<not> unconvertible v" if "nullish v" for v using that by (cases v) auto
  have bad: "\<exists>v\<in>set vs. unconvertible v" "e = conversion_error" if "Inl e \<in> set ?rs" for e
  proof -
    from that obtain v where "v \<in> set vs" "js_convert fmt v = Inl e" by (auto split: if_splits)
    with JArr [of v] show "\<exists>v\<in>set vs. unconvertible v" "e = conversion_error" by (auto split: if_splits)
  qed
  have good: "\<exists>e. Inl e \<in> set ?rs" if "v \<in> set vs" "unconvertible v" for v
    using JArr [of v] that nullish [of v] by (force simp: image_iff)
  show ?case
  proof (cases "collect_parts ?rs")
    case (Inl e)
    then show ?thesis using bad [of e] collect_parts_error [of ?rs e] by (auto simp: list_ex_iff)
  next
    case (Inr ss)
    then have "\<not> (\<exists>e. Inl e \<in> set ?rs)" by (metis collect_parts_Inl sum.distinct(1))
    then show ?thesis using good Inr by (auto simp: list_ex_iff)
  qed
qed (auto simp: own_conversion_def split: option.split)

definition BrainkitError :: "string \<Rightarrow> jsval \<Rightarrow> jsval \<Rightarrow> jsval" where
  "BrainkitError message code details =
     JErr BrainkitErr message
       [(''code'', js_or code (JStr ''INTERNAL_ERROR'')), (''details'', js_or details (JObj []))]"

definition is_brainkit_error :: "jsval \<Rightarrow> bool" where
  "is_brainkit_error e = (case e of JErr BrainkitErr m ps \<Rightarrow> True | _ \<Rightarrow> False)"

definition validation_error :: "string \<Rightarrow> string \<Rightarrow> jsval" where
  "validation_error message field =
     BrainkitError message (JStr ''VALIDATION_ERROR'') (JObj [(''field'', JStr field)])"

lemma BrainkitError_code [simp]: "getp (BrainkitError m c d) ''code'' = js_or c (JStr ''INTERNAL_ERROR'')"
  by (simp add: BrainkitError_def)

lemma BrainkitError_details [simp]: "getp (BrainkitError m c d) ''details'' = js_or d (JObj [])"
  by (simp add: BrainkitError_def)

lemma BrainkitError_message [simp]: "getp (BrainkitError m c d) ''message'' = JStr m"
  by (simp add: BrainkitError_def)

lemma BrainkitError_class [simp]: "is_brainkit_error (BrainkitError m c d)"
  by (simp add: BrainkitError_def is_brainkit_error_def)

lemma truthy_BrainkitError [simp]: "truthy (BrainkitError m c d)"
  by (simp add: BrainkitError_def)

section \<open>Bridge helpers\<close>

text \<open>\<open>typeof payload === "string" ? payload : JSON.stringify(payload)\<close>\<close>

definition to_payload :: "jsval \<Rightarrow> jsval + payload" where
  "to_payload v =
     (case v of
        JStr s \<Rightarrow> Inr (Raw s)
      | _ \<Rightarrow> (case stringify v of Inl e \<Rightarrow> Inl e | Inr t \<Rightarrow> Inr (Tree t)))"

definition bridgeRequest :: "host \<Rightarrow> string \<Rightarrow> jsval \<Rightarrow> jtext js" where
  "bridgeRequest h topic payload =
     (if has_request h
      then bind (of_result (to_payload payload)) (\<lambda>p. host_text h (Request topic p))
      else throw (BrainkitError (''platform bridge not available (topic: '' @ topic @ '')'')
                    (JStr ''BRIDGE_ERROR'') JUndef))"

text \<open>The promise's settlement: the fallback resolves with the synchronous answer.\<close>

definition bridgeRequestAsync :: "host \<Rightarrow> string \<Rightarrow> jsval \<Rightarrow> jtext js" where
  "bridgeRequestAsync h topic payload =
     (if has_request_async h
      then bind (of_result (to_payload payload)) (\<lambda>p. host_text h (RequestAsync topic p))
      else bridgeRequest h topic payload)"

definition bridgeControl :: "host \<Rightarrow> string \<Rightarrow> jsval \<Rightarrow> jtext js" where
  "bridgeControl h action payload =
     (if has_control h
      then bind (of_result (to_payload payload)) (\<lambda>p. host_text h (Control action p))
      else throw (BrainkitError (''platform control bridge not available (action: '' @ action @ '')'')
                    (JStr ''BRIDGE_ERROR'') JUndef))"

section \<open>The wire envelope\<close>

definition parseBridgeResponse :: "(jsval \<Rightarrow> string) \<Rightarrow> jtext \<Rightarrow> jsval + jsval" where
  "parseBridgeResponse fmt raw =
     (case json_parse raw of
        Inl e \<Rightarrow> Inl e
      | Inr result \<Rightarrow>
          if truthy result \<and> is_bool (getp result ''ok'') then
            (if truthy (getp result ''ok'') then Inr (getp result ''data'')
             else (let e = js_or (getp result ''error'') (JObj []) in
               case js_convert fmt (js_or (getp e ''message'') (JStr ''unknown error'')) of
                 Inl err \<Rightarrow> Inl err
               | Inr message \<Rightarrow>
                   Inl (BrainkitError message
                          (js_or (getp e ''code'') (JStr ''INTERNAL_ERROR''))
                          (js_or (getp e ''details'') (JObj [])))))
          else if truthy result \<and> truthy (getp result ''error'') \<and> is_str (getp result ''error'') then
            Inl (BrainkitError
                   (js_string fmt (getp result ''error''))
                   (js_or (getp result ''code'') (JStr ''INTERNAL_ERROR''))
                   (js_or (getp result ''details'') (JObj [])))
          else Inr result)"

text \<open>The envelope \<open>msg.reply\<close> sends, and the one the host sends for a typed error.\<close>

definition ok_envelope :: "jsval \<Rightarrow> jsval" where
  "ok_envelope v = JObj [(''ok'', JBool True), (''data'', v)]"

definition error_envelope :: "string \<Rightarrow> string \<Rightarrow> jsval \<Rightarrow> jsval" where
  "error_envelope code message details =
     JObj [(''ok'', JBool False),
           (''error'', JObj [(''code'', JStr code), (''message'', JStr message), (''details'', details)])]"

lemma parse_ok_envelope [simp]: "parseBridgeResponse fmt (Json (ok_envelope v)) = Inr v"
  by (simp add: parseBridgeResponse_def ok_envelope_def)

lemma parse_error_envelope:
  assumes "code \<noteq> []" and "message \<noteq> []" and "truthy details"
  shows "parseBridgeResponse fmt (Json (error_envelope code message details)) =
    Inl (BrainkitError message (JStr code) details)"
  using assms by (simp add: parseBridgeResponse_def error_envelope_def js_or_def)

lemma js_or_code_truthy: "truthy (js_or c (JStr ''INTERNAL_ERROR''))"
  by (simp add: js_or_def)

text \<open>
  C34. Decoding a response that is JSON throws typed errors, with one exception: whatever is thrown is a
  \<open>BrainkitError\<close> whose \<open>code\<close> is truthy, so that callers can discriminate on \<open>e.code\<close>, unless \<open>ok\<close> is false
  and the message in the envelope cannot be converted to a string (an object with a \<open>toString\<close> of its own that is no
  function, or an array that holds one); then it is the plain type error of that conversion. A response with a
  boolean \<open>ok\<close> is decided by that flag alone, whatever a legacy \<open>error\<close> field says.
\<close>

theorem envelope_decoding_typed:
  "(case parseBridgeResponse fmt (Json v) of
      Inl e \<Rightarrow>
        (if getp v ''ok'' = JBool False \<and> unconvertible (getp (getp v ''error'') ''message'')
         then e = conversion_error
         else is_brainkit_error e \<and> truthy (getp e ''code''))
        \<and> (getp v ''ok'' = JBool False \<or> \<not> is_bool (getp v ''ok'') \<and> is_str (getp v ''error''))
    | Inr r \<Rightarrow> r = (if getp v ''ok'' = JBool True then getp v ''data'' else v) \<and> getp v ''ok'' \<noteq> JBool False)"
proof (cases "getp v ''ok''")
  case (JBool b)
  then have v: "truthy v" by (cases v) auto
  show ?thesis
  proof (cases b)
    case True
    with JBool v show ?thesis by (simp add: parseBridgeResponse_def)
  next
    case False
    let ?m = "getp (js_or (getp v ''error'') (JObj [])) ''message''"
    have falsy: "\<not> unconvertible x" if "\<not> truthy x" for x using that by (cases x) auto
    have "getp x ''message'' = JUndef" if "\<not> truthy x" for x using that by (cases x) auto
    then have "unconvertible (js_or ?m (JStr ''unknown error'')) \<longleftrightarrow> unconvertible (getp (getp v ''error'') ''message'')"
      using falsy by (auto simp: js_or_def)
    then show ?thesis
      using JBool v False js_convert_cases [of "js_or ?m (JStr ''unknown error'')" fmt]
      by (auto simp: parseBridgeResponse_def Let_def js_or_code_truthy split: if_splits)
  qed
qed (auto simp: parseBridgeResponse_def js_or_code_truthy)

text \<open>The exception does occur.\<close>

lemma envelope_decoding_untyped:
  "parseBridgeResponse fmt (Json (JObj [(''ok'', JBool False),
      (''error'', JObj [(''code'', JStr ''NOT_FOUND''), (''message'', JObj [(''toString'', jint 1)])])])) = Inl conversion_error"
  by (simp add: parseBridgeResponse_def js_or_def own_conversion_def jint_def)

end
