(* ===== verification/Registry.thy ===== *)
theory Registry
  imports Bridges
begin

text \<open>
  \<open>bus.js\<close>, the resource registry: object references in \<open>_refs\<close> under the key \<open>type:id\<close>,
  a cleanup callback per key, and the host's metadata registry fed through
  \<open>__go_resource_register\<close>.
\<close>

definition ref_key :: "string \<Rightarrow> string \<Rightarrow> string" where
  "ref_key type rid = type @ CHR '':'' # rid"

definition reg_register ::
  "host \<Rightarrow> string \<Rightarrow> string \<Rightarrow> string \<Rightarrow> jsval \<Rightarrow> cleanup option \<Rightarrow> string \<Rightarrow> unit js" where
  "reg_register h type rid name ref cleanupFn source =
     bind (gets current_source) (\<lambda>cur.
       let key = ref_key type rid;
           resolvedSource = str_or source (str_or cur ''unknown'')
       in seq (if has_resource_register h
               then host_do h (ResourceRegister type rid (str_or name rid) resolvedSource)
               else ret ())
         (modify (\<lambda>g. g\<lparr>refs := dset (refs g) key
                           \<lparr>re_ref = js_or ref JNull, re_source = resolvedSource, re_name = str_or name rid\<rparr>,
                         cleanups := (case cleanupFn of
                             Some f \<Rightarrow> dset (cleanups g) key f
                           | None \<Rightarrow> ddel (cleanups g) key)\<rparr>)))"

text \<open>The cleanup closures: what each does when the registry calls it.\<close>

definition tool_payload :: "string \<Rightarrow> payload" where
  "tool_payload name = Tree (Some (JObj [(''name'', JStr name)]))"

fun run_cleanup :: "host \<Rightarrow> cleanup \<Rightarrow> unit js" where
  "run_cleanup h (CUnsubscribe subId) =
     seq (host_do h (Unsubscribe subId)) (modify (\<lambda>g. g\<lparr>bus_subs := ddel (bus_subs g) subId\<rparr>))"
| "run_cleanup h (CUnschedule rid) = host_do h (Unschedule rid)"
| "run_cleanup h (CToolUnregister name) =
     catch (bind (bridgeControl h ''tools.unregister'' (JObj [(''name'', JStr name)])) (\<lambda>_. ret ())) (\<lambda>_. ret ())"
| "run_cleanup h (CAgentUnregister name) =
     catch (bind (bridgeControl h ''agents.unregister'' (JObj [(''name'', JStr name)])) (\<lambda>_. ret ())) (\<lambda>_. ret ())"

definition reg_unregister :: "host \<Rightarrow> string \<Rightarrow> string \<Rightarrow> ref_entry option js" where
  "reg_unregister h type rid =
     (let key = ref_key type rid in
      seq (bind (gets (\<lambda>g. dget (cleanups g) key)) (\<lambda>c.
             case c of
               None \<Rightarrow> ret ()
             | Some f \<Rightarrow> seq (catch (run_cleanup h f) (\<lambda>_. ret ()))
                            (modify (\<lambda>g. g\<lparr>cleanups := ddel (cleanups g) key\<rparr>))))
        (bind (gets (\<lambda>g. dget (refs g) key)) (\<lambda>entry.
           seq (modify (\<lambda>g. g\<lparr>refs := ddel (refs g) key\<rparr>)) (ret entry))))"

text \<open>A listed entry: type, id, name and source.\<close>

type_synonym listing = "string \<times> string \<times> string \<times> string"

definition list_entry :: "string \<times> ref_entry \<Rightarrow> listing" where
  "list_entry kv =
     (let t = before (CHR '':'') (fst kv); rid = after (CHR '':'') (fst kv)
      in (t, rid, str_or (re_name (snd kv)) rid, re_source (snd kv)))"

definition reg_list :: "string \<Rightarrow> globals \<Rightarrow> listing list" where
  "reg_list type g = filter (\<lambda>e. type = [] \<or> fst e = type) (map list_entry (refs g))"

definition reg_get :: "string \<Rightarrow> string \<Rightarrow> globals \<Rightarrow> ref_entry option" where
  "reg_get type rid g = dget (refs g) (ref_key type rid)"

section \<open>Keys\<close>

lemma before_ref_key: "CHR '':'' \<notin> set type \<Longrightarrow> before (CHR '':'') (ref_key type rid) = type"
  by (simp add: ref_key_def before_append)

lemma after_ref_key: "CHR '':'' \<notin> set type \<Longrightarrow> after (CHR '':'') (ref_key type rid) = rid"
  by (simp add: ref_key_def after_append)

lemma ref_key_inject:
  "CHR '':'' \<notin> set type \<Longrightarrow> CHR '':'' \<notin> set type' \<Longrightarrow>
   ref_key type rid = ref_key type' rid' \<longleftrightarrow> type = type' \<and> rid = rid'"
  unfolding ref_key_def by (auto dest: sep_cong)

lemma ref_key_inject_same [simp]: "ref_key type rid = ref_key type rid' \<longleftrightarrow> rid = rid'"
  by (simp add: ref_key_def)

section \<open>The effect of each operation\<close>

definition entry_of :: "string \<Rightarrow> string \<Rightarrow> jsval \<Rightarrow> string \<Rightarrow> globals \<Rightarrow> ref_entry" where
  "entry_of rid name ref source g =
     \<lparr>re_ref = js_or ref JNull, re_source = str_or source (str_or (current_source g) ''unknown''),
      re_name = str_or name rid\<rparr>"

lemma reg_register_result:
  assumes "reg_register h type rid name ref cf source g = (Inr u, g')"
  shows "refs g' = dset (refs g) (ref_key type rid) (entry_of rid name ref source g)"
    and "cleanups g' = (case cf of Some f \<Rightarrow> dset (cleanups g) (ref_key type rid) f
                                 | None \<Rightarrow> ddel (cleanups g) (ref_key type rid))"
    and "bus_subs g' = bus_subs g"
    and "current_source g' = current_source g"
  using assms
  by (auto simp: reg_register_def js_defs host_do_def Let_def entry_of_def
      split: if_splits option.splits)

lemma reg_register_ok:
  "never_throws h \<Longrightarrow> \<exists>g'. reg_register h type rid name ref cf source g = (Inr (), g')"
  by (auto simp: reg_register_def js_defs host_do_def never_throws_def Let_def)

lemma reg_register_throw:
  assumes "reg_register h type rid name ref cf source g = (Inl e, g')"
  shows "refs g' = refs g" and "cleanups g' = cleanups g" and "bus_subs g' = bus_subs g"
  using assms
  by (auto simp: reg_register_def js_defs host_do_def Let_def split: if_splits option.splits)

lemma bridgeControl_frame:
  "\<exists>l. snd (bridgeControl h a p g) = g\<lparr>host_log := host_log g @ l\<rparr>"
  by (auto simp: bridgeControl_def js_defs host_text_def intro: exI [of _ "[]"]
      split: sum.splits option.splits)

lemma run_cleanup_refs [simp]:
  "refs (snd (run_cleanup h c g)) = refs g" "cleanups (snd (run_cleanup h c g)) = cleanups g"
proof -
  have "refs (snd (run_cleanup h c g)) = refs g \<and> cleanups (snd (run_cleanup h c g)) = cleanups g"
  proof (cases c)
    case (CToolUnregister n)
    then show ?thesis
      using bridgeControl_frame [of h "''tools.unregister''" "JObj [(''name'', JStr n)]" g]
      by (auto simp: js_defs split: prod.splits sum.splits)
  next
    case (CAgentUnregister n)
    then show ?thesis
      using bridgeControl_frame [of h "''agents.unregister''" "JObj [(''name'', JStr n)]" g]
      by (auto simp: js_defs split: prod.splits sum.splits)
  qed (auto simp: js_defs host_do_def split: option.splits)
  then show "refs (snd (run_cleanup h c g)) = refs g" "cleanups (snd (run_cleanup h c g)) = cleanups g"
    by auto
qed

lemma run_cleanup_bus_subs:
  "bus_subs (snd (run_cleanup h c g)) =
     (case c of
        CUnsubscribe s \<Rightarrow>
          (if throws h (host_log g) (Unsubscribe s) = None then ddel (bus_subs g) s else bus_subs g)
      | _ \<Rightarrow> bus_subs g)"
proof (cases c)
  case (CToolUnregister n)
  then show ?thesis
    using bridgeControl_frame [of h "''tools.unregister''" "JObj [(''name'', JStr n)]" g]
    by (auto simp: js_defs split: prod.splits sum.splits)
next
  case (CAgentUnregister n)
  then show ?thesis
    using bridgeControl_frame [of h "''agents.unregister''" "JObj [(''name'', JStr n)]" g]
    by (auto simp: js_defs split: prod.splits sum.splits)
qed (auto simp: js_defs host_do_def split: option.splits)

text \<open>What an unregistration does, in one equation: the cleanup, if any, then both deletions.\<close>

definition after_cleanup :: "host \<Rightarrow> string \<Rightarrow> globals \<Rightarrow> globals" where
  "after_cleanup h key g =
     (case dget (cleanups g) key of
        None \<Rightarrow> g
      | Some f \<Rightarrow> (let g' = snd (run_cleanup h f g) in g'\<lparr>cleanups := ddel (cleanups g') key\<rparr>))"

lemma reg_unregister_eq:
  "reg_unregister h type rid g =
     (Inr (reg_get type rid g),
      (after_cleanup h (ref_key type rid) g)\<lparr>refs := ddel (refs g) (ref_key type rid)\<rparr>)"
proof (cases "dget (cleanups g) (ref_key type rid)")
  case None
  then show ?thesis
    by (simp add: reg_unregister_def js_defs after_cleanup_def reg_get_def Let_def)
next
  case (Some f)
  obtain r g' where r: "run_cleanup h f g = (r, g')" by force
  then have "refs g' = refs g" "cleanups g' = cleanups g"
    using run_cleanup_refs [of h f g] by auto
  with Some r show ?thesis
    by (cases r) (simp_all add: reg_unregister_def js_defs after_cleanup_def reg_get_def Let_def)
qed

lemma after_cleanup_cleanups: "dget (cleanups (after_cleanup h key g)) key = None"
  by (simp add: after_cleanup_def Let_def split: option.split)

lemma after_cleanup_refs [simp]: "refs (after_cleanup h key g) = refs g"
  by (simp add: after_cleanup_def Let_def split: option.split)

lemma after_cleanup_idle: "dget (cleanups g) key = None \<Longrightarrow> after_cleanup h key g = g"
  by (simp add: after_cleanup_def)

section \<open>Properties\<close>

text \<open>
  Remark: What was registered is what \<open>get\<close> returns: under its type and id, with the reference
  (\<open>null\<close> when falsy), the name (the id when empty) and the source, which is the explicit one, else
  the running deployment's, else \<open>unknown\<close>; and no entry of another key is touched.
\<close>

theorem registry_get_after_register:
  "never_throws h \<Longrightarrow>
   reg_get t i (snd (reg_register h type rid name ref cf source g)) =
     (if ref_key t i = ref_key type rid
      then Some \<lparr>re_ref = (if truthy ref then ref else JNull),
                 re_source = (if source \<noteq> [] then source
                              else if current_source g \<noteq> [] then current_source g else ''unknown''),
                 re_name = (if name \<noteq> [] then name else rid)\<rparr>
      else reg_get t i g)"
proof -
  assume "never_throws h"
  then obtain g' where r: "reg_register h type rid name ref cf source g = (Inr (), g')"
    using reg_register_ok by blast
  then show ?thesis
    using reg_register_result(1) [OF r]
    by (simp add: reg_get_def entry_of_def js_or_def str_or_def)
qed

theorem registry_get_after_register_witness:
  "reg_get ''tool'' ''add'' (snd (reg_register quiet_host ''tool'' ''add'' [] (JFun 7) None [] empty_globals))
     = Some \<lparr>re_ref = JFun 7, re_source = ''unknown'', re_name = ''add''\<rparr>"
  using registry_get_after_register [OF never_throws_quiet_host,
      of "''tool''" "''add''" "''tool''" "''add''" "[]" "JFun 7" None "[]" empty_globals]
  by (simp add: empty_globals_def)

text \<open>
  Remark: Unregistering runs the entry's cleanup exactly once: the second unregistration of the same
  type and id finds nothing, returns \<open>null\<close>, makes no host call and leaves the state unchanged.
\<close>

theorem registry_unregister_once:
  "reg_unregister h type rid (snd (reg_unregister h type rid g)) =
     (Inr None, snd (reg_unregister h type rid g))"
proof -
  let ?k = "ref_key type rid"
  let ?g = "(after_cleanup h ?k g)\<lparr>refs := ddel (refs g) ?k\<rparr>"
  have idle: "after_cleanup h ?k ?g = ?g"
    by (rule after_cleanup_idle) (simp add: after_cleanup_cleanups)
  show ?thesis
    by (simp add: reg_unregister_eq idle reg_get_def ddel_absent)
qed

text \<open>
  Remark: Listing recovers what was registered: an entry stored under a type without a colon is listed
  under exactly that type and id, even when the id itself contains colons, and it is listed both by
  its type and in the unfiltered listing.
\<close>

theorem registry_list_roundtrip:
  assumes "never_throws h" and "CHR '':'' \<notin> set type" and "type \<noteq> []"
  shows "(type, rid, str_or name rid, str_or source (str_or (current_source g) ''unknown''))
           \<in> set (reg_list type (snd (reg_register h type rid (str_or name rid) ref cf source g)))
             \<inter> set (reg_list [] (snd (reg_register h type rid (str_or name rid) ref cf source g)))"
    (is "?e \<in> set (reg_list type ?g) \<inter> _")
proof -
  have name: "str_or (str_or name rid) rid = str_or name rid" by (simp add: str_or_def)
  obtain g' where r: "reg_register h type rid (str_or name rid) ref cf source g = (Inr (), g')"
    using reg_register_ok [OF assms(1)] by blast
  let ?en = "entry_of rid (str_or name rid) ref source g"
  have "dget (refs g') (ref_key type rid) = Some ?en"
    using reg_register_result(1) [OF r] by simp
  then have mem: "(ref_key type rid, ?en) \<in> set (refs g')" by (rule dget_Some_mem)
  have "list_entry (ref_key type rid, ?en) = ?e"
    using assms(2) name by (simp add: list_entry_def entry_of_def before_ref_key after_ref_key)
  with mem have "?e \<in> set (map list_entry (refs g'))"
    by (metis image_eqI list.set_map)
  with r show ?thesis by (simp add: reg_list_def)
qed

theorem registry_list_roundtrip_witness:
  "(''topic'', ''ts.a:b'', ''b'', ''a.ts'')
     \<in> set (reg_list ''topic'' (snd (reg_register quiet_host ''topic'' ''ts.a:b'' (str_or ''b'' ''ts.a:b'') JNull None ''a.ts'' empty_globals)))"
  using registry_list_roundtrip [OF never_throws_quiet_host, of "''topic''" "''ts.a:b''" "''b''" "''a.ts''" empty_globals JNull None]
  by (simp add: str_or_def)

end
