(* ===== verification/Bus.thy ===== *)
theory Bus
  imports Registry
begin

text \<open>
  \<open>bus.js\<close>, the message bus: publishing, subscriptions and their dispatch, the request/reply and
  streaming calls with their argument checks, schedules, and cancellation.
\<close>

section \<open>Messages and replies\<close>

text \<open>What \<open>wrapMsg\<close> exposes; absent fields of the raw message are empty strings.\<close>

record message =
  m_payload :: jsval
  m_replyTo :: string
  m_correlationId :: string
  m_topic :: string
  m_callerId :: string

definition str_field :: "jsval \<Rightarrow> string \<Rightarrow> string" where
  "str_field v k = (case getp v k of JStr s \<Rightarrow> s | _ \<Rightarrow> [])"

definition wrapMsg :: "jsval \<Rightarrow> message" where
  "wrapMsg raw =
     \<lparr>m_payload = getp raw ''payload'', m_replyTo = str_field raw ''replyTo'',
      m_correlationId = str_field raw ''correlationId'', m_topic = str_field raw ''topic'',
      m_callerId = str_field raw ''callerId''\<rparr>"

definition msg_reply :: "host \<Rightarrow> message \<Rightarrow> jsval \<Rightarrow> unit js" where
  "msg_reply h m data =
     (if m_replyTo m \<noteq> [] then
        bind (of_result (stringify (JObj [(''ok'', JBool True),
                                          (''data'', if data = JUndef then JNull else data)])))
          (\<lambda>env. host_do h (Reply (m_replyTo m) env (m_correlationId m) True True))
      else ret ())"

definition msg_send :: "host \<Rightarrow> message \<Rightarrow> jsval \<Rightarrow> unit js" where
  "msg_send h m data =
     (if m_replyTo m \<noteq> [] then
        bind (of_result (stringify data))
          (\<lambda>t. host_do h (Reply (m_replyTo m) t (m_correlationId m) False False))
      else ret ())"

text \<open>The \<open>msg.stream\<close> operations share the counter \<open>_seq\<close> of their message.\<close>

datatype stream_op =
    SText jsval
  | SProgress jsval jsval
  | SObject jsval
  | SEvent jsval jsval
  | SError jsval
  | SEnd jsval

fun is_terminal :: "stream_op \<Rightarrow> bool" where
  "is_terminal (SError m) = True"
| "is_terminal (SEnd d) = True"
| "is_terminal x = False"

fun stream_body :: "(jsval \<Rightarrow> string) \<Rightarrow> nat \<Rightarrow> stream_op \<Rightarrow> jsval + jsval" where
  "stream_body fmt n (SText chunk) = Inr (
     JObj [(''type'', JStr ''text''), (''seq'', jint (int n)), (''data'', chunk)])"
| "stream_body fmt n (SProgress value message) = Inr (
     JObj [(''type'', JStr ''progress''), (''seq'', jint (int n)),
           (''data'', JObj [(''value'', value), (''message'', js_or message (JStr []))])])"
| "stream_body fmt n (SObject partial) = Inr (
     JObj [(''type'', JStr ''object''), (''seq'', jint (int n)), (''data'', partial)])"
| "stream_body fmt n (SEvent name data) = Inr (
     JObj [(''type'', JStr ''event''), (''seq'', jint (int n)), (''event'', name),
           (''data'', js_or data JNull)])"
| "stream_body fmt n (SError message) =
     (case js_convert fmt message of
        Inl e \<Rightarrow> Inl e
      | Inr text \<Rightarrow> Inr (
          JObj [(''type'', JStr ''error''), (''seq'', jint (int n)), (''total'', jint (int n)),
                (''data'', JObj [(''message'', JStr text)])]))"
| "stream_body fmt n (SEnd finalData) = Inr (
     JObj [(''type'', JStr ''end''), (''seq'', jint (int n)), (''total'', jint (int n)),
           (''data'', js_or finalData JNull)])"

text \<open>
  \<open>_seq++\<close> is evaluated before the text is printed, so a chunk that does not serialize still
  uses a number. The state is the counter and the globals.
\<close>

definition msg_stream ::
  "host \<Rightarrow> (jsval \<Rightarrow> string) \<Rightarrow> message \<Rightarrow> stream_op \<Rightarrow> (jsval, nat \<times> globals, unit) comp" where
  "msg_stream h fmt m x = (\<lambda>(n, g).
     if m_replyTo m \<noteq> [] then
       (let n' = (if is_terminal x then n else Suc n) in
        case bind (of_result (stream_body fmt n x)) (\<lambda>body.
               bind (of_result (stringify body)) (\<lambda>t. host_do h (Reply (m_replyTo m) t (m_correlationId m) (is_terminal x) False))) g
        of (r, g') \<Rightarrow> (r, (n', g')))
     else (Inr (), (n, g)))"

section \<open>Publish, subscribe and dispatch\<close>

definition null_if_undefined :: "jsval \<Rightarrow> jsval" where
  "null_if_undefined v = (if v = JUndef then JNull else v)"

definition bus_publish :: "host \<Rightarrow> string \<Rightarrow> jsval \<Rightarrow> unit js" where
  "bus_publish h topic data =
     bind (of_result (stringify (null_if_undefined data))) (\<lambda>t. host_do h (Emit topic t))"

definition bus_emit :: "host \<Rightarrow> string \<Rightarrow> jsval \<Rightarrow> unit js" where
  "bus_emit h topic data =
     bind (of_result (stringify (js_or data JNull))) (\<lambda>t. host_do h (Emit topic t))"

definition bus_subscribe :: "host \<Rightarrow> string \<Rightarrow> sub_handler \<Rightarrow> string js" where
  "bus_subscribe h topic handler =
     bind (host_ident h (Subscribe topic)) (\<lambda>subId.
       seq (modify (\<lambda>g. g\<lparr>bus_subs := dset (bus_subs g) subId handler\<rparr>))
        (seq (reg_register h ''subscription'' subId subId JNull (Some (CUnsubscribe subId)) [])
          (ret subId)))"

definition no_namespace_error :: jsval where
  "no_namespace_error = JErr PlainError ''bus.on() can only be used inside a deployed .ts file'' []"

definition bus_on :: "host \<Rightarrow> string \<Rightarrow> sub_handler \<Rightarrow> string js" where
  "bus_on h localTopic handler =
     bind (gets deployment_namespace) (\<lambda>ns.
       case ns of
         None \<Rightarrow> throw no_namespace_error
       | Some n \<Rightarrow> if n = [] then throw no_namespace_error
                  else bus_subscribe h (n @ ''.'' @ localTopic) handler)"

definition bus_unsubscribe :: "host \<Rightarrow> string \<Rightarrow> unit js" where
  "bus_unsubscribe h subId =
     seq (host_do h (Unsubscribe subId))
      (seq (modify (\<lambda>g. g\<lparr>bus_subs := ddel (bus_subs g) subId\<rparr>))
        (bind (reg_unregister h ''subscription'' subId) (\<lambda>_. ret ())))"

text \<open>
  What running a handler can do: return or throw, at once or through the promise it returned.
  \<open>run\<close> is the deployed code, a parameter.
\<close>

datatype handler_result = Returned jsval | Threw jsval | Fulfilled jsval | Rejected jsval

fun outcome_of :: "handler_result \<Rightarrow> jsval + jsval" where
  "outcome_of (Returned v) = Inr v"
| "outcome_of (Fulfilled v) = Inr v"
| "outcome_of (Threw e) = Inl e"
| "outcome_of (Rejected e) = Inl e"

definition capture :: "jsval \<Rightarrow> globals \<Rightarrow> globals" where
  "capture e g =
     (if truthy e \<and> truthy (getp e ''code'') then
        g\<lparr>pending_handler_err := JObj [(''code'', getp e ''code''),
             (''message'', js_or (getp e ''message'') (JStr [])),
             (''details'', js_or (getp e ''details'') JNull)]\<rparr>
      else g)"

text \<open>The listener \<open>bus.onCancel\<close> subscribes: a matching message fires the target, errors are dropped.\<close>

definition fire_target :: "cancel_target \<Rightarrow> globals \<Rightarrow> globals" where
  "fire_target t g =
     (case t of
        CallUser n \<Rightarrow> g
      | AbortController c \<Rightarrow> g\<lparr>aborted := (if c \<in> set (aborted g) then aborted g else aborted g @ [c])\<rparr>)"

definition cancel_matches :: "jsval \<Rightarrow> message \<Rightarrow> bool" where
  "cancel_matches correlationId m \<longleftrightarrow>
     truthy (m_payload m) \<and> strict_eq (getp (m_payload m) ''correlationId'') correlationId"

definition dispatch :: "(nat \<Rightarrow> message \<Rightarrow> handler_result) \<Rightarrow> string \<Rightarrow> jsval \<Rightarrow> jsval option js" where
  "dispatch run subId raw =
     bind (gets (\<lambda>g. dget (bus_subs g) subId)) (\<lambda>handler.
       case handler of
         None \<Rightarrow> ret None
       | Some (UserHandler f) \<Rightarrow>
           (case outcome_of (run f (wrapMsg raw)) of
              Inr v \<Rightarrow> ret (Some v)
            | Inl e \<Rightarrow> seq (modify (capture e)) (throw e))
       | Some (CancelFilter correlationId t) \<Rightarrow>
           seq (if cancel_matches correlationId (wrapMsg raw) then modify (fire_target t) else ret ())
            (ret (Some JUndef)))"

section \<open>Request/reply\<close>

text \<open>\<open>service.replace(/\.ts$/, "").replace(/\//g, ".")\<close>\<close>

definition strip_ts :: "string \<Rightarrow> string" where
  "strip_ts s = (if ends_with ''.ts'' s then take (length s - 3) s else s)"

definition slashes_to_dots :: "string \<Rightarrow> string" where
  "slashes_to_dots s = map (\<lambda>c. if c = CHR ''/'' then CHR ''.'' else c) s"

definition bus_sendTo :: "host \<Rightarrow> string \<Rightarrow> string \<Rightarrow> jsval \<Rightarrow> unit js" where
  "bus_sendTo h service localTopic data =
     (let name = slashes_to_dots (strip_ts service) in
      bus_publish h (''ts.'' @ name @ ''.'' @ localTopic) data)"

definition parseCallRaw :: "jtext \<Rightarrow> jsval + jsval" where
  "parseCallRaw raw =
     (if raw = NotJson [] \<or> raw = Json JNull then Inr JNull else json_parse raw)"

definition timeout_ok :: "jsval \<Rightarrow> bool" where
  "timeout_ok opts \<longleftrightarrow> truthy (getp opts ''timeoutMs'') \<and> is_num (getp opts ''timeoutMs'')"

definition nonempty_str :: "jsval \<Rightarrow> bool" where
  "nonempty_str v \<longleftrightarrow> truthy v \<and> is_str v"

fun the_str :: "jsval \<Rightarrow> string" where
  "the_str (JStr s) = s"
| "the_str v = []"

text \<open>Issuing the call and, once the host's promise has settled, decoding its text.\<close>

definition call_host :: "host \<Rightarrow> string \<Rightarrow> jsval \<Rightarrow> string \<Rightarrow> jsval \<Rightarrow> jsval js" where
  "call_host h topic data ns timeoutMs =
     bind (of_result (stringify (null_if_undefined data))) (\<lambda>t.
       bind (host_text h (BusCall topic t ns timeoutMs)) (\<lambda>raw. of_result (parseCallRaw raw)))"

definition bus_call :: "host \<Rightarrow> string \<Rightarrow> jsval \<Rightarrow> jsval \<Rightarrow> jsval js" where
  "bus_call h topic data opts =
     (if \<not> timeout_ok opts
      then throw (validation_error ''bus.call: timeoutMs is required'' ''timeoutMs'')
      else call_host h topic data [] (getp opts ''timeoutMs''))"

definition bus_callService :: "host \<Rightarrow> jsval \<Rightarrow> jsval \<Rightarrow> jsval \<Rightarrow> jsval \<Rightarrow> jsval js" where
  "bus_callService h service localTopic data opts =
     (if \<not> nonempty_str service
      then throw (validation_error ''bus.callService: service is required'' ''service'')
      else if \<not> nonempty_str localTopic
      then throw (validation_error ''bus.callService: topic is required'' ''topic'')
      else (let name = slashes_to_dots (strip_ts (the_str service)) in
            bus_call h (''ts.'' @ name @ ''.'' @ the_str localTopic) data opts))"

definition bus_callTo :: "host \<Rightarrow> jsval \<Rightarrow> string \<Rightarrow> jsval \<Rightarrow> jsval \<Rightarrow> jsval js" where
  "bus_callTo h namespace topic data opts =
     (if \<not> timeout_ok opts
      then throw (validation_error ''bus.callTo: timeoutMs is required'' ''timeoutMs'')
      else if \<not> nonempty_str namespace
      then throw (validation_error ''bus.callTo: namespace is required'' ''namespace'')
      else call_host h topic data (the_str namespace) (getp opts ''timeoutMs''))"

section \<open>Streaming calls\<close>

text \<open>\<open>"stream:" + Date.now() + ":" + random\<close>, from the two parts the engine supplies.\<close>

definition streamHandlerId :: "string \<Rightarrow> string \<Rightarrow> string" where
  "streamHandlerId now random = ''stream:'' @ now @ '':'' @ random"

definition buffer_size :: "jsval \<Rightarrow> jsval" where
  "buffer_size opts = (if getp opts ''bufferSize'' = JUndef then JNum (Fin 0) else getp opts ''bufferSize'')"

definition buffer_size_ok :: "jsval \<Rightarrow> bool" where
  "buffer_size_ok v =
     (case v of JNum n \<Rightarrow> \<not> num_less n (Fin 0) \<and> num_eq (num_floor n) n | _ \<Rightarrow> False)"

definition buffer_policies :: "string list" where
  "buffer_policies = [''block'', ''dropNewest'', ''dropOldest'', ''error'']"

definition buffer_policy :: "jsval \<Rightarrow> jsval" where
  "buffer_policy opts = js_or (getp opts ''bufferPolicy'') (JStr ''block'')"

definition stream_check :: "string \<Rightarrow> jsval \<Rightarrow> jsval option" where
  "stream_check apiName opts =
     (if \<not> timeout_ok opts then Some (validation_error (apiName @ '': timeoutMs is required'') ''timeoutMs'')
      else if \<not> is_fun (getp opts ''onChunk'')
      then Some (validation_error (apiName @ '': onChunk handler is required'') ''onChunk'')
      else if \<not> buffer_size_ok (buffer_size opts)
      then Some (validation_error (apiName @ '': bufferSize must be a non-negative integer'') ''bufferSize'')
      else if buffer_policy opts \<notin> JStr ` set buffer_policies
      then Some (validation_error (apiName @ '': invalid bufferPolicy'') ''bufferPolicy'')
      else None)"

fun the_fun :: "jsval \<Rightarrow> nat" where
  "the_fun (JFun f) = f"
| "the_fun v = 0"

fun the_num :: "jsval \<Rightarrow> jsnum" where
  "the_num (JNum n) = n"
| "the_num v = NaN"

text \<open>
  Before the promise: the checks, the handler's registration, the host call. \<open>Some e\<close> in
  \<open>settled\<close> is a rejection, \<open>None\<close> lets the host's text resolve it.
\<close>

definition stream_begin ::
  "host \<Rightarrow> string \<Rightarrow> string \<Rightarrow> jsval \<Rightarrow> string \<Rightarrow> jsval \<Rightarrow> string \<Rightarrow> jtext js" where
  "stream_begin h id' topic data ns opts apiName =
     (case stream_check apiName opts of
        Some e \<Rightarrow> throw e
      | None \<Rightarrow>
          seq (modify (\<lambda>g. g\<lparr>stream_handlers := dset (stream_handlers g) id' (the_fun (getp opts ''onChunk''))\<rparr>))
           (bind (of_result (stringify (null_if_undefined data))) (\<lambda>t.
              host_text h (BusCallStream topic t ns (getp opts ''timeoutMs'') id'
                (the_num (buffer_size opts)) (the_str (buffer_policy opts))))))"

text \<open>When the promise settles, either way, the handler is deleted first.\<close>

definition stream_settle :: "string \<Rightarrow> jsval + jtext \<Rightarrow> jsval js" where
  "stream_settle id' r =
     seq (modify (\<lambda>g. g\<lparr>stream_handlers := ddel (stream_handlers g) id'\<rparr>))
      (case r of Inl e \<Rightarrow> throw e | Inr raw \<Rightarrow> of_result (parseCallRaw raw))"

definition callService_topic :: "string \<Rightarrow> jsval \<Rightarrow> jsval \<Rightarrow> jsval + string" where
  "callService_topic apiName service localTopic =
     (if \<not> nonempty_str service then Inl (validation_error (apiName @ '': service is required'') ''service'')
      else if \<not> nonempty_str localTopic then Inl (validation_error (apiName @ '': topic is required'') ''topic'')
      else (let name = slashes_to_dots (strip_ts (the_str service)) in
            Inr (''ts.'' @ name @ ''.'' @ the_str localTopic)))"

definition bus_callStream :: "host \<Rightarrow> string \<Rightarrow> string \<Rightarrow> jsval \<Rightarrow> jsval \<Rightarrow> jtext js" where
  "bus_callStream h id' topic data opts = stream_begin h id' topic data [] opts ''bus.callStream''"

definition bus_callServiceStream :: "host \<Rightarrow> string \<Rightarrow> jsval \<Rightarrow> jsval \<Rightarrow> jsval \<Rightarrow> jsval \<Rightarrow> jtext js" where
  "bus_callServiceStream h id' service localTopic data opts =
     bind (of_result (callService_topic ''bus.callServiceStream'' service localTopic))
       (\<lambda>topic. stream_begin h id' topic data [] opts ''bus.callServiceStream'')"

definition bus_callToStream :: "host \<Rightarrow> string \<Rightarrow> jsval \<Rightarrow> string \<Rightarrow> jsval \<Rightarrow> jsval \<Rightarrow> jtext js" where
  "bus_callToStream h id' namespace topic data opts =
     (if \<not> nonempty_str namespace
      then throw (validation_error ''bus.callToStream: namespace is required'' ''namespace'')
      else stream_begin h id' topic data (the_str namespace) opts ''bus.callToStream'')"

section \<open>Schedules and cancellation\<close>

definition bus_schedule :: "host \<Rightarrow> string \<Rightarrow> string \<Rightarrow> jsval \<Rightarrow> string js" where
  "bus_schedule h expression topic data =
     bind (of_result (stringify (js_or data JNull))) (\<lambda>t.
       bind (gets current_source) (\<lambda>cur.
         bind (host_ident h (Schedule expression topic t (str_or cur ''go''))) (\<lambda>sid.
           seq (reg_register h ''schedule'' sid sid JNull (Some (CUnschedule sid)) [])
            (ret sid))))"

definition bus_unschedule :: "host \<Rightarrow> string \<Rightarrow> unit js" where
  "bus_unschedule h scheduleId =
     seq (host_do h (Unschedule scheduleId))
      (bind (reg_unregister h ''schedule'' scheduleId) (\<lambda>_. ret ()))"

definition cancel_topic :: string where
  "cancel_topic = ''_brainkit.cancel''"

text \<open>The returned function unsubscribes the subscription whose id is the model's result.\<close>

definition bus_onCancel :: "host \<Rightarrow> jsval \<Rightarrow> jsval \<Rightarrow> cancel_target \<Rightarrow> string js" where
  "bus_onCancel h correlationId handler target =
     (if \<not> truthy correlationId
      then throw (validation_error ''bus.onCancel: correlationId is required'' ''correlationId'')
      else if \<not> is_fun handler
      then throw (validation_error ''bus.onCancel: handler must be a function'' ''handler'')
      else bus_subscribe h cancel_topic (CancelFilter correlationId target))"

definition msg_onCancel :: "host \<Rightarrow> message \<Rightarrow> jsval \<Rightarrow> string option js" where
  "msg_onCancel h m handler =
     (if m_correlationId m = [] then ret None
      else bind (bus_onCancel h (JStr (m_correlationId m)) handler (CallUser (the_fun handler)))
             (\<lambda>s. ret (Some s)))"

text \<open>The controller made and the subscription its \<open>cleanup\<close> removes, if there is one.\<close>

definition bus_withCancelController :: "host \<Rightarrow> jsval \<Rightarrow> (nat \<times> string option) js" where
  "bus_withCancelController h msg =
     bind (gets next_controller) (\<lambda>c.
       seq (modify (\<lambda>g. g\<lparr>next_controller := Suc c\<rparr>))
        (let correlationId = and_prop msg ''correlationId'' in
         if truthy correlationId
         then bind (bus_onCancel h correlationId (JFun 0) (AbortController c)) (\<lambda>s. ret (c, Some s))
         else ret (c, None)))"

definition cancel_cleanup :: "host \<Rightarrow> string option \<Rightarrow> unit js" where
  "cancel_cleanup h s = (case s of None \<Rightarrow> ret () | Some subId \<Rightarrow> bus_unsubscribe h subId)"

end
