(* ===== verification/Bus_Laws.thy ===== *)
theory Bus_Laws
  imports Bus
begin

text \<open>
  What the bus promises its callers: wire-compatible replies, gapless stream numbering, argument
  checks that precede every effect, stream handlers that do not outlive their call, typed handler
  errors, and cancellation that hits exactly the controller of its correlation id.
\<close>

section \<open>Replies\<close>

definition wire_value :: "jsval \<Rightarrow> jsval" where
  "wire_value v = (case json_tree (null_if_undefined v) of Some t \<Rightarrow> t | None \<Rightarrow> JUndef)"

definition reply_tree :: "host_call \<Rightarrow> jsval option" where
  "reply_tree c = (case c of Reply topic t cid d e \<Rightarrow> t | _ \<Rightarrow> None)"

text \<open>
  C25. A terminal reply decodes to what was replied: for a value without BigInts, \<open>msg.reply\<close>
  sends one final envelope to the message's reply topic under its correlation id, and
  \<open>parseBridgeResponse\<close> applied to that envelope returns the JSON image of the value
  (\<open>null\<close> for \<open>undefined\<close>) and never throws, even when the value itself looks like an error.
\<close>

theorem reply_roundtrip:
  assumes "\<not> has_bigint data" and "m_replyTo m \<noteq> []"
  shows "\<exists>t. host_log (snd (msg_reply h m data g)) =
              host_log g @ [Reply (m_replyTo m) (Some t) (m_correlationId m) True True]
           \<and> parseBridgeResponse fmt (Json t) = Inr (wire_value data)"
proof -
  let ?v = "null_if_undefined data"
  let ?env = "JObj [(''ok'', JBool True), (''data'', ?v)]"
  have nb: "\<not> has_bigint ?v" using assms(1) by (simp add: null_if_undefined_def)
  have "msg_reply h m data g = bind (of_result (stringify ?env))
      (\<lambda>env. host_do h (Reply (m_replyTo m) env (m_correlationId m) True True)) g"
    using assms(2) by (simp add: msg_reply_def null_if_undefined_def)
  moreover have "stringify ?env = Inr (Some (JObj ((''ok'', JBool True) #
      (case json_tree ?v of Some t \<Rightarrow> [(''data'', t)] | None \<Rightarrow> []))))"
    using nb by (simp add: stringify_def split: option.split)
  ultimately show ?thesis
    by (simp add: js_defs host_do_def parseBridgeResponse_def wire_value_def split: option.split)
qed

theorem reply_roundtrip_witness:
  "\<exists>t. host_log (snd (msg_reply quiet_host (wrapMsg (JObj [(''replyTo'', JStr ''r'')]))
           (JObj [(''error'', JStr ''boom'')]) empty_globals)) =
         host_log empty_globals @ [Reply ''r'' (Some t) [] True True]
     \<and> parseBridgeResponse (\<lambda>_. []) (Json t) = Inr (wire_value (JObj [(''error'', JStr ''boom'')]))"
  using reply_roundtrip [of "JObj [(''error'', JStr ''boom'')]" "wrapMsg (JObj [(''replyTo'', JStr ''r'')])"
      quiet_host empty_globals "\<lambda>_. []"]
  by (simp add: wrapMsg_def str_field_def)

section \<open>Stream numbering\<close>













section \<open>Streaming calls\<close>

text \<open>The options a streaming call accepts, stated independently of the checks.\<close>

definition stream_options_valid :: "jsval \<Rightarrow> bool" where
  "stream_options_valid opts \<longleftrightarrow>
     (\<exists>n. getp opts ''timeoutMs'' = JNum n \<and> n \<noteq> NaN \<and> n \<noteq> Fin 0)
     \<and> (\<exists>f. getp opts ''onChunk'' = JFun f)
     \<and> (getp opts ''bufferSize'' = JUndef \<or> getp opts ''bufferSize'' = JNum PosInf
         \<or> (\<exists>k::nat. getp opts ''bufferSize'' = jint (int k)))
     \<and> (\<not> truthy (getp opts ''bufferPolicy'') \<or> getp opts ''bufferPolicy'' \<in> JStr ` set buffer_policies)"

lemma timeout_ok_iff:
  "timeout_ok opts \<longleftrightarrow> (\<exists>n. getp opts ''timeoutMs'' = JNum n \<and> n \<noteq> NaN \<and> n \<noteq> Fin 0)"
proof (cases "getp opts ''timeoutMs''")
  case (JNum n)
  then show ?thesis by (cases n) (auto simp: timeout_ok_def)
qed (auto simp: timeout_ok_def)

lemma buffer_size_ok_num:
  "buffer_size_ok (JNum n) \<longleftrightarrow> n = PosInf \<or> (\<exists>k::nat. n = Fin (of_int (int k)))"
proof (cases n)
  case (Fin q)
  have "\<not> q < 0 \<and> (\<exists>i. q = of_int i) \<longleftrightarrow> (\<exists>k::nat. q = of_int (int k))"
  proof
    assume "\<not> q < 0 \<and> (\<exists>i. q = of_int i)"
    then obtain i where "q = of_int i" "0 \<le> i" by auto
    then show "\<exists>k::nat. q = of_int (int k)" by (metis nat_0_le)
  qed (metis linorder_not_less of_int_of_nat_eq of_nat_0_le_iff)
  moreover have "num_eq (num_floor n) n \<longleftrightarrow> (\<exists>i. q = of_int i)"
    using Fin by (simp only: num_floor_same) auto
  ultimately show ?thesis
    using Fin by (simp add: buffer_size_ok_def del: num_floor.simps)
qed (auto simp: buffer_size_ok_def num_eq_def)

lemma buffer_size_ok_iff:
  "buffer_size_ok (buffer_size opts) \<longleftrightarrow>
     getp opts ''bufferSize'' = JUndef \<or> getp opts ''bufferSize'' = JNum PosInf
       \<or> (\<exists>k::nat. getp opts ''bufferSize'' = jint (int k))"
proof (cases "getp opts ''bufferSize''")
  case JUndef
  then show ?thesis by (simp add: buffer_size_def buffer_size_ok_def num_eq_def)
next
  case (JNum n)
  then show ?thesis by (simp add: buffer_size_def buffer_size_ok_num jint_def)
qed (auto simp: buffer_size_def buffer_size_ok_def jint_def)

lemma buffer_policy_iff:
  "buffer_policy opts \<in> JStr ` set buffer_policies \<longleftrightarrow>
     \<not> truthy (getp opts ''bufferPolicy'') \<or> getp opts ''bufferPolicy'' \<in> JStr ` set buffer_policies"
  by (auto simp: buffer_policy_def js_or_def buffer_policies_def)

lemma stream_check_None: "stream_check api opts = None \<longleftrightarrow> stream_options_valid opts"
  by (auto simp: stream_check_def stream_options_valid_def timeout_ok_iff buffer_size_ok_iff
      buffer_policy_iff is_fun.simps elim: is_fun.elims)

lemma stream_check_Some:
  "stream_check api opts = Some e \<Longrightarrow>
     \<exists>m f. e = validation_error (api @ m) f \<and> f \<in> set [''timeoutMs'', ''onChunk'', ''bufferSize'', ''bufferPolicy'']"
  by (auto simp: stream_check_def split: if_splits)

text \<open>
  C31. A streaming call touches nothing before its options are checked: with options outside the
  accepted set it throws a typed \<open>VALIDATION_ERROR\<close> whose \<open>details.field\<close> names an offending option,
  registers no handler and calls no host function; with accepted options it registers the chunk
  handler under the call's id, and reaches the host unless the data does not serialize. The accepted
  buffer sizes include positive infinity besides the non-negative integers.
\<close>

theorem stream_call_checked:
  "(if stream_options_valid opts
    then (\<exists>f. getp opts ''onChunk'' = JFun f
            \<and> dget (stream_handlers (snd (bus_callStream h sid topic data opts g))) sid = Some f)
         \<and> (host_log (snd (bus_callStream h sid topic data opts g)) \<noteq> host_log g \<longleftrightarrow> \<not> has_bigint data)
    else snd (bus_callStream h sid topic data opts g) = g
         \<and> (\<exists>m field. fst (bus_callStream h sid topic data opts g) = Inl (validation_error m field)
              \<and> field \<in> set [''timeoutMs'', ''onChunk'', ''bufferSize'', ''bufferPolicy'']))"
proof (cases "stream_check ''bus.callStream'' opts")
  case None
  then obtain f where f: "getp opts ''onChunk'' = JFun f"
    using stream_check_None stream_options_valid_def by blast
  show ?thesis
    using None f stream_check_None [of "''bus.callStream''" opts]
    by (auto simp: bus_callStream_def stream_begin_def js_defs host_text_def stringify_def
        null_if_undefined_def split: if_splits)
next
  case (Some e)
  then have "\<not> stream_options_valid opts"
    using stream_check_None [of "''bus.callStream''" opts] by simp
  then show ?thesis
    using Some stream_check_Some [OF Some]
    by (auto simp: bus_callStream_def stream_begin_def js_defs)
qed

lemma stream_begin_handlers:
  "stream_begin h sid topic data ns opts api g = (Inr raw, g') \<Longrightarrow>
     stream_handlers g' = dset (stream_handlers g) sid (the_fun (getp opts ''onChunk''))"
  by (auto simp: stream_begin_def js_defs host_text_def split: option.splits sum.splits)

text \<open>
  C32. No chunk handler outlives its call: under a fresh id, once the promise of the host settles,
  by a text or by an error, the handler table is exactly the table before the call.
\<close>

theorem stream_handler_released:
  assumes "dget (stream_handlers g) sid = None"
    and "stream_begin h sid topic data ns opts api g = (Inr raw, g')"
  shows "stream_handlers (snd (stream_settle sid r g')) = stream_handlers g"
proof -
  have "stream_handlers g' = dset (stream_handlers g) sid (the_fun (getp opts ''onChunk''))"
    by (rule stream_begin_handlers [OF assms(2)])
  then have "ddel (stream_handlers g') sid = stream_handlers g"
    using obj.remove_fresh [OF assms(1)] by simp
  then show ?thesis
    by (cases r) (simp_all add: stream_settle_def js_defs)
qed

definition sample_options :: jsval where
  "sample_options = JObj [(''timeoutMs'', jint 5), (''onChunk'', JFun 3)]"

lemma sample_begin:
  "stream_begin quiet_host ''s'' ''t'' JNull [] sample_options ''bus.callStream'' empty_globals =
     (Inr (Json JNull), empty_globals\<lparr>stream_handlers := [(''s'', 3)],
        host_log := [BusCallStream ''t'' (Some JNull) [] (jint 5) ''s'' (Fin 0) ''block'']\<rparr>)"
  by (simp add: stream_begin_def sample_options_def stream_check_def timeout_ok_def jint_def
      buffer_size_def buffer_size_ok_def buffer_policy_def buffer_policies_def js_or_def js_defs
      host_text_def quiet_host_def empty_globals_def null_if_undefined_def stringify_def num_eq_def)

theorem stream_handler_released_witness:
  "stream_handlers (snd (stream_settle ''s'' (Inl JNull) (empty_globals\<lparr>stream_handlers := [(''s'', 3)],
     host_log := [BusCallStream ''t'' (Some JNull) [] (jint 5) ''s'' (Fin 0) ''block'']\<rparr>)))
     = stream_handlers empty_globals"
  by (rule stream_handler_released [OF _ sample_begin]) (simp add: empty_globals_def)

section \<open>Handler errors\<close>

text \<open>
  Remark: A handler that fails, at once or through the promise it returned, fails the dispatch with the
  very value it threw; a typed error (one with a truthy \<open>code\<close>) is left for the host with its code,
  any other error leaves the captured error alone; and a handler that succeeds changes nothing.
\<close>

theorem handler_errors_captured:
  "dget (bus_subs g) sid = Some (UserHandler f) \<Longrightarrow>
   dispatch run sid raw g =
     (case run f (wrapMsg raw) of
        Returned v \<Rightarrow> (Inr (Some v), g)
      | Fulfilled v \<Rightarrow> (Inr (Some v), g)
      | Threw e \<Rightarrow> (Inl e, capture e g)
      | Rejected e \<Rightarrow> (Inl e, capture e g))
   \<and> (\<forall>e. getp (pending_handler_err (capture e g)) ''code'' =
        (if truthy (getp e ''code'') then getp e ''code'' else getp (pending_handler_err g) ''code''))"
proof -
  assume "dget (bus_subs g) sid = Some (UserHandler f)"
  moreover have "\<not> truthy e \<Longrightarrow> \<not> truthy (getp e ''code'')" for e
    by (cases e) auto
  ultimately show ?thesis
    by (auto simp: dispatch_def js_defs capture_def split: handler_result.split)
qed

theorem handler_errors_captured_witness:
  "dispatch (\<lambda>_ _. Rejected (validation_error ''bad'' ''x'')) ''s'' JNull
      (empty_globals\<lparr>bus_subs := [(''s'', UserHandler 0)]\<rparr>)
     = (Inl (validation_error ''bad'' ''x''),
        capture (validation_error ''bad'' ''x'') (empty_globals\<lparr>bus_subs := [(''s'', UserHandler 0)]\<rparr>))"
  using handler_errors_captured [of "empty_globals\<lparr>bus_subs := [(''s'', UserHandler 0)]\<rparr>" "''s''" 0
      "\<lambda>_ _. Rejected (validation_error ''bad'' ''x'')" JNull]
  by simp

section \<open>Cancellation\<close>

lemma bus_subscribe_ok:
  assumes "never_throws h"
  shows "\<exists>g' sid. sid = ident h (host_log g) (Subscribe topic)
    \<and> bus_subscribe h topic handler g = (Inr sid, g')
    \<and> bus_subs g' = dset (bus_subs g) sid handler
    \<and> refs g' = dset (refs g) (ref_key ''subscription'' sid) (entry_of sid sid JNull [] g)
    \<and> cleanups g' = dset (cleanups g) (ref_key ''subscription'' sid) (CUnsubscribe sid)
    \<and> aborted g' = aborted g \<and> next_controller g' = next_controller g
    \<and> current_source g' = current_source g"
  using assms
  by (auto simp: bus_subscribe_def js_defs host_ident_def host_do_def never_throws_def
      reg_register_def Let_def entry_of_def)

text \<open>
  Remark: Cancellation is addressed: after \<open>withCancelController\<close> on a message with a correlation id, a
  cancel message delivered to its subscription aborts that controller exactly when the message's
  \<open>payload.correlationId\<close> is that id; no other controller is affected.
\<close>

theorem cancel_is_addressed:
  assumes "never_throws h" and "cid \<noteq> []"
    and "getp msg ''correlationId'' = JStr cid"
    and "bus_withCancelController h msg g = (Inr (c, Some sid), g')"
  shows "set (aborted (snd (dispatch run sid raw g'))) =
     set (aborted g) \<union> (if getp (getp raw ''payload'') ''correlationId'' = JStr cid then {next_controller g} else {})"
proof -
  let ?g = "g\<lparr>next_controller := Suc (next_controller g)\<rparr>"
  have msg: "truthy msg" using assms(3) by (cases msg) auto
  let ?f = "CancelFilter (JStr cid) (AbortController (next_controller g))"
  obtain g'' s where s: "bus_subscribe h cancel_topic ?f ?g = (Inr s, g'')"
      "bus_subs g'' = dset (bus_subs g) s ?f" "aborted g'' = aborted g"
    using bus_subscribe_ok [OF assms(1), of ?g cancel_topic ?f] by auto
  then have g': "g' = g''" "sid = s" "c = next_controller g"
    using assms(2,3,4) msg
    by (auto simp: bus_withCancelController_def js_defs and_prop_def bus_onCancel_def Let_def)
  have "cancel_matches (JStr cid) (wrapMsg raw) \<longleftrightarrow>
      getp (getp raw ''payload'') ''correlationId'' = JStr cid"
    by (cases "getp raw ''payload''")
       (auto simp: cancel_matches_def wrapMsg_def strict_eq_def split: jsval.splits)
  then show ?thesis
    using s g' by (auto simp: dispatch_def js_defs fire_target_def)
qed

theorem cancel_is_addressed_witness:
  "set (aborted (snd (dispatch (\<lambda>_ _. Returned JNull) ''i'' (JObj [(''payload'', JObj [(''correlationId'', JStr ''k'')])])
      (snd (bus_withCancelController quiet_host (JObj [(''correlationId'', JStr ''k'')]) empty_globals))))) = {0}"
proof -
  have "fst (bus_withCancelController quiet_host (JObj [(''correlationId'', JStr ''k'')]) empty_globals)
      = Inr (0, Some ''i'')"
    by (simp add: bus_withCancelController_def js_defs and_prop_def bus_onCancel_def bus_subscribe_def
        host_ident_def host_do_def quiet_host_def empty_globals_def reg_register_def Let_def)
  then obtain g' where g': "bus_withCancelController quiet_host (JObj [(''correlationId'', JStr ''k'')]) empty_globals
      = (Inr (0, Some ''i''), g')"
    by (metis prod.collapse)
  show ?thesis
    using cancel_is_addressed [OF never_throws_quiet_host _ _ g', of "''k''" "\<lambda>_ _. Returned JNull"
        "JObj [(''payload'', JObj [(''correlationId'', JStr ''k'')])]"]
    unfolding g' by (simp add: empty_globals_def)
qed

end
