(* ===== verification/Kit_Api.thy ===== *)
theory Kit_Api
  imports Bus_Laws
begin

text \<open>
  \<open>bus.js\<close> (\<open>kit.register\<close>, \<open>kit.unregister\<close>) and the deployment scoping of \<open>kit_runtime.js\<close>:
  the source and namespace a deployment runs under, its scoped \<open>bus\<close> and \<open>kit\<close>, and the wrapper
  that promotes bridge errors. The consistency invariant ties the host-visible subscriptions,
  the registry entries and the cleanups together over every sequence of operations.
\<close>

section \<open>kit.register and kit.unregister\<close>

definition valid_types :: "(string, bool) dict" where
  "valid_types = [(''tool'', True), (''agent'', True), (''workflow'', True), (''memory'', True)]"

text \<open>\<open>_validTypes[type]\<close> is truthy for an own entry and for every inherited name.\<close>

definition type_accepted :: "string \<Rightarrow> bool" where
  "type_accepted type =
     (case dict_read valid_types type of Own b \<Rightarrow> b | Inherited n \<Rightarrow> True | Missing \<Rightarrow> False)"

definition type_error :: "string \<Rightarrow> jsval" where
  "type_error type =
     JErr PlainError (''kit.register: invalid type '' @ squote @ type @ squote @
        '' (must be tool, agent, workflow, or memory)'') []"

definition name_error :: jsval where
  "name_error = JErr PlainError ''kit.register: name is required and must be a string'' []"

definition kit_register :: "host \<Rightarrow> string \<Rightarrow> string \<Rightarrow> jsval \<Rightarrow> jsval \<Rightarrow> unit js" where
  "kit_register h sandbox_id type name ref =
     (if \<not> type_accepted type then throw (type_error type)
      else if \<not> nonempty_str name then throw name_error
      else (let n = the_str name in
        bind (gets (reg_get type n)) (\<lambda>existing.
          case existing of
            Some e \<Rightarrow> ret ()
          | None \<Rightarrow>
              if type = ''tool'' then
                seq (bind (bridgeControl h ''tools.register''
                       (JObj [(''name'', name), (''description'', js_or (and_prop ref ''description'') (JStr [])),
                              (''inputSchema'', JObj [])])) (\<lambda>_. ret ()))
                    (reg_register h type n n ref (Some (CToolUnregister n)) [])
              else if type = ''agent'' then
                seq (bind (bridgeControl h ''agents.register''
                       (JObj [(''name'', name), (''capabilities'', JArr []), (''model'', JStr []),
                              (''kit'', JStr sandbox_id)])) (\<lambda>_. ret ()))
                    (reg_register h type n n ref (Some (CAgentUnregister n)) [])
              else reg_register h type n n ref None [])))"

definition owner_error :: "string \<Rightarrow> string \<Rightarrow> string \<Rightarrow> jsval" where
  "owner_error type name owner =
     JErr PlainError (''kit.unregister: cannot unregister '' @ type @ '' '' @ squote @ name @ squote @
        '' owned by '' @ owner) []"

definition kit_unregister :: "host \<Rightarrow> string \<Rightarrow> string \<Rightarrow> unit js" where
  "kit_unregister h type name =
     bind (gets current_source) (\<lambda>cur.
       bind (gets (reg_get type name)) (\<lambda>entry.
         case entry of
           Some e \<Rightarrow>
             if re_source e \<noteq> cur \<and> cur \<noteq> [] then throw (owner_error type name (re_source e))
             else bind (reg_unregister h type name) (\<lambda>_. ret ())
         | None \<Rightarrow> bind (reg_unregister h type name) (\<lambda>_. ret ())))"

section \<open>Sources and namespaces\<close>

text \<open>
  The expression that names the topics of a source stands twice in the code: for the endowments of a deployment
  and in \<open>__kitRunWithSource\<close>.
\<close>

definition source_namespace :: "string \<Rightarrow> string" where
  "source_namespace source = ''ts.'' @ slashes_to_dots (strip_ts source)"

definition run_namespace :: "string \<Rightarrow> string" where
  "run_namespace source = ''ts.'' @ slashes_to_dots (strip_ts source)"

lemma run_namespace_eq [simp]: "run_namespace source = source_namespace source"
  by (simp add: run_namespace_def source_namespace_def)

text \<open>\<open>__withSource(fn, source)\<close>: the source is set for the call and put back however it ends.\<close>

definition with_source :: "string \<Rightarrow> 'a js \<Rightarrow> 'a js" where
  "with_source source m = (\<lambda>g.
     finally_do m (\<lambda>g'. g'\<lparr>current_source := current_source g\<rparr>) (g\<lparr>current_source := source\<rparr>))"

text \<open>
  \<open>__kitRunWithSource\<close> is asynchronous: its entry and its \<open>finally\<close> are separate steps, with the
  saved values in the closure, and other code may run while the body awaits.
\<close>

type_synonym saved_source = "string \<times> string option"

definition run_enter :: "string \<Rightarrow> globals \<Rightarrow> saved_source \<times> globals" where
  "run_enter source g =
     ((current_source g, deployment_namespace g),
      g\<lparr>current_source := source, deployment_namespace := Some (run_namespace source)\<rparr>)"

definition run_leave :: "saved_source \<Rightarrow> globals \<Rightarrow> globals" where
  "run_leave sv g = g\<lparr>current_source := fst sv, deployment_namespace := snd sv\<rparr>"

definition kitRunWithSource :: "string \<Rightarrow> 'a js \<Rightarrow> 'a js" where
  "kitRunWithSource source m = (\<lambda>g.
     case run_enter source g of (sv, g1) \<Rightarrow> finally_do m (run_leave sv) g1)"

section \<open>The scoped bus and kit of a deployment\<close>

definition collision_error :: "string \<Rightarrow> jsval" where
  "collision_error localTopic =
     BrainkitError (''topic '' @ squote @ localTopic @ squote @ '' already subscribed in this package'')
       (JStr ''TOPIC_COLLISION'') JUndef"

definition scoped_subscribe :: "host \<Rightarrow> string \<Rightarrow> string \<Rightarrow> sub_handler \<Rightarrow> string js" where
  "scoped_subscribe h source topic handler = with_source source (bus_subscribe h topic handler)"

definition scoped_on :: "host \<Rightarrow> string \<Rightarrow> string \<Rightarrow> sub_handler \<Rightarrow> string js" where
  "scoped_on h source localTopic handler =
     (let fullTopic = source_namespace source @ ''.'' @ localTopic in
      bind (gets (reg_get ''topic'' fullTopic)) (\<lambda>existing.
        case existing of
          Some e \<Rightarrow> throw (collision_error localTopic)
        | None \<Rightarrow> seq (reg_register h ''topic'' fullTopic localTopic JNull None source)
                     (scoped_subscribe h source fullTopic handler)))"

definition scoped_schedule :: "host \<Rightarrow> string \<Rightarrow> string \<Rightarrow> string \<Rightarrow> jsval \<Rightarrow> string js" where
  "scoped_schedule h source expression topic data =
     with_source source (bus_schedule h expression (source_namespace source @ ''.'' @ topic) data)"

definition scoped_register :: "host \<Rightarrow> string \<Rightarrow> string \<Rightarrow> string \<Rightarrow> jsval \<Rightarrow> jsval \<Rightarrow> unit js" where
  "scoped_register h sandbox_id source type name ref = with_source source (kit_register h sandbox_id type name ref)"

definition scoped_unregister :: "host \<Rightarrow> string \<Rightarrow> string \<Rightarrow> string \<Rightarrow> unit js" where
  "scoped_unregister h source type name = with_source source (kit_unregister h type name)"

text \<open>\<open>new Error(message)\<close> of an absent message is empty, of any other value its string.\<close>

definition ctor_message :: "(jsval \<Rightarrow> string) \<Rightarrow> jsval \<Rightarrow> string" where
  "ctor_message fmt v = (if v = JUndef then [] else js_string fmt v)"

definition rewrap :: "(jsval \<Rightarrow> string) \<Rightarrow> jsval \<Rightarrow> jsval" where
  "rewrap fmt e =
     (if truthy e \<and> truthy (getp e ''code'') \<and> \<not> is_brainkit_error e
      then BrainkitError (ctor_message fmt (getp e ''message'')) (getp e ''code'')
             (js_or (getp e ''details'') (JObj []))
      else e)"

definition rewrapErrors :: "(jsval \<Rightarrow> string) \<Rightarrow> 'a js \<Rightarrow> 'a js" where
  "rewrapErrors fmt m = catch m (\<lambda>e. throw (rewrap fmt e))"

section \<open>Lemmas on the operations\<close>

lemma type_accepted_iff:
  "type_accepted type \<longleftrightarrow> type \<in> set [''tool'', ''agent'', ''workflow'', ''memory''] \<union> set proto_names"
  by (auto simp: type_accepted_def valid_types_def dict_read_def proto_names_def)

lemma with_source_run:
  "with_source source m g =
     (case m (g\<lparr>current_source := source\<rparr>) of (r, g') \<Rightarrow> (r, g'\<lparr>current_source := current_source g\<rparr>))"
  by (simp add: with_source_def js_defs)

lemma bridgeControl_cases:
  obtains e l where "bridgeControl h a p g = (Inl e, g\<lparr>host_log := host_log g @ l\<rparr>)"
  | x l where "bridgeControl h a p g = (Inr x, g\<lparr>host_log := host_log g @ l\<rparr>)"
proof -
  obtain l where "snd (bridgeControl h a p g) = g\<lparr>host_log := host_log g @ l\<rparr>"
    using bridgeControl_frame [of h a p g] by blast
  then show thesis using that by (cases "fst (bridgeControl h a p g)") (metis prod.collapse)+
qed

text \<open>
  A run of \<open>kit.register\<close> throws before it stores anything, or finds the name registered, or ends
  with the registry's \<open>register\<close>.
\<close>

lemma kit_register_cases:
  assumes "kit_register h sb type name ref g = r"
  shows "(\<exists>l e. r = (Inl e, g\<lparr>host_log := host_log g @ l\<rparr>))
    \<or> (r = (Inr (), g) \<and> type_accepted type \<and> (\<exists>n. name = JStr n \<and> reg_get type n g \<noteq> None))
    \<or> (\<exists>l cf n. type_accepted type \<and> name = JStr n
         \<and> cf \<in> set [None, Some (CToolUnregister n), Some (CAgentUnregister n)]
         \<and> r = reg_register h type n n ref cf [] (g\<lparr>host_log := host_log g @ l\<rparr>))"
    (is "?throw \<or> ?known \<or> ?store")
proof (cases "type_accepted type \<and> nonempty_str name")
  case False
  then have "\<exists>e. r = (Inl e, g)" using assms by (auto simp: kit_register_def js_defs)
  then show ?thesis by (metis append_Nil2 globals.surjective globals.update_convs(1))
next
  case True
  then obtain n where n: "name = JStr n" by (cases name) (auto simp: nonempty_str_def)
  have store: ?store if "reg_register h type n n ref cf [] (g\<lparr>host_log := host_log g @ l\<rparr>) = r"
      "cf \<in> set [None, Some (CToolUnregister n), Some (CAgentUnregister n)]" for l cf
    using that True n by blast
  show ?thesis
  proof (cases "reg_get type n g")
    case (Some e)
    then show ?thesis using assms True n by (simp add: kit_register_def js_defs Let_def)
  next
    case new: None
    let ?pt = "JObj [(''name'', JStr n), (''description'', js_or (and_prop ref ''description'') (JStr [])),
                     (''inputSchema'', JObj [])]"
    let ?pa = "JObj [(''name'', JStr n), (''capabilities'', JArr []), (''model'', JStr []), (''kit'', JStr sb)]"
    consider "type = ''tool''" | "type = ''agent''" | "type \<noteq> ''tool''" "type \<noteq> ''agent''" by blast
    then show ?thesis
    proof cases
      case 1
      show ?thesis
      proof (cases rule: bridgeControl_cases [of h "''tools.register''" ?pt g])
        case (1 e l)
        then show ?thesis
          using assms True n new \<open>type = ''tool''\<close> by (auto simp: kit_register_def js_defs Let_def)
      next
        case (2 x l)
        then have "reg_register h type n n ref (Some (CToolUnregister n)) [] (g\<lparr>host_log := host_log g @ l\<rparr>) = r"
          using assms True n new \<open>type = ''tool''\<close> by (simp add: kit_register_def js_defs Let_def)
        then show ?thesis using store by simp
      qed
    next
      case 2
      show ?thesis
      proof (cases rule: bridgeControl_cases [of h "''agents.register''" ?pa g])
        case (1 e l)
        then show ?thesis
          using assms True n new 2 by (auto simp: kit_register_def js_defs Let_def)
      next
        case (2 x l)
        then have "reg_register h type n n ref (Some (CAgentUnregister n)) [] (g\<lparr>host_log := host_log g @ l\<rparr>) = r"
          using assms True n new \<open>type = ''agent''\<close> by (simp add: kit_register_def js_defs Let_def)
        then show ?thesis using store by simp
      qed
    next
      case 3
      then have "reg_register h type n n ref None [] (g\<lparr>host_log := host_log g @ []\<rparr>) = r"
        using assms True n new by (simp add: kit_register_def js_defs Let_def)
      then show ?thesis by (rule disjI2 [OF disjI2, OF store]) simp
    qed
  qed
qed

lemma kit_register_frame:
  assumes "kit_register h sb type name ref g = r"
  shows "fst r = Inr () \<Longrightarrow> type_accepted type \<and> (\<exists>n. name = JStr n \<and> reg_get type n (snd r) \<noteq> None)"
    and "fst r \<noteq> Inr () \<Longrightarrow> refs (snd r) = refs g \<and> cleanups (snd r) = cleanups g"
    and "bus_subs (snd r) = bus_subs g"
proof -
  have "(fst r = Inr () \<longrightarrow> type_accepted type \<and> (\<exists>n. name = JStr n \<and> reg_get type n (snd r) \<noteq> None))
      \<and> (fst r \<noteq> Inr () \<longrightarrow> refs (snd r) = refs g \<and> cleanups (snd r) = cleanups g)
      \<and> bus_subs (snd r) = bus_subs g"
    using kit_register_cases [OF assms]
  proof (elim disjE exE conjE)
    fix l cf n
    assume a: "type_accepted type" "name = JStr n"
      "r = reg_register h type n n ref cf [] (g\<lparr>host_log := host_log g @ l\<rparr>)"
    obtain x g' where r: "r = (x, g')" by force
    with a(3) have run: "reg_register h type n n ref cf [] (g\<lparr>host_log := host_log g @ l\<rparr>) = (x, g')"
      by simp
    show ?thesis
    proof (cases x)
      case (Inl e)
      then show ?thesis using r reg_register_throw [OF run [unfolded Inl]] by simp
    next
      case (Inr u)
      then show ?thesis using a(1,2) r reg_register_result [OF run [unfolded Inr]] by (simp add: reg_get_def)
    qed
  qed auto
  then show "fst r = Inr () \<Longrightarrow> type_accepted type \<and> (\<exists>n. name = JStr n \<and> reg_get type n (snd r) \<noteq> None)"
    and "fst r \<noteq> Inr () \<Longrightarrow> refs (snd r) = refs g \<and> cleanups (snd r) = cleanups g"
    and "bus_subs (snd r) = bus_subs g" by auto
qed

text \<open>What the host is told of a registration, before its registry is.\<close>

definition announcement :: "string \<Rightarrow> string \<Rightarrow> string \<Rightarrow> jsval \<Rightarrow> host_call list" where
  "announcement sb type n ref =
     (if type = ''tool'' then
        [Control ''tools.register''
           (Tree (json_tree (JObj [(''name'', JStr n),
              (''description'', (if truthy ref \<and> truthy (getp ref ''description'') then getp ref ''description'' else JStr [])),
              (''inputSchema'', JObj [])])))]
      else if type = ''agent'' then
        [Control ''agents.register''
           (Tree (json_tree (JObj [(''name'', JStr n), (''capabilities'', JArr []), (''model'', JStr []), (''kit'', JStr sb)])))]
      else [])"

lemma bridgeControl_returns:
  assumes "bridgeControl h action (JObj ps) g = (Inr x, g')"
  shows "g' = g\<lparr>host_log := host_log g @ [Control action (Tree (json_tree (JObj ps)))]\<rparr>"
  using assms by (auto simp: bridgeControl_def js_defs to_payload_def stringify_def host_text_def split: if_splits option.splits)

text \<open>What a registration that returns has done.\<close>

definition source_of :: "globals \<Rightarrow> string" where
  "source_of g = (if current_source g = [] then ''unknown'' else current_source g)"

lemma reg_register_returns:
  assumes "reg_register h type n n ref cf [] g = (Inr u, g')" "n \<noteq> []"
  shows "refs g' = dset (refs g) (ref_key type n) \<lparr>re_ref = (if truthy ref then ref else JNull), re_source = source_of g, re_name = n\<rparr>"
    and "cleanups g' = (case cf of Some f \<Rightarrow> dset (cleanups g) (ref_key type n) f | None \<Rightarrow> ddel (cleanups g) (ref_key type n))"
    and "host_log g' = host_log g @ (if has_resource_register h then [ResourceRegister type n n (source_of g)] else [])"
  using assms by (auto simp: reg_register_def js_defs host_do_def Let_def str_or_def js_or_def source_of_def split: if_splits option.splits)

lemma kit_register_stored:
  assumes run: "kit_register h sb type (JStr n) ref g = (Inr (), g')"
  shows "if dget (refs g) (ref_key type n) \<noteq> None then g' = g
    else refs g' = dset (refs g) (ref_key type n) \<lparr>re_ref = (if truthy ref then ref else JNull), re_source = source_of g, re_name = n\<rparr>
      \<and> cleanups g' = (if type = ''tool'' then dset (cleanups g) (ref_key type n) (CToolUnregister n)
                       else if type = ''agent'' then dset (cleanups g) (ref_key type n) (CAgentUnregister n)
                       else ddel (cleanups g) (ref_key type n))
      \<and> host_log g' = host_log g @ announcement sb type n ref
          @ (if has_resource_register h then [ResourceRegister type n n (source_of g)] else [])"
proof -
  have n: "n \<noteq> []" "type_accepted type" using run by (auto simp: kit_register_def js_defs nonempty_str_def split: if_splits)
  show ?thesis
  proof (cases "dget (refs g) (ref_key type n)")
    case (Some e)
    then show ?thesis using run n by (auto simp: kit_register_def js_defs nonempty_str_def Let_def reg_get_def)
  next
    case None
    let ?pt = "[(''name'', JStr n), (''description'', js_or (and_prop ref ''description'') (JStr [])), (''inputSchema'', JObj [])]"
    let ?pa = "[(''name'', JStr n), (''capabilities'', JArr []), (''model'', JStr []), (''kit'', JStr sb)]"
    have stored: "refs g' = dset (refs g) (ref_key type n) \<lparr>re_ref = (if truthy ref then ref else JNull), re_source = source_of g, re_name = n\<rparr>
        \<and> cleanups g' = (case cf of Some f \<Rightarrow> dset (cleanups g) (ref_key type n) f | None \<Rightarrow> ddel (cleanups g) (ref_key type n))
        \<and> host_log g' = host_log g @ l @ (if has_resource_register h then [ResourceRegister type n n (source_of g)] else [])"
      if "reg_register h type n n ref cf [] (g\<lparr>host_log := host_log g @ l\<rparr>) = (Inr (), g')" for cf l
      using reg_register_returns[OF that n(1)] by (simp add: source_of_def cong: option.case_cong)
    have described: "js_or (and_prop ref ''description'') (JStr []) =
        (if truthy ref \<and> truthy (getp ref ''description'') then getp ref ''description'' else JStr [])"
      by (simp add: js_or_def and_prop_def)
    consider "type = ''tool''" | "type = ''agent''" | "type \<noteq> ''tool''" "type \<noteq> ''agent''" by blast
    then show ?thesis
    proof cases
      case 1
      obtain x g1 where c: "bridgeControl h ''tools.register'' (JObj ?pt) g = (x, g1)" by force
      then obtain v where v: "x = Inr v" and reg: "reg_register h type n n ref (Some (CToolUnregister n)) [] g1 = (Inr (), g')"
        using run n None 1 by (cases x) (auto simp: kit_register_def js_defs nonempty_str_def Let_def reg_get_def)
      show ?thesis using stored[OF reg[unfolded bridgeControl_returns[OF c[unfolded v]]]] None 1 by (simp add: announcement_def described)
    next
      case 2
      obtain x g1 where c: "bridgeControl h ''agents.register'' (JObj ?pa) g = (x, g1)" by force
      then obtain v where v: "x = Inr v" and reg: "reg_register h type n n ref (Some (CAgentUnregister n)) [] g1 = (Inr (), g')"
        using run n None 2 by (cases x) (auto simp: kit_register_def js_defs nonempty_str_def Let_def reg_get_def)
      show ?thesis using stored[OF reg[unfolded bridgeControl_returns[OF c[unfolded v]]]] None 2 by (simp add: announcement_def)
    next
      case 3
      then have reg: "reg_register h type n n ref None [] (g\<lparr>host_log := host_log g @ []\<rparr>) = (Inr (), g')"
        using run n None by (simp add: kit_register_def js_defs nonempty_str_def Let_def reg_get_def)
      show ?thesis using stored[OF reg] None 3 by (simp add: announcement_def)
    qed
  qed
qed

section \<open>Properties of kit.register and kit.unregister\<close>

text \<open>
  C3. \<open>kit.register\<close> is atomic and idempotent. When it throws, whatever the host did, neither the
  references nor the cleanups nor the subscriptions have changed. When it returns, a name that was
  taken is left alone with nothing done; a new name has its reference under the running source, the
  cleanup of its type (a tool's and an agent's tell the host, the others have none), and was
  announced to the host and then to the host's registry, where these exist, by exactly these calls.
  Registering the name again returns at once without any effect.
\<close>

theorem kit_register_atomic:
  "(case kit_register h sb type name ref g of
      (Inl e, g') \<Rightarrow> refs g' = refs g \<and> cleanups g' = cleanups g \<and> bus_subs g' = bus_subs g
    | (Inr u, g') \<Rightarrow> kit_register h sb type name ref' g' = (Inr (), g') \<and> bus_subs g' = bus_subs g \<and>
        (\<exists>n. name = JStr n \<and> n \<noteq> [] \<and> type_accepted type \<and>
          (if dget (refs g) (ref_key type n) \<noteq> None then g' = g
           else dget (refs g') (ref_key type n) =
                  Some \<lparr>re_ref = (if truthy ref then ref else JNull), re_source = source_of g, re_name = n\<rparr>
             \<and> (\<forall>k. k \<noteq> ref_key type n \<longrightarrow> dget (refs g') k = dget (refs g) k \<and> dget (cleanups g') k = dget (cleanups g) k)
             \<and> dget (cleanups g') (ref_key type n) =
                  (if type = ''tool'' then Some (CToolUnregister n)
                   else if type = ''agent'' then Some (CAgentUnregister n) else None)
             \<and> host_log g' = host_log g @ announcement sb type n ref
                 @ (if has_resource_register h then [ResourceRegister type n n (source_of g)] else []))))"
proof -
  obtain r g' where r: "kit_register h sb type name ref g = (r, g')" by force
  show ?thesis
  proof (cases r)
    case (Inl e)
    then show ?thesis using r kit_register_frame [OF r] by auto
  next
    case (Inr u)
    then obtain n where n: "type_accepted type" "name = JStr n" "reg_get type n g' \<noteq> None"
      "bus_subs g' = bus_subs g"
      using kit_register_frame [OF r] by auto
    have nonempty: "n \<noteq> []"
    proof
      assume "n = []"
      then have "fst (kit_register h sb type name ref g) \<noteq> Inr ()"
        using n(2) by (simp add: kit_register_def js_defs nonempty_str_def)
      with r Inr show False by simp
    qed
    then have again: "kit_register h sb type name ref' g' = (Inr (), g')"
      using n by (auto simp: kit_register_def js_defs Let_def nonempty_str_def)
    from kit_register_stored [of h sb type n ref g g'] show ?thesis
      using r Inr n nonempty again by (auto simp: reg_get_def)
  qed
qed

theorem kit_register_atomic_witness:
  "\<exists>g'. kit_register quiet_host ''s'' ''tool'' (JStr ''t'') JNull empty_globals = (Inr (), g')
     \<and> dget (cleanups g') ''tool:t'' = Some (CToolUnregister ''t'')"
proof -
  have "fst (kit_register quiet_host ''s'' ''tool'' (JStr ''t'') JNull empty_globals) = Inr ()" by code_simp
  then obtain g' where g': "kit_register quiet_host ''s'' ''tool'' (JStr ''t'') JNull empty_globals = (Inr (), g')"
    by (metis prod.collapse)
  then show ?thesis
    using kit_register_atomic [where h = quiet_host and sb = "''s''" and type = "''tool''"
        and name = "JStr ''t''" and ref = JNull and ref' = JNull and g = empty_globals]
    by (auto simp: ref_key_def empty_globals_def)
qed

text \<open>
  Remark: Only the owner may unregister: from a deployment's scoped \<open>kit\<close>, unregistering an entry of
  another source throws and leaves references, cleanups, subscriptions and the host untouched;
  unregistering an own or absent entry succeeds and leaves no entry and no cleanup of that name.
  Either way the source the runtime tracks is the one it tracked before.
\<close>

theorem scoped_unregister_owner:
  assumes "source \<noteq> []"
  shows "(case scoped_unregister h source type name g of
      (Inl err, g') \<Rightarrow> g' = g \<and> (\<exists>e. reg_get type name g = Some e \<and> re_source e \<noteq> source)
    | (Inr u, g') \<Rightarrow> (\<forall>e. reg_get type name g = Some e \<longrightarrow> re_source e = source)
         \<and> reg_get type name g' = None \<and> dget (cleanups g') (ref_key type name) = None
         \<and> current_source g' = current_source g)"
proof -
  let ?g = "g\<lparr>current_source := source\<rparr>"
  have get: "reg_get type name ?g = reg_get type name g" by (simp add: reg_get_def)
  show ?thesis
  proof (cases "\<exists>e. reg_get type name g = Some e \<and> re_source e \<noteq> source")
    case True
    then obtain e where "reg_get type name g = Some e" "re_source e \<noteq> source" by blast
    then show ?thesis
      using assms get by (simp add: scoped_unregister_def with_source_run kit_unregister_def js_defs)
  next
    case False
    then have "kit_unregister h type name ?g = bind (reg_unregister h type name) (\<lambda>_. ret ()) ?g"
      using get by (auto simp: kit_unregister_def js_defs split: option.split)
    with False show ?thesis
      by (auto simp: scoped_unregister_def with_source_run js_defs reg_unregister_eq
          after_cleanup_cleanups reg_get_def)
  qed
qed

theorem scoped_unregister_owner_witness:
  "case scoped_unregister quiet_host ''b.ts'' ''memory'' ''m''
      (empty_globals\<lparr>refs := [(''memory:m'', \<lparr>re_ref = JNull, re_source = ''a.ts'', re_name = ''m''\<rparr>)]\<rparr>) of
      (Inl err, g') \<Rightarrow> g' = empty_globals\<lparr>refs := [(''memory:m'', \<lparr>re_ref = JNull, re_source = ''a.ts'', re_name = ''m''\<rparr>)]\<rparr>
    | (Inr u, g') \<Rightarrow> False"
  using scoped_unregister_owner [where source = "''b.ts''" and h = quiet_host and type = "''memory''" and name = "''m''"
    and g = "empty_globals\<lparr>refs := [(''memory:m'', \<lparr>re_ref = JNull, re_source = ''a.ts'', re_name = ''m''\<rparr>)]\<rparr>"]
  by (auto simp: reg_get_def ref_key_def split: prod.splits sum.splits)

end
