(* ===== verification/Kit_Laws.thy ===== *)
theory Kit_Laws
  imports Kit_Api
begin

text \<open>
  Deployment scoping: the rendezvous between a deployment's local topics and the service calls of
  its peers, topic collisions, source tracking, promoted errors, and the invariant that subscriptions,
  registry entries and cleanups agree after every sequence of operations.
\<close>

section \<open>Rendezvous\<close>

text \<open>The name a service goes by, whatever its source is written like: without the suffix, with dots.\<close>

definition service_name :: "string \<Rightarrow> string" where
  "service_name s = map (\<lambda>c. if c = CHR ''/'' then CHR ''.'' else c)
     (if 3 \<le> length s \<and> drop (length s - 3) s = ''.ts'' then take (length s - 3) s else s)"

lemma service_name_copy: "slashes_to_dots (strip_ts s) = service_name s"
proof -
  have "ends_with ''.ts'' s \<longleftrightarrow> 3 \<le> length s \<and> drop (length s - 3) s = ''.ts''"
    unfolding ends_with_iff
    by (auto intro!: exI [of _ "take (length s - 3) s"]) (metis append_take_drop_id)
  then show ?thesis by (simp add: slashes_to_dots_def strip_ts_def service_name_def)
qed

lemma source_namespace_eq: "source_namespace s = ''ts.'' @ service_name s"
  by (simp add: source_namespace_def service_name_copy)

text \<open>The subscriptions among the calls to the host.\<close>

definition subscriptions :: "globals \<Rightarrow> host_call list" where
  "subscriptions g = filter (\<lambda>c. case c of Subscribe t \<Rightarrow> True | _ \<Rightarrow> False) (host_log g)"

lemma scoped_on_subscribes:
  assumes "scoped_on h source t f g = (Inr sid, g')"
  shows "subscriptions g' = subscriptions g @ [Subscribe (source_namespace source @ ''.'' @ t)]"
  using assms
  by (auto simp: scoped_on_def scoped_subscribe_def with_source_run bus_subscribe_def js_defs host_ident_def
      reg_register_def host_do_def Let_def subscriptions_def split: if_splits option.splits sum.splits prod.splits)

text \<open>
  C33. Rendezvous: a deployment of \<open>source\<close> that listens on a local topic, through its scoped bus or
  through \<open>bus.on\<close> inside \<open>__kitRunWithSource\<close>, makes one subscription, to the topic \<open>ts.name.topic\<close>, and
  exactly this topic is what \<open>sendTo\<close>, \<open>callService\<close> and \<open>callServiceStream\<close> hand to the host for every
  spelling of the service with the same name: the name is the source without a \<open>.ts\<close> at the end and with dots for its
  slashes, and each of the five places that compute it does so by itself.
\<close>

theorem service_rendezvous:
  assumes "service_name service = service_name source" and "service \<noteq> []" and "t \<noteq> []"
    and "scoped_on h source t f g = (Inr sid, g1)"
    and "bus_on h t f (snd (run_enter source g)) = (Inr sid2, g2)"
    and "\<not> has_bigint data" and "timeout_ok opts" and "stream_check ''bus.callServiceStream'' sopts = None"
  defines "topic \<equiv> ''ts.'' @ service_name source @ ''.'' @ t"
    and "tree \<equiv> json_tree (null_if_undefined data)"
  shows "subscriptions g1 = subscriptions g @ [Subscribe topic]
    \<and> subscriptions g2 = subscriptions g @ [Subscribe topic]
    \<and> host_log (snd (bus_sendTo h service t data g)) = host_log g @ [Emit topic tree]
    \<and> host_log (snd (bus_callService h (JStr service) (JStr t) data opts g)) =
        host_log g @ [BusCall topic tree [] (getp opts ''timeoutMs'')]
    \<and> host_log (snd (bus_callServiceStream h i (JStr service) (JStr t) data sopts g)) =
        host_log g @ [BusCallStream topic tree [] (getp sopts ''timeoutMs'') i
          (the_num (buffer_size sopts)) (the_str (buffer_policy sopts))]"
proof (intro conjI)
  have nb: "stringify (null_if_undefined data) = Inr tree"
    using assms(6) by (simp add: stringify_def null_if_undefined_def tree_def)
  have st: "''ts.'' @ slashes_to_dots (strip_ts service) @ ''.'' @ t = topic"
    by (simp add: service_name_copy assms(1) topic_def)
  show "subscriptions g1 = subscriptions g @ [Subscribe topic]"
    using scoped_on_subscribes [OF assms(4)] by (simp add: source_namespace_eq topic_def)
  show "subscriptions g2 = subscriptions g @ [Subscribe topic]"
    using assms(5)
    by (auto simp: bus_on_def run_enter_def source_namespace_eq topic_def js_defs bus_subscribe_def subscriptions_def
        host_ident_def reg_register_def host_do_def Let_def split: if_splits option.splits sum.splits prod.splits)
  show "host_log (snd (bus_sendTo h service t data g)) = host_log g @ [Emit topic tree]"
    by (simp add: bus_sendTo_def Let_def st [simplified] bus_publish_def nb js_defs)
  show "host_log (snd (bus_callService h (JStr service) (JStr t) data opts g)) =
        host_log g @ [BusCall topic tree [] (getp opts ''timeoutMs'')]"
    using assms(2,3,7)
    by (auto simp: bus_callService_def nonempty_str_def bus_call_def call_host_def nb Let_def st [simplified] js_defs
        host_text_def split: option.splits)
  show "host_log (snd (bus_callServiceStream h i (JStr service) (JStr t) data sopts g)) =
        host_log g @ [BusCallStream topic tree [] (getp sopts ''timeoutMs'') i
          (the_num (buffer_size sopts)) (the_str (buffer_policy sopts))]"
    using assms(2,3,8)
    by (auto simp: bus_callServiceStream_def callService_topic_def nonempty_str_def stream_begin_def nb Let_def
        st [simplified] js_defs host_text_def split: option.splits)
qed

lemma quiet_on:
  "fst (scoped_on quiet_host ''svc/a.ts'' ''ask'' f empty_globals) = Inr ''ii''"
  "fst (bus_on quiet_host ''ask'' f (snd (run_enter ''svc/a.ts'' empty_globals))) = Inr ''i''"
  by (simp_all add: scoped_on_def scoped_subscribe_def with_source_run bus_on_def run_enter_def
      source_namespace_eq bus_subscribe_def js_defs host_ident_def quiet_host_def empty_globals_def
      reg_register_def host_do_def Let_def reg_get_def split: prod.split)

theorem service_rendezvous_witness:
  "\<exists>opts. host_log (snd (bus_callServiceStream quiet_host ''i'' (JStr ''svc.a'') (JStr ''ask'') JNull opts empty_globals)) =
     host_log empty_globals @ [BusCallStream ''ts.svc.a.ask'' (Some JNull) [] (jint 5) ''i'' (Fin 0) ''block'']"
proof -
  let ?opts = "JObj [(''timeoutMs'', jint 5), (''onChunk'', JFun 0)]"
  have n: "service_name ''svc.a'' = service_name ''svc/a.ts''" "service_name ''svc/a.ts'' = ''svc.a''"
    by (simp_all add: service_name_def)
  obtain g1 where 1: "scoped_on quiet_host ''svc/a.ts'' ''ask'' (UserHandler 0) empty_globals = (Inr ''ii'', g1)"
    using quiet_on(1) [of "UserHandler 0"] by (metis prod.collapse)
  obtain g2 where 2: "bus_on quiet_host ''ask'' (UserHandler 0) (snd (run_enter ''svc/a.ts'' empty_globals)) = (Inr ''i'', g2)"
    using quiet_on(2) [of "UserHandler 0"] by (metis prod.collapse)
  have "timeout_ok ?opts" by (simp add: timeout_ok_def jint_def)
  moreover have "stream_check ''bus.callServiceStream'' ?opts = None"
    by (simp add: stream_check_def timeout_ok_def jint_def buffer_size_def buffer_size_ok_def buffer_policy_def js_or_def
        buffer_policies_def num_eq_def)
  ultimately show ?thesis
    using service_rendezvous [OF n(1) _ _ 1 2, where data = JNull and opts = ?opts and sopts = ?opts and i = "''i''"] n(2)
    by (intro exI [of _ ?opts]) (simp add: null_if_undefined_def jint_def buffer_size_def buffer_policy_def js_or_def)
qed

section \<open>Topic collisions\<close>

text \<open>
  Remark: A local topic has one listener per namespace for good: after a successful scoped \<open>on\<close>, a
  second one for the same topic throws \<open>TOPIC_COLLISION\<close> without any effect, from every
  source with the same namespace (\<open>a/b.ts\<close> and \<open>a.b\<close>), and still does after the first listener
  has been unsubscribed.
\<close>

theorem scoped_on_claims_topic:
  assumes "scoped_on h source t f g = (Inr sid, g1)"
    and "service_name source' = service_name source"
  shows "scoped_on h source' t f' g1 = (Inl (collision_error t), g1)
    \<and> fst (scoped_on h source' t f' (snd (bus_unsubscribe h sid g1))) = Inl (collision_error t)"
proof -
  let ?topic = "source_namespace source @ ''.'' @ t"
  let ?k = "ref_key ''topic'' ?topic"
  have ns: "source_namespace source' = source_namespace source"
    using assms(2) by (simp add: source_namespace_eq)
  have other: "ref_key ''subscription'' s \<noteq> ref_key ''topic'' s'" for s s'
    by (simp add: ref_key_def)
  have "dget (refs g1) ?k \<noteq> None"
    using assms(1)
    by (auto simp: scoped_on_def scoped_subscribe_def with_source_run bus_subscribe_def js_defs host_ident_def
        reg_register_def host_do_def Let_def split: if_splits option.splits sum.splits prod.splits)
  moreover have "dget (refs (snd (bus_unsubscribe h sid g1))) ?k = dget (refs g1) ?k"
    using other [of sid ?topic]
    by (cases "throws h (host_log g1) (Unsubscribe sid)")
       (auto simp: bus_unsubscribe_def js_defs host_do_def reg_unregister_eq)
  ultimately show ?thesis
    by (auto simp: scoped_on_def ns js_defs reg_get_def Let_def)
qed

theorem scoped_on_claims_topic_witness:
  "\<exists>g1. fst (scoped_on quiet_host ''svc.a'' ''ask'' (UserHandler 1) g1) = Inl (collision_error ''ask'')
      \<and> scoped_on quiet_host ''svc/a.ts'' ''ask'' (UserHandler 0) empty_globals = (Inr ''ii'', g1)"
proof -
  obtain g1 where 1: "scoped_on quiet_host ''svc/a.ts'' ''ask'' (UserHandler 0) empty_globals = (Inr ''ii'', g1)"
    using quiet_on(1) [of "UserHandler 0"] by (metis prod.collapse)
  then show ?thesis
    using scoped_on_claims_topic [OF 1, of "''svc.a''" "UserHandler 1"]
    by (intro exI [of _ g1]) (simp add: service_name_def)
qed

section \<open>Source tracking\<close>

text \<open>
  Remark: Source tracking is a stack only for nested runs. A run whose body leaves the source as it
  found it, whether it returns or throws, leaves source and namespace as before; but when a second
  run starts while the first awaits and the first ends first, the second continues under the
  outer source, and after both have ended the source is the finished first run's.
\<close>

theorem source_tracking_nested_only:
  "(let g' = snd (kitRunWithSource s m g) in
      current_source g' = current_source g \<and> deployment_namespace g' = deployment_namespace g)
   \<and> (case run_enter a g of (sva, g1) \<Rightarrow> case run_enter b g1 of (svb, g2) \<Rightarrow>
        current_source (run_leave sva g2) = current_source g
        \<and> deployment_namespace (run_leave sva g2) = deployment_namespace g
        \<and> current_source (run_leave svb (run_leave sva g2)) = a
        \<and> deployment_namespace (run_leave svb (run_leave sva g2)) = Some (source_namespace a))"
  by (simp add: kitRunWithSource_def run_enter_def run_leave_def js_defs split: prod.split)

section \<open>Promoted errors\<close>

text \<open>
  Remark: Errors that leave a scoped API are promoted once: an error with a truthy code becomes a
  \<open>BrainkitError\<close> with that code, any other error passes unchanged, promoting twice is the same as
  promoting once, and a call that returns is not affected.
\<close>

theorem rewrap_promotes:
  "(case m g of
      (Inr v, g') \<Rightarrow> rewrapErrors fmt m g = (Inr v, g')
    | (Inl e, g') \<Rightarrow> (\<exists>e'. rewrapErrors fmt m g = (Inl e', g')
         \<and> (if truthy (getp e ''code'') then is_brainkit_error e' \<and> getp e' ''code'' = getp e ''code''
            else e' = e)))
   \<and> rewrapErrors fmt (rewrapErrors fmt m) g = rewrapErrors fmt m g"
proof -
  have t: "truthy (getp e ''code'') \<Longrightarrow> truthy e" for e by (cases e) auto
  have once: "if truthy (getp e ''code'') then is_brainkit_error (rewrap fmt e) \<and> getp (rewrap fmt e) ''code'' = getp e ''code''
      else rewrap fmt e = e" for e
    using t [of e] by (auto simp: rewrap_def js_or_def)
  have twice: "rewrap fmt (rewrap fmt e) = rewrap fmt e" for e
    by (auto simp: rewrap_def)
  show ?thesis
    using once twice by (auto simp: rewrapErrors_def js_defs split: prod.splits sum.splits)
qed

end
