(* ===== verification/Kit_Machine.thy ===== *)
theory Kit_Machine
  imports Kit_Api
begin

text \<open>
  All operations of the bus and the registry as one machine: the subscriptions the dispatcher
  serves, the registry's entries and the cleanups it will run agree after every sequence of
  operations, also when host calls fail.
\<close>

datatype kit_op =
    KSubscribe string sub_handler
  | KOn string sub_handler
  | KUnsubscribe string
  | KSchedule string string jsval
  | KUnschedule string
  | KOnCancel jsval jsval cancel_target
  | KWithCancel jsval
  | KDispatch string jsval
  | KPublish string jsval
  | KCall string jsval jsval
  | KRegister string string jsval jsval
  | KUnregister string string string
  | KScopedOn string string sub_handler
  | KScopedSchedule string string string jsval
  | KEnter string

fun kit_step ::
  "host \<Rightarrow> (nat \<Rightarrow> message \<Rightarrow> handler_result) \<Rightarrow> string \<Rightarrow> globals \<Rightarrow> kit_op \<Rightarrow> globals" where
  "kit_step h run sb g (KSubscribe topic f) = snd (bus_subscribe h topic f g)"
| "kit_step h run sb g (KOn topic f) = snd (bus_on h topic f g)"
| "kit_step h run sb g (KUnsubscribe sid) = snd (bus_unsubscribe h sid g)"
| "kit_step h run sb g (KSchedule e topic d) = snd (bus_schedule h e topic d g)"
| "kit_step h run sb g (KUnschedule sid) = snd (bus_unschedule h sid g)"
| "kit_step h run sb g (KOnCancel cid f t) = snd (bus_onCancel h cid f t g)"
| "kit_step h run sb g (KWithCancel m) = snd (bus_withCancelController h m g)"
| "kit_step h run sb g (KDispatch sid raw) = snd (dispatch run sid raw g)"
| "kit_step h run sb g (KPublish topic d) = snd (bus_publish h topic d g)"
| "kit_step h run sb g (KCall topic d opts) = snd (bus_call h topic d opts g)"
| "kit_step h run sb g (KRegister source type name ref) = snd (scoped_register h sb source type name ref g)"
| "kit_step h run sb g (KUnregister source type name) = snd (scoped_unregister h source type name g)"
| "kit_step h run sb g (KScopedOn source topic f) = snd (scoped_on h source topic f g)"
| "kit_step h run sb g (KScopedSchedule source e topic d) = snd (scoped_schedule h source e topic d g)"
| "kit_step h run sb g (KEnter source) = snd (run_enter source g)"

text \<open>
  The hosts considered: the two bookkeeping calls made in the middle of an operation do not fail;
  every other call (subscribing, scheduling, registering a tool, calling) may.
\<close>

definition steady :: "host \<Rightarrow> bool" where
  "steady h \<longleftrightarrow> (\<forall>l s. throws h l (Unsubscribe s) = None)
     \<and> (\<forall>l a b c d. throws h l (ResourceRegister a b c d) = None)"

definition sub_key :: "string \<Rightarrow> string" where
  "sub_key s = ref_key ''subscription'' s"

definition sched_key :: "string \<Rightarrow> string" where
  "sched_key s = ref_key ''schedule'' s"

definition consistent :: "globals \<Rightarrow> bool" where
  "consistent g \<longleftrightarrow>
     (\<forall>s. dget (bus_subs g) s \<noteq> None \<longleftrightarrow> dget (refs g) (sub_key s) \<noteq> None)
     \<and> (\<forall>s. dget (refs g) (sub_key s) \<noteq> None \<longleftrightarrow> dget (cleanups g) (sub_key s) = Some (CUnsubscribe s))
     \<and> (\<forall>s. dget (refs g) (sched_key s) \<noteq> None \<longleftrightarrow> dget (cleanups g) (sched_key s) = Some (CUnschedule s))
     \<and> (\<forall>k s. dget (cleanups g) k = Some (CUnsubscribe s) \<longrightarrow> k = sub_key s)"

section \<open>Keys\<close>

lemma keys_differ [simp]:
  "sub_key s \<noteq> sched_key s'" "sched_key s' \<noteq> sub_key s"
  "ref_key ''topic'' s' \<noteq> sub_key s" "ref_key ''topic'' s' \<noteq> sched_key s"
  by (simp_all add: sub_key_def sched_key_def ref_key_def)

lemma keys_inject [simp]: "sub_key s = sub_key s' \<longleftrightarrow> s = s'" "sched_key s = sched_key s' \<longleftrightarrow> s = s'"
  by (simp_all add: sub_key_def sched_key_def)

lemma accepted_key:
  assumes "type_accepted type"
  shows "ref_key type n \<noteq> sub_key s" and "ref_key type n \<noteq> sched_key s"
  using assms
  by (auto simp: type_accepted_iff proto_names_def sub_key_def sched_key_def ref_key_def)

section \<open>The invariant\<close>

lemma consistent_cong:
  "refs g' = refs g \<Longrightarrow> cleanups g' = cleanups g \<Longrightarrow> bus_subs g' = bus_subs g \<Longrightarrow>
     consistent g' \<longleftrightarrow> consistent g"
  by (simp add: consistent_def)

lemma consistentD:
  assumes "consistent g"
  shows "dget (bus_subs g) s = None \<longleftrightarrow> dget (refs g) (sub_key s) = None"
    and "dget (refs g) (sub_key s) = None \<longleftrightarrow> dget (cleanups g) (sub_key s) \<noteq> Some (CUnsubscribe s)"
    and "dget (refs g) (sched_key s) = None \<longleftrightarrow> dget (cleanups g) (sched_key s) \<noteq> Some (CUnschedule s)"
    and "dget (cleanups g) k = Some (CUnsubscribe s) \<Longrightarrow> k = sub_key s"
  using assms unfolding consistent_def by blast+

lemma consistent_log: "no_log consistent"
  by (simp add: no_log_def consistent_def)

lemma reg_register_steady:
  assumes "steady h"
  shows "\<exists>g'. reg_register h type rid name ref cf source g = (Inr (), g')
    \<and> refs g' = dset (refs g) (ref_key type rid) (entry_of rid name ref source g)
    \<and> cleanups g' = (case cf of Some f \<Rightarrow> dset (cleanups g) (ref_key type rid) f
                              | None \<Rightarrow> ddel (cleanups g) (ref_key type rid))
    \<and> bus_subs g' = bus_subs g"
  using assms
  by (auto simp: reg_register_def js_defs host_do_def steady_def Let_def entry_of_def split: option.split)

lemma keeps_subscribe:
  assumes "steady h"
  shows "keeps consistent (bus_subscribe h topic f)"
proof (rule keepsI)
  fix g assume g: "consistent g"
  show "consistent (snd (bus_subscribe h topic f g))"
  proof (cases "throws h (host_log g) (Subscribe topic)")
    case (Some e)
    then show ?thesis
      using g consistent_log by (simp add: bus_subscribe_def js_defs host_ident_def no_log_def)
  next
    case None
    let ?s = "ident h (host_log g) (Subscribe topic)"
    let ?g = "g\<lparr>host_log := host_log g @ [Subscribe topic], bus_subs := dset (bus_subs g) ?s f\<rparr>"
    obtain g' where g': "reg_register h ''subscription'' ?s ?s JNull (Some (CUnsubscribe ?s)) [] ?g = (Inr (), g')"
      "refs g' = dset (refs g) (sub_key ?s) (entry_of ?s ?s JNull [] ?g)"
      "cleanups g' = dset (cleanups g) (sub_key ?s) (CUnsubscribe ?s)"
      "bus_subs g' = dset (bus_subs g) ?s f"
      using reg_register_steady [OF assms, of "''subscription''" ?s ?s JNull "Some (CUnsubscribe ?s)" "[]" ?g]
      by (auto simp: sub_key_def)
    then have "consistent g'"
      using g by (simp add: consistent_def)
    moreover have "snd (bus_subscribe h topic f g) = g'"
      using None g' by (simp add: bus_subscribe_def js_defs host_ident_def)
    ultimately show ?thesis by simp
  qed
qed

lemma keeps_schedule:
  assumes "steady h"
  shows "keeps consistent (bus_schedule h e topic d)"
proof -
  have "keeps consistent (reg_register h ''schedule'' sid sid JNull (Some (CUnschedule sid)) [])" for sid
  proof (rule keepsI)
    fix g assume g: "consistent g"
    obtain g' where "reg_register h ''schedule'' sid sid JNull (Some (CUnschedule sid)) [] g = (Inr (), g')"
      "refs g' = dset (refs g) (sched_key sid) (entry_of sid sid JNull [] g)"
      "cleanups g' = dset (cleanups g) (sched_key sid) (CUnschedule sid)"
      "bus_subs g' = bus_subs g"
      using reg_register_steady [OF assms, of "''schedule''" sid sid JNull "Some (CUnschedule sid)" "[]" g]
      by (auto simp: sched_key_def)
    then show "consistent (snd (reg_register h ''schedule'' sid sid JNull (Some (CUnschedule sid)) [] g))"
      using g by (simp add: consistent_def)
  qed
  then show ?thesis
    unfolding bus_schedule_def by (intro keeps_intro consistent_log)
qed

text \<open>A registration of another kind leaves the subscription and schedule entries alone.\<close>

lemma consistent_foreign:
  assumes "steady h" and "consistent g" and "\<forall>s. cf \<noteq> Some (CUnsubscribe s)"
    and "\<And>s. ref_key type rid \<noteq> sub_key s" and "\<And>s. ref_key type rid \<noteq> sched_key s"
  shows "consistent (snd (reg_register h type rid name ref cf source g))"
proof -
  obtain g' where "reg_register h type rid name ref cf source g = (Inr (), g')"
    "refs g' = dset (refs g) (ref_key type rid) (entry_of rid name ref source g)"
    "cleanups g' = (case cf of Some f \<Rightarrow> dset (cleanups g) (ref_key type rid) f
                             | None \<Rightarrow> ddel (cleanups g) (ref_key type rid))"
    "bus_subs g' = bus_subs g"
    using reg_register_steady [OF assms(1)] by blast
  then show ?thesis
    using assms(2-5) assms(4) [symmetric] assms(5) [symmetric]
    by (auto simp: consistent_def split: option.splits)
qed

lemma after_cleanup_lookup:
  "dget (cleanups (after_cleanup h k g)) j = (if j = k then None else dget (cleanups g) j)"
  by (auto simp: after_cleanup_def Let_def split: option.split)

lemma after_cleanup_subs:
  "steady h \<Longrightarrow> dget (bus_subs (after_cleanup h k g)) s =
     (if dget (cleanups g) k = Some (CUnsubscribe s) then None else dget (bus_subs g) s)"
  by (auto simp: after_cleanup_def Let_def run_cleanup_bus_subs steady_def
      simp del: run_cleanup.simps split: option.splits cleanup.splits)

text \<open>
  Unregistering a key restores the invariant also when the subscription of that key is already gone.
\<close>

lemma consistent_unregister:
  assumes "steady h" and "consistent g0"
    and g: "refs g = refs g0" "cleanups g = cleanups g0"
    and b: "\<And>s. ref_key type rid \<noteq> sub_key s \<Longrightarrow> dget (bus_subs g) s = dget (bus_subs g0) s"
      "\<And>s. dget (bus_subs g) s \<noteq> None \<Longrightarrow> dget (bus_subs g0) s \<noteq> None"
  shows "consistent (snd (reg_unregister h type rid g))"
proof -
  let ?k = "ref_key type rid"
  have subs: "\<And>s. dget (bus_subs g0) s \<noteq> None \<longleftrightarrow> dget (refs g) (sub_key s) \<noteq> None"
    and subs': "\<And>s. dget (refs g) (sub_key s) \<noteq> None \<longleftrightarrow> dget (cleanups g) (sub_key s) = Some (CUnsubscribe s)"
    and sched: "\<And>s. dget (refs g) (sched_key s) \<noteq> None \<longleftrightarrow> dget (cleanups g) (sched_key s) = Some (CUnschedule s)"
    and owner: "\<And>k s. dget (cleanups g) k = Some (CUnsubscribe s) \<Longrightarrow> k = sub_key s"
    using assms(2) g by (auto simp: consistent_def)
  have "dget (bus_subs (after_cleanup h ?k g)) s \<noteq> None \<longleftrightarrow> dget (ddel (refs g) ?k) (sub_key s) \<noteq> None" for s
  proof (cases "?k = sub_key s")
    case True
    then have "dget (bus_subs g) s = None \<or> dget (cleanups g) ?k = Some (CUnsubscribe s)"
      using b(2) [of s] subs [of s] subs' [of s] by auto
    then show ?thesis using True after_cleanup_subs [OF assms(1), of ?k g s] by auto
  next
    case False
    then have "dget (cleanups g) ?k \<noteq> Some (CUnsubscribe s)" using owner by blast
    then show ?thesis
      using False b(1) [of s] subs [of s] after_cleanup_subs [OF assms(1), of ?k g s] by auto
  qed
  moreover have "dget (ddel (refs g) ?k) (sub_key s) \<noteq> None \<longleftrightarrow>
      dget (cleanups (after_cleanup h ?k g)) (sub_key s) = Some (CUnsubscribe s)" for s
    using subs' [of s] by (simp add: after_cleanup_lookup)
  moreover have "dget (ddel (refs g) ?k) (sched_key s) \<noteq> None \<longleftrightarrow>
      dget (cleanups (after_cleanup h ?k g)) (sched_key s) = Some (CUnschedule s)" for s
    using sched [of s] by (simp add: after_cleanup_lookup)
  moreover have "dget (cleanups (after_cleanup h ?k g)) k = Some (CUnsubscribe s) \<Longrightarrow> k = sub_key s" for k s
    using owner [of k s] by (simp add: after_cleanup_lookup split: if_splits)
  ultimately show ?thesis
    unfolding reg_unregister_eq consistent_def by simp
qed

lemma keeps_unregister: "steady h \<Longrightarrow> keeps consistent (reg_unregister h type rid)"
  by (rule keepsI) (rule consistent_unregister, auto)

lemma bus_unsubscribe_steady:
  assumes "steady h"
  shows "bus_unsubscribe h s g = (Inr (), snd (reg_unregister h ''subscription'' s
     (g\<lparr>host_log := host_log g @ [Unsubscribe s], bus_subs := ddel (bus_subs g) s\<rparr>)))"
  using assms by (simp add: bus_unsubscribe_def js_defs host_do_def steady_def reg_unregister_eq)

lemma keeps_bus_unsubscribe: "steady h \<Longrightarrow> keeps consistent (bus_unsubscribe h s)"
proof (rule keepsI)
  fix g assume "steady h" "consistent g"
  then show "consistent (snd (bus_unsubscribe h s g))"
    unfolding bus_unsubscribe_steady [OF \<open>steady h\<close>] snd_conv
    by (rule consistent_unregister) (auto simp: sub_key_def split: if_splits)
qed

lemma keeps_bus_unschedule: "steady h \<Longrightarrow> keeps consistent (bus_unschedule h s)"
  unfolding bus_unschedule_def by (intro keeps_intro consistent_log keeps_unregister)

lemma keeps_with_source: "keeps consistent m \<Longrightarrow> keeps consistent (with_source source m)"
proof (rule keepsI)
  fix g assume "keeps consistent m" "consistent g"
  moreover have "consistent (g\<lparr>current_source := source\<rparr>)"
    using \<open>consistent g\<close> by (simp cong: consistent_cong add: consistent_cong [of "g\<lparr>current_source := source\<rparr>" g])
  ultimately have "consistent (snd (m (g\<lparr>current_source := source\<rparr>)))"
    by (simp only: keepsD)
  then show "consistent (snd (with_source source m g))"
    by (cases "m (g\<lparr>current_source := source\<rparr>)")
       (auto simp: with_source_run intro: consistent_cong [THEN iffD1, rotated -1])
qed

lemma keeps_kit_register: "steady h \<Longrightarrow> keeps consistent (kit_register h sb type name ref)"
proof (rule keepsI)
  fix g assume h: "steady h" and g: "consistent g"
  have log: "consistent (g\<lparr>host_log := host_log g @ l\<rparr>)" for l
    using g by (simp add: consistent_def)
  show "consistent (snd (kit_register h sb type name ref g))"
    using kit_register_cases [OF refl, of h sb type name ref g]
  proof (elim disjE exE conjE)
    fix l cf n
    assume a: "type_accepted type"
      "cf \<in> set [None, Some (CToolUnregister n), Some (CAgentUnregister n)]"
      "kit_register h sb type name ref g = reg_register h type n n ref cf [] (g\<lparr>host_log := host_log g @ l\<rparr>)"
    show ?thesis
      unfolding a(3)
      by (rule consistent_foreign [OF h log]) (use a(1,2) accepted_key in auto)
  qed (use g log in auto)
qed

lemma keeps_kit_unregister: "steady h \<Longrightarrow> keeps consistent (kit_unregister h type name)"
  unfolding kit_unregister_def by (intro keeps_intro keeps_unregister)

lemma keeps_scoped_on: "steady h \<Longrightarrow> keeps consistent (scoped_on h source t f)"
proof -
  assume h: "steady h"
  have "keeps consistent (reg_register h ''topic'' topic name JNull None source)" for topic name
    by (rule keepsI) (rule consistent_foreign [OF h], auto)
  then show ?thesis
    unfolding scoped_on_def Let_def scoped_subscribe_def
    by (intro keeps_intro keeps_with_source keeps_subscribe h)
qed

lemma keeps_bus_on: "steady h \<Longrightarrow> keeps consistent (bus_on h t f)"
  unfolding bus_on_def by (intro keeps_intro keeps_subscribe)

lemma keeps_onCancel: "steady h \<Longrightarrow> keeps consistent (bus_onCancel h cid f t)"
  unfolding bus_onCancel_def by (intro keeps_intro keeps_subscribe)

lemma keeps_withCancel: "steady h \<Longrightarrow> keeps consistent (bus_withCancelController h m)"
  unfolding bus_withCancelController_def Let_def
  by (intro keeps_intro keeps_onCancel keeps_modify) (auto simp: consistent_def)

lemma keeps_dispatch: "keeps consistent (dispatch run sid raw)"
  by (auto simp: keeps_def dispatch_def js_defs capture_def fire_target_def consistent_def
      split: option.split sub_handler.split sum.split cancel_target.split)

lemma keeps_call: "keeps consistent (bus_call h t d opts)"
  unfolding bus_call_def call_host_def by (intro keeps_intro consistent_log)

lemma keeps_publish: "keeps consistent (bus_publish h t d)"
  unfolding bus_publish_def by (intro keeps_intro consistent_log)

lemmas keeps_kit = keeps_subscribe keeps_bus_on keeps_bus_unsubscribe keeps_schedule
  keeps_bus_unschedule keeps_onCancel keeps_withCancel keeps_dispatch keeps_publish keeps_call
  keeps_kit_register keeps_kit_unregister keeps_scoped_on keeps_with_source

lemma consistent_enter: "consistent (snd (run_enter source g)) \<longleftrightarrow> consistent g"
  by (rule consistent_cong) (simp_all add: run_enter_def)

lemma kit_step_consistent: "steady h \<Longrightarrow> consistent g \<Longrightarrow> consistent (kit_step h run sb g x)"
  by (cases x)
     (simp_all add: scoped_register_def scoped_unregister_def scoped_schedule_def keeps_kit
        keeps_kit [THEN keepsD] consistent_enter)

interpretation kitm: machine "kit_step h run sb" consistent "\<lambda>g x. steady h" for h run sb
  by unfold_locales (rule kit_step_consistent)

lemma steady_run: "steady h \<Longrightarrow> kitm.ok_run h run sb g xs"
proof (induction xs arbitrary: g)
  case (Cons x xs)
  then show ?case unfolding kitm.ok_run.simps by blast
qed (unfold kitm.ok_run.simps, blast)

lemma consistent_empty: "consistent empty_globals"
  by (simp add: consistent_def empty_globals_def)

definition kit_reach ::
  "host \<Rightarrow> (nat \<Rightarrow> message \<Rightarrow> handler_result) \<Rightarrow> string \<Rightarrow> kit_op list \<Rightarrow> globals" where
  "kit_reach h run sb xs = foldl (kit_step h run sb) empty_globals xs"

lemma kit_reach_consistent: "steady h \<Longrightarrow> consistent (kit_reach h run sb xs)"
  unfolding kit_reach_def by (rule kitm.run_inv [OF consistent_empty steady_run])

lemma steady_quiet: "steady quiet_host"
  by (simp add: steady_def quiet_host_def)

section \<open>Properties\<close>

text \<open>
  C1. After any sequence of bus and registry operations by any deployments, with host calls that may
  fail (all but the two bookkeeping calls), the three tables agree: a subscription id has a live
  handler exactly when the registry holds its entry, exactly when the cleanup that would remove it
  is stored; a schedule entry exists exactly when its unschedule cleanup does; and no cleanup
  unsubscribes anything but the subscription of its own key.
\<close>

theorem tables_consistent:
  assumes "steady h"
  shows "(dget (bus_subs (kit_reach h run sb xs)) s \<noteq> None \<longleftrightarrow>
            reg_get ''subscription'' s (kit_reach h run sb xs) \<noteq> None)
    \<and> (reg_get ''subscription'' s (kit_reach h run sb xs) \<noteq> None \<longleftrightarrow>
         dget (cleanups (kit_reach h run sb xs)) (ref_key ''subscription'' s) = Some (CUnsubscribe s))
    \<and> (reg_get ''schedule'' s (kit_reach h run sb xs) \<noteq> None \<longleftrightarrow>
         dget (cleanups (kit_reach h run sb xs)) (ref_key ''schedule'' s) = Some (CUnschedule s))
    \<and> (dget (cleanups (kit_reach h run sb xs)) k = Some (CUnsubscribe s) \<longrightarrow>
         k = ref_key ''subscription'' s)"
proof -
  have c: "consistent (kit_reach h run sb xs)" by (rule kit_reach_consistent [OF assms])
  show ?thesis
    using consistentD(1-3) [OF c, of s] consistentD(4) [OF c, of k s]
    by (simp add: reg_get_def sub_key_def sched_key_def del: not_None_eq)
qed

theorem tables_consistent_witness:
  "dget (bus_subs (kit_reach quiet_host (\<lambda>_ _. Returned JNull) [] [KScopedOn ''a.ts'' ''t'' (UserHandler 0), KUnregister ''a.ts'' ''topic'' ''ts.a.t'',
      KSchedule ''@hourly'' ''x'' JNull])) ''ii'' \<noteq> None \<longleftrightarrow>
   reg_get ''subscription'' ''ii'' (kit_reach quiet_host (\<lambda>_ _. Returned JNull) [] [KScopedOn ''a.ts'' ''t'' (UserHandler 0),
      KUnregister ''a.ts'' ''topic'' ''ts.a.t'', KSchedule ''@hourly'' ''x'' JNull]) \<noteq> None"
  by (rule tables_consistent [OF steady_quiet, THEN conjunct1])

text \<open>
  Remark: The two ways to end a subscription agree: in every reachable state \<open>bus.unsubscribe\<close> and the
  registry's \<open>unregister\<close> (which a teardown uses) leave the same subscriptions, entries and
  cleanups, and afterwards a message for that id reaches no handler.
\<close>

theorem unsubscribe_equals_unregister:
  assumes "steady h" and "g = kit_reach h run sb xs"
  shows "bus_subs (snd (bus_unsubscribe h s g)) = bus_subs (snd (reg_unregister h ''subscription'' s g))
    \<and> refs (snd (bus_unsubscribe h s g)) = refs (snd (reg_unregister h ''subscription'' s g))
    \<and> cleanups (snd (bus_unsubscribe h s g)) = cleanups (snd (reg_unregister h ''subscription'' s g))
    \<and> fst (dispatch run' s raw (snd (bus_unsubscribe h s g))) = Inr None"
proof -
  have c: "consistent g" unfolding assms(2) by (rule kit_reach_consistent [OF assms(1)])
  let ?k = "ref_key ''subscription'' s"
  have ddel2: "ddel (ddel d k) k = ddel d k" for d :: "(string, sub_handler) dict" and k
    by (simp add: ddel_absent)
  show ?thesis
  proof (cases "dget (cleanups g) ?k")
    case None
    then have "dget (bus_subs g) s = None"
      using consistentD(1,2) [OF c, of s] by (simp add: sub_key_def)
    then show ?thesis
      using None by (simp add: bus_unsubscribe_steady [OF assms(1)] reg_unregister_eq after_cleanup_idle
          ddel_absent dispatch_def js_defs)
  next
    case (Some f)
    then have "f = CUnsubscribe s \<or> (\<forall>s'. f \<noteq> CUnsubscribe s') \<and> dget (bus_subs g) s = None"
      using consistentD(1,2) [OF c, of s] consistentD(4) [OF c, of ?k] by (auto simp: sub_key_def)
    then show ?thesis
    proof
      assume "f = CUnsubscribe s"
      with Some assms(1) show ?thesis
        by (simp add: bus_unsubscribe_steady reg_unregister_eq after_cleanup_def Let_def js_defs
            host_do_def steady_def ddel2 dispatch_def)
    next
      assume f: "(\<forall>s'. f \<noteq> CUnsubscribe s') \<and> dget (bus_subs g) s = None"
      then show ?thesis
        using Some by (cases f)
          (simp_all add: bus_unsubscribe_steady [OF assms(1)] reg_unregister_eq after_cleanup_def Let_def
            run_cleanup_bus_subs ddel_absent dispatch_def js_defs del: run_cleanup.simps)
    qed
  qed
qed

theorem unsubscribe_equals_unregister_witness:
  "fst (dispatch (\<lambda>_ _. Returned JNull) ''ii'' JNull (snd (bus_unsubscribe quiet_host ''ii''
      (kit_reach quiet_host (\<lambda>_ _. Returned JNull) [] [KScopedOn ''a.ts'' ''t'' (UserHandler 0)])))) = Inr None"
  by (rule unsubscribe_equals_unregister [OF steady_quiet refl, THEN conjunct2, THEN conjunct2, THEN conjunct2])

end
