(* ===== verification/Kit_Refinement.thy ===== *)
theory Kit_Refinement
  imports Kit_Machine
begin

text \<open>
  What the machine of \<open>Kit_Machine\<close> promises about message delivery: seen from outside, the runtime is a
  partial map from subscription ids to handlers. An operation that returns a new id adds it, ending a
  subscription removes it, nothing else changes the map, and a message is delivered by looking it up.
\<close>

section \<open>The abstract specification\<close>

type_synonym live_subs = "string \<Rightarrow> sub_handler option"

datatype sub_event = Subscribed string sub_handler | Ended string | Unchanged

fun spec_step :: "live_subs \<Rightarrow> sub_event \<Rightarrow> live_subs" where
  "spec_step m (Subscribed i f) = m(i \<mapsto> f)"
| "spec_step m (Ended i) = m(i := None)"
| "spec_step m Unchanged = m"

definition spec_dispatch ::
  "(nat \<Rightarrow> message \<Rightarrow> handler_result) \<Rightarrow> live_subs \<Rightarrow> string \<Rightarrow> jsval \<Rightarrow> jsval + jsval option" where
  "spec_dispatch run m i raw =
     (case m i of
        None \<Rightarrow> Inr None
      | Some (UserHandler f) \<Rightarrow> map_sum id Some (outcome_of (run f (wrapMsg raw)))
      | Some (CancelFilter c t) \<Rightarrow> Inr (Some JUndef))"

definition live :: "globals \<Rightarrow> live_subs" where
  "live g = dget (bus_subs g)"

text \<open>The event a caller can see: made from the operation and its result only.\<close>

definition subscribed :: "sub_handler \<Rightarrow> jsval + string \<Rightarrow> sub_event" where
  "subscribed f r = (case r of Inr i \<Rightarrow> Subscribed i f | Inl e \<Rightarrow> Unchanged)"

definition unregistered :: "string \<Rightarrow> string \<Rightarrow> jsval + unit \<Rightarrow> sub_event" where
  "unregistered type name r =
     (case r of
        Inl e \<Rightarrow> Unchanged
      | Inr u \<Rightarrow> if starts_with (sub_key []) (ref_key type name)
                 then Ended (drop (length (sub_key [])) (ref_key type name)) else Unchanged)"

fun kit_event ::
  "host \<Rightarrow> (nat \<Rightarrow> message \<Rightarrow> handler_result) \<Rightarrow> string \<Rightarrow> globals \<Rightarrow> kit_op \<Rightarrow> sub_event" where
  "kit_event h run sb g (KSubscribe topic f) = subscribed f (fst (bus_subscribe h topic f g))"
| "kit_event h run sb g (KOn topic f) = subscribed f (fst (bus_on h topic f g))"
| "kit_event h run sb g (KScopedOn source topic f) = subscribed f (fst (scoped_on h source topic f g))"
| "kit_event h run sb g (KOnCancel cid f t) = subscribed (CancelFilter cid t) (fst (bus_onCancel h cid f t g))"
| "kit_event h run sb g (KWithCancel m) =
     (case fst (bus_withCancelController h m g) of
        Inr (c, Some i) \<Rightarrow> Subscribed i (CancelFilter (and_prop m ''correlationId'') (AbortController c))
      | _ \<Rightarrow> Unchanged)"
| "kit_event h run sb g (KUnsubscribe i) = Ended i"
| "kit_event h run sb g (KUnregister source type name) = unregistered type name (fst (scoped_unregister h source type name g))"
| "kit_event h run sb g x = Unchanged"

fun kit_trace ::
  "host \<Rightarrow> (nat \<Rightarrow> message \<Rightarrow> handler_result) \<Rightarrow> string \<Rightarrow> globals \<Rightarrow> kit_op list \<Rightarrow> sub_event list" where
  "kit_trace h run sb g [] = []"
| "kit_trace h run sb g (x # xs) = kit_event h run sb g x # kit_trace h run sb (kit_step h run sb g x) xs"

section \<open>What the operations do to the map\<close>

definition same_live :: "live_subs \<Rightarrow> globals \<Rightarrow> bool" where
  "same_live m g \<longleftrightarrow> live g = m"

lemma same_live_log: "no_log (same_live m)"
  by (simp add: no_log_def same_live_def live_def)

lemma live_subscribe:
  assumes "steady h"
  shows "live (snd (bus_subscribe h topic f g)) = spec_step (live g) (subscribed f (fst (bus_subscribe h topic f g)))"
proof (cases "throws h (host_log g) (Subscribe topic)")
  case (Some e)
  then show ?thesis by (simp add: bus_subscribe_def js_defs host_ident_def live_def subscribed_def)
next
  case None
  let ?s = "ident h (host_log g) (Subscribe topic)"
  let ?g = "g\<lparr>host_log := host_log g @ [Subscribe topic], bus_subs := dset (bus_subs g) ?s f\<rparr>"
  obtain g' where g': "reg_register h ''subscription'' ?s ?s JNull (Some (CUnsubscribe ?s)) [] ?g = (Inr (), g')"
    "bus_subs g' = bus_subs ?g"
    using reg_register_steady [OF assms] by blast
  then have "bus_subscribe h topic f g = (Inr ?s, g')"
    using None by (simp add: bus_subscribe_def js_defs host_ident_def)
  then show ?thesis using g'(2) by (auto simp: live_def subscribed_def)
qed

lemma live_register:
  assumes "steady h"
  shows "live (snd (reg_register h type rid name ref cf source g)) = live g"
    and "fst (reg_register h type rid name ref cf source g) = Inr ()"
  using reg_register_steady [OF assms, of type rid name ref cf source g] by (auto simp: live_def)

lemma live_with_source:
  "live (snd (with_source source m g)) = live (snd (m (g\<lparr>current_source := source\<rparr>)))"
  "fst (with_source source m g) = fst (m (g\<lparr>current_source := source\<rparr>))"
  by (cases "m (g\<lparr>current_source := source\<rparr>)", simp add: with_source_run live_def)+

lemma live_source [simp]: "live (g\<lparr>current_source := source\<rparr>) = live g"
  by (simp add: live_def)

lemma live_scoped_on:
  assumes "steady h"
  shows "live (snd (scoped_on h source topic f g)) = spec_step (live g) (subscribed f (fst (scoped_on h source topic f g)))"
proof (cases "reg_get ''topic'' (source_namespace source @ ''.'' @ topic) g")
  case (Some e)
  then show ?thesis by (simp add: scoped_on_def js_defs Let_def subscribed_def)
next
  case None
  let ?full = "source_namespace source @ ''.'' @ topic"
  obtain g1 where g1: "reg_register h ''topic'' ?full topic JNull None source g = (Inr (), g1)" "live g1 = live g"
    using live_register [OF assms, of "''topic''" ?full topic JNull None source g] by (metis prod.collapse)
  have "scoped_on h source topic f g = scoped_subscribe h source ?full f g1"
    using None g1(1) by (simp add: scoped_on_def js_defs Let_def)
  then show ?thesis
    using live_subscribe [OF assms, of ?full f "g1\<lparr>current_source := source\<rparr>"] g1(2)
    by (simp add: scoped_subscribe_def live_with_source)
qed

lemma live_on:
  "steady h \<Longrightarrow> live (snd (bus_on h t f g)) = spec_step (live g) (subscribed f (fst (bus_on h t f g)))"
  by (auto simp: bus_on_def js_defs subscribed_def live_subscribe split: option.split)

lemma live_onCancel:
  "steady h \<Longrightarrow> live (snd (bus_onCancel h cid f t g))
     = spec_step (live g) (subscribed (CancelFilter cid t) (fst (bus_onCancel h cid f t g)))"
  by (auto simp: bus_onCancel_def js_defs live_subscribe) (simp_all add: subscribed_def)

lemma live_withCancel:
  assumes "steady h"
  shows "live (snd (bus_withCancelController h m g)) = spec_step (live g) (kit_event h run sb g (KWithCancel m))"
proof (cases "truthy (and_prop m ''correlationId'')")
  case False
  then show ?thesis by (simp add: bus_withCancelController_def js_defs Let_def live_def)
next
  case True
  let ?cid = "and_prop m ''correlationId''" and ?c = "next_controller g"
  let ?g = "g\<lparr>next_controller := Suc ?c\<rparr>"
  obtain r g' where r: "bus_onCancel h ?cid (JFun 0) (AbortController ?c) ?g = (r, g')" by force
  have "bus_withCancelController h m g = (map_sum id (\<lambda>s. (?c, Some s)) r, g')"
    using True r by (cases r) (simp_all add: bus_withCancelController_def js_defs Let_def)
  moreover have "live ?g = live g" by (simp add: live_def)
  ultimately show ?thesis
    using live_onCancel [OF assms, of ?cid "JFun 0" "AbortController ?c" ?g] r
    by (cases r) (simp_all add: subscribed_def)
qed

text \<open>Unregistering a key ends the subscription of that key, in a consistent state.\<close>

lemma live_reg_unregister:
  assumes "steady h" and "consistent g0" and "cleanups g = cleanups g0" and "live g = (live g0)(s := None) \<or> live g = live g0"
    and "ref_key type rid = sub_key s"
  shows "live (snd (reg_unregister h type rid g)) = (live g0)(s := None)"
proof
  fix i
  have o: "dget (cleanups g0) (sub_key s) = Some (CUnsubscribe i) \<Longrightarrow> i = s"
    using consistentD(4) [OF assms(2)] by fastforce
  have d: "dget (bus_subs g0) s = None \<or> dget (cleanups g0) (sub_key s) = Some (CUnsubscribe s)"
    using consistentD(1) [OF assms(2), of s] consistentD(2) [OF assms(2), of s] by argo
  show "live (snd (reg_unregister h type rid g)) i = ((live g0)(s := None)) i"
    using o d assms(3,4) unfolding reg_unregister_eq snd_conv live_def
    by (auto simp: after_cleanup_subs [OF assms(1)] assms(5) fun_eq_iff)
qed

lemma live_reg_unregister_other:
  assumes "steady h" and "consistent g" and "\<And>s. ref_key type rid \<noteq> sub_key s"
  shows "live (snd (reg_unregister h type rid g)) = live g"
proof
  fix i
  have "dget (cleanups g) (ref_key type rid) \<noteq> Some (CUnsubscribe i)"
    using consistentD(4) [OF assms(2)] assms(3) by blast
  then show "live (snd (reg_unregister h type rid g)) i = live g i"
    unfolding reg_unregister_eq snd_conv live_def by (simp add: after_cleanup_subs [OF assms(1)])
qed

lemma live_unsubscribe:
  assumes "steady h" and "consistent g"
  shows "live (snd (bus_unsubscribe h s g)) = (live g)(s := None)"
  unfolding bus_unsubscribe_steady [OF assms(1)] snd_conv
  by (rule live_reg_unregister [OF assms]) (auto simp: live_def sub_key_def)

lemma sub_key_drop: "starts_with (sub_key []) k \<longleftrightarrow> k = sub_key (drop (length (sub_key [])) k)"
  by (auto simp: sub_key_def ref_key_def starts_with_iff)

lemma kit_unregister_ends:
  assumes "steady h" and "consistent g"
  shows "live (snd (kit_unregister h type name g)) = spec_step (live g) (unregistered type name (fst (kit_unregister h type name g)))"
proof (cases "\<exists>e. kit_unregister h type name g = (Inl e, g)")
  case True
  then show ?thesis by (auto simp: unregistered_def)
next
  case False
  then have run: "snd (kit_unregister h type name g) = snd (reg_unregister h type name g)"
    and ok: "fst (kit_unregister h type name g) = Inr ()"
    by (auto simp: kit_unregister_def js_defs reg_unregister_eq split: option.splits if_splits)
  show ?thesis
  proof (cases "starts_with (sub_key []) (ref_key type name)")
    case True
    let ?s = "drop (length (sub_key [])) (ref_key type name)"
    have "ref_key type name = sub_key ?s" using True sub_key_drop by blast
    then show ?thesis
      using live_reg_unregister [OF assms refl disjI2 [OF refl], of type name ?s] True run ok by (simp add: unregistered_def)
  next
    case False
    then have "ref_key type name \<noteq> sub_key s" for s by (auto simp: sub_key_def ref_key_def starts_with_iff)
    then show ?thesis
      using live_reg_unregister_other [OF assms] False run ok by (simp add: unregistered_def)
  qed
qed

lemma live_scoped_unregister:
  assumes "steady h" and "consistent g"
  shows "live (snd (scoped_unregister h source type name g))
    = spec_step (live g) (unregistered type name (fst (scoped_unregister h source type name g)))"
proof -
  have "consistent (g\<lparr>current_source := source\<rparr>)" using assms(2) by (simp add: consistent_def)
  from kit_unregister_ends [OF assms(1) this] show ?thesis
    by (simp add: scoped_unregister_def live_with_source)
qed

section \<open>The operations that leave the map alone\<close>

lemma same_reg_register: "steady h \<Longrightarrow> keeps (same_live m) (reg_register h type rid name ref cf source)"
  by (rule keepsI) (simp add: same_live_def live_register)

lemma same_schedule: "steady h \<Longrightarrow> keeps (same_live m) (bus_schedule h e t d)"
  unfolding bus_schedule_def by (intro keeps_intro same_live_log same_reg_register)

lemma same_with_source: "keeps (same_live m) c \<Longrightarrow> keeps (same_live m) (with_source source c)"
  by (rule keepsI) (metis keepsD live_source live_with_source(1) same_live_def)

lemma same_publish: "keeps (same_live m) (bus_publish h t d)"
  unfolding bus_publish_def by (intro keeps_intro same_live_log)

lemma same_call: "keeps (same_live m) (bus_call h t d opts)"
  unfolding bus_call_def call_host_def by (intro keeps_intro same_live_log)

lemma same_dispatch: "keeps (same_live m) (dispatch run sid raw)"
  by (auto simp: keeps_def dispatch_def js_defs capture_def fire_target_def same_live_def live_def
      split: option.split sub_handler.split sum.split cancel_target.split)

lemma same_kit_register: "steady h \<Longrightarrow> keeps (same_live m) (kit_register h sb type name ref)"
  unfolding kit_register_def Let_def bridgeControl_def
  by (intro keeps_intro same_live_log same_reg_register)

lemma same_bus_unschedule:
  assumes "steady h" and "consistent g"
  shows "live (snd (bus_unschedule h s g)) = live g"
proof (cases "throws h (host_log g) (Unschedule s)")
  case (Some e)
  then show ?thesis by (simp add: bus_unschedule_def js_defs host_do_def live_def)
next
  case None
  let ?g = "g\<lparr>host_log := host_log g @ [Unschedule s]\<rparr>"
  have "consistent ?g" using assms(2) by (simp add: consistent_def)
  moreover have "ref_key ''schedule'' s \<noteq> sub_key i" for i
    using keys_differ(2) [of s i] by (simp add: sched_key_def)
  ultimately have "live (snd (reg_unregister h ''schedule'' s ?g)) = live ?g"
    using live_reg_unregister_other [OF assms(1)] by blast
  moreover have "snd (bus_unschedule h s g) = snd (reg_unregister h ''schedule'' s ?g)"
    using None by (simp add: bus_unschedule_def js_defs host_do_def reg_unregister_eq)
  ultimately show ?thesis by (simp add: live_def)
qed

lemmas same_kit = same_schedule same_publish same_call same_dispatch same_kit_register same_with_source

lemma sameD: "keeps (same_live (live g)) c \<Longrightarrow> live (snd (c g)) = live g"
  using keepsD [of "same_live (live g)" c g] by (simp add: same_live_def)

lemma kit_step_refines:
  assumes "steady h" and "consistent g"
  shows "live (kit_step h run sb g x) = spec_step (live g) (kit_event h run sb g x)"
proof (cases x)
  case (KWithCancel m)
  then show ?thesis using live_withCancel [OF assms(1), of m g run sb] by simp
next
  case (KEnter source)
  then show ?thesis by (simp add: run_enter_def live_def)
next
  case (KUnschedule s)
  then show ?thesis using same_bus_unschedule [OF assms] by simp
qed (simp_all add: live_subscribe live_on live_scoped_on live_onCancel live_unsubscribe live_scoped_unregister assms
  scoped_register_def scoped_schedule_def same_kit sameD)

section \<open>The refinement\<close>

text \<open>
  C2. The runtime refines the map: after any sequence of operations by any deployments, the handlers it serves
  are the map obtained from the results of the operations alone, and delivering a message gives what
  the map gives; registrations, schedules, calls and messages in between do not matter.
\<close>

theorem bus_refines_map:
  assumes "steady h"
  shows "live (kit_reach h run sb xs) = foldl spec_step (\<lambda>_. None) (kit_trace h run sb empty_globals xs)
    \<and> fst (dispatch run' i raw (kit_reach h run sb xs))
        = spec_dispatch run' (foldl spec_step (\<lambda>_. None) (kit_trace h run sb empty_globals xs)) i raw"
proof -
  have run: "live (foldl (kit_step h run sb) g xs) = foldl spec_step (live g) (kit_trace h run sb g xs)"
    if "consistent g" for g
    using that
  proof (induction xs arbitrary: g)
    case (Cons x xs)
    then show ?case
      using kit_step_consistent [OF assms Cons.prems] kit_step_refines [OF assms Cons.prems] by simp
  qed simp
  have empty: "live empty_globals = (\<lambda>_. None)" by (simp add: live_def empty_globals_def fun_eq_iff)
  have l: "live (kit_reach h run sb xs) = foldl spec_step (\<lambda>_. None) (kit_trace h run sb empty_globals xs)"
    using run [OF consistent_empty] unfolding kit_reach_def empty .
  moreover have "fst (dispatch run' i raw g) = spec_dispatch run' (live g) i raw" for g
    by (auto simp: dispatch_def spec_dispatch_def live_def js_defs split: option.split sub_handler.split sum.split)
  ultimately show ?thesis by simp
qed

theorem bus_refines_map_witness:
  "live (kit_reach quiet_host (\<lambda>_ _. Returned JNull) [] [KSubscribe ''t'' (UserHandler 0), KUnsubscribe ''i''])
     = foldl spec_step (\<lambda>_. None) (kit_trace quiet_host (\<lambda>_ _. Returned JNull) [] empty_globals
         [KSubscribe ''t'' (UserHandler 0), KUnsubscribe ''i''])"
  by (rule bus_refines_map [OF steady_quiet, THEN conjunct1])

end
