(* ===== verification/Resolve.thy ===== *)
theory Resolve
  imports Bridges
begin

text \<open>
  \<open>resolve.js\<close>: AI providers, storages and vector stores made from the host's registry, and the
  three instance caches in front of them. The factories of the embedded bundle are a parameter:
  which ones exist, and (through \<open>NewInstance\<close> of the host) that each construction makes a new
  instance or throws.
\<close>

section \<open>State\<close>

record inst =
  i_ctor :: string
  i_opts :: jsval
  i_ident :: string

record caches =
  provider_cache :: "(string, inst) dict"
  storage_cache :: "(string, inst) dict"
  vector_cache :: "(string, inst) dict"
  kit_providers :: "(string, jsval) dict"

type_synonym 'a rs = "(jsval, caches \<times> globals, 'a) comp"

definition on_host :: "'a js \<Rightarrow> 'a rs" where
  "on_host m = (\<lambda>(c, g). case m g of (r, g') \<Rightarrow> (r, (c, g')))"

definition on_caches :: "(caches \<Rightarrow> caches) \<Rightarrow> unit rs" where
  "on_caches f = (\<lambda>(c, g). (Inr (), (f c, g)))"

definition lift :: "jsval + 'a \<Rightarrow> 'a rs" where
  "lift r = (\<lambda>s. (r, s))"

section \<open>Provider configuration\<close>

definition providerFactories :: "(string, string) dict" where
  "providerFactories =
    [(''openai'', ''createOpenAI''), (''anthropic'', ''createAnthropic''),
     (''google'', ''createGoogleGenerativeAI''), (''mistral'', ''createMistral''),
     (''xai'', ''createXai''), (''groq'', ''createGroq''), (''deepseek'', ''createDeepSeek''),
     (''cerebras'', ''createCerebras''), (''perplexity'', ''createPerplexity''),
     (''togetherai'', ''createTogetherAI''), (''fireworks'', ''createFireworks''),
     (''cohere'', ''createCohere'')]"

text \<open>An empty text means that the host knows no such entry.\<close>

definition parse_config :: "jtext \<Rightarrow> jsval + jsval" where
  "parse_config raw = (if raw = NotJson [] then Inr JNull else json_parse raw)"

definition registryRuntimeResolve :: "host \<Rightarrow> string \<Rightarrow> string \<Rightarrow> jsval rs" where
  "registryRuntimeResolve h category name =
     bind (on_host (host_text h (if has_runtime_resolve h then RegistryRuntimeResolve category name
                                 else RegistryResolve category name)))
       (\<lambda>raw. lift (parse_config raw))"

text \<open>An inherited entry is a function: it has none of the properties read of it.\<close>

definition startupProviderConfig :: "string \<Rightarrow> caches \<Rightarrow> jsval" where
  "startupProviderConfig name c =
     (let pc = (case dict_read (kit_providers c) name of Own v \<Rightarrow> v | Inherited n \<Rightarrow> JFun 0 | Missing \<Rightarrow> JUndef)
      in if \<not> truthy pc then JNull
         else JObj [(''type'', js_or (js_or (getp pc ''type'') (getp pc ''Type'')) (JStr name)),
                    (''name'', JStr name), (''config'', pc)])"

definition providerConfig :: "host \<Rightarrow> string \<Rightarrow> jsval rs" where
  "providerConfig h name =
     bind (registryRuntimeResolve h ''provider'' name) (\<lambda>r.
       if truthy r then ret r else (\<lambda>s. (Inr (startupProviderConfig name (fst s)), s)))"

definition providerType :: "jsval \<Rightarrow> string \<Rightarrow> jsval" where
  "providerType parsed fallbackName =
     (let cfg = js_or (and_prop parsed ''config'') (JObj []) in
      js_or (js_or (js_or (and_prop parsed ''type'') (getp cfg ''type'')) (getp cfg ''Type''))
        (JStr fallbackName))"

fun first_of :: "jsval \<Rightarrow> string list \<Rightarrow> jsval" where
  "first_of cfg [] = JUndef"
| "first_of cfg [k] = getp cfg k"
| "first_of cfg (k # k' # ks) = js_or (getp cfg k) (first_of cfg (k' # ks))"

definition opt_field :: "string \<Rightarrow> jsval \<Rightarrow> (string \<times> jsval) list" where
  "opt_field k v = (if truthy v then [(k, v)] else [])"

definition providerOptions :: "jsval \<Rightarrow> jsval" where
  "providerOptions cfg0 =
     (let cfg = js_or cfg0 (JObj []) in
      JObj (opt_field ''apiKey'' (first_of cfg [''APIKey'', ''apiKey'', ''api_key''])
          @ opt_field ''authToken'' (first_of cfg [''AuthToken'', ''authToken'', ''auth_token''])
          @ opt_field ''baseURL'' (first_of cfg [''BaseURL'', ''baseURL'', ''base_url''])
          @ opt_field ''headers'' (first_of cfg [''Headers'', ''headers''])
          @ opt_field ''organization'' (first_of cfg [''Organization'', ''organization''])
          @ opt_field ''project'' (first_of cfg [''Project'', ''project''])))"

section \<open>Building a provider\<close>

text \<open>\<open>make\<close> constructs an instance: the host's \<open>NewInstance\<close> call gives its identity or throws.\<close>

definition make :: "host \<Rightarrow> string \<Rightarrow> jsval \<Rightarrow> inst rs" where
  "make h ctor opts =
     bind (on_host (host_ident h (NewInstance ctor opts)))
       (\<lambda>i. ret \<lparr>i_ctor = ctor, i_opts = opts, i_ident = i\<rparr>)"

definition plain_error :: "string \<Rightarrow> jsval" where
  "plain_error m = JErr PlainError m []"

definition buildProvider ::
  "host \<Rightarrow> (string \<Rightarrow> bool) \<Rightarrow> (jsval \<Rightarrow> string) \<Rightarrow> string \<Rightarrow> bool \<Rightarrow> inst option rs" where
  "buildProvider h has_export fmt name missingOK =
     bind (providerConfig h name) (\<lambda>parsed.
       if \<not> truthy parsed then
         (if missingOK then ret None
          else throw (plain_error (''AI provider '' @ squote @ name @ squote @ '' not registered'')))
       else (let typ = js_string fmt (providerType parsed name) in
         case dict_read providerFactories typ of
           Own factory \<Rightarrow>
             if has_export factory
             then bind (make h factory (providerOptions (js_or (getp parsed ''config'') (JObj []))))
                    (\<lambda>i. ret (Some i))
             else if missingOK then ret None
             else throw (plain_error (''AI provider '' @ squote @ typ @ squote @ '' not available''))
         | _ \<Rightarrow>
             if missingOK then ret None
             else throw (plain_error (''AI provider '' @ squote @ typ @ squote @ '' not available''))))"

text \<open>A model: the fallback string \<open>provider/model\<close>, or the provider applied to the model id.\<close>

datatype model = ModelName string | ModelOf inst string | EmbeddingOf inst string | TextEmbeddingOf inst string

definition resolveModel :: "host \<Rightarrow> (string \<Rightarrow> bool) \<Rightarrow> (jsval \<Rightarrow> string) \<Rightarrow> string \<Rightarrow> string \<Rightarrow> model rs" where
  "resolveModel h has_export fmt providerName modelId =
     bind (buildProvider h has_export fmt providerName True) (\<lambda>prov.
       case prov of
         None \<Rightarrow> ret (ModelName (providerName @ ''/'' @ modelId))
       | Some p \<Rightarrow> ret (ModelOf p modelId))"

text \<open>\<open>supports p m\<close>: the provider instance \<open>p\<close> has a method \<open>m\<close>.\<close>

definition resolveEmbeddingModel ::
  "host \<Rightarrow> (string \<Rightarrow> bool) \<Rightarrow> (jsval \<Rightarrow> string) \<Rightarrow> (inst \<Rightarrow> string \<Rightarrow> bool) \<Rightarrow> string \<Rightarrow> string \<Rightarrow> model rs" where
  "resolveEmbeddingModel h has_export fmt supports providerName modelId =
     bind (buildProvider h has_export fmt providerName False) (\<lambda>prov.
       case prov of
         None \<Rightarrow> throw (JErr TypeErr ''cannot read property embedding'' [])
       | Some p \<Rightarrow>
           if supports p ''embedding'' then ret (EmbeddingOf p modelId)
           else if supports p ''textEmbeddingModel'' then ret (TextEmbeddingOf p modelId)
           else throw (plain_error (''embeddingModel: provider '' @ squote @ providerName @ squote @
                  '' does not support embeddings'')))"

section \<open>The instance caches\<close>

text \<open>
  What the three \<open>resolve\<close> functions share: a truthy entry of the cache object is returned as it
  is, also one that the object inherits; otherwise the instance is built and stored.
\<close>

datatype resolved = Instance inst | InheritedFunction string

definition cached ::
  "(caches \<Rightarrow> (string, inst) dict) \<Rightarrow> (((string, inst) dict \<Rightarrow> (string, inst) dict) \<Rightarrow> caches \<Rightarrow> caches) \<Rightarrow>
   inst rs \<Rightarrow> string \<Rightarrow> resolved rs" where
  "cached get upd build name = (\<lambda>s.
     case dict_read (get (fst s)) name of
       Own i \<Rightarrow> (Inr (Instance i), s)
     | Inherited n \<Rightarrow> (Inr (InheritedFunction n), s)
     | Missing \<Rightarrow>
         bind build (\<lambda>i. seq (on_caches (upd (\<lambda>d. dset d name i))) (ret (Instance i))) s)"

definition built_provider :: "host \<Rightarrow> (string \<Rightarrow> bool) \<Rightarrow> (jsval \<Rightarrow> string) \<Rightarrow> string \<Rightarrow> inst rs" where
  "built_provider h has_export fmt name =
     bind (buildProvider h has_export fmt name False)
       (\<lambda>p. case p of Some i \<Rightarrow> ret i | None \<Rightarrow> throw (plain_error ''unreachable''))"

definition resolveProvider :: "host \<Rightarrow> (string \<Rightarrow> bool) \<Rightarrow> (jsval \<Rightarrow> string) \<Rightarrow> string \<Rightarrow> resolved rs" where
  "resolveProvider h has_export fmt name =
     cached provider_cache provider_cache_update (built_provider h has_export fmt name) name"

text \<open>\<open>__go_registry_runtime_resolve\<close> is called by name: without it the call is a ReferenceError.\<close>

definition runtime_config :: "host \<Rightarrow> string \<Rightarrow> string \<Rightarrow> jtext rs" where
  "runtime_config h category name =
     (if has_runtime_resolve h then on_host (host_text h (RegistryRuntimeResolve category name))
      else throw (JErr RefErr ''__go_registry_runtime_resolve is not defined'' []))"

definition storage_instance :: "host \<Rightarrow> (jsval \<Rightarrow> string) \<Rightarrow> string \<Rightarrow> jsval \<Rightarrow> inst rs" where
  "storage_instance h fmt name parsed =
     (let cfg = js_or (getp parsed ''config'') (JObj []); typ = getp parsed ''type'' in
      if typ = JStr ''memory'' then make h ''InMemoryStore'' JUndef
      else if typ = JStr ''libsql'' then make h ''LibSQLStore''
        (JObj [(''id'', JStr name), (''url'', getp cfg ''URL''), (''authToken'', getp cfg ''AuthToken'')])
      else if typ = JStr ''postgres'' then make h ''PostgresStore''
        (JObj [(''id'', JStr name), (''connectionString'', getp cfg ''ConnectionString'')])
      else if typ = JStr ''mongodb'' then make h ''MongoDBStore''
        (JObj [(''id'', JStr name), (''uri'', getp cfg ''URI''), (''dbName'', getp cfg ''DBName'')])
      else if typ = JStr ''upstash'' then make h ''UpstashStore''
        (JObj [(''id'', JStr name), (''url'', getp cfg ''URL''), (''token'', getp cfg ''Token'')])
      else throw (plain_error (''storage type '' @ squote @ js_string fmt typ @ squote @ '' not available'')))"

definition vector_instance :: "host \<Rightarrow> (jsval \<Rightarrow> string) \<Rightarrow> string \<Rightarrow> jsval \<Rightarrow> inst rs" where
  "vector_instance h fmt name parsed =
     (let cfg = js_or (getp parsed ''config'') (JObj []); typ = getp parsed ''type'' in
      if typ = JStr ''libsql'' then make h ''LibSQLVector''
        (JObj [(''id'', JStr name), (''url'', getp cfg ''URL''), (''authToken'', getp cfg ''AuthToken'')])
      else if typ = JStr ''pgvector'' then make h ''PgVector''
        (JObj [(''id'', JStr name), (''connectionString'', getp cfg ''ConnectionString'')])
      else if typ = JStr ''mongodb'' then make h ''MongoDBVector''
        (JObj [(''id'', JStr name), (''uri'', getp cfg ''URI''), (''dbName'', getp cfg ''DBName'')])
      else throw (plain_error (''vector store type '' @ squote @ js_string fmt typ @ squote @ '' not available'')))"

definition built_from ::
  "host \<Rightarrow> string \<Rightarrow> string \<Rightarrow> string \<Rightarrow> (jsval \<Rightarrow> inst rs) \<Rightarrow> inst rs" where
  "built_from h category label name inst_of =
     bind (runtime_config h category name) (\<lambda>raw.
       if raw = NotJson [] then throw (plain_error (label @ '' '' @ squote @ name @ squote @ '' not registered''))
       else bind (lift (json_parse raw)) (\<lambda>parsed.
         bind (lift (member parsed ''config'')) (\<lambda>_. inst_of parsed)))"

definition resolveStorage :: "host \<Rightarrow> (jsval \<Rightarrow> string) \<Rightarrow> string \<Rightarrow> resolved rs" where
  "resolveStorage h fmt name =
     cached storage_cache storage_cache_update
       (built_from h ''storage'' ''storage'' name (storage_instance h fmt name)) name"

definition resolveVectorStore :: "host \<Rightarrow> (jsval \<Rightarrow> string) \<Rightarrow> string \<Rightarrow> resolved rs" where
  "resolveVectorStore h fmt name =
     cached vector_cache vector_cache_update
       (built_from h ''vectorStore'' ''vector store'' name (vector_instance h fmt name)) name"

text \<open>An empty (falsy) name clears the whole cache.\<close>

definition cleared :: "string \<Rightarrow> (string, inst) dict \<Rightarrow> (string, inst) dict" where
  "cleared name d = (if name \<noteq> [] then ddel d name else [])"

definition clearProviderCache :: "string \<Rightarrow> caches \<Rightarrow> caches" where
  "clearProviderCache name = provider_cache_update (cleared name)"

definition clearStorageCache :: "string \<Rightarrow> caches \<Rightarrow> caches" where
  "clearStorageCache name = storage_cache_update (cleared name)"

definition clearVectorStoreCache :: "string \<Rightarrow> caches \<Rightarrow> caches" where
  "clearVectorStoreCache name = vector_cache_update (cleared name)"

definition clearRegistryCache :: "string \<Rightarrow> string \<Rightarrow> caches \<Rightarrow> bool \<times> caches" where
  "clearRegistryCache category name c =
     (if category = ''provider'' then (True, clearProviderCache name c)
      else if category = ''storage'' then (True, clearStorageCache name c)
      else if category = ''vectorStore'' then (True, clearVectorStoreCache name c)
      else (False, c))"

section \<open>Building leaves the caches alone\<close>

definition same_caches :: "'a rs \<Rightarrow> bool" where
  "same_caches m \<longleftrightarrow> (\<forall>s. fst (snd (m s)) = fst s)"

named_theorems same_intro \<open>computations that leave the caches alone\<close>

lemma same_basic [same_intro]:
  "same_caches (on_host m)" "same_caches (lift r)" "same_caches (ret a)" "same_caches (throw e)"
  by (auto simp: same_caches_def on_host_def lift_def js_defs split: prod.split)

lemma same_bind [same_intro]: "same_caches m \<Longrightarrow> (\<And>a. same_caches (f a)) \<Longrightarrow> same_caches (bind m f)"
  unfolding same_caches_def js_defs by (auto split: prod.splits sum.splits) (metis fst_conv snd_conv)+

lemma same_if [same_intro]: "same_caches m \<Longrightarrow> same_caches n \<Longrightarrow> same_caches (if b then m else n)"
  by simp

lemma same_get [same_intro]: "same_caches (\<lambda>s. (Inr (f s), s))"
  by (simp add: same_caches_def)

lemma same_make [same_intro]: "same_caches (make h ctor opts)"
  unfolding make_def by (intro same_intro)

lemma same_storage [same_intro]: "same_caches (storage_instance h fmt name parsed)"
  unfolding storage_instance_def Let_def by (intro same_intro)

lemma same_vector [same_intro]: "same_caches (vector_instance h fmt name parsed)"
  unfolding vector_instance_def Let_def by (intro same_intro)

lemma same_built_from [same_intro]:
  "(\<And>p. same_caches (k p)) \<Longrightarrow> same_caches (built_from h cat label name k)"
  unfolding built_from_def runtime_config_def by (intro same_intro)

lemma same_buildProvider [same_intro]: "same_caches (buildProvider h has fmt name b)"
  unfolding buildProvider_def providerConfig_def registryRuntimeResolve_def Let_def
  by (intro same_intro) (auto split: slot.split intro!: same_intro)

lemma same_built_provider [same_intro]: "same_caches (built_provider h has fmt name)"
  unfolding built_provider_def by (intro same_intro) (auto split: option.split intro: same_intro)

lemma same_cachesD: "same_caches m \<Longrightarrow> m s = (r, s') \<Longrightarrow> fst s' = fst s"
  by (metis same_caches_def snd_conv)

section \<open>The cache contract\<close>

text \<open>
  A cache slot of the caches record: a getter and an updater that only touches its own dictionary.
  What follows for \<open>cached\<close> holds of every slot.
\<close>

locale cache_slot =
  fixes get :: "caches \<Rightarrow> (string, inst) dict"
    and upd :: "((string, inst) dict \<Rightarrow> (string, inst) dict) \<Rightarrow> caches \<Rightarrow> caches"
  assumes get_upd: "get (upd f c) = f (get c)"
begin

lemma cached_hit:
  "dget (get (fst s)) name = Some i \<Longrightarrow> cached get upd build name s = (Inr (Instance i), s)"
  by (simp add: cached_def dict_read_def)

lemma cached_miss:
  "dget (get (fst s)) name = None \<Longrightarrow> name \<notin> set proto_names \<Longrightarrow>
   cached get upd build name s =
     (case build s of
        (Inl e, s') \<Rightarrow> (Inl e, s')
      | (Inr i, s') \<Rightarrow> (Inr (Instance i), (upd (\<lambda>d. dset d name i) (fst s'), snd s')))"
  by (auto simp: cached_def dict_read_plain js_defs on_caches_def split: prod.split sum.split)

lemma cached_inherited:
  "dget (get (fst s)) name = None \<Longrightarrow> name \<in> set proto_names \<Longrightarrow>
   cached get upd build name s = (Inr (InheritedFunction name), s)"
  by (simp add: cached_def dict_read_def)

text \<open>The instance found once is found again, without building anything, whatever the builder is.\<close>

lemma cached_stable:
  assumes "cached get upd build name s = (Inr r, s')"
  shows "cached get upd build' name s' = (Inr r, s')"
proof (cases "dget (get (fst s)) name")
  case (Some i)
  then show ?thesis using assms(1) cached_hit by simp
next
  case None
  show ?thesis
  proof (cases "name \<in> set proto_names")
    case True
    then show ?thesis using assms(1) cached_inherited [OF None True] by (auto simp: cached_inherited None)
  next
    case False
    obtain x s1 where b: "build s = (x, s1)" by (cases "build s")
    then obtain i where "x = Inr i" using assms(1) cached_miss [OF None False] by (cases x) auto
    with b have "r = Instance i" "s' = (upd (\<lambda>d. dset d name i) (fst s1), snd s1)"
      using assms(1) cached_miss [OF None False] by auto
    then show ?thesis by (simp add: cached_hit get_upd)
  qed
qed

lemma cached_failed:
  assumes "same_caches build" and "cached get upd build name s = (Inl e, s')"
  shows "fst s' = fst s"
  using assms(2) same_cachesD [OF assms(1), of s]
  by (cases "build s") (auto simp: cached_def js_defs on_caches_def split: slot.splits sum.splits)

lemma cached_outcome:
  "same_caches build \<Longrightarrow>
   (case cached get upd build name s of
      (Inl e, s') \<Rightarrow> fst s' = fst s
    | (Inr r, s') \<Rightarrow> cached get upd build' name s' = (Inr r, s'))"
  using cached_failed cached_stable by (cases s) (fastforce split: prod.split sum.split)

end

interpretation prov: cache_slot provider_cache provider_cache_update
  by unfold_locales simp

interpretation stor: cache_slot storage_cache storage_cache_update
  by unfold_locales simp

interpretation vect: cache_slot vector_cache vector_cache_update
  by unfold_locales simp

section \<open>Properties\<close>

text \<open>
  C35. Resolved storages, vector stores and providers are singletons: once a name resolved, resolving
  it again returns the same instance without consulting the host, building anything or changing any
  state.
\<close>

theorem resolve_is_stable:
  "(case resolveStorage h fmt name s of (Inl e, s') \<Rightarrow> fst s' = fst s
      | (Inr r, s') \<Rightarrow> resolveStorage h' fmt' name s' = (Inr r, s'))
   \<and> (case resolveVectorStore h fmt name s of (Inl e, s') \<Rightarrow> fst s' = fst s
      | (Inr r, s') \<Rightarrow> resolveVectorStore h' fmt' name s' = (Inr r, s'))
   \<and> (case resolveProvider h has fmt name s of (Inl e, s') \<Rightarrow> fst s' = fst s
      | (Inr r, s') \<Rightarrow> resolveProvider h' has' fmt' name s' = (Inr r, s'))"
  unfolding resolveStorage_def resolveVectorStore_def resolveProvider_def
  by (intro conjI stor.cached_outcome vect.cached_outcome prov.cached_outcome same_intro)

text \<open>The options as one table of which the falsy entries are dropped.\<close>

definition option_table :: "jsval \<Rightarrow> (string \<times> jsval) list" where
  "option_table cfg =
     [(''apiKey'', first_of cfg [''APIKey'', ''apiKey'', ''api_key'']),
      (''authToken'', first_of cfg [''AuthToken'', ''authToken'', ''auth_token'']),
      (''baseURL'', first_of cfg [''BaseURL'', ''baseURL'', ''base_url'']),
      (''headers'', first_of cfg [''Headers'', ''headers'']),
      (''organization'', first_of cfg [''Organization'', ''organization'']),
      (''project'', first_of cfg [''Project'', ''project''])]"

lemma opt_field_filter: "opt_field k v = filter (\<lambda>p. truthy (snd p)) [(k, v)]"
  by (simp add: opt_field_def)

lemma providerOptions_filter:
  "providerOptions cfg = JObj (filter (\<lambda>p. truthy (snd p)) (option_table (js_or cfg (JObj []))))"
  by (simp only: providerOptions_def Let_def option_table_def opt_field_filter filter_append [symmetric]
      append.simps)

lemma dget_filter_truthy:
  "dwf d \<Longrightarrow> dget (filter (\<lambda>p. truthy (snd p)) d) k =
     (case dget d k of Some v \<Rightarrow> if truthy v then Some v else None | None \<Rightarrow> None)"
  by (induction d k rule: dget.induct)
     (auto simp: dwf_def dkeys_def dget_None_iff intro!: dget_None_iff [THEN iffD2])

lemma dwf_option_table: "dwf (option_table cfg)"
  by (simp add: dwf_def dkeys_def option_table_def)

lemma option_table_cfg: "option_table (js_or cfg (JObj [])) = option_table cfg"
proof -
  have "getp (js_or cfg (JObj [])) k = getp cfg k" for k
    by (cases "truthy cfg"; cases cfg) (auto simp: js_or_def)
  then show ?thesis by (simp add: option_table_def)
qed

lemma getp_providerOptions:
  "getp (providerOptions cfg) k =
     (case dget (option_table cfg) k of Some v \<Rightarrow> if truthy v then v else JUndef | None \<Rightarrow> JUndef)"
  by (simp add: providerOptions_filter option_table_cfg dget_filter_truthy dwf_option_table
      split: option.split)

text \<open>
  Remark: Provider options come from the first spelling that is set: each option is taken from the
  capitalised field, else the camel-case one, else the snake-case one, is present exactly when one of
  them is truthy, and no other field of the configuration reaches the provider.
\<close>

theorem provider_options_aliases:
  "getp (providerOptions cfg) ''apiKey'' =
      (if truthy (getp cfg ''APIKey'') then getp cfg ''APIKey''
       else if truthy (getp cfg ''apiKey'') then getp cfg ''apiKey''
       else if truthy (getp cfg ''api_key'') then getp cfg ''api_key'' else JUndef)
   \<and> getp (providerOptions cfg) ''baseURL'' =
      (if truthy (getp cfg ''BaseURL'') then getp cfg ''BaseURL''
       else if truthy (getp cfg ''baseURL'') then getp cfg ''baseURL''
       else if truthy (getp cfg ''base_url'') then getp cfg ''base_url'' else JUndef)
   \<and> (\<exists>ps. providerOptions cfg = JObj ps \<and> set (dkeys ps) \<subseteq>
        {''apiKey'', ''authToken'', ''baseURL'', ''headers'', ''organization'', ''project''}
        \<and> list_all (\<lambda>p. truthy (snd p)) ps \<and> dwf ps)"
proof (intro conjI exI)
  show "providerOptions cfg = JObj (filter (\<lambda>p. truthy (snd p)) (option_table cfg))"
    by (simp add: providerOptions_filter option_table_cfg)
  show "set (dkeys (filter (\<lambda>p. truthy (snd p)) (option_table cfg))) \<subseteq>
      {''apiKey'', ''authToken'', ''baseURL'', ''headers'', ''organization'', ''project''}"
    by (rule order_trans [of _ "set (dkeys (option_table cfg))"])
       (auto simp: dkeys_def option_table_def simp del: first_of.simps)
  show "dwf (filter (\<lambda>p. truthy (snd p)) (option_table cfg))"
    using dwf_option_table [of cfg] by (simp add: dwf_def dkeys_def distinct_map_filter)
qed (simp_all add: getp_providerOptions list_all_iff,
     simp_all add: option_table_def js_or_def)

text \<open>
  Remark: A name that every object inherits is never looked up: \<open>storage\<close>, \<open>vectorStore\<close> and
  \<open>provider\<close> return the inherited function as if it were an instance, whatever the host has
  registered under that name; for all other names a first resolution consults the host.
\<close>

theorem inherited_names_shadow_registry:
  assumes "storage_cache (fst s) = []" and "vector_cache (fst s) = []" and "provider_cache (fst s) = []"
    and "name \<in> set proto_names"
  shows "resolveStorage h fmt name s = (Inr (InheritedFunction name), s)
    \<and> resolveVectorStore h fmt name s = (Inr (InheritedFunction name), s)
    \<and> resolveProvider h has fmt name s = (Inr (InheritedFunction name), s)"
  using assms
  by (simp add: resolveStorage_def resolveVectorStore_def resolveProvider_def
      stor.cached_inherited vect.cached_inherited prov.cached_inherited)

definition no_caches :: caches where
  "no_caches = \<lparr>provider_cache = [], storage_cache = [], vector_cache = [], kit_providers = []\<rparr>"

theorem inherited_names_shadow_registry_witness:
  "resolveStorage quiet_host (\<lambda>_. []) ''constructor'' (no_caches, empty_globals)
     = (Inr (InheritedFunction ''constructor''), (no_caches, empty_globals))"
  by (rule inherited_names_shadow_registry [THEN conjunct1])
     (simp_all add: no_caches_def proto_names_def)

end
