(* ===== verification/Infrastructure.thy ===== *)
theory Infrastructure
  imports Resolve
begin

text \<open>
  \<open>infrastructure.js\<close>: the tool, MCP, registry, secrets and output APIs over the bridge, and the
  freshness of the instance caches after the registry changes.
\<close>

section \<open>Tools and MCP\<close>

text \<open>\<open>parseBridgeResponse(raw).k\<close>\<close>

definition response_field :: "(jsval \<Rightarrow> string) \<Rightarrow> string \<Rightarrow> jtext \<Rightarrow> jsval js" where
  "response_field fmt k raw =
     bind (of_result (parseBridgeResponse fmt raw)) (\<lambda>v. of_result (member v k))"

definition tools_call :: "host \<Rightarrow> (jsval \<Rightarrow> string) \<Rightarrow> jsval \<Rightarrow> jsval \<Rightarrow> jsval js" where
  "tools_call h fmt name input =
     bind (bridgeRequestAsync h ''tools.call'' (JObj [(''name'', name), (''input'', input)]))
       (response_field fmt ''result'')"

definition tools_list :: "host \<Rightarrow> (jsval \<Rightarrow> string) \<Rightarrow> jsval \<Rightarrow> jsval js" where
  "tools_list h fmt namespace =
     bind (bind (bridgeRequest h ''tools.list'' (JObj [(''namespace'', js_or namespace (JStr []))]))
             (response_field fmt ''tools''))
       (\<lambda>v. ret (js_or v (JArr [])))"

definition tools_resolve :: "host \<Rightarrow> (jsval \<Rightarrow> string) \<Rightarrow> jsval \<Rightarrow> jsval js" where
  "tools_resolve h fmt name =
     bind (bridgeRequest h ''tools.resolve'' (JObj [(''name'', name)]))
       (\<lambda>raw. of_result (parseBridgeResponse fmt raw))"

definition mcp_listTools :: "host \<Rightarrow> (jsval \<Rightarrow> string) \<Rightarrow> jsval \<Rightarrow> jsval js" where
  "mcp_listTools h fmt server =
     bind (bind (bridgeRequest h ''mcp.listTools'' (JObj [(''server'', js_or server (JStr []))]))
             (response_field fmt ''tools''))
       (\<lambda>v. ret (js_or v (JArr [])))"

definition mcp_callTool :: "host \<Rightarrow> (jsval \<Rightarrow> string) \<Rightarrow> jsval \<Rightarrow> jsval \<Rightarrow> jsval \<Rightarrow> jsval js" where
  "mcp_callTool h fmt server tool args =
     bind (bridgeRequestAsync h ''mcp.callTool''
             (JObj [(''server'', server), (''tool'', tool), (''args'', js_or args (JObj []))]))
       (\<lambda>raw. of_result (parseBridgeResponse fmt raw))"

section \<open>The registry API\<close>

definition registry_has :: "host \<Rightarrow> string \<Rightarrow> string \<Rightarrow> bool js" where
  "registry_has h category name =
     bind (host_text h (RegistryHas category name)) (\<lambda>raw. ret (raw = Json (JBool True)))"

definition registry_list :: "host \<Rightarrow> string \<Rightarrow> jsval js" where
  "registry_list h category =
     bind (host_text h (RegistryList category)) (\<lambda>raw. of_result (json_parse raw))"

definition registry_resolve :: "host \<Rightarrow> string \<Rightarrow> string \<Rightarrow> jsval js" where
  "registry_resolve h category name =
     bind (host_text h (RegistryResolve category name)) (\<lambda>raw. of_result (parse_config raw))"

definition parse_raw :: "jtext \<Rightarrow> jsval + jsval" where
  "parse_raw raw = (if raw = NotJson [] then Inr JUndef else json_parse raw)"

definition registry_register :: "host \<Rightarrow> string \<Rightarrow> string \<Rightarrow> jsval \<Rightarrow> jsval rs" where
  "registry_register h category name config =
     bind (on_host (bridgeControl h ''registry.register''
             (JObj [(''category'', JStr category), (''name'', JStr name), (''config'', config)])))
       (\<lambda>raw. seq (on_caches (\<lambda>c. snd (clearRegistryCache category name c))) (lift (parse_raw raw)))"

definition registry_unregister :: "host \<Rightarrow> string \<Rightarrow> string \<Rightarrow> jsval rs" where
  "registry_unregister h category name =
     bind (on_host (bridgeControl h ''registry.unregister''
             (JObj [(''category'', JStr category), (''name'', JStr name)])))
       (\<lambda>raw. seq (on_caches (\<lambda>c. snd (clearRegistryCache category name c))) (lift (parse_raw raw)))"

text \<open>The secret's text is returned as it is, the empty string without the bridge.\<close>

definition secrets_get :: "host \<Rightarrow> string \<Rightarrow> jtext js" where
  "secrets_get h name =
     (if has_secret_get h then host_text h (SecretGet name) else ret (NotJson []))"

text \<open>The value left in \<open>__module_result\<close>.\<close>

definition kit_output :: "jsval \<Rightarrow> jsval + payload" where
  "kit_output value = to_payload value"

section \<open>Lemmas\<close>

definition cache_of :: "string \<Rightarrow> caches \<Rightarrow> (string, inst) dict" where
  "cache_of category c =
     (if category = ''provider'' then provider_cache c
      else if category = ''storage'' then storage_cache c
      else if category = ''vectorStore'' then vector_cache c else [])"

lemma cache_of_clear:
  "cache_of cat' (snd (clearRegistryCache cat name c)) =
     (if cat' = cat then cleared name (cache_of cat c) else cache_of cat' c)"
  by (auto simp: cache_of_def clearRegistryCache_def clearProviderCache_def clearStorageCache_def
      clearVectorStoreCache_def cleared_def ddel_def)

lemma registry_change:
  assumes "registry_register h cat name config s = (r, s') \<or> registry_unregister h cat name s = (r, s')"
  shows "fst s' = fst s \<and> (\<exists>e. r = Inl e) \<or> fst s' = snd (clearRegistryCache cat name (fst s))"
proof -
  have "fst s' = fst s \<and> (\<exists>e. r = Inl e) \<or> fst s' = snd (clearRegistryCache cat name (fst s))"
    if "bind (on_host m) (\<lambda>raw. seq (on_caches (\<lambda>c. snd (clearRegistryCache cat name c))) (lift (parse_raw raw))) s = (r, s')"
    for m :: "jtext js"
    using that by (cases s; cases "m (snd s)"; cases "fst (m (snd s))")
      (auto simp: js_defs on_host_def on_caches_def lift_def)
  then show ?thesis
    using assms unfolding registry_register_def registry_unregister_def by blast
qed

section \<open>Properties\<close>

text \<open>
  Remark: The caches are fresh: after \<open>registry.register\<close> or \<open>registry.unregister\<close> returned, no
  instance of that category and name is cached, so its next resolution asks the host again and
  returns an instance made from the host's answer or an error, never the old instance; the instances
  of other names and other categories stay as they were.
\<close>

theorem registry_change_refreshes:
  assumes "registry_register h cat name config s = (Inr v, s')
      \<or> registry_unregister h cat name s = (Inr v, s')"
    and "name \<noteq> []"
  shows "dget (cache_of cat (fst s')) name = None
    \<and> (\<forall>cat' n. cat' \<noteq> cat \<or> n \<noteq> name \<longrightarrow> dget (cache_of cat' (fst s')) n = dget (cache_of cat' (fst s)) n)
    \<and> (cat = ''storage'' \<and> name \<notin> set proto_names \<and> has_runtime_resolve h' \<longrightarrow>
        (\<exists>l. host_log (snd (snd (resolveStorage h' fmt name s'))) =
              host_log (snd s') @ RegistryRuntimeResolve ''storage'' name # l))"
proof (intro conjI)
  have c: "fst s' = snd (clearRegistryCache cat name (fst s))"
    using registry_change [OF assms(1)] by auto
  show "dget (cache_of cat (fst s')) name = None"
    using assms(2) by (simp add: c cache_of_clear cleared_def)
  show "\<forall>cat' n. cat' \<noteq> cat \<or> n \<noteq> name \<longrightarrow> dget (cache_of cat' (fst s')) n = dget (cache_of cat' (fst s)) n"
    using assms(2) by (auto simp: c cache_of_clear cleared_def)
  have log: "\<exists>l. host_log (snd (snd (make h' ctor opts s0))) = host_log (snd s0) @ l" for ctor opts s0
    by (cases s0) (auto simp: make_def js_defs on_host_def host_ident_def split: option.split)
  have logs: "\<exists>l. host_log (snd (snd (storage_instance h' fmt name p s0))) = host_log (snd s0) @ l" for p s0
    using log by (simp add: storage_instance_def Let_def js_defs)
  have logs': "\<exists>l. host_log (snd (snd (storage_instance h' fmt name p (a, b\<lparr>host_log := host_log b @ [x]\<rparr>))))
      = host_log b @ x # l" for p a b x
    using logs [of p "(a, b\<lparr>host_log := host_log b @ [x]\<rparr>)"] by simp
  show "cat = ''storage'' \<and> name \<notin> set proto_names \<and> has_runtime_resolve h' \<longrightarrow>
        (\<exists>l. host_log (snd (snd (resolveStorage h' fmt name s'))) =
              host_log (snd s') @ RegistryRuntimeResolve ''storage'' name # l)"
  proof
    assume a: "cat = ''storage'' \<and> name \<notin> set proto_names \<and> has_runtime_resolve h'"
    have "dget (storage_cache (fst s')) name = None"
      using a assms(2) cache_of_clear [of "''storage''" "''storage''" name "fst s"]
      by (simp add: c cache_of_def cleared_def)
    then have "snd (snd (resolveStorage h' fmt name s')) =
        snd (snd (built_from h' ''storage'' ''storage'' name (storage_instance h' fmt name) s'))"
      unfolding resolveStorage_def using a by (simp add: stor.cached_miss split: prod.split sum.split)
    moreover have "\<exists>l. host_log (snd (snd (built_from h' ''storage'' ''storage'' name (storage_instance h' fmt name) s'))) =
        host_log (snd s') @ RegistryRuntimeResolve ''storage'' name # l"
      using a
      by (cases s') (auto simp: built_from_def runtime_config_def on_host_def js_defs host_text_def lift_def
          intro: logs' split: prod.splits sum.splits option.splits)
    ultimately show "\<exists>l. host_log (snd (snd (resolveStorage h' fmt name s'))) =
              host_log (snd s') @ RegistryRuntimeResolve ''storage'' name # l" by simp
  qed
qed

theorem registry_change_refreshes_witness:
  "dget (storage_cache (fst (snd (registry_register quiet_host ''storage'' ''db'' JNull
      (no_caches\<lparr>storage_cache := [(''db'', \<lparr>i_ctor = ''InMemoryStore'', i_opts = JUndef, i_ident = ''i''\<rparr>)]\<rparr>,
       empty_globals))))) ''db'' = None"
proof -
  let ?s = "(no_caches\<lparr>storage_cache := [(''db'', \<lparr>i_ctor = ''InMemoryStore'', i_opts = JUndef, i_ident = ''i''\<rparr>)]\<rparr>, empty_globals)"
  obtain s' where s': "registry_register quiet_host ''storage'' ''db'' JNull ?s = (Inr JNull, s')"
    by (cases "registry_register quiet_host ''storage'' ''db'' JNull ?s")
       (simp add: registry_register_def bridgeControl_def to_payload_def stringify_def js_defs on_host_def
         host_text_def quiet_host_def on_caches_def lift_def parse_raw_def)
  have "dget (cache_of ''storage'' (fst s')) ''db'' = None"
    using registry_change_refreshes [of quiet_host "''storage''" "''db''" JNull ?s JNull s'] s' by simp
  then show ?thesis by (simp add: s' cache_of_def)
qed

section \<open>Tool results\<close>

text \<open>
  Remark: A tool call returns the tool's result or fails with a typed error: when the host answers with an
  envelope, \<open>tools.call\<close> returns exactly the \<open>result\<close> field of its data, and an error envelope
  is thrown as a \<open>BrainkitError\<close> with the wire code and message.
\<close>

theorem tools_call_result:
  assumes "has_request_async h" and "never_throws h" and "\<not> has_bigint name" and "\<not> has_bigint input"
  shows "(answer h (host_log g) c = Json (ok_envelope (JObj [(''result'', v)])) \<longrightarrow>
        c = last (host_log (snd (tools_call h fmt name input g))) \<longrightarrow>
        fst (tools_call h fmt name input g) = Inr v)
    \<and> (answer h (host_log g) c = Json (error_envelope code message (JObj details)) \<longrightarrow> code \<noteq> [] \<longrightarrow> message \<noteq> [] \<longrightarrow>
        c = last (host_log (snd (tools_call h fmt name input g))) \<longrightarrow>
        fst (tools_call h fmt name input g) = Inl (BrainkitError message (JStr code) (JObj details)))"
proof -
  let ?p = "JObj [(''name'', name), (''input'', input)]"
  obtain t where t: "to_payload ?p = Inr (Tree t)"
    using assms(3,4) by (simp add: to_payload_def stringify_def)
  let ?c = "RequestAsync ''tools.call'' (Tree t)"
  have run: "tools_call h fmt name input g =
      response_field fmt ''result'' (answer h (host_log g) ?c) (g\<lparr>host_log := host_log g @ [?c]\<rparr>)"
    using assms(1,2) t
    by (simp add: tools_call_def bridgeRequestAsync_def js_defs host_text_def never_throws_def)
  have snd_run: "snd (response_field fmt k raw g') = g'" for k raw g'
    by (simp add: response_field_def js_defs split: sum.split)
  show ?thesis
    by (auto simp: run snd_run) (simp_all add: response_field_def js_defs parse_error_envelope member_def)
qed

definition answering :: "jtext \<Rightarrow> host" where
  "answering t = quiet_host\<lparr>answer := \<lambda>_ _. t\<rparr>"

theorem tools_call_result_witness:
  "fst (tools_call (answering (Json (ok_envelope (JObj [(''result'', JStr ''42'')])))) (\<lambda>_. []) (JStr ''add'') JNull empty_globals)
     = Inr (JStr ''42'')"
  by (rule tools_call_result [THEN conjunct1, rule_format, OF _ _ _ _ _ refl])
     (simp_all add: answering_def quiet_host_def never_throws_def)

end
