(* ===== verification/Approval.thy ===== *)
theory Approval
  imports Bridges
begin

text \<open>
  \<open>approval.js\<close>: \<open>generateWithApproval\<close>, the loop that routes every suspended tool call of an agent
  through the bus until the agent finishes. The agent (a third-party object) and the host's approval
  bridge are parameters whose answers may depend on everything that happened before; the model
  records every call made to them in order.
\<close>

section \<open>Calls and parameters\<close>

datatype acall =
    AGenerate "(string \<times> jsval) list"
  | AAwait jsval "jsval option" jsval
  | AApprove "(string \<times> jsval) list"
  | ADecline "(string \<times> jsval) list"

text \<open>\<open>to_number\<close> is the numeric value the language gives a non-number in a comparison.\<close>

record agent_env =
  agent_given :: bool
  agent_generates :: bool
  agent_has_mastra_getter :: bool
  agent_mastra :: jsval
  agent_name :: jsval
  respond :: "acall list \<Rightarrow> acall \<Rightarrow> jsval + jsval"
  decide :: "acall list \<Rightarrow> acall \<Rightarrow> jsval + jtext"
  to_number :: "jsval \<Rightarrow> jsnum"

record approval_cfg =
  ap_topic :: jsval
  ap_timeout :: jsval
  ap_limit :: jsval
  ap_opts :: "(string \<times> jsval) list"

section \<open>Helpers\<close>

text \<open>The enumerable properties of an options object in order.\<close>

fun props_of :: "jsval \<Rightarrow> (string \<times> jsval) list" where
  "props_of (JObj ps) = ps"
| "props_of (JErr c m ps) = ps"
| "props_of v = []"

definition copyAgentOptions :: "(string \<times> jsval) list \<Rightarrow> (string \<times> jsval) list" where
  "copyAgentOptions ps = foldl (\<lambda>d p. dset d (fst p) (snd p)) [] ps"

definition normalizeToolResult :: "jsval \<Rightarrow> jsval" where
  "normalizeToolResult tr =
     (let payload = getp tr ''payload'' in
      if truthy tr \<and> truthy payload \<and> getp payload ''toolName'' \<noteq> JUndef then
        JObj [(''toolCallId'', js_or (getp payload ''toolCallId'') (getp tr ''toolCallId'')),
              (''toolName'', getp payload ''toolName''),
              (''args'', getp payload ''args''),
              (''result'', getp payload ''result'')]
      else tr)"

definition normalize_result :: "jsval \<Rightarrow> jsval" where
  "normalize_result result =
     (case getp result ''toolResults'' of
        JArr trs \<Rightarrow>
          (case result of
             JObj ps \<Rightarrow> JObj (dset ps ''toolResults'' (JArr (map normalizeToolResult trs)))
           | JErr c m ps \<Rightarrow> JErr c m (dset ps ''toolResults'' (JArr (map normalizeToolResult trs)))
           | v \<Rightarrow> v)
      | _ \<Rightarrow> result)"

definition is_suspended :: "jsval \<Rightarrow> bool" where
  "is_suspended result \<longleftrightarrow>
     truthy result \<and> getp result ''finishReason'' = JStr ''suspended'' \<and> truthy (getp result ''runId'')"

definition suspend_field :: "jsval \<Rightarrow> string \<Rightarrow> jsval" where
  "suspend_field result k = and_prop (getp result ''suspendPayload'') k"

definition approval_payload :: "jsval \<Rightarrow> nat \<Rightarrow> jsval" where
  "approval_payload result cycles =
     JObj [(''runId'', getp result ''runId''), (''toolCallId'', suspend_field result ''toolCallId''),
           (''toolName'', suspend_field result ''toolName''), (''args'', suspend_field result ''args''),
           (''cycle'', jint (int cycles))]"

definition resume_opts :: "(string \<times> jsval) list \<Rightarrow> jsval \<Rightarrow> (string \<times> jsval) list" where
  "resume_opts opts result =
     dset (dset (copyAgentOptions opts) ''runId'' (getp result ''runId''))
       ''toolCallId'' (suspend_field result ''toolCallId'')"

text \<open>\<open>cycles >= maxApprovalCycles\<close>: false against NaN.\<close>

definition limit_reached :: "agent_env \<Rightarrow> approval_cfg \<Rightarrow> nat \<Rightarrow> bool" where
  "limit_reached env cfg cycles =
     (let n = to_number env (ap_limit cfg) in n \<noteq> NaN \<and> \<not> num_less (Fin (of_nat cycles)) n)"

text \<open>The message, with the dash of the source written as a semicolon.\<close>

definition limit_error :: "string \<Rightarrow> jsval" where
  "limit_error shown =
     JErr PlainError (''generateWithApproval: exceeded maxApprovalCycles ('' @ shown @
       ''). The agent kept suspending after each approval reply; raise the limit or tighten the agent's instructions so it stops retrying.'') []"

section \<open>One cycle and the loop\<close>

text \<open>One approval cycle: ask, decode the answer, resume. The log grows also when a step fails.\<close>

definition approval_cycle ::
  "agent_env \<Rightarrow> approval_cfg \<Rightarrow> nat \<Rightarrow> jsval \<Rightarrow> acall list \<Rightarrow> (jsval + jsval) \<times> acall list" where
  "approval_cycle env cfg cycles result acts =
     (case stringify (approval_payload result cycles) of
        Inl e \<Rightarrow> (Inl e, acts)
      | Inr t \<Rightarrow>
          (let ask = AAwait (ap_topic cfg) t (ap_timeout cfg) in
           case decide env acts ask of
             Inl e \<Rightarrow> (Inl e, acts @ [ask])
           | Inr raw \<Rightarrow>
               (case json_parse raw of
                  Inl e \<Rightarrow> (Inl e, acts @ [ask])
                | Inr response \<Rightarrow>
                    (case member response ''approved'' of
                       Inl e \<Rightarrow> (Inl e, acts @ [ask])
                     | Inr approved \<Rightarrow>
                         (let opts = resume_opts (ap_opts cfg) result;
                              go = (if approved \<noteq> JBool False then AApprove opts else ADecline opts)
                          in (respond env (acts @ [ask]) go, acts @ [ask, go]))))))"

text \<open>The loop may run for ever when the limit is not a finite number: not returning is \<open>None\<close>.\<close>

partial_function (option) approval_loop ::
  "agent_env \<Rightarrow> approval_cfg \<Rightarrow> string \<Rightarrow> nat \<Rightarrow> jsval \<Rightarrow> acall list \<Rightarrow> ((jsval + jsval) \<times> acall list) option" where
  "approval_loop env cfg shown cycles result acts =
     (if is_suspended result then
        (if limit_reached env cfg cycles then Some (Inl (limit_error shown), acts)
         else (case approval_cycle env cfg (Suc cycles) result acts of
                 (Inl e, acts') \<Rightarrow> Some (Inl e, acts')
               | (Inr result', acts') \<Rightarrow> approval_loop env cfg shown (Suc cycles) result' acts'))
      else Some (Inr (normalize_result result), acts))"

definition own_options :: "string list" where
  "own_options = [''approvalTopic'', ''timeout'', ''maxApprovalCycles'']"

definition agent_options :: "jsval \<Rightarrow> (string \<times> jsval) list" where
  "agent_options options =
     dset (copyAgentOptions (filter (\<lambda>p. fst p \<notin> set own_options) (props_of options)))
       ''requireToolApproval'' (JBool True)"

definition config_of :: "jsval \<Rightarrow> approval_cfg" where
  "config_of options =
     \<lparr>ap_topic = getp options ''approvalTopic'',
      ap_timeout = js_or (getp options ''timeout'') (jint 30000),
      ap_limit = js_or (getp options ''maxApprovalCycles'') (jint 8),
      ap_opts = agent_options options\<rparr>"

definition approval_precheck :: "agent_env \<Rightarrow> (jsval \<Rightarrow> string) \<Rightarrow> jsval \<Rightarrow> jsval option" where
  "approval_precheck env fmt options =
     (if \<not> truthy options \<or> \<not> truthy (getp options ''approvalTopic'') then
        Some (JErr PlainError ''generateWithApproval: approvalTopic is required'' [])
      else if \<not> agent_given env \<or> \<not> agent_generates env then
        Some (JErr PlainError ''generateWithApproval: agent is required and must expose .generate()'' [])
      else if agent_has_mastra_getter env \<and> \<not> truthy (agent_mastra env) then
        Some (JErr PlainError (''generateWithApproval: agent has no Mastra parent. Wrap it with `new Mastra({ agents: { ''
          @ squote @ js_string fmt (js_or (agent_name env) (JStr ''name'')) @ squote
          @ '': agent }, storage: new InMemoryStore() })` and pass `mastra.getAgent('' @ squote
          @ js_string fmt (js_or (agent_name env) (JStr ''name'')) @ squote
          @ '')` to generateWithApproval. Without a Mastra parent the resume path cannot load the workflow snapshot.'') [])
      else None)"

definition generateWithApproval ::
  "agent_env \<Rightarrow> (jsval \<Rightarrow> string) \<Rightarrow> jsval \<Rightarrow> ((jsval + jsval) \<times> acall list) option" where
  "generateWithApproval env fmt options =
     (case approval_precheck env fmt options of
        Some e \<Rightarrow> Some (Inl e, [])
      | None \<Rightarrow>
          (let cfg = config_of options; first = AGenerate (ap_opts cfg) in
           case respond env [] first of
             Inl e \<Rightarrow> Some (Inl e, [first])
           | Inr result \<Rightarrow> approval_loop env cfg (js_string fmt (ap_limit cfg)) 0 result [first]))"

section \<open>The shape of a run\<close>

text \<open>
  What a run has to look like, written without the definitions of the payload and of the resume
  options. The question of the \<open>n\<close>th cycle carries the run, the call, the tool and the arguments of
  the result that suspended; its resume is the one the answer demands, addressed to that run and
  that call, under otherwise unchanged options.
\<close>

definition asked :: "jsval \<Rightarrow> string \<Rightarrow> jsval" where
  "asked result k = (let p = getp result ''suspendPayload'' in if truthy p then getp p k else p)"

definition question_text :: "jsval \<Rightarrow> nat \<Rightarrow> jsval + jsval option" where
  "question_text result n = stringify (JObj
     [(''runId'', getp result ''runId''), (''toolCallId'', asked result ''toolCallId''),
      (''toolName'', asked result ''toolName''), (''args'', asked result ''args''), (''cycle'', JNum (Fin (of_nat n)))])"

definition own_question :: "approval_cfg \<Rightarrow> jsval \<Rightarrow> nat \<Rightarrow> acall \<Rightarrow> bool" where
  "own_question cfg result n ask \<longleftrightarrow>
     (\<exists>t. question_text result n = Inr t \<and> ask = AAwait (ap_topic cfg) t (ap_timeout cfg))"

definition demanded_resume :: "agent_env \<Rightarrow> approval_cfg \<Rightarrow> jsval \<Rightarrow> acall list \<Rightarrow> acall \<Rightarrow> acall \<Rightarrow> bool" where
  "demanded_resume env cfg result pre ask go \<longleftrightarrow>
     (\<exists>raw response opts. decide env pre ask = Inr raw \<and> json_parse raw = Inr response \<and> \<not> nullish response
        \<and> go = (if getp response ''approved'' = JBool False then ADecline opts else AApprove opts)
        \<and> dget opts ''runId'' = Some (getp result ''runId'')
        \<and> dget opts ''toolCallId'' = Some (asked result ''toolCallId'')
        \<and> (\<forall>k. k \<notin> {''runId'', ''toolCallId''} \<longrightarrow> dget opts k = dget (ap_opts cfg) k))"

text \<open>A question without an answer ends the run with the error that prevented it.\<close>

definition unanswered :: "agent_env \<Rightarrow> acall list \<Rightarrow> acall \<Rightarrow> jsval + jsval \<Rightarrow> bool" where
  "unanswered env pre ask r \<longleftrightarrow>
     (\<exists>e. r = Inl e \<and> (decide env pre ask = Inl e
        \<or> (\<exists>raw. decide env pre ask = Inr raw \<and> (json_parse raw = Inl e
             \<or> (\<exists>response. json_parse raw = Inr response \<and> nullish response \<and> (\<exists>m. e = JErr TypeErr m []))))))"

fun approved_run ::
  "agent_env \<Rightarrow> approval_cfg \<Rightarrow> string \<Rightarrow> nat \<Rightarrow> jsval \<Rightarrow> acall list \<Rightarrow> acall list \<Rightarrow> jsval + jsval \<Rightarrow> bool" where
  "approved_run env cfg shown n result pre [] r =
     (if \<not> is_suspended result then r = Inr (normalize_result result)
      else if limit_reached env cfg n then r = Inl (limit_error shown)
      else (\<exists>e. question_text result (Suc n) = Inl e \<and> r = Inl e))"
| "approved_run env cfg shown n result pre [ask] r =
     (is_suspended result \<and> \<not> limit_reached env cfg n \<and> own_question cfg result (Suc n) ask \<and> unanswered env pre ask r)"
| "approved_run env cfg shown n result pre (ask # go # rest) r =
     (is_suspended result \<and> \<not> limit_reached env cfg n \<and> own_question cfg result (Suc n) ask
      \<and> demanded_resume env cfg result pre ask go
      \<and> (case respond env (pre @ [ask]) go of
           Inl e \<Rightarrow> rest = [] \<and> r = Inl e
         | Inr result' \<Rightarrow> approved_run env cfg shown (Suc n) result' (pre @ [ask, go]) rest r))"

definition questions :: "acall list \<Rightarrow> nat" where
  "questions acts = length (filter (\<lambda>c. case c of AAwait a b d \<Rightarrow> True | _ \<Rightarrow> False) acts)"

lemma questions_simps [simp]:
  "questions [] = 0" "questions (AAwait a b d # l) = Suc (questions l)"
  "questions (AGenerate os # l) = questions l" "questions (AApprove os # l) = questions l"
  "questions (ADecline os # l) = questions l" "questions (l @ l') = questions l + questions l'"
  by (simp_all add: questions_def)

lemma normalize_keeps_status: "is_suspended (normalize_result r) \<longleftrightarrow> is_suspended r"
  by (cases r) (auto simp: normalize_result_def is_suspended_def split: jsval.split)

lemma dget_copied:
  "dget (foldl (\<lambda>d p. dset d (fst p) (snd p)) d0 ps) k =
     (case map_of (rev ps) k of Some v \<Rightarrow> Some v | None \<Rightarrow> dget d0 k)"
  by (induction ps arbitrary: d0) (auto simp: map_add_def split: option.split)

lemma dwf_copy: "dwf (copyAgentOptions ps)"
proof -
  have "dwf d0 \<Longrightarrow> dwf (foldl (\<lambda>d p. dset d (fst p) (snd p)) d0 ps)" for d0
    by (induction ps arbitrary: d0) auto
  then show ?thesis by (simp add: copyAgentOptions_def)
qed

lemma dget_map_of_rev: "dwf ps \<Longrightarrow> map_of (rev ps) k = dget ps k"
proof (induction ps)
  case (Cons p ps)
  then have "dwf ps" "dget ps (fst p) = None"
    by (simp_all add: dwf_def dkeys_def dget_None_iff)
  then show ?case using Cons.IH by (cases p) (simp add: map_add_def split: option.split)
qed simp

lemma resume_opts_get:
  assumes "dwf opts"
  shows "dget (resume_opts opts r) k =
    (if k = ''toolCallId'' then Some (suspend_field r ''toolCallId'')
     else if k = ''runId'' then Some (getp r ''runId'') else dget opts k)"
  using dget_map_of_rev [OF assms]
  by (simp add: resume_opts_def copyAgentOptions_def dget_copied split: option.split)

lemma agent_options_wf: "dwf (agent_options options)"
  by (simp add: agent_options_def dwf_copy)

lemma map_of_rev_filter: "map_of (rev (filter (\<lambda>p. fst p \<notin> A) ps)) k = (if k \<in> A then None else map_of (rev ps) k)"
  by (induction ps) (auto simp: map_add_def split: option.split)

lemma agent_options_get:
  "dget (agent_options options) k =
     (if k = ''requireToolApproval'' then Some (JBool True)
      else if k \<in> {''approvalTopic'', ''timeout'', ''maxApprovalCycles''} then None
      else map_of (rev (props_of options)) k)"
proof -
  have "map_of (rev (filter (\<lambda>p. fst p \<notin> set own_options) ps)) k =
      (if k \<in> {''approvalTopic'', ''timeout'', ''maxApprovalCycles''} then None else map_of (rev ps) k)" for ps :: "(string \<times> jsval) list"
    by (simp only: map_of_rev_filter) (simp add: own_options_def)
  then show ?thesis
    by (simp add: agent_options_def copyAgentOptions_def dget_copied split: option.split)
qed

lemma asked_field: "suspend_field result k = asked result k"
  by (simp add: suspend_field_def asked_def and_prop_def Let_def)

lemma payload_text: "stringify (approval_payload result n) = question_text result n"
  by (simp add: approval_payload_def question_text_def asked_field jint_def)

text \<open>The three ways a cycle can end.\<close>

lemma approval_cycle_shape:
  assumes "approval_cycle env cfg n result acts = (r, acts')" and "dwf (ap_opts cfg)"
  obtains (unasked) e where "question_text result n = Inl e" "r = Inl e" "acts' = acts"
  | (unheard) ask where "own_question cfg result n ask" "unanswered env acts ask r" "acts' = acts @ [ask]" "\<exists>e. r = Inl e"
  | (resumed) ask go where "own_question cfg result n ask" "demanded_resume env cfg result acts ask go"
      "r = respond env (acts @ [ask]) go" "acts' = acts @ [ask, go]"
proof (cases "question_text result n")
  case (Inl e)
  then show ?thesis using assms(1) by (intro unasked) (auto simp: approval_cycle_def payload_text)
next
  case (Inr t)
  let ?ask = "AAwait (ap_topic cfg) t (ap_timeout cfg)"
  have own: "own_question cfg result n ?ask" using Inr by (simp add: own_question_def)
  show ?thesis
  proof (cases "decide env acts ?ask")
    case (Inl e)
    then show ?thesis using assms(1) Inr
      by (intro unheard [OF own]) (auto simp: approval_cycle_def payload_text Let_def unanswered_def)
  next
    case raw: (Inr raw)
    show ?thesis
    proof (cases "json_parse raw")
      case (Inl e)
      then have "r = Inl e" "acts' = acts @ [?ask]"
        using assms(1) Inr raw by (auto simp: approval_cycle_def payload_text Let_def)
      then show ?thesis using raw Inl by (intro unheard [OF own]) (auto simp: unanswered_def)
    next
      case response: (Inr response)
      show ?thesis
      proof (cases "nullish response")
        case True
        then show ?thesis using assms(1) Inr raw response
          by (intro unheard [OF own])
            (auto simp: approval_cycle_def payload_text Let_def unanswered_def member_def)
      next
        case False
        let ?opts = "resume_opts (ap_opts cfg) result"
        let ?go = "if getp response ''approved'' = JBool False then ADecline ?opts else AApprove ?opts"
        have "demanded_resume env cfg result acts ?ask ?go"
          unfolding demanded_resume_def using raw response False
          by (intro exI [of _ raw] exI [of _ response] exI [of _ ?opts])
            (simp add: resume_opts_get [OF assms(2)] asked_field)
        then show ?thesis using assms(1) Inr raw response False
          by (intro resumed [OF own]) (auto simp: approval_cycle_def payload_text Let_def member_def)
      qed
    qed
  qed
qed

lemma approval_loop_shape:
  assumes "approval_loop env cfg shown n result acts = Some y"
  shows "dwf (ap_opts cfg) \<longrightarrow> (\<exists>rest. snd y = acts @ rest \<and> approved_run env cfg shown n result acts rest (fst y))"
proof (rule approval_loop.raw_induct
    [where P = "\<lambda>env cfg shown n result acts y. dwf (ap_opts cfg) \<longrightarrow>
       (\<exists>rest. snd y = acts @ rest \<and> approved_run env cfg shown n result acts rest (fst y))", OF _ assms],
    intro impI)
  fix loop env cfg shown n result acts y
  assume IH: "\<And>env cfg shown n result acts y. loop env cfg shown n result acts = Some y \<Longrightarrow>
      dwf (ap_opts cfg) \<longrightarrow> (\<exists>rest. snd y = acts @ rest \<and> approved_run env cfg shown n result acts rest (fst y))"
    and body: "(if is_suspended result
      then if limit_reached env cfg n then Some (Inl (limit_error shown), acts)
           else case approval_cycle env cfg (Suc n) result acts of
                (Inl e, acts') \<Rightarrow> Some (Inl e, acts')
                | (Inr result', acts') \<Rightarrow> loop env cfg shown (Suc n) result' acts'
      else Some (Inr (normalize_result result), acts)) = Some y"
    and wf: "dwf (ap_opts cfg)"
  show "\<exists>rest. snd y = acts @ rest \<and> approved_run env cfg shown n result acts rest (fst y)"
  proof (cases "is_suspended result \<and> \<not> limit_reached env cfg n")
    case False
    then show ?thesis using body by (intro exI [of _ "[]"]) (auto split: if_splits)
  next
    case True
    obtain x acts' where c: "approval_cycle env cfg (Suc n) result acts = (x, acts')" by force
    have y: "y = (Inl e, acts')" if "x = Inl e" for e using True body c that by simp
    show ?thesis
    proof (rule approval_cycle_shape [OF c wf])
      fix e assume "question_text result (Suc n) = Inl e" "x = Inl e" "acts' = acts"
      then show ?thesis using True y by (intro exI [of _ "[]"]) simp
    next
      fix ask assume "own_question cfg result (Suc n) ask" "unanswered env acts ask x" "acts' = acts @ [ask]" "\<exists>e. x = Inl e"
      then show ?thesis using True y by (intro exI [of _ "[ask]"]) auto
    next
      fix ask go
      assume cyc: "own_question cfg result (Suc n) ask" "demanded_resume env cfg result acts ask go"
        "x = respond env (acts @ [ask]) go" "acts' = acts @ [ask, go]"
      show ?thesis
      proof (cases x)
        case (Inl e)
        then show ?thesis using True y cyc by (intro exI [of _ "[ask, go]"]) auto
      next
        case (Inr v)
        then have "loop env cfg shown (Suc n) v acts' = Some y" using body True c by simp
        from IH [OF this] wf obtain rest
          where "snd y = acts' @ rest" "approved_run env cfg shown (Suc n) v acts' rest (fst y)" by blast
        moreover have "respond env (acts @ [ask]) go = Inr v" using cyc(3) Inr by simp
        ultimately show ?thesis using True cyc(1,2,4) by (intro exI [of _ "ask # go # rest"]) auto
      qed
    qed
  qed
qed

text \<open>A run that returns a result never returns a suspended one.\<close>

lemma approved_run_ends:
  "approved_run env cfg shown n result pre rest (Inr v) \<Longrightarrow> \<not> is_suspended v"
  by (induction env cfg shown n result pre rest "Inr v :: jsval + jsval" rule: approved_run.induct)
    (auto simp: normalize_keeps_status unanswered_def split: if_splits sum.splits)

section \<open>Termination\<close>

lemma limit_mono: "limit_reached env cfg n \<Longrightarrow> n \<le> m \<Longrightarrow> limit_reached env cfg m"
  by (cases "to_number env (ap_limit cfg)") (auto simp: limit_reached_def Let_def)

lemma limit_finite: "to_number env (ap_limit cfg) = Fin q \<Longrightarrow> limit_reached env cfg (nat \<lceil>q\<rceil>)"
  by (simp add: limit_reached_def Let_def linorder_not_less) (metis le_of_int_ceiling of_nat_nat_take_bit_eq
      order_trans of_int_le_iff int_nat_eq of_int_of_nat_eq zle_int le_nat_iff nat_le_0 linorder_le_cases
      of_nat_0_le_iff ceiling_le_zero)

lemma approval_loop_returns:
  assumes "limit_reached env cfg K"
  shows "\<exists>r rest. approval_loop env cfg shown n result acts = Some (r, acts @ rest)
     \<and> questions rest \<le> K - n"
proof (induction "K - n" arbitrary: n result acts)
  case 0
  then have "limit_reached env cfg n" using limit_mono [OF assms] by simp
  then show ?case by (simp add: approval_loop.simps)
next
  case (Suc k)
  show ?case
  proof (cases "is_suspended result \<and> \<not> limit_reached env cfg n")
    case False
    then show ?thesis by (auto simp: approval_loop.simps)
  next
    case True
    obtain x acts' where c: "approval_cycle env cfg (Suc n) result acts = (x, acts')" by force
    then obtain new where new: "acts' = acts @ new" "questions new \<le> 1"
      by (auto simp: approval_cycle_def Let_def split: sum.splits if_splits)
    show ?thesis
    proof (cases x)
      case (Inl e)
      then show ?thesis using True c new Suc.hyps(2) by (simp add: approval_loop.simps)
    next
      case (Inr v)
      have "k = K - Suc n" using Suc.hyps(2) by arith
      from Suc.hyps(1) [OF this, of v acts'] obtain r rest
        where "approval_loop env cfg shown (Suc n) v acts' = Some (r, acts' @ rest)"
          "questions rest \<le> K - Suc n" by blast
      then show ?thesis
        using True c Inr new Suc.hyps(2)
        by (intro exI [of _ r] exI [of _ "new @ rest"]) (simp add: approval_loop.simps)
    qed
  qed
qed

section \<open>Properties\<close>

text \<open>
  C4. With a finite cycle limit (8 when the option is absent) \<open>generateWithApproval\<close> always comes back,
  whatever the agent and the approvers do: it returns a result or an error, and has asked for at most
  so many approvals as the limit says, rounded up to an integer.
\<close>

theorem approval_terminates:
  assumes "to_number env (ap_limit (config_of options)) = Fin q"
  shows "\<exists>r acts. generateWithApproval env fmt options = Some (r, acts) \<and> questions acts \<le> nat \<lceil>q\<rceil>"
proof (cases "approval_precheck env fmt options")
  case (Some e)
  then show ?thesis by (simp add: generateWithApproval_def)
next
  case None
  let ?cfg = "config_of options"
  let ?first = "AGenerate (ap_opts ?cfg)"
  show ?thesis
  proof (cases "respond env [] ?first")
    case (Inl e)
    then show ?thesis using None by (simp add: generateWithApproval_def Let_def)
  next
    case (Inr v)
    obtain r rest where "approval_loop env ?cfg (js_string fmt (ap_limit ?cfg)) 0 v [?first] = Some (r, [?first] @ rest)"
      "questions rest \<le> nat \<lceil>q\<rceil> - 0"
      using approval_loop_returns [OF limit_finite [OF assms]] by blast
    then show ?thesis using None Inr by (simp add: generateWithApproval_def Let_def)
  qed
qed

text \<open>An agent that suspends every time, and an approver who declines every time.\<close>

definition stubborn_agent :: agent_env where
  "stubborn_agent = \<lparr>agent_given = True, agent_generates = True, agent_has_mastra_getter = False,
     agent_mastra = JNull, agent_name = JStr ''writer'',
     respond = (\<lambda>_ _. Inr (JObj [(''finishReason'', JStr ''suspended''), (''runId'', JStr ''r'')])),
     decide = (\<lambda>_ _. Inr (Json (JObj [(''approved'', JBool False)]))),
     to_number = (\<lambda>v. case v of JNum n \<Rightarrow> n | _ \<Rightarrow> NaN)\<rparr>"

theorem approval_terminates_witness:
  "\<exists>r acts. generateWithApproval stubborn_agent (\<lambda>_. ''8'') (JObj [(''approvalTopic'', JStr ''ok'')]) = Some (r, acts)
     \<and> questions acts \<le> 8"
  using approval_terminates [of stubborn_agent "JObj [(''approvalTopic'', JStr ''ok'')]" 8 "\<lambda>_. ''8''"]
  by (simp add: config_of_def js_or_def stubborn_agent_def jint_def)

text \<open>
  An infinite limit is a number too, and it bounds nothing: with it the stubborn agent keeps the loop
  running for ever.
\<close>

lemma stubborn_cycle:
  "fst (approval_cycle stubborn_agent cfg n result acts) \<in> {Inr (JObj [(''finishReason'', JStr ''suspended''), (''runId'', JStr ''r'')])}
     \<union> Inl ` {e. stringify (approval_payload result n) = Inl e}"
  by (auto simp: approval_cycle_def Let_def stubborn_agent_def member_def split: sum.splits)

lemma endless_loop:
  "approval_loop stubborn_agent cfg shown n result acts = Some y \<Longrightarrow>
     \<not> (ap_limit cfg = JNum PosInf \<and> result = JObj [(''finishReason'', JStr ''suspended''), (''runId'', JStr ''r'')])"
proof -
  let ?s = "JObj [(''finishReason'', JStr ''suspended''), (''runId'', JStr ''r'')]"
  have "approval_loop env cfg shown n result acts = Some y \<Longrightarrow>
     \<not> (env = stubborn_agent \<and> ap_limit cfg = JNum PosInf \<and> result = ?s)" for env
  proof (erule approval_loop.raw_induct
      [where P = "\<lambda>env cfg shown n result acts y. \<not> (env = stubborn_agent \<and> ap_limit cfg = JNum PosInf \<and> result = ?s)", rotated],
      rule notI, elim conjE)
    fix loop :: "agent_env \<Rightarrow> approval_cfg \<Rightarrow> string \<Rightarrow> nat \<Rightarrow> jsval \<Rightarrow> acall list \<Rightarrow> ((jsval + jsval) \<times> acall list) option"
    fix env cfg shown n result acts y
    assume IH: "\<And>env cfg shown n result acts y. loop env cfg shown n result acts = Some y \<Longrightarrow>
        \<not> (env = stubborn_agent \<and> ap_limit cfg = JNum PosInf \<and> result = ?s)"
      and body: "(if is_suspended result
        then if limit_reached env cfg n then Some (Inl (limit_error shown), acts)
             else case approval_cycle env cfg (Suc n) result acts of
                  (Inl e, acts') \<Rightarrow> Some (Inl e, acts')
                  | (Inr result', acts') \<Rightarrow> loop env cfg shown (Suc n) result' acts'
        else Some (Inr (normalize_result result), acts)) = Some y"
      and s: "env = stubborn_agent" "ap_limit cfg = JNum PosInf" "result = ?s"
    have "is_suspended ?s" "\<not> limit_reached stubborn_agent cfg n"
      using s(2) by (simp_all add: is_suspended_def limit_reached_def stubborn_agent_def)
    moreover have "stringify (approval_payload ?s (Suc n)) \<noteq> Inl e" for e
      by (simp add: approval_payload_def suspend_field_def and_prop_def stringify_def jint_def)
    then have "fst (approval_cycle stubborn_agent cfg (Suc n) ?s acts) = Inr ?s"
      using stubborn_cycle [of cfg "Suc n" ?s acts] by auto
    ultimately have "loop env cfg shown (Suc n) ?s (snd (approval_cycle stubborn_agent cfg (Suc n) ?s acts)) = Some y"
      using body s by (simp add: case_prod_beta)
    with IH s show False by blast
  qed
  then show "approval_loop stubborn_agent cfg shown n result acts = Some y \<Longrightarrow>
     \<not> (ap_limit cfg = JNum PosInf \<and> result = ?s)" by blast
qed

theorem approval_endless:
  "generateWithApproval stubborn_agent fmt (JObj [(''approvalTopic'', JStr ''ok''), (''maxApprovalCycles'', JNum PosInf)]) = None"
proof -
  let ?o = "JObj [(''approvalTopic'', JStr ''ok''), (''maxApprovalCycles'', JNum PosInf)]"
  have "ap_limit (config_of ?o) = JNum PosInf" by (simp add: config_of_def js_or_def)
  then have "approval_loop stubborn_agent (config_of ?o) shown n
      (JObj [(''finishReason'', JStr ''suspended''), (''runId'', JStr ''r'')]) acts = None" for shown n acts
    using endless_loop by (metis option.exhaust)
  then show ?thesis
    by (simp add: generateWithApproval_def approval_precheck_def Let_def) (simp add: stubborn_agent_def)
qed

text \<open>
  C5. No tool call runs without its approval. A run that gets past the checks starts with one
  \<open>agent.generate\<close> under the caller's own options with \<open>requireToolApproval\<close> set. From then on every
  suspended result is put as its own question to the approval topic: its run, its tool call, tool and
  arguments, and the number of the cycle. The only call a question is followed by is the resume its
  answer demands, approve unless it says \<open>approved: false\<close>, addressed to that run and that tool call
  under options otherwise unchanged; what it resolves to is the next result. The run ends with the
  first result that is not suspended, at the cycle limit, or with the error of a question that could
  not be put, was not answered or of a resume that failed.
\<close>

theorem approval_protocol:
  assumes "generateWithApproval env fmt options = Some (r, acts)"
  shows "(acts = [] \<and> (\<exists>e. r = Inl e))
    \<or> (\<exists>first rest. acts = AGenerate first # rest
         \<and> dwf first \<and> (\<forall>k. dget first k =
              (if k = ''requireToolApproval'' then Some (JBool True)
               else if k \<in> {''approvalTopic'', ''timeout'', ''maxApprovalCycles''} then None
               else map_of (rev (props_of options)) k))
         \<and> ap_opts (config_of options) = first
         \<and> (case respond env [] (AGenerate first) of
              Inl e \<Rightarrow> rest = [] \<and> r = Inl e
            | Inr result \<Rightarrow> approved_run env (config_of options) (js_string fmt (ap_limit (config_of options)))
                 0 result [AGenerate first] rest r)
         \<and> (\<forall>v. r = Inr v \<longrightarrow> \<not> is_suspended v))"
proof (cases "approval_precheck env fmt options")
  case (Some e)
  then show ?thesis using assms by (auto simp: generateWithApproval_def)
next
  case None
  let ?cfg = "config_of options"
  let ?first = "agent_options options"
  have opts: "ap_opts ?cfg = ?first" by (simp add: config_of_def)
  note get = agent_options_get [of options]
  show ?thesis
  proof (cases "respond env [] (AGenerate ?first)")
    case (Inl e)
    then have "acts = [AGenerate ?first]" "r = Inl e"
      using assms None by (simp_all add: generateWithApproval_def Let_def opts)
    then show ?thesis using Inl get agent_options_wf opts by auto
  next
    case (Inr v)
    let ?shown = "js_string fmt (ap_limit ?cfg)"
    have "approval_loop env ?cfg ?shown 0 v [AGenerate ?first] = Some (r, acts)"
      using assms None Inr by (simp add: generateWithApproval_def Let_def opts)
    from approval_loop_shape [OF this] obtain rest
      where "acts = [AGenerate ?first] @ rest" "approved_run env ?cfg ?shown 0 v [AGenerate ?first] rest r"
      by (auto simp: opts agent_options_wf)
    moreover from this(2) have "\<forall>v. r = Inr v \<longrightarrow> \<not> is_suspended v" by (auto dest: approved_run_ends)
    ultimately show ?thesis
      using Inr get agent_options_wf opts by (intro disjI2 exI [of _ ?first] exI [of _ rest]) auto
  qed
qed

definition one_call_agent :: agent_env where
  "one_call_agent = stubborn_agent\<lparr>respond := (\<lambda>_ c. case c of
       AGenerate os \<Rightarrow> Inr (JObj [(''finishReason'', JStr ''suspended''), (''runId'', JStr ''r'')])
     | _ \<Rightarrow> Inr (JStr ''done''))\<rparr>"

lemma one_call_run:
  "generateWithApproval one_call_agent (\<lambda>_. ''8'') (JObj [(''approvalTopic'', JStr ''ok'')]) =
     Some (Inr (JStr ''done''),
       [AGenerate [(''requireToolApproval'', JBool True)],
        AAwait (JStr ''ok'') (Some (JObj [(''runId'', JStr ''r''), (''cycle'', jint 1)])) (jint 30000),
        ADecline [(''requireToolApproval'', JBool True), (''runId'', JStr ''r''), (''toolCallId'', JUndef)]])"
  by (simp add: generateWithApproval_def Let_def approval_precheck_def one_call_agent_def stubborn_agent_def
      config_of_def js_or_def agent_options_def copyAgentOptions_def own_options_def
      approval_loop.simps [of _ _ _ 0] approval_loop.simps [of _ _ _ "Suc 0"] is_suspended_def
      limit_reached_def approval_cycle_def approval_payload_def stringify_def suspend_field_def and_prop_def
      jint_def member_def resume_opts_def normalize_result_def)

theorem approval_protocol_witness:
  "\<exists>result. respond one_call_agent [] (AGenerate [(''requireToolApproval'', JBool True)]) = Inr result
     \<and> approved_run one_call_agent (config_of (JObj [(''approvalTopic'', JStr ''ok'')]))
         (js_string (\<lambda>_. ''8'') (ap_limit (config_of (JObj [(''approvalTopic'', JStr ''ok'')])))) 0 result
     [AGenerate [(''requireToolApproval'', JBool True)]]
     [AAwait (JStr ''ok'') (Some (JObj [(''runId'', JStr ''r''), (''cycle'', jint 1)])) (jint 30000),
      ADecline [(''requireToolApproval'', JBool True), (''runId'', JStr ''r''), (''toolCallId'', JUndef)]] (Inr (JStr ''done''))"
proof -
  have "\<exists>result. respond one_call_agent [] (AGenerate [(''requireToolApproval'', JBool True)]) = Inr result"
    by (simp add: one_call_agent_def)
  with approval_protocol [OF one_call_run] show ?thesis by auto
qed

end
