(* ===== verification/Background.thy ===== *)
theory Background
  imports Js_Values "HOL-Library.Extended_Nat"
begin

text \<open>
  \<open>entry.mjs\<close>, the inline execution of background tasks: \<open>runInlineTask\<close> with its retry loop,
  \<open>enqueue\<close>, \<open>resume\<close> and the draining of pending tasks. The task storage and the manager are
  third-party objects and parameters here. Every \<open>await\<close> is a turn at which the environment may
  change the storage in any way and the awaited call may fail.
\<close>

section \<open>Tasks, the storage interface and the environment\<close>

record task =
  tk_status :: string
  tk_tool :: string
  tk_args :: jsval
  tk_agent :: jsval
  tk_retry :: int
  tk_max :: jsnum
  tk_timeout :: jsval
  tk_result :: jsval
  tk_error :: jsval
  tk_suspend :: jsval
  tk_started :: "nat option"
  tk_completed :: "nat option"
  tk_suspendedAt :: "nat option"

text \<open>The storage operations; an update is the function that merges the given fields.\<close>

record 'st store_ops =
  so_get :: "'st \<Rightarrow> string \<Rightarrow> task option"
  so_update :: "'st \<Rightarrow> string \<Rightarrow> (task \<Rightarrow> task) \<Rightarrow> 'st"
  so_create :: "'st \<Rightarrow> string \<Rightarrow> task \<Rightarrow> 'st"
  so_delete :: "'st \<Rightarrow> string \<Rightarrow> 'st"
  so_pending :: "'st \<Rightarrow> (string \<times> task) list"

text \<open>
  What is documented of the storage: an update merges into the task if it is there and touches no
  other, a created task is found, a deleted one is not.
\<close>

definition store_laws :: "'st store_ops \<Rightarrow> bool" where
  "store_laws S \<longleftrightarrow>
     (\<forall>st i f j. so_get S (so_update S st i f) j = (if j = i then map_option f (so_get S st i) else so_get S st j))
     \<and> (\<forall>st i t j. so_get S (so_create S st i t) j = (if j = i then Some t else so_get S st j))
     \<and> (\<forall>st i j. so_get S (so_delete S st i) j = (if j = i then None else so_get S st j))"

text \<open>What an executor does: callbacks in order, then a result or an error.\<close>

datatype callback = Progress jsval | Suspend jsval

datatype exec_end = Finished jsval | Raised jsval

text \<open>
  The environment, indexed by the number of awaits so far: its changes to the storage, the failures
  of awaited calls, whether the task's context holds an executor, whether the abort signal has
  fired (a timeout or a cancellation), what the executor does and what the concurrency check says.
\<close>

record 'st bg_env =
  e_ops :: "'st store_ops"
  e_between :: "nat \<Rightarrow> 'st \<Rightarrow> 'st"
  e_fail :: "nat \<Rightarrow> jsval option"
  e_context :: "nat \<Rightarrow> string \<Rightarrow> bool"
  e_static :: "string \<Rightarrow> bool"
  e_aborted :: "nat \<Rightarrow> string \<Rightarrow> bool"
  e_exec :: "nat \<Rightarrow> task \<Rightarrow> jsval \<Rightarrow> callback list \<times> exec_end"
  e_can_run :: "nat \<Rightarrow> bool"
  e_shown :: "jsval \<Rightarrow> string"

datatype bg_event =
    EvPublish string string
  | EvLocalHook string
  | EvCompletionHook string string
  | EvSuspendHook string
  | EvExec string
  | EvRegister string
  | EvDeregister string
  | EvDrain
  | EvSpawn string jsval
  | EvOriginal string

record 'st bg =
  b_store :: 'st
  b_turn :: nat
  b_events :: "bg_event list"
  b_controllers :: "string list"
  b_draining :: bool

type_synonym ('st, 'a) bgm = "(jsval, 'st bg, 'a) comp"

definition awaiting :: "'st bg_env \<Rightarrow> ('st bg \<Rightarrow> 'a \<times> 'st bg) \<Rightarrow> ('st, 'a) bgm" where
  "awaiting env f = (\<lambda>s.
     let s1 = s\<lparr>b_store := e_between env (b_turn s) (b_store s), b_turn := Suc (b_turn s)\<rparr> in
     case e_fail env (b_turn s) of
       Some e \<Rightarrow> (Inl e, s1)
     | None \<Rightarrow> (case f s1 of (a, s2) \<Rightarrow> (Inr a, s2)))"

definition pause :: "'st bg_env \<Rightarrow> ('st, unit) bgm" where
  "pause env = awaiting env (\<lambda>s. ((), s))"

definition getTask :: "'st bg_env \<Rightarrow> string \<Rightarrow> ('st, task option) bgm" where
  "getTask env i = awaiting env (\<lambda>s. (so_get (e_ops env) (b_store s) i, s))"

definition updateTask :: "'st bg_env \<Rightarrow> string \<Rightarrow> (task \<Rightarrow> task) \<Rightarrow> ('st, unit) bgm" where
  "updateTask env i f = awaiting env (\<lambda>s. ((), s\<lparr>b_store := so_update (e_ops env) (b_store s) i f\<rparr>))"

definition emit :: "bg_event \<Rightarrow> ('st, unit) bgm" where
  "emit ev = modify (\<lambda>s. s\<lparr>b_events := b_events s @ [ev]\<rparr>)"

definition notify :: "'st bg_env \<Rightarrow> bg_event \<Rightarrow> ('st, unit) bgm" where
  "notify env ev = awaiting env (\<lambda>s. ((), s\<lparr>b_events := b_events s @ [ev]\<rparr>))"

section \<open>Running a task\<close>

definition gone :: "task option \<Rightarrow> bool" where
  "gone t = (case t of None \<Rightarrow> True | Some t \<Rightarrow> tk_status t = ''cancelled'')"

definition start_task :: "'st bg_env \<Rightarrow> string \<Rightarrow> jsval \<Rightarrow> ('st, bool) bgm" where
  "start_task env i resumeData =
     seq (pause env) (bind (getTask env i) (\<lambda>t.
       if gone t then seq (emit (EvDeregister i)) (ret False)
       else bind (gets b_turn) (\<lambda>now.
         seq (updateTask env i (\<lambda>t. t\<lparr>tk_status := ''running'', tk_started := Some now,
                 tk_suspend := JUndef, tk_suspendedAt := None\<rparr>))
          (bind (getTask env i) (\<lambda>t.
             case t of
               None \<Rightarrow> ret False
             | Some t \<Rightarrow>
                 seq (notify env (EvPublish (if resumeData = JUndef then ''task.running'' else ''task.resumed'') i))
                  (seq (notify env (EvLocalHook i)) (ret True)))))))"

text \<open>After a status change: read the task again and run the hooks only if it is still there.\<close>

definition if_there :: "'st bg_env \<Rightarrow> string \<Rightarrow> ('st, unit) bgm \<Rightarrow> ('st, unit) bgm" where
  "if_there env i m = bind (getTask env i) (\<lambda>t. case t of None \<Rightarrow> ret () | Some t \<Rightarrow> m)"

fun run_callback :: "'st bg_env \<Rightarrow> string \<Rightarrow> callback \<Rightarrow> ('st, unit) bgm" where
  "run_callback env i (Progress chunk) = if_there env i (notify env (EvPublish ''task.output'' i))"
| "run_callback env i (Suspend data) =
     bind (gets b_turn) (\<lambda>now.
       seq (updateTask env i (\<lambda>t. t\<lparr>tk_status := ''suspended'', tk_suspend := data, tk_suspendedAt := Some now\<rparr>))
        (if_there env i (seq (notify env (EvSuspendHook i)) (notify env (EvPublish ''task.suspended'' i)))))"

definition is_suspend :: "callback \<Rightarrow> bool" where
  "is_suspend c = (case c of Suspend d \<Rightarrow> True | Progress d \<Rightarrow> False)"

text \<open>
  The executor's run: whether it asked to suspend, and its result. A failing callback is the
  executor's business; what it then does is part of what \<open>e_exec\<close> says.
\<close>

definition execute_task :: "'st bg_env \<Rightarrow> string \<Rightarrow> task \<Rightarrow> jsval \<Rightarrow> ('st, bool \<times> jsval) bgm" where
  "execute_task env i t resumeData =
     seq (emit (EvExec i)) (bind (gets b_turn) (\<lambda>n.
       let run = e_exec env n t resumeData in
       seq (iter_list (\<lambda>c. catch (run_callback env i c) (\<lambda>_. ret ())) (fst run))
        (seq (pause env)
          (case snd run of
             Finished v \<Rightarrow> ret (list_ex is_suspend (fst run), v)
           | Raised e \<Rightarrow> throw e))))"

datatype next_step = Stop | Again

definition finish_failed :: "'st bg_env \<Rightarrow> string \<Rightarrow> string \<Rightarrow> jsval \<Rightarrow> ('st, unit) bgm" where
  "finish_failed env i status errorInfo =
     bind (gets b_turn) (\<lambda>now.
       seq (updateTask env i (\<lambda>t. t\<lparr>tk_status := status, tk_error := errorInfo, tk_completed := Some now\<rparr>))
        (if_there env i (seq (notify env (EvCompletionHook i ''failed'')) (notify env (EvPublish ''task.failed'' i)))))"

definition no_executor_error :: "string \<Rightarrow> jsval" where
  "no_executor_error tool =
     JObj [(''message'', JStr (''No executor registered for tool \"'' @ tool @ ''\". '' @
       ''Register the tool on Mastra or run the task in the same Brainkit process as the producer.''))]"

text \<open>The body of the \<open>try\<close>.\<close>

definition try_execute :: "'st bg_env \<Rightarrow> string \<Rightarrow> task \<Rightarrow> jsval \<Rightarrow> ('st, next_step) bgm" where
  "try_execute env i t resumeData =
     bind (execute_task env i t resumeData) (\<lambda>(didSuspend, v).
       if didSuspend then ret Stop
       else bind (getTask env i) (\<lambda>latest.
         if gone latest then seq (emit (EvDeregister i)) (ret Stop)
         else bind (gets b_turn) (\<lambda>now.
           seq (updateTask env i (\<lambda>t. t\<lparr>tk_status := ''completed'', tk_result := v, tk_completed := Some now\<rparr>))
            (seq (if_there env i (seq (notify env (EvCompletionHook i ''completed''))
                                      (notify env (EvPublish ''task.completed'' i))))
              (seq (notify env EvDrain) (ret Stop))))))"

text \<open>\<open>error?.message?.startsWith(p)\<close>: a message that is neither nullish nor a string has no such method.\<close>

definition message_starts :: "jsval \<Rightarrow> string \<Rightarrow> jsval + bool" where
  "message_starts err p =
     (case getp err ''message'' of
        JStr m \<Rightarrow> Inr (starts_with p m)
      | m \<Rightarrow> if nullish m then Inr False else Inl (JErr TypeErr ''startsWith is not a function'' []))"

definition timed_out :: "bool \<Rightarrow> jsval \<Rightarrow> jsval + bool" where
  "timed_out aborted err =
     (if aborted \<or> getp err ''name'' = JStr ''AbortError'' \<or> getp err ''message'' = JStr ''Task cancelled''
      then Inr True else message_starts err ''Task timed out after '')"

definition failure_info :: "'st bg_env \<Rightarrow> bool \<Rightarrow> task \<Rightarrow> jsval \<Rightarrow> jsval" where
  "failure_info env timedOut latest err =
     JObj [(''message'', if timedOut then JStr (''Task timed out after '' @ e_shown env (tk_timeout latest) @ ''ms'')
                         else js_coalesce (getp err ''message'') (JStr ''Unknown error'')),
           (''stack'', getp err ''stack'')]"

text \<open>The \<open>catch\<close> clause: retry while retries are left, else fail or time out.\<close>

definition catch_failure :: "'st bg_env \<Rightarrow> string \<Rightarrow> jsval \<Rightarrow> ('st, next_step) bgm" where
  "catch_failure env i err =
     bind (getTask env i) (\<lambda>latest.
       case latest of
         None \<Rightarrow> seq (emit (EvDeregister i)) (ret Stop)
       | Some l \<Rightarrow>
           if gone (Some l) then seq (emit (EvDeregister i)) (ret Stop)
           else bind (gets (\<lambda>s. timed_out (e_aborted env (b_turn s) i) err)) (\<lambda>r.
             case r of
               Inl e \<Rightarrow> throw e
             | Inr timedOut \<Rightarrow>
                 if \<not> timedOut \<and> num_less (Fin (of_int (tk_retry l))) (tk_max l) then
                   bind (gets b_turn) (\<lambda>now.
                     seq (updateTask env i (\<lambda>t. t\<lparr>tk_retry := tk_retry l + 1, tk_error := JUndef, tk_started := Some now\<rparr>))
                      (ret Again))
                 else
                   seq (finish_failed env i (if timedOut then ''timed_out'' else ''failed'')
                          (failure_info env timedOut l err))
                    (seq (notify env EvDrain) (ret Stop))))"

text \<open>One round of \<open>while (true)\<close>.\<close>

definition attempt :: "'st bg_env \<Rightarrow> string \<Rightarrow> jsval \<Rightarrow> ('st, next_step) bgm" where
  "attempt env i resumeData =
     bind (getTask env i) (\<lambda>t.
       case t of
         None \<Rightarrow> seq (emit (EvDeregister i)) (ret Stop)
       | Some t \<Rightarrow>
           if gone (Some t) then seq (emit (EvDeregister i)) (ret Stop)
           else bind (gets (\<lambda>s. e_context env (b_turn s) i \<or> e_static env (tk_tool t))) (\<lambda>executor.
             if \<not> executor then seq (finish_failed env i ''failed'' (no_executor_error (tk_tool t))) (ret Stop)
             else seq (modify (\<lambda>s. s\<lparr>b_controllers := i # filter (\<lambda>c. c \<noteq> i) (b_controllers s)\<rparr>))
              (finally_do (catch (try_execute env i t resumeData) (catch_failure env i))
                (\<lambda>s. s\<lparr>b_controllers := filter (\<lambda>c. c \<noteq> i) (b_controllers s)\<rparr>))))"

partial_function (option) task_loop ::
  "'st bg_env \<Rightarrow> string \<Rightarrow> jsval \<Rightarrow> 'st bg \<Rightarrow> ((jsval + unit) \<times> 'st bg) option" where
  "task_loop env i resumeData s =
     (case attempt env i resumeData s of
        (Inl e, s') \<Rightarrow> Some (Inl e, s')
      | (Inr Stop, s') \<Rightarrow> Some (Inr (), s')
      | (Inr Again, s') \<Rightarrow> task_loop env i JUndef s')"

definition runInlineTask ::
  "'st bg_env \<Rightarrow> string \<Rightarrow> jsval \<Rightarrow> 'st bg \<Rightarrow> ((jsval + unit) \<times> 'st bg) option" where
  "runInlineTask env i resumeData s =
     (case start_task env i resumeData s of
        (Inl e, s') \<Rightarrow> Some (Inl e, s')
      | (Inr False, s') \<Rightarrow> Some (Inr (), s')
      | (Inr True, s') \<Rightarrow> task_loop env i resumeData s')"

section \<open>Enqueueing, resuming and draining\<close>

fun wait_started :: "'st bg_env \<Rightarrow> string \<Rightarrow> nat \<Rightarrow> ('st, task option) bgm" where
  "wait_started env i 0 = getTask env i"
| "wait_started env i (Suc k) =
     bind (getTask env i) (\<lambda>t.
       case t of
         None \<Rightarrow> ret None
       | Some t' \<Rightarrow> if tk_status t' \<noteq> ''pending'' then ret (Some t')
                   else seq (pause env) (wait_started env i k))"

definition waitForInlineTaskStarted :: "'st bg_env \<Rightarrow> string \<Rightarrow> ('st, task option) bgm" where
  "waitForInlineTaskStarted env i = seq (pause env) (wait_started env i 100)"

text \<open>\<open>void runInlineTask(\<dots>)\<close>: the run is started and goes on concurrently.\<close>

definition spawn_task :: "string \<Rightarrow> jsval \<Rightarrow> ('st, unit) bgm" where
  "spawn_task i resumeData = emit (EvSpawn i resumeData)"

definition checkConcurrency :: "'st bg_env \<Rightarrow> bool \<Rightarrow> ('st, bool) bgm" where
  "checkConcurrency env defined =
     (if defined then awaiting env (\<lambda>s. (e_can_run env (b_turn s), s)) else ret True)"

fun drain_list :: "'st bg_env \<Rightarrow> bool \<Rightarrow> bool \<Rightarrow> bool \<Rightarrow> (string \<times> task) list \<Rightarrow> ('st, unit) bgm" where
  "drain_list env checks disabled has_original [] = ret ()"
| "drain_list env checks disabled has_original ((i, t) # ts) =
     bind (checkConcurrency env checks) (\<lambda>canRun.
       if \<not> canRun then ret ()
       else bind (gets (\<lambda>s. e_context env (b_turn s) i \<and> \<not> disabled)) (\<lambda>inline.
         if inline then
           seq (spawn_task i JUndef)
            (bind (waitForInlineTaskStarted env i) (\<lambda>_. drain_list env checks disabled has_original ts))
         else if has_original then notify env (EvOriginal ''drainPending'') else ret ()))"

definition drainInlinePending :: "'st bg_env \<Rightarrow> bool \<Rightarrow> bool \<Rightarrow> bool \<Rightarrow> ('st, unit) bgm" where
  "drainInlinePending env checks disabled has_original =
     bind (gets b_draining) (\<lambda>d.
       if d then ret ()
       else seq (modify (\<lambda>s. s\<lparr>b_draining := True\<rparr>))
        (finally_do
          (seq (pause env)
            (bind (awaiting env (\<lambda>s. (so_pending (e_ops env) (b_store s), s)))
              (drain_list env checks disabled has_original)))
          (\<lambda>s. s\<lparr>b_draining := False\<rparr>)))"

datatype backpressure = Reject | FallbackSync | Queue | OtherPolicy

datatype enqueued = Delegated | Enqueued string task | FallbackToSync string task

definition limit_reached_error :: "string \<Rightarrow> jsval" where
  "limit_reached_error tool =
     JErr PlainError (''Concurrency limit reached, cannot enqueue task for tool \"'' @ tool @ ''\"'') []"

definition shutdown_error :: jsval where
  "shutdown_error = JErr PlainError ''BackgroundTaskManager is shutting down, cannot enqueue new tasks'' []"

text \<open>
  \<open>new_task\<close> is the record built from the payload and the configured defaults; its id comes from
  the engine's random source and is a parameter.
\<close>

definition new_task :: "string \<Rightarrow> jsval \<Rightarrow> jsval \<Rightarrow> jsnum option \<Rightarrow> jsnum option \<Rightarrow> jsval \<Rightarrow> jsval \<Rightarrow> nat \<Rightarrow> task" where
  "new_task tool args agent maxRetries defaultRetries timeoutMs defaultTimeoutMs now =
     \<lparr>tk_status = ''pending'', tk_tool = tool, tk_args = args, tk_agent = agent, tk_retry = 0,
      tk_max = (case maxRetries of Some n \<Rightarrow> n | None \<Rightarrow>
                  (case defaultRetries of Some n \<Rightarrow> n | None \<Rightarrow> Fin 0)),
      tk_timeout = js_coalesce timeoutMs defaultTimeoutMs, tk_result = JUndef, tk_error = JUndef,
      tk_suspend = JUndef, tk_started = None, tk_completed = None, tk_suspendedAt = None\<rparr>"

definition enqueueInline ::
  "'st bg_env \<Rightarrow> bool \<Rightarrow> bool \<Rightarrow> bool \<Rightarrow> bool \<Rightarrow> bool \<Rightarrow> backpressure \<Rightarrow> string \<Rightarrow> (nat \<Rightarrow> task) \<Rightarrow> ('st, enqueued) bgm" where
  "enqueueInline env has_executor disabled shuttingDown has_init checks policy i mk =
     (if \<not> has_executor \<or> disabled then seq (notify env (EvOriginal ''enqueue'')) (ret Delegated)
      else if shuttingDown then throw shutdown_error
      else seq (if has_init then pause env else ret ())
       (bind (gets (\<lambda>s. mk (b_turn s))) (\<lambda>t.
         seq (emit (EvRegister i))
          (seq (pause env)
            (seq (awaiting env (\<lambda>s. ((), s\<lparr>b_store := so_create (e_ops env) (b_store s) i t\<rparr>)))
              (bind (checkConcurrency env checks) (\<lambda>canRun.
                if \<not> canRun then
                  (case policy of
                     Reject \<Rightarrow>
                       seq (emit (EvDeregister i))
                        (seq (awaiting env (\<lambda>s. ((), s\<lparr>b_store := so_delete (e_ops env) (b_store s) i\<rparr>)))
                          (throw (limit_reached_error (tk_tool t))))
                   | FallbackSync \<Rightarrow>
                       seq (emit (EvDeregister i))
                        (seq (awaiting env (\<lambda>s. ((), s\<lparr>b_store := so_delete (e_ops env) (b_store s) i\<rparr>)))
                          (ret (FallbackToSync i t)))
                   | _ \<Rightarrow> ret (Enqueued i t))
                else seq (spawn_task i JUndef)
                      (bind (waitForInlineTaskStarted env i) (\<lambda>_. ret (Enqueued i t))))))))))"

definition not_found_error :: "string \<Rightarrow> jsval" where
  "not_found_error i = JErr PlainError (''Task not found: '' @ i) []"

definition not_suspended_error :: "string \<Rightarrow> jsval" where
  "not_suspended_error status =
     JErr PlainError (''Cannot resume task in status '' @ squote @ status @ squote @ '' (expected ''
       @ squote @ ''suspended'' @ squote @ '')'') []"

definition resumeInline ::
  "'st bg_env \<Rightarrow> bool \<Rightarrow> bool \<Rightarrow> string \<Rightarrow> jsval \<Rightarrow> ('st, task option) bgm" where
  "resumeInline env disabled has_init i resumeData =
     (if disabled then seq (notify env (EvOriginal ''resume'')) (ret None)
      else seq (if has_init then pause env else ret ())
       (seq (pause env) (bind (getTask env i) (\<lambda>t.
          case t of
            None \<Rightarrow> throw (not_found_error i)
          | Some t' \<Rightarrow>
              if tk_status t' \<noteq> ''suspended'' then throw (not_suspended_error (tk_status t'))
              else seq (spawn_task i resumeData) (ret (Some t'))))))"

end
