(* ===== verification/Background_Laws.thy ===== *)
theory Background_Laws
  imports Background
begin

text \<open>
  What the inline execution of background tasks guarantees under any interference with the storage
  and any failing call: it comes back, within the retry budget, without leaving an abort controller
  behind; and what it does when nothing interferes.
\<close>

section \<open>The retry budget\<close>

definition budget :: "task option \<Rightarrow> enat" where
  "budget t = (case t of
     None \<Rightarrow> 0
   | Some t \<Rightarrow> (case tk_max t of Fin q \<Rightarrow> enat (nat (\<lceil>q\<rceil> - tk_retry t)) | PosInf \<Rightarrow> \<infinity> | _ \<Rightarrow> 0))"

definition pot :: "'st bg_env \<Rightarrow> string \<Rightarrow> 'st bg \<Rightarrow> enat" where
  "pot env i s = budget (so_get (e_ops env) (b_store s) i)"

definition execs :: "'st bg \<Rightarrow> nat" where
  "execs s = length (filter (\<lambda>e. case e of EvExec j \<Rightarrow> True | _ \<Rightarrow> False) (b_events s))"

text \<open>
  Others may cancel, delete or otherwise change the task at any time; they do not create it anew,
  lower its retry count or change its retry limit.
\<close>

definition retry_stable :: "'st bg_env \<Rightarrow> string \<Rightarrow> bool" where
  "retry_stable env i \<longleftrightarrow>
     (\<forall>n st t'. so_get (e_ops env) (e_between env n st) i = Some t' \<longrightarrow>
        (\<exists>t. so_get (e_ops env) st i = Some t \<and> tk_retry t \<le> tk_retry t' \<and> tk_max t' = tk_max t))"

lemma budget_between:
  "retry_stable env i \<Longrightarrow>
   budget (so_get (e_ops env) (e_between env n st) i) \<le> budget (so_get (e_ops env) st i)"
proof (cases "so_get (e_ops env) (e_between env n st) i")
  case (Some t')
  assume "retry_stable env i"
  then obtain t where "so_get (e_ops env) st i = Some t" "tk_retry t \<le> tk_retry t'" "tk_max t' = tk_max t"
    using Some unfolding retry_stable_def by blast
  with Some show ?thesis by (auto simp: budget_def intro!: nat_mono split: jsnum.split)
qed (simp add: budget_def)

section \<open>Computations within a number of executions\<close>

definition spends :: "'st bg_env \<Rightarrow> string \<Rightarrow> nat \<Rightarrow> ('st, 'a) bgm \<Rightarrow> bool" where
  "spends env i k m \<longleftrightarrow> (\<forall>s. pot env i (snd (m s)) \<le> pot env i s
     \<and> execs (snd (m s)) \<le> execs s + k \<and> b_controllers (snd (m s)) = b_controllers s)"

named_theorems spends_intro \<open>computations that keep the budget and the controllers\<close>

lemma spends_basic [spends_intro]:
  "spends env i k (ret a)" "spends env i k (throw e)" "spends env i k (gets f)"
  by (simp_all add: spends_def js_defs)

lemma spends_bind0: "spends env i 0 m \<Longrightarrow> (\<And>a. spends env i k (f a)) \<Longrightarrow> spends env i k (bind m f)"
proof -
  assume m: "spends env i 0 m" and f: "\<And>a. spends env i k (f a)"
  show "spends env i k (bind m f)"
    unfolding spends_def
  proof (intro allI)
    fix s
    obtain r s1 where r: "m s = (r, s1)" by force
    have 1: "pot env i s1 \<le> pot env i s" "execs s1 \<le> execs s" "b_controllers s1 = b_controllers s"
      using m [unfolded spends_def, rule_format, of s] r by auto
    show "pot env i (snd (bind m f s)) \<le> pot env i s \<and> execs (snd (bind m f s)) \<le> execs s + k
        \<and> b_controllers (snd (bind m f s)) = b_controllers s"
    proof (cases r)
      case (Inl e)
      then show ?thesis using r 1 by (simp add: js_defs)
    next
      case (Inr a)
      then have "bind m f s = f a s1" using r by (simp add: js_defs)
      then show ?thesis using 1 f [of a, unfolded spends_def, rule_format, of s1] by auto
    qed
  qed
qed

lemma spends_bind1: "spends env i k m \<Longrightarrow> (\<And>a. spends env i 0 (f a)) \<Longrightarrow> spends env i k (bind m f)"
proof -
  assume m: "spends env i k m" and f: "\<And>a. spends env i 0 (f a)"
  show "spends env i k (bind m f)"
    unfolding spends_def
  proof (intro allI)
    fix s
    obtain r s1 where r: "m s = (r, s1)" by force
    have 1: "pot env i s1 \<le> pot env i s" "execs s1 \<le> execs s + k" "b_controllers s1 = b_controllers s"
      using m [unfolded spends_def, rule_format, of s] r by auto
    show "pot env i (snd (bind m f s)) \<le> pot env i s \<and> execs (snd (bind m f s)) \<le> execs s + k
        \<and> b_controllers (snd (bind m f s)) = b_controllers s"
    proof (cases r)
      case (Inl e)
      then show ?thesis using r 1 by (simp add: js_defs)
    next
      case (Inr a)
      then have "bind m f s = f a s1" using r by (simp add: js_defs)
      then show ?thesis using 1 f [of a, unfolded spends_def, rule_format, of s1] by auto
    qed
  qed
qed

lemma spends_seq0: "spends env i 0 m \<Longrightarrow> spends env i k n \<Longrightarrow> spends env i k (seq m n)"
  unfolding seq_def by (rule spends_bind0)

lemma spends_catch0: "spends env i 0 m \<Longrightarrow> (\<And>e. spends env i 0 (f e)) \<Longrightarrow> spends env i 0 (catch m f)"
proof -
  assume m: "spends env i 0 m" and f: "\<And>e. spends env i 0 (f e)"
  show "spends env i 0 (catch m f)"
    unfolding spends_def
  proof (intro allI)
    fix s
    obtain r s1 where r: "m s = (r, s1)" by force
    have 1: "pot env i s1 \<le> pot env i s" "execs s1 \<le> execs s" "b_controllers s1 = b_controllers s"
      using m [unfolded spends_def, rule_format, of s] r by auto
    show "pot env i (snd (catch m f s)) \<le> pot env i s \<and> execs (snd (catch m f s)) \<le> execs s + 0
        \<and> b_controllers (snd (catch m f s)) = b_controllers s"
    proof (cases r)
      case (Inl e)
      then have "catch m f s = f e s1" using r by (simp add: js_defs)
      then show ?thesis using 1 f [of e, unfolded spends_def, rule_format, of s1] by auto
    next
      case (Inr a)
      then show ?thesis using r 1 by (simp add: js_defs)
    qed
  qed
qed

lemma spends_if [spends_intro]: "spends env i k m \<Longrightarrow> spends env i k n \<Longrightarrow> spends env i k (if b then m else n)"
  by simp

lemma spends_iter: "(\<And>x. spends env i 0 (f x)) \<Longrightarrow> spends env i 0 (iter_list f xs)"
  by (induction xs) (auto intro: spends_intro spends_seq0)

lemma spends_awaiting:
  fixes env :: "'st bg_env"
  assumes "retry_stable env i"
    and "\<And>s. pot env i (snd (f s)) \<le> pot env i s \<and> execs (snd (f s)) = execs s \<and> b_controllers (snd (f s)) = b_controllers s"
  shows "spends env i k (awaiting env f)"
  unfolding spends_def
proof (intro allI)
  fix s :: "'st bg"
  let ?s = "s\<lparr>b_store := e_between env (b_turn s) (b_store s), b_turn := Suc (b_turn s)\<rparr>"
  have 1: "pot env i ?s \<le> pot env i s" using budget_between [OF assms(1)] by (simp add: pot_def)
  have 2: "execs ?s = execs s" by (simp add: execs_def)
  show "pot env i (snd (awaiting env f s)) \<le> pot env i s \<and> execs (snd (awaiting env f s)) \<le> execs s + k
      \<and> b_controllers (snd (awaiting env f s)) = b_controllers s"
    using 1 2 assms(2) [of ?s]
    by (cases "f ?s") (auto simp: awaiting_def Let_def split: option.split)
qed

lemma spends_emit [spends_intro]: "(\<And>j. ev \<noteq> EvExec j) \<Longrightarrow> spends env i k (emit ev)"
  by (auto simp: spends_def emit_def js_defs pot_def execs_def split: bg_event.split)

lemma spends_reads:
  assumes "retry_stable env i"
  shows "spends env i k (pause env)" "spends env i k (getTask env j)"
    "(\<And>j. ev \<noteq> EvExec j) \<Longrightarrow> spends env i k (notify env ev)"
  unfolding pause_def getTask_def notify_def
  by (rule spends_awaiting [OF assms], auto simp: pot_def execs_def split: bg_event.split)+

lemma spends_update:
  fixes env :: "'st bg_env"
  assumes "retry_stable env i" and "store_laws (e_ops env)"
    and "\<And>t. tk_retry (f t) = tk_retry t \<and> tk_max (f t) = tk_max t"
  shows "spends env i k (updateTask env j f)"
  unfolding updateTask_def
proof (rule spends_awaiting [OF assms(1)])
  fix s :: "'st bg"
  have "budget (Some (f t)) = budget (Some t)" for t
    by (simp add: budget_def assms(3) cong: jsnum.case_cong)
  then have "budget (so_get (e_ops env) (so_update (e_ops env) (b_store s) j f) i) = budget (so_get (e_ops env) (b_store s) i)"
    using assms(2) by (cases "so_get (e_ops env) (b_store s) i") (auto simp: store_laws_def)
  then show "pot env i (snd ((), s\<lparr>b_store := so_update (e_ops env) (b_store s) j f\<rparr>)) \<le> pot env i s
      \<and> execs (snd ((), s\<lparr>b_store := so_update (e_ops env) (b_store s) j f\<rparr>)) = execs s
      \<and> b_controllers (snd ((), s\<lparr>b_store := so_update (e_ops env) (b_store s) j f\<rparr>)) = b_controllers s"
    by (simp add: pot_def execs_def)
qed

lemma spends_if_there:
  "retry_stable env i \<Longrightarrow> spends env i 0 m \<Longrightarrow> spends env i 0 (if_there env j m)"
  unfolding if_there_def
  by (intro spends_bind0 spends_reads) (auto split: option.split intro: spends_intro)

lemmas spends_all = spends_intro spends_bind0 spends_seq0 spends_reads spends_update spends_if_there

section \<open>One round and the whole run\<close>

lemma spends_start:
  "retry_stable env i \<Longrightarrow> store_laws (e_ops env) \<Longrightarrow> spends env i 0 (start_task env i rd)"
  unfolding start_task_def
  by (intro spends_all) (auto split: option.split intro!: spends_all)

lemma spends_callback:
  "retry_stable env i \<Longrightarrow> store_laws (e_ops env) \<Longrightarrow> spends env i 0 (run_callback env i c)"
  by (cases c) (auto intro!: spends_all)

lemma spends_finish_failed:
  "retry_stable env i \<Longrightarrow> store_laws (e_ops env) \<Longrightarrow> spends env i 0 (finish_failed env i st err)"
  unfolding finish_failed_def by (intro spends_all) auto

lemma spends_execute:
  assumes "retry_stable env i" and "store_laws (e_ops env)"
  shows "spends env i 1 (execute_task env i t rd)"
  unfolding execute_task_def seq_def [of "emit (EvExec i)"]
proof (rule spends_bind1)
  show "spends env i 1 (emit (EvExec i))"
    by (simp add: spends_def emit_def js_defs pot_def execs_def)
  fix u
  show "spends env i 0 (bind (gets b_turn) (\<lambda>n.
       let run = e_exec env n t rd in
       seq (iter_list (\<lambda>c. catch (run_callback env i c) (\<lambda>_. ret ())) (fst run))
        (seq (pause env)
          (case snd run of
             Finished v \<Rightarrow> ret (list_ex is_suspend (fst run), v)
           | Raised e \<Rightarrow> throw e))))"
    unfolding Let_def
    by (intro spends_all spends_iter spends_catch0 spends_callback assms)
       (auto split: exec_end.split intro!: spends_all)
qed

lemma spends_try:
  assumes "retry_stable env i" and "store_laws (e_ops env)"
  shows "spends env i 1 (try_execute env i t rd)"
  unfolding try_execute_def
  by (rule spends_bind1 [OF spends_execute [OF assms]])
     (auto intro!: spends_all assms)

lemma try_stops: "try_execute env i t rd s = (Inr x, s') \<Longrightarrow> x = Stop"
  by (auto simp: try_execute_def js_defs split: prod.splits sum.splits if_splits)

lemma getTask_run:
  "getTask env i s = (r, s1) \<Longrightarrow> (case r of Inl e \<Rightarrow> True | Inr t \<Rightarrow> so_get (e_ops env) (b_store s1) i = t)"
  by (auto simp: getTask_def awaiting_def Let_def split: option.splits)

text \<open>The retry update: whatever happened since the read, one unit of the budget read is used up.\<close>

lemma retry_update:
  assumes "retry_stable env i" and "store_laws (e_ops env)"
    and "so_get (e_ops env) (b_store s) i = Some l"
    and "num_less (Fin (of_int (tk_retry l))) (tk_max l)"
    and "updateTask env i (\<lambda>t. t\<lparr>tk_retry := tk_retry l + 1, tk_error := JUndef, tk_started := w\<rparr>) s = (r, s')"
  shows "pot env i s' \<le> pot env i s" and "execs s' = execs s" and "b_controllers s' = b_controllers s"
    and "r = Inr () \<Longrightarrow> eSuc (pot env i s') \<le> pot env i s"
proof -
  let ?st = "e_between env (b_turn s) (b_store s)"
  have between: "budget (so_get (e_ops env) ?st i) \<le> pot env i s"
    using budget_between [OF assms(1)] by (simp add: pot_def)
  have upd: "eSuc (budget (so_get (e_ops env) (so_update (e_ops env) ?st i
      (\<lambda>t. t\<lparr>tk_retry := tk_retry l + 1, tk_error := JUndef, tk_started := w\<rparr>)) i)) \<le> pot env i s"
  proof (cases "so_get (e_ops env) ?st i")
    case None
    have "0 < budget (Some l)"
    proof (cases "tk_max l")
      case (Fin q)
      then have "tk_retry l < \<lceil>q\<rceil>" using assms(4) by (simp add: less_ceiling_iff)
      then show ?thesis using Fin by (simp add: budget_def enat_0_iff)
    qed (use assms(4) in \<open>auto simp: budget_def\<close>)
    then show ?thesis using None assms(2,3)
      by (simp add: store_laws_def pot_def budget_def ileI1 del: eSuc_enat split: option.splits)
  next
    case (Some t')
    have t': "tk_max t' = tk_max l"
      using assms(1) Some assms(3) unfolding retry_stable_def by fastforce
    show ?thesis
    proof (cases "tk_max l")
      case (Fin q)
      then have "tk_retry l < \<lceil>q\<rceil>" using assms(4) by (simp add: less_ceiling_iff)
      then show ?thesis
        using Fin Some t' assms(2,3) by (simp add: store_laws_def pot_def budget_def eSuc_enat)
    qed (use assms(4) Some t' assms(2,3) in \<open>auto simp: store_laws_def pot_def budget_def\<close>)
  qed
  show "pot env i s' \<le> pot env i s"
    using assms(5) between upd order_trans [OF ile_eSuc]
    by (auto simp: updateTask_def awaiting_def Let_def pot_def split: option.splits)
  show "execs s' = execs s" "b_controllers s' = b_controllers s"
    using assms(5) by (auto simp: updateTask_def awaiting_def Let_def execs_def split: option.splits)
  show "r = Inr () \<Longrightarrow> eSuc (pot env i s') \<le> pot env i s"
    using assms(5) upd by (auto simp: updateTask_def awaiting_def Let_def pot_def split: option.splits)
qed

lemma catch_budget:
  assumes "retry_stable env i" and "store_laws (e_ops env)"
    and "catch_failure env i err s = (r, s')"
  shows "pot env i s' \<le> pot env i s \<and> execs s' \<le> execs s \<and> b_controllers s' = b_controllers s
    \<and> (r = Inr Again \<longrightarrow> eSuc (pot env i s') \<le> pot env i s)"
proof -
  obtain r1 s1 where g: "getTask env i s = (r1, s1)" by force
  have s1: "pot env i s1 \<le> pot env i s" "execs s1 \<le> execs s" "b_controllers s1 = b_controllers s"
    using spends_reads(2) [OF assms(1), of 0 i, unfolded spends_def, rule_format, of s] g by auto
  have other: "pot env i s' \<le> pot env i s \<and> execs s' \<le> execs s \<and> b_controllers s' = b_controllers s
      \<and> (r = Inr Again \<longrightarrow> eSuc (pot env i s') \<le> pot env i s)"
    if "spends env i 0 m" "m s1 = (r, s')" "\<And>s s'. m s \<noteq> (Inr Again, s')" for m
    using that(1) [unfolded spends_def, rule_format, of s1] that(2,3) s1 by auto
  show ?thesis
  proof (cases "\<exists>l. r1 = Inr (Some l) \<and> \<not> gone (Some l)")
    case False
    then consider e where "r1 = Inl e" | t where "r1 = Inr t" "gone t"
      by (cases r1) (auto simp: gone_def split: option.splits)
    then show ?thesis
    proof cases
      case (1 e)
      then show ?thesis using assms(3) g s1 by (auto simp: catch_failure_def js_defs)
    next
      case (2 t)
      then have "seq (emit (EvDeregister i)) (ret Stop) s1 = (r, s')"
        using assms(3) g by (cases t) (auto simp: catch_failure_def bind_def [of "getTask env i"])
      then show ?thesis
      proof (rule other [rotated])
        show "spends env i 0 (seq (emit (EvDeregister i)) (ret Stop))"
          by (intro spends_all) auto
        show "seq (emit (EvDeregister i)) (ret Stop) sa \<noteq> (Inr Again, sb)" for sa sb
          by (simp add: js_defs emit_def)
      qed
    qed
  next
    case True
    then obtain l where l: "r1 = Inr (Some l)" "\<not> gone (Some l)" by blast
    have got: "so_get (e_ops env) (b_store s1) i = Some l"
      using getTask_run [OF g] l by simp
    let ?to = "timed_out (e_aborted env (b_turn s1) i) err"
    show ?thesis
    proof (cases ?to)
      case (Inl e)
      then have "r = Inl e" "s' = s1"
        using assms(3) g l by (auto simp: catch_failure_def js_defs)
      then show ?thesis using s1 by auto
    next
      case (Inr timedOut)
      show ?thesis
      proof (cases "\<not> timedOut \<and> num_less (Fin (of_int (tk_retry l))) (tk_max l)")
        case again: True
        obtain r2 s2 where u: "updateTask env i (\<lambda>t. t\<lparr>tk_retry := tk_retry l + 1, tk_error := JUndef,
            tk_started := Some (b_turn s1)\<rparr>) s1 = (r2, s2)" by force
        note upd = retry_update [OF assms(1,2) got again [THEN conjunct2] u]
        have "(r = Inr Again \<longrightarrow> r2 = Inr ()) \<and> s' = s2"
          using assms(3) g l Inr again u
          by (cases r2) (auto simp: catch_failure_def js_defs)
        then show ?thesis using upd s1 by (auto intro: order_trans)
      next
        case False
        let ?m = "seq (finish_failed env i (if timedOut then ''timed_out'' else ''failed'')
                          (failure_info env timedOut l err))
                    (seq (notify env EvDrain) (ret Stop))"
        have "?m s1 = (r, s')"
          using assms(3) g l Inr False by (auto simp: catch_failure_def bind_def gets_def)
        then show ?thesis
        proof (rule other [rotated])
          show "spends env i 0 ?m"
            by (intro spends_all spends_finish_failed assms) auto
          show "?m sa \<noteq> (Inr Again, sb)" for sa sb
            by (auto simp: js_defs split: prod.splits sum.splits)
        qed
      qed
    qed
  qed
qed

lemma attempt_budget:
  assumes "retry_stable env i" and "store_laws (e_ops env)"
    and "attempt env i rd s = (r, s')"
  shows "pot env i s' \<le> pot env i s \<and> execs s' \<le> execs s + 1
    \<and> (i \<notin> set (b_controllers s) \<longrightarrow> b_controllers s' = b_controllers s)
    \<and> (r = Inr Again \<longrightarrow> eSuc (pot env i s') \<le> pot env i s)"
proof -
  obtain r1 s1 where g: "getTask env i s = (r1, s1)" by force
  have s1: "pot env i s1 \<le> pot env i s" "execs s1 \<le> execs s" "b_controllers s1 = b_controllers s"
    using spends_reads(2) [OF assms(1), of 0 i, unfolded spends_def, rule_format, of s] g by auto
  have other: ?thesis
    if "m s1 = (r, s')" "spends env i 0 m" "\<And>s s'. m s \<noteq> (Inr Again, s')" for m
    using that(2) [unfolded spends_def, rule_format, of s1] that(1,3) s1 by auto
  consider e where "r1 = Inl e" | t where "r1 = Inr t" "gone t"
    | t where "r1 = Inr (Some t)" "\<not> gone (Some t)"
  proof (cases r1)
    case (Inr b)
    then show thesis using that(2) [of b] that(3) by (cases b) (auto simp: gone_def [of None])
  qed (use that(1) in blast)
  then show ?thesis
  proof cases
    case (1 e)
    then show ?thesis using assms(3) g s1 by (auto simp: attempt_def js_defs)
  next
    case (2 t)
    then have "seq (emit (EvDeregister i)) (ret Stop) s1 = (r, s')"
      using assms(3) g by (cases t) (auto simp: attempt_def bind_def [of "getTask env i"])
    then show ?thesis
    proof (rule other)
      show "spends env i 0 (seq (emit (EvDeregister i)) (ret Stop))" by (intro spends_all) auto
      show "seq (emit (EvDeregister i)) (ret Stop) sa \<noteq> (Inr Again, sb)" for sa sb
        by (simp add: js_defs emit_def)
    qed
  next
    case (3 t)
    show ?thesis
    proof (cases "e_context env (b_turn s1) i \<or> e_static env (tk_tool t)")
      case False
      let ?m = "seq (finish_failed env i ''failed'' (no_executor_error (tk_tool t))) (ret Stop)"
      have "?m s1 = (r, s')"
        using assms(3) g 3 False by (simp add: attempt_def bind_def gets_def)
      then show ?thesis
      proof (rule other)
        show "spends env i 0 ?m" by (intro spends_all spends_finish_failed assms)
        show "?m sa \<noteq> (Inr Again, sb)" for sa sb by (auto simp: js_defs split: prod.splits sum.splits)
      qed
    next
      case True
      let ?s2 = "s1\<lparr>b_controllers := i # filter (\<lambda>c. c \<noteq> i) (b_controllers s1)\<rparr>"
      obtain r3 s3 where t: "try_execute env i t rd ?s2 = (r3, s3)" by force
      have s3: "pot env i s3 \<le> pot env i s" "execs s3 \<le> execs s + 1"
        "b_controllers s3 = i # filter (\<lambda>c. c \<noteq> i) (b_controllers s)"
        using spends_try [OF assms(1,2), of t rd, unfolded spends_def, rule_format, of ?s2] t s1
        by (auto simp: pot_def execs_def)
      obtain r4 s4 where c: "catch (try_execute env i t rd) (catch_failure env i) ?s2 = (r4, s4)" by force
      have s4: "pot env i s4 \<le> pot env i s \<and> execs s4 \<le> execs s + 1
          \<and> b_controllers s4 = i # filter (\<lambda>c. c \<noteq> i) (b_controllers s)
          \<and> (r4 = Inr Again \<longrightarrow> eSuc (pot env i s4) \<le> pot env i s)"
      proof (cases r3)
        case (Inl e)
        then have "catch_failure env i e s3 = (r4, s4)" using c t by (simp add: js_defs)
        from catch_budget [OF assms(1,2) this] show ?thesis using s3 by (auto intro: order_trans)
      next
        case (Inr x)
        then have "r4 = Inr Stop" "s4 = s3" using c t try_stops [of env i t rd ?s2 x s3] by (auto simp: js_defs)
        then show ?thesis using s3 by simp
      qed
      have r: "r = r4" and s': "s' = s4\<lparr>b_controllers := filter (\<lambda>c. c \<noteq> i) (b_controllers s4)\<rparr>"
        using assms(3) g 3 True c
        by (auto simp: attempt_def bind_def gets_def seq_def modify_def finally_do_def split: if_splits)
      moreover have "pot env i s' = pot env i s4" "execs s' = execs s4"
        by (simp_all add: s' pot_def execs_def)
      moreover have "i \<notin> set (b_controllers s) \<longrightarrow> b_controllers s' = b_controllers s"
        using s4 by (auto simp: s' intro: filter_True)
      ultimately show ?thesis using s4 by simp
    qed
  qed
qed

lemma task_loop_returns:
  assumes "retry_stable env i" and "store_laws (e_ops env)" and "i \<notin> set (b_controllers s)"
    and "pot env i s \<le> enat n"
  shows "\<exists>r s'. task_loop env i rd s = Some (r, s') \<and> execs s' \<le> execs s + n + 1
     \<and> b_controllers s' = b_controllers s"
  using assms(3,4)
proof (induction n arbitrary: s rd rule: less_induct)
  case (less n)
  obtain r s' where a: "attempt env i rd s = (r, s')" by force
  note b = attempt_budget [OF assms(1,2) a]
  show ?case
  proof (cases "r = Inr Again")
    case False
    have "\<exists>r'. task_loop env i rd s = Some (r', s')"
    proof (cases r)
      case (Inr x)
      with False have "x = Stop" by (cases x) auto
      with Inr a show ?thesis by (simp add: task_loop.simps)
    qed (use a in \<open>simp add: task_loop.simps\<close>)
    then show ?thesis using b less.prems by auto
  next
    case True
    then have "eSuc (pot env i s') \<le> enat n" using b less.prems(2) by (auto intro: order_trans)
    then obtain m where m: "n = Suc m" "pot env i s' \<le> enat m"
      by (cases n) (auto simp: eSuc_enat [symmetric] zero_enat_def [symmetric])
    obtain r'' s'' where "task_loop env i JUndef s' = Some (r'', s'')" "execs s'' \<le> execs s' + m + 1"
      "b_controllers s'' = b_controllers s'"
      using less.IH [of m s' JUndef] m b less.prems by auto
    moreover have "task_loop env i rd s = task_loop env i JUndef s'"
      using a True by (subst task_loop.simps) simp
    ultimately show ?thesis using b less.prems m by auto
  qed
qed

section \<open>Properties\<close>

text \<open>
  C15. Running a background task always comes back, under every failure of the storage, of the hooks
  and of the executor and every concurrent change that does not reset the task's retry data: the
  executor runs at most \<open>maxRetries\<close> minus the retries already used, plus one times, and no abort
  controller of the task is left registered.
\<close>

theorem background_run_bounded:
  assumes "retry_stable env i" and "store_laws (e_ops env)" and "i \<notin> set (b_controllers s)"
    and "so_get (e_ops env) (b_store s) i = Some t" and "tk_max t = Fin q"
  shows "\<exists>r s'. runInlineTask env i rd s = Some (r, s')
     \<and> execs s' \<le> execs s + nat (\<lceil>q\<rceil> - tk_retry t) + 1
     \<and> b_controllers s' = b_controllers s"
proof -
  let ?n = "nat (\<lceil>q\<rceil> - tk_retry t)"
  have pot: "pot env i s = enat ?n" using assms(4,5) by (simp add: pot_def budget_def)
  obtain r1 s1 where st: "start_task env i rd s = (r1, s1)" by force
  have s1: "pot env i s1 \<le> enat ?n" "execs s1 \<le> execs s" "b_controllers s1 = b_controllers s"
    using spends_start [OF assms(1,2), of rd, unfolded spends_def, rule_format, of s] st pot by auto
  show ?thesis
  proof (cases "r1 = Inr True")
    case True
    obtain r s' where "task_loop env i rd s1 = Some (r, s')" "execs s' \<le> execs s1 + ?n + 1"
      "b_controllers s' = b_controllers s1"
      using task_loop_returns [OF assms(1,2), of s1 ?n rd] assms(3) s1 by auto
    then show ?thesis using True st s1 by (auto simp: runInlineTask_def)
  next
    case False
    then obtain r where "runInlineTask env i rd s = Some (r, s1)"
      using st by (cases r1) (auto simp: runInlineTask_def split: bool.splits)
    then show ?thesis using s1 by auto
  qed
qed

text \<open>A storage that is a dictionary, and a quiet environment: nothing interferes and nothing fails.\<close>

definition dict_ops :: "(string, task) dict store_ops" where
  "dict_ops = \<lparr>so_get = dget, so_update = (\<lambda>d i f. case dget d i of None \<Rightarrow> d | Some t \<Rightarrow> dset d i (f t)),
     so_create = dset, so_delete = ddel, so_pending = filter (\<lambda>p. tk_status (snd p) = ''pending'')\<rparr>"

lemma dict_laws: "store_laws dict_ops"
  by (auto simp: store_laws_def dict_ops_def split: option.split)

definition quiet_env ::
  "'st store_ops \<Rightarrow> (nat \<Rightarrow> task \<Rightarrow> jsval \<Rightarrow> callback list \<times> exec_end) \<Rightarrow> (jsval \<Rightarrow> string) \<Rightarrow> 'st bg_env" where
  "quiet_env ops run shown = \<lparr>e_ops = ops, e_between = (\<lambda>_ st. st), e_fail = (\<lambda>_. None),
     e_context = (\<lambda>_ _. True), e_static = (\<lambda>_. False), e_aborted = (\<lambda>_ _. False),
     e_exec = run, e_can_run = (\<lambda>_. True), e_shown = shown\<rparr>"

lemma quiet_stable: "retry_stable (quiet_env ops run shown) i"
  by (simp add: retry_stable_def quiet_env_def)

definition start_state :: "'st \<Rightarrow> 'st bg" where
  "start_state st = \<lparr>b_store = st, b_turn = 0, b_events = [], b_controllers = [], b_draining = False\<rparr>"

definition sample_task :: task where
  "sample_task = new_task ''grep'' JUndef (JStr ''a'') (Some (Fin 2)) None (jint 50) JUndef 0"

theorem background_run_bounded_witness:
  "\<exists>r s'. runInlineTask (quiet_env dict_ops (\<lambda>_ _ _. ([], Raised (JErr PlainError ''boom'' []))) (\<lambda>_. ''50'')) ''t'' JUndef
       (start_state [(''t'', sample_task)]) = Some (r, s')
     \<and> execs s' \<le> 3 \<and> b_controllers s' = []"
proof -
  let ?env = "quiet_env dict_ops (\<lambda>_ _ _. ([], Raised (JErr PlainError ''boom'' []))) (\<lambda>_. ''50'')"
  let ?s = "start_state [(''t'', sample_task)]"
  have laws: "store_laws (e_ops ?env)" by (simp add: quiet_env_def dict_laws)
  have "''t'' \<notin> set (b_controllers ?s)"
    "so_get (e_ops ?env) (b_store ?s) ''t'' = Some sample_task" "tk_max sample_task = Fin 2"
    by (simp_all add: quiet_env_def start_state_def dict_ops_def sample_task_def new_task_def)
  from background_run_bounded [OF quiet_stable laws this, of JUndef] show ?thesis
    by (simp add: start_state_def execs_def sample_task_def new_task_def numeral_3_eq_3)
qed

section \<open>Outcomes in a quiet environment\<close>

text \<open>
  An executor that fails with \<open>e\<close> until the task has been retried \<open>k\<close> times and then returns \<open>v\<close>.
\<close>

definition flaky :: "nat \<Rightarrow> jsval \<Rightarrow> jsval \<Rightarrow> nat \<Rightarrow> task \<Rightarrow> jsval \<Rightarrow> callback list \<times> exec_end" where
  "flaky k e v n t rd = ([], if tk_retry t < int k then Raised e else Finished v)"

abbreviation flaky_env where
  "flaky_env ops k e v shown \<equiv> quiet_env ops (flaky k e v) shown"

lemma quiet_awaiting [simp]:
  "awaiting (quiet_env ops run shown) f s = (case f (s\<lparr>b_turn := Suc (b_turn s)\<rparr>) of (a, s2) \<Rightarrow> (Inr a, s2))"
  by (simp add: awaiting_def Let_def quiet_env_def)

lemma quiet_fields [simp]:
  "e_ops (quiet_env ops run shown) = ops" "e_context (quiet_env ops run shown) n i"
  "\<not> e_aborted (quiet_env ops run shown) n i" "e_exec (quiet_env ops run shown) = run"
  by (simp_all add: quiet_env_def)

lemma get_update [simp]:
  "store_laws ops \<Longrightarrow> so_get ops (so_update ops st i f) i = map_option f (so_get ops st i)"
  by (simp add: store_laws_def)

lemma flaky_attempt:
  fixes k m :: nat
  assumes "store_laws ops" and "so_get ops (b_store s) i = Some t" and "tk_status t \<noteq> ''cancelled''"
    and "timed_out False e = Inr False" and "tk_max t = Fin (of_nat m)"
  defines "again \<equiv> tk_retry t < int k \<and> tk_retry t < int m"
  shows "\<exists>s' t'. attempt (flaky_env ops k e v shown) i rd s = (Inr (if again then Again else Stop), s')
    \<and> execs s' = Suc (execs s) \<and> so_get ops (b_store s') i = Some t' \<and> tk_max t' = tk_max t
    \<and> (if again then tk_status t' = tk_status t \<and> tk_retry t' = tk_retry t + 1
       else tk_retry t' = tk_retry t \<and>
         (if tk_retry t < int k then tk_status t' = ''failed''
            \<and> getp (tk_error t') ''message'' = js_coalesce (getp e ''message'') (JStr ''Unknown error'')
          else tk_status t' = ''completed'' \<and> tk_result t' = v))"
proof -
  note defs = attempt_def try_execute_def catch_failure_def execute_task_def finish_failed_def if_there_def
    getTask_def updateTask_def pause_def notify_def emit_def js_defs Let_def gone_def flaky_def execs_def
    failure_info_def
  have lt: "num_less (Fin (of_int (tk_retry t))) (Fin (of_nat m)) \<longleftrightarrow> tk_retry t < int m"
    using of_int_less_iff [of "tk_retry t" "int m", where ?'a = rat] by simp
  consider "again" | "tk_retry t < int k" "\<not> tk_retry t < int m" | "\<not> tk_retry t < int k"
    unfolding again_def by blast
  then show ?thesis
  proof cases
    case 1
    then show ?thesis using assms(1-5) lt by (simp add: again_def defs)
  next
    case 2
    then show ?thesis using assms(1-5) lt by (simp add: again_def defs)
  next
    case 3
    then show ?thesis using assms(1-5) by (simp add: again_def defs)
  qed
qed

lemma flaky_loop:
  assumes "store_laws ops" and "timed_out False e = Inr False"
    and "so_get ops (b_store s) i = Some t" and "tk_status t \<noteq> ''cancelled''"
    and "tk_max t = Fin (of_nat m)" and "tk_retry t = int r" and "r \<le> min k m"
  shows "\<exists>s' t'. task_loop (flaky_env ops k e v shown) i rd s = Some (Inr (), s')
    \<and> execs s' = execs s + Suc (min k m - r) \<and> so_get ops (b_store s') i = Some t'
    \<and> tk_retry t' = int (min k m)
    \<and> (if k \<le> m then tk_status t' = ''completed'' \<and> tk_result t' = v
       else tk_status t' = ''failed''
         \<and> getp (tk_error t') ''message'' = js_coalesce (getp e ''message'') (JStr ''Unknown error''))"
  using assms(3-7)
proof (induction "min k m - r" arbitrary: r s t rd)
  case 0
  then have r: "r = min k m" by simp
  then have stop: "\<not> (tk_retry t < int k \<and> tk_retry t < int m)" using 0 by auto
  from flaky_attempt [OF assms(1) 0(2,3) assms(2) 0(4), of k v shown rd] stop
  obtain s' t' where a: "attempt (flaky_env ops k e v shown) i rd s = (Inr Stop, s')"
    and b: "execs s' = Suc (execs s)" "so_get ops (b_store s') i = Some t'" "tk_retry t' = tk_retry t"
      "if tk_retry t < int k then tk_status t' = ''failed''
            \<and> getp (tk_error t') ''message'' = js_coalesce (getp e ''message'') (JStr ''Unknown error'')
          else tk_status t' = ''completed'' \<and> tk_result t' = v"
    by (auto split: if_splits)
  have "task_loop (flaky_env ops k e v shown) i rd s = Some (Inr (), s')"
    by (subst task_loop.simps) (simp add: a)
  then show ?case using b 0 r by (auto split: if_splits)
next
  case (Suc n)
  then have go: "tk_retry t < int k \<and> tk_retry t < int m" by auto
  from flaky_attempt [OF assms(1) Suc(3,4) assms(2) Suc(5), of k v shown rd] go
  obtain s' t' where a: "attempt (flaky_env ops k e v shown) i rd s = (Inr Again, s')"
    and b: "execs s' = Suc (execs s)" "so_get ops (b_store s') i = Some t'" "tk_max t' = tk_max t"
      "tk_status t' = tk_status t" "tk_retry t' = tk_retry t + 1"
    by auto
  have l: "task_loop (flaky_env ops k e v shown) i rd s = task_loop (flaky_env ops k e v shown) i JUndef s'"
    by (subst task_loop.simps) (simp add: a)
  have "n = min k m - Suc r" using Suc(2) by simp
  from Suc(1) [OF this b(2), of JUndef] b Suc(2-) show ?case
    unfolding l by fastforce
qed

text \<open>
  C16. When nothing interferes, a task whose executor fails \<open>k\<close> times before it succeeds is executed
  \<open>min k maxRetries + 1\<close> times and ends \<open>completed\<close> with the result if \<open>k\<close> is at most
  \<open>maxRetries\<close>, and \<open>failed\<close> with the error's message otherwise; the retry count it leaves is the
  number of retries made.
\<close>

theorem background_retry_outcome:
  assumes "store_laws ops" and "timed_out False e = Inr False"
    and "so_get ops (b_store s) i = Some t" and "tk_status t = ''pending''"
    and "tk_max t = Fin (of_nat m)" and "tk_retry t = 0"
  shows "\<exists>s' t'. runInlineTask (flaky_env ops k e v shown) i JUndef s = Some (Inr (), s')
    \<and> execs s' = execs s + min k m + 1 \<and> so_get ops (b_store s') i = Some t'
    \<and> tk_retry t' = int (min k m)
    \<and> (if k \<le> m then tk_status t' = ''completed'' \<and> tk_result t' = v
       else tk_status t' = ''failed''
         \<and> getp (tk_error t') ''message'' = js_coalesce (getp e ''message'') (JStr ''Unknown error''))"
proof -
  note defs = start_task_def getTask_def updateTask_def pause_def notify_def emit_def js_defs gone_def execs_def
  obtain s1 t1 where st: "start_task (flaky_env ops k e v shown) i JUndef s = (Inr True, s1)"
    "so_get ops (b_store s1) i = Some t1" "tk_status t1 = ''running''" "tk_retry t1 = 0"
    "tk_max t1 = tk_max t" "execs s1 = execs s"
    using assms by (simp add: defs)
  have "runInlineTask (flaky_env ops k e v shown) i JUndef s = task_loop (flaky_env ops k e v shown) i JUndef s1"
    by (simp add: runInlineTask_def st)
  then show ?thesis
    using flaky_loop [OF assms(1,2) st(2), of m 0 k v shown JUndef] st assms(5) by simp
qed

theorem background_retry_outcome_witness:
  "\<exists>s'. runInlineTask (flaky_env dict_ops 1 (JErr PlainError ''boom'' []) (JStr ''ok'') (\<lambda>_. ''50'')) ''t'' JUndef
      (start_state [(''t'', sample_task)]) = Some (Inr (), s') \<and> execs s' = 2"
  using background_retry_outcome [OF dict_laws, where e = "JErr PlainError ''boom'' []" and s = "start_state [(''t'', sample_task)]"
      and i = "''t''" and t = sample_task and m = 2 and k = 1 and v = "JStr ''ok''" and shown = "\<lambda>_. ''50''"]
  by (auto simp: start_state_def dict_ops_def sample_task_def new_task_def execs_def timed_out_def message_starts_def)

definition hook_fails_once :: "(string, task) dict bg_env" where
  "hook_fails_once = (quiet_env dict_ops (\<lambda>_ _ _. ([], Finished (JStr ''ok''))) (\<lambda>_. ''50''))
     \<lparr>e_fail := (\<lambda>n. if n = 11 then Some (JErr PlainError ''hook'' []) else None)\<rparr>"

text \<open>
  Remark: A failing completion hook undoes a completion: the hook runs inside the \<open>try\<close>, so its error is
  taken for the executor's, and a task that is already stored as completed with its result is executed
  a second time.
\<close>

theorem completion_hook_failure_reruns:
  "\<exists>s'. runInlineTask hook_fails_once ''t'' JUndef (start_state [(''t'', sample_task)]) = Some (Inr (), s')
     \<and> execs s' = 2 \<and> map_option tk_retry (dget (b_store s') ''t'') = Some 1
     \<and> map_option tk_status (dget (b_store s') ''t'') = Some ''completed''"
  by (simp add: runInlineTask_def start_task_def task_loop.simps attempt_def try_execute_def catch_failure_def
      execute_task_def if_there_def getTask_def updateTask_def pause_def notify_def emit_def js_defs Let_def
      gone_def awaiting_def execs_def hook_fails_once_def quiet_env_def dict_ops_def start_state_def
      sample_task_def new_task_def timed_out_def message_starts_def)

section \<open>Enqueueing and draining\<close>

text \<open>
  Remark: The drain guard is released: whatever fails or interferes, after a drain the flag that prevents
  overlapping drains is as it was before, and a drain that finds it set does nothing at all.
\<close>

theorem drain_guard_released:
  "b_draining (snd (drainInlinePending env checks disabled has_original s)) = b_draining s
   \<and> drainInlinePending env checks disabled has_original (s\<lparr>b_draining := True\<rparr>) = (Inr (), s\<lparr>b_draining := True\<rparr>)"
  by (auto simp: drainInlinePending_def js_defs split: prod.split)

definition full_env ::
  "'st store_ops \<Rightarrow> (nat \<Rightarrow> task \<Rightarrow> jsval \<Rightarrow> callback list \<times> exec_end) \<Rightarrow> (jsval \<Rightarrow> string) \<Rightarrow> 'st bg_env" where
  "full_env ops run shown = (quiet_env ops run shown)\<lparr>e_can_run := \<lambda>_. False\<rparr>"

text \<open>Waiting for a started task changes nothing here and fails only when an awaited call does.\<close>

definition only_waits :: "'st bg_env \<Rightarrow> ('st, 'a) bgm \<Rightarrow> bool" where
  "only_waits env m \<longleftrightarrow> (\<forall>s. b_events (snd (m s)) = b_events s \<and> (\<forall>e. fst (m s) = Inl e \<longrightarrow> (\<exists>n. e_fail env n = Some e)))"

lemma only_waits_bind: "only_waits env m \<Longrightarrow> (\<And>x. only_waits env (f x)) \<Longrightarrow> only_waits env (bind m f)"
  unfolding only_waits_def js_defs by (auto split: prod.split sum.split) (metis fst_conv snd_conv sum.inject(1))+

lemma only_waits_basic: "only_waits env (ret x)" "only_waits env (pause env)" "only_waits env (getTask env i)"
  by (auto simp: only_waits_def js_defs pause_def getTask_def awaiting_def Let_def split: option.split)

lemma only_waits_started: "only_waits env (waitForInlineTaskStarted env i)"
proof -
  have "only_waits env (wait_started env i k)" for k
    by (induction k) (auto simp: seq_def intro!: only_waits_basic only_waits_bind split: option.split)
  then show ?thesis
    unfolding waitForInlineTaskStarted_def seq_def by (intro only_waits_bind only_waits_basic)
qed

text \<open>
  What an outcome of an enqueue stands for: \<open>n\<close> is the turn at which the task \<open>t\<close> was made, \<open>over\<close> whether the
  limit was met, \<open>new\<close> the events and \<open>st\<close> the storage at the end.
\<close>

definition enqueue_outcome ::
  "'st bg_env \<Rightarrow> nat \<Rightarrow> bool \<Rightarrow> backpressure \<Rightarrow> string \<Rightarrow> task \<Rightarrow> jsval + enqueued \<Rightarrow> bg_event list \<Rightarrow> 'st \<Rightarrow> bool" where
  "enqueue_outcome env n over policy i t r new st = (case r of
     Inr Delegated \<Rightarrow> False
   | Inr (FallbackToSync j u) \<Rightarrow> over \<and> policy = FallbackSync \<and> j = i \<and> u = t
       \<and> new = [EvRegister i, EvDeregister i] \<and> so_get (e_ops env) st i = None
   | Inr (Enqueued j u) \<Rightarrow> j = i \<and> u = t \<and>
       (if over then policy \<noteq> Reject \<and> policy \<noteq> FallbackSync \<and> new = [EvRegister i]
          \<and> (\<exists>st0. st = e_between env (n + 2) (so_create (e_ops env) st0 i t))
        else new = [EvRegister i, EvSpawn i JUndef])
   | Inl e \<Rightarrow>
       over \<and> policy = Reject \<and> e = limit_reached_error (tk_tool t)
         \<and> new = [EvRegister i, EvDeregister i] \<and> so_get (e_ops env) st i = None
     \<or> (\<exists>k. e_fail env k = Some e) \<and> (over \<longrightarrow> EvSpawn i JUndef \<notin> set new))"

lemma enqueue_ready:
  assumes "store_laws (e_ops env)"
    and "enqueueInline env True False False False checks policy i mk s = (r, s')"
  shows "\<exists>new. b_events s' = b_events s @ new \<and>
    enqueue_outcome env (b_turn s) (checks \<and> \<not> e_can_run env (b_turn s + 3)) policy i (mk (b_turn s)) r new (b_store s')"
proof -
  let ?n = "b_turn s"
  have gone: "so_get (e_ops env) (so_delete (e_ops env) st i) i = None" for st
    using assms(1) by (simp add: store_laws_def)
  note run = enqueueInline_def awaiting_def Let_def pause_def emit_def checkConcurrency_def js_defs
  show ?thesis
  proof (cases "\<exists>e. e_fail env ?n = Some e \<or> e_fail env (Suc ?n) = Some e \<or> checks \<and> e_fail env (Suc (Suc ?n)) = Some e")
    case True
    then have "b_events s' = b_events s @ [EvRegister i] \<and> (\<exists>e. r = Inl e \<and> (\<exists>k. e_fail env k = Some e))"
      using assms(2) by (cases "e_fail env ?n"; cases "e_fail env (Suc ?n)") (auto simp: run)
    then obtain e where "b_events s' = b_events s @ [EvRegister i]" "r = Inl e" "\<exists>k. e_fail env k = Some e"
      by blast
    then show ?thesis by (intro exI [of _ "[EvRegister i]"]) (simp add: enqueue_outcome_def)
  next
    case False
    then have ok: "e_fail env ?n = None" "e_fail env (Suc ?n) = None" "checks \<Longrightarrow> e_fail env (Suc (Suc ?n)) = None"
      by (metis not_None_eq)+
    show ?thesis
    proof (cases "checks \<and> \<not> e_can_run env (?n + 3)")
      case True
      then show ?thesis
        using assms(2) ok gone
        by (cases policy; cases "e_fail env (Suc (Suc (Suc ?n)))")
          (auto simp: run enqueue_outcome_def numeral_3_eq_3 numeral_2_eq_2)
    next
      case False
      let ?created = "so_create (e_ops env) (e_between env (Suc ?n) (e_between env ?n (b_store s))) i (mk ?n)"
      define s1 where "s1 = s\<lparr>b_events := b_events s @ [EvRegister i, EvSpawn i JUndef],
          b_store := (if checks then e_between env (Suc (Suc ?n)) ?created else ?created),
          b_turn := (if checks then Suc (Suc (Suc ?n)) else Suc (Suc ?n))\<rparr>"
      have "enqueueInline env True False False False checks policy i mk s =
          (case waitForInlineTaskStarted env i s1 of (Inl e, s2) \<Rightarrow> (Inl e, s2) | (Inr u, s2) \<Rightarrow> (Inr (Enqueued i (mk ?n)), s2))"
        using ok False by (cases s; cases checks) (simp_all add: run spawn_task_def numeral_3_eq_3 s1_def split: prod.split sum.split)
      then have s1: "b_events s1 = b_events s @ [EvRegister i, EvSpawn i JUndef]"
        "(r, s') = (case waitForInlineTaskStarted env i s1 of (Inl e, s2) \<Rightarrow> (Inl e, s2) | (Inr u, s2) \<Rightarrow> (Inr (Enqueued i (mk ?n)), s2))"
        using assms(2) by (simp_all add: s1_def)
      have w: "b_events (snd (waitForInlineTaskStarted env i s1)) = b_events s1"
        "\<And>e. fst (waitForInlineTaskStarted env i s1) = Inl e \<Longrightarrow> \<exists>k. e_fail env k = Some e"
        using only_waits_started unfolding only_waits_def by blast+
      show ?thesis
        using s1 w False
        by (intro exI [of _ "[EvRegister i, EvSpawn i JUndef]"])
          (auto simp: enqueue_outcome_def split: prod.splits sum.splits)
    qed
  qed
qed

lemma enqueue_init:
  "enqueueInline env True False False True checks policy i mk s =
     (let s1 = s\<lparr>b_store := e_between env (b_turn s) (b_store s), b_turn := Suc (b_turn s)\<rparr> in
      case e_fail env (b_turn s) of
        Some e \<Rightarrow> (Inl e, s1)
      | None \<Rightarrow> enqueueInline env True False False False checks policy i mk s1)"
  by (simp add: enqueueInline_def pause_def awaiting_def js_defs Let_def split: option.split)

text \<open>
  C17. Every outcome of an enqueue, whatever calls fail and however others interfere with the storage. A task that
  is handed back to be run synchronously, or refused with the error of the limit, was over the concurrency limit
  under that policy, has left the storage and its context is deregistered. A task returned as enqueued has been
  started, below the limit, or lies, above it and under the other policies, with its context registered in the
  storage in which it was created, as others have changed it since. Any other error is that of a failed call:
  then nothing was started above the limit, but the registered context may be left behind. During shutdown the
  enqueue throws without any effect.
\<close>

theorem enqueue_backpressure:
  assumes "store_laws (e_ops env)"
  shows "(case enqueueInline env True False False ini checks policy i mk s of (r, s') \<Rightarrow>
      let n = b_turn s + of_bool ini in
      \<exists>new. b_events s' = b_events s @ new \<and>
        enqueue_outcome env n (checks \<and> \<not> e_can_run env (n + 3)) policy i (mk n) r new (b_store s'))
    \<and> enqueueInline env True False True ini checks policy i mk s = (Inl shutdown_error, s)"
proof -
  have shut: "enqueueInline env True False True ini checks policy i mk s = (Inl shutdown_error, s)"
    by (simp add: enqueueInline_def js_defs)
  obtain r s' where r: "enqueueInline env True False False ini checks policy i mk s = (r, s')" by force
  have "\<exists>new. b_events s' = b_events s @ new \<and> enqueue_outcome env (b_turn s + of_bool ini)
      (checks \<and> \<not> e_can_run env (b_turn s + of_bool ini + 3)) policy i (mk (b_turn s + of_bool ini)) r new (b_store s')"
  proof (cases ini)
    case False
    then show ?thesis using enqueue_ready [OF assms] r by simp
  next
    case True
    let ?s = "s\<lparr>b_store := e_between env (b_turn s) (b_store s), b_turn := Suc (b_turn s)\<rparr>"
    show ?thesis
    proof (cases "e_fail env (b_turn s)")
      case (Some e)
      then show ?thesis
        using r True by (intro exI [of _ "[]"]) (auto simp: enqueue_init Let_def enqueue_outcome_def)
    next
      case None
      then have "enqueueInline env True False False False checks policy i mk ?s = (r, s')"
        using r True by (simp add: enqueue_init Let_def)
      from enqueue_ready [OF assms this] True show ?thesis by simp
    qed
  qed
  then show ?thesis using r shut by (simp add: Let_def)
qed

theorem enqueue_backpressure_witness:
  "\<exists>s'. enqueueInline (full_env dict_ops (\<lambda>_ _ _. ([], Raised JNull)) (\<lambda>_. [])) True False False False True Reject
       ''t'' (\<lambda>_. sample_task) (start_state []) = (Inl (limit_reached_error ''grep''), s') \<and> dget (b_store s') ''t'' = None"
proof -
  let ?env = "full_env dict_ops (\<lambda>_ _ _. ([], Raised JNull)) (\<lambda>_. [])"
  have laws: "store_laws (e_ops ?env)" by (simp add: full_env_def dict_laws)
  have env: "\<And>n. e_fail ?env n = None" "\<And>n. \<not> e_can_run ?env n" "\<And>d k. so_get (e_ops ?env) d k = dget d k"
    by (simp_all add: full_env_def quiet_env_def dict_ops_def)
  have tool: "tk_tool sample_task = ''grep''" by (simp add: sample_task_def new_task_def)
  obtain r s' where "enqueueInline ?env True False False False True Reject ''t'' (\<lambda>_. sample_task) (start_state []) = (r, s')"
    by force
  with enqueue_backpressure [OF laws, where s = "start_state []" and ini = False and mk = "\<lambda>_. sample_task"
      and checks = True and policy = Reject and i = "''t''"] env tool
  show ?thesis
  proof (cases r)
    case (Inr x)
    with \<open>enqueueInline ?env True False False False True Reject ''t'' (\<lambda>_. sample_task) (start_state []) = (r, s')\<close>
      enqueue_backpressure [OF laws, where s = "start_state []" and ini = False and mk = "\<lambda>_. sample_task"
      and checks = True and policy = Reject and i = "''t''"] env
    show ?thesis by (cases x) (auto simp: enqueue_outcome_def Let_def)
  qed (auto simp: enqueue_outcome_def Let_def)
qed

end
