(* ===== verification/Lifecycle.thy ===== *)
theory Lifecycle
  imports Js_Values
begin

text \<open>
  \<open>entry.mjs\<close>, lifecycle tracking: the streams a background-task manager has open (their abort
  controllers and the shared counters), and the workers and workflow-event subscription of a Mastra
  instance. Managers, streams and upstream signals are numbered objects.
\<close>

section \<open>Tracked streams\<close>

record lifecycle =
  lc_managers :: "nat list"
  lc_tracked :: "(nat \<times> nat) list"
  lc_opened :: nat
  lc_closed :: nat
  lc_shutdowns :: nat
  lc_ended :: "nat list"
  lc_aborted :: "nat list"
  lc_waiting :: "(nat \<times> nat) list"
  lc_up_aborted :: "nat list"
  lc_next :: nat

definition fresh_lifecycle :: lifecycle where
  "fresh_lifecycle = \<lparr>lc_managers = [], lc_tracked = [], lc_opened = 0, lc_closed = 0, lc_shutdowns = 0,
     lc_ended = [], lc_aborted = [], lc_waiting = [], lc_up_aborted = [], lc_next = 0\<rparr>"

definition remember_manager :: "nat \<Rightarrow> lifecycle \<Rightarrow> lifecycle" where
  "remember_manager m s = s\<lparr>lc_managers := (if m \<in> set (lc_managers s) then lc_managers s else lc_managers s @ [m])\<rparr>"

definition mark_closed :: "nat \<Rightarrow> lifecycle \<Rightarrow> lifecycle" where
  "mark_closed i s =
     (if i \<in> set (lc_ended s) then s
      else s\<lparr>lc_ended := i # lc_ended s,
             lc_tracked := filter (\<lambda>p. snd p \<noteq> i) (lc_tracked s),
             lc_closed := (if lc_closed s < lc_opened s then Suc (lc_closed s) else lc_closed s)\<rparr>)"

text \<open>Aborting the internal controller fires its listener once: the stream is marked closed.\<close>

definition abort_stream :: "nat \<Rightarrow> lifecycle \<Rightarrow> lifecycle" where
  "abort_stream i s =
     (if i \<in> set (lc_aborted s) then s else mark_closed i (s\<lparr>lc_aborted := i # lc_aborted s\<rparr>))"

definition open_stream :: "nat \<Rightarrow> nat option \<Rightarrow> lifecycle \<Rightarrow> lifecycle" where
  "open_stream m up s0 =
     (let s = remember_manager m s0; i = lc_next s;
          s1 = s\<lparr>lc_tracked := lc_tracked s @ [(m, i)], lc_opened := Suc (lc_opened s), lc_next := Suc i\<rparr>
      in case up of
           None \<Rightarrow> s1
         | Some u \<Rightarrow> if u \<in> set (lc_up_aborted s1) then abort_stream i s1
                     else s1\<lparr>lc_waiting := lc_waiting s1 @ [(u, i)]\<rparr>)"

definition upstream_abort :: "nat \<Rightarrow> lifecycle \<Rightarrow> lifecycle" where
  "upstream_abort u s =
     (if u \<in> set (lc_up_aborted s) then s
      else (let s1 = fold (\<lambda>p. abort_stream (snd p)) (filter (\<lambda>p. fst p = u) (lc_waiting s))
                       (s\<lparr>lc_up_aborted := u # lc_up_aborted s\<rparr>)
            in s1\<lparr>lc_waiting := filter (\<lambda>p. fst p \<noteq> u) (lc_waiting s1)\<rparr>))"

text \<open>The reader came to its end or failed; the consumer cancelled; the manager shuts down.\<close>

definition stream_ended :: "nat \<Rightarrow> lifecycle \<Rightarrow> lifecycle" where
  "stream_ended i s = mark_closed i s"

definition stream_cancelled :: "nat \<Rightarrow> lifecycle \<Rightarrow> lifecycle" where
  "stream_cancelled i s = mark_closed i (abort_stream i s)"

definition shutdown_tracked :: "nat \<Rightarrow> lifecycle \<Rightarrow> lifecycle" where
  "shutdown_tracked m s0 =
     (let s = remember_manager m s0 in
      fold (\<lambda>p. abort_stream (snd p)) (filter (\<lambda>p. fst p = m) (lc_tracked s))
        (s\<lparr>lc_shutdowns := Suc (lc_shutdowns s)\<rparr>))"

text \<open>The stream counters of the debug report.\<close>

definition active_streams :: "lifecycle \<Rightarrow> nat" where
  "active_streams s = lc_opened s - lc_closed s"

definition active_tracked :: "lifecycle \<Rightarrow> nat" where
  "active_tracked s = sum_list (map (\<lambda>m. length (filter (\<lambda>p. fst p = m) (lc_tracked s))) (lc_managers s))"

datatype stream_event =
    LOpen nat "nat option"
  | LUpstreamAbort nat
  | LEnded nat
  | LCancelled nat
  | LShutdown nat

fun lc_step :: "lifecycle \<Rightarrow> stream_event \<Rightarrow> lifecycle" where
  "lc_step s (LOpen m up) = open_stream m up s"
| "lc_step s (LUpstreamAbort u) = upstream_abort u s"
| "lc_step s (LEnded i) = stream_ended i s"
| "lc_step s (LCancelled i) = stream_cancelled i s"
| "lc_step s (LShutdown m) = shutdown_tracked m s"

text \<open>Only streams that have been opened end or are cancelled.\<close>

fun lc_ok :: "lifecycle \<Rightarrow> stream_event \<Rightarrow> bool" where
  "lc_ok s (LEnded i) = (i < lc_next s)"
| "lc_ok s (LCancelled i) = (i < lc_next s)"
| "lc_ok s x = True"

section \<open>The invariant\<close>

definition lc_inv :: "lifecycle \<Rightarrow> bool" where
  "lc_inv s \<longleftrightarrow> lc_opened s = lc_next s
     \<and> distinct (lc_ended s) \<and> set (lc_ended s) \<subseteq> {..<lc_next s}
     \<and> lc_closed s = length (lc_ended s)
     \<and> distinct (map snd (lc_tracked s))
     \<and> set (map snd (lc_tracked s)) = {..<lc_next s} - set (lc_ended s)
     \<and> set (lc_aborted s) \<subseteq> set (lc_ended s)
     \<and> set (map snd (lc_waiting s)) \<subseteq> {..<lc_next s}
     \<and> distinct (lc_managers s) \<and> set (map fst (lc_tracked s)) \<subseteq> set (lc_managers s)"

lemma ended_bound: "lc_inv s \<Longrightarrow> i < lc_next s \<Longrightarrow> i \<notin> set (lc_ended s) \<Longrightarrow> lc_closed s < lc_opened s"
proof -
  assume a: "lc_inv s" "i < lc_next s" "i \<notin> set (lc_ended s)"
  then have "set (lc_ended s) \<subset> {..<lc_next s}" by (auto simp: lc_inv_def)
  then have "card (set (lc_ended s)) < card {..<lc_next s}" by (rule psubset_card_mono [rotated]) simp
  with a show ?thesis by (simp add: lc_inv_def distinct_card)
qed

lemma inv_mark_closed:
  assumes "lc_inv s" and "i < lc_next s"
  shows "lc_inv (mark_closed i s)"
proof (cases "i \<in> set (lc_ended s)")
  case True
  then show ?thesis using assms(1) by (simp add: mark_closed_def)
next
  case False
  then have "lc_closed s < lc_opened s" by (rule ended_bound [OF assms])
  moreover have "map snd (filter (\<lambda>p. snd p \<noteq> i) (lc_tracked s)) = filter (\<lambda>j. j \<noteq> i) (map snd (lc_tracked s))"
    by (simp add: filter_map o_def)
  ultimately show ?thesis
    using assms False by (auto simp: mark_closed_def lc_inv_def)
qed

lemma mark_closed_next [simp]: "lc_next (mark_closed i s) = lc_next s" "lc_waiting (mark_closed i s) = lc_waiting s"
  by (simp_all add: mark_closed_def)

lemma abort_next [simp]: "lc_next (abort_stream i s) = lc_next s" "lc_waiting (abort_stream i s) = lc_waiting s"
  by (simp_all add: abort_stream_def)

lemma inv_abort:
  assumes "lc_inv s" and "i < lc_next s"
  shows "lc_inv (abort_stream i s)"
proof (cases "i \<in> set (lc_aborted s)")
  case True
  then show ?thesis using assms(1) by (simp add: abort_stream_def)
next
  case False
  have "lc_inv (mark_closed i s)" by (rule inv_mark_closed [OF assms])
  moreover have "mark_closed i (s\<lparr>lc_aborted := i # lc_aborted s\<rparr>) = (mark_closed i s)\<lparr>lc_aborted := i # lc_aborted s\<rparr>"
    by (simp add: mark_closed_def)
  moreover have "i \<in> set (lc_ended (mark_closed i s))" "set (lc_aborted (mark_closed i s)) = set (lc_aborted s)"
    by (simp_all add: mark_closed_def)
  ultimately show ?thesis using False by (simp add: abort_stream_def lc_inv_def)
qed

lemma inv_fold_abort:
  "lc_inv s \<Longrightarrow> set (map snd ps) \<subseteq> {..<lc_next s} \<Longrightarrow> lc_inv (fold (\<lambda>p. abort_stream (snd p)) ps s)"
  by (induction ps arbitrary: s) (auto simp: inv_abort)

lemma fold_abort_next [simp]:
  "lc_next (fold (\<lambda>p. abort_stream (snd p)) ps s) = lc_next s"
  "lc_waiting (fold (\<lambda>p. abort_stream (snd p)) ps s) = lc_waiting s"
  by (induction ps arbitrary: s) simp_all

lemma inv_remember: "lc_inv s \<Longrightarrow> lc_inv (remember_manager m s)"
  by (auto simp: lc_inv_def remember_manager_def)

lemma inv_open: "lc_inv s \<Longrightarrow> lc_inv (open_stream m up s)"
proof -
  assume "lc_inv s"
  define r where "r = remember_manager m s"
  define s1 where "s1 = r\<lparr>lc_tracked := lc_tracked r @ [(m, lc_next r)], lc_opened := Suc (lc_opened r), lc_next := Suc (lc_next r)\<rparr>"
  have r: "lc_inv r" "m \<in> set (lc_managers r)"
    using inv_remember [OF \<open>lc_inv s\<close>] by (simp_all add: r_def remember_manager_def)
  then have s1: "lc_inv s1" "lc_next s1 = Suc (lc_next r)"
    by (auto simp: s1_def lc_inv_def)
  have "open_stream m up s = (case up of None \<Rightarrow> s1
      | Some u \<Rightarrow> if u \<in> set (lc_up_aborted s1) then abort_stream (lc_next r) s1
                  else s1\<lparr>lc_waiting := lc_waiting s1 @ [(u, lc_next r)]\<rparr>)"
    by (simp only: open_stream_def Let_def r_def [symmetric] s1_def [symmetric])
  moreover have "lc_inv (s1\<lparr>lc_waiting := lc_waiting s1 @ [(u, lc_next r)]\<rparr>)" for u
    using s1 by (simp add: lc_inv_def)
  ultimately show ?thesis
    using s1 by (auto intro: inv_abort split: option.split)
qed

lemma inv_upstream: "lc_inv s \<Longrightarrow> lc_inv (upstream_abort u s)"
proof -
  assume s: "lc_inv s"
  let ?s = "s\<lparr>lc_up_aborted := u # lc_up_aborted s\<rparr>"
  have "lc_inv ?s" using s by (simp add: lc_inv_def)
  moreover have "set (map snd (filter (\<lambda>p. fst p = u) (lc_waiting s))) \<subseteq> {..<lc_next ?s}"
    using s by (auto simp: lc_inv_def)
  ultimately have "lc_inv (fold (\<lambda>p. abort_stream (snd p)) (filter (\<lambda>p. fst p = u) (lc_waiting s)) ?s)"
    by (rule inv_fold_abort)
  then show ?thesis using s by (auto simp: upstream_abort_def Let_def lc_inv_def)
qed

lemma inv_shutdown: "lc_inv s \<Longrightarrow> lc_inv (shutdown_tracked m s)"
proof -
  assume "lc_inv s"
  let ?r = "remember_manager m s"
  have r: "lc_inv ?r" by (rule inv_remember [OF \<open>lc_inv s\<close>])
  then have "lc_inv (?r\<lparr>lc_shutdowns := Suc (lc_shutdowns ?r)\<rparr>)" by (simp add: lc_inv_def)
  moreover have "set (map snd (filter (\<lambda>p. fst p = m) (lc_tracked ?r))) \<subseteq> {..<lc_next ?r}"
    using r unfolding lc_inv_def by (metis (no_types, lifting) Diff_subset filter_is_subset image_mono
        order_trans list.set_map)
  ultimately show ?thesis
    unfolding shutdown_tracked_def Let_def by (intro inv_fold_abort) auto
qed

lemma lc_step_inv: "lc_inv s \<Longrightarrow> lc_ok s x \<Longrightarrow> lc_inv (lc_step s x)"
  by (cases x) (auto simp: stream_ended_def stream_cancelled_def
      intro: inv_open inv_upstream inv_mark_closed inv_abort inv_shutdown)

interpretation streams: machine lc_step lc_inv lc_ok
  by unfold_locales (rule lc_step_inv)

lemma fresh_inv: "lc_inv fresh_lifecycle"
  by (simp add: lc_inv_def fresh_lifecycle_def)

lemma tracked_count:
  assumes "lc_inv s"
  shows "length (lc_tracked s) = active_streams s" and "active_tracked s = active_streams s"
    and "lc_closed s \<le> lc_opened s"
proof -
  have inv: "distinct (map snd (lc_tracked s))" "set (map snd (lc_tracked s)) = {..<lc_next s} - set (lc_ended s)"
    "distinct (lc_ended s)" "set (lc_ended s) \<subseteq> {..<lc_next s}" "lc_closed s = length (lc_ended s)"
    "lc_opened s = lc_next s" "distinct (lc_managers s)" "set (map fst (lc_tracked s)) \<subseteq> set (lc_managers s)"
    using assms by (auto simp: lc_inv_def)
  have "card (set (map snd (lc_tracked s))) = lc_next s - length (lc_ended s)"
    unfolding inv(2) using inv(3,4) by (simp add: card_Diff_subset distinct_card)
  then show 1: "length (lc_tracked s) = active_streams s"
    using distinct_card [OF inv(1)] inv(5,6) by (simp add: active_streams_def)
  have "sum_list (map (\<lambda>m. length (filter (\<lambda>p. fst p = m) ps)) ms) = length ps"
    if "distinct ms" "set (map fst ps) \<subseteq> set ms" for ms and ps :: "(nat \<times> nat) list"
    using that(2)
  proof (induction ps)
    case (Cons p ps)
    have "sum_list (map (\<lambda>m. length (filter (\<lambda>p. fst p = m) (p # ps))) ms) =
        sum_list (map (\<lambda>m. (if m = fst p then 1 else 0) + length (filter (\<lambda>p. fst p = m) ps)) ms)"
      by (intro arg_cong [of _ _ sum_list] map_cong) auto
    also have "\<dots> = sum_list (map (\<lambda>m. if m = fst p then 1 else 0) ms) + length ps"
      using Cons by (simp add: sum_list_addf)
    also have "sum_list (map (\<lambda>m. if m = fst p then 1 else (0::nat)) ms) = 1"
      using that(1) Cons.prems by (simp add: sum_list_distinct_conv_sum_set sum.delta)
    finally show ?case by simp
  qed simp
  then show "active_tracked s = active_streams s"
    using inv(7,8) 1 by (simp add: active_tracked_def)
  show "lc_closed s \<le> lc_opened s"
    using card_mono [OF _ inv(4)] inv(3,5,6) by (simp add: distinct_card)
qed

lemma fold_abort_tracked:
  fixes ps :: "(nat \<times> nat) list"
  shows "lc_inv s \<Longrightarrow> set (map snd ps) \<subseteq> {..<lc_next s} \<Longrightarrow> q \<in> set ps \<Longrightarrow>
   snd q \<notin> set (map snd (lc_tracked (fold (\<lambda>p. abort_stream (snd p)) ps s)))"
proof (induction ps arbitrary: s)
  case (Cons p ps)
  have shrink1: "set (map snd (lc_tracked (abort_stream j t))) \<subseteq> set (map snd (lc_tracked t))" for j t
    by (auto simp: abort_stream_def mark_closed_def)
  have shrink: "set (map snd (lc_tracked (fold (\<lambda>p. abort_stream (snd p)) qs t))) \<subseteq> set (map snd (lc_tracked t))"
    for qs :: "(nat \<times> nat) list" and t
  proof (induction qs arbitrary: t)
    case (Cons q qs)
    show ?case using order_trans [OF Cons shrink1] by simp
  qed simp
  have a: "lc_inv (abort_stream (snd p) s)" using Cons.prems by (intro inv_abort) auto
  show ?case
  proof (cases "q \<in> set ps")
    case True
    then show ?thesis using Cons.IH [OF a] Cons.prems by simp
  next
    case False
    then have "snd q \<in> set (lc_ended (abort_stream (snd p) s))"
      using Cons.prems by (auto simp: abort_stream_def mark_closed_def lc_inv_def)
    then have "snd q \<notin> set (map snd (lc_tracked (abort_stream (snd p) s)))"
      using a by (simp add: lc_inv_def)
    then show ?thesis
      using shrink [of ps "abort_stream (snd p) s"] unfolding fold_simps by blast
  qed
qed simp

section \<open>Properties of streams\<close>

text \<open>
  C18. Stream accounting is exact: after any sequence of openings, upstream aborts, ends, cancellations
  and shutdowns, in whatever order and however often, no stream is counted as closed twice: the
  closed count never exceeds the opened count, and the active streams the report derives from the
  counters are exactly the streams whose abort controllers the managers still track.
\<close>

theorem stream_accounting:
  assumes "streams.ok_run fresh_lifecycle xs"
  shows "(let s = foldl lc_step fresh_lifecycle xs in
    lc_closed s \<le> lc_opened s \<and> active_tracked s = active_streams s \<and> length (lc_tracked s) = active_streams s)"
  using tracked_count [OF streams.run_inv [OF fresh_inv assms]] by (simp add: Let_def)

theorem stream_accounting_witness:
  "(let s = foldl lc_step fresh_lifecycle [LOpen 1 (Some 7), LOpen 1 None, LUpstreamAbort 7, LCancelled 0, LEnded 0] in
    lc_closed s \<le> lc_opened s \<and> active_tracked s = active_streams s \<and> length (lc_tracked s) = active_streams s)"
  by (rule stream_accounting)
     (simp add: fresh_lifecycle_def open_stream_def upstream_abort_def stream_cancelled_def abort_stream_def
       mark_closed_def remember_manager_def)

text \<open>
  C19. Shutting a manager down closes all its streams: in every reachable state, after the shutdown no
  stream of that manager is tracked, and every stream it had open is aborted and counted as closed.
\<close>

theorem shutdown_closes_streams:
  assumes "streams.ok_run fresh_lifecycle xs"
  shows "(let s = foldl lc_step fresh_lifecycle xs; s' = shutdown_tracked m s in
    (\<forall>i. (m, i) \<in> set (lc_tracked s) \<longrightarrow> i \<in> set (lc_ended s') \<and> i \<notin> snd ` set (lc_tracked s'))
    \<and> lc_opened s' = lc_closed s' + length (lc_tracked s'))"
proof -
  let ?s = "foldl lc_step fresh_lifecycle xs"
  let ?s' = "shutdown_tracked m ?s"
  have s: "lc_inv ?s" by (rule streams.run_inv [OF fresh_inv assms])
  then have s': "lc_inv ?s'" by (rule inv_shutdown)
  let ?r = "remember_manager m ?s"
  have r: "lc_inv (?r\<lparr>lc_shutdowns := Suc (lc_shutdowns ?r)\<rparr>)"
    using inv_remember [OF s, of m] by (simp add: lc_inv_def)
  have tr: "lc_tracked ?r = lc_tracked ?s" "lc_next ?r = lc_next ?s" by (simp_all add: remember_manager_def)
  have "i \<in> set (lc_ended ?s') \<and> i \<notin> snd ` set (lc_tracked ?s')" if "(m, i) \<in> set (lc_tracked ?s)" for i
  proof -
    have "set (map snd (filter (\<lambda>p. fst p = m) (lc_tracked ?s))) \<subseteq> {..<lc_next ?s}"
      using s unfolding lc_inv_def by (metis (no_types, lifting) Diff_subset filter_is_subset image_mono
        order_trans list.set_map)
    then have "snd (m, i) \<notin> set (map snd (lc_tracked ?s'))"
      unfolding shutdown_tracked_def Let_def tr
      using that by (intro fold_abort_tracked r) (auto simp: tr)
    moreover have "i < lc_next ?s'"
    proof -
      have "i \<in> set (map snd (lc_tracked ?s))" using that by force
      then have "i < lc_next ?s" using s unfolding lc_inv_def by blast
      then show ?thesis by (simp add: shutdown_tracked_def Let_def tr)
    qed
    ultimately show ?thesis using s' by (auto simp: lc_inv_def)
  qed
  then show ?thesis
    using tracked_count(1,3) [OF s'] by (simp add: Let_def active_streams_def)
qed

theorem shutdown_closes_streams_witness:
  "(let s = foldl lc_step fresh_lifecycle [LOpen 1 None, LOpen 2 None]; s' = shutdown_tracked 1 s in
    lc_opened s' = lc_closed s' + length (lc_tracked s'))"
  using shutdown_closes_streams [of "[LOpen 1 None, LOpen 2 None]" 1] by (simp add: Let_def)

end
