(* ===== verification/Workers.thy ===== *)
theory Workers
  imports Js_Values
begin

text \<open>
  \<open>entry.mjs\<close>, the worker bridge of a Mastra instance: starting and stopping its workers, the single
  push subscription to workflow events, and the event counters. The original methods and the topic
  listeners belong to the third-party class; the model records the calls to them, and a parameter
  says which of the calls fail. A listener is a closure, here a number of its own; the ones that are
  live are those whose addition has succeeded and whose removal has not: a failing call has no effect.
\<close>

datatype worker_call = CAddListener nat | CRemoveListener nat | COriginalStart string | COriginalStop

record workers =
  w_workers :: "(string \<times> bool) list"
  w_marker :: "nat option"
  w_subscribed :: bool
  w_instance :: "nat option"
  w_next_id :: nat
  w_starts :: nat
  w_stops :: nat
  w_received :: nat
  w_ok :: nat
  w_retry :: nat
  w_failed :: nat
  w_log :: "worker_call list"
  w_next_cb :: nat
  w_live :: "nat list"

text \<open>What the instance offers, and the failures of the calls by their position in the log.\<close>

record worker_env =
  we_listens :: bool
  we_removes :: bool
  we_fail :: "nat \<Rightarrow> jsval option"

type_synonym 'a wm = "(jsval, workers, 'a) comp"

fun listeners_after :: "worker_call \<Rightarrow> nat list \<Rightarrow> nat list" where
  "listeners_after (CAddListener cb) live = live @ [cb]"
| "listeners_after (CRemoveListener cb) live = filter (\<lambda>l. l \<noteq> cb) live"
| "listeners_after c live = live"

definition wcall :: "worker_env \<Rightarrow> worker_call \<Rightarrow> unit wm" where
  "wcall env c = (\<lambda>s.
     (case we_fail env (length (w_log s)) of
        Some e \<Rightarrow> (Inl e, s\<lparr>w_log := w_log s @ [c]\<rparr>)
      | None \<Rightarrow> (Inr (), s\<lparr>w_log := w_log s @ [c], w_live := listeners_after c (w_live s)\<rparr>)))"

definition remember_instance :: "workers \<Rightarrow> workers" where
  "remember_instance s =
     (case w_instance s of
        Some n \<Rightarrow> s
      | None \<Rightarrow> s\<lparr>w_instance := Some (w_next_id s), w_next_id := Suc (w_next_id s)\<rparr>)"

text \<open>An orchestration worker is patched (its \<open>start\<close> replaced by a no-op) once.\<close>

definition patch_orchestration :: "workers \<Rightarrow> workers" where
  "patch_orchestration s =
     s\<lparr>w_workers := map (\<lambda>(n, patched). (n, patched \<or> n = ''orchestration'')) (w_workers s)\<rparr>"

definition bridge_error :: jsval where
  "bridge_error = JErr PlainError
     ''Brainkit workflow event bridge requires Mastra.addTopicListener and Mastra.handleWorkflowEvent'' []"

definition ensure_subscription :: "worker_env \<Rightarrow> unit wm" where
  "ensure_subscription env =
     seq (modify remember_instance)
      (bind (gets w_marker) (\<lambda>marked.
        if marked \<noteq> None then ret ()
        else if \<not> we_listens env then throw bridge_error
        else bind (gets w_next_cb) (\<lambda>cb.
               seq (modify (\<lambda>s. s\<lparr>w_next_cb := Suc cb, w_marker := Some cb\<rparr>))
                (seq (wcall env (CAddListener cb)) (modify (\<lambda>s. s\<lparr>w_subscribed := True\<rparr>))))))"

definition remove_subscription :: "worker_env \<Rightarrow> unit wm" where
  "remove_subscription env =
     bind (gets w_marker) (\<lambda>marked.
       case marked of
         None \<Rightarrow> ret ()
       | Some cb \<Rightarrow> seq (modify (\<lambda>s. s\<lparr>w_marker := None, w_subscribed := False\<rparr>))
             (if we_removes env then wcall env (CRemoveListener cb) else ret ()))"

definition own_worker :: "string \<Rightarrow> bool" where
  "own_worker n \<longleftrightarrow> n \<noteq> ''orchestration'' \<and> n \<noteq> ''scheduler''"

definition startWorkers :: "worker_env \<Rightarrow> string \<Rightarrow> unit wm" where
  "startWorkers env name =
     seq (modify (\<lambda>s. (remember_instance s)\<lparr>w_starts := Suc (w_starts s)\<rparr>))
      (bind (gets (map fst \<circ> w_workers)) (\<lambda>names.
        seq (if name = [] \<or> name = ''orchestration''
             then seq (modify patch_orchestration) (ensure_subscription env) else ret ())
         (if name = [] then iter_list (\<lambda>n. wcall env (COriginalStart n)) (filter own_worker names)
          else wcall env (COriginalStart name))))"

definition aggregate_error :: "jsval \<Rightarrow> jsval \<Rightarrow> jsval" where
  "aggregate_error e1 e2 = JErr PlainError ''Brainkit stopWorkers failed'' [(''errors'', JArr [e1, e2])]"

text \<open>The error kept so far; a falsy error counts as none.\<close>

definition stopWorkers :: "worker_env \<Rightarrow> unit wm" where
  "stopWorkers env = (\<lambda>s0.
     let s = (remember_instance s0)\<lparr>w_stops := Suc (w_stops s0)\<rparr> in
     case remove_subscription env s of (r1, s1) \<Rightarrow>
     case wcall env COriginalStop s1 of (r2, s2) \<Rightarrow>
       (let err1 = (case r1 of Inl e \<Rightarrow> e | Inr u \<Rightarrow> JUndef);
            err = (case r2 of
                     Inl e \<Rightarrow> if truthy err1 then aggregate_error err1 e else e
                   | Inr u \<Rightarrow> err1)
        in (if truthy err then Inl err else Inr (), s2)))"

text \<open>
  How the handling of an event settles: the handler's result, whether there is an \<open>ack\<close> that throws
  at once (a rejected \<open>ack\<close> is only logged), or the handler's rejection.
\<close>

datatype handling = Handled bool bool | HandlerRejected

fun workflow_event :: "handling \<Rightarrow> workers \<Rightarrow> workers" where
  "workflow_event (Handled isOk ackThrows) s =
     (if isOk then s\<lparr>w_received := Suc (w_received s), w_ok := Suc (w_ok s),
                     w_failed := (if ackThrows then Suc (w_failed s) else w_failed s)\<rparr>
      else s\<lparr>w_received := Suc (w_received s), w_retry := Suc (w_retry s)\<rparr>)"
| "workflow_event HandlerRejected s =
     s\<lparr>w_received := Suc (w_received s), w_failed := Suc (w_failed s)\<rparr>"

datatype worker_op = WStart string | WStop | WEvent handling

fun w_step :: "worker_env \<Rightarrow> workers \<Rightarrow> worker_op \<Rightarrow> workers" where
  "w_step env s (WStart n) = snd (startWorkers env n s)"
| "w_step env s WStop = snd (stopWorkers env s)"
| "w_step env s (WEvent x) = workflow_event x s"

definition new_workers :: "string list \<Rightarrow> workers" where
  "new_workers names = \<lparr>w_workers = map (\<lambda>n. (n, False)) names, w_marker = None, w_subscribed = False,
     w_instance = None, w_next_id = 1, w_starts = 0, w_stops = 0, w_received = 0, w_ok = 0, w_retry = 0,
     w_failed = 0, w_log = [], w_next_cb = 0, w_live = []\<rparr>"

section \<open>The subscription invariant\<close>

text \<open>The listeners whose removal has failed, and how often a removal has.\<close>

definition lost :: "worker_env \<Rightarrow> worker_call list \<Rightarrow> nat set" where
  "lost env calls = {cb. \<exists>i<length calls. calls ! i = CRemoveListener cb \<and> we_fail env i \<noteq> None}"

definition failed_removals :: "worker_env \<Rightarrow> worker_call list \<Rightarrow> nat" where
  "failed_removals env calls = card {i. i < length calls \<and> (\<exists>cb. calls ! i = CRemoveListener cb) \<and> we_fail env i \<noteq> None}"

lemma lost_snoc [simp]:
  "lost env (calls @ [c]) = lost env calls \<union>
     (if we_fail env (length calls) = None then {} else {cb. c = CRemoveListener cb})"
proof -
  have "(\<exists>i<length (calls @ [c]). (calls @ [c]) ! i = CRemoveListener cb \<and> we_fail env i \<noteq> None) \<longleftrightarrow>
      (\<exists>i<length calls. calls ! i = CRemoveListener cb \<and> we_fail env i \<noteq> None)
      \<or> c = CRemoveListener cb \<and> we_fail env (length calls) \<noteq> None" (is "?l \<longleftrightarrow> ?r \<or> ?c") for cb
  proof
    assume ?l
    then obtain i where "i < length calls \<or> i = length calls" "(calls @ [c]) ! i = CRemoveListener cb" "we_fail env i \<noteq> None"
      by (auto simp: less_Suc_eq)
    then show "?r \<or> ?c" by (metis nth_append nth_append_length)
  next
    assume "?r \<or> ?c"
    then show ?l by (metis length_append_singleton less_SucI lessI nth_append nth_append_length)
  qed
  then show ?thesis unfolding lost_def by (simp add: set_eq_iff)
qed

lemma card_lost: "finite (lost env calls) \<and> card (lost env calls) \<le> failed_removals env calls"
proof -
  let ?I = "{i. i < length calls \<and> (\<exists>cb. calls ! i = CRemoveListener cb) \<and> we_fail env i \<noteq> None}"
  let ?cb = "\<lambda>i. case calls ! i of CRemoveListener cb \<Rightarrow> cb | _ \<Rightarrow> 0"
  have "lost env calls = ?cb ` ?I" by (force simp: lost_def image_iff split: worker_call.split)
  then show ?thesis unfolding failed_removals_def by (simp add: card_image_le)
qed

definition w_inv :: "worker_env \<Rightarrow> workers \<Rightarrow> bool" where
  "w_inv env s \<longleftrightarrow> distinct (w_live s) \<and> (\<forall>cb\<in>set (w_live s). cb < w_next_cb s)
     \<and> set (w_live s) \<subseteq> set_option (w_marker s) \<union> lost env (w_log s)
     \<and> (w_subscribed s \<longrightarrow> (\<exists>cb. w_marker s = Some cb \<and> cb \<in> set (w_live s)))
     \<and> w_received s \<le> w_ok s + w_retry s + w_failed s"

lemma inv_wcall: "w_inv env s \<Longrightarrow> c = COriginalStop \<or> c = COriginalStart n \<Longrightarrow> w_inv env (snd (wcall env c s))"
  by (auto simp: w_inv_def wcall_def split: option.split)

lemma inv_remember_instance: "w_inv env (remember_instance s) \<longleftrightarrow> w_inv env s"
  by (simp add: w_inv_def remember_instance_def split: option.split)

lemma keeps_ensure: "keeps (w_inv env) (ensure_subscription env)"
proof (rule keepsI)
  fix s assume "w_inv env s"
  then have "w_inv env (remember_instance s)" by (simp add: inv_remember_instance)
  then show "w_inv env (snd (ensure_subscription env s))"
    by (auto simp: ensure_subscription_def js_defs wcall_def w_inv_def less_Suc_eq split: option.split)
qed

lemma keeps_remove: "we_removes env \<Longrightarrow> keeps (w_inv env) (remove_subscription env)"
  by (rule keepsI) (auto simp: remove_subscription_def js_defs wcall_def w_inv_def split: option.split)

lemma keeps_start: "keeps (w_inv env) (startWorkers env name)"
proof -
  have "keeps (w_inv env) (wcall env (COriginalStart n))" for n
    by (rule keepsI) (simp add: inv_wcall)
  moreover have "keeps (w_inv env) (modify patch_orchestration)"
    by (rule keeps_modify) (simp add: w_inv_def patch_orchestration_def)
  moreover have "keeps (w_inv env) (modify (\<lambda>s. (remember_instance s)\<lparr>w_starts := Suc (w_starts s)\<rparr>))"
    by (rule keeps_modify) (auto simp: w_inv_def remember_instance_def split: option.split)
  ultimately show ?thesis
    unfolding startWorkers_def by (intro keeps_intro keeps_ensure)
qed

lemma inv_stop:
  assumes "we_removes env" and "w_inv env s"
  shows "w_inv env (snd (stopWorkers env s))"
proof -
  let ?s = "(remember_instance s)\<lparr>w_stops := Suc (w_stops s)\<rparr>"
  have "w_inv env ?s" using assms(2) by (auto simp: w_inv_def remember_instance_def split: option.split)
  obtain r1 s1 where 1: "remove_subscription env ?s = (r1, s1)" by force
  then have "w_inv env s1" using keepsD [OF keeps_remove [OF assms(1)] \<open>w_inv env ?s\<close>] by simp
  then have "w_inv env (snd (wcall env COriginalStop s1))" by (simp add: inv_wcall)
  then show ?thesis using 1 by (cases "wcall env COriginalStop s1") (simp add: stopWorkers_def Let_def)
qed

lemma w_step_inv: "w_inv env s \<Longrightarrow> we_removes env \<Longrightarrow> w_inv env (w_step env s x)"
proof (cases x)
  case (WEvent h)
  then show "w_inv env s \<Longrightarrow> w_inv env (w_step env s x)"
    by (cases h) (auto simp: w_inv_def)
qed (auto intro: keepsD [OF keeps_start] inv_stop)

interpretation bridge: machine "w_step env" "w_inv env" "\<lambda>s x. we_removes env" for env
  by unfold_locales (rule w_step_inv)

lemma new_inv: "w_inv env (new_workers names)"
  by (simp add: w_inv_def new_workers_def)

lemma bridge_run: "we_removes env \<Longrightarrow> bridge.ok_run env s xs"
proof (induction xs arbitrary: s)
  case (Cons x xs)
  then show ?case unfolding bridge.ok_run.simps by blast
qed (unfold bridge.ok_run.simps, blast)

section \<open>Properties\<close>

text \<open>
  C20. However often the workers of an instance that has \<open>removeTopicListener\<close> are started and stopped, with calls
  that may fail, the live listeners of its workflow events are at most the one that the instance still knows and
  those whose removal has failed: at most one more than there were failing removals, and so at most one if none
  failed. While the instance counts as subscribed, the listener it knows is live.
\<close>

theorem single_subscription:
  assumes "we_removes env"
  shows "(let s = foldl (w_step env) (new_workers names) xs in
     set (w_live s) \<subseteq> set_option (w_marker s) \<union> lost env (w_log s)
     \<and> distinct (w_live s) \<and> length (w_live s) \<le> failed_removals env (w_log s) + 1
     \<and> (w_subscribed s \<longrightarrow> (\<exists>cb. w_marker s = Some cb \<and> cb \<in> set (w_live s))))"
proof -
  let ?s = "foldl (w_step env) (new_workers names) xs"
  have inv: "w_inv env ?s" by (rule bridge.run_inv [OF new_inv bridge_run [OF assms]])
  note lost = card_lost [of env "w_log ?s"]
  have "length (w_live ?s) = card (set (w_live ?s))" using inv by (simp add: w_inv_def distinct_card)
  also have "\<dots> \<le> card (set_option (w_marker ?s) \<union> lost env (w_log ?s))"
    using inv lost by (intro card_mono) (auto simp: w_inv_def)
  also have "\<dots> \<le> card (set_option (w_marker ?s)) + card (lost env (w_log ?s))" by (rule card_Un_le)
  also have "\<dots> \<le> 1 + failed_removals env (w_log ?s)"
    using lost by (cases "w_marker ?s") auto
  finally show ?thesis using inv by (simp add: w_inv_def Let_def)
qed

definition steady_workers :: worker_env where
  "steady_workers = \<lparr>we_listens = True, we_removes = True, we_fail = (\<lambda>_. None)\<rparr>"

theorem single_subscription_witness:
  "length (w_live (foldl (w_step steady_workers) (new_workers [''orchestration'']) [WStart [], WStart [], WStop, WStart []])) \<le> 1"
  using single_subscription [of steady_workers "[''orchestration'']" "[WStart [], WStart [], WStop, WStart []]"]
  unfolding Let_def by (simp add: steady_workers_def failed_removals_def)

text \<open>
  Remark: A failed removal doubles the events. The instance forgets its listener before it is removed, so when the
  removal fails the next start adds a second one, and both are called for every event.
\<close>

theorem failed_removal_doubles:
  "w_live (foldl (w_step (steady_workers\<lparr>we_fail := \<lambda>n. if n = 1 then Some JNull else None\<rparr>)) (new_workers [])
     [WStart [], WStop, WStart []]) = [0, 1]"
  by (simp add: steady_workers_def new_workers_def startWorkers_def stopWorkers_def ensure_subscription_def
      remove_subscription_def remember_instance_def patch_orchestration_def js_defs wcall_def Let_def)

text \<open>
  Remark: Stopping the workers never stops half-way: whatever fails, the original \<open>stopWorkers\<close> is called
  after the subscription has been given up, and the error reported is the removal's, the stop's, or
  one error holding both.
\<close>

theorem stop_workers_complete:
  "(case stopWorkers env s of (r, s') \<Rightarrow>
      last (w_log s') = COriginalStop \<and> w_marker s' = None \<and> (w_marker s \<noteq> None \<longrightarrow> \<not> w_subscribed s')
      \<and> (let n = length (w_log s); removal = (w_marker s \<noteq> None) \<and> we_removes env;
             e1 = (if removal then we_fail env n else None);
             e2 = we_fail env (if removal then Suc n else n)
         in case (e1, e2) of
              (None, None) \<Rightarrow> r = Inr ()
            | (Some a, None) \<Rightarrow> r = (if truthy a then Inl a else Inr ())
            | (None, Some b) \<Rightarrow> r = (if truthy b then Inl b else Inr ())
            | (Some a, Some b) \<Rightarrow> r = (if truthy a then Inl (aggregate_error a b)
                                      else if truthy b then Inl b else Inr ())))"
proof -
  have t: "truthy (aggregate_error a b)" for a b by (simp add: aggregate_error_def)
  show ?thesis
    by (cases "w_marker s"; cases "w_instance s")
       (auto simp: stopWorkers_def remove_subscription_def remember_instance_def js_defs wcall_def Let_def t
         split: option.split)
qed

text \<open>
  Remark: A failed subscription sticks: when adding the topic listener fails, the marker of a subscription
  is left behind although there is none, so no later start of the workers tries to subscribe again.
\<close>

theorem failed_subscription_sticks:
  assumes "w_marker s = None" and "we_listens env" and "we_fail env (length (w_log s)) = Some e"
  shows "(case ensure_subscription env s of (r, s') \<Rightarrow>
      r = Inl e \<and> w_marker s' \<noteq> None \<and> w_live s' = w_live s \<and> w_subscribed s' = w_subscribed s
      \<and> ensure_subscription env' s' = (Inr (), remember_instance s'))"
  using assms
  by (cases "w_instance s") (auto simp: ensure_subscription_def remember_instance_def js_defs wcall_def)

theorem failed_subscription_sticks_witness:
  "(case ensure_subscription (steady_workers\<lparr>we_fail := \<lambda>_. Some JNull\<rparr>) (new_workers []) of (r, s') \<Rightarrow>
      r = Inl JNull \<and> w_marker s' \<noteq> None \<and> w_live s' = w_live (new_workers []) \<and> w_subscribed s' = w_subscribed (new_workers [])
      \<and> ensure_subscription steady_workers s' = (Inr (), remember_instance s'))"
  by (rule failed_subscription_sticks) (simp_all add: new_workers_def steady_workers_def)

end
