(* ===== verification/Dispatch.thy ===== *)
theory Dispatch
  imports Registry Infrastructure
begin

text \<open>
  \<open>dispatch.js\<close>: the functions the host calls for bus commands on workflows, tools, secrets, the
  registry caches and the storage. Workflow objects, runs and tool functions are third-party or user
  code: a parameter answers each call made to them, given all calls before it.
\<close>

section \<open>State and calls\<close>

datatype obj_call =
    CreateRun string jsval
  | RunStart string jsval jsval
  | RunResume string jsval jsval
  | RunCancel string jsval
  | RunRestart string jsval
  | GetRun string jsval
  | ListRuns string jsval
  | RestartAll string
  | ExecTool string jsval

type_synonym obj_env = "obj_call list \<Rightarrow> obj_call \<Rightarrow> jsval + jsval"
type_synonym dstate = "globals \<times> obj_call list"
type_synonym 'a dm = "(jsval, dstate, 'a) comp"

definition obj_do :: "obj_env \<Rightarrow> obj_call \<Rightarrow> jsval dm" where
  "obj_do env c = (\<lambda>(g, l). (env l c, (g, l @ [c])))"

definition dlift :: "jsval + 'a \<Rightarrow> 'a dm" where
  "dlift r = (\<lambda>s. (r, s))"

definition on_globals :: "'a js \<Rightarrow> 'a dm" where
  "on_globals m = (\<lambda>(g, l). case m g of (r, g') \<Rightarrow> (r, (g', l)))"

definition prop_read :: "jsval \<Rightarrow> string \<Rightarrow> jsval dm" where
  "prop_read v k = dlift (member v k)"

section \<open>Helpers\<close>

definition not_found :: "string \<Rightarrow> jsval \<Rightarrow> jsval" where
  "not_found m details = BrainkitError m (JStr ''NOT_FOUND'') details"

definition getWorkflow :: "string \<Rightarrow> jsval dm" where
  "getWorkflow name =
     bind (gets (\<lambda>s. dget (refs (fst s)) (''workflow:'' @ name))) (\<lambda>entry.
       case entry of
         None \<Rightarrow> throw (not_found (''workflow not found: '' @ name) JUndef)
       | Some e \<Rightarrow> if truthy (re_ref e) then ret (re_ref e)
                  else throw (not_found (''workflow not found: '' @ name) JUndef))"

definition workflowStatus :: "jsval \<Rightarrow> jsval" where
  "workflowStatus runState = js_or (and_prop runState ''status'') (JStr ''unknown'')"

definition isTerminalWorkflowStatus :: "jsval \<Rightarrow> bool" where
  "isTerminalWorkflowStatus status =
     (status \<in> JStr ` set [''success'', ''failed'', ''canceled'', ''cancelled''])"

definition getWorkflowRunState :: "obj_env \<Rightarrow> (jsval \<Rightarrow> string) \<Rightarrow> string \<Rightarrow> jsval \<Rightarrow> jsval dm" where
  "getWorkflowRunState env fmt name runId =
     bind (obj_do env (GetRun name runId)) (\<lambda>runState.
       if truthy runState then ret runState
       else throw (not_found (''workflow run not found: '' @ js_string fmt runId) (JObj [(''runId'', runId)])))"

text \<open>\<open>err && err.message ? err.message : String(err)\<close>, as the concatenation shows it.\<close>

definition error_text :: "(jsval \<Rightarrow> string) \<Rightarrow> jsval \<Rightarrow> string" where
  "error_text fmt err =
     (if truthy err \<and> truthy (getp err ''message'') then js_string fmt (getp err ''message'')
      else js_string fmt err)"

definition wrapWorkflowError :: "(jsval \<Rightarrow> string) \<Rightarrow> string \<Rightarrow> jsval \<Rightarrow> jsval \<Rightarrow> jsval" where
  "wrapWorkflowError fmt op err code =
     (if is_brainkit_error err then err
      else BrainkitError (''workflow.'' @ op @ '' failed: '' @ error_text fmt err)
             (js_or code (JStr ''INTERNAL_ERROR'')) JUndef)"

definition rethrow_wrapped :: "(jsval \<Rightarrow> string) \<Rightarrow> string \<Rightarrow> jsval \<Rightarrow> 'a dm \<Rightarrow> 'a dm" where
  "rethrow_wrapped fmt op code m = catch m (\<lambda>err. throw (wrapWorkflowError fmt op err code))"

definition null_undefined :: "jsval \<Rightarrow> jsval" where
  "null_undefined v = (if v \<noteq> JUndef then v else JNull)"

section \<open>Workflow commands\<close>

definition run_report :: "jsval \<Rightarrow> jsval \<Rightarrow> jsval" where
  "run_report runId result =
     JObj [(''runId'', runId), (''status'', js_or (getp result ''status'') (JStr ''unknown'')),
           (''steps'', js_or (getp result ''steps'') JNull), (''result'', null_undefined (getp result ''result''))]"

definition workflow_start :: "obj_env \<Rightarrow> string \<Rightarrow> jsval \<Rightarrow> jsval dm" where
  "workflow_start env name inputData =
     bind (getWorkflow name) (\<lambda>wf. bind (obj_do env (CreateRun name JUndef)) (\<lambda>run.
       bind (prop_read run ''runId'') (\<lambda>rid.
         bind (obj_do env (RunStart name run (JObj [(''inputData'', js_or inputData JNull)]))) (\<lambda>result.
           bind (prop_read result ''status'') (\<lambda>_.
             ret (run_report (js_or rid (JStr [])) result))))))"

text \<open>
  \<open>startAsync\<close>: the immediate answer, and what is emitted when the run settles. A failure while the
  completion is printed or emitted is reported like a failure of the run.
\<close>

definition workflow_startAsync :: "obj_env \<Rightarrow> string \<Rightarrow> jsval \<Rightarrow> jsval dm" where
  "workflow_startAsync env name inputData =
     bind (getWorkflow name) (\<lambda>wf. bind (obj_do env (CreateRun name JUndef)) (\<lambda>run.
       bind (prop_read run ''runId'') (\<lambda>rid.
         bind (obj_do env (RunStart name run (JObj [(''inputData'', js_or inputData JNull)]))) (\<lambda>_.
           ret (JObj [(''runId'', js_or rid (JStr []))])))))"

definition completion_topic :: "string \<Rightarrow> string" where
  "completion_topic runId = ''workflow.completed.'' @ runId"

definition emit_completion :: "host \<Rightarrow> string \<Rightarrow> jsval \<Rightarrow> unit js" where
  "emit_completion h runId body =
     bind (of_result (stringify body)) (\<lambda>t. host_do h (Emit (completion_topic runId) t))"

definition completed_body :: "string \<Rightarrow> string \<Rightarrow> jsval \<Rightarrow> jsval" where
  "completed_body runId name result =
     JObj [(''runId'', JStr runId), (''name'', JStr name),
           (''status'', js_or (getp result ''status'') (JStr ''unknown'')),
           (''steps'', js_or (getp result ''steps'') JNull),
           (''result'', null_undefined (getp result ''result''))]"

definition failed_body :: "(jsval \<Rightarrow> string) \<Rightarrow> string \<Rightarrow> string \<Rightarrow> jsval \<Rightarrow> jsval \<Rightarrow> jsval + jsval" where
  "failed_body fmt runId name err message =
     (case (if truthy message then Inr message
            else (case js_convert fmt err of Inl e \<Rightarrow> Inl e | Inr s \<Rightarrow> Inr (JStr s))) of
        Inl e \<Rightarrow> Inl e
      | Inr shown \<Rightarrow> Inr (
          JObj [(''runId'', JStr runId), (''name'', JStr name), (''status'', JStr ''failed''), (''error'', shown)]))"

definition workflow_settled :: "host \<Rightarrow> (jsval \<Rightarrow> string) \<Rightarrow> string \<Rightarrow> string \<Rightarrow> jsval + jsval \<Rightarrow> unit js" where
  "workflow_settled h fmt runId name r =
     catch
       (case r of
          Inl e \<Rightarrow> throw e
        | Inr result \<Rightarrow>
            bind (of_result (member result ''status'')) (\<lambda>_.
              emit_completion h runId (completed_body runId name result)))
       (\<lambda>err. bind (of_result (member err ''message'')) (\<lambda>m.
          bind (of_result (failed_body fmt runId name err m)) (emit_completion h runId)))"

definition workflow_status :: "obj_env \<Rightarrow> (jsval \<Rightarrow> string) \<Rightarrow> string \<Rightarrow> jsval \<Rightarrow> jsval dm" where
  "workflow_status env fmt name runId =
     bind (getWorkflow name) (\<lambda>wf. bind (getWorkflowRunState env fmt name runId) (\<lambda>st.
       ret (JObj [(''runId'', runId), (''status'', workflowStatus st), (''steps'', js_or (getp st ''steps'') JNull)])))"

definition run_state_error :: "(jsval \<Rightarrow> string) \<Rightarrow> string \<Rightarrow> jsval \<Rightarrow> jsval \<Rightarrow> jsval" where
  "run_state_error fmt what runId status =
     BrainkitError (''workflow run is '' @ what @ '': '' @ js_string fmt runId) (JStr ''VALIDATION_ERROR'')
       (JObj [(''runId'', runId), (''status'', status)])"

definition workflow_resume :: "obj_env \<Rightarrow> (jsval \<Rightarrow> string) \<Rightarrow> string \<Rightarrow> jsval \<Rightarrow> jsval \<Rightarrow> jsval \<Rightarrow> jsval dm" where
  "workflow_resume env fmt name runId resumeData step =
     bind (getWorkflow name) (\<lambda>wf. bind (getWorkflowRunState env fmt name runId) (\<lambda>st.
       let status = workflowStatus st in
       if isTerminalWorkflowStatus status then throw (run_state_error fmt ''already complete'' runId status)
       else if status \<noteq> JStr ''suspended'' then throw (run_state_error fmt ''not suspended'' runId status)
       else bind (obj_do env (CreateRun name (JObj [(''runId'', runId)]))) (\<lambda>run.
         bind (rethrow_wrapped fmt ''resume'' (JStr ''VALIDATION_ERROR'')
                (obj_do env (RunResume name run
                  (JObj ((''resumeData'', js_or resumeData JNull) # (if truthy step then [(''step'', step)] else []))))))
           (\<lambda>result. bind (prop_read result ''steps'') (\<lambda>steps.
             ret (JObj [(''status'', workflowStatus result), (''steps'', js_or steps JNull)]))))))"

definition workflow_cancel :: "obj_env \<Rightarrow> (jsval \<Rightarrow> string) \<Rightarrow> string \<Rightarrow> jsval \<Rightarrow> jsval dm" where
  "workflow_cancel env fmt name runId =
     bind (getWorkflow name) (\<lambda>wf. bind (getWorkflowRunState env fmt name runId) (\<lambda>st.
       let status = workflowStatus st in
       if isTerminalWorkflowStatus status then throw (run_state_error fmt ''already complete'' runId status)
       else bind (obj_do env (CreateRun name (JObj [(''runId'', runId)]))) (\<lambda>run.
         bind (rethrow_wrapped fmt ''cancel'' JUndef (obj_do env (RunCancel name run))) (\<lambda>_.
           ret (JObj [(''cancelled'', JBool True)])))))"

definition workflow_restart :: "obj_env \<Rightarrow> (jsval \<Rightarrow> string) \<Rightarrow> string \<Rightarrow> jsval \<Rightarrow> jsval dm" where
  "workflow_restart env fmt name runId =
     bind (getWorkflow name) (\<lambda>wf. bind (getWorkflowRunState env fmt name runId) (\<lambda>_.
       bind (obj_do env (CreateRun name (JObj [(''runId'', runId)]))) (\<lambda>run.
         bind (rethrow_wrapped fmt ''restart'' JUndef (obj_do env (RunRestart name run))) (\<lambda>result.
           bind (prop_read result ''steps'') (\<lambda>steps.
             ret (JObj [(''status'', workflowStatus result), (''steps'', js_or steps JNull)]))))))"

definition workflow_runs :: "obj_env \<Rightarrow> string \<Rightarrow> jsval \<Rightarrow> jsval dm" where
  "workflow_runs env name status =
     bind (getWorkflow name) (\<lambda>wf.
       bind (obj_do env (ListRuns name (JObj (if truthy status then [(''status'', status)] else [])))) (\<lambda>result.
         bind (prop_read result ''runs'') (\<lambda>runs.
           ret (JObj [(''runs'', js_or runs (JArr [])), (''total'', js_or (getp result ''total'') (jint 0))]))))"

definition workflow_entry :: "globals \<Rightarrow> listing \<Rightarrow> jsval" where
  "workflow_entry g e =
     (case e of (t, rid, name, source) \<Rightarrow>
       let r = (case reg_get ''workflow'' name g of Some en \<Rightarrow> re_ref en | None \<Rightarrow> JNull) in
       JObj [(''name'', JStr name), (''source'', JStr source),
             (''hasInput'', JBool (truthy r \<and> truthy (getp r ''inputSchema''))),
             (''hasOutput'', JBool (truthy r \<and> truthy (getp r ''outputSchema'')))])"

definition workflow_list :: "globals \<Rightarrow> jsval" where
  "workflow_list g = JObj [(''workflows'', JArr (map (workflow_entry g) (reg_list ''workflow'' g)))]"

text \<open>One workflow of \<open>restartActive\<close>: the counts so far, or a TypeError for a nullish error.\<close>

definition restart_one ::
  "obj_env \<Rightarrow> (jsval \<Rightarrow> string) \<Rightarrow> (jsval \<Rightarrow> bool) \<Rightarrow> string \<times> ref_entry \<Rightarrow> nat \<times> jsval list \<Rightarrow> (nat \<times> jsval list) dm" where
  "restart_one env fmt restarts kv acc =
     (if starts_with ''workflow:'' (fst kv) \<and> truthy (re_ref (snd kv)) \<and> restarts (re_ref (snd kv)) then
        (let name = drop 9 (fst kv) in
         catch (bind (obj_do env (RestartAll name)) (\<lambda>_. ret (Suc (fst acc), snd acc)))
           (\<lambda>e. bind (prop_read e ''message'') (\<lambda>m.
              ret (fst acc, snd acc @ [JObj [(''workflow'', JStr name), (''error'', js_or m (JStr (js_string fmt e)))]]))))
      else ret acc)"

fun restart_all ::
  "obj_env \<Rightarrow> (jsval \<Rightarrow> string) \<Rightarrow> (jsval \<Rightarrow> bool) \<Rightarrow> (string \<times> ref_entry) list \<Rightarrow> nat \<times> jsval list \<Rightarrow> (nat \<times> jsval list) dm" where
  "restart_all env fmt restarts [] acc = ret acc"
| "restart_all env fmt restarts (kv # kvs) acc =
     bind (restart_one env fmt restarts kv acc) (restart_all env fmt restarts kvs)"

definition workflow_restartActive :: "obj_env \<Rightarrow> (jsval \<Rightarrow> string) \<Rightarrow> (jsval \<Rightarrow> bool) \<Rightarrow> jsval dm" where
  "workflow_restartActive env fmt restarts =
     bind (gets (refs \<circ> fst)) (\<lambda>rs. bind (restart_all env fmt restarts rs (0, [])) (\<lambda>acc.
       ret (JObj [(''restarted'', jint (int (fst acc))), (''errors'', JArr (snd acc))])))"

section \<open>Tools\<close>

text \<open>\<open>executable f\<close>: the registered object has a function of that name.\<close>

definition wrap_input :: "jsval \<Rightarrow> jsval" where
  "wrap_input input =
     (case input of
        JObj ps \<Rightarrow> JObj (dset ps ''context'' input)
      | JErr c m ps \<Rightarrow> JObj (dset ps ''context'' input)
      | v \<Rightarrow> JObj [(''context'', v)])"

definition tool_missing :: "string \<Rightarrow> jsval" where
  "tool_missing name = JErr PlainError (''tool not found in JS registry: '' @ name) []"

definition tools_execute :: "obj_env \<Rightarrow> (jsval \<Rightarrow> string \<Rightarrow> bool) \<Rightarrow> string \<Rightarrow> jsval \<Rightarrow> jsval dm" where
  "tools_execute env callable name input =
     bind (gets (\<lambda>s. reg_get ''tool'' name (fst s))) (\<lambda>entry.
       case entry of
         None \<Rightarrow> throw (tool_missing name)
       | Some e \<Rightarrow>
           if truthy (re_ref e) \<and> (callable (re_ref e) ''__brainkit_execute'' \<or> callable (re_ref e) ''execute'')
           then bind (obj_do env (ExecTool name (wrap_input input))) (\<lambda>result. ret (null_undefined result))
           else throw (tool_missing name))"

section \<open>Secrets, caches and storage\<close>

text \<open>
  \<open>refreshProvider\<close>: the new key is written into the provider's configuration object. An inherited
  entry is truthy too: the key is then written into the inherited object, which is reported.
\<close>

definition with_key :: "jsval \<Rightarrow> jsval \<Rightarrow> jsval" where
  "with_key pc key =
     (case pc of
        JObj ps \<Rightarrow> JObj (dset (dset ps ''APIKey'' key) ''apiKey'' key)
      | JErr c m ps \<Rightarrow> JErr c m (dset (dset ps ''APIKey'' key) ''apiKey'' key)
      | v \<Rightarrow> v)"

definition refreshProvider :: "string \<Rightarrow> jsval \<Rightarrow> caches \<Rightarrow> string option \<times> caches" where
  "refreshProvider provider apiKey c =
     (case dict_read (kit_providers c) provider of
        Own pc \<Rightarrow>
          (None, clearProviderCache provider
            (if truthy pc \<and> truthy apiKey
             then c\<lparr>kit_providers := dset (kit_providers c) provider (with_key pc apiKey)\<rparr> else c))
      | Inherited n \<Rightarrow> (if truthy apiKey then Some n else None, clearProviderCache provider c)
      | Missing \<Rightarrow> (None, clearProviderCache provider c))"

definition clearCache :: "string \<Rightarrow> string \<Rightarrow> caches \<Rightarrow> jsval \<times> caches" where
  "clearCache category name c =
     (case clearRegistryCache category name c of (b, c') \<Rightarrow>
       (JObj [(''cleared'', JBool b), (''category'', JStr category), (''name'', JStr name)], c'))"

text \<open>
  The storage chosen: \<open>default\<close> if it is listed, else the first one; an entry that is read while
  searching must not be nullish.
\<close>

fun has_default :: "jsval list \<Rightarrow> jsval + bool" where
  "has_default [] = Inr False"
| "has_default (e # es) =
     (case member e ''name'' of
        Inl err \<Rightarrow> Inl err
      | Inr n \<Rightarrow> if n = JStr ''default'' then Inr True else has_default es)"

definition upgrade_name :: "jsval list \<Rightarrow> jsval + jsval" where
  "upgrade_name entries =
     (case has_default entries of
        Inl err \<Rightarrow> Inl err
      | Inr True \<Rightarrow> Inr (JStr ''default'')
      | Inr False \<Rightarrow> Inr (case entries of [] \<Rightarrow> JNull | e # es \<Rightarrow> getp e ''name''))"

datatype upgraded = NotUpgraded | Upgraded string inst

definition storage_upgrade ::
  "host \<Rightarrow> (jsval \<Rightarrow> string) \<Rightarrow> (inst \<Rightarrow> jsval option) \<Rightarrow> upgraded rs" where
  "storage_upgrade h fmt init_fails =
     bind (on_host (registry_list h ''storage'')) (\<lambda>v.
       case v of
         JArr entries \<Rightarrow>
           bind (lift (upgrade_name entries)) (\<lambda>n.
             if \<not> truthy n then ret NotUpgraded
             else bind (resolveStorage h fmt (js_string fmt n)) (\<lambda>r.
               case r of
                 InheritedFunction f \<Rightarrow> throw (JErr TypeErr ''init is not a function'' [])
               | Instance i \<Rightarrow>
                   (case init_fails i of
                      Some e \<Rightarrow> throw e
                    | None \<Rightarrow> ret (Upgraded (js_string fmt n) i))))
       | _ \<Rightarrow> if nullish v then throw (JErr TypeErr ''cannot read property length'' []) else ret NotUpgraded)"

section \<open>Properties\<close>

lemma getWorkflow_cases:
  obtains e where "getWorkflow name s = (Inl e, s)" | w where "getWorkflow name s = (Inr w, s)"
proof -
  have "(\<exists>e. getWorkflow name s = (Inl e, s)) \<or> (\<exists>w. getWorkflow name s = (Inr w, s))"
    by (auto simp: getWorkflow_def js_defs split: option.split)
  then show thesis using that by blast
qed

text \<open>
  Remark: A workflow run is only resumed when it is suspended and only cancelled when it is not complete:
  unless the state read for the run says so, the command throws, and apart from reading that state it
  has made no call on the workflow and has changed nothing.
\<close>

theorem resume_cancel_guarded:
  "((\<exists>st. env l (GetRun name runId) = Inr st \<and> workflowStatus st = JStr ''suspended'')
    \<or> (\<exists>e l'. workflow_resume env fmt name runId resumeData step (g, l) = (Inl e, (g, l'))
         \<and> l' \<in> {l, l @ [GetRun name runId]}))
   \<and> ((\<exists>st. env l (GetRun name runId) = Inr st \<and> \<not> isTerminalWorkflowStatus (workflowStatus st))
    \<or> (\<exists>e l'. workflow_cancel env fmt name runId (g, l) = (Inl e, (g, l'))
         \<and> l' \<in> {l, l @ [GetRun name runId]}))"
proof (cases rule: getWorkflow_cases [of name "(g, l)"])
  case (1 e)
  then show ?thesis by (auto simp: workflow_resume_def workflow_cancel_def bind_def)
next
  case found: (2 wf)
    show ?thesis
    proof (cases "env l (GetRun name runId)")
      case (Inl e)
      then show ?thesis
        using found by (auto simp: workflow_resume_def workflow_cancel_def getWorkflowRunState_def obj_do_def bind_def)
    next
      case (Inr st)
      then show ?thesis
        using found
        by (cases "truthy st")
           (auto simp: workflow_resume_def workflow_cancel_def getWorkflowRunState_def obj_do_def js_defs Let_def
             isTerminalWorkflowStatus_def)
    qed
qed

definition completion_event :: "string \<Rightarrow> string \<Rightarrow> jsval \<Rightarrow> host_call \<Rightarrow> bool" where
  "completion_event runId name status c =
     (case c of
        Emit topic (Some t) \<Rightarrow> topic = completion_topic runId \<and> getp t ''runId'' = JStr runId
          \<and> getp t ''name'' = JStr name \<and> getp t ''status'' = status
      | _ \<Rightarrow> False)"

lemma emit_completion_run:
  assumes "never_throws h"
  shows "emit_completion h runId body g =
    (if has_bigint body then (Inl bigint_error, g)
     else (Inr (), g\<lparr>host_log := host_log g @ [Emit (completion_topic runId) (json_tree body)]\<rparr>))"
  using assms by (simp add: emit_completion_def stringify_def js_defs host_do_def never_throws_def)

text \<open>The rejections that cannot be reported: nullish ones, and those whose message or text does not print.\<close>

definition unreported :: "jsval \<Rightarrow> bool" where
  "unreported err \<longleftrightarrow> nullish err
     \<or> (if truthy (getp err ''message'') then has_bigint (getp err ''message'') else unconvertible err)"

lemma settle_steps:
  "bind (of_result (Inr a)) f = f a" "bind (of_result (Inl e)) f = throw e" "catch (throw e) k = k e"
  by (simp_all add: fun_eq_iff js_defs)

lemma failed_event:
  assumes "never_throws h"
  shows "let report = bind (of_result (member err ''message'')) (\<lambda>m.
       bind (of_result (failed_body fmt runId name err m)) (emit_completion h runId)) in
     if unreported err then snd (report g) = g
     else \<exists>ev. host_log (snd (report g)) = host_log g @ [ev] \<and> completion_event runId name (JStr ''failed'') ev"
proof (cases "nullish err")
  case True
  then show ?thesis by (simp add: unreported_def member_def js_defs)
next
  case False
  show ?thesis
  proof (cases "truthy (getp err ''message'')")
    case True
    then show ?thesis using False
      by (auto simp: unreported_def member_def js_defs emit_completion_run [OF assms] failed_body_def completion_event_def
          split: option.split)
  next
    case falsy: False
    show ?thesis
    proof (cases "unconvertible err")
      case True
      then have "js_convert fmt err = Inl conversion_error" using js_convert_cases [of err fmt] by simp
      then show ?thesis using False falsy True by (simp add: unreported_def member_def js_defs failed_body_def)
    next
      case ok: False
      then obtain t where "js_convert fmt err = Inr t" using js_convert_cases [of err fmt] by auto
      then show ?thesis using False falsy ok
        by (simp add: unreported_def member_def js_defs emit_completion_run [OF assms] failed_body_def completion_event_def)
    qed
  qed
qed

text \<open>
  C36. An asynchronous workflow start answers with the run's id after two calls, the creation and the start of the
  run, and the run is answered when it settles, as far as the host accepts the message: exactly one event is then
  emitted on the completion topic of that id, naming the run and the workflow. It carries the status of the result,
  or \<open>failed\<close> when the run was rejected, when its result is nullish and when it does not serialize. The one
  exception is a rejection with nothing to report, exactly \<open>null\<close>, \<open>undefined\<close>, an error whose message
  does not serialize or a value without message that cannot be converted to a string: then no event is emitted at all.
\<close>

theorem async_completion_emitted:
  assumes "never_throws h" and "workflow_startAsync env name input (g, l) = (Inr ans, (g', l'))"
    and "getp ans ''runId'' = JStr runId"
  shows "g' = g \<and> (\<exists>run. l' = l @ [CreateRun name JUndef, RunStart name run (JObj [(''inputData'', js_or input JNull)])])
    \<and> (let log = host_log (snd (workflow_settled h fmt runId name r g2));
           status = (case r of
             Inl err \<Rightarrow> JStr ''failed''
           | Inr result \<Rightarrow>
               if nullish result \<or> has_bigint (completed_body runId name result) then JStr ''failed''
               else case json_tree (js_or (getp result ''status'') (JStr ''unknown'')) of Some s \<Rightarrow> s | None \<Rightarrow> JUndef)
       in if (case r of Inl err \<Rightarrow> unreported err | Inr result \<Rightarrow> False) then log = host_log g2
          else \<exists>ev. log = host_log g2 @ [ev] \<and> completion_event runId name status ev)"
proof (intro conjI)
  show "g' = g" "\<exists>run. l' = l @ [CreateRun name JUndef, RunStart name run (JObj [(''inputData'', js_or input JNull)])]"
    using assms(2)
    by (auto simp: workflow_startAsync_def getWorkflow_def obj_do_def prop_read_def dlift_def js_defs
        split: option.splits sum.splits if_splits prod.splits)
  let ?report = "\<lambda>err. bind (of_result (member err ''message'')) (\<lambda>m.
       bind (of_result (failed_body fmt runId name err m)) (emit_completion h runId))"
  note report = failed_event [OF assms(1), of _ fmt runId name, unfolded Let_def]
  have type_error: "\<not> unreported (JErr TypeErr m [])" for m
    by (cases "m = []") (simp_all add: unreported_def)
  show "let log = host_log (snd (workflow_settled h fmt runId name r g2));
           status = (case r of
             Inl err \<Rightarrow> JStr ''failed''
           | Inr result \<Rightarrow>
               if nullish result \<or> has_bigint (completed_body runId name result) then JStr ''failed''
               else case json_tree (js_or (getp result ''status'') (JStr ''unknown'')) of Some s \<Rightarrow> s | None \<Rightarrow> JUndef)
       in if (case r of Inl err \<Rightarrow> unreported err | Inr result \<Rightarrow> False) then log = host_log g2
          else \<exists>ev. log = host_log g2 @ [ev] \<and> completion_event runId name status ev"
  proof (cases r)
    case (Inl err)
    then have "workflow_settled h fmt runId name r g2 = ?report err g2"
      by (simp add: workflow_settled_def catch_def throw_def)
    then show ?thesis using report [of err g2] Inl by (auto simp: Let_def split: if_splits)
  next
    case (Inr result)
    let ?b = "completed_body runId name result"
    have settled: "workflow_settled h fmt runId name r g2 =
        (if nullish result then ?report (JErr TypeErr ''cannot read property status'' []) g2
         else case emit_completion h runId ?b g2 of (Inl e, g3) \<Rightarrow> ?report e g3 | x \<Rightarrow> x)"
    proof (cases "nullish result")
      case True
      then show ?thesis using Inr by (simp add: workflow_settled_def settle_steps member_def [of result])
    next
      case False
      then show ?thesis
        using Inr by (simp add: workflow_settled_def settle_steps member_def [of result]) (simp add: catch_def)
    qed
    consider m where "workflow_settled h fmt runId name r g2 = ?report (JErr TypeErr m []) g2"
        "nullish result \<or> has_bigint ?b"
      | "workflow_settled h fmt runId name r g2 = (Inr (), g2\<lparr>host_log := host_log g2 @ [Emit (completion_topic runId) (json_tree ?b)]\<rparr>)"
        "\<not> nullish result" "\<not> has_bigint ?b"
    proof (cases "nullish result")
      case True
      with settled show ?thesis by (intro that(1)) simp_all
    next
      case live: False
      show ?thesis
      proof (cases "has_bigint ?b")
        case True
        then show ?thesis
          using settled live by (intro that(1)) (simp_all add: emit_completion_run [OF assms(1)] bigint_error_def)
      next
        case False
        then show ?thesis
          using settled live by (intro that(2)) (simp_all add: emit_completion_run [OF assms(1)])
      qed
    qed
    then show ?thesis
    proof cases
      case 1
      then show ?thesis using report [of "JErr TypeErr m []" g2] type_error [of m] Inr by (auto simp: Let_def)
    next
      case 2
      then show ?thesis using Inr
        by (simp add: Let_def) (simp add: completed_body_def completion_event_def split: option.split)
    qed
  qed
qed

theorem async_completion_emitted_witness:
  "\<exists>ev. host_log (snd (workflow_settled quiet_host (\<lambda>_. []) ''r1'' ''wf'' (Inr (JObj [(''status'', JStr ''success'')])) empty_globals)) = [ev]
     \<and> completion_event ''r1'' ''wf'' (JStr ''success'') ev"
proof -
  let ?env = "\<lambda>l c. Inr (JObj [(''runId'', JStr ''r1'')])"
  let ?g = "empty_globals\<lparr>refs := [(''workflow:wf'', \<lparr>re_ref = JObj [], re_source = [], re_name = ''wf''\<rparr>)]\<rparr>"
  obtain g' l' where "workflow_startAsync ?env ''wf'' JNull (?g, []) = (Inr (JObj [(''runId'', JStr ''r1'')]), (g', l'))"
    by (simp add: workflow_startAsync_def getWorkflow_def obj_do_def prop_read_def dlift_def js_defs member_def js_or_def)
  from async_completion_emitted [OF never_throws_quiet_host this, of "''r1''" "\<lambda>_. []" "Inr (JObj [(''status'', JStr ''success'')])" empty_globals]
  show ?thesis by (simp add: completed_body_def js_or_def null_undefined_def empty_globals_def Let_def)
qed

text \<open>A run that is rejected with nothing is never answered.\<close>

lemma silent_rejection: "snd (workflow_settled h fmt runId name (Inl JUndef) g) = g"
  by (simp add: workflow_settled_def member_def js_defs)

definition own_field :: "jsval \<Rightarrow> string \<Rightarrow> jsval" where
  "own_field v k = (case v of JObj ps \<Rightarrow> getp (JObj ps) k | JErr c m ps \<Rightarrow> getp (JObj ps) k | _ \<Rightarrow> JUndef)"

text \<open>
  Remark: A tool is executed with its whole input as \<open>context\<close>: \<open>tools.execute\<close> makes exactly one call,
  whose argument has the caller's input under \<open>context\<close> (even when the input has a field of that
  name) and every other own field of an object input as it was, or throws without any call when the
  registry has no executable tool of that name; and it never returns \<open>undefined\<close>.
\<close>

theorem tools_execute_context:
  "(case tools_execute env callable name input (g, l) of (r, (g', l')) \<Rightarrow>
      g' = g \<and> r \<noteq> Inr JUndef
      \<and> (l' = l \<and> r = Inl (tool_missing name)
         \<or> (\<exists>w. l' = l @ [ExecTool name w]
              \<and> (\<forall>k. getp w k = (if k = ''context'' then input else own_field input k)))))"
proof -
  have w: "getp (wrap_input input) k = (if k = ''context'' then input else own_field input k)" for k
    by (cases input) (auto simp: wrap_input_def own_field_def)
  show ?thesis
    using w by (auto simp: tools_execute_def js_defs obj_do_def null_undefined_def
        split: option.split sum.split prod.split)
qed

definition startup_type :: "jsval \<Rightarrow> string \<Rightarrow> jsval" where
  "startup_type pc name = js_or (js_or (getp pc ''type'') (getp pc ''Type'')) (JStr name)"

text \<open>
  Remark: A refreshed secret takes effect: when the host's registry has no entry for a provider, then after
  \<open>refreshProvider\<close> with a new key the next resolution of that provider builds a new instance, and
  builds it with the new key, whatever instance and key were in use before.
\<close>

theorem refreshed_key_used:
  assumes "never_throws h" and "answer h = (\<lambda>l c. NotJson [])" and "truthy key"
    and "dget (kit_providers c) name = Some (JObj ps)" and "name \<notin> set proto_names" and "name \<noteq> []"
    and "dict_read providerFactories (js_string fmt (startup_type (JObj ps) name)) = Own f"
    and "has_export f"
  shows "\<exists>i s'. resolveProvider h has_export fmt name (snd (refreshProvider name key c), g) = (Inr (Instance i), s')
     \<and> i_ctor i = f \<and> getp (i_opts i) ''apiKey'' = key"
proof -
  let ?pc = "JObj (dset (dset ps ''APIKey'' key) ''apiKey'' key)"
  let ?c = "snd (refreshProvider name key c)"
  have miss: "dget (provider_cache ?c) name = None" and kp: "dget (kit_providers ?c) name = Some ?pc"
    using assms(3-6)
    by (simp_all add: refreshProvider_def dict_read_def clearProviderCache_def cleared_def with_key_def)
  let ?st = "startup_type (JObj ps) name"
  let ?parsed = "JObj [(''type'', ?st), (''name'', JStr name), (''config'', ?pc)]"
  have st: "truthy ?st" using assms(6) by (simp add: startup_type_def js_or_def)
  have start: "startupProviderConfig name ?c = ?parsed"
    using kp by (simp add: startupProviderConfig_def dict_read_def startup_type_def)
  obtain g1 where config: "providerConfig h name (?c, g) = (Inr ?parsed, (?c, g1))"
    using assms(1,2) start
    by (simp add: providerConfig_def registryRuntimeResolve_def js_defs on_host_def host_text_def never_throws_def
        lift_def parse_config_def)
  have ptype: "providerType ?parsed name = ?st"
    using st by (simp add: providerType_def and_prop_def js_or_def)
  have build: "\<exists>i g'. buildProvider h has_export fmt name False (?c, g) = (Inr (Some i), (?c, g'))
      \<and> i_ctor i = f \<and> i_opts i = providerOptions ?pc"
    using assms(1,7,8)
    by (simp add: buildProvider_def bind_def config ptype make_def on_host_def host_ident_def never_throws_def ret_def
        js_or_def)
  have "getp (providerOptions ?pc) ''apiKey'' = key"
    using assms(3) by (simp add: getp_providerOptions option_table_def js_or_def)
  then show ?thesis
    using build
    by (auto simp: resolveProvider_def prov.cached_miss [OF _ assms(5)] miss built_provider_def bind_def ret_def)
qed

definition silent_host :: host where
  "silent_host = quiet_host\<lparr>answer := \<lambda>l c. NotJson []\<rparr>"

theorem refreshed_key_used_witness:
  "\<exists>i s'. resolveProvider silent_host (\<lambda>_. True) (\<lambda>_. []) ''openai''
      (snd (refreshProvider ''openai'' (JStr ''new'') (no_caches\<lparr>kit_providers := [(''openai'', JObj [(''APIKey'', JStr ''old'')])]\<rparr>)),
       empty_globals) = (Inr (Instance i), s')
     \<and> i_ctor i = ''createOpenAI'' \<and> getp (i_opts i) ''apiKey'' = JStr ''new''"
proof (rule refreshed_key_used)
  have t: "startup_type (JObj [(''APIKey'', JStr ''old'')]) ''openai'' = JStr ''openai''"
    by (simp add: startup_type_def js_or_def)
  show "dict_read providerFactories (js_string (\<lambda>_. []) (startup_type (JObj [(''APIKey'', JStr ''old'')]) ''openai''))
      = Own ''createOpenAI''"
    unfolding t by (simp add: dict_read_def providerFactories_def)
qed (simp_all add: silent_host_def quiet_host_def never_throws_def proto_names_def)

end
