(* ===== verification/Harness.thy ===== *)
theory Harness
  imports Bridges
begin

text \<open>
  \<open>kit_runtime.js\<close>, the harness: sanitising of events for the host, resolution of model ids, and the
  translation of a host configuration into the configuration of a \<open>Harness\<close> object, with the
  replacement of a running harness. Constructors, registered agents and tools belong to the embedded
  bundle and are parameters; an object they build is represented by its constructor and arguments.
\<close>

section \<open>Events\<close>

text \<open>\<open>shown\<close> prints BigInts; the depth counts the nesting levels already entered.\<close>

fun sanitizeHarnessValue :: "(jsval \<Rightarrow> string) \<Rightarrow> nat \<Rightarrow> jsval \<Rightarrow> jsval" where
  "sanitizeHarnessValue shown d (JErr c m ps) =
     (if d > 8 then JStr ''[MaxDepth]''
      else JObj [(''name'', js_or (getp (JErr c m ps) ''name'') (JStr (err_class_name c))),
                 (''message'', JStr m),
                 (''stack'', js_or (getp (JErr c m ps) ''stack'') (JStr []))])"
| "sanitizeHarnessValue shown d (JArr vs) =
     (if d > 8 then JStr ''[MaxDepth]'' else JArr (map (sanitizeHarnessValue shown (Suc d)) vs))"
| "sanitizeHarnessValue shown d (JObj ps) =
     (if d > 8 then JStr ''[MaxDepth]''
      else JObj (map (\<lambda>p. (fst p, sanitizeHarnessValue shown (Suc d) (snd p))) ps))"
| "sanitizeHarnessValue shown d (JBigInt i) =
     (if d > 8 then JStr ''[MaxDepth]'' else JStr (shown (JBigInt i)))"
| "sanitizeHarnessValue shown d v = (if d > 8 then JStr ''[MaxDepth]'' else v)"

definition empty_event :: jsval where
  "empty_event = JObj [(''type'', JStr ''error''), (''error'', JStr ''empty harness event'')]"

text \<open>\<open>out.error = \<dots>\<close> on an object keeps the property's place.\<close>

definition sanitizeHarnessEvent :: "(jsval \<Rightarrow> string) \<Rightarrow> jsval \<Rightarrow> jsval + jsval" where
  "sanitizeHarnessEvent shown event =
     (let out = sanitizeHarnessValue shown 0 (js_or event empty_event) in
      if truthy out \<and> is_object (getp out ''error'') then
        (case member (getp out ''error'') ''message'' of
           Inl e \<Rightarrow> Inl e
         | Inr m \<Rightarrow> if is_str m then
                      (case out of JObj ps \<Rightarrow> Inr (JObj (dset ps ''error'' m)) | v \<Rightarrow> Inr v)
                    else Inr out)
      else Inr out)"

definition harnessErrorMessage :: "(jsval \<Rightarrow> string) \<Rightarrow> jsval \<Rightarrow> string" where
  "harnessErrorMessage shown e =
     (if truthy e \<and> is_str (getp e ''message'') then js_string shown (getp e ''message'') else js_string shown e)"

definition failure_event :: "(jsval \<Rightarrow> string) \<Rightarrow> jsval \<Rightarrow> jsval" where
  "failure_event shown e =
     JObj [(''type'', JStr ''error''),
           (''error'', JStr (''harness event serialization failed: '' @ harnessErrorMessage shown e)),
           (''fatal'', JBool False)]"

text \<open>
  The subscription handler: what is sent over the bridge, in order. The first send may make the
  bridge throw, which is reported by a second send.
\<close>

definition harness_event :: "(jsval \<Rightarrow> string) \<Rightarrow> bool \<Rightarrow> (jsval option \<Rightarrow> jsval option) \<Rightarrow> jsval \<Rightarrow> jsval option list" where
  "harness_event shown has_bridge bridge_throws event =
     (if \<not> has_bridge then []
      else (case sanitizeHarnessEvent shown event of
              Inl e \<Rightarrow> [json_tree (failure_event shown e)]
            | Inr out \<Rightarrow>
                (case stringify out of
                   Inl e \<Rightarrow> [json_tree (failure_event shown e)]
                 | Inr t \<Rightarrow> (case bridge_throws t of
                              None \<Rightarrow> [t]
                            | Some e \<Rightarrow> [t, json_tree (failure_event shown e)]))))"

section \<open>Models\<close>

text \<open>The provider and model a harness model id stands for; \<open>None\<close> is \<open>undefined\<close>.\<close>

definition harness_model :: "jsval \<Rightarrow> (string \<times> string) option" where
  "harness_model modelId =
     (case modelId of
        JStr s \<Rightarrow> (if s = [] then None
                  else if CHR ''/'' \<in> set s then Some (before (CHR ''/'') s, after (CHR ''/'') s)
                  else Some (''openai'', s))
      | _ \<Rightarrow> None)"

section \<open>Configuration\<close>

record harness_env =
  he_has :: "string \<Rightarrow> bool"
  he_agent :: "jsval \<Rightarrow> jsval"
  he_tool :: "jsval \<Rightarrow> jsval + jsval"
  he_parse :: "string \<Rightarrow> jsval + jsval"
  he_locks :: bool
  he_shown :: "jsval \<Rightarrow> string"
  he_construct :: "jsval \<Rightarrow> jsval option"
  he_destroy :: "nat \<Rightarrow> jsval option"

text \<open>An object built by a constructor, or a closure of this module over a value.\<close>

definition built :: "string \<Rightarrow> jsval \<Rightarrow> jsval" where
  "built ctor arg = JObj [(''constructed by'', JStr ctor), (''from'', arg)]"

definition normalizeHarnessOMConfig :: "jsval \<Rightarrow> jsval" where
  "normalizeHarnessOMConfig om =
     (if \<not> truthy om \<or> \<not> is_object om then JUndef
      else (let observer = js_or (getp om ''defaultObserverModelId'') (getp om ''defaultObserverModel'');
                reflector = js_or (getp om ''defaultReflectorModelId'') (getp om ''defaultReflectorModel'');
                obsT = (if getp om ''defaultObservationThreshold'' \<noteq> JUndef
                        then getp om ''defaultObservationThreshold'' else getp om ''observationThreshold'');
                refT = (if getp om ''defaultReflectionThreshold'' \<noteq> JUndef
                        then getp om ''defaultReflectionThreshold'' else getp om ''reflectionThreshold'')
            in JObj ((if observer \<noteq> JUndef \<and> observer \<noteq> JStr [] then [(''defaultObserverModelId'', observer)] else [])
                   @ (if reflector \<noteq> JUndef \<and> reflector \<noteq> JStr [] then [(''defaultReflectorModelId'', reflector)] else [])
                   @ (if obsT \<noteq> JUndef \<and> obsT \<noteq> jint 0 then [(''defaultObservationThreshold'', obsT)] else [])
                   @ (if refT \<noteq> JUndef \<and> refT \<noteq> jint 0 then [(''defaultReflectionThreshold'', refT)] else []))))"

definition harness_error :: "string \<Rightarrow> jsval" where
  "harness_error m = JErr PlainError (''harness.createHarness: '' @ m) []"

text \<open>The own enumerable properties copied by \<open>for \<dots> in\<close>.\<close>

fun copied :: "jsval \<Rightarrow> (string \<times> jsval) list" where
  "copied (JObj ps) = ps"
| "copied (JErr c m ps) = ps"
| "copied v = []"

definition field :: "(string \<times> jsval) list \<Rightarrow> string \<Rightarrow> jsval" where
  "field ps k = getp (JObj ps) k"

definition buildHarnessTool :: "harness_env \<Rightarrow> jsval \<Rightarrow> jsval + jsval" where
  "buildHarnessTool env toolName =
     (case he_tool env toolName of
        Inl e \<Rightarrow> Inl e
      | Inr info \<Rightarrow>
          if \<not> truthy info then
            Inl (harness_error (''tool '' @ squote @ js_string (he_shown env) toolName @ squote @ '' is not registered''))
          else (let raw = getp info ''inputSchema'';
                    schema = (if truthy raw then
                                (case raw of
                                   JStr s \<Rightarrow> (case he_parse env s of Inl e \<Rightarrow> JNull | Inr v \<Rightarrow> v)
                                 | v \<Rightarrow> if is_object v then v else JNull)
                              else JNull)
                in Inr (built ''createTool''
                     (JObj [(''id'', js_or (getp info ''shortName'') toolName),
                            (''description'', js_or (getp info ''description'') (JStr [])),
                            (''inputSchema'', js_or schema (built ''z.any'' JUndef)),
                            (''execute'', built ''tools.call'' toolName)]))))"

definition harness_mode :: "harness_env \<Rightarrow> jsval \<Rightarrow> jsval + jsval" where
  "harness_mode env mode =
     (let next0 = copied mode;
          byName = \<not> truthy (field next0 ''agent'') \<and> truthy (field next0 ''agentName'');
          next1 = (if byName then dset next0 ''agent'' (he_agent env (field next0 ''agentName'')) else next0)
      in if byName \<and> \<not> truthy (field next1 ''agent'') then
           Inl (harness_error (''agent '' @ squote @ js_string (he_shown env) (field next0 ''agentName'') @ squote
                  @ '' is not registered''))
         else if \<not> truthy (field next1 ''agent'') then
           Inl (harness_error (''mode '' @ squote
                  @ js_string (he_shown env) (js_or (field next1 ''id'') (JStr ''?'')) @ squote @ '' has no agent''))
         else Inr (JObj (ddel next1 ''agentName'')))"

fun map_ok :: "(jsval \<Rightarrow> jsval + jsval) \<Rightarrow> jsval list \<Rightarrow> jsval + jsval list" where
  "map_ok f [] = Inr []"
| "map_ok f (v # vs) =
     (case f v of
        Inl e \<Rightarrow> Inl e
      | Inr w \<Rightarrow> (case map_ok f vs of Inl e \<Rightarrow> Inl e | Inr ws \<Rightarrow> Inr (w # ws)))"

definition harness_modes :: "harness_env \<Rightarrow> jsval \<Rightarrow> jsval + jsval list" where
  "harness_modes env cfg =
     (case js_or (getp cfg ''modes'') (JArr []) of
        JArr ms \<Rightarrow>
          (case map_ok (harness_mode env) ms of
             Inl e \<Rightarrow> Inl e
           | Inr [] \<Rightarrow> Inl (harness_error ''at least one mode is required'')
           | Inr modes \<Rightarrow> Inr modes)
      | _ \<Rightarrow> Inl (JErr TypeErr ''map is not a function'' []))"

fun tools_into :: "harness_env \<Rightarrow> jsval list \<Rightarrow> (string \<times> jsval) list \<Rightarrow> jsval + (string \<times> jsval) list" where
  "tools_into env [] acc = Inr acc"
| "tools_into env (n # ns) acc =
     (case buildHarnessTool env n of
        Inl e \<Rightarrow> Inl e
      | Inr t \<Rightarrow> tools_into env ns (dset acc (js_string (he_shown env) n) t))"

definition harness_tools :: "harness_env \<Rightarrow> jsval \<Rightarrow> (string \<times> jsval) list \<Rightarrow> jsval + (string \<times> jsval) list" where
  "harness_tools env cfg hc =
     (case getp cfg ''toolNames'' of
        JArr ns \<Rightarrow>
          (if \<not> truthy (field hc ''tools'') then
             (case tools_into env ns [] of
                Inl e \<Rightarrow> Inl e
              | Inr ts \<Rightarrow> Inr (ddel (dset hc ''tools'' (JObj ts)) ''toolNames''))
           else Inr (ddel hc ''toolNames''))
      | _ \<Rightarrow> Inr (ddel hc ''toolNames''))"

definition harness_subagent :: "harness_env \<Rightarrow> jsval \<Rightarrow> jsval" where
  "harness_subagent env sub =
     (let n0 = copied sub;
          n1 = (if \<not> truthy (field n0 ''name'') then dset n0 ''name'' (field n0 ''id'') else n0);
          n2 = (if \<not> truthy (field n1 ''description'')
                then dset n1 ''description'' (JStr (js_string (he_shown env)
                       (js_or (js_or (field n1 ''instructions'') (field n1 ''id'')) (JStr ''Harness subagent''))))
                else n1);
          n3 = (if \<not> truthy (field n2 ''allowedHarnessTools'') \<and> truthy (field n2 ''allowedTools'')
                then dset n2 ''allowedHarnessTools'' (field n2 ''allowedTools'') else n2)
      in JObj (ddel n3 ''allowedTools''))"

text \<open>Writing one entry of a sub-object of the permission rules; the sub-object must be there.\<close>

fun set_all :: "jsval \<Rightarrow> (string \<times> jsval) list \<Rightarrow> jsval + jsval" where
  "set_all v [] = Inr v"
| "set_all v (kv # kvs) =
     (if nullish v then Inl (JErr TypeErr ''cannot set property'' [])
      else (case v of
              JObj ps \<Rightarrow> set_all (JObj (dset ps (fst kv) (snd kv))) kvs
            | w \<Rightarrow> set_all w kvs))"

definition put_sub :: "(string \<times> jsval) list \<Rightarrow> string \<Rightarrow> jsval \<Rightarrow> (string \<times> jsval) list" where
  "put_sub ps k v = (if nullish v then ps else dset ps k v)"

definition with_permissions :: "harness_env \<Rightarrow> (string \<times> jsval) list \<Rightarrow> jsval + (string \<times> jsval) list" where
  "with_permissions env hc =
     (if truthy (field hc ''defaultPermissions'') \<or> truthy (field hc ''alwaysAllowTools'') then
        (let initial = js_or (field hc ''initialState'') (JObj []);
             rules = js_or (getp initial ''permissionRules'')
                       (JObj [(''categories'', JObj []), (''tools'', JObj [])]);
             allowed = (case field hc ''alwaysAllowTools'' of
                          JArr ns \<Rightarrow> map (\<lambda>n. (js_string (he_shown env) n, JStr ''allow'')) ns | _ \<Rightarrow> [])
         in case set_all (getp rules ''categories'') (copied (field hc ''defaultPermissions'')) of
              Inl e \<Rightarrow> Inl e
            | Inr cats \<Rightarrow>
                (case set_all (getp rules ''tools'') allowed of
                   Inl e \<Rightarrow> Inl e
                 | Inr ts \<Rightarrow>
                     (let rules' = JObj (put_sub (put_sub (copied rules) ''categories'' cats) ''tools'' ts);
                          initial' = JObj (dset (copied initial) ''permissionRules'' rules')
                      in Inr (ddel (ddel (dset hc ''initialState'' initial') ''defaultPermissions'') ''alwaysAllowTools''))))
      else Inr hc)"

definition with_defaults :: "harness_env \<Rightarrow> jsval \<Rightarrow> (string \<times> jsval) list \<Rightarrow> (string \<times> jsval) list" where
  "with_defaults env cfg hc0 =
     (let hc1 = (case getp cfg ''subagents'' of
                   JArr ss \<Rightarrow> dset hc0 ''subagents'' (JArr (map (harness_subagent env) ss)) | _ \<Rightarrow> hc0);
          om = normalizeHarnessOMConfig (getp cfg ''omConfig'');
          hc2 = (if truthy om then dset hc1 ''omConfig'' om else hc1);
          hc3 = (if \<not> truthy (field hc2 ''resolveModel'') then dset hc2 ''resolveModel'' (built ''resolveHarnessModel'' JUndef) else hc2);
          hc4 = (if \<not> truthy (field hc3 ''threadLock'') \<and> he_locks env
                 then dset hc3 ''threadLock'' (built ''threadLock'' JUndef) else hc3)
      in if truthy (field hc4 ''toolCategories'') \<and> \<not> truthy (field hc4 ''toolCategoryResolver'')
         then ddel (dset hc4 ''toolCategoryResolver'' (built ''toolCategoryResolver'' (field hc4 ''toolCategories''))) ''toolCategories''
         else hc4)"

definition with_workspace :: "harness_env \<Rightarrow> (string \<times> jsval) list \<Rightarrow> (string \<times> jsval) list" where
  "with_workspace env hc =
     (let ws = field hc ''workspace''; hid = js_string (he_shown env) (field hc ''id'') in
      if truthy ws \<and> truthy (getp ws ''rootDir'') \<and> he_has env ''Workspace'' \<and> he_has env ''LocalFilesystem''
      then dset hc ''workspace'' (built ''Workspace''
             (JObj [(''id'', js_or (getp ws ''id'') (JStr (hid @ ''-workspace''))),
                    (''name'', js_or (js_or (getp ws ''name'') (getp ws ''id'')) (JStr (hid @ '' workspace''))),
                    (''filesystem'', built ''LocalFilesystem'' (JObj [(''basePath'', getp ws ''rootDir'')]))]))
      else hc)"

text \<open>The configuration handed to the constructor, or the error thrown while preparing it.\<close>

definition harness_config :: "harness_env \<Rightarrow> jsval \<Rightarrow> jsval + jsval" where
  "harness_config env cfg =
     (let storage = js_or (getp cfg ''storage'') (built ''InMemoryStore'' JUndef);
          memory = js_or (getp cfg ''memory'') (built ''Memory''
                     (JObj [(''storage'', storage), (''options'', JObj [(''lastMessages'', jint 10)])]))
      in case harness_modes env cfg of
           Inl e \<Rightarrow> Inl e
         | Inr modes \<Rightarrow>
             (let hc = dset (dset (dset (copied cfg) ''storage'' storage) ''memory'' memory) ''modes'' (JArr modes) in
              case harness_tools env cfg hc of
                Inl e \<Rightarrow> Inl e
              | Inr hc1 \<Rightarrow>
                  (case with_permissions env (with_defaults env cfg hc1) of
                     Inl e \<Rightarrow> Inl e
                   | Inr hc2 \<Rightarrow> Inr (JObj (with_workspace env hc2)))))"

section \<open>Replacing the running harness\<close>

datatype harness_call = HConstruct nat jsval | HUnsubscribe nat | HDestroy nat

record harness_state =
  hs_current :: "nat option"
  hs_unsubscribe :: "nat option"
  hs_next :: nat
  hs_log :: "harness_call list"

type_synonym 'a hm = "(jsval, harness_state, 'a) comp"

text \<open>A failing \<open>unsubscribe\<close> is ignored; a failing \<open>destroy\<close> leaves the harness in place.\<close>

definition destroyHarness :: "harness_env \<Rightarrow> jsval hm" where
  "destroyHarness env =
     bind (gets hs_unsubscribe) (\<lambda>u.
       seq (modify (\<lambda>s. s\<lparr>hs_unsubscribe := None,
              hs_log := hs_log s @ (case u of Some n \<Rightarrow> [HUnsubscribe n] | None \<Rightarrow> [])\<rparr>))
        (bind (gets hs_current) (\<lambda>cur.
          seq (case cur of
                 None \<Rightarrow> ret ()
               | Some n \<Rightarrow> seq (modify (\<lambda>s. s\<lparr>hs_log := hs_log s @ [HDestroy n]\<rparr>))
                             (case he_destroy env n of Some e \<Rightarrow> throw e | None \<Rightarrow> ret ()))
           (seq (modify (\<lambda>s. s\<lparr>hs_current := None\<rparr>)) (ret (JObj [(''ok'', JBool True)]))))))"

definition parse_raw_config :: "harness_env \<Rightarrow> jsval \<Rightarrow> jsval + jsval" where
  "parse_raw_config env raw = (case raw of JStr s \<Rightarrow> he_parse env s | v \<Rightarrow> Inr (js_or v (JObj [])))"

definition createHarness :: "harness_env \<Rightarrow> jsval \<Rightarrow> jsval hm" where
  "createHarness env raw =
     (if \<not> he_has env ''Harness'' then throw (harness_error ''Harness export is unavailable'')
      else (case parse_raw_config env raw of
        Inl e \<Rightarrow> throw e
      | Inr cfg \<Rightarrow>
          if nullish cfg then throw (JErr TypeErr ''cannot read property storage'' [])
          else (case harness_config env cfg of
            Inl e \<Rightarrow> throw e
          | Inr config \<Rightarrow>
              seq (bind (gets hs_current) (\<lambda>cur.
                     case cur of None \<Rightarrow> ret () | Some n \<Rightarrow> bind (destroyHarness env) (\<lambda>_. ret ())))
               (bind (gets hs_next) (\<lambda>n.
                 seq (modify (\<lambda>s. s\<lparr>hs_next := Suc n, hs_log := hs_log s @ [HConstruct n config]\<rparr>))
                  (case he_construct env config of
                     Some e \<Rightarrow> throw e
                   | None \<Rightarrow>
                       seq (modify (\<lambda>s. s\<lparr>hs_current := Some n, hs_unsubscribe := Some n\<rparr>))
                        (ret (JObj [(''ok'', JBool True), (''id'', js_or (getp cfg ''id'') (JStr []))]))))))))"

section \<open>Properties of events\<close>

fun depth :: "jsval \<Rightarrow> nat" where
  "depth (JArr vs) = Suc (foldr (\<lambda>v n. max (depth v) n) vs 0)"
| "depth (JObj ps) = Suc (foldr (\<lambda>p n. max (depth (snd p)) n) ps 0)"
| "depth (JErr c m ps) = Suc (foldr (\<lambda>p n. max (depth (snd p)) n) ps 0)"
| "depth v = 0"

lemma foldr_max: "foldr (\<lambda>v. max (f v)) vs (0::nat) \<le> k \<longleftrightarrow> (\<forall>v \<in> set vs. f v \<le> k)"
  by (induction vs) auto

text \<open>Error objects whose own name and stack are strings, as the engine makes them.\<close>

fun plain_errors :: "jsval \<Rightarrow> bool" where
  "plain_errors (JErr c m ps) =
     ((is_str (getp (JErr c m ps) ''name'') \<or> getp (JErr c m ps) ''name'' = JUndef)
      \<and> (is_str (getp (JErr c m ps) ''stack'') \<or> getp (JErr c m ps) ''stack'' = JUndef))"
| "plain_errors (JArr vs) = list_all plain_errors vs"
| "plain_errors (JObj ps) = list_all (\<lambda>p. plain_errors (snd p)) ps"
| "plain_errors v = True"

lemma sanitize_shape:
  assumes "plain_errors v"
  shows "depth (sanitizeHarnessValue shown d v) \<le> 9 - d
    \<and> \<not> has_bigint (sanitizeHarnessValue shown d v)"
  using assms
proof (induction shown d v rule: sanitizeHarnessValue.induct)
  case (1 shown d c m ps)
  then show ?case by (auto simp: js_or_def elim!: is_str.elims)
next
  case (2 shown d vs)
  show ?case
  proof (cases "d > 8")
    case False
    then have "\<forall>v \<in> set vs. depth (sanitizeHarnessValue shown (Suc d) v) \<le> 8 - d
        \<and> \<not> has_bigint (sanitizeHarnessValue shown (Suc d) v)"
      using 2 by (auto simp: list_all_iff)
    moreover from this have "foldr (\<lambda>v. max (depth (sanitizeHarnessValue shown (Suc d) v))) vs 0 \<le> 8 - d"
      by (simp add: foldr_max)
    ultimately show ?thesis using False by (auto simp: foldr_map o_def list_ex_iff)
  qed simp
next
  case (3 shown d ps)
  show ?case
  proof (cases "d > 8")
    case False
    then have "\<forall>p \<in> set ps. depth (sanitizeHarnessValue shown (Suc d) (snd p)) \<le> 8 - d
        \<and> \<not> has_bigint (sanitizeHarnessValue shown (Suc d) (snd p))"
      using 3 by (auto simp: list_all_iff)
    moreover from this have "foldr (\<lambda>p. max (depth (sanitizeHarnessValue shown (Suc d) (snd p)))) ps 0 \<le> 8 - d"
      by (simp add: foldr_max)
    ultimately show ?thesis using False by (auto simp: foldr_map o_def list_ex_iff)
  qed simp
qed auto

lemma has_bigint_getp: "\<not> has_bigint v \<Longrightarrow> \<not> has_bigint (getp v k)"
proof -
  have *: "list_ex (\<lambda>p. has_bigint (snd p)) ps = False \<Longrightarrow> dget ps k = Some x \<Longrightarrow> \<not> has_bigint x" for ps x
    using dget_Some_mem [of ps k x] by (auto simp: list_ex_iff)
  show "\<not> has_bigint v \<Longrightarrow> \<not> has_bigint (getp v k)"
    by (cases v) (auto split: option.split dest: * [rotated])
qed

lemma has_bigint_dset: "\<not> has_bigint (JObj ps) \<Longrightarrow> \<not> has_bigint v \<Longrightarrow> \<not> has_bigint (JObj (dset ps k v))"
  by (induction ps k v rule: dset.induct) auto

lemma event_no_bigint:
  "plain_errors event \<Longrightarrow> sanitizeHarnessEvent shown event = Inr out \<Longrightarrow> \<not> has_bigint out"
proof -
  assume p: "plain_errors event" and out: "sanitizeHarnessEvent shown event = Inr out"
  have "plain_errors (js_or event empty_event)" using p by (simp add: js_or_def empty_event_def)
  then have n: "\<not> has_bigint (sanitizeHarnessValue shown 0 (js_or event empty_event))" (is "\<not> has_bigint ?v")
    using sanitize_shape by blast
  note m = has_bigint_getp [OF has_bigint_getp [OF n, of "''error''"], of "''message''"]
  have "out = ?v \<or> (\<exists>ps. ?v = JObj ps \<and> out = JObj (dset ps ''error'' (getp (getp ?v ''error'') ''message'')))"
    using out by (auto simp: sanitizeHarnessEvent_def Let_def member_def
        simp del: getp.simps split: if_splits sum.splits jsval.splits)
  then show ?thesis
  proof
    assume "\<exists>ps. ?v = JObj ps \<and> out = JObj (dset ps ''error'' (getp (getp ?v ''error'') ''message''))"
    then obtain ps where ps: "?v = JObj ps" "out = JObj (dset ps ''error'' (getp (getp ?v ''error'') ''message''))"
      by blast
    show ?thesis unfolding ps(2) using n m ps(1) by (intro has_bigint_dset) simp_all
  qed (use n in simp)
qed

lemma depth_dset: "depth v = 0 \<Longrightarrow> depth (JObj (dset ps k v)) \<le> depth (JObj ps)"
  by (induction ps k v rule: dset.induct) auto

lemma depth_json:
  "json_tree v = Some w \<Longrightarrow> depth w \<le> depth v"
  "foldr (\<lambda>p n. max (depth (snd p)) n) (json_members ps) 0 \<le> foldr (\<lambda>p n. max (depth (snd p)) n) ps 0"
proof (induction v and ps arbitrary: w rule: json_tree_json_members.induct)
  case (7 vs)
  have "depth (case json_tree v of None \<Rightarrow> JNull | Some t \<Rightarrow> t) \<le> depth v" if "v \<in> set vs" for v
    using 7 that by (auto split: option.split)
  moreover have "depth v \<le> foldr (\<lambda>v n. max (depth v) n) vs 0" if "v \<in> set vs" for v
    using that foldr_max [of depth vs "foldr (\<lambda>v n. max (depth v) n) vs 0"] by simp
  ultimately have "foldr (\<lambda>v. max (depth (case json_tree v of None \<Rightarrow> JNull | Some t \<Rightarrow> t))) vs 0 \<le> foldr (\<lambda>v n. max (depth v) n) vs 0"
    unfolding foldr_max by (meson order_trans)
  with 7 show ?case by (auto simp: foldr_map o_def)
qed (auto split: jsnum.splits option.splits simp: max.coboundedI2 le_max_iff_disj)

text \<open>Events that are sent as they are: no errors, no BigInts, and nothing below eight levels.\<close>

fun plain :: "jsval \<Rightarrow> bool" where
  "plain (JErr c m ps) = False"
| "plain (JBigInt i) = False"
| "plain (JArr vs) = list_all plain vs"
| "plain (JObj ps) = list_all (\<lambda>p. plain (snd p)) ps"
| "plain v = True"

lemma plain_no_bigint: "plain v \<Longrightarrow> \<not> has_bigint v"
  by (induction v rule: plain.induct) (auto simp: list_all_iff list_ex_iff)

lemma sanitize_plain: "plain v \<Longrightarrow> d + depth v \<le> 8 \<Longrightarrow> sanitizeHarnessValue shown d v = v"
proof (induction shown d v rule: sanitizeHarnessValue.induct)
  case (2 shown d vs)
  have "depth v \<le> foldr (\<lambda>v n. max (depth v) n) vs 0" if "v \<in> set vs" for v
    using that foldr_max [of depth vs "foldr (\<lambda>v n. max (depth v) n) vs 0"] by simp
  then have "Suc d + depth v \<le> 8" if "v \<in> set vs" for v using 2(3) that by fastforce
  then have "sanitizeHarnessValue shown (Suc d) v = v" if "v \<in> set vs" for v
    using 2(1) [of v] 2(2,3) that by (simp add: list_all_iff)
  then show ?case using 2(3) by (simp add: map_idI)
next
  case (3 shown d ps)
  have "depth (snd p) \<le> foldr (\<lambda>p n. max (depth (snd p)) n) ps 0" if "p \<in> set ps" for p
    using that foldr_max [of "\<lambda>p. depth (snd p)" ps "foldr (\<lambda>p n. max (depth (snd p)) n) ps 0"] by simp
  then have "Suc d + depth (snd p) \<le> 8" if "p \<in> set ps" for p using 3(3) that by fastforce
  then have "sanitizeHarnessValue shown (Suc d) (snd p) = snd p" if "p \<in> set ps" for p
    using 3(1) [of p] 3(2,3) that by (simp add: list_all_iff)
  then show ?case using 3(3) by (simp add: map_idI)
qed auto

lemma sanitized_depth:
  assumes "plain_errors event" "sanitizeHarnessEvent shown event = Inr out"
  shows "depth out \<le> 9"
proof -
  let ?v = "sanitizeHarnessValue shown 0 (js_or event empty_event)"
  have "plain_errors (js_or event empty_event)" using assms(1) by (simp add: js_or_def empty_event_def)
  then have v: "depth ?v \<le> 9" using sanitize_shape [of _ shown 0] by force
  have "out = ?v \<or> (\<exists>ps m. ?v = JObj ps \<and> out = JObj (dset ps ''error'' m) \<and> is_str m)"
    using assms(2) by (auto simp: sanitizeHarnessEvent_def Let_def member_def
        simp del: getp.simps split: if_splits sum.splits jsval.splits)
  then show ?thesis
  proof
    assume "\<exists>ps m. ?v = JObj ps \<and> out = JObj (dset ps ''error'' m) \<and> is_str m"
    then obtain ps m where "?v = JObj ps" "out = JObj (dset ps ''error'' m)" "is_str m" by blast
    moreover from this have "depth m = 0" by (cases m) simp_all
    ultimately show ?thesis using v depth_dset [of m ps "''error''"] by simp
  qed (use v in simp)
qed

lemma sanitized_error_null:
  "getp (sanitizeHarnessValue shown 0 v) ''error'' = JNull \<Longrightarrow> getp v ''error'' = JNull"
proof (cases v)
  case (JObj ps)
  have "dget (map (\<lambda>p. (fst p, f (snd p))) ps) k = map_option f (dget ps k)" for f :: "jsval \<Rightarrow> jsval" and k
    by (induction ps) auto
  moreover have "x = JNull" if "sanitizeHarnessValue shown (Suc 0) x = JNull" for x
    using that by (cases x) auto
  moreover assume "getp (sanitizeHarnessValue shown 0 v) ''error'' = JNull"
  ultimately show ?thesis using JObj by (auto split: option.splits)
qed (auto split: if_splits)

text \<open>
  C37. An event of the harness reaches a bridge that does not throw as exactly one message. An event without errors
  and BigInts, nested at most eight levels deep and whose \<open>error\<close> is no object, is sent as it is. Every other event is
  sent in its sanitised form, unless that fails or does not print: then the notice of the failure is sent
  instead. It fails only when the event's \<open>error\<close> is \<open>null\<close>. When the error objects of the event, at any depth, have
  no name or stack of their own or ones that are strings, the sanitised form prints and the message is nested at most
  nine levels deep. An event for which the language prints nothing, a function say, is passed on as \<open>undefined\<close>.
\<close>

theorem harness_event_sent:
  "\<exists>t. harness_event shown True (\<lambda>_. None) event = [t]
    \<and> (truthy event \<and> plain event \<and> depth event \<le> 8 \<and> \<not> is_object (getp event ''error'') \<longrightarrow> t = json_tree event)
    \<and> (case sanitizeHarnessEvent shown event of
         Inr out \<Rightarrow> t = (if has_bigint out then json_tree (failure_event shown bigint_error) else json_tree out)
       | Inl e \<Rightarrow> getp event ''error'' = JNull \<and> t = json_tree (failure_event shown e))
    \<and> (plain_errors event \<longrightarrow> (\<forall>out. sanitizeHarnessEvent shown event = Inr out \<longrightarrow> \<not> has_bigint out)
         \<and> (\<forall>w. t = Some w \<longrightarrow> depth w \<le> 9))"
proof -
  let ?v = "sanitizeHarnessValue shown 0 (js_or event empty_event)"
  obtain t where t: "harness_event shown True (\<lambda>_. None) event = [t]"
    and sent: "case sanitizeHarnessEvent shown event of
         Inr out \<Rightarrow> t = (if has_bigint out then json_tree (failure_event shown bigint_error) else json_tree out)
       | Inl e \<Rightarrow> t = json_tree (failure_event shown e)"
  proof (cases "sanitizeHarnessEvent shown event")
    case (Inl e)
    then show ?thesis by (intro that) (simp_all add: harness_event_def)
  next
    case (Inr out)
    then show ?thesis by (intro that) (auto simp: harness_event_def stringify_def)
  qed
  have notice: "depth w \<le> 9" if "json_tree (failure_event shown e) = Some w" for e w
    using that by (auto simp: failure_event_def)
  have null: "getp event ''error'' = JNull" if "sanitizeHarnessEvent shown event = Inl e" for e
  proof -
    have "is_object (getp ?v ''error'') \<and> nullish (getp ?v ''error'')"
      using that by (auto simp: sanitizeHarnessEvent_def Let_def member_def split: if_splits sum.splits jsval.splits)
    then have "getp ?v ''error'' = JNull" by (cases "getp ?v ''error''") auto
    then have "getp (js_or event empty_event) ''error'' = JNull" by (rule sanitized_error_null)
    then show ?thesis by (auto simp: js_or_def empty_event_def split: if_splits)
  qed
  have same: "t = json_tree event"
    if "truthy event" "plain event" "depth event \<le> 8" "\<not> is_object (getp event ''error'')"
  proof -
    have "sanitizeHarnessEvent shown event = Inr event"
      using that sanitize_plain [of event 0 shown] by (simp add: sanitizeHarnessEvent_def js_or_def)
    then show ?thesis using sent plain_no_bigint [OF that(2)] by simp
  qed
  have deep: "depth w \<le> 9" if "plain_errors event" "t = Some w" for w
  proof (cases "sanitizeHarnessEvent shown event")
    case (Inl e)
    then show ?thesis using sent that(2) notice by simp
  next
    case (Inr out)
    then have "json_tree out = Some w" using sent that event_no_bigint [OF that(1)] by simp
    then show ?thesis using depth_json(1) sanitized_depth [OF that(1) Inr] by (meson order_trans)
  qed
  show ?thesis
    using t sent null same deep event_no_bigint [of event shown]
    by (intro exI [of _ t]) (auto split: sum.splits)
qed

theorem harness_event_sent_witness:
  "harness_event (\<lambda>_. ''7'') True (\<lambda>_. None) (JObj [(''n'', JBigInt 7), (''error'', JErr PlainError ''boom'' [])])
     = [Some (JObj [(''n'', JStr ''7''), (''error'', JStr ''boom'')])]"
proof -
  let ?e = "JObj [(''n'', JBigInt 7), (''error'', JErr PlainError ''boom'' [])]"
  have s: "sanitizeHarnessEvent (\<lambda>_. ''7'') ?e = Inr (JObj [(''n'', JStr ''7''), (''error'', JStr ''boom'')])"
    by (simp add: sanitizeHarnessEvent_def js_or_def err_class_name_def member_def)
  show ?thesis
    using harness_event_sent [of "\<lambda>_. ''7''" ?e] s by auto
qed

section \<open>Properties of the configuration\<close>

lemma field_dset [simp]: "field (dset ps k v) j = (if j = k then v else field ps j)"
  by (simp add: field_def)

lemma field_ddel [simp]: "field (ddel ps k) j = (if j = k then JUndef else field ps j)"
  by (simp add: field_def)

lemma field_workspace:
  "k \<noteq> ''workspace'' \<Longrightarrow> field (with_workspace env hc) k = field hc k"
  by (simp add: with_workspace_def Let_def)

text \<open>
  What the configuration has to be, key by key, written without the definitions that build it. A mode keeps its fields
  and has its agent; a tool is built from the registered one of its name.
\<close>

definition mode_ready :: "harness_env \<Rightarrow> jsval \<Rightarrow> jsval \<Rightarrow> bool" where
  "mode_ready env m m' \<longleftrightarrow> truthy (getp m' ''agent'')
     \<and> (\<forall>k. getp m' k =
          (if k = ''agentName'' then JUndef
           else if k = ''agent'' \<and> \<not> truthy (field (copied m) ''agent'') then he_agent env (field (copied m) ''agentName'')
           else field (copied m) k))"

definition tool_ready :: "harness_env \<Rightarrow> jsval \<Rightarrow> jsval \<Rightarrow> bool" where
  "tool_ready env n t \<longleftrightarrow> (\<exists>info arg. he_tool env n = Inr info \<and> truthy info \<and> t = built ''createTool'' arg
     \<and> getp arg ''id'' = js_or (getp info ''shortName'') n
     \<and> getp arg ''description'' = js_or (getp info ''description'') (JStr [])
     \<and> truthy (getp arg ''inputSchema'')
     \<and> (truthy (getp info ''inputSchema'') \<and> is_object (getp info ''inputSchema'')
          \<longrightarrow> getp arg ''inputSchema'' = getp info ''inputSchema'')
     \<and> getp arg ''execute'' = built ''tools.call'' n)"

definition tools_ready :: "harness_env \<Rightarrow> jsval \<Rightarrow> jsval \<Rightarrow> bool" where
  "tools_ready env cfg config \<longleftrightarrow> getp config ''toolNames'' = JUndef
     \<and> (case getp cfg ''toolNames'' of
          JArr ns \<Rightarrow>
            if truthy (getp cfg ''tools'') then getp config ''tools'' = getp cfg ''tools''
            else (\<exists>ts. getp config ''tools'' = JObj ts
                \<and> set (dkeys ts) = js_string (he_shown env) ` set ns
                \<and> (\<forall>k\<in>set (dkeys ts). \<exists>n\<in>set ns. js_string (he_shown env) n = k \<and> tool_ready env n (getp (JObj ts) k)))
        | _ \<Rightarrow> getp config ''tools'' = getp cfg ''tools'')"

definition defaults_ready :: "harness_env \<Rightarrow> jsval \<Rightarrow> jsval \<Rightarrow> bool" where
  "defaults_ready env cfg config \<longleftrightarrow>
     getp config ''storage'' = (if truthy (getp cfg ''storage'') then getp cfg ''storage'' else built ''InMemoryStore'' JUndef)
     \<and> getp config ''memory'' = (if truthy (getp cfg ''memory'') then getp cfg ''memory''
          else built ''Memory'' (JObj [(''storage'', getp config ''storage''), (''options'', JObj [(''lastMessages'', jint 10)])]))
     \<and> getp config ''resolveModel'' =
          (if truthy (getp cfg ''resolveModel'') then getp cfg ''resolveModel'' else built ''resolveHarnessModel'' JUndef)
     \<and> getp config ''threadLock'' =
          (if truthy (getp cfg ''threadLock'') \<or> \<not> he_locks env then getp cfg ''threadLock'' else built ''threadLock'' JUndef)
     \<and> (let cats = getp cfg ''toolCategories''; resolver = getp cfg ''toolCategoryResolver'' in
          if truthy cats \<and> \<not> truthy resolver
          then getp config ''toolCategoryResolver'' = built ''toolCategoryResolver'' cats \<and> getp config ''toolCategories'' = JUndef
          else getp config ''toolCategoryResolver'' = resolver \<and> getp config ''toolCategories'' = cats)"

text \<open>The rules that a sub-object of the permission rules has after the shorthands were written into it.\<close>

definition rules_before :: "jsval \<Rightarrow> jsval" where
  "rules_before cfg = js_or (getp (js_or (getp cfg ''initialState'') (JObj [])) ''permissionRules'')
     (JObj [(''categories'', JObj []), (''tools'', JObj [])])"

definition always_allowed :: "harness_env \<Rightarrow> jsval \<Rightarrow> (string \<times> jsval) list" where
  "always_allowed env cfg = (case getp cfg ''alwaysAllowTools'' of
     JArr ns \<Rightarrow> map (\<lambda>n. (js_string (he_shown env) n, JStr ''allow'')) ns | _ \<Rightarrow> [])"

definition overwritten :: "jsval \<Rightarrow> (string \<times> jsval) list \<Rightarrow> jsval \<Rightarrow> bool" where
  "overwritten old kvs new \<longleftrightarrow> (\<forall>ps. old = JObj ps \<longrightarrow>
     (\<forall>k. getp new k = (case map_of (rev kvs) k of Some v \<Rightarrow> v | None \<Rightarrow> getp old k)))"

definition permissions_ready :: "harness_env \<Rightarrow> jsval \<Rightarrow> jsval \<Rightarrow> bool" where
  "permissions_ready env cfg config \<longleftrightarrow>
     (if truthy (getp cfg ''defaultPermissions'') \<or> truthy (getp cfg ''alwaysAllowTools'')
      then getp config ''defaultPermissions'' = JUndef \<and> getp config ''alwaysAllowTools'' = JUndef
        \<and> (let rules = getp (getp config ''initialState'') ''permissionRules'' in
             overwritten (getp (rules_before cfg) ''categories'') (copied (getp cfg ''defaultPermissions'')) (getp rules ''categories'')
             \<and> overwritten (getp (rules_before cfg) ''tools'') (always_allowed env cfg) (getp rules ''tools'')
             \<and> (\<forall>k. k \<noteq> ''categories'' \<and> k \<noteq> ''tools'' \<longrightarrow> getp rules k = field (copied (rules_before cfg)) k))
        \<and> (\<forall>k. k \<noteq> ''permissionRules'' \<longrightarrow>
             getp (getp config ''initialState'') k = field (copied (getp cfg ''initialState'')) k)
      else getp config ''initialState'' = getp cfg ''initialState''
        \<and> getp config ''defaultPermissions'' = getp cfg ''defaultPermissions''
        \<and> getp config ''alwaysAllowTools'' = getp cfg ''alwaysAllowTools'')"

lemma harness_mode_ready: "harness_mode env m = Inr m' \<Longrightarrow> mode_ready env m m'"
  by (auto simp: harness_mode_def Let_def field_def mode_ready_def split: if_splits option.splits)

lemma map_ok_list_all2:
  "(\<And>v w. f v = Inr w \<Longrightarrow> P v w) \<Longrightarrow> map_ok f vs = Inr ws \<Longrightarrow> list_all2 P vs ws"
  by (induction vs arbitrary: ws) (auto split: sum.splits)

lemma build_tool_ready: "buildHarnessTool env n = Inr t \<Longrightarrow> tool_ready env n t"
proof -
  assume t: "buildHarnessTool env n = Inr t"
  from t obtain info where info: "he_tool env n = Inr info" "truthy info"
    by (auto simp: buildHarnessTool_def Let_def split: sum.splits if_splits)
  let ?raw = "getp info ''inputSchema''"
  define schema where "schema = (if truthy ?raw then (case ?raw of
       JStr s \<Rightarrow> (case he_parse env s of Inl e \<Rightarrow> JNull | Inr v \<Rightarrow> v) | v \<Rightarrow> if is_object v then v else JNull) else JNull)"
  let ?arg = "JObj [(''id'', js_or (getp info ''shortName'') n), (''description'', js_or (getp info ''description'') (JStr [])),
     (''inputSchema'', js_or schema (built ''z.any'' JUndef)), (''execute'', built ''tools.call'' n)]"
  have built: "t = built ''createTool'' ?arg"
    using t by (simp add: buildHarnessTool_def info Let_def schema_def)
  have z: "truthy (js_or schema (built ''z.any'' JUndef))" by (simp add: js_or_def built_def)
  have same: "js_or schema (built ''z.any'' JUndef) = ?raw" if "truthy ?raw" "is_object ?raw"
    using that unfolding schema_def by (cases ?raw) (simp_all add: js_or_def)
  show ?thesis unfolding tool_ready_def by (intro exI [of _ info] exI [of _ ?arg]) (simp add: built info z same)
qed

lemma tools_into_ready:
  "tools_into env ns acc = Inr ts \<Longrightarrow>
     set (dkeys ts) = set (dkeys acc) \<union> js_string (he_shown env) ` set ns
     \<and> (\<forall>k\<in>set (dkeys ts). (\<exists>n\<in>set ns. js_string (he_shown env) n = k \<and> tool_ready env n (getp (JObj ts) k))
          \<or> k \<in> set (dkeys acc) \<and> dget ts k = dget acc k)"
proof (induction ns arbitrary: acc)
  case (Cons n ns)
  obtain t where t: "buildHarnessTool env n = Inr t"
    "tools_into env ns (dset acc (js_string (he_shown env) n) t) = Inr ts"
    using Cons.prems by (auto split: sum.splits)
  let ?k = "js_string (he_shown env) n"
  note ih = Cons.IH [OF t(2)] and ready = build_tool_ready [OF t(1)]
  have "tool_ready env n (getp (JObj ts) k)" if "dget ts k = dget (dset acc ?k t) k" "k = ?k" for k
    using that ready by simp
  then show ?case using ih by (fastforce simp: dkeys_dset split: if_splits)
qed simp

lemma field_tools_ready:
  assumes "harness_tools env cfg hc = Inr hc1"
  shows "field hc1 ''toolNames'' = JUndef" "k \<noteq> ''tools'' \<Longrightarrow> k \<noteq> ''toolNames'' \<Longrightarrow> field hc1 k = field hc k"
    "case getp cfg ''toolNames'' of
       JArr ns \<Rightarrow> if truthy (field hc ''tools'') then field hc1 ''tools'' = field hc ''tools''
          else (\<exists>ts. field hc1 ''tools'' = JObj ts \<and> set (dkeys ts) = js_string (he_shown env) ` set ns
            \<and> (\<forall>k\<in>set (dkeys ts). \<exists>n\<in>set ns. js_string (he_shown env) n = k \<and> tool_ready env n (getp (JObj ts) k)))
     | _ \<Rightarrow> field hc1 ''tools'' = field hc ''tools''"
proof -
  show "field hc1 ''toolNames'' = JUndef" "k \<noteq> ''tools'' \<Longrightarrow> k \<noteq> ''toolNames'' \<Longrightarrow> field hc1 k = field hc k"
    using assms by (auto simp: harness_tools_def split: jsval.splits if_splits sum.splits)
  show "case getp cfg ''toolNames'' of
       JArr ns \<Rightarrow> if truthy (field hc ''tools'') then field hc1 ''tools'' = field hc ''tools''
          else (\<exists>ts. field hc1 ''tools'' = JObj ts \<and> set (dkeys ts) = js_string (he_shown env) ` set ns
            \<and> (\<forall>k\<in>set (dkeys ts). \<exists>n\<in>set ns. js_string (he_shown env) n = k \<and> tool_ready env n (getp (JObj ts) k)))
     | _ \<Rightarrow> field hc1 ''tools'' = field hc ''tools''"
  proof (cases "getp cfg ''toolNames''")
    case (JArr ns)
    show ?thesis
    proof (cases "truthy (field hc ''tools'')")
      case False
      then obtain ts where "tools_into env ns [] = Inr ts" "hc1 = ddel (dset hc ''tools'' (JObj ts)) ''toolNames''"
        using assms JArr by (auto simp: harness_tools_def split: sum.splits)
      then show ?thesis using False JArr tools_into_ready [of env ns "[]" ts] by (auto simp: dkeys_def)
    qed (use assms JArr in \<open>auto simp: harness_tools_def\<close>)
  qed (use assms in \<open>auto simp: harness_tools_def\<close>)
qed

lemma field_with_defaults:
  "field (with_defaults env cfg hc) k =
     (if k = ''subagents'' then
        (case getp cfg ''subagents'' of JArr ss \<Rightarrow> JArr (map (harness_subagent env) ss) | _ \<Rightarrow> field hc ''subagents'')
      else if k = ''omConfig'' then
        (let om = normalizeHarnessOMConfig (getp cfg ''omConfig'') in if truthy om then om else field hc ''omConfig'')
      else if k = ''resolveModel'' \<and> \<not> truthy (field hc k) then built ''resolveHarnessModel'' JUndef
      else if k = ''threadLock'' \<and> \<not> truthy (field hc k) \<and> he_locks env then built ''threadLock'' JUndef
      else if k = ''toolCategories'' \<and> truthy (field hc k) \<and> \<not> truthy (field hc ''toolCategoryResolver'') then JUndef
      else if k = ''toolCategoryResolver'' \<and> truthy (field hc ''toolCategories'') \<and> \<not> truthy (field hc k)
      then built ''toolCategoryResolver'' (field hc ''toolCategories'')
      else field hc k)"
proof -
  define hc1 where "hc1 = (case getp cfg ''subagents'' of
    JArr ss \<Rightarrow> dset hc ''subagents'' (JArr (map (harness_subagent env) ss)) | _ \<Rightarrow> hc)"
  define om where "om = normalizeHarnessOMConfig (getp cfg ''omConfig'')"
  define hc2 where "hc2 = (if truthy om then dset hc1 ''omConfig'' om else hc1)"
  define hc3 where "hc3 = (if \<not> truthy (field hc2 ''resolveModel'')
    then dset hc2 ''resolveModel'' (built ''resolveHarnessModel'' JUndef) else hc2)"
  define hc4 where "hc4 = (if \<not> truthy (field hc3 ''threadLock'') \<and> he_locks env
    then dset hc3 ''threadLock'' (built ''threadLock'' JUndef) else hc3)"
  have all: "with_defaults env cfg hc =
     (if truthy (field hc4 ''toolCategories'') \<and> \<not> truthy (field hc4 ''toolCategoryResolver'')
      then ddel (dset hc4 ''toolCategoryResolver'' (built ''toolCategoryResolver'' (field hc4 ''toolCategories''))) ''toolCategories''
      else hc4)"
    unfolding with_defaults_def Let_def hc4_def hc3_def hc2_def om_def hc1_def by (rule refl)
  have f1: "field hc1 j = (if j = ''subagents'' then
      (case getp cfg ''subagents'' of JArr ss \<Rightarrow> JArr (map (harness_subagent env) ss) | _ \<Rightarrow> field hc ''subagents'') else field hc j)" for j
    by (simp add: hc1_def split: jsval.split)
  have f2: "field hc2 j = (if j = ''omConfig'' \<and> truthy om then om else field hc1 j)" for j by (simp add: hc2_def)
  have f3: "field hc3 j = (if j = ''resolveModel'' \<and> \<not> truthy (field hc j) then built ''resolveHarnessModel'' JUndef else field hc2 j)" for j
    by (auto simp: hc3_def f2 f1)
  have f4: "field hc4 j = (if j = ''threadLock'' \<and> \<not> truthy (field hc j) \<and> he_locks env
      then built ''threadLock'' JUndef else field hc3 j)" for j
    by (auto simp: hc4_def f3 f2 f1)
  have c: "field hc4 ''toolCategories'' = field hc ''toolCategories''"
    "field hc4 ''toolCategoryResolver'' = field hc ''toolCategoryResolver''" by (simp_all add: f4 f3 f2 f1)
  have f5: "field (with_defaults env cfg hc) j =
     (if j = ''toolCategories'' \<and> truthy (field hc j) \<and> \<not> truthy (field hc ''toolCategoryResolver'') then JUndef
      else if j = ''toolCategoryResolver'' \<and> truthy (field hc ''toolCategories'') \<and> \<not> truthy (field hc j)
      then built ''toolCategoryResolver'' (field hc ''toolCategories'') else field hc4 j)" for j
    unfolding all by (auto simp: c)
  show ?thesis unfolding f5 f4 f3 f2 f1 om_def [symmetric] Let_def by auto
qed

lemma set_all_object:
  "set_all (JObj ps) kvs = Inr v \<Longrightarrow> \<exists>qs. v = JObj qs \<and>
     (\<forall>k. getp v k = (case map_of (rev kvs) k of Some x \<Rightarrow> x | None \<Rightarrow> getp (JObj ps) k))"
proof (induction kvs arbitrary: ps)
  case (Cons kv kvs)
  then obtain qs where "v = JObj qs"
    "\<forall>k. getp v k = (case map_of (rev kvs) k of Some x \<Rightarrow> x | None \<Rightarrow> getp (JObj (dset ps (fst kv) (snd kv))) k)"
    by fastforce
  then show ?case by (cases kv) (auto simp: map_add_def split: option.split)
qed auto

lemma set_all_nullish: "set_all v kvs = Inr w \<Longrightarrow> nullish w \<Longrightarrow> w = v"
  by (induction v kvs rule: set_all.induct) (auto split: if_splits jsval.splits)

lemma overwritten_put:
  assumes "set_all old kvs = Inr new"
  shows "overwritten old kvs new" and "\<not> nullish new \<or> new = old"
proof -
  show "overwritten old kvs new" using set_all_object assms by (fastforce simp: overwritten_def)
  show "\<not> nullish new \<or> new = old" using set_all_nullish [OF assms] by blast
qed

lemma with_permissions_ready:
  assumes "with_permissions env hc = Inr hc2"
    and "\<And>k. k \<in> {''defaultPermissions'', ''alwaysAllowTools'', ''initialState''} \<Longrightarrow> field hc k = getp cfg k"
  shows "permissions_ready env cfg (JObj hc2)"
    and "k \<notin> {''defaultPermissions'', ''alwaysAllowTools'', ''initialState''} \<Longrightarrow> field hc2 k = field hc k"
proof -
  show "k \<notin> {''defaultPermissions'', ''alwaysAllowTools'', ''initialState''} \<Longrightarrow> field hc2 k = field hc k"
    using assms(1) by (auto simp: with_permissions_def Let_def split: if_splits sum.splits)
  have eq: "field hc ''defaultPermissions'' = getp cfg ''defaultPermissions''"
    "field hc ''alwaysAllowTools'' = getp cfg ''alwaysAllowTools''" "field hc ''initialState'' = getp cfg ''initialState''"
    using assms(2) by simp_all
  have get: "getp (JObj hc2) k = field hc2 k" for k by (simp add: field_def)
  show "permissions_ready env cfg (JObj hc2)"
  proof (cases "truthy (getp cfg ''defaultPermissions'') \<or> truthy (getp cfg ''alwaysAllowTools'')")
    case False
    then have "hc2 = hc" using assms(1) by (simp add: with_permissions_def eq)
    then show ?thesis using False unfolding permissions_ready_def get by (simp add: eq)
  next
    case True
    let ?rules = "rules_before cfg" and ?init = "js_or (getp cfg ''initialState'') (JObj [])"
    from assms(1) True obtain cats ts where
      cats: "set_all (getp ?rules ''categories'') (copied (getp cfg ''defaultPermissions'')) = Inr cats"
      and ts: "set_all (getp ?rules ''tools'') (always_allowed env cfg) = Inr ts"
      and hc2: "hc2 = ddel (ddel (dset hc ''initialState'' (JObj (dset (copied ?init) ''permissionRules''
        (JObj (put_sub (put_sub (copied ?rules) ''categories'' cats) ''tools'' ts))))) ''defaultPermissions'') ''alwaysAllowTools''"
      unfolding with_permissions_def eq Let_def rules_before_def [symmetric] always_allowed_def [symmetric]
      by (auto split: sum.splits)
    let ?new = "JObj (put_sub (put_sub (copied ?rules) ''categories'' cats) ''tools'' ts)"
    have put: "field (put_sub ps k v) j = (if j = k \<and> \<not> nullish v then v else field ps j)" for ps k v j
      by (simp add: put_sub_def)
    have sub: "overwritten old kvs (if \<not> nullish new then new else v)" if "set_all old kvs = Inr new" for old kvs new v
      using overwritten_put [OF that] by (auto simp: overwritten_def)
    have rules: "getp (getp (JObj hc2) ''initialState'') ''permissionRules'' = ?new" by (simp add: hc2)
    have other: "getp (getp (JObj hc2) ''initialState'') k = field (copied (getp cfg ''initialState'')) k"
      if "k \<noteq> ''permissionRules''" for k
      using that by (cases "getp cfg ''initialState''") (auto simp: hc2 js_or_def field_def)
    have new: "getp ?new k = field (put_sub (put_sub (copied ?rules) ''categories'' cats) ''tools'' ts) k" for k
      by (simp add: field_def)
    show ?thesis
      using True sub [OF cats] sub [OF ts] other unfolding permissions_ready_def Let_def rules new put
      by (simp add: hc2)
  qed
qed

lemma harness_config_stages:
  assumes "harness_config env cfg = Inr config"
  defines "storage \<equiv> js_or (getp cfg ''storage'') (built ''InMemoryStore'' JUndef)"
  defines "memory \<equiv> js_or (getp cfg ''memory'') (built ''Memory''
       (JObj [(''storage'', storage), (''options'', JObj [(''lastMessages'', jint 10)])]))"
  shows "\<exists>modes hc1 hc2. harness_modes env cfg = Inr modes
    \<and> harness_tools env cfg (dset (dset (dset (copied cfg) ''storage'' storage) ''memory'' memory) ''modes'' (JArr modes)) = Inr hc1
    \<and> with_permissions env (with_defaults env cfg hc1) = Inr hc2 \<and> config = JObj (with_workspace env hc2)"
proof -
  from assms(1) obtain modes where m: "harness_modes env cfg = Inr modes"
    by (cases "harness_modes env cfg") (simp_all add: harness_config_def Let_def)
  let ?hc = "dset (dset (dset (copied cfg) ''storage'' storage) ''memory'' memory) ''modes'' (JArr modes)"
  have c: "(case harness_tools env cfg ?hc of Inl e \<Rightarrow> Inl e
     | Inr hc1 \<Rightarrow> (case with_permissions env (with_defaults env cfg hc1) of Inl e \<Rightarrow> Inl e
         | Inr hc2 \<Rightarrow> Inr (JObj (with_workspace env hc2)))) = Inr config"
    using assms(1) unfolding harness_config_def Let_def m memory_def storage_def by (simp only: sum.case)
  then obtain hc1 where t: "harness_tools env cfg ?hc = Inr hc1" by (cases "harness_tools env cfg ?hc") simp_all
  from c obtain hc2 where "with_permissions env (with_defaults env cfg hc1) = Inr hc2"
    unfolding t by (cases "with_permissions env (with_defaults env cfg hc1)") simp_all
  with c t m show ?thesis by simp
qed

text \<open>
  C38. A configuration object that is accepted becomes a complete one for the \<open>Harness\<close>, key by key. There is at least
  one mode; each has kept its fields, has its agent, looked up by name where none was given, and no agent name. The
  tool names are gone, and when there are no tools given each name has a tool built for the registered one, under that name. Storage,
  memory over that storage, model resolver and, with the host's locks, the thread lock are there, given or the default;
  tool categories have become their resolver. The permission shorthands are gone and
  written into the permission rules of the initial state, whose other rules and fields have been kept. Every other
  key but the subagents, the memory configuration and the workspace is as it was given.
\<close>

theorem harness_config_ready:
  assumes "harness_config env (JObj cfg) = Inr config"
  shows "(\<exists>ms ms'. js_or (getp (JObj cfg) ''modes'') (JArr []) = JArr ms \<and> getp config ''modes'' = JArr ms'
      \<and> ms' \<noteq> [] \<and> list_all2 (mode_ready env) ms ms')
    \<and> tools_ready env (JObj cfg) config \<and> defaults_ready env (JObj cfg) config
    \<and> permissions_ready env (JObj cfg) config
    \<and> (\<forall>k. k \<notin> {''modes'', ''tools'', ''toolNames'', ''storage'', ''memory'', ''resolveModel'', ''threadLock'',
          ''toolCategories'', ''toolCategoryResolver'', ''initialState'', ''defaultPermissions'', ''alwaysAllowTools'',
          ''subagents'', ''omConfig'', ''workspace''} \<longrightarrow> getp config k = getp (JObj cfg) k)"
proof -
  let ?cfg = "JObj cfg"
  let ?storage = "js_or (getp ?cfg ''storage'') (built ''InMemoryStore'' JUndef)"
  let ?memory = "js_or (getp ?cfg ''memory'') (built ''Memory''
       (JObj [(''storage'', ?storage), (''options'', JObj [(''lastMessages'', jint 10)])]))"
  obtain modes hc1 hc2 where m: "harness_modes env ?cfg = Inr modes"
    "harness_tools env ?cfg (dset (dset (dset (copied ?cfg) ''storage'' ?storage) ''memory'' ?memory) ''modes'' (JArr modes)) = Inr hc1"
    "with_permissions env (with_defaults env ?cfg hc1) = Inr hc2"
    "config = JObj (with_workspace env hc2)"
    using harness_config_stages [OF assms] by blast
  let ?hc = "dset (dset (dset (copied ?cfg) ''storage'' ?storage) ''memory'' ?memory) ''modes'' (JArr modes)"
  have given: "field (copied ?cfg) k = getp ?cfg k" for k by (simp add: field_def)
  have get: "getp config k = field hc2 k" if "k \<noteq> ''workspace''" for k
    using that field_workspace [of k env hc2] by (simp add: m(4) field_def)
  note tools = field_tools_ready [OF m(2)]
  have hc1: "field hc1 k = getp ?cfg k" if "k \<notin> {''tools'', ''toolNames'', ''modes'', ''memory'', ''storage''}" for k
    using that tools(2) [of k] given [of k] by simp
  have perm_keys: "field (with_defaults env ?cfg hc1) k = getp ?cfg k"
    if "k \<in> {''defaultPermissions'', ''alwaysAllowTools'', ''initialState''}" for k
    using that by (elim insertE emptyE) (simp_all add: field_with_defaults hc1 del: getp.simps)
  note perm = with_permissions_ready [OF m(3) perm_keys]
  have kept: "getp config k = field (with_defaults env ?cfg hc1) k"
    if "k \<notin> {''defaultPermissions'', ''alwaysAllowTools'', ''initialState'', ''workspace''}" for k
    using that get [of k] perm(2) [of k] by simp
  have built: "field hc1 ''modes'' = JArr modes" "field hc1 ''storage'' = ?storage" "field hc1 ''memory'' = ?memory"
    using tools(2) [of "''modes''"] tools(2) [of "''storage''"] tools(2) [of "''memory''"] by simp_all
  obtain ms where ms: "js_or (getp ?cfg ''modes'') (JArr []) = JArr ms" "map_ok (harness_mode env) ms = Inr modes" "modes \<noteq> []"
    using m(1) by (auto simp: harness_modes_def split: jsval.splits sum.splits list.splits)
  have modes: "list_all2 (mode_ready env) ms modes"
    using harness_mode_ready ms(2) by (rule map_ok_list_all2)
  have defaults: "defaults_ready env ?cfg config"
    unfolding defaults_ready_def Let_def by (simp add: kept field_with_defaults built hc1 js_or_def)
  have ready: "tools_ready env ?cfg config"
  proof -
    have "field ?hc ''tools'' = getp ?cfg ''tools''" using given [of "''tools''"] by simp
    moreover have "getp config ''tools'' = field hc1 ''tools''" "getp config ''toolNames'' = field hc1 ''toolNames''"
      by (simp_all add: kept field_with_defaults)
    ultimately show ?thesis using tools(1,3) unfolding tools_ready_def by metis
  qed
  have same: "getp config k = getp (JObj hc2) k"
    if "k \<in> {''defaultPermissions'', ''alwaysAllowTools'', ''initialState''}" for k
    using that get [of k] by (auto simp: field_def)
  have same3: "getp config ''defaultPermissions'' = getp (JObj hc2) ''defaultPermissions''"
    "getp config ''alwaysAllowTools'' = getp (JObj hc2) ''alwaysAllowTools''"
    "getp config ''initialState'' = getp (JObj hc2) ''initialState''" by (simp_all only: same insert_iff simp_thms)
  have permissions: "permissions_ready env ?cfg config"
    using perm(1) unfolding permissions_ready_def same3 .
  have others: "getp config k = getp ?cfg k"
    if "k \<notin> {''modes'', ''tools'', ''toolNames'', ''storage'', ''memory'', ''resolveModel'', ''threadLock'',
          ''toolCategories'', ''toolCategoryResolver'', ''initialState'', ''defaultPermissions'', ''alwaysAllowTools'',
          ''subagents'', ''omConfig'', ''workspace''}" for k
    using that kept [of k] hc1 [of k] by (simp add: field_with_defaults)
  have "getp config ''modes'' = JArr modes" by (simp add: kept field_with_defaults built)
  with ms modes ready defaults permissions others show ?thesis by blast
qed

definition sample_env :: harness_env where
  "sample_env = \<lparr>he_has = (\<lambda>_. True), he_agent = (\<lambda>_. JObj [(''id'', JStr ''writer'')]),
     he_tool = (\<lambda>_. Inr JNull), he_parse = (\<lambda>_. Inr JNull), he_locks = False, he_shown = (\<lambda>_. ''?''),
     he_construct = (\<lambda>_. None), he_destroy = (\<lambda>_. None)\<rparr>"

lemma sample_config:
  "\<exists>config. harness_config sample_env
     (JObj [(''modes'', JArr [JObj [(''agentName'', JStr ''writer'')]]), (''toolNames'', JArr [])]) = Inr config"
  by (simp add: harness_config_def harness_modes_def harness_mode_def harness_tools_def with_permissions_def
      with_defaults_def normalizeHarnessOMConfig_def sample_env_def field_def js_or_def Let_def)

theorem harness_config_ready_witness:
  "\<exists>config. harness_config sample_env
      (JObj [(''modes'', JArr [JObj [(''agentName'', JStr ''writer'')]]), (''toolNames'', JArr [])]) = Inr config
    \<and> getp config ''resolveModel'' = built ''resolveHarnessModel'' JUndef
    \<and> getp config ''storage'' = built ''InMemoryStore'' JUndef"
proof -
  obtain config where c: "harness_config sample_env
      (JObj [(''modes'', JArr [JObj [(''agentName'', JStr ''writer'')]]), (''toolNames'', JArr [])]) = Inr config"
    using sample_config by blast
  then show ?thesis
    using harness_config_ready [OF c, THEN conjunct2, THEN conjunct2, THEN conjunct1] by (simp add: defaults_ready_def)
qed

section \<open>Properties of replacement\<close>

text \<open>
  Remark: There is one harness at a time: a configuration that is rejected leaves the running harness
  alone and is reported; when a harness is returned it is the current one; an accepted one is only constructed after the running harness has been unsubscribed and
  destroyed without error, and if destroying it fails nothing new is constructed.
\<close>

theorem create_harness_replaces:
  "(case createHarness env raw s of (r, s') \<Rightarrow>
      (case parse_raw_config env raw of
         Inr cfg \<Rightarrow>
           (case harness_config env cfg of
              Inr config \<Rightarrow>
                (case r of
                   Inr v \<Rightarrow> hs_current s' = Some (hs_next s) \<and> hs_unsubscribe s' = Some (hs_next s)
                            \<and> last (hs_log s') = HConstruct (hs_next s) config
                 | Inl e \<Rightarrow> True)
            | Inl e \<Rightarrow> s' = s \<and> \<not> (\<exists>v. r = Inr v))
       | Inl e \<Rightarrow> s' = s \<and> \<not> (\<exists>v. r = Inr v))
      \<and> (\<exists>new. hs_log s' = hs_log s @ new
          \<and> (new = []
             \<or> (\<exists>n. hs_current s = Some n \<and> last new = HDestroy n)
             \<or> (\<exists>config. last new = HConstruct (hs_next s) config
                  \<and> (case hs_current s of
                       None \<Rightarrow> new = [HConstruct (hs_next s) config]
                     | Some n \<Rightarrow> HDestroy n \<in> set new \<and> he_destroy env n = None
                         \<and> (case hs_unsubscribe s of Some u \<Rightarrow> hd new = HUnsubscribe u | None \<Rightarrow> True))))))"
  by (auto simp: createHarness_def destroyHarness_def js_defs Let_def
      split: sum.split option.split)

end
