(* ===== verification/Test_Runtime.thy ===== *)
theory Test_Runtime
  imports Bridges
begin

text \<open>
  \<open>test_runtime.js\<close>: registration of tests and hooks, the matchers of \<open>expect\<close>, test deployments,
  \<open>evaluate\<close>, \<open>runWorkflow\<close> and the test runner \<open>__runTests\<close> with its teardown order.
  The log holds every host request with its answer, so what was deployed and torn down can be
  read off it.
\<close>

section \<open>State\<close>

record test_entry =
  te_name :: jsval
  te_fn :: nat
  te_timeout :: jsval

datatype test_call = TAsync string jsval | TSync string jsval | TSend jsval jsval jsval jsval

type_synonym test_log = "(test_call \<times> (jsval + jtext)) list"

record test_state =
  t_log :: test_log
  testResults :: "test_entry list"
  beforeAll :: "nat list"
  afterAll :: "nat list"
  beforeEach :: "nat list"
  afterEach :: "nat list"
  testDeployments :: "jsval list"
  beforeAllDeployments :: "jsval list"
  testTimeout :: jsval
  t_results :: "jsval list"

datatype hook_kind = BeforeAll | AfterAll | BeforeEach | AfterEach

text \<open>
  What is done through this module, in order, until a user function settles or, for a test, until
  its timer has fired (\<open>TooLate\<close>). A \<open>describe\<close> runs its body at once. A test whose timer has fired keeps
  running: what it does while a later function is awaited is an \<open>ALate\<close> among that function's actions, and what it
  throws there goes unnoticed.
\<close>

datatype test_action =
    ATest jsval nat
  | AHook hook_kind nat
  | ATimeout jsval
  | ADescribe jsval "test_action list"
  | ADeploy string jsval
  | ADeployFile jsval
  | ALate "test_action list"

datatype ending = Returned | Failed jsval | TooLate

record test_env =
  tv_script :: "test_log \<Rightarrow> nat \<Rightarrow> test_action list \<times> ending"
  tv_host :: "test_log \<Rightarrow> test_call \<Rightarrow> jsval + jtext"
  tv_shown :: "jsval \<Rightarrow> string"
  tv_duration :: "test_log \<Rightarrow> jsval"
  tv_regex :: "jsval \<Rightarrow> (string \<Rightarrow> bool) option"

text \<open>Running out of fuel is not an exception of the program: no handler sees it.\<close>

datatype stop = Thrown jsval | OutOfFuel

type_synonym 'a tm = "(stop, test_state, 'a) comp"

definition test_start :: test_state where
  "test_start = \<lparr>t_log = [], testResults = [], beforeAll = [], afterAll = [], beforeEach = [], afterEach = [],
     testDeployments = [], beforeAllDeployments = [], testTimeout = jint 30000, t_results = []\<rparr>"

definition t_host :: "test_env \<Rightarrow> test_call \<Rightarrow> jtext tm" where
  "t_host env c = (\<lambda>s. (case tv_host env (t_log s) c of Inl e \<Rightarrow> Inl (Thrown e) | Inr t \<Rightarrow> Inr t,
                        s\<lparr>t_log := t_log s @ [(c, tv_host env (t_log s) c)]\<rparr>))"

definition t_json :: "jtext \<Rightarrow> jsval tm" where
  "t_json t = (case json_parse t of Inl e \<Rightarrow> throw (Thrown e) | Inr v \<Rightarrow> ret v)"

section \<open>Registration and deployment\<close>

definition test_package_name :: "string \<Rightarrow> string" where
  "test_package_name s = (if ends_with ''.ts'' s then take (length s - 3) s else s)"

definition throw_error :: "string \<Rightarrow> stop" where
  "throw_error m = Thrown (JErr PlainError m [])"

text \<open>\<open>throw new Error(prefix + error)\<close>; the conversion of the error may itself throw.\<close>

definition refusal :: "test_env \<Rightarrow> string \<Rightarrow> jsval \<Rightarrow> stop" where
  "refusal env prefix e =
     (case js_convert (tv_shown env) e of Inl x \<Rightarrow> Thrown x | Inr m \<Rightarrow> throw_error (prefix @ m))"

definition test_deploy :: "test_env \<Rightarrow> string \<Rightarrow> jsval \<Rightarrow> jsval tm" where
  "test_deploy env source code =
     bind (t_host env (TAsync ''package.deploy''
             (JObj [(''manifest'', JObj [(''name'', JStr (test_package_name source)), (''entry'', JStr source)]),
                    (''files'', JObj [(source, code)])]))) (\<lambda>raw.
     bind (t_json raw) (\<lambda>result.
       if truthy result \<and> truthy (getp result ''error'')
       then throw (refusal env ''deploy: '' (getp result ''error''))
       else seq (modify (\<lambda>s. s\<lparr>testDeployments := testDeployments s @ [JStr (test_package_name source)]\<rparr>)) (ret result)))"

definition test_deployFile :: "test_env \<Rightarrow> jsval \<Rightarrow> jsval tm" where
  "test_deployFile env path =
     bind (t_host env (TAsync ''package.deploy'' (JObj [(''path'', path)]))) (\<lambda>raw.
     bind (t_json raw) (\<lambda>result.
       if truthy result \<and> truthy (getp result ''error'')
       then throw (refusal env ''deployFile: '' (getp result ''error''))
       else seq (if truthy result \<and> truthy (getp result ''name'')
                 then modify (\<lambda>s. s\<lparr>testDeployments := testDeployments s @ [getp result ''name'']\<rparr>)
                 else ret ())
             (ret result)))"

definition add_hook :: "hook_kind \<Rightarrow> nat \<Rightarrow> test_state \<Rightarrow> test_state" where
  "add_hook k f s =
     (case k of
        BeforeAll \<Rightarrow> s\<lparr>beforeAll := beforeAll s @ [f]\<rparr>
      | AfterAll \<Rightarrow> s\<lparr>afterAll := afterAll s @ [f]\<rparr>
      | BeforeEach \<Rightarrow> s\<lparr>beforeEach := beforeEach s @ [f]\<rparr>
      | AfterEach \<Rightarrow> s\<lparr>afterEach := afterEach s @ [f]\<rparr>)"

definition add_test :: "jsval \<Rightarrow> nat \<Rightarrow> test_state \<Rightarrow> test_state" where
  "add_test name fn s =
     s\<lparr>testResults := testResults s @ [\<lparr>te_name = name, te_fn = fn, te_timeout = testTimeout s\<rparr>]\<rparr>"

fun run_action :: "test_env \<Rightarrow> test_action \<Rightarrow> unit tm"
  and run_actions :: "test_env \<Rightarrow> test_action list \<Rightarrow> unit tm" where
  "run_action env (ATest name fn) = modify (add_test name fn)"
| "run_action env (AHook k fn) = modify (add_hook k fn)"
| "run_action env (ATimeout ms) = modify (\<lambda>s. s\<lparr>testTimeout := ms\<rparr>)"
| "run_action env (ADescribe name as) = run_actions env as"
| "run_action env (ADeploy source code) = bind (test_deploy env source code) (\<lambda>_. ret ())"
| "run_action env (ADeployFile path) = bind (test_deployFile env path) (\<lambda>_. ret ())"
| "run_action env (ALate as) = (\<lambda>s. (Inr (), snd (run_actions env as s)))"
| "run_actions env [] = ret ()"
| "run_actions env (a # as) = seq (run_action env a) (run_actions env as)"

section \<open>The runner\<close>

text \<open>The loops re-read the length of the list they walk, as the source does.\<close>

fun for_loop :: "nat \<Rightarrow> (test_state \<Rightarrow> nat) \<Rightarrow> (nat \<Rightarrow> unit tm) \<Rightarrow> nat \<Rightarrow> unit tm" where
  "for_loop 0 len body i = throw OutOfFuel"
| "for_loop (Suc n) len body i =
     bind (gets len) (\<lambda>l. if i < l then seq (body i) (for_loop n len body (Suc i)) else ret ())"

text \<open>A hook that never settles keeps the runner waiting: it is out of fuel whatever the fuel is.\<close>

definition run_hook :: "test_env \<Rightarrow> nat \<Rightarrow> unit tm" where
  "run_hook env f = (\<lambda>s.
     case tv_script env (t_log s) f of (as, e) \<Rightarrow>
       seq (run_actions env as)
         (case e of Returned \<Rightarrow> ret () | Failed v \<Rightarrow> throw (Thrown v) | TooLate \<Rightarrow> throw OutOfFuel) s)"

definition hook_loop :: "nat \<Rightarrow> test_env \<Rightarrow> (test_state \<Rightarrow> nat list) \<Rightarrow> unit tm" where
  "hook_loop n env hooks =
     for_loop n (\<lambda>s. length (hooks s)) (\<lambda>i. bind (gets (\<lambda>s. hooks s ! i)) (run_hook env)) 0"

definition timeout_error :: "test_env \<Rightarrow> jsval \<Rightarrow> jsval" where
  "timeout_error env ms = JErr PlainError (''test timeout ('' @ js_string (tv_shown env) ms @ ''ms)'') []"

definition run_test :: "test_env \<Rightarrow> test_entry \<Rightarrow> unit tm" where
  "run_test env entry = (\<lambda>s.
     case tv_script env (t_log s) (te_fn entry) of (as, e) \<Rightarrow>
       seq (run_actions env as)
         (case e of
            Returned \<Rightarrow> ret ()
          | Failed v \<Rightarrow> throw (Thrown v)
          | TooLate \<Rightarrow> throw (Thrown (timeout_error env (js_or (te_timeout entry) (jint 30000))))) s)"

text \<open>
  \<open>e.message || String(e)\<close>, which itself throws when \<open>e\<close> is \<open>null\<close> or \<open>undefined\<close>, or has no message and cannot be
  converted to a string.
\<close>

definition error_line :: "test_env \<Rightarrow> jsval \<Rightarrow> jsval + jsval" where
  "error_line env e =
     (case member e ''message'' of
        Inl x \<Rightarrow> Inl x
      | Inr m \<Rightarrow> if truthy m then Inr m
                 else (case js_convert (tv_shown env) e of Inl x \<Rightarrow> Inl x | Inr t \<Rightarrow> Inr (JStr t)))"

definition push_result :: "test_env \<Rightarrow> (string \<times> jsval) list \<Rightarrow> unit tm" where
  "push_result env ps =
     modify (\<lambda>s. s\<lparr>t_results := t_results s @ [JObj (ps @ [(''duration'', tv_duration env (t_log s))])]\<rparr>)"

definition record_test :: "test_env \<Rightarrow> test_entry \<Rightarrow> unit tm" where
  "record_test env entry = (\<lambda>s.
     case run_test env entry s of
       (Inr _, s') \<Rightarrow> push_result env [(''name'', te_name entry), (''passed'', JBool True)] s'
     | (Inl OutOfFuel, s') \<Rightarrow> (Inl OutOfFuel, s')
     | (Inl (Thrown e), s') \<Rightarrow>
         (case error_line env e of
            Inl x \<Rightarrow> (Inl (Thrown x), s')
          | Inr m \<Rightarrow> push_result env [(''name'', te_name entry), (''passed'', JBool False), (''error'', m)] s'))"

text \<open>Teardown requests swallow whatever the host throws.\<close>

definition teardown :: "test_env \<Rightarrow> jsval \<Rightarrow> unit tm" where
  "teardown env d = (\<lambda>s. (Inr (), snd (t_host env (TSync ''package.teardown'' (JObj [(''name'', d)])) s)))"

definition one_test :: "nat \<Rightarrow> test_env \<Rightarrow> nat \<Rightarrow> unit tm" where
  "one_test n env t =
     seq (hook_loop n env beforeEach)
    (bind (gets (\<lambda>s. testResults s ! t)) (\<lambda>entry.
     seq (record_test env entry)
    (seq (bind (gets testDeployments) (\<lambda>ds. iter_list (teardown env) (rev ds)))
    (seq (modify (\<lambda>s. s\<lparr>testDeployments := []\<rparr>))
         (hook_loop n env afterEach)))))"

definition finish_run :: "nat \<Rightarrow> test_env \<Rightarrow> jsval list tm" where
  "finish_run n env =
     seq (hook_loop n env afterAll)
    (seq (bind (gets beforeAllDeployments) (\<lambda>ds. iter_list (teardown env) (rev ds)))
    (seq (modify (\<lambda>s. s\<lparr>beforeAllDeployments := [], testResults := [], beforeAll := [], afterAll := [],
                        beforeEach := [], afterEach := [], testTimeout := jint 30000\<rparr>))
         (gets t_results)))"

definition runTests :: "nat \<Rightarrow> test_env \<Rightarrow> jsval list tm" where
  "runTests n env =
     seq (modify (\<lambda>s. s\<lparr>t_results := []\<rparr>))
    (bind (gets testDeployments) (\<lambda>prev.
     seq (hook_loop n env beforeAll)
    (seq (modify (\<lambda>s. s\<lparr>beforeAllDeployments := filter (\<lambda>d. \<not> list_ex (strict_eq d) prev) (testDeployments s),
                        testDeployments := []\<rparr>))
    (seq (for_loop n (\<lambda>s. length (testResults s)) (one_test n env) 0)
         (finish_run n env)))))"

section \<open>expect\<close>

text \<open>
  A matcher call. Object identity is not visible in the values, so \<open>same\<close> tells which objects are
  the same; \<open>shown\<close> and \<open>print\<close> are the number and JSON printers, \<open>num\<close> the numeric conversion of
  a primitive, \<open>array_name\<close> the names of \<open>Array.prototype\<close> and \<open>re\<close> the regular-expression engine.
\<close>

datatype matcher =
    ToBe jsval | ToEqual jsval | ToContain jsval | ToMatch jsval | ToBeTruthy | ToBeFalsy | ToBeDefined
  | ToBeNull | ToBeGreaterThan jsval | ToBeLessThan jsval | ToHaveLength jsval | ToHaveProperty string

record engine =
  eg_same :: "jsval \<Rightarrow> jsval \<Rightarrow> bool"
  eg_shown :: "jsval \<Rightarrow> string"
  eg_print :: "jsval \<Rightarrow> string"
  eg_num :: "jsval \<Rightarrow> jsnum"
  eg_array_name :: "string \<Rightarrow> bool"
  eg_re :: "string \<Rightarrow> string \<Rightarrow> jsval + bool"

definition eg_json :: "engine \<Rightarrow> jsval \<Rightarrow> jsval + jsval" where
  "eg_json eg v =
     (case stringify v of
        Inl e \<Rightarrow> Inl e | Inr None \<Rightarrow> Inr JUndef | Inr (Some t) \<Rightarrow> Inr (JStr (eg_print eg t)))"

fun contains :: "string \<Rightarrow> string \<Rightarrow> bool" where
  "contains [] p = (p = [])"
| "contains (c # cs) p = (starts_with p (c # cs) \<or> contains cs p)"

definition js_equal :: "engine \<Rightarrow> jsval \<Rightarrow> jsval \<Rightarrow> bool" where
  "js_equal eg a b = (if is_object a \<and> a \<noteq> JNull then eg_same eg a b else strict_eq a b)"

definition to_primitive :: "engine \<Rightarrow> jsval \<Rightarrow> jsval" where
  "to_primitive eg v =
     (if is_object v \<and> v \<noteq> JNull \<or> is_fun v then JStr (js_string (eg_shown eg) v) else v)"

fun str_less :: "string \<Rightarrow> string \<Rightarrow> bool" where
  "str_less s [] = False"
| "str_less [] (d # ds) = True"
| "str_less (c # cs) (d # ds) =
     ((of_char c :: nat) < of_char d \<or> c = d \<and> str_less cs ds)"

definition js_less :: "engine \<Rightarrow> jsval \<Rightarrow> jsval \<Rightarrow> bool" where
  "js_less eg a b =
     (case (to_primitive eg a, to_primitive eg b) of
        (JStr s, JStr t) \<Rightarrow> str_less s t
      | (v, w) \<Rightarrow> num_less (eg_num eg v) (eg_num eg w))"

definition js_length :: "jsval \<Rightarrow> jsval" where
  "js_length v =
     (case v of
        JStr s \<Rightarrow> (if s = [] then jint 0 else jint (int (length s)))
      | JArr vs \<Rightarrow> jint (int (length vs))
      | _ \<Rightarrow> if truthy v \<and> getp v ''length'' \<noteq> JUndef then getp v ''length'' else jint 0)"

fun digits :: "nat \<Rightarrow> string" where
  "digits n = (if n < 10 then [char_of (48 + n)] else digits (n div 10) @ [char_of (48 + n mod 10)])"

text \<open>\<open>key in value\<close>: own properties, indices and the inherited names of the object's prototypes.\<close>

definition has_key :: "engine \<Rightarrow> jsval \<Rightarrow> string \<Rightarrow> bool" where
  "has_key eg v k = (truthy v \<and> is_object v \<and>
     (k \<in> set proto_names
      \<or> (case v of JObj ps \<Rightarrow> dget ps k \<noteq> None
                 | JErr c m ps \<Rightarrow> k \<in> {''message'', ''name''} \<or> dget ps k \<noteq> None
                 | JArr vs \<Rightarrow> k = ''length'' \<or> k \<in> set (map digits [0..<length vs]) \<or> eg_array_name eg k
                 | _ \<Rightarrow> False)))"

text \<open>The condition a matcher decides, or what evaluating it or its message throws.\<close>

definition matcher_pass :: "engine \<Rightarrow> jsval \<Rightarrow> matcher \<Rightarrow> jsval + bool" where
  "matcher_pass eg v m =
     (case m of
        ToBe e \<Rightarrow> (case (eg_json eg v, eg_json eg e) of
                      (Inl x, _) \<Rightarrow> Inl x | (_, Inl x) \<Rightarrow> Inl x | _ \<Rightarrow> Inr (js_equal eg v e))
      | ToEqual e \<Rightarrow> (case (eg_json eg v, eg_json eg e) of
                         (Inl x, _) \<Rightarrow> Inl x | (_, Inl x) \<Rightarrow> Inl x | (Inr a, Inr b) \<Rightarrow> Inr (strict_eq a b))
      | ToContain sub \<Rightarrow>
          (case (if is_str v then Inr v else eg_json eg v) of
             Inl x \<Rightarrow> Inl x
           | Inr (JStr s) \<Rightarrow> (case eg_json eg sub of
                                 Inl x \<Rightarrow> Inl x | Inr _ \<Rightarrow> Inr (contains s (js_string (eg_shown eg) sub)))
           | Inr w \<Rightarrow> Inl (JErr TypeErr ''cannot read properties'' []))
      | ToMatch pat \<Rightarrow> eg_re eg (js_string (eg_shown eg) pat) (js_string (eg_shown eg) v)
      | ToBeTruthy \<Rightarrow> (case eg_json eg v of Inl x \<Rightarrow> Inl x | Inr _ \<Rightarrow> Inr (truthy v))
      | ToBeFalsy \<Rightarrow> (case eg_json eg v of Inl x \<Rightarrow> Inl x | Inr _ \<Rightarrow> Inr (\<not> truthy v))
      | ToBeDefined \<Rightarrow> Inr (\<not> nullish v)
      | ToBeNull \<Rightarrow> (case eg_json eg v of Inl x \<Rightarrow> Inl x | Inr _ \<Rightarrow> Inr (nullish v))
      | ToBeGreaterThan n \<Rightarrow> Inr (js_less eg n v)
      | ToBeLessThan n \<Rightarrow> Inr (js_less eg v n)
      | ToHaveLength n \<Rightarrow> Inr (strict_eq (js_length v) n)
      | ToHaveProperty k \<Rightarrow> Inr (has_key eg v k))"

text \<open>\<open>nots\<close> counts the reads of \<open>.not\<close> before the matcher; the text of the message is left out.\<close>

definition expect :: "engine \<Rightarrow> jsval \<Rightarrow> nat \<Rightarrow> matcher \<Rightarrow> jsval + unit" where
  "expect eg v nots m =
     (case matcher_pass eg v m of
        Inl e \<Rightarrow> Inl e
      | Inr b \<Rightarrow> if (if odd nots then \<not> b else b) then Inr () else Inl (JErr PlainError ''expectation failed'' []))"

section \<open>evaluate\<close>

record eval_case =
  ec_input :: jsval
  ec_timeout :: jsval
  ec_expect :: jsval

text \<open>The checks of one answer: reading a property of a nullish answer throws.\<close>

fun expectations :: "test_env \<Rightarrow> jsval \<Rightarrow> (string \<times> jsval) list \<Rightarrow> jsval + bool" where
  "expectations env resp [] = Inr True"
| "expectations env resp ((k, e) # kes) =
     (case member resp k of
        Inl x \<Rightarrow> Inl x
      | Inr v \<Rightarrow>
          (case expectations env resp kes of
             Inl x \<Rightarrow> Inl x
           | Inr b \<Rightarrow> Inr ((case tv_regex env e of
                              Some t \<Rightarrow> t (js_string (tv_shown env) v)
                            | None \<Rightarrow> strict_eq v e) \<and> b)))"

definition eval_case_run :: "test_env \<Rightarrow> jsval \<Rightarrow> jsval \<Rightarrow> eval_case \<Rightarrow> (jsval \<times> bool) tm" where
  "eval_case_run env service topic c =
     bind (t_host env (TSend service topic (ec_input c) (js_or (js_or (ec_timeout c) (jint 10000)) (jint 10000)))) (\<lambda>raw.
     bind (t_json raw) (\<lambda>resp.
       case (if truthy (ec_expect c)
             then expectations env resp (case ec_expect c of JObj ps \<Rightarrow> ps | _ \<Rightarrow> []) else Inr True) of
         Inl x \<Rightarrow> throw (Thrown x)
       | Inr b \<Rightarrow> ret (resp, b)))"

record eval_result =
  er_passed :: nat
  er_failed :: nat
  er_items :: "jsval list"

fun eval_cases :: "test_env \<Rightarrow> jsval \<Rightarrow> jsval \<Rightarrow> eval_case list \<Rightarrow> eval_result \<Rightarrow> eval_result tm" where
  "eval_cases env service topic [] r = ret r"
| "eval_cases env service topic (c # cs) r = (\<lambda>s.
     case eval_case_run env service topic c s of
       (Inr (resp, b), s') \<Rightarrow>
         eval_cases env service topic cs
           (r\<lparr>er_passed := er_passed r + (if b then 1 else 0), er_failed := er_failed r + (if b then 0 else 1),
              er_items := er_items r @ [JObj [(''input'', ec_input c), (''output'', resp), (''expected'', ec_expect c),
                (''passed'', JBool b), (''duration'', tv_duration env (t_log s'))]]\<rparr>) s'
     | (Inl OutOfFuel, s') \<Rightarrow> (Inl OutOfFuel, s')
     | (Inl (Thrown e), s') \<Rightarrow>
         (case member e ''message'' of
            Inl x \<Rightarrow> (Inl (Thrown x), s')
          | Inr m \<Rightarrow>
              eval_cases env service topic cs
                (r\<lparr>er_failed := er_failed r + 1,
                   er_items := er_items r @ [JObj [(''input'', ec_input c), (''passed'', JBool False),
                     (''error'', m), (''duration'', tv_duration env (t_log s'))]]\<rparr>) s'))"

definition evaluate :: "test_env \<Rightarrow> jsval \<Rightarrow> jsval \<Rightarrow> eval_case list \<Rightarrow> (eval_result \<times> rat) tm" where
  "evaluate env service topic cs =
     bind (eval_cases env service topic cs \<lparr>er_passed = 0, er_failed = 0, er_items = []\<rparr>) (\<lambda>r.
       ret (r, if length cs > 0 then of_nat (er_passed r) / of_nat (length cs) else 0))"

section \<open>runWorkflow\<close>

definition t_ask :: "test_env \<Rightarrow> string \<Rightarrow> jsval \<Rightarrow> jsval tm" where
  "t_ask env topic v = bind (t_host env (TAsync topic v)) t_json"

definition t_member :: "jsval \<Rightarrow> string \<Rightarrow> jsval tm" where
  "t_member v k = (case member v k of Inl e \<Rightarrow> throw (Thrown e) | Inr w \<Rightarrow> ret w)"

text \<open>The polling loop; between two requests 100 ms pass.\<close>

fun poll_run :: "nat \<Rightarrow> test_env \<Rightarrow> jsval \<Rightarrow> jsval tm" where
  "poll_run 0 env runId = ret (JObj [(''status'', JStr ''timeout''), (''runId'', runId)])"
| "poll_run (Suc n) env runId =
     bind (t_ask env ''workflow.status'' (JObj [(''runId'', runId)])) (\<lambda>status.
     bind (t_member status ''status'') (\<lambda>st.
       if st = JStr ''completed'' \<or> st = JStr ''failed'' then
         bind (t_ask env ''workflow.history'' (JObj [(''runId'', runId)])) (\<lambda>hist.
         bind (t_member hist ''entries'') (\<lambda>es.
           ret (JObj [(''status'', st), (''output'', getp status ''output''), (''steps'', js_or es (JArr [])),
                      (''journal'', js_or es (JArr [])), (''runId'', runId)])))
       else poll_run n env runId))"

text \<open>\<open>opts.input\<close> passes through JSON; an input that has no JSON text cannot be parsed back.\<close>

definition workflow_input :: "jsval \<Rightarrow> jsval + jsval" where
  "workflow_input opts =
     (if truthy opts \<and> truthy (getp opts ''input'') then
        (case stringify (getp opts ''input'') of
           Inl e \<Rightarrow> Inl e | Inr None \<Rightarrow> Inl json_syntax_error | Inr (Some t) \<Rightarrow> Inr t)
      else Inr (JObj []))"

definition runWorkflow :: "test_env \<Rightarrow> jsval \<Rightarrow> jsval \<Rightarrow> jsval tm" where
  "runWorkflow env workflowId opts =
     (case workflow_input opts of
        Inl e \<Rightarrow> throw (Thrown e)
      | Inr input \<Rightarrow>
          bind (t_ask env ''workflow.run''
                  (JObj ([(''workflowId'', workflowId), (''input'', input)]
                         @ (if truthy opts \<and> truthy (getp opts ''hostResults'')
                            then [(''hostResults'', getp opts ''hostResults'')] else [])))) (\<lambda>resp.
            if truthy resp \<and> truthy (getp resp ''error'')
            then throw (refusal env ''runWorkflow: '' (getp resp ''error''))
            else bind (t_member resp ''runId'') (poll_run 300 env)))"

section \<open>Properties\<close>

text \<open>What the log says is deployed: a successful deployment stands until its teardown is requested.\<close>

fun made_name :: "test_call \<times> (jsval + jtext) \<Rightarrow> jsval option" where
  "made_name (TAsync topic v, Inr (Json r)) =
     (if topic = ''package.deploy'' \<and> \<not> (truthy r \<and> truthy (getp r ''error'')) then
        (if truthy (getp v ''manifest'') then Some (getp (getp v ''manifest'') ''name'')
         else if truthy r \<and> truthy (getp r ''name'') then Some (getp r ''name'') else None)
      else None)"
| "made_name e = None"

fun torn_name :: "test_call \<times> (jsval + jtext) \<Rightarrow> jsval option" where
  "torn_name (TSync topic v, r) = (if topic = ''package.teardown'' then Some (getp v ''name'') else None)"
| "torn_name e = None"

definition stand :: "jsval set \<Rightarrow> test_call \<times> (jsval + jtext) \<Rightarrow> jsval set" where
  "stand ds e = (case made_name e of Some d \<Rightarrow> insert d ds | None \<Rightarrow>
                   (case torn_name e of Some d \<Rightarrow> ds - {d} | None \<Rightarrow> ds))"

definition standing :: "test_log \<Rightarrow> jsval set" where
  "standing l = foldl stand {} l"

lemma standing_snoc [simp]: "standing (l @ [e]) = stand (standing l) e"
  by (simp add: standing_def)

lemma standing_Nil [simp]: "standing [] = {}"
  by (simp add: standing_def)

fun deploys :: "test_action \<Rightarrow> bool" where
  "deploys (ADeploy source code) = True"
| "deploys (ADeployFile path) = True"
| "deploys (ALate as) = list_all deploys as"
| "deploys a = False"

definition only_deploys :: "test_action list \<Rightarrow> bool" where
  "only_deploys as \<longleftrightarrow> list_all deploys as"

text \<open>The registrations are those of \<open>s0\<close>, and everything standing is known to the runner.\<close>

definition tidy :: "test_state \<Rightarrow> jsval list \<Rightarrow> test_state \<Rightarrow> bool" where
  "tidy s0 b s \<longleftrightarrow> testResults s = testResults s0 \<and> beforeAll s = beforeAll s0 \<and> afterAll s = afterAll s0
     \<and> beforeEach s = beforeEach s0 \<and> afterEach s = afterEach s0 \<and> beforeAllDeployments s = b
     \<and> standing (t_log s) \<subseteq> set (testDeployments s) \<union> set b"

lemma json_parse_case:
  "json_parse t = (case t of Json v \<Rightarrow> Inr v | NotJson s \<Rightarrow> Inl json_syntax_error)"
  by (cases t) auto

lemma stand_made [simp]: "made_name e = Some d \<Longrightarrow> stand ds e = insert d ds"
  by (simp add: stand_def)

lemma stand_other [simp]: "made_name e = None \<Longrightarrow> torn_name e = None \<Longrightarrow> stand ds e = ds"
  by (simp add: stand_def)

lemma tidy_deploy:
  "tidy s0 b s \<Longrightarrow> test_deploy env source code s = (r, s') \<Longrightarrow> tidy s0 b s' \<and> t_results s' = t_results s"
  by (auto simp: test_deploy_def t_host_def t_json_def js_defs tidy_def json_parse_case
      split: sum.splits jtext.splits if_splits)

lemma tidy_deployFile:
  "tidy s0 b s \<Longrightarrow> test_deployFile env path s = (r, s') \<Longrightarrow> tidy s0 b s' \<and> t_results s' = t_results s"
  by (auto simp: test_deployFile_def t_host_def t_json_def js_defs tidy_def json_parse_case
      split: sum.splits jtext.splits if_splits)

lemma tidy_actions:
  "deploys a \<Longrightarrow> tidy s0 b s \<Longrightarrow> run_action env a s = (r, s') \<Longrightarrow> tidy s0 b s' \<and> t_results s' = t_results s"
  "only_deploys as \<Longrightarrow> tidy s0 b s \<Longrightarrow> run_actions env as s = (r, s') \<Longrightarrow> tidy s0 b s' \<and> t_results s' = t_results s"
proof (induction env a and env as arbitrary: s r s' and s r s' rule: run_action_run_actions.induct)
  case (5 env source code)
  obtain q s1 where q: "test_deploy env source code s = (q, s1)" by (meson surj_pair)
  have "s' = s1" using 5(3) unfolding run_action.simps bind_def q by (cases q) (simp_all add: ret_def)
  then show ?case using tidy_deploy [OF 5(2) q] by simp
next
  case (6 env path)
  obtain q s1 where q: "test_deployFile env path s = (q, s1)" by (meson surj_pair)
  have "s' = s1" using 6(3) unfolding run_action.simps bind_def q by (cases q) (simp_all add: ret_def)
  then show ?case using tidy_deployFile [OF 6(2) q] by simp
next
  case (7 env as)
  obtain q s1 where q: "run_actions env as s = (q, s1)" by (meson surj_pair)
  have "only_deploys as" using 7(2) by (simp add: only_deploys_def)
  moreover have "s' = s1" using 7(4) q by simp
  ultimately show ?case using 7(1) [OF _ 7(3) q] by simp
next
  case (9 env a as)
  obtain q s1 where a: "run_action env a s = (q, s1)" by (cases "run_action env a s") auto
  have d: "deploys a" "only_deploys as" using 9(3) by (auto simp: only_deploys_def)
  have s1: "tidy s0 b s1 \<and> t_results s1 = t_results s" using 9(1) [OF d(1) 9(4) a] .
  show ?case
    using 9(2) [OF d(2), of s1] s1 9(5) a by (cases q) (auto simp: js_defs)
qed (auto simp: js_defs only_deploys_def)

text \<open>Deploying inside a function never runs out of fuel; only waiting does.\<close>

lemma deploy_fuel: "only_deploys as \<Longrightarrow> fst (run_actions env as s) \<noteq> Inl OutOfFuel"
proof (induction as arbitrary: s)
  case (Cons a as)
  have "fst (run_action env a s) \<noteq> Inl OutOfFuel"
    using Cons.prems
    by (cases a) (auto simp: only_deploys_def js_defs test_deploy_def test_deployFile_def t_host_def t_json_def
        throw_error_def refusal_def split: sum.splits jtext.splits)
  then show ?case
    using Cons by (auto simp: js_defs only_deploys_def split: prod.splits sum.splits)
qed (simp add: js_defs)

text \<open>The values the runner can print when they are thrown.\<close>

definition reportable :: "jsval \<Rightarrow> bool" where
  "reportable e \<longleftrightarrow> \<not> nullish e \<and> \<not> unconvertible e"

lemma json_parse_throws: "json_parse t = Inl e \<Longrightarrow> reportable e"
  by (cases t) (auto simp: json_syntax_error_def reportable_def)

lemma refusal_reportable: "refusal env prefix v = Thrown e \<Longrightarrow> reportable e"
  using js_convert_cases [of v "tv_shown env"]
  by (auto simp: refusal_def throw_error_def reportable_def conversion_error_def split: if_splits sum.splits)

lemma deploy_throws:
  assumes "\<And>l c e. tv_host env l c = Inl e \<Longrightarrow> reportable e"
  shows "only_deploys as \<Longrightarrow> fst (run_actions env as s) = Inl (Thrown e) \<Longrightarrow> reportable e"
proof (induction as arbitrary: s)
  case (Cons a as)
  have "fst (run_action env a s) = Inl (Thrown e) \<Longrightarrow> reportable e" for e
    using Cons.prems(1) assms
    by (cases a) (auto simp: only_deploys_def js_defs test_deploy_def test_deployFile_def t_host_def t_json_def
        dest!: json_parse_throws refusal_reportable split: sum.splits if_splits)
  then show ?case
    using Cons by (auto simp: js_defs only_deploys_def split: prod.splits sum.splits)
qed (simp add: js_defs)

lemma reportable_line: "reportable e \<Longrightarrow> \<exists>m. error_line env e = Inr m"
  using js_convert_cases [of e "tv_shown env"] by (auto simp: reportable_def error_line_def member_def)

lemma for_loop_rule:
  assumes "\<And>j s. Q j s \<Longrightarrow> len s = N"
    and "\<And>j s. Q j s \<Longrightarrow> j < N \<Longrightarrow>
           (case body j s of (Inr _, s') \<Rightarrow> Q (Suc j) s' | (Inl e, s') \<Rightarrow> R e s')"
    and "Q i s" and "i \<le> N" and "N - i < n"
  shows "(case for_loop n len body i s of (Inr _, s') \<Rightarrow> Q N s' | (Inl e, s') \<Rightarrow> R e s')"
  using assms(3-5)
proof (induction n arbitrary: i s)
  case (Suc n)
  have l: "len s = N" using assms(1) Suc.prems(1) by simp
  show ?case
  proof (cases "i < N")
    case True
    show ?thesis
    proof (cases "body i s")
      case (Pair r s1)
      then show ?thesis
        using assms(2) [OF Suc.prems(1) True] Suc.IH [of "Suc i" s1] Suc.prems(3) l True
        by (cases r) (simp_all add: seq_def bind_def gets_def)
    qed
  next
    case False
    then show ?thesis using Suc.prems l by (auto simp: js_defs)
  qed
qed simp

text \<open>What is asked of the user's functions: they deploy but register nothing while running.\<close>

definition deploying :: "test_env \<Rightarrow> nat \<Rightarrow> bool" where
  "deploying env f \<longleftrightarrow> (\<forall>l. only_deploys (fst (tv_script env l f)) \<and> snd (tv_script env l f) \<noteq> TooLate)"

definition testing :: "test_env \<Rightarrow> nat \<Rightarrow> bool" where
  "testing env f \<longleftrightarrow> (\<forall>l e. only_deploys (fst (tv_script env l f))
     \<and> (snd (tv_script env l f) = Failed e \<longrightarrow> reportable e))"

definition silent :: "test_env \<Rightarrow> nat \<Rightarrow> bool" where
  "silent env f \<longleftrightarrow> (\<forall>l. fst (tv_script env l f) = [])"

definition thrown_by :: "test_env \<Rightarrow> nat list \<Rightarrow> stop \<Rightarrow> bool" where
  "thrown_by env hooks e \<longleftrightarrow> e \<noteq> OutOfFuel \<and> (\<exists>f\<in>set hooks. \<exists>s. fst (run_hook env f s) = Inl e)"

definition known :: "test_state \<Rightarrow> bool" where
  "known s \<longleftrightarrow> standing (t_log s) \<subseteq> set (testDeployments s) \<union> set (beforeAllDeployments s)"

lemma tidy_known: "tidy s0 b s \<Longrightarrow> known s"
  by (auto simp: tidy_def known_def)

lemma thrown_by_mono: "thrown_by env fs e \<Longrightarrow> set fs \<subseteq> set gs \<Longrightarrow> thrown_by env gs e"
  by (auto simp: thrown_by_def)

lemma run_hook_tidy:
  assumes "tidy s0 b s" and "deploying env f" and "run_hook env f s = (r, s')"
  shows "tidy s0 b s' \<and> t_results s' = t_results s \<and> r \<noteq> Inl OutOfFuel"
proof -
  obtain as e where f: "tv_script env (t_log s) f = (as, e)" by (cases "tv_script env (t_log s) f") auto
  then have o: "only_deploys as" "e \<noteq> TooLate" using assms(2) by (auto simp: deploying_def dest: spec [of _ "t_log s"])
  show ?thesis
    using tidy_actions(2) [OF o(1) assms(1)] deploy_fuel [OF o(1), of env s] o(2) f assms(3)
    by (cases "run_actions env as s") (auto simp: run_hook_def js_defs split: prod.splits sum.splits ending.splits)
qed

lemma hook_loop_tidy:
  assumes "tidy s0 b s" and "\<And>s'. tidy s0 b s' \<Longrightarrow> hooks s' = fs" and "list_all (deploying env) fs"
    and "length fs < n"
  shows "(case hook_loop n env hooks s of
            (Inr _, s') \<Rightarrow> tidy s0 b s' \<and> t_results s' = t_results s
          | (Inl e, s') \<Rightarrow> thrown_by env fs e \<and> known s')"
  unfolding hook_loop_def
proof (rule for_loop_rule [where Q = "\<lambda>_ s'. tidy s0 b s' \<and> t_results s' = t_results s" and N = "length fs"
      and R = "\<lambda>e s'. thrown_by env fs e \<and> known s'"])
  fix j s' assume Q: "tidy s0 b s' \<and> t_results s' = t_results s" and j: "j < length fs"
  have d: "deploying env (fs ! j)" "fs ! j \<in> set fs" using assms(3) j by (simp_all add: list_all_length)
  obtain r s2 where r: "run_hook env (fs ! j) s' = (r, s2)" by (meson surj_pair)
  have t: "tidy s0 b s2 \<and> t_results s2 = t_results s'" and o: "r \<noteq> Inl OutOfFuel"
    using run_hook_tidy [OF _ d(1) r] Q by blast+
  have "thrown_by env fs e" if "r = Inl e" for e
    unfolding thrown_by_def using that o r d(2) by (metis fst_conv)
  then show "case bind (gets (\<lambda>s. hooks s ! j)) (run_hook env) s' of
      (Inl e, s'') \<Rightarrow> thrown_by env fs e \<and> known s''
    | (Inr _, s'') \<Rightarrow> tidy s0 b s'' \<and> t_results s'' = t_results s"
    using t r Q assms(2) tidy_known by (cases r) (auto simp: bind_def gets_def)
qed (use assms in auto)

lemma silent_loop:
  assumes "list_all (silent env) fs" and "hooks s = fs"
  shows "snd (hook_loop n env hooks s) = s"
proof -
  have hook: "snd (run_hook env f s) = s" if "silent env f" for f
    using that [unfolded silent_def, THEN spec, of "t_log s"]
    by (cases "tv_script env (t_log s) f") (auto simp: run_hook_def js_defs split: ending.split)
  have "snd (for_loop n (\<lambda>s. length (hooks s)) (\<lambda>i. bind (gets (\<lambda>s. hooks s ! i)) (run_hook env)) i s) = s" for i
  proof (induction n arbitrary: i)
    case (Suc n)
    show ?case
    proof (cases "i < length fs")
      case True
      then have "snd (run_hook env (fs ! i) s) = s" using assms(1) hook by (simp add: list_all_length)
      then show ?thesis
        using Suc [of "Suc i"] assms(2) True
        by (cases "run_hook env (fs ! i) s") (auto simp: seq_def bind_def gets_def split: sum.splits)
    qed (simp add: bind_def gets_def ret_def assms(2))
  qed (simp add: throw_def)
  then show ?thesis by (simp add: hook_loop_def)
qed

lemma teardown_iter:
  "\<exists>l. iter_list (teardown env) ds s = (Inr (), s\<lparr>t_log := l\<rparr>) \<and> standing l = standing (t_log s) - set ds"
proof (induction ds arbitrary: s)
  case Nil
  show ?case by (intro exI [of _ "t_log s"]) (simp add: ret_def)
next
  case (Cons d ds)
  define l1 where "l1 = t_log s @ [(TSync ''package.teardown'' (JObj [(''name'', d)]),
    tv_host env (t_log s) (TSync ''package.teardown'' (JObj [(''name'', d)])))]"
  have t: "teardown env d s = (Inr (), s\<lparr>t_log := l1\<rparr>)" "standing l1 = standing (t_log s) - {d}"
    by (simp_all add: l1_def teardown_def t_host_def stand_def)
  obtain l where l: "iter_list (teardown env) ds (s\<lparr>t_log := l1\<rparr>) = (Inr (), s\<lparr>t_log := l\<rparr>)"
    "standing l = standing l1 - set ds"
    using Cons.IH [of "s\<lparr>t_log := l1\<rparr>"] by auto
  have "standing l = standing (t_log s) - set (d # ds)" using l(2) t(2) by auto
  moreover have "iter_list (teardown env) (d # ds) s = (Inr (), s\<lparr>t_log := l\<rparr>)"
    using l(1) t(1) by (simp add: seq_def bind_def)
  ultimately show ?case by blast
qed

lemma record_test_tidy:
  assumes "tidy s0 b s" and "testing env (te_fn entry)" and "\<And>l c e. tv_host env l c = Inl e \<Longrightarrow> reportable e"
  obtains s' v where "record_test env entry s = (Inr (), s')" and "tidy s0 b s'"
    and "t_results s' = t_results s @ [v]" and "getp v ''name'' = te_name entry"
proof -
  obtain as e where f: "tv_script env (t_log s) (te_fn entry) = (as, e)"
    by (cases "tv_script env (t_log s) (te_fn entry)") auto
  then have o: "only_deploys as" "\<And>v. e = Failed v \<Longrightarrow> reportable v"
    using assms(2) by (auto simp: testing_def dest: spec [of _ "t_log s"])
  obtain r s1 where a: "run_actions env as s = (r, s1)" by (cases "run_actions env as s") auto
  have s1: "tidy s0 b s1" "t_results s1 = t_results s" using tidy_actions(2) [OF o(1) assms(1) a] by auto
  have r: "r = Inr () \<or> (\<exists>x. r = Inl (Thrown x) \<and> reportable x)"
  proof (cases r)
    case (Inl x)
    then show ?thesis
      using deploy_fuel [OF o(1), where env = env and s = s] deploy_throws [OF assms(3) o(1), where s = s] a by (cases x) auto
  qed simp
  have "\<exists>q. run_test env entry s = (q, s1) \<and> (q = Inr () \<or> (\<exists>x. q = Inl (Thrown x) \<and> reportable x))"
    using r f a o(2)
    by (auto simp: run_test_def seq_def bind_def ret_def throw_def timeout_error_def reportable_def split: ending.splits)
  then obtain q where q: "run_test env entry s = (q, s1)" "q = Inr () \<or> (\<exists>x. q = Inl (Thrown x) \<and> reportable x)"
    by blast
  have p: "\<exists>s' v. push_result env ps s1 = (Inr (), s') \<and> tidy s0 b s' \<and> t_results s' = t_results s @ [v]
      \<and> getp v ''name'' = te_name entry" if "ps = (''name'', te_name entry) # rest" for ps rest
    using s1 that by (auto simp: push_result_def modify_def tidy_def)
  have "\<exists>s' v. record_test env entry s = (Inr (), s') \<and> tidy s0 b s' \<and> t_results s' = t_results s @ [v]
      \<and> getp v ''name'' = te_name entry"
    using q(2)
  proof
    assume "q = Inr ()"
    then show ?thesis using q(1) p [OF refl] by (simp add: record_test_def)
  next
    assume "\<exists>x. q = Inl (Thrown x) \<and> reportable x"
    then obtain x m where "q = Inl (Thrown x)" "error_line env x = Inr m" using reportable_line by blast
    then show ?thesis using q(1) p [OF refl] by (simp add: record_test_def)
  qed
  then show thesis using that by blast
qed

definition sane_host :: "test_env \<Rightarrow> bool" where
  "sane_host env \<longleftrightarrow> (\<forall>l c e. tv_host env l c = Inl e \<longrightarrow> reportable e)"

lemma one_test_tidy:
  assumes host: "sane_host env" and each: "list_all (deploying env) (beforeEach s0 @ afterEach s0)"
    and test: "list_all (\<lambda>t. testing env (te_fn t)) (testResults s0)"
    and n: "length (beforeEach s0) < n" "length (afterEach s0) < n"
    and s: "tidy s0 b s" and j: "j < length (testResults s0)"
  shows "(case one_test n env j s of
            (Inr _, s') \<Rightarrow> tidy s0 b s' \<and> (list_all (silent env) (afterEach s0) \<longrightarrow> testDeployments s' = [])
               \<and> (\<exists>v. t_results s' = t_results s @ [v] \<and> getp v ''name'' = te_name (testResults s0 ! j))
          | (Inl e, s') \<Rightarrow> thrown_by env (beforeEach s0 @ afterEach s0) e \<and> known s')"
proof -
  have h: "(case hook_loop n env beforeEach s of
            (Inr _, s') \<Rightarrow> tidy s0 b s' \<and> t_results s' = t_results s
          | (Inl e, s') \<Rightarrow> thrown_by env (beforeEach s0) e \<and> known s')"
    by (rule hook_loop_tidy [OF s _ _ n(1)]) (use each in \<open>simp_all add: tidy_def\<close>)
  obtain r s1 where r: "hook_loop n env beforeEach s = (r, s1)" by (meson surj_pair)
  show ?thesis
  proof (cases r)
    case (Inl e)
    then show ?thesis using h r by (auto simp: one_test_def seq_def bind_def intro: thrown_by_mono)
  next
    case (Inr u)
    then have s1: "tidy s0 b s1" "t_results s1 = t_results s" using h r by auto
    let ?t = "testResults s0 ! j"
    have t: "testResults s1 ! j = ?t" "testing env (te_fn ?t)"
      using s1(1) test j by (auto simp: tidy_def list_all_length)
    obtain s2 v where s2: "record_test env ?t s1 = (Inr (), s2)" "tidy s0 b s2"
      "t_results s2 = t_results s1 @ [v]" "getp v ''name'' = te_name ?t"
      using record_test_tidy [OF s1(1) t(2)] host unfolding sane_host_def by blast
    obtain l where l: "iter_list (teardown env) (rev (testDeployments s2)) s2 = (Inr (), s2\<lparr>t_log := l\<rparr>)"
      "standing l = standing (t_log s2) - set (testDeployments s2)"
      using teardown_iter [of env "rev (testDeployments s2)" s2] by auto
    let ?s3 = "s2\<lparr>t_log := l, testDeployments := []\<rparr>"
    have s3: "tidy s0 b ?s3" using s2(2) l(2) by (auto simp: tidy_def)
    have a: "(case hook_loop n env afterEach ?s3 of
            (Inr _, s') \<Rightarrow> tidy s0 b s' \<and> t_results s' = t_results ?s3
          | (Inl e, s') \<Rightarrow> thrown_by env (afterEach s0) e \<and> known s')"
      by (rule hook_loop_tidy [OF s3 _ _ n(2)]) (use each in \<open>simp_all add: tidy_def\<close>)
    have quiet: "testDeployments (snd (hook_loop n env afterEach ?s3)) = []" if "list_all (silent env) (afterEach s0)"
      using silent_loop [OF that, of afterEach ?s3 n] s3 by (simp add: tidy_def)
    have "one_test n env j s = hook_loop n env afterEach ?s3"
      using r Inr t(1) s2(1) l(1) by (simp add: one_test_def seq_def bind_def gets_def modify_def)
    then show ?thesis
      using a quiet s2(3,4) s1(2) by (auto intro: thrown_by_mono split: prod.splits sum.splits)
  qed
qed

lemma finish_run_tidy:
  assumes s: "tidy s0 b s" and after: "list_all (deploying env) (afterAll s0)" and n: "length (afterAll s0) < n"
  shows "(case finish_run n env s of
      (Inr rs, s') \<Rightarrow> rs = t_results s \<and> known s'
        \<and> (list_all (silent env) (afterAll s0) \<longrightarrow> testDeployments s' = testDeployments s)
        \<and> testResults s' = [] \<and> beforeAll s' @ afterAll s' @ beforeEach s' @ afterEach s' = []
        \<and> beforeAllDeployments s' = [] \<and> testTimeout s' = jint 30000
    | (Inl e, s') \<Rightarrow> thrown_by env (afterAll s0) e \<and> known s')"
proof -
  have a: "(case hook_loop n env afterAll s of
            (Inr _, s') \<Rightarrow> tidy s0 b s' \<and> t_results s' = t_results s
          | (Inl e, s') \<Rightarrow> thrown_by env (afterAll s0) e \<and> known s')"
    by (rule hook_loop_tidy [OF s _ after n]) (simp add: tidy_def)
  obtain r s1 where r: "hook_loop n env afterAll s = (r, s1)" by (meson surj_pair)
  have quiet: "s1 = s" if "list_all (silent env) (afterAll s0)"
    using silent_loop [OF that, of afterAll s n] s r by (simp add: tidy_def)
  obtain l where l: "iter_list (teardown env) (rev (beforeAllDeployments s1)) s1 = (Inr (), s1\<lparr>t_log := l\<rparr>)"
    "standing l = standing (t_log s1) - set (beforeAllDeployments s1)"
    using teardown_iter [of env "rev (beforeAllDeployments s1)" s1] by auto
  have gone: "standing l \<subseteq> set (testDeployments s1)" if "tidy s0 b s1" using l(2) that by (auto simp: tidy_def)
  show ?thesis
    using a r quiet l(1) gone
    by (cases r) (auto simp: finish_run_def seq_def bind_def gets_def modify_def known_def)
qed

definition tested :: "test_env \<Rightarrow> test_state \<Rightarrow> jsval list \<Rightarrow> nat \<Rightarrow> test_state \<Rightarrow> bool" where
  "tested env s b j s' \<longleftrightarrow> tidy s b s' \<and> (list_all (silent env) (afterEach s) \<longrightarrow> testDeployments s' = [])
     \<and> map (\<lambda>r. getp r ''name'') (t_results s') = map te_name (take j (testResults s))"

lemma tests_loop_tidy:
  assumes "sane_host env" and "list_all (deploying env) (beforeEach s @ afterEach s)"
    and "list_all (\<lambda>t. testing env (te_fn t)) (testResults s)"
    and "length (beforeEach s @ afterEach s) + length (testResults s) < n"
    and "tested env s b 0 s2"
  shows "(case for_loop n (\<lambda>s. length (testResults s)) (one_test n env) 0 s2 of
      (Inr _, s') \<Rightarrow> tested env s b (length (testResults s)) s'
    | (Inl e, s') \<Rightarrow> thrown_by env (beforeEach s @ afterEach s) e \<and> known s')"
proof (rule for_loop_rule [where Q = "tested env s b" and R = "\<lambda>e s'. thrown_by env (beforeEach s @ afterEach s) e \<and> known s'"])
  fix j s' assume q: "tested env s b j s'" and j: "j < length (testResults s)"
  then have "tidy s b s'" by (auto simp: tested_def)
  from one_test_tidy [OF assms(1,2,3) _ _ this j, of n]
  show "case one_test n env j s' of
      (Inl e, s') \<Rightarrow> thrown_by env (beforeEach s @ afterEach s) e \<and> known s' | (Inr x, s') \<Rightarrow> tested env s b (Suc j) s'"
    using assms(4) q j by (auto simp: tested_def take_Suc_conv_app_nth split: prod.splits sum.splits)
qed (use assms(4,5) in \<open>auto simp: tested_def tidy_def\<close>)

text \<open>
  C39. A test run is complete: when no function registers further tests while the run is on, hooks settle and
  what is thrown can be printed, the run ends; either
  with exactly one result per registered test, in registration order, however the tests end (return, throw or
  time out), and all registrations reset, or with what a hook of any of the four kinds has thrown. Every deployment
  answered during the run, those of tests that have timed out and keep running included, has been torn down or is
  still listed by the runner; none is left when the run gives its results and
  the \<open>afterEach\<close> and \<open>afterAll\<close> hooks deploy nothing and nothing is deployed while they run.
\<close>

theorem run_tests_complete:
  assumes "sane_host env" and "list_all (deploying env) (beforeAll s @ beforeEach s @ afterEach s @ afterAll s)"
    and "list_all (\<lambda>t. testing env (te_fn t)) (testResults s)"
    and "testDeployments s = []" and "beforeAllDeployments s = []" and "standing (t_log s) = {}"
    and "length (beforeAll s @ beforeEach s @ afterAll s @ afterEach s) + length (testResults s) < n"
  shows "(case runTests n env s of
      (Inr rs, s') \<Rightarrow> map (\<lambda>r. getp r ''name'') rs = map te_name (testResults s)
         \<and> standing (t_log s') \<subseteq> set (testDeployments s')
         \<and> (list_all (silent env) (afterEach s @ afterAll s) \<longrightarrow> standing (t_log s') = {} \<and> testDeployments s' = [])
         \<and> testResults s' = [] \<and> beforeAll s' @ afterAll s' @ beforeEach s' @ afterEach s' = []
         \<and> beforeAllDeployments s' = [] \<and> testTimeout s' = jint 30000
    | (Inl e, s') \<Rightarrow> thrown_by env (beforeAll s @ beforeEach s @ afterEach s @ afterAll s) e
         \<and> standing (t_log s') \<subseteq> set (testDeployments s') \<union> set (beforeAllDeployments s'))"
proof -
  let ?hooks = "beforeAll s @ beforeEach s @ afterEach s @ afterAll s"
  have h: "(case hook_loop n env beforeAll (s\<lparr>t_results := []\<rparr>) of
            (Inr _, s') \<Rightarrow> tidy s [] s' \<and> t_results s' = t_results (s\<lparr>t_results := []\<rparr>)
          | (Inl e, s') \<Rightarrow> thrown_by env (beforeAll s) e \<and> known s')"
    by (rule hook_loop_tidy) (use assms in \<open>auto simp: tidy_def\<close>)
  obtain r s1 where r: "hook_loop n env beforeAll (s\<lparr>t_results := []\<rparr>) = (r, s1)" by (meson surj_pair)
  show ?thesis
  proof (cases r)
    case (Inl e)
    then show ?thesis
      using h r assms(4) thrown_by_mono [of env "beforeAll s" e ?hooks]
      by (simp add: runTests_def seq_def bind_def modify_def gets_def known_def)
  next
    case (Inr u)
    let ?b = "testDeployments s1"
    let ?s2 = "s1\<lparr>beforeAllDeployments := ?b, testDeployments := []\<rparr>"
    have s1: "tidy s [] s1" "t_results s1 = []" using h r Inr by auto
    then have s2: "tested env s ?b 0 ?s2" by (simp add: tested_def tidy_def)
    have loop: "(case for_loop n (\<lambda>s. length (testResults s)) (one_test n env) 0 ?s2 of
        (Inr _, s') \<Rightarrow> tested env s ?b (length (testResults s)) s'
      | (Inl e, s') \<Rightarrow> thrown_by env (beforeEach s @ afterEach s) e \<and> known s')"
      by (rule tests_loop_tidy [OF assms(1) _ assms(3) _ s2]) (use assms(2,7) in auto)
    obtain r' s3 where r': "for_loop n (\<lambda>s. length (testResults s)) (one_test n env) 0 ?s2 = (r', s3)"
      by (meson surj_pair)
    have start: "runTests n env s = (case r' of Inl e \<Rightarrow> (Inl e, s3) | Inr _ \<Rightarrow> finish_run n env s3)"
      using r Inr r' assms(4) by (cases r') (simp_all add: runTests_def seq_def bind_def modify_def gets_def)
    show ?thesis
    proof (cases r')
      case (Inl e)
      then show ?thesis
        using loop r' start thrown_by_mono [of env "beforeEach s @ afterEach s" e ?hooks] by (auto simp: known_def)
    next
      case (Inr v)
      then have t: "tidy s ?b s3" "list_all (silent env) (afterEach s) \<longrightarrow> testDeployments s3 = []"
        "map (\<lambda>r. getp r ''name'') (t_results s3) = map te_name (testResults s)"
        using loop r' by (auto simp: tested_def)
      obtain q s4 where q: "finish_run n env s3 = (q, s4)" by (meson surj_pair)
      show ?thesis
        using finish_run_tidy [OF t(1), of env n] t(2,3) start Inr q assms(2,7)
          thrown_by_mono [of env "afterAll s" _ ?hooks]
        by (cases q) (auto simp: known_def)
    qed
  qed
qed

text \<open>A run with a deploying hook, a test that fails, and a test whose timer fires and that deploys afterwards.\<close>

definition sample_test_env :: test_env where
  "sample_test_env = \<lparr>tv_script = (\<lambda>l f. if f = 1 then ([ADeploy ''svc.ts'' JNull], Returned)
       else if f = 2 then ([ALate [ADeployFile JNull]], Failed (JStr ''boom'')) else ([], TooLate)),
     tv_host = (\<lambda>l c. Inr (Json (JObj [(''name'', JStr ''pkg'')]))), tv_shown = (\<lambda>_. ''1''),
     tv_duration = (\<lambda>_. jint 0), tv_regex = (\<lambda>_. None)\<rparr>"

definition sample_test_state :: test_state where
  "sample_test_state = add_hook BeforeEach 1 (add_test (JStr ''b'') 2 (add_test (JStr ''a'') 3 test_start))"

lemma sample_test_fields:
  "testResults sample_test_state =
      [\<lparr>te_name = JStr ''a'', te_fn = 3, te_timeout = jint 30000\<rparr>, \<lparr>te_name = JStr ''b'', te_fn = 2, te_timeout = jint 30000\<rparr>]"
  "beforeAll sample_test_state = []" "beforeEach sample_test_state = [1]" "afterAll sample_test_state = []"
  "afterEach sample_test_state = []" "testDeployments sample_test_state = []"
  "beforeAllDeployments sample_test_state = []" "t_log sample_test_state = []"
  by (simp_all add: sample_test_state_def add_hook_def add_test_def test_start_def)

theorem run_tests_complete_witness:
  "(case runTests 5 sample_test_env sample_test_state of
      (Inr rs, s') \<Rightarrow> map (\<lambda>r. getp r ''name'') rs = [JStr ''a'', JStr ''b''] \<and> standing (t_log s') = {}
    | (Inl e, s') \<Rightarrow> e \<noteq> OutOfFuel)"
proof -
  have "sane_host sample_test_env" by (simp add: sane_host_def sample_test_env_def)
  moreover have "deploying sample_test_env 1" "testing sample_test_env 2" "testing sample_test_env 3"
    by (simp_all add: deploying_def testing_def only_deploys_def sample_test_env_def reportable_def)
  ultimately show ?thesis
    using run_tests_complete [of sample_test_env sample_test_state 5]
    by (auto simp: sample_test_fields thrown_by_def split: prod.splits sum.splits)
qed

text \<open>A package that an \<open>afterEach\<close> hook deploys after the last test is left behind by a run that succeeds.\<close>

lemma after_each_leaks:
  "\<exists>rs s'. runTests 5 sample_test_env (add_hook AfterEach 1 (add_test (JStr ''a'') 2 test_start)) = (Inr rs, s')
     \<and> JStr ''svc'' \<in> standing (t_log s')"
  by (simp add: runTests_def one_test_def finish_run_def hook_loop_def run_hook_def record_test_def run_test_def
      push_result_def error_line_def member_def teardown_def test_deploy_def test_deployFile_def t_host_def t_json_def
      sample_test_env_def add_hook_def add_test_def test_start_def js_defs standing_def stand_def test_package_name_def
      ends_with_def numeral_eq_Suc)

section \<open>Properties of evaluation and polling\<close>

lemma eval_cases_account:
  "eval_cases env service topic cs r s = (Inr r', s') \<Longrightarrow> er_passed r + er_failed r = length (er_items r) \<Longrightarrow>
     er_passed r' + er_failed r' = length (er_items r') \<and> length (er_items r') = length (er_items r) + length cs"
  by (induction cs arbitrary: r s)
    (auto simp: ret_def split: prod.splits sum.splits stop.splits if_splits dest!: meta_spec)

text \<open>
  Remark: Evaluation accounts for every case: the numbers of passed and failed cases add up to the number of
  cases, with one item each, and the accuracy is the passed share, so it is 1 exactly when nothing failed.
\<close>

theorem evaluate_accounts:
  assumes "evaluate env service topic cs s = (Inr (r, accuracy), s')"
  shows "er_passed r + er_failed r = length cs \<and> length (er_items r) = length cs
    \<and> 0 \<le> accuracy \<and> accuracy \<le> 1 \<and> (accuracy = 1 \<longleftrightarrow> er_failed r = 0 \<and> cs \<noteq> [])"
proof -
  have r: "eval_cases env service topic cs \<lparr>er_passed = 0, er_failed = 0, er_items = []\<rparr> s = (Inr r, s')"
    "accuracy = (if length cs > 0 then of_nat (er_passed r) / of_nat (length cs) else 0)"
    using assms by (auto simp: evaluate_def bind_def ret_def split: prod.splits sum.splits)
  have "er_passed r + er_failed r = length cs" "length (er_items r) = length cs"
    using eval_cases_account [OF r(1)] by auto
  then show ?thesis using r(2) by (auto simp: field_simps)
qed

theorem evaluate_accounts_witness:
  "\<exists>r accuracy s'. evaluate sample_test_env JNull JNull
       [\<lparr>ec_input = JNull, ec_timeout = JNull, ec_expect = JObj [(''name'', JStr ''pkg'')]\<rparr>] test_start
       = (Inr (r, accuracy), s') \<and> er_passed r + er_failed r = 1"
proof -
  let ?cs = "[\<lparr>ec_input = JNull, ec_timeout = JNull, ec_expect = JObj [(''name'', JStr ''pkg'')]\<rparr>]"
  have "\<exists>r accuracy s'. evaluate sample_test_env JNull JNull ?cs test_start = (Inr (r, accuracy), s')"
    by (simp add: evaluate_def eval_case_run_def t_host_def t_json_def js_defs sample_test_env_def test_start_def
        member_def strict_eq_def)
  then show ?thesis using evaluate_accounts [of sample_test_env JNull JNull ?cs test_start] by fastforce
qed

lemma t_ask_log: "length (t_log (snd (t_ask env topic v s))) = Suc (length (t_log s))
    \<and> fst (t_ask env topic v s) \<noteq> Inl OutOfFuel"
  by (auto simp: t_ask_def t_host_def t_json_def js_defs split: sum.splits)

lemma t_ask_run:
  obtains r s' where "t_ask env topic v s = (r, s')" "length (t_log s') = Suc (length (t_log s))"
    "r \<noteq> Inl OutOfFuel"
  using t_ask_log [of env topic v s] by (cases "t_ask env topic v s") auto

definition poll_outcome :: "jsval \<Rightarrow> bool" where
  "poll_outcome v \<longleftrightarrow> getp v ''status'' \<in> {JStr ''completed'', JStr ''failed'', JStr ''timeout''}"

definition good_poll :: "nat \<Rightarrow> test_state \<Rightarrow> (stop + jsval) \<times> test_state \<Rightarrow> bool" where
  "good_poll n s out \<longleftrightarrow> length (t_log (snd out)) \<le> length (t_log s) + n
     \<and> (case fst out of Inr v \<Rightarrow> poll_outcome v | Inl e \<Rightarrow> e \<noteq> OutOfFuel)"

lemma good_poll_ask:
  assumes "\<And>v s'. length (t_log s') = Suc (length (t_log s)) \<Longrightarrow> good_poll n s' (f v s')"
  shows "good_poll (Suc n) s (bind (t_ask env topic w) f s)"
proof -
  obtain r s' where r: "t_ask env topic w s = (r, s')" "length (t_log s') = Suc (length (t_log s))"
    "r \<noteq> Inl OutOfFuel"
    by (rule t_ask_run)
  show ?thesis
    using assms [OF r(2)] r by (cases r) (auto simp: bind_def good_poll_def)
qed

lemma good_poll_member:
  assumes "\<And>x. good_poll n s (f x s)"
  shows "good_poll n s (bind (t_member v k) f s)"
proof (cases "member v k")
  case (Inl e)
  then show ?thesis by (simp add: t_member_def bind_def throw_def good_poll_def)
next
  case (Inr x)
  then show ?thesis using assms [of x] by (simp add: t_member_def bind_def ret_def)
qed

lemma good_poll_le: "good_poll m s out \<Longrightarrow> m \<le> n \<Longrightarrow> good_poll n s out"
  by (auto simp: good_poll_def)

lemma good_poll_throw: "good_poll n s (throw (refusal env m v) s)"
  by (simp add: good_poll_def throw_def throw_error_def refusal_def split: sum.split)

lemma poll_run_good: "good_poll (Suc n) s (poll_run n env runId s)"
proof (induction n arbitrary: s)
  case 0
  show ?case by (simp add: ret_def good_poll_def poll_outcome_def)
next
  case (Suc n)
  have last: "good_poll 1 s' (bind (t_ask env ''workflow.history'' w) (\<lambda>hist. bind (t_member hist ''entries'')
      (\<lambda>es. ret (JObj [(''status'', st), (''output'', o'), (''steps'', js_or es (JArr [])),
                      (''journal'', js_or es (JArr [])), (''runId'', runId)]))) s')"
    if "st = JStr ''completed'' \<or> st = JStr ''failed''" for s' w st o'
    using that unfolding One_nat_def
    by (intro good_poll_ask good_poll_member) (auto simp: good_poll_def ret_def poll_outcome_def)
  show ?case
    unfolding poll_run.simps
  proof (intro good_poll_ask good_poll_member)
    fix v s' x
    show "good_poll (Suc n) s' ((if x = JStr ''completed'' \<or> x = JStr ''failed'' then
         bind (t_ask env ''workflow.history'' (JObj [(''runId'', runId)])) (\<lambda>hist.
         bind (t_member hist ''entries'') (\<lambda>es.
           ret (JObj [(''status'', x), (''output'', getp v ''output''), (''steps'', js_or es (JArr [])),
                      (''journal'', js_or es (JArr [])), (''runId'', runId)])))
       else poll_run n env runId) s')"
      using Suc.IH good_poll_le [OF last, of x "Suc n"] by (cases "x = JStr ''completed'' \<or> x = JStr ''failed''") auto
  qed
qed

text \<open>
  Remark: Waiting for a workflow is bounded: whatever the host answers, at most 302 requests are made, and a
  value that is returned says \<open>completed\<close>, \<open>failed\<close> or \<open>timeout\<close>.
\<close>

theorem run_workflow_bounded:
  "(case runWorkflow env workflowId opts s of
      (Inr v, s') \<Rightarrow> length (t_log s') \<le> length (t_log s) + 302 \<and> poll_outcome v
    | (Inl e, s') \<Rightarrow> length (t_log s') \<le> length (t_log s) + 302 \<and> e \<noteq> OutOfFuel)"
proof -
  have "good_poll 302 s (runWorkflow env workflowId opts s)"
  proof (cases "workflow_input opts")
    case (Inl e)
    then show ?thesis by (simp add: runWorkflow_def good_poll_def throw_def)
  next
    case (Inr input)
    have "good_poll 301 s' (bind (t_member resp ''runId'') (poll_run 300 env) s')" for resp s'
      using poll_run_good [of 300] by (intro good_poll_member) simp
    then have "good_poll (Suc 301) s (runWorkflow env workflowId opts s)"
      unfolding runWorkflow_def Inr sum.case
      by (intro good_poll_ask) (simp add: good_poll_throw)
    then show ?thesis by simp
  qed
  then show ?thesis by (auto simp: good_poll_def split: prod.splits sum.splits)
qed

end
