(* ===== verification/Surface.thy ===== *)
theory Surface
  imports Js_Values
begin

text \<open>
  The programming surface of the runtime as data: the keys of the embedded bundle (\<open>entry.mjs\<close>), the
  modules user code imports (\<open>agent_module.js\<close>, \<open>ai_module.js\<close>, \<open>kit_module.js\<close>, \<open>test_module.js\<close>) and the
  endowments of a compartment (\<open>__kitEndowments\<close> in \<open>kit_runtime.js\<close>). Imports are stripped when a file is
  deployed, so a name resolves to the endowment and not to the module's export: the two must agree.
  Every table lists its names in the order of the source; the endowments that are built by the
  function itself are in tables of their own.
\<close>

section \<open>The embedded bundle\<close>

text \<open>\<open>entry.mjs\<close>: the keys of \<open>globalThis.__agent_embed\<close>, by the groups of the source. Their values are
  imported from packages and are a parameter.\<close>

definition embed_core :: "string list" where
  "embed_core =
    [''Agent'', ''TripWire'', ''MessageList'', ''convertMessages'', ''TypeDetector'', ''createTool'',
     ''createWorkflow'', ''createStep'', ''Workflow'', ''cloneWorkflow'', ''cloneStep'', ''mapVariable'',
     ''Mastra'', ''BackgroundTaskManager'', ''createBackgroundTask'', ''generateBackgroundTaskSystemPrompt'',
     ''__brainkitMastraBackgroundTaskDebug'', ''ConsoleLogger'', ''MultiLogger'', ''DualLogger'', ''Memory'',
     ''MockMemory'', ''InMemoryStore'', ''LibSQLStore'', ''LibSQLVector'', ''UpstashStore'',
     ''PostgresStore'', ''PgVector'', ''MongoDBStore'', ''MongoDBVector'', ''PineconeVector'',
     ''ChromaVector'', ''QdrantVector'', ''z'', ''embed'', ''embedMany'', ''generateText'', ''streamText'',
     ''generateObject'', ''streamObject'', ''ModelRouterEmbeddingModel'', ''RequestContext'']"

definition embed_evals :: "string list" where
  "embed_evals =
    [''createScorer'', ''runEvals'', ''MastraScorer'', ''registerHook'', ''executeHook'', ''AvailableHooks'',
     ''createCompletenessScorer'', ''createTextualDifferenceScorer'', ''createKeywordCoverageScorer'',
     ''createContentSimilarityScorer'', ''createToneScorer'', ''createToolCallAccuracyScorerCode'',
     ''createTrajectoryAccuracyScorerCode'', ''createTrajectoryScorerCode'', ''createHallucinationScorer'',
     ''createFaithfulnessScorer'', ''createAnswerRelevancyScorer'', ''createAnswerSimilarityScorer'',
     ''createBiasScorer'', ''createToxicityScorer'', ''createContextPrecisionScorer'',
     ''createContextRelevanceScorerLLM'', ''createNoiseSensitivityScorerLLM'',
     ''createPromptAlignmentScorerLLM'', ''createToolCallAccuracyScorerLLM'',
     ''createTrajectoryAccuracyScorerLLM'']"

definition embed_processors :: "string list" where
  "embed_processors =
    [''ModerationProcessor'', ''PromptInjectionDetector'', ''PIIDetector'', ''SystemPromptScrubber'',
     ''UnicodeNormalizer'', ''LanguageDetector'', ''TokenLimiterProcessor'', ''BatchPartsProcessor'',
     ''StructuredOutputProcessor'', ''ToolCallFilter'', ''ToolSearchProcessor'', ''AgentsMDInjector'',
     ''SkillsProcessor'', ''SkillSearchProcessor'', ''WorkspaceInstructionsProcessor'', ''ResponseCache'',
     ''DEFAULT_RESPONSE_CACHE_TTL_SECONDS'', ''RESPONSE_CACHE_CONTEXT_KEY'', ''buildResponseCacheKey'',
     ''InMemoryServerCache'', ''MastraServerCache'']"

definition embed_rag :: "string list" where
  "embed_rag =
    [''MDocument'', ''GraphRAG'', ''createVectorQueryTool'', ''createDocumentChunkerTool'',
     ''createGraphRAGTool'', ''rerank'', ''rerankWithScorer'', ''CohereRelevanceScorer'',
     ''MastraAgentRelevanceScorer'', ''ZeroEntropyRelevanceScorer'']"

definition embed_observability :: "string list" where
  "embed_observability =
    [''Observability'', ''DefaultExporter'', ''SensitiveDataFilter'', ''BaseExporter'', ''CloudExporter'',
     ''ConsoleExporter'', ''TestExporter'', ''TrackingExporter'', ''chainFormatters'', ''AlwaysOnSampler'',
     ''AlwaysOffSampler'', ''ParentBasedSampler'', ''TraceIdRatioBasedSampler'', ''NoopSpanProcessor'',
     ''ConsoleSpanExporter'', ''InMemorySpanExporter'', ''BasicTracerProvider'', ''SimpleSpanProcessor'',
     ''BatchSpanProcessor'']"

definition embed_workspace :: "string list" where
  "embed_workspace =
    [''Workspace'', ''LocalFilesystem'', ''LocalSandbox'', ''CompositeFilesystem'',
     ''WORKSPACE_TOOLS_PREFIX'', ''WORKSPACE_TOOLS'', ''createWorkspaceTools'', ''resolveToolConfig'',
     ''readFileTool'', ''writeFileTool'', ''editFileTool'', ''listFilesTool'', ''deleteFileTool'',
     ''fileStatTool'', ''mkdirTool'', ''searchTool'', ''indexContentTool'', ''executeCommandTool'',
     ''requireWorkspace'', ''requireFilesystem'', ''requireSandbox'', ''MastraBrowser'',
     ''BrowserContextProcessor'', ''AgentChannels'', ''ChatChannelProcessor'', ''MastraStateAdapter'']"

definition embed_voice :: "string list" where
  "embed_voice =
    [''MastraVoice'', ''CompositeVoice'', ''DefaultVoice'', ''AISDKSpeech'', ''AISDKTranscription'',
     ''OpenAIVoice'', ''OpenAIRealtimeVoice'', ''AzureVoice'', ''ElevenLabsVoice'', ''CloudflareVoice'',
     ''DeepgramVoice'', ''PlayAIVoice'', ''PLAYAI_VOICES'', ''SpeechifyVoice'', ''SarvamVoice'',
     ''MurfVoice'']"

definition embed_harness :: "string list" where
  "embed_harness =
    [''Harness'', ''assignTaskIds'', ''askUserTool'', ''defaultDisplayState'', ''defaultOMProgressState'',
     ''parseSubagentMeta'', ''submitPlanTool'', ''taskWriteTool'', ''taskUpdateTool'', ''taskCompleteTool'',
     ''taskCheckTool'']"

definition embed_providers :: "string list" where
  "embed_providers =
    [''ecosystemCanaries'', ''createOpenAI'', ''createAnthropic'', ''createGoogleGenerativeAI'',
     ''createMistral'', ''createXai'', ''createGroq'', ''createDeepSeek'', ''createCerebras'',
     ''createPerplexity'', ''createTogetherAI'', ''createFireworks'', ''createCohere'']"

definition embed_ai :: "string list" where
  "embed_ai =
    [''tool'', ''dynamicTool'', ''jsonSchema'', ''zodSchema'', ''asSchema'', ''generateId'',
     ''createIdGenerator'', ''hasToolCall'', ''stepCountIs'', ''isLoopFinished'', ''wrapLanguageModel'',
     ''wrapEmbeddingModel'', ''wrapImageModel'', ''wrapProvider'', ''extractReasoningMiddleware'',
     ''extractJsonMiddleware'', ''defaultSettingsMiddleware'', ''defaultEmbeddingSettingsMiddleware'',
     ''simulateStreamingMiddleware'', ''smoothStream'', ''addToolInputExamplesMiddleware'',
     ''createProviderRegistry'', ''customProvider'', ''experimental_createProviderRegistry'',
     ''experimental_customProvider'', ''convertToModelMessages'', ''pruneMessages'', ''validateUIMessages'',
     ''safeValidateUIMessages'', ''readUIMessageStream'', ''consumeStream'',
     ''convertFileListToFileUIParts'', ''generateImage'', ''experimental_generateImage'',
     ''experimental_generateVideo'', ''experimental_transcribe'', ''experimental_generateSpeech'',
     ''cosineSimilarity'', ''simulateReadableStream'', ''parsePartialJson'', ''parseJsonEventStream'',
     ''gateway'', ''createGateway'', ''AISDKError'', ''APICallError'', ''NoObjectGeneratedError'',
     ''NoSuchModelError'', ''NoSuchToolError'', ''InvalidArgumentError'', ''InvalidDataContentError'',
     ''InvalidPromptError'', ''InvalidToolInputError'', ''NoContentGeneratedError'',
     ''NoSpeechGeneratedError'', ''NoTranscriptGeneratedError'', ''NoVideoGeneratedError'', ''RetryError'',
     ''ToolCallRepairError'', ''TypeValidationError'', ''MessageConversionError'',
     ''MissingToolResultsError'', ''LoadAPIKeyError'', ''InvalidToolApprovalError'',
     ''ToolCallNotFoundForApprovalError'']"

definition embed_keys :: "string list" where
  "embed_keys = embed_core @ embed_evals @ embed_processors @ embed_rag @ embed_observability @ embed_workspace @ embed_voice @ embed_harness @ embed_providers @ embed_ai"

section \<open>The importable modules\<close>

text \<open>\<open>agent_module.js\<close> and \<open>ai_module.js\<close>: names re-exported unchanged from the bundle.\<close>

definition agent_core :: "string list" where
  "agent_core =
    [''Agent'', ''Mastra'', ''TripWire'', ''MessageList'', ''convertMessages'', ''TypeDetector'',
     ''createTool'', ''createWorkflow'', ''createStep'', ''Workflow'', ''cloneWorkflow'', ''cloneStep'',
     ''mapVariable'', ''Memory'', ''RequestContext'', ''z'', ''BackgroundTaskManager'',
     ''createBackgroundTask'', ''generateBackgroundTaskSystemPrompt'',
     ''__brainkitMastraBackgroundTaskDebug'']"

definition agent_harness :: "string list" where
  "agent_harness =
    [''Harness'', ''assignTaskIds'', ''askUserTool'', ''defaultDisplayState'', ''defaultOMProgressState'',
     ''parseSubagentMeta'', ''submitPlanTool'', ''taskWriteTool'', ''taskUpdateTool'', ''taskCompleteTool'',
     ''taskCheckTool'']"

definition agent_storage :: "string list" where
  "agent_storage =
    [''ConsoleLogger'', ''MultiLogger'', ''DualLogger'', ''InMemoryStore'', ''LibSQLStore'',
     ''UpstashStore'', ''PostgresStore'', ''MongoDBStore'', ''LibSQLVector'', ''PgVector'',
     ''MongoDBVector'', ''PineconeVector'', ''ChromaVector'', ''QdrantVector'', ''ModelRouterEmbeddingModel'']"

definition agent_workspace :: "string list" where
  "agent_workspace =
    [''Workspace'', ''LocalFilesystem'', ''LocalSandbox'', ''CompositeFilesystem'',
     ''WORKSPACE_TOOLS_PREFIX'', ''WORKSPACE_TOOLS'', ''createWorkspaceTools'', ''resolveToolConfig'',
     ''readFileTool'', ''writeFileTool'', ''editFileTool'', ''listFilesTool'', ''deleteFileTool'',
     ''fileStatTool'', ''mkdirTool'', ''searchTool'', ''indexContentTool'', ''executeCommandTool'',
     ''requireWorkspace'', ''requireFilesystem'', ''requireSandbox'', ''MastraBrowser'',
     ''BrowserContextProcessor'', ''AgentChannels'', ''ChatChannelProcessor'', ''MastraStateAdapter'']"

definition agent_rag :: "string list" where
  "agent_rag =
    [''MDocument'', ''GraphRAG'', ''createVectorQueryTool'', ''createDocumentChunkerTool'',
     ''createGraphRAGTool'', ''rerank'', ''rerankWithScorer'', ''CohereRelevanceScorer'',
     ''MastraAgentRelevanceScorer'', ''ZeroEntropyRelevanceScorer'']"

definition agent_observability :: "string list" where
  "agent_observability =
    [''Observability'', ''DefaultExporter'', ''SensitiveDataFilter'', ''BaseExporter'', ''CloudExporter'',
     ''ConsoleExporter'', ''TestExporter'', ''TrackingExporter'', ''chainFormatters'',
     ''BatchSpanProcessor'', ''SimpleSpanProcessor'', ''NoopSpanProcessor'', ''ConsoleSpanExporter'',
     ''InMemorySpanExporter'', ''BasicTracerProvider'', ''AlwaysOnSampler'', ''AlwaysOffSampler'',
     ''ParentBasedSampler'', ''TraceIdRatioBasedSampler'']"

definition agent_voice :: "string list" where
  "agent_voice =
    [''MastraVoice'', ''CompositeVoice'', ''DefaultVoice'', ''AISDKSpeech'', ''AISDKTranscription'',
     ''OpenAIVoice'', ''OpenAIRealtimeVoice'', ''AzureVoice'', ''ElevenLabsVoice'', ''CloudflareVoice'',
     ''DeepgramVoice'', ''PlayAIVoice'', ''PLAYAI_VOICES'', ''SpeechifyVoice'', ''SarvamVoice'',
     ''MurfVoice'']"

definition agent_evals :: "string list" where
  "agent_evals =
    [''createScorer'', ''runEvals'', ''MastraScorer'', ''registerHook'', ''executeHook'', ''AvailableHooks'',
     ''createCompletenessScorer'', ''createTextualDifferenceScorer'', ''createKeywordCoverageScorer'',
     ''createContentSimilarityScorer'', ''createToneScorer'', ''createAnswerRelevancyScorer'',
     ''createAnswerSimilarityScorer'', ''createFaithfulnessScorer'', ''createHallucinationScorer'',
     ''createBiasScorer'', ''createToxicityScorer'', ''createContextPrecisionScorer'',
     ''createContextRelevanceScorerLLM'', ''createNoiseSensitivityScorerLLM'',
     ''createPromptAlignmentScorerLLM'', ''createToolCallAccuracyScorerLLM'',
     ''createTrajectoryAccuracyScorerLLM'', ''createToolCallAccuracyScorerCode'',
     ''createTrajectoryAccuracyScorerCode'', ''createTrajectoryScorerCode'']"

definition agent_processors :: "string list" where
  "agent_processors =
    [''ModerationProcessor'', ''PromptInjectionDetector'', ''PIIDetector'', ''SystemPromptScrubber'',
     ''UnicodeNormalizer'', ''LanguageDetector'', ''TokenLimiterProcessor'', ''BatchPartsProcessor'',
     ''StructuredOutputProcessor'', ''ToolCallFilter'', ''ToolSearchProcessor'', ''AgentsMDInjector'',
     ''SkillsProcessor'', ''SkillSearchProcessor'', ''WorkspaceInstructionsProcessor'', ''ResponseCache'',
     ''DEFAULT_RESPONSE_CACHE_TTL_SECONDS'', ''RESPONSE_CACHE_CONTEXT_KEY'', ''buildResponseCacheKey'',
     ''InMemoryServerCache'', ''MastraServerCache'']"

definition ai_generation :: "string list" where
  "ai_generation =
    [''generateText'', ''streamText'', ''generateObject'', ''streamObject'', ''embed'', ''embedMany'', ''z'',
     ''tool'', ''dynamicTool'', ''jsonSchema'', ''zodSchema'', ''asSchema'', ''generateId'',
     ''createIdGenerator'', ''hasToolCall'', ''stepCountIs'', ''isLoopFinished'']"

definition ai_runtime :: "string list" where
  "ai_runtime =
    [''wrapLanguageModel'', ''wrapEmbeddingModel'', ''wrapImageModel'', ''wrapProvider'',
     ''extractReasoningMiddleware'', ''extractJsonMiddleware'', ''defaultSettingsMiddleware'',
     ''defaultEmbeddingSettingsMiddleware'', ''simulateStreamingMiddleware'', ''smoothStream'',
     ''addToolInputExamplesMiddleware'', ''createProviderRegistry'', ''customProvider'',
     ''experimental_createProviderRegistry'', ''experimental_customProvider'', ''convertToModelMessages'',
     ''pruneMessages'', ''validateUIMessages'', ''safeValidateUIMessages'', ''readUIMessageStream'',
     ''consumeStream'', ''convertFileListToFileUIParts'', ''generateImage'', ''experimental_generateImage'',
     ''experimental_generateVideo'', ''experimental_transcribe'', ''experimental_generateSpeech'',
     ''cosineSimilarity'', ''simulateReadableStream'', ''parsePartialJson'', ''parseJsonEventStream'',
     ''gateway'', ''createGateway'']"

definition ai_errors :: "string list" where
  "ai_errors =
    [''AISDKError'', ''APICallError'', ''NoObjectGeneratedError'', ''NoSuchModelError'', ''NoSuchToolError'',
     ''InvalidArgumentError'', ''InvalidDataContentError'', ''InvalidPromptError'',
     ''InvalidToolInputError'', ''NoContentGeneratedError'', ''NoSpeechGeneratedError'',
     ''NoTranscriptGeneratedError'', ''NoVideoGeneratedError'', ''RetryError'', ''ToolCallRepairError'',
     ''TypeValidationError'', ''MessageConversionError'', ''MissingToolResultsError'', ''LoadAPIKeyError'',
     ''InvalidToolApprovalError'', ''ToolCallNotFoundForApprovalError'']"

text \<open>\<open>kit_module.js\<close> and \<open>test_module.js\<close>.\<close>

definition kit_module_names :: "string list" where
  "kit_module_names =
    [''bus'', ''kit'', ''model'', ''embeddingModel'', ''provider'', ''storage'', ''vectorStore'',
     ''registry'', ''tools'', ''tool'', ''browser'', ''fs'', ''mcp'', ''output'', ''secrets'',
     ''generateWithApproval'']"

definition test_module_names :: "string list" where
  "test_module_names =
    [''test'', ''describe'', ''expect'', ''beforeAll'', ''afterAll'', ''beforeEach'', ''afterEach'',
     ''deploy'', ''deployFile'', ''sleep'', ''timeout'', ''sendTo'', ''evaluate'', ''runWorkflow'']"

section \<open>Endowments\<close>

text \<open>\<open>__kitEndowments\<close> in \<open>kit_runtime.js\<close>: the endowments copied unchanged from the bundle, and those copied
  unchanged from the runtime realm.\<close>

definition endow_ai :: "string list" where
  "endow_ai =
    [''generateText'', ''streamText'', ''generateObject'', ''streamObject'', ''embed'', ''embedMany'', ''z'']"

definition endow_mastra :: "string list" where
  "endow_mastra =
    [''Agent'', ''createStep'', ''Memory'', ''InMemoryStore'', ''UpstashStore'', ''PostgresStore'',
     ''MongoDBStore'', ''PgVector'', ''MongoDBVector'', ''PineconeVector'', ''ChromaVector'',
     ''QdrantVector'', ''ModelRouterEmbeddingModel'', ''RequestContext'', ''Workspace'', ''LocalFilesystem'',
     ''LocalSandbox'', ''WORKSPACE_TOOLS_PREFIX'', ''WORKSPACE_TOOLS'']"

definition endow_voice :: "string list" where
  "endow_voice =
    [''CompositeVoice'', ''MastraVoice'', ''OpenAIRealtimeVoice'', ''AzureVoice'', ''ElevenLabsVoice'',
     ''CloudflareVoice'', ''DeepgramVoice'', ''PlayAIVoice'', ''PLAYAI_VOICES'', ''SpeechifyVoice'',
     ''SarvamVoice'', ''MurfVoice'']"

definition endow_rag :: "string list" where
  "endow_rag =
    [''MDocument'', ''GraphRAG'', ''createVectorQueryTool'', ''createDocumentChunkerTool'',
     ''createGraphRAGTool'', ''rerank'', ''rerankWithScorer'', ''Observability'', ''DefaultExporter'',
     ''SensitiveDataFilter'', ''BatchSpanProcessor'', ''SimpleSpanProcessor'', ''NoopSpanProcessor'',
     ''ConsoleSpanExporter'', ''InMemorySpanExporter'', ''BasicTracerProvider'', ''AlwaysOnSampler'',
     ''AlwaysOffSampler'', ''ParentBasedSampler'', ''TraceIdRatioBasedSampler'']"

definition endow_evals :: "string list" where
  "endow_evals =
    [''createScorer'', ''runEvals'', ''createCompletenessScorer'', ''createTextualDifferenceScorer'',
     ''createKeywordCoverageScorer'', ''createContentSimilarityScorer'', ''createToneScorer'',
     ''createAnswerRelevancyScorer'', ''createAnswerSimilarityScorer'', ''createFaithfulnessScorer'',
     ''createHallucinationScorer'', ''createBiasScorer'', ''createToxicityScorer'',
     ''createContextPrecisionScorer'', ''createContextRelevanceScorerLLM'',
     ''createNoiseSensitivityScorerLLM'', ''createPromptAlignmentScorerLLM'',
     ''createToolCallAccuracyScorerLLM'']"

definition endow_processors :: "string list" where
  "endow_processors =
    [''ModerationProcessor'', ''SystemPromptScrubber'', ''UnicodeNormalizer'', ''LanguageDetector'',
     ''TokenLimiterProcessor'', ''BatchPartsProcessor'', ''StructuredOutputProcessor'', ''ToolCallFilter'',
     ''ToolSearchProcessor'', ''AgentsMDInjector'', ''SkillsProcessor'', ''SkillSearchProcessor'',
     ''WorkspaceInstructionsProcessor'', ''ResponseCache'', ''DEFAULT_RESPONSE_CACHE_TTL_SECONDS'',
     ''RESPONSE_CACHE_CONTEXT_KEY'', ''buildResponseCacheKey'', ''InMemoryServerCache'',
     ''MastraServerCache'']"

definition endow_agent :: "string list" where
  "endow_agent =
    [''Mastra'', ''TripWire'', ''MessageList'', ''convertMessages'', ''TypeDetector'', ''Workflow'',
     ''cloneWorkflow'', ''cloneStep'', ''mapVariable'', ''BackgroundTaskManager'', ''createBackgroundTask'',
     ''generateBackgroundTaskSystemPrompt'', ''__brainkitMastraBackgroundTaskDebug'', ''Harness'',
     ''assignTaskIds'', ''askUserTool'', ''defaultDisplayState'', ''defaultOMProgressState'',
     ''parseSubagentMeta'', ''submitPlanTool'', ''taskWriteTool'', ''taskUpdateTool'', ''taskCompleteTool'',
     ''taskCheckTool'', ''ConsoleLogger'', ''MultiLogger'', ''DualLogger'', ''MastraScorer'',
     ''registerHook'', ''executeHook'', ''AvailableHooks'', ''createTrajectoryAccuracyScorerLLM'',
     ''createToolCallAccuracyScorerCode'', ''createTrajectoryAccuracyScorerCode'',
     ''createTrajectoryScorerCode'', ''CohereRelevanceScorer'', ''MastraAgentRelevanceScorer'',
     ''ZeroEntropyRelevanceScorer'', ''CompositeFilesystem'', ''createWorkspaceTools'',
     ''resolveToolConfig'', ''readFileTool'', ''writeFileTool'', ''editFileTool'', ''listFilesTool'',
     ''deleteFileTool'', ''fileStatTool'', ''mkdirTool'', ''searchTool'', ''indexContentTool'',
     ''executeCommandTool'', ''requireWorkspace'', ''requireFilesystem'', ''requireSandbox'',
     ''MastraBrowser'', ''BrowserContextProcessor'', ''AgentChannels'', ''ChatChannelProcessor'',
     ''MastraStateAdapter'']"

definition endow_extended :: "string list" where
  "endow_extended =
    [''DefaultVoice'', ''AISDKSpeech'', ''AISDKTranscription'', ''BaseExporter'', ''CloudExporter'',
     ''ConsoleExporter'', ''TestExporter'', ''TrackingExporter'', ''chainFormatters'']"

definition endow_ai_extended :: "string list" where
  "endow_ai_extended =
    [''dynamicTool'', ''jsonSchema'', ''zodSchema'', ''asSchema'', ''generateId'', ''createIdGenerator'',
     ''hasToolCall'', ''stepCountIs'', ''isLoopFinished'', ''wrapLanguageModel'', ''wrapEmbeddingModel'',
     ''wrapImageModel'', ''wrapProvider'', ''extractReasoningMiddleware'', ''extractJsonMiddleware'',
     ''defaultSettingsMiddleware'', ''defaultEmbeddingSettingsMiddleware'', ''simulateStreamingMiddleware'',
     ''smoothStream'', ''addToolInputExamplesMiddleware'', ''createProviderRegistry'', ''customProvider'',
     ''experimental_createProviderRegistry'', ''experimental_customProvider'', ''convertToModelMessages'',
     ''pruneMessages'', ''validateUIMessages'', ''safeValidateUIMessages'', ''readUIMessageStream'',
     ''consumeStream'', ''convertFileListToFileUIParts'', ''generateImage'', ''experimental_generateImage'',
     ''experimental_generateVideo'', ''experimental_transcribe'', ''experimental_generateSpeech'',
     ''cosineSimilarity'', ''simulateReadableStream'', ''parsePartialJson'', ''parseJsonEventStream'',
     ''gateway'', ''createGateway'', ''AISDKError'', ''APICallError'', ''NoObjectGeneratedError'',
     ''NoSuchModelError'', ''NoSuchToolError'', ''InvalidArgumentError'', ''InvalidDataContentError'',
     ''InvalidPromptError'', ''InvalidToolInputError'', ''NoContentGeneratedError'',
     ''NoSpeechGeneratedError'', ''NoTranscriptGeneratedError'', ''NoVideoGeneratedError'', ''RetryError'',
     ''ToolCallRepairError'', ''TypeValidationError'', ''MessageConversionError'',
     ''MissingToolResultsError'', ''LoadAPIKeyError'', ''InvalidToolApprovalError'',
     ''ToolCallNotFoundForApprovalError'']"

definition endow_platform :: "string list" where
  "endow_platform =
    [''Error'', ''fs'', ''Promise'', ''clearTimeout'', ''clearInterval'', ''queueMicrotask'',
     ''setImmediate'', ''clearImmediate'', ''fetch'', ''Request'', ''Response'', ''Headers'', ''FormData'',
     ''Blob'', ''File'', ''Audio'', ''URL'', ''URLSearchParams'', ''AbortController'', ''AbortSignal'',
     ''TextEncoder'', ''TextDecoder'', ''ReadableStream'', ''WritableStream'', ''TransformStream'',
     ''TextDecoderStream'', ''TextEncoderStream'', ''atob'', ''btoa'', ''crypto'', ''Intl'', ''WebSocket'',
     ''structuredClone'', ''GoSocket'', ''process'', ''Buffer'', ''EventEmitter'', ''stream'', ''net'',
     ''tls'', ''os'', ''path'', ''dns'', ''zlib'', ''child_process'', ''http'', ''https'', ''node_url'',
     ''node_module'', ''util'', ''utilTypes'', ''assert'', ''querystring'', ''StringDecoder'',
     ''perf_hooks'', ''timersPromises'', ''async_hooks'', ''diagnostics_channel'', ''worker_threads'']"

definition endow_direct :: "string list" where
  "endow_direct = endow_ai @ endow_mastra @ endow_voice @ endow_rag @ endow_evals @ endow_processors @ endow_agent @ endow_extended @ endow_ai_extended"

text \<open>Where the value of an export or endowment comes from.\<close>

datatype name_source =
    FromEmbed string
  | FromEmbedOr string string
  | FromKit string
  | FromGlobal string
  | FromGlobalPart string string
  | WithSource name_source
  | Local string

definition direct :: "string list \<Rightarrow> (string \<times> name_source) list" where
  "direct ks = map (\<lambda>k. (k, FromEmbed k)) ks"

definition runtime_context :: "(string \<times> name_source) list" where
  "runtime_context = [(''RuntimeContext'', FromEmbedOr ''RuntimeContext'' ''RequestContext'')]"

definition agent_module :: "(string \<times> name_source) list" where
  "agent_module = direct (agent_core @ agent_harness @ agent_storage @ agent_workspace @ agent_rag @ agent_observability @ agent_voice @ agent_evals @ agent_processors) @ runtime_context"

definition ai_module :: "(string \<times> name_source) list" where
  "ai_module = direct (ai_generation @ ai_runtime @ ai_errors)"

definition kit_module :: "(string \<times> name_source) list" where
  "kit_module = map (\<lambda>k. (k, FromKit k)) kit_module_names"

text \<open>The keys of \<open>globalThis.__kit\<close> and of \<open>globalThis.__test\<close>.\<close>

definition kit_keys :: "string list" where
  "kit_keys =
    [''bus'', ''kit'', ''model'', ''embeddingModel'', ''provider'', ''__clearProviderCache'', ''__clearRegistryCache'',
     ''storage'', ''vectorStore'', ''registry'', ''tools'', ''browser'', ''fs'', ''mcp'', ''output'', ''secrets'',
     ''generateWithApproval'', ''createHarness'', ''destroyHarness'']"

definition test_keys :: "string list" where
  "test_keys =
    [''test'', ''describe'', ''beforeAll'', ''afterAll'', ''beforeEach'', ''afterEach'', ''timeout'', ''expect'',
     ''deploy'', ''deployFile'', ''sleep'', ''sendTo'', ''evaluate'', ''runWorkflow'']"

text \<open>The endowments of the \<open>kit\<close> surface: the runtime's own objects and the closures of this function.\<close>

definition endow_kit :: "(string \<times> name_source) list" where
  "endow_kit =
    [(''BrainkitError'', FromGlobal ''BrainkitError''), (''bus'', Local ''bus''), (''kit'', Local ''kit''),
     (''model'', FromKit ''model''), (''embeddingModel'', FromKit ''embeddingModel''),
     (''provider'', FromKit ''provider''), (''storage'', FromKit ''storage''),
     (''vectorStore'', FromKit ''vectorStore''), (''registry'', FromKit ''registry''), (''tools'', Local ''tools''),
     (''browser'', Local ''browser''), (''tool'', Local ''tool''), (''mcp'', FromKit ''mcp''),
     (''output'', FromKit ''output''), (''secrets'', Local ''secrets''), (''reference'', Local ''reference''),
     (''generateWithApproval'', FromKit ''generateWithApproval'')]"

text \<open>Bundle exports that are wrapped, guarded or patched before they are endowed.\<close>

definition endow_wrapped :: "(string \<times> name_source) list" where
  "endow_wrapped =
    [(''createTool'', WithSource (FromEmbed ''createTool'')),
     (''createWorkflow'', WithSource (FromEmbed ''createWorkflow'')), (''LibSQLStore'', Local ''LibSQLStore''),
     (''LibSQLVector'', Local ''LibSQLVector''), (''OpenAIVoice'', Local ''OpenAIVoice''),
     (''PromptInjectionDetector'', Local ''PromptInjectionDetector''), (''PIIDetector'', Local ''PIIDetector'')]"

definition endow_shims :: "(string \<times> name_source) list" where
  "endow_shims =
    [(''console'', Local ''console''), (''JSON'', FromGlobal ''JSON''),
     (''setTimeout'', WithSource (FromGlobal ''setTimeout'')), (''setInterval'', WithSource (FromGlobal ''setInterval'')),
     (''Date'', Local ''Date''), (''Math'', Local ''Math''), (''Readable'', FromGlobalPart ''stream'' ''Readable''),
     (''Writable'', FromGlobalPart ''stream'' ''Writable''), (''Duplex'', FromGlobalPart ''stream'' ''Duplex''),
     (''Transform'', FromGlobalPart ''stream'' ''Transform''), (''PassThrough'', FromGlobalPart ''stream'' ''PassThrough''),
     (''require'', Local ''require''), (''global'', Local ''endowments'')]"

definition endowment_table :: "(string \<times> name_source) list" where
  "endowment_table = endow_kit @ direct endow_direct @ endow_wrapped @ runtime_context
     @ map (\<lambda>k. (k, FromGlobal k)) endow_platform @ endow_shims"

section \<open>Values\<close>

text \<open>
  The objects the names are read from. An endowment is a value as it is, a function that runs the
  value under the deployment's source, or a closure made for the deployment.
\<close>

record realm =
  rl_embed :: jsval
  rl_kit :: jsval
  rl_global :: jsval

datatype endowed = Plain jsval | Scoped string endowed | Closure string string

fun source_value :: "realm \<Rightarrow> string \<Rightarrow> name_source \<Rightarrow> endowed" where
  "source_value r src (FromEmbed k) = Plain (getp (rl_embed r) k)"
| "source_value r src (FromEmbedOr j k) = Plain (js_or (getp (rl_embed r) j) (getp (rl_embed r) k))"
| "source_value r src (FromKit k) = Plain (getp (rl_kit r) k)"
| "source_value r src (FromGlobal k) = Plain (getp (rl_global r) k)"
| "source_value r src (FromGlobalPart p k) = Plain (and_prop (getp (rl_global r) p) k)"
| "source_value r src (WithSource e) = Scoped src (source_value r src e)"
| "source_value r src (Local c) = Closure c src"

definition bindings :: "realm \<Rightarrow> string \<Rightarrow> (string \<times> name_source) list \<Rightarrow> (string \<times> endowed) list" where
  "bindings r src t = map (\<lambda>p. (fst p, source_value r src (snd p))) t"

definition kitEndowments :: "realm \<Rightarrow> string \<Rightarrow> (string \<times> endowed) list" where
  "kitEndowments r src = bindings r src endowment_table"

text \<open>The names read from the bundle; a read with a fallback needs the fallback only.\<close>

fun embed_read :: "name_source \<Rightarrow> string list" where
  "embed_read (FromEmbed k) = [k]"
| "embed_read (FromEmbedOr j k) = [k]"
| "embed_read (WithSource e) = embed_read e"
| "embed_read e = []"

definition embed_reads :: "(string \<times> name_source) list \<Rightarrow> string list" where
  "embed_reads t = concat (map (\<lambda>p. embed_read (snd p)) t)"

section \<open>Inclusions of the name tables\<close>

lemma name_head: "x \<in> set (x # xs)"
  by simp

lemma name_tail: "x \<in> set xs \<Longrightarrow> x \<in> set (y # xs)"
  by simp

lemma names_done: "set [] \<subseteq> A"
  by simp

lemma names_step: "x \<in> A \<Longrightarrow> set xs \<subseteq> A \<Longrightarrow> set (x # xs) \<subseteq> A"
  by simp

definition wrapped_names :: "string list" where
  "wrapped_names = [''createTool'', ''createWorkflow'', ''LibSQLStore'', ''LibSQLVector'', ''OpenAIVoice'',
     ''PromptInjectionDetector'', ''PIIDetector'', ''tool'']"

lemma agent_core_bundled: "set agent_core \<subseteq> set embed_keys"
proof -
  have "set agent_core \<subseteq> set (embed_core)"
    unfolding agent_core_def embed_core_def append.simps
    by (intro names_done names_step; (rule name_head name_tail)+)
  then show ?thesis by (rule subset_trans) (auto simp: embed_keys_def)
qed

lemma agent_core_endowed: "set agent_core \<subseteq> set endow_direct \<union> set wrapped_names"
proof -
  have "set agent_core \<subseteq> set (endow_ai @ endow_mastra @ endow_agent @ wrapped_names)"
    unfolding agent_core_def endow_ai_def endow_mastra_def endow_agent_def wrapped_names_def append.simps
    by (intro names_done names_step; (rule name_head name_tail)+)
  then show ?thesis by (rule subset_trans) (auto simp: endow_direct_def)
qed

lemma agent_harness_bundled: "set agent_harness \<subseteq> set embed_keys"
proof -
  have "set agent_harness \<subseteq> set (embed_harness)"
    unfolding agent_harness_def embed_harness_def append.simps
    by (intro names_done names_step; (rule name_head name_tail)+)
  then show ?thesis by (rule subset_trans) (auto simp: embed_keys_def)
qed

lemma agent_harness_endowed: "set agent_harness \<subseteq> set endow_direct \<union> set wrapped_names"
proof -
  have "set agent_harness \<subseteq> set (endow_agent)"
    unfolding agent_harness_def endow_agent_def append.simps
    by (intro names_done names_step; (rule name_head name_tail)+)
  then show ?thesis by (rule subset_trans) (auto simp: endow_direct_def)
qed

lemma agent_storage_bundled: "set agent_storage \<subseteq> set embed_keys"
proof -
  have "set agent_storage \<subseteq> set (embed_core)"
    unfolding agent_storage_def embed_core_def append.simps
    by (intro names_done names_step; (rule name_head name_tail)+)
  then show ?thesis by (rule subset_trans) (auto simp: embed_keys_def)
qed

lemma agent_storage_endowed: "set agent_storage \<subseteq> set endow_direct \<union> set wrapped_names"
proof -
  have "set agent_storage \<subseteq> set (endow_mastra @ endow_agent @ wrapped_names)"
    unfolding agent_storage_def endow_mastra_def endow_agent_def wrapped_names_def append.simps
    by (intro names_done names_step; (rule name_head name_tail)+)
  then show ?thesis by (rule subset_trans) (auto simp: endow_direct_def)
qed

lemma agent_workspace_bundled: "set agent_workspace \<subseteq> set embed_keys"
proof -
  have "set agent_workspace \<subseteq> set (embed_workspace)"
    unfolding agent_workspace_def embed_workspace_def append.simps
    by (intro names_done names_step; (rule name_head name_tail)+)
  then show ?thesis by (rule subset_trans) (auto simp: embed_keys_def)
qed

lemma agent_workspace_endowed: "set agent_workspace \<subseteq> set endow_direct \<union> set wrapped_names"
proof -
  have "set agent_workspace \<subseteq> set (endow_mastra @ endow_agent)"
    unfolding agent_workspace_def endow_mastra_def endow_agent_def append.simps
    by (intro names_done names_step; (rule name_head name_tail)+)
  then show ?thesis by (rule subset_trans) (auto simp: endow_direct_def)
qed

lemma agent_rag_bundled: "set agent_rag \<subseteq> set embed_keys"
proof -
  have "set agent_rag \<subseteq> set (embed_rag)"
    unfolding agent_rag_def embed_rag_def append.simps
    by (intro names_done names_step; (rule name_head name_tail)+)
  then show ?thesis by (rule subset_trans) (auto simp: embed_keys_def)
qed

lemma agent_rag_endowed: "set agent_rag \<subseteq> set endow_direct \<union> set wrapped_names"
proof -
  have "set agent_rag \<subseteq> set (endow_rag @ endow_agent)"
    unfolding agent_rag_def endow_rag_def endow_agent_def append.simps
    by (intro names_done names_step; (rule name_head name_tail)+)
  then show ?thesis by (rule subset_trans) (auto simp: endow_direct_def)
qed

lemma agent_observability_bundled: "set agent_observability \<subseteq> set embed_keys"
proof -
  have "set agent_observability \<subseteq> set (embed_observability)"
    unfolding agent_observability_def embed_observability_def append.simps
    by (intro names_done names_step; (rule name_head name_tail)+)
  then show ?thesis by (rule subset_trans) (auto simp: embed_keys_def)
qed

lemma agent_observability_endowed: "set agent_observability \<subseteq> set endow_direct \<union> set wrapped_names"
proof -
  have "set agent_observability \<subseteq> set (endow_rag @ endow_extended)"
    unfolding agent_observability_def endow_rag_def endow_extended_def append.simps
    by (intro names_done names_step; (rule name_head name_tail)+)
  then show ?thesis by (rule subset_trans) (auto simp: endow_direct_def)
qed

lemma agent_voice_bundled: "set agent_voice \<subseteq> set embed_keys"
proof -
  have "set agent_voice \<subseteq> set (embed_voice)"
    unfolding agent_voice_def embed_voice_def append.simps
    by (intro names_done names_step; (rule name_head name_tail)+)
  then show ?thesis by (rule subset_trans) (auto simp: embed_keys_def)
qed

lemma agent_voice_endowed: "set agent_voice \<subseteq> set endow_direct \<union> set wrapped_names"
proof -
  have "set agent_voice \<subseteq> set (endow_voice @ endow_extended @ wrapped_names)"
    unfolding agent_voice_def endow_voice_def endow_extended_def wrapped_names_def append.simps
    by (intro names_done names_step; (rule name_head name_tail)+)
  then show ?thesis by (rule subset_trans) (auto simp: endow_direct_def)
qed

lemma agent_evals_bundled: "set agent_evals \<subseteq> set embed_keys"
proof -
  have "set agent_evals \<subseteq> set (embed_evals)"
    unfolding agent_evals_def embed_evals_def append.simps
    by (intro names_done names_step; (rule name_head name_tail)+)
  then show ?thesis by (rule subset_trans) (auto simp: embed_keys_def)
qed

lemma agent_evals_endowed: "set agent_evals \<subseteq> set endow_direct \<union> set wrapped_names"
proof -
  have "set agent_evals \<subseteq> set (endow_evals @ endow_agent)"
    unfolding agent_evals_def endow_evals_def endow_agent_def append.simps
    by (intro names_done names_step; (rule name_head name_tail)+)
  then show ?thesis by (rule subset_trans) (auto simp: endow_direct_def)
qed

lemma agent_processors_bundled: "set agent_processors \<subseteq> set embed_keys"
proof -
  have "set agent_processors \<subseteq> set (embed_processors)"
    unfolding agent_processors_def embed_processors_def append.simps
    by (intro names_done names_step; (rule name_head name_tail)+)
  then show ?thesis by (rule subset_trans) (auto simp: embed_keys_def)
qed

lemma agent_processors_endowed: "set agent_processors \<subseteq> set endow_direct \<union> set wrapped_names"
proof -
  have "set agent_processors \<subseteq> set (endow_processors @ wrapped_names)"
    unfolding agent_processors_def endow_processors_def wrapped_names_def append.simps
    by (intro names_done names_step; (rule name_head name_tail)+)
  then show ?thesis by (rule subset_trans) (auto simp: endow_direct_def)
qed

lemma ai_generation_bundled: "set ai_generation \<subseteq> set embed_keys"
proof -
  have "set ai_generation \<subseteq> set (embed_core @ embed_ai)"
    unfolding ai_generation_def embed_core_def embed_ai_def append.simps
    by (intro names_done names_step; (rule name_head name_tail)+)
  then show ?thesis by (rule subset_trans) (auto simp: embed_keys_def)
qed

lemma ai_generation_endowed: "set ai_generation \<subseteq> set endow_direct \<union> set wrapped_names"
proof -
  have "set ai_generation \<subseteq> set (endow_ai @ endow_ai_extended @ wrapped_names)"
    unfolding ai_generation_def endow_ai_def endow_ai_extended_def wrapped_names_def append.simps
    by (intro names_done names_step; (rule name_head name_tail)+)
  then show ?thesis by (rule subset_trans) (auto simp: endow_direct_def)
qed

lemma ai_runtime_bundled: "set ai_runtime \<subseteq> set embed_keys"
proof -
  have "set ai_runtime \<subseteq> set (embed_ai)"
    unfolding ai_runtime_def embed_ai_def append.simps
    by (intro names_done names_step; (rule name_head name_tail)+)
  then show ?thesis by (rule subset_trans) (auto simp: embed_keys_def)
qed

lemma ai_runtime_endowed: "set ai_runtime \<subseteq> set endow_direct \<union> set wrapped_names"
proof -
  have "set ai_runtime \<subseteq> set (endow_ai_extended)"
    unfolding ai_runtime_def endow_ai_extended_def append.simps
    by (intro names_done names_step; (rule name_head name_tail)+)
  then show ?thesis by (rule subset_trans) (auto simp: endow_direct_def)
qed

lemma ai_errors_bundled: "set ai_errors \<subseteq> set embed_keys"
proof -
  have "set ai_errors \<subseteq> set (embed_ai)"
    unfolding ai_errors_def embed_ai_def append.simps
    by (intro names_done names_step; (rule name_head name_tail)+)
  then show ?thesis by (rule subset_trans) (auto simp: embed_keys_def)
qed

lemma ai_errors_endowed: "set ai_errors \<subseteq> set endow_direct \<union> set wrapped_names"
proof -
  have "set ai_errors \<subseteq> set (endow_ai_extended)"
    unfolding ai_errors_def endow_ai_extended_def append.simps
    by (intro names_done names_step; (rule name_head name_tail)+)
  then show ?thesis by (rule subset_trans) (auto simp: endow_direct_def)
qed

lemma endow_ai_bundled: "set endow_ai \<subseteq> set embed_keys"
proof -
  have "set endow_ai \<subseteq> set (embed_core)"
    unfolding endow_ai_def embed_core_def append.simps
    by (intro names_done names_step; (rule name_head name_tail)+)
  then show ?thesis by (rule subset_trans) (auto simp: embed_keys_def)
qed

lemma endow_mastra_bundled: "set endow_mastra \<subseteq> set embed_keys"
proof -
  have "set endow_mastra \<subseteq> set (embed_core @ embed_workspace)"
    unfolding endow_mastra_def embed_core_def embed_workspace_def append.simps
    by (intro names_done names_step; (rule name_head name_tail)+)
  then show ?thesis by (rule subset_trans) (auto simp: embed_keys_def)
qed

lemma endow_voice_bundled: "set endow_voice \<subseteq> set embed_keys"
proof -
  have "set endow_voice \<subseteq> set (embed_voice)"
    unfolding endow_voice_def embed_voice_def append.simps
    by (intro names_done names_step; (rule name_head name_tail)+)
  then show ?thesis by (rule subset_trans) (auto simp: embed_keys_def)
qed

lemma endow_rag_bundled: "set endow_rag \<subseteq> set embed_keys"
proof -
  have "set endow_rag \<subseteq> set (embed_rag @ embed_observability)"
    unfolding endow_rag_def embed_rag_def embed_observability_def append.simps
    by (intro names_done names_step; (rule name_head name_tail)+)
  then show ?thesis by (rule subset_trans) (auto simp: embed_keys_def)
qed

lemma endow_evals_bundled: "set endow_evals \<subseteq> set embed_keys"
proof -
  have "set endow_evals \<subseteq> set (embed_evals)"
    unfolding endow_evals_def embed_evals_def append.simps
    by (intro names_done names_step; (rule name_head name_tail)+)
  then show ?thesis by (rule subset_trans) (auto simp: embed_keys_def)
qed

lemma endow_processors_bundled: "set endow_processors \<subseteq> set embed_keys"
proof -
  have "set endow_processors \<subseteq> set (embed_processors)"
    unfolding endow_processors_def embed_processors_def append.simps
    by (intro names_done names_step; (rule name_head name_tail)+)
  then show ?thesis by (rule subset_trans) (auto simp: embed_keys_def)
qed

lemma endow_agent_bundled: "set endow_agent \<subseteq> set embed_keys"
proof -
  have "set endow_agent \<subseteq> set (embed_core @ embed_evals @ embed_rag @ embed_workspace @ embed_harness)"
    unfolding endow_agent_def embed_core_def embed_evals_def embed_rag_def embed_workspace_def embed_harness_def append.simps
    by (intro names_done names_step; (rule name_head name_tail)+)
  then show ?thesis by (rule subset_trans) (auto simp: embed_keys_def)
qed

lemma endow_extended_bundled: "set endow_extended \<subseteq> set embed_keys"
proof -
  have "set endow_extended \<subseteq> set (embed_observability @ embed_voice)"
    unfolding endow_extended_def embed_observability_def embed_voice_def append.simps
    by (intro names_done names_step; (rule name_head name_tail)+)
  then show ?thesis by (rule subset_trans) (auto simp: embed_keys_def)
qed

lemma endow_ai_extended_bundled: "set endow_ai_extended \<subseteq> set embed_keys"
proof -
  have "set endow_ai_extended \<subseteq> set (embed_ai)"
    unfolding endow_ai_extended_def embed_ai_def append.simps
    by (intro names_done names_step; (rule name_head name_tail)+)
  then show ?thesis by (rule subset_trans) (auto simp: embed_keys_def)
qed

lemmas bundled = agent_core_bundled agent_harness_bundled agent_storage_bundled agent_workspace_bundled agent_rag_bundled agent_observability_bundled agent_voice_bundled agent_evals_bundled agent_processors_bundled ai_generation_bundled ai_runtime_bundled ai_errors_bundled endow_ai_bundled endow_mastra_bundled endow_voice_bundled endow_rag_bundled endow_evals_bundled endow_processors_bundled endow_agent_bundled endow_extended_bundled endow_ai_extended_bundled

lemmas endowed_groups = agent_core_endowed agent_harness_endowed agent_storage_endowed agent_workspace_endowed agent_rag_endowed agent_observability_endowed agent_voice_endowed agent_evals_endowed agent_processors_endowed ai_generation_endowed ai_runtime_endowed ai_errors_endowed

section \<open>Properties\<close>

lemma direct_simps [simp]:
  "map fst (direct ks) = ks" "fst ` set (direct ks) = set ks" "set (direct ks) = (\<lambda>k. (k, FromEmbed k)) ` set ks"
  by (simp_all add: direct_def o_def image_image)

lemma embed_reads_simps [simp]:
  "embed_reads (s @ t) = embed_reads s @ embed_reads t" "embed_reads (direct ks) = ks"
  "embed_reads (map (\<lambda>k. (k, FromGlobal k)) ks) = []"
  by (induction ks) (simp_all add: embed_reads_def direct_def)

lemma embed_core_keys: "set embed_core \<subseteq> set embed_keys"
  by (simp add: embed_keys_def)


text \<open>
  Remark: No import is dead: every name that the \<open>agent\<close> and \<open>ai\<close> modules re-export, and every name the
  endowments copy or wrap, is a key of the embedded bundle; every name of the \<open>test\<close> module is a key of
  \<open>globalThis.__test\<close>; and of the \<open>kit\<close> module exactly one export, \<open>tool\<close>, reads a key that
  \<open>globalThis.__kit\<close> does not have.
\<close>

theorem reexports_resolve:
  "set (embed_reads (agent_module @ ai_module @ endowment_table)) \<subseteq> set embed_keys
    \<and> set test_module_names = set test_keys
    \<and> filter (\<lambda>k. k \<notin> set kit_keys) kit_module_names = [''tool'']"
proof (intro conjI)
  have wrapped: "set (embed_reads endow_wrapped @ embed_reads runtime_context) \<subseteq> set embed_core"
    "embed_reads endow_kit = []" "embed_reads endow_shims = []"
    by (simp_all add: embed_reads_def endow_wrapped_def runtime_context_def endow_kit_def endow_shims_def embed_core_def)
  show "set (embed_reads (agent_module @ ai_module @ endowment_table)) \<subseteq> set embed_keys"
    using bundled wrapped embed_core_keys
    by (auto simp: agent_module_def ai_module_def endowment_table_def endow_direct_def)
  show "set test_module_names = set test_keys"
    by (auto simp: test_module_names_def test_keys_def)
  show "filter (\<lambda>k. k \<notin> set kit_keys) kit_module_names = [''tool'']"
    by (simp add: kit_module_names_def kit_keys_def)
qed

text \<open>
  Remark: Stripping imports is sound: every name the \<open>agent\<close>, \<open>ai\<close> and \<open>kit\<close> modules export is endowed, and
  with exactly the imported value, except for eight bundle exports that are endowed wrapped or guarded;
  the imports and the endowments of a deployment agree on everything else.
\<close>

theorem imports_endowed:
  "set (bindings r src (agent_module @ ai_module))
      \<subseteq> set (kitEndowments r src) \<union> set (bindings r src (direct wrapped_names))
    \<and> set (map fst (agent_module @ ai_module @ kit_module)) \<subseteq> set (map fst (kitEndowments r src))"
proof
  have names: "set agent_core \<union> set agent_harness \<union> set agent_storage \<union> set agent_workspace \<union> set agent_rag
      \<union> set agent_observability \<union> set agent_voice \<union> set agent_evals \<union> set agent_processors
      \<union> set ai_generation \<union> set ai_runtime \<union> set ai_errors \<subseteq> set endow_direct \<union> set wrapped_names"
    using endowed_groups by simp
  then have t: "set (agent_module @ ai_module) \<subseteq> set endowment_table \<union> set (direct wrapped_names)"
    by (auto simp: agent_module_def ai_module_def endowment_table_def)
  show "set (bindings r src (agent_module @ ai_module))
      \<subseteq> set (kitEndowments r src) \<union> set (bindings r src (direct wrapped_names))"
    using image_mono [OF t, of "\<lambda>p. (fst p, source_value r src (snd p))"]
    by (simp add: bindings_def kitEndowments_def image_Un)
  have keys: "map fst (kitEndowments r src) = map fst endowment_table"
    by (simp add: kitEndowments_def bindings_def)
  have "set wrapped_names \<subseteq> set (map fst (endow_kit @ endow_wrapped))"
    by (simp add: wrapped_names_def endow_kit_def endow_wrapped_def)
  moreover have "set kit_module_names \<subseteq> set (map fst endow_kit) \<union> set endow_platform"
    by (simp add: kit_module_names_def endow_kit_def endow_platform_def)
  ultimately show "set (map fst (agent_module @ ai_module @ kit_module)) \<subseteq> set (map fst (kitEndowments r src))"
    unfolding keys using names
    by (auto simp: agent_module_def ai_module_def kit_module_def endowment_table_def image_image runtime_context_def)
qed

section \<open>Guarded names\<close>

text \<open>The names whose endowment is a wrapper, a guard or a closure of the deployment.\<close>

definition guarded_names :: "string list" where
  "guarded_names =
     [''tool'', ''createTool'', ''createWorkflow'', ''LibSQLStore'', ''LibSQLVector'', ''PromptInjectionDetector'',
      ''PIIDetector'', ''bus'', ''kit'', ''tools'', ''secrets'', ''setTimeout'', ''setInterval'', ''Date'', ''Math'', ''console'']"

definition guarded :: "(string \<times> 'a) list \<Rightarrow> (string \<times> 'a) list" where
  "guarded t = filter (\<lambda>p. fst p \<in> set guarded_names) t"

definition unguarded :: "string list \<Rightarrow> bool" where
  "unguarded ks \<longleftrightarrow> list_all (\<lambda>k. k \<notin> set guarded_names) ks"

lemma guarded_append: "guarded (s @ t) = guarded s @ guarded t"
  by (simp add: guarded_def)

lemma guarded_bindings: "guarded (bindings r src t) = bindings r src (guarded t)"
  by (induction t) (simp_all add: guarded_def bindings_def)

lemma guarded_direct: "unguarded ks \<Longrightarrow> guarded (direct ks) = []"
  by (auto simp: guarded_def direct_def unguarded_def list_all_iff filter_empty_conv)

lemma guarded_globals: "unguarded ks \<Longrightarrow> guarded (map (\<lambda>k. (k, FromGlobal k)) ks) = []"
  by (auto simp: guarded_def unguarded_def list_all_iff filter_empty_conv)

lemma direct_append: "direct (xs @ ys) = direct xs @ direct ys"
  by (simp add: direct_def)

lemma unguarded_bundle:
  "unguarded endow_ai" "unguarded endow_mastra" "unguarded endow_voice" "unguarded endow_rag" "unguarded endow_evals"
  by (simp_all add: unguarded_def guarded_names_def endow_ai_def endow_mastra_def endow_voice_def endow_rag_def
      endow_evals_def)

lemma unguarded_more:
  "unguarded endow_processors" "unguarded endow_agent" "unguarded endow_extended" "unguarded endow_ai_extended"
  by (simp_all add: unguarded_def guarded_names_def endow_processors_def endow_agent_def endow_extended_def
      endow_ai_extended_def)

lemma unguarded_platform: "unguarded endow_platform"
  by (simp add: unguarded_def guarded_names_def endow_platform_def)

text \<open>
  Remark: No guard is shadowed: among all the entries of the endowment literal, each wrapped or guarded name
  occurs once, with its wrapper; in particular \<open>tool\<close> is the dispatcher and not the bundle's \<open>tool\<close>,
  stores are only reachable through the URL guard, and timers and tool or workflow constructors run
  under the deployment's source.
\<close>

theorem guards_not_shadowed:
  "guarded (kitEndowments r src) =
     [(''bus'', Closure ''bus'' src), (''kit'', Closure ''kit'' src), (''tools'', Closure ''tools'' src),
      (''tool'', Closure ''tool'' src), (''secrets'', Closure ''secrets'' src),
      (''createTool'', Scoped src (Plain (getp (rl_embed r) ''createTool''))),
      (''createWorkflow'', Scoped src (Plain (getp (rl_embed r) ''createWorkflow''))),
      (''LibSQLStore'', Closure ''LibSQLStore'' src), (''LibSQLVector'', Closure ''LibSQLVector'' src),
      (''PromptInjectionDetector'', Closure ''PromptInjectionDetector'' src),
      (''PIIDetector'', Closure ''PIIDetector'' src), (''console'', Closure ''console'' src),
      (''setTimeout'', Scoped src (Plain (getp (rl_global r) ''setTimeout''))),
      (''setInterval'', Scoped src (Plain (getp (rl_global r) ''setInterval''))),
      (''Date'', Closure ''Date'' src), (''Math'', Closure ''Math'' src)]"
proof -
  have "guarded (direct endow_direct) = []"
    by (simp add: endow_direct_def direct_append guarded_append guarded_direct unguarded_bundle unguarded_more
        del: direct_simps)
  then show ?thesis
    by (simp add: kitEndowments_def guarded_bindings endowment_table_def guarded_append guarded_globals
        unguarded_platform del: direct_simps)
       (simp add: guarded_def guarded_names_def endow_kit_def endow_wrapped_def runtime_context_def endow_shims_def
        bindings_def)
qed

end
