(* ===== verification/Endowments.thy ===== *)
theory Endowments
  imports Bus Dispatch Harness
begin

text \<open>
  \<open>kit_runtime.js\<close>, the endowments that are closures of a deployment: the \<open>tool\<close> dispatcher, the URL guards of
  the file-backed stores, the browser and reference calls, the detector processors and the voice patch.
  \<open>built c v\<close> stands for an object that the bundle's constructor or function \<open>c\<close> made of \<open>v\<close>.
\<close>

section \<open>The unified tool endowment\<close>

text \<open>\<open>(input && input.context !== undefined) ? input.context : input\<close>\<close>

definition context_args :: "jsval \<Rightarrow> jsval" where
  "context_args input =
     (if truthy input \<and> getp input ''context'' \<noteq> JUndef then getp input ''context'' else input)"

definition tool_schema :: "harness_env \<Rightarrow> jsval \<Rightarrow> jsval" where
  "tool_schema env info =
     (case getp info ''inputSchema'' of
        JStr s \<Rightarrow> (if s = [] then JNull
                  else case he_parse env s of Inl e \<Rightarrow> JNull | Inr v \<Rightarrow> v)
      | v \<Rightarrow> if truthy v \<and> is_object v then v else JNull)"

text \<open>
  A string names a registered tool; anything else is passed to the bundle's \<open>tool\<close> when it is a
  function (\<open>passed\<close>) and returned as it is otherwise.
\<close>

definition endow_tool :: "harness_env \<Rightarrow> (jsval \<Rightarrow> jsval + jsval) option \<Rightarrow> jsval \<Rightarrow> jsval + jsval" where
  "endow_tool env passed v =
     (case v of
        JStr name \<Rightarrow>
          (case he_tool env (JStr name) of
             Inl e \<Rightarrow> Inl e
           | Inr info \<Rightarrow>
               if \<not> truthy info then
                 Inl (JErr PlainError (''tool '' @ squote @ name @ squote @ '' not found'') [])
               else Inr (built ''createTool''
                      (JObj [(''id'', js_or (getp info ''shortName'') (JStr name)),
                             (''description'', js_or (getp info ''description'') (JStr [])),
                             (''inputSchema'', js_or (tool_schema env info) (built ''z.any'' JUndef)),
                             (''execute'', built ''tools.call'' (JStr name))])))
      | _ \<Rightarrow> (case passed of Some f \<Rightarrow> f v | None \<Rightarrow> Inr v))"

text \<open>The \<open>execute\<close> of such a tool: the arguments are unwrapped and the host is asked.\<close>

definition tool_execute :: "host \<Rightarrow> (jsval \<Rightarrow> string) \<Rightarrow> string \<Rightarrow> jsval \<Rightarrow> jsval js" where
  "tool_execute h fmt name input = tools_call h fmt (JStr name) (context_args input)"

section \<open>Guards of file-backed stores\<close>

text \<open>The dash of the message is written in ASCII.\<close>

definition to_lower :: "char \<Rightarrow> char" where
  "to_lower c = (let n = of_char c in if 65 \<le> n \<and> n \<le> 90 then char_of (n + 32 :: nat) else c)"

text \<open>\<open>/^file:/i\<close>: the pattern's characters match either case.\<close>

fun prefix_ci :: "string \<Rightarrow> string \<Rightarrow> bool" where
  "prefix_ci [] s = True"
| "prefix_ci (p # ps) [] = False"
| "prefix_ci (p # ps) (c # cs) = (p = to_lower c \<and> prefix_ci ps cs)"

definition file_url :: "(jsval \<Rightarrow> string) \<Rightarrow> jsval \<Rightarrow> bool" where
  "file_url fmt v = prefix_ci ''file:'' (js_string fmt v)"

definition guarded_store :: "string \<Rightarrow> string \<Rightarrow> string \<Rightarrow> (jsval \<Rightarrow> string) \<Rightarrow> jsval \<Rightarrow> jsval + jsval" where
  "guarded_store ctor key hint fmt opts =
     (if truthy opts \<and> truthy (getp opts key) \<and> file_url fmt (getp opts key)
      then Inl (BrainkitError (''file: URLs not supported - use '' @ hint @ '' to access configured backends'')
                  (JStr ''VALIDATION_ERROR'') JUndef)
      else Inr (built ctor opts))"

definition endow_LibSQLStore :: "(jsval \<Rightarrow> string) \<Rightarrow> jsval \<Rightarrow> jsval + jsval" where
  "endow_LibSQLStore =
     guarded_store ''LibSQLStore'' ''url'' (''storage('' @ squote @ ''name'' @ squote @ '')'')"

definition endow_LibSQLVector :: "(jsval \<Rightarrow> string) \<Rightarrow> jsval \<Rightarrow> jsval + jsval" where
  "endow_LibSQLVector =
     guarded_store ''LibSQLVector'' ''connectionUrl'' (''vectorStore('' @ squote @ ''name'' @ squote @ '')'')"

section \<open>Browser and reference calls\<close>

definition call_opts :: "int \<Rightarrow> jsval" where
  "call_opts ms = JObj [(''timeoutMs'', jint ms)]"

definition browser_launch :: "host \<Rightarrow> jsval \<Rightarrow> jsval js" where
  "browser_launch h req =
     bind (bus_call h ''browser.session.launch'' (js_or req (JObj [])) (call_opts 60000)) (\<lambda>resp.
       ret (and_prop resp ''session''))"

definition session_id :: "jsval \<Rightarrow> jsval" where
  "session_id v = (if is_str v then v else and_prop v ''id'')"

definition browser_close :: "host \<Rightarrow> jsval \<Rightarrow> jsval js" where
  "browser_close h idOrSession =
     bind (bus_call h ''browser.session.close'' (JObj [(''id'', js_or (session_id idOrSession) (JStr []))])
             (call_opts 30000)) (\<lambda>resp.
       ret (JBool (truthy resp \<and> truthy (getp resp ''closed''))))"

definition browser_list :: "host \<Rightarrow> jsval js" where
  "browser_list h =
     bind (bus_call h ''browser.session.list'' (JObj []) (call_opts 10000)) (\<lambda>resp.
       ret (js_or (and_prop resp ''sessions'') (JArr [])))"

definition reference_get :: "host \<Rightarrow> jsval \<Rightarrow> jsval js" where
  "reference_get h name =
     (if \<not> nonempty_str name
      then throw (validation_error ''reference.get: name is required'' ''name'')
      else bind (bus_call h ''kit.reference'' (JObj [(''name'', name)]) (call_opts 5000)) (\<lambda>resp.
             ret (js_or (and_prop resp ''content'') (JStr []))))"

definition reference_list :: "host \<Rightarrow> jsval js" where
  "reference_list h =
     bind (bus_call h ''kit.reference.list'' JNull (call_opts 5000)) (\<lambda>resp.
       ret (js_or (and_prop resp ''references'') (JArr [])))"

section \<open>Detector processors and clocks\<close>

text \<open>
  The detection agent of a detector: missing, without the method \<open>getMastraInstance\<close>, or with it and with or
  without a parent. One without a parent is replaced by the agent of a new in-memory parent.
\<close>

datatype detection_agent = NoAgent | BareAgent nat | AgentOf nat bool | InMemoryAgent nat string

definition wrap_detector :: "string \<Rightarrow> detection_agent \<Rightarrow> detection_agent" where
  "wrap_detector detectorId a = (case a of AgentOf n False \<Rightarrow> InMemoryAgent n detectorId | _ \<Rightarrow> a)"

text \<open>\<open>Date\<close>: without arguments the clock saved before the lock-down is read; \<open>pre\<close> is that clock.\<close>

definition brainkit_date :: "jsval option \<Rightarrow> jsval \<Rightarrow> jsval list \<Rightarrow> jsval" where
  "brainkit_date pre now args =
     built ''Date'' (JArr (if args = [] then [case pre of Some t \<Rightarrow> t | None \<Rightarrow> now] else args))"

text \<open>\<open>Math\<close>: a copy of the members, with the saved \<open>random\<close> when there is one.\<close>

definition brainkit_math :: "(string \<times> jsval) list \<Rightarrow> jsval \<Rightarrow> (string \<times> jsval) list" where
  "brainkit_math members random =
     (let w = fold (\<lambda>p d. dset d (fst p) (snd p)) members []
      in if truthy random then dset w ''random'' random else w)"

section \<open>Properties\<close>

lemma tool_schema_eq:
  "tool_schema env info =
     (let raw = getp info ''inputSchema'' in
      if truthy raw then
        (case raw of
           JStr s \<Rightarrow> (case he_parse env s of Inl e \<Rightarrow> JNull | Inr v \<Rightarrow> v)
         | v \<Rightarrow> if is_object v then v else JNull)
      else JNull)"
  by (cases "getp info ''inputSchema''") (auto simp: tool_schema_def Let_def)

text \<open>
  Remark: The two ways to a registered tool agree: for every tool name, the deployment's \<open>tool\<close> endowment and the
  harness's tool builder make the same object or both fail, differing at most in the message; and
  everything that is not a string is left to the bundle's \<open>tool\<close>.
\<close>

theorem tool_endowment_agrees:
  "(case v of
      JStr name \<Rightarrow>
        (case (endow_tool env passed v, buildHarnessTool env v) of
           (Inr t, Inr u) \<Rightarrow> t = u
         | (Inl e, Inl f) \<Rightarrow> he_tool env v = Inl e \<and> e = f \<or> (\<exists>info. he_tool env v = Inr info \<and> truthy info = False)
         | _ \<Rightarrow> False)
    | _ \<Rightarrow> endow_tool env passed v = (case passed of Some f \<Rightarrow> f v | None \<Rightarrow> Inr v))"
  by (auto simp: endow_tool_def buildHarnessTool_def tool_schema_eq Let_def split: jsval.split sum.split)

text \<open>
  Remark: Tool inputs survive the dispatch: what \<open>tools.execute\<close> wraps, the tool's \<open>execute\<close> unwraps again, so
  the registered tool is asked with the caller's input, even when that input has a \<open>context\<close> of its own;
  the only exception is the input \<open>undefined\<close>, which arrives as an object.
\<close>

theorem tool_input_roundtrip:
  "context_args (wrap_input v) = (if v = JUndef then JObj [(''context'', JUndef)] else v)"
  by (cases v) (auto simp: context_args_def wrap_input_def)

lemma prefix_ci_iff: "prefix_ci p s \<longleftrightarrow> map to_lower (take (length p) s) = p"
  by (induction p s rule: prefix_ci.induct) auto

lemma file_url_iff: "file_url fmt (JStr s) \<longleftrightarrow> map to_lower (take 5 s) = ''file:''"
proof -
  have "(5::nat) = length ''file:''" by simp
  then show ?thesis unfolding file_url_def js_string.simps prefix_ci_iff by presburger
qed

text \<open>
  Remark: File-backed stores are out of reach: whatever else the options hold, a store with a URL string is
  refused exactly when the URL starts with \<open>file:\<close> in any mixture of cases, with a \<open>VALIDATION_ERROR\<close>;
  otherwise it is built from the options unchanged. The vector store is guarded the same way.
\<close>

theorem file_urls_refused:
  "(case getp opts ''url'' of
      JStr s \<Rightarrow>
        (case endow_LibSQLStore fmt opts of
           Inl e \<Rightarrow> map to_lower (take 5 s) = ''file:'' \<and> is_brainkit_error e
                    \<and> getp e ''code'' = JStr ''VALIDATION_ERROR''
         | Inr store \<Rightarrow> map to_lower (take 5 s) \<noteq> ''file:'' \<and> store = built ''LibSQLStore'' opts)
    | _ \<Rightarrow> True)
    \<and> (case getp opts ''connectionUrl'' of
      JStr s \<Rightarrow>
        (case endow_LibSQLVector fmt opts of
           Inl e \<Rightarrow> map to_lower (take 5 s) = ''file:'' \<and> is_brainkit_error e
                    \<and> getp e ''code'' = JStr ''VALIDATION_ERROR''
         | Inr store \<Rightarrow> map to_lower (take 5 s) \<noteq> ''file:'' \<and> store = built ''LibSQLVector'' opts)
    | _ \<Rightarrow> True)"
proof -
  have t: "truthy opts" if "getp opts k = JStr s" for k s
    using that by (cases opts) auto
  have g: "(case guarded_store ctor key hint fmt opts of
           Inl e \<Rightarrow> map to_lower (take 5 s) = ''file:'' \<and> is_brainkit_error e
                    \<and> getp e ''code'' = JStr ''VALIDATION_ERROR''
         | Inr store \<Rightarrow> map to_lower (take 5 s) \<noteq> ''file:'' \<and> store = built ctor opts)"
    if k: "getp opts key = JStr s" for ctor key hint s
    using t [OF k] k by (auto simp: guarded_store_def file_url_iff js_or_def)
  show ?thesis
    using g by (simp add: endow_LibSQLStore_def endow_LibSQLVector_def split: jsval.split)
qed

end
