(* ===== verification/Stubs.thy ===== *)
theory Stubs
  imports Js_Values
begin

text \<open>
  \<open>build.mjs\<close>, the module stubs: for every Node.js module the bundle imports, a small ES module that
  re-exports the polyfill found on \<open>globalThis\<close>. A stub is represented by the global path its root
  variable reads, the names it re-exports as members of the root, the methods it binds to the root,
  the globals and special values it exports, the names it assigns to \<open>Stream\<close>, and its default export.
\<close>

section \<open>Stubs and what they evaluate to\<close>

datatype special = EmptyObject | GlobalName string | TheRoot

datatype stub_default = DefaultRoot | DefaultObject "string list" | DefaultName string

record stub =
  st_id :: string
  st_root :: "string list"
  st_members :: "string list"
  st_bound :: "string list"
  st_globals :: "string list"
  st_special :: "(string \<times> special) list"
  st_attach :: "string list"
  st_default :: stub_default

datatype stub_value = Value jsval | BoundFn jsval | NewObject

datatype default_value = DValue stub_value | DObject "(string \<times> stub_value) list"

definition export_names :: "stub \<Rightarrow> string list" where
  "export_names st = st_members st @ st_bound st @ st_globals st @ map fst (st_special st)"

fun read_path :: "jsval \<Rightarrow> string list \<Rightarrow> jsval + jsval" where
  "read_path v [] = Inr v"
| "read_path v (k # ks) = (case member v k of Inl e \<Rightarrow> Inl e | Inr w \<Rightarrow> read_path w ks)"

fun traverse :: "('a \<Rightarrow> jsval + 'b) \<Rightarrow> 'a list \<Rightarrow> jsval + 'b list" where
  "traverse f [] = Inr []"
| "traverse f (x # xs) =
     (case f x of
        Inl e \<Rightarrow> Inl e
      | Inr y \<Rightarrow> (case traverse f xs of Inl e \<Rightarrow> Inl e | Inr ys \<Rightarrow> Inr (y # ys)))"

definition member_export :: "jsval \<Rightarrow> string \<Rightarrow> jsval + string \<times> stub_value" where
  "member_export obj k = (case member obj k of Inl e \<Rightarrow> Inl e | Inr v \<Rightarrow> Inr (k, Value v))"

text \<open>\<open>obj.k.bind(obj)\<close> needs a function.\<close>

definition bound_export :: "jsval \<Rightarrow> string \<Rightarrow> jsval + string \<times> stub_value" where
  "bound_export obj k =
     (case member obj k of
        Inl e \<Rightarrow> Inl e
      | Inr f \<Rightarrow> if is_fun f then Inr (k, BoundFn f) else Inl (JErr TypeErr ''bind is not a function'' []))"

definition special_value :: "jsval \<Rightarrow> jsval \<Rightarrow> special \<Rightarrow> stub_value" where
  "special_value g obj x =
     (case x of EmptyObject \<Rightarrow> NewObject | GlobalName n \<Rightarrow> Value (getp g n) | TheRoot \<Rightarrow> Value obj)"

definition attachable :: "jsval \<Rightarrow> bool" where
  "attachable v \<longleftrightarrow> is_fun v \<or> is_object v \<and> v \<noteq> JNull"

definition stub_exports :: "jsval \<Rightarrow> jsval \<Rightarrow> stub \<Rightarrow> jsval + (string \<times> stub_value) list" where
  "stub_exports g obj st =
     (case traverse (member_export obj) (st_members st) of
        Inl e \<Rightarrow> Inl e
      | Inr ms \<Rightarrow>
          (case traverse (bound_export obj) (st_bound st) of
             Inl e \<Rightarrow> Inl e
           | Inr bs \<Rightarrow>
               if st_attach st \<noteq> [] \<and> \<not> attachable (getp obj ''Stream'')
               then Inl (JErr TypeErr ''cannot set property'' [])
               else Inr (ms @ bs @ map (\<lambda>k. (k, Value (getp g k))) (st_globals st)
                      @ map (\<lambda>p. (fst p, special_value g obj (snd p))) (st_special st))))"

definition exported :: "(string \<times> stub_value) list \<Rightarrow> string \<Rightarrow> jsval + stub_value" where
  "exported xs k = (case dget xs k of Some v \<Rightarrow> Inr v | None \<Rightarrow> Inl (JErr RefErr (k @ '' is not defined'') []))"

definition stub_default_value :: "jsval \<Rightarrow> (string \<times> stub_value) list \<Rightarrow> stub_default \<Rightarrow> jsval + default_value" where
  "stub_default_value obj xs d =
     (case d of
        DefaultRoot \<Rightarrow> Inr (DValue (Value obj))
      | DefaultName k \<Rightarrow> (case exported xs k of Inl e \<Rightarrow> Inl e | Inr v \<Rightarrow> Inr (DValue v))
      | DefaultObject ks \<Rightarrow>
          (case traverse (\<lambda>k. case exported xs k of Inl e \<Rightarrow> Inl e | Inr v \<Rightarrow> Inr (k, v)) ks of
             Inl e \<Rightarrow> Inl e | Inr ps \<Rightarrow> Inr (DObject ps)))"

definition evaluate_stub :: "jsval \<Rightarrow> stub \<Rightarrow> jsval + (string \<times> stub_value) list \<times> default_value" where
  "evaluate_stub g st =
     (case read_path g (st_root st) of
        Inl e \<Rightarrow> Inl e
      | Inr obj \<Rightarrow>
          (case stub_exports g obj st of
             Inl e \<Rightarrow> Inl e
           | Inr xs \<Rightarrow>
               (case stub_default_value obj xs (st_default st) of
                  Inl e \<Rightarrow> Inl e | Inr d \<Rightarrow> Inr (xs, d))))"

section \<open>The shipped stubs\<close>

definition stub_crypto :: stub where
  "stub_crypto =
     \<lparr>st_id = ''crypto'', st_root = [''crypto''],
      st_members =
           [''randomUUID'', ''randomBytes'', ''randomFillSync'', ''randomInt'', ''createHash'',
            ''createHmac'', ''pbkdf2'', ''pbkdf2Sync'', ''timingSafeEqual'', ''getHashes'',
            ''getCiphers'', ''getFips'', ''createCipheriv'', ''createDecipheriv'', ''createSign'',
            ''createVerify'', ''scrypt'', ''scryptSync''],
      st_bound =
           [],
      st_globals = [], st_special = [(''constants'', EmptyObject), (''webcrypto'', GlobalName ''crypto'')],
      st_attach = [],
      st_default = DefaultObject
           [''randomUUID'', ''randomBytes'', ''randomFillSync'', ''randomInt'', ''createHash'',
            ''createHmac'', ''createCipheriv'', ''createDecipheriv'', ''createSign'',
            ''createVerify'', ''pbkdf2'', ''pbkdf2Sync'', ''scrypt'', ''scryptSync'',
            ''timingSafeEqual'', ''constants'', ''webcrypto'', ''getHashes'', ''getCiphers'',
            ''getFips'']\<rparr>"

definition stub_stream :: stub where
  "stub_stream =
     \<lparr>st_id = ''stream'', st_root = [''stream''],
      st_members =
           [''EventEmitter'', ''Readable'', ''Writable'', ''Duplex'', ''Transform'',
            ''PassThrough'', ''pipeline'', ''finished'', ''Stream''],
      st_bound =
           [],
      st_globals = [], st_special = [],
      st_attach = [''EventEmitter'', ''Readable'', ''Writable'', ''Duplex'', ''Transform'',
            ''PassThrough'', ''pipeline'', ''finished'', ''Stream''],
      st_default = DefaultName ''Stream''\<rparr>"

definition stub_stream_web :: stub where
  "stub_stream_web =
     \<lparr>st_id = ''stream/web'', st_root = [],
      st_members =
           [],
      st_bound =
           [],
      st_globals = [''ReadableStream'', ''WritableStream'', ''TransformStream''], st_special = [],
      st_attach = [],
      st_default = DefaultObject
           [''ReadableStream'', ''WritableStream'', ''TransformStream'']\<rparr>"

definition stub_stream_promises :: stub where
  "stub_stream_promises =
     \<lparr>st_id = ''stream/promises'', st_root = [''stream'', ''promises''],
      st_members =
           [''pipeline'', ''finished''],
      st_bound =
           [],
      st_globals = [], st_special = [],
      st_attach = [],
      st_default = DefaultRoot\<rparr>"

definition stub_net :: stub where
  "stub_net =
     \<lparr>st_id = ''net'', st_root = [''net''],
      st_members =
           [''Socket'', ''createConnection'', ''connect'', ''createServer'', ''Server'', ''isIP'',
            ''isIPv4'', ''isIPv6''],
      st_bound =
           [],
      st_globals = [], st_special = [],
      st_attach = [],
      st_default = DefaultObject
           [''Socket'', ''createConnection'', ''connect'', ''createServer'', ''Server'', ''isIP'',
            ''isIPv4'', ''isIPv6'']\<rparr>"

definition stub_tls :: stub where
  "stub_tls =
     \<lparr>st_id = ''tls'', st_root = [''tls''],
      st_members =
           [''createServer'', ''connect'', ''TLSSocket'', ''DEFAULT_ECDH_CURVE'',
            ''DEFAULT_MIN_VERSION'', ''DEFAULT_MAX_VERSION''],
      st_bound =
           [],
      st_globals = [], st_special = [],
      st_attach = [],
      st_default = DefaultRoot\<rparr>"

definition stub_buffer :: stub where
  "stub_buffer =
     \<lparr>st_id = ''buffer'', st_root = [],
      st_members =
           [],
      st_bound =
           [],
      st_globals = [''Buffer''], st_special = [],
      st_attach = [],
      st_default = DefaultObject
           [''Buffer'']\<rparr>"

definition stub_events :: stub where
  "stub_events =
     \<lparr>st_id = ''events'', st_root = [],
      st_members =
           [],
      st_bound =
           [],
      st_globals = [''EventEmitter''], st_special = [],
      st_attach = [],
      st_default = DefaultName ''EventEmitter''\<rparr>"

definition stub_path :: stub where
  "stub_path =
     \<lparr>st_id = ''path'', st_root = [''path''],
      st_members =
           [''join'', ''resolve'', ''dirname'', ''basename'', ''extname'', ''normalize'',
            ''isAbsolute'', ''parse'', ''relative'', ''sep'', ''delimiter''],
      st_bound =
           [],
      st_globals = [], st_special = [(''posix'', TheRoot)],
      st_attach = [],
      st_default = DefaultObject
           [''join'', ''resolve'', ''dirname'', ''basename'', ''extname'', ''normalize'',
            ''isAbsolute'', ''parse'', ''relative'', ''sep'', ''delimiter'', ''posix'']\<rparr>"

definition stub_path_posix :: stub where
  "stub_path_posix =
     \<lparr>st_id = ''path/posix'', st_root = [''path'', ''posix''],
      st_members =
           [''join'', ''resolve'', ''dirname'', ''basename'', ''extname'', ''sep''],
      st_bound =
           [],
      st_globals = [], st_special = [],
      st_attach = [],
      st_default = DefaultObject
           [''join'', ''resolve'', ''dirname'', ''basename'', ''extname'', ''sep'']\<rparr>"

definition stub_os :: stub where
  "stub_os =
     \<lparr>st_id = ''os'', st_root = [''os''],
      st_members =
           [''platform'', ''arch'', ''tmpdir'', ''homedir'', ''hostname'', ''type'', ''EOL'',
            ''cpus'', ''release'', ''totalmem'', ''freemem'', ''endianness''],
      st_bound =
           [],
      st_globals = [], st_special = [],
      st_attach = [],
      st_default = DefaultObject
           [''platform'', ''arch'', ''tmpdir'', ''homedir'', ''hostname'', ''type'', ''EOL'',
            ''cpus'', ''release'', ''totalmem'', ''freemem'', ''endianness'']\<rparr>"

definition stub_fs :: stub where
  "stub_fs =
     \<lparr>st_id = ''fs'', st_root = [''fs''],
      st_members =
           [''readFile'', ''writeFile'', ''appendFile'', ''readdir'', ''stat'', ''lstat'',
            ''access'', ''mkdir'', ''unlink'', ''rm'', ''rename'', ''copyFile'', ''realpath'',
            ''promises'', ''constants''],
      st_bound =
           [''readFileSync'', ''writeFileSync'', ''existsSync'', ''realpathSync'', ''mkdirSync'',
            ''renameSync'', ''rmSync'', ''readdirSync'', ''statSync'', ''lstatSync'',
            ''unlinkSync'', ''appendFileSync'', ''createReadStream'', ''createWriteStream''],
      st_globals = [], st_special = [],
      st_attach = [],
      st_default = DefaultObject
           [''readFile'', ''writeFile'', ''appendFile'', ''readdir'', ''stat'', ''lstat'',
            ''access'', ''mkdir'', ''unlink'', ''rm'', ''rename'', ''copyFile'', ''realpath'',
            ''readFileSync'', ''writeFileSync'', ''existsSync'', ''realpathSync'', ''mkdirSync'',
            ''renameSync'', ''rmSync'', ''readdirSync'', ''statSync'', ''lstatSync'',
            ''unlinkSync'', ''appendFileSync'', ''createReadStream'', ''createWriteStream'',
            ''promises'', ''constants'']\<rparr>"

definition stub_fs_promises :: stub where
  "stub_fs_promises =
     \<lparr>st_id = ''fs/promises'', st_root = [''fs'', ''promises''],
      st_members =
           [''readFile'', ''writeFile'', ''readdir'', ''stat'', ''lstat'', ''mkdir'', ''mkdtemp'',
            ''rmdir'', ''rm'', ''unlink'', ''access'', ''copyFile'', ''rename'', ''realpath'',
            ''appendFile'', ''symlink'', ''readlink'', ''chmod'', ''chown'', ''truncate'',
            ''utimes''],
      st_bound =
           [],
      st_globals = [], st_special = [],
      st_attach = [],
      st_default = DefaultObject
           [''readFile'', ''writeFile'', ''readdir'', ''stat'', ''lstat'', ''mkdir'', ''mkdtemp'',
            ''rmdir'', ''rm'', ''unlink'', ''access'', ''copyFile'', ''rename'', ''realpath'',
            ''appendFile'', ''symlink'', ''readlink'', ''chmod'', ''chown'', ''truncate'',
            ''utimes'']\<rparr>"

definition stub_url :: stub where
  "stub_url =
     \<lparr>st_id = ''url'', st_root = [''node_url''],
      st_members =
           [''URL'', ''URLSearchParams'', ''fileURLToPath'', ''pathToFileURL'', ''format'',
            ''parse'', ''resolve''],
      st_bound =
           [],
      st_globals = [], st_special = [],
      st_attach = [],
      st_default = DefaultRoot\<rparr>"

definition stub_process :: stub where
  "stub_process =
     \<lparr>st_id = ''process'', st_root = [''process''],
      st_members =
           [''env'', ''version'', ''versions'', ''platform'', ''arch'', ''pid'', ''argv'', ''cwd'',
            ''nextTick'', ''stdout'', ''stderr''],
      st_bound =
           [],
      st_globals = [], st_special = [],
      st_attach = [],
      st_default = DefaultRoot\<rparr>"

definition stub_util :: stub where
  "stub_util =
     \<lparr>st_id = ''util'', st_root = [''util''],
      st_members =
           [''promisify'', ''inherits'', ''deprecate'', ''types'', ''inspect'', ''format'',
            ''TextEncoder'', ''TextDecoder''],
      st_bound =
           [],
      st_globals = [], st_special = [],
      st_attach = [],
      st_default = DefaultRoot\<rparr>"

definition stub_util_types :: stub where
  "stub_util_types =
     \<lparr>st_id = ''util/types'', st_root = [''utilTypes''],
      st_members =
           [''isUint8Array'', ''isArrayBuffer'', ''isDate'', ''isRegExp'', ''isMap'', ''isSet'',
            ''isTypedArray''],
      st_bound =
           [],
      st_globals = [], st_special = [],
      st_attach = [],
      st_default = DefaultRoot\<rparr>"

definition stub_child_process :: stub where
  "stub_child_process =
     \<lparr>st_id = ''child_process'', st_root = [''child_process''],
      st_members =
           [''exec'', ''spawn'', ''execSync'', ''execFile'', ''execFileSync'', ''spawnSync''],
      st_bound =
           [],
      st_globals = [], st_special = [],
      st_attach = [],
      st_default = DefaultObject
           [''exec'', ''spawn'', ''execSync'', ''execFile'', ''execFileSync'', ''spawnSync'']\<rparr>"

definition stub_http :: stub where
  "stub_http =
     \<lparr>st_id = ''http'', st_root = [''http''],
      st_members =
           [''createServer'', ''request'', ''get'', ''Agent'', ''globalAgent'', ''METHODS'',
            ''STATUS_CODES''],
      st_bound =
           [],
      st_globals = [], st_special = [],
      st_attach = [],
      st_default = DefaultRoot\<rparr>"

definition stub_https :: stub where
  "stub_https =
     \<lparr>st_id = ''https'', st_root = [''https''],
      st_members =
           [''createServer'', ''request'', ''get'', ''Agent'', ''globalAgent''],
      st_bound =
           [],
      st_globals = [], st_special = [],
      st_attach = [],
      st_default = DefaultRoot\<rparr>"

definition stub_assert :: stub where
  "stub_assert =
     \<lparr>st_id = ''assert'', st_root = [''assert''],
      st_members =
           [''ok'', ''strictEqual'', ''deepStrictEqual'', ''throws'', ''fail''],
      st_bound =
           [],
      st_globals = [], st_special = [],
      st_attach = [],
      st_default = DefaultRoot\<rparr>"

definition stub_querystring :: stub where
  "stub_querystring =
     \<lparr>st_id = ''querystring'', st_root = [''querystring''],
      st_members =
           [''parse'', ''stringify'', ''encode'', ''decode''],
      st_bound =
           [],
      st_globals = [], st_special = [],
      st_attach = [],
      st_default = DefaultRoot\<rparr>"

definition stub_string_decoder :: stub where
  "stub_string_decoder =
     \<lparr>st_id = ''string_decoder'', st_root = [],
      st_members =
           [],
      st_bound =
           [],
      st_globals = [''StringDecoder''], st_special = [],
      st_attach = [],
      st_default = DefaultObject
           [''StringDecoder'']\<rparr>"

definition stub_perf_hooks :: stub where
  "stub_perf_hooks =
     \<lparr>st_id = ''perf_hooks'', st_root = [''perf_hooks''],
      st_members =
           [''PerformanceObserver'', ''monitorEventLoopDelay''],
      st_bound =
           [],
      st_globals = [''performance''], st_special = [],
      st_attach = [],
      st_default = DefaultRoot\<rparr>"

definition stub_timers :: stub where
  "stub_timers =
     \<lparr>st_id = ''timers'', st_root = [],
      st_members =
           [],
      st_bound =
           [],
      st_globals = [''setTimeout'', ''clearTimeout'', ''setInterval'', ''clearInterval'', ''setImmediate'',
            ''clearImmediate''], st_special = [],
      st_attach = [],
      st_default = DefaultObject
           [''setTimeout'', ''clearTimeout'', ''setInterval'', ''clearInterval'', ''setImmediate'',
            ''clearImmediate'']\<rparr>"

definition stub_timers_promises :: stub where
  "stub_timers_promises =
     \<lparr>st_id = ''timers/promises'', st_root = [''timersPromises''],
      st_members =
           [''setTimeout'', ''setInterval''],
      st_bound =
           [],
      st_globals = [], st_special = [],
      st_attach = [],
      st_default = DefaultRoot\<rparr>"

definition stub_module :: stub where
  "stub_module =
     \<lparr>st_id = ''module'', st_root = [''node_module''],
      st_members =
           [''createRequire''],
      st_bound =
           [],
      st_globals = [], st_special = [],
      st_attach = [],
      st_default = DefaultRoot\<rparr>"

definition stub_dns :: stub where
  "stub_dns =
     \<lparr>st_id = ''dns'', st_root = [''dns''],
      st_members =
           [''lookup'', ''resolve4'', ''Resolver'', ''promises'', ''ADDRCONFIG'', ''V4MAPPED'',
            ''NODATA'', ''NOTFOUND'', ''TIMEOUT''],
      st_bound =
           [],
      st_globals = [], st_special = [],
      st_attach = [],
      st_default = DefaultObject
           [''lookup'', ''resolve4'', ''Resolver'', ''promises'', ''ADDRCONFIG'', ''V4MAPPED'',
            ''NODATA'', ''NOTFOUND'', ''TIMEOUT'']\<rparr>"

definition stub_dns_promises :: stub where
  "stub_dns_promises =
     \<lparr>st_id = ''dns/promises'', st_root = [''dns'', ''promises''],
      st_members =
           [''lookup'', ''resolve4'', ''resolveSrv'', ''resolveCname'', ''resolvePtr''],
      st_bound =
           [],
      st_globals = [], st_special = [],
      st_attach = [],
      st_default = DefaultRoot\<rparr>"

definition stub_async_hooks :: stub where
  "stub_async_hooks =
     \<lparr>st_id = ''async_hooks'', st_root = [''async_hooks''],
      st_members =
           [''createHook'', ''executionAsyncId'', ''triggerAsyncId'', ''executionAsyncResource'',
            ''AsyncLocalStorage'', ''AsyncResource''],
      st_bound =
           [],
      st_globals = [], st_special = [],
      st_attach = [],
      st_default = DefaultRoot\<rparr>"

definition stub_diagnostics_channel :: stub where
  "stub_diagnostics_channel =
     \<lparr>st_id = ''diagnostics_channel'', st_root = [''diagnostics_channel''],
      st_members =
           [''channel'', ''tracingChannel'', ''hasSubscribers'', ''subscribe'', ''unsubscribe'',
            ''Channel''],
      st_bound =
           [],
      st_globals = [], st_special = [],
      st_attach = [],
      st_default = DefaultRoot\<rparr>"

definition stub_worker_threads :: stub where
  "stub_worker_threads =
     \<lparr>st_id = ''worker_threads'', st_root = [''worker_threads''],
      st_members =
           [''isMainThread'', ''parentPort'', ''workerData'', ''threadId'', ''Worker'',
            ''MessageChannel'', ''MessagePort''],
      st_bound =
           [],
      st_globals = [], st_special = [],
      st_attach = [],
      st_default = DefaultRoot\<rparr>"

definition stub_zlib :: stub where
  "stub_zlib =
     \<lparr>st_id = ''zlib'', st_root = [''zlib''],
      st_members =
           [''createGzip'', ''createGunzip'', ''createDeflate'', ''createInflate'', ''gzip'',
            ''gunzip'', ''deflate'', ''inflate'', ''gzipSync'', ''gunzipSync'', ''deflateSync'',
            ''inflateSync'', ''inflateRaw'', ''deflateRaw'', ''inflateRawSync'', ''deflateRawSync'',
            ''brotliCompressSync'', ''brotliDecompressSync'', ''constants''],
      st_bound =
           [],
      st_globals = [], st_special = [],
      st_attach = [],
      st_default = DefaultObject
           [''createGzip'', ''createGunzip'', ''createDeflate'', ''createInflate'', ''gzip'',
            ''gunzip'', ''deflate'', ''inflate'', ''gzipSync'', ''gunzipSync'', ''deflateSync'',
            ''inflateSync'', ''inflateRaw'', ''deflateRaw'', ''inflateRawSync'', ''deflateRawSync'',
            ''brotliCompressSync'', ''brotliDecompressSync'', ''constants'']\<rparr>"

definition moduleStubs :: "stub list" where
  "moduleStubs =
    [stub_crypto, stub_stream, stub_stream_web, stub_stream_promises, stub_net,
     stub_tls, stub_buffer, stub_events, stub_path, stub_path_posix,
     stub_os, stub_fs, stub_fs_promises, stub_url, stub_process,
     stub_util, stub_util_types, stub_child_process, stub_http, stub_https,
     stub_assert, stub_querystring, stub_string_decoder, stub_perf_hooks, stub_timers,
     stub_timers_promises, stub_module, stub_dns, stub_dns_promises, stub_async_hooks,
     stub_diagnostics_channel, stub_worker_threads, stub_zlib]"

lemmas stub_tables =
  stub_crypto_def stub_stream_def stub_stream_web_def stub_stream_promises_def
  stub_net_def stub_tls_def stub_buffer_def stub_events_def
  stub_path_def stub_path_posix_def stub_os_def stub_fs_def
  stub_fs_promises_def stub_url_def stub_process_def stub_util_def
  stub_util_types_def stub_child_process_def stub_http_def stub_https_def
  stub_assert_def stub_querystring_def stub_string_decoder_def stub_perf_hooks_def
  stub_timers_def stub_timers_promises_def stub_module_def stub_dns_def
  stub_dns_promises_def stub_async_hooks_def stub_diagnostics_channel_def stub_worker_threads_def
  stub_zlib_def

text \<open>\<open>compat/manifest.json\<close>: the ids of the Node modules it declares, and their aliases.\<close>

definition manifest_modules :: "string list" where
  "manifest_modules =
    [''assert'', ''async_hooks'', ''buffer'', ''child_process'', ''crypto'', ''diagnostics_channel'',
     ''dns'', ''dns/promises'', ''events'', ''fs'', ''fs/promises'', ''http'', ''https'', ''module'',
     ''net'', ''os'', ''path'', ''path/posix'', ''perf_hooks'', ''process'', ''querystring'', ''stream'',
     ''stream/promises'', ''stream/web'', ''string_decoder'', ''timers'', ''timers/promises'', ''tls'',
     ''url'', ''util'', ''util/types'', ''worker_threads'', ''zlib'']"

definition manifest_aliases :: "(string, string) dict" where
  "manifest_aliases = [(''process/'', ''process''), (''string_decoder/'', ''string_decoder'')]"

section \<open>Every stub is well formed\<close>

definition wf_stub :: "stub \<Rightarrow> bool" where
  "wf_stub st \<longleftrightarrow> distinct (export_names st)
     \<and> (case st_default st of
          DefaultObject ks \<Rightarrow> list_all (\<lambda>k. k \<in> set (export_names st)) ks
        | DefaultName k \<Rightarrow> k \<in> set (export_names st)
        | DefaultRoot \<Rightarrow> True)"

lemma wf_stub_crypto: "wf_stub stub_crypto"
  by (simp add: wf_stub_def export_names_def stub_crypto_def)

lemma wf_stub_stream: "wf_stub stub_stream"
  by (simp add: wf_stub_def export_names_def stub_stream_def)

lemma wf_stub_stream_web: "wf_stub stub_stream_web"
  by (simp add: wf_stub_def export_names_def stub_stream_web_def)

lemma wf_stub_stream_promises: "wf_stub stub_stream_promises"
  by (simp add: wf_stub_def export_names_def stub_stream_promises_def)

lemma wf_stub_net: "wf_stub stub_net"
  by (simp add: wf_stub_def export_names_def stub_net_def)

lemma wf_stub_tls: "wf_stub stub_tls"
  by (simp add: wf_stub_def export_names_def stub_tls_def)

lemma wf_stub_buffer: "wf_stub stub_buffer"
  by (simp add: wf_stub_def export_names_def stub_buffer_def)

lemma wf_stub_events: "wf_stub stub_events"
  by (simp add: wf_stub_def export_names_def stub_events_def)

lemma wf_stub_path: "wf_stub stub_path"
  by (simp add: wf_stub_def export_names_def stub_path_def)

lemma wf_stub_path_posix: "wf_stub stub_path_posix"
  by (simp add: wf_stub_def export_names_def stub_path_posix_def)

lemma wf_stub_os: "wf_stub stub_os"
  by (simp add: wf_stub_def export_names_def stub_os_def)

lemma wf_stub_fs: "wf_stub stub_fs"
  by (simp add: wf_stub_def export_names_def stub_fs_def)

lemma wf_stub_fs_promises: "wf_stub stub_fs_promises"
  by (simp add: wf_stub_def export_names_def stub_fs_promises_def)

lemma wf_stub_url: "wf_stub stub_url"
  by (simp add: wf_stub_def export_names_def stub_url_def)

lemma wf_stub_process: "wf_stub stub_process"
  by (simp add: wf_stub_def export_names_def stub_process_def)

lemma wf_stub_util: "wf_stub stub_util"
  by (simp add: wf_stub_def export_names_def stub_util_def)

lemma wf_stub_util_types: "wf_stub stub_util_types"
  by (simp add: wf_stub_def export_names_def stub_util_types_def)

lemma wf_stub_child_process: "wf_stub stub_child_process"
  by (simp add: wf_stub_def export_names_def stub_child_process_def)

lemma wf_stub_http: "wf_stub stub_http"
  by (simp add: wf_stub_def export_names_def stub_http_def)

lemma wf_stub_https: "wf_stub stub_https"
  by (simp add: wf_stub_def export_names_def stub_https_def)

lemma wf_stub_assert: "wf_stub stub_assert"
  by (simp add: wf_stub_def export_names_def stub_assert_def)

lemma wf_stub_querystring: "wf_stub stub_querystring"
  by (simp add: wf_stub_def export_names_def stub_querystring_def)

lemma wf_stub_string_decoder: "wf_stub stub_string_decoder"
  by (simp add: wf_stub_def export_names_def stub_string_decoder_def)

lemma wf_stub_perf_hooks: "wf_stub stub_perf_hooks"
  by (simp add: wf_stub_def export_names_def stub_perf_hooks_def)

lemma wf_stub_timers: "wf_stub stub_timers"
  by (simp add: wf_stub_def export_names_def stub_timers_def)

lemma wf_stub_timers_promises: "wf_stub stub_timers_promises"
  by (simp add: wf_stub_def export_names_def stub_timers_promises_def)

lemma wf_stub_module: "wf_stub stub_module"
  by (simp add: wf_stub_def export_names_def stub_module_def)

lemma wf_stub_dns: "wf_stub stub_dns"
  by (simp add: wf_stub_def export_names_def stub_dns_def)

lemma wf_stub_dns_promises: "wf_stub stub_dns_promises"
  by (simp add: wf_stub_def export_names_def stub_dns_promises_def)

lemma wf_stub_async_hooks: "wf_stub stub_async_hooks"
  by (simp add: wf_stub_def export_names_def stub_async_hooks_def)

lemma wf_stub_diagnostics_channel: "wf_stub stub_diagnostics_channel"
  by (simp add: wf_stub_def export_names_def stub_diagnostics_channel_def)

lemma wf_stub_worker_threads: "wf_stub stub_worker_threads"
  by (simp add: wf_stub_def export_names_def stub_worker_threads_def)

lemma wf_stub_zlib: "wf_stub stub_zlib"
  by (simp add: wf_stub_def export_names_def stub_zlib_def)

lemmas wf_stubs =
  wf_stub_crypto wf_stub_stream wf_stub_stream_web wf_stub_stream_promises
  wf_stub_net wf_stub_tls wf_stub_buffer wf_stub_events
  wf_stub_path wf_stub_path_posix wf_stub_os wf_stub_fs
  wf_stub_fs_promises wf_stub_url wf_stub_process wf_stub_util
  wf_stub_util_types wf_stub_child_process wf_stub_http wf_stub_https
  wf_stub_assert wf_stub_querystring wf_stub_string_decoder wf_stub_perf_hooks
  wf_stub_timers wf_stub_timers_promises wf_stub_module wf_stub_dns
  wf_stub_dns_promises wf_stub_async_hooks wf_stub_diagnostics_channel wf_stub_worker_threads
  wf_stub_zlib

lemma stub_ids:
  "st_id stub_crypto = ''crypto''"
  "st_id stub_stream = ''stream''"
  "st_id stub_stream_web = ''stream/web''"
  "st_id stub_stream_promises = ''stream/promises''"
  "st_id stub_net = ''net''"
  "st_id stub_tls = ''tls''"
  "st_id stub_buffer = ''buffer''"
  "st_id stub_events = ''events''"
  "st_id stub_path = ''path''"
  "st_id stub_path_posix = ''path/posix''"
  "st_id stub_os = ''os''"
  "st_id stub_fs = ''fs''"
  "st_id stub_fs_promises = ''fs/promises''"
  "st_id stub_url = ''url''"
  "st_id stub_process = ''process''"
  "st_id stub_util = ''util''"
  "st_id stub_util_types = ''util/types''"
  "st_id stub_child_process = ''child_process''"
  "st_id stub_http = ''http''"
  "st_id stub_https = ''https''"
  "st_id stub_assert = ''assert''"
  "st_id stub_querystring = ''querystring''"
  "st_id stub_string_decoder = ''string_decoder''"
  "st_id stub_perf_hooks = ''perf_hooks''"
  "st_id stub_timers = ''timers''"
  "st_id stub_timers_promises = ''timers/promises''"
  "st_id stub_module = ''module''"
  "st_id stub_dns = ''dns''"
  "st_id stub_dns_promises = ''dns/promises''"
  "st_id stub_async_hooks = ''async_hooks''"
  "st_id stub_diagnostics_channel = ''diagnostics_channel''"
  "st_id stub_worker_threads = ''worker_threads''"
  "st_id stub_zlib = ''zlib''"
  by (simp_all add: stub_tables)

lemma moduleStub_ids:
  "map st_id moduleStubs =
    [''crypto'', ''stream'', ''stream/web'', ''stream/promises'', ''net'', ''tls'', ''buffer'', ''events'',
     ''path'', ''path/posix'', ''os'', ''fs'', ''fs/promises'', ''url'', ''process'', ''util'',
     ''util/types'', ''child_process'', ''http'', ''https'', ''assert'', ''querystring'', ''string_decoder'',
     ''perf_hooks'', ''timers'', ''timers/promises'', ''module'', ''dns'', ''dns/promises'', ''async_hooks'',
     ''diagnostics_channel'', ''worker_threads'', ''zlib'']"
  by (simp add: moduleStubs_def stub_ids)

lemma moduleStubs_wf: "list_all wf_stub moduleStubs"
  by (simp add: moduleStubs_def wf_stubs)

section \<open>Properties\<close>

lemma traverse_map: "(\<And>x. x \<in> set xs \<Longrightarrow> f x = Inr (h x)) \<Longrightarrow> traverse f xs = Inr (map h xs)"
  by (induction xs) auto

lemma dget_map_keys: "distinct (map fst xs) \<Longrightarrow> (k, v) \<in> set xs \<Longrightarrow> dget xs k = Some v"
  using mem_dget [of xs k v] by (simp add: dwf_def dkeys_def)

text \<open>The exports a stub has when its root is there.\<close>

definition intended :: "jsval \<Rightarrow> jsval \<Rightarrow> stub \<Rightarrow> (string \<times> stub_value) list" where
  "intended g obj st =
     map (\<lambda>k. (k, Value (getp obj k))) (st_members st) @ map (\<lambda>k. (k, BoundFn (getp obj k))) (st_bound st)
     @ map (\<lambda>k. (k, Value (getp g k))) (st_globals st)
     @ map (\<lambda>p. (fst p, special_value g obj (snd p))) (st_special st)"

lemma intended_keys: "map fst (intended g obj st) = export_names st"
  by (simp add: intended_def export_names_def o_def)

lemma stub_exports_intended:
  assumes "\<not> nullish obj" and "list_all (\<lambda>k. is_fun (getp obj k)) (st_bound st)"
    and "st_attach st = [] \<or> attachable (getp obj ''Stream'')"
  shows "stub_exports g obj st = Inr (intended g obj st)"
proof -
  have "traverse (member_export obj) (st_members st) = Inr (map (\<lambda>k. (k, Value (getp obj k))) (st_members st))"
    using assms(1) by (intro traverse_map) (simp add: member_export_def member_def)
  moreover have "traverse (bound_export obj) (st_bound st) = Inr (map (\<lambda>k. (k, BoundFn (getp obj k))) (st_bound st))"
    using assms(1,2) by (intro traverse_map) (auto simp: bound_export_def member_def list_all_iff)
  ultimately show ?thesis using assms(3) by (auto simp: stub_exports_def intended_def)
qed

lemma exported_intended:
  "k \<in> set (export_names st) \<Longrightarrow> \<exists>v. exported (intended g obj st) k = Inr v"
  using dget_None_iff [of "intended g obj st" k] by (auto simp: exported_def dkeys_def intended_keys split: option.split)

lemma default_intended:
  assumes "wf_stub st"
  shows "\<exists>d. stub_default_value obj (intended g obj st) (st_default st) = Inr d
    \<and> (case st_default st of DefaultObject ks \<Rightarrow> (\<exists>ps. d = DObject ps \<and> map fst ps = ks) | _ \<Rightarrow> (\<exists>v. d = DValue v))"
proof (cases "st_default st")
  case (DefaultObject ks)
  define f where "f = (\<lambda>k. case exported (intended g obj st) k of Inl e \<Rightarrow> Inl e | Inr v \<Rightarrow> Inr (k, v))"
  have "f k = Inr (k, projr (exported (intended g obj st) k))" if "k \<in> set ks" for k
    using that assms DefaultObject exported_intended [of k st g obj]
    by (auto simp: wf_stub_def list_all_iff f_def)
  then have "traverse f ks = Inr (map (\<lambda>k. (k, projr (exported (intended g obj st) k))) ks)"
    by (rule traverse_map)
  then show ?thesis using DefaultObject by (simp add: stub_default_value_def f_def o_def)
next
  case (DefaultName k)
  then show ?thesis
    using assms exported_intended [of k st g obj] by (auto simp: wf_stub_def stub_default_value_def)
qed (simp add: stub_default_value_def)

text \<open>
  Remark: The module stubs are faithful: each stub the build ships, evaluated where its polyfill is present,
  exports its declared names and no others, every re-exported name with the polyfill's own member
  (methods of \<open>fs\<close> bound to it), and its default object only uses names the stub declares.
\<close>

theorem stubs_reexport:
  assumes "st \<in> set moduleStubs" and "read_path g (st_root st) = Inr obj" and "\<not> nullish obj"
    and "list_all (\<lambda>k. is_fun (getp obj k)) (st_bound st)"
    and "st_attach st = [] \<or> attachable (getp obj ''Stream'')"
  shows "\<exists>xs d. evaluate_stub g st = Inr (xs, d) \<and> map fst xs = export_names st \<and> distinct (map fst xs)
    \<and> list_all (\<lambda>k. dget xs k = Some (Value (getp obj k))) (st_members st)
    \<and> list_all (\<lambda>k. dget xs k = Some (BoundFn (getp obj k))) (st_bound st)
    \<and> (case st_default st of DefaultObject ks \<Rightarrow> (\<exists>ps. d = DObject ps \<and> map fst ps = ks) | _ \<Rightarrow> (\<exists>v. d = DValue v))"
proof -
  have wf: "wf_stub st" using moduleStubs_wf assms(1) by (simp add: list_all_iff)
  let ?xs = "intended g obj st"
  obtain d where d: "stub_default_value obj ?xs (st_default st) = Inr d"
    "case st_default st of DefaultObject ks \<Rightarrow> (\<exists>ps. d = DObject ps \<and> map fst ps = ks) | _ \<Rightarrow> (\<exists>v. d = DValue v)"
    using default_intended [OF wf] by blast
  have m: "evaluate_stub g st = Inr (?xs, d)"
    using assms(2) stub_exports_intended [OF assms(3-5)] d(1) by (simp add: evaluate_stub_def)
  have dis: "distinct (map fst ?xs)" using wf by (simp add: intended_keys wf_stub_def)
  have "list_all (\<lambda>k. dget ?xs k = Some (Value (getp obj k))) (st_members st)"
    "list_all (\<lambda>k. dget ?xs k = Some (BoundFn (getp obj k))) (st_bound st)"
    using dget_map_keys [OF dis] by (auto simp: list_all_iff intended_def)
  then show ?thesis using m dis d(2) intended_keys by blast
qed

definition sample_global :: jsval where
  "sample_global = JObj [(''path'', JObj [(''sep'', JStr ''/'')])]"

theorem stubs_reexport_witness:
  "\<exists>xs d. evaluate_stub sample_global stub_path = Inr (xs, d) \<and> dget xs ''sep'' = Some (Value (JStr ''/''))"
proof -
  have r: "read_path sample_global (st_root stub_path) = Inr (JObj [(''sep'', JStr ''/'')])"
    by (simp add: sample_global_def stub_path_def member_def)
  have s: "''sep'' \<in> set (st_members stub_path)" "st_bound stub_path = []" "st_attach stub_path = []"
    by (simp_all add: stub_path_def)
  have "stub_path \<in> set moduleStubs" by (simp add: moduleStubs_def)
  from stubs_reexport [OF this r] s show ?thesis by (fastforce simp: list_all_iff)
qed

end
