(* ===== verification/Build_Resolve.thy ===== *)
theory Build_Resolve
  imports Stubs
begin

text \<open>
  \<open>build.mjs\<close>, the resolution of imports: which paths the stub plugin takes for Node.js modules, how their
  spellings are normalised against \<open>compat/manifest.json\<close>, the consistency checks between the
  manifest and the stubs, and what the plugin loads. The list of Node's own modules
  (\<open>builtinModules\<close>) is a parameter, with the prefix \<open>node:\<close> stripped as the build does.
\<close>

section \<open>Resolution\<close>

record compat =
  co_entries :: "string list"
  co_aliases :: "(string, string) dict"
  co_natives :: "string list"

definition strip_node :: "string \<Rightarrow> string" where
  "strip_node s = (if starts_with ''node:'' s then drop 5 s else s)"

definition normalizeId :: "compat \<Rightarrow> string \<Rightarrow> string" where
  "normalizeId c s =
     (let n = strip_node s in
      case dget (co_aliases c) n of
        Some t \<Rightarrow> t
      | None \<Rightarrow> if ends_with ''/'' n \<and> butlast n \<in> set (co_entries c) then butlast n else n)"

definition isNodeBuiltin :: "compat \<Rightarrow> string \<Rightarrow> bool" where
  "isNodeBuiltin c s =
     (if starts_with ''node:'' s then True
      else (let n = normalizeId c s in
        if ends_with ''/'' s \<and> n = s then False
        else n \<in> set (co_natives c) \<or> before (CHR ''/'') n \<in> set (co_natives c)))"

definition undeclared :: "string \<Rightarrow> string \<Rightarrow> string" where
  "undeclared path s = ''Node builtin '' @ path @ '' normalized to '' @ s @ '' is not declared in compat/manifest.json''"

definition unstubbed :: "string \<Rightarrow> string \<Rightarrow> string" where
  "unstubbed path s = ''Node builtin '' @ path @ '' normalized to '' @ s @ '' has no build stub''"

definition load_builtin :: "compat \<Rightarrow> stub list \<Rightarrow> string \<Rightarrow> string + stub" where
  "load_builtin c stubs path =
     (let s = normalizeId c path in
      if s \<notin> set (co_entries c) then Inl (undeclared path s)
      else (case find (\<lambda>st. st_id st = s) stubs of
              None \<Rightarrow> Inl (unstubbed path s) | Some st \<Rightarrow> Inr st))"

text \<open>The plugin: \<open>None\<close> leaves the path to the bundler.\<close>

definition node_stub_plugin :: "compat \<Rightarrow> stub list \<Rightarrow> string \<Rightarrow> (string + stub) option" where
  "node_stub_plugin c stubs path = (if isNodeBuiltin c path then Some (load_builtin c stubs path) else None)"

text \<open>The two checks at the start of the build; \<open>None\<close> when both pass.\<close>

definition stub_check :: "string list \<Rightarrow> string list \<Rightarrow> string option" where
  "stub_check stubs entries =
     (case find (\<lambda>s. s \<notin> set entries) stubs of
        Some s \<Rightarrow> Some (''module stub '' @ s @ '' is missing from compat/manifest.json'')
      | None \<Rightarrow>
          (case find (\<lambda>s. s \<notin> set stubs) entries of
             Some s \<Rightarrow> Some (''compat manifest declares '' @ s @ '' but build.mjs has no module stub'')
           | None \<Rightarrow> None))"

definition shipped :: "string list \<Rightarrow> compat" where
  "shipped natives = \<lparr>co_entries = manifest_modules, co_aliases = manifest_aliases, co_natives = natives\<rparr>"

section \<open>Properties\<close>

text \<open>A well-formed manifest: plain ids, known to Node, and aliases that only add a slash.\<close>

definition wf_entry :: "compat \<Rightarrow> string \<Rightarrow> bool" where
  "wf_entry c s \<longleftrightarrow> \<not> starts_with ''node:'' s \<and> \<not> ends_with ''/'' s \<and> dget (co_aliases c) s = None
     \<and> before (CHR ''/'') s \<in> set (co_natives c)"

definition wf_compat :: "compat \<Rightarrow> bool" where
  "wf_compat c \<longleftrightarrow> list_all (wf_entry c) (co_entries c)
     \<and> list_all (\<lambda>p. fst p = snd p @ ''/'' \<and> snd p \<in> set (co_entries c)) (co_aliases c)"

lemma strip_node_prefixed [simp]: "strip_node (''node:'' @ s) = s"
  by (simp add: strip_node_def)

lemma strip_node_plain: "\<not> starts_with ''node:'' s \<Longrightarrow> strip_node s = s"
  by (simp add: strip_node_def)

lemma slash_end: "ends_with ''/'' (s @ ''/'')"
  by (simp add: ends_with_iff)

lemma starts_with_slash: "starts_with ''node:'' (s @ ''/'') \<Longrightarrow> starts_with ''node:'' s"
proof -
  assume "starts_with ''node:'' (s @ ''/'')"
  then obtain t where t: "s @ ''/'' = ''node:'' @ t" by (auto simp: starts_with_iff)
  then have "t \<noteq> []" by (cases t) (auto simp: append_eq_Cons_conv)
  then obtain u x where "t = u @ [x]" by (cases t rule: rev_cases) auto
  then have "s = ''node:'' @ u" using t by (metis append.assoc butlast_snoc)
  then show ?thesis by simp
qed

lemma normalize_entry:
  assumes "wf_compat c" and "s \<in> set (co_entries c)" and "strip_node p = s \<or> strip_node p = s @ ''/''"
  shows "normalizeId c p = s"
proof -
  have e: "dget (co_aliases c) s = None" "\<not> ends_with ''/'' s"
    using assms(1,2) by (auto simp: wf_compat_def wf_entry_def list_all_iff)
  have a: "t = s" if "dget (co_aliases c) (s @ ''/'') = Some t" for t
    using dget_Some_mem [OF that] assms(1) by (auto simp: wf_compat_def list_all_iff)
  show ?thesis
    using assms(2,3) e a slash_end [of s] by (auto simp: normalizeId_def Let_def split: option.split)
qed

text \<open>
  Remark: The spelling of a Node import does not matter: for every module a well-formed manifest declares, its
  plain id, the id with a trailing slash, and both with the prefix \<open>node:\<close> are taken by the stub plugin
  and normalise to the same id, so they all load the same stub.
\<close>

theorem spellings_agree:
  assumes "wf_compat c" and "s \<in> set (co_entries c)"
  shows "list_all (\<lambda>p. isNodeBuiltin c p \<and> normalizeId c p = s
      \<and> node_stub_plugin c stubs p = Some (case find (\<lambda>st. st_id st = s) stubs of
          None \<Rightarrow> Inl (unstubbed p s) | Some st \<Rightarrow> Inr st))
    [s, s @ ''/'', ''node:'' @ s, ''node:'' @ s @ ''/'']"
proof -
  have e: "\<not> starts_with ''node:'' s" "\<not> ends_with ''/'' s" "before (CHR ''/'') s \<in> set (co_natives c)"
    using assms by (auto simp: wf_compat_def wf_entry_def list_all_iff)
  have s': "\<not> starts_with ''node:'' (s @ ''/'')" using e(1) starts_with_slash by blast
  have n: "normalizeId c p = s" if "p \<in> {s, s @ ''/'', ''node:'' @ s, ''node:'' @ s @ ''/''}" for p
    using that strip_node_plain [OF e(1)] strip_node_plain [OF s']
    by (intro normalize_entry [OF assms]) (auto simp del: append.simps)
  have b: "isNodeBuiltin c p" if "p \<in> {s, s @ ''/'', ''node:'' @ s, ''node:'' @ s @ ''/''}" for p
    using n [OF that] that e by (auto simp: isNodeBuiltin_def Let_def simp del: append.simps starts_with.simps)
  show ?thesis
    using n b assms(2) by (simp add: node_stub_plugin_def load_builtin_def Let_def del: append.simps)
qed

definition sample_compat :: compat where
  "sample_compat = \<lparr>co_entries = [''process'', ''fs/promises''], co_aliases = [(''process/'', ''process'')],
     co_natives = [''fs'', ''process'']\<rparr>"

theorem spellings_agree_witness:
  "isNodeBuiltin sample_compat ''node:fs/promises/'' \<and> normalizeId sample_compat ''node:fs/promises/'' = ''fs/promises''"
proof -
  have "wf_compat sample_compat"
    by (simp add: wf_compat_def wf_entry_def sample_compat_def ends_with_def before_def)
  moreover have "''fs/promises'' \<in> set (co_entries sample_compat)" by (simp add: sample_compat_def)
  ultimately show ?thesis
    using spellings_agree [of sample_compat "''fs/promises''" "[]"] by simp
qed

lemma shipped_entries [simp]: "co_entries (shipped natives) = manifest_modules"
  by (simp add: shipped_def)

lemma found: "find P xs = Some x \<Longrightarrow> P x \<and> x \<in> set xs"
  by (auto simp: find_Some_iff)

lemma stub_check_None: "stub_check stubs entries = None \<longleftrightarrow> set stubs = set entries"
  by (auto simp: stub_check_def find_None_iff split: option.split dest!: found)

text \<open>
  Remark: The shipped manifest and stubs agree: both build checks pass, so a Node import fails to load exactly
  when its normalised id is not declared in the manifest, and otherwise loads the stub of that id; the
  error for a declared module without a stub cannot occur.
\<close>

theorem builtin_loads:
  "stub_check (map st_id moduleStubs) manifest_modules = None
    \<and> (case load_builtin (shipped natives) moduleStubs path of
         Inr st \<Rightarrow> st \<in> set moduleStubs \<and> st_id st = normalizeId (shipped natives) path
       | Inl e \<Rightarrow> normalizeId (shipped natives) path \<notin> set manifest_modules
                 \<and> e = undeclared path (normalizeId (shipped natives) path))"
proof -
  have "set (map st_id moduleStubs) \<subseteq> set manifest_modules"
    unfolding moduleStub_ids manifest_modules_def by simp
  moreover have "set manifest_modules \<subseteq> set (map st_id moduleStubs)"
    unfolding moduleStub_ids manifest_modules_def by simp
  ultimately have eq: "set (map st_id moduleStubs) = set manifest_modules" by (rule equalityI)
  have f: "find (\<lambda>st. st_id st = s) moduleStubs \<noteq> None" if "s \<in> set manifest_modules" for s
    using that unfolding eq [symmetric] by (auto simp: find_None_iff)
  have g: "st \<in> set moduleStubs \<and> st_id st = s" if "find (\<lambda>st. st_id st = s) moduleStubs = Some st" for s st
    using found [OF that] by simp
  have "stub_check (map st_id moduleStubs) manifest_modules = None" using eq by (simp add: stub_check_None)
  moreover have "(case load_builtin (shipped natives) moduleStubs path of
         Inr st \<Rightarrow> st \<in> set moduleStubs \<and> st_id st = normalizeId (shipped natives) path
       | Inl e \<Rightarrow> normalizeId (shipped natives) path \<notin> set manifest_modules
                 \<and> e = undeclared path (normalizeId (shipped natives) path))"
  proof (cases "normalizeId (shipped natives) path \<in> set manifest_modules")
    case True
    then obtain st where st: "find (\<lambda>st. st_id st = normalizeId (shipped natives) path) moduleStubs = Some st"
      using f by blast
    show ?thesis using True st g [OF st] by (simp add: load_builtin_def Let_def)
  next
    case False
    then show ?thesis by (simp add: load_builtin_def Let_def)
  qed
  ultimately show ?thesis by blast
qed

end
