(* ===== verification/Build_Patches.thy ===== *)
theory Build_Patches
  imports Prelude
begin

text \<open>
  \<open>build.mjs\<close>, the package patches: the metadata checks against \<open>compat/manifest.json\<close>, and the rewriting
  of the bundle's text after the build. The regular expressions of the source are sequences of
  literals, identifiers and back references, in which an identifier is always followed by a literal
  that starts with a character no identifier has: matching them needs no backtracking, so a
  deterministic matcher gives the leftmost match. \<open>String.replace\<close> is modelled with the special
  meaning of \<open>$\<close> in the replacement text.
\<close>

section \<open>Patterns\<close>

datatype piece = Lit string | Ident nat | Wd nat | Back nat | AnyChar

definition word_char :: "char \<Rightarrow> bool" where
  "word_char c = (let n = (of_char c :: nat) in
     48 \<le> n \<and> n \<le> 57 \<or> 65 \<le> n \<and> n \<le> 90 \<or> 97 \<le> n \<and> n \<le> 122 \<or> n = 95)"

definition ident_char :: "char \<Rightarrow> bool" where
  "ident_char c \<longleftrightarrow> word_char c \<or> c = CHR ''$''"

definition ident_start :: "char \<Rightarrow> bool" where
  "ident_start c \<longleftrightarrow> ident_char c \<and> \<not> (48 \<le> (of_char c :: nat) \<and> (of_char c :: nat) \<le> 57)"

type_synonym captures = "(nat, string) dict"

fun match_here :: "piece list \<Rightarrow> string \<Rightarrow> captures \<Rightarrow> (captures \<times> string) option" where
  "match_here [] s caps = Some (caps, s)"
| "match_here (Lit p # ps) s caps = (if starts_with p s then match_here ps (drop (length p) s) caps else None)"
| "match_here (Ident n # ps) s caps =
     (case s of
        [] \<Rightarrow> None
      | c # cs \<Rightarrow> if ident_start c
                 then match_here ps (dropWhile ident_char cs) (dset caps n (c # takeWhile ident_char cs))
                 else None)"
| "match_here (Wd n # ps) s caps =
     (if takeWhile word_char s = [] then None
      else match_here ps (dropWhile word_char s) (dset caps n (takeWhile word_char s)))"
| "match_here (Back n # ps) s caps =
     (case dget caps n of
        None \<Rightarrow> match_here ps s caps
      | Some w \<Rightarrow> if starts_with w s then match_here ps (drop (length w) s) caps else None)"
| "match_here (AnyChar # ps) s caps =
     (case s of
        [] \<Rightarrow> match_here ps [] caps
      | c # cs \<Rightarrow>
          (case (if c = CHR 0x0A \<or> c = CHR 0x0D then None else match_here ps cs caps) of
             Some r \<Rightarrow> Some r
           | None \<Rightarrow> match_here ps (c # cs) caps))"

record hit =
  ht_pre :: string
  ht_text :: string
  ht_post :: string
  ht_caps :: captures

fun find_match :: "piece list \<Rightarrow> string \<Rightarrow> hit option" where
  "find_match ps s =
     (case match_here ps s [] of
        Some (caps, rest) \<Rightarrow>
          Some \<lparr>ht_pre = [], ht_text = take (length s - length rest) s, ht_post = rest, ht_caps = caps\<rparr>
      | None \<Rightarrow>
          (case s of
             [] \<Rightarrow> None
           | c # cs \<Rightarrow> map_option (\<lambda>h. h\<lparr>ht_pre := c # ht_pre h\<rparr>) (find_match ps cs)))"

declare find_match.simps [simp del]

definition cap :: "hit \<Rightarrow> nat \<Rightarrow> string" where
  "cap h n = (case dget (ht_caps h) n of Some w \<Rightarrow> w | None \<Rightarrow> ''undefined'')"

section \<open>Replacement\<close>

text \<open>
  The replacement text: \<open>$$\<close>, \<open>$&\<close>, \<open>$`\<close> and \<open>$'\<close> are special, and \<open>$1\<close> (or \<open>$01\<close>) is when the pattern is an
  expression with one group (\<open>grouped\<close>).
\<close>

fun expand :: "bool \<Rightarrow> hit \<Rightarrow> string \<Rightarrow> string" where
  "expand grouped h [] = []"
| "expand grouped h (c # cs) =
     (if c \<noteq> CHR ''$'' then c # expand grouped h cs
      else (case cs of
              [] \<Rightarrow> [c]
            | d # ds \<Rightarrow>
                if d = CHR ''$'' then CHR ''$'' # expand grouped h ds
                else if d = CHR ''&'' then ht_text h @ expand grouped h ds
                else if d = CHR 0x60 then ht_pre h @ expand grouped h ds
                else if d = CHR 0x27 then ht_post h @ expand grouped h ds
                else if grouped \<and> d = CHR ''1'' then cap h 1 @ expand grouped h ds
                else if grouped \<and> d = CHR ''0'' \<and> take 1 ds = ''1'' then cap h 1 @ expand grouped h (drop 1 ds)
                else c # expand grouped h cs))"

definition replace_text :: "string \<Rightarrow> string \<Rightarrow> string \<Rightarrow> string" where
  "replace_text old new s =
     (case find_match [Lit old] s of
        None \<Rightarrow> s
      | Some h \<Rightarrow> ht_pre h @ expand False h new @ ht_post h)"

definition replace_pattern :: "piece list \<Rightarrow> string \<Rightarrow> string \<Rightarrow> string" where
  "replace_pattern ps new s =
     (case find_match ps s of
        None \<Rightarrow> s
      | Some h \<Rightarrow> ht_pre h @ expand True h new @ ht_post h)"

section \<open>The rewrites\<close>

definition libsql_pattern :: "piece list" where
  "libsql_pattern =
     [Lit ''function '', Wd 1, Lit ''(e){if(e===null)return null;if(typeof e=='', AnyChar, Lit ''\"string\")return e;'']"

definition patch_libsql :: "string \<Rightarrow> string + string" where
  "patch_libsql s =
     (case find_match libsql_pattern s of
        None \<Rightarrow> Inl ''could not find @libsql/client value serializer''
      | Some h \<Rightarrow> Inr (replace_text (''function '' @ cap h 1 @ ''(e){if(e===null)return null;'')
                     (''function '' @ cap h 1 @ ''(e){if(e===void 0||e===null)return null;'') s))"

definition execa_pattern :: "piece list" where
  "execa_pattern =
     [Lit ''try{let '', Ident 1, Lit ''=(await import(\"execa\")).execa;return '', Ident 2, Lit ''='', Back 1,
      Lit '','', Back 1, Lit ''}'']"

definition execa_fix :: "string \<Rightarrow> string \<Rightarrow> string" where
  "execa_fix v cached =
     ''try{let '' @ v @ ''=globalThis.__execa_polyfill;if(!'' @ v @ '')throw new Error(\"no execa\");return ''
       @ cached @ ''='' @ v @ '','' @ v @ ''}''"

definition patch_execa :: "string \<Rightarrow> string + string" where
  "patch_execa s =
     (case find_match execa_pattern s of
        None \<Rightarrow> Inl ''could not find dynamic import(\"execa\") helper''
      | Some h \<Rightarrow> Inr (replace_text (ht_text h) (execa_fix (cap h 1) (cap h 2)) s))"

definition rag_pattern :: "piece list" where
  "rag_pattern = [Lit ''lengthFunction:'', Ident 1, Lit ''.optional('', Back 1, Lit ''.function())'']"

definition rag_fix :: "string \<Rightarrow> string" where
  "rag_fix v = ''lengthFunction:'' @ v @ ''.optional('' @ v @ ''.any())''"

definition patch_rag :: "string \<Rightarrow> string + string" where
  "patch_rag s =
     (case find_match rag_pattern s of
        None \<Rightarrow> Inl ''could not find RAG lengthFunction z.function validator''
      | Some h \<Rightarrow> Inr (replace_pattern rag_pattern (rag_fix (cap h 1)) s))"

definition null_pattern :: "piece list" where
  "null_pattern =
     [Lit ''function '', Ident 1, Lit ''('', Ident 2, Lit ''){let '', Ident 3, Lit '';try{'', Back 3, Lit ''='', Back 2,
      Lit ''[\"~standard\"].jsonSchema.input({target:\"draft-07\"})}catch{}if(!'', Back 3, Lit '')return '', Back 2,
      Lit '';let '', Ident 4, Lit ''='', Back 2, Lit ''[\"~standard\"];return{\"~standard\":{version:'', Back 4,
      Lit ''.version,vendor:'', Back 4, Lit ''.vendor,types:'', Back 4, Lit ''.types,validate:('', Ident 5, Lit '','',
      Ident 6, Lit '')=>{let '', Ident 7, Lit ''='', Ident 8, Lit ''('', Back 5, Lit '','', Back 3, Lit '');return '',
      Back 4, Lit ''.validate('', Back 7, Lit '','', Back 6, Lit '')},jsonSchema:'', Back 4, Lit ''.jsonSchema}}}'']"

definition null_fix :: "(nat \<Rightarrow> string) \<Rightarrow> string" where
  "null_fix x =
     ''function '' @ x 1 @ ''('' @ x 2 @ ''){let '' @ x 3 @ '';try{'' @ x 3 @ ''='' @ x 2
     @ ''[\"~standard\"].jsonSchema.input({target:\"draft-07\"})}catch{}if(!'' @ x 3 @ '')return '' @ x 2 @ '';let '' @ x 4
     @ ''='' @ x 2 @ ''[\"~standard\"],wrapper=Object.create('' @ x 2
     @ '');return Object.defineProperty(wrapper,\"~standard\",{value:{version:'' @ x 4 @ ''.version,vendor:'' @ x 4
     @ ''.vendor,types:'' @ x 4 @ ''.types,validate:('' @ x 5 @ '','' @ x 6 @ '')=>{let '' @ x 7 @ ''='' @ x 8 @ ''('' @ x 5
     @ '','' @ x 3 @ '');return '' @ x 4 @ ''.validate('' @ x 7 @ '','' @ x 6 @ '')},jsonSchema:'' @ x 4
     @ ''.jsonSchema},writable:!1,enumerable:!0,configurable:!1}),wrapper}''"

definition patch_null :: "string \<Rightarrow> string + string" where
  "patch_null s =
     (case find_match null_pattern s of
        None \<Rightarrow> Inl ''could not find @mastra/schema-compat wrapSchemaWithNullTransform helper''
      | Some h \<Rightarrow> Inr (replace_text (ht_text h) (null_fix (cap h)) s))"

text \<open>The end of the helper function is found by counting braces over at most 500 characters; 0 is no end.\<close>

fun brace_scan :: "nat \<Rightarrow> int \<Rightarrow> nat \<Rightarrow> string \<Rightarrow> nat" where
  "brace_scan 0 d i s = 0"
| "brace_scan (Suc n) d i [] = 0"
| "brace_scan (Suc n) d i (c # cs) =
     (if c = CHR ''{'' then brace_scan n (d + 1) (Suc i) cs
      else if c = CHR ''}'' then (if d - 1 = 0 then Suc i else brace_scan n (d - 1) (Suc i) cs)
      else brace_scan n d (Suc i) cs)"

definition tiktoken_pattern :: "piece list" where
  "tiktoken_pattern =
     [Lit ''async function '', Wd 1, Lit ''(){let e=globalThis['', Wd 2, Lit ''];if(e)return e;'']"

text \<open>\<open>function (\w+)\(e(?:,\w+)?\)\{switch\(e\)\<close>: the leftmost of the two forms.\<close>

definition encoder_name :: "string \<Rightarrow> string option" where
  "encoder_name chunk =
     (case (find_match [Lit ''function '', Wd 1, Lit ''(e){switch(e)''] chunk,
            find_match [Lit ''function '', Wd 1, Lit ''(e,'', Wd 2, Lit ''){switch(e)''] chunk) of
        (None, None) \<Rightarrow> None
      | (Some h, None) \<Rightarrow> Some (cap h 1)
      | (None, Some k) \<Rightarrow> Some (cap k 1)
      | (Some h, Some k) \<Rightarrow> Some (cap (if length (ht_pre h) < length (ht_pre k) then h else k) 1))"

definition encoder_chunk :: "string \<Rightarrow> string" where
  "encoder_chunk s =
     (case find_match [Lit ''\"o200k_base\":return new''] s of
        Some h \<Rightarrow> (let i = length (ht_pre h) in take (i + 50 - (i - 300)) (drop (i - 300) s))
      | None \<Rightarrow> take 49 s)"

definition tiktoken_fix :: "string \<Rightarrow> string \<Rightarrow> string \<Rightarrow> string" where
  "tiktoken_fix fn key enc =
     ''async function '' @ fn @ ''(){let e=globalThis['' @ key @ ''];if(e)return e;try{let I='' @ enc
     @ ''(\"o200k_base\");return globalThis['' @ key @ '']=I,I}catch(_){var F={encode:function(s){return Array.from''
     @ ''({length:Math.ceil((s||\"\").length/4)},function(_,i){return i})},decode:function(t){return\"[decoded]\"}};''
     @ ''return globalThis['' @ key @ '']=F,F}}''"

definition patch_tiktoken :: "string \<Rightarrow> string + string" where
  "patch_tiktoken s =
     (case find_match tiktoken_pattern s of
        None \<Rightarrow> Inl ''could not find getTiktoken helper''
      | Some h \<Rightarrow>
          (let body = ht_text h @ ht_post h; old = take (brace_scan 500 0 0 body) body in
           case encoder_name (encoder_chunk s) of
             None \<Rightarrow> Inl ''found getTiktoken helper but could not find o200k_base encoder function''
           | Some enc \<Rightarrow> Inr (replace_text old (tiktoken_fix (cap h 1) (cap h 2) enc) s)))"

section \<open>Patch metadata and the sequence of rewrites\<close>

record patch_entry =
  pe_required :: "bool option"
  pe_package :: string
  pe_range :: string
  pe_type :: string
  pe_expected :: string
  pe_removal :: string

definition requirePackagePatch :: "(string, patch_entry) dict \<Rightarrow> string \<Rightarrow> string + bool" where
  "requirePackagePatch m p =
     (case dget m p of
        None \<Rightarrow> Inl (''package patch '' @ p @ '' is missing from compat/manifest.json'')
      | Some e \<Rightarrow>
          (case pe_required e of
             None \<Rightarrow> Inl (''package patch '' @ p @ '' is missing required=true/false in compat/manifest.json'')
           | Some r \<Rightarrow>
               if [] \<in> {pe_package e, pe_range e, pe_type e, pe_expected e, pe_removal e}
               then Inl (''package patch '' @ p @ '' is missing package, versionRange, patchType, expected, ''
                         @ ''or removalCondition metadata in compat/manifest.json'')
               else Inr r))"

definition missed_message :: "patch_entry \<Rightarrow> string \<Rightarrow> string \<Rightarrow> string \<Rightarrow> string" where
  "missed_message e p detail installed =
     ''Package patch '' @ p @ '' not applied: '' @ detail @ ''. Package: '' @ pe_package e @ ''@'' @ installed
     @ ''. Version range: '' @ pe_range e @ ''. Patch type: '' @ pe_type e @ ''. Expected: '' @ pe_expected e
     @ ''. Removal condition: '' @ pe_removal e @ ''.''"

text \<open>A missed patch stops the build when it is required and only warns otherwise.\<close>

definition packagePatchMissed ::
  "(string, patch_entry) dict \<Rightarrow> (string \<Rightarrow> string) \<Rightarrow> string \<Rightarrow> string \<Rightarrow> string + unit" where
  "packagePatchMissed m installed p detail =
     (case requirePackagePatch m p of
        Inl e \<Rightarrow> Inl e
      | Inr required \<Rightarrow>
          (case dget m p of
             Some e \<Rightarrow> if required then Inl (missed_message e p detail (installed (pe_package e))) else Inr ()
           | None \<Rightarrow> Inr ()))"

text \<open>One rewrite: the error that stops the build, if any, and the bundle on disk after it.\<close>

definition apply_patch ::
  "(string, patch_entry) dict \<Rightarrow> (string \<Rightarrow> string) \<Rightarrow> string \<times> (string \<Rightarrow> string + string) \<Rightarrow> string \<Rightarrow> string option \<times> string" where
  "apply_patch m installed p s =
     (case requirePackagePatch m (fst p) of
        Inl e \<Rightarrow> (Some e, s)
      | Inr r \<Rightarrow>
          (case snd p s of
             Inr s' \<Rightarrow> (None, s')
           | Inl detail \<Rightarrow> (case packagePatchMissed m installed (fst p) detail of
                        Inl e \<Rightarrow> (Some e, s) | Inr _ \<Rightarrow> (None, s))))"

fun apply_patches ::
  "(string, patch_entry) dict \<Rightarrow> (string \<Rightarrow> string) \<Rightarrow> (string \<times> (string \<Rightarrow> string + string)) list \<Rightarrow> string
     \<Rightarrow> string option \<times> string" where
  "apply_patches m installed [] s = (None, s)"
| "apply_patches m installed (p # ps) s =
     (case apply_patch m installed p s of
        (Some e, s') \<Rightarrow> (Some e, s')
      | (None, s') \<Rightarrow> apply_patches m installed ps s')"

definition bundle_rewrites :: "(string \<times> (string \<Rightarrow> string + string)) list" where
  "bundle_rewrites =
     [(''libsql-undefined-null'', patch_libsql), (''execa-dynamic-import'', patch_execa),
      (''mastra-rag-zod-function'', patch_rag), (''mastra-schema-null-transform-prototype'', patch_null),
      (''tiktoken-fallback'', patch_tiktoken)]"

section \<open>Matching\<close>

text \<open>Patterns in which every name is followed by a literal that ends it.\<close>

definition stops :: "(char \<Rightarrow> bool) \<Rightarrow> piece list \<Rightarrow> bool" where
  "stops P ps = (case ps of Lit (c # l) # qs \<Rightarrow> \<not> P c | _ \<Rightarrow> False)"

fun delimited :: "piece list \<Rightarrow> bool" where
  "delimited [] = True"
| "delimited (Ident n # ps) \<longleftrightarrow> stops ident_char ps \<and> delimited ps"
| "delimited (Wd n # ps) \<longleftrightarrow> stops word_char ps \<and> delimited ps"
| "delimited (AnyChar # ps) = False"
| "delimited (p # ps) = delimited ps"

lemma drop_starts: "starts_with p s \<Longrightarrow> p @ drop (length p) s = s"
  by (auto simp: starts_with_iff)

lemma stops_head:
  assumes "stops P ps" and "match_here ps m caps = Some x"
  shows "\<exists>d l. m = d # l \<and> \<not> P d"
proof -
  obtain d l qs where ps: "ps = Lit (d # l) # qs" "\<not> P d"
    using assms(1) by (cases ps) (auto simp: stops_def split: piece.splits list.splits)
  then have "starts_with (d # l) m" using assms(2) by (simp split: if_splits)
  then show ?thesis using ps(2) by (auto simp: starts_with_iff)
qed

lemma greedy_name:
  assumes "\<not> P d"
  shows "takeWhile P (takeWhile P cs @ d # l) = takeWhile P cs" and "dropWhile P (takeWhile P cs @ d # l) = d # l"
  using assms by (induction cs) auto

text \<open>A match depends on the matched text only: it can be cut out and put in front of any other text.\<close>

definition settled :: "piece list \<Rightarrow> captures \<Rightarrow> string \<Rightarrow> captures \<Rightarrow> bool" where
  "settled ps caps m caps' \<longleftrightarrow> (\<forall>r. match_here ps (m @ r) caps = Some (caps', r))"

lemma settledD: "settled ps caps m caps' \<Longrightarrow> match_here ps (m @ r) caps = Some (caps', r)"
  by (simp add: settled_def)

lemma match_local:
  assumes "match_here ps s caps = Some (caps', r)" and "delimited ps"
  shows "\<exists>m. s = m @ r \<and> settled ps caps m caps'"
  using assms
proof (induction ps s caps rule: match_here.induct)
  case (1 s caps)
  then show ?case by (auto simp: settled_def)
next
  case (2 p ps s caps)
  then have p: "starts_with p s" by (simp split: if_splits)
  then obtain m where m: "drop (length p) s = m @ r" "settled ps caps m caps'" using 2 by auto
  then have "s = (p @ m) @ r" using drop_starts [OF p] by simp
  moreover have "settled (Lit p # ps) caps (p @ m) caps'" using m(2) by (simp add: settled_def)
  ultimately show ?case by blast
next
  case (3 n ps s caps)
  then obtain c cs where s: "s = c # cs" "ident_start c" by (auto split: list.splits if_splits)
  let ?w = "takeWhile ident_char cs"
  obtain m where m: "dropWhile ident_char cs = m @ r" "settled ps (dset caps n (c # ?w)) m caps'"
    using 3 s by auto
  obtain d l where d: "m = d # l" "\<not> ident_char d"
    using stops_head [OF _ settledD [OF m(2), of "[]"], of ident_char] 3(3) by auto
  have "s = (c # ?w @ m) @ r" using s m(1) by (metis append.assoc append_Cons takeWhile_dropWhile_id)
  moreover have "settled (Ident n # ps) caps (c # ?w @ m) caps'"
    using m(2) s d greedy_name [of ident_char d, OF d(2)] by (simp add: settled_def)
  ultimately show ?case by blast
next
  case (4 n ps s caps)
  let ?w = "takeWhile word_char s"
  have w: "?w \<noteq> []" using 4 by (simp split: if_splits)
  obtain m where m: "dropWhile word_char s = m @ r" "settled ps (dset caps n ?w) m caps'"
    using 4 w by auto
  obtain d l where d: "m = d # l" "\<not> word_char d"
    using stops_head [OF _ settledD [OF m(2), of "[]"], of word_char] 4(3) by auto
  have "s = (?w @ m) @ r" using m(1) by (metis append.assoc takeWhile_dropWhile_id)
  moreover have "settled (Wd n # ps) caps (?w @ m) caps'"
    using m(2) w d greedy_name [of word_char d, OF d(2)] by (simp add: settled_def)
  ultimately show ?case by blast
next
  case (5 n ps s caps)
  show ?case
  proof (cases "dget caps n")
    case None
    then show ?thesis using 5 by (simp add: settled_def)
  next
    case (Some w)
    then have p: "starts_with w s" using 5 by (simp split: if_splits)
    then obtain m where m: "drop (length w) s = m @ r" "settled ps caps m caps'" using 5 Some by auto
    then have "s = (w @ m) @ r" using drop_starts [OF p] by simp
    moreover have "settled (Back n # ps) caps (w @ m) caps'" using m(2) Some by (simp add: settled_def)
    ultimately show ?thesis by blast
  qed
next
  case (6 ps s caps)
  then show ?case by simp
qed

section \<open>Searching\<close>

lemma find_match_hit:
  assumes "find_match ps s = Some h" and "delimited ps"
  shows "s = ht_pre h @ ht_text h @ ht_post h \<and> settled ps [] (ht_text h) (ht_caps h)"
  using assms
proof (induction s arbitrary: h)
  case Nil
  then show ?case
    using match_local [of ps "[]" "[]"] by (auto simp: find_match.simps split: option.splits)
next
  case (Cons c cs)
  show ?case
  proof (cases "match_here ps (c # cs) []")
    case None
    then obtain k where k: "find_match ps cs = Some k" "h = k\<lparr>ht_pre := c # ht_pre k\<rparr>"
      using Cons.prems by (auto simp: find_match.simps [of ps "c # cs"])
    show ?thesis using Cons.IH [OF k(1) Cons.prems(2)] k(2) by simp
  next
    case (Some x)
    obtain caps' r where x: "x = (caps', r)" by (cases x)
    obtain m where m: "c # cs = m @ r" "settled ps [] m caps'"
      using match_local [OF Some [unfolded x] Cons.prems(2)] by blast
    have "h = \<lparr>ht_pre = [], ht_text = take (length (c # cs) - length r) (c # cs), ht_post = r, ht_caps = caps'\<rparr>"
      using Cons.prems(1) Some x by (simp add: find_match.simps [of ps "c # cs"])
    then show ?thesis using m by simp
  qed
qed

lemma find_match_first:
  "match_here ps u [] \<noteq> None \<Longrightarrow> \<exists>h. find_match ps (p @ u) = Some h \<and> length (ht_pre h) \<le> length p"
proof (induction p)
  case Nil
  then show ?case by (cases u) (auto simp: find_match.simps split: option.splits)
next
  case (Cons c p)
  then obtain h where "find_match ps (p @ u) = Some h" "length (ht_pre h) \<le> length p" by blast
  then show ?case by (auto simp: find_match.simps [of ps "c # p @ u"] split: option.splits)
qed

text \<open>Searching for the matched text, or for a longer text that starts with it, finds the match again.\<close>

lemma match_again:
  assumes h: "find_match ps s = Some h" and d: "delimited ps" and post: "ht_post h = x @ y"
  shows "\<exists>k. find_match [Lit (ht_text h @ x)] s = Some k \<and> ht_pre k = ht_pre h \<and> ht_text k = ht_text h @ x \<and> ht_post k = y"
proof -
  note hit = find_match_hit [OF h d]
  let ?t = "ht_text h @ x"
  have s: "s = ht_pre h @ (?t @ y)" using hit post by simp
  have "match_here [Lit ?t] (?t @ y) [] \<noteq> None" using starts_with_append [of ?t y] by simp
  from find_match_first [OF this, of "ht_pre h"] obtain k
    where k: "find_match [Lit ?t] s = Some k" "length (ht_pre k) \<le> length (ht_pre h)" using s by auto
  have hk: "s = ht_pre k @ ht_text k @ ht_post k" "settled [Lit ?t] [] (ht_text k) (ht_caps k)"
    using find_match_hit [OF k(1)] by auto
  have "match_here [Lit ?t] (ht_text k @ []) [] = Some (ht_caps k, [])" using settledD [OF hk(2)] .
  then have t: "ht_text k = ?t" using drop_starts [of ?t "ht_text k"] by (auto split: if_splits)
  have "match_here ps (ht_text h @ (x @ ht_post k)) [] \<noteq> None" using settledD [OF conjunct2 [OF hit]] by simp
  from find_match_first [OF this, of "ht_pre k"] have "length (ht_pre h) \<le> length (ht_pre k)"
    using h hk(1) t by auto
  then have "length (ht_pre h) = length (ht_pre k)" using k(2) by simp
  then have "ht_pre k = ht_pre h \<and> ?t @ ht_post k = ?t @ y" using s hk(1) t by (metis append_eq_append_conv)
  then show ?thesis using k(1) t by auto
qed

lemma expand_plain: "CHR ''$'' \<notin> set x \<Longrightarrow> expand g h x = x"
  by (induction x) auto

lemma replace_matched:
  assumes "find_match ps s = Some h" and "delimited ps" and "ht_post h = x @ y" and "CHR ''$'' \<notin> set new"
  shows "replace_text (ht_text h @ x) new s = ht_pre h @ new @ y"
  using match_again [OF assms(1-3)] assms(4) by (auto simp: replace_text_def expand_plain)

section \<open>Properties of single rewrites\<close>

text \<open>The rewrites that replace exactly the text they matched, with the text they put in its place.\<close>

definition exact_rewrites :: "(piece list \<times> (hit \<Rightarrow> string) \<times> (string \<Rightarrow> string + string)) list" where
  "exact_rewrites =
     [(execa_pattern, \<lambda>h. execa_fix (cap h 1) (cap h 2), patch_execa),
      (rag_pattern, \<lambda>h. rag_fix (cap h 1), patch_rag),
      (null_pattern, \<lambda>h. null_fix (cap h), patch_null)]"

definition no_dollar :: "hit \<Rightarrow> bool" where
  "no_dollar h \<longleftrightarrow> list_all (\<lambda>p. CHR ''$'' \<notin> set (snd p)) (ht_caps h)"

lemma no_dollar_cap: "no_dollar h \<Longrightarrow> CHR ''$'' \<notin> set (cap h n)"
  by (auto simp: no_dollar_def cap_def list_all_iff split: option.split dest!: dget_Some_mem)

lemma fixes_plain:
  assumes "no_dollar h"
  shows "CHR ''$'' \<notin> set (execa_fix (cap h 1) (cap h 2))" and "CHR ''$'' \<notin> set (rag_fix (cap h 1))"
    and "CHR ''$'' \<notin> set (null_fix (cap h))"
  using no_dollar_cap [OF assms] by (simp_all add: execa_fix_def rag_fix_def null_fix_def)

lemma patterns_delimited:
  "delimited execa_pattern" "delimited rag_pattern" "delimited null_pattern" "delimited tiktoken_pattern"
  by (simp_all add: execa_pattern_def rag_pattern_def null_pattern_def tiktoken_pattern_def stops_def
      ident_char_def word_char_def)

text \<open>
  C40. Each of these rewrites replaces the first occurrence of its pattern by its fixed text and leaves the
  rest of the bundle alone, for any minified names without a dollar sign. Without an occurrence it is
  a miss.
\<close>

theorem rewrite_exact:
  assumes "(ps, fix, patch) \<in> set exact_rewrites" and "no_dollar h"
  shows "(find_match ps s = Some h \<longrightarrow>
            s = ht_pre h @ ht_text h @ ht_post h \<and> patch s = Inr (ht_pre h @ fix h @ ht_post h))
    \<and> (find_match ps s = None \<longleftrightarrow> (\<exists>detail. patch s = Inl detail))"
proof -
  consider "ps = execa_pattern" "fix = (\<lambda>h. execa_fix (cap h 1) (cap h 2))" "patch = patch_execa"
    | "ps = rag_pattern" "fix = (\<lambda>h. rag_fix (cap h 1))" "patch = patch_rag"
    | "ps = null_pattern" "fix = (\<lambda>h. null_fix (cap h))" "patch = patch_null"
    using assms(1) by (auto simp: exact_rewrites_def)
  then show ?thesis
  proof cases
    case 1
    then show ?thesis
      using find_match_hit [of ps s h] replace_matched [of ps s h "[]"] patterns_delimited fixes_plain [OF assms(2)]
      by (auto simp: patch_execa_def split: option.split)
  next
    case 2
    then show ?thesis
      using find_match_hit [of ps s h] patterns_delimited fixes_plain [OF assms(2)]
      by (auto simp: patch_rag_def replace_pattern_def expand_plain split: option.split)
  next
    case 3
    then show ?thesis
      using find_match_hit [of ps s h] replace_matched [of ps s h "[]"] patterns_delimited fixes_plain [OF assms(2)]
      by (auto simp: patch_null_def split: option.split)
  qed
qed

definition sample_bundle :: string where
  "sample_bundle = ''a;try{let q=(await import(\"execa\")).execa;return e=q,q}b''"

lemma sample_match:
  "find_match execa_pattern sample_bundle = Some
     \<lparr>ht_pre = ''a;'', ht_text = ''try{let q=(await import(\"execa\")).execa;return e=q,q}'', ht_post = ''b'',
      ht_caps = [(1, ''q''), (2, ''e'')]\<rparr>"
  by (simp add: find_match.simps execa_pattern_def sample_bundle_def ident_start_def ident_char_def word_char_def)

theorem rewrite_exact_witness:
  "patch_execa sample_bundle = Inr (''a;'' @ execa_fix ''q'' ''e'' @ ''b'')"
  using rewrite_exact [of execa_pattern "\<lambda>h. execa_fix (cap h 1) (cap h 2)" patch_execa
      "\<lparr>ht_pre = ''a;'', ht_text = ''try{let q=(await import(\"execa\")).execa;return e=q,q}'', ht_post = ''b'',
      ht_caps = [(1, ''q''), (2, ''e'')]\<rparr>" sample_bundle] sample_match
  by (simp add: exact_rewrites_def no_dollar_def cap_def)

text \<open>
  Remark: A minified name made of two dollar signs loses one of them, because the replacement text is not
  escaped: the rewritten function then refers to a variable that was never assigned.
\<close>

theorem double_dollar_lost:
  "patch_execa ''try{let q=(await import(\"execa\")).execa;return $$=q,q}''
     = Inr (execa_fix ''q'' ''$'')"
  by (simp add: patch_execa_def find_match.simps execa_pattern_def execa_fix_def replace_text_def cap_def ident_start_def
      ident_char_def word_char_def)

text \<open>
  Remark: The serialiser rewrite searches for the beginning of the function it found, so an earlier function of
  the same minified name with the same beginning is rewritten in its place.
\<close>

theorem libsql_rewrites_namesake:
  "patch_libsql (''function a(e){if(e===null)return null;return 1}''
       @ ''function a(e){if(e===null)return null;if(typeof e==\"string\")return e;}'')
     = Inr (''function a(e){if(e===void 0||e===null)return null;return 1}''
       @ ''function a(e){if(e===null)return null;if(typeof e==\"string\")return e;}'')"
  by (simp add: patch_libsql_def find_match.simps libsql_pattern_def replace_text_def cap_def word_char_def)

section \<open>Properties of the sequence\<close>

text \<open>The build stops at the first required rewrite that finds nothing.\<close>

definition applied :: "(string \<times> (string \<Rightarrow> string + string)) \<Rightarrow> string \<Rightarrow> string" where
  "applied p s = (case snd p s of Inr s' \<Rightarrow> s' | Inl detail \<Rightarrow> s)"

definition required :: "(string, patch_entry) dict \<Rightarrow> string \<Rightarrow> bool" where
  "required m p = (requirePackagePatch m p = Inr True)"

lemma apply_patch_ok:
  "apply_patch m installed p s = (None, s') \<Longrightarrow>
     s' = applied p s \<and> requirePackagePatch m (fst p) \<in> range Inr
     \<and> (required m (fst p) \<longrightarrow> snd p s \<in> range Inr)"
  by (auto simp: apply_patch_def applied_def required_def packagePatchMissed_def requirePackagePatch_def
      split: sum.splits option.splits if_splits)

lemma apply_patch_error:
  "apply_patch m installed p s = (Some e, s') \<Longrightarrow>
     s' = s \<and> (requirePackagePatch m (fst p) = Inl e \<or> required m (fst p) \<and> snd p s \<in> range Inl)"
  by (auto simp: apply_patch_def required_def packagePatchMissed_def
      split: sum.splits option.splits if_splits)

text \<open>The bundle on disk before the rewrite with a given index.\<close>

definition disk :: "(string \<times> (string \<Rightarrow> string + string)) list \<Rightarrow> nat \<Rightarrow> string \<Rightarrow> string" where
  "disk ps i s = foldl (\<lambda>s p. applied p s) s (take i ps)"

lemma disk_simps [simp]: "disk ps 0 s = s" "disk (p # ps) (Suc i) s = disk ps i (applied p s)"
  by (simp_all add: disk_def)

definition stop_reason ::
  "(string, patch_entry) dict \<Rightarrow> (string \<times> (string \<Rightarrow> string + string)) list \<Rightarrow> string \<Rightarrow> string \<Rightarrow> nat \<Rightarrow> bool" where
  "stop_reason m ps s e i \<longleftrightarrow> requirePackagePatch m (fst (ps ! i)) = Inl e
     \<or> required m (fst (ps ! i)) \<and> snd (ps ! i) (disk ps i s) \<in> range Inl"

text \<open>
  Remark: A build that passes has the declared metadata of every rewrite and found the text of every required
  one, in the bundle as the earlier rewrites left it; its bundle is the composition of the rewrites
  that found theirs. A build that stops does so at a rewrite without metadata or a required one that
  found nothing, and the bundle on disk is the one the earlier rewrites left.
\<close>

theorem patches_checked:
  "case apply_patches m installed ps s of
     (None, s') \<Rightarrow> s' = disk ps (length ps) s
       \<and> (\<forall>i<length ps. requirePackagePatch m (fst (ps ! i)) \<in> range Inr
            \<and> (required m (fst (ps ! i)) \<longrightarrow> snd (ps ! i) (disk ps i s) \<in> range Inr))
   | (Some e, s') \<Rightarrow> (\<exists>i<length ps. s' = disk ps i s \<and> stop_reason m ps s e i)"
proof (induction ps arbitrary: s)
  case Nil
  then show ?case by simp
next
  case (Cons p ps)
  obtain r s1 where p: "apply_patch m installed p s = (r, s1)" by (cases "apply_patch m installed p s")
  show ?case
  proof (cases r)
    case (Some e)
    then show ?thesis
      using p apply_patch_error [of m installed p s e s1] by (auto simp: stop_reason_def intro!: exI [where x = 0])
  next
    case None
    note ok = apply_patch_ok [OF p [unfolded None]]
    have s1: "s1 = applied p s" using ok by blast
    show ?thesis
    proof (cases "apply_patches m installed ps s1")
      case (Pair r' s')
      show ?thesis
      proof (cases r')
        case (Some e)
        then obtain i where "i < length ps" "s' = disk ps i s1" "stop_reason m ps s1 e i"
          using Cons.IH [of s1] Pair by auto
        then show ?thesis
          using p None Pair Some s1 by (auto simp: stop_reason_def intro!: exI [where x = "Suc i"])
      next
        case None
        then show ?thesis
          using Cons.IH [of s1] Pair p \<open>r = None\<close> ok by (auto simp: All_less_Suc2)
      qed
    qed
  qed
qed

definition sample_manifest :: "(string, patch_entry) dict" where
  "sample_manifest = [(''execa-dynamic-import'', \<lparr>pe_required = Some True, pe_package = ''execa'', pe_range = ''9.6.1'',
     pe_type = ''post-build-rewrite'', pe_expected = ''x'', pe_removal = ''y''\<rparr>)]"

lemma sample_patched: "patch_execa sample_bundle = Inr (''a;'' @ execa_fix ''q'' ''e'' @ ''b'')"
  using replace_matched [OF sample_match patterns_delimited(1), of "[]" "''b''" "execa_fix ''q'' ''e''"]
  by (simp add: patch_execa_def sample_match cap_def execa_fix_def)

theorem patches_checked_witness:
  "apply_patches sample_manifest (\<lambda>_. ''9'') [(''execa-dynamic-import'', patch_execa)] sample_bundle
     = (None, ''a;'' @ execa_fix ''q'' ''e'' @ ''b'')
   \<and> patch_execa sample_bundle \<in> range Inr"
proof -
  let ?ps = "[(''execa-dynamic-import'', patch_execa)]"
  obtain r s' where r: "apply_patches sample_manifest (\<lambda>_. ''9'') ?ps sample_bundle = (r, s')" by force
  have q: "required sample_manifest ''execa-dynamic-import''"
    by (simp add: required_def requirePackagePatch_def sample_manifest_def)
  then have "r = None"
    using patches_checked [where m = sample_manifest and installed = "\<lambda>_. ''9''" and ps = ?ps and s = sample_bundle] r
    by (auto simp: stop_reason_def required_def sample_patched split: option.splits)
  then show ?thesis
    using patches_checked [where m = sample_manifest and installed = "\<lambda>_. ''9''" and ps = ?ps and s = sample_bundle] r q
    by (simp add: applied_def sample_patched)
qed

section \<open>Properties of the tokenizer rewrite\<close>

definition brace :: "char \<Rightarrow> int" where
  "brace c = (if c = CHR ''{'' then 1 else if c = CHR ''}'' then -1 else 0)"

definition depth :: "string \<Rightarrow> int" where
  "depth s = sum_list (map brace s)"

lemma depth_simps [simp]: "depth [] = 0" "depth (c # s) = brace c + depth s" "depth (s @ t) = depth s + depth t"
  by (simp_all add: depth_def)

text \<open>The scan finds the first closing brace that balances everything before it.\<close>

lemma brace_scan_span:
  assumes "brace_scan n d i s \<noteq> 0"
  shows "\<exists>m. brace_scan n d i s = i + length m \<and> length m \<le> n \<and> (\<exists>r. s = m @ r) \<and> d + depth m = 0
      \<and> (\<exists>m'. m = m' @ [CHR ''}''])"
  using assms
proof (induction n d i s rule: brace_scan.induct)
  case (3 n d i c cs)
  show ?case
  proof (cases "c = CHR ''}'' \<and> d - 1 = 0")
    case True
    then show ?thesis by (intro exI [where x = "[c]"]) (simp add: brace_def)
  next
    case False
    have "brace_scan (Suc n) d i (c # cs) = brace_scan n (d + brace c) (Suc i) cs"
      using False by (auto simp: brace_def)
    moreover have "\<exists>m. brace_scan n (d + brace c) (Suc i) cs = Suc i + length m \<and> length m \<le> n \<and> (\<exists>r. cs = m @ r)
        \<and> d + brace c + depth m = 0 \<and> (\<exists>m'. m = m' @ [CHR ''}''])"
      using 3 False by (auto simp: brace_def split: if_splits)
    ultimately obtain m where m: "brace_scan (Suc n) d i (c # cs) = Suc i + length m" "length m \<le> n"
        "\<exists>r. cs = m @ r" "d + brace c + depth m = 0" "\<exists>m'. m = m' @ [CHR ''}'']" by auto
    then show ?thesis by (intro exI [where x = "c # m"]) auto
  qed
qed simp_all

fun plain_pieces :: "(char \<Rightarrow> bool) \<Rightarrow> piece list \<Rightarrow> bool" where
  "plain_pieces P [] = True"
| "plain_pieces P (Lit p # ps) \<longleftrightarrow> list_all P p \<and> plain_pieces P ps"
| "plain_pieces P (Wd n # ps) = plain_pieces P ps"
| "plain_pieces P (p # ps) = False"

definition words :: "captures \<Rightarrow> bool" where
  "words caps = list_all (\<lambda>p. list_all word_char (snd p)) caps"

lemma words_dset: "words caps \<Longrightarrow> list_all word_char w \<Longrightarrow> words (dset caps n w)"
  unfolding words_def by (induction caps n w rule: dset.induct) auto

lemma word_takeWhile: "list_all P (takeWhile P s)"
  by (induction s) auto

lemma plain_match:
  assumes "match_here ps s caps = Some (caps', r)" and "plain_pieces P ps" and "\<And>c. word_char c \<Longrightarrow> P c" and "words caps"
  shows "\<exists>m. s = m @ r \<and> list_all P m \<and> words caps'"
  using assms
proof (induction ps s caps rule: match_here.induct)
  case (2 p ps s caps)
  then have p: "starts_with p s" by (simp split: if_splits)
  then obtain m where "drop (length p) s = m @ r" "list_all P m" "words caps'" using 2 by auto
  then show ?case using drop_starts [OF p] 2 by (intro exI [where x = "p @ m"]) auto
next
  case (4 n ps s caps)
  let ?w = "takeWhile word_char s"
  have "words (dset caps n ?w)" using words_dset [OF 4(5)] word_takeWhile by blast
  then obtain m where m: "dropWhile word_char s = m @ r" "list_all P m" "words caps'"
    using 4 by (auto split: if_splits)
  have "list_all P ?w" using word_takeWhile [of word_char s] 4(4) by (auto simp: list_all_iff)
  moreover have "s = (?w @ m) @ r" using m(1) by (metis append.assoc takeWhile_dropWhile_id)
  ultimately show ?case using m by (intro exI [where x = "?w @ m"]) simp
qed auto

lemma plain_find:
  assumes "find_match ps s = Some h" and "delimited ps" and "plain_pieces P ps" and "\<And>c. word_char c \<Longrightarrow> P c"
  shows "list_all P (ht_text h) \<and> words (ht_caps h)"
proof -
  have "match_here ps (ht_text h @ []) [] = Some (ht_caps h, [])"
    using settledD [OF conjunct2 [OF find_match_hit [OF assms(1,2)]]] .
  from plain_match [OF this assms(3,4)] show ?thesis by (simp add: words_def)
qed

lemma words_cap: "words (ht_caps h) \<Longrightarrow> CHR ''$'' \<notin> set (cap h n)"
proof -
  have "\<not> word_char CHR ''$''" by (simp add: word_char_def)
  then show "words (ht_caps h) \<Longrightarrow> CHR ''$'' \<notin> set (cap h n)"
    by (auto simp: words_def cap_def list_all_iff split: option.split dest!: dget_Some_mem)
qed

lemma encoder_word: "encoder_name chunk = Some enc \<Longrightarrow> CHR ''$'' \<notin> set enc"
proof -
  assume e: "encoder_name chunk = Some enc"
  let ?ps = "[Lit ''function '', Wd 1, Lit ''(e){switch(e)'']"
  let ?qs = "[Lit ''function '', Wd 1, Lit ''(e,'', Wd 2, Lit ''){switch(e)'']"
  have "\<exists>k. (find_match ?ps chunk = Some k \<or> find_match ?qs chunk = Some k) \<and> enc = cap k 1"
    using e unfolding encoder_name_def by (auto simp del: One_nat_def split: option.splits if_splits)
  then obtain k where k: "find_match ?ps chunk = Some k \<or> find_match ?qs chunk = Some k" "enc = cap k 1" by blast
  have "words (ht_caps k)"
    using k(1) plain_find [of ?ps chunk k "\<lambda>_. True"] plain_find [of ?qs chunk k "\<lambda>_. True"]
    by (auto simp: stops_def word_char_def simp del: One_nat_def)
  then show ?thesis using k(2) words_cap by simp
qed

text \<open>
  Remark: The tokenizer helper is replaced from its header to the brace that closes it when that brace is within
  500 characters. When it is not, nothing is removed: the new function goes to the very front of the
  bundle and the old one stays where it was.
\<close>

theorem tokenizer_rewrite:
  assumes "find_match tiktoken_pattern s = Some h" and "encoder_name (encoder_chunk s) = Some enc"
  defines "new \<equiv> tiktoken_fix (cap h 1) (cap h 2) enc"
  shows "if brace_scan 500 0 0 (ht_text h @ ht_post h) = 0 then patch_tiktoken s = Inr (new @ s)
    else \<exists>body rest. s = ht_pre h @ ht_text h @ body @ rest \<and> patch_tiktoken s = Inr (ht_pre h @ new @ rest)
       \<and> depth (ht_text h @ body) = 0 \<and> length (ht_text h @ body) \<le> 500"
proof -
  let ?k = "brace_scan 500 0 0 (ht_text h @ ht_post h)"
  note hit = find_match_hit [OF assms(1) patterns_delimited(4)]
  have t: "list_all (\<lambda>c. c \<noteq> CHR ''}'') (ht_text h) \<and> words (ht_caps h)"
    by (rule plain_find [OF assms(1) patterns_delimited(4)]) (auto simp: tiktoken_pattern_def word_char_def)
  have d: "CHR ''$'' \<notin> set new"
    using words_cap [OF conjunct2 [OF t]] encoder_word [OF assms(2)] by (simp add: new_def tiktoken_fix_def)
  have p: "patch_tiktoken s = Inr (replace_text (take ?k (ht_text h @ ht_post h)) new s)"
    using assms by (simp add: patch_tiktoken_def Let_def)
  show ?thesis
  proof (cases "?k = 0")
    case True
    then show ?thesis using p expand_plain [OF d] by (simp add: replace_text_def find_match.simps)
  next
    case False
    obtain m r m' where m: "?k = length m" "length m \<le> 500" "ht_text h @ ht_post h = m @ r" "depth m = 0" "m = m' @ [CHR ''}'']"
      using brace_scan_span [OF False] by auto
    have "CHR ''}'' \<notin> set (ht_text h)" using t by (auto simp: list_all_iff)
    then have "ht_text h \<noteq> m @ u" for u using m(5) by auto
    then obtain x where x: "m = ht_text h @ x" "ht_post h = x @ r"
      using m(3) [unfolded append_eq_append_conv2] by blast
    have "replace_text (ht_text h @ x) new s = ht_pre h @ new @ r"
      by (rule replace_matched [OF assms(1) patterns_delimited(4) x(2) d])
    then have "patch_tiktoken s = Inr (ht_pre h @ new @ r)" using p m(1,3) x(1) by simp
    moreover have "s = ht_pre h @ ht_text h @ x @ r" using hit x(2) by simp
    moreover have "depth (ht_text h @ x) = 0" "length (ht_text h @ x) \<le> 500" using m(2,4) x(1) by simp_all
    ultimately show ?thesis using False by auto
  qed
qed

definition tokenizer_bundle :: string where
  "tokenizer_bundle = ''1;async function t(){let e=globalThis[k];if(e)return e;f()}''
     @ ''function enc(e){switch(e){case\"o200k_base\":return new''"

definition tokenizer_hit :: hit where
  "tokenizer_hit = \<lparr>ht_pre = ''1;'', ht_text = ''async function t(){let e=globalThis[k];if(e)return e;'',
     ht_post = ''f()}function enc(e){switch(e){case\"o200k_base\":return new'', ht_caps = [(1, ''t''), (2, ''k'')]\<rparr>"

lemma tokenizer_matches:
  "find_match tiktoken_pattern tokenizer_bundle = Some tokenizer_hit"
  by (simp add: find_match.simps tiktoken_pattern_def tokenizer_bundle_def tokenizer_hit_def word_char_def)

lemma tokenizer_encoder: "encoder_name (encoder_chunk tokenizer_bundle) = Some ''enc''"
proof -
  have "encoder_chunk tokenizer_bundle = tokenizer_bundle"
    by (simp add: find_match.simps encoder_chunk_def tokenizer_bundle_def)
  then show ?thesis
    by (simp add: encoder_name_def find_match.simps tokenizer_bundle_def word_char_def cap_def)
qed

theorem tokenizer_rewrite_witness:
  "\<exists>rest. patch_tiktoken tokenizer_bundle = Inr (''1;'' @ tiktoken_fix ''t'' ''k'' ''enc'' @ rest)"
proof -
  have "brace_scan 500 0 0 (ht_text tokenizer_hit @ ht_post tokenizer_hit) \<noteq> 0"
    by (simp add: tokenizer_hit_def numeral_eq_Suc)
  then show ?thesis
    using tokenizer_rewrite [OF tokenizer_matches tokenizer_encoder] by (auto simp: tokenizer_hit_def cap_def)
qed

end
