(* ===== verification/Harness_Patches.thy ===== *)
theory Harness_Patches
  imports Js_Values
begin

text \<open>
  \<open>entry.mjs\<close>, the two changes to the harness class: \<open>sendMessage\<close> waits until the run it started has
  ended, and the approval handlers consume the resumed stream themselves. The class and its agent
  are third-party: what their methods return, when they fail and what they change while they are
  awaited are parameters, indexed by the position of the call. The original \<open>sendMessage\<close> is assumed to settle: the
  time limit of the wait begins after it.
\<close>

section \<open>Waiting for the run\<close>

record run_flags =
  sawRunStart :: bool
  sawRunEnd :: bool

definition event_type :: "jsval \<Rightarrow> jsval" where
  "event_type e = (if nullish e then JUndef else getp e ''type'')"

definition on_event :: "jsval \<Rightarrow> run_flags \<Rightarrow> run_flags" where
  "on_event e f =
     (if event_type e = JStr ''agent_start'' then f\<lparr>sawRunStart := True, sawRunEnd := False\<rparr>
      else if sawRunStart f \<and> event_type e = JStr ''agent_end'' then f\<lparr>sawRunEnd := True\<rparr>
      else f)"

text \<open>
  \<open>sd_active\<close> is \<open>None\<close> when the method is missing, \<open>sd_subscribe\<close> likewise, with whether it returned
  an unsubscribe function. \<open>sd_running n\<close> answers the n-th poll, before which the events
  \<open>sd_events n\<close> arrive; those of poll 0 arrive during the original call. \<open>sd_elapsed n\<close> is the time
  since the start of the wait at the n-th poll, \<open>sd_timeout\<close> the configured time as a number.
\<close>

record send_env =
  sd_active :: "(jsval + bool) option"
  sd_subscribe :: "(jsval + bool) option"
  sd_original :: "jsval + jsval"
  sd_has_running :: bool
  sd_running :: "nat \<Rightarrow> jsval + bool"
  sd_events :: "nat \<Rightarrow> jsval list"
  sd_timeout :: jsnum
  sd_elapsed :: "nat \<Rightarrow> int"
  sd_unsubscribe :: "jsval option"

definition listening :: "send_env \<Rightarrow> bool" where
  "listening env = (case sd_subscribe env of Some (Inr b) \<Rightarrow> True | _ \<Rightarrow> False)"

definition observe :: "send_env \<Rightarrow> nat \<Rightarrow> run_flags \<Rightarrow> run_flags" where
  "observe env n f = (if listening env then fold on_event (sd_events env n) f else f)"

definition wait_error :: jsval where
  "wait_error = JErr PlainError
     ''Harness.sendMessage timed out waiting for the Brainkit stream run to become idle'' []"

definition timed_out_at :: "send_env \<Rightarrow> nat \<Rightarrow> bool" where
  "timed_out_at env n \<longleftrightarrow>
     num_less (Fin 0) (sd_timeout env) \<and> num_less (sd_timeout env) (Fin (of_int (sd_elapsed env n)))"

partial_function (option) wait_loop :: "send_env \<Rightarrow> nat \<Rightarrow> run_flags \<Rightarrow> (jsval + nat) option" where
  "wait_loop env n f =
     (case sd_running env n of
        Inl e \<Rightarrow> Some (Inl e)
      | Inr running \<Rightarrow>
          if \<not> (running \<and> \<not> sawRunEnd f) then Some (Inr n)
          else if timed_out_at env n then Some (Inl wait_error)
          else wait_loop env (Suc n) (observe env (Suc n) f))"

datatype send_call = SSubscribe | SOriginal | SUnsubscribe

definition flags0 :: run_flags where
  "flags0 = \<lparr>sawRunStart = False, sawRunEnd = False\<rparr>"

text \<open>The body of the \<open>try\<close>: the value and the poll at which the wait ended, if it waited.\<close>

definition send_body :: "send_env \<Rightarrow> bool \<Rightarrow> (jsval + jsval \<times> nat option) option" where
  "send_body env was_active =
     (case sd_original env of
        Inl e \<Rightarrow> Some (Inl e)
      | Inr v \<Rightarrow>
          if was_active \<or> \<not> sd_has_running env then Some (Inr (v, None))
          else (case wait_loop env 0 (observe env 0 flags0) of
                  None \<Rightarrow> None
                | Some (Inl e) \<Rightarrow> Some (Inl e)
                | Some (Inr n) \<Rightarrow> Some (Inr (v, Some n))))"

text \<open>The \<open>finally\<close>: a throwing unsubscribe function replaces the outcome.\<close>

definition send_finish :: "send_env \<Rightarrow> jsval + jsval \<times> nat option \<Rightarrow> (jsval + jsval \<times> nat option) \<times> send_call list" where
  "send_finish env r =
     (if sd_subscribe env = Some (Inr True)
      then (case sd_unsubscribe env of Some e \<Rightarrow> Inl e | None \<Rightarrow> r, [SUnsubscribe]) else (r, []))"

definition brainkitSendMessage :: "send_env \<Rightarrow> ((jsval + jsval \<times> nat option) \<times> send_call list) option" where
  "brainkitSendMessage env =
     (case sd_active env of
        Some (Inl e) \<Rightarrow> Some (Inl e, [])
      | active \<Rightarrow>
          (case sd_subscribe env of
             Some (Inl e) \<Rightarrow> Some (Inl e, [])
           | sub \<Rightarrow>
               (case send_body env (active = Some (Inr True)) of
                  None \<Rightarrow> None
                | Some r \<Rightarrow> Some (fst (send_finish env r),
                    (if listening env then [SSubscribe] else []) @ [SOriginal] @ snd (send_finish env r)))))"

section \<open>Resuming after an approval\<close>

record harness =
  hn_run :: jsval
  hn_controller :: "nat option"
  hn_thread :: jsval
  hn_resource :: jsval
  hn_yolo :: jsval

record resume_args =
  ra_run :: jsval
  ra_tool :: jsval
  ra_require :: bool
  ra_memory :: "(jsval \<times> jsval) option"
  ra_signal :: nat
  ra_context :: jsval
  ra_toolsets :: jsval

datatype harness_call =
    HGetAgent
  | HNewController
  | HBuildContext jsval
  | HBuildToolsets jsval
  | HApprove resume_args
  | HDecline resume_args
  | HProcess jsval jsval
  | HCleanup

text \<open>
  What the n-th call returns or throws, and what changes of the harness happen until its caller
  goes on. The n-th call is the one made when n calls have been made.
\<close>

record resume_env =
  re_result :: "nat \<Rightarrow> jsval + jsval"
  re_effect :: "nat \<Rightarrow> harness \<Rightarrow> harness"
  re_has_process :: bool
  re_has_cleanup :: bool

type_synonym 'a hm = "(jsval, harness \<times> harness_call list, 'a) comp"

definition hcall :: "resume_env \<Rightarrow> harness_call \<Rightarrow> jsval hm" where
  "hcall env c = (\<lambda>(h, cs). (re_result env (length cs), (re_effect env (length cs) h, cs @ [c])))"

definition stream_of :: "jsval \<Rightarrow> bool" where
  "stream_of v \<longleftrightarrow> truthy v \<and> is_object v \<and> truthy (getp v ''fullStream'')"

definition processApprovalResumeOutput :: "resume_env \<Rightarrow> jsval \<Rightarrow> jsval \<Rightarrow> unit hm" where
  "processApprovalResumeOutput env output ctx =
     (if \<not> stream_of output then ret ()
      else if \<not> re_has_process env then ret ()
      else seq (hcall env (HProcess output ctx))
            (if re_has_cleanup env then seq (hcall env HCleanup) (ret ()) else ret ()))"

definition ensure_controller :: "resume_env \<Rightarrow> unit hm" where
  "ensure_controller env = (\<lambda>(h, cs).
     case hn_controller h of
       Some k \<Rightarrow> (Inr (), (h, cs))
     | None \<Rightarrow> (Inr (), (h\<lparr>hn_controller := Some (length cs)\<rparr>, cs @ [HNewController])))"

definition no_signal_error :: jsval where
  "no_signal_error = JErr TypeErr ''cannot read property signal'' []"

text \<open>The argument objects of the two handlers, evaluated in the order of their properties.\<close>

definition resume_arguments :: "resume_env \<Rightarrow> jsval \<Rightarrow> bool \<Rightarrow> jsval \<Rightarrow> resume_args hm" where
  "resume_arguments env toolCallId isYolo ctx =
     bind (gets fst) (\<lambda>h.
       case hn_controller h of
         None \<Rightarrow> throw no_signal_error
       | Some k \<Rightarrow>
           bind (hcall env (HBuildToolsets ctx)) (\<lambda>toolsets.
             ret \<lparr>ra_run = hn_run h, ra_tool = toolCallId, ra_require = (\<not> isYolo),
                  ra_memory = (if truthy (hn_thread h) then Some (hn_thread h, hn_resource h) else None),
                  ra_signal = k, ra_context = ctx, ra_toolsets = toolsets\<rparr>))"

definition decline_arguments :: "resume_env \<Rightarrow> jsval \<Rightarrow> bool \<Rightarrow> jsval \<Rightarrow> resume_args hm" where
  "decline_arguments env toolCallId isYolo ctx =
     bind (gets fst) (\<lambda>h.
       case hn_controller h of
         None \<Rightarrow> throw no_signal_error
       | Some k \<Rightarrow>
           bind (hcall env (HBuildToolsets ctx)) (\<lambda>toolsets.
             ret \<lparr>ra_run = hn_run h, ra_tool = toolCallId, ra_require = (\<not> isYolo),
                  ra_memory = (if truthy (hn_thread h) then Some (hn_thread h, hn_resource h) else None),
                  ra_signal = k, ra_context = ctx, ra_toolsets = toolsets\<rparr>))"

definition handleToolApprove :: "resume_env \<Rightarrow> jsval \<Rightarrow> jsval \<Rightarrow> unit hm" where
  "handleToolApprove env toolCallId requestContext =
     bind (gets (hn_run \<circ> fst)) (\<lambda>run.
       if \<not> truthy run then throw (JErr PlainError ''No active run to approve tool call for'' [])
       else bind (hcall env HGetAgent) (\<lambda>agent.
         seq (ensure_controller env)
          (bind (hcall env (HBuildContext requestContext)) (\<lambda>ctx.
            bind (gets (\<lambda>s. hn_yolo (fst s) = JBool True)) (\<lambda>isYolo.
              bind (resume_arguments env toolCallId isYolo ctx) (\<lambda>args.
                bind (hcall env (HApprove args)) (\<lambda>output.
                  processApprovalResumeOutput env output ctx)))))))"

definition handleToolDecline :: "resume_env \<Rightarrow> jsval \<Rightarrow> jsval \<Rightarrow> unit hm" where
  "handleToolDecline env toolCallId requestContext =
     bind (gets (hn_run \<circ> fst)) (\<lambda>run.
       if \<not> truthy run then throw (JErr PlainError ''No active run to decline tool call for'' [])
       else bind (hcall env HGetAgent) (\<lambda>agent.
         seq (ensure_controller env)
          (bind (hcall env (HBuildContext requestContext)) (\<lambda>ctx.
            bind (gets (\<lambda>s. hn_yolo (fst s) = JBool True)) (\<lambda>isYolo.
              bind (decline_arguments env toolCallId isYolo ctx) (\<lambda>args.
                bind (hcall env (HDecline args)) (\<lambda>output.
                  processApprovalResumeOutput env output ctx)))))))"

section \<open>Properties of the wait\<close>

definition is_start :: "jsval \<Rightarrow> bool" where
  "is_start e \<longleftrightarrow> event_type e = JStr ''agent_start''"

definition is_end :: "jsval \<Rightarrow> bool" where
  "is_end e \<longleftrightarrow> event_type e = JStr ''agent_end''"

text \<open>A run was started and the last one started has ended.\<close>

definition run_over :: "jsval list \<Rightarrow> bool" where
  "run_over es \<longleftrightarrow> list_ex is_start es \<and> list_ex is_end (takeWhile (\<lambda>e. \<not> is_start e) (rev es))"

lemma on_event_eq:
  "on_event e f = (if is_start e then f\<lparr>sawRunStart := True, sawRunEnd := False\<rparr>
     else if sawRunStart f \<and> is_end e then f\<lparr>sawRunEnd := True\<rparr> else f)"
  by (simp add: on_event_def is_start_def is_end_def)

lemma fold_events: "fold on_event es flags0 = \<lparr>sawRunStart = list_ex is_start es, sawRunEnd = run_over es\<rparr>"
  by (induction es rule: rev_induct) (auto simp: flags0_def run_over_def on_event_eq)

definition events_until :: "send_env \<Rightarrow> nat \<Rightarrow> jsval list" where
  "events_until env n = concat (map (sd_events env) [0..<Suc n])"

definition flags_at :: "send_env \<Rightarrow> nat \<Rightarrow> run_flags" where
  "flags_at env n = (if listening env then fold on_event (events_until env n) flags0 else flags0)"

lemma flags_at_Suc: "observe env (Suc n) (flags_at env n) = flags_at env (Suc n)"
  by (simp add: observe_def flags_at_def events_until_def)

lemma flags_at_0: "observe env 0 flags0 = flags_at env 0"
  by (simp add: observe_def flags_at_def events_until_def)

definition run_ended :: "send_env \<Rightarrow> nat \<Rightarrow> bool" where
  "run_ended env n \<longleftrightarrow> listening env \<and> run_over (events_until env n)"

lemma sawRunEnd_at: "sawRunEnd (flags_at env n) \<longleftrightarrow> run_ended env n"
  by (simp add: flags_at_def run_ended_def fold_events) (simp add: flags0_def)

definition idle :: "send_env \<Rightarrow> nat \<Rightarrow> bool" where
  "idle env n \<longleftrightarrow> sd_running env n = Inr False \<or> (\<exists>b. sd_running env n = Inr b) \<and> run_ended env n"

definition kept_waiting :: "send_env \<Rightarrow> nat \<Rightarrow> nat \<Rightarrow> bool" where
  "kept_waiting env n m \<longleftrightarrow>
     (\<forall>k\<in>{n..<m}. sd_running env k = Inr True \<and> \<not> run_ended env k \<and> \<not> timed_out_at env k)"

lemma kept_waiting_step:
  "sd_running env n = Inr True \<Longrightarrow> \<not> run_ended env n \<Longrightarrow> \<not> timed_out_at env n \<Longrightarrow> kept_waiting env (Suc n) m
     \<Longrightarrow> kept_waiting env n m"
  by (auto simp: kept_waiting_def) (metis Suc_leI atLeastLessThan_iff le_neq_implies_less)+

lemma wait_loop_ends:
  assumes "wait_loop env n (flags_at env n) = Some r"
  shows "case r of Inr m \<Rightarrow> n \<le> m \<and> idle env m \<and> kept_waiting env n m | Inl e \<Rightarrow> True"
proof -
  have "env' = env \<longrightarrow> f = flags_at env k \<longrightarrow>
      (case r of Inr m \<Rightarrow> k \<le> m \<and> idle env m \<and> kept_waiting env k m | Inl e \<Rightarrow> True)"
    if "wait_loop env' k f = Some r" for env' k f r
    using that
  proof (rule wait_loop.raw_induct
      [where P = "\<lambda>env' k f r. env' = env \<longrightarrow> f = flags_at env k \<longrightarrow>
         (case r of Inr m \<Rightarrow> k \<le> m \<and> idle env m \<and> kept_waiting env k m | Inl e \<Rightarrow> True)", rotated], intro impI)
    fix loop env' k f r
    assume IH: "\<And>env' k f r. loop env' k f = Some r \<Longrightarrow> env' = env \<longrightarrow> f = flags_at env k \<longrightarrow>
        (case r of Inr m \<Rightarrow> k \<le> m \<and> idle env m \<and> kept_waiting env k m | Inl e \<Rightarrow> True)"
      and body: "(case sd_running env' k of Inl e \<Rightarrow> Some (Inl e)
         | Inr running \<Rightarrow>
             if \<not> (running \<and> \<not> sawRunEnd f) then Some (Inr k)
             else if timed_out_at env' k then Some (Inl wait_error)
             else loop env' (Suc k) (observe env' (Suc k) f)) = Some r"
      and eq: "env' = env" "f = flags_at env k"
    show "case r of Inr m \<Rightarrow> k \<le> m \<and> idle env m \<and> kept_waiting env k m | Inl e \<Rightarrow> True"
    proof (cases "sd_running env k = Inr True \<and> \<not> run_ended env k")
      case False
      then show ?thesis using body eq
        by (auto simp: idle_def kept_waiting_def sawRunEnd_at split: sum.splits if_splits)
    next
      case True
      show ?thesis
      proof (cases "timed_out_at env k")
        case out: True
        then show ?thesis using body eq True by (auto simp: sawRunEnd_at)
      next
        case in_time: False
        then have "loop env (Suc k) (flags_at env (Suc k)) = Some r"
          using body eq True by (auto simp: sawRunEnd_at flags_at_Suc)
        from IH [OF this] show ?thesis
          using True in_time kept_waiting_step [of env k] by (auto split: sum.splits)
      qed
    qed
  qed
  from this [OF assms] show ?thesis by blast
qed

lemma wait_loop_returns:
  assumes "timed_out_at env (n + d)"
  shows "\<exists>r. wait_loop env n f = Some r \<and> (case r of Inr m \<Rightarrow> m \<le> n + d | Inl e \<Rightarrow> True)"
  using assms
proof (induction d arbitrary: n f)
  case 0
  then show ?case by (subst wait_loop.simps) (auto split: sum.split)
next
  case (Suc d)
  then have "timed_out_at env (Suc n + d)" by simp
  from Suc.IH [OF this, of "observe env (Suc n) f"]
  obtain r where "wait_loop env (Suc n) (observe env (Suc n) f) = Some r"
    "case r of Inr m \<Rightarrow> m \<le> Suc n + d | Inl e \<Rightarrow> True" by blast
  then show ?case
    by (subst wait_loop.simps) (auto split: sum.splits)
qed

definition waits :: "send_env \<Rightarrow> bool" where
  "waits env \<longleftrightarrow> sd_active env \<noteq> Some (Inr True) \<and> sd_has_running env"

lemma send_cases:
  assumes "brainkitSendMessage env = Some (r, calls)"
  obtains "calls = []" and "(\<exists>e. sd_active env = Some (Inl e) \<and> r = Inl e) \<or> (\<exists>e. sd_subscribe env = Some (Inl e) \<and> r = Inl e)"
  | r0 where "send_body env (sd_active env = Some (Inr True)) = Some r0"
      and "calls = (if listening env then [SSubscribe] else []) @ [SOriginal] @ snd (send_finish env r0)"
      and "r = fst (send_finish env r0)"
proof (cases "(\<exists>e. sd_active env = Some (Inl e)) \<or> (\<exists>e. sd_subscribe env = Some (Inl e))")
  case True
  then show ?thesis using assms that(1)
    by (auto simp: brainkitSendMessage_def split: option.splits sum.splits)
next
  case False
  then show ?thesis using assms that(2)
    by (auto simp: brainkitSendMessage_def split: option.splits sum.splits)
qed

text \<open>
  C24. A message is answered when its run is over: a \<open>sendMessage\<close> that returns gives the original result, and
  unless a run was already active it returns at the first poll that finds the harness idle, or the run
  it saw start ended, all polls before it having found neither, in time. Whatever happens after
  the subscription, an unsubscribe function is called last.
\<close>

theorem send_message_waits:
  assumes "brainkitSendMessage env = Some (r, calls)"
  shows "(case r of
      Inr (v, w) \<Rightarrow> sd_original env = Inr v
        \<and> (case w of None \<Rightarrow> \<not> waits env | Some n \<Rightarrow> waits env \<and> idle env n \<and> kept_waiting env 0 n)
    | Inl e \<Rightarrow> True)
    \<and> (sd_subscribe env = Some (Inr True) \<longrightarrow> calls = [] \<or> last calls = SUnsubscribe)"
  using assms
proof (cases rule: send_cases)
  case 1
  then show ?thesis by auto
next
  case (2 r0)
  have "case r0 of
      Inr (v, w) \<Rightarrow> sd_original env = Inr v
        \<and> (case w of None \<Rightarrow> \<not> waits env | Some n \<Rightarrow> waits env \<and> idle env n \<and> kept_waiting env 0 n)
    | Inl e \<Rightarrow> True"
    using 2(1) wait_loop_ends [of env 0]
    by (auto simp: send_body_def waits_def flags_at_0 split: sum.splits if_splits option.splits)
  then show ?thesis using 2(2,3) by (auto simp: send_finish_def split: option.splits if_splits)
qed

definition quick_run :: send_env where
  "quick_run = \<lparr>sd_active = None, sd_subscribe = Some (Inr True), sd_original = Inr (JStr ''sent''), sd_has_running = True,
     sd_running = (\<lambda>_. Inr True),
     sd_events = (\<lambda>n. if n = 0 then [JObj [(''type'', JStr ''agent_start'')]]
                      else if n = 1 then [JObj [(''type'', JStr ''agent_end'')]] else []),
     sd_timeout = Fin 300000, sd_elapsed = (\<lambda>n. 5 * int n), sd_unsubscribe = None\<rparr>"

lemma quick_run_result:
  "brainkitSendMessage quick_run = Some (Inr (JStr ''sent'', Some 1), [SSubscribe, SOriginal, SUnsubscribe])"
proof -
  have f: "observe quick_run 0 flags0 = \<lparr>sawRunStart = True, sawRunEnd = False\<rparr>"
    by (simp add: observe_def listening_def quick_run_def on_event_def event_type_def flags0_def)
  have e: "observe quick_run 1 \<lparr>sawRunStart = True, sawRunEnd = False\<rparr> = \<lparr>sawRunStart = True, sawRunEnd = True\<rparr>"
    by (simp add: observe_def listening_def quick_run_def on_event_def event_type_def)
  have "wait_loop quick_run 1 \<lparr>sawRunStart = True, sawRunEnd = True\<rparr> = Some (Inr 1)"
    by (subst wait_loop.simps) (simp add: quick_run_def)
  then have "wait_loop quick_run 0 \<lparr>sawRunStart = True, sawRunEnd = False\<rparr> = Some (Inr 1)"
    using e by (subst wait_loop.simps) (simp add: quick_run_def timed_out_at_def)
  then show ?thesis
    using f by (simp add: brainkitSendMessage_def send_body_def send_finish_def listening_def quick_run_def)
qed

theorem send_message_waits_witness:
  "sd_original quick_run = Inr (JStr ''sent'') \<and> idle quick_run 1 \<and> kept_waiting quick_run 0 1"
  using send_message_waits [OF quick_run_result] by simp

text \<open>
  C23. A message is always answered: with a finite positive time limit and a clock that gets past it, the wait
  ends, at a poll no later than the first one after the limit.
\<close>

theorem send_message_returns:
  assumes "sd_timeout env = Fin t" and "0 < t" and "t < of_int (sd_elapsed env k)"
  shows "\<exists>r calls. brainkitSendMessage env = Some (r, calls)
    \<and> (case r of Inr (v, Some n) \<Rightarrow> n \<le> k | _ \<Rightarrow> True)"
proof -
  have "timed_out_at env (0 + k)" using assms by (simp add: timed_out_at_def)
  from wait_loop_returns [OF this, of "observe env 0 flags0"]
  obtain r where r: "wait_loop env 0 (observe env 0 flags0) = Some r" "case r of Inr m \<Rightarrow> m \<le> k | Inl e \<Rightarrow> True"
    by (metis add_0)
  have "\<exists>r0. send_body env b = Some r0 \<and> (case r0 of Inr (v, Some n) \<Rightarrow> n \<le> k | _ \<Rightarrow> True)" for b
    using r by (cases r) (auto simp: send_body_def split: sum.split option.split)
  then obtain r0 where r0: "send_body env (sd_active env = Some (Inr True)) = Some r0"
    "case r0 of Inr (v, Some n) \<Rightarrow> n \<le> k | _ \<Rightarrow> True" by blast
  then have "case fst (send_finish env r0) of Inr (v, Some n) \<Rightarrow> n \<le> k | _ \<Rightarrow> True"
    by (auto simp: send_finish_def split: option.split sum.split)
  then show ?thesis
    using r0(1) by (cases "sd_active env"; cases "sd_subscribe env") (auto simp: brainkitSendMessage_def split: sum.split)
qed

theorem send_message_returns_witness:
  "\<exists>r calls. brainkitSendMessage (quick_run\<lparr>sd_events := \<lambda>_. []\<rparr>) = Some (r, calls)"
  using send_message_returns [of "quick_run\<lparr>sd_events := \<lambda>_. []\<rparr>" 300000 60001] by (auto simp: quick_run_def)

section \<open>Properties of the resumption\<close>

text \<open>The two handlers with the call and the error message as parameters.\<close>

definition resume_with :: "(resume_args \<Rightarrow> harness_call) \<Rightarrow> string \<Rightarrow> resume_env \<Rightarrow> jsval \<Rightarrow> jsval \<Rightarrow> unit hm" where
  "resume_with verb msg env toolCallId requestContext =
     bind (gets (hn_run \<circ> fst)) (\<lambda>run.
       if \<not> truthy run then throw (JErr PlainError msg [])
       else bind (hcall env HGetAgent) (\<lambda>agent.
         seq (ensure_controller env)
          (bind (hcall env (HBuildContext requestContext)) (\<lambda>ctx.
            bind (gets (\<lambda>s. hn_yolo (fst s) = JBool True)) (\<lambda>isYolo.
              bind (resume_arguments env toolCallId isYolo ctx) (\<lambda>args.
                bind (hcall env (verb args)) (\<lambda>output.
                  processApprovalResumeOutput env output ctx)))))))"

lemma same_arguments: "decline_arguments = resume_arguments"
  by (intro ext) (simp add: decline_arguments_def resume_arguments_def)

lemma handlers:
  "handleToolApprove = resume_with HApprove ''No active run to approve tool call for''"
  "handleToolDecline = resume_with HDecline ''No active run to decline tool call for''"
  unfolding fun_eq_iff handleToolApprove_def handleToolDecline_def resume_with_def same_arguments by simp_all

lemma controller_ok:
  "ensure_controller env (h, cs) =
     (Inr (), (case hn_controller h of None \<Rightarrow> h\<lparr>hn_controller := Some (length cs)\<rparr> | Some k \<Rightarrow> h,
               cs @ (if hn_controller h = None then [HNewController] else [])))"
  by (auto simp: ensure_controller_def split: option.split)

definition mirror :: "harness_call \<Rightarrow> harness_call" where
  "mirror c = (case c of HApprove args \<Rightarrow> HDecline args | _ \<Rightarrow> c)"

definition mirrored :: "'a hm \<Rightarrow> 'a hm \<Rightarrow> bool" where
  "mirrored m n \<longleftrightarrow> (\<forall>h cs. n (h, map mirror cs) = (case m (h, cs) of (r, (h', cs')) \<Rightarrow> (r, (h', map mirror cs'))))"

lemma bind_gets: "bind (gets f) k s = k (f s) s"
  by (simp add: js_defs)

lemma mirrored_ret: "mirrored (ret a) (ret a)"
  by (simp add: mirrored_def ret_def)

lemma mirrored_throw: "mirrored (throw e) (throw e)"
  by (simp add: mirrored_def throw_def)

lemma mirrored_gets: "(\<And>h cs. f (h, map mirror cs) = f (h, cs)) \<Longrightarrow> mirrored (gets f) (gets f)"
  by (simp add: mirrored_def gets_def)

lemma mirrored_hcall: "mirror c = d \<Longrightarrow> mirrored (hcall env c) (hcall env d)"
  by (simp add: mirrored_def hcall_def)

lemma mirrored_controller: "mirrored (ensure_controller env) (ensure_controller env)"
  by (auto simp: mirrored_def ensure_controller_def mirror_def split: option.split)

lemma mirrored_bind: "mirrored m n \<Longrightarrow> (\<And>a. mirrored (f a) (g a)) \<Longrightarrow> mirrored (bind m f) (bind n g)"
  by (auto simp: mirrored_def bind_def split: prod.split sum.split)

lemma mirrored_seq: "mirrored m n \<Longrightarrow> mirrored f g \<Longrightarrow> mirrored (seq m f) (seq n g)"
  unfolding seq_def by (rule mirrored_bind)

lemma mirrored_if: "(b \<Longrightarrow> mirrored m n) \<Longrightarrow> (\<not> b \<Longrightarrow> mirrored m' n') \<Longrightarrow> mirrored (if b then m else m') (if b then n else n')"
  by simp

lemma mirrored_option:
  "mirrored m n \<Longrightarrow> (\<And>k. mirrored (f k) (g k)) \<Longrightarrow>
     mirrored (case x of None \<Rightarrow> m | Some k \<Rightarrow> f k) (case x of None \<Rightarrow> n | Some k \<Rightarrow> g k)"
  by (cases x) auto

lemmas mirror_rules = mirrored_ret mirrored_throw mirrored_gets mirrored_hcall mirrored_controller mirrored_bind
  mirrored_seq mirrored_if mirrored_option

text \<open>
  C21. Approving and declining are mirror images: on every harness with a run and in every environment they
  make the same calls in the same order with the same arguments, change the harness in the same way
  and end the same way, up to the verb; without a run neither does anything.
\<close>

theorem approve_decline_mirror:
  "case handleToolApprove env t rc (h, cs) of (r, (h', cs')) \<Rightarrow>
     if truthy (hn_run h) then handleToolDecline env t rc (h, map mirror cs) = (r, (h', map mirror cs'))
     else (h', cs') = (h, cs) \<and> snd (handleToolDecline env t rc (h, cs)) = (h, cs)"
proof (cases "truthy (hn_run h)")
  case False
  then show ?thesis by (simp add: handleToolApprove_def handleToolDecline_def js_defs)
next
  case True
  let ?body = "\<lambda>verb. bind (hcall env HGetAgent) (\<lambda>agent.
         seq (ensure_controller env)
          (bind (hcall env (HBuildContext rc)) (\<lambda>ctx.
            bind (gets (\<lambda>s. hn_yolo (fst s) = JBool True)) (\<lambda>isYolo.
              bind (resume_arguments env t isYolo ctx) (\<lambda>args.
                bind (hcall env (verb args)) (\<lambda>output.
                  processApprovalResumeOutput env output ctx))))))"
  have refused: "bind (hcall env HGetAgent) (\<lambda>agent.
         seq (ensure_controller env)
          (bind (hcall env (HBuildContext rc)) (\<lambda>ctx.
            bind (gets (\<lambda>s. hn_yolo (fst s) = JBool True)) (\<lambda>isYolo.
              bind (decline_arguments env t isYolo ctx) (\<lambda>args.
                bind (hcall env (HDecline args)) (\<lambda>output.
                  processApprovalResumeOutput env output ctx)))))) = ?body HDecline"
    unfolding same_arguments by (rule refl)
  have "mirrored (?body HApprove) (?body HDecline)"
    unfolding resume_arguments_def processApprovalResumeOutput_def
    by (intro mirror_rules) (simp_all add: mirror_def)
  moreover have "handleToolApprove env t rc (h, cs) = ?body HApprove (h, cs)"
    and "handleToolDecline env t rc (h, map mirror cs) = ?body HDecline (h, map mirror cs)"
    using True by (simp_all add: handleToolApprove_def handleToolDecline_def bind_gets refused)
  ultimately show ?thesis using True unfolding mirrored_def by (auto split: prod.split)
qed

text \<open>
  The plan of a resumption, as one list of calls, from what the calls answer and change. The harness is read
  twice: for its run at the start, and for the arguments when the agent was got, a missing abort controller
  created and the context built.
\<close>

definition answer :: "resume_env \<Rightarrow> nat \<Rightarrow> jsval" where
  "answer env n = (case re_result env n of Inr v \<Rightarrow> v | Inl e \<Rightarrow> JUndef)"

definition controlled :: "resume_env \<Rightarrow> nat \<Rightarrow> harness \<Rightarrow> harness" where
  "controlled env n h =
     (let h1 = re_effect env n h in if hn_controller h1 = None then h1\<lparr>hn_controller := Some (Suc n)\<rparr> else h1)"

definition calls_before :: "resume_env \<Rightarrow> nat \<Rightarrow> harness \<Rightarrow> jsval \<Rightarrow> harness_call list" where
  "calls_before env n h rc =
     [HGetAgent] @ (if hn_controller (re_effect env n h) = None then [HNewController] else []) @ [HBuildContext rc]"

definition at_arguments :: "resume_env \<Rightarrow> nat \<Rightarrow> harness \<Rightarrow> harness" where
  "at_arguments env n h =
     re_effect env (if hn_controller (re_effect env n h) = None then n + 2 else n + 1) (controlled env n h)"

definition calls_after ::
  "(resume_args \<Rightarrow> harness_call) \<Rightarrow> resume_env \<Rightarrow> nat \<Rightarrow> harness \<Rightarrow> nat \<Rightarrow> jsval \<Rightarrow> jsval \<Rightarrow> harness_call list" where
  "calls_after verb env m h signal tool ctx =
     [HBuildToolsets ctx,
      verb \<lparr>ra_run = hn_run h, ra_tool = tool, ra_require = (hn_yolo h \<noteq> JBool True),
            ra_memory = (if truthy (hn_thread h) then Some (hn_thread h, hn_resource h) else None),
            ra_signal = signal, ra_context = ctx, ra_toolsets = answer env m\<rparr>]
     @ (let out = answer env (Suc m) in
        if truthy out \<and> is_object out \<and> truthy (getp out ''fullStream'') \<and> re_has_process env
        then [HProcess out ctx] @ (if re_has_cleanup env then [HCleanup] else []) else [])"

text \<open>The calls of a plan are made in turn until one fails; the creation of a controller cannot.\<close>

fun run_plan :: "resume_env \<Rightarrow> harness_call list \<Rightarrow> jsval + unit \<Rightarrow> harness_call list \<Rightarrow> (jsval + unit) \<times> harness_call list" where
  "run_plan env [] r cs = (r, cs)"
| "run_plan env (c # plan) r cs =
     (if c = HNewController then run_plan env plan r (cs @ [c])
      else case re_result env (length cs) of
             Inl e \<Rightarrow> (Inl e, cs @ [c])
           | Inr v \<Rightarrow> run_plan env plan r (cs @ [c]))"

definition resumption ::
  "(resume_args \<Rightarrow> harness_call) \<Rightarrow> string \<Rightarrow> resume_env \<Rightarrow> jsval \<Rightarrow> jsval \<Rightarrow> harness \<Rightarrow> harness_call list
   \<Rightarrow> (jsval + unit) \<times> harness_call list" where
  "resumption verb msg env tool rc h cs =
     (if \<not> truthy (hn_run h) then (Inl (JErr PlainError msg []), cs)
      else
        (let n = length cs; before = calls_before env n h rc; m = n + length before; h2 = at_arguments env n h in
         case hn_controller h2 of
           None \<Rightarrow> run_plan env before (Inl (JErr TypeErr ''cannot read property signal'' [])) cs
         | Some signal \<Rightarrow>
             run_plan env (before @ calls_after verb env m h2 signal tool (answer env (m - 1))) (Inr ()) cs))"

lemma bind_hcall:
  "bind (hcall env c) k (h, cs) =
     (case re_result env (length cs) of
        Inl e \<Rightarrow> (Inl e, (re_effect env (length cs) h, cs @ [c]))
      | Inr v \<Rightarrow> k v (re_effect env (length cs) h, cs @ [c]))"
  by (simp add: bind_def hcall_def)

definition outcome :: "(jsval + unit) \<times> harness \<times> harness_call list \<Rightarrow> (jsval + unit) \<times> harness_call list" where
  "outcome x = (fst x, snd (snd x))"

lemma outcome_simps: "outcome (r, (h, cs)) = (r, cs)"
  by (simp add: outcome_def)

lemma process_plan:
  "outcome (processApprovalResumeOutput env out ctx (h, cs)) =
     run_plan env (if truthy out \<and> is_object out \<and> truthy (getp out ''fullStream'') \<and> re_has_process env
        then [HProcess out ctx] @ (if re_has_cleanup env then [HCleanup] else []) else []) (Inr ()) cs"
  by (auto simp: processApprovalResumeOutput_def stream_of_def seq_def bind_hcall ret_def outcome_def split: sum.split)

lemma arguments_plan:
  assumes "verb = HApprove \<or> verb = HDecline"
  shows "outcome (bind (resume_arguments env tool (hn_yolo h = JBool True) ctx)
     (\<lambda>args. bind (hcall env (verb args)) (\<lambda>out. processApprovalResumeOutput env out ctx)) (h, cs)) =
   (case hn_controller h of
      None \<Rightarrow> (Inl (JErr TypeErr ''cannot read property signal'' []), cs)
    | Some signal \<Rightarrow> run_plan env (calls_after verb env (length cs) h signal tool ctx) (Inr ()) cs)"
proof (cases "hn_controller h")
  case None
  then show ?thesis
    by (simp add: resume_arguments_def bind_def gets_def throw_def no_signal_error_def outcome_def)
next
  case (Some signal)
  have verb: "verb args \<noteq> HNewController" for args using assms by auto
  let ?args = "\<lambda>toolsets. \<lparr>ra_run = hn_run h, ra_tool = tool, ra_require = (hn_yolo h \<noteq> JBool True),
      ra_memory = (if truthy (hn_thread h) then Some (hn_thread h, hn_resource h) else None),
      ra_signal = signal, ra_context = ctx, ra_toolsets = toolsets\<rparr>"
  have args: "resume_arguments env tool (hn_yolo h = JBool True) ctx (h, cs) =
      (case re_result env (length cs) of
         Inl e \<Rightarrow> (Inl e, (re_effect env (length cs) h, cs @ [HBuildToolsets ctx]))
       | Inr toolsets \<Rightarrow> (Inr (?args toolsets), (re_effect env (length cs) h, cs @ [HBuildToolsets ctx])))"
    using Some by (auto simp: resume_arguments_def bind_def gets_def hcall_def ret_def split: sum.split)
  show ?thesis
  proof (cases "re_result env (length cs)")
    case (Inl e)
    then show ?thesis using Some args by (simp add: calls_after_def bind_def outcome_def)
  next
    case (Inr toolsets)
    then have "bind (resume_arguments env tool (hn_yolo h = JBool True) ctx)
        (\<lambda>args. bind (hcall env (verb args)) (\<lambda>out. processApprovalResumeOutput env out ctx)) (h, cs)
      = bind (hcall env (verb (?args toolsets))) (\<lambda>out. processApprovalResumeOutput env out ctx)
          (re_effect env (length cs) h, cs @ [HBuildToolsets ctx])"
      using args by (simp add: bind_def)
    then show ?thesis
      using Some Inr verb
      by (cases "re_result env (Suc (length cs))")
        (simp_all add: bind_hcall calls_after_def process_plan answer_def outcome_simps Let_def)
  qed
qed

lemma run_plan_append:
  "run_plan env (p @ q) r cs =
     (case run_plan env p (Inr ()) cs of (Inl e, cs') \<Rightarrow> (Inl e, cs') | (Inr u, cs') \<Rightarrow> run_plan env q r cs')"
  by (induction p arbitrary: cs) (auto split: sum.split)

lemma seq_controller:
  "seq (ensure_controller env) m (h, cs) =
     m (case hn_controller h of None \<Rightarrow> h\<lparr>hn_controller := Some (length cs)\<rparr> | Some k \<Rightarrow> h,
        cs @ (if hn_controller h = None then [HNewController] else []))"
  by (simp add: seq_def bind_def controller_ok)

lemma resume_with_plan:
  assumes "verb = HApprove \<or> verb = HDecline"
  shows "outcome (resume_with verb msg env tool rc (h, cs)) = resumption verb msg env tool rc h cs"
proof (cases "truthy (hn_run h)")
  case False
  then show ?thesis by (simp add: resume_with_def resumption_def bind_def gets_def throw_def outcome_def)
next
  case True
  let ?n = "length cs"
  let ?h1 = "re_effect env ?n h"
  let ?new = "if hn_controller ?h1 = None then [HNewController] else []"
  let ?b = "if hn_controller ?h1 = None then ?n + 2 else ?n + 1"
  let ?h2 = "at_arguments env ?n h"
  let ?tail = "\<lambda>ctx h. bind (resume_arguments env tool (hn_yolo h = JBool True) ctx)
       (\<lambda>args. bind (hcall env (verb args)) (\<lambda>out. processApprovalResumeOutput env out ctx))"
  have run: "resume_with verb msg env tool rc (h, cs) =
     (case re_result env ?n of
        Inl e \<Rightarrow> (Inl e, (?h1, cs @ [HGetAgent]))
      | Inr agent \<Rightarrow> (case re_result env ?b of
          Inl e \<Rightarrow> (Inl e, (?h2, cs @ [HGetAgent] @ ?new @ [HBuildContext rc]))
        | Inr ctx \<Rightarrow> ?tail ctx ?h2 (?h2, cs @ [HGetAgent] @ ?new @ [HBuildContext rc])))"
    using True
    by (cases "hn_controller ?h1")
      (simp_all add: resume_with_def bind_gets bind_hcall seq_controller at_arguments_def controlled_def Let_def
        split: sum.split)
  have len: "?n + length (calls_before env ?n h rc) = Suc ?b" by (simp add: calls_before_def)
  have first: "run_plan env (calls_before env ?n h rc) (Inr ()) cs =
     (case re_result env ?n of
        Inl e \<Rightarrow> (Inl e, cs @ [HGetAgent])
      | Inr agent \<Rightarrow> (case re_result env ?b of
          Inl e \<Rightarrow> (Inl e, cs @ [HGetAgent] @ ?new @ [HBuildContext rc])
        | Inr ctx \<Rightarrow> (Inr (), cs @ [HGetAgent] @ ?new @ [HBuildContext rc])))"
    by (cases "hn_controller ?h1") (simp_all add: calls_before_def split: sum.split)
  have plan0: "run_plan env (calls_before env ?n h rc) r cs =
     (case run_plan env (calls_before env ?n h rc) (Inr ()) cs of (Inl e, cs') \<Rightarrow> (Inl e, cs') | (Inr u, cs') \<Rightarrow> (r, cs'))" for r
    using run_plan_append [of env "calls_before env ?n h rc" "[]" r cs] by (simp cong: sum.case_cong split: prod.split sum.split)
  let ?all = "cs @ [HGetAgent] @ ?new @ [HBuildContext rc]"
  have lall: "length ?all = Suc ?b" by simp
  note tail = arguments_plan [OF assms, of env tool ?h2 _ ?all, unfolded lall]
  show ?thesis
  proof (cases "\<exists>agent ctx. re_result env ?n = Inr agent \<and> re_result env ?b = Inr ctx")
    case False
    then show ?thesis
      unfolding resumption_def Let_def run plan0 [of "Inl _"] run_plan_append first
      using True by (auto simp: outcome_def split: sum.split option.split)
  next
    case ok: True
    then obtain agent ctx where "re_result env ?n = Inr agent" and ctx: "re_result env ?b = Inr ctx" by blast
    then have 1: "outcome (resume_with verb msg env tool rc (h, cs)) = outcome (?tail ctx ?h2 (?h2, ?all))"
      and 2: "run_plan env (calls_before env ?n h rc) (Inr ()) cs = (Inr (), ?all)"
      unfolding run first by simp_all
    have "answer env ?b = ctx" using ctx by (simp add: answer_def)
    then show ?thesis
      unfolding 1 tail resumption_def Let_def len plan0 [of "Inl _"] run_plan_append 2
      using True by (auto split: option.split)
  qed
qed

text \<open>
  C22. Approving and declining follow the protocol exactly. With a run the handler gets the agent, creates the missing
  abort controller, builds the context, then reads run, mode, thread and controller of the harness, builds the
  tool sets, sends the approval or the refusal, processes the stream that it answers with, if any, and cleans up:
  each once, in this order, up to the first call that fails, whose error it ends with. The arguments sent are the
  requested tool call with the run, the memory of the thread, the abort signal and the mode read at that point,
  and with what the earlier calls answered. Without a run nothing is called; a controller that is gone when it is read
  ends the resumption with a type error before the tool sets are built.
\<close>

theorem resume_order:
  "outcome (handleToolApprove env tool rc (h, cs)) =
     resumption HApprove ''No active run to approve tool call for'' env tool rc h cs
   \<and> outcome (handleToolDecline env tool rc (h, cs)) =
     resumption HDecline ''No active run to decline tool call for'' env tool rc h cs"
  by (simp add: handlers resume_with_plan)

definition busy_harness :: harness where
  "busy_harness = \<lparr>hn_run = JStr ''run'', hn_controller = None, hn_thread = JUndef, hn_resource = JUndef, hn_yolo = JUndef\<rparr>"

text \<open>An environment in which the run ends while the request context is being built.\<close>

definition ending_env :: resume_env where
  "ending_env = \<lparr>re_result = \<lambda>_. Inr JUndef, re_effect = \<lambda>n h. if n = 2 then h\<lparr>hn_run := JNull\<rparr> else h,
     re_has_process = True, re_has_cleanup = True\<rparr>"

lemma ending_run:
  "handleToolApprove ending_env (JStr ''call'') JNull (busy_harness, [])
     = (Inr (), (busy_harness\<lparr>hn_run := JNull, hn_controller := Some 1\<rparr>,
         [HGetAgent, HNewController, HBuildContext JNull, HBuildToolsets JUndef,
          HApprove \<lparr>ra_run = JNull, ra_tool = JStr ''call'', ra_require = True, ra_memory = None, ra_signal = 1,
            ra_context = JUndef, ra_toolsets = JUndef\<rparr>]))"
  by (simp add: handleToolApprove_def js_defs hcall_def ensure_controller_def resume_arguments_def
      processApprovalResumeOutput_def stream_of_def ending_env_def busy_harness_def)

text \<open>A harness with a thread whose agent answers with a stream: all seven calls are made.\<close>

definition streaming_env :: resume_env where
  "streaming_env = \<lparr>re_result = \<lambda>n. Inr (if n = 4 then JObj [(''fullStream'', JStr ''s'')] else JStr ''v''),
     re_effect = \<lambda>n h. h, re_has_process = True, re_has_cleanup = True\<rparr>"

theorem resume_order_witness:
  "outcome (handleToolDecline streaming_env (JStr ''call'') JNull (busy_harness\<lparr>hn_thread := JStr ''th''\<rparr>, [])) =
     (Inr (), [HGetAgent, HNewController, HBuildContext JNull, HBuildToolsets (JStr ''v''),
        HDecline \<lparr>ra_run = JStr ''run'', ra_tool = JStr ''call'', ra_require = True, ra_memory = Some (JStr ''th'', JUndef),
          ra_signal = 1, ra_context = JStr ''v'', ra_toolsets = JStr ''v''\<rparr>,
        HProcess (JObj [(''fullStream'', JStr ''s'')]) (JStr ''v''), HCleanup])"
  using resume_order [of streaming_env "JStr ''call''" JNull "busy_harness\<lparr>hn_thread := JStr ''th''\<rparr>" "[]"]
  by (simp add: resumption_def calls_before_def calls_after_def at_arguments_def controlled_def answer_def busy_harness_def
      streaming_env_def Let_def)

text \<open>
  Remark: The run is looked at twice: a run that ends while the request context is built passes the check at the
  start, and the approval is then sent for no run at all.
\<close>

theorem approval_without_run:
  "\<exists>args h'. fst (handleToolApprove ending_env (JStr ''call'') JNull (busy_harness, [])) = Inr ()
     \<and> last (snd (snd (handleToolApprove ending_env (JStr ''call'') JNull (busy_harness, [])))) = HApprove args
     \<and> ra_run args = JNull"
  by (simp add: ending_run)

end
