(* ===== verification/Execa.thy ===== *)
theory Execa
  imports Js_Values
begin

text \<open>
  \<open>entry.mjs\<close>, the \<open>execa\<close> replacement: a process started by the host's \<open>spawn\<close>, its listeners, and the
  loop that reads the process's output and dispatches it. What the host answers and what listeners do
  are parameters: a listener may register and remove listeners and may throw.
\<close>

section \<open>Starting the process\<close>

record spawn_call =
  sp_program :: string
  sp_args :: "string list"
  sp_cwd :: jsval

text \<open>The arguments of \<open>execa\<close>: \<open>args\<close> is \<open>None\<close> when missing.\<close>

definition opt_field :: "jsval \<Rightarrow> string \<Rightarrow> jsval" where
  "opt_field o' k = (if nullish o' then JUndef else getp o' k)"

definition spaced :: "string list \<Rightarrow> string" where
  "spaced xs = (case xs of [] \<Rightarrow> [] | y # ys \<Rightarrow> y @ concat (map (\<lambda>x. '' '' @ x) ys))"

definition full_command :: "bool \<Rightarrow> string \<Rightarrow> string list option \<Rightarrow> string" where
  "full_command shell command args =
     (if \<not> shell then command
      else (case args of
              None \<Rightarrow> command
            | Some as \<Rightarrow> if as \<noteq> [] then command @ '' '' @ spaced as else command))"

definition spawn_for :: "string \<Rightarrow> string list option \<Rightarrow> jsval \<Rightarrow> spawn_call" where
  "spawn_for command args options =
     (let shell = (opt_field options ''shell'' \<noteq> JBool False) in
      \<lparr>sp_program = (if shell then ''sh'' else command),
       sp_args = (if shell then [''-c'', full_command shell command args]
                  else (case args of None \<Rightarrow> [] | Some as \<Rightarrow> as)),
       sp_cwd = js_or (opt_field options ''cwd'') (JStr [])\<rparr>)"

section \<open>Listeners\<close>

datatype target = Stdout | Stderr | Process

datatype listener_op = On target string nat | Off target string nat

record listeners =
  ls_stdout :: "nat list"
  ls_stderr :: "nat list"
  ls_close :: "nat list"
  ls_error :: "nat list"

definition without :: "nat \<Rightarrow> nat list \<Rightarrow> nat list" where
  "without f xs = filter (\<lambda>g. g \<noteq> f) xs"

fun apply_op :: "listener_op \<Rightarrow> listeners \<Rightarrow> listeners" where
  "apply_op (On Stdout ev f) l = (if ev = ''data'' then l\<lparr>ls_stdout := ls_stdout l @ [f]\<rparr> else l)"
| "apply_op (Off Stdout ev f) l = l\<lparr>ls_stdout := without f (ls_stdout l)\<rparr>"
| "apply_op (On Stderr ev f) l = (if ev = ''data'' then l\<lparr>ls_stderr := ls_stderr l @ [f]\<rparr> else l)"
| "apply_op (Off Stderr ev f) l = l\<lparr>ls_stderr := without f (ls_stderr l)\<rparr>"
| "apply_op (On Process ev f) l =
     (if ev = ''close'' then l\<lparr>ls_close := ls_close l @ [f]\<rparr>
      else if ev = ''error'' then l\<lparr>ls_error := ls_error l @ [f]\<rparr> else l)"
| "apply_op (Off Process ev f) l =
     (if ev = ''close'' then l\<lparr>ls_close := without f (ls_close l)\<rparr>
      else if ev = ''error'' then l\<lparr>ls_error := without f (ls_error l)\<rparr> else l)"

section \<open>The output loop\<close>

datatype emission = Data jsval | Failed jsval | Closed jsval

record execa_state =
  ex_listeners :: listeners
  ex_log :: "(nat \<times> emission) list"

text \<open>
  \<open>xe_chunk n\<close> is what the n-th read gives (\<open>Inr None\<close> at the end of the output), before which the
  operations \<open>xe_meanwhile n\<close> happen; \<open>xe_react k f\<close> is what listener \<open>f\<close> does when it is the k-th to be
  called, and the value it throws, if any; \<open>xe_exiting\<close> happens while the exit code is awaited. A chunk
  is the value listeners get, the \<open>Buffer\<close> made of it.
\<close>

record execa_env =
  xe_chunk :: "nat \<Rightarrow> jsval + jsval option"
  xe_meanwhile :: "nat \<Rightarrow> listener_op list"
  xe_react :: "nat \<Rightarrow> nat \<Rightarrow> listener_op list \<times> jsval option"
  xe_exit :: "jsval + jsval"
  xe_exiting :: "listener_op list"

definition apply_ops :: "listener_op list \<Rightarrow> execa_state \<Rightarrow> execa_state" where
  "apply_ops ops s = s\<lparr>ex_listeners := fold apply_op ops (ex_listeners s)\<rparr>"

definition call_listener :: "execa_env \<Rightarrow> nat \<Rightarrow> emission \<Rightarrow> execa_state \<Rightarrow> jsval option \<times> execa_state" where
  "call_listener env f ev s =
     (case xe_react env (length (ex_log s)) f of
        (ops, thrown) \<Rightarrow> (thrown, apply_ops ops (s\<lparr>ex_log := ex_log s @ [(f, ev)]\<rparr>)))"

text \<open>
  \<open>for (i = 0; i < listeners.length; i++) listeners[i](ev)\<close>: the length and the entry are read from the
  listeners registered at that moment. A listener that keeps registering listeners keeps the loop
  running, so that not ending is the value \<open>None\<close>.
\<close>

partial_function (option) emit ::
  "execa_env \<Rightarrow> (listeners \<Rightarrow> nat list) \<Rightarrow> emission \<Rightarrow> nat \<Rightarrow> execa_state \<Rightarrow> (jsval option \<times> execa_state) option" where
  "emit env which ev i s =
     (if i < length (which (ex_listeners s)) then
        (case call_listener env (which (ex_listeners s) ! i) ev s of
           (Some e, s') \<Rightarrow> Some (Some e, s')
         | (None, s') \<Rightarrow> emit env which ev (Suc i) s')
      else Some (None, s))"

text \<open>The \<open>try\<close> block: the error that ended it, if any, and the state.\<close>

partial_function (option) read_loop :: "execa_env \<Rightarrow> nat \<Rightarrow> execa_state \<Rightarrow> (jsval option \<times> execa_state) option" where
  "read_loop env n s =
     (let s0 = apply_ops (xe_meanwhile env n) s in
      case xe_chunk env n of
        Inl e \<Rightarrow> Some (Some e, s0)
      | Inr None \<Rightarrow> Some (None, s0)
      | Inr (Some chunk) \<Rightarrow>
          (case emit env ls_stdout (Data chunk) 0 s0 of
             None \<Rightarrow> None
           | Some (Some e, s1) \<Rightarrow> Some (Some e, s1)
           | Some (None, s1) \<Rightarrow> read_loop env (Suc n) s1))"

text \<open>The background task; \<open>Some e\<close> is the rejection nobody handles.\<close>

definition background :: "execa_env \<Rightarrow> execa_state \<Rightarrow> (jsval option \<times> execa_state) option" where
  "background env s =
     (case read_loop env 0 s of
        None \<Rightarrow> None
      | Some (err, s1) \<Rightarrow>
          (case (case err of None \<Rightarrow> Some (None, s1) | Some e \<Rightarrow> emit env ls_error (Failed e) 0 s1) of
             None \<Rightarrow> None
           | Some (Some e, s2) \<Rightarrow> Some (Some e, s2)
           | Some (None, s2) \<Rightarrow>
               (case xe_exit env of
                  Inl e \<Rightarrow> Some (Some e, s2)
                | Inr code \<Rightarrow> emit env ls_close (Closed code) 0 (apply_ops (xe_exiting env) s2))))"

section \<open>Properties\<close>

text \<open>Nobody registers or removes listeners, and whether a listener throws only depends on the listener.\<close>

definition steady_listeners :: "execa_env \<Rightarrow> (nat \<Rightarrow> jsval option) \<Rightarrow> bool" where
  "steady_listeners env th \<longleftrightarrow>
     (\<forall>k f. xe_react env k f = ([], th f)) \<and> (\<forall>n. xe_meanwhile env n = []) \<and> xe_exiting env = []"

definition calls :: "nat list \<Rightarrow> emission \<Rightarrow> (nat \<times> emission) list" where
  "calls fs ev = map (\<lambda>f. (f, ev)) fs"

definition logged :: "execa_state \<Rightarrow> (nat \<times> emission) list \<Rightarrow> execa_state" where
  "logged s l = s\<lparr>ex_log := ex_log s @ l\<rparr>"

lemma logged_simps [simp]:
  "ex_listeners (logged s l) = ex_listeners s" "ex_log (logged s l) = ex_log s @ l"
  "logged (logged s l) l' = logged s (l @ l')" "logged s [] = s" "apply_ops [] s = s"
  by (simp_all add: logged_def apply_ops_def)

lemma call_steady:
  "steady_listeners env th \<Longrightarrow> call_listener env f ev s = (th f, logged s [(f, ev)])"
  by (simp add: steady_listeners_def call_listener_def apply_ops_def logged_def)

lemma emit_all:
  assumes "steady_listeners env th" and "\<forall>f\<in>set (drop i (which (ex_listeners s))). th f = None"
  shows "emit env which ev i s = Some (None, logged s (calls (drop i (which (ex_listeners s))) ev))"
  using assms(2)
proof (induction "length (which (ex_listeners s)) - i" arbitrary: i s)
  case 0
  then show ?case by (subst emit.simps) (simp add: calls_def)
next
  case (Suc d)
  let ?fs = "which (ex_listeners s)" and ?s = "logged s [(which (ex_listeners s) ! i, ev)]"
  have i: "i < length ?fs" using Suc.hyps(2) by simp
  then have d: "drop i ?fs = ?fs ! i # drop (Suc i) ?fs" by (simp add: Cons_nth_drop_Suc)
  have "emit env which ev (Suc i) ?s = Some (None, logged ?s (calls (drop (Suc i) ?fs) ev))"
    using Suc.hyps(1) [of ?s "Suc i"] Suc.hyps(2) Suc.prems unfolding d by simp
  then show ?case
    using i Suc.prems call_steady [OF assms(1)] by (subst emit.simps) (simp add: d calls_def)
qed

lemma emit_throws:
  assumes "steady_listeners env th" and "drop i (which (ex_listeners s)) = pre @ g # rest"
    and "\<forall>f\<in>set pre. th f = None" and "th g = Some e"
  shows "emit env which ev i s = Some (Some e, logged s (calls (pre @ [g]) ev))"
  using assms(2,3)
proof (induction pre arbitrary: i s)
  case Nil
  then have "i < length (which (ex_listeners s))" "which (ex_listeners s) ! i = g"
    by (metis append_Nil drop_eq_Nil list.distinct(1) not_le_imp_less, metis append_Nil nth_via_drop)
  then show ?case
    using call_steady [OF assms(1)] assms(4) by (subst emit.simps) (simp add: calls_def)
next
  case (Cons f pre)
  let ?s = "logged s [(f, ev)]"
  have i: "i < length (which (ex_listeners s))" "which (ex_listeners s) ! i = f"
    using Cons.prems(1) by (metis append_Cons drop_eq_Nil list.distinct(1) not_le_imp_less, metis append_Cons nth_via_drop)
  then have "drop (Suc i) (which (ex_listeners ?s)) = pre @ g # rest"
    using Cons.prems(1) by (simp add: Cons_nth_drop_Suc [symmetric])
  then have "emit env which ev (Suc i) ?s = Some (Some e, logged ?s (calls (pre @ [g]) ev))"
    using Cons.IH Cons.prems(2) by simp
  then show ?case
    using i Cons.prems(2) call_steady [OF assms(1)] by (subst emit.simps) (simp add: calls_def)
qed

text \<open>The process gives these chunks and ends with this exit code.\<close>

definition outputs :: "execa_env \<Rightarrow> nat \<Rightarrow> jsval list \<Rightarrow> bool" where
  "outputs env n chunks \<longleftrightarrow>
     (\<forall>i<length chunks. xe_chunk env (n + i) = Inr (Some (chunks ! i))) \<and> xe_chunk env (n + length chunks) = Inr None"

lemma outputs_Cons: "outputs env n (c # cs) \<longleftrightarrow> xe_chunk env n = Inr (Some c) \<and> outputs env (Suc n) cs"
  by (auto simp: outputs_def All_less_Suc2)

lemma read_all:
  assumes "steady_listeners env th" and "\<forall>f\<in>set (ls_stdout (ex_listeners s)). th f = None" and "outputs env n chunks"
  shows "read_loop env n s = Some (None, logged s (concat (map (\<lambda>c. calls (ls_stdout (ex_listeners s)) (Data c)) chunks)))"
  using assms(2,3)
proof (induction chunks arbitrary: n s)
  case Nil
  then show ?case
    using assms(1) by (subst read_loop.simps) (simp add: outputs_def steady_listeners_def)
next
  case (Cons c cs)
  have "emit env ls_stdout (Data c) 0 s = Some (None, logged s (calls (ls_stdout (ex_listeners s)) (Data c)))"
    using emit_all [OF assms(1), of 0 ls_stdout s] Cons.prems(1) by simp
  moreover have "xe_meanwhile env n = []" using assms(1) by (simp add: steady_listeners_def)
  ultimately show ?case
    using Cons.IH [of "logged s (calls (ls_stdout (ex_listeners s)) (Data c))" "Suc n"] Cons.prems
    by (subst read_loop.simps) (simp add: outputs_Cons)
qed

text \<open>
  Remark: With listeners that come, stay and do not throw, every stdout listener gets every chunk in order, then
  every close listener the exit code, and the task ends; listeners for stderr get nothing at all.
\<close>

theorem execa_delivers:
  assumes "steady_listeners env (\<lambda>_. None)" and "outputs env 0 chunks" and "xe_exit env = Inr code"
  shows "background env s = Some (None, logged s
    (concat (map (\<lambda>c. calls (ls_stdout (ex_listeners s)) (Data c)) chunks)
       @ calls (ls_close (ex_listeners s)) (Closed code)))"
proof -
  let ?s = "logged s (concat (map (\<lambda>c. calls (ls_stdout (ex_listeners s)) (Data c)) chunks))"
  have "read_loop env 0 s = Some (None, ?s)" by (rule read_all [OF assms(1) _ assms(2)]) simp
  moreover have "emit env ls_close (Closed code) 0 ?s = Some (None, logged ?s (calls (ls_close (ex_listeners s)) (Closed code)))"
    using emit_all [OF assms(1), of 0 ls_close ?s] by simp
  moreover have "xe_exiting env = []" using assms(1) by (simp add: steady_listeners_def)
  ultimately show ?thesis using assms(3) by (simp add: background_def)
qed

definition two_chunks :: execa_env where
  "two_chunks = \<lparr>xe_chunk = \<lambda>n. if n = 0 then Inr (Some (JStr ''a'')) else if n = 1 then Inr (Some (JStr ''b'')) else Inr None,
     xe_meanwhile = \<lambda>_. [], xe_react = \<lambda>_ _. ([], None), xe_exit = Inr (jint 0), xe_exiting = []\<rparr>"

lemma two_chunks_outputs: "outputs two_chunks 0 [JStr ''a'', JStr ''b'']"
  by (simp add: outputs_def two_chunks_def All_less_Suc2)

theorem execa_delivers_witness:
  "background two_chunks \<lparr>ex_listeners = \<lparr>ls_stdout = [1], ls_stderr = [2], ls_close = [3], ls_error = []\<rparr>, ex_log = []\<rparr>
     = Some (None, \<lparr>ex_listeners = \<lparr>ls_stdout = [1], ls_stderr = [2], ls_close = [3], ls_error = []\<rparr>,
         ex_log = [(1, Data (JStr ''a'')), (1, Data (JStr ''b'')), (3, Closed (jint 0))]\<rparr>)"
  using execa_delivers [OF _ two_chunks_outputs,
      of "jint 0" "\<lparr>ex_listeners = \<lparr>ls_stdout = [1], ls_stderr = [2], ls_close = [3], ls_error = []\<rparr>, ex_log = []\<rparr>"]
  by (simp add: steady_listeners_def two_chunks_def calls_def logged_def)

text \<open>
  Remark: One throwing stdout listener ends the output: the listeners before it got the first chunk, the error
  listeners get the thrown value as if reading had failed, every other chunk is lost, and the close
  listeners are told the exit code all the same.
\<close>

theorem throwing_listener_stops:
  assumes "steady_listeners env th" and "outputs env 0 (c # cs)" and "xe_exit env = Inr code"
    and "ls_stdout (ex_listeners s) = pre @ g # rest" and "list_all (\<lambda>f. th f = None) pre" and "th g = Some e"
    and "list_all (\<lambda>f. th f = None) (ls_error (ex_listeners s) @ ls_close (ex_listeners s))"
  shows "background env s = Some (None, logged s
    (calls (pre @ [g]) (Data c) @ calls (ls_error (ex_listeners s)) (Failed e)
       @ calls (ls_close (ex_listeners s)) (Closed code)))"
proof -
  let ?s1 = "logged s (calls (pre @ [g]) (Data c))"
  let ?s2 = "logged ?s1 (calls (ls_error (ex_listeners s)) (Failed e))"
  have "emit env ls_stdout (Data c) 0 s = Some (Some e, ?s1)"
    using emit_throws [OF assms(1) _ _ assms(6), of 0 ls_stdout s pre rest] assms(4,5) by (simp add: list_all_iff)
  then have "read_loop env 0 s = Some (Some e, ?s1)"
    using assms(1,2) by (subst read_loop.simps) (simp add: outputs_Cons steady_listeners_def)
  moreover have "emit env ls_error (Failed e) 0 ?s1 = Some (None, ?s2)"
    using emit_all [OF assms(1), of 0 ls_error ?s1] assms(7) by (simp add: list_all_iff)
  moreover have "emit env ls_close (Closed code) 0 ?s2 = Some (None, logged ?s2 (calls (ls_close (ex_listeners s)) (Closed code)))"
    using emit_all [OF assms(1), of 0 ls_close ?s2] assms(7) by (simp add: list_all_iff)
  moreover have "xe_exiting env = []" using assms(1) by (simp add: steady_listeners_def)
  ultimately show ?thesis using assms(3) by (simp add: background_def)
qed

theorem throwing_listener_stops_witness:
  "\<exists>s'. background (two_chunks\<lparr>xe_react := \<lambda>_ f. ([], if f = 1 then Some JNull else None)\<rparr>)
      \<lparr>ex_listeners = \<lparr>ls_stdout = [1, 2], ls_stderr = [], ls_close = [3], ls_error = [4]\<rparr>, ex_log = []\<rparr> = Some (None, s')
     \<and> ex_log s' = [(1, Data (JStr ''a'')), (4, Failed JNull), (3, Closed (jint 0))]"
proof -
  let ?env = "two_chunks\<lparr>xe_react := \<lambda>_ f. ([], if f = 1 then Some JNull else None)\<rparr>"
  let ?s = "\<lparr>ex_listeners = \<lparr>ls_stdout = [1, 2], ls_stderr = [], ls_close = [3], ls_error = [4]\<rparr>, ex_log = []\<rparr>"
  have "steady_listeners ?env (\<lambda>f. if f = 1 then Some JNull else None)"
    by (simp add: steady_listeners_def two_chunks_def)
  moreover have "outputs ?env 0 [JStr ''a'', JStr ''b'']"
    by (simp add: outputs_def two_chunks_def All_less_Suc2)
  moreover have "xe_exit ?env = Inr (jint 0)" by (simp add: two_chunks_def)
  ultimately show ?thesis
    using throwing_listener_stops [of ?env "\<lambda>f. if f = 1 then Some JNull else None" "JStr ''a''" "[JStr ''b'']" "jint 0" ?s "[]" 1 "[2]"
        JNull]
    by (simp add: calls_def)
qed

text \<open>
  Remark: A stdout listener that removes itself when it is called makes the next one miss that chunk: the loop goes on
  with the next index of the shortened list.
\<close>

theorem self_removal_skips:
  "emit (two_chunks\<lparr>xe_react := \<lambda>_ f. if f = 1 then ([Off Stdout ''data'' 1], None) else ([], None)\<rparr>) ls_stdout (Data v) 0
      \<lparr>ex_listeners = \<lparr>ls_stdout = [1, 2, 3], ls_stderr = [], ls_close = [], ls_error = []\<rparr>, ex_log = []\<rparr>
     = Some (None, \<lparr>ex_listeners = \<lparr>ls_stdout = [2, 3], ls_stderr = [], ls_close = [], ls_error = []\<rparr>,
         ex_log = [(1, Data v), (3, Data v)]\<rparr>)"
  by (subst emit.simps, simp add: call_listener_def apply_ops_def without_def two_chunks_def)
    (subst emit.simps, simp add: call_listener_def apply_ops_def without_def two_chunks_def, subst emit.simps, simp)

text \<open>
  Remark: Without options the command goes through a shell, so a blank or a semicolon in an argument is not
  passed on as a part of it; only \<open>shell: false\<close> passes the arguments as they are.
\<close>

theorem arguments_through_shell:
  "sp_args (spawn_for ''ls'' (Some [''a; b'']) JUndef) = [''-c'', ''ls a; b'']
    \<and> sp_args (spawn_for ''ls'' (Some [''a; b'']) (JObj [(''shell'', JBool False)])) = [''a; b'']"
  by (simp add: spawn_for_def full_command_def spaced_def opt_field_def Let_def)

end
