(* ===== verification/Documents.thy ===== *)
theory Documents
  imports Js_Values
begin

text \<open>
  \<open>entry.mjs\<close>, the document readers added to \<open>MDocument\<close>: CSV, Word and PDF sources. The parsers (Papa
  Parse, mammoth, pdf.js), \<open>atob\<close> and the conversion of values to strings are parameters; a reader's
  result is the text and the metadata it hands to \<open>MDocument.fromText\<close>.
\<close>

section \<open>Sources\<close>

type_synonym bytes = "nat list"

text \<open>
  A source: a buffer, a \<open>Uint8Array\<close> on a buffer with its offset and length, another object with a \<open>buffer\<close>
  property and whatever \<open>byteOffset\<close> and \<open>byteLength\<close> it has (\<open>None\<close> is \<open>undefined\<close>), a string, or
  anything else.
\<close>

datatype doc_source =
    ArrayBuffer bytes
  | Uint8Array bytes nat nat
  | ViewLike bytes "int option" "int option"
  | Base64 string
  | OtherSource

definition offset_or_zero :: "int option \<Rightarrow> int" where
  "offset_or_zero off = (case off of None \<Rightarrow> 0 | Some n \<Rightarrow> n)"

definition slice_index :: "nat \<Rightarrow> int \<Rightarrow> nat" where
  "slice_index len i = (if i < 0 then nat (max 0 (int len + i)) else nat (min i (int len)))"

text \<open>\<open>buffer.slice(start, end)\<close>; an end that is not a number (\<open>None\<close>) counts as 0.\<close>

definition buffer_slice :: "bytes \<Rightarrow> int \<Rightarrow> int option \<Rightarrow> bytes" where
  "buffer_slice b start stop =
     (let s = slice_index (length b) start;
          e = slice_index (length b) (case stop of None \<Rightarrow> 0 | Some e \<Rightarrow> e)
      in take (e - s) (drop s b))"

definition range_error :: jsval where
  "range_error = JErr PlainError ''RangeError'' []"

text \<open>\<open>new Uint8Array(buffer, offset, length)\<close>; without a length it takes the rest.\<close>

definition typed_view :: "bytes \<Rightarrow> int \<Rightarrow> int option \<Rightarrow> jsval + bytes" where
  "typed_view b off len =
     (if off < 0 \<or> (\<exists>n. len = Some n \<and> n < 0) then Inl range_error
      else (case len of
              None \<Rightarrow> if off > int (length b) then Inl range_error else Inr (drop (nat off) b)
            | Some n \<Rightarrow> if off + n > int (length b) then Inl range_error else Inr (take (nat n) (drop (nat off) b))))"

definition char_codes :: "string \<Rightarrow> bytes" where
  "char_codes s = map of_char s"

definition source_error :: "string \<Rightarrow> jsval" where
  "source_error fn = JErr TypeErr (''MDocument.'' @ fn @ '': source must be ArrayBuffer, Uint8Array, or base64 string'') []"

definition docx_bytes :: "(string \<Rightarrow> jsval + string) \<Rightarrow> doc_source \<Rightarrow> jsval + bytes" where
  "docx_bytes atob src =
     (case src of
        ArrayBuffer b \<Rightarrow> Inr b
      | Uint8Array b off n \<Rightarrow> Inr (buffer_slice b (int off) (Some (int off + int n)))
      | ViewLike b off len \<Rightarrow>
          Inr (buffer_slice b (offset_or_zero off) (map_option (\<lambda>n. offset_or_zero off + n) len))
      | Base64 s \<Rightarrow> (case atob s of Inl e \<Rightarrow> Inl e | Inr bin \<Rightarrow> Inr (char_codes bin))
      | OtherSource \<Rightarrow> Inl (source_error ''fromDocx''))"

definition pdf_bytes :: "(string \<Rightarrow> jsval + string) \<Rightarrow> doc_source \<Rightarrow> jsval + bytes" where
  "pdf_bytes atob src =
     (case src of
        Uint8Array b off n \<Rightarrow> Inr (take n (drop off b))
      | ArrayBuffer b \<Rightarrow> Inr b
      | ViewLike b off len \<Rightarrow> typed_view b (offset_or_zero off) len
      | Base64 s \<Rightarrow> (case atob s of Inl e \<Rightarrow> Inl e | Inr bin \<Rightarrow> Inr (char_codes bin))
      | OtherSource \<Rightarrow> Inl (source_error ''fromPDF''))"

section \<open>Readers\<close>

fun join_with :: "string \<Rightarrow> string list \<Rightarrow> string" where
  "join_with sep [] = []"
| "join_with sep [x] = x"
| "join_with sep (x # y # xs) = x @ sep @ join_with sep (y # xs)"

text \<open>\<open>String(v)\<close>, where \<open>str\<close> is the conversion of values that are not strings.\<close>

definition js_text :: "(jsval \<Rightarrow> string) \<Rightarrow> jsval \<Rightarrow> string" where
  "js_text str v = (case v of JStr s \<Rightarrow> s | _ \<Rightarrow> str v)"

text \<open>\<open>join\<close> prints \<open>null\<close> and \<open>undefined\<close> as nothing.\<close>

definition join_text :: "(jsval \<Rightarrow> string) \<Rightarrow> jsval \<Rightarrow> string" where
  "join_text str v = (if nullish v then [] else js_text str v)"

definition metadata_or :: "jsval \<Rightarrow> jsval" where
  "metadata_or m = js_or m (JObj [])"

definition csv_row :: "(jsval \<Rightarrow> string) \<Rightarrow> jsval \<Rightarrow> string" where
  "csv_row str row =
     (case row of JArr cells \<Rightarrow> join_with '' | '' (map (join_text str) cells) | _ \<Rightarrow> js_text str row)"

definition csv_rows :: "jsval \<Rightarrow> jsval list" where
  "csv_rows parsed = (case getp parsed ''data'' of JArr rows \<Rightarrow> rows | _ \<Rightarrow> [])"

definition fromCSV :: "(jsval \<Rightarrow> string) \<Rightarrow> (string \<Rightarrow> jsval) \<Rightarrow> jsval \<Rightarrow> jsval \<Rightarrow> string \<times> jsval" where
  "fromCSV str papa csv metadata =
     (join_with [CHR 0x0A] (map (csv_row str) (csv_rows (papa (js_text str (js_or csv (JStr [])))))), metadata_or metadata)"

definition fromDocx ::
  "(string \<Rightarrow> jsval + string) \<Rightarrow> (bytes \<Rightarrow> jsval + jsval) \<Rightarrow> doc_source \<Rightarrow> jsval \<Rightarrow> jsval + jsval \<times> jsval" where
  "fromDocx atob extractRawText src metadata =
     (case docx_bytes atob src of
        Inl e \<Rightarrow> Inl e
      | Inr b \<Rightarrow>
          (case extractRawText b of
             Inl e \<Rightarrow> Inl e
           | Inr r \<Rightarrow>
               (case member r ''value'' of
                  Inl e \<Rightarrow> Inl e
                | Inr v \<Rightarrow> Inr (js_or v (JStr []), metadata_or metadata))))"

datatype pdf_call = PGetDocument bytes | PGetPage nat | PDestroy

text \<open>A loaded document: its number of pages, and the text items of a page.\<close>

record pdf_env =
  pd_document :: "bytes \<Rightarrow> jsval + nat"
  pd_page :: "nat \<Rightarrow> jsval + jsval list"
  pd_destroy :: "jsval option"

definition item_text :: "(jsval \<Rightarrow> string) \<Rightarrow> jsval \<Rightarrow> string" where
  "item_text str it = js_text str (js_or (getp it ''str'') (JStr []))"

definition page_text :: "(jsval \<Rightarrow> string) \<Rightarrow> jsval list \<Rightarrow> string" where
  "page_text str items = join_with '' '' (map (item_text str) items)"

fun pdf_pages ::
  "(jsval \<Rightarrow> string) \<Rightarrow> pdf_env \<Rightarrow> nat list \<Rightarrow> string list \<Rightarrow> (jsval + string list) \<times> pdf_call list" where
  "pdf_pages str env [] pages = (Inr pages, [])"
| "pdf_pages str env (p # ps) pages =
     (case pd_page env p of
        Inl e \<Rightarrow> (Inl e, [PGetPage p])
      | Inr items \<Rightarrow>
          (case pdf_pages str env ps (pages @ [page_text str items]) of (r, calls) \<Rightarrow> (r, PGetPage p # calls)))"

definition fromPDF ::
  "(string \<Rightarrow> jsval + string) \<Rightarrow> (jsval \<Rightarrow> string) \<Rightarrow> pdf_env \<Rightarrow> doc_source \<Rightarrow> jsval
     \<Rightarrow> (jsval + string \<times> jsval) \<times> pdf_call list" where
  "fromPDF atob str env src metadata =
     (case pdf_bytes atob src of
        Inl e \<Rightarrow> (Inl e, [])
      | Inr data \<Rightarrow>
          (case pd_document env data of
             Inl e \<Rightarrow> (Inl e, [PGetDocument data])
           | Inr n \<Rightarrow>
               (case pdf_pages str env [1..<Suc n] [] of
                  (Inl e, calls) \<Rightarrow> (Inl e, PGetDocument data # calls)
                | (Inr pages, calls) \<Rightarrow>
                    ((case pd_destroy env of
                        Some e \<Rightarrow> Inl e
                      | None \<Rightarrow> Inr (join_with [CHR 0x0A, CHR 0x0A] pages, metadata_or metadata)),
                     PGetDocument data # calls @ [PDestroy]))))"

section \<open>Properties\<close>

definition in_bounds :: "doc_source \<Rightarrow> bool" where
  "in_bounds src =
     (case src of
        ArrayBuffer b \<Rightarrow> True
      | Uint8Array b off n \<Rightarrow> off + n \<le> length b
      | ViewLike b off len \<Rightarrow> 0 \<le> offset_or_zero off
          \<and> (case len of None \<Rightarrow> False | Some n \<Rightarrow> 0 \<le> n \<and> offset_or_zero off + n \<le> int (length b))
      | Base64 s \<Rightarrow> True
      | OtherSource \<Rightarrow> False)"

lemma slice_index_in: "0 \<le> i \<Longrightarrow> i \<le> int len \<Longrightarrow> slice_index len i = nat i"
  by (simp add: slice_index_def)

lemma slice_view: "0 \<le> off \<Longrightarrow> 0 \<le> n \<Longrightarrow> off + n \<le> int (length b) \<Longrightarrow>
    buffer_slice b off (Some (off + n)) = take (nat n) (drop (nat off) b)"
  by (simp add: buffer_slice_def slice_index_in Let_def nat_add_distrib)

text \<open>
  Remark: Both binary readers see the same bytes: for a buffer, a base64 string and every view with a length that
  lies within its buffer, the Word and the PDF reader read the same bytes or fail with the same error.
\<close>

theorem source_bytes_agree:
  assumes "in_bounds src"
  shows "docx_bytes atob src = pdf_bytes atob src"
proof (cases src)
  case (Uint8Array b off n)
  then show ?thesis using assms slice_view [of "int off" "int n" b]
    by (simp add: docx_bytes_def pdf_bytes_def in_bounds_def)
next
  case (ViewLike b off len)
  then obtain n where n: "len = Some n" "0 \<le> n" "0 \<le> offset_or_zero off" "offset_or_zero off + n \<le> int (length b)"
    using assms by (cases len) (auto simp: in_bounds_def)
  then show ?thesis using ViewLike slice_view [OF n(3,2,4)]
    by (simp add: docx_bytes_def pdf_bytes_def typed_view_def)
qed (use assms in \<open>simp_all add: docx_bytes_def pdf_bytes_def in_bounds_def\<close>)

theorem source_bytes_agree_witness:
  "docx_bytes (\<lambda>_. Inl JNull) (ViewLike [1, 2, 3, 4] (Some 1) (Some 2)) = Inr [2, 3]
    \<and> in_bounds (ViewLike [1, 2, 3, 4] (Some 1) (Some 2))"
proof -
  have "in_bounds (ViewLike [1, 2, 3, 4] (Some 1) (Some 2))" by (simp add: in_bounds_def offset_or_zero_def)
  from source_bytes_agree [OF this, of "\<lambda>_. Inl JNull"] this show ?thesis
    by (simp add: pdf_bytes_def typed_view_def offset_or_zero_def)
qed

text \<open>Without a length the readers differ: the PDF reader takes the rest of the buffer, the Word reader nothing.\<close>

theorem view_without_length:
  "docx_bytes atob (ViewLike b None None) = Inr [] \<and> pdf_bytes atob (ViewLike b None None) = Inr b"
  by (simp add: docx_bytes_def pdf_bytes_def typed_view_def offset_or_zero_def buffer_slice_def slice_index_def)

lemma pdf_pages_run:
  "case pdf_pages str env ps pages of
     (Inr out, calls) \<Rightarrow> calls = map PGetPage ps
       \<and> (\<exists>items. map (pd_page env) ps = map Inr items \<and> out = pages @ map (page_text str) items)
   | (Inl e, calls) \<Rightarrow> (\<exists>k<length ps. pd_page env (ps ! k) = Inl e \<and> calls = map PGetPage (take (Suc k) ps))"
proof (induction ps arbitrary: pages)
  case Nil
  then show ?case by simp
next
  case (Cons p ps)
  show ?case
  proof (cases "pd_page env p")
    case (Inl e)
    then show ?thesis by (auto intro!: exI [where x = 0])
  next
    case (Inr items)
    obtain r calls where r: "pdf_pages str env ps (pages @ [page_text str items]) = (r, calls)" by force
    show ?thesis
    proof (cases r)
      case e: (Inl e)
      then obtain k where "k < length ps" "pd_page env (ps ! k) = Inl e" "calls = map PGetPage (take (Suc k) ps)"
        using Cons.IH [of "pages @ [page_text str items]"] r by auto
      then show ?thesis using Inr r e by (auto intro!: exI [where x = "Suc k"])
    next
      case out: (Inr out)
      then obtain more where "calls = map PGetPage ps" "map (pd_page env) ps = map Inr more"
        "out = (pages @ [page_text str items]) @ map (page_text str) more"
        using Cons.IH [of "pages @ [page_text str items]"] r by auto
      then show ?thesis using Inr r out by (auto intro!: exI [where x = "items # more"])
    qed
  qed
qed

text \<open>
  Remark: The PDF reader gives the whole text: a result is the texts of all pages, from the first to the last,
  each page read once, and the document was destroyed. When a page cannot be read the reader stops
  there with that error, and the document is never destroyed.
\<close>

theorem pdf_text_complete:
  "case fromPDF atob str env src metadata of
     (Inr (text, meta), calls) \<Rightarrow> (\<exists>data n items. pdf_bytes atob src = Inr data \<and> pd_document env data = Inr n
        \<and> map (pd_page env) [1..<Suc n] = map Inr items
        \<and> text = join_with [CHR 0x0A, CHR 0x0A] (map (page_text str) items)
        \<and> meta = metadata_or metadata
        \<and> calls = PGetDocument data # map PGetPage [1..<Suc n] @ [PDestroy])
   | (Inl e, calls) \<Rightarrow> PDestroy \<in> set calls \<longleftrightarrow>
        (\<exists>data n items. pdf_bytes atob src = Inr data \<and> pd_document env data = Inr n
           \<and> map (pd_page env) [1..<Suc n] = map Inr items \<and> pd_destroy env = Some e)"
proof (cases "\<exists>data n. pdf_bytes atob src = Inr data \<and> pd_document env data = Inr n")
  case False
  then show ?thesis by (auto simp: fromPDF_def split: sum.split)
next
  case True
  then obtain data n where d: "pdf_bytes atob src = Inr data" "pd_document env data = Inr n" by blast
  obtain r calls where r: "pdf_pages str env [1..<Suc n] [] = (r, calls)" by force
  note run = pdf_pages_run [where str = str and env = env and ps = "[1..<Suc n]" and pages = "[]", unfolded r]
  show ?thesis
  proof (cases r)
    case (Inl e)
    then obtain k where k: "k < length [1..<Suc n]" "pd_page env ([1..<Suc n] ! k) = Inl e"
      "calls = map PGetPage (take (Suc k) [1..<Suc n])" using run by auto
    have "map (pd_page env) [1..<Suc n] \<noteq> map Inr items" for items
    proof
      assume eq: "map (pd_page env) [1..<Suc n] = map Inr items"
      then have "k < length items" using k(1) by (metis length_map)
      then have "map (pd_page env) [1..<Suc n] ! k = Inr (items ! k)" unfolding eq by simp
      then show False using k(1,2) by simp
    qed
    then show ?thesis using d r Inl k(3) by (auto simp: fromPDF_def simp del: upt_Suc)
  next
    case (Inr out)
    then obtain items where "calls = map PGetPage [1..<Suc n]" "map (pd_page env) [1..<Suc n] = map Inr items"
      "out = map (page_text str) items" using run by auto
    then show ?thesis using d r Inr by (auto simp: fromPDF_def simp del: upt_Suc split: option.split)
  qed
qed

end
