(* ===== verification/Bundle_Setup.thy ===== *)
theory Bundle_Setup
  imports Js_Values
begin

text \<open>
  What runs once when the bundle is evaluated: \<open>entry.mjs\<close> standardises the schemas of the built-in tools
  before the intrinsics are frozen, \<open>patches.js\<close> sets up the observability object and the workflow
  prototype, and the canaries of \<open>ecosystem-canaries.mjs\<close> are run by id. Schemas, constructors and the
  bodies of the canaries are third-party code or use it; they are parameters.
\<close>

section \<open>Standardised tool schemas\<close>

definition cloneJSON :: "jsval \<Rightarrow> jsval + jsval" where
  "cloneJSON v =
     (case stringify v of
        Inl e \<Rightarrow> Inl e
      | Inr None \<Rightarrow> Inl json_syntax_error
      | Inr (Some t) \<Rightarrow> Inr t)"

text \<open>The object a Zod schema is replaced by: the schema its \<open>validate\<close> uses and the precomputed JSON schemas.\<close>

record standard_schema =
  sc_inner :: jsval
  sc_input :: jsval
  sc_output :: jsval

datatype tool_schema = Raw jsval | Standard standard_schema

text \<open>Calling a schema function, and Zod's \<open>toJSONSchema\<close> for \<open>input\<close> and \<open>output\<close>.\<close>

record zod_env =
  zo_call :: "nat \<Rightarrow> jsval + jsval"
  zo_json :: "jsval \<Rightarrow> string \<Rightarrow> jsval + jsval"
  zo_parse :: "jsval \<Rightarrow> jsval \<Rightarrow> jsval + jsval"

definition resolved_schema :: "zod_env \<Rightarrow> jsval \<Rightarrow> jsval + jsval" where
  "resolved_schema env v = (case v of JFun f \<Rightarrow> zo_call env f | _ \<Rightarrow> Inr v)"

text \<open>\<open>Inr None\<close> is a result of \<open>undefined\<close>.\<close>

definition standardizeHarnessToolSchemaForSES :: "zod_env \<Rightarrow> tool_schema \<Rightarrow> jsval + tool_schema option" where
  "standardizeHarnessToolSchemaForSES env x =
     (case x of
        Standard s \<Rightarrow> Inr (Some (Standard s))
      | Raw v \<Rightarrow>
          if \<not> truthy v then Inr None
          else (case resolved_schema env v of
                  Inl e \<Rightarrow> Inl e
                | Inr schema \<Rightarrow>
                    if \<not> truthy schema \<or> \<not> is_object schema then Inr None
                    else if \<not> truthy (getp schema ''_zod'') then Inr (Some (Raw schema))
                    else (case zo_json env schema ''input'' of
                            Inl e \<Rightarrow> Inl e
                          | Inr i \<Rightarrow>
                              (case zo_json env schema ''output'' of
                                 Inl e \<Rightarrow> Inl e
                               | Inr out \<Rightarrow> Inr (Some (Standard \<lparr>sc_inner = schema, sc_input = i, sc_output = out\<rparr>))))))"

definition issue_of :: "jsval \<Rightarrow> jsval" where
  "issue_of issue = JObj [(''message'', js_or (getp issue ''message'') (JStr ''Validation error'')),
     (''path'', js_or (getp issue ''path'') (JArr []))]"

definition issues_of :: "jsval \<Rightarrow> jsval + jsval list" where
  "issues_of r =
     (case js_or (if nullish (getp r ''error'') then JUndef else getp (getp r ''error'') ''issues'') (JArr []) of
        JArr is \<Rightarrow> Inr is | _ \<Rightarrow> Inl (JErr TypeErr ''map is not a function'' []))"

definition standard_validate :: "zod_env \<Rightarrow> standard_schema \<Rightarrow> jsval \<Rightarrow> jsval + jsval" where
  "standard_validate env s v =
     (case zo_parse env (sc_inner s) v of
        Inl e \<Rightarrow> Inl e
      | Inr r \<Rightarrow>
          if truthy (getp r ''success'') then Inr (JObj [(''value'', getp r ''data'')])
          else (case issues_of r of
                  Inl e \<Rightarrow> Inl e | Inr is \<Rightarrow> Inr (JObj [(''issues'', JArr (map issue_of is))])))"

definition standard_input :: "standard_schema \<Rightarrow> jsval + jsval" where
  "standard_input s = cloneJSON (sc_input s)"

definition standard_output :: "standard_schema \<Rightarrow> jsval + jsval" where
  "standard_output s = cloneJSON (sc_output s)"

record tool_entry =
  tl_input :: tool_schema
  tl_output :: tool_schema

text \<open>\<open>None\<close> is a tool the bundle does not have.\<close>

definition standardize_tool :: "zod_env \<Rightarrow> tool_entry option \<Rightarrow> jsval + tool_entry option" where
  "standardize_tool env t =
     (case t of
        None \<Rightarrow> Inr None
      | Some t \<Rightarrow>
          (case standardizeHarnessToolSchemaForSES env (tl_input t) of
             Inl e \<Rightarrow> Inl e
           | Inr i \<Rightarrow>
               (let t' = (case i of None \<Rightarrow> t | Some x \<Rightarrow> t\<lparr>tl_input := x\<rparr>) in
                case standardizeHarnessToolSchemaForSES env (tl_output t') of
                  Inl e \<Rightarrow> Inl e
                | Inr out \<Rightarrow> Inr (Some (case out of None \<Rightarrow> t' | Some x \<Rightarrow> t'\<lparr>tl_output := x\<rparr>)))))"

text \<open>The tools are objects: those before the one that fails stay standardised, so the result keeps them.\<close>

fun standardizeToolSchemasForSES ::
  "zod_env \<Rightarrow> tool_entry option list \<Rightarrow> jsval option \<times> tool_entry option list" where
  "standardizeToolSchemasForSES env [] = (None, [])"
| "standardizeToolSchemasForSES env (t # ts) =
     (case standardize_tool env t of
        Inl e \<Rightarrow> (Some e, t # ts)
      | Inr t' \<Rightarrow> (case standardizeToolSchemasForSES env ts of (e, ts') \<Rightarrow> (e, t' # ts')))"

section \<open>The workflow prototype\<close>

datatype shim = WorkflowShim | AgentWorkflowShim

definition shimForWorkflow :: "jsval \<Rightarrow> shim" where
  "shimForWorkflow flow =
     (if and_prop flow ''id'' \<in> {JStr ''execution-workflow'', JStr ''agentic-loop''} then AgentWorkflowShim else WorkflowShim)"

datatype commit_call = CRegister shim | CCommit

text \<open>Whether the workflow has \<open>__registerMastra\<close>, whether that throws, and the outcome of the original commit.\<close>

definition patched_commit ::
  "bool \<Rightarrow> jsval option \<Rightarrow> jsval + jsval \<Rightarrow> jsval \<Rightarrow> (jsval + jsval) \<times> commit_call list" where
  "patched_commit registers register_error original flow =
     (case (if registers then Some register_error else None) of
        None \<Rightarrow> (original, [CCommit])
      | Some thrown \<Rightarrow> (original, [CRegister (shimForWorkflow flow), CCommit]))"

text \<open>The observability object: \<open>None\<close> when it is disabled, missing from the bundle, or its constructor throws.\<close>

definition obs_config :: "jsval \<Rightarrow> jsval" where
  "obs_config global = js_or global
     (JObj [(''enabled'', JBool True), (''strategy'', JStr ''realtime''), (''serviceName'', JStr ''brainkit'')])"

definition observability_args :: "jsval \<Rightarrow> bool \<Rightarrow> (jsval \<times> jsval) option" where
  "observability_args global available =
     (let cfg = obs_config global in
      if getp cfg ''enabled'' \<noteq> JBool False \<and> available
      then Some (js_or (getp cfg ''serviceName'') (JStr ''brainkit''), js_or (getp cfg ''strategy'') (JStr ''realtime''))
      else None)"

section \<open>Canaries\<close>

definition boundary :: "(string \<Rightarrow> jsval option) \<Rightarrow> string \<Rightarrow> jsval" where
  "boundary require specifier =
     (case require specifier of
        None \<Rightarrow> JObj [(''specifier'', JStr specifier), (''threw'', JBool False)]
      | Some err \<Rightarrow>
          (let field = (\<lambda>k. js_or (and_prop err k) (JStr [])) in
           JObj [(''specifier'', JStr specifier), (''threw'', JBool True), (''code'', field ''code''),
             (''boundaryCode'', field ''boundaryCode''), (''boundaryClass'', field ''boundaryClass''),
             (''packageName'', field ''packageName''), (''suggestedOwner'', field ''suggestedOwner'')]))"

definition boundary_matches :: "jsval \<Rightarrow> string \<Rightarrow> bool" where
  "boundary_matches r cls \<longleftrightarrow> truthy r \<and> truthy (getp r ''threw'')
     \<and> getp r ''code'' = JStr ''BRAINKIT_UNSUPPORTED_DYNAMIC_REQUIRE''
     \<and> getp r ''boundaryCode'' = JStr ''BRAINKIT_UNSUPPORTED_BOUNDARY''
     \<and> getp r ''boundaryClass'' = JStr cls"

definition assertBoundary :: "(jsval \<Rightarrow> string) \<Rightarrow> jsval \<Rightarrow> string \<Rightarrow> jsval + jsval" where
  "assertBoundary str r cls =
     (if boundary_matches r cls then Inr r
      else Inl (JErr PlainError
        (''expected '' @ str (getp r ''specifier'') @ '' to throw '' @ cls @ '' boundary'') []))"

text \<open>A canary gets the base URL; \<open>run\<close> reads the table of runners like any object, with the methods of \<open>Object.prototype\<close> as a parameter.\<close>

definition base_url :: "jsval \<Rightarrow> jsval" where
  "base_url options = js_or (and_prop options ''baseURL'') (JStr [])"

definition canary_run :: "(string \<Rightarrow> jsval \<Rightarrow> jsval + jsval) \<Rightarrow> (string \<times> (jsval \<Rightarrow> jsval + jsval)) list \<Rightarrow> string \<Rightarrow> jsval \<Rightarrow> jsval + jsval" where
  "canary_run inherited runners i options =
     (case dict_read runners i of
        Own f \<Rightarrow> f (base_url options)
      | Inherited n \<Rightarrow> inherited n (base_url options)
      | Missing \<Rightarrow> Inl (JErr PlainError (''unknown ecosystem canary: '' @ i) []))"

text \<open>Prefixing the message of what a canary threw: only an object has a message to assign.\<close>

definition prefixed :: "(jsval \<Rightarrow> string) \<Rightarrow> string \<Rightarrow> jsval \<Rightarrow> jsval" where
  "prefixed str i err =
     (let text = i @ '': '' @ str (js_or (and_prop err ''message'') err) in
      case err of
        JErr c m ps \<Rightarrow> JErr c text ps
      | JObj ps \<Rightarrow> JObj (dset ps ''message'' (JStr text))
      | JArr vs \<Rightarrow> JArr vs
      | JFun f \<Rightarrow> JFun f
      | _ \<Rightarrow> JErr TypeErr ''cannot set property message'' [])"

fun canary_runAll ::
  "(jsval \<Rightarrow> string) \<Rightarrow> (string \<times> (jsval \<Rightarrow> jsval + jsval)) list \<Rightarrow> jsval \<Rightarrow> (jsval + jsval list) \<times> string list" where
  "canary_runAll str [] options = (Inr [], [])"
| "canary_runAll str ((i, f) # rs) options =
     (case f (base_url options) of
        Inl err \<Rightarrow> (Inl (prefixed str i err), [i])
      | Inr v \<Rightarrow>
          (case canary_runAll str rs options of
             (r, seen) \<Rightarrow> (map_sum id (\<lambda>vs. v # vs) r, i # seen)))"

section \<open>Properties\<close>

lemma resolved_object: "is_object v \<Longrightarrow> resolved_schema env v = Inr v"
  by (cases v) (simp_all add: resolved_schema_def)

lemma standardize_Standard [simp]: "standardizeHarnessToolSchemaForSES env (Standard s) = Inr (Some (Standard s))"
  by (simp add: standardizeHarnessToolSchemaForSES_def)

lemma standardize_cases:
  assumes "standardizeHarnessToolSchemaForSES env (Raw v) = Inr (Some y)"
  shows "(\<exists>s. y = Standard s) \<or> (\<exists>w. y = Raw w \<and> truthy w \<and> is_object w \<and> \<not> truthy (getp w ''_zod''))"
  using assms unfolding standardizeHarnessToolSchemaForSES_def
  by (cases "resolved_schema env v") (auto split: sum.splits if_splits)

lemma standardize_stable:
  assumes "standardizeHarnessToolSchemaForSES env x = Inr (Some y)"
  shows "standardizeHarnessToolSchemaForSES env y = Inr (Some y)"
proof (cases x)
  case (Raw v)
  then consider s where "y = Standard s" | w where "y = Raw w" "truthy w" "is_object w" "\<not> truthy (getp w ''_zod'')"
    using standardize_cases [of env v y] assms by blast
  then show ?thesis
    by cases (simp_all add: standardizeHarnessToolSchemaForSES_def resolved_object)
next
  case (Standard s)
  then show ?thesis using assms by auto
qed

text \<open>The schema a tool ends with.\<close>

definition next_schema :: "zod_env \<Rightarrow> tool_schema \<Rightarrow> jsval + tool_schema" where
  "next_schema env x =
     (case standardizeHarnessToolSchemaForSES env x of
        Inl e \<Rightarrow> Inl e | Inr r \<Rightarrow> Inr (case r of None \<Rightarrow> x | Some y \<Rightarrow> y))"

lemma next_schema_stable: "next_schema env x = Inr y \<Longrightarrow> next_schema env y = Inr y"
  using standardize_stable [of env x] by (auto simp: next_schema_def split: sum.splits option.splits)

lemma standardize_tool_eq:
  "standardize_tool env (Some t) =
     (case next_schema env (tl_input t) of
        Inl e \<Rightarrow> Inl e
      | Inr i \<Rightarrow>
          (case next_schema env (tl_output t) of
             Inl e \<Rightarrow> Inl e | Inr out \<Rightarrow> Inr (Some (t\<lparr>tl_input := i, tl_output := out\<rparr>))))"
  by (simp add: standardize_tool_def next_schema_def Let_def split: sum.split option.split)

lemma standardize_tool_Some:
  assumes "standardize_tool env (Some t) = Inr t'"
  shows "\<exists>i out. next_schema env (tl_input t) = Inr i \<and> next_schema env (tl_output t) = Inr out
    \<and> t' = Some (t\<lparr>tl_input := i, tl_output := out\<rparr>)"
  using assms by (auto simp: standardize_tool_eq split: sum.splits)

lemma standardize_tool_stable:
  assumes "standardize_tool env t = Inr t'"
  shows "standardize_tool env t' = Inr t'"
proof (cases t)
  case None
  then show ?thesis using assms by (auto simp: standardize_tool_def)
next
  case (Some u)
  then obtain i out where "next_schema env (tl_input u) = Inr i" "next_schema env (tl_output u) = Inr out"
    "t' = Some (u\<lparr>tl_input := i, tl_output := out\<rparr>)"
    using standardize_tool_Some assms by blast
  then show ?thesis using next_schema_stable by (simp add: standardize_tool_eq)
qed

text \<open>A schema that will not be traversed by Zod any more.\<close>

definition settled_schema :: "tool_schema \<Rightarrow> bool" where
  "settled_schema x = (case x of Standard s \<Rightarrow> True | Raw v \<Rightarrow> \<not> (is_object v \<and> truthy (getp v ''_zod'')))"

definition settled_tool :: "tool_entry option \<Rightarrow> bool" where
  "settled_tool t = (case t of None \<Rightarrow> True | Some t \<Rightarrow> settled_schema (tl_input t) \<and> settled_schema (tl_output t))"

lemma standardize_none:
  "standardizeHarnessToolSchemaForSES env x = Inr None \<Longrightarrow> settled_schema x"
proof (cases x)
  case (Raw v)
  assume none: "standardizeHarnessToolSchemaForSES env x = Inr None"
  show ?thesis
  proof (cases "is_object v \<and> truthy v")
    case True
    then show ?thesis using none Raw
      by (auto simp: standardizeHarnessToolSchemaForSES_def resolved_object settled_schema_def split: sum.splits if_splits)
  next
    case False
    then show ?thesis using Raw by (cases v) (auto simp: settled_schema_def)
  qed
qed (simp add: settled_schema_def)

lemma standardize_settles:
  assumes "standardizeHarnessToolSchemaForSES env x = Inr r"
  shows "settled_schema (case r of None \<Rightarrow> x | Some y \<Rightarrow> y)"
proof (cases r)
  case None
  then show ?thesis using assms standardize_none by simp
next
  case (Some y)
  show ?thesis
  proof (cases x)
    case (Raw v)
    then show ?thesis using standardize_cases [of env v y] assms Some by (auto simp: settled_schema_def)
  next
    case (Standard s)
    then show ?thesis using assms by (auto simp: settled_schema_def)
  qed
qed

lemma standardize_tool_settles:
  assumes "standardize_tool env t = Inr t'"
  shows "settled_tool t'"
proof (cases t)
  case None
  then show ?thesis using assms by (auto simp: standardize_tool_def settled_tool_def)
next
  case (Some u)
  then obtain i out where t': "next_schema env (tl_input u) = Inr i" "next_schema env (tl_output u) = Inr out"
    "t' = Some (u\<lparr>tl_input := i, tl_output := out\<rparr>)"
    using standardize_tool_Some assms by blast
  have "settled_schema y" if "next_schema env x = Inr y" for x y
    using that standardize_settles [of env x] by (auto simp: next_schema_def split: sum.splits)
  then show ?thesis using t' by (simp add: settled_tool_def)
qed

text \<open>
  Remark: Standardising the tool schemas settles them: when it succeeds, a second pass changes nothing and
  cannot fail, no tool is added or lost, and no schema is left that Zod would traverse after the lockdown.
\<close>

theorem tool_schemas_settled:
  assumes "standardizeToolSchemasForSES env ts = (None, ts')"
  shows "standardizeToolSchemasForSES env ts' = (None, ts') \<and> length ts' = length ts \<and> list_all settled_tool ts'"
  using assms
proof (induction ts arbitrary: ts')
  case Nil
  then show ?case by simp
next
  case (Cons t ts)
  then obtain t1 ts1 where t: "standardize_tool env t = Inr t1" "standardizeToolSchemasForSES env ts = (None, ts1)" "ts' = t1 # ts1"
    by (auto split: sum.splits prod.splits)
  then show ?case
    using Cons.IH [OF t(2)] standardize_tool_stable [OF t(1)] standardize_tool_settles [OF t(1)] by simp
qed

definition sample_zod :: zod_env where
  "sample_zod = \<lparr>zo_call = \<lambda>_. Inr (JObj [(''_zod'', JBool True)]), zo_json = \<lambda>_ io. Inr (JStr io), zo_parse = \<lambda>_ v. Inr v\<rparr>"

lemma sample_settles:
  "standardizeToolSchemasForSES sample_zod [None, Some \<lparr>tl_input = Raw (JFun 0), tl_output = Raw JUndef\<rparr>]
     = (None, [None, Some \<lparr>tl_input = Standard \<lparr>sc_inner = JObj [(''_zod'', JBool True)], sc_input = JStr ''input'',
         sc_output = JStr ''output''\<rparr>, tl_output = Raw JUndef\<rparr>])"
  by (simp add: sample_zod_def standardize_tool_def standardizeHarnessToolSchemaForSES_def resolved_schema_def)

theorem tool_schemas_settled_witness:
  "standardizeToolSchemasForSES sample_zod [None, Some \<lparr>tl_input = Standard \<lparr>sc_inner = JObj [(''_zod'', JBool True)],
       sc_input = JStr ''input'', sc_output = JStr ''output''\<rparr>, tl_output = Raw JUndef\<rparr>]
     = (None, [None, Some \<lparr>tl_input = Standard \<lparr>sc_inner = JObj [(''_zod'', JBool True)], sc_input = JStr ''input'',
         sc_output = JStr ''output''\<rparr>, tl_output = Raw JUndef\<rparr>])"
  using tool_schemas_settled [OF sample_settles] by blast

text \<open>
  Remark: Running all canaries gives the results of all of them in order, or stops at the first that fails with its
  id in front of the message, every later one not having run.
\<close>

theorem canaries_run_in_order:
  "case canary_runAll str rs options of
     (Inr vs, seen) \<Rightarrow> seen = map fst rs \<and> map (\<lambda>r. snd r (base_url options)) rs = map Inr vs
   | (Inl e, seen) \<Rightarrow> (\<exists>k<length rs. \<exists>err. seen = map fst (take (Suc k) rs)
        \<and> snd (rs ! k) (base_url options) = Inl err \<and> e = prefixed str (fst (rs ! k)) err)"
proof (induction rs)
  case Nil
  then show ?case by simp
next
  case (Cons r rs)
  obtain i f where r: "r = (i, f)" by force
  show ?case
  proof (cases "f (base_url options)")
    case (Inl err)
    then show ?thesis using r by (auto intro!: exI [where x = 0])
  next
    case (Inr v)
    obtain q seen where q: "canary_runAll str rs options = (q, seen)" by force
    show ?thesis
    proof (cases q)
      case (Inl e)
      then obtain k err where "k < length rs" "seen = map fst (take (Suc k) rs)"
        "snd (rs ! k) (base_url options) = Inl err" "e = prefixed str (fst (rs ! k)) err"
        using Cons.IH q by auto
      then show ?thesis using r \<open>f (base_url options) = Inr v\<close> q Inl by (auto intro!: exI [where x = "Suc k"])
    next
      case (Inr vs)
      then show ?thesis using Cons.IH r \<open>f (base_url options) = Inr v\<close> q by auto
    qed
  qed
qed

end
