(* ===== verification/As_Memory.thy ===== *)
theory As_Memory
  imports Prelude "HOL-Library.Monad_Syntax" "HOL-Library.Word"
begin

unbundle bit_operations_syntax

text \<open>
  The memory and the integers of the AssemblyScript standard library under \<open>std\<close>, which brainkit embeds and
  links into every module its compiler produces. A block of memory is a list of its elements. A load or a store
  outside it is \<open>None\<close>, and so is a load of a slot of a fresh buffer that was not written before: a routine
  that returns \<open>Some\<close> never leaves its blocks. Running out of linear memory traps the whole instance and is
  outside the model; the length checks of the library are inside.
\<close>

section \<open>Integers\<close>

text \<open>\<open>i32(x)\<close> of an unbounded integer, and the 32 low bits of one.\<close>

definition i32 :: "int \<Rightarrow> int" where
  "i32 x = signed_take_bit 31 x"

definition u32 :: "int \<Rightarrow> int" where
  "u32 x = take_bit 32 x"

text \<open>
  The largest payloads of a memory block and of an object, and what \<open>new ArrayBuffer\<close> throws: the first check is the
  constructor's, the second that of the allocation in the default, incremental runtime.
\<close>

definition BLOCK_MAXSIZE :: int where
  "BLOCK_MAXSIZE = 2 ^ 30 - 4"

definition OBJECT_MAXSIZE :: int where
  "OBJECT_MAXSIZE = BLOCK_MAXSIZE - 16"

definition E_INVALIDLENGTH :: string where
  "E_INVALIDLENGTH = ''Invalid length''"

definition E_ALLOCATION_TOO_LARGE :: string where
  "E_ALLOCATION_TOO_LARGE = ''Allocation too large''"

definition buffer_error :: "int \<Rightarrow> string option" where
  "buffer_error n =
     (if u32 n > BLOCK_MAXSIZE then Some E_INVALIDLENGTH
      else if u32 n \<ge> OBJECT_MAXSIZE then Some E_ALLOCATION_TOO_LARGE
      else None)"

definition E_KEYNOTFOUND :: string where
  "E_KEYNOTFOUND = ''Key does not exist''"

text \<open>The two errors.\<close>

definition too_large :: "string set" where
  "too_large = {E_INVALIDLENGTH, E_ALLOCATION_TOO_LARGE}"

lemma u32_small: "0 \<le> x \<Longrightarrow> x < 2 ^ 32 \<Longrightarrow> u32 x = x"
  by (simp add: u32_def take_bit_int_eq_self)

lemma i32_small: "0 \<le> x \<Longrightarrow> x < 2 ^ 31 \<Longrightarrow> i32 x = x"
  by (simp add: i32_def signed_take_bit_int_eq_self)

lemma u32_i32: "u32 (i32 x) = u32 x"
  by (simp add: u32_def i32_def take_bit_signed_take_bit)

lemma buffer_error_None: "0 \<le> x \<Longrightarrow> x < 2 ^ 32 \<Longrightarrow> buffer_error (i32 x) = None \<longleftrightarrow> x < OBJECT_MAXSIZE"
  by (auto simp: buffer_error_def u32_i32 u32_small OBJECT_MAXSIZE_def)

lemma buffer_error_cases: "buffer_error n = Some err \<Longrightarrow> err \<in> too_large"
  by (auto simp: buffer_error_def too_large_def split: if_splits)

text \<open>The number of leading and of trailing zeros of \<open>w\<close> bits.\<close>

definition clz :: "nat \<Rightarrow> int \<Rightarrow> nat" where
  "clz w x = length (takeWhile (\<lambda>i. \<not> bit x i) (rev [0..<w]))"

definition ctz :: "nat \<Rightarrow> int \<Rightarrow> nat" where
  "ctz w x = length (takeWhile (\<lambda>i. \<not> bit x i) [0..<w])"

lemma clz_top:
  assumes "p < w" "bit x p" "\<And>i. p < i \<Longrightarrow> i < w \<Longrightarrow> \<not> bit x i"
  shows "clz w x = w - Suc p"
proof -
  have "[0..<w] = [0..<p] @ [p] @ [Suc p..<w]"
    using assms(1) upt_add_eq_append[of 0 p "w - p"] by (simp add: upt_conv_Cons)
  then have split: "rev [0..<w] = rev [Suc p..<w] @ p # rev [0..<p]" by simp
  have "takeWhile (\<lambda>i. \<not> bit x i) (rev [0..<w]) = rev [Suc p..<w]"
    unfolding split using assms(2,3) by (subst takeWhile_append2) auto
  then show ?thesis by (simp add: clz_def)
qed

lemma clz_between: "2 ^ p \<le> n \<Longrightarrow> n < 2 ^ Suc p \<Longrightarrow> p < w \<Longrightarrow> clz w (int n) = w - Suc p"
proof (rule clz_top)
  assume n: "2 ^ p \<le> n" "n < 2 ^ Suc p" "p < w"
  have "2 ^ p * 1 \<le> n" "n < 2 ^ p * (1 + 1)" using n(1,2) by simp_all
  then have "n div 2 ^ p = 1" by (intro div_nat_eqI) simp_all
  then have "int n div 2 ^ p = 1" using zdiv_int[of n "2 ^ p"] by simp
  then show "bit (int n) p" by (simp add: bit_iff_odd)
  show "p < w" by (rule n(3))
  show "\<not> bit (int n) i" if "p < i" "i < w" for i
  proof -
    have "(2 :: nat) ^ Suc p \<le> 2 ^ i" using that by (intro power_increasing) auto
    then have "n < 2 ^ i" using n(2) by linarith
    then have "n div 2 ^ i = 0" by (rule div_less)
    then have "int n div 2 ^ i = 0" using zdiv_int[of n "2 ^ i"] by simp
    then show ?thesis by (simp add: bit_iff_odd)
  qed
qed

section \<open>Memory\<close>

definition load_at :: "'a list \<Rightarrow> int \<Rightarrow> 'a option" where
  "load_at xs i = (if 0 \<le> i \<and> i < int (length xs) then Some (xs ! nat i) else None)"

definition store_at :: "'a list \<Rightarrow> int \<Rightarrow> 'a \<Rightarrow> 'a list option" where
  "store_at xs i v = (if 0 \<le> i \<and> i < int (length xs) then Some (xs[nat i := v]) else None)"

definition load_slot :: "'a option list \<Rightarrow> int \<Rightarrow> 'a option" where
  "load_slot buffer i = do { slot \<leftarrow> load_at buffer i; slot }"

text \<open>
  The buffer of a string under construction, in code units; its written units as a string. Offsets are counted
  in units, half the byte offsets of the code. A string as long as the largest object cannot be allocated.
\<close>

type_synonym buffer = "int option list"

definition new_string :: "int \<Rightarrow> string + buffer" where
  "new_string n = (if 2 * n \<ge> OBJECT_MAXSIZE then Inl E_ALLOCATION_TOO_LARGE else Inr (replicate (nat n) None))"

fun written :: "buffer \<Rightarrow> int list option" where
  "written [] = Some []"
| "written (slot # dst) = do { c \<leftarrow> slot; cs \<leftarrow> written dst; Some (c # cs) }"

section \<open>Laws\<close>

named_theorems block_simps \<open>loads and stores at the seam of an append\<close>

lemma load_mid [block_simps]: "i = int (length pre) \<Longrightarrow> load_at (pre @ x # post) i = Some x"
  by (simp add: load_at_def)

lemma store_mid [block_simps]: "i = int (length pre) \<Longrightarrow> store_at (pre @ x # post) i v = Some (pre @ v # post)"
  by (simp add: store_at_def list_update_append)

lemma load_next [block_simps]: "i = int (length pre) + 1 \<Longrightarrow> load_at (pre @ x # y # post) i = Some y"
  using load_mid[of i "pre @ [x]" y post] by simp

lemma load_slot_mid [block_simps]: "i = int (length pre) \<Longrightarrow> load_slot (pre @ v # post) i = v"
  by (simp add: load_slot_def block_simps)

lemma take_drop_append: "take p R @ drop p R @ post = R @ post"
  by (metis append.assoc append_take_drop_id)

lemma load_nth: "s < length xs \<Longrightarrow> load_at xs (int s) = Some (xs ! s)"
  by (simp add: load_at_def)

lemma store_nth: "s < length xs \<Longrightarrow> store_at xs (int s) v = Some (xs[s := v])"
  by (simp add: store_at_def)

lemma written_map: "written (map Some s) = Some s"
  by (induction s) auto

lemma push_or: "0 \<le> y \<Longrightarrow> y < 2 ^ n \<Longrightarrow> push_bit n a OR y = a * 2 ^ n + (y :: int)"
proof -
  assume y: "0 \<le> y" "y < 2 ^ n"
  then have "take_bit n y = y" by (simp add: take_bit_int_eq_self)
  then have "push_bit n a AND y = 0"
    by (metis (no_types, lifting) bit_and_iff bit_eqI bit_push_bit_iff bit_take_bit_iff bit_0_eq bot_apply bot_bool_def linorder_not_le)
  then have "push_bit n a + y = push_bit n a OR y" by (rule disjunctive_add_eq_or)
  then show ?thesis by (simp add: push_bit_eq_mult)
qed

lemma or_push: "0 \<le> y \<Longrightarrow> y < 2 ^ n \<Longrightarrow> k = push_bit n a \<Longrightarrow> y OR k = k + (y :: int)"
  using push_or[of y n a] by (simp add: or.commute push_bit_eq_mult)

end
