(* ===== verification/As_Sort.thy ===== *)
theory As_Sort
  imports As_Memory "HOL-Library.Multiset"
begin

unbundle bit_operations_syntax

text \<open>
  \<open>std/util/sort.ts\<close>, the sort of the standard library that modules compiled by brainkit's embedded
  AssemblyScript compiler link against: the default comparators, insertion sort in both of its compiled
  forms, the run detection, the merge and the power sort that composes them.

  The block of elements is a list indexed by the code's \<open>i32\<close> offsets. It has at most \<open>BLOCK_MAXSIZE\<close> bytes, so
  that the index arithmetic does not wrap; the arithmetic of \<open>nodePower\<close> is written with its widths.
  A comparator is a function of the two elements; one that keeps a state is not modelled.
\<close>

type_synonym 'a comparator = "'a \<Rightarrow> 'a \<Rightarrow> int"

section \<open>Default comparators\<close>

definition compare_small_signed :: "int comparator" where
  "compare_small_signed a b = i32 (i32 a - i32 b)"

definition compare_integers :: "int comparator" where
  "compare_integers a b = of_bool (a > b) - of_bool (a < b)"

text \<open>Floats are compared through their bits: \<open>a\<close> and \<open>b\<close> are the reinterpreted \<open>i32\<close> and \<open>i64\<close> values.\<close>

definition float_order32 :: "int \<Rightarrow> int" where
  "float_order32 ia = i32 (ia XOR drop_bit 1 (u32 (drop_bit 31 ia)))"

definition float_order64 :: "int \<Rightarrow> int" where
  "float_order64 ia = signed_take_bit 63 (ia XOR drop_bit 1 (take_bit 64 (drop_bit 63 ia)))"

definition compare_f32 :: "int comparator" where
  "compare_f32 a b = (let ia = float_order32 a; ib = float_order32 b in of_bool (ia > ib) - of_bool (ia < ib))"

definition compare_f64 :: "int comparator" where
  "compare_f64 a b = (let ia = float_order64 a; ib = float_order64 b in of_bool (ia > ib) - of_bool (ia < ib))"

text \<open>
  Strings are lists of UTF-16 code units; the null string is left out. \<open>compareImpl\<close> compares \<open>len\<close> units, in blocks of
  four as long as these are equal when both addresses are multiples of 8, as those of strings are.
\<close>

function skip_equal :: "int list \<Rightarrow> int list \<Rightarrow> nat \<Rightarrow> int list \<times> int list \<times> nat" where
  "skip_equal as bs len =
     (if 4 \<le> len \<and> take 4 as = take 4 bs then skip_equal (drop 4 as) (drop 4 bs) (len - 4) else (as, bs, len))"
  by pat_completeness auto
termination by (relation "measure (\<lambda>(as, bs, len). len)") auto

fun compare_units :: "int list \<Rightarrow> int list \<Rightarrow> nat \<Rightarrow> int" where
  "compare_units (a # as) (b # bs) (Suc len) = (if a \<noteq> b then a - b else compare_units as bs len)"
| "compare_units as bs len = 0"

definition compareImpl :: "int \<Rightarrow> bool \<Rightarrow> int list \<Rightarrow> int list \<Rightarrow> nat \<Rightarrow> int" where
  "compareImpl shrink_level aligned as bs len =
     (if shrink_level < 2 \<and> 4 \<le> len \<and> aligned
      then (case skip_equal as bs len of (as, bs, len) \<Rightarrow> compare_units as bs len)
      else compare_units as bs len)"

definition compare_strings :: "int \<Rightarrow> int list comparator" where
  "compare_strings shrink_level a b =
     (let alen = length a; blen = length b in
      if alen = 0 \<and> blen = 0 then 0
      else if alen = 0 then -1
      else if blen = 0 then 1
      else let res = compareImpl shrink_level True a b (min alen blen) in
        if res \<noteq> 0 then res else int alen - int blen)"

declare skip_equal.simps [simp del]

section \<open>Insertion sort\<close>

text \<open>The inner loops: elements that must move are stored \<open>off\<close> places further, from \<open>j\<close> down to \<open>left\<close>.\<close>

function shift :: "('a \<Rightarrow> bool) \<Rightarrow> int \<Rightarrow> int \<Rightarrow> 'a list \<Rightarrow> int \<Rightarrow> ('a list \<times> int) option" where
  "shift moves off left xs j =
     (if left \<le> j then do {
        b \<leftarrow> load_at xs j;
        if moves b then do {
          ys \<leftarrow> store_at xs (j + off) b;
          shift moves off left ys (j - 1)
        } else Some (xs, j)
      } else Some (xs, j))"
  by pat_completeness auto
termination by (relation "measure (\<lambda>(moves, off, left, xs, j). nat (j - left + 1))") auto

function insert_each :: "'a comparator \<Rightarrow> int \<Rightarrow> int \<Rightarrow> 'a list \<Rightarrow> int \<Rightarrow> 'a list option" where
  "insert_each cmp left right xs i =
     (if i \<le> right then do {
        a \<leftarrow> load_at xs i;
        (xs, j) \<leftarrow> shift (\<lambda>b. cmp a b < 0) 1 left xs (i - 1);
        xs \<leftarrow> store_at xs (j + 1) a;
        insert_each cmp left right xs (i + 1)
      } else Some xs)"
  by pat_completeness auto
termination by (relation "measure (\<lambda>(cmp, left, right, xs, i). nat (right - i + 1))") auto

function insert_pairs :: "'a comparator \<Rightarrow> int \<Rightarrow> int \<Rightarrow> 'a list \<Rightarrow> int \<Rightarrow> 'a list option" where
  "insert_pairs cmp left right xs i =
     (if i \<le> right then do {
        a \<leftarrow> load_at xs i;
        b \<leftarrow> load_at xs (i + 1);
        let (min_el, max_el) = (if cmp a b \<le> 0 then (a, b) else (b, a));
        (xs, j) \<leftarrow> shift (\<lambda>c. cmp c max_el > 0) 2 left xs (i - 1);
        xs \<leftarrow> store_at xs (j + 2) max_el;
        (xs, j) \<leftarrow> shift (\<lambda>c. cmp c min_el > 0) 1 left xs j;
        xs \<leftarrow> store_at xs (j + 1) min_el;
        insert_pairs cmp left right xs (i + 2)
      } else Some xs)"
  by pat_completeness auto
termination by (relation "measure (\<lambda>(cmp, left, right, xs, i). nat (right - i + 1))") auto

definition insertionSort :: "int \<Rightarrow> 'a comparator \<Rightarrow> 'a list \<Rightarrow> int \<Rightarrow> int \<Rightarrow> int \<Rightarrow> 'a list option" where
  "insertionSort shrink_level cmp xs left right presorted =
     (if shrink_level \<ge> 1 then insert_each cmp left right xs (left + presorted)
      else
        (let range = right - left + 1;
             i = left + (if presorted = 0 then range AND 1 else presorted - ((range - presorted) AND 1))
         in insert_pairs cmp left right xs i))"

section \<open>Runs\<close>

function climb :: "('a \<Rightarrow> 'a \<Rightarrow> bool) \<Rightarrow> int \<Rightarrow> 'a list \<Rightarrow> int \<Rightarrow> int option" where
  "climb good right xs j =
     (if j < right then do {
        b \<leftarrow> load_at xs (j + 1);
        a \<leftarrow> load_at xs j;
        if good b a then climb good right xs (j + 1) else Some j
      } else Some j)"
  by pat_completeness auto
termination by (relation "measure (\<lambda>(good, right, xs, j). nat (right - j))") auto

function reverse_loop :: "'a list \<Rightarrow> int \<Rightarrow> int \<Rightarrow> 'a list option" where
  "reverse_loop xs i k =
     (if i < k then do {
        tmp \<leftarrow> load_at xs i;
        v \<leftarrow> load_at xs k;
        xs \<leftarrow> store_at xs i v;
        xs \<leftarrow> store_at xs k tmp;
        reverse_loop xs (i + 1) (k - 1)
      } else Some xs)"
  by pat_completeness auto
termination by (relation "measure (\<lambda>(xs, i, k). nat (k - i))") auto

definition extendRunRight :: "'a comparator \<Rightarrow> 'a list \<Rightarrow> int \<Rightarrow> int \<Rightarrow> ('a list \<times> int) option" where
  "extendRunRight cmp xs i right =
     (if i = right then Some (xs, i)
      else do {
        a \<leftarrow> load_at xs i;
        b \<leftarrow> load_at xs (i + 1);
        if cmp a b > 0 then do {
          j \<leftarrow> climb (\<lambda>b a. cmp b a < 0) right xs (i + 1);
          xs \<leftarrow> reverse_loop xs i j;
          Some (xs, j)
        } else do {
          j \<leftarrow> climb (\<lambda>b a. cmp b a \<ge> 0) right xs (i + 1);
          Some (xs, j)
        }
      })"

section \<open>Merging\<close>

function copy_left :: "'a list \<Rightarrow> int \<Rightarrow> int \<Rightarrow> 'a option list \<Rightarrow> ('a option list \<times> int) option" where
  "copy_left xs l i buffer =
     (if i > l then do {
        v \<leftarrow> load_at xs (i - 1);
        buffer \<leftarrow> store_at buffer (i - 1) (Some v);
        copy_left xs l (i - 1) buffer
      } else Some (buffer, i))"
  by pat_completeness auto
termination by (relation "measure (\<lambda>(xs, l, i, buffer). nat (i - l))") auto

function copy_right :: "'a list \<Rightarrow> int \<Rightarrow> int \<Rightarrow> int \<Rightarrow> 'a option list \<Rightarrow> ('a option list \<times> int) option" where
  "copy_right xs r t j buffer =
     (if j < r then do {
        v \<leftarrow> load_at xs (j + 1);
        buffer \<leftarrow> store_at buffer (t - j) (Some v);
        copy_right xs r t (j + 1) buffer
      } else Some (buffer, j))"
  by pat_completeness auto
termination by (relation "measure (\<lambda>(xs, r, t, j, buffer). nat (r - j))") auto

function merge_loop :: "'a comparator \<Rightarrow> 'a option list \<Rightarrow> int \<Rightarrow> 'a list \<Rightarrow> int \<Rightarrow> int \<Rightarrow> int \<Rightarrow> 'a list option" where
  "merge_loop cmp buffer r xs k i j =
     (if k \<le> r then do {
        a \<leftarrow> load_slot buffer j;
        b \<leftarrow> load_slot buffer i;
        if cmp a b < 0 then do {
          xs \<leftarrow> store_at xs k a;
          merge_loop cmp buffer r xs (k + 1) i (j - 1)
        } else do {
          xs \<leftarrow> store_at xs k b;
          merge_loop cmp buffer r xs (k + 1) (i + 1) j
        }
      } else Some xs)"
  by pat_completeness auto
termination by (relation "measure (\<lambda>(cmp, buffer, r, xs, k, i, j). nat (r - k + 1))") auto

definition mergeRuns ::
  "'a comparator \<Rightarrow> 'a list \<Rightarrow> int \<Rightarrow> int \<Rightarrow> int \<Rightarrow> 'a option list \<Rightarrow> ('a list \<times> 'a option list) option" where
  "mergeRuns cmp xs l m r buffer =
     (let m = m - 1; t = r + m in do {
        (buffer, i) \<leftarrow> copy_left xs l (m + 1) buffer;
        (buffer, j) \<leftarrow> copy_right xs r t m buffer;
        xs \<leftarrow> merge_loop cmp buffer r xs l i j;
        Some (xs, buffer)
      })"

section \<open>Power sort\<close>

definition clz32 :: "int \<Rightarrow> nat" where
  "clz32 x = clz 32 x"

definition log2u :: "int \<Rightarrow> nat" where
  "log2u n = 31 - clz32 n"

definition nodePower :: "int \<Rightarrow> int \<Rightarrow> int \<Rightarrow> int \<Rightarrow> int \<Rightarrow> nat" where
  "nodePower left right startA startB endB =
     (let n = u32 (right - left + 1);
          s = u32 (startB - push_bit 1 left);
          l = u32 (startA + s);
          r = u32 (endB + s + 1);
          a = take_bit 64 (push_bit 30 l) div n;
          b = take_bit 64 (push_bit 30 r) div n
      in clz32 (u32 (a XOR b)))"

definition EMPTY_RUN :: int where
  "EMPTY_RUN = 4294967295"

definition MIN_RUN_LENGTH :: int where
  "MIN_RUN_LENGTH = 32"

definition INSERTION_SORT_THRESHOLD :: int where
  "INSERTION_SORT_THRESHOLD = 48"

text \<open>The next run from \<open>start\<close>, extended by insertion sort when it is short.\<close>

definition next_run :: "int \<Rightarrow> 'a comparator \<Rightarrow> 'a list \<Rightarrow> int \<Rightarrow> int \<Rightarrow> ('a list \<times> int) option" where
  "next_run shrink_level cmp xs start hi = do {
     (xs, stop) \<leftarrow> extendRunRight cmp xs start hi;
     let size = stop - start + 1;
     if size < MIN_RUN_LENGTH then do {
       let stop = min hi (start + MIN_RUN_LENGTH - 1);
       xs \<leftarrow> insertionSort shrink_level cmp xs start stop size;
       Some (xs, stop)
     } else Some (xs, stop)
   }"

text \<open>The merges before the boundary of power \<open>k\<close> is stored: the stored runs of the slots above \<open>k\<close>.\<close>

fun collapse ::
  "'a comparator \<Rightarrow> nat \<Rightarrow> int option list \<Rightarrow> int \<Rightarrow> nat \<Rightarrow> 'a list \<Rightarrow> 'a option list \<Rightarrow> int list \<Rightarrow> int
   \<Rightarrow> ('a list \<times> 'a option list \<times> int list \<times> int) option" where
  "collapse cmp k ends endA 0 xs buffer starts startA = Some (xs, buffer, starts, startA)"
| "collapse cmp k ends endA (Suc i) xs buffer starts startA =
     (if Suc i > k then do {
        start \<leftarrow> load_at starts (int (Suc i));
        if start \<noteq> EMPTY_RUN then do {
          stop \<leftarrow> load_slot ends (int (Suc i));
          (xs, buffer) \<leftarrow> mergeRuns cmp xs start (stop + 1) endA buffer;
          starts \<leftarrow> store_at starts (int (Suc i)) EMPTY_RUN;
          collapse cmp k ends endA i xs buffer starts start
        } else collapse cmp k ends endA i xs buffer starts startA
      } else Some (xs, buffer, starts, startA))"

fun final_merges ::
  "'a comparator \<Rightarrow> int list \<Rightarrow> int option list \<Rightarrow> int \<Rightarrow> nat \<Rightarrow> 'a list \<Rightarrow> 'a option list \<Rightarrow> 'a list option" where
  "final_merges cmp starts ends hi 0 xs buffer = Some xs"
| "final_merges cmp starts ends hi (Suc i) xs buffer = do {
     start \<leftarrow> load_at starts (int (Suc i));
     if start \<noteq> EMPTY_RUN then do {
       stop \<leftarrow> load_slot ends (int (Suc i));
       (xs, buffer) \<leftarrow> mergeRuns cmp xs start (stop + 1) hi buffer;
       final_merges cmp starts ends hi i xs buffer
     } else final_merges cmp starts ends hi i xs buffer
   }"

declare shift.simps [simp del] insert_each.simps [simp del] insert_pairs.simps [simp del]
declare climb.simps [simp del] reverse_loop.simps [simp del]
declare copy_left.simps [simp del] copy_right.simps [simp del] merge_loop.simps [simp del]

lemma climb_ge: "climb good right xs j = Some j' \<Longrightarrow> j \<le> j'"
proof (induction good right xs j rule: climb.induct)
  case (1 good right xs j)
  then show ?case
    by (subst (asm) climb.simps) (force split: if_splits simp: bind_eq_Some_conv)
qed

lemma next_run_ge: "next_run shrink_level cmp xs start hi = Some (ys, stop) \<Longrightarrow> start \<le> hi \<Longrightarrow> start \<le> stop"
  by (auto simp: next_run_def extendRunRight_def Let_def MIN_RUN_LENGTH_def bind_eq_Some_conv
      split: if_splits dest!: climb_ge)

text \<open>The main loop ends because every run has an element.\<close>

function power_loop ::
  "int \<Rightarrow> 'a comparator \<Rightarrow> int \<Rightarrow> 'a list \<Rightarrow> 'a option list \<Rightarrow> int list \<Rightarrow> int option list \<Rightarrow> int \<Rightarrow> int \<Rightarrow> nat
   \<Rightarrow> ('a list \<times> 'a option list \<times> int list \<times> int option list \<times> nat) option" where
  "power_loop shrink_level cmp hi xs buffer starts ends startA endA top_slot =
     (if endA < hi then do {
        let startB = endA + 1;
        (xs, endB) \<leftarrow> next_run shrink_level cmp xs startB hi;
        let k = nodePower 0 hi startA startB endB;
        (xs, buffer, starts, startA) \<leftarrow> collapse cmp k ends endA top_slot xs buffer starts startA;
        starts \<leftarrow> store_at starts (int k) startA;
        ends \<leftarrow> store_at ends (int k) (Some endA);
        power_loop shrink_level cmp hi xs buffer starts ends startB endB k
      } else Some (xs, buffer, starts, ends, top_slot))"
  by pat_completeness auto
termination
  by (relation "measure (\<lambda>(shrink_level, cmp, hi, xs, buffer, starts, ends, startA, endA, top_slot). nat (hi - endA))")
    (auto dest!: next_run_ge)

declare power_loop.simps [simp del]

text \<open>The unrolled cases of two and of three elements; the second falls through to the first.\<close>

definition sort_two :: "'a comparator \<Rightarrow> 'a list \<Rightarrow> 'a list option" where
  "sort_two cmp xs = do {
     a \<leftarrow> load_at xs 0;
     b \<leftarrow> load_at xs 1;
     let c = cmp a b > 0;
     xs \<leftarrow> store_at xs 0 (if c then b else a);
     store_at xs 1 (if c then a else b)
   }"

definition sort_three :: "'a comparator \<Rightarrow> 'a list \<Rightarrow> 'a list option" where
  "sort_three cmp xs = do {
     a \<leftarrow> load_at xs 0;
     b \<leftarrow> load_at xs 1;
     let c = cmp a b > 0;
     xs \<leftarrow> store_at xs 0 (if c then b else a);
     let a = (if c then a else b);
     b \<leftarrow> load_at xs 2;
     let c = cmp a b > 0;
     xs \<leftarrow> store_at xs 1 (if c then b else a);
     xs \<leftarrow> store_at xs 2 (if c then a else b);
     sort_two cmp xs
   }"

definition power_sort :: "int \<Rightarrow> 'a comparator \<Rightarrow> 'a list \<Rightarrow> 'a list option" where
  "power_sort shrink_level cmp xs =
     (let len = length xs;
          lgPlus2 = log2u (int len) + 2;
          starts = replicate lgPlus2 EMPTY_RUN;
          ends = replicate lgPlus2 None;
          buffer = replicate len None;
          hi = int len - 1
      in do {
        (xs, endA) \<leftarrow> next_run shrink_level cmp xs 0 hi;
        (xs, buffer, starts, ends, top_slot) \<leftarrow> power_loop shrink_level cmp hi xs buffer starts ends 0 endA 0;
        final_merges cmp starts ends hi top_slot xs buffer
      })"

definition SORT :: "int \<Rightarrow> 'a list \<Rightarrow> 'a comparator \<Rightarrow> 'a list option" where
  "SORT shrink_level xs cmp =
     (let len = int (length xs) in
      if len \<le> INSERTION_SORT_THRESHOLD then
        if len \<le> 1 then Some xs
        else if shrink_level < 1 \<and> len = 3 then sort_three cmp xs
        else if shrink_level < 1 \<and> len = 2 then sort_two cmp xs
        else insertionSort shrink_level cmp xs 0 (len - 1) 0
      else power_sort shrink_level cmp xs)"

end
