(* ===== verification/As_Sort_Laws.thy ===== *)
theory As_Sort_Laws
  imports As_Sort
begin

unbundle bit_operations_syntax

text \<open>
  The laws of the sort: each routine on a block cut into the pieces it touches, the contract of a
  comparator, the arithmetic of the node powers, and the power sort as a whole.
\<close>

section \<open>Comparators\<close>

definition ordered :: "'a comparator \<Rightarrow> 'a list \<Rightarrow> bool" where
  "ordered cmp xs \<longleftrightarrow> sorted_wrt (\<lambda>a b. cmp a b \<le> 0) xs"

text \<open>What a routine makes of a segment: a permutation of it, in order when the comparator is a comparison.\<close>

locale comparing =
  fixes cmp :: "'a comparator"
  assumes cmp_swap: "cmp a b > 0 \<longleftrightarrow> cmp b a < 0"
    and cmp_trans: "cmp a b \<le> 0 \<Longrightarrow> cmp b c \<le> 0 \<Longrightarrow> cmp a c \<le> 0"
begin

lemma le_total: "\<not> cmp a b \<le> 0 \<Longrightarrow> cmp b a \<le> 0"
  using cmp_swap[of a b] by simp

lemma le_refl: "cmp a a \<le> 0"
  using cmp_swap[of a a] by linarith

lemma lt_le: "cmp a b < 0 \<Longrightarrow> cmp a b \<le> 0"
  by simp

lemma ge_le: "cmp a b \<ge> 0 \<longleftrightarrow> cmp b a \<le> 0"
  using cmp_swap[of b a] by auto

lemma transp_le: "transp (\<lambda>a b. cmp a b \<le> 0)"
  by (auto intro: transpI cmp_trans)

lemma ordered_append: "ordered cmp (xs @ ys) \<longleftrightarrow>
    ordered cmp xs \<and> ordered cmp ys \<and> (\<forall>x\<in>set xs. \<forall>y\<in>set ys. cmp x y \<le> 0)"
  by (auto simp: ordered_def sorted_wrt_append)

lemma ordered_Cons: "ordered cmp (x # xs) \<longleftrightarrow> (\<forall>y\<in>set xs. cmp x y \<le> 0) \<and> ordered cmp xs"
  by (auto simp: ordered_def)

lemma ordered_last: "ordered cmp xs \<Longrightarrow> xs \<noteq> [] \<Longrightarrow> cmp (last xs) a \<le> 0 \<Longrightarrow> \<forall>x\<in>set xs. cmp x a \<le> 0"
  by (cases xs rule: rev_cases) (auto simp: ordered_append intro: cmp_trans)

end

definition sorts :: "'a comparator \<Rightarrow> bool \<Rightarrow> 'a list \<Rightarrow> 'a list \<Rightarrow> bool" where
  "sorts cmp given xs ys \<longleftrightarrow> mset ys = mset xs \<and> (comparing cmp \<and> given \<longrightarrow> ordered cmp ys)"

lemma sortsI: "mset ys = mset xs \<Longrightarrow> (comparing cmp \<Longrightarrow> given \<Longrightarrow> ordered cmp ys) \<Longrightarrow> sorts cmp given xs ys"
  by (simp add: sorts_def)

lemma sorts_length: "sorts cmp given xs ys \<Longrightarrow> length ys = length xs"
  unfolding sorts_def by (metis size_mset)

lemma ordered_small [simp]: "ordered cmp []" "ordered cmp [x]"
  by (simp_all add: ordered_def)

section \<open>Insertion sort\<close>

text \<open>An inner loop splits the segment before \<open>left + length S\<close> at the last element that stays.\<close>

lemma shift_splits:
  "length gap = off \<Longrightarrow> off > 0 \<Longrightarrow> left = int (length pre) \<Longrightarrow> j = left + int (length S) - 1 \<Longrightarrow>
   \<exists>S1 S2 gap'. S = S1 @ S2 \<and> length gap' = off \<and> (\<forall>x\<in>set S2. moves x) \<and> (S1 \<noteq> [] \<longrightarrow> \<not> moves (last S1))
     \<and> shift moves (int off) left (pre @ S @ gap @ post) j
       = Some (pre @ S1 @ gap' @ S2 @ post, left + int (length S1) - 1)"
proof (induction S arbitrary: gap post j rule: rev_induct)
  case Nil
  then show ?case by (subst shift.simps) (auto intro!: exI[of _ gap])
next
  case (snoc x S)
  have load: "load_at (pre @ (S @ [x]) @ gap @ post) j = Some x"
    using snoc.prems load_mid[of j "pre @ S" x "gap @ post"] by simp
  show ?case
  proof (cases "moves x")
    case False
    with load snoc.prems show ?thesis
      by (rule_tac exI[of _ "S @ [x]"], rule_tac exI[of _ "[]"], rule_tac exI[of _ gap], subst shift.simps) simp
  next
    case True
    obtain g y where g: "x # gap = (g @ [y])" "length g = off"
      by (metis append_butlast_last_id length_Cons length_append_singleton list.distinct(1) nat.inject snoc.prems(1))
    have "store_at ((pre @ S @ g) @ y # post) (j + int off) x = Some ((pre @ S @ g) @ x # post)"
      using snoc.prems g by (intro store_mid) auto
    moreover have same: "pre @ (S @ [x]) @ gap @ post = (pre @ S @ g) @ y # post"
      using g(1) by (metis append.assoc append_Cons append_Nil)
    ultimately have store:
      "store_at (pre @ (S @ [x]) @ gap @ post) (j + int off) x = Some (pre @ S @ g @ x # post)"
      unfolding same by simp
    obtain S1 S2 gap' where IH: "S = S1 @ S2" "length gap' = off" "\<forall>x\<in>set S2. moves x"
        "S1 \<noteq> [] \<longrightarrow> \<not> moves (last S1)"
        "shift moves (int off) left (pre @ S @ g @ x # post) (j - 1)
         = Some (pre @ S1 @ gap' @ S2 @ x # post, left + int (length S1) - 1)"
      using snoc.IH[of g "j - 1" "x # post"] g(2) snoc.prems by fastforce
    have "shift moves (int off) left (pre @ (S @ [x]) @ gap @ post) j
        = Some (pre @ S1 @ gap' @ (S2 @ [x]) @ post, left + int (length S1) - 1)"
      using load store True IH(5) snoc.prems by (subst shift.simps) simp
    then show ?thesis using IH True
      by (intro exI[of _ S1] exI[of _ "S2 @ [x]"] exI[of _ gap']) auto
  qed
qed

context comparing
begin

lemma ordered_insert:
  assumes "ordered cmp (S1 @ S2)" "S1 \<noteq> [] \<longrightarrow> cmp (last S1) a \<le> 0" "\<forall>x\<in>set S2. cmp a x \<le> 0"
  shows "ordered cmp (S1 @ a # S2)"
proof -
  have S: "ordered cmp S1" "ordered cmp S2" "\<forall>x\<in>set S1. \<forall>y\<in>set S2. cmp x y \<le> 0"
    using assms(1) by (simp_all add: ordered_append)
  have "\<forall>x\<in>set S1. cmp x a \<le> 0"
  proof (cases "S1 = []")
    case False
    then show ?thesis using ordered_last[OF S(1)] assms(2) by blast
  qed simp
  with S assms(3) show ?thesis by (simp add: ordered_append ordered_Cons)
qed

end

lemma insert_each_sorts:
  "left = int (length pre) \<Longrightarrow> i = left + int (length S) \<Longrightarrow> right = i + int (length U) - 1 \<Longrightarrow>
   \<exists>T. insert_each cmp left right (pre @ S @ U @ post) i = Some (pre @ T @ post)
     \<and> sorts cmp (ordered cmp S) (S @ U) T"
proof (induction U arbitrary: S i)
  case Nil
  then show ?case by (subst insert_each.simps) (auto simp: sorts_def)
next
  case (Cons a U)
  obtain S1 S2 gap where split: "S = S1 @ S2" "length gap = 1" "\<forall>x\<in>set S2. cmp a x < 0"
      "S1 \<noteq> [] \<longrightarrow> \<not> cmp a (last S1) < 0"
      "shift (\<lambda>b. cmp a b < 0) 1 left (pre @ S @ [a] @ U @ post) (i - 1)
       = Some (pre @ S1 @ gap @ S2 @ U @ post, left + int (length S1) - 1)"
    using shift_splits[of "[a]" 1 left pre "i - 1" S "\<lambda>b. cmp a b < 0" "U @ post"] Cons.prems by force
  obtain g where g: "gap = [g]" using split(2) by (cases gap) auto
  have load: "load_at (pre @ S @ a # U @ post) i = Some a"
    using load_mid[of i "pre @ S" a "U @ post"] Cons.prems by simp
  have store: "store_at (pre @ S1 @ g # S2 @ U @ post) (left + int (length S1)) a
      = Some (pre @ S1 @ a # S2 @ U @ post)"
    using store_mid[of "left + int (length S1)" "pre @ S1" g "S2 @ U @ post" a] Cons.prems by simp
  obtain T where T: "insert_each cmp left right (pre @ (S1 @ a # S2) @ U @ post) (i + 1) = Some (pre @ T @ post)"
      "sorts cmp (ordered cmp (S1 @ a # S2)) ((S1 @ a # S2) @ U) T"
    using Cons.IH[of "i + 1" "S1 @ a # S2"] Cons.prems split(1) by auto
  have "insert_each cmp left right (pre @ S @ (a # U) @ post) i = Some (pre @ T @ post)"
    using Cons.prems load store split(5) g T(1) by (subst insert_each.simps) simp
  moreover have "sorts cmp (ordered cmp S) (S @ a # U) T"
  proof (rule sortsI)
    show "mset T = mset (S @ a # U)" using T(2) split(1) by (simp add: sorts_def)
  next
    assume "comparing cmp" "ordered cmp S"
    moreover from this have "ordered cmp (S1 @ a # S2)"
      using split(1,3,4) by (intro comparing.ordered_insert) (auto simp: comparing.ge_le not_less)
    ultimately show "ordered cmp T" using T(2) by (simp add: sorts_def)
  qed
  ultimately show ?case by blast
qed


text \<open>The two-way form inserts the larger of a pair first and goes on with the smaller from there.\<close>

lemma insert_pairs_sorts:
  "left = int (length pre) \<Longrightarrow> i = left + int (length S) \<Longrightarrow> right = i + int (length U) - 1 \<Longrightarrow> even (length U) \<Longrightarrow>
   \<exists>T. insert_pairs cmp left right (pre @ S @ U @ post) i = Some (pre @ T @ post)
     \<and> sorts cmp (ordered cmp S) (S @ U) T"
proof (induction "length U" arbitrary: U S i rule: less_induct)
  case less
  show ?case
  proof (cases U rule: remdups_adj.cases)
    case 1
    with less.prems show ?thesis by (subst insert_pairs.simps) (auto simp: sorts_def)
  next
    case 2
    with less.prems show ?thesis by simp
  next
    case (3 a b V)
    define lo hi where "lo = (if cmp a b \<le> 0 then a else b)" and "hi = (if cmp a b \<le> 0 then b else a)"
    have pair: "(if cmp a b \<le> 0 then (a, b) else (b, a)) = (lo, hi)"
      by (simp add: lo_def hi_def)
    obtain S1 S2 gap where big: "S = S1 @ S2" "length gap = 2" "\<forall>x\<in>set S2. cmp x hi > 0"
        "S1 \<noteq> [] \<longrightarrow> \<not> cmp (last S1) hi > 0"
        "shift (\<lambda>c. cmp c hi > 0) 2 left (pre @ S @ [a, b] @ V @ post) (i - 1)
         = Some (pre @ S1 @ gap @ S2 @ V @ post, left + int (length S1) - 1)"
      using shift_splits[of "[a, b]" 2 left pre "i - 1" S "\<lambda>c. cmp c hi > 0" "V @ post"] less.prems by force
    obtain g h where gap: "gap = [g, h]" using big(2) by (cases gap rule: remdups_adj.cases) auto
    obtain S3 S4 gap' where small: "S1 = S3 @ S4" "length gap' = 1" "\<forall>x\<in>set S4. cmp x lo > 0"
        "S3 \<noteq> [] \<longrightarrow> \<not> cmp (last S3) lo > 0"
        "shift (\<lambda>c. cmp c lo > 0) 1 left (pre @ S1 @ [g] @ (hi # S2 @ V @ post)) (left + int (length S1) - 1)
         = Some (pre @ S3 @ gap' @ S4 @ hi # S2 @ V @ post, left + int (length S3) - 1)"
      using shift_splits[of "[g]" 1 left pre "left + int (length S1) - 1" S1 "\<lambda>c. cmp c lo > 0"
          "hi # S2 @ V @ post"] less.prems by force
    obtain g' where gap': "gap' = [g']" using small(2) by (cases gap') auto
    have loads: "load_at (pre @ S @ a # b # V @ post) i = Some a"
        "load_at (pre @ S @ a # b # V @ post) (i + 1) = Some b"
      using load_mid[of i "pre @ S" a "b # V @ post"] load_next[of "i + 1" "pre @ S" a b "V @ post"] less.prems
      by simp_all
    have store_hi: "store_at (pre @ S1 @ g # h # S2 @ V @ post) (left + int (length S1) + 1) hi
        = Some (pre @ S1 @ g # hi # S2 @ V @ post)"
      using store_mid[of "left + int (length S1) + 1" "pre @ S1 @ [g]" h "S2 @ V @ post" hi] less.prems by simp
    have store_lo: "store_at (pre @ S3 @ g' # S4 @ hi # S2 @ V @ post) (left + int (length S3)) lo
        = Some (pre @ S3 @ lo # S4 @ hi # S2 @ V @ post)"
      using store_mid[of "left + int (length S3)" "pre @ S3" g' "S4 @ hi # S2 @ V @ post" lo] less.prems by simp
    let ?S = "S3 @ lo # S4 @ hi # S2"
    obtain T where T: "insert_pairs cmp left right (pre @ ?S @ V @ post) (i + 2) = Some (pre @ T @ post)"
        "sorts cmp (ordered cmp ?S) (?S @ V) T"
      using less.hyps[of V "i + 2" ?S] less.prems 3 big(1) small(1) by auto
    have "insert_pairs cmp left right (pre @ S @ U @ post) i = Some (pre @ T @ post)"
      using less.prems loads store_hi store_lo big(5) small(5) gap gap' T(1) 3
      by (subst insert_pairs.simps) (simp add: pair ac_simps)
    moreover have "sorts cmp (ordered cmp S) (S @ U) T"
    proof (rule sortsI)
      have "mset [lo, hi] = mset [a, b]" by (simp add: lo_def hi_def)
      then show "mset T = mset (S @ U)" using T(2) 3 big(1) small(1) by (simp add: sorts_def)
    next
      assume c: "comparing cmp" and S: "ordered cmp S"
      have "cmp lo hi \<le> 0" using comparing.le_total[OF c, of a b] by (auto simp: lo_def hi_def)
      moreover have "ordered cmp (S1 @ hi # S2)"
        using big S c by (intro comparing.ordered_insert) (auto simp: comparing.cmp_swap comparing.ge_le not_less)
      ultimately have tail: "\<forall>x\<in>set (S4 @ hi # S2). cmp lo x \<le> 0" "ordered cmp (S3 @ S4 @ hi # S2)"
        using small(1,3) c comparing.cmp_trans[OF c, of lo hi]
        by (auto simp: comparing.ordered_append comparing.ordered_Cons comparing.cmp_swap)
      moreover have "S3 \<noteq> [] \<longrightarrow> cmp (last S3) lo \<le> 0"
        using small(4) by (simp add: not_less)
      ultimately have "ordered cmp ?S"
        using comparing.ordered_insert[OF c, of S3 "S4 @ hi # S2" lo] by blast
      with c T(2) show "ordered cmp T" by (simp add: sorts_def)
    qed
    ultimately show ?thesis by blast
  qed
qed

text \<open>The whole routine on a segment \<open>R\<close> whose first \<open>p\<close> elements are in order.\<close>

lemma insertionSort_sorts:
  assumes "left = int (length pre)" "right = left + int (length R) - 1" "p \<le> length R"
  shows "\<exists>T. insertionSort level cmp (pre @ R @ post) left right (int p) = Some (pre @ T @ post)
    \<and> sorts cmp (ordered cmp (take p R)) R T"
proof (cases "level \<ge> 1")
  case True
  then show ?thesis
    using insert_each_sorts[of left pre "left + int p" "take p R" right "drop p R" cmp post] assms
    by (auto simp: insertionSort_def take_drop_append)
next
  case False
  define range where "range = length R"
  define d where "d = range - p"
  define q where "q = (if p = 0 then range mod 2 else p - d mod 2)"
  have d: "int range - int p = int d" "p = 0 \<or> d mod 2 \<le> p" "range = p + d"
    using assms(3) by (simp_all add: d_def range_def) linarith
  have bit0: "int n AND 1 = int (n mod 2)" for n :: nat
    by (simp add: and_one_eq of_nat_mod)
  have start: "left + (if int p = 0 then int range AND 1 else int p - ((int range - int p) AND 1)) = left + int q"
    using d(2) unfolding d(1) bit0 by (auto simp: q_def of_nat_diff)
  have q: "q \<le> range" "even (length (drop q R))" "q \<le> p \<or> q = 1"
    using d(2,3) by (auto simp: q_def range_def[symmetric] even_diff_nat)
  have prefix: "ordered cmp (take q R)" if given: "ordered cmp (take p R)"
  proof (cases "q \<le> p")
    case True
    then have "take q R = take q (take p R)" by (simp add: min_def)
    with given show ?thesis unfolding ordered_def by (metis sorted_wrt_take)
  next
    case False
    then have "length (take q R) \<le> 1" using q(3) by simp
    then show ?thesis by (cases "take q R") (auto simp del: take_eq_Nil)
  qed
  have "\<exists>T. insert_pairs cmp left right (pre @ take q R @ drop q R @ post) (left + int q) = Some (pre @ T @ post)
      \<and> sorts cmp (ordered cmp (take q R)) (take q R @ drop q R) T"
    using q(1,2) assms(2) by (intro insert_pairs_sorts[OF assms(1)]) (simp_all add: range_def)
  then obtain T where T: "insert_pairs cmp left right (pre @ R @ post) (left + int q) = Some (pre @ T @ post)"
      "sorts cmp (ordered cmp (take q R)) R T"
    unfolding take_drop_append append_take_drop_id by blast
  have "right - left + 1 = int range" using assms(2) by (simp add: range_def)
  then have "insertionSort level cmp (pre @ R @ post) left right (int p) = Some (pre @ T @ post)"
    using T(1) False start by (simp add: insertionSort_def)
  moreover have "sorts cmp (ordered cmp (take p R)) R T"
    using T(2) prefix by (simp add: sorts_def)
  ultimately show ?thesis by blast
qed

section \<open>Runs\<close>

text \<open>A climb stops at the first neighbour that breaks the run.\<close>

lemma climb_runs:
  "j = int (length pre) \<Longrightarrow> right = j + int (length U) \<Longrightarrow>
   \<exists>U1 U2. U = U1 @ U2 \<and> climb good right (pre @ x # U @ post) j = Some (j + int (length U1))
     \<and> successively (\<lambda>a b. good b a) (x # U1)"
proof (induction U arbitrary: pre x j)
  case Nil
  then show ?case by (subst climb.simps) simp
next
  case (Cons y U)
  have loads: "load_at (pre @ x # (y # U) @ post) (j + 1) = Some y" "load_at (pre @ x # (y # U) @ post) j = Some x"
    using Cons.prems by (simp_all add: block_simps)
  show ?case
  proof (cases "good y x")
    case True
    have "j + 1 = int (length (pre @ [x]))" "right = j + 1 + int (length U)"
      using Cons.prems by simp_all
    from Cons.IH[OF this, of y] obtain U1 U2 where IH: "U = U1 @ U2"
        "climb good right (pre @ x # y # U @ post) (j + 1) = Some (j + 1 + int (length U1))"
        "successively (\<lambda>a b. good b a) (y # U1)"
      by auto
    have "climb good right (pre @ x # (y # U) @ post) j = Some (j + int (length (y # U1)))"
      using loads True IH(2) Cons.prems by (subst climb.simps) simp
    with IH True show ?thesis
      by (intro exI[of _ "y # U1"] exI[of _ U2]) auto
  next
    case False
    with loads Cons.prems show ?thesis
      by (intro exI[of _ "[]"] exI[of _ "y # U"]) (subst climb.simps, simp)
  qed
qed

lemma reverse_loop_reverses:
  "i = int (length pre) \<Longrightarrow> k = i + int (length R) - 1 \<Longrightarrow> reverse_loop (pre @ R @ post) i k = Some (pre @ rev R @ post)"
proof (induction "length R" arbitrary: R pre post i k rule: less_induct)
  case less
  show ?case
  proof (cases "length R \<le> 1")
    case True
    then have "rev R = R" by (cases R) auto
    with True less.prems show ?thesis by (subst reverse_loop.simps) simp
  next
    case False
    then obtain x M y where R: "R = x # M @ [y]"
      by (cases R; cases "tl R" rule: rev_cases) auto
    let ?k = "int (length (pre @ y # M))"
    have "load_at ((pre @ x # M) @ y # post) k = Some y"
      using less.prems R by (intro load_mid) simp
    moreover have "store_at ((pre @ y # M) @ y # post) k x = Some ((pre @ y # M) @ x # post)"
      using less.prems R by (intro store_mid) simp
    moreover have "reverse_loop ((pre @ [y]) @ M @ x # post) (i + 1) (k - 1) = Some ((pre @ [y]) @ rev M @ x # post)"
      using less.prems R by (intro less.hyps) simp_all
    ultimately show ?thesis
      using less.prems R by (subst reverse_loop.simps) (simp add: block_simps)
  qed
qed

context comparing
begin

lemma rising_ordered: "successively (\<lambda>a b. cmp b a \<ge> 0) xs \<Longrightarrow> ordered cmp xs"
  unfolding ge_le ordered_def using successively_iff_sorted_wrt_strong[of xs] transp_le
  by (metis successively_conv_sorted_wrt)

lemma falling_ordered: "successively (\<lambda>a b. cmp b a \<le> 0) xs \<Longrightarrow> ordered cmp (rev xs)"
proof -
  assume "successively (\<lambda>a b. cmp b a \<le> 0) xs"
  then have "successively (\<lambda>a b. cmp a b \<le> 0) (rev xs)"
    by (simp add: successively_rev)
  then show ?thesis
    unfolding ordered_def using transp_le by (metis successively_conv_sorted_wrt)
qed


end

lemma successively_mono_le: "(\<And>a b. P a b \<Longrightarrow> Q a b) \<Longrightarrow> successively P xs \<Longrightarrow> successively Q xs"
  by (erule successively_mono) auto

lemma extendRunRight_sorts:
  assumes "i = int (length pre)" "right = i + int (length R) - 1" "R \<noteq> []"
  shows "\<exists>R1 R2 T. R = R1 @ R2 \<and> R1 \<noteq> [] \<and> sorts cmp True R1 T
    \<and> extendRunRight cmp (pre @ R @ post) i right = Some (pre @ T @ R2 @ post, i + int (length R1) - 1)"
proof (cases R rule: remdups_adj.cases)
  case 1
  with assms show ?thesis by simp
next
  case (2 x)
  with assms show ?thesis
    by (intro exI[of _ "[x]"] exI[of _ "[]"]) (simp add: extendRunRight_def sorts_def)
next
  case (3 x y U)
  let ?xs = "pre @ x # y # U @ post"
  have loads: "load_at ?xs i = Some x" "load_at ?xs (i + 1) = Some y"
    using assms by (simp_all add: block_simps)
  have seam: "i + 1 = int (length (pre @ [x]))" "right = i + 1 + int (length U)"
    using assms 3 by simp_all
  show ?thesis
  proof (cases "cmp x y > 0")
    case True
    obtain U1 U2 where U: "U = U1 @ U2"
        "climb (\<lambda>b a. cmp b a < 0) right ?xs (i + 1) = Some (i + 1 + int (length U1))"
        "successively (\<lambda>a b. cmp b a < 0) (y # U1)"
      using climb_runs[OF seam, of "\<lambda>b a. cmp b a < 0" y post] by auto
    have rev: "reverse_loop ?xs i (i + 1 + int (length U1)) = Some (pre @ rev (x # y # U1) @ U2 @ post)"
      using reverse_loop_reverses[OF assms(1), of _ "x # y # U1" "U2 @ post"] U(1) by (simp add: ac_simps)
    have "sorts cmp True (x # y # U1) (rev (x # y # U1))"
    proof (rule sortsI)
      assume c: "comparing cmp"
      have "cmp y x < 0" using True comparing.cmp_swap[OF c] by blast
      with U(3) have "successively (\<lambda>a b. cmp b a < 0) (x # y # U1)" by simp
      then have "successively (\<lambda>a b. cmp b a \<le> 0) (x # y # U1)"
        by (rule successively_mono_le[rotated]) simp
      then show "ordered cmp (rev (x # y # U1))"
        by (rule comparing.falling_ordered[OF c])
    qed simp
    with U rev loads True assms 3 show ?thesis
      by (intro exI[of _ "x # y # U1"] exI[of _ U2] exI[of _ "rev (x # y # U1)"]) (simp add: extendRunRight_def)
  next
    case False
    obtain U1 U2 where U: "U = U1 @ U2"
        "climb (\<lambda>b a. cmp b a \<ge> 0) right ?xs (i + 1) = Some (i + 1 + int (length U1))"
        "successively (\<lambda>a b. cmp b a \<ge> 0) (y # U1)"
      using climb_runs[OF seam, of "\<lambda>b a. cmp b a \<ge> 0" y post] by auto
    have "sorts cmp True (x # y # U1) (x # y # U1)"
    proof (rule sortsI)
      assume c: "comparing cmp"
      have "cmp y x \<ge> 0" using False comparing.ge_le[OF c, of y x] by simp
      with U(3) show "ordered cmp (x # y # U1)"
        by (intro comparing.rising_ordered[OF c]) simp
    qed simp
    with U loads False assms 3 show ?thesis
      by (intro exI[of _ "x # y # U1"] exI[of _ U2] exI[of _ "x # y # U1"]) (simp add: extendRunRight_def)
  qed
qed

text \<open>A run that was too short takes elements of the rest in.\<close>

lemma next_run_sorts:
  assumes "start = int (length pre)" "hi = start + int (length R) - 1" "R \<noteq> []"
  shows "\<exists>R1 R2 T. R = R1 @ R2 \<and> R1 \<noteq> [] \<and> sorts cmp True R1 T
    \<and> next_run level cmp (pre @ R) start hi = Some (pre @ T @ R2, start + int (length R1) - 1)"
proof -
  obtain R1 R2 T where run: "R = R1 @ R2" "R1 \<noteq> []" "sorts cmp True R1 T"
      "extendRunRight cmp (pre @ R) start hi = Some (pre @ T @ R2, start + int (length R1) - 1)"
    using extendRunRight_sorts[OF assms, of cmp "[]"] by auto
  show ?thesis
  proof (cases "length R1 < 32")
    case False
    with run show ?thesis
      by (intro exI[of _ R1] exI[of _ R2] exI[of _ T]) (simp add: next_run_def MIN_RUN_LENGTH_def)
  next
    case True
    define n where "n = min (length R2) (32 - length R1)"
    let ?S = "T @ take n R2"
    have len: "length T = length R1" using run(3) by (rule sorts_length)
    have stop: "min hi (start + 32 - 1) = start + int (length ?S) - 1"
      using True assms(2) run(1) len by (auto simp: n_def min_def)
    obtain S where S: "insertionSort level cmp (pre @ ?S @ drop n R2) start (start + int (length ?S) - 1) (int (length R1))
          = Some (pre @ S @ drop n R2)"
        "sorts cmp (ordered cmp (take (length R1) ?S)) ?S S"
      using insertionSort_sorts[OF assms(1) refl, of "length R1" ?S level cmp "drop n R2"] len by auto
    have "sorts cmp True (R1 @ take n R2) S"
      using S(2) run(3) len by (simp add: sorts_def)
    moreover have "next_run level cmp (pre @ R) start hi
        = Some (pre @ S @ drop n R2, start + int (length (R1 @ take n R2)) - 1)"
      using run(4) S(1) True len stop
      by (simp add: next_run_def MIN_RUN_LENGTH_def take_drop_append[of n R2 "[]", simplified])
    ultimately show ?thesis
      using run by (intro exI[of _ "R1 @ take n R2"] exI[of _ "drop n R2"] exI[of _ S]) simp
  qed
qed

section \<open>Merging\<close>

text \<open>What the merge computes from the buffer, a rising run followed by a falling one.\<close>

function merge_ends :: "'a comparator \<Rightarrow> 'a list \<Rightarrow> 'a list" where
  "merge_ends cmp D =
     (if D = [] then []
      else if cmp (last D) (hd D) < 0 then last D # merge_ends cmp (butlast D)
      else hd D # merge_ends cmp (tl D))"
  by pat_completeness auto
termination by (relation "measure (\<lambda>(cmp, D). length D)") auto

declare merge_ends.simps [simp del]

lemma mset_merge_ends [simp]: "mset (merge_ends cmp D) = mset D"
proof (induction cmp D rule: merge_ends.induct)
  case (1 cmp D)
  show ?case
  proof (cases "D = []")
    case False
    have "mset D = add_mset (last D) (mset (butlast D))" "mset D = add_mset (hd D) (mset (tl D))"
      using False by (metis append_butlast_last_id mset.simps(2) mset_append union_mset_add_mset_right add.right_neutral mset.simps(1))
        (metis False list.collapse mset.simps(2))
    with 1 False show ?thesis by (subst merge_ends.simps) simp
  qed (subst merge_ends.simps, simp)
qed

lemma set_merge_ends [simp]: "set (merge_ends cmp D) = set D"
  by (metis mset_merge_ends set_mset_mset)

definition up_down :: "'a comparator \<Rightarrow> 'a list \<Rightarrow> bool" where
  "up_down cmp D \<longleftrightarrow> (\<exists>A B. D = A @ rev B \<and> ordered cmp A \<and> ordered cmp B)"


lemma up_down_tl: "up_down cmp D \<Longrightarrow> up_down cmp (tl D)"
  unfolding up_down_def
proof (elim exE conjE)
  fix A B assume D: "D = A @ rev B" "ordered cmp A" "ordered cmp B"
  show "\<exists>A B. tl D = A @ rev B \<and> ordered cmp A \<and> ordered cmp B"
  proof (cases A)
    case Nil
    with D show ?thesis
      by (intro exI[of _ "[]"] exI[of _ "butlast B"])
        (cases B rule: rev_cases; auto simp: ordered_def sorted_wrt_append)
  next
    case (Cons a A')
    with D show ?thesis by (intro exI[of _ A'] exI[of _ B]) (auto simp: ordered_def)
  qed
qed

lemma up_down_rev: "up_down cmp (rev D) \<longleftrightarrow> up_down cmp D"
  unfolding up_down_def by (metis rev_append rev_rev_ident)

lemma up_down_butlast: "up_down cmp D \<Longrightarrow> up_down cmp (butlast D)"
  using up_down_rev[of cmp "butlast D"] up_down_rev[of cmp D] up_down_tl[of cmp "rev D"]
  by (cases D rule: rev_cases) simp_all

context comparing
begin

lemma ends_least:
  assumes "up_down cmp D" "x \<in> set D"
  shows "cmp (hd D) x \<le> 0 \<or> cmp (last D) x \<le> 0"
proof -
  obtain A B where D: "D = A @ rev B" "ordered cmp A" "ordered cmp B"
    using assms(1) by (auto simp: up_down_def)
  consider "x \<in> set A" | "x \<in> set B" using assms(2) D(1) by auto
  then show ?thesis
  proof cases
    case 1
    then show ?thesis using D by (cases A) (auto simp: ordered_Cons le_refl)
  next
    case 2
    then show ?thesis using D by (cases B) (auto simp: ordered_Cons le_refl)
  qed
qed

lemma merge_ends_ordered: "up_down cmp D \<Longrightarrow> ordered cmp (merge_ends cmp D)"
proof (induction "length D" arbitrary: D rule: less_induct)
  case less
  show ?case
  proof (cases "D = []")
    case True
    then show ?thesis by (subst merge_ends.simps) simp
  next
    case False
    let ?m = "if cmp (last D) (hd D) < 0 then last D else hd D"
    have "cmp ?m (hd D) \<le> 0" "cmp ?m (last D) \<le> 0"
      using le_refl ge_le by (auto simp: not_less)
    then have least: "cmp ?m x \<le> 0" if "x \<in> set D" for x
      using ends_least[OF less.prems that] cmp_trans by blast
    have "ordered cmp (merge_ends cmp (butlast D))" "ordered cmp (merge_ends cmp (tl D))"
      using less False by (auto intro!: less.hyps up_down_butlast up_down_tl)
    moreover have "set (merge_ends cmp (butlast D)) \<subseteq> set D" "set (merge_ends cmp (tl D)) \<subseteq> set D"
      using False by (auto dest: in_set_butlastD list.set_sel(2))
    ultimately show ?thesis
      using least False by (subst merge_ends.simps) (auto simp: ordered_Cons)
  qed
qed

end

lemma merge_loop_merges:
  "i = int (length bp) \<Longrightarrow> j = i + int (length D) - 1 \<Longrightarrow> k = int (length pre) \<Longrightarrow> r = k + int (length D) - 1 \<Longrightarrow>
   length G = length D \<Longrightarrow>
   merge_loop cmp (bp @ map Some D @ bq) r (pre @ G @ post) k i j = Some (pre @ merge_ends cmp D @ post)"
proof (induction "length D" arbitrary: D bp bq pre G k i j rule: less_induct)
  case less
  show ?case
  proof (cases "D = []")
    case True
    then show ?thesis
      using less.prems by (subst merge_loop.simps, subst merge_ends.simps) simp
  next
    case False
    let ?buffer = "bp @ map Some D @ bq"
    obtain g G' where G: "G = g # G'" "length G' = length D - 1"
      using less.prems False by (cases G) auto
    have D1: "map Some D = map Some (butlast D) @ [Some (last D)]"
      using False by (metis append_butlast_last_id list.simps(8,9) map_append)
    have D2: "map Some D = Some (hd D) # map Some (tl D)"
      using False by (cases D) auto
    have "load_slot ((bp @ map Some (butlast D)) @ Some (last D) # bq) j = Some (last D)"
      using less.prems False by (intro load_slot_mid) (cases D rule: rev_cases; simp)
    then have a: "load_slot ?buffer j = Some (last D)" using D1 by simp
    have b: "load_slot ?buffer i = Some (hd D)"
      using D2 less.prems by (simp add: block_simps)
    have store: "store_at (pre @ G @ post) k v = Some ((pre @ [v]) @ G' @ post)" for v
      using less.prems G by (simp add: block_simps)
    have "merge_loop cmp (bp @ map Some (butlast D) @ Some (last D) # bq) r ((pre @ [last D]) @ G' @ post) (k + 1) i (j - 1)
        = Some ((pre @ [last D]) @ merge_ends cmp (butlast D) @ post)"
      using less.prems False G by (intro less.hyps) (auto simp: of_nat_diff Suc_le_eq)
    then have IH1: "merge_loop cmp ?buffer r (pre @ last D # G' @ post) (k + 1) i (j - 1)
        = Some (pre @ last D # merge_ends cmp (butlast D) @ post)"
      unfolding D1 by simp
    have "merge_loop cmp ((bp @ [Some (hd D)]) @ map Some (tl D) @ bq) r ((pre @ [hd D]) @ G' @ post) (k + 1) (i + 1) j
        = Some ((pre @ [hd D]) @ merge_ends cmp (tl D) @ post)"
      using less.prems False G by (intro less.hyps) (auto simp: of_nat_diff Suc_le_eq)
    then have IH2: "merge_loop cmp ?buffer r (pre @ hd D # G' @ post) (k + 1) (i + 1) j
        = Some (pre @ hd D # merge_ends cmp (tl D) @ post)"
      unfolding D2 by simp
    have "k \<le> r" using less.prems False by (cases D) auto
    then show ?thesis
      using False a b store IH1 IH2
      by (subst merge_loop.simps, subst merge_ends.simps) simp
  qed
qed

lemma copy_left_copies:
  "l = int (length pre) \<Longrightarrow> i = l + int (length A) \<Longrightarrow> length bp = length pre \<Longrightarrow> length C = length A \<Longrightarrow>
   copy_left (pre @ A @ rest) l i (bp @ C @ bq) = Some (bp @ map Some A @ bq, l)"
proof (induction A arbitrary: i C rest bq rule: rev_induct)
  case Nil
  then show ?case by (subst copy_left.simps) simp
next
  case (snoc a A)
  obtain C' c where C: "C = C' @ [c]" "length C' = length A"
    using snoc.prems by (cases C rule: rev_cases) auto
  have "load_at ((pre @ A) @ a # rest) (i - 1) = Some a"
    using snoc.prems by (intro load_mid) simp
  moreover have "store_at ((bp @ C') @ c # bq) (i - 1) (Some a) = Some ((bp @ C') @ Some a # bq)"
    using snoc.prems C by (intro store_mid) simp
  moreover have "copy_left (pre @ A @ a # rest) l (i - 1) (bp @ C' @ Some a # bq) = Some (bp @ map Some A @ Some a # bq, l)"
    using snoc.prems C by (intro snoc.IH) simp_all
  ultimately show ?case
    using snoc.prems C by (subst copy_left.simps) simp
qed

lemma copy_right_copies:
  "j + 1 = int (length pre) \<Longrightarrow> r = j + int (length B) \<Longrightarrow> t - j = int (length bp) + int (length B) - 1 \<Longrightarrow>
   length C = length B \<Longrightarrow>
   copy_right (pre @ B @ post) r t j (bp @ C @ bq) = Some (bp @ map Some (rev B) @ bq, r)"
proof (induction B arbitrary: j C pre bq)
  case Nil
  then show ?case by (subst copy_right.simps) simp
next
  case (Cons b B)
  obtain C' c where C: "C = C' @ [c]" "length C' = length B"
    using Cons.prems by (cases C rule: rev_cases) auto
  have "store_at ((bp @ C') @ c # bq) (t - j) (Some b) = Some ((bp @ C') @ Some b # bq)"
    using Cons.prems C by (intro store_mid) simp
  moreover have "copy_right ((pre @ [b]) @ B @ post) r t (j + 1) (bp @ C' @ Some b # bq)
      = Some (bp @ map Some (rev B) @ Some b # bq, r)"
    using Cons.prems C by (intro Cons.IH) simp_all
  ultimately show ?case
    using Cons.prems C by (subst copy_right.simps) (simp add: block_simps)
qed

lemma mergeRuns_merges:
  assumes "l = int (length pre)" "m = l + int (length A)" "r = m + int (length B) - 1"
    and "length buffer = length (pre @ A @ B @ post)"
  shows "\<exists>buffer'. mergeRuns cmp (pre @ A @ B @ post) l m r buffer
      = Some (pre @ merge_ends cmp (A @ rev B) @ post, buffer') \<and> length buffer' = length buffer"
proof -
  define bp C1 C2 bq where "bp = take (length pre) buffer" and "C1 = take (length A) (drop (length pre) buffer)"
    and "C2 = take (length B) (drop (length pre + length A) buffer)" and "bq = drop (length pre + length A + length B) buffer"
  have buffer: "buffer = bp @ C1 @ C2 @ bq"
    unfolding bp_def C1_def C2_def bq_def
    by (metis add.commute append_take_drop_id drop_drop)
  have len: "length bp = length pre" "length C1 = length A" "length C2 = length B"
    using assms(4) by (simp_all add: bp_def C1_def C2_def)
  have left: "copy_left (pre @ A @ B @ post) l m (bp @ C1 @ C2 @ bq) = Some (bp @ map Some A @ C2 @ bq, l)"
    using assms len by (intro copy_left_copies) simp_all
  have "copy_right ((pre @ A) @ B @ post) r (r + (m - 1)) (m - 1) ((bp @ map Some A) @ C2 @ bq)
      = Some ((bp @ map Some A) @ map Some (rev B) @ bq, r)"
    using assms len by (intro copy_right_copies) simp_all
  moreover have "merge_loop cmp (bp @ map Some (A @ rev B) @ bq) r (pre @ (A @ B) @ post) l l r
      = Some (pre @ merge_ends cmp (A @ rev B) @ post)"
    using assms len by (intro merge_loop_merges) simp_all
  ultimately show ?thesis
    using left buffer len by (simp add: mergeRuns_def)
qed

lemma merge_sorts: "sorts cmp (ordered cmp A \<and> ordered cmp B) (A @ B) (merge_ends cmp (A @ rev B))"
proof (rule sortsI)
  assume "comparing cmp" "ordered cmp A \<and> ordered cmp B"
  then show "ordered cmp (merge_ends cmp (A @ rev B))"
    by (intro comparing.merge_ends_ordered) (auto simp: up_down_def)
qed simp


section \<open>Node powers\<close>

lemma clz32_top:
  assumes "p < 32" "bit x p" "\<And>i. p < i \<Longrightarrow> i < 32 \<Longrightarrow> \<not> bit x i"
  shows "clz32 x = 31 - p"
  using clz_top[OF assms] by (simp add: clz32_def)

text \<open>The highest bit in which two numbers differ is set in the larger one.\<close>

lemma small_bits: "0 \<le> (v :: int) \<Longrightarrow> v < 2 ^ n \<Longrightarrow> n \<le> i \<Longrightarrow> \<not> bit v i"
  by (metis bit_take_bit_iff not_le take_bit_int_eq_self_iff)

lemma drop_bit_step: "drop_bit p (x :: int) = 2 * drop_bit (Suc p) x + of_bool (bit x p)"
proof -
  have "drop_bit (Suc p) x = drop_bit p x div 2"
    by (simp add: drop_bit_eq_div div_exp_eq[symmetric] mult.commute flip: zdiv_zmult2_eq)
  moreover have "bit x p \<longleftrightarrow> odd (drop_bit p x)"
    by (simp add: bit_iff_odd_drop_bit)
  ultimately show ?thesis by (cases "bit x p") auto
qed

lemma highest_difference:
  fixes v w :: int
  assumes "0 \<le> v" "v < w" "w < 2 ^ n"
  obtains p where "p < n" "\<not> bit v p" "bit w p" "\<And>i. p < i \<Longrightarrow> bit v i = bit w i"
proof -
  have high: "\<not> bit v i" "\<not> bit w i" if "n \<le> i" for i
    using assms that small_bits[of v n i] small_bits[of w n i] by auto
  have "v \<noteq> w" using assms by simp
  then obtain i where i: "bit v i \<noteq> bit w i" by (metis bit_eqI)
  let ?D = "{i. i < n \<and> bit v i \<noteq> bit w i}"
  define p where "p = Max ?D"
  have "i < n" using i high[of i] by (metis not_le)
  then have D: "finite ?D" "?D \<noteq> {}" using i by auto
  then have p: "p < n" "bit v p \<noteq> bit w p"
    using Max_in[of ?D] unfolding p_def by auto
  have same: "bit v i = bit w i" if "p < i" for i
    using that high[of i] Max_ge[OF D(1), of i] unfolding p_def by (cases "i < n") (auto simp: not_le[symmetric])
  then have "drop_bit (Suc p) v = drop_bit (Suc p) w"
    by (intro bit_eqI) (simp add: bit_drop_bit_eq)
  moreover have "drop_bit p v \<le> drop_bit p w"
    using assms by (simp add: drop_bit_eq_div zdiv_mono1)
  ultimately have "\<not> bit v p \<and> bit w p"
    using p drop_bit_step[of p v] drop_bit_step[of p w] by (cases "bit v p") auto
  with p(1) same show ?thesis by (intro that[of p]) auto
qed


definition midpoint :: "int \<Rightarrow> int \<Rightarrow> int \<Rightarrow> int" where
  "midpoint n a b = (a + b) * 2 ^ 30 div n"

lemma take_bit_small: "0 \<le> (x :: int) \<Longrightarrow> x < 2 ^ n \<Longrightarrow> take_bit n x = x"
  by (simp add: take_bit_int_eq_self)

lemma nodePower_midpoints:
  assumes "0 \<le> startA" "startA < startB" "startB \<le> endB" "endB < n" "n \<le> 2 ^ 30"
  shows "nodePower 0 (n - 1) startA startB endB = clz32 (u32 (midpoint n startA startB XOR midpoint n startB (endB + 1)))"
  using assms by (simp add: nodePower_def Let_def u32_def midpoint_def take_bit_small push_bit_eq_mult ac_simps)

lemma log2u_eq: "2 ^ m \<le> n \<Longrightarrow> n < 2 ^ Suc m \<Longrightarrow> m < 32 \<Longrightarrow> log2u n = m"
proof -
  assume n: "2 ^ m \<le> n" "n < 2 ^ Suc m" "m < 32"
  have "drop_bit m n = 1"
    using n by (simp add: drop_bit_eq_div) (smt (verit) div_pos_geq div_pos_pos_trivial)
  then have "bit n m" by (simp add: bit_iff_odd_drop_bit)
  moreover have "\<not> bit n i" if "m < i" for i
    using n that small_bits[of n "Suc m" i] by (simp add: order_trans[of 0 "2 ^ m"])
  ultimately have "clz32 n = 31 - m" using n(3) by (intro clz32_top) auto
  then show ?thesis using n(3) by (simp add: log2u_def)
qed

lemma midpoints_apart:
  assumes "0 \<le> startA" "startA < startB" "startB \<le> endB" "n < 2 ^ Suc m" "m \<le> 30" "0 < n"
  shows "midpoint n startA startB + 2 ^ (30 - m) \<le> midpoint n startB (endB + 1)"
proof -
  let ?v = "midpoint n startA startB"
  have "n * 2 ^ (30 - m) \<le> 2 ^ Suc m * 2 ^ (30 - m)" using assms by (intro mult_right_mono) auto
  also have "\<dots> = 2 ^ 31" using assms(5) by (simp flip: power_add power_Suc)
  finally have "n * 2 ^ (30 - m) \<le> 2 ^ 31" .
  moreover have "n * ?v \<le> (startA + startB) * 2 ^ 30"
    using assms(6) by (simp add: midpoint_def) (metis minus_mod_eq_mult_div pos_mod_sign diff_le_eq le_add_same_cancel1)
  moreover have "(startA + startB) * 2 ^ 30 + 2 ^ 31 \<le> (startB + (endB + 1)) * (2 ^ 30 :: int)"
    using assms by simp
  ultimately have "n * (?v + 2 ^ (30 - m)) \<le> (startB + (endB + 1)) * 2 ^ 30"
    by (simp add: distrib_left)
  then show ?thesis
    using assms(6) unfolding midpoint_def
    by (metis mult.commute nonzero_mult_div_cancel_left order_less_irrefl zdiv_mono1)
qed

text \<open>
  The power of a boundary fits the run stack, and names the highest bit in which the midpoints of the two runs
  differ: clear in the left one, set in the right one.
\<close>

lemma node_power:
  assumes "0 \<le> startA" "startA < startB" "startB \<le> endB" "endB < n" "n \<le> 2 ^ 30"
  defines "v \<equiv> midpoint n startA startB" and "w \<equiv> midpoint n startB (endB + 1)"
    and "k \<equiv> nodePower 0 (n - 1) startA startB endB"
  shows "1 \<le> k \<and> k \<le> log2u n + 1 \<and> \<not> bit v (31 - k) \<and> bit w (31 - k) \<and> (\<forall>i<k. bit v (31 - i) = bit w (31 - i))"
proof -
  have n: "0 < n" using assms by linarith
  obtain m where m: "2 ^ m \<le> n" "n < 2 ^ Suc m"
    using ex_power_ivl1[of 2 "nat n"] n by (auto simp: nat_less_iff le_nat_iff Suc_le_eq)
  have "(2 :: int) ^ m \<le> 2 ^ 30" using m(1) assms(5) by linarith
  then have m30: "m \<le> 30" by (rule power_le_imp_le_exp[of "2 :: int", rotated]) simp
  have apart: "v + 2 ^ (30 - m) \<le> w"
    unfolding v_def w_def using assms(1-3) m(2) m30 n by (intro midpoints_apart)
  have "0 \<le> v" using assms(1,2) n by (simp add: v_def midpoint_def pos_imp_zdiv_nonneg_iff)
  moreover have "v < w" using apart by (smt (verit) zero_less_power)
  moreover have "w < 2 ^ 31"
  proof -
    have "n * w \<le> (startB + (endB + 1)) * 2 ^ 30"
      using n by (simp add: w_def midpoint_def) (metis minus_mod_eq_mult_div pos_mod_sign diff_le_eq le_add_same_cancel1)
    also have "\<dots> < n * 2 ^ 31" using assms(3,4) by simp
    finally show ?thesis using n by (simp add: mult_less_cancel_left)
  qed
  ultimately obtain p where p: "p < 31" "\<not> bit v p" "bit w p" "\<And>i. p < i \<Longrightarrow> bit v i = bit w i"
    using highest_difference[of v w 31] by metis
  have "clz32 (u32 (v XOR w)) = 31 - p"
    using p by (intro clz32_top) (auto simp: u32_def bit_take_bit_iff bit_xor_iff)
  then have k: "k = 31 - p"
    using nodePower_midpoints[OF assms(1-5)] by (simp add: k_def v_def w_def)
  have "30 - m \<le> p"
  proof (rule ccontr)
    assume "\<not> 30 - m \<le> p"
    then have "drop_bit (30 - m) v = drop_bit (30 - m) w"
      using p(4) by (intro bit_eqI) (simp add: bit_drop_bit_eq)
    then have "v div 2 ^ (30 - m) = w div 2 ^ (30 - m)" by (simp add: drop_bit_eq_div)
    moreover have "v div 2 ^ (30 - m) + 1 \<le> w div 2 ^ (30 - m)"
      using zdiv_mono1[OF apart, of "2 ^ (30 - m)"] by simp
    ultimately show False by simp
  qed
  moreover have "log2u n = m" using m m30 by (intro log2u_eq) auto
  ultimately show ?thesis
    using k p by auto
qed

section \<open>The run stack\<close>

text \<open>
  The stored runs, the one of the highest slot first: their slots fall, and they tile the block from its start
  up to \<open>e\<close>.
\<close>

fun stacked :: "int list \<Rightarrow> int option list \<Rightarrow> nat \<Rightarrow> (nat \<times> 'a list) list \<Rightarrow> bool" where
  "stacked starts ends e [] \<longleftrightarrow> e = 0"
| "stacked starts ends e ((s, R) # stk) \<longleftrightarrow>
     s < length starts \<and> s < length ends \<and> length R \<le> e \<and> starts ! s = int (e - length R) \<and> ends ! s = Some (int e - 1)
     \<and> (\<forall>h\<in>fst ` set stk. h < s) \<and> stacked starts ends (e - length R) stk"

definition runs_of :: "(nat \<times> 'a list) list \<Rightarrow> 'a list" where
  "runs_of stk = concat (map snd (rev stk))"

definition vacant :: "int list \<Rightarrow> nat \<Rightarrow> (nat \<times> 'a list) list \<Rightarrow> bool" where
  "vacant starts i stk \<longleftrightarrow> (\<forall>s \<le> i. s < length starts \<longrightarrow> s \<notin> fst ` set stk \<longrightarrow> starts ! s = EMPTY_RUN)"

definition runs_ordered :: "'a comparator \<Rightarrow> (nat \<times> 'a list) list \<Rightarrow> bool" where
  "runs_ordered cmp stk \<longleftrightarrow> (\<forall>R\<in>snd ` set stk. ordered cmp R)"

lemma runs_of_simps [simp]: "runs_of [] = []" "runs_of ((s, R) # stk) = runs_of stk @ R"
  by (simp_all add: runs_of_def)

lemma runs_ordered_simps [simp]: "runs_ordered cmp []"
    "runs_ordered cmp ((s, R) # stk) \<longleftrightarrow> ordered cmp R \<and> runs_ordered cmp stk"
  by (auto simp: runs_ordered_def)

lemma stacked_length: "stacked starts ends e stk \<Longrightarrow> length (runs_of stk) = e"
  by (induction starts ends e stk rule: stacked.induct) auto

lemma stacked_cong:
  assumes "stacked starts ends e stk" "length starts' = length starts" "length ends' = length ends"
    and "\<And>s. s \<in> fst ` set stk \<Longrightarrow> starts' ! s = starts ! s \<and> ends' ! s = ends ! s"
  shows "stacked starts' ends' e stk"
  using assms by (induction starts ends e stk rule: stacked.induct) auto

lemma stacked_top:
  assumes "stacked starts ends e stk" "s \<in> fst ` set stk" "\<And>h. h \<in> fst ` set stk \<Longrightarrow> h \<le> s"
  obtains R stk' where "stk = (s, R) # stk'"
proof -
  obtain h R stk' where stk: "stk = (h, R) # stk'" using assms(2) by (cases stk) auto
  have "h = s" using assms stk by (fastforce dest: assms(3)[of h])
  with stk that show ?thesis by blast
qed

text \<open>One merge of the top run with the run behind it.\<close>

lemma top_run_loads:
  assumes "stacked starts ends e ((s, R) # stk)" "int e < EMPTY_RUN"
  shows "load_at starts (int s) = Some (int (e - length R))" "int (e - length R) \<noteq> EMPTY_RUN"
    "load_slot ends (int s) = Some (int e - 1)"
  using assms by (auto simp: load_nth load_slot_def)

lemma top_run_merges:
  assumes "stacked starts ends e ((s, R) # stk)" "endA = int (e + length A) - 1"
    and "length buffer = length (runs_of ((s, R) # stk) @ A @ rest)"
  obtains M buffer' where
    "mergeRuns cmp (runs_of ((s, R) # stk) @ A @ rest) (int (e - length R)) (int e - 1 + 1) endA buffer
       = Some (runs_of stk @ M @ rest, buffer')"
    "length buffer' = length buffer" "length M = length R + length A"
    "sorts cmp (ordered cmp R \<and> ordered cmp A) (R @ A) M"
proof -
  have "length (runs_of stk) = e - length R" using assms(1) stacked_length by auto
  then have "\<exists>buffer'. mergeRuns cmp (runs_of ((s, R) # stk) @ A @ rest) (int (e - length R)) (int e - 1 + 1) endA buffer
       = Some (runs_of stk @ merge_ends cmp (R @ rev A) @ rest, buffer') \<and> length buffer' = length buffer"
    using assms unfolding runs_of_simps append.assoc diff_add_cancel
    by (intro mergeRuns_merges) (auto simp: of_nat_diff)
  moreover have "length (merge_ends cmp (R @ rev A)) = length R + length A"
    using sorts_length[OF merge_sorts[of cmp R A]] by simp
  ultimately show ?thesis using merge_sorts[of cmp R A] that by blast
qed

lemma collapse_spec:
  assumes "stacked starts ends e stk" "\<And>h. h \<in> fst ` set stk \<Longrightarrow> h \<le> i" "vacant starts (length starts) stk"
    and "i < length starts" "int e < EMPTY_RUN" "endA = int (e + length A) - 1"
    and "length buffer = length (runs_of stk @ A @ rest)"
  shows "\<exists>A' buffer' starts' e'. let stk' = filter (\<lambda>(s, R). s \<le> k) stk in
     collapse cmp k ends endA i (runs_of stk @ A @ rest) buffer starts (int e)
       = Some (runs_of stk' @ A' @ rest, buffer', starts', int e')
     \<and> stacked starts' ends e' stk' \<and> vacant starts' (length starts') stk' \<and> length starts' = length starts
     \<and> length buffer' = length buffer \<and> e' + length A' = e + length A
     \<and> mset (runs_of stk' @ A') = mset (runs_of stk @ A)
     \<and> (comparing cmp \<and> runs_ordered cmp stk \<and> ordered cmp A \<longrightarrow> ordered cmp A')"
  using assms
proof (induction i arbitrary: stk starts e A buffer)
  case 0
  then have "filter (\<lambda>(s, R). s \<le> k) stk = stk" by (force simp: filter_id_conv)
  with 0 show ?case by (auto simp: Let_def)
next
  case (Suc i)
  show ?case
  proof (cases "Suc i > k")
    case False
    then have "filter (\<lambda>(s, R). s \<le> k) stk = stk" using Suc.prems(2) by (force simp: filter_id_conv)
    with False Suc.prems show ?thesis by (auto simp: Let_def)
  next
    case above: True
    show ?thesis
    proof (cases "Suc i \<in> fst ` set stk")
      case False
      then have "load_at starts (int (Suc i)) = Some EMPTY_RUN"
        using Suc.prems(3,4) by (simp add: load_nth vacant_def del: of_nat_Suc)
      moreover have "h \<le> i" if "h \<in> fst ` set stk" for h
        using Suc.prems(2)[OF that] False that by (cases "h = Suc i") auto
      ultimately show ?thesis
        using Suc.IH[of starts e stk A buffer] Suc.prems above by simp
    next
      case True
      then obtain R stk1 where stk: "stk = (Suc i, R) # stk1"
        using stacked_top[OF Suc.prems(1)] Suc.prems(2) by metis
      obtain M buffer1 where merged: "mergeRuns cmp (runs_of stk @ A @ rest) (int (e - length R)) (int e - 1 + 1) endA buffer
            = Some (runs_of stk1 @ M @ rest, buffer1)"
          "length buffer1 = length buffer" "length M = length R + length A"
          "sorts cmp (ordered cmp R \<and> ordered cmp A) (R @ A) M"
        using top_run_merges[of starts ends e "Suc i" R stk1 endA A buffer rest cmp] Suc.prems(1,6,7) unfolding stk
        by blast
      let ?starts = "starts[Suc i := EMPTY_RUN]"
      let ?stk' = "filter (\<lambda>(s, R). s \<le> k) stk1"
      have stacked1: "stacked ?starts ends (e - length R) stk1"
        using Suc.prems(1) stk by (auto intro!: stacked_cong[of starts ends "e - length R" stk1 ?starts ends])
      have below: "\<And>h. h \<in> fst ` set stk1 \<Longrightarrow> h \<le> i" using Suc.prems(1) stk by fastforce
      have vacant1: "vacant ?starts (length ?starts) stk1"
        using Suc.prems(3) stk unfolding vacant_def
        by (intro allI impI, rename_tac h, case_tac "h = Suc i") auto
      have "length R \<le> e" using Suc.prems(1) stk by simp
      have sizes: "i < length ?starts" "int (e - length R) < EMPTY_RUN" "endA = int (e - length R + length M) - 1"
          "length buffer1 = length (runs_of stk1 @ M @ rest)"
        using Suc.prems(4-7) merged(2,3) stk \<open>length R \<le> e\<close> by simp_all
      from Suc.IH[OF stacked1 below vacant1 sizes] obtain A' buffer' starts' e' where IH:
          "collapse cmp k ends endA i (runs_of stk1 @ M @ rest) buffer1 ?starts (int (e - length R))
            = Some (runs_of ?stk' @ A' @ rest, buffer', starts', int e')"
          "stacked starts' ends e' ?stk'" "vacant starts' (length starts') ?stk'" "length starts' = length ?starts"
          "length buffer' = length buffer1" "e' + length A' = e - length R + length M"
          "mset (runs_of ?stk' @ A') = mset (runs_of stk1 @ M)"
          "comparing cmp \<and> runs_ordered cmp stk1 \<and> ordered cmp M \<longrightarrow> ordered cmp A'"
        unfolding Let_def by blast
      have "store_at starts (int (Suc i)) EMPTY_RUN = Some ?starts"
        using Suc.prems(4) by (simp add: store_nth del: of_nat_Suc)
      then have run: "collapse cmp k ends endA (Suc i) (runs_of stk @ A @ rest) buffer starts (int e)
          = collapse cmp k ends endA i (runs_of stk1 @ M @ rest) buffer1 ?starts (int (e - length R))"
        using above merged(1) top_run_loads[OF Suc.prems(1)[unfolded stk] Suc.prems(5)] by simp
      have low: "filter (\<lambda>(s, R). s \<le> k) stk = ?stk'" using stk above by simp
      have "mset (runs_of ?stk' @ A') = mset (runs_of stk @ A)"
        using IH(7) merged(4) stk by (simp add: sorts_def)
      moreover have "comparing cmp \<and> runs_ordered cmp stk \<and> ordered cmp A \<longrightarrow> ordered cmp A'"
        using IH(8) merged(4) stk by (simp add: sorts_def)
      moreover have "e' + length A' = e + length A"
        using IH(6) merged(3) \<open>length R \<le> e\<close> by simp
      ultimately show ?thesis
        using IH(1-5) merged(2) unfolding Let_def low run
        by (intro exI[of _ A'] exI[of _ buffer'] exI[of _ starts'] exI[of _ e']) simp
    qed
  qed
qed


lemma final_merges_spec:
  assumes "stacked starts ends e stk" "\<And>h. h \<in> fst ` set stk \<Longrightarrow> 0 < h \<and> h \<le> i" "vacant starts i stk"
    and "i < length starts" "int e < EMPTY_RUN" "hi = int (e + length A) - 1"
    and "length buffer = length (runs_of stk @ A)"
  shows "\<exists>ys. final_merges cmp starts ends hi i (runs_of stk @ A) buffer = Some ys
    \<and> sorts cmp (runs_ordered cmp stk \<and> ordered cmp A) (runs_of stk @ A) ys"
  using assms
proof (induction i arbitrary: stk e A buffer)
  case 0
  have "stk = []"
  proof (rule ccontr)
    assume "stk \<noteq> []"
    then have "fst (hd stk) \<in> fst ` set stk" by simp
    from "0.prems"(2)[OF this] show False by auto
  qed
  with 0 show ?case by (simp add: sorts_def)
next
  case (Suc i)
  show ?case
  proof (cases "Suc i \<in> fst ` set stk")
    case False
    then have "load_at starts (int (Suc i)) = Some EMPTY_RUN"
      using Suc.prems(3,4) by (simp add: load_nth vacant_def del: of_nat_Suc)
    moreover have "0 < h \<and> h \<le> i" if "h \<in> fst ` set stk" for h
      using Suc.prems(2)[OF that] False that by (cases "h = Suc i") auto
    moreover have "vacant starts i stk" using Suc.prems(3) by (simp add: vacant_def)
    ultimately show ?thesis
      using Suc.IH[of e stk A buffer] Suc.prems by simp
  next
    case True
    then obtain R stk1 where stk: "stk = (Suc i, R) # stk1"
      using stacked_top[OF Suc.prems(1)] Suc.prems(2) by metis
    obtain M buffer1 where merged: "mergeRuns cmp (runs_of stk @ A) (int (e - length R)) (int e - 1 + 1) hi buffer
          = Some (runs_of stk1 @ M, buffer1)"
        "length buffer1 = length buffer" "length M = length R + length A"
        "sorts cmp (ordered cmp R \<and> ordered cmp A) (R @ A) M"
      using top_run_merges[of starts ends e "Suc i" R stk1 hi A buffer "[]" cmp] Suc.prems(1,6,7)
      unfolding stk append_Nil2 by blast
    have "\<And>h. h \<in> fst ` set stk1 \<Longrightarrow> 0 < h \<and> h \<le> i"
      using Suc.prems(1,2) stk by fastforce
    moreover have "vacant starts i stk1" using Suc.prems(3) stk by (simp add: vacant_def)
    moreover have "length R \<le> e" using Suc.prems(1) stk by simp
    ultimately obtain ys where ys: "final_merges cmp starts ends hi i (runs_of stk1 @ M) buffer1 = Some ys"
        "sorts cmp (runs_ordered cmp stk1 \<and> ordered cmp M) (runs_of stk1 @ M) ys"
      using Suc.IH[of "e - length R" stk1 M buffer1] Suc.prems merged(2,3) stk by (auto simp: of_nat_diff)
    have "final_merges cmp starts ends hi (Suc i) (runs_of stk @ A) buffer = Some ys"
      using merged(1) ys(1) top_run_loads[OF Suc.prems(1)[unfolded stk] Suc.prems(5)] by simp
    moreover have "sorts cmp (runs_ordered cmp stk \<and> ordered cmp A) (runs_of stk @ A) ys"
      using ys(2) merged(4) stk by (simp add: sorts_def)
    ultimately show ?thesis by blast
  qed
qed

section \<open>The main loop\<close>

text \<open>
  The state at the head of the loop: the stored runs, the current run \<open>A\<close> and the rest. Every occupied slot is
  marked in the midpoint of the current run, which is why a boundary never finds its slot taken.
\<close>

definition power_state ::
  "'a comparator \<Rightarrow> 'a list \<Rightarrow> 'a option list \<Rightarrow> int list \<Rightarrow> int option list \<Rightarrow> nat \<Rightarrow> int \<Rightarrow> nat
   \<Rightarrow> (nat \<times> 'a list) list \<Rightarrow> 'a list \<Rightarrow> 'a list \<Rightarrow> bool" where
  "power_state cmp xs buffer starts ends e endA top_slot stk A rest \<longleftrightarrow>
     xs = runs_of stk @ A @ rest \<and> A \<noteq> [] \<and> endA = int (e + length A) - 1
     \<and> length buffer = length xs \<and> int (length xs) \<le> 2 ^ 30
     \<and> stacked starts ends e stk \<and> vacant starts (length starts) stk
     \<and> length starts = log2u (int (length xs)) + 2 \<and> length ends = length starts \<and> top_slot < length starts
     \<and> (\<forall>s\<in>fst ` set stk. 0 < s \<and> s \<le> top_slot \<and> bit (midpoint (int (length xs)) (int e) (endA + 1)) (31 - s))
     \<and> (comparing cmp \<longrightarrow> runs_ordered cmp stk \<and> ordered cmp A)"

lemma power_step:
  assumes "power_state cmp xs buffer starts ends e endA top_slot stk A rest" "rest \<noteq> []"
    and "hi = int (length xs) - 1"
  shows "\<exists>xs' buffer' starts' ends' e' endB k stk' B rest'.
    power_loop level cmp hi xs buffer starts ends (int e) endA top_slot
      = power_loop level cmp hi xs' buffer' starts' ends' (int e') endB k
    \<and> power_state cmp xs' buffer' starts' ends' e' endB k stk' B rest'
    \<and> length rest' < length rest \<and> mset xs' = mset xs"
proof -
  define n where "n = length xs"
  define startB where "startB = endA + 1"
  have st: "xs = runs_of stk @ A @ rest" "A \<noteq> []" "endA = int (e + length A) - 1" "length buffer = n" "int n \<le> 2 ^ 30"
      "stacked starts ends e stk" "vacant starts (length starts) stk" "length starts = log2u (int n) + 2"
      "length ends = length starts" "top_slot < length starts"
      "comparing cmp \<longrightarrow> runs_ordered cmp stk \<and> ordered cmp A"
    and marks: "\<And>s. s \<in> fst ` set stk \<Longrightarrow> 0 < s \<and> s \<le> top_slot \<and> bit (midpoint (int n) (int e) startB) (31 - s)"
    using assms(1) unfolding power_state_def n_def[symmetric] startB_def[symmetric] by blast+
  have e: "length (runs_of stk) = e" using st(6) by (rule stacked_length)
  have n: "n = e + length A + length rest" using st(1) e by (simp add: n_def)
  have startB: "startB = int (length (runs_of stk @ A))" "startB = int (e + length A)"
    using st(3) e by (simp_all add: startB_def)
  have "hi = startB + int (length rest) - 1" using startB(2) n assms(3) by (simp add: n_def)
  then obtain R1 R2 B where run: "rest = R1 @ R2" "R1 \<noteq> []" "sorts cmp True R1 B"
      "next_run level cmp xs startB hi = Some (runs_of stk @ A @ B @ R2, startB + int (length R1) - 1)"
    using next_run_sorts[OF startB(1) _ assms(2), of hi cmp level] st(1) by auto
  have len_B: "length B = length R1" using sorts_length[OF run(3)] .
  define endB where "endB = startB + int (length R1) - 1"
  define k where "k = nodePower 0 hi (int e) startB endB"
  have hi: "hi = int n - 1" using assms(3) by (simp add: n_def)
  have "0 < length A" "0 < length R1" using st(2) run(2) by auto
  then have k: "1 \<le> k" "k \<le> log2u (int n) + 1" "\<not> bit (midpoint (int n) (int e) startB) (31 - k)"
      "bit (midpoint (int n) startB (endB + 1)) (31 - k)"
      "\<forall>i<k. bit (midpoint (int n) (int e) startB) (31 - i) = bit (midpoint (int n) startB (endB + 1)) (31 - i)"
    using node_power[of "int e" startB endB "int n"] st(5) startB(2) n run(1)
    unfolding k_def hi by (auto simp: endB_def)
  define low where "low = filter (\<lambda>(s, R). s \<le> k) stk"
  have slots: "s < k" if "s \<in> fst ` set low" for s
  proof -
    from that have "s \<le> k" "s \<in> fst ` set stk" by (auto simp: low_def)
    moreover from this(2) have "bit (midpoint (int n) (int e) startB) (31 - s)" using marks by blast
    ultimately show ?thesis using k(3) by (cases "s = k") auto
  qed
  have bound: "int e < EMPTY_RUN" using st(5) n by (simp add: EMPTY_RUN_def)
  have below: "\<And>h. h \<in> fst ` set stk \<Longrightarrow> h \<le> top_slot" using marks by blast
  have room: "length buffer = length (runs_of stk @ A @ B @ R2)" using st(1,4) len_B run(1) by (simp add: n_def)
  from collapse_spec[OF st(6) below st(7,10) bound st(3) room, where cmp = cmp and k = k, folded low_def]
  obtain A' buffer' starts' e' where c:
      "collapse cmp k ends endA top_slot (runs_of stk @ A @ B @ R2) buffer starts (int e)
        = Some (runs_of low @ A' @ B @ R2, buffer', starts', int e')"
      "stacked starts' ends e' low" "vacant starts' (length starts') low" "length starts' = length starts"
      "length buffer' = length buffer" "e' + length A' = e + length A" "mset (runs_of low @ A') = mset (runs_of stk @ A)"
      "comparing cmp \<and> runs_ordered cmp stk \<and> ordered cmp A \<longrightarrow> ordered cmp A'"
    unfolding Let_def by blast
  let ?stk = "(k, A') # low" and ?starts = "starts'[k := int e']" and ?ends = "ends[k := Some endA]"
  let ?xs = "runs_of ?stk @ B @ R2"
  have stores: "store_at starts' (int k) (int e') = Some ?starts" "store_at ends (int k) (Some endA) = Some ?ends"
    using k(2) c(4) st(8,9) by (simp_all add: store_nth)
  have "0 < length rest" using assms(2) by simp
  then have "endA < hi" using hi n startB(2) unfolding startB_def by linarith
  then have step: "power_loop level cmp hi xs buffer starts ends (int e) endA top_slot
      = power_loop level cmp hi ?xs buffer' ?starts ?ends startB endB k"
    using run(4) c(1) stores
    by (subst power_loop.simps) (simp add: startB_def[symmetric] endB_def[symmetric] k_def[symmetric])
  have same: "mset ?xs = mset xs"
    using c(7) run(1,3) st(1) by (simp add: sorts_def)
  then have len: "length ?xs = n" unfolding n_def by (rule mset_eq_length)
  have "power_state cmp ?xs buffer' ?starts ?ends (e + length A) endB k ?stk B R2"
    unfolding power_state_def
  proof (intro conjI)
    show "B \<noteq> []" using len_B run(2) by auto
    show "endB = int (e + length A + length B) - 1" using startB(2) len_B by (simp add: endB_def)
    have "stacked ?starts ?ends e' low"
    proof (rule stacked_cong[OF c(2)])
      fix s assume "s \<in> fst ` set low"
      from slots[OF this] show "?starts ! s = starts' ! s \<and> ?ends ! s = ends ! s" by simp
    qed simp_all
    moreover have "e + length A - length A' = e'" using c(6) by simp
    ultimately show "stacked ?starts ?ends (e + length A) ?stk"
      using k(2) c(4,6) st(3,8,9) slots by simp
    show "vacant ?starts (length ?starts) ?stk"
      using c(3) unfolding vacant_def by (intro allI impI, rename_tac h, case_tac "h = k") auto
    show "\<forall>s\<in>fst ` set ?stk. 0 < s \<and> s \<le> k \<and> bit (midpoint (int (length ?xs)) (int (e + length A)) (endB + 1)) (31 - s)"
    proof
      fix s assume s: "s \<in> fst ` set ?stk"
      show "0 < s \<and> s \<le> k \<and> bit (midpoint (int (length ?xs)) (int (e + length A)) (endB + 1)) (31 - s)"
      proof (cases "s = k")
        case True
        then show ?thesis using k(1,4) startB(2) unfolding len by simp
      next
        case False
        then have "s \<in> fst ` set low" using s by simp
        moreover from this have "s \<in> fst ` set stk" by (auto simp: low_def)
        ultimately show ?thesis
          using slots[of s] marks[of s] k(5) startB(2) unfolding len by auto
      qed
    qed
    show "comparing cmp \<longrightarrow> runs_ordered cmp ?stk \<and> ordered cmp B"
      using c(8) st(11) run(3) by (auto simp: sorts_def runs_ordered_def low_def)
    show "length ?starts = log2u (int (length ?xs)) + 2" "int (length ?xs) \<le> 2 ^ 30" "length buffer' = length ?xs"
      using st(4,5,8) c(4,5) unfolding len by simp_all
    show "k < length ?starts" "length ?ends = length ?starts"
      using st(8,9) k(2) c(4) by simp_all
  qed simp
  moreover have "length R2 < length rest" using run(1,2) by simp
  ultimately show ?thesis
    using step same unfolding startB(2) by blast
qed


lemma power_loop_done:
  assumes "power_state cmp xs buffer starts ends e endA top_slot stk A []"
    and "hi = int (length xs) - 1"
  shows "power_loop level cmp hi xs buffer starts ends (int e) endA top_slot = Some (xs, buffer, starts, ends, top_slot)"
    and "\<exists>ys. final_merges cmp starts ends hi top_slot xs buffer = Some ys \<and> sorts cmp True xs ys"
proof -
  have st: "xs = runs_of stk @ A" "A \<noteq> []" "endA = int (e + length A) - 1" "length buffer = length xs"
      "int (length xs) \<le> 2 ^ 30" "stacked starts ends e stk" "vacant starts (length starts) stk" "top_slot < length starts"
      "comparing cmp \<longrightarrow> runs_ordered cmp stk \<and> ordered cmp A"
    and marks: "\<And>s. s \<in> fst ` set stk \<Longrightarrow> 0 < s \<and> s \<le> top_slot"
    using assms(1) unfolding power_state_def by auto
  have len: "int (length xs) = int (e + length A)" using st(1) stacked_length[OF st(6)] by simp
  show "power_loop level cmp hi xs buffer starts ends (int e) endA top_slot = Some (xs, buffer, starts, ends, top_slot)"
    using st(3) assms(2) len by (subst power_loop.simps) simp
  have "vacant starts top_slot stk" "int e < EMPTY_RUN" "hi = int (e + length A) - 1" "length buffer = length (runs_of stk @ A)"
    using st(1,4,5,7,8) len assms(2) by (auto simp: vacant_def EMPTY_RUN_def)
  from final_merges_spec[OF st(6) marks this(1) st(8) this(2-4), of cmp]
  show "\<exists>ys. final_merges cmp starts ends hi top_slot xs buffer = Some ys \<and> sorts cmp True xs ys"
    using st(1,9) by (auto simp: sorts_def)
qed

lemma power_loop_sorts:
  assumes "power_state cmp xs buffer starts ends e endA top_slot stk A rest" "hi = int (length xs) - 1"
  shows "\<exists>xs' buffer' starts' ends' top' ys.
    power_loop level cmp hi xs buffer starts ends (int e) endA top_slot = Some (xs', buffer', starts', ends', top')
    \<and> final_merges cmp starts' ends' hi top' xs' buffer' = Some ys \<and> sorts cmp True xs ys"
  using assms
proof (induction "length rest" arbitrary: xs buffer starts ends e endA top_slot stk A rest rule: less_induct)
  case less
  show ?case
  proof (cases "rest = []")
    case True
    from power_loop_done[OF less.prems(1)[unfolded True] less.prems(2)] show ?thesis by auto
  next
    case False
    obtain xs' buffer' starts' ends' e' endB k stk' B rest' where step:
        "power_loop level cmp hi xs buffer starts ends (int e) endA top_slot
          = power_loop level cmp hi xs' buffer' starts' ends' (int e') endB k"
        "power_state cmp xs' buffer' starts' ends' e' endB k stk' B rest'" "length rest' < length rest" "mset xs' = mset xs"
      using power_step[OF less.prems(1) False less.prems(2), of level] by blast
    have "hi = int (length xs') - 1" using less.prems(2) step(4) by (metis size_mset)
    from less.hyps[OF step(3,2) this] show ?thesis
      unfolding step(1) using step(4) by (auto simp: sorts_def)
  qed
qed

lemma power_sort_sorts:
  assumes "xs \<noteq> []" "int (length xs) \<le> 2 ^ 30"
  shows "\<exists>ys. power_sort level cmp xs = Some ys \<and> sorts cmp True xs ys"
proof -
  have "\<exists>R1 R2 T. xs = R1 @ R2 \<and> R1 \<noteq> [] \<and> sorts cmp True R1 T
      \<and> next_run level cmp xs 0 (int (length xs) - 1) = Some (T @ R2, int (length R1) - 1)"
    using next_run_sorts[of 0 "[]" "int (length xs) - 1" xs cmp level] assms(1) by simp
  then obtain R1 R2 T where run: "xs = R1 @ R2" "R1 \<noteq> []" "sorts cmp True R1 T"
      "next_run level cmp xs 0 (int (length xs) - 1) = Some (T @ R2, int (length R1) - 1)"
    by blast
  have len: "length T = length R1" using sorts_length[OF run(3)] .
  define n where "n = log2u (int (length xs)) + 2"
  have "power_state cmp (T @ R2) (replicate (length xs) None) (replicate n EMPTY_RUN) (replicate n None) 0
      (int (length R1) - 1) 0 [] T R2"
    using run(1-3) len assms(2) by (auto simp: power_state_def vacant_def sorts_def n_def[symmetric])
      (simp_all add: n_def)
  then have "\<exists>xs' buffer' starts' ends' top' ys.
      power_loop level cmp (int (length xs) - 1) (T @ R2) (replicate (length xs) None) (replicate n EMPTY_RUN)
        (replicate n None) (int 0) (int (length R1) - 1) 0 = Some (xs', buffer', starts', ends', top')
      \<and> final_merges cmp starts' ends' (int (length xs) - 1) top' xs' buffer' = Some ys \<and> sorts cmp True (T @ R2) ys"
    using run(1) len by (intro power_loop_sorts) auto
  then show ?thesis
    using run by (auto simp: power_sort_def sorts_def Let_def n_def)
qed

section \<open>The whole sort\<close>

lemma sort_two_sorts: "\<exists>ys. sort_two cmp (x # y # zs) = Some ys \<and> sorts cmp (zs = []) (x # y # zs) ys"
  by (auto simp: sort_two_def sorts_def load_at_def store_at_def ordered_def Let_def comparing.cmp_swap
      comparing.ge_le not_less)

lemma sort_three_sorts: "\<exists>ys. sort_three cmp [x, y, z] = Some ys \<and> sorts cmp True [x, y, z] ys"
proof -
  define lo hi where "lo = (if cmp x y > 0 then y else x)" and "hi = (if cmp x y > 0 then x else y)"
  define mid big where "mid = (if cmp hi z > 0 then z else hi)" and "big = (if cmp hi z > 0 then hi else z)"
  define a b where "a = (if cmp lo mid > 0 then mid else lo)" and "b = (if cmp lo mid > 0 then lo else mid)"
  have "sort_three cmp [x, y, z] = Some [a, b, big]"
    by (simp add: sort_three_def sort_two_def load_at_def store_at_def Let_def a_def b_def mid_def big_def lo_def hi_def)
  moreover have "sorts cmp True [x, y, z] [a, b, big]"
  proof (rule sortsI)
    show "mset [a, b, big] = mset [x, y, z]"
      by (simp add: a_def b_def mid_def big_def lo_def hi_def)
  next
    assume c: "comparing cmp"
    have swap: "cmp (if cmp p q > 0 then q else p) (if cmp p q > 0 then p else q) \<le> 0" for p q
      using comparing.cmp_swap[OF c, of p q] by auto
    have "cmp lo hi \<le> 0" "cmp mid big \<le> 0" "cmp a b \<le> 0"
      unfolding lo_def hi_def mid_def big_def a_def b_def by (rule swap)+
    moreover from this have "cmp lo big \<le> 0"
      using comparing.cmp_trans[OF c, of lo hi z] comparing.cmp_trans[OF c, of lo hi big]
      by (auto simp: big_def split: if_splits)
    ultimately have "cmp a b \<le> 0" "cmp b big \<le> 0" by (auto simp: b_def)
    then show "ordered cmp [a, b, big]"
      using comparing.cmp_trans[OF c, of a b big] by (simp add: ordered_def)
  qed
  ultimately show ?thesis by blast
qed

lemma SORT_sorts: "int (length xs) \<le> 2 ^ 30 \<Longrightarrow> \<exists>ys. SORT level xs cmp = Some ys \<and> sorts cmp True xs ys"
proof -
  assume room: "int (length xs) \<le> 2 ^ 30"
  consider "length xs \<le> 1" | "length xs = 2" "level < 1" | "length xs = 3" "level < 1" | "1 < length xs" "length xs \<le> 48"
      "\<not> (level < 1 \<and> (length xs = 2 \<or> length xs = 3))" | "48 < length xs"
    by linarith
  then show ?thesis
  proof cases
    case 1
    then show ?thesis by (cases xs) (auto simp: SORT_def INSERTION_SORT_THRESHOLD_def sorts_def)
  next
    case 2
    then obtain x y where xs: "xs = [x, y]" by (auto simp: length_Suc_conv numeral_2_eq_2)
    show ?thesis
      using 2 sort_two_sorts[of cmp x y "[]"] by (simp add: SORT_def INSERTION_SORT_THRESHOLD_def xs)
  next
    case 3
    then obtain x y z where xs: "xs = [x, y, z]" by (auto simp: length_Suc_conv numeral_3_eq_3)
    show ?thesis
      using 3 sort_three_sorts[of cmp x y z] by (simp add: SORT_def INSERTION_SORT_THRESHOLD_def xs)
  next
    case 4
    have "\<exists>T. insertionSort level cmp ([] @ xs @ []) 0 (int (length xs) - 1) (int 0) = Some ([] @ T @ [])
        \<and> sorts cmp (ordered cmp (take 0 xs)) xs T"
      by (rule insertionSort_sorts) simp_all
    then show ?thesis
      using 4 by (auto simp: SORT_def INSERTION_SORT_THRESHOLD_def Let_def)
  next
    case 5
    then have "xs \<noteq> []" by auto
    with 5 show ?thesis
      using power_sort_sorts[of xs level cmp] room by (auto simp: SORT_def INSERTION_SORT_THRESHOLD_def Let_def)
  qed
qed


section \<open>The default comparators\<close>

interpretation integers: comparing compare_integers
  by unfold_locales (auto simp: compare_integers_def split: if_splits)

interpretation f32: comparing compare_f32
  by unfold_locales (auto simp: compare_f32_def Let_def split: if_splits)

interpretation f64: comparing compare_f64
  by unfold_locales (auto simp: compare_f64_def Let_def split: if_splits)

text \<open>The lexicographic order of code units, shorter first.\<close>

fun lexical :: "int list comparator" where
  "lexical (a # as) (b # bs) = (if a \<noteq> b then a - b else lexical as bs)"
| "lexical as bs = int (length as) - int (length bs)"

lemma compare_units_lexical:
  "lexical as bs = (let res = compare_units as bs (min (length as) (length bs)) in
     if res \<noteq> 0 then res else int (length as) - int (length bs))"
  by (induction as bs rule: lexical.induct) (auto simp: Let_def)

text \<open>The comparison by blocks of four is the comparison by units.\<close>

lemma compare_units_prefix: "compare_units (xs @ as) (xs @ bs) (length xs + len) = compare_units as bs len"
  by (induction xs) auto

lemma skip_equal_compare:
  "len \<le> length as \<Longrightarrow> len \<le> length bs \<Longrightarrow>
   (case skip_equal as bs len of (as', bs', len') \<Rightarrow> compare_units as' bs' len') = compare_units as bs len"
proof (induction as bs len rule: skip_equal.induct)
  case (1 as bs len)
  show ?case
  proof (cases "4 \<le> len \<and> take 4 as = take 4 bs")
    case True
    then have "compare_units as bs len = compare_units (drop 4 as) (drop 4 bs) (len - 4)"
      using compare_units_prefix[of "take 4 as" "drop 4 as" "drop 4 bs" "len - 4"] 1(2,3)
      by (metis (no_types, lifting) append_take_drop_id le_add_diff_inverse length_take min.absorb2 order_trans)
    with True 1 show ?thesis by (subst skip_equal.simps) simp
  next
    case False
    then show ?thesis by (subst skip_equal.simps) auto
  qed
qed

lemma compareImpl_units:
  "len \<le> length as \<Longrightarrow> len \<le> length bs \<Longrightarrow> compareImpl shrink_level aligned as bs len = compare_units as bs len"
  using skip_equal_compare by (auto simp: compareImpl_def)

lemma compare_strings_sgn: "sgn (compare_strings shrink_level as bs) = sgn (lexical as bs)"
proof (cases "as = [] \<or> bs = []")
  case True
  then show ?thesis by (cases as; cases bs) (auto simp: compare_strings_def)
next
  case False
  then show ?thesis by (simp add: compare_strings_def compareImpl_units compare_units_lexical Let_def)
qed

lemma lexical_swap: "lexical as bs = - lexical bs as"
  by (induction as bs rule: lexical.induct) auto

lemma lexical_trans: "lexical as bs \<le> 0 \<Longrightarrow> lexical bs cs \<le> 0 \<Longrightarrow> lexical as cs \<le> 0"
proof (induction as bs arbitrary: cs rule: lexical.induct)
  case (1 a as b bs)
  then show ?case by (cases cs) (auto split: if_splits)
qed (case_tac cs; case_tac bs; auto split: if_splits)+

interpretation strings: comparing "compare_strings shrink_level"
  for shrink_level
proof
  have le: "compare_strings shrink_level a b \<le> 0 \<longleftrightarrow> lexical a b \<le> 0" for a b
    using compare_strings_sgn[of shrink_level a b] by (auto simp: sgn_if split: if_splits)
  show "compare_strings shrink_level a b > 0 \<longleftrightarrow> compare_strings shrink_level b a < 0" for a b
    using compare_strings_sgn[of shrink_level a b] compare_strings_sgn[of shrink_level b a] lexical_swap[of a b]
    by (auto simp: sgn_if split: if_splits)
  show "compare_strings shrink_level a c \<le> 0" if "compare_strings shrink_level a b \<le> 0" "compare_strings shrink_level b c \<le> 0" for a b c
    using that lexical_trans unfolding le by blast
qed

section \<open>Properties\<close>

text \<open>
  C6. \<open>SORT\<close> is safe and correct: whatever the comparator answers, and in both compiled forms, it returns a
  permutation of its block without a load or a store outside it; and when the comparator is a comparison, the
  block ends up in its order.
\<close>

theorem sort_correct:
  assumes "int (length xs) \<le> 2 ^ 30"
  shows "\<exists>ys. SORT shrink_level xs cmp = Some ys \<and> mset ys = mset xs \<and> (comparing cmp \<longrightarrow> ordered cmp ys)"
  using SORT_sorts[OF assms, of shrink_level cmp] by (auto simp: sorts_def)

theorem sort_correct_witness:
  "\<exists>ys. SORT 0 [[98], [97, 98], [97]] (compare_strings 0) = Some ys \<and> mset ys = mset [[98], [97, 98], [97]]
     \<and> ordered (compare_strings 0) ys"
  using sort_correct[of "[[98], [97, 98], [97]]" 0 "compare_strings 0"] strings.comparing_axioms by simp

text \<open>
  Remark: The default sort of integers wider than 32 bits and of unsigned integers is the sorting function: the
  result is the sorted list of the block's elements.
\<close>

theorem default_sort_is_sort:
  assumes "int (length xs) \<le> 2 ^ 30"
  shows "SORT shrink_level xs compare_integers = Some (sort xs)"
proof -
  obtain ys where ys: "SORT shrink_level xs compare_integers = Some ys" "mset ys = mset xs" "ordered compare_integers ys"
    using SORT_sorts[OF assms, of shrink_level compare_integers] integers.comparing_axioms by (auto simp: sorts_def)
  have "(\<lambda>a b. compare_integers a b \<le> 0) = (\<le>)"
    by (auto simp: compare_integers_def fun_eq_iff split: if_splits)
  with ys(3) have "sorted ys" by (simp add: ordered_def)
  then have "sort xs = ys" using ys(2) by (intro properties_for_sort)
  with ys(1) show ?thesis by simp
qed

theorem default_sort_is_sort_witness: "SORT 1 [5, -3, 4294967296, 0] compare_integers = Some [-3, 0, 5, 4294967296]"
  using default_sort_is_sort[of "[5, -3, 4294967296, 0]" 1] by simp

text \<open>
  Remark: The powers of the boundaries fit the run stack: the power of the boundary between two neighbouring runs is
  at least one and below the number of slots that \<open>SORT\<close> allocates.
\<close>

theorem power_fits_stack:
  assumes "0 \<le> startA" "startA < startB" "startB \<le> endB" "endB < n" "n \<le> 2 ^ 30"
  shows "1 \<le> nodePower 0 (n - 1) startA startB endB \<and> nodePower 0 (n - 1) startA startB endB < log2u n + 2"
  using node_power[OF assms] by linarith

theorem power_fits_stack_witness: "1 \<le> nodePower 0 99 0 40 99 \<and> nodePower 0 99 0 40 99 < log2u 100 + 2"
  using power_fits_stack[of 0 40 99 100] by simp

text \<open>
  Remark: the default comparator of the signed types up to 32 bits subtracts, and the difference of two
  \<open>i32\<close> values wraps: the largest \<open>i32\<close> and -1 stay in the wrong order.
\<close>

theorem small_comparator_wraps:
  "SORT 0 [2147483647, -1] compare_small_signed = Some [2147483647, -1] \<and> compare_small_signed 2147483647 (-1) < 0"
  by code_simp

text \<open>
  Remark: the sort is not stable. When the left run of a merge is exhausted, the merge compares the two ends of
  the rest of the right run and prefers the last on a tie: eight elements with equal keys come back reversed.
\<close>

definition by_key :: "(int \<times> int) comparator" where
  "by_key a b = compare_integers (fst a) (fst b)"

theorem sort_reverses_ties:
  "SORT 0 (map (\<lambda>i. (5, i)) [0..39] @ (1, 0) # map (\<lambda>i. (9, i)) [0..7]) by_key
   = Some ((1, 0) # map (\<lambda>i. (5, i)) [0..39] @ map (\<lambda>i. (9, 7 - i)) [0..7])"
  by code_simp

end
