(* ===== verification/As_Hash.thy ===== *)
theory As_Hash
  imports As_Memory
begin

unbundle bit_operations_syntax

text \<open>
  \<open>std/util/hash.ts\<close>: the 32-bit hash of map and set keys, a variant of XXH32. Integers and the bits of floats
  are hashed as one or two words, strings over the bytes of their UTF-16 code units; \<open>None\<close> is the null string.
\<close>

section \<open>The hash functions\<close>

definition XXH32_P1 :: "32 word" where "XXH32_P1 = 2654435761"
definition XXH32_P2 :: "32 word" where "XXH32_P2 = 2246822519"
definition XXH32_P3 :: "32 word" where "XXH32_P3 = 3266489917"
definition XXH32_P4 :: "32 word" where "XXH32_P4 = 668265263"
definition XXH32_P5 :: "32 word" where "XXH32_P5 = 374761393"
definition XXH32_SEED :: "32 word" where "XXH32_SEED = 0"

lemmas xxh_constants = XXH32_P1_def XXH32_P2_def XXH32_P3_def XXH32_P4_def XXH32_P5_def XXH32_SEED_def

text \<open>The last five assignments of every variant.\<close>

definition finish_hash :: "32 word \<Rightarrow> 32 word" where
  "finish_hash h =
     (let h = h XOR drop_bit 15 h;
          h = h * XXH32_P2;
          h = h XOR drop_bit 13 h;
          h = h * XXH32_P3
      in h XOR drop_bit 16 h)"

definition hash_word :: "32 word \<Rightarrow> 32 word \<Rightarrow> 32 word" where
  "hash_word h key = word_rotl 17 (h + key * XXH32_P3) * XXH32_P4"

definition hash32 :: "32 word \<Rightarrow> 32 word \<Rightarrow> 32 word" where
  "hash32 key len = finish_hash (hash_word (XXH32_SEED + XXH32_P5 + len) key)"

definition hash64 :: "64 word \<Rightarrow> 32 word" where
  "hash64 key = finish_hash (hash_word (hash_word (XXH32_SEED + XXH32_P5 + 8) (ucast key)) (ucast (drop_bit 32 key)))"

definition mix :: "32 word \<Rightarrow> 32 word \<Rightarrow> 32 word" where
  "mix h key = word_rotl 13 (h + key * XXH32_P2) * XXH32_P1"

text \<open>A string's bytes, low byte of each code unit first, and the little-endian load of four of them.\<close>

definition utf16_bytes :: "16 word list \<Rightarrow> 8 word list" where
  "utf16_bytes key = concat (map (\<lambda>c. [ucast c, ucast (drop_bit 8 c)]) key)"

definition load_u32 :: "8 word list \<Rightarrow> nat \<Rightarrow> 32 word" where
  "load_u32 bytes pos =
     ucast (bytes ! pos) OR push_bit 8 (ucast (bytes ! (pos + 1)))
     OR push_bit 16 (ucast (bytes ! (pos + 2))) OR push_bit 24 (ucast (bytes ! (pos + 3)))"

function mix_loop :: "8 word list \<Rightarrow> nat \<Rightarrow> 32 word \<times> 32 word \<times> 32 word \<times> 32 word
    \<Rightarrow> nat \<times> 32 word \<times> 32 word \<times> 32 word \<times> 32 word" where
  "mix_loop bytes pos (s1, s2, s3, s4) =
     (if pos + 16 \<le> length bytes
      then mix_loop bytes (pos + 16)
        (mix s1 (load_u32 bytes pos), mix s2 (load_u32 bytes (pos + 4)),
         mix s3 (load_u32 bytes (pos + 8)), mix s4 (load_u32 bytes (pos + 12)))
      else (pos, s1, s2, s3, s4))"
  by pat_completeness auto
termination by (relation "measure (\<lambda>(bytes, pos, s). length bytes - pos)") auto

function word_loop :: "8 word list \<Rightarrow> nat \<Rightarrow> 32 word \<Rightarrow> nat \<times> 32 word" where
  "word_loop bytes pos h =
     (if pos + 4 \<le> length bytes then word_loop bytes (pos + 4) (hash_word h (load_u32 bytes pos)) else (pos, h))"
  by pat_completeness auto
termination by (relation "measure (\<lambda>(bytes, pos, s). length bytes - pos)") auto

function byte_loop :: "8 word list \<Rightarrow> nat \<Rightarrow> 32 word \<Rightarrow> 32 word" where
  "byte_loop bytes pos h =
     (if pos < length bytes
      then byte_loop bytes (pos + 1) (word_rotl 11 (h + ucast (bytes ! pos) * XXH32_P5) * XXH32_P1) else h)"
  by pat_completeness auto
termination by (relation "measure (\<lambda>(bytes, pos, s). length bytes - pos)") auto

definition hashStr :: "16 word list option \<Rightarrow> 32 word" where
  "hashStr str = (case str of None \<Rightarrow> XXH32_SEED | Some key \<Rightarrow>
     (let bytes = utf16_bytes key;
          h = of_nat (2 * length key);
          (pos, h) =
            (if length bytes \<ge> 16
             then (case mix_loop bytes 0
                 (XXH32_SEED + XXH32_P1 + XXH32_P2, XXH32_SEED + XXH32_P2, XXH32_SEED, XXH32_SEED - XXH32_P1) of
               (pos, s1, s2, s3, s4) \<Rightarrow>
                 (pos, h + (word_rotl 1 s1 + word_rotl 7 s2 + word_rotl 12 s3 + word_rotl 18 s4)))
             else (0, h + (XXH32_SEED + XXH32_P5)));
          (pos, h) = word_loop bytes pos h
      in finish_hash (byte_loop bytes pos h)))"

text \<open>
  The hash of a key by its type: a string, a reference of 32 bits, an integer of at most 32 bits with its size
  in bytes, an integer of 64 bits, and the bits of an \<open>f32\<close> and of an \<open>f64\<close>.
\<close>

datatype hash_key =
    KeyString "16 word list option"
  | KeyWord "32 word"
  | KeyInteger "32 word" nat
  | KeyLong "64 word"
  | KeyFloat "32 word"
  | KeyDouble "64 word"

fun HASH :: "hash_key \<Rightarrow> 32 word" where
  "HASH (KeyString key) = hashStr key"
| "HASH (KeyWord key) = hash32 key 4"
| "HASH (KeyInteger key bytes) = hash32 key (of_nat bytes)"
| "HASH (KeyLong key) = hash64 key"
| "HASH (KeyFloat key) = hash32 key 4"
| "HASH (KeyDouble key) = hash64 key"

declare mix_loop.simps [simp del] word_loop.simps [simp del] byte_loop.simps [simp del]

section \<open>Laws\<close>

text \<open>Every step of the hash can be undone: odd factors have inverses, rotations and shifted exclusive ors are injective.\<close>

lemma cancel_factor: "a * p = b * p \<Longrightarrow> p * q = 1 \<Longrightarrow> a = (b :: 32 word)"
proof -
  assume eq: "a * p = b * p" and q: "p * q = 1"
  have "a = a * p * q" using q by (simp add: mult.assoc)
  also have "\<dots> = b * p * q" using eq by simp
  also have "\<dots> = b" using q by (simp add: mult.assoc)
  finally show ?thesis .
qed

lemma xor_shift_cancel:
  fixes a b :: "32 word"
  assumes "a XOR drop_bit n a = b XOR drop_bit n b" "0 < n"
  shows "a = b"
proof (rule bit_word_eqI)
  fix i assume "i < LENGTH(32)"
  have same: "bit a i = bit b i" for i
  proof (induction "32 - i" arbitrary: i rule: less_induct)
    case less
    show ?case
    proof (cases "i < 32")
      case True
      have "bit a (i + n) = bit b (i + n)"
        using True assms(2) by (intro less.hyps) simp
      moreover have "bit (a XOR drop_bit n a) i = bit (b XOR drop_bit n b) i" using assms(1) by simp
      ultimately show ?thesis by (auto simp: bit_xor_iff bit_drop_bit_eq add.commute)
    next
      case False
      then show ?thesis by (simp add: bit_word.rep_eq impossible_bit)
    qed
  qed
  show "bit a i = bit b i" by (rule same)
qed

lemma finish_hash_inject: "finish_hash a = finish_hash b \<Longrightarrow> a = b"
  unfolding finish_hash_def Let_def
  by (drule xor_shift_cancel, simp, drule cancel_factor[where q = 2828982549], simp add: xxh_constants,
      drule xor_shift_cancel, simp, drule cancel_factor[where q = 3066638151], simp add: xxh_constants,
      erule xor_shift_cancel, simp)

lemma hash_word_inject: "hash_word h a = hash_word h b \<Longrightarrow> a = b"
proof -
  assume "hash_word h a = hash_word h b"
  then have "word_rotl 17 (h + a * XXH32_P3) = word_rotl 17 (h + b * XXH32_P3)"
    unfolding hash_word_def by (rule cancel_factor[where q = 2701016015]) (simp add: xxh_constants)
  then have "h + a * XXH32_P3 = h + b * XXH32_P3"
    by (metis word_rot_lr)
  then have "a * XXH32_P3 = b * XXH32_P3" by simp
  then show "a = b"
    by (rule cancel_factor[where q = 2828982549]) (simp add: xxh_constants)
qed

lemma hash32_inject: "hash32 a len = hash32 b len \<longleftrightarrow> a = b"
  unfolding hash32_def by (auto dest: finish_hash_inject hash_word_inject)

end
