(* ===== verification/As_Map.thy ===== *)
theory As_Map
  imports As_Hash "HOL-Library.Signed_Division"
begin

unbundle bit_operations_syntax

text \<open>
  \<open>std/map.ts\<close>, the hash map of the standard library: buckets that point to chains of entries, and a buffer of
  entries in insertion order that is copied when it is full of live and deleted entries or has become too
  large. A pointer to an entry is its index in the buffer, \<open>None\<close> the null pointer; the tag in the lowest bit of
  \<open>taggedNext\<close> is the field \<open>e_empty\<close>. The comparison \<open>==\<close> of the key type, its hash function and the size of an
  entry are parameters, \<open>key_eq\<close>, \<open>HASH\<close> and \<open>ENTRY_SIZE\<close> are their definitions. The comparison need not be
  equality of keys: of floats it identifies the two zeros, whose hashes differ, and no NaN equals itself. The
  links of the garbage collector and its visitor are left out.
\<close>

section \<open>Data\<close>

record ('k, 'v) map_entry =
  e_key :: 'k
  e_value :: 'v
  e_next :: "nat option"
  e_empty :: bool

record ('k, 'v) hash_map =
  m_buckets :: "nat option list"
  m_mask :: "32 word"
  m_entries :: "('k, 'v) map_entry option list"
  m_capacity :: int
  m_offset :: int
  m_count :: int

definition INITIAL_CAPACITY :: int where "INITIAL_CAPACITY = 4"
definition FILL_FACTOR_N :: int where "FILL_FACTOR_N = 8"
definition FILL_FACTOR_D :: int where "FILL_FACTOR_D = 3"
definition FREE_FACTOR_N :: int where "FREE_FACTOR_N = 3"
definition FREE_FACTOR_D :: int where "FREE_FACTOR_D = 4"
definition BUCKET_SIZE :: int where "BUCKET_SIZE = 4"

lemmas map_constants = INITIAL_CAPACITY_def FILL_FACTOR_N_def FILL_FACTOR_D_def FREE_FACTOR_N_def
  FREE_FACTOR_D_def BUCKET_SIZE_def

text \<open>The size of an entry, from the sizes of a key and a value: fields at their natural alignment.\<close>

definition align_up :: "int \<Rightarrow> int \<Rightarrow> int" where
  "align_up n width = (n + (width - 1)) AND NOT (width - 1)"

definition entry_offset :: "int \<Rightarrow> int \<Rightarrow> int" where
  "entry_offset key_size value_size = align_up (align_up key_size value_size + value_size) 4 + 4"

definition ENTRY_ALIGN :: "int \<Rightarrow> int \<Rightarrow> int" where
  "ENTRY_ALIGN key_size value_size =
     (let maxkv = (if key_size > value_size then key_size else value_size)
      in (if maxkv > 4 then maxkv else 4) - 1)"

definition ENTRY_SIZE :: "int \<Rightarrow> int \<Rightarrow> int" where
  "ENTRY_SIZE key_size value_size =
     (let align = ENTRY_ALIGN key_size value_size in (entry_offset key_size value_size + align) AND NOT align)"

definition new_map :: "('k, 'v) hash_map" where
  "new_map =
     \<lparr>m_buckets = replicate 4 None, m_mask = 3, m_entries = replicate 4 None, m_capacity = INITIAL_CAPACITY,
      m_offset = 0, m_count = 0\<rparr>"

text \<open>
  The comparison \<open>entry.key == key\<close> by the type of the keys: floats, given by their bits, as IEEE 754 says;
  strings by their text and everything else by its bits.
\<close>

definition float_nan :: "32 word \<Rightarrow> bool" where
  "float_nan x \<longleftrightarrow> 0x7F800000 < x AND 0x7FFFFFFF"

definition double_nan :: "64 word \<Rightarrow> bool" where
  "double_nan x \<longleftrightarrow> 0x7FF0000000000000 < x AND 0x7FFFFFFFFFFFFFFF"

fun key_eq :: "hash_key \<Rightarrow> hash_key \<Rightarrow> bool" where
  "key_eq (KeyFloat a) (KeyFloat b) =
     (\<not> float_nan a \<and> \<not> float_nan b \<and> (a = b \<or> a AND 0x7FFFFFFF = 0 \<and> b AND 0x7FFFFFFF = 0))"
| "key_eq (KeyDouble a) (KeyDouble b) =
     (\<not> double_nan a \<and> \<not> double_nan b \<and> (a = b \<or> a AND 0x7FFFFFFFFFFFFFFF = 0 \<and> b AND 0x7FFFFFFFFFFFFFFF = 0))"
| "key_eq a b = (a = b)"

section \<open>Operations\<close>

definition map_clear :: "('k, 'v) hash_map \<Rightarrow> ('k, 'v) hash_map" where
  "map_clear m =
     m\<lparr>m_buckets := replicate 4 None, m_mask := 3, m_entries := replicate 4 None, m_capacity := INITIAL_CAPACITY,
       m_offset := 0, m_count := 0\<rparr>"

definition map_size :: "('k, 'v) hash_map \<Rightarrow> int" where
  "map_size m = m_count m"

text \<open>The walk along a chain; a chain without end uses up the fuel and is \<open>None\<close>.\<close>

fun find_loop :: "('k \<Rightarrow> 'k \<Rightarrow> bool) \<Rightarrow> nat \<Rightarrow> ('k, 'v) map_entry option list \<Rightarrow> 'k \<Rightarrow> nat option \<Rightarrow> nat option option" where
  "find_loop eq fuel es key None = Some None"
| "find_loop eq 0 es key (Some p) = None"
| "find_loop eq (Suc fuel) es key (Some p) = do {
     e \<leftarrow> load_slot es (int p);
     if \<not> e_empty e \<and> eq (e_key e) key then Some (Some p) else find_loop eq fuel es key (e_next e)
   }"

definition map_find :: "('k \<Rightarrow> 'k \<Rightarrow> bool) \<Rightarrow> ('k, 'v) hash_map \<Rightarrow> 'k \<Rightarrow> 32 word \<Rightarrow> nat option option" where
  "map_find eq m key hash_code = do {
     entry \<leftarrow> load_at (m_buckets m) (uint (hash_code AND m_mask m));
     find_loop eq (length (m_entries m)) (m_entries m) key entry
   }"

definition map_has :: "('k \<Rightarrow> 'k \<Rightarrow> bool) \<Rightarrow> ('k \<Rightarrow> 32 word) \<Rightarrow> ('k, 'v) hash_map \<Rightarrow> 'k \<Rightarrow> bool option" where
  "map_has eq hash m key = do { entry \<leftarrow> map_find eq m key (hash key); Some (entry \<noteq> None) }"

definition map_get :: "('k \<Rightarrow> 'k \<Rightarrow> bool) \<Rightarrow> ('k \<Rightarrow> 32 word) \<Rightarrow> ('k, 'v) hash_map \<Rightarrow> 'k \<Rightarrow> (string + 'v) option" where
  "map_get eq hash m key = do {
     entry \<leftarrow> map_find eq m key (hash key);
     case entry of None \<Rightarrow> Some (Inl E_KEYNOTFOUND)
     | Some p \<Rightarrow> do { e \<leftarrow> load_slot (m_entries m) (int p); Some (Inr (e_value e)) }
   }"

text \<open>An entry is written to the slot \<open>p\<close> and put at the head of its bucket's chain.\<close>

definition push_entry ::
  "32 word \<Rightarrow> 'k \<Rightarrow> 'v \<Rightarrow> 32 word \<Rightarrow> int \<Rightarrow> nat option list \<Rightarrow> ('k, 'v) map_entry option list
   \<Rightarrow> (nat option list \<times> ('k, 'v) map_entry option list) option" where
  "push_entry hash_code key value new_mask p buckets es = do {
     let index = uint (hash_code AND new_mask);
     head \<leftarrow> load_at buckets index;
     es \<leftarrow> store_at es p (Some \<lparr>e_key = key, e_value = value, e_next = head, e_empty = False\<rparr>);
     buckets \<leftarrow> store_at buckets index (Some (nat p));
     Some (buckets, es)
   }"

fun rehash_loop ::
  "('k \<Rightarrow> 32 word) \<Rightarrow> 32 word \<Rightarrow> ('k, 'v) map_entry option list \<Rightarrow> int \<Rightarrow> nat option list
   \<Rightarrow> ('k, 'v) map_entry option list \<Rightarrow> (nat option list \<times> ('k, 'v) map_entry option list) option" where
  "rehash_loop hash new_mask [] p buckets es = Some (buckets, es)"
| "rehash_loop hash new_mask (old # olds) p buckets es = do {
     e \<leftarrow> old;
     if \<not> e_empty e then do {
       (buckets, es) \<leftarrow> push_entry (hash (e_key e)) (e_key e) (e_value e) new_mask p buckets es;
       rehash_loop hash new_mask olds (p + 1) buckets es
     } else rehash_loop hash new_mask olds p buckets es
   }"

definition map_rehash ::
  "('k \<Rightarrow> 32 word) \<Rightarrow> int \<Rightarrow> ('k, 'v) hash_map \<Rightarrow> 32 word \<Rightarrow> ((string + unit) \<times> ('k, 'v) hash_map) option" where
  "map_rehash hash entry_size m new_mask =
     (let buckets_capacity = i32 (uint (new_mask + 1));
          capacity = i32 (buckets_capacity * FILL_FACTOR_N) sdiv FILL_FACTOR_D
      in case buffer_error (i32 (buckets_capacity * BUCKET_SIZE)) of Some err \<Rightarrow> Some (Inl err, m)
      | None \<Rightarrow> (case buffer_error (i32 (capacity * entry_size)) of Some err \<Rightarrow> Some (Inl err, m)
        | None \<Rightarrow> do {
          (buckets, es) \<leftarrow> rehash_loop hash new_mask (take (nat (m_offset m)) (m_entries m)) 0
             (replicate (nat buckets_capacity) None) (replicate (nat capacity) None);
          Some (Inr (), m\<lparr>m_buckets := buckets, m_mask := new_mask, m_entries := es, m_capacity := capacity,
             m_offset := m_count m\<rparr>)
        }))"

definition map_set ::
  "('k \<Rightarrow> 'k \<Rightarrow> bool) \<Rightarrow> ('k \<Rightarrow> 32 word) \<Rightarrow> int \<Rightarrow> ('k, 'v) hash_map \<Rightarrow> 'k \<Rightarrow> 'v \<Rightarrow> ((string + unit) \<times> ('k, 'v) hash_map) option" where
  "map_set eq hash entry_size m key value = do {
     let hash_code = hash key;
     entry \<leftarrow> map_find eq m key hash_code;
     case entry of
       Some p \<Rightarrow> do {
         e \<leftarrow> load_slot (m_entries m) (int p);
         es \<leftarrow> store_at (m_entries m) (int p) (Some (e\<lparr>e_value := value\<rparr>));
         Some (Inr (), m\<lparr>m_entries := es\<rparr>)
       }
     | None \<Rightarrow> do {
         (r, m) \<leftarrow>
           (if m_offset m = m_capacity m
            then map_rehash hash entry_size m
              (if m_count m < i32 (m_capacity m * FREE_FACTOR_N) sdiv FREE_FACTOR_D then m_mask m
               else push_bit 1 (m_mask m) OR 1)
            else Some (Inr (), m));
         case r of Inl err \<Rightarrow> Some (Inl err, m)
         | Inr _ \<Rightarrow> do {
             (buckets, es) \<leftarrow> push_entry hash_code key value (m_mask m) (m_offset m) (m_buckets m) (m_entries m);
             Some (Inr (), m\<lparr>m_buckets := buckets, m_entries := es, m_offset := m_offset m + 1, m_count := m_count m + 1\<rparr>)
           }
       }
   }"

definition map_delete ::
  "('k \<Rightarrow> 'k \<Rightarrow> bool) \<Rightarrow> ('k \<Rightarrow> 32 word) \<Rightarrow> int \<Rightarrow> ('k, 'v) hash_map \<Rightarrow> 'k \<Rightarrow> ((string + bool) \<times> ('k, 'v) hash_map) option" where
  "map_delete eq hash entry_size m key = do {
     entry \<leftarrow> map_find eq m key (hash key);
     case entry of
       None \<Rightarrow> Some (Inr False, m)
     | Some p \<Rightarrow> do {
         e \<leftarrow> load_slot (m_entries m) (int p);
         es \<leftarrow> store_at (m_entries m) (int p) (Some (e\<lparr>e_empty := True\<rparr>));
         let m = m\<lparr>m_entries := es, m_count := m_count m - 1\<rparr>;
         let half = drop_bit 1 (m_mask m);
         if max (word_of_int INITIAL_CAPACITY) (word_of_int (m_count m)) \<le> half + 1
            \<and> m_count m < i32 (m_capacity m * FREE_FACTOR_N) sdiv FREE_FACTOR_D
         then do {
           (r, m) \<leftarrow> map_rehash hash entry_size m half;
           case r of Inl err \<Rightarrow> Some (Inl err, m) | Inr _ \<Rightarrow> Some (Inr True, m)
         } else Some (Inr True, m)
       }
   }"

text \<open>The arrays of keys and of values.\<close>

fun map_collect :: "(('k, 'v) map_entry \<Rightarrow> 'a) \<Rightarrow> ('k, 'v) map_entry option list \<Rightarrow> 'a list option" where
  "map_collect field [] = Some []"
| "map_collect field (slot # slots) = do {
     e \<leftarrow> slot;
     if \<not> e_empty e then do { xs \<leftarrow> map_collect field slots; Some (field e # xs) } else map_collect field slots
   }"

definition map_keys :: "('k, 'v) hash_map \<Rightarrow> 'k list option" where
  "map_keys m = map_collect e_key (take (nat (m_offset m)) (m_entries m))"

definition map_values :: "('k, 'v) hash_map \<Rightarrow> 'v list option" where
  "map_values m = map_collect e_value (take (nat (m_offset m)) (m_entries m))"

section \<open>Runs\<close>

text \<open>The operations of a map, what they answer, and runs of operations of any state.\<close>

datatype ('k, 'v) map_op =
    MSet 'k 'v
  | MDelete 'k
  | MGet 'k
  | MHas 'k
  | MSize
  | MKeys
  | MValues
  | MClear

datatype ('k, 'v) map_answer =
    Done
  | Bool bool
  | Value 'v
  | Throw string
  | Number int
  | Keys "'k list"
  | Values "'v list"

definition map_step ::
  "('k \<Rightarrow> 'k \<Rightarrow> bool) \<Rightarrow> ('k \<Rightarrow> 32 word) \<Rightarrow> int \<Rightarrow> ('k, 'v) map_op \<Rightarrow> ('k, 'v) hash_map \<Rightarrow> (('k, 'v) map_answer \<times> ('k, 'v) hash_map) option" where
  "map_step eq hash entry_size x m = (case x of
     MSet k v \<Rightarrow> do { (r, m) \<leftarrow> map_set eq hash entry_size m k v; Some (case r of Inl err \<Rightarrow> Throw err | Inr _ \<Rightarrow> Done, m) }
   | MDelete k \<Rightarrow> do { (r, m) \<leftarrow> map_delete eq hash entry_size m k; Some (case r of Inl err \<Rightarrow> Throw err | Inr b \<Rightarrow> Bool b, m) }
   | MGet k \<Rightarrow> do { r \<leftarrow> map_get eq hash m k; Some (case r of Inl err \<Rightarrow> Throw err | Inr v \<Rightarrow> Value v, m) }
   | MHas k \<Rightarrow> do { b \<leftarrow> map_has eq hash m k; Some (Bool b, m) }
   | MSize \<Rightarrow> Some (Number (map_size m), m)
   | MKeys \<Rightarrow> do { ks \<leftarrow> map_keys m; Some (Keys ks, m) }
   | MValues \<Rightarrow> do { vs \<leftarrow> map_values m; Some (Values vs, m) }
   | MClear \<Rightarrow> Some (Done, map_clear m))"

fun run_ops :: "('op \<Rightarrow> 's \<Rightarrow> ('r \<times> 's) option) \<Rightarrow> 'op list \<Rightarrow> 's \<Rightarrow> ('r list \<times> 's) option" where
  "run_ops step [] s = Some ([], s)"
| "run_ops step (x # xs) s = do { (r, s) \<leftarrow> step x s; (rs, s) \<leftarrow> run_ops step xs s; Some (r # rs, s) }"

end
