(* ===== verification/As_Map_Laws.thy ===== *)
theory As_Map_Laws
  imports As_Map
begin

unbundle bit_operations_syntax

text \<open>
  The laws of the hash map. Its entries read in order are an insertion-ordered dictionary of the prelude, and
  each operation is the dictionary's; the invariant ties the chains of the buckets to the entries.
\<close>

section \<open>Chains\<close>

type_synonym ('k, 'v) entry = "('k, 'v) map_entry"

definition bucket_of :: "('k \<Rightarrow> 32 word) \<Rightarrow> 32 word \<Rightarrow> ('k, 'v) entry \<Rightarrow> nat" where
  "bucket_of hash bmask e = unat (hash (e_key e) AND bmask)"

text \<open>The entries of a bucket, the newest first, and the chain that runs through them.\<close>

definition members :: "('k \<Rightarrow> 32 word) \<Rightarrow> 32 word \<Rightarrow> ('k, 'v) entry list \<Rightarrow> nat \<Rightarrow> nat list" where
  "members hash bmask es b = rev (filter (\<lambda>i. bucket_of hash bmask (es ! i) = b) [0..<length es])"

fun chain :: "('k, 'v) entry list \<Rightarrow> nat option \<Rightarrow> nat list \<Rightarrow> bool" where
  "chain es ptr [] \<longleftrightarrow> ptr = None"
| "chain es ptr (i # is) \<longleftrightarrow> ptr = Some i \<and> i < length es \<and> chain es (e_next (es ! i)) is"

definition linked :: "('k \<Rightarrow> 32 word) \<Rightarrow> 32 word \<Rightarrow> nat option list \<Rightarrow> ('k, 'v) entry list \<Rightarrow> bool" where
  "linked hash bmask buckets es \<longleftrightarrow>
     length buckets = unat bmask + 1 \<and> (\<forall>b<length buckets. chain es (buckets ! b) (members hash bmask es b))"

definition dict_of :: "('k, 'v) entry list \<Rightarrow> ('k, 'v) dict" where
  "dict_of es = map (\<lambda>e. (e_key e, e_value e)) (filter (\<lambda>e. \<not> e_empty e) es)"

definition slots :: "nat \<Rightarrow> ('k, 'v) entry list \<Rightarrow> ('k, 'v) entry option list" where
  "slots c es = map Some es @ replicate (c - length es) None"

lemma dict_of_simps [simp]: "dict_of [] = []" "dict_of (xs @ ys) = dict_of xs @ dict_of ys"
    "dict_of (e # es) = (if e_empty e then dict_of es else (e_key e, e_value e) # dict_of es)"
  by (simp_all add: dict_of_def)

lemma index_below: "unat (h AND bmask) < unat bmask + (1 :: nat)"
  using word_and_le1[of h bmask] by (simp add: word_le_nat_alt)

lemma load_uint: "unat w < length xs \<Longrightarrow> load_at xs (uint w) = Some (xs ! unat w)"
  by (simp add: load_at_def nat_uint_eq flip: of_nat_less_iff[where 'a = int])

lemma store_uint: "unat w < length xs \<Longrightarrow> store_at xs (uint w) v = Some (xs[unat w := v])"
  by (simp add: store_at_def nat_uint_eq flip: of_nat_less_iff[where 'a = int])

lemma field_update: "f e = f (es ! p) \<Longrightarrow> f (es[p := e] ! i) = f (es ! i)"
  by (cases "i = p"; cases "p < length es") (auto simp: list_update_beyond)

lemma load_slots: "p < length es \<Longrightarrow> length es \<le> c \<Longrightarrow> load_slot (slots c es) (int p) = Some (es ! p)"
  by (simp add: load_slot_def load_nth slots_def nth_append)

lemma store_slots: "p < length es \<Longrightarrow> store_at (slots c es) (int p) (Some e) = Some (slots c (es[p := e]))"
  by (simp add: store_nth slots_def list_update_append map_update)

lemma store_next: "length es < c \<Longrightarrow> store_at (slots c es) (int (length es)) (Some e) = Some (slots c (es @ [e]))"
proof -
  assume "length es < c"
  then obtain n where "c - length es = Suc n" "c - Suc (length es) = n"
    by (metis Suc_diff_Suc)
  then show ?thesis by (simp add: slots_def store_mid)
qed

lemma members_snoc: "members hash bmask (es @ [e]) b =
    (if bucket_of hash bmask e = b then [length es] else []) @ members hash bmask es b"
proof -
  have "filter (\<lambda>i. bucket_of hash bmask ((es @ [e]) ! i) = b) [0..<length es]
      = filter (\<lambda>i. bucket_of hash bmask (es ! i) = b) [0..<length es]"
    by (intro filter_cong) (auto simp: nth_append)
  then show ?thesis by (simp add: members_def)
qed

lemma chain_snoc: "chain es ptr is \<Longrightarrow> chain (es @ [e]) ptr is"
  by (induction es ptr "is" rule: chain.induct) (auto simp: nth_append)

lemma chain_update: "e_next e = e_next (es ! p) \<Longrightarrow> chain (es[p := e]) ptr is \<longleftrightarrow> chain es ptr is"
  by (induction es ptr "is" rule: chain.induct) (simp_all add: field_update)

lemma linked_update:
  assumes "linked hash bmask buckets es" "e_next e = e_next (es ! p)" "e_key e = e_key (es ! p)"
  shows "linked hash bmask buckets (es[p := e])"
proof -
  have "members hash bmask (es[p := e]) b = members hash bmask es b" for b
    unfolding members_def bucket_of_def using assms(3) by (simp add: field_update)
  with assms show ?thesis by (simp add: linked_def chain_update)
qed

lemma linked_empty: "linked hash bmask (replicate (unat bmask + 1) None) []"
  by (auto simp: linked_def members_def simp del: replicate.simps upt.simps)

text \<open>A new entry at the head of its chain.\<close>

lemma push_entry_spec:
  assumes "linked hash bmask buckets es" "length es < c"
  obtains buckets' e where
    "push_entry (hash key) key value bmask (int (length es)) buckets (slots c es) = Some (buckets', slots c (es @ [e]))"
    "linked hash bmask buckets' (es @ [e])" "e_key e = key" "e_value e = value" "\<not> e_empty e"
proof -
  let ?b = "unat (hash key AND bmask)"
  let ?e = "\<lparr>e_key = key, e_value = value, e_next = buckets ! ?b, e_empty = False\<rparr>"
  let ?buckets = "buckets[?b := Some (length es)]"
  have b: "?b = bucket_of hash bmask ?e" by (simp add: bucket_of_def)
  have inside: "?b < length buckets"
    using index_below assms(1) by (simp add: linked_def)
  have pushed: "push_entry (hash key) key value bmask (int (length es)) buckets (slots c es) = Some (?buckets, slots c (es @ [?e]))"
    unfolding push_entry_def Let_def using inside assms(2)
    by (simp add: load_uint store_uint store_next)
  have "linked hash bmask ?buckets (es @ [?e])"
    unfolding linked_def
  proof (intro conjI allI impI)
    show "length ?buckets = unat bmask + 1" using assms(1) by (simp add: linked_def)
  next
    fix i assume "i < length ?buckets"
    then have "chain es (buckets ! i) (members hash bmask es i)" using assms(1) by (simp add: linked_def)
    then show "chain (es @ [?e]) (?buckets ! i) (members hash bmask (es @ [?e]) i)"
      using inside by (auto simp: members_snoc b[symmetric] chain_snoc)
  qed
  then show ?thesis by (rule that[OF pushed]) simp_all
qed

section \<open>Finding\<close>

lemma find_loop_chain:
  "chain es ptr is \<Longrightarrow> length is \<le> fuel \<Longrightarrow> length es \<le> c \<Longrightarrow>
   find_loop (=) fuel (slots c es) key ptr = Some (List.find (\<lambda>i. \<not> e_empty (es ! i) \<and> e_key (es ! i) = key) is)"
proof (induction es ptr "is" arbitrary: fuel rule: chain.induct)
  case (2 es ptr i "is")
  then obtain n where "fuel = Suc n" by (cases fuel) auto
  with 2 show ?case by (simp add: load_slots)
qed simp

text \<open>A live entry of the key, or none: then the dictionary has no such key.\<close>

definition found :: "('k, 'v) entry list \<Rightarrow> 'k \<Rightarrow> nat option \<Rightarrow> bool" where
  "found es key r \<longleftrightarrow> (case r of None \<Rightarrow> dget (dict_of es) key = None
     | Some p \<Rightarrow> p < length es \<and> \<not> e_empty (es ! p) \<and> e_key (es ! p) = key
         \<and> dget (dict_of es) key = Some (e_value (es ! p)))"

lemma mem_dict_of: "(k, v) \<in> set (dict_of es) \<longleftrightarrow> (\<exists>i<length es. \<not> e_empty (es ! i) \<and> e_key (es ! i) = k \<and> e_value (es ! i) = v)"
  by (auto simp: dict_of_def in_set_conv_nth)

lemma find_found:
  assumes "linked hash bmask buckets es" "dwf (dict_of es)" "length es \<le> c" "m_buckets m = buckets" "m_mask m = bmask"
    "m_entries m = slots c es"
  obtains r where "map_find (=) m key (hash key) = Some r" "found es key r"
proof -
  let ?b = "unat (hash key AND bmask)"
  let ?live = "\<lambda>i. \<not> e_empty (es ! i) \<and> e_key (es ! i) = key"
  let ?r = "List.find ?live (members hash bmask es ?b)"
  have inside: "?b < length buckets"
    using index_below assms(1) by (simp add: linked_def)
  have "length (members hash bmask es ?b) \<le> length es"
    using length_filter_le[of _ "[0..<length es]"] by (simp add: members_def)
  moreover have "length (slots c es) = c" using assms(3) by (simp add: slots_def)
  moreover have "chain es (buckets ! ?b) (members hash bmask es ?b)"
    using assms(1) inside by (simp add: linked_def)
  ultimately have find: "map_find (=) m key (hash key) = Some ?r"
    using inside assms(3-6) unfolding map_find_def
    by (simp add: load_uint find_loop_chain)
  have "found es key ?r"
  proof (cases ?r)
    case None
    then have "\<forall>i<length es. \<not> ?live i"
      by (auto simp: find_None_iff members_def bucket_of_def)
    then have "dget (dict_of es) key = None"
      unfolding dget_None_iff dkeys_def by (auto simp: mem_dict_of)
    with None show ?thesis by (simp add: found_def)
  next
    case (Some p)
    then have "?live p" "p \<in> set (members hash bmask es ?b)" by (auto simp: find_Some_iff)
    then have "?live p" "p < length es" by (simp_all add: members_def)
    moreover from this have "(key, e_value (es ! p)) \<in> set (dict_of es)" by (auto simp: mem_dict_of)
    ultimately show ?thesis using Some mem_dget[OF assms(2)] by (simp add: found_def)
  qed
  with find show ?thesis by (rule that)
qed


section \<open>Rehashing\<close>

text \<open>The copy keeps the live entries, in order, and links them anew.\<close>

lemma rehash_loop_spec:
  "linked hash bmask buckets es \<Longrightarrow> length es + length (dict_of olds) \<le> c \<Longrightarrow>
   \<exists>buckets' news. rehash_loop hash bmask (map Some olds) (int (length es)) buckets (slots c es)
       = Some (buckets', slots c (es @ news))
     \<and> linked hash bmask buckets' (es @ news) \<and> dict_of news = dict_of olds \<and> (\<forall>e\<in>set news. \<not> e_empty e)"
proof (induction olds arbitrary: buckets es)
  case Nil
  then show ?case by (auto intro: exI[of _ "[]"])
next
  case (Cons old olds)
  show ?case
  proof (cases "e_empty old")
    case True
    with Cons show ?thesis by simp
  next
    case False
    obtain buckets1 e where e:
        "push_entry (hash (e_key old)) (e_key old) (e_value old) bmask (int (length es)) buckets (slots c es)
          = Some (buckets1, slots c (es @ [e]))"
        "linked hash bmask buckets1 (es @ [e])" "e_key e = e_key old" "e_value e = e_value old" "\<not> e_empty e"
      using push_entry_spec[OF Cons.prems(1), of c "e_key old" "e_value old"] Cons.prems(2) False by auto
    have "length (es @ [e]) + length (dict_of olds) \<le> c" using Cons.prems(2) False by simp
    from Cons.IH[OF e(2) this] obtain buckets' news where news:
        "rehash_loop hash bmask (map Some olds) (int (length es) + 1) buckets1 (slots c (es @ [e]))
          = Some (buckets', slots c (es @ e # news))"
        "linked hash bmask buckets' (es @ e # news)" "dict_of news = dict_of olds" "\<forall>e\<in>set news. \<not> e_empty e"
      by (auto simp: add.commute)
    then show ?thesis
      using e False by (intro exI[of _ buckets'] exI[of _ "e # news"]) simp
  qed
qed

text \<open>
  The invariant: $2^k$ buckets for some \<open>k\<close>, at most as many entries as there is room for, the live ones with
  distinct keys, and chains through all of them. The capacity is 4 at first and \<open>2 ^ k * 8 / 3\<close> after a rehash.
\<close>

definition capacity_for :: "nat \<Rightarrow> nat" where
  "capacity_for k = 2 ^ k * 8 div 3"

definition fits :: "int \<Rightarrow> nat \<Rightarrow> bool" where
  "fits entry_size k \<longleftrightarrow> 2 ^ k * 4 < OBJECT_MAXSIZE \<and> int (capacity_for k) * entry_size < OBJECT_MAXSIZE"

definition shaped :: "int \<Rightarrow> ('k, 'v) hash_map \<Rightarrow> nat \<Rightarrow> bool" where
  "shaped entry_size m k \<longleftrightarrow> 2 \<le> k \<and> m_mask m = mask k \<and> fits entry_size k
     \<and> (m_capacity m = int (capacity_for k) \<or> k = 2 \<and> m_capacity m = 4)"

definition holds :: "('k \<Rightarrow> 32 word) \<Rightarrow> ('k, 'v) hash_map \<Rightarrow> ('k, 'v) entry list \<Rightarrow> bool" where
  "holds hash m es \<longleftrightarrow> m_entries m = slots (nat (m_capacity m)) es \<and> length es \<le> nat (m_capacity m)
     \<and> m_offset m = int (length es) \<and> m_count m = int (length (dict_of es))
     \<and> linked hash (m_mask m) (m_buckets m) es \<and> dwf (dict_of es)"

definition map_ok :: "('k \<Rightarrow> 32 word) \<Rightarrow> int \<Rightarrow> ('k, 'v) hash_map \<Rightarrow> bool" where
  "map_ok hash entry_size m \<longleftrightarrow> (\<exists>k. shaped entry_size m k) \<and> (\<exists>es. holds hash m es)"

text \<open>The dictionary of a map: its written entries that are not deleted.\<close>

definition map_dict :: "('k, 'v) hash_map \<Rightarrow> ('k, 'v) dict" where
  "map_dict m = dict_of (map the (take (nat (m_offset m)) (m_entries m)))"

lemma holds_dict: "holds hash m es \<Longrightarrow> map_dict m = dict_of es"
  by (simp add: holds_def map_dict_def slots_def)

lemma holds_taken: "holds hash m es \<Longrightarrow> take (nat (m_offset m)) (m_entries m) = map Some es"
  by (simp add: holds_def slots_def)

lemma dict_of_length: "length (dict_of es) \<le> length es"
  by (simp add: dict_of_def)

lemma capacity_bounds: "2 ^ k \<le> capacity_for k" "capacity_for k < capacity_for (Suc k)" "capacity_for k \<le> 3 * 2 ^ k"
proof -
  have "n \<le> n * 8 div 3 \<and> n * 8 div 3 < 2 * n * 8 div 3 \<and> n * 8 div 3 \<le> 3 * n" if "0 < n" for n :: nat
    using that div_le_mono[of "n * 3" "n * 8" 3] div_le_mono[of "n * 8" "n * 9" 3] div_le_mono[of "n * 8 + 3" "2 * n * 8" 3]
    by simp
  from this[of "2 ^ k"]
  show "2 ^ k \<le> capacity_for k" "capacity_for k < capacity_for (Suc k)" "capacity_for k \<le> 3 * 2 ^ k"
    by (simp_all add: capacity_for_def)
qed

lemma fits_bound: "fits entry_size k \<Longrightarrow> 8 \<le> entry_size \<Longrightarrow> k \<le> 25"
proof (rule ccontr)
  assume fits: "fits entry_size k" "8 \<le> entry_size" and "\<not> k \<le> 25"
  then have "(2 :: nat) ^ 26 \<le> 2 ^ k" by (intro power_increasing) auto
  then have "2 ^ 26 * 8 div 3 \<le> capacity_for k"
    unfolding capacity_for_def by (intro div_le_mono mult_le_mono1)
  then have "178956970 \<le> int (capacity_for k)" by simp
  then have "178956970 * 8 \<le> int (capacity_for k) * entry_size"
    using fits(2) by (intro mult_mono) auto
  then show False using fits(1) by (simp add: fits_def OBJECT_MAXSIZE_def BLOCK_MAXSIZE_def)
qed

lemma fits_mono: "fits entry_size (Suc k) \<Longrightarrow> 0 \<le> entry_size \<Longrightarrow> fits entry_size k"
proof -
  assume fits: "fits entry_size (Suc k)" "0 \<le> entry_size"
  have "(2 :: int) ^ k * 4 \<le> 2 ^ Suc k * 4" by simp
  moreover have "int (capacity_for k) * entry_size \<le> int (capacity_for (Suc k)) * entry_size"
    using fits(2) capacity_bounds(2)[of k] by (intro mult_right_mono) auto
  ultimately show ?thesis
    using fits(1) unfolding fits_def by (meson order_le_less_trans)
qed

lemma uint_mask: "k \<le> 31 \<Longrightarrow> uint (mask k + 1 :: 32 word) = 2 ^ k"
proof -
  assume "k \<le> 31"
  then have "(2 :: int) ^ k \<le> 2 ^ 31" by (intro power_increasing) auto
  then have "uint (word_of_int (2 ^ k) :: 32 word) = 2 ^ k"
    unfolding uint_word_of_int by (intro mod_pos_pos_trivial) auto
  moreover have "(mask k + 1 :: 32 word) = word_of_int (2 ^ k)" by (simp add: mask_eq_exp_minus_1)
  ultimately show ?thesis by metis
qed

lemma unat_mask_small: "k \<le> 31 \<Longrightarrow> unat (mask k :: 32 word) + 1 = 2 ^ k"
proof -
  assume "k \<le> 31"
  then have "uint (mask k :: 32 word) = 2 ^ k - 1" unfolding uint_mask_eq by (simp add: mask_eq_exp_minus_1 min_def)
  then have "int (unat (mask k :: 32 word) + 1) = int (2 ^ k)" by simp
  then show ?thesis by (simp only: of_nat_eq_iff)
qed

lemma sdiv_positive: "0 \<le> (a :: int) \<Longrightarrow> 0 < b \<Longrightarrow> a sdiv b = a div b"
  by (cases "a = 0") (simp_all add: signed_divide_int_def sgn_if)

lemma map_rehash_spec:
  fixes m :: "('k, 'v) hash_map"
  assumes "take (nat (m_offset m)) (m_entries m) = map Some es" "m_count m = int (length (dict_of es))"
    and "dwf (dict_of es)" "2 \<le> k" "k \<le> 26" "8 \<le> entry_size" "entry_size \<le> 24" "length (dict_of es) \<le> capacity_for k"
  shows "\<exists>m' err. map_rehash hash entry_size m (mask k) =
    (if fits entry_size k then Some (Inr (), m') else Some (Inl err, m))
    \<and> err \<in> too_large
    \<and> (fits entry_size k \<longrightarrow> shaped entry_size m' k \<and> m_capacity m' = int (capacity_for k) \<and>
       (\<exists>news. holds hash m' news \<and> dict_of news = dict_of es \<and> length news = length (dict_of es)))"
proof -
  have pow: "(2 :: int) ^ k \<le> 2 ^ 26" using assms(5) by (intro power_increasing) auto
  have cap: "i32 (uint (mask k + 1 :: 32 word)) = 2 ^ k"
    using pow assms(5) by (simp add: uint_mask i32_small)
  have "i32 (2 ^ k * 8) sdiv 3 = 2 ^ k * 8 div 3"
    using pow by (simp add: i32_small sdiv_positive)
  then have ecap: "i32 (2 ^ k * FILL_FACTOR_N) sdiv FILL_FACTOR_D = int (capacity_for k)"
    by (simp add: capacity_for_def map_constants zdiv_int)
  have "int (capacity_for k) \<le> 2 ^ 26 * 8 div 3"
    unfolding capacity_for_def using pow by (simp add: zdiv_int zdiv_mono1)
  then have "int (capacity_for k) * entry_size \<le> (2 ^ 26 * 8 div 3) * 24"
    using assms(6,7) by (intro mult_mono) auto
  then have valid: "buffer_error (i32 (int (capacity_for k) * entry_size)) = None \<longleftrightarrow> int (capacity_for k) * entry_size < OBJECT_MAXSIZE"
      "buffer_error (i32 (2 ^ k * BUCKET_SIZE)) = None \<longleftrightarrow> 2 ^ k * 4 < OBJECT_MAXSIZE"
    using pow assms(6) by (simp_all add: buffer_error_None map_constants)
  show ?thesis
  proof (cases "fits entry_size k")
    case False
    with cap ecap valid have "\<exists>err\<in>too_large. map_rehash hash entry_size m (mask k) = Some (Inl err, m)"
      unfolding map_rehash_def fits_def Let_def
      by (auto split: option.splits intro: buffer_error_cases)
    with False show ?thesis by auto
  next
    case True
    have buckets: "replicate (nat (2 ^ k)) None = replicate (unat (mask k :: 32 word) + 1) (None :: nat option)"
      using assms(5) unat_mask_small[of k] by (simp add: nat_power_eq)
    have fresh: "replicate (capacity_for k) None = slots (capacity_for k) ([] :: ('k, 'v) entry list)"
      by (simp add: slots_def)
    obtain buckets' news where news: "rehash_loop hash (mask k) (map Some es) 0
          (replicate (unat (mask k :: 32 word) + 1) None) (slots (capacity_for k) []) = Some (buckets', slots (capacity_for k) news)"
        "linked hash (mask k) buckets' news" "dict_of news = dict_of es" "\<forall>e\<in>set news. \<not> e_empty e"
      using rehash_loop_spec[OF linked_empty[of hash "mask k"], of es "capacity_for k"] assms(8) by auto
    have "length news = length (dict_of es)"
      using news(3,4) by (metis dict_of_def filter_True length_map)
    with True news assms cap ecap valid show ?thesis
      by (auto simp: map_rehash_def Let_def buckets fresh shaped_def holds_def fits_def too_large_def)
  qed
qed


section \<open>The operations\<close>

lemma dset_middle: "key \<notin> set (dkeys d1) \<Longrightarrow> dset (d1 @ (key, w) # d2) key v = d1 @ (key, v) # d2"
  by (induction d1) (auto simp: dkeys_def)

lemma dset_fresh: "key \<notin> set (dkeys d) \<Longrightarrow> dset d key v = d @ [(key, v)]"
  by (induction d) (auto simp: dkeys_def)

lemma ddel_middle: "key \<notin> set (dkeys d1) \<Longrightarrow> key \<notin> set (dkeys d2) \<Longrightarrow> ddel (d1 @ (key, w) # d2) key = d1 @ d2"
proof -
  assume "key \<notin> set (dkeys d1)" "key \<notin> set (dkeys d2)"
  then have "ddel d1 key = d1" "ddel d2 key = d2" by (simp_all add: ddel_absent dget_None_iff)
  then show ?thesis by (simp add: ddel_def)
qed

lemma dkeys_append: "dkeys (d1 @ d2) = dkeys d1 @ dkeys d2"
  by (simp add: dkeys_def)

text \<open>Where a live entry stands in the dictionary.\<close>

lemma live_entry_splits:
  assumes "found es key (Some p)" "dwf (dict_of es)"
  obtains xs ys where "es = xs @ es ! p # ys" "length xs = p" "key \<notin> set (dkeys (dict_of xs))" "key \<notin> set (dkeys (dict_of ys))"
proof -
  have p: "p < length es" "\<not> e_empty (es ! p)" "e_key (es ! p) = key"
    using assms(1) by (simp_all add: found_def)
  let ?xs = "take p es" and ?ys = "drop (Suc p) es"
  have es: "es = ?xs @ es ! p # ?ys" using p(1) by (rule id_take_nth_drop)
  have "distinct (dkeys (dict_of (?xs @ es ! p # ?ys)))"
    using assms(2) es unfolding dwf_def by metis
  then have "key \<notin> set (dkeys (dict_of ?xs))" "key \<notin> set (dkeys (dict_of ?ys))"
    using p(2,3) by (auto simp: dkeys_append) (auto simp: dkeys_def)
  then show ?thesis using es p(1) by (intro that[of ?xs ?ys]) simp_all
qed

lemma dict_of_set_value:
  assumes "found es key (Some p)" "dwf (dict_of es)"
  shows "dict_of (es[p := (es ! p)\<lparr>e_value := v\<rparr>]) = dset (dict_of es) key v"
proof -
  obtain xs ys where split: "es = xs @ es ! p # ys" "length xs = p" "key \<notin> set (dkeys (dict_of xs))"
    using live_entry_splits[OF assms] by metis
  have "es[p := (es ! p)\<lparr>e_value := v\<rparr>] = xs @ (es ! p)\<lparr>e_value := v\<rparr> # ys"
    using split(1,2) by (metis list_update_length)
  moreover have "dict_of es = dict_of xs @ (key, e_value (es ! p)) # dict_of ys"
    using assms(1) arg_cong[OF split(1), of dict_of] by (simp add: found_def)
  ultimately show ?thesis
    using assms(1) split(3) by (simp add: found_def dset_middle)
qed

lemma dict_of_set_empty:
  assumes "found es key (Some p)" "dwf (dict_of es)"
  shows "dict_of (es[p := (es ! p)\<lparr>e_empty := True\<rparr>]) = ddel (dict_of es) key"
    and "length (dict_of es) = Suc (length (ddel (dict_of es) key))"
proof -
  obtain xs ys where split: "es = xs @ es ! p # ys" "length xs = p"
      "key \<notin> set (dkeys (dict_of xs))" "key \<notin> set (dkeys (dict_of ys))"
    using live_entry_splits[OF assms] by metis
  have "es[p := (es ! p)\<lparr>e_empty := True\<rparr>] = xs @ (es ! p)\<lparr>e_empty := True\<rparr> # ys"
    using split(1,2) by (metis list_update_length)
  moreover have dict: "dict_of es = dict_of xs @ (key, e_value (es ! p)) # dict_of ys"
    using assms(1) arg_cong[OF split(1), of dict_of] by (simp add: found_def)
  ultimately show "dict_of (es[p := (es ! p)\<lparr>e_empty := True\<rparr>]) = ddel (dict_of es) key"
    using split(3,4) by (simp add: ddel_middle)
  show "length (dict_of es) = Suc (length (ddel (dict_of es) key))"
    using dict split(3,4) by (simp add: ddel_middle)
qed

lemma holds_find:
  assumes "holds hash m es"
  obtains r where "map_find (=) m key (hash key) = Some r" "found es key r"
  using assms find_found[of hash "m_mask m" "m_buckets m" es "nat (m_capacity m)" m key] by (auto simp: holds_def)

lemma holds_load: "holds hash m es \<Longrightarrow> p < length es \<Longrightarrow> load_slot (m_entries m) (int p) = Some (es ! p)"
  by (simp add: holds_def load_slots)

lemma capacity_room: "shaped entry_size m k \<Longrightarrow> 0 < m_capacity m \<and> m_capacity m \<le> int (capacity_for k) \<and> m_capacity m \<le> 3 * 2 ^ k"
proof -
  assume shaped: "shaped entry_size m k"
  have "(0 :: nat) < 2 ^ k" by simp
  then have "0 < capacity_for k" using capacity_bounds(1)[of k] by linarith
  moreover have "int (capacity_for k) \<le> int (3 * 2 ^ k)" using capacity_bounds(3)[of k] by (simp only: of_nat_le_iff)
  moreover have "capacity_for 2 = 10" by (simp add: capacity_for_def)
  ultimately show ?thesis using shaped by (auto simp: shaped_def)
qed

lemma free_limit:
  assumes "shaped entry_size m k" "8 \<le> entry_size"
  shows "i32 (m_capacity m * FREE_FACTOR_N) sdiv FREE_FACTOR_D = m_capacity m * 3 div 4"
proof -
  have "k \<le> 25" using assms fits_bound by (auto simp: shaped_def)
  then have "(2 :: int) ^ k \<le> 2 ^ 25" by (intro power_increasing) auto
  then show ?thesis using capacity_room[OF assms(1)] by (simp add: map_constants i32_small sdiv_positive)
qed

text \<open>Room for one more entry: a map that is full is copied, or refuses when the new buffers would be too long.\<close>

lemma make_room:
  fixes m :: "('k, 'v) hash_map"
  assumes "shaped entry_size m k" "holds hash m es" "8 \<le> entry_size" "entry_size \<le> 24"
  defines "r \<equiv> (if m_offset m = m_capacity m
      then map_rehash hash entry_size m
        (if m_count m < i32 (m_capacity m * FREE_FACTOR_N) sdiv FREE_FACTOR_D then m_mask m else push_bit 1 (m_mask m) OR 1)
      else Some (Inr (), m))"
  shows "(\<exists>err\<in>too_large. r = Some (Inl err, m)) \<and> 16777215 \<le> length (dict_of es)
    \<or> (\<exists>m' k' news. r = Some (Inr (), m') \<and> shaped entry_size m' k' \<and> holds hash m' news \<and> dict_of news = dict_of es
         \<and> length news < nat (m_capacity m'))"
proof (cases "m_offset m = m_capacity m")
  case False
  then have "length es < nat (m_capacity m)"
    using assms(2) capacity_room[OF assms(1)] unfolding holds_def by linarith
  with False assms show ?thesis by (auto simp: r_def)
next
  case True
  have k: "2 \<le> k" "k \<le> 25" "m_mask m = mask k" "fits entry_size k"
    using assms(1,3) fits_bound by (auto simp: shaped_def)
  have count: "m_count m = int (length (dict_of es))" "dwf (dict_of es)" "int (length (dict_of es)) \<le> m_capacity m"
    using assms(2) dict_of_length[of es] capacity_room[OF assms(1)] unfolding holds_def by linarith+
  note room = capacity_room[OF assms(1)]
  note rehash = map_rehash_spec[OF holds_taken[OF assms(2)] count(1,2) _ _ assms(3,4)]
  show ?thesis
  proof (cases "m_count m < m_capacity m * 3 div 4")
    case less: True
    obtain m' news where "map_rehash hash entry_size m (mask k) = Some (Inr (), m')" "shaped entry_size m' k"
        "m_capacity m' = int (capacity_for k)" "holds hash m' news" "dict_of news = dict_of es" "length news = length (dict_of es)"
      using rehash[of k hash] k count(3) room by auto
    moreover have "length (dict_of es) < capacity_for k" using less count(1) room by linarith
    ultimately show ?thesis
      using True less k(3) free_limit[OF assms(1,3)] unfolding r_def by auto
  next
    case more: False
    have grow: "push_bit 1 (mask k) OR 1 = (mask (Suc k) :: 32 word)"
      by (simp add: mask_Suc_double push_bit_eq_mult or.commute mult.commute)
    have cap: "length (dict_of es) < capacity_for (Suc k)" using count(3) room capacity_bounds(2)[of k] by linarith
    have r: "r = map_rehash hash entry_size m (mask (Suc k))"
      using True more k(3) free_limit[OF assms(1,3)] grow by (simp add: r_def)
    show ?thesis
    proof (cases "fits entry_size (Suc k)")
      case True
      obtain m' news where "map_rehash hash entry_size m (mask (Suc k)) = Some (Inr (), m')" "shaped entry_size m' (Suc k)"
          "m_capacity m' = int (capacity_for (Suc k))" "holds hash m' news" "dict_of news = dict_of es" "length news = length (dict_of es)"
        using rehash[of "Suc k" hash] k cap True by auto
      with cap r show ?thesis by (metis nat_int)
    next
      case False
      have "23 \<le> k"
      proof (rule ccontr)
        assume "\<not> 23 \<le> k"
        then have le: "(2 :: nat) ^ Suc k \<le> 2 ^ 23" by (intro power_increasing) auto
        then have "capacity_for (Suc k) \<le> capacity_for 23"
          unfolding capacity_for_def by (intro div_le_mono mult_le_mono1)
        then have "int (capacity_for (Suc k)) * entry_size \<le> 22369621 * 24"
          using assms(3,4) by (intro mult_mono) (auto simp: capacity_for_def)
        moreover have "int (2 ^ Suc k) \<le> int (2 ^ 23)" using le by (simp only: of_nat_le_iff)
        ultimately show False using False by (simp add: fits_def OBJECT_MAXSIZE_def BLOCK_MAXSIZE_def)
      qed
      then have "(2 :: nat) ^ 23 \<le> 2 ^ k" by (intro power_increasing) auto
      then have "2 ^ 23 * 8 div 3 \<le> capacity_for k"
        unfolding capacity_for_def by (intro div_le_mono mult_le_mono1)
      moreover have "m_capacity m = int (capacity_for k)" using assms(1) \<open>23 \<le> k\<close> by (simp add: shaped_def)
      ultimately have "22369621 * 3 div 4 \<le> m_capacity m * 3 div 4" by (intro zdiv_mono1) auto
      then have "16777215 \<le> length (dict_of es)" using more count(1) by simp
      moreover have "\<exists>err\<in>too_large. map_rehash hash entry_size m (mask (Suc k)) = Some (Inl err, m)"
        using False cap rehash[of "Suc k" hash] k by auto
      ultimately show ?thesis using r by simp
    qed
  qed
qed


lemma found_key: "found es key r \<Longrightarrow> key \<in> set (dkeys (dict_of es)) \<longleftrightarrow> r \<noteq> None"
  by (cases r) (auto simp: found_def dget_None_iff, metis dget_None_iff option.distinct(1))

lemma map_get_spec: "holds hash m es \<Longrightarrow> map_get (=) hash m key = Some (case dget (dict_of es) key of None \<Rightarrow> Inl E_KEYNOTFOUND | Some v \<Rightarrow> Inr v)"
proof -
  assume holds: "holds hash m es"
  obtain r where "map_find (=) m key (hash key) = Some r" "found es key r" using holds_find[OF holds] by metis
  then show ?thesis
    using holds_load[OF holds] by (cases r) (simp_all add: map_get_def found_def)
qed

lemma map_has_spec: "holds hash m es \<Longrightarrow> map_has (=) hash m key = Some (key \<in> set (dkeys (dict_of es)))"
proof -
  assume holds: "holds hash m es"
  obtain r where "map_find (=) m key (hash key) = Some r" "found es key r" using holds_find[OF holds] by metis
  then show ?thesis by (simp add: map_has_def found_key)
qed

lemma map_collect_spec: "map_collect field (map Some es) = Some (map field (filter (\<lambda>e. \<not> e_empty e) es))"
  by (induction es) auto

lemma map_lists_spec:
  assumes "holds hash m es"
  shows "map_keys m = Some (dkeys (dict_of es))" "map_values m = Some (map snd (dict_of es))" "map_size m = int (length (dict_of es))"
proof -
  show "map_keys m = Some (dkeys (dict_of es))" "map_values m = Some (map snd (dict_of es))"
    unfolding map_keys_def map_values_def holds_taken[OF assms] map_collect_spec
    by (simp_all add: dkeys_def dict_of_def comp_def)
  show "map_size m = int (length (dict_of es))" using assms by (simp add: map_size_def holds_def)
qed

lemma map_set_spec:
  assumes "shaped entry_size m k" "holds hash m es" "8 \<le> entry_size" "entry_size \<le> 24"
  shows "(\<exists>err\<in>too_large. map_set (=) hash entry_size m key value = Some (Inl err, m)) \<and> 16777215 \<le> length (dict_of es)
      \<and> key \<notin> set (dkeys (dict_of es))
    \<or> (\<exists>m' k' news. map_set (=) hash entry_size m key value = Some (Inr (), m') \<and> shaped entry_size m' k' \<and> holds hash m' news
         \<and> dict_of news = dset (dict_of es) key value)"
proof -
  obtain r where r: "map_find (=) m key (hash key) = Some r" "found es key r" using holds_find[OF assms(2)] by metis
  have dict: "dwf (dict_of es)" using assms(2) by (simp add: holds_def)
  show ?thesis
  proof (cases r)
    case (Some p)
    let ?e = "(es ! p)\<lparr>e_value := value\<rparr>"
    have p: "p < length es" "length es \<le> nat (m_capacity m)" using r(2) Some assms(2) by (simp_all add: found_def holds_def)
    have news: "dict_of (es[p := ?e]) = dset (dict_of es) key value"
      using r(2) Some dict by (intro dict_of_set_value) simp_all
    have "key \<in> set (dkeys (dict_of es))" using found_key[OF r(2)] Some by simp
    then have "length (dset (dict_of es) key value) = length (dict_of es)"
      using dkeys_dset[of "dict_of es" key "value"] by (metis dkeys_def length_map)
    then have "holds hash (m\<lparr>m_entries := slots (nat (m_capacity m)) (es[p := ?e])\<rparr>) (es[p := ?e])"
      using assms(2) news by (simp add: holds_def linked_update dwf_dset)
    moreover have "map_set (=) hash entry_size m key value = Some (Inr (), m\<lparr>m_entries := slots (nat (m_capacity m)) (es[p := ?e])\<rparr>)"
      using r(1) Some p holds_load[OF assms(2) p(1)] assms(2) store_slots[OF p(1)] by (simp add: map_set_def holds_def)
    moreover have "shaped entry_size (m\<lparr>m_entries := slots (nat (m_capacity m)) (es[p := ?e])\<rparr>) k"
      using assms(1) by (simp add: shaped_def)
    ultimately show ?thesis using news by blast
  next
    case None
    then have fresh: "key \<notin> set (dkeys (dict_of es))" using r(2) by (simp add: found_def dget_None_iff)
    from make_room[OF assms] show ?thesis
    proof (elim disjE exE conjE bexE)
      fix err assume "err \<in> too_large" "16777215 \<le> length (dict_of es)"
        "(if m_offset m = m_capacity m
          then map_rehash hash entry_size m
            (if m_count m < i32 (m_capacity m * FREE_FACTOR_N) sdiv FREE_FACTOR_D then m_mask m else push_bit 1 (m_mask m) OR 1)
          else Some (Inr (), m)) = Some (Inl err, m)"
      then show ?thesis using r(1) None fresh by (auto simp: map_set_def)
    next
      fix m' k' news
      assume room: "(if m_offset m = m_capacity m
          then map_rehash hash entry_size m
            (if m_count m < i32 (m_capacity m * FREE_FACTOR_N) sdiv FREE_FACTOR_D then m_mask m else push_bit 1 (m_mask m) OR 1)
          else Some (Inr (), m)) = Some (Inr (), m')"
        and m': "shaped entry_size m' k'" "holds hash m' news" "dict_of news = dict_of es" "length news < nat (m_capacity m')"
      have "linked hash (m_mask m') (m_buckets m') news" using m'(2) by (simp add: holds_def)
      from push_entry_spec[OF this m'(4), of key "value"]
      obtain buckets e where push:
          "push_entry (hash key) key value (m_mask m') (int (length news)) (m_buckets m') (slots (nat (m_capacity m')) news)
            = Some (buckets, slots (nat (m_capacity m')) (news @ [e]))"
          "linked hash (m_mask m') buckets (news @ [e])" "e_key e = key" "e_value e = value" "\<not> e_empty e"
        by metis
      let ?m = "m'\<lparr>m_buckets := buckets, m_entries := slots (nat (m_capacity m')) (news @ [e]),
          m_offset := m_offset m' + 1, m_count := m_count m' + 1\<rparr>"
      have dict': "dict_of (news @ [e]) = dset (dict_of es) key value"
        using push(3-5) m'(3) fresh by (simp add: dset_fresh)
      have "map_set (=) hash entry_size m key value = Some (Inr (), ?m)"
        using r(1) None room push(1) m'(2) by (simp add: map_set_def holds_def)
      moreover have "holds hash ?m (news @ [e])"
        using m' push(2) dict' dict fresh by (simp add: holds_def dset_fresh) (metis dset_fresh dwf_dset)
      moreover have "shaped entry_size ?m k'" using m'(1) by (simp add: shaped_def)
      ultimately show ?thesis using dict' by blast
    qed
  qed
qed

lemma map_delete_spec:
  assumes "shaped entry_size m k" "holds hash m es" "8 \<le> entry_size" "entry_size \<le> 24"
  shows "\<exists>m' k' news. map_delete (=) hash entry_size m key = Some (Inr (key \<in> set (dkeys (dict_of es))), m')
    \<and> shaped entry_size m' k' \<and> holds hash m' news \<and> dict_of news = ddel (dict_of es) key"
proof -
  obtain r where r: "map_find (=) m key (hash key) = Some r" "found es key r" using holds_find[OF assms(2)] by metis
  have dict: "dwf (dict_of es)" using assms(2) by (simp add: holds_def)
  show ?thesis
  proof (cases r)
    case None
    then have "dget (dict_of es) key = None" using r(2) by (simp add: found_def)
    then have "key \<notin> set (dkeys (dict_of es))" "ddel (dict_of es) key = dict_of es"
      by (simp_all add: dget_None_iff ddel_absent)
    with assms(1,2) r(1) None show ?thesis by (auto simp: map_delete_def)
  next
    case (Some p)
    let ?es = "es[p := (es ! p)\<lparr>e_empty := True\<rparr>]"
    let ?m = "m\<lparr>m_entries := slots (nat (m_capacity m)) ?es, m_count := m_count m - 1\<rparr>"
    have p: "p < length es" "length es \<le> nat (m_capacity m)" using r(2) Some assms(2) by (simp_all add: found_def holds_def)
    have key: "key \<in> set (dkeys (dict_of es))" using found_key[OF r(2)] Some by simp
    have news: "dict_of ?es = ddel (dict_of es) key" "length (dict_of es) = Suc (length (ddel (dict_of es) key))"
      using r(2) Some dict by (intro dict_of_set_empty; simp)+
    have holds: "holds hash ?m ?es"
      using assms(2) news by (simp add: holds_def linked_update dwf_ddel)
    have shaped: "shaped entry_size ?m k" using assms(1) by (simp add: shaped_def)
    have k: "2 \<le> k" "k \<le> 25" "m_mask m = mask k" "fits entry_size k"
      using assms(1,3) fits_bound by (auto simp: shaped_def)
    let ?shrink = "max (word_of_int INITIAL_CAPACITY) (word_of_int (m_count ?m)) \<le> drop_bit 1 (m_mask ?m) + 1
        \<and> m_count ?m < i32 (m_capacity ?m * FREE_FACTOR_N) sdiv FREE_FACTOR_D"
    have run: "map_delete (=) hash entry_size m key =
        (if ?shrink then do { (r, m) \<leftarrow> map_rehash hash entry_size ?m (drop_bit 1 (m_mask ?m));
            case r of Inl err \<Rightarrow> Some (Inl err, m) | Inr _ \<Rightarrow> Some (Inr True, m) }
         else Some (Inr True, ?m))"
      using r(1) Some p holds_load[OF assms(2) p(1)] assms(2) store_slots[OF p(1)]
      by (simp add: map_delete_def holds_def Let_def)
    show ?thesis
    proof (cases ?shrink)
      case False
      with run key holds shaped news(1) show ?thesis by auto
    next
      case True
      have half: "drop_bit 1 (mask k) = (mask (k - 1) :: 32 word)" 
        by (rule bit_word_eqI) (use k in \<open>auto simp: bit_drop_bit_eq bit_mask_iff\<close>)
      have count: "m_count ?m = int (length (dict_of ?es))" "0 \<le> m_count ?m"
        using holds by (simp_all add: holds_def)
      have "m_count ?m \<le> 3 * 2 ^ k"
        using dict_of_length[of ?es] count(1) p(2) capacity_room[OF assms(1)] unfolding length_list_update by linarith
      moreover have "(2 :: int) ^ k \<le> 2 ^ 25" using k(2) by (intro power_increasing) auto
      ultimately have small: "uint (word_of_int (m_count ?m) :: 32 word) = m_count ?m"
        using count(2) unfolding uint_word_of_int by (intro mod_pos_pos_trivial) auto
      have half_uint: "uint (drop_bit 1 (m_mask ?m) + 1) = 2 ^ (k - 1)"
        using k uint_mask[of "k - 1"] half by simp
      have "word_of_int INITIAL_CAPACITY \<le> drop_bit 1 (m_mask ?m) + 1" "word_of_int (m_count ?m) \<le> drop_bit 1 (m_mask ?m) + 1"
        using True by (simp_all only: max.bounded_iff)
      then have "4 \<le> (2 :: int) ^ (k - 1)" "m_count ?m \<le> 2 ^ (k - 1)"
        unfolding word_le_def half_uint small by (simp_all add: map_constants)
      then have "(2 :: int) ^ 2 \<le> 2 ^ (k - 1)" by simp
      then have k1: "2 \<le> k - 1" by (rule power_le_imp_le_exp[rotated]) simp
      have "int (length (dict_of ?es)) \<le> int (2 ^ (k - 1))" using \<open>m_count ?m \<le> 2 ^ (k - 1)\<close> count(1) by simp
      then have "length (dict_of ?es) \<le> capacity_for (k - 1)"
        using capacity_bounds(1)[of "k - 1"] by (simp only: of_nat_le_iff)
      moreover have "fits entry_size (k - 1)"
        using fits_mono[of entry_size "k - 1"] k(1,4) assms(3) by simp
      moreover have "dwf (dict_of ?es)" "k - 1 \<le> 26" using holds k(2) by (simp_all add: holds_def)
      ultimately obtain m' news where "map_rehash hash entry_size ?m (mask (k - 1)) = Some (Inr (), m')"
          "shaped entry_size m' (k - 1)" "holds hash m' news" "dict_of news = dict_of ?es"
        using map_rehash_spec[OF holds_taken[OF holds] count(1), of "k - 1" entry_size hash] k1 k(2) assms(3,4) by auto
      then show ?thesis
        using run True half k(3) key \<open>dict_of ?es = ddel (dict_of es) key\<close> by auto
    qed
  qed
qed


section \<open>Runs of operations\<close>

lemma entry_size_bounds:
  assumes "key_size \<in> {1, 2, 4, 8}" "value_size \<in> {1, 2, 4, 8}"
  shows "8 \<le> ENTRY_SIZE key_size value_size \<and> ENTRY_SIZE key_size value_size \<le> 24"
  using assms by (auto simp: ENTRY_SIZE_def ENTRY_ALIGN_def entry_offset_def align_up_def)

lemma new_map_ok:
  fixes hash :: "'k \<Rightarrow> 32 word"
  assumes "8 \<le> entry_size" "entry_size \<le> 24"
  shows "map_ok hash entry_size (new_map :: ('k, 'v) hash_map)"
proof -
  have "shaped entry_size (new_map :: ('k, 'v) hash_map) 2"
    using assms by (simp add: shaped_def new_map_def fits_def capacity_for_def OBJECT_MAXSIZE_def BLOCK_MAXSIZE_def map_constants mask_eq_exp_minus_1)
  moreover have "unat (3 :: 32 word) + 1 = 4" by simp
  then have "linked hash 3 (replicate 4 None) ([] :: ('k, 'v) entry list)"
    using linked_empty[of hash 3] by metis
  then have "holds hash (new_map :: ('k, 'v) hash_map) []"
    by (simp add: holds_def new_map_def slots_def map_constants dwf_Nil)
  ultimately show ?thesis by (auto simp: map_ok_def)
qed

text \<open>
  The dictionary that a map stands for, step by step. A store to a new key may be refused, but never below
  16777215 entries.
\<close>

inductive dict_step :: "('k, 'v) dict \<Rightarrow> ('k, 'v) map_op \<Rightarrow> ('k, 'v) map_answer \<Rightarrow> ('k, 'v) dict \<Rightarrow> bool" where
  store: "dict_step d (MSet k v) Done (dset d k v)"
| refuse: "k \<notin> set (dkeys d) \<Longrightarrow> 16777215 \<le> length d \<Longrightarrow> err \<in> too_large \<Longrightarrow> dict_step d (MSet k v) (Throw err) d"
| delete: "dict_step d (MDelete k) (Bool (k \<in> set (dkeys d))) (ddel d k)"
| get: "dget d k = Some v \<Longrightarrow> dict_step d (MGet k) (Value v) d"
| missing: "dget d k = None \<Longrightarrow> dict_step d (MGet k) (Throw E_KEYNOTFOUND) d"
| has: "dict_step d (MHas k) (Bool (k \<in> set (dkeys d))) d"
| size: "dict_step d MSize (Number (int (length d))) d"
| keys: "dict_step d MKeys (Keys (dkeys d)) d"
| "values": "dict_step d MValues (Values (map snd d)) d"
| clear: "dict_step d MClear Done []"

fun spec_run :: "('a \<Rightarrow> 'op \<Rightarrow> 'r \<Rightarrow> 'a \<Rightarrow> bool) \<Rightarrow> 'a \<Rightarrow> 'op list \<Rightarrow> 'r list \<Rightarrow> 'a \<Rightarrow> bool" where
  "spec_run spec a [] [] a' \<longleftrightarrow> a' = a"
| "spec_run spec a (x # xs) (r # rs) a' \<longleftrightarrow> (\<exists>b. spec a x r b \<and> spec_run spec b xs rs a')"
| "spec_run spec a xs rs a' \<longleftrightarrow> False"

text \<open>An implementation whose admissible steps never fault and are steps of a specification.\<close>

locale simulation =
  fixes step :: "'op \<Rightarrow> 's \<Rightarrow> ('r \<times> 's) option"
    and spec :: "'a \<Rightarrow> 'op \<Rightarrow> 'r \<Rightarrow> 'a \<Rightarrow> bool"
    and abs :: "'s \<Rightarrow> 'a"
    and inv :: "'s \<Rightarrow> bool"
    and admissible :: "'op \<Rightarrow> bool"
  assumes simulates: "inv s \<Longrightarrow> admissible x \<Longrightarrow> \<exists>r s'. step x s = Some (r, s') \<and> inv s' \<and> spec (abs s) x r (abs s')"
begin

lemma run_simulates:
  "inv s \<Longrightarrow> list_all admissible xs \<Longrightarrow>
     \<exists>rs s'. run_ops step xs s = Some (rs, s') \<and> inv s' \<and> spec_run spec (abs s) xs rs (abs s')"
proof (induction xs arbitrary: s)
  case (Cons x xs)
  obtain r s1 where step: "step x s = Some (r, s1)" "inv s1" "spec (abs s) x r (abs s1)"
    using simulates[OF Cons.prems(1), of x] Cons.prems(2) by auto
  obtain rs s' where "run_ops step xs s1 = Some (rs, s')" "inv s'" "spec_run spec (abs s1) xs rs (abs s')"
    using Cons.IH[OF step(2)] Cons.prems(2) by auto
  with step show ?case by (intro exI[of _ "r # rs"] exI[of _ s']) auto
qed simp

end

text \<open>
  The comparison of the key type agrees with equality on a set of keys: on all keys of integers, strings and
  references, and on the floats without the NaNs and without the negative zero.
\<close>

definition proper_on :: "'k set \<Rightarrow> ('k \<Rightarrow> 'k \<Rightarrow> bool) \<Rightarrow> bool" where
  "proper_on K eq \<longleftrightarrow> (\<forall>a\<in>K. \<forall>b\<in>K. eq a b \<longleftrightarrow> a = b)"

fun plain_key :: "hash_key \<Rightarrow> bool" where
  "plain_key (KeyFloat x) \<longleftrightarrow> \<not> float_nan x \<and> x \<noteq> 0x80000000"
| "plain_key (KeyDouble x) \<longleftrightarrow> \<not> double_nan x \<and> x \<noteq> 0x8000000000000000"
| "plain_key k \<longleftrightarrow> True"

lemma word_zero_cases:
  fixes x :: "'a :: len word"
  assumes "x AND mask (LENGTH('a) - 1) = 0"
  shows "x = 0 \<or> x = 2 ^ (LENGTH('a) - 1)"
proof (cases "bit x (LENGTH('a) - 1)")
  case True
  have "x = 2 ^ (LENGTH('a) - 1)"
  proof (rule bit_word_eqI)
    fix n assume n: "n < LENGTH('a)"
    from arg_cong[OF assms, of "\<lambda>w. bit w n"] n True
    show "bit x n = bit (2 ^ (LENGTH('a) - 1) :: 'a word) n"
      by (cases "n = LENGTH('a) - 1") (auto simp: bit_and_iff bit_mask_iff bit_exp_iff)
  qed
  then show ?thesis ..
next
  case False
  have "x = 0"
  proof (rule bit_word_eqI)
    fix n assume n: "n < LENGTH('a)"
    from arg_cong[OF assms, of "\<lambda>w. bit w n"] n False
    show "bit x n = bit (0 :: 'a word) n"
      by (cases "n = LENGTH('a) - 1") (auto simp: bit_and_iff bit_mask_iff)
  qed
  then show ?thesis ..
qed

lemma zero_floats:
  "(x :: 32 word) AND 0x7FFFFFFF = 0 \<Longrightarrow> x \<noteq> 0x80000000 \<Longrightarrow> x = 0"
  "(y :: 64 word) AND 0x7FFFFFFFFFFFFFFF = 0 \<Longrightarrow> y \<noteq> 0x8000000000000000 \<Longrightarrow> y = 0"
  using word_zero_cases[of x] word_zero_cases[of y] by (simp_all add: mask_eq_exp_minus_1)

lemma plain_keys_proper: "proper_on {k. plain_key k} key_eq"
  unfolding proper_on_def
proof (intro ballI)
  fix a b assume "a \<in> {k. plain_key k}" "b \<in> {k. plain_key k}"
  then show "key_eq a b \<longleftrightarrow> a = b"
    by (cases a; cases b) (auto dest: zero_floats)
qed

text \<open>With such keys the map finds, stores and deletes as if the comparison were equality.\<close>

lemma find_loop_proper:
  assumes "proper_on K eq" "key \<in> K" "\<And>e. Some e \<in> set es \<Longrightarrow> \<not> e_empty e \<Longrightarrow> e_key e \<in> K"
  shows "find_loop eq fuel es key p = find_loop (=) fuel es key p"
proof (induction fuel arbitrary: p)
  case 0
  then show ?case by (cases p) simp_all
next
  case (Suc fuel)
  show ?case
  proof (cases p)
    case (Some i)
    have "eq (e_key e) key \<longleftrightarrow> e_key e = key" if "load_slot es (int i) = Some e" "\<not> e_empty e" for e
    proof -
      have "Some e \<in> set es" using that(1) by (auto simp: load_slot_def load_at_def split: option.splits if_splits) (metis nth_mem)
      then show ?thesis using assms that(2) by (auto simp: proper_on_def)
    qed
    then show ?thesis using Some Suc by (auto split: option.split simp: Option.bind_eq_None_conv intro!: Option.bind_cong)
  qed simp
qed

lemma map_find_proper:
  assumes "proper_on K eq" "holds hash m es" "set (dkeys (dict_of es)) \<subseteq> K" "key \<in> K"
  shows "map_find eq m key h = map_find (=) m key h"
proof -
  have "e_key e \<in> K" if "Some e \<in> set (m_entries m)" "\<not> e_empty e" for e
  proof -
    have "e \<in> set es" using that(1) assms(2) by (auto simp: holds_def slots_def)
    with that(2) have "e_key e \<in> set (dkeys (dict_of es))" by (force simp: dkeys_def dict_of_def)
    with assms(3) show ?thesis ..
  qed
  then show ?thesis unfolding map_find_def
    using find_loop_proper[OF assms(1,4), of "m_entries m"] by (intro arg_cong[of _ _ "Option.bind _"] ext) blast
qed

definition op_keys :: "('k, 'v) map_op \<Rightarrow> 'k set" where
  "op_keys x = (case x of MSet k v \<Rightarrow> {k} | MDelete k \<Rightarrow> {k} | MGet k \<Rightarrow> {k} | MHas k \<Rightarrow> {k} | _ \<Rightarrow> {})"

lemma map_step_proper:
  assumes "proper_on K eq" "map_ok hash entry_size m" "set (dkeys (map_dict m)) \<subseteq> K" "op_keys x \<subseteq> K"
  shows "map_step eq hash entry_size x m = map_step (=) hash entry_size x m"
proof -
  obtain es where es: "holds hash m es" using assms(2) by (auto simp: map_ok_def)
  have find: "map_find eq m key h = map_find (=) m key h" if "key \<in> K" for key h
    using map_find_proper[OF assms(1) es _ that] assms(3) holds_dict[OF es] by simp
  show ?thesis
    using assms(4) by (cases x) (simp_all add: map_step_def op_keys_def map_set_def map_delete_def map_get_def map_has_def find)
qed

lemma dict_step_keys: "dict_step d x r d' \<Longrightarrow> set (dkeys d) \<subseteq> K \<Longrightarrow> op_keys x \<subseteq> K \<Longrightarrow> set (dkeys d') \<subseteq> K"
  by (induction rule: dict_step.induct) (auto simp: op_keys_def dkeys_dset dkeys_ddel dkeys_def[of "[]"] split: if_splits)

lemma map_step_simulates:
  fixes m :: "('a, 'b) hash_map"
  assumes "8 \<le> entry_size" "entry_size \<le> 24" "map_ok hash entry_size m"
  shows "\<exists>r m'. map_step (=) hash entry_size x m = Some (r, m') \<and> map_ok hash entry_size m' \<and> dict_step (map_dict m) x r (map_dict m')"
proof -
  obtain k es where m: "shaped entry_size m k" "holds hash m es" using assms(3) by (auto simp: map_ok_def)
  note dict = holds_dict[OF m(2)]
  show ?thesis
  proof (cases x)
    case (MSet key v)
    from map_set_spec[OF m assms(1,2), of key v] show ?thesis
    proof (elim disjE exE conjE bexE)
      fix m' k' news assume "map_set (=) hash entry_size m key v = Some (Inr (), m')" "shaped entry_size m' k'" "holds hash m' news"
        "dict_of news = dset (dict_of es) key v"
      then show ?thesis
        using MSet dict by (auto simp: map_step_def map_ok_def holds_dict intro: dict_step.store)
    next
      fix err assume "err \<in> too_large" "map_set (=) hash entry_size m key v = Some (Inl err, m)" "16777215 \<le> length (dict_of es)"
        "key \<notin> set (dkeys (dict_of es))"
      then show ?thesis
        using MSet dict assms(3) by (auto simp: map_step_def intro: dict_step.refuse)
    qed
  next
    case (MDelete key)
    with map_delete_spec[OF m assms(1,2), of key] dict show ?thesis
      by (auto simp: map_step_def map_ok_def holds_dict intro: dict_step.delete)
  next
    case (MGet key)
    with map_get_spec[OF m(2), of key] dict assms(3) show ?thesis
      by (auto simp: map_step_def intro: dict_step.get dict_step.missing split: option.splits)
  next
    case (MHas key)
    with map_has_spec[OF m(2), of key] dict assms(3) show ?thesis
      by (auto simp: map_step_def intro: dict_step.has)
  next
    case MClear
    have "map_clear m = (new_map :: ('a, 'b) hash_map)" by (simp add: map_clear_def new_map_def)
    moreover have "map_dict (new_map :: ('a, 'b) hash_map) = []" by (simp add: map_dict_def new_map_def)
    ultimately show ?thesis
      using MClear new_map_ok[OF assms(1,2)] by (auto simp: map_step_def intro: dict_step.clear)
  qed (use map_lists_spec[OF m(2)] dict assms(3) in
      \<open>auto simp: map_step_def intro: dict_step.size dict_step.keys dict_step.values\<close>)
qed

lemma map_step_simulates_proper:
  assumes "8 \<le> entry_size \<and> entry_size \<le> 24 \<and> proper_on K eq \<and> map_ok hash entry_size m \<and> set (dkeys (map_dict m)) \<subseteq> K"
    and "op_keys x \<subseteq> K"
  shows "\<exists>r m'. map_step eq hash entry_size x m = Some (r, m')
    \<and> (8 \<le> entry_size \<and> entry_size \<le> 24 \<and> proper_on K eq \<and> map_ok hash entry_size m' \<and> set (dkeys (map_dict m')) \<subseteq> K)
    \<and> dict_step (map_dict m) x r (map_dict m')"
proof -
  obtain r m' where "map_step (=) hash entry_size x m = Some (r, m')" "map_ok hash entry_size m'"
      "dict_step (map_dict m) x r (map_dict m')"
    using map_step_simulates[of entry_size hash m x] assms(1) by blast
  with assms dict_step_keys[OF this(3)] show ?thesis
    by (auto simp: map_step_proper[of K eq hash entry_size m x])
qed

interpretation maps: simulation "map_step eq hash entry_size" dict_step map_dict
    "\<lambda>m. 8 \<le> entry_size \<and> entry_size \<le> 24 \<and> proper_on K eq \<and> map_ok hash entry_size m \<and> set (dkeys (map_dict m)) \<subseteq> K"
    "\<lambda>x. op_keys x \<subseteq> K"
  for eq :: "'k \<Rightarrow> 'k \<Rightarrow> bool" and hash :: "'k \<Rightarrow> 32 word" and entry_size K
  by unfold_locales (rule map_step_simulates_proper)

text \<open>
  C8. Over keys on which the comparison \<open>==\<close> agrees with equality, a map is a dictionary in insertion order: from a
  new map every sequence of operations on such keys runs without leaving its buffers and gives the answers of the
  dictionary, \<open>keys\<close> and \<open>values\<close> in insertion order and \<open>get\<close> of a missing key the error; only a store of a new
  key to a map of at least 16777215 entries can fail, and then changes nothing. Integers, strings and references
  are such keys, and floats without NaN and negative zero (\<open>plain_keys_proper\<close>); with both zeros a map is no
  dictionary (\<open>zeros_break_map\<close> below).
\<close>

theorem map_refines_dictionary:
  fixes ops :: "('a, 'b) map_op list"
  assumes "key_size \<in> {1, 2, 4, 8}" "value_size \<in> {1, 2, 4, 8}"
    and "\<forall>a\<in>K. \<forall>b\<in>K. eq a b \<longleftrightarrow> a = b" "\<forall>x\<in>set ops. op_keys x \<subseteq> K"
  shows "\<exists>answers m. run_ops (map_step eq hash (ENTRY_SIZE key_size value_size)) ops new_map = Some (answers, m)
    \<and> spec_run dict_step [] ops answers (map_dict m)"
proof -
  have "map_dict (new_map :: ('a, 'b) hash_map) = []" by (simp add: map_dict_def new_map_def)
  then show ?thesis
    using maps.run_simulates[of "ENTRY_SIZE key_size value_size" K eq hash new_map ops] assms(3,4)
      entry_size_bounds[OF assms(1,2)] new_map_ok[of "ENTRY_SIZE key_size value_size" hash]
    by (force simp: proper_on_def list_all_iff dkeys_def)
qed

theorem map_refines_dictionary_witness:
  "\<exists>answers m. run_ops (map_step key_eq HASH (ENTRY_SIZE 8 4))
     [MSet (KeyDouble 0) ''a'', MSet (KeyDouble 0x3FF0000000000000) ''b'', MDelete (KeyDouble 0), MGet (KeyDouble 0), MKeys] new_map
     = Some (answers, m) \<and> spec_run dict_step []
     [MSet (KeyDouble 0) ''a'', MSet (KeyDouble 0x3FF0000000000000) ''b'', MDelete (KeyDouble 0), MGet (KeyDouble 0), MKeys]
     answers (map_dict m)"
proof (rule map_refines_dictionary[where K = "{k. plain_key k}"])
  show "\<forall>a\<in>{k. plain_key k}. \<forall>b\<in>{k. plain_key k}. key_eq a b \<longleftrightarrow> a = b"
    using plain_keys_proper unfolding proper_on_def .
qed (simp_all add: op_keys_def double_nan_def)

text \<open>
  The two zeros of \<open>f64\<close> are equal and hashed by their bits. After a store under the one, the other is found
  among four buckets and not among sixteen, which the map has after 22 more keys; so \<open>has\<close> of an equal key depends
  on how much else the map holds.
\<close>

definition other_keys :: "(hash_key, nat) map_op list" where
  "other_keys = map (\<lambda>n. MSet (KeyDouble (0x3FF0000000000000 + of_nat n)) n) [0..<22]"

definition answers_of :: "(hash_key, nat) map_op list \<Rightarrow> (hash_key, nat) map_answer list option" where
  "answers_of ops = map_option fst (run_ops (map_step key_eq HASH (ENTRY_SIZE 8 4)) ops new_map)"

theorem zeros_break_map:
  "key_eq (KeyDouble 0) (KeyDouble 0x8000000000000000)"
  "map_option last (answers_of [MSet (KeyDouble 0) 1, MHas (KeyDouble 0x8000000000000000)]) = Some (Bool True)"
  "map_option last (answers_of (MSet (KeyDouble 0) 1 # other_keys @ [MHas (KeyDouble 0x8000000000000000)])) = Some (Bool False)"
  by code_simp+

end
