(* ===== verification/As_Set.thy ===== *)
theory As_Set
  imports As_Map_Laws
begin

unbundle bit_operations_syntax

text \<open>
  \<open>std/set.ts\<close>, the hash set: the hash map without values, here with the unit value. The walk along a chain and
  the copying loop are those of the map; the operations and the size of an entry are its own.
\<close>

section \<open>Operations\<close>

type_synonym 'k hash_set = "('k, unit) hash_map"

definition SET_ENTRY_ALIGN :: "int \<Rightarrow> int" where
  "SET_ENTRY_ALIGN key_size = (if key_size > 4 then key_size else 4) - 1"

definition SET_ENTRY_SIZE :: "int \<Rightarrow> int" where
  "SET_ENTRY_SIZE key_size =
     (let align = SET_ENTRY_ALIGN key_size; offset = align_up key_size 4 + 4 in (offset + align) AND NOT align)"

definition new_set :: "'k hash_set" where
  "new_set =
     \<lparr>m_buckets = replicate 4 None, m_mask = 3, m_entries = replicate 4 None, m_capacity = INITIAL_CAPACITY,
      m_offset = 0, m_count = 0\<rparr>"

definition set_size :: "'k hash_set \<Rightarrow> int" where
  "set_size s = m_count s"

definition set_clear :: "'k hash_set \<Rightarrow> 'k hash_set" where
  "set_clear s =
     s\<lparr>m_buckets := replicate 4 None, m_mask := 3, m_entries := replicate 4 None, m_capacity := INITIAL_CAPACITY,
       m_offset := 0, m_count := 0\<rparr>"

definition set_find :: "('k \<Rightarrow> 'k \<Rightarrow> bool) \<Rightarrow> 'k hash_set \<Rightarrow> 'k \<Rightarrow> 32 word \<Rightarrow> nat option option" where
  "set_find eq s key hash_code = do {
     entry \<leftarrow> load_at (m_buckets s) (uint (hash_code AND m_mask s));
     find_loop eq (length (m_entries s)) (m_entries s) key entry
   }"

definition set_has :: "('k \<Rightarrow> 'k \<Rightarrow> bool) \<Rightarrow> ('k \<Rightarrow> 32 word) \<Rightarrow> 'k hash_set \<Rightarrow> 'k \<Rightarrow> bool option" where
  "set_has eq hash s key = do { entry \<leftarrow> set_find eq s key (hash key); Some (entry \<noteq> None) }"

definition set_rehash ::
  "('k \<Rightarrow> 32 word) \<Rightarrow> int \<Rightarrow> 'k hash_set \<Rightarrow> 32 word \<Rightarrow> ((string + unit) \<times> 'k hash_set) option" where
  "set_rehash hash entry_size s new_mask =
     (let buckets_capacity = i32 (uint (new_mask + 1));
          capacity = i32 (buckets_capacity * FILL_FACTOR_N) sdiv FILL_FACTOR_D
      in case buffer_error (i32 (buckets_capacity * BUCKET_SIZE)) of Some err \<Rightarrow> Some (Inl err, s)
      | None \<Rightarrow> (case buffer_error (i32 (capacity * entry_size)) of Some err \<Rightarrow> Some (Inl err, s)
        | None \<Rightarrow> do {
          (buckets, es) \<leftarrow> rehash_loop hash new_mask (take (nat (m_offset s)) (m_entries s)) 0
             (replicate (nat buckets_capacity) None) (replicate (nat capacity) None);
          Some (Inr (), s\<lparr>m_buckets := buckets, m_mask := new_mask, m_entries := es, m_capacity := capacity,
             m_offset := m_count s\<rparr>)
        }))"

definition set_add :: "('k \<Rightarrow> 'k \<Rightarrow> bool) \<Rightarrow> ('k \<Rightarrow> 32 word) \<Rightarrow> int \<Rightarrow> 'k hash_set \<Rightarrow> 'k \<Rightarrow> ((string + unit) \<times> 'k hash_set) option" where
  "set_add eq hash entry_size s key = do {
     let hash_code = hash key;
     entry \<leftarrow> set_find eq s key hash_code;
     if entry = None then do {
       (r, s) \<leftarrow>
         (if m_offset s = m_capacity s
          then set_rehash hash entry_size s
            (if m_count s < i32 (m_capacity s * FREE_FACTOR_N) sdiv FREE_FACTOR_D then m_mask s
             else push_bit 1 (m_mask s) OR 1)
          else Some (Inr (), s));
       case r of Inl err \<Rightarrow> Some (Inl err, s)
       | Inr _ \<Rightarrow> do {
           (buckets, es) \<leftarrow> push_entry hash_code key () (m_mask s) (m_offset s) (m_buckets s) (m_entries s);
           Some (Inr (), s\<lparr>m_buckets := buckets, m_entries := es, m_offset := m_offset s + 1, m_count := m_count s + 1\<rparr>)
         }
     } else Some (Inr (), s)
   }"

definition set_delete ::
  "('k \<Rightarrow> 'k \<Rightarrow> bool) \<Rightarrow> ('k \<Rightarrow> 32 word) \<Rightarrow> int \<Rightarrow> 'k hash_set \<Rightarrow> 'k \<Rightarrow> ((string + bool) \<times> 'k hash_set) option" where
  "set_delete eq hash entry_size s key = do {
     entry \<leftarrow> set_find eq s key (hash key);
     case entry of
       None \<Rightarrow> Some (Inr False, s)
     | Some p \<Rightarrow> do {
         e \<leftarrow> load_slot (m_entries s) (int p);
         es \<leftarrow> store_at (m_entries s) (int p) (Some (e\<lparr>e_empty := True\<rparr>));
         let s = s\<lparr>m_entries := es, m_count := m_count s - 1\<rparr>;
         let half = drop_bit 1 (m_mask s);
         if max (word_of_int INITIAL_CAPACITY) (word_of_int (m_count s)) \<le> half + 1
            \<and> m_count s < i32 (m_capacity s * FREE_FACTOR_N) sdiv FREE_FACTOR_D
         then do {
           (r, s) \<leftarrow> set_rehash hash entry_size s half;
           case r of Inl err \<Rightarrow> Some (Inl err, s) | Inr _ \<Rightarrow> Some (Inr True, s)
         } else Some (Inr True, s)
       }
   }"

text \<open>The assignment to an element: true adds it, false deletes it.\<close>

definition set_assign ::
  "('k \<Rightarrow> 'k \<Rightarrow> bool) \<Rightarrow> ('k \<Rightarrow> 32 word) \<Rightarrow> int \<Rightarrow> 'k hash_set \<Rightarrow> 'k \<Rightarrow> bool \<Rightarrow> ((string + unit) \<times> 'k hash_set) option" where
  "set_assign eq hash entry_size s key b =
     (if b then set_add eq hash entry_size s key
      else do {
        (r, s) \<leftarrow> set_delete eq hash entry_size s key;
        Some (case r of Inl err \<Rightarrow> Inl err | Inr _ \<Rightarrow> Inr (), s)
      })"

definition set_values :: "'k hash_set \<Rightarrow> 'k list option" where
  "set_values s = map_collect e_key (take (nat (m_offset s)) (m_entries s))"

datatype 'k set_op =
    SAdd 'k
  | SDelete 'k
  | SHas 'k
  | SAssign 'k bool
  | SSize
  | SValues
  | SClear

definition set_step ::
  "('k \<Rightarrow> 'k \<Rightarrow> bool) \<Rightarrow> ('k \<Rightarrow> 32 word) \<Rightarrow> int \<Rightarrow> 'k set_op \<Rightarrow> 'k hash_set \<Rightarrow> (('k, unit) map_answer \<times> 'k hash_set) option" where
  "set_step eq hash entry_size x s = (case x of
     SAdd k \<Rightarrow> do { (r, s) \<leftarrow> set_add eq hash entry_size s k; Some (case r of Inl err \<Rightarrow> Throw err | Inr _ \<Rightarrow> Done, s) }
   | SDelete k \<Rightarrow> do { (r, s) \<leftarrow> set_delete eq hash entry_size s k; Some (case r of Inl err \<Rightarrow> Throw err | Inr b \<Rightarrow> Bool b, s) }
   | SHas k \<Rightarrow> do { b \<leftarrow> set_has eq hash s k; Some (Bool b, s) }
   | SAssign k b \<Rightarrow> do { (r, s) \<leftarrow> set_assign eq hash entry_size s k b; Some (case r of Inl err \<Rightarrow> Throw err | Inr _ \<Rightarrow> Done, s) }
   | SSize \<Rightarrow> Some (Number (set_size s), s)
   | SValues \<Rightarrow> do { ks \<leftarrow> set_values s; Some (Keys ks, s) }
   | SClear \<Rightarrow> Some (Done, set_clear s))"

section \<open>Laws\<close>

text \<open>A set is a map to the unit value.\<close>

lemma set_is_map:
  "set_find = map_find" "set_has = map_has" "set_rehash = map_rehash" "set_delete = map_delete"
  "new_set = new_map" "set_clear = map_clear" "set_size = map_size" "set_values = map_keys"
proof -
  show find: "set_find = map_find" by (simp add: fun_eq_iff set_find_def map_find_def)
  show rehash: "set_rehash = map_rehash" by (simp add: fun_eq_iff set_rehash_def map_rehash_def)
  show "set_has = map_has" by (simp add: fun_eq_iff set_has_def map_has_def find)
  show "set_delete = map_delete" by (intro ext) (simp only: set_delete_def map_delete_def find rehash)
qed (simp_all add: fun_eq_iff new_set_def new_map_def set_clear_def map_clear_def set_size_def map_size_def
    set_values_def map_keys_def)

lemma set_add_is_set:
  fixes s :: "'a hash_set"
  assumes "holds hash s es"
  shows "set_add (=) hash entry_size s key = map_set (=) hash entry_size s key ()"
proof -
  obtain r where r: "map_find (=) s key (hash key) = Some r" "found es key r" using holds_find[OF assms] by metis
  show ?thesis
  proof (cases r)
    case None
    with r show ?thesis by (simp add: set_add_def map_set_def set_is_map)
  next
    case (Some p)
    then have p: "p < length es" using r(2) by (simp add: found_def)
    have same: "e\<lparr>e_value := ()\<rparr> = e" for e :: "('a, unit) map_entry" by simp
    have "store_at (m_entries s) (int p) (Some (es ! p)) = Some (m_entries s)"
      using assms store_slots[OF p, of _ "es ! p"] by (simp add: holds_def)
    then show ?thesis
      using r(1) Some holds_load[OF assms p] unfolding set_add_def map_set_def set_is_map same by simp
  qed
qed

text \<open>The list of distinct elements that a set stands for.\<close>

definition elements :: "'k hash_set \<Rightarrow> 'k list" where
  "elements s = dkeys (map_dict s)"

inductive element_step :: "'k list \<Rightarrow> 'k set_op \<Rightarrow> ('k, unit) map_answer \<Rightarrow> 'k list \<Rightarrow> bool" where
  add: "element_step ks (SAdd k) Done (if k \<in> set ks then ks else ks @ [k])"
| refuse: "k \<notin> set ks \<Longrightarrow> 16777215 \<le> length ks \<Longrightarrow> err \<in> too_large \<Longrightarrow> element_step ks (SAdd k) (Throw err) ks"
| delete: "element_step ks (SDelete k) (Bool (k \<in> set ks)) (filter (\<lambda>j. j \<noteq> k) ks)"
| has: "element_step ks (SHas k) (Bool (k \<in> set ks)) ks"
| assign_true: "element_step ks (SAdd k) r ks' \<Longrightarrow> element_step ks (SAssign k True) r ks'"
| assign_false: "element_step ks (SAssign k False) Done (filter (\<lambda>j. j \<noteq> k) ks)"
| size: "element_step ks SSize (Number (int (length ks))) ks"
| "values": "element_step ks SValues (Keys ks) ks"
| clear: "element_step ks SClear Done []"

lemma set_add_simulates:
  assumes "8 \<le> entry_size" "entry_size \<le> 24" "map_ok hash entry_size s"
  shows "\<exists>r s'. set_add (=) hash entry_size s key = Some (r, s') \<and> map_ok hash entry_size s'
    \<and> element_step (elements s) (SAdd key) (case r of Inl err \<Rightarrow> Throw err | Inr _ \<Rightarrow> Done) (elements s')"
proof -
  obtain k es where s: "shaped entry_size s k" "holds hash s es" using assms(3) by (auto simp: map_ok_def)
  from map_set_spec[OF s assms(1,2), of key "()"] show ?thesis
  proof (elim disjE exE conjE bexE)
    fix s' k' news assume "map_set (=) hash entry_size s key () = Some (Inr (), s')" "shaped entry_size s' k'" "holds hash s' news"
      "dict_of news = dset (dict_of es) key ()"
    then show ?thesis
      using element_step.add[of "elements s" key]
      by (auto simp: set_add_is_set[OF s(2)] map_ok_def elements_def holds_dict[OF s(2)] holds_dict dkeys_dset split: if_splits)
  next
    fix err assume "err \<in> too_large" "map_set (=) hash entry_size s key () = Some (Inl err, s)" "16777215 \<le> length (dict_of es)"
      "key \<notin> set (dkeys (dict_of es))"
    then show ?thesis
      using assms(3) by (auto simp: set_add_is_set[OF s(2)] elements_def holds_dict[OF s(2)] dkeys_def intro!: element_step.refuse)
  qed
qed

lemma set_step_simulates:
  fixes s :: "'a hash_set"
  assumes "8 \<le> entry_size" "entry_size \<le> 24" "map_ok hash entry_size s"
  shows "\<exists>r s'. set_step (=) hash entry_size x s = Some (r, s') \<and> map_ok hash entry_size s' \<and> element_step (elements s) x r (elements s')"
proof -
  obtain k es where s: "shaped entry_size s k" "holds hash s es" using assms(3) by (auto simp: map_ok_def)
  note dict = holds_dict[OF s(2)]
  have added: "set_step (=) hash entry_size (SAdd key) s
      = map_option (\<lambda>(r, s). (case r of Inl err \<Rightarrow> Throw err | Inr _ \<Rightarrow> Done, s)) (set_add (=) hash entry_size s key)" for key
    by (cases "set_add (=) hash entry_size s key") (auto simp: set_step_def)
  have deleted: "\<exists>s'. set_delete (=) hash entry_size s key = Some (Inr (key \<in> set (elements s)), s') \<and> map_ok hash entry_size s'
      \<and> elements s' = filter (\<lambda>j. j \<noteq> key) (elements s)" for key
    using map_delete_spec[OF s assms(1,2), of key]
    by (auto simp: set_is_map map_ok_def elements_def dict holds_dict dkeys_ddel)
  show ?thesis
  proof (cases x)
    case (SAdd key)
    with set_add_simulates[OF assms, of key] added[of key] show ?thesis by auto
  next
    case (SDelete key)
    with deleted[of key] show ?thesis by (auto simp: set_step_def intro: element_step.delete)
  next
    case (SHas key)
    with map_has_spec[OF s(2), of key] assms(3) dict show ?thesis
      by (auto simp: set_step_def set_is_map elements_def intro: element_step.has)
  next
    case (SAssign key b)
    show ?thesis
    proof (cases b)
      case True
      then have "set_step (=) hash entry_size x s = set_step (=) hash entry_size (SAdd key) s"
        using SAssign by (simp add: set_step_def set_assign_def)
      with set_add_simulates[OF assms, of key] added[of key] True SAssign show ?thesis
        by (auto intro: element_step.assign_true)
    next
      case False
      with SAssign deleted[of key] show ?thesis
        by (auto simp: set_step_def set_assign_def intro: element_step.assign_false)
    qed
  next
    case SSize
    with element_step.size[of "elements s"] map_lists_spec[OF s(2)] assms(3) dict show ?thesis
      by (simp add: set_step_def set_is_map elements_def dkeys_def)
  next
    case SClear
    have "set_clear s = (new_map :: 'a hash_set)" by (simp add: set_clear_def new_map_def)
    moreover have "elements (new_map :: 'a hash_set) = []" by (simp add: elements_def map_dict_def new_map_def dkeys_def)
    ultimately show ?thesis
      using SClear new_map_ok[OF assms(1,2)] by (auto simp: set_step_def intro: element_step.clear)
  qed (use map_lists_spec[OF s(2)] assms(3) in
      \<open>auto simp: set_step_def set_is_map elements_def dict dkeys_def intro: element_step.values\<close>)
qed

definition element_keys :: "'k set_op \<Rightarrow> 'k set" where
  "element_keys x = (case x of SAdd k \<Rightarrow> {k} | SDelete k \<Rightarrow> {k} | SHas k \<Rightarrow> {k} | SAssign k b \<Rightarrow> {k} | _ \<Rightarrow> {})"

lemma set_step_proper:
  assumes "proper_on K eq" "map_ok hash entry_size s" "set (elements s) \<subseteq> K" "element_keys x \<subseteq> K"
  shows "set_step eq hash entry_size x s = set_step (=) hash entry_size x s"
proof -
  obtain es where es: "holds hash s es" using assms(2) by (auto simp: map_ok_def)
  have find: "set_find eq s key h = set_find (=) s key h" if "key \<in> K" for key h
    using map_find_proper[OF assms(1) es _ that] assms(3) holds_dict[OF es] by (simp add: set_is_map elements_def)
  show ?thesis
    using assms(4)
    by (cases x) (simp_all add: set_step_def element_keys_def set_assign_def set_add_def set_delete_def set_has_def find)
qed

lemma element_step_keys: "element_step ks x r ks' \<Longrightarrow> set ks \<subseteq> K \<Longrightarrow> element_keys x \<subseteq> K \<Longrightarrow> set ks' \<subseteq> K"
  by (induction rule: element_step.induct) (auto simp: element_keys_def split: if_splits)

lemma set_step_simulates_proper:
  assumes "8 \<le> entry_size \<and> entry_size \<le> 24 \<and> proper_on K eq \<and> map_ok hash entry_size s \<and> set (elements s) \<subseteq> K"
    and "element_keys x \<subseteq> K"
  shows "\<exists>r s'. set_step eq hash entry_size x s = Some (r, s')
    \<and> (8 \<le> entry_size \<and> entry_size \<le> 24 \<and> proper_on K eq \<and> map_ok hash entry_size s' \<and> set (elements s') \<subseteq> K)
    \<and> element_step (elements s) x r (elements s')"
proof -
  obtain r s' where "set_step (=) hash entry_size x s = Some (r, s')" "map_ok hash entry_size s'"
      "element_step (elements s) x r (elements s')"
    using set_step_simulates[of entry_size hash s x] assms(1) by blast
  with assms element_step_keys[OF this(3)] show ?thesis
    by (auto simp: set_step_proper[of K eq hash entry_size s x])
qed

interpretation sets: simulation "set_step eq hash entry_size" element_step elements
    "\<lambda>s. 8 \<le> entry_size \<and> entry_size \<le> 24 \<and> proper_on K eq \<and> map_ok hash entry_size s \<and> set (elements s) \<subseteq> K"
    "\<lambda>x. element_keys x \<subseteq> K"
  for eq :: "'k \<Rightarrow> 'k \<Rightarrow> bool" and hash :: "'k \<Rightarrow> 32 word" and entry_size K
  by unfold_locales (rule set_step_simulates_proper)

text \<open>
  C26. Over elements on which the comparison \<open>==\<close> agrees with equality (integers, strings, references, and floats
  without NaN and negative zero), a set is a list of distinct elements in insertion order: from a new set every
  sequence of operations on such elements runs without leaving its buffers and gives the answers of the list. Only
  the addition of a new element to at least 16777215 can fail, and then changes nothing. With both zeros a set is
  no such list (\<open>zeros_break_set\<close> below).
\<close>

theorem set_refines_list:
  fixes ops :: "'a set_op list"
  assumes "key_size \<in> {1, 2, 4, 8}"
    and "\<forall>a\<in>K. \<forall>b\<in>K. eq a b \<longleftrightarrow> a = b" "\<forall>x\<in>set ops. element_keys x \<subseteq> K"
  shows "\<exists>answers s. run_ops (set_step eq hash (SET_ENTRY_SIZE key_size)) ops new_set = Some (answers, s)
    \<and> spec_run element_step [] ops answers (elements s)"
proof -
  have "8 \<le> SET_ENTRY_SIZE key_size" "SET_ENTRY_SIZE key_size \<le> 24"
    using assms(1) by (auto simp: SET_ENTRY_SIZE_def SET_ENTRY_ALIGN_def align_up_def)
  moreover have "elements (new_set :: 'a hash_set) = []" by (simp add: elements_def map_dict_def new_set_def dkeys_def)
  ultimately show ?thesis
    using sets.run_simulates[of "SET_ENTRY_SIZE key_size" K eq hash new_set ops] new_map_ok[of "SET_ENTRY_SIZE key_size" hash]
      assms(2,3)
    by (force simp: set_is_map proper_on_def list_all_iff)
qed

theorem set_refines_list_witness:
  "\<exists>answers s. run_ops (set_step key_eq HASH (SET_ENTRY_SIZE 4)) [SAdd (KeyFloat 7), SAssign (KeyFloat 7) False, SHas (KeyFloat 7), SValues] new_set
     = Some (answers, s) \<and> spec_run element_step [] [SAdd (KeyFloat 7), SAssign (KeyFloat 7) False, SHas (KeyFloat 7), SValues] answers (elements s)"
proof (rule set_refines_list[where K = "{k. plain_key k}"])
  show "\<forall>a\<in>{k. plain_key k}. \<forall>b\<in>{k. plain_key k}. key_eq a b \<longleftrightarrow> a = b"
    using plain_keys_proper unfolding proper_on_def .
qed (simp_all add: element_keys_def float_nan_def)

text \<open>As for maps: the negative zero is an element of the set of the zero among few elements only.\<close>

definition other_elements :: "hash_key set_op list" where
  "other_elements = map (\<lambda>n. SAdd (KeyDouble (0x3FF0000000000000 + of_nat n))) [0..<22]"

definition set_answers_of :: "hash_key set_op list \<Rightarrow> (hash_key, unit) map_answer list option" where
  "set_answers_of ops = map_option fst (run_ops (set_step key_eq HASH (SET_ENTRY_SIZE 8)) ops new_set)"

theorem zeros_break_set:
  "map_option last (set_answers_of [SAdd (KeyDouble 0), SHas (KeyDouble 0x8000000000000000)]) = Some (Bool True)"
  "map_option last (set_answers_of (SAdd (KeyDouble 0) # other_elements @ [SHas (KeyDouble 0x8000000000000000)])) = Some (Bool False)"
  by code_simp+

end
