(* ===== verification/As_Uri.thy ===== *)
theory As_Uri
  imports As_Memory
begin

unbundle bit_operations_syntax

text \<open>
  \<open>std/util/uri.ts\<close> and \<open>std/uri.ts\<close>: percent-encoding of strings and its inverse. A string is the list of its
  UTF-16 code units; a buffer is renewed by cutting or extending it.
\<close>

section \<open>Tables and characters\<close>

definition URI_UNSAFE :: "int list" where
  "URI_UNSAFE =
     [0, 1, 0, 0, 1, 0, 0, 0, 0, 0, 0, 0, 0, 0, 0,
      0, 0, 0, 0, 0, 0, 0, 0, 0, 0, 0, 0, 1, 0, 1, 0,
      0, 0, 0, 0, 0, 0, 0, 0, 0, 0, 0, 0, 0, 0, 0, 0,
      0, 0, 0, 0, 0, 0, 0, 0, 0, 0, 0, 1, 1, 1, 1, 0,
      1, 0, 0, 0, 0, 0, 0, 0, 0, 0, 0, 0, 0, 0, 0, 0,
      0, 0, 0, 0, 0, 0, 0, 0, 0, 0, 0, 1, 1, 1, 0]"

definition URL_UNSAFE :: "int list" where
  "URL_UNSAFE =
     [0, 1, 1, 1, 1, 1, 0, 0, 0, 0, 1, 1, 0, 0, 1,
      0, 0, 0, 0, 0, 0, 0, 0, 0, 0, 1, 1, 1, 1, 1, 1,
      1, 0, 0, 0, 0, 0, 0, 0, 0, 0, 0, 0, 0, 0, 0, 0,
      0, 0, 0, 0, 0, 0, 0, 0, 0, 0, 0, 1, 1, 1, 1, 0,
      1, 0, 0, 0, 0, 0, 0, 0, 0, 0, 0, 0, 0, 0, 0, 0,
      0, 0, 0, 0, 0, 0, 0, 0, 0, 0, 0, 1, 1, 1, 0]"

definition URI_RESERVED :: "int list" where
  "URI_RESERVED =
     [1, 1, 0, 1, 0, 0, 0, 0, 1, 1, 0, 0, 1,
      0, 0, 0, 0, 0, 0, 0, 0, 0, 0, 1, 1, 0, 1, 0, 1,
      1]"

definition HEX_CHARS :: "int list" where
  "HEX_CHARS =
     [0x30, 0x31, 0x32, 0x33, 0x34, 0x35, 0x36, 0x37,
      0x38, 0x39, 0x41, 0x42, 0x43, 0x44, 0x45, 0x46]"

definition PERCENT :: int where "PERCENT = 0x25"

definition E_URI_MALFORMED :: string where "E_URI_MALFORMED = ''URI malformed''"

definition isHex :: "int \<Rightarrow> bool" where
  "isHex ch \<longleftrightarrow> u32 (ch - 0x30) < 10 \<or> u32 ((ch OR 32) - 0x61) < 6"

definition fromHex :: "int \<Rightarrow> int" where
  "fromHex ch = u32 ((ch OR 32) mod 39 - 9)"

definition isReserved :: "int \<Rightarrow> bool option" where
  "isReserved ch =
     (if u32 (ch - 35) < 30 then do { r \<leftarrow> load_at URI_RESERVED (u32 (ch - 35)); Some (r \<noteq> 0) } else Some False)"

text \<open>The number of bytes of the UTF-8 sequence that a byte starts, 0 when it starts none.\<close>

definition utf8LenFromUpperByte :: "int \<Rightarrow> int" where
  "utf8LenFromUpperByte c0 = (if u32 (c0 - 0xC0) < 56 then int (clz 32 (u32 (NOT (push_bit 24 c0)))) else 0)"

section \<open>Encoding\<close>

text \<open>A renewed string buffer of \<open>n\<close> units.\<close>

definition renew :: "buffer \<Rightarrow> int \<Rightarrow> string + buffer" where
  "renew dst n =
     (if 2 * n \<ge> OBJECT_MAXSIZE then Inl E_ALLOCATION_TOO_LARGE
      else Inr (take (nat n) dst @ replicate (nat n - length dst) None))"

text \<open>The copy of \<open>n\<close> units of a string.\<close>

fun copy_units :: "int list \<Rightarrow> int \<Rightarrow> nat \<Rightarrow> buffer \<Rightarrow> int \<Rightarrow> buffer option" where
  "copy_units src org 0 dst offset = Some dst"
| "copy_units src org (Suc n) dst offset = do {
     c \<leftarrow> load_at src org;
     dst \<leftarrow> store_at dst offset (Some c);
     copy_units src (org + 1) n dst (offset + 1)
   }"

definition storeHex :: "buffer \<Rightarrow> int \<Rightarrow> int \<Rightarrow> buffer option" where
  "storeHex dst offset ch = do {
     dst \<leftarrow> store_at dst offset (Some PERCENT);
     c0 \<leftarrow> load_at HEX_CHARS (drop_bit 4 ch AND 0x0F);
     c1 \<leftarrow> load_at HEX_CHARS (ch AND 0x0F);
     dst \<leftarrow> store_at dst (offset + 1) (Some c0);
     store_at dst (offset + 2) (Some c1)
   }"

text \<open>The scan for the next unit that must be escaped: where it stops, and the last unit it read.\<close>

function scan_safe :: "int list \<Rightarrow> int list \<Rightarrow> int \<Rightarrow> (int \<times> int) option" where
  "scan_safe src table i = do {
     c \<leftarrow> load_at src i;
     if u32 (c - 33) < 94 then do {
       unsafe \<leftarrow> load_at table (u32 (c - 33));
       if unsafe \<noteq> 0 then Some (i, c)
       else if i + 1 < int (length src) then scan_safe src table (i + 1)
       else Some (i + 1, c)
     } else Some (i, c)
   }"
  by pat_completeness auto
termination by (relation "measure (\<lambda>(src, table, i). nat (int (length src) - i))") auto

declare scan_safe.simps [simp del]

text \<open>
  The code point at \<open>i\<close>, of one or of two units; \<open>None\<close> in the option is an unpaired surrogate. A leading surrogate
  at the end of the string loads the unit after the string.
\<close>

definition join_surrogates :: "int \<Rightarrow> int \<Rightarrow> int" where
  "join_surrogates c c1 = (push_bit 10 (c AND 0x3FF) OR (c1 AND 0x3FF)) + 0x10000"

definition code_point :: "int list \<Rightarrow> int \<Rightarrow> int \<Rightarrow> (int \<times> int) option option" where
  "code_point src i c =
     (if c \<ge> 0xD800 then
        if c \<ge> 0xDC00 \<and> c \<le> 0xDFFF then Some None
        else if c \<le> 0xDBFF then
          if i \<ge> int (length src) then Some None
          else do {
            c1 \<leftarrow> load_at src (i + 1);
            if c1 < 0xDC00 \<or> c1 > 0xDFFF then Some None
            else Some (Some (i + 1, join_surrogates c c1))
          }
        else Some (Some (i, c))
      else Some (Some (i, c)))"

definition store_escapes :: "buffer \<Rightarrow> int \<Rightarrow> int \<Rightarrow> (buffer \<times> int) option" where
  "store_escapes dst offset c =
     (if c < 0x80 then do {
        dst \<leftarrow> storeHex dst offset c;
        Some (dst, offset + 3)
      } else do {
        (dst, offset) \<leftarrow>
          (if c < 0x800 then do {
             dst \<leftarrow> storeHex dst offset (drop_bit 6 c OR 0xC0);
             Some (dst, offset + 3)
           } else do {
             (dst, offset) \<leftarrow>
               (if c < 0x10000 then do {
                  dst \<leftarrow> storeHex dst offset (drop_bit 12 c OR 0xE0);
                  Some (dst, offset + 3)
                } else do {
                  dst \<leftarrow> storeHex dst offset (drop_bit 18 c OR 0xF0);
                  dst \<leftarrow> storeHex dst (offset + 3) ((drop_bit 12 c AND 0x3F) OR 0x80);
                  Some (dst, offset + 6)
                });
             dst \<leftarrow> storeHex dst offset ((drop_bit 6 c AND 0x3F) OR 0x80);
             Some (dst, offset + 3)
           });
        dst \<leftarrow> storeHex dst offset ((c AND 0x3F) OR 0x80);
        Some (dst, offset + 3)
      })"

lemma scan_safe_ge: "scan_safe src table i = Some (j, c) \<Longrightarrow> i \<le> j"
proof (induction src table i rule: scan_safe.induct)
  case (1 src table i)
  note step = scan_safe.simps[of src table i]
  obtain d where d: "load_at src i = Some d" using "1.prems" by (cases "load_at src i") (simp_all add: step)
  show ?case
  proof (cases "u32 (d - 33) < 94")
    case True
    then obtain e where e: "load_at table (u32 (d - 33)) = Some e"
      using "1.prems" d by (cases "load_at table (u32 (d - 33))") (simp_all add: step)
    show ?thesis
    proof (cases "e \<noteq> 0 \<or> \<not> i + 1 < int (length src)")
      case True
      with "1.prems" d e \<open>u32 (d - 33) < 94\<close> show ?thesis by (auto simp: step split: if_splits)
    next
      case False
      then have "scan_safe src table (i + 1) = Some (j, c)"
        using "1.prems" d e \<open>u32 (d - 33) < 94\<close> by (simp add: step)
      then have "i + 1 \<le> j" using "1.IH"[OF d True e] False by blast
      then show ?thesis by simp
    qed
  next
    case False
    with "1.prems" d show ?thesis by (simp add: step)
  qed
qed

lemma code_point_ge: "code_point src i c = Some (Some (j, d)) \<Longrightarrow> i \<le> j"
  by (auto simp: code_point_def bind_eq_Some_conv split: if_splits)

text \<open>The copy of a safe range; the buffer is renewed when the range does not fit.\<close>

definition copy_range :: "int list \<Rightarrow> int \<Rightarrow> int \<Rightarrow> buffer \<Rightarrow> int \<Rightarrow> int \<Rightarrow> (string + (buffer \<times> int \<times> int)) option" where
  "copy_range src org i dst offset outSize =
     (if i > org then
        (let size = i - org;
             r = (if offset + size > outSize
                  then (case renew dst (offset + size) of Inl err \<Rightarrow> Inl err | Inr dst \<Rightarrow> Inr (dst, offset + size))
                  else Inr (dst, outSize))
         in case r of Inl err \<Rightarrow> Some (Inl err)
            | Inr (dst, outSize) \<Rightarrow> do {
                dst \<leftarrow> copy_units src org (nat size) dst offset;
                Some (Inr (dst, offset + size, outSize))
              })
      else Some (Inr (dst, offset, outSize)))"

definition reserve :: "int \<Rightarrow> int \<Rightarrow> buffer \<Rightarrow> int \<Rightarrow> int \<Rightarrow> string + (buffer \<times> int)" where
  "reserve len c dst offset outSize =
     (let estSize = offset + (if c < 0x80 then 3 else 12) in
      if estSize > outSize then
        (let outSize = (if len > 1 then 2 * estSize else estSize) in
         case renew dst outSize of Inl err \<Rightarrow> Inl err | Inr dst \<Rightarrow> Inr (dst, outSize))
      else Inr (dst, outSize))"

function encode_loop ::
  "int list \<Rightarrow> int list \<Rightarrow> int \<Rightarrow> buffer \<Rightarrow> int \<Rightarrow> int \<Rightarrow> (string + (buffer \<times> int \<times> int)) option" where
  "encode_loop src table i dst offset outSize =
     (if i < int (length src) then do {
        (j, c) \<leftarrow> scan_safe src table i;
        copied \<leftarrow> copy_range src i j dst offset outSize;
        case copied of Inl err \<Rightarrow> Some (Inl err)
        | Inr (dst, offset, outSize) \<Rightarrow>
          if j > i \<and> j \<ge> int (length src) then Some (Inr (dst, offset, outSize))
          else do {
            point \<leftarrow> code_point src j c;
            case point of None \<Rightarrow> Some (Inl E_URI_MALFORMED)
            | Some (j, c) \<Rightarrow>
              (case reserve (int (length src)) c dst offset outSize of Inl err \<Rightarrow> Some (Inl err)
               | Inr (dst, outSize) \<Rightarrow> do {
                   (dst, offset) \<leftarrow> store_escapes dst offset c;
                   encode_loop src table (j + 1) dst offset outSize
                 })
          }
      } else Some (Inr (dst, offset, outSize)))"
  by pat_completeness auto
termination
  by (relation "measure (\<lambda>(src, table, i, dst, offset, outSize). nat (int (length src) - i))")
    (auto dest!: scan_safe_ge code_point_ge)

declare encode_loop.simps [simp del]

definition finish :: "buffer \<Rightarrow> int \<Rightarrow> int \<Rightarrow> (string + int list) option" where
  "finish dst offset outSize =
     (case (if outSize > offset then renew dst offset else Inr dst) of Inl err \<Rightarrow> Some (Inl err)
      | Inr dst \<Rightarrow> do { s \<leftarrow> written dst; Some (Inr s) })"

definition encode :: "int list \<Rightarrow> int list \<Rightarrow> (string + int list) option" where
  "encode src table =
     (if src = [] then Some (Inr src)
      else case new_string (int (length src)) of Inl err \<Rightarrow> Some (Inl err)
      | Inr dst \<Rightarrow> do {
          r \<leftarrow> encode_loop src table 0 dst 0 (int (length src));
          case r of Inl err \<Rightarrow> Some (Inl err)
          | Inr (dst, offset, outSize) \<Rightarrow> finish dst offset outSize
        })"

section \<open>Decoding\<close>

text \<open>The value of two hexadecimal digits at \<open>i\<close>; \<open>None\<close> in the option is the code's -1.\<close>

definition loadHex :: "int list \<Rightarrow> int \<Rightarrow> int option option" where
  "loadHex src i = do {
     c0 \<leftarrow> load_at src i;
     c1 \<leftarrow> load_at src (i + 1);
     Some (if isHex c0 \<and> isHex c1 then Some (u32 (push_bit 4 (fromHex c0)) OR fromHex c1) else None)
   }"

text \<open>An escape at \<open>i\<close> whose first unit \<open>p\<close> was read; too short, no percent sign and no digits are malformed.\<close>

definition escape :: "int list \<Rightarrow> int \<Rightarrow> int option \<Rightarrow> int option option" where
  "escape src i p =
     (if i + 2 \<ge> int (length src) then Some None
      else do {
        p \<leftarrow> p;
        if p \<noteq> PERCENT then Some None else loadHex src (i + 1)
      })"

function skip_plain :: "int list \<Rightarrow> int \<Rightarrow> int \<Rightarrow> (int \<times> int) option" where
  "skip_plain src i ch =
     (if i < int (length src) then do {
        ch \<leftarrow> load_at src i;
        if ch \<noteq> PERCENT then skip_plain src (i + 1) ch else Some (i, ch)
      } else Some (i, ch))"
  by pat_completeness auto
termination by (relation "measure (\<lambda>(src, i, ch). nat (int (length src) - i))") auto

function utf8_tail :: "int list \<Rightarrow> int \<Rightarrow> int \<Rightarrow> int \<Rightarrow> (int \<times> int) option option" where
  "utf8_tail src i nb ch =
     (let nb = u32 (nb - 1) in
      if nb \<noteq> 0 then do {
        c1 \<leftarrow> escape src i (load_at src i);
        case c1 of None \<Rightarrow> Some None
        | Some c1 \<Rightarrow>
          if c1 AND 0xC0 \<noteq> 0x80 then Some (Some (i + 3, 0))
          else utf8_tail src (i + 3) nb (u32 (push_bit 6 ch) OR (c1 AND 0x3F))
      } else Some (Some (i, ch)))"
  by pat_completeness auto
termination
  by (relation "measure (\<lambda>(src, i, nb, ch). nat (int (length src) - i))")
    (auto simp: escape_def split: if_splits)

declare skip_plain.simps [simp del] utf8_tail.simps [simp del]

text \<open>The sequence that the byte \<open>ch\<close> starts: the code point, or malformed.\<close>

definition minimal_point :: "int \<Rightarrow> int" where
  "minimal_point nb = u32 (push_bit (nat (take_bit 5 (drop_bit 2 (17 * nb) - 1))) 1)"

definition lead_bits :: "int \<Rightarrow> int \<Rightarrow> int" where
  "lead_bits nb ch = ch AND (if nb \<noteq> 0 then drop_bit (nat nb) 0x80 - 1 else 0)"

definition bad_point :: "int \<Rightarrow> int \<Rightarrow> bool" where
  "bad_point lo ch \<longleftrightarrow> ch < lo \<or> lo = 0xFFFFFFFF \<or> ch > 0x10FFFF \<or> (ch \<ge> 0xD800 \<and> ch < 0xE000)"

definition decode_utf8 :: "int list \<Rightarrow> int \<Rightarrow> int \<Rightarrow> (int \<times> int) option option" where
  "decode_utf8 src i ch =
     (let nb = utf8LenFromUpperByte ch;
          lo = minimal_point nb;
          ch = lead_bits nb ch
      in do {
        r \<leftarrow> utf8_tail src i nb ch;
        case r of None \<Rightarrow> Some None
        | Some (i, ch) \<Rightarrow> Some (if bad_point lo ch then None else Some (i, ch))
      })"

definition store_point :: "buffer \<Rightarrow> int \<Rightarrow> int \<Rightarrow> (buffer \<times> int) option" where
  "store_point dst offset ch =
     (if ch \<ge> 0x10000 then
        (let ch = ch - 0x10000; lo = drop_bit 10 ch OR 0xD800; hi = (ch AND 0x03FF) OR 0xDC00 in do {
          dst \<leftarrow> store_at dst offset (Some lo);
          dst \<leftarrow> store_at dst (offset + 1) (Some hi);
          Some (dst, offset + 2)
        })
      else do { dst \<leftarrow> store_at dst offset (Some ch); Some (dst, offset + 1) })"

text \<open>What the escape at \<open>i\<close> stands for and where it ends; \<open>decodeURI\<close> keeps the escapes of reserved characters.\<close>

definition decode_escape :: "int list \<Rightarrow> bool \<Rightarrow> int \<Rightarrow> int \<Rightarrow> (int \<times> int) option option" where
  "decode_escape src component i ch = do {
     c \<leftarrow> escape src i (Some ch);
     case c of None \<Rightarrow> Some None
     | Some ch \<Rightarrow>
       if ch < 0x80 then do {
         kept \<leftarrow> (if component then Some False else isReserved ch);
         Some (Some (if kept then (i + 1, PERCENT) else (i + 3, ch)))
       } else decode_utf8 src (i + 3) ch
   }"

lemma skip_plain_ge: "skip_plain src i ch = Some (j, c) \<Longrightarrow> i \<le> j"
proof (induction src i ch rule: skip_plain.induct)
  case (1 src i ch)
  then show ?case
    by (subst (asm) skip_plain.simps) (force split: if_splits simp: bind_eq_Some_conv)
qed

lemma utf8_tail_ge: "utf8_tail src i nb ch = Some (Some (j, c)) \<Longrightarrow> i \<le> j"
proof (induction src i nb ch rule: utf8_tail.induct)
  case (1 src i nb ch)
  note step = utf8_tail.simps[of src i nb ch]
  show ?case
  proof (cases "u32 (nb - 1) = 0")
    case True
    with "1.prems" show ?thesis by (simp add: step)
  next
    case False
    then obtain d where d: "escape src i (load_at src i) = Some (Some d)"
      using "1.prems" by (cases "escape src i (load_at src i)") (auto simp: step split: option.splits)
    show ?thesis
    proof (cases "d AND 0xC0 \<noteq> 0x80")
      case True
      with "1.prems" False d show ?thesis by (simp add: step)
    next
      case more: False
      then have "utf8_tail src (i + 3) (u32 (nb - 1)) (u32 (push_bit 6 ch) OR (d AND 0x3F)) = Some (Some (j, c))"
        using "1.prems" False d by (simp add: step)
      then have "i + 3 \<le> j" using "1.IH"[OF refl False d refl] more by simp
      then show ?thesis by simp
    qed
  qed
qed

lemma decode_utf8_ge: "decode_utf8 src i ch = Some (Some (j, c)) \<Longrightarrow> i \<le> j"
  unfolding decode_utf8_def Let_def bind_eq_Some_conv by (auto split: if_splits option.splits dest: utf8_tail_ge)

lemma decode_escape_gt: "decode_escape src component i ch = Some (Some (j, c)) \<Longrightarrow> i < j"
proof -
  assume e: "decode_escape src component i ch = Some (Some (j, c))"
  then obtain b where b: "escape src i (Some ch) = Some (Some b)"
    by (auto simp: decode_escape_def bind_eq_Some_conv split: option.splits)
  show ?thesis
  proof (cases "b < 0x80")
    case True
    with e b show ?thesis by (auto simp: decode_escape_def bind_eq_Some_conv split: if_splits)
  next
    case False
    with e b have "decode_utf8 src (i + 3) b = Some (Some (j, c))" by (simp add: decode_escape_def)
    then show ?thesis using decode_utf8_ge by fastforce
  qed
qed

function decode_loop ::
  "int list \<Rightarrow> bool \<Rightarrow> int \<Rightarrow> int \<Rightarrow> buffer \<Rightarrow> int \<Rightarrow> (string + (buffer \<times> int)) option" where
  "decode_loop src component i ch dst offset =
     (if i < int (length src) then do {
        (j, ch) \<leftarrow> skip_plain src i ch;
        dst \<leftarrow> copy_units src i (nat (j - i)) dst offset;
        let offset = offset + (j - i);
        if j > i \<and> j \<ge> int (length src) then Some (Inr (dst, offset))
        else do {
          r \<leftarrow> decode_escape src component j ch;
          case r of None \<Rightarrow> Some (Inl E_URI_MALFORMED)
          | Some (j, ch) \<Rightarrow> do {
              (dst, offset) \<leftarrow> store_point dst offset ch;
              decode_loop src component j ch dst offset
            }
        }
      } else Some (Inr (dst, offset)))"
  by pat_completeness auto
termination
  by (relation "measure (\<lambda>(src, component, i, ch, dst, offset). nat (int (length src) - i))")
    (auto dest!: skip_plain_ge decode_escape_gt)

declare decode_loop.simps [simp del]

text \<open>The assertion on the offset fails as \<open>None\<close>.\<close>

definition decode :: "int list \<Rightarrow> bool \<Rightarrow> (string + int list) option" where
  "decode src component =
     (if src = [] then Some (Inr src)
      else case new_string (int (length src)) of Inl err \<Rightarrow> Some (Inl err)
      | Inr dst \<Rightarrow> do {
          r \<leftarrow> decode_loop src component 0 0 dst 0;
          case r of Inl err \<Rightarrow> Some (Inl err)
          | Inr (dst, offset) \<Rightarrow>
            if offset \<le> int (length src) then finish dst offset (int (length src)) else None
        })"

definition encodeURI :: "int list \<Rightarrow> (string + int list) option" where
  "encodeURI str = encode str URI_UNSAFE"

definition decodeURI :: "int list \<Rightarrow> (string + int list) option" where
  "decodeURI str = decode str False"

definition encodeURIComponent :: "int list \<Rightarrow> (string + int list) option" where
  "encodeURIComponent str = encode str URL_UNSAFE"

definition decodeURIComponent :: "int list \<Rightarrow> (string + int list) option" where
  "decodeURIComponent str = decode str True"

end
