(* ===== verification/As_Uri_Laws.thy ===== *)
theory As_Uri_Laws
  imports As_Uri
begin

unbundle bit_operations_syntax

text \<open>
  What percent-encoding means: a string is the UTF-16 form of its code points, and encoding replaces every code
  point that is not safe by the escapes of its UTF-8 bytes. Decoding is the inverse.
\<close>

section \<open>Code points, UTF-16 and UTF-8\<close>

definition scalar :: "int \<Rightarrow> bool" where
  "scalar c \<longleftrightarrow> 0 \<le> c \<and> c \<le> 0x10FFFF \<and> \<not> (0xD800 \<le> c \<and> c < 0xE000)"

definition utf16 :: "int \<Rightarrow> int list" where
  "utf16 c = (if c < 0x10000 then [c] else [0xD800 + (c - 0x10000) div 1024, 0xDC00 + (c - 0x10000) mod 1024])"

definition utf8 :: "int \<Rightarrow> int list" where
  "utf8 c =
     (if c < 0x80 then [c]
      else if c < 0x800 then [0xC0 + c div 64, 0x80 + c mod 64]
      else if c < 0x10000 then [0xE0 + c div 4096, 0x80 + c div 64 mod 64, 0x80 + c mod 64]
      else [0xF0 + c div 262144, 0x80 + c div 4096 mod 64, 0x80 + c div 64 mod 64, 0x80 + c mod 64])"

definition hexs :: "int \<Rightarrow> int list" where
  "hexs b = [PERCENT, HEX_CHARS ! nat (b div 16), HEX_CHARS ! nat (b mod 16)]"

definition safe :: "int list \<Rightarrow> int \<Rightarrow> bool" where
  "safe table c \<longleftrightarrow> 33 \<le> c \<and> c < 127 \<and> table ! nat (c - 33) = 0"

definition percent :: "int list \<Rightarrow> int \<Rightarrow> int list" where
  "percent table c = (if safe table c then [c] else concat (map hexs (utf8 c)))"

definition units :: "int list \<Rightarrow> int list" where
  "units cps = concat (map utf16 cps)"

definition percents :: "int list \<Rightarrow> int list \<Rightarrow> int list" where
  "percents table cps = concat (map (percent table) cps)"

lemma units_simps [simp]: "units [] = []" "units (c # cps) = utf16 c @ units cps" "units (xs @ ys) = units xs @ units ys"
  by (simp_all add: units_def)

lemma percents_simps [simp]: "percents table [] = []" "percents table (c # cps) = percent table c @ percents table cps"
    "percents table (xs @ ys) = percents table xs @ percents table ys"
  by (simp_all add: percents_def)

section \<open>Bits\<close>

lemma and_low: "c AND (2 ^ n - 1) = c mod (2 ^ n :: int)"
  by (metis mask_eq_exp_minus_1 take_bit_eq_mask take_bit_eq_mod)

lemma and_63: "c AND 63 = c mod (64 :: int)" and and_1023: "c AND 1023 = c mod (1024 :: int)"
    and and_15: "c AND 15 = c mod (16 :: int)"
  using and_low[of c 6] and_low[of c 10] and_low[of c 4] by simp_all

lemma drop_div: "drop_bit n c = c div (2 ^ n :: int)"
  by (simp add: drop_bit_eq_div)

lemma u32_between: "0 \<le> c \<Longrightarrow> c < 2 ^ 31 \<Longrightarrow> 0 \<le> k \<Longrightarrow> k < 2 ^ 31 \<Longrightarrow> n \<le> 2 ^ 31 \<Longrightarrow>
    u32 (c - k) < n \<longleftrightarrow> k \<le> c \<and> c - k < n"
proof -
  assume c: "0 \<le> c" "c < 2 ^ 31" "0 \<le> k" "k < 2 ^ 31" "n \<le> 2 ^ 31"
  show ?thesis
  proof (cases "k \<le> c")
    case True
    then show ?thesis using c by (simp add: u32_small)
  next
    case False
    then have "u32 (c - k) = c - k + 2 ^ 32"
      using c by (simp add: u32_def take_bit_eq_mod) (smt (verit) mod_add_self2 mod_pos_pos_trivial)
    then show ?thesis using c False by simp
  qed
qed

text \<open>The bytes of a UTF-8 sequence as the encoder computes them.\<close>

lemma byte_bits:
  "0 \<le> x \<Longrightarrow> x < 32 \<Longrightarrow> x OR 0xC0 = 0xC0 + (x :: int)" "0 \<le> x \<Longrightarrow> x < 16 \<Longrightarrow> x OR 0xE0 = 0xE0 + x"
  "0 \<le> x \<Longrightarrow> x < 8 \<Longrightarrow> x OR 0xF0 = 0xF0 + x" "0 \<le> x \<Longrightarrow> x < 64 \<Longrightarrow> x OR 0x80 = 0x80 + x"
  using or_push[of x 5 "0xC0" 6] or_push[of x 4 "0xE0" 14] or_push[of x 3 "0xF0" 30] or_push[of x 6 "0x80" 2]
  by (simp_all add: push_bit_eq_mult)

lemma digit_cases: "(0 :: int) \<le> d \<Longrightarrow> d < 16 \<Longrightarrow> d \<in> set [0..15]"
  by auto

lemma hex_digits: "\<forall>d\<in>set [0..15]. isHex (HEX_CHARS ! nat d) \<and> fromHex (HEX_CHARS ! nat d) = d \<and> HEX_CHARS ! nat d \<noteq> PERCENT"
  by code_simp

lemma utf8_bytes: "0 \<le> c \<Longrightarrow> c \<le> 0x10FFFF \<Longrightarrow> b \<in> set (utf8 c) \<Longrightarrow> 0 \<le> b \<and> b < 256"
  by (auto simp: utf8_def split: if_splits)

section \<open>The buffer of the encoder\<close>

lemma load_head: "load_at (pre @ x # post) (int (length pre)) = Some x"
  by (simp add: load_mid)

lemma store_written:
  "store_at (map Some out @ slot # rest) (int (length out)) (Some v) = Some (map Some (out @ [v]) @ rest)"
  using store_mid[of "int (length out)" "map Some out" slot rest "Some v"] by simp

lemma copy_units_spec:
  "length xs \<le> length rest \<Longrightarrow>
   copy_units (pre @ xs @ post) (int (length pre)) (length xs) (map Some out @ rest) (int (length out))
   = Some (map Some (out @ xs) @ drop (length xs) rest)"
proof (induction xs arbitrary: pre out rest)
  case (Cons x xs)
  then obtain slot rest' where rest: "rest = slot # rest'" by (cases rest) auto
  have "int (length pre) + 1 = int (length (pre @ [x]))" "int (length out) + 1 = int (length (out @ [x]))"
    "pre @ (x # xs) @ post = (pre @ [x]) @ xs @ post" by simp_all
  then show ?case
    using Cons.IH[of rest' "pre @ [x]" "out @ [x]"] Cons.prems rest load_head[of pre x "xs @ post"]
    by (simp only: copy_units.simps length_Cons) (simp add: store_written)
qed simp

lemma storeHex_spec:
  assumes "0 \<le> b" "b < 256" "3 \<le> length rest"
  shows "storeHex (map Some out @ rest) (int (length out)) b = Some (map Some (out @ hexs b) @ drop 3 rest)"
proof -
  obtain r0 r1 r2 rest' where rest: "rest = r0 # r1 # r2 # rest'"
    using assms(3) by (metis Suc_le_length_iff numeral_3_eq_3)
  have nibble: "0 \<le> b div 16" "b div 16 < 16" using assms(1,2) by presburger+
  then have digits: "load_at HEX_CHARS (b div 16) = Some (HEX_CHARS ! nat (b div 16))"
      "load_at HEX_CHARS (b mod 16) = Some (HEX_CHARS ! nat (b mod 16))"
    using assms(1,2) by (simp_all add: load_at_def HEX_CHARS_def)
  have high: "drop_bit 4 b mod 16 = b div 16" using nibble by (simp add: drop_div)
  have "storeHex (map Some out @ rest) (int (length out)) b = do {
      dst \<leftarrow> store_at (map Some (out @ [PERCENT]) @ r1 # r2 # rest') (int (length (out @ [PERCENT]))) (Some (HEX_CHARS ! nat (b div 16)));
      store_at dst (int (length out) + 2) (Some (HEX_CHARS ! nat (b mod 16))) }"
    by (simp add: storeHex_def rest store_written high and_15 digits add.commute)
  also have "\<dots> = Some (map Some (out @ hexs b) @ drop 3 rest)"
    unfolding store_written Option.bind.bind_lunit
    using store_mid[of "int (length out) + 2" "map Some out @ [Some PERCENT, Some (HEX_CHARS ! nat (b div 16))]" r2 rest'
        "Some (HEX_CHARS ! nat (b mod 16))"]
    by (simp add: hexs_def rest)
  finally show ?thesis .
qed

lemma hexs_length: "length (hexs b) = 3"
  by (simp add: hexs_def)

lemma store_escapes_spec:
  assumes "0 \<le> c" "c \<le> 0x10FFFF" "3 * length (utf8 c) \<le> length rest"
  shows "store_escapes (map Some out @ rest) (int (length out)) c
    = Some (map Some (out @ concat (map hexs (utf8 c))) @ drop (3 * length (utf8 c)) rest, int (length out) + int (3 * length (utf8 c)))"
proof -
  define F where "F xs n = map Some xs @ drop n rest" for xs n
  have store: "storeHex (F xs n) i b = Some (F (xs @ hexs b) (n + 3))"
    if "i = int (length xs)" "0 \<le> b" "b < 256" "n + 3 \<le> length rest" for xs n i b
    using storeHex_spec[of b "drop n rest" xs] that by (simp add: F_def add.commute)
  have bounds: "0 \<le> c div 64 mod 64" "c div 64 mod 64 < 64" "0 \<le> c mod 64" "c mod 64 < 64" "0 \<le> c div 4096 mod 64" "c div 4096 mod 64 < 64"
    by simp_all
  note byte = byte_bits and_63 drop_div
  consider "c < 0x80" | "0x80 \<le> c" "c < 0x800" | "0x800 \<le> c" "c < 0x10000" | "0x10000 \<le> c" by linarith
  then have "store_escapes (F out 0) (int (length out)) c
      = Some (F (out @ concat (map hexs (utf8 c))) (3 * length (utf8 c)), int (length out) + int (3 * length (utf8 c)))"
  proof cases
    case 1
    then show ?thesis using assms by (simp add: store_escapes_def utf8_def store)
  next
    case 2
    then have "c div 64 < 32" "0 \<le> c div 64" by simp_all
    then show ?thesis
      using 2 assms(3) bounds by (simp add: store_escapes_def utf8_def byte store hexs_length)
  next
    case 3
    then have "c div 4096 < 16" "0 \<le> c div 4096" by simp_all
    then show ?thesis
      using 3 assms(3) bounds by (simp add: store_escapes_def utf8_def byte store hexs_length)
  next
    case 4
    then have "c div 262144 < 8" "0 \<le> c div 262144" using assms(2) by simp_all
    then show ?thesis
      using 4 assms(3) bounds by (simp add: store_escapes_def utf8_def byte store hexs_length)
  qed
  then show ?thesis by (simp add: F_def)
qed

section \<open>Encoding\<close>

lemma safe_lookup:
  assumes "length table = 94" "0 \<le> d" "d < 65536" and that: "load_at src i = Some d"
  shows "scan_safe src table i =
    (if safe table d then if i + 1 < int (length src) then scan_safe src table (i + 1) else Some (i + 1, d)
     else Some (i, d))"
proof (cases "33 \<le> d \<and> d < 127")
  case True
  then have "load_at table (d - 33) = Some (table ! nat (d - 33))" "u32 (d - 33) = d - 33"
    using assms by (simp_all add: load_at_def u32_small)
  with True that show ?thesis by (subst scan_safe.simps) (simp add: safe_def)
next
  case False
  then have "\<not> u32 (d - 33) < 94" "\<not> safe table d" using assms by (auto simp: u32_between safe_def)
  with that show ?thesis by (subst scan_safe.simps) simp
qed

lemma scan_unsafe:
  assumes "length table = 94" "\<forall>x\<in>set xs. safe table x" "\<not> safe table d" "0 \<le> d" "d < 65536"
  shows "scan_safe (pre @ xs @ d # post) table (int (length pre)) = Some (int (length pre) + int (length xs), d)"
  using assms(2)
proof (induction xs arbitrary: pre)
  case Nil
  then show ?case using assms safe_lookup[OF assms(1) _ _ load_head[of pre d post]] by simp
next
  case (Cons x xs)
  then have x: "safe table x" "0 \<le> x" "x < 65536" by (auto simp: safe_def)
  have "scan_safe ((pre @ [x]) @ xs @ d # post) table (int (length (pre @ [x])))
      = Some (int (length (pre @ [x])) + int (length xs), d)"
    by (rule Cons.IH) (use Cons.prems in simp)
  then show ?case using x safe_lookup[OF assms(1) _ _ load_head[of pre x "xs @ d # post"]] by (simp add: add.commute add.left_commute)
qed

lemma scan_end:
  assumes "length table = 94" "\<forall>x\<in>set xs. safe table x" "xs \<noteq> []"
  shows "scan_safe (pre @ xs) table (int (length pre)) = Some (int (length pre) + int (length xs), last xs)"
  using assms(2,3)
proof (induction xs arbitrary: pre)
  case (Cons x xs)
  then have x: "safe table x" "0 \<le> x" "x < 65536" by (auto simp: safe_def)
  show ?case
  proof (cases "xs = []")
    case True
    then show ?thesis using x safe_lookup[OF assms(1) _ _ load_head[of pre x xs]] by simp
  next
    case False
    have "scan_safe ((pre @ [x]) @ xs) table (int (length (pre @ [x]))) = Some (int (length (pre @ [x])) + int (length xs), last xs)"
      by (rule Cons.IH) (use Cons.prems False in simp_all)
    then show ?thesis using x False safe_lookup[OF assms(1) _ _ load_head[of pre x xs]] by (simp add: add.commute add.left_commute)
  qed
qed simp

lemma utf16_head: "scalar c \<Longrightarrow> \<exists>d post. utf16 c = d # post \<and> 0 \<le> d \<and> d < 65536 \<and> (\<not> safe table c \<longrightarrow> \<not> safe table d)"
  by (auto simp: utf16_def scalar_def safe_def)

lemma join_split:
  assumes "0 \<le> q" "q < 1024" "0 \<le> r" "r < 1024"
  shows "join_surrogates (0xD800 + q) (0xDC00 + r) = 0x10000 + 1024 * q + r"
proof -
  have "(0xD800 + q) mod 1024 = q" "(0xDC00 + r) mod 1024 = r"
    using assms mod_mult_self1[of q 54 1024] mod_mult_self1[of r 55 1024] by (simp_all add: add.commute)
  moreover have "push_bit 10 q OR r = q * 1024 + r" using push_or[of r 10 q] assms(3,4) by simp
  ultimately show ?thesis by (simp add: join_surrogates_def and_1023)
qed

lemma surrogates:
  assumes "0x10000 \<le> c" "c \<le> 0x10FFFF"
  obtains q r where "0 \<le> q" "q < 1024" "0 \<le> r" "r < 1024" "c = 0x10000 + 1024 * q + r" "utf16 c = [0xD800 + q, 0xDC00 + r]"
proof -
  have "0 \<le> (c - 0x10000) div 1024" "(c - 0x10000) div 1024 < 1024" using assms by auto
  moreover have "c = 0x10000 + 1024 * ((c - 0x10000) div 1024) + (c - 0x10000) mod 1024" by simp
  ultimately show ?thesis using assms by (intro that) (auto simp: utf16_def)
qed

lemma code_point_spec:
  assumes "scalar c" "utf16 c = d # us"
  shows "code_point (pre @ utf16 c @ post) (int (length pre)) d = Some (Some (int (length pre) + int (length us), c))"
proof (cases "c < 0x10000")
  case True
  then show ?thesis using assms by (auto simp: code_point_def utf16_def scalar_def)
next
  case False
  then obtain q r where c: "0 \<le> q" "q < 1024" "0 \<le> r" "r < 1024" "c = 0x10000 + 1024 * q + r" "utf16 c = [0xD800 + q, 0xDC00 + r]"
    using surrogates[of c] assms(1) by (auto simp: scalar_def)
  then have "load_at (pre @ utf16 c @ post) (int (length pre) + 1) = Some (0xDC00 + r)" by (simp add: load_next)
  moreover have "d = 0xD800 + q" "us = [0xDC00 + r]" using assms(2) c(6) by simp_all
  ultimately show ?thesis using c(1-4) join_split[OF c(1-4)] unfolding c(5)[symmetric] by (simp add: code_point_def c(6))
qed

lemma renew_longer:
  "length out + length rest \<le> n \<Longrightarrow> 2 * int n < OBJECT_MAXSIZE \<Longrightarrow>
   renew (map Some out @ rest) (int n) = Inr (map Some out @ rest @ replicate (n - (length out + length rest)) None)"
  by (simp add: renew_def)

lemma copy_range_spec:
  assumes "2 * int (length out + length xs) < OBJECT_MAXSIZE"
  obtains rest' where
    "copy_range (pre @ xs @ post) (int (length pre)) (int (length pre) + int (length xs)) (map Some out @ rest)
       (int (length out)) (int (length out + length rest))
     = Some (Inr (map Some (out @ xs) @ rest', int (length (out @ xs)), int (length (out @ xs) + length rest')))"
proof (cases "length xs \<le> length rest")
  case True
  then have "copy_range (pre @ xs @ post) (int (length pre)) (int (length pre) + int (length xs)) (map Some out @ rest)
       (int (length out)) (int (length out + length rest))
     = Some (Inr (map Some (out @ xs) @ drop (length xs) rest, int (length (out @ xs)), int (length (out @ xs) + length (drop (length xs) rest))))"
    using copy_units_spec[OF True] by (simp add: copy_range_def Let_def)
  then show ?thesis by (rule that)
next
  case False
  let ?rest = "rest @ replicate (length xs - length rest) None"
  have "renew (map Some out @ rest) (int (length out + length xs)) = Inr (map Some out @ ?rest)"
    using renew_longer[of out rest "length out + length xs"] False assms by simp
  moreover have "length xs \<le> length ?rest" "xs \<noteq> []" using False by auto
  ultimately have "copy_range (pre @ xs @ post) (int (length pre)) (int (length pre) + int (length xs)) (map Some out @ rest)
       (int (length out)) (int (length out + length rest))
     = Some (Inr (map Some (out @ xs) @ drop (length xs) ?rest, int (length (out @ xs)), int (length (out @ xs) + length (drop (length xs) ?rest))))"
    using copy_units_spec[of xs ?rest] False by (simp add: copy_range_def Let_def)
  then show ?thesis by (rule that)
qed

lemma utf8_length: "length (utf8 c) \<le> (if c < 0x80 then 1 else 4)"
  by (simp add: utf8_def)

lemma reserve_spec:
  assumes "4 * int (length out + 12) < OBJECT_MAXSIZE"
  obtains rest' where
    "reserve len c (map Some out @ rest) (int (length out)) (int (length out + length rest))
     = Inr (map Some out @ rest', int (length out + length rest'))"
    "3 * length (utf8 c) \<le> length rest'"
proof (cases "length rest < (if c < 0x80 then 3 else 12)")
  case True
  define n where "n = (if len > 1 then 2 * (length out + (if c < 0x80 then 3 else 12)) else length out + (if c < 0x80 then 3 else 12))"
  have n: "length out + length rest \<le> n" "2 * int n < OBJECT_MAXSIZE" "length out + (if c < 0x80 then 3 else 12) \<le> n"
    using True assms by (auto simp: n_def split: if_splits)
  have "reserve len c (map Some out @ rest) (int (length out)) (int (length out + length rest))
      = Inr (map Some out @ rest @ replicate (n - (length out + length rest)) None,
          int (length out + length (rest @ replicate (n - (length out + length rest)) None)))"
    using True renew_longer[OF n(1,2)] n(1) by (auto simp: reserve_def Let_def n_def split: if_splits)
  moreover have "3 * length (utf8 c) \<le> length (rest @ replicate (n - (length out + length rest)) None)"
    using utf8_length[of c] n(1,3) by (auto split: if_splits)
  ultimately show ?thesis by (rule that)
next
  case False
  then show ?thesis
    using utf8_length[of c] by (intro that[of rest]) (auto simp: reserve_def Let_def split: if_splits)
qed

lemma percent_length: "length (percent table c) \<le> 12 * length (utf16 c)"
  by (simp add: percent_def utf8_def utf16_def hexs_def)

lemma percents_length: "length (percents table cps) \<le> 12 * length (units cps)"
  by (induction cps) (use percent_length in \<open>auto simp: add_mono\<close>)

lemma safe_units: "\<forall>c\<in>set xs. safe table c \<Longrightarrow> units xs = xs \<and> percents table xs = xs"
  by (induction xs) (auto simp: utf16_def percent_def safe_def)

text \<open>One round of the encoder: a run of safe characters and the code point that ends it.\<close>

lemma encode_round:
  assumes "length table = 94" "\<forall>x\<in>set xs. safe table x" "scalar c" "\<not> safe table c"
    and "4 * int (length out + length xs + 12) < OBJECT_MAXSIZE"
  obtains rest' where
    "encode_loop (pre @ xs @ utf16 c @ post) table (int (length pre)) (map Some out @ rest) (int (length out)) (int (length out + length rest))
     = encode_loop (pre @ xs @ utf16 c @ post) table (int (length (pre @ xs @ utf16 c))) (map Some (out @ xs @ percent table c) @ rest')
         (int (length (out @ xs @ percent table c))) (int (length (out @ xs @ percent table c) + length rest'))"
proof -
  let ?src = "pre @ xs @ utf16 c @ post"
  obtain d us where d: "utf16 c = d # us" "0 \<le> d" "d < 65536" "\<not> safe table d" using utf16_head[OF assms(3)] assms(4) by metis
  have scan: "scan_safe ?src table (int (length pre)) = Some (int (length pre) + int (length xs), d)"
    using scan_unsafe[OF assms(1,2) d(4,2,3), of pre "us @ post"] d(1) by simp
  have "2 * int (length out + length xs) < OBJECT_MAXSIZE" using assms(5) by simp
  then obtain r1 where copy: "copy_range ?src (int (length pre)) (int (length pre) + int (length xs)) (map Some out @ rest)
       (int (length out)) (int (length out + length rest))
     = Some (Inr (map Some (out @ xs) @ r1, int (length (out @ xs)), int (length (out @ xs) + length r1)))"
    by (rule copy_range_spec)
  have point: "code_point ?src (int (length pre) + int (length xs)) d
      = Some (Some (int (length pre) + int (length xs) + int (length us), c))"
    using code_point_spec[OF assms(3) d(1), of "pre @ xs" post] by simp
  have "4 * int (length (out @ xs) + 12) < OBJECT_MAXSIZE" using assms(5) by simp
  then obtain r2 where r2: "reserve (int (length ?src)) c (map Some (out @ xs) @ r1) (int (length (out @ xs))) (int (length (out @ xs) + length r1))
       = Inr (map Some (out @ xs) @ r2, int (length (out @ xs) + length r2))" "3 * length (utf8 c) \<le> length r2"
    by (rule reserve_spec)
  let ?rest = "drop (3 * length (utf8 c)) r2"
  have c: "0 \<le> c" "c \<le> 0x10FFFF" using assms(3) by (simp_all add: scalar_def)
  have percent: "percent table c = concat (map hexs (utf8 c))" "length (percent table c) = 3 * length (utf8 c)"
    using assms(4) by (simp_all add: percent_def length_concat hexs_length comp_def sum_list_triv)
  have escapes: "store_escapes (map Some (out @ xs) @ r2) (int (length (out @ xs))) c
      = Some (map Some (out @ xs @ percent table c) @ ?rest, int (length (out @ xs @ percent table c)))"
    using store_escapes_spec[OF c r2(2), of "out @ xs"] percent by simp
  have total: "int (length (out @ xs) + length r2) = int (length (out @ xs @ percent table c) + length ?rest)"
    using r2(2) percent(2) by simp
  have inside: "int (length pre) < int (length ?src)" "int (length pre) + int (length xs) < int (length ?src)"
    "int (length pre) + int (length xs) + int (length us) + 1 = int (length (pre @ xs @ utf16 c))"
    using d(1) by simp_all
  have "encode_loop ?src table (int (length pre)) (map Some out @ rest) (int (length out)) (int (length out + length rest))
     = encode_loop ?src table (int (length (pre @ xs @ utf16 c))) (map Some (out @ xs @ percent table c) @ ?rest)
         (int (length (out @ xs @ percent table c))) (int (length (out @ xs @ percent table c) + length ?rest))"
    unfolding encode_loop.simps[of ?src table "int (length pre)"] scan Option.bind.bind_lunit case_prod_conv copy sum.case
      point option.case r2(1) escapes inside(3)[symmetric] total[symmetric]
    using inside by simp
  then show ?thesis by (rule that)
qed

lemma encode_loop_spec:
  assumes "length table = 94"
  shows "\<forall>c\<in>set cps. scalar c \<Longrightarrow> src = pre @ units cps \<Longrightarrow> int (length src) \<le> 2 ^ 24 \<Longrightarrow> length out \<le> 12 * length pre \<Longrightarrow>
    \<exists>rest'. encode_loop src table (int (length pre)) (map Some out @ rest) (int (length out)) (int (length out + length rest))
      = Some (Inr (map Some (out @ percents table cps) @ rest', int (length (out @ percents table cps)),
          int (length (out @ percents table cps) + length rest')))"
proof (induction "length cps" arbitrary: cps pre out rest rule: less_induct)
  case less
  let ?xs = "takeWhile (safe table) cps"
  have xs: "\<forall>x\<in>set ?xs. safe table x" by (auto dest: set_takeWhileD)
  note xs_units = safe_units[OF xs]
  have max: "OBJECT_MAXSIZE = 1073741804" by (simp add: OBJECT_MAXSIZE_def BLOCK_MAXSIZE_def)
  show ?case
  proof (cases "dropWhile (safe table) cps")
    case Nil
    then have cps: "cps = ?xs" by (metis append_Nil2 takeWhile_dropWhile_id)
    then have src: "src = pre @ ?xs" "percents table cps = ?xs" using less.prems(2) xs_units by metis+
    show ?thesis
    proof (cases "?xs = []")
      case True
      then show ?thesis using src by (subst encode_loop.simps) (auto intro!: exI[of _ rest])
    next
      case False
      have "2 * int (length out + length ?xs) < OBJECT_MAXSIZE" using less.prems(3,4) src(1) max by simp
      then obtain r1 where copy: "copy_range (pre @ ?xs @ []) (int (length pre)) (int (length pre) + int (length ?xs)) (map Some out @ rest)
           (int (length out)) (int (length out + length rest))
         = Some (Inr (map Some (out @ ?xs) @ r1, int (length (out @ ?xs)), int (length (out @ ?xs) + length r1)))"
        by (rule copy_range_spec)
      have "encode_loop src table (int (length pre)) (map Some out @ rest) (int (length out)) (int (length out + length rest))
          = Some (Inr (map Some (out @ ?xs) @ r1, int (length (out @ ?xs)), int (length (out @ ?xs) + length r1)))"
        unfolding src(1) encode_loop.simps[of "pre @ ?xs" table "int (length pre)"] scan_end[OF assms xs False] Option.bind.bind_lunit case_prod_conv
          copy[unfolded append_Nil2] sum.case
        using False by simp
      then show ?thesis unfolding src(2) by blast
    qed
  next
    case (Cons c cs)
    then have cps: "cps = ?xs @ c # cs" and c: "\<not> safe table c"
      using takeWhile_dropWhile_id[of "safe table" cps] hd_dropWhile[of "safe table" cps] by auto
    have src: "src = pre @ ?xs @ utf16 c @ units cs" using less.prems(2) cps xs_units by (metis units_simps(2,3))
    have percents: "percents table cps = ?xs @ percent table c @ percents table cs" using cps xs_units by (metis percents_simps(2,3))
    have scalar: "scalar c" "\<forall>c\<in>set cs. scalar c" using less.prems(1) cps by (metis in_set_conv_decomp set_ConsD list.set_intros Un_iff set_append)+
    have "4 * int (length out + length ?xs + 12) < OBJECT_MAXSIZE" using less.prems(3,4) src max by simp
    from encode_round[OF assms xs scalar(1) c this, of pre "units cs" rest] obtain r1 where step:
      "encode_loop src table (int (length pre)) (map Some out @ rest) (int (length out)) (int (length out + length rest))
       = encode_loop src table (int (length (pre @ ?xs @ utf16 c))) (map Some (out @ ?xs @ percent table c) @ r1)
           (int (length (out @ ?xs @ percent table c))) (int (length (out @ ?xs @ percent table c) + length r1))"
      unfolding src by metis
    have "length cs < length cps" by (subst cps) simp
    moreover have "src = (pre @ ?xs @ utf16 c) @ units cs" using src by simp
    moreover have "length (out @ ?xs @ percent table c) \<le> 12 * length (pre @ ?xs @ utf16 c)"
      using less.prems(4) percent_length[of table c] by simp
    ultimately obtain rest' where
      "encode_loop src table (int (length (pre @ ?xs @ utf16 c))) (map Some (out @ ?xs @ percent table c) @ r1)
         (int (length (out @ ?xs @ percent table c))) (int (length (out @ ?xs @ percent table c) + length r1))
       = Some (Inr (map Some ((out @ ?xs @ percent table c) @ percents table cs) @ rest', int (length ((out @ ?xs @ percent table c) @ percents table cs)),
          int (length ((out @ ?xs @ percent table c) @ percents table cs) + length rest')))"
      using less.hyps[of cs "pre @ ?xs @ utf16 c" "out @ ?xs @ percent table c" r1] scalar(2) less.prems(3) by blast
    then show ?thesis unfolding step percents append_assoc by blast
  qed
qed

lemma finish_spec:
  "2 * int (length s) < OBJECT_MAXSIZE \<Longrightarrow> finish (map Some s @ rest) (int (length s)) (int (length s + length rest)) = Some (Inr s)"
  by (cases rest) (simp_all add: finish_def renew_def written_map)

lemma encode_spec:
  assumes "length table = 94" "\<forall>c\<in>set cps. scalar c" "int (length (units cps)) \<le> 2 ^ 24"
  shows "encode (units cps) table = Some (Inr (percents table cps))"
proof (cases "units cps = []")
  case True
  then have "cps = []" by (cases cps) (auto simp: utf16_def split: if_splits)
  then show ?thesis by (simp add: encode_def)
next
  case False
  let ?n = "length (units cps)"
  have max: "OBJECT_MAXSIZE = 1073741804" by (simp add: OBJECT_MAXSIZE_def BLOCK_MAXSIZE_def)
  obtain rest' where loop: "encode_loop (units cps) table 0 (replicate ?n None) 0 (int ?n)
      = Some (Inr (map Some (percents table cps) @ rest', int (length (percents table cps)), int (length (percents table cps) + length rest')))"
    using encode_loop_spec[OF assms(1,2), of "units cps" "[]" "[]" "replicate ?n None"] assms(3) by auto
  have "new_string (int ?n) = Inr (replicate ?n None)" using assms(3) max by (simp add: new_string_def)
  moreover have "2 * int (length (percents table cps)) < OBJECT_MAXSIZE"
    using percents_length[of table cps] assms(3) max by simp
  ultimately show ?thesis using False loop finish_spec[of "percents table cps" rest'] by (simp add: encode_def)
qed

section \<open>Decoding\<close>

text \<open>A table whose strings the decoder understands: percent signs are escaped, kept characters are not.\<close>

definition decodable :: "int list \<Rightarrow> bool \<Rightarrow> bool" where
  "decodable table component \<longleftrightarrow> length table = 94 \<and> \<not> safe table PERCENT
     \<and> (component \<or> (\<forall>c\<in>set [0..127]. isReserved c = Some True \<longrightarrow> safe table c))"

lemma decodable_tables: "decodable URI_UNSAFE False" "decodable URL_UNSAFE True"
  by code_simp+

lemma isReserved_total: "\<exists>b. isReserved c = Some b"
proof (cases "u32 (c - 35) < 30")
  case True
  moreover have "0 \<le> u32 (c - 35)" by (simp add: u32_def)
  ultimately show ?thesis by (simp add: isReserved_def load_at_def URI_RESERVED_def)
next
  case False
  then have "isReserved c = Some False" by (simp add: isReserved_def)
  then show ?thesis by blast
qed

lemma escape_hexs:
  assumes "0 \<le> b" "b < 256"
  shows "escape (pre @ hexs b @ post) (int (length pre)) (Some PERCENT) = Some (Some b)"
    "escape (pre @ hexs b @ post) (int (length pre)) (load_at (pre @ hexs b @ post) (int (length pre))) = Some (Some b)"
proof -
  have nibble: "0 \<le> b div 16" "b div 16 < 16" using assms by presburger+
  have digit: "isHex (HEX_CHARS ! nat (b div 16))" "fromHex (HEX_CHARS ! nat (b div 16)) = b div 16"
    "isHex (HEX_CHARS ! nat (b mod 16))" "fromHex (HEX_CHARS ! nat (b mod 16)) = b mod 16"
    using hex_digits digit_cases[OF nibble] digit_cases[of "b mod 16"] by simp_all
  have "load_at (pre @ hexs b @ post) (int (length pre) + 1) = Some (HEX_CHARS ! nat (b div 16))"
    "load_at (pre @ hexs b @ post) (int (length pre) + 1 + 1) = Some (HEX_CHARS ! nat (b mod 16))"
    using load_mid[of "int (length pre) + 1" "pre @ [PERCENT]"] load_mid[of "int (length pre) + 1 + 1" "pre @ [PERCENT, HEX_CHARS ! nat (b div 16)]"]
    by (simp_all add: hexs_def)
  moreover have "u32 (push_bit 4 (b div 16)) OR b mod 16 = b"
    using nibble push_or[of "b mod 16" 4 "b div 16"] by (simp add: u32_small push_bit_eq_mult)
  ultimately have hex: "loadHex (pre @ hexs b @ post) (int (length pre) + 1) = Some (Some b)"
    by (simp add: loadHex_def digit)
  then show first: "escape (pre @ hexs b @ post) (int (length pre)) (Some PERCENT) = Some (Some b)"
    by (simp add: escape_def hexs_length)
  have "load_at (pre @ hexs b @ post) (int (length pre)) = Some PERCENT" by (simp add: hexs_def load_head)
  with first show "escape (pre @ hexs b @ post) (int (length pre)) (load_at (pre @ hexs b @ post) (int (length pre))) = Some (Some b)"
    by simp
qed

text \<open>Lead and continuation bytes, each a finite set.\<close>

lemma lead_bytes:
  "\<forall>x\<in>set [0..31]. utf8LenFromUpperByte (0xC0 + x) = 2 \<and> lead_bits 2 (0xC0 + x) = x"
  "\<forall>x\<in>set [0..15]. utf8LenFromUpperByte (0xE0 + x) = 3 \<and> lead_bits 3 (0xE0 + x) = x"
  "\<forall>x\<in>set [0..7]. utf8LenFromUpperByte (0xF0 + x) = 4 \<and> lead_bits 4 (0xF0 + x) = x"
  by code_simp+

lemma tail_bytes: "\<forall>x\<in>set [0..63]. (0x80 + x) AND 0xC0 = 0x80 \<and> (0x80 + x) AND 0x3F = (x :: int)"
  by code_simp

lemma minimal_points: "minimal_point 2 = 0x80" "minimal_point 3 = 0x800" "minimal_point 4 = 0x10000"
  by code_simp+

fun from_tail :: "int \<Rightarrow> int list \<Rightarrow> int" where
  "from_tail ch [] = ch"
| "from_tail ch (x # xs) = from_tail (64 * ch + x) xs"

lemma utf8_tail_spec:
  "\<forall>x\<in>set xs. 0 \<le> x \<and> x < 64 \<Longrightarrow> 0 \<le> ch \<Longrightarrow> (ch + 1) * 64 ^ length xs \<le> 2 ^ 32 \<Longrightarrow> length xs < 4 \<Longrightarrow>
   utf8_tail (pre @ concat (map (\<lambda>x. hexs (0x80 + x)) xs) @ post) (int (length pre)) (int (length xs) + 1) ch
   = Some (Some (int (length pre) + 3 * int (length xs), from_tail ch xs))"
proof (induction xs arbitrary: pre ch)
  case Nil
  then show ?case by (subst utf8_tail.simps) (simp add: u32_def)
next
  case (Cons x xs)
  let ?src = "pre @ concat (map (\<lambda>x. hexs (0x80 + x)) (x # xs)) @ post"
  have x: "0 \<le> x" "x < 64" "(0x80 + x) AND 0xC0 = 0x80" "(0x80 + x) AND 0x3F = x" using Cons.prems(1) tail_bytes by auto
  have escape: "escape ?src (int (length pre)) (load_at ?src (int (length pre))) = Some (Some (0x80 + x))"
    using escape_hexs(2)[of "0x80 + x" pre "concat (map (\<lambda>x. hexs (0x80 + x)) xs) @ post"] x by simp
  have "(ch + 1) * 64 \<le> (ch + 1) * 64 ^ length (x # xs)"
    using Cons.prems(2) by (intro mult_left_mono) auto
  then have small: "(ch + 1) * 64 \<le> 2 ^ 32" using Cons.prems(3) by linarith
  then have shifted: "u32 (push_bit 6 ch) OR x = 64 * ch + x"
    using push_or[of x 6 ch] x(1,2) Cons.prems(2) by (simp add: u32_small push_bit_eq_mult)
  have "(64 * ch + x + 1) * 64 ^ length xs \<le> (64 * (ch + 1)) * 64 ^ length xs"
    using x(2) by (intro mult_right_mono) auto
  also have "\<dots> = (ch + 1) * 64 ^ length (x # xs)" by simp
  finally have "(64 * ch + x + 1) * 64 ^ length xs \<le> 2 ^ 32" using Cons.prems(3) by linarith
  then have tail: "utf8_tail ?src (int (length (pre @ hexs (0x80 + x)))) (int (length xs) + 1) (64 * ch + x)
      = Some (Some (int (length (pre @ hexs (0x80 + x))) + 3 * int (length xs), from_tail (64 * ch + x) xs))"
    using Cons.IH[of "64 * ch + x" "pre @ hexs (0x80 + x)"] Cons.prems x by simp
  have nb: "u32 (int (length (x # xs)) + 1 - 1) = int (length xs) + 1" using Cons.prems(4) by (simp add: u32_small)
  have next_i: "int (length pre) + 3 = int (length (pre @ hexs (0x80 + x)))" by (simp add: hexs_length)
  have more: "int (length xs) + 1 \<noteq> 0" by linarith
  show ?case
    unfolding utf8_tail.simps[of ?src "int (length pre)"] Let_def nb if_P[OF more] escape Option.bind.bind_lunit option.case
      x(3,4) shifted next_i tail
    by (simp add: hexs_length)
qed

lemma decode_utf8_spec:
  assumes "scalar c" "0x80 \<le> c" "utf8 c = b # bs"
  shows "decode_utf8 (pre @ concat (map hexs bs) @ post) (int (length pre)) b
    = Some (Some (int (length pre) + 3 * int (length bs), c))"
proof -
  have c: "0 \<le> c" "c \<le> 0x10FFFF" "\<not> (0xD800 \<le> c \<and> c < 0xE000)" using assms(1) by (auto simp: scalar_def)
  have run: "decode_utf8 (pre @ concat (map (\<lambda>x. hexs (0x80 + x)) xs) @ post) (int (length pre)) l
      = Some (Some (int (length pre) + 3 * int (length xs), c))"
    if "\<forall>x\<in>set xs. 0 \<le> x \<and> x < 64" "0 \<le> ch" "(ch + 1) * 64 ^ length xs \<le> 2 ^ 32" "length xs < 4"
      "utf8LenFromUpperByte l = int (length xs) + 1" "lead_bits (int (length xs) + 1) l = ch" "from_tail ch xs = c"
      "minimal_point (int (length xs) + 1) \<le> c" "minimal_point (int (length xs) + 1) \<noteq> 0xFFFFFFFF" for xs ch l
    using that c utf8_tail_spec[OF that(1-4), of pre post] by (simp add: decode_utf8_def Let_def bad_point_def)
  have hex: "concat (map hexs (map ((+) 0x80) xs)) = concat (map (\<lambda>x. hexs (0x80 + x)) xs)" for xs
    by (simp add: comp_def)
  consider "c < 0x800" | "0x800 \<le> c" "c < 0x10000" | "0x10000 \<le> c" by linarith
  then show ?thesis
  proof cases
    case 1
    then have "0 \<le> c div 64" "c div 64 < 32" using assms(2) by auto
    then have "c div 64 \<in> set [0..31]" by simp
    then have "utf8LenFromUpperByte (0xC0 + c div 64) = 2" "lead_bits 2 (0xC0 + c div 64) = c div 64"
      using lead_bytes(1) by blast+
    then show ?thesis
      using run[of "[c mod 64]" "c div 64" b] assms(2,3) 1 minimal_points \<open>0 \<le> c div 64\<close> \<open>c div 64 < 32\<close>
      by (auto simp: utf8_def)
  next
    case 2
    then have b: "0 \<le> c div 4096" "c div 4096 < 16" by auto
    then have "c div 4096 \<in> set [0..15]" by simp
    then have "utf8LenFromUpperByte (0xE0 + c div 4096) = 3" "lead_bits 3 (0xE0 + c div 4096) = c div 4096"
      using lead_bytes(2) by blast+
    then have lead: "utf8LenFromUpperByte b = 3" "lead_bits 3 b = c div 4096" using assms(3) 2 by (simp_all add: utf8_def)
    have value_of: "64 * (64 * (c div 4096) + c div 64 mod 64) + c mod 64 = c"
    proof -
      have "c div 4096 = c div 64 div 64" by (simp add: zdiv_zmult2_eq[symmetric])
      then show ?thesis by (metis mult_div_mod_eq)
    qed
    have "decode_utf8 (pre @ concat (map (\<lambda>x. hexs (0x80 + x)) [c div 64 mod 64, c mod 64]) @ post) (int (length pre)) b
        = Some (Some (int (length pre) + 3 * int (length [c div 64 mod 64, c mod 64]), c))"
    proof (rule run)
      show "from_tail (c div 4096) [c div 64 mod 64, c mod 64] = c" by (simp only: from_tail.simps value_of)
    qed (use lead b 2 minimal_points in simp_all)
    moreover have "bs = [0x80 + c div 64 mod 64, 0x80 + c mod 64]" using assms(3) 2 by (simp add: utf8_def)
    ultimately show ?thesis by simp
  next
    case 3
    then have b: "0 \<le> c div 262144" "c div 262144 < 8" using c(2) by auto
    then have "c div 262144 \<in> set [0..7]" by simp
    then have "utf8LenFromUpperByte (0xF0 + c div 262144) = 4" "lead_bits 4 (0xF0 + c div 262144) = c div 262144"
      using lead_bytes(3) by blast+
    then have lead: "utf8LenFromUpperByte b = 4" "lead_bits 4 b = c div 262144" using assms(3) 3 by (simp_all add: utf8_def)
    have value_of: "64 * (64 * (64 * (c div 262144) + c div 4096 mod 64) + c div 64 mod 64) + c mod 64 = c"
    proof -
      have "c div 262144 = c div 4096 div 64" "c div 4096 = c div 64 div 64" by (simp_all add: zdiv_zmult2_eq[symmetric])
      then show ?thesis by (metis mult_div_mod_eq)
    qed
    have "decode_utf8 (pre @ concat (map (\<lambda>x. hexs (0x80 + x)) [c div 4096 mod 64, c div 64 mod 64, c mod 64]) @ post) (int (length pre)) b
        = Some (Some (int (length pre) + 3 * int (length [c div 4096 mod 64, c div 64 mod 64, c mod 64]), c))"
    proof (rule run)
      show "from_tail (c div 262144) [c div 4096 mod 64, c div 64 mod 64, c mod 64] = c" by (simp only: from_tail.simps value_of)
    qed (use lead b 3 minimal_points in simp_all)
    moreover have "bs = [0x80 + c div 4096 mod 64, 0x80 + c div 64 mod 64, 0x80 + c mod 64]"
      using assms(3) 3 by (simp add: utf8_def)
    ultimately show ?thesis by simp
  qed
qed

lemma decode_escape_spec:
  assumes "decodable table component" "scalar c" "\<not> safe table c"
  shows "decode_escape (pre @ percent table c @ post) component (int (length pre)) PERCENT
    = Some (Some (int (length pre) + int (length (percent table c)), c))"
proof -
  obtain b bs where b: "utf8 c = b # bs" by (cases "utf8 c") (auto simp: utf8_def split: if_splits)
  have byte: "0 \<le> b" "b < 256" using utf8_bytes[of c b] assms(2) b by (auto simp: scalar_def)
  have percent: "percent table c = hexs b @ concat (map hexs bs)" using assms(3) b by (simp add: percent_def)
  have first: "escape (pre @ percent table c @ post) (int (length pre)) (Some PERCENT) = Some (Some b)"
    using escape_hexs(1)[OF byte, of pre "concat (map hexs bs) @ post"] percent by simp
  have after: "int (length pre) + 3 = int (length (pre @ hexs b))" by (simp add: hexs_length)
  have len: "length (concat (map hexs bs)) = 3 * length bs" by (simp add: length_concat hexs_length comp_def sum_list_triv)
  show ?thesis
  proof (cases "c < 0x80")
    case True
    then have "b = c" "bs = []" using b by (simp_all add: utf8_def)
    moreover have "isReserved c \<noteq> Some True \<or> component"
      using assms True by (auto simp: decodable_def scalar_def)
    ultimately show ?thesis
      using first True isReserved_total[of c] percent by (auto simp: decode_escape_def hexs_length)
  next
    case False
    have "\<not> b < 0x80" using False b assms(2) by (auto simp: utf8_def scalar_def split: if_splits)
    moreover have "decode_utf8 (pre @ percent table c @ post) (int (length (pre @ hexs b))) b
        = Some (Some (int (length (pre @ hexs b)) + 3 * int (length bs), c))"
      using decode_utf8_spec[OF assms(2) _ b, of "pre @ hexs b" post] False percent by simp
    ultimately show ?thesis
      using first percent len by (simp add: decode_escape_def after[simplified] hexs_length)
  qed
qed

lemma skip_plain_percent:
  "\<forall>x\<in>set xs. x \<noteq> PERCENT \<Longrightarrow>
   skip_plain (pre @ xs @ PERCENT # post) (int (length pre)) ch = Some (int (length pre) + int (length xs), PERCENT)"
proof (induction xs arbitrary: pre ch)
  case Nil
  then show ?case by (subst skip_plain.simps) (simp add: load_head)
next
  case (Cons x xs)
  then have "skip_plain ((pre @ [x]) @ xs @ PERCENT # post) (int (length (pre @ [x]))) x
      = Some (int (length (pre @ [x])) + int (length xs), PERCENT)"
    by (intro Cons.IH) simp
  then show ?case using Cons.prems by (subst skip_plain.simps) (simp add: load_head add.commute add.left_commute)
qed

lemma skip_plain_end:
  "\<forall>x\<in>set xs. x \<noteq> PERCENT \<Longrightarrow>
   \<exists>ch'. skip_plain (pre @ xs) (int (length pre)) ch = Some (int (length pre) + int (length xs), ch')"
proof (induction xs arbitrary: pre ch)
  case Nil
  then show ?case by (subst skip_plain.simps) simp
next
  case (Cons x xs)
  then have "\<exists>ch'. skip_plain ((pre @ [x]) @ xs) (int (length (pre @ [x]))) x = Some (int (length (pre @ [x])) + int (length xs), ch')"
    by (intro Cons.IH) simp
  then show ?case using Cons.prems by (subst skip_plain.simps) (auto simp: load_head add.commute add.left_commute)
qed

lemma store_point_spec:
  assumes "scalar c" "length (utf16 c) \<le> length rest"
  shows "store_point (map Some out @ rest) (int (length out)) c
    = Some (map Some (out @ utf16 c) @ drop (length (utf16 c)) rest, int (length (out @ utf16 c)))"
proof (cases "c < 0x10000")
  case True
  then obtain slot rest' where "rest = slot # rest'" using assms(2) by (cases rest) (auto simp: utf16_def)
  with True show ?thesis by (simp add: store_point_def utf16_def store_written)
next
  case False
  then obtain q r where c: "0 \<le> q" "q < 1024" "0 \<le> r" "r < 1024" "c = 0x10000 + 1024 * q + r" "utf16 c = [0xD800 + q, 0xDC00 + r]"
    using surrogates[of c] assms(1) by (auto simp: scalar_def)
  then obtain s1 s2 rest' where rest: "rest = s1 # s2 # rest'" using assms(2) by (cases rest; cases "tl rest") auto
  have "drop_bit 10 (c - 0x10000) = q" "(c - 0x10000) AND 0x03FF = r" using c(1-5) by (simp_all add: drop_div and_1023)
  moreover have "q OR 0xD800 = 0xD800 + q" "r OR 0xDC00 = 0xDC00 + r"
    using c(1-4) or_push[of q 10 "0xD800" 54] or_push[of r 10 "0xDC00" 55] by (simp_all add: push_bit_eq_mult)
  ultimately have "store_point (map Some out @ rest) (int (length out)) c = do {
      dst \<leftarrow> store_at (map Some out @ s1 # s2 # rest') (int (length out)) (Some (0xD800 + q));
      dst \<leftarrow> store_at dst (int (length out) + 1) (Some (0xDC00 + r));
      Some (dst, int (length out) + 2) }"
    using False by (simp add: store_point_def rest Let_def)
  also have "\<dots> = Some (map Some (out @ utf16 c) @ drop (length (utf16 c)) rest, int (length (out @ utf16 c)))"
    using store_written[of "out @ [0xD800 + q]" s2 rest' "0xDC00 + r"] by (simp add: store_written c(6) rest add.commute)
  finally show ?thesis .
qed

text \<open>One round of the decoder: a run without percent signs and the escapes of a code point.\<close>

lemma decode_round:
  assumes "decodable table component" "\<forall>x\<in>set xs. x \<noteq> PERCENT" "scalar c" "\<not> safe table c"
    and "length (xs @ utf16 c) \<le> length rest"
  shows "decode_loop (pre @ xs @ percent table c @ post) component (int (length pre)) ch (map Some out @ rest) (int (length out))
    = decode_loop (pre @ xs @ percent table c @ post) component (int (length (pre @ xs @ percent table c))) c
        (map Some (out @ xs @ utf16 c) @ drop (length (xs @ utf16 c)) rest) (int (length (out @ xs @ utf16 c)))"
proof -
  let ?src = "pre @ xs @ percent table c @ post"
  have "\<exists>us. percent table c = PERCENT # us"
    using assms(4) by (simp add: percent_def utf8_def hexs_def)
  then obtain us where us: "percent table c = PERCENT # us" by blast
  have skip: "skip_plain ?src (int (length pre)) ch = Some (int (length pre) + int (length xs), PERCENT)"
    using skip_plain_percent[OF assms(2), of pre "us @ post"] us by simp
  have copy: "copy_units ?src (int (length pre)) (nat (int (length pre) + int (length xs) - int (length pre))) (map Some out @ rest) (int (length out))
      = Some (map Some (out @ xs) @ drop (length xs) rest)"
    using copy_units_spec[of xs rest pre "percent table c @ post"] assms(5) by simp
  have point: "decode_escape ?src component (int (length pre) + int (length xs)) PERCENT
      = Some (Some (int (length (pre @ xs @ percent table c)), c))"
    using decode_escape_spec[OF assms(1,3,4), of "pre @ xs" post] by simp
  have "length (utf16 c) \<le> length (drop (length xs) rest)" using assms(5) by simp
  from store_point_spec[OF assms(3) this, of "out @ xs"]
  have store: "store_point (map Some (out @ xs) @ drop (length xs) rest) (int (length out) + (int (length pre) + int (length xs) - int (length pre))) c
      = Some (map Some (out @ xs @ utf16 c) @ drop (length (xs @ utf16 c)) rest, int (length (out @ xs @ utf16 c)))"
    by (simp add: add.commute)
  have inside: "int (length pre) < int (length ?src)" "\<not> int (length pre) + int (length xs) \<ge> int (length ?src)"
    using us by simp_all
  show ?thesis
    unfolding decode_loop.simps[of ?src component "int (length pre)"] skip Option.bind.bind_lunit case_prod_conv copy Let_def
      if_P[OF inside(1)] point option.case store
    using inside(2) by simp
qed

lemma safe_percent: "decodable table component \<Longrightarrow> \<forall>x\<in>set xs. safe table x \<Longrightarrow> \<forall>x\<in>set xs. x \<noteq> PERCENT"
  by (auto simp: decodable_def)

lemma decode_loop_spec:
  assumes "decodable table component"
  shows "\<forall>c\<in>set cps. scalar c \<Longrightarrow> src = pre @ percents table cps \<Longrightarrow> length (units cps) \<le> length rest \<Longrightarrow>
    decode_loop src component (int (length pre)) ch (map Some out @ rest) (int (length out))
      = Some (Inr (map Some (out @ units cps) @ drop (length (units cps)) rest, int (length (out @ units cps))))"
proof (induction "length cps" arbitrary: cps pre out rest ch rule: less_induct)
  case less
  let ?xs = "takeWhile (safe table) cps"
  have xs: "\<forall>x\<in>set ?xs. safe table x" by (auto dest: set_takeWhileD)
  note xs_units = safe_units[OF xs] and xs_plain = safe_percent[OF assms xs]
  show ?case
  proof (cases "dropWhile (safe table) cps")
    case Nil
    then have cps: "cps = ?xs" by (metis append_Nil2 takeWhile_dropWhile_id)
    then have src: "src = pre @ ?xs" "units cps = ?xs" using less.prems(2) xs_units by metis+
    show ?thesis
    proof (cases "?xs = []")
      case True
      then show ?thesis using src by (subst decode_loop.simps) simp
    next
      case False
      obtain ch' where skip: "skip_plain (pre @ ?xs) (int (length pre)) ch = Some (int (length pre) + int (length ?xs), ch')"
        using skip_plain_end[OF xs_plain] by metis
      have copy: "copy_units (pre @ ?xs) (int (length pre)) (nat (int (length pre) + int (length ?xs) - int (length pre))) (map Some out @ rest)
          (int (length out)) = Some (map Some (out @ ?xs) @ drop (length ?xs) rest)"
        using copy_units_spec[of ?xs rest pre "[]"] less.prems(3) src(2) by simp
      show ?thesis
        unfolding src decode_loop.simps[of "pre @ ?xs" component "int (length pre)"] skip Option.bind.bind_lunit case_prod_conv copy Let_def
        using False by simp
    qed
  next
    case (Cons c cs)
    then have cps: "cps = ?xs @ c # cs" and c: "\<not> safe table c"
      using takeWhile_dropWhile_id[of "safe table" cps] hd_dropWhile[of "safe table" cps] by auto
    have src: "src = pre @ ?xs @ percent table c @ percents table cs" using less.prems(2) cps xs_units by (metis percents_simps(2,3))
    have units: "units cps = ?xs @ utf16 c @ units cs" using cps xs_units by (metis units_simps(2,3))
    have scalar: "scalar c" "\<forall>c\<in>set cs. scalar c" using less.prems(1) cps by (metis in_set_conv_decomp set_ConsD list.set_intros Un_iff set_append)+
    have room: "length (?xs @ utf16 c) \<le> length rest" "length (units cs) \<le> length (drop (length (?xs @ utf16 c)) rest)"
      using less.prems(3) units by simp_all
    have step: "decode_loop src component (int (length pre)) ch (map Some out @ rest) (int (length out))
        = decode_loop src component (int (length (pre @ ?xs @ percent table c))) c
            (map Some (out @ ?xs @ utf16 c) @ drop (length (?xs @ utf16 c)) rest) (int (length (out @ ?xs @ utf16 c)))"
      unfolding src by (rule decode_round[OF assms xs_plain scalar(1) c room(1)])
    have "length cs < length cps" by (subst cps) simp
    moreover have "src = (pre @ ?xs @ percent table c) @ percents table cs" using src by simp
    ultimately have "decode_loop src component (int (length (pre @ ?xs @ percent table c))) c
            (map Some (out @ ?xs @ utf16 c) @ drop (length (?xs @ utf16 c)) rest) (int (length (out @ ?xs @ utf16 c)))
        = Some (Inr (map Some ((out @ ?xs @ utf16 c) @ units cs) @ drop (length (units cs)) (drop (length (?xs @ utf16 c)) rest),
            int (length ((out @ ?xs @ utf16 c) @ units cs))))"
      using less.hyps[of cs "pre @ ?xs @ percent table c" "drop (length (?xs @ utf16 c)) rest" c "out @ ?xs @ utf16 c"] scalar(2) room(2) by blast
    then show ?thesis unfolding step units by (simp add: add.commute add.left_commute)
  qed
qed

lemma units_length: "length (units cps) \<le> length (percents table cps)"
proof (induction cps)
  case (Cons c cps)
  have "length (utf16 c) \<le> length (percent table c)" by (auto simp: utf16_def percent_def utf8_def hexs_def safe_def)
  then show ?case using Cons by simp
qed simp

lemma decode_spec:
  assumes "decodable table component" "\<forall>c\<in>set cps. scalar c" "2 * int (length (percents table cps)) < OBJECT_MAXSIZE"
  shows "decode (percents table cps) component = Some (Inr (units cps))"
proof (cases "percents table cps = []")
  case True
  then have "units cps = []" using units_length[of cps table] by simp
  then show ?thesis using True by (simp add: decode_def)
next
  case False
  let ?n = "length (percents table cps)"
  let ?rest = "replicate ?n None :: buffer"
  have loop: "decode_loop (percents table cps) component 0 0 ?rest 0
      = Some (Inr (map Some (units cps) @ drop (length (units cps)) ?rest, int (length (units cps))))"
    using decode_loop_spec[OF assms(1,2), of "percents table cps" "[]" ?rest 0 "[]"] units_length[of cps table] by simp
  have "new_string (int ?n) = Inr ?rest" using assms(3) by (simp add: new_string_def)
  moreover have "finish (map Some (units cps) @ drop (length (units cps)) ?rest) (int (length (units cps))) (int ?n) = Some (Inr (units cps))"
    using finish_spec[of "units cps" "drop (length (units cps)) ?rest"] units_length[of cps table] assms(3) by simp
  ultimately show ?thesis using False loop units_length[of cps table] by (simp add: decode_def)
qed

section \<open>Unpaired surrogates\<close>

lemma encode_loop_bad:
  assumes "length table = 94" "0xD800 \<le> d" "d < 0xE000"
  shows "\<forall>c\<in>set cps. scalar c \<Longrightarrow> src = pre @ units cps @ d # us \<Longrightarrow> int (length src) \<le> 2 ^ 24 \<Longrightarrow> length out \<le> 12 * length pre \<Longrightarrow>
    code_point src (int (length (pre @ units cps))) d = r \<Longrightarrow> r = None \<or> r = Some None \<Longrightarrow>
    encode_loop src table (int (length pre)) (map Some out @ rest) (int (length out)) (int (length out + length rest))
      = map_option (\<lambda>_. Inl E_URI_MALFORMED) r"
proof (induction "length cps" arbitrary: cps pre out rest rule: less_induct)
  case less
  let ?xs = "takeWhile (safe table) cps"
  have xs: "\<forall>x\<in>set ?xs. safe table x" by (auto dest: set_takeWhileD)
  note xs_units = safe_units[OF xs]
  have max: "OBJECT_MAXSIZE = 1073741804" by (simp add: OBJECT_MAXSIZE_def BLOCK_MAXSIZE_def)
  have d: "\<not> safe table d" "0 \<le> d" "d < 65536" using assms(2,3) by (simp_all add: safe_def)
  show ?case
  proof (cases "dropWhile (safe table) cps")
    case Nil
    then have cps: "cps = ?xs" by (metis append_Nil2 takeWhile_dropWhile_id)
    then have src: "src = pre @ ?xs @ d # us" "units cps = ?xs" using less.prems(2) xs_units by metis+
    have "2 * int (length out + length ?xs) < OBJECT_MAXSIZE" using less.prems(3,4) src(1) max by simp
    then obtain r1 where copy: "copy_range src (int (length pre)) (int (length pre) + int (length ?xs)) (map Some out @ rest)
         (int (length out)) (int (length out + length rest))
       = Some (Inr (map Some (out @ ?xs) @ r1, int (length (out @ ?xs)), int (length (out @ ?xs) + length r1)))"
      unfolding src(1) by (rule copy_range_spec)
    have scan: "scan_safe src table (int (length pre)) = Some (int (length pre) + int (length ?xs), d)"
      unfolding src(1) by (rule scan_unsafe[OF assms(1) xs d])
    have point: "code_point src (int (length pre) + int (length ?xs)) d = r" using less.prems(5) src(2) by simp
    have "int (length pre) < int (length src)" "\<not> int (length pre) + int (length ?xs) \<ge> int (length src)" using src(1) by simp_all
    then show ?thesis
      using less.prems(6)
      unfolding encode_loop.simps[of src table "int (length pre)"] scan Option.bind.bind_lunit case_prod_conv copy sum.case point
      by auto
  next
    case (Cons c cs)
    then have cps: "cps = ?xs @ c # cs" and c: "\<not> safe table c"
      using takeWhile_dropWhile_id[of "safe table" cps] hd_dropWhile[of "safe table" cps] by auto
    have units: "units cps = ?xs @ utf16 c @ units cs" using cps xs_units by (metis units_simps(2,3))
    have src: "src = pre @ ?xs @ utf16 c @ units cs @ d # us" using less.prems(2) units by simp
    have scalar: "scalar c" "\<forall>c\<in>set cs. scalar c" using less.prems(1) cps by (metis in_set_conv_decomp set_ConsD list.set_intros Un_iff set_append)+
    have "4 * int (length out + length ?xs + 12) < OBJECT_MAXSIZE" using less.prems(3,4) src max by simp
    from encode_round[OF assms(1) xs scalar(1) c this, of pre "units cs @ d # us" rest] obtain r1 where step:
      "encode_loop src table (int (length pre)) (map Some out @ rest) (int (length out)) (int (length out + length rest))
       = encode_loop src table (int (length (pre @ ?xs @ utf16 c))) (map Some (out @ ?xs @ percent table c) @ r1)
           (int (length (out @ ?xs @ percent table c))) (int (length (out @ ?xs @ percent table c) + length r1))"
      unfolding src by metis
    have "length cs < length cps" by (subst cps) simp
    moreover have "src = (pre @ ?xs @ utf16 c) @ units cs @ d # us" using src by simp
    moreover have "length (out @ ?xs @ percent table c) \<le> 12 * length (pre @ ?xs @ utf16 c)"
      using less.prems(4) percent_length[of table c] by simp
    moreover have "code_point src (int (length ((pre @ ?xs @ utf16 c) @ units cs))) d = r" using less.prems(5) units by simp
    ultimately show ?thesis
      unfolding step using less.hyps[of cs "pre @ ?xs @ utf16 c" "out @ ?xs @ percent table c" r1] scalar(2) less.prems(3,6) by blast
  qed
qed

lemma encode_bad:
  assumes "length table = 94" "\<forall>c\<in>set cps. scalar c" "0xD800 \<le> d" "d < 0xE000"
    and "d < 0xDC00 \<Longrightarrow> us \<noteq> [] \<Longrightarrow> hd us < 0xDC00 \<or> 0xDFFF < hd us" "int (length (units cps @ d # us)) \<le> 2 ^ 24"
  shows "encode (units cps @ d # us) table = (if d < 0xDC00 \<and> us = [] then None else Some (Inl E_URI_MALFORMED))"
proof -
  let ?src = "units cps @ d # us"
  have "load_at ?src (int (length (units cps)) + 1) = (if us = [] then None else Some (hd us))"
    by (cases us) (simp_all add: load_next, simp add: load_at_def)
  then have point: "code_point ?src (int (length (units cps))) d = (if d < 0xDC00 \<and> us = [] then None else Some None)"
    using assms(3-5) by (auto simp: code_point_def)
  have "encode_loop ?src table 0 (replicate (length ?src) None) 0 (int (length ?src))
      = map_option (\<lambda>_. Inl E_URI_MALFORMED) (if d < 0xDC00 \<and> us = [] then None else Some (None :: (int \<times> int) option))"
    using encode_loop_bad[OF assms(1,3,4,2), of ?src "[]" us "[]" _ "replicate (length ?src) None"] assms(6) point by auto
  moreover have "new_string (int (length ?src)) = Inr (replicate (length ?src) None)"
    using assms(6) unfolding new_string_def OBJECT_MAXSIZE_def BLOCK_MAXSIZE_def nat_int by simp
  ultimately show ?thesis by (auto simp: encode_def simp del: length_append)
qed

section \<open>The decoder never leaves its buffers\<close>

lemma skip_plain_total:
  "0 \<le> i \<Longrightarrow> i \<le> int (length src) \<Longrightarrow> \<exists>j ch'. skip_plain src i ch = Some (j, ch') \<and> i \<le> j \<and> j \<le> int (length src)"
proof (induction src i ch rule: skip_plain.induct)
  case (1 src i ch)
  show ?case
  proof (cases "i < int (length src)")
    case True
    then obtain x where x: "load_at src i = Some x" using "1.prems" by (simp add: load_at_def)
    show ?thesis
    proof (cases "x = PERCENT")
      case True
      with x \<open>i < int (length src)\<close> show ?thesis by (subst skip_plain.simps) simp
    next
      case False
      with "1.IH"[OF \<open>i < int (length src)\<close> x] "1.prems" \<open>i < int (length src)\<close> x
      show ?thesis by (subst skip_plain.simps) auto
    qed
  next
    case False
    with "1.prems" show ?thesis by (subst skip_plain.simps) simp
  qed
qed

lemma load_total: "0 \<le> i \<Longrightarrow> i < int (length xs) \<Longrightarrow> \<exists>x. load_at xs i = Some x"
  by (simp add: load_at_def)

lemma escape_total:
  assumes "0 \<le> i" "i + 2 < int (length src) \<Longrightarrow> \<exists>x. p = Some x"
  shows "\<exists>r. escape src i p = Some r \<and> (r \<noteq> None \<longrightarrow> i + 2 < int (length src))"
proof (cases "i + 2 < int (length src)")
  case True
  then obtain c0 c1 x where "load_at src (i + 1) = Some c0" "load_at src (i + 1 + 1) = Some c1" "p = Some x"
    using assms load_total[of "i + 1" src] load_total[of "i + 1 + 1" src] by auto
  with True show ?thesis by (simp add: escape_def loadHex_def)
next
  case False
  then show ?thesis by (simp add: escape_def)
qed

lemma utf8_tail_total:
  "0 \<le> i \<Longrightarrow> i \<le> int (length src) \<Longrightarrow>
   \<exists>r. utf8_tail src i nb ch = Some r \<and> (\<forall>j c. r = Some (j, c) \<longrightarrow> i \<le> j \<and> j \<le> int (length src))"
proof (induction src i nb ch rule: utf8_tail.induct)
  case (1 src i nb ch)
  note step = utf8_tail.simps[of src i nb ch]
  show ?case
  proof (cases "u32 (nb - 1) = 0")
    case True
    with "1.prems" show ?thesis by (simp add: step)
  next
    case more: False
    obtain r where r: "escape src i (load_at src i) = Some r" "r \<noteq> None \<longrightarrow> i + 2 < int (length src)"
      using escape_total[OF "1.prems"(1), of src "load_at src i"] load_total[OF "1.prems"(1), of src] by auto
    show ?thesis
    proof (cases r)
      case None
      with more r show ?thesis by (simp add: step)
    next
      case (Some c1)
      show ?thesis
      proof (cases "c1 AND 0xC0 \<noteq> 0x80")
        case True
        with more r Some "1.prems" show ?thesis by (simp add: step)
      next
        case False
        have "\<exists>r. utf8_tail src (i + 3) (u32 (nb - 1)) (u32 (push_bit 6 ch) OR (c1 AND 0x3F)) = Some r
            \<and> (\<forall>j c. r = Some (j, c) \<longrightarrow> i + 3 \<le> j \<and> j \<le> int (length src))"
          using "1.IH"[OF refl more r(1) Some] False r(2) Some "1.prems" by simp
        with more r(1) Some False show ?thesis by (auto simp: step)
      qed
    qed
  qed
qed

lemma decode_escape_total:
  assumes "0 \<le> i" "i < int (length src)"
  shows "\<exists>r. decode_escape src component i ch = Some r
    \<and> (\<forall>j c. r = Some (j, c) \<longrightarrow> i < j \<and> j \<le> int (length src) \<and> (c \<ge> 0x80 \<longrightarrow> i + 3 \<le> j))"
proof -
  obtain e where e: "escape src i (Some ch) = Some e" "e \<noteq> None \<longrightarrow> i + 2 < int (length src)"
    using escape_total[OF assms(1), of src "Some ch"] by auto
  show ?thesis
  proof (cases e)
    case None
    with e show ?thesis by (simp add: decode_escape_def)
  next
    case (Some b)
    show ?thesis
    proof (cases "b < 0x80")
      case True
      obtain k where "isReserved b = Some k" using isReserved_total by metis
      with True e Some show ?thesis by (cases component; cases k) (simp_all add: decode_escape_def PERCENT_def)
    next
      case False
      have start: "0 \<le> i + 3" "i + 3 \<le> int (length src)" using e(2) Some assms by simp_all
      obtain t where t: "utf8_tail src (i + 3) (utf8LenFromUpperByte b) (lead_bits (utf8LenFromUpperByte b) b) = Some t"
          "\<forall>j c. t = Some (j, c) \<longrightarrow> i + 3 \<le> j \<and> j \<le> int (length src)"
        using utf8_tail_total[OF start] by metis
      then have "\<exists>r. decode_utf8 src (i + 3) b = Some r \<and> (\<forall>j c. r = Some (j, c) \<longrightarrow> i + 3 \<le> j \<and> j \<le> int (length src))"
        by (cases t) (auto simp: decode_utf8_def Let_def)
      with False e(1) Some show ?thesis by (auto simp: decode_escape_def)
    qed
  qed
qed

lemma copy_total:
  assumes "0 \<le> i" "i \<le> j" "j \<le> int (length src)" "j - i \<le> int (length rest)"
  shows "\<exists>xs. copy_units src i (nat (j - i)) (map Some out @ rest) (int (length out)) = Some (map Some (out @ xs) @ drop (length xs) rest)
    \<and> int (length xs) = j - i"
proof -
  let ?xs = "take (nat (j - i)) (drop (nat i) src)"
  have len: "length ?xs = nat (j - i)" using assms(1-3) by simp
  have "src = take (nat i) src @ ?xs @ drop (nat (j - i)) (drop (nat i) src)" by (simp only: append_take_drop_id)
  moreover have "int (length (take (nat i) src)) = i" using assms by simp
  moreover have "length ?xs \<le> length rest" using len assms by simp
  ultimately show ?thesis
    using copy_units_spec[of ?xs rest "take (nat i) src" "drop (nat (j - i)) (drop (nat i) src)" out] len assms(1,2)
    by (metis int_nat_eq diff_ge_0_iff_ge)
qed

lemma store_point_total:
  assumes "(if c \<ge> 0x10000 then 2 else 1) \<le> length rest"
  shows "\<exists>xs. store_point (map Some out @ rest) (int (length out)) c = Some (map Some (out @ xs) @ drop (length xs) rest, int (length (out @ xs)))
    \<and> length xs = (if c \<ge> 0x10000 then 2 else 1)"
proof (cases "c \<ge> 0x10000")
  case True
  then obtain s1 s2 rest' where rest: "rest = s1 # s2 # rest'" using assms by (cases rest; cases "tl rest") auto
  let ?xs = "[drop_bit 10 (c - 0x10000) OR 0xD800, ((c - 0x10000) AND 0x03FF) OR 0xDC00]"
  have "store_point (map Some out @ rest) (int (length out)) c = Some (map Some (out @ ?xs) @ drop (length ?xs) rest, int (length (out @ ?xs)))"
    using True store_written[of "out @ [hd ?xs]" s2 rest' "hd (tl ?xs)"] by (simp add: store_point_def rest Let_def store_written add.commute)
  with True show ?thesis by (intro exI[of _ ?xs]) simp
next
  case False
  then obtain slot rest' where "rest = slot # rest'" using assms by (cases rest) auto
  with False show ?thesis by (intro exI[of _ "[c]"]) (simp add: store_point_def store_written)
qed

lemma decode_loop_total:
  "0 \<le> i \<Longrightarrow> i \<le> int (length src) \<Longrightarrow> dst = map Some out @ rest \<Longrightarrow> offset = int (length out) \<Longrightarrow> int (length out) \<le> i \<Longrightarrow>
   length out + length rest = length src \<Longrightarrow>
   decode_loop src component i ch dst offset = Some (Inl E_URI_MALFORMED)
   \<or> (\<exists>out' rest'. decode_loop src component i ch dst offset = Some (Inr (map Some out' @ rest', int (length out')))
        \<and> length out' + length rest' = length src)"
proof (induction src component i ch dst offset arbitrary: out rest rule: decode_loop.induct)
  case (1 src component i ch dst offset)
  note step = decode_loop.simps[of src component i ch dst offset]
  show ?case
  proof (cases "i < int (length src)")
    case False
    then show ?thesis using "1.prems" step by auto
  next
    case inside: True
    obtain j ch1 where skip: "skip_plain src i ch = Some (j, ch1)" "i \<le> j" "j \<le> int (length src)"
      using skip_plain_total "1.prems"(1,2) by metis
    have "j - i \<le> int (length rest)" using skip(3) "1.prems"(5,6) by linarith
    then obtain xs where copy: "copy_units src i (nat (j - i)) dst offset = Some (map Some (out @ xs) @ drop (length xs) rest)" "int (length xs) = j - i"
      using copy_total[OF "1.prems"(1) skip(2,3)] "1.prems"(3,4) by metis
    have room: "length (out @ xs) + length (drop (length xs) rest) = length src" "int (length (out @ xs)) \<le> j"
      using copy(2) \<open>j - i \<le> int (length rest)\<close> "1.prems"(5,6) by simp_all
    have offset: "offset + (j - i) = int (length (out @ xs))" using copy(2) "1.prems"(4) by simp
    show ?thesis
    proof (cases "j > i \<and> j \<ge> int (length src)")
      case True
      then have "decode_loop src component i ch dst offset
          = Some (Inr (map Some (out @ xs) @ drop (length xs) rest, int (length (out @ xs))))"
        unfolding step using inside skip(1) copy(1) by (simp add: Let_def offset[simplified])
      with room(1) show ?thesis by blast
    next
      case False
      then have j: "0 \<le> j" "j < int (length src)" using inside skip(2,3) "1.prems"(1) by linarith+
      obtain e where e: "decode_escape src component j ch1 = Some e"
          "\<forall>k c. e = Some (k, c) \<longrightarrow> j < k \<and> k \<le> int (length src) \<and> (c \<ge> 0x80 \<longrightarrow> j + 3 \<le> k)"
        using decode_escape_total[OF j] by metis
      show ?thesis
      proof (cases e)
        case None
        then show ?thesis using step inside skip(1) copy(1) False e(1) by (simp add: Let_def)
      next
        case (Some kc)
        then obtain k c where k: "e = Some (k, c)" "j < k" "k \<le> int (length src)" "c \<ge> 0x80 \<longrightarrow> j + 3 \<le> k"
          using e(2) by (cases kc) auto
        have "(if c \<ge> 0x10000 then 2 else 1) \<le> length (drop (length xs) rest)"
          using k(2-4) room by (auto simp del: length_append length_drop)
        then obtain ys where store: "store_point (map Some (out @ xs) @ drop (length xs) rest) (offset + (j - i)) c
            = Some (map Some ((out @ xs) @ ys) @ drop (length ys) (drop (length xs) rest), int (length ((out @ xs) @ ys)))"
            "length ys = (if c \<ge> 0x10000 then 2 else 1)"
          using store_point_total[of c "drop (length xs) rest" "out @ xs"] offset by metis
        have ys: "int (length ((out @ xs) @ ys)) \<le> k" "length ((out @ xs) @ ys) + length (drop (length ys) (drop (length xs) rest)) = length src"
          using store(2) k(2-4) room \<open>_ \<le> length (drop (length xs) rest)\<close> by (auto split: if_splits)
        have run: "decode_loop src component i ch dst offset
            = decode_loop src component k c (map Some ((out @ xs) @ ys) @ drop (length ys) (drop (length xs) rest)) (int (length ((out @ xs) @ ys)))"
          unfolding step if_P[OF inside] skip(1) Option.bind.bind_lunit case_prod_conv copy(1) Let_def if_not_P[OF False] e(1) k(1)
            option.case store(1) ..
        show ?thesis
          unfolding run
          by (rule "1.IH"[OF inside skip(1) refl copy(1) refl _ e(1) k(1) refl store(1) refl _ k(3) refl refl ys])
            (use False j(1) k(2) in auto)
      qed
    qed
  qed
qed

section \<open>Properties\<close>

text \<open>
  C9. Percent-encoding is UTF-8 percent-encoding and decoding is its inverse: a well-formed string of at most
  \<open>2 ^ 24\<close> units encodes to its safe characters and the escapes of the UTF-8 bytes of the others, and decoding
  that gives the string back, for components and for whole URIs.
\<close>

theorem uri_roundtrip:
  assumes "\<forall>c\<in>set cps. scalar c" "int (length (units cps)) \<le> 2 ^ 24"
  shows "encodeURIComponent (units cps) = Some (Inr (percents URL_UNSAFE cps))
    \<and> decodeURIComponent (percents URL_UNSAFE cps) = Some (Inr (units cps))
    \<and> encodeURI (units cps) = Some (Inr (percents URI_UNSAFE cps))
    \<and> decodeURI (percents URI_UNSAFE cps) = Some (Inr (units cps))"
proof -
  have "length URI_UNSAFE = 94" "length URL_UNSAFE = 94" using decodable_tables by (simp_all add: decodable_def)
  moreover have "2 * int (length (percents table cps)) < OBJECT_MAXSIZE" for table
    using percents_length[of table cps] assms(2) by (simp add: OBJECT_MAXSIZE_def BLOCK_MAXSIZE_def)
  ultimately show ?thesis
    using encode_spec[OF _ assms] decode_spec[OF decodable_tables(1) assms(1)] decode_spec[OF decodable_tables(2) assms(1)]
    by (simp add: encodeURIComponent_def encodeURI_def decodeURIComponent_def decodeURI_def)
qed

theorem uri_roundtrip_witness:
  "encodeURIComponent (units [0x61, 0x20AC, 0x1F600]) = Some (Inr (percents URL_UNSAFE [0x61, 0x20AC, 0x1F600]))
   \<and> decodeURIComponent (percents URL_UNSAFE [0x61, 0x20AC, 0x1F600]) = Some (Inr (units [0x61, 0x20AC, 0x1F600]))"
  using uri_roundtrip[of "[0x61, 0x20AC, 0x1F600]"] by (simp add: scalar_def utf16_def)

text \<open>
  C28. Decoding is safe on every input: it never loads or stores outside its buffers and its assertion holds, so
  that it returns a string no longer than the input or throws the malformed error.
\<close>

theorem decode_safe:
  assumes "2 * int (length src) < OBJECT_MAXSIZE"
  shows "decode src component = Some (Inl E_URI_MALFORMED)
    \<or> (\<exists>s. decode src component = Some (Inr s) \<and> length s \<le> length src)"
proof (cases "src = []")
  case True
  then show ?thesis by (simp add: decode_def)
next
  case False
  let ?rest = "replicate (length src) None :: buffer"
  have new: "new_string (int (length src)) = Inr ?rest" using assms by (simp add: new_string_def)
  from decode_loop_total[of 0 src ?rest "[]" ?rest 0 component 0]
  consider "decode_loop src component 0 0 ?rest 0 = Some (Inl E_URI_MALFORMED)"
    | out rest where "decode_loop src component 0 0 ?rest 0 = Some (Inr (map Some out @ rest, int (length out)))"
        "length out + length rest = length src" by auto
  then show ?thesis
  proof cases
    case 1
    with False new show ?thesis by (simp add: decode_def)
  next
    case 2
    then have "finish (map Some out @ rest) (int (length out)) (int (length src)) = Some (Inr out)"
      using finish_spec[of out rest] assms by simp
    with 2 False new show ?thesis by (simp add: decode_def)
  qed
qed

theorem decode_safe_witness: "\<exists>s. decode [37, 67, 51, 37, 65, 57] True = Some (Inr s) \<and> length s \<le> 6"
proof -
  have "decode [37, 67, 51, 37, 65, 57] True \<noteq> Some (Inl E_URI_MALFORMED)" by code_simp
  then show ?thesis using decode_safe[of "[37, 67, 51, 37, 65, 57]" True] by (simp add: OBJECT_MAXSIZE_def BLOCK_MAXSIZE_def eval_nat_numeral)
qed

text \<open>
  C29. Encoding throws the malformed error at the first unpaired surrogate, except when this is a leading
  surrogate at the end of the string: then it loads the unit behind the string.
\<close>

theorem encode_unpaired:
  assumes "\<forall>c\<in>set cps. scalar c" "0xD800 \<le> d" "d < 0xE000"
    and "d < 0xDC00 \<Longrightarrow> us \<noteq> [] \<Longrightarrow> hd us < 0xDC00 \<or> 0xDFFF < hd us"
    and "int (length (units cps @ d # us)) \<le> 2 ^ 24" "table \<in> {URI_UNSAFE, URL_UNSAFE}"
  shows "encode (units cps @ d # us) table = (if d < 0xDC00 \<and> us = [] then None else Some (Inl E_URI_MALFORMED))"
proof -
  have "length table = 94" using assms(6) decodable_tables by (auto simp: decodable_def)
  then show ?thesis using assms(1-5) by (rule encode_bad)
qed

theorem encode_unpaired_witness:
  "encode (units [0x61] @ 0xD83D # [0x61]) URL_UNSAFE = Some (Inl E_URI_MALFORMED)
   \<and> encode (units [0x61] @ 0xD83D # []) URL_UNSAFE = None"
  using encode_unpaired[of "[0x61]" "0xD83D" "[0x61]" URL_UNSAFE] encode_unpaired[of "[0x61]" "0xD83D" "[]" URL_UNSAFE]
  by (simp add: scalar_def utf16_def)

text \<open>
  Remark: for a byte that starts no UTF-8 sequence the smallest code point is \<open>2 ^ 31\<close> and not the -1 that the
  comment and the check after the loop speak of, so that check never fires.
\<close>

theorem no_lead_minimum: "minimal_point 0 = 0x80000000 \<and> minimal_point 0 \<noteq> 0xFFFFFFFF"
  by code_simp

end
