(* ===== verification/As_Number.thy ===== *)
theory As_Number
  imports As_Memory "HOL-Library.Char_ord"
begin

unbundle bit_operations_syntax

text \<open>
  The conversion between integers and strings: \<open>std/util/number.ts\<close> without its floating-point half, \<open>strtol\<close> of
  \<open>std/util/string.ts\<close> for integer types, and \<open>toString\<close> and \<open>parseInt\<close> of the integer classes of \<open>std/number.ts\<close>. Values of the unsigned routines are naturals below \<open>2 ^ 32\<close> or
  \<open>2 ^ 64\<close>; a string under construction is a buffer of units and the place of its first digit.
\<close>

section \<open>Characters and tables\<close>

definition DIGITS :: "int list" where
  "DIGITS =
     [0x00300030, 0x00310030, 0x00320030, 0x00330030, 0x00340030,
      0x00350030, 0x00360030, 0x00370030, 0x00380030, 0x00390030,
      0x00300031, 0x00310031, 0x00320031, 0x00330031, 0x00340031,
      0x00350031, 0x00360031, 0x00370031, 0x00380031, 0x00390031,
      0x00300032, 0x00310032, 0x00320032, 0x00330032, 0x00340032,
      0x00350032, 0x00360032, 0x00370032, 0x00380032, 0x00390032,
      0x00300033, 0x00310033, 0x00320033, 0x00330033, 0x00340033,
      0x00350033, 0x00360033, 0x00370033, 0x00380033, 0x00390033,
      0x00300034, 0x00310034, 0x00320034, 0x00330034, 0x00340034,
      0x00350034, 0x00360034, 0x00370034, 0x00380034, 0x00390034,
      0x00300035, 0x00310035, 0x00320035, 0x00330035, 0x00340035,
      0x00350035, 0x00360035, 0x00370035, 0x00380035, 0x00390035,
      0x00300036, 0x00310036, 0x00320036, 0x00330036, 0x00340036,
      0x00350036, 0x00360036, 0x00370036, 0x00380036, 0x00390036,
      0x00300037, 0x00310037, 0x00320037, 0x00330037, 0x00340037,
      0x00350037, 0x00360037, 0x00370037, 0x00380037, 0x00390037,
      0x00300038, 0x00310038, 0x00320038, 0x00330038, 0x00340038,
      0x00350038, 0x00360038, 0x00370038, 0x00380038, 0x00390038,
      0x00300039, 0x00310039, 0x00320039, 0x00330039, 0x00340039,
      0x00350039, 0x00360039, 0x00370039, 0x00380039, 0x00390039]"

definition unit_codes :: "string \<Rightarrow> int list" where
  "unit_codes s = map (\<lambda>c. int (of_char c)) s"

definition HEX_DIGITS :: "int list" where
  "HEX_DIGITS = unit_codes
    (''000102030405060708090a0b0c0d0e0f101112131415161718191a1b1c1d1e1f''
      @ ''202122232425262728292a2b2c2d2e2f303132333435363738393a3b3c3d3e3f''
      @ ''404142434445464748494a4b4c4d4e4f505152535455565758595a5b5c5d5e5f''
      @ ''606162636465666768696a6b6c6d6e6f707172737475767778797a7b7c7d7e7f''
      @ ''808182838485868788898a8b8c8d8e8f909192939495969798999a9b9c9d9e9f''
      @ ''a0a1a2a3a4a5a6a7a8a9aaabacadaeafb0b1b2b3b4b5b6b7b8b9babbbcbdbebf''
      @ ''c0c1c2c3c4c5c6c7c8c9cacbcccdcecfd0d1d2d3d4d5d6d7d8d9dadbdcdddedf''
      @ ''e0e1e2e3e4e5e6e7e8e9eaebecedeeeff0f1f2f3f4f5f6f7f8f9fafbfcfdfeff'')"

definition ANY_DIGITS :: "int list" where
  "ANY_DIGITS = unit_codes ''0123456789abcdefghijklmnopqrstuvwxyz''"

definition MINUS :: int where "MINUS = 0x2D"
definition PLUS :: int where "PLUS = 0x2B"

definition E_RADIX :: string where
  "E_RADIX = ''toString() radix argument must be between 2 and 36''"

text \<open>Stores of two and of four units.\<close>

definition store_u32 :: "buffer \<Rightarrow> int \<Rightarrow> int \<Rightarrow> buffer option" where
  "store_u32 dst offset v = do {
     dst \<leftarrow> store_at dst offset (Some (take_bit 16 v));
     store_at dst (offset + 1) (Some (take_bit 16 (drop_bit 16 v)))
   }"

definition store_u64 :: "buffer \<Rightarrow> int \<Rightarrow> int \<Rightarrow> buffer option" where
  "store_u64 dst offset v = do {
     dst \<leftarrow> store_u32 dst offset (take_bit 32 v);
     store_u32 dst (offset + 2) (drop_bit 32 v)
   }"

text \<open>The load of two adjacent units.\<close>

definition load_u32 :: "int list \<Rightarrow> int \<Rightarrow> int option" where
  "load_u32 xs i = do {
     lo \<leftarrow> load_at xs i;
     hi \<leftarrow> load_at xs (i + 1);
     Some (lo OR push_bit 16 hi)
   }"

section \<open>The number of digits\<close>

definition decimalCount32 :: "nat \<Rightarrow> nat" where
  "decimalCount32 value =
     (if value < 100000 then
        if value < 100 then 1 + of_bool (value \<ge> 10)
        else 3 + of_bool (value \<ge> 10000) + of_bool (value \<ge> 1000)
      else
        if value < 10000000 then 6 + of_bool (value \<ge> 1000000)
        else 8 + of_bool (value \<ge> 1000000000) + of_bool (value \<ge> 100000000))"

definition decimalCount64High :: "nat \<Rightarrow> nat" where
  "decimalCount64High value =
     (if value < 1000000000000000 then
        if value < 1000000000000 then 10 + of_bool (value \<ge> 100000000000) + of_bool (value \<ge> 10000000000)
        else 13 + of_bool (value \<ge> 100000000000000) + of_bool (value \<ge> 10000000000000)
      else
        if value < 100000000000000000 then 16 + of_bool (value \<ge> 10000000000000000)
        else 18 + of_bool (value \<ge> 10000000000000000000) + of_bool (value \<ge> 1000000000000000000))"

definition isPowerOf2 :: "int \<Rightarrow> bool" where
  "isPowerOf2 v \<longleftrightarrow> length (filter (bit v) [0..<32]) = 1"

text \<open>
  The two loops of \<open>ulog_base\<close>. The square wraps at 64 bits, and a division by zero traps as \<open>None\<close>; without a
  bound on the squares the loops might not end.
\<close>

partial_function (option) ulog_squares :: "nat \<Rightarrow> nat \<Rightarrow> nat \<Rightarrow> (nat \<times> nat) option" where
  "ulog_squares num b e =
     (if b \<le> num then if b = 0 then None else ulog_squares (num div b) (take_bit 64 (b * b)) (2 * e)
      else Some (num, e))"

partial_function (option) ulog_rest :: "nat \<Rightarrow> nat \<Rightarrow> nat \<Rightarrow> nat option" where
  "ulog_rest num b64 e =
     (if 1 \<le> num then if b64 = 0 then None else ulog_rest (num div b64) b64 (e + 1) else Some e)"

definition ulog_base :: "nat \<Rightarrow> nat \<Rightarrow> nat option" where
  "ulog_base num base =
     (if isPowerOf2 (int base) then Some ((63 - clz 64 (int num)) div (31 - clz 32 (int base)) + 1)
      else do {
        (num, e) \<leftarrow> ulog_squares num base 1;
        e \<leftarrow> ulog_rest num base e;
        Some (e - 1)
      })"

section \<open>Writing digits\<close>

definition utoa32_dec_tail :: "buffer \<Rightarrow> int \<Rightarrow> nat \<Rightarrow> int \<Rightarrow> buffer option" where
  "utoa32_dec_tail dst base num offset = do {
     (dst, num, offset) \<leftarrow>
       (if num \<ge> 100 then do {
          let t = num div 100;
          let d1 = num mod 100;
          let offset = offset - 2;
          digits \<leftarrow> load_at DIGITS (int d1);
          dst \<leftarrow> store_u32 dst (base + offset) digits;
          Some (dst, t, offset)
        } else Some (dst, num, offset));
     if num \<ge> 10 then do {
       let offset = offset - 2;
       digits \<leftarrow> load_at DIGITS (int num);
       store_u32 dst (base + offset) digits
     } else do {
       let offset = offset - 1;
       let digit = 0x30 + int num;
       store_at dst (base + offset) (Some digit)
     }
   }"

function utoa32_dec_lut :: "buffer \<Rightarrow> int \<Rightarrow> nat \<Rightarrow> int \<Rightarrow> buffer option" where
  "utoa32_dec_lut dst base num offset =
     (if num \<ge> 10000 then do {
        let t = num div 10000;
        let r = num mod 10000;
        let d1 = r div 100;
        let d2 = r mod 100;
        digits1 \<leftarrow> load_at DIGITS (int d1);
        digits2 \<leftarrow> load_at DIGITS (int d2);
        let offset = offset - 4;
        dst \<leftarrow> store_u64 dst (base + offset) (digits1 OR push_bit 32 digits2);
        utoa32_dec_lut dst base t offset
      } else utoa32_dec_tail dst base num offset)"
  by pat_completeness auto
termination by (relation "measure (\<lambda>(dst, base, num, offset). num)") auto

function utoa64_dec_lut :: "buffer \<Rightarrow> int \<Rightarrow> nat \<Rightarrow> int \<Rightarrow> buffer option" where
  "utoa64_dec_lut dst base num offset =
     (if num \<ge> 100000000 then do {
        let t = num div 100000000;
        let r = num - t * 100000000;
        let b = r div 10000;
        let c = r mod 10000;
        digits1 \<leftarrow> load_at DIGITS (int (c div 100));
        digits2 \<leftarrow> load_at DIGITS (int (c mod 100));
        let offset = offset - 4;
        dst \<leftarrow> store_u64 dst (base + offset) (digits1 OR push_bit 32 digits2);
        digits1 \<leftarrow> load_at DIGITS (int (b div 100));
        digits2 \<leftarrow> load_at DIGITS (int (b mod 100));
        let offset = offset - 4;
        dst \<leftarrow> store_u64 dst (base + offset) (digits1 OR push_bit 32 digits2);
        utoa64_dec_lut dst base t offset
      } else utoa32_dec_lut dst base num offset)"
  by pat_completeness auto
termination by (relation "measure (\<lambda>(dst, base, num, offset). num)") auto

text \<open>The last store of \<open>utoa_hex_lut\<close> goes to the start of the buffer.\<close>

function utoa_hex_lut :: "buffer \<Rightarrow> int \<Rightarrow> nat \<Rightarrow> int \<Rightarrow> buffer option" where
  "utoa_hex_lut dst base num offset =
     (if offset \<ge> 2 then do {
        let offset = offset - 2;
        digits \<leftarrow> load_u32 HEX_DIGITS (2 * int (num AND 0xFF));
        dst \<leftarrow> store_u32 dst (base + offset) digits;
        utoa_hex_lut dst base (drop_bit 8 num) offset
      } else if offset AND 1 \<noteq> 0 then do {
        digit \<leftarrow> load_at HEX_DIGITS (int (push_bit 5 num));
        store_at dst base (Some digit)
      } else Some dst)"
  by pat_completeness auto
termination by (relation "measure (\<lambda>(dst, base, num, offset). nat offset)") auto

function utoa_dec_simple :: "buffer \<Rightarrow> int \<Rightarrow> nat \<Rightarrow> int \<Rightarrow> buffer option" where
  "utoa_dec_simple dst base num offset = do {
     let t = num div 10;
     let r = num mod 10;
     let offset = offset - 1;
     dst \<leftarrow> store_at dst (base + offset) (Some (0x30 + int r));
     if t \<noteq> 0 then utoa_dec_simple dst base t offset else Some dst
   }"
  by pat_completeness auto
termination by (relation "measure (\<lambda>(dst, base, num, offset). num)") auto

function utoa_hex_simple :: "buffer \<Rightarrow> int \<Rightarrow> nat \<Rightarrow> int \<Rightarrow> buffer option" where
  "utoa_hex_simple dst base num offset = do {
     let d = int ((num AND 0x0F) OR 0x30);
     let d = d + (if d > 0x39 then 0x27 else 0);
     let offset = offset - 1;
     dst \<leftarrow> store_at dst (base + offset) (Some d);
     let num = drop_bit 4 num;
     if num \<noteq> 0 then utoa_hex_simple dst base num offset else Some dst
   }"
  by pat_completeness auto
termination by (relation "measure (\<lambda>(dst, base, num, offset). num)") (auto simp: drop_bit_eq_div)

text \<open>The two loops of \<open>utoa64_any_core\<close>; with a shift of 0 or a base below 2 they might not end.\<close>

partial_function (option) any_shift :: "buffer \<Rightarrow> int \<Rightarrow> nat \<Rightarrow> int \<Rightarrow> nat \<Rightarrow> nat \<Rightarrow> buffer option" where
  "any_shift dst base num offset shift msk = do {
     digit \<leftarrow> load_at ANY_DIGITS (int (num AND msk));
     dst \<leftarrow> store_at dst (base + (offset - 1)) (Some digit);
     if drop_bit shift num \<noteq> 0 then any_shift dst base (drop_bit shift num) (offset - 1) shift msk else Some dst
   }"

partial_function (option) any_divide :: "buffer \<Rightarrow> int \<Rightarrow> nat \<Rightarrow> int \<Rightarrow> nat \<Rightarrow> buffer option" where
  "any_divide dst base num offset b64 =
     (if b64 = 0 then None
      else do {
        digit \<leftarrow> load_at ANY_DIGITS (int (num - num div b64 * b64));
        dst \<leftarrow> store_at dst (base + (offset - 1)) (Some digit);
        if num div b64 \<noteq> 0 then any_divide dst base (num div b64) (offset - 1) b64 else Some dst
      })"

definition utoa64_any_core :: "buffer \<Rightarrow> int \<Rightarrow> nat \<Rightarrow> int \<Rightarrow> nat \<Rightarrow> buffer option" where
  "utoa64_any_core dst base num offset radix =
     (if radix AND (radix - 1) = 0 then any_shift dst base num offset (ctz 32 (int radix) mod 8) (radix - 1)
      else any_divide dst base num offset radix)"

definition utoa32_dec_core :: "int \<Rightarrow> buffer \<Rightarrow> int \<Rightarrow> nat \<Rightarrow> int \<Rightarrow> buffer option" where
  "utoa32_dec_core shrink_level dst base num offset =
     (if shrink_level \<ge> 1 then utoa_dec_simple dst base num offset else utoa32_dec_lut dst base num offset)"

definition utoa32_hex_core :: "int \<Rightarrow> buffer \<Rightarrow> int \<Rightarrow> nat \<Rightarrow> int \<Rightarrow> buffer option" where
  "utoa32_hex_core shrink_level dst base num offset =
     (if shrink_level \<ge> 1 then utoa_hex_simple dst base num offset else utoa_hex_lut dst base num offset)"

definition utoa64_dec_core :: "int \<Rightarrow> buffer \<Rightarrow> int \<Rightarrow> nat \<Rightarrow> int \<Rightarrow> buffer option" where
  "utoa64_dec_core shrink_level dst base num offset =
     (if shrink_level \<ge> 1 then utoa_dec_simple dst base num offset else utoa64_dec_lut dst base num offset)"

definition utoa64_hex_core :: "int \<Rightarrow> buffer \<Rightarrow> int \<Rightarrow> nat \<Rightarrow> int \<Rightarrow> buffer option" where
  "utoa64_hex_core shrink_level dst base num offset =
     (if shrink_level \<ge> 1 then utoa_hex_simple dst base num offset else utoa_hex_lut dst base num offset)"

section \<open>Integers to strings\<close>

text \<open>A new string of \<open>sign\<close> units for the sign and \<open>decimals\<close> digits that the core writes.\<close>

definition new_number :: "int \<Rightarrow> nat \<Rightarrow> (buffer \<Rightarrow> buffer option) \<Rightarrow> (string + int list) option" where
  "new_number sign decimals core =
     (case new_string (int decimals + sign) of Inl err \<Rightarrow> Some (Inl err)
      | Inr dst \<Rightarrow> do {
          dst \<leftarrow> core dst;
          dst \<leftarrow> (if sign \<noteq> 0 then store_at dst 0 (Some MINUS) else Some dst);
          s \<leftarrow> written dst;
          Some (Inr s)
        })"

definition utoa32 :: "int \<Rightarrow> nat \<Rightarrow> int \<Rightarrow> (string + int list) option" where
  "utoa32 shrink_level v radix =
     (if radix < 2 \<or> radix > 36 then Some (Inl E_RADIX)
      else if v = 0 then Some (Inr [0x30])
      else if radix = 10 then
        (let decimals = decimalCount32 v
         in new_number 0 decimals (\<lambda>dst. utoa32_dec_core shrink_level dst 0 v (int decimals)))
      else if radix = 16 then
        (let decimals = (31 - clz 32 (int v)) div 4 + 1
         in new_number 0 decimals (\<lambda>dst. utoa32_hex_core shrink_level dst 0 v (int decimals)))
      else do {
        decimals \<leftarrow> ulog_base v (nat radix);
        new_number 0 decimals (\<lambda>dst. utoa64_any_core dst 0 v (int decimals) (nat radix))
      })"

definition itoa32 :: "int \<Rightarrow> int \<Rightarrow> int \<Rightarrow> (string + int list) option" where
  "itoa32 shrink_level v radix =
     (if radix < 2 \<or> radix > 36 then Some (Inl E_RADIX)
      else if v = 0 then Some (Inr [0x30])
      else
        (let sign = drop_bit 31 (u32 v);
             v = nat (u32 (if sign \<noteq> 0 then - v else v))
         in if radix = 10 then
              (let decimals = decimalCount32 v
               in new_number sign decimals (\<lambda>dst. utoa32_dec_core shrink_level dst sign v (int decimals)))
            else if radix = 16 then
              (let decimals = (31 - clz 32 (int v)) div 4 + 1
               in new_number sign decimals (\<lambda>dst. utoa32_hex_core shrink_level dst sign v (int decimals)))
            else do {
              decimals \<leftarrow> ulog_base v (nat radix);
              new_number sign decimals (\<lambda>dst. utoa64_any_core dst sign v (int decimals) (nat radix))
            }))"

definition utoa64 :: "int \<Rightarrow> nat \<Rightarrow> int \<Rightarrow> (string + int list) option" where
  "utoa64 shrink_level v radix =
     (if radix < 2 \<or> radix > 36 then Some (Inl E_RADIX)
      else if v = 0 then Some (Inr [0x30])
      else if radix = 10 then
        if v \<le> 0xFFFFFFFF then
          (let decimals = decimalCount32 v
           in new_number 0 decimals (\<lambda>dst. utoa32_dec_core shrink_level dst 0 v (int decimals)))
        else
          (let decimals = decimalCount64High v
           in new_number 0 decimals (\<lambda>dst. utoa64_dec_core shrink_level dst 0 v (int decimals)))
      else if radix = 16 then
        (let decimals = (63 - clz 64 (int v)) div 4 + 1
         in new_number 0 decimals (\<lambda>dst. utoa64_hex_core shrink_level dst 0 v (int decimals)))
      else do {
        decimals \<leftarrow> ulog_base v (nat radix);
        new_number 0 decimals (\<lambda>dst. utoa64_any_core dst 0 v (int decimals) (nat radix))
      })"

definition itoa64 :: "int \<Rightarrow> int \<Rightarrow> int \<Rightarrow> (string + int list) option" where
  "itoa64 shrink_level v radix =
     (if radix < 2 \<or> radix > 36 then Some (Inl E_RADIX)
      else if v = 0 then Some (Inr [0x30])
      else
        (let sign = drop_bit 63 (take_bit 64 v);
             v = nat (take_bit 64 (if sign \<noteq> 0 then - v else v))
         in if radix = 10 then
              if v \<le> 0xFFFFFFFF then
                (let decimals = decimalCount32 v
                 in new_number sign decimals (\<lambda>dst. utoa32_dec_core shrink_level dst sign v (int decimals)))
              else
                (let decimals = decimalCount64High v
                 in new_number sign decimals (\<lambda>dst. utoa64_dec_core shrink_level dst sign v (int decimals)))
            else if radix = 16 then
              (let decimals = (63 - clz 64 (int v)) div 4 + 1
               in new_number sign decimals (\<lambda>dst. utoa64_hex_core shrink_level dst sign v (int decimals)))
            else do {
              decimals \<leftarrow> ulog_base v (nat radix);
              new_number sign decimals (\<lambda>dst. utoa64_any_core dst sign v (int decimals) (nat radix))
            }))"

section \<open>Strings to integers\<close>

definition isSpace :: "int \<Rightarrow> bool" where
  "isSpace c =
     (if c < 0x1680 then (c OR 0x80) = 0xA0 \<or> u32 (c - 0x09) \<le> 0x0D - 0x09
      else if u32 (c - 0x2000) \<le> 0x200A - 0x2000 then True
      else c \<in> {0x1680, 0x2028, 0x2029, 0x202F, 0x205F, 0x3000, 0xFEFF})"

text \<open>The loop over white space has no check on the length and loads behind a string that has nothing else.\<close>

function skip_spaces :: "int list \<Rightarrow> int \<Rightarrow> int \<Rightarrow> int \<Rightarrow> (int \<times> int \<times> int) option" where
  "skip_spaces str ptr code len =
     (if isSpace code then do {
        code \<leftarrow> load_at str (ptr + 1);
        skip_spaces str (ptr + 1) code (len - 1)
      } else Some (ptr, code, len))"
  by pat_completeness auto
termination
  by (relation "measure (\<lambda>(str, ptr, code, len). nat (int (length str) - ptr))") (auto simp: load_at_def split: if_splits)

definition digit_value :: "int \<Rightarrow> int" where
  "digit_value code =
     (if u32 (code - 0x30) < 10 then u32 (code - 0x30)
      else if u32 (code - 0x41) \<le> 0x5A - 0x41 then u32 (code - (0x41 - 10))
      else if u32 (code - 0x61) \<le> 0x7A - 0x61 then u32 (code - (0x61 - 10))
      else code)"

text \<open>The value of the digits; \<open>wrap\<close> is the arithmetic of the result type. The first result is the returned 0.\<close>

function digit_loop :: "(int \<Rightarrow> int) \<Rightarrow> int list \<Rightarrow> int \<Rightarrow> int \<Rightarrow> int \<Rightarrow> int \<Rightarrow> int \<Rightarrow> int option option" where
  "digit_loop wrap str radix initial ptr len num =
     (if len \<noteq> 0 then do {
        let len = len - 1;
        code \<leftarrow> load_at str ptr;
        let code = digit_value code;
        if code \<ge> radix then Some (if initial = len then None else Some num)
        else digit_loop wrap str radix initial (ptr + 1) len (wrap (num * radix + code))
      } else Some (Some num))"
  by pat_completeness auto
termination
  by (relation "measure (\<lambda>(wrap, str, radix, initial, ptr, len, num). nat (int (length str) - ptr))")
    (auto simp: load_at_def split: if_splits)

text \<open>The radix and what follows its prefix.\<close>

definition radix_prefix :: "int list \<Rightarrow> int \<Rightarrow> int \<Rightarrow> int \<Rightarrow> int \<Rightarrow> (int \<times> int \<times> int) option" where
  "radix_prefix str radix ptr code len =
     (if radix \<noteq> 0 then
        if radix = 16 \<and> len > 2 \<and> code = 0x30 then do {
          c \<leftarrow> load_at str (ptr + 1);
          Some (if c OR 32 = 0x78 then (radix, ptr + 2, len - 2) else (radix, ptr, len))
        } else Some (radix, ptr, len)
      else if code = 0x30 \<and> len > 2 then do {
        c \<leftarrow> load_at str (ptr + 1);
        Some (if c OR 32 = 0x62 then (2, ptr + 2, len - 2)
              else if c OR 32 = 0x6F then (8, ptr + 2, len - 2)
              else if c OR 32 = 0x78 then (16, ptr + 2, len - 2)
              else (10, ptr, len))
      } else Some (10, ptr, len))"

definition strtol :: "(int \<Rightarrow> int) \<Rightarrow> int list \<Rightarrow> int \<Rightarrow> int option" where
  "strtol wrap str radix =
     (let len = int (length str)
      in if len = 0 then Some 0
      else do {
        code \<leftarrow> load_at str 0;
        (ptr, code, len) \<leftarrow> skip_spaces str 0 code len;
        let signed = (code = MINUS \<or> code = PLUS);
        let sign = (if code = MINUS then -1 else 1);
        if signed \<and> len - 1 = 0 then Some 0
        else do {
          (ptr, code, len) \<leftarrow>
            (if signed then do { code \<leftarrow> load_at str (ptr + 1); Some (ptr + 1, code, len - 1) }
             else Some (ptr, code, len));
          if radix \<noteq> 0 \<and> (radix < 2 \<or> radix > 36) then Some 0
          else do {
            (radix, ptr, len) \<leftarrow> radix_prefix str radix ptr code len;
            num \<leftarrow> digit_loop wrap str radix (len - 1) ptr len 0;
            Some (case num of None \<Rightarrow> 0 | Some num \<Rightarrow> wrap (sign * num))
          }
        }
      })"

text \<open>The wrapping arithmetic of \<open>i32\<close> and \<open>i64\<close>.\<close>

definition i64 :: "int \<Rightarrow> int" where
  "i64 x = signed_take_bit 63 x"

section \<open>The number classes\<close>

text \<open>
  The ten integer classes of \<open>std/number.ts\<close> differ in the width and the sign of their values and in the routines
  they call; \<open>sizeof\<close> is the size of a pointer, 4 or 8 bytes.
\<close>

datatype int_class = I8 | I16 | I32 | I64 | Isize | U8 | U16 | U32 | U64 | Usize

fun class_cast :: "nat \<Rightarrow> int_class \<Rightarrow> int \<Rightarrow> int" where
  "class_cast sizeof I8 = signed_take_bit 7"
| "class_cast sizeof I16 = signed_take_bit 15"
| "class_cast sizeof I32 = i32"
| "class_cast sizeof I64 = i64"
| "class_cast sizeof Isize = signed_take_bit (8 * sizeof - 1)"
| "class_cast sizeof U8 = take_bit 8"
| "class_cast sizeof U16 = take_bit 16"
| "class_cast sizeof U32 = u32"
| "class_cast sizeof U64 = take_bit 64"
| "class_cast sizeof Usize = take_bit (8 * sizeof)"

definition parse_int :: "nat \<Rightarrow> int_class \<Rightarrow> int list \<Rightarrow> int \<Rightarrow> int option" where
  "parse_int sizeof cls value radix =
     (if cls \<in> {I64, Isize, U64, Usize} then map_option (class_cast sizeof cls) (strtol i64 value radix)
      else map_option (class_cast sizeof cls) (strtol i32 value radix))"

definition to_string :: "int \<Rightarrow> nat \<Rightarrow> int_class \<Rightarrow> int \<Rightarrow> int \<Rightarrow> (string + int list) option" where
  "to_string shrink_level sizeof cls this radix =
     (if cls \<in> {I8, I16, I32} then itoa32 shrink_level this radix
      else if cls = I64 then itoa64 shrink_level this radix
      else if cls \<in> {U8, U16, U32} then utoa32 shrink_level (nat this) radix
      else if cls = U64 then utoa64 shrink_level (nat this) radix
      else if cls = Isize then
        if sizeof = 4 then itoa32 shrink_level (i32 this) radix else itoa64 shrink_level (i64 this) radix
      else
        if sizeof = 4 then utoa32 shrink_level (nat (u32 this)) radix
        else utoa64 shrink_level (nat (take_bit 64 this)) radix)"

declare ulog_squares.simps [code] ulog_rest.simps [code] any_shift.simps [code] any_divide.simps [code]
declare utoa32_dec_lut.simps [simp del] utoa64_dec_lut.simps [simp del] utoa_hex_lut.simps [simp del]
declare utoa_dec_simple.simps [simp del] utoa_hex_simple.simps [simp del]
declare skip_spaces.simps [simp del] digit_loop.simps [simp del]

end
