(* ===== verification/As_Digits.thy ===== *)
theory As_Digits
  imports As_Number
begin

unbundle bit_operations_syntax

text \<open>
  The numeral of a number in a radix, and that the conversions compute its length beforehand; the digits in the
  tables of \<open>std/util/number.ts\<close>.
\<close>

section \<open>Numerals\<close>

function digits :: "nat \<Rightarrow> nat \<Rightarrow> nat list" where
  "digits r n = (if r < 2 \<or> n < r then [n] else digits r (n div r) @ [n mod r])"
  by pat_completeness auto
termination by (relation "measure (\<lambda>(r, n). n)") auto

declare digits.simps [simp del]

definition digit_char :: "nat \<Rightarrow> int" where
  "digit_char d = (if d < 10 then 0x30 + int d else 0x57 + int d)"

definition numeral_text :: "nat \<Rightarrow> nat \<Rightarrow> int list" where
  "numeral_text r n = map digit_char (digits r n)"

definition signed_text :: "nat \<Rightarrow> int \<Rightarrow> int list" where
  "signed_text r v = (if v < 0 then [MINUS] else []) @ numeral_text r (nat \<bar>v\<bar>)"

lemma digits_less: "n < r \<Longrightarrow> digits r n = [n]"
  by (subst digits.simps) simp

lemma digits_step: "2 \<le> r \<Longrightarrow> r \<le> n \<Longrightarrow> digits r n = digits r (n div r) @ [n mod r]"
  by (subst digits.simps) simp

lemma text_less: "n < r \<Longrightarrow> numeral_text r n = [digit_char n]"
  by (simp add: numeral_text_def digits_less)

lemma text_step: "2 \<le> r \<Longrightarrow> r \<le> n \<Longrightarrow> numeral_text r n = numeral_text r (n div r) @ [digit_char (n mod r)]"
  by (simp add: numeral_text_def digits_step)

lemma text_length: "length (numeral_text r n) = length (digits r n)"
  by (simp add: numeral_text_def)

lemma text_nonempty: "numeral_text r n \<noteq> []"
  by (subst numeral_text_def, subst digits.simps) simp

lemma text_two: "100 \<le> n \<Longrightarrow>
    numeral_text 10 n = numeral_text 10 (n div 100) @ [digit_char (n mod 100 div 10), digit_char (n mod 100 mod 10)]"
proof -
  assume n: "100 \<le> n"
  then have "10 \<le> n" "10 \<le> n div 10" by simp_all
  then have "numeral_text 10 n = numeral_text 10 (n div 10 div 10) @ [digit_char (n div 10 mod 10), digit_char (n mod 10)]"
    by (simp add: text_step[of 10 n] text_step[of 10 "n div 10"])
  moreover have "n div 10 div 10 = n div 100" "n div 10 mod 10 = n mod 100 div 10" "n mod 10 = n mod 100 mod 10"
    by (simp_all add: div_mult2_eq[symmetric] mod_mult2_eq[of n 10 10, simplified] mod_mod_cancel)
  ultimately show ?thesis by simp
qed

lemma text_four: "10000 \<le> n \<Longrightarrow>
    numeral_text 10 n = numeral_text 10 (n div 10000)
      @ [digit_char (n mod 10000 div 100 div 10), digit_char (n mod 10000 div 100 mod 10),
         digit_char (n mod 10000 mod 100 div 10), digit_char (n mod 10000 mod 100 mod 10)]"
proof -
  assume n: "10000 \<le> n"
  then have "100 \<le> n" "100 \<le> n div 100" by simp_all
  moreover have "n div 100 div 100 = n div 10000" "n div 100 mod 100 = n mod 10000 div 100" "n mod 100 = n mod 10000 mod 100"
    by (simp_all add: div_mult2_eq[symmetric] mod_mult2_eq[of n 100 100, simplified] mod_mod_cancel)
  ultimately show ?thesis
    by (simp add: text_two[of n] text_two[of "n div 100"])
qed

lemma digits_count: "2 \<le> r \<Longrightarrow> r ^ k \<le> n \<Longrightarrow> n < r ^ Suc k \<Longrightarrow> length (digits r n) = Suc k"
proof (induction k arbitrary: n)
  case 0
  then show ?case by (simp add: digits_less)
next
  case (Suc k)
  have "r \<le> r ^ Suc k" using Suc.prems(1) by (simp add: self_le_power)
  then have "r \<le> n" using Suc.prems(2) by linarith
  moreover have "r ^ k \<le> n div r" "n div r < r ^ Suc k"
    using Suc.prems by (simp_all add: less_eq_div_iff_mult_less_eq div_less_iff_less_mult mult.commute)
  ultimately show ?case using Suc.IH[of "n div r"] Suc.prems(1) by (simp add: digits_step)
qed

lemma digits_bound: "2 \<le> r \<Longrightarrow> n < 2 ^ Suc k \<Longrightarrow> length (digits r n) \<le> Suc k"
proof (induction k arbitrary: n)
  case 0
  then show ?case by (simp add: digits_less)
next
  case (Suc k)
  show ?case
  proof (cases "n < r")
    case True
    then show ?thesis by (simp add: digits_less)
  next
    case False
    have "n div r \<le> n div 2" using Suc.prems(1) by (intro div_le_mono2) auto
    then have "n div r < 2 ^ Suc k" using Suc.prems(2) by simp
    with Suc.IH[of "n div r"] Suc.prems(1) False show ?thesis by (simp add: digits_step)
  qed
qed

section \<open>The number of digits\<close>

lemma decimal_digits: "10 ^ k \<le> n \<Longrightarrow> n < 10 ^ Suc k \<Longrightarrow> length (digits 10 n) = Suc k"
  by (rule digits_count) simp_all

lemma decimalCount32_digits: "n < 2 ^ 32 \<Longrightarrow> decimalCount32 n = length (digits 10 n)"
proof -
  assume "n < 2 ^ 32"
  then have n: "n < 10000000000" by simp
  consider "n < 10"
    | "10 \<le> n" "n < 100"
    | "100 \<le> n" "n < 1000"
    | "1000 \<le> n" "n < 10000"
    | "10000 \<le> n" "n < 100000"
    | "100000 \<le> n" "n < 1000000"
    | "1000000 \<le> n" "n < 10000000"
    | "10000000 \<le> n" "n < 100000000"
    | "100000000 \<le> n" "n < 1000000000"
    | "1000000000 \<le> n" "n < 10000000000"
    using n by linarith
  then show ?thesis
  proof cases
    case 1
    then show ?thesis by (simp add: decimalCount32_def digits_less)
  next
    case 2
    then show ?thesis using decimal_digits[of 1 n] by (simp add: decimalCount32_def)
  next
    case 3
    then show ?thesis using decimal_digits[of 2 n] by (simp add: decimalCount32_def)
  next
    case 4
    then show ?thesis using decimal_digits[of 3 n] by (simp add: decimalCount32_def)
  next
    case 5
    then show ?thesis using decimal_digits[of 4 n] by (simp add: decimalCount32_def)
  next
    case 6
    then show ?thesis using decimal_digits[of 5 n] by (simp add: decimalCount32_def)
  next
    case 7
    then show ?thesis using decimal_digits[of 6 n] by (simp add: decimalCount32_def)
  next
    case 8
    then show ?thesis using decimal_digits[of 7 n] by (simp add: decimalCount32_def)
  next
    case 9
    then show ?thesis using decimal_digits[of 8 n] by (simp add: decimalCount32_def)
  next
    case 10
    then show ?thesis using decimal_digits[of 9 n] by (simp add: decimalCount32_def)
  qed
qed

lemma decimalCount64High_digits: "4294967295 < n \<Longrightarrow> n < 2 ^ 64 \<Longrightarrow> decimalCount64High n = length (digits 10 n)"
proof -
  assume "4294967295 < n" "n < 2 ^ 64"
  then have n: "4294967295 < n" "n < 100000000000000000000" by simp_all
  consider "4294967295 < n" "n < 10000000000"
    | "10000000000 \<le> n" "n < 100000000000"
    | "100000000000 \<le> n" "n < 1000000000000"
    | "1000000000000 \<le> n" "n < 10000000000000"
    | "10000000000000 \<le> n" "n < 100000000000000"
    | "100000000000000 \<le> n" "n < 1000000000000000"
    | "1000000000000000 \<le> n" "n < 10000000000000000"
    | "10000000000000000 \<le> n" "n < 100000000000000000"
    | "100000000000000000 \<le> n" "n < 1000000000000000000"
    | "1000000000000000000 \<le> n" "n < 10000000000000000000"
    | "10000000000000000000 \<le> n" "n < 100000000000000000000"
    using n by linarith
  then show ?thesis
  proof cases
    case 1
    then show ?thesis using decimal_digits[of 9 n] by (simp add: decimalCount64High_def)
  next
    case 2
    then show ?thesis using decimal_digits[of 10 n] by (simp add: decimalCount64High_def)
  next
    case 3
    then show ?thesis using decimal_digits[of 11 n] by (simp add: decimalCount64High_def)
  next
    case 4
    then show ?thesis using decimal_digits[of 12 n] by (simp add: decimalCount64High_def)
  next
    case 5
    then show ?thesis using decimal_digits[of 13 n] by (simp add: decimalCount64High_def)
  next
    case 6
    then show ?thesis using decimal_digits[of 14 n] by (simp add: decimalCount64High_def)
  next
    case 7
    then show ?thesis using decimal_digits[of 15 n] by (simp add: decimalCount64High_def)
  next
    case 8
    then show ?thesis using decimal_digits[of 16 n] by (simp add: decimalCount64High_def)
  next
    case 9
    then show ?thesis using decimal_digits[of 17 n] by (simp add: decimalCount64High_def)
  next
    case 10
    then show ?thesis using decimal_digits[of 18 n] by (simp add: decimalCount64High_def)
  next
    case 11
    then show ?thesis using decimal_digits[of 19 n] by (simp add: decimalCount64High_def)
  qed
qed

lemma binary_count: "2 ^ p \<le> n \<Longrightarrow> n < 2 ^ Suc p \<Longrightarrow> 0 < s \<Longrightarrow> length (digits (2 ^ s) n) = p div s + 1"
proof -
  assume n: "2 ^ p \<le> n" "n < 2 ^ Suc p" "0 < s"
  have "(2 :: nat) ^ (s * (p div s)) \<le> 2 ^ p" by (intro power_increasing) simp_all
  then have "(2 ^ s) ^ (p div s) \<le> n" using n(1) by (metis order_trans power_mult)
  moreover have "Suc p \<le> s * Suc (p div s)"
  proof -
    have "p = s * (p div s) + p mod s" "p mod s < s" using n(3) by simp_all
    then have "p < s * (p div s) + s" by linarith
    then show ?thesis by simp
  qed
  then have "(2 :: nat) ^ Suc p \<le> 2 ^ (s * Suc (p div s))" by (intro power_increasing) simp_all
  then have "n < (2 ^ s) ^ Suc (p div s)" using n(2) by (metis order_less_le_trans power_mult)
  moreover have "(2 :: nat) ^ 1 \<le> 2 ^ s" using n(3) by (intro power_increasing) simp_all
  ultimately show ?thesis using digits_count[of "2 ^ s" "p div s" n] by simp
qed

lemma highest_bit: "0 < n \<Longrightarrow> n < 2 ^ w \<Longrightarrow> \<exists>p<w. (2 :: nat) ^ p \<le> n \<and> n < 2 ^ Suc p"
proof -
  assume n: "0 < n" "n < 2 ^ w"
  then obtain p where p: "2 ^ p \<le> n" "n < 2 ^ (p + 1)" using ex_power_ivl1[of 2 n] by auto
  then have "(2 :: nat) ^ p < 2 ^ w" using n(2) by linarith
  with p show ?thesis by (intro exI[of _ p]) simp
qed

lemma hex_count: "0 < n \<Longrightarrow> n < 2 ^ w \<Longrightarrow> (w - 1 - clz w (int n)) div 4 + 1 = length (digits 16 n)"
proof -
  assume n: "0 < n" "n < 2 ^ w"
  then obtain p where p: "p < w" "2 ^ p \<le> n" "n < 2 ^ Suc p" using highest_bit by blast
  then have "w - 1 - clz w (int n) = p" by (simp add: clz_between)
  with binary_count[OF p(2,3), of 4] show ?thesis by simp
qed

text \<open>\<open>ulog_base\<close> counts the digits; the square of the base wraps only when a single digit is left.\<close>

lemma powers_of_two: "\<forall>r\<in>set [2..36]. isPowerOf2 r \<longleftrightarrow> r \<in> {2, 4, 8, 16, 32}"
  by code_simp

lemma power_of_two: "2 \<le> r \<Longrightarrow> r \<le> 36 \<Longrightarrow> isPowerOf2 (int r) \<longleftrightarrow> r \<in> {2, 4, 8, 16, 32}"
proof -
  assume "2 \<le> r" "r \<le> 36"
  then have "int r \<in> set [2..36]" by (simp only: set_upto atLeastAtMost_iff) simp
  then have "isPowerOf2 (int r) \<longleftrightarrow> int r \<in> {2, 4, 8, 16, 32}" using powers_of_two by blast
  then show ?thesis by auto
qed

lemma wrapped_square: "\<forall>r\<in>set [2..36]. r \<notin> {2, 4, 8, 16, 32} \<longrightarrow> (\<forall>k\<in>set [0..<6].
    r ^ (2 * 2 ^ k - 1) < 2 ^ 64 \<longrightarrow> 2 ^ 64 \<le> r ^ (2 * 2 ^ k) \<longrightarrow> r \<le> take_bit 64 (r ^ 2 ^ k * r ^ 2 ^ k :: int))"
  by code_simp

lemma digits_shift: "2 \<le> r \<Longrightarrow> r ^ j \<le> n \<Longrightarrow> length (digits r n) = j + length (digits r (n div r ^ j))"
proof (induction j arbitrary: n)
  case (Suc j)
  have "r \<le> r ^ Suc j" using Suc.prems(1) by (simp add: self_le_power)
  then have "r \<le> n" using Suc.prems(2) by linarith
  moreover have "r ^ j \<le> n div r"
    using Suc.prems by (simp add: less_eq_div_iff_mult_less_eq mult.commute)
  ultimately show ?case using Suc.IH[of "n div r"] Suc.prems(1) by (simp add: digits_step div_mult2_eq)
qed simp

lemma ulog_rest_count: "2 \<le> r \<Longrightarrow> ulog_rest n r e = Some (e + (if n = 0 then 0 else length (digits r n)))"
proof (induction n arbitrary: e rule: less_induct)
  case (less n)
  show ?case
  proof (cases "n < r")
    case True
    then show ?thesis
      using less.prems by (cases "n = 0") (simp_all add: ulog_rest.simps[of n] ulog_rest.simps[of 0] digits_less)
  next
    case False
    then have "0 < n div r" "n div r < n" using less.prems by (simp_all add: div_greater_zero_iff)
    then show ?thesis
      using less.IH[of "n div r" "e + 1"] less.prems False by (simp add: ulog_rest.simps[of n] digits_step)
  qed
qed

lemma ulog_squares_spec:
  assumes "2 \<le> r" "r \<le> 36" "r \<notin> {2, 4, 8, 16, 32}" "n < 2 ^ 64"
  shows "k < 6 \<Longrightarrow> m = n div r ^ (2 ^ k - 1) \<Longrightarrow> r ^ (2 ^ k - 1) \<le> n \<Longrightarrow> r ^ 2 ^ k < 2 ^ 64 \<Longrightarrow>
    \<exists>j. r ^ j \<le> n \<and> ulog_squares m (r ^ 2 ^ k) (2 ^ k) = Some (n div r ^ j, Suc j)"
proof (induction m arbitrary: k rule: less_induct)
  case (less m)
  let ?e = "2 ^ k :: nat" and ?b = "r ^ 2 ^ k"
  have b: "0 < ?b" "r \<le> ?b" using assms(1) by (simp_all add: self_le_power)
  show ?case
  proof (cases "m < ?b")
    case True
    then have "ulog_squares m ?b ?e = Some (m, ?e)" by (simp add: ulog_squares.simps[of m])
    then show ?thesis using less.prems(2,3) by (intro exI[of _ "?e - 1"]) simp
  next
    case False
    let ?j = "2 * ?e - 1"
    have j: "?j = (?e - 1) + ?e" by simp
    have "?b \<le> n div r ^ (?e - 1)" using False less.prems(2) by simp
    then have "?b * r ^ (?e - 1) \<le> n" using assms(1) by (simp add: less_eq_div_iff_mult_less_eq)
    then have le: "r ^ ?j \<le> n" unfolding j power_add by (simp add: mult.commute)
    have m: "m div ?b = n div r ^ ?j" unfolding j power_add less.prems(2) by (simp add: div_mult2_eq)
    have step: "ulog_squares m ?b ?e = ulog_squares (n div r ^ ?j) (take_bit 64 (?b * ?b)) (2 * ?e)"
      using False b(1) m by (simp add: ulog_squares.simps[of m])
    have square: "?b * ?b = r ^ 2 ^ Suc k" by (simp add: mult_2 power_add)
    show ?thesis
    proof (cases "r ^ 2 ^ Suc k < 2 ^ 64")
      case True
      have "(2 :: nat) ^ 2 ^ Suc k \<le> r ^ 2 ^ Suc k" using assms(1) by (intro power_mono) simp_all
      then have "(2 :: nat) ^ 2 ^ Suc k < 2 ^ 64" using True by linarith
      then have "(2 :: nat) ^ Suc k < 64" by (rule power_less_imp_less_exp[rotated]) simp
      then have "(2 :: nat) ^ Suc k < 2 ^ 6" by simp
      then have k: "Suc k < 6" by (rule power_less_imp_less_exp[rotated]) simp
      have "m div ?b < m" using False b assms(1) by (intro div_less_dividend) linarith+
      with less.IH[of "m div ?b" "Suc k"] k m le True show ?thesis
        unfolding step by (simp add: square take_bit_nat_eq_self)
    next
      case wraps: False
      have "int r \<in> set [2..36]" using assms(1,2) by (simp only: set_upto atLeastAtMost_iff) simp
      moreover have "int r \<notin> {2, 4, 8, 16, 32}" using assms(3) by auto
      moreover have "k \<in> set [0..<6]" using less.prems(1) by simp
      moreover have "int (r ^ (2 * 2 ^ k - 1)) < int (2 ^ 64)" using le assms(4) by (simp only: of_nat_less_iff)
      then have "int r ^ (2 * 2 ^ k - 1) < 2 ^ 64" by (simp only: of_nat_power of_nat_numeral)
      moreover have "int (2 ^ 64) \<le> int (r ^ (2 * 2 ^ k))" using wraps by (simp only: of_nat_le_iff not_less power_Suc)
      then have "2 ^ 64 \<le> int r ^ (2 * 2 ^ k)" by (simp only: of_nat_power of_nat_numeral)
      ultimately have "int r \<le> take_bit 64 (int r ^ 2 ^ k * int r ^ 2 ^ k)" using wrapped_square by blast
      also have "\<dots> = int (take_bit 64 (?b * ?b))" by (simp add: of_nat_take_bit)
      finally have "r \<le> take_bit 64 (?b * ?b)" by simp
      moreover have "r ^ ?j * r = r ^ 2 ^ Suc k" by (simp flip: power_Suc2)
      then have "n < r ^ ?j * r" using wraps assms(4) by linarith
      then have "n div r ^ ?j < r" by (simp add: less_mult_imp_div_less mult.commute)
      ultimately have "n div r ^ ?j < take_bit 64 (?b * ?b)" by linarith
      then have "ulog_squares m ?b ?e = Some (n div r ^ ?j, 2 * ?e)"
        unfolding step by (subst ulog_squares.simps) simp
      with le show ?thesis by (intro exI[of _ ?j]) simp
    qed
  qed
qed

lemma ulog_base_digits:
  assumes "2 \<le> r" "r \<le> 36" "0 < n" "n < 2 ^ 64"
  shows "ulog_base n r = Some (length (digits r n))"
proof (cases "isPowerOf2 (int r)")
  case True
  obtain p where p: "p < 64" "2 ^ p \<le> n" "n < 2 ^ Suc p" using highest_bit[OF assms(3,4)] by blast
  have "r \<in> {2 ^ 1, 2 ^ 2, 2 ^ 3, 2 ^ 4, 2 ^ 5}" using True power_of_two[OF assms(1,2)] by simp
  then obtain s where "r = 2 ^ s" "s \<in> {1, 2, 3, 4, 5}" by blast
  then have s: "r = 2 ^ s" "0 < s" "s < 6" by auto
  have "clz 64 (int n) = 63 - p" using clz_between[OF p(2,3,1)] by simp
  moreover have "clz 32 (int r) = 31 - s" using clz_between[of s r 32] s by simp
  ultimately show ?thesis
    using True p(1) s binary_count[OF p(2,3) s(2)] by (simp add: ulog_base_def)
next
  case False
  then have "r \<notin> {2, 4, 8, 16, 32}" using power_of_two[OF assms(1,2)] by blast
  from ulog_squares_spec[OF assms(1,2) this assms(4), of 0 n] assms(2,3)
  obtain j where j: "r ^ j \<le> n" "ulog_squares n r 1 = Some (n div r ^ j, Suc j)" by auto
  have "0 < n div r ^ j" using j(1) assms(1) by (simp add: div_greater_zero_iff)
  then show ?thesis
    using False j ulog_rest_count[OF assms(1), of "n div r ^ j" "Suc j"] digits_shift[OF assms(1) j(1)] by (simp add: ulog_base_def)
qed

section \<open>The tables\<close>

lemma DIGITS_table: "\<forall>d\<in>set [0..99]. take_bit 16 (DIGITS ! nat d) = 0x30 + d div 10 \<and>
    take_bit 16 (drop_bit 16 (DIGITS ! nat d)) = 0x30 + d mod 10 \<and> 0 \<le> DIGITS ! nat d \<and> DIGITS ! nat d < 2 ^ 32"
  by code_simp

lemma DIGITS_load:
  assumes "d < 100"
  obtains v where "load_at DIGITS (int d) = Some v" "take_bit 16 v = digit_char (d div 10)"
    "take_bit 16 (drop_bit 16 v) = digit_char (d mod 10)" "0 \<le> v" "v < 2 ^ 32"
proof -
  have "int d \<in> set [0..99]" using assms by (simp only: set_upto atLeastAtMost_iff) simp
  moreover have "load_at DIGITS (int d) = Some (DIGITS ! d)" using assms by (intro load_nth) (simp add: DIGITS_def)
  moreover have "d div 10 < 10" using assms by simp
  ultimately show ?thesis
    using that[of "DIGITS ! d"] bspec[OF DIGITS_table, of "int d"] by (simp add: digit_char_def of_nat_div of_nat_mod)
qed

lemma pair_nth:
  "i < length xs \<Longrightarrow> concat (map (\<lambda>x. [f x, g x]) xs) ! (2 * i) = f (xs ! i)"
  "i < length xs \<Longrightarrow> concat (map (\<lambda>x. [f x, g x]) xs) ! Suc (2 * i) = g (xs ! i)"
proof (induction xs arbitrary: i)
  case (Cons x xs)
  { case 1 then show ?case using Cons.IH(1)[of "i - 1"] by (cases i) simp_all }
  { case 2 then show ?case using Cons.IH(2)[of "i - 1"] by (cases i) simp_all }
qed simp_all

lemma HEX_DIGITS_pairs: "HEX_DIGITS =
    concat (map (\<lambda>d. [if d div 16 < 10 then 0x30 + d div 16 else 0x57 + d div 16,
                      if d mod 16 < 10 then 0x30 + d mod 16 else 0x57 + d mod 16]) [0..255])"
  by code_simp

lemma HEX_DIGITS_length: "length HEX_DIGITS = 512"
  by (simp add: HEX_DIGITS_def unit_codes_def)

lemma HEX_DIGITS_nth:
  assumes "d < 256"
  shows "HEX_DIGITS ! (2 * d) = digit_char (d div 16)" "HEX_DIGITS ! Suc (2 * d) = digit_char (d mod 16)"
proof -
  have d: "d < length [0..255]" "[0..255] ! d = int d" using assms by simp_all
  have parts: "int d div 16 = int (d div 16)" "int d mod 16 = int (d mod 16)" by (simp_all add: zdiv_int zmod_int)
  show "HEX_DIGITS ! (2 * d) = digit_char (d div 16)" "HEX_DIGITS ! Suc (2 * d) = digit_char (d mod 16)"
    unfolding HEX_DIGITS_pairs pair_nth[OF d(1)] d(2) parts by (simp_all only: digit_char_def of_nat_less_numeral_iff)
qed

lemma ANY_DIGITS_table: "\<forall>d\<in>set [0..35]. ANY_DIGITS ! nat d = (if d < 10 then 0x30 + d else 0x57 + d)"
  by code_simp

lemma ANY_DIGITS_load: "d < 36 \<Longrightarrow> load_at ANY_DIGITS (int d) = Some (digit_char d)"
proof -
  assume d: "d < 36"
  then have "int d \<in> set [0..35]" by (simp only: set_upto atLeastAtMost_iff) simp
  with d show ?thesis using bspec[OF ANY_DIGITS_table, of "int d"]
    by (auto simp: load_at_def ANY_DIGITS_def unit_codes_def digit_char_def)
qed

end
