(* ===== verification/As_Writers.thy ===== *)
theory As_Writers
  imports As_Digits
begin

unbundle bit_operations_syntax

text \<open>
  Every core of the conversions writes the digits of its number backwards, into the units in front of its offset. The
  interface \<open>number_writer\<close> states this for all of them, and the new string is described once inside it.
\<close>

section \<open>Writing digits backwards\<close>

text \<open>A digit, two digits and four digits in front of what is written already.\<close>

lemma split_last:
  assumes "length G = k + m"
  obtains G' L where "G = G' @ L" "length G' = k" "length L = m"
  using assms that[of "take k G" "drop k G"] by simp

lemma store_last:
  assumes "i = int (length F) + int (length G)"
  shows "store_at (F @ G @ g # B) i v = Some (F @ G @ v # B)"
  using store_mid[of i "F @ G" g B v] assms by simp

lemma store_u32_last:
  assumes "i = int (length F) + int (length G)" "take_bit 16 v = x" "take_bit 16 (drop_bit 16 v) = y"
  shows "store_u32 (F @ G @ g # h # B) i v = Some (F @ G @ Some x # Some y # B)"
  using assms store_last[of i F G g "h # B"] store_last[of "i + 1" F "G @ [Some x]" h B]
  by (simp add: store_u32_def)

lemma pair_bits: "0 \<le> a \<Longrightarrow> a < 2 ^ n \<Longrightarrow> take_bit n (a OR push_bit n b) = a \<and> drop_bit n (a OR push_bit n b) = (b :: int)"
  using or_push[of a n "push_bit n b" b] by (simp add: push_bit_eq_mult take_bit_eq_mod drop_bit_eq_div)

lemma store_u64_last:
  assumes "i = int (length F) + int (length G)" "0 \<le> v" "v < 2 ^ 32"
    "take_bit 16 v = x" "take_bit 16 (drop_bit 16 v) = y" "take_bit 16 w = z" "take_bit 16 (drop_bit 16 w) = t"
  shows "store_u64 (F @ G @ g1 # g2 # g3 # g4 # B) i (v OR push_bit 32 w)
    = Some (F @ G @ Some x # Some y # Some z # Some t # B)"
proof -
  note parts = pair_bits[OF assms(2,3), of w]
  have "store_u32 (F @ G @ g1 # g2 # g3 # g4 # B) i v = Some (F @ G @ Some x # Some y # g3 # g4 # B)"
    by (rule store_u32_last[OF assms(1,4,5)])
  moreover have "store_u32 (F @ (G @ [Some x, Some y]) @ g3 # g4 # B) (i + 2) w
      = Some (F @ (G @ [Some x, Some y]) @ Some z # Some t # B)"
    by (rule store_u32_last) (use assms in simp_all)
  ultimately show ?thesis using parts by (simp add: store_u64_def)
qed


section \<open>The writers\<close>

text \<open>A core writes the digits of its number into the units in front of its offset.\<close>

definition writes :: "nat \<Rightarrow> nat \<Rightarrow> (buffer \<Rightarrow> int \<Rightarrow> nat \<Rightarrow> int \<Rightarrow> buffer option) \<Rightarrow> bool" where
  "writes r n core \<longleftrightarrow> (\<forall>F G B. length G = length (digits r n) \<longrightarrow>
     core (F @ G @ B) (int (length F)) n (int (length G)) = Some (F @ map Some (numeral_text r n) @ B))"

lemma writesI:
  "(\<And>F G B. length G = length (digits r n) \<Longrightarrow>
     core (F @ G @ B) (int (length F)) n (int (length G)) = Some (F @ map Some (numeral_text r n) @ B)) \<Longrightarrow> writes r n core"
  by (simp add: writes_def)

lemma writesD:
  "writes r n core \<Longrightarrow> length G = length (digits r n) \<Longrightarrow> base = int (length F) \<Longrightarrow> offset = int (length G) \<Longrightarrow>
   core (F @ G @ B) base n offset = Some (F @ map Some (numeral_text r n) @ B)"
  by (simp add: writes_def)

text \<open>A loop that writes one digit in each round.\<close>

lemma writes_one:
  assumes r: "2 \<le> r"
    and step: "\<And>dst base n offset. core dst base n offset = do {
      dst \<leftarrow> store_at dst (base + (offset - 1)) (Some (digit_char (n mod r)));
      if n div r \<noteq> 0 then core dst base (n div r) (offset - 1) else Some dst }"
  shows "writes r n core"
proof (induction n rule: less_induct)
  case (less n)
  show ?case
  proof (rule writesI)
    fix F B :: buffer and G :: buffer
    assume G: "length G = length (digits r n)"
    show "core (F @ G @ B) (int (length F)) n (int (length G)) = Some (F @ map Some (numeral_text r n) @ B)"
    proof (cases "n < r")
      case True
      then obtain g where "G = [g]" using G by (cases G) (auto simp: digits_less)
      then show ?thesis using True store_last[of "int (length F)" F "[]" g B "Some (digit_char n)"]
        by (subst step) (simp add: text_less)
    next
      case False
      then have n: "r \<le> n" "n div r < n" "n div r \<noteq> 0" using r by (simp_all add: div_eq_0_iff)
      then have "length G = length (digits r (n div r)) + 1" using G r by (simp add: digits_step)
      then obtain G' L where L: "G = G' @ L" "length G' = length (digits r (n div r))" "length L = 1"
        by (rule split_last)
      then obtain g where G': "G = G' @ [g]" "length G' = length (digits r (n div r))" by (cases L) auto
      let ?c = "digit_char (n mod r)"
      have "core (F @ G @ B) (int (length F)) n (int (length G)) = core (F @ G' @ Some ?c # B) (int (length F)) (n div r) (int (length G'))"
        using n store_last[of "int (length F) + int (length G')" F G' g B "Some ?c"] by (subst step) (simp add: G'(1))
      also have "\<dots> = Some (F @ map Some (numeral_text r (n div r)) @ Some ?c # B)"
        by (rule writesD[OF less.IH[OF n(2)] G'(2)]) simp_all
      finally show ?thesis using r n(1) by (simp add: text_step)
    qed
  qed
qed

lemma writes_dec_simple: "writes 10 n utoa_dec_simple"
proof (rule writes_one)
  fix dst base offset and n :: nat
  have "0x30 + int (n mod 10) = digit_char (n mod 10)" by (simp add: digit_char_def)
  then show "utoa_dec_simple dst base n offset = do {
      dst \<leftarrow> store_at dst (base + (offset - 1)) (Some (digit_char (n mod 10)));
      if n div 10 \<noteq> 0 then utoa_dec_simple dst base (n div 10) (offset - 1) else Some dst }"
    by (subst utoa_dec_simple.simps) (simp only: Let_def)
qed simp

lemma nat_low: "n AND 15 = n mod (16 :: nat)" "n AND 255 = n mod (256 :: nat)"
  using take_bit_eq_mask[of 4 n] take_bit_eq_mask[of 8 n] by (simp_all add: mask_eq_exp_minus_1 take_bit_eq_mod)

lemma hex_simple_digits: "\<forall>d\<in>set [0..15]. (let e = (d OR 0x30 :: int) in e + (if e > 0x39 then 0x27 else 0)) =
    (if d < 10 then 0x30 + d else 0x57 + d)"
  by code_simp

lemma writes_hex_simple: "writes 16 n utoa_hex_simple"
proof (rule writes_one)
  fix dst base offset and n :: nat
  have "int (n mod 16) \<in> set [0..15]" using pos_mod_bound[of 16 "int n"] by (simp only: set_upto atLeastAtMost_iff zmod_int) simp
  from bspec[OF hex_simple_digits this]
  have "(let d = int ((n AND 0x0F) OR 0x30) in d + (if d > 0x39 then 0x27 else 0)) = digit_char (n mod 16)"
    by (simp only: nat_low of_nat_or_eq of_nat_numeral digit_char_def of_nat_less_numeral_iff)
  then show "utoa_hex_simple dst base n offset = do {
      dst \<leftarrow> store_at dst (base + (offset - 1)) (Some (digit_char (n mod 16)));
      if n div 16 \<noteq> 0 then utoa_hex_simple dst base (n div 16) (offset - 1) else Some dst }"
    by (subst utoa_hex_simple.simps) (simp add: Let_def drop_bit_eq_div)
qed simp

lemma writes_any_divide: "2 \<le> r \<Longrightarrow> r \<le> 36 \<Longrightarrow> writes r n (\<lambda>dst base n offset. any_divide dst base n offset r)"
proof (rule writes_one)
  fix dst base offset and n :: nat
  assume r: "2 \<le> r" "r \<le> 36"
  then have "n mod r < 36" using mod_less_divisor[of r n] by linarith
  moreover have "n - n div r * r = n mod r" by (simp add: minus_div_mult_eq_mod)
  ultimately show "any_divide dst base n offset r = do {
      dst \<leftarrow> store_at dst (base + (offset - 1)) (Some (digit_char (n mod r)));
      if n div r \<noteq> 0 then any_divide dst base (n div r) (offset - 1) r else Some dst }"
    using r by (subst any_divide.simps) (simp add: ANY_DIGITS_load)
qed simp

lemma writes_any_shift: "0 < s \<Longrightarrow> s \<le> 5 \<Longrightarrow> writes (2 ^ s) n (\<lambda>dst base n offset. any_shift dst base n offset s (2 ^ s - 1))"
proof (rule writes_one)
  fix dst base offset and n :: nat
  assume s: "0 < s" "s \<le> 5"
  show "2 \<le> (2 :: nat) ^ s" using s by (cases s) simp_all
  have "n mod 2 ^ s < 2 ^ s" by simp
  also have "(2 :: nat) ^ s \<le> 2 ^ 5" using s by (intro power_increasing) simp_all
  finally have "n mod 2 ^ s < 36" by simp
  moreover have "n AND (2 ^ s - 1) = n mod 2 ^ s"
    using take_bit_eq_mask[of s n] by (simp add: mask_eq_exp_minus_1 take_bit_eq_mod)
  ultimately show "any_shift dst base n offset s (2 ^ s - 1) = do {
      dst \<leftarrow> store_at dst (base + (offset - 1)) (Some (digit_char (n mod 2 ^ s)));
      if n div 2 ^ s \<noteq> 0 then any_shift dst base (n div 2 ^ s) (offset - 1) s (2 ^ s - 1) else Some dst }"
    unfolding drop_bit_eq_div[symmetric] by (subst any_shift.simps) (simp add: ANY_DIGITS_load)
qed

lemma any_core_cases: "\<forall>r\<in>set [2..36]. (r AND (r - 1) = 0) = (r \<in> {2, 4, 8, 16, 32})"
    "\<forall>s\<in>set [1..5]. ctz 32 (2 ^ nat s) mod 8 = nat s"
  by code_simp+

lemma writes_any_core: "2 \<le> r \<Longrightarrow> r \<le> 36 \<Longrightarrow> writes r n (\<lambda>dst base n offset. utoa64_any_core dst base n offset r)"
proof -
  assume r: "2 \<le> r" "r \<le> 36"
  then have "int r \<in> set [2..36]" by (simp only: set_upto atLeastAtMost_iff) simp
  moreover have "int (r AND (r - 1)) = int r AND (int r - 1)" using r(1) by (simp add: of_nat_and_eq of_nat_diff)
  ultimately have power: "r AND (r - 1) = 0 \<longleftrightarrow> int r \<in> {2, 4, 8, 16, 32}"
    using any_core_cases(1) by (metis of_nat_eq_0_iff)
  show ?thesis
  proof (cases "r AND (r - 1) = 0")
    case True
    with power have "r \<in> {2 ^ 1, 2 ^ 2, 2 ^ 3, 2 ^ 4, 2 ^ 5}" by auto
    then obtain s where s: "r = 2 ^ s" "s \<in> {1, 2, 3, 4, 5}" by blast
    then have "int s \<in> set [1..5]" by auto
    from bspec[OF any_core_cases(2) this] have "ctz 32 (int r) mod 8 = s" by (simp add: s(1))
    then have "(\<lambda>dst base n offset. utoa64_any_core dst base n offset r) = (\<lambda>dst base n offset. any_shift dst base n offset s (2 ^ s - 1))"
      using True by (simp add: utoa64_any_core_def fun_eq_iff s(1))
    with writes_any_shift[of s n] s show ?thesis by auto
  next
    case False
    then show ?thesis using writes_any_divide[OF r, of n] by (simp add: utoa64_any_core_def)
  qed
qed

text \<open>The loops that take two, four or eight digits at a time from the tables.\<close>

lemma writes_chunk:
  assumes split: "numeral_text r n = numeral_text r m @ xs" and m: "writes r m core'"
    and step: "\<And>F G L B. length L = length xs \<Longrightarrow>
      core (F @ G @ L @ B) (int (length F)) n (int (length G) + int (length xs))
      = core' (F @ G @ map Some xs @ B) (int (length F)) m (int (length G))"
  shows "writes r n core"
proof (rule writesI)
  fix F G B :: buffer
  assume "length G = length (digits r n)"
  then have "length G = length (digits r m) + length xs" using arg_cong[OF split, of length] by (simp add: text_length)
  then obtain G' L where G: "G = G' @ L" "length G' = length (digits r m)" "length L = length xs" by (rule split_last)
  have "core (F @ G @ B) (int (length F)) n (int (length G)) = core' (F @ G' @ map Some xs @ B) (int (length F)) m (int (length G'))"
    using step[OF G(3), of F G' B] by (simp add: G(1,3))
  also have "\<dots> = Some (F @ map Some (numeral_text r m) @ map Some xs @ B)" by (rule writesD[OF m G(2)]) simp_all
  finally show "core (F @ G @ B) (int (length F)) n (int (length G)) = Some (F @ map Some (numeral_text r n) @ B)"
    by (simp add: split)
qed

definition two_digits :: "nat \<Rightarrow> int list" where
  "two_digits d = [digit_char (d div 10), digit_char (d mod 10)]"

definition four_digits :: "nat \<Rightarrow> int list" where
  "four_digits d = two_digits (d div 100) @ two_digits (d mod 100)"

lemma store_two:
  assumes "d < 100" "length L = 2" "i = int (length F) + int (length G)"
  shows "do { digits \<leftarrow> load_at DIGITS (int d); store_u32 (F @ G @ L @ B) i digits } = Some (F @ G @ map Some (two_digits d) @ B)"
proof -
  obtain v where v: "load_at DIGITS (int d) = Some v" "take_bit 16 v = digit_char (d div 10)"
    "take_bit 16 (drop_bit 16 v) = digit_char (d mod 10)" using DIGITS_load[OF assms(1)] by blast
  obtain g h where "L = [g, h]" using assms(2) by (metis (no_types) One_nat_def Suc_1 length_0_conv length_Suc_conv)
  then show ?thesis using v store_u32_last[OF assms(3) v(2,3)] by (simp add: two_digits_def)
qed

lemma store_four:
  assumes "d < 10000" "length L = 4" "i = int (length F) + int (length G)"
  shows "do { digits1 \<leftarrow> load_at DIGITS (int (d div 100)); digits2 \<leftarrow> load_at DIGITS (int (d mod 100));
      store_u64 (F @ G @ L @ B) i (digits1 OR push_bit 32 digits2) } = Some (F @ G @ map Some (four_digits d) @ B)"
proof -
  have "d div 100 < 100" "d mod 100 < 100" using assms(1) by simp_all
  then obtain v w where v: "load_at DIGITS (int (d div 100)) = Some v" "take_bit 16 v = digit_char (d div 100 div 10)"
      "take_bit 16 (drop_bit 16 v) = digit_char (d div 100 mod 10)" "0 \<le> v" "v < 2 ^ 32"
    and w: "load_at DIGITS (int (d mod 100)) = Some w" "take_bit 16 w = digit_char (d mod 100 div 10)"
      "take_bit 16 (drop_bit 16 w) = digit_char (d mod 100 mod 10)"
    using DIGITS_load by metis
  obtain g1 g2 g3 g4 where "L = [g1, g2, g3, g4]"
    using assms(2) by (auto simp: numeral_eq_Suc length_Suc_conv)
  then show ?thesis using v(1) w(1) store_u64_last[OF assms(3) v(4,5) v(2,3) w(2,3)]
    by (simp add: four_digits_def two_digits_def)
qed

lemma text_two_digits: "100 \<le> n \<Longrightarrow> numeral_text 10 n = numeral_text 10 (n div 100) @ two_digits (n mod 100)"
  by (simp add: text_two two_digits_def)

lemma text_four_digits: "10000 \<le> n \<Longrightarrow> numeral_text 10 n = numeral_text 10 (n div 10000) @ four_digits (n mod 10000)"
  by (simp add: text_four four_digits_def two_digits_def)

lemma text_eight_digits: "100000000 \<le> n \<Longrightarrow> numeral_text 10 n = numeral_text 10 (n div 100000000)
    @ four_digits ((n mod 100000000) div 10000) @ four_digits ((n mod 100000000) mod 10000)"
proof -
  assume n: "100000000 \<le> n"
  then have "10000 \<le> n" "10000 \<le> n div 10000" by simp_all
  moreover have "n div 10000 div 10000 = n div 100000000" "n div 10000 mod 10000 = n mod 100000000 div 10000"
    "n mod 10000 = n mod 100000000 mod 10000"
    by (simp_all add: div_mult2_eq[symmetric] mod_mult2_eq[of n 10000 10000, simplified] mod_mod_cancel)
  ultimately show ?thesis by (simp add: text_four_digits[of n] text_four_digits[of "n div 10000"])
qed

lemma text_small: "n < 100 \<Longrightarrow> numeral_text 10 n = (if n < 10 then [digit_char n] else two_digits n)"
  by (simp add: text_less text_step two_digits_def)

lemma writes_dec_small: "n < 100 \<Longrightarrow> writes 10 n utoa32_dec_tail"
proof (rule writesI)
  fix F G B :: buffer
  assume n: "n < 100" and "length G = length (digits 10 n)"
  then have G: "length G = length (numeral_text 10 n)" by (simp add: text_length)
  show "utoa32_dec_tail (F @ G @ B) (int (length F)) n (int (length G)) = Some (F @ map Some (numeral_text 10 n) @ B)"
  proof (cases "n < 10")
    case True
    then obtain g where "G = [g]" using G by (cases G) (auto simp: text_less)
    then show ?thesis using True store_last[of "int (length F)" F "[]" g B "Some (digit_char n)"]
      by (simp add: utoa32_dec_tail_def text_less digit_char_def)
  next
    case False
    then have "length G = 2" using G n by (simp add: text_small two_digits_def)
    then show ?thesis using False n store_two[of n G "int (length F)" F "[]" B]
      by (simp add: utoa32_dec_tail_def text_small)
  qed
qed

lemma writes_dec_tail: "n < 10000 \<Longrightarrow> writes 10 n utoa32_dec_tail"
proof (cases "n < 100")
  case False
  assume n: "n < 10000"
  have small: "writes 10 (n div 100) utoa32_dec_tail" using n by (intro writes_dec_small) simp
  show ?thesis
  proof (rule writes_chunk[OF text_two_digits small])
    show "100 \<le> n" using False by simp
    fix F G L B :: buffer
    assume "length L = length (two_digits (n mod 100))"
    then have "length L = 2" by (simp add: two_digits_def)
    from store_two[OF _ this, of "n mod 100" "int (length F) + int (length G)" F G B]
    show "utoa32_dec_tail (F @ G @ L @ B) (int (length F)) n (int (length G) + int (length (two_digits (n mod 100))))
        = utoa32_dec_tail (F @ G @ map Some (two_digits (n mod 100)) @ B) (int (length F)) (n div 100) (int (length G))"
      using False n by (cases "load_at DIGITS (int (n mod 100))") (simp_all add: utoa32_dec_tail_def two_digits_def)
  qed
qed (rule writes_dec_small)

lemma writes_dec_lut: "writes 10 n utoa32_dec_lut"
proof (induction n rule: less_induct)
  case (less n)
  show ?case
  proof (cases "n < 10000")
    case True
    then show ?thesis using writes_dec_tail[OF True] by (simp add: writes_def utoa32_dec_lut.simps[of _ _ n])
  next
    case False
    then have n: "n div 10000 < n" by simp
    show ?thesis
    proof (rule writes_chunk[OF text_four_digits less.IH[OF n]])
      show "10000 \<le> n" using False by simp
      fix F G L B :: buffer
      assume "length L = length (four_digits (n mod 10000))"
      then have "length L = 4" by (simp add: four_digits_def two_digits_def)
      from store_four[OF _ this, of "n mod 10000" "int (length F) + int (length G)" F G B]
      show "utoa32_dec_lut (F @ G @ L @ B) (int (length F)) n (int (length G) + int (length (four_digits (n mod 10000))))
          = utoa32_dec_lut (F @ G @ map Some (four_digits (n mod 10000)) @ B) (int (length F)) (n div 10000) (int (length G))"
        using False
        by (subst utoa32_dec_lut.simps) (auto simp: four_digits_def two_digits_def Let_def bind_eq_Some_conv)
    qed
  qed
qed

lemma writes_dec64_lut: "writes 10 n utoa64_dec_lut"
proof (induction n rule: less_induct)
  case (less n)
  let ?r = "n mod 100000000"
  show ?case
  proof (cases "n < 100000000")
    case True
    then show ?thesis using writes_dec_lut[of n] by (simp add: writes_def utoa64_dec_lut.simps[of _ _ n])
  next
    case False
    then have n: "n div 100000000 < n" by simp
    have r: "n - n div 100000000 * 100000000 = ?r" by (simp add: minus_div_mult_eq_mod)
    show ?thesis
    proof (rule writes_chunk[OF text_eight_digits less.IH[OF n]])
      show "100000000 \<le> n" using False by simp
      fix F G L B :: buffer
      let ?b = "four_digits (?r div 10000)" and ?c = "four_digits (?r mod 10000)"
      assume "length L = length (?b @ ?c)"
      then have "length L = 4 + 4" by (simp add: four_digits_def two_digits_def)
      then obtain l1 l2 where l: "L = l1 @ l2" "length l1 = 4" "length l2 = 4" by (rule split_last)
      have b: "?r div 10000 < 10000" by (simp add: div_less_iff_less_mult)
      have c: "?r mod 10000 < 10000" by simp
      note c4 = store_four[OF c l(3), of "int (length F) + (4 + int (length G))" F "G @ l1" B]
      note b4 = store_four[OF b l(2), of "int (length F) + int (length G)" F G "map Some ?c @ B"]
      show "utoa64_dec_lut (F @ G @ L @ B) (int (length F)) n (int (length G) + int (length (?b @ ?c)))
          = utoa64_dec_lut (F @ G @ map Some (?b @ ?c) @ B) (int (length F)) (n div 100000000) (int (length G))"
        using False c4 b4 l
        by (subst utoa64_dec_lut.simps) (auto simp: r four_digits_def two_digits_def Let_def bind_eq_Some_conv)
    qed
  qed
qed

lemma digit_char_bounds: "d < 36 \<Longrightarrow> 0 \<le> digit_char d \<and> digit_char d < 2 ^ 16"
  by (simp add: digit_char_def)

lemma text_hex_two: "256 \<le> n \<Longrightarrow>
    numeral_text 16 n = numeral_text 16 (n div 256) @ [digit_char (n mod 256 div 16), digit_char (n mod 256 mod 16)]"
proof -
  assume n: "256 \<le> n"
  then have "16 \<le> n" "16 \<le> n div 16" by simp_all
  then have "numeral_text 16 n = numeral_text 16 (n div 16 div 16) @ [digit_char (n div 16 mod 16), digit_char (n mod 16)]"
    by (simp add: text_step[of 16 n] text_step[of 16 "n div 16"])
  moreover have "n div 16 div 16 = n div 256" "n div 16 mod 16 = n mod 256 div 16" "n mod 16 = n mod 256 mod 16"
    by (simp_all add: div_mult2_eq[symmetric] mod_mult2_eq[of n 16 16, simplified] mod_mod_cancel)
  ultimately show ?thesis by simp
qed

lemma HEX_DIGITS_load: "d < 256 \<Longrightarrow> load_at HEX_DIGITS (2 * int d) = Some (digit_char (d div 16))"
    "d < 256 \<Longrightarrow> load_at HEX_DIGITS (2 * int d + 1) = Some (digit_char (d mod 16))"
proof -
  assume d: "d < 256"
  have i: "2 * int d = int (2 * d)" and j: "2 * int d + 1 = int (Suc (2 * d))" by simp_all
  show "load_at HEX_DIGITS (2 * int d) = Some (digit_char (d div 16))"
    unfolding i using d by (subst load_nth) (simp_all add: HEX_DIGITS_length HEX_DIGITS_nth)
  show "load_at HEX_DIGITS (2 * int d + 1) = Some (digit_char (d mod 16))"
    unfolding j using d by (subst load_nth) (simp_all add: HEX_DIGITS_length HEX_DIGITS_nth)
qed

lemma store_hex_two:
  assumes "length L = 2" "i = int (length F) + int (length G)"
  shows "do { digits \<leftarrow> load_u32 HEX_DIGITS (2 * int (n AND 255)); store_u32 (F @ G @ L @ B) i digits }
    = Some (F @ G @ map Some [digit_char (n mod 256 div 16), digit_char (n mod 256 mod 16)] @ B)"
proof -
  let ?lo = "digit_char (n mod 256 div 16)" and ?hi = "digit_char (n mod 256 mod 16)"
  have "n mod 256 div 16 < 36" "n mod 256 mod 16 < 36"
    using div_less_iff_less_mult[of 16 "n mod 256" 16] pos_mod_bound[of 16 "n mod 256"] by simp_all
  note bounds = this[THEN digit_char_bounds]
  have "take_bit 16 (?lo OR push_bit 16 ?hi) = ?lo" "take_bit 16 (drop_bit 16 (?lo OR push_bit 16 ?hi)) = ?hi"
    using pair_bits[of ?lo 16 ?hi] bounds by (simp_all add: take_bit_int_eq_self)
  moreover obtain g h where "L = [g, h]" using assms(1) by (metis (no_types) One_nat_def Suc_1 length_0_conv length_Suc_conv)
  moreover have "load_u32 HEX_DIGITS (2 * int (n AND 255)) = Some (?lo OR push_bit 16 ?hi)"
    by (simp add: load_u32_def nat_low HEX_DIGITS_load del: of_nat_mod of_nat_and_eq)
  ultimately show ?thesis using store_u32_last[OF assms(2)] by simp
qed

lemma writes_hex_lut: "writes 16 n utoa_hex_lut"
proof (induction n rule: less_induct)
  case (less n)
  consider "n < 16" | "16 \<le> n" "n < 256" | "256 \<le> n" by linarith
  then show ?case
  proof cases
    case 1
    show ?thesis
    proof (rule writesI)
      fix F G B :: buffer
      assume "length G = length (digits 16 n)"
      then obtain g where "G = [g]" using 1 by (cases G) (auto simp: digits_less)
      moreover have "load_at HEX_DIGITS (int (push_bit 5 n)) = Some (digit_char n)"
        using HEX_DIGITS_load(1)[of "16 * n"] 1 by (simp add: push_bit_eq_mult mult.commute)
      ultimately show "utoa_hex_lut (F @ G @ B) (int (length F)) n (int (length G)) = Some (F @ map Some (numeral_text 16 n) @ B)"
        using 1 store_last[of "int (length F)" F "[]" g B "Some (digit_char n)"]
        by (subst utoa_hex_lut.simps) (simp add: text_less)
    qed
  next
    case 2
    have zero: "drop_bit 8 n = 0" using 2 by (simp add: drop_bit_eq_div)
    have "numeral_text 16 n = [digit_char (n mod 256 div 16), digit_char (n mod 256 mod 16)]"
      using 2 by (simp add: text_step text_less)
    then show ?thesis
      using 2 store_hex_two[where G = "[]" and n = n]
      by (intro writesI, subst utoa_hex_lut.simps)
        (auto simp: zero text_length[symmetric] bind_eq_Some_conv utoa_hex_lut.simps[of _ _ 0])
  next
    case 3
    then have n: "n div 256 < n" by simp
    show ?thesis
    proof (rule writes_chunk[OF text_hex_two[OF 3] less.IH[OF n]])
      fix F G L B :: buffer
      let ?xs = "[digit_char (n mod 256 div 16), digit_char (n mod 256 mod 16)]"
      assume "length L = length ?xs"
      then have "length L = 2" by simp
      from store_hex_two[OF this, of "int (length F) + int (length G)" F G n B]
      show "utoa_hex_lut (F @ G @ L @ B) (int (length F)) n (int (length G) + int (length ?xs))
          = utoa_hex_lut (F @ G @ map Some ?xs @ B) (int (length F)) (n div 256) (int (length G))"
        by (subst utoa_hex_lut.simps) (auto simp: bind_eq_Some_conv Let_def drop_bit_eq_div)
    qed
  qed
qed

section \<open>The interface of the cores\<close>

locale number_writer =
  fixes core :: "buffer \<Rightarrow> int \<Rightarrow> nat \<Rightarrow> int \<Rightarrow> buffer option" and radix :: nat
  assumes core_writes: "2 \<le> radix \<Longrightarrow> radix \<le> 36 \<Longrightarrow> writes radix n core"
begin

lemma new_number_text:
  assumes "2 \<le> radix" "radix \<le> 36" "n < 2 ^ 64" "sign = 0 \<or> sign = 1" "decimals = length (digits radix n)"
  shows "new_number sign decimals (\<lambda>dst. core dst sign n (int decimals)) = Some (Inr (replicate (nat sign) MINUS @ numeral_text radix n))"
proof -
  let ?F = "replicate (nat sign) (None :: int option)" and ?G = "replicate decimals (None :: int option)"
  have "decimals \<le> 64" using digits_bound[of radix n 63] assms by simp
  then have "new_string (int decimals + sign) = Inr (?F @ ?G @ [])"
    using assms(4) by (auto simp: new_string_def OBJECT_MAXSIZE_def BLOCK_MAXSIZE_def nat_add_distrib replicate_add)
  moreover have "core (?F @ ?G @ []) sign n (int decimals) = Some (?F @ map Some (numeral_text radix n) @ [])"
    by (rule writesD[OF core_writes]) (use assms in auto)
  moreover have "written (Some MINUS # map Some s) = Some (MINUS # s)" for s
    using written_map[of "MINUS # s"] by simp
  ultimately show ?thesis
    using assms(4) by (auto simp: new_number_def written_map store_at_def)
qed

end

lemma writes_either:
  assumes "writes r n f" "writes r n g"
    "\<And>dst base n offset. core dst base n offset = (if P then f dst base n offset else g dst base n offset)"
  shows "writes r n core"
  using assms by (cases P) (simp_all add: writes_def)

interpretation dec32: number_writer "utoa32_dec_core shrink_level" 10 for shrink_level
  by unfold_locales (rule writes_either[OF writes_dec_simple writes_dec_lut utoa32_dec_core_def])

interpretation hex32: number_writer "utoa32_hex_core shrink_level" 16 for shrink_level
  by unfold_locales (rule writes_either[OF writes_hex_simple writes_hex_lut utoa32_hex_core_def])

interpretation dec64: number_writer "utoa64_dec_core shrink_level" 10 for shrink_level
  by unfold_locales (rule writes_either[OF writes_dec_simple writes_dec64_lut utoa64_dec_core_def])

interpretation hex64: number_writer "utoa64_hex_core shrink_level" 16 for shrink_level
  by unfold_locales (rule writes_either[OF writes_hex_simple writes_hex_lut utoa64_hex_core_def])

interpretation any_core: number_writer "\<lambda>dst base n offset. utoa64_any_core dst base n offset radix" radix for radix
  by unfold_locales (rule writes_any_core)

end
