(* ===== verification/As_Number_Laws.thy ===== *)
theory As_Number_Laws
  imports As_Writers
begin

unbundle bit_operations_syntax

text \<open>
  Integers to strings and back: \<open>toString\<close> of every integer class writes the numeral of its value, \<open>parseInt\<close> reads it
  back, and parsing leaves the string only when there is nothing but white space in it.
\<close>

section \<open>Integers to strings\<close>

lemma radix_cases:
  assumes "2 \<le> radix" "radix \<le> 36"
  obtains "radix = 10" | "radix = 16" | "radix \<noteq> 10" "radix \<noteq> 16" "2 \<le> nat radix" "nat radix \<le> 36"
  using assms by linarith

lemma text_zero: "2 \<le> r \<Longrightarrow> numeral_text r 0 = [0x30]"
  by (simp add: text_less digit_char_def)

text \<open>The four conversions agree on what they write; \<open>sign\<close> is the sign unit that comes first.\<close>

lemma new_number_32:
  assumes "0 < n" "n < 2 ^ 32" "sign = 0 \<or> sign = 1"
  shows "new_number sign (decimalCount32 n) (\<lambda>dst. utoa32_dec_core level dst sign n (int (decimalCount32 n)))
      = Some (Inr (replicate (nat sign) MINUS @ numeral_text 10 n))"
    "new_number sign ((31 - clz 32 (int n)) div 4 + 1) (\<lambda>dst. utoa32_hex_core level dst sign n (int ((31 - clz 32 (int n)) div 4 + 1)))
      = Some (Inr (replicate (nat sign) MINUS @ numeral_text 16 n))"
  using dec32.new_number_text[of n sign, OF _ _ _ assms(3) decimalCount32_digits[OF assms(2)]]
    hex32.new_number_text[of n sign, OF _ _ _ assms(3)] hex_count[OF assms(1,2)] assms(2) by simp_all

lemma new_number_64:
  assumes "0 < n" "n < 2 ^ 64" "sign = 0 \<or> sign = 1"
  shows "4294967295 < n \<Longrightarrow> new_number sign (decimalCount64High n) (\<lambda>dst. utoa64_dec_core level dst sign n (int (decimalCount64High n)))
      = Some (Inr (replicate (nat sign) MINUS @ numeral_text 10 n))"
    "new_number sign ((63 - clz 64 (int n)) div 4 + 1) (\<lambda>dst. utoa64_hex_core level dst sign n (int ((63 - clz 64 (int n)) div 4 + 1)))
      = Some (Inr (replicate (nat sign) MINUS @ numeral_text 16 n))"
    "2 \<le> r \<Longrightarrow> r \<le> 36 \<Longrightarrow> do { decimals \<leftarrow> ulog_base n r; new_number sign decimals (\<lambda>dst. utoa64_any_core dst sign n (int decimals) r) }
      = Some (Inr (replicate (nat sign) MINUS @ numeral_text r n))"
  using dec64.new_number_text[of n sign, OF _ _ assms(2,3) decimalCount64High_digits[OF _ assms(2)]]
    hex64.new_number_text[of n sign, OF _ _ assms(2,3)] hex_count[OF assms(1,2)]
    any_core.new_number_text[of r n sign, OF _ _ assms(2,3) refl] ulog_base_digits[of r n] assms(1,2) by simp_all

lemma utoa32_text: "2 \<le> radix \<Longrightarrow> radix \<le> 36 \<Longrightarrow> n < 2 ^ 32 \<Longrightarrow> utoa32 level n radix = Some (Inr (numeral_text (nat radix) n))"
proof (erule (1) radix_cases)
qed (cases "n = 0"; use new_number_32[of n 0] new_number_64[of n 0] in \<open>simp add: utoa32_def text_zero Let_def\<close>)+

lemma utoa64_text: "2 \<le> radix \<Longrightarrow> radix \<le> 36 \<Longrightarrow> n < 2 ^ 64 \<Longrightarrow> utoa64 level n radix = Some (Inr (numeral_text (nat radix) n))"
proof (erule (1) radix_cases)
qed (cases "n = 0"; use new_number_32[of n 0] new_number_64[of n 0] in \<open>simp add: utoa64_def text_zero Let_def\<close>)+

text \<open>The sign and the magnitude of a signed integer of \<open>w + 1\<close> bits.\<close>

lemma magnitude:
  fixes v :: int
  assumes "- (2 ^ w) \<le> v" "v < 2 ^ w"
  shows "drop_bit w (take_bit (Suc w) v) = of_bool (v < 0)" "take_bit (Suc w) (if v < 0 then - v else v) = \<bar>v\<bar>"
proof -
  show "drop_bit w (take_bit (Suc w) v) = of_bool (v < 0)"
  proof (cases "v < 0")
    case True
    have "v mod (2 * 2 ^ w) = (v + 2 * 2 ^ w) mod (2 * 2 ^ w)" by simp
    also have "\<dots> = v + 2 * 2 ^ w" using assms(1) True by (intro mod_pos_pos_trivial) simp_all
    finally have "take_bit (Suc w) v = 2 ^ w * 1 + (v + 2 ^ w)" by (simp add: take_bit_eq_mod)
    moreover have "(2 ^ w * 1 + (v + 2 ^ w)) div 2 ^ w = 1"
      by (rule int_div_pos_eq[OF refl]) (use assms(1) True in simp_all)
    ultimately show ?thesis using True by (simp add: drop_bit_eq_div)
  next
    case False
    then show ?thesis using assms(2) by (simp add: take_bit_int_eq_self drop_bit_eq_div)
  qed
  show "take_bit (Suc w) (if v < 0 then - v else v) = \<bar>v\<bar>"
    using assms by (auto intro!: take_bit_int_eq_self)
qed

lemma signed_text_split: "v \<noteq> 0 \<Longrightarrow>
    signed_text r v = replicate (nat (of_bool (v < 0))) MINUS @ numeral_text r (nat \<bar>v\<bar>)"
  by (simp add: signed_text_def)

lemma itoa32_text:
  assumes "2 \<le> radix" "radix \<le> 36" "- (2 ^ 31) \<le> v" "v < 2 ^ 31"
  shows "itoa32 level v radix = Some (Inr (signed_text (nat radix) v))"
proof (cases "v = 0")
  case True
  then show ?thesis using assms(1,2) by (simp add: itoa32_def signed_text_def text_zero)
next
  case False
  define n where "n = nat \<bar>v\<bar>"
  have n: "0 < n" "n < 2 ^ 32" "n < 2 ^ 64" using False assms(3,4) by (simp_all add: n_def)
  have sign: "drop_bit 31 (u32 v) = of_bool (v < 0)" "u32 (if v < 0 then - v else v) = int n"
    using magnitude[of 31 v] assms(3,4) by (simp_all add: u32_def n_def)
  have "itoa32 level v radix = Some (Inr (replicate (nat (of_bool (v < 0))) MINUS @ numeral_text (nat radix) n))"
    using assms(1,2)
    by (rule radix_cases) (use assms(1,2) False new_number_32[OF n(1,2)] new_number_64[OF n(1,3)] in
      \<open>simp_all add: itoa32_def sign Let_def del: of_bool_eq\<close>)
  then show ?thesis by (simp only: n_def signed_text_split[OF False])
qed

lemma itoa64_text:
  assumes "2 \<le> radix" "radix \<le> 36" "- (2 ^ 63) \<le> v" "v < 2 ^ 63"
  shows "itoa64 level v radix = Some (Inr (signed_text (nat radix) v))"
proof (cases "v = 0")
  case True
  then show ?thesis using assms(1,2) by (simp add: itoa64_def signed_text_def text_zero)
next
  case False
  define n where "n = nat \<bar>v\<bar>"
  have n: "0 < n" "n < 2 ^ 64" using False assms(3,4) by (simp_all add: n_def)
  have sign: "drop_bit 63 (take_bit 64 v) = of_bool (v < 0)" "take_bit 64 (if v < 0 then - v else v) = int n"
    using magnitude[of 63 v] assms(3,4) by (simp_all add: n_def)
  have "itoa64 level v radix = Some (Inr (replicate (nat (of_bool (v < 0))) MINUS @ numeral_text (nat radix) n))"
    using assms(1,2)
    by (rule radix_cases) (use assms(1,2) False new_number_32[OF n(1)] new_number_64[OF n] in
      \<open>simp_all add: itoa64_def sign Let_def del: of_bool_eq\<close>)
  then show ?thesis by (simp only: n_def signed_text_split[OF False])
qed

section \<open>Strings to integers\<close>

text \<open>The arithmetic of a result type of fixed width.\<close>

locale wrapping =
  fixes wrap :: "int \<Rightarrow> int"
  assumes wrap_zero: "wrap 0 = 0"
    and wrap_step: "wrap (wrap a * b + c) = wrap (a * b + c)"
begin

lemma wrap_product: "wrap (b * wrap a) = wrap (b * a)"
  using wrap_step[of a b 0] by (simp add: mult.commute)

lemma wrap_horner: "foldl (\<lambda>a d. wrap (a * r + int d)) (wrap a) ds = wrap (foldl (\<lambda>a d. a * r + int d) a ds)"
  by (induction ds arbitrary: a) (simp_all add: wrap_step)

end

interpretation i32: wrapping i32
  by unfold_locales (simp_all add: i32_def, metis signed_take_bit_add signed_take_bit_mult signed_take_bit_signed_take_bit min.idem)

interpretation i64: wrapping i64
  by unfold_locales (simp_all add: i64_def, metis signed_take_bit_add signed_take_bit_mult signed_take_bit_signed_take_bit min.idem)

interpretation u32: wrapping u32
  by unfold_locales (simp_all add: u32_def take_bit_eq_mod, metis mod_add_left_eq mod_mult_left_eq)

interpretation u64: wrapping "take_bit 64 :: int \<Rightarrow> int"
  by unfold_locales (simp_all add: take_bit_eq_mod, metis mod_add_left_eq mod_mult_left_eq)

text \<open>The digits of a number.\<close>

lemma digits_below: "2 \<le> r \<Longrightarrow> d \<in> set (digits r n) \<Longrightarrow> d < r"
proof (induction n rule: less_induct)
  case (less n)
  show ?case
  proof (cases "n < r")
    case True
    then show ?thesis using less.prems by (simp add: digits_less)
  next
    case False
    then have "n div r < n" using less.prems(1) by simp
    then show ?thesis using less.IH[of "n div r"] less.prems False by (auto simp: digits_step)
  qed
qed

lemma digits_value: "2 \<le> r \<Longrightarrow> foldl (\<lambda>a d. a * int r + int d) 0 (digits r n) = int n"
proof (induction n rule: less_induct)
  case (less n)
  show ?case
  proof (cases "n < r")
    case True
    then show ?thesis by (simp add: digits_less)
  next
    case False
    then have "n div r < n" using less.prems by simp
    then show ?thesis using less.IH[of "n div r"] less.prems False
      by (simp add: digits_step flip: of_nat_mult of_nat_add)
  qed
qed

lemma digits_head: "2 \<le> r \<Longrightarrow> hd (digits r n) = 0 \<Longrightarrow> n = 0"
proof (induction n rule: less_induct)
  case (less n)
  show ?case
  proof (cases "n < r")
    case True
    then show ?thesis using less.prems by (simp add: digits_less)
  next
    case False
    then have n: "n div r < n" "n div r \<noteq> 0" using less.prems(1) by (simp_all add: div_eq_0_iff)
    moreover have "digits r (n div r) \<noteq> []" by (subst digits.simps) simp
    moreover have "hd (digits r (n div r)) = 0" using less.prems False calculation(3) by (simp add: digits_step[of r n])
    ultimately show ?thesis using less.IH[of "n div r"] less.prems(1) by auto
  qed
qed

lemma digit_codes: "\<forall>d\<in>set [0..35]. let c = (if d < 10 then 0x30 + d else 0x57 + d) in
    digit_value c = d \<and> \<not> isSpace c \<and> c \<noteq> MINUS \<and> c \<noteq> PLUS \<and> (c = 0x30 \<longrightarrow> d = 0)"
  by code_simp

lemma digit_char_facts:
  assumes "d < 36"
  shows "digit_value (digit_char d) = int d" "\<not> isSpace (digit_char d)" "digit_char d \<noteq> MINUS" "digit_char d \<noteq> PLUS"
    "digit_char d = 0x30 \<longleftrightarrow> d = 0"
proof -
  have "int d \<in> set [0..35]" using assms by (simp only: set_upto atLeastAtMost_iff) simp
  from bspec[OF digit_codes this] show "digit_value (digit_char d) = int d" "\<not> isSpace (digit_char d)"
    "digit_char d \<noteq> MINUS" "digit_char d \<noteq> PLUS" "digit_char d = 0x30 \<longleftrightarrow> d = 0"
    by (auto simp: digit_char_def Let_def split: if_splits)
qed

lemma digit_loop_digits:
  "(\<forall>d\<in>set ds. d < r \<and> r \<le> 36) \<Longrightarrow>
   digit_loop wrap (pre @ map digit_char ds) (int r) initial (int (length pre)) (int (length ds)) num
   = Some (Some (foldl (\<lambda>a d. wrap (a * int r + int d)) num ds))"
proof (induction ds arbitrary: pre num)
  case Nil
  then show ?case by (simp add: digit_loop.simps)
next
  case (Cons d ds)
  have "int (length pre) + 1 = int (length (pre @ [digit_char d]))" by simp
  moreover have "load_at (pre @ map digit_char (d # ds)) (int (length pre)) = Some (digit_char d)"
    by (simp add: block_simps)
  moreover have "digit_value (digit_char d) = int d" using Cons.prems by (auto intro: digit_char_facts)
  ultimately show ?case
    using Cons.IH[of "pre @ [digit_char d]"] Cons.prems by (subst digit_loop.simps) (simp add: add.commute)
qed

lemma radix_prefix_digits:
  assumes "radix = int r \<and> 2 \<le> r \<or> radix = 0 \<and> r = 10" "code = 0x30 \<longrightarrow> len = 1"
  shows "radix_prefix str radix ptr code len = Some (int r, ptr, len)"
  using assms by (auto simp: radix_prefix_def)

context wrapping begin

lemma strtol_text:
  assumes "radix = int r \<and> 2 \<le> r \<and> r \<le> 36 \<or> radix = 0 \<and> r = 10"
  shows "strtol wrap (signed_text r v) radix = Some (wrap v)"
proof -
  define n where "n = nat \<bar>v\<bar>"
  have r: "2 \<le> r" "r \<le> 36" using assms by auto
  have "digits r n \<noteq> []" by (subst digits.simps) simp
  then obtain d ds where ds: "digits r n = d # ds" by (cases "digits r n") auto
  have below: "\<forall>d\<in>set (d # ds). d < r \<and> r \<le> 36" using digits_below[OF r(1), of _ n] r(2) ds by auto
  then have "d < 36" by auto
  note facts = digit_char_facts[OF this]
  have prefix: "digit_char d = 0x30 \<longrightarrow> int (length (d # ds)) = 1"
    using digits_head[OF r(1), of n] ds facts(5) r by (auto simp: digits_less)
  have num: "digit_loop wrap (pre @ map digit_char (d # ds)) (int r) (int (length (d # ds)) - 1) (int (length pre)) (int (length (d # ds))) 0
      = Some (Some (wrap (int n)))" for pre
    using digit_loop_digits[OF below, of wrap pre] wrap_horner[of "int r" 0 "d # ds"] digits_value[OF r(1), of n]
    by (simp only: wrap_zero ds)
  have radix: "\<not> (radix \<noteq> 0 \<and> (radix < 2 \<or> radix > 36))" using assms by auto
  have prefixed: "radix_prefix str radix ptr (digit_char d) (int (length (d # ds))) = Some (int r, ptr, int (length (d # ds)))" for str ptr
    using radix_prefix_digits[of radix r "digit_char d"] assms prefix by blast
  show ?thesis
  proof (cases "v < 0")
    case True
    have str: "signed_text r v = MINUS # map digit_char (d # ds)"
      using True ds by (simp add: signed_text_def numeral_text_def n_def)
    have "isSpace MINUS = False" by code_simp
    then show ?thesis
      using num[of "[MINUS]"] prefixed[of "MINUS # map digit_char (d # ds)" 1] radix True wrap_product[of "-1" "int n"]
      unfolding str strtol_def
      by (auto simp: skip_spaces.simps load_at_def n_def)
  next
    case False
    have str: "signed_text r v = map digit_char (d # ds)"
      using False ds by (simp add: signed_text_def numeral_text_def n_def)
    show ?thesis
      using num[of "[]"] prefixed[of "map digit_char (d # ds)" 0] radix False facts wrap_product[of 1 "int n"]
      unfolding str strtol_def
      by (auto simp: skip_spaces.simps load_at_def n_def)
  qed
qed

end

text \<open>The values of a class are the fixed points of its cast.\<close>

definition in_class :: "nat \<Rightarrow> int_class \<Rightarrow> int \<Rightarrow> bool" where
  "in_class sizeof cls v \<longleftrightarrow> class_cast sizeof cls v = v"

lemma cast_again:
  "n \<le> 31 \<Longrightarrow> signed_take_bit n (i32 v) = signed_take_bit n v" "n \<le> 32 \<Longrightarrow> take_bit n (i32 v) = take_bit n v"
  "n \<le> 63 \<Longrightarrow> signed_take_bit n (i64 v) = signed_take_bit n v" "n \<le> 64 \<Longrightarrow> take_bit n (i64 v) = take_bit n v"
  "i32 (i32 v) = i32 v" "i64 (i64 v) = i64 v" "u32 (i32 v) = u32 v"
  by (simp_all add: i32_def i64_def u32_def take_bit_signed_take_bit min_def)

lemma signed_fixed: "signed_take_bit n v = v \<Longrightarrow> n \<le> w \<Longrightarrow> - (2 ^ w) \<le> v \<and> v < (2 ^ w :: int)"
proof -
  assume "signed_take_bit n v = v" "n \<le> w"
  moreover have "(2 :: int) ^ n \<le> 2 ^ w" using \<open>n \<le> w\<close> by (intro power_increasing) simp_all
  moreover have "- (2 ^ n) \<le> signed_take_bit n v" "signed_take_bit n v < 2 ^ n" by (rule signed_take_bit_int_greater_eq_minus_exp signed_take_bit_int_less_exp)+
  ultimately show ?thesis by linarith
qed

lemma unsigned_fixed: "take_bit n v = v \<Longrightarrow> n \<le> w \<Longrightarrow> 0 \<le> v \<and> v < (2 ^ w :: int)"
proof -
  assume "take_bit n v = v" "n \<le> w"
  moreover have "(2 :: int) ^ n \<le> 2 ^ w" using \<open>n \<le> w\<close> by (intro power_increasing) simp_all
  moreover have "0 \<le> take_bit n v" "take_bit n v < 2 ^ n" by simp_all
  ultimately show ?thesis by linarith
qed

lemma unsigned_text:
  assumes "0 \<le> v" "2 \<le> radix" "radix \<le> 36"
  shows "v < 2 ^ 32 \<Longrightarrow> utoa32 level (nat v) radix = Some (Inr (signed_text (nat radix) v))"
    and "v < 2 ^ 64 \<Longrightarrow> utoa64 level (nat v) radix = Some (Inr (signed_text (nat radix) v))"
  using assms utoa32_text[of radix "nat v"] utoa64_text[of radix "nat v"]
  by (simp_all add: signed_text_def nat_less_iff)

lemma to_string_text:
  assumes "sizeof = 4 \<or> sizeof = 8" "in_class sizeof cls v" "2 \<le> radix" "radix \<le> 36"
  shows "to_string level sizeof cls v radix = Some (Inr (signed_text (nat radix) v))"
proof -
  note fixed = assms(2)[unfolded in_class_def]
  have s32: "- (2 ^ 31) \<le> v \<and> v < 2 ^ 31" if "signed_take_bit n v = v" "n \<le> 31" for n using signed_fixed[OF that] .
  have s64: "- (2 ^ 63) \<le> v \<and> v < 2 ^ 63" if "signed_take_bit n v = v" "n \<le> 63" for n using signed_fixed[OF that] .
  have u32: "0 \<le> v \<and> v < 2 ^ 32" if "take_bit n v = v" "n \<le> 32" for n using unsigned_fixed[OF that] .
  have u64: "0 \<le> v \<and> v < 2 ^ 64" if "take_bit n v = v" "n \<le> 64" for n using unsigned_fixed[OF that] .
  show ?thesis
  proof (cases cls)
    case I8
    then show ?thesis using fixed s32[of 7] assms(3,4) by (simp add: to_string_def itoa32_text)
  next
    case I16
    then show ?thesis using fixed s32[of 15] assms(3,4) by (simp add: to_string_def itoa32_text)
  next
    case I32
    then show ?thesis using fixed s32[of 31] assms(3,4) by (simp add: to_string_def itoa32_text i32_def)
  next
    case I64
    then show ?thesis using fixed s64[of 63] assms(3,4) by (simp add: to_string_def itoa64_text i64_def)
  next
    case Isize
    then show ?thesis using fixed s32[of 31] s64[of 63] assms(1,3,4)
      by (auto simp: to_string_def itoa32_text itoa64_text i32_def i64_def)
  next
    case U8
    then show ?thesis using fixed u32[of 8] assms(3,4) by (simp add: to_string_def unsigned_text)
  next
    case U16
    then show ?thesis using fixed u32[of 16] assms(3,4) by (simp add: to_string_def unsigned_text)
  next
    case U32
    then show ?thesis using fixed u32[of 32] assms(3,4) by (simp add: to_string_def unsigned_text u32_def)
  next
    case U64
    then show ?thesis using fixed u64[of 64] assms(3,4) by (simp add: to_string_def unsigned_text)
  next
    case Usize
    then show ?thesis using fixed u32[of 32] u64[of 64] assms(1,3,4)
      by (auto simp: to_string_def unsigned_text u32_def)
  qed
qed

text \<open>
  C13. \<open>toString\<close> of every integer class writes the numeral of its value, with a minus sign in front of a negative one,
  in every radix from 2 to 36 and at every shrink level, or throws the range error for any other radix. In particular
  the number of digits computed in advance is the number written, and no store misses the new string.
\<close>

theorem number_text:
  assumes "sizeof = 4 \<or> sizeof = 8" "in_class sizeof cls v"
  shows "to_string level sizeof cls v radix =
    Some (if 2 \<le> radix \<and> radix \<le> 36 then Inr (signed_text (nat radix) v) else Inl E_RADIX)"
proof (cases "2 \<le> radix \<and> radix \<le> 36")
  case True
  then show ?thesis using to_string_text[OF assms] by simp
next
  case False
  then show ?thesis by (cases cls) (auto simp: to_string_def utoa32_def utoa64_def itoa32_def itoa64_def)
qed

theorem number_text_witness:
  "to_string 0 4 U32 4294967295 16 = Some (Inr [0x66, 0x66, 0x66, 0x66, 0x66, 0x66, 0x66, 0x66]) \<and>
   to_string 1 4 I64 (- 255) 10 = Some (Inr [MINUS, 0x32, 0x35, 0x35]) \<and> to_string 0 4 I8 7 37 = Some (Inl E_RADIX)"
  using number_text[of 4 U32 4294967295 0 16] number_text[of 4 I64 "- 255" 1 10] number_text[of 4 I8 7 0 37]
  by (simp add: in_class_def u32_def i64_def take_bit_int_eq_self signed_take_bit_int_eq_self signed_text_def
      numeral_text_def digits.simps[of 16] digits.simps[of 10] digit_char_def)

lemma parse_int_text:
  assumes "sizeof = 4 \<or> sizeof = 8" "in_class sizeof cls v"
    "radix = int r \<and> 2 \<le> r \<and> r \<le> 36 \<or> radix = 0 \<and> r = 10"
  shows "parse_int sizeof cls (signed_text r v) radix = Some v"
  using assms(1,2)
  by (cases cls) (auto simp: parse_int_def in_class_def i32.strtol_text[OF assms(3)] i64.strtol_text[OF assms(3)] cast_again)

text \<open>
  C14. \<open>parseInt\<close> reads back what \<open>toString\<close> wrote: for every class, every value of it, the least one included, and
  every radix; the decimal form also with the radix left to be detected.
\<close>

theorem number_roundtrip:
  assumes "sizeof = 4 \<or> sizeof = 8" "in_class sizeof cls v" "2 \<le> radix" "radix \<le> 36"
  shows "\<exists>s. to_string level sizeof cls v radix = Some (Inr s) \<and> parse_int sizeof cls s radix = Some v \<and>
    (radix = 10 \<longrightarrow> parse_int sizeof cls s 0 = Some v)"
proof -
  have r: "radix = int (nat radix) \<and> 2 \<le> nat radix \<and> nat radix \<le> 36" using assms(3,4) by auto
  have "parse_int sizeof cls (signed_text (nat radix) v) radix = Some v"
    by (rule parse_int_text[OF assms(1,2)]) (use r in blast)
  moreover have "radix = 10 \<longrightarrow> parse_int sizeof cls (signed_text (nat radix) v) 0 = Some v"
    using parse_int_text[OF assms(1,2), of 0 10] by simp
  ultimately show ?thesis using to_string_text[OF assms] by blast
qed

theorem number_roundtrip_witness:
  "(\<exists>s. to_string 0 4 I32 (- 2147483648) 10 = Some (Inr s) \<and> parse_int 4 I32 s 10 = Some (- 2147483648) \<and> parse_int 4 I32 s 0 = Some (- 2147483648)) \<and>
   (\<exists>s. to_string 2 8 Usize 18446744073709551615 36 = Some (Inr s) \<and> parse_int 8 Usize s 36 = Some 18446744073709551615)"
  using number_roundtrip[of 4 I32 "- 2147483648" 10 0] number_roundtrip[of 8 Usize 18446744073709551615 36 2]
  by (simp add: in_class_def i32_def signed_take_bit_int_eq_self take_bit_int_eq_self)

section \<open>What is read\<close>

text \<open>The loops of \<open>strtol\<close> in front of an end of the string.\<close>

lemma skip_spaces_stop:
  "\<forall>c\<in>set ws. isSpace c \<Longrightarrow> \<not> isSpace c \<Longrightarrow>
   skip_spaces (pre @ ws @ c # post) (int (length pre)) (hd (ws @ [c])) len = Some (int (length pre + length ws), c, len - int (length ws))"
proof (induction ws arbitrary: pre len)
  case (Cons w ws)
  have "load_at (pre @ w # ws @ c # post) (int (length pre) + 1) = Some (hd (ws @ [c]))"
    by (cases ws) (simp_all add: load_next)
  then show ?case using Cons.IH[of "pre @ [w]" "len - 1"] Cons.prems
    by (subst skip_spaces.simps) (simp add: algebra_simps)
qed (simp add: skip_spaces.simps)

lemma skip_spaces_none:
  "ws \<noteq> [] \<Longrightarrow> \<forall>c\<in>set ws. isSpace c \<Longrightarrow> skip_spaces (pre @ ws) (int (length pre)) (hd ws) len = None"
proof (induction ws arbitrary: pre len)
  case (Cons w ws)
  show ?case
  proof (cases ws)
    case Nil
    then show ?thesis using Cons.prems by (subst skip_spaces.simps) (simp add: load_at_def)
  next
    case (Cons w' ws')
    then have "load_at (pre @ w # ws) (int (length pre) + 1) = Some (hd ws)" by (simp add: load_next)
    then show ?thesis using Cons.IH[of "pre @ [w]" "len - 1"] Cons Cons.prems
      by (subst skip_spaces.simps) (simp add: algebra_simps)
  qed
qed simp

lemma digit_loop_total:
  "0 \<le> ptr \<Longrightarrow> 0 \<le> len \<Longrightarrow> len = int (length str) - ptr \<Longrightarrow> \<exists>x. digit_loop wrap str radix initial ptr len num = Some x"
proof (induction wrap str radix initial ptr len num rule: digit_loop.induct)
  case (1 wrap str radix initial ptr len num)
  show ?case
  proof (cases "len = 0")
    case True
    then show ?thesis by (simp add: digit_loop.simps)
  next
    case False
    then have "load_at str ptr = Some (str ! nat ptr)" using "1.prems" by (simp add: load_at_def)
    then show ?thesis using "1.IH"[OF False refl] "1.prems" False by (subst digit_loop.simps) (auto simp: Let_def)
  qed
qed

lemma radix_prefix_total:
  "0 \<le> ptr \<Longrightarrow> 0 < len \<Longrightarrow> len = int (length str) - ptr \<Longrightarrow>
   \<exists>radix' ptr'. radix_prefix str radix ptr code len = Some (radix', ptr', int (length str) - ptr') \<and> 0 \<le> ptr' \<and> ptr' \<le> int (length str)"
  by (auto simp: radix_prefix_def load_at_def)

lemma strtol_rest:
  assumes "0 \<le> ptr" "0 < len" "len = int (length str) - ptr"
  shows "\<exists>x. do {
      (radix, ptr, len) \<leftarrow> radix_prefix str radix ptr code len;
      num \<leftarrow> digit_loop wrap str radix (len - 1) ptr len 0;
      Some (f num) } = Some x"
proof -
  obtain radix' ptr' where p: "radix_prefix str radix ptr code len = Some (radix', ptr', int (length str) - ptr')"
    "0 \<le> ptr'" "ptr' \<le> int (length str)" using radix_prefix_total[OF assms] by blast
  with digit_loop_total[of ptr' "int (length str) - ptr'" str wrap radix' "int (length str) - ptr' - 1" 0]
  show ?thesis by auto
qed

lemma strtol_none: "strtol wrap str radix = None \<longleftrightarrow> str \<noteq> [] \<and> (\<forall>c\<in>set str. isSpace c)"
proof (cases "str \<noteq> [] \<and> (\<forall>c\<in>set str. isSpace c)")
  case True
  then have "load_at str 0 = Some (hd str)" by (cases str) (simp_all add: load_at_def)
  then show ?thesis using True skip_spaces_none[of str "[]"] by (simp add: strtol_def)
next
  case False
  show ?thesis
  proof (cases "str = []")
    case True
    then show ?thesis by (simp add: strtol_def)
  next
    case nonempty: False
    define ws where "ws = takeWhile isSpace str"
    have "dropWhile isSpace str \<noteq> []" using False nonempty by (simp add: dropWhile_eq_Nil_conv)
    then obtain c post where post: "dropWhile isSpace str = c # post" by (cases "dropWhile isSpace str") auto
    then have str: "str = ws @ c # post" using takeWhile_dropWhile_id[of isSpace str] by (simp add: ws_def)
    have c: "\<not> isSpace c" using hd_dropWhile[of isSpace str] post by simp
    have "\<forall>c\<in>set ws. isSpace c" by (auto simp: ws_def dest: set_takeWhileD)
    from skip_spaces_stop[OF this c, of "[]" post "int (length str)"]
    have skip: "skip_spaces str 0 (hd str) (int (length str)) = Some (int (length ws), c, int (length post) + 1)"
      by (cases ws) (simp_all add: str)
    have first: "load_at str 0 = Some (hd str)" using nonempty by (cases str) (simp_all add: load_at_def)
    have next_unit: "load_at str (int (length ws) + 1) = Some (hd post)" if "post \<noteq> []"
      using that by (cases post) (simp_all add: str load_next)
    note rest = strtol_rest[where str = str and wrap = wrap]
    have plain: "\<exists>x. do {
      (radix, ptr, len) \<leftarrow> radix_prefix str radix (int (length ws)) c (int (length post) + 1);
      num \<leftarrow> digit_loop wrap str radix (len - 1) ptr len 0; Some (f num) } = Some x" for f
      by (rule rest) (simp_all add: str)
    have signed: "\<exists>x. do {
      (radix, ptr, len) \<leftarrow> radix_prefix str radix (int (length ws) + 1) (hd post) (int (length post));
      num \<leftarrow> digit_loop wrap str radix (len - 1) ptr len 0; Some (f num) } = Some x" if "post \<noteq> []" for f
      by (rule rest) (use that in \<open>simp_all add: str\<close>)
    have "\<exists>x. strtol wrap str radix = Some x"
      using plain signed next_unit nonempty first skip by (auto simp: strtol_def Let_def)
    then show ?thesis using False by auto
  qed
qed

text \<open>
  C27. Parsing returns for every string and every radix, and reads only units of the string, except for a non-empty
  string of nothing but white space: there the loop over the white space reads the unit behind the string.
\<close>

theorem strtol_reads: "strtol wrap str radix = None \<longleftrightarrow> str \<noteq> [] \<and> list_all isSpace str"
  by (simp add: strtol_none list_all_iff)

text \<open>
  Remark: a tab counts as the digit 9, since characters below the radix that are no digits are taken by their code.
\<close>

theorem tab_is_digit: "strtol i32 [0x31, 0x09, 0x32] 10 = Some 192"
  by code_simp

end
