(* ===== verification/As_Allocator.thy ===== *)
theory As_Allocator
  imports As_Memory
begin

unbundle bit_operations_syntax

text \<open>
  What \<open>std/rt/common.ts\<close> gives to both memory managers of the library, \<open>std/rt/tlsf.ts\<close> and \<open>std/rt/stub.ts\<close>, and the
  contract that both of them keep: to a program that uses the pointers it was given, memory is a set of independent
  buffers, as in the models of the library's containers. Linear memory is a function from addresses, multiples of
  four, to 32-bit words.
\<close>

section \<open>Constants and memory\<close>

definition AL_BITS :: nat where "AL_BITS = 4"
definition AL_SIZE :: int where "AL_SIZE = push_bit AL_BITS 1"
definition AL_MASK :: int where "AL_MASK = AL_SIZE - 1"
definition BLOCK_OVERHEAD :: int where "BLOCK_OVERHEAD = 4"
definition OBJECT_OVERHEAD :: int where "OBJECT_OVERHEAD = ((5 * 4 - BLOCK_OVERHEAD) + AL_MASK) AND NOT AL_MASK"

type_synonym memory = "int \<Rightarrow> int"

text \<open>
  What a program is compiled with: the end of its static data, the limit of a low-memory build or 0, and whether the
  engine grants \<open>memory.grow\<close> of some pages at some size.
\<close>

record config =
  heap_base :: int
  low_memory_limit :: int
  can_grow :: "int \<Rightarrow> int \<Rightarrow> bool"

text \<open>
  An operation returns, throws or reaches \<open>unreachable()\<close>, when the engine gives no more memory. Both end the instance,
  so neither keeps the state. A failed assertion is \<open>None\<close>.
\<close>

datatype 'a outcome = Returns 'a | Throws string | Unreachable

fun continue :: "'a outcome option \<Rightarrow> ('a \<Rightarrow> 'b outcome option) \<Rightarrow> 'b outcome option" where
  "continue None f = None"
| "continue (Some (Returns x)) f = f x"
| "continue (Some (Throws err)) f = Some (Throws err)"
| "continue (Some Unreachable) f = Some Unreachable"

definition memory_copy :: "int \<Rightarrow> int \<Rightarrow> int \<Rightarrow> memory \<Rightarrow> memory" where
  "memory_copy dst src n m = (\<lambda>a. if dst \<le> a \<and> a < dst + n then m (src + (a - dst)) else m a)"

text \<open>What an operation may write, what it leaves in the payloads of some pointers, and the words of a payload at another place.\<close>

definition changes :: "memory \<Rightarrow> memory \<Rightarrow> int set \<Rightarrow> bool" where
  "changes m m' A \<longleftrightarrow> (\<forall>a. a \<notin> A \<longrightarrow> m' a = m a)"

definition same_payloads :: "(int \<times> int) set \<Rightarrow> memory \<Rightarrow> memory \<Rightarrow> bool" where
  "same_payloads U m m' \<longleftrightarrow> (\<forall>(p, k)\<in>U. \<forall>a. p \<le> a \<and> a < p + k \<longrightarrow> m' a = m a)"

definition copied :: "memory \<Rightarrow> int \<Rightarrow> memory \<Rightarrow> int \<Rightarrow> int \<Rightarrow> bool" where
  "copied m p m' q n \<longleftrightarrow> (\<forall>i. 0 \<le> i \<and> i < n \<longrightarrow> m' (q + i) = m (p + i))"

lemma changes_trans: "changes m m1 A \<Longrightarrow> changes m1 m2 B \<Longrightarrow> A \<subseteq> C \<Longrightarrow> B \<subseteq> C \<Longrightarrow> changes m m2 C"
  unfolding changes_def by (metis subsetD)

lemma changes_seq: "changes m m1 A \<Longrightarrow> changes m1 m2 A \<Longrightarrow> changes m m2 A"
  by (simp add: changes_def)

lemma changes_mono: "changes m m' A \<Longrightarrow> A \<subseteq> B \<Longrightarrow> changes m m' B"
  unfolding changes_def by blast

lemma changes_insert: "changes m m' A \<Longrightarrow> changes m m' (insert a A)"
  by (simp add: changes_def)

lemma changes_write: "changes m (m(a := v)) {a}"
  by (simp add: changes_def)

lemma changesD: "changes m m' A \<Longrightarrow> A \<inter> B = {} \<Longrightarrow> a \<in> B \<Longrightarrow> m' a = m a"
  by (auto simp: changes_def)

lemma same_payloads_trans: "same_payloads U m m1 \<Longrightarrow> same_payloads U m1 m2 \<Longrightarrow> same_payloads U m m2"
  unfolding same_payloads_def by fastforce

lemma same_payloads_mono: "same_payloads U m m' \<Longrightarrow> U' \<subseteq> U \<Longrightarrow> same_payloads U' m m'"
  unfolding same_payloads_def by blast

lemma same_payloadsD: "same_payloads U m m' \<Longrightarrow> (p, k) \<in> U \<Longrightarrow> 0 \<le> i \<Longrightarrow> i < k \<Longrightarrow> m' (p + i) = m (p + i)"
  by (auto simp: same_payloads_def)

section \<open>Programs\<close>

text \<open>
  A program works on the buffers it has allocated, which it names by numbers of its own. Between the operations of the
  memory manager it writes words into them.
\<close>

datatype request = Alloc nat int | Realloc nat int | Free nat | Store nat nat int

record 's operations =
  op_mem :: "'s \<Rightarrow> memory"
  op_pages :: "'s \<Rightarrow> int"
  op_put :: "memory \<Rightarrow> 's \<Rightarrow> 's"
  op_alloc :: "int \<Rightarrow> 's \<Rightarrow> (int \<times> 's) outcome option"
  op_realloc :: "int \<Rightarrow> int \<Rightarrow> 's \<Rightarrow> (int \<times> 's) outcome option"
  op_free :: "int \<Rightarrow> 's \<Rightarrow> 's outcome option"

type_synonym pointers = "nat \<rightharpoonup> int"

fun serve :: "'s operations \<Rightarrow> request \<Rightarrow> pointers \<times> 's \<Rightarrow> (pointers \<times> 's) outcome option" where
  "serve ops (Alloc h n) (E, s) = continue (op_alloc ops n s) (\<lambda>(p, s). Some (Returns (E(h \<mapsto> p), s)))"
| "serve ops (Realloc h n) (E, s) = do {
     p \<leftarrow> E h;
     continue (op_realloc ops p n s) (\<lambda>(p, s). Some (Returns (E(h \<mapsto> p), s)))
   }"
| "serve ops (Free h) (E, s) = do {
     p \<leftarrow> E h;
     continue (op_free ops p s) (\<lambda>s. Some (Returns (E(h := None), s)))
   }"
| "serve ops (Store h i v) (E, s) = do {
     p \<leftarrow> E h;
     Some (Returns (E, op_put ops ((op_mem ops s)(p + 4 * int i := v)) s))
   }"

fun run :: "'s operations \<Rightarrow> request list \<Rightarrow> pointers \<times> 's \<Rightarrow> (pointers \<times> 's) outcome option" where
  "run ops [] x = Some (Returns x)"
| "run ops (r # rs) x = continue (serve ops r x) (run ops rs)"

text \<open>
  The buffers that the program means, each with the words it has asked for; a word that was not written yet is unknown.
  A program that leaves its buffers, uses one that it has not or asks for too much is \<open>None\<close>.
\<close>

definition words :: "int \<Rightarrow> nat" where
  "words n = nat ((n + 3) div 4)"

fun meant :: "int \<Rightarrow> request \<Rightarrow> (nat \<rightharpoonup> buffer) \<Rightarrow> (nat \<rightharpoonup> buffer) option" where
  "meant limit (Alloc h n) V = (if V h = None \<and> 0 \<le> n \<and> n \<le> limit then Some (V(h \<mapsto> replicate (words n) None)) else None)"
| "meant limit (Realloc h n) V =
     (case V h of
        None \<Rightarrow> None
      | Some ws \<Rightarrow>
          (if 0 \<le> n \<and> n \<le> limit then Some (V(h \<mapsto> take (words n) ws @ replicate (words n - length ws) None)) else None))"
| "meant limit (Free h) V = (if V h = None then None else Some (V(h := None)))"
| "meant limit (Store h i v) V =
     (case V h of None \<Rightarrow> None | Some ws \<Rightarrow> (if i < length ws then Some (V(h \<mapsto> ws[i := Some v])) else None))"

fun meaning :: "int \<Rightarrow> request list \<Rightarrow> (nat \<rightharpoonup> buffer) \<Rightarrow> (nat \<rightharpoonup> buffer) option" where
  "meaning limit [] V = Some V"
| "meaning limit (r # rs) V = do { V \<leftarrow> meant limit r V; meaning limit rs V }"

text \<open>The buffers are in the payloads of their pointers, which are different.\<close>

definition holds :: "(int \<times> int) set \<Rightarrow> memory \<Rightarrow> pointers \<Rightarrow> (nat \<rightharpoonup> buffer) \<Rightarrow> bool" where
  "holds U m E V \<longleftrightarrow> dom E = dom V \<and> inj_on E (dom E)
     \<and> (\<forall>h p ws. E h = Some p \<and> V h = Some ws \<longrightarrow>
          (\<exists>k. (p, k) \<in> U \<and> 4 * int (length ws) \<le> k \<and> (\<forall>i<length ws. ws ! i \<noteq> None \<longrightarrow> ws ! i = Some (m (p + 4 * int i)))))"

text \<open>What a program sees: its buffers are aligned and inside the memory, and what it wrote last is what it reads.\<close>

fun accurate :: "'s operations \<Rightarrow> pointers \<times> 's \<Rightarrow> (nat \<rightharpoonup> buffer) \<Rightarrow> bool" where
  "accurate ops (E, s) V \<longleftrightarrow> dom E = dom V
     \<and> (\<forall>h ws. V h = Some ws \<longrightarrow>
          (\<exists>p. E h = Some p \<and> p mod 16 = 0 \<and> 0 < p \<and> p + 4 * int (length ws) \<le> 65536 * op_pages ops s
             \<and> (\<forall>i<length ws. ws ! i \<noteq> None \<longrightarrow> ws ! i = Some (op_mem ops s (p + 4 * int i)))))"

section \<open>The contract\<close>

locale allocator =
  fixes ops :: "'s operations"
    and inv :: "'s \<Rightarrow> (int \<times> int) set \<Rightarrow> bool"
    and limit :: int
  assumes apart: "inv s U \<Longrightarrow> (p, k) \<in> U \<Longrightarrow> (q, j) \<in> U \<Longrightarrow> (p, k) = (q, j) \<or> p + k \<le> q \<or> q + j \<le> p"
    and sizes: "inv s U \<Longrightarrow> (p, k) \<in> U \<Longrightarrow> 0 < k \<and> k mod 4 = 0"
    and inside: "inv s U \<Longrightarrow> (p, k) \<in> U \<Longrightarrow> p mod 16 = 0 \<and> 0 < p \<and> p + k \<le> 65536 * op_pages ops s"
    and put: "inv s U \<Longrightarrow> (p, k) \<in> U \<Longrightarrow> changes (op_mem ops s) m' {p..<p + k} \<Longrightarrow>
      inv (op_put ops m' s) U \<and> op_mem ops (op_put ops m' s) = m'"
    and alloc: "inv s U \<Longrightarrow> 0 \<le> n \<Longrightarrow> n \<le> limit \<Longrightarrow> op_alloc ops n s = Some Unreachable \<or>
      (\<exists>p k s'. op_alloc ops n s = Some (Returns (p, s')) \<and> inv s' (insert (p, k) U) \<and> p \<notin> fst ` U \<and> n \<le> k
        \<and> same_payloads U (op_mem ops s) (op_mem ops s'))"
    and realloc: "inv s U \<Longrightarrow> (p, k) \<in> U \<Longrightarrow> 0 \<le> n \<Longrightarrow> n \<le> limit \<Longrightarrow> op_realloc ops p n s = Some Unreachable \<or>
      (\<exists>q j s'. op_realloc ops p n s = Some (Returns (q, s')) \<and> inv s' (insert (q, j) (U - {(p, k)})) \<and> q \<notin> fst ` (U - {(p, k)})
        \<and> n \<le> j \<and> same_payloads (U - {(p, k)}) (op_mem ops s) (op_mem ops s')
        \<and> copied (op_mem ops s) p (op_mem ops s') q (min k j))"
    and free: "inv s U \<Longrightarrow> (p, k) \<in> U \<Longrightarrow>
      (\<exists>s'. op_free ops p s = Some (Returns s') \<and> inv s' (U - {(p, k)})
        \<and> same_payloads (U - {(p, k)}) (op_mem ops s) (op_mem ops s'))"
begin

lemma holdsE:
  assumes "holds U m E V" "V h = Some ws"
  obtains p k where "E h = Some p" "(p, k) \<in> U" "4 * int (length ws) \<le> k"
    "\<forall>i<length ws. ws ! i \<noteq> None \<longrightarrow> ws ! i = Some (m (p + 4 * int i))"
proof -
  have "h \<in> dom E" using assms by (auto simp: holds_def)
  then obtain p where "E h = Some p" by blast
  then show thesis using that assms unfolding holds_def by blast
qed

text \<open>The other buffers are kept by an operation on one, and the one is as the operation says.\<close>

lemma holds_others:
  assumes h: "holds U m E V"
    and others: "\<And>g p k. g \<noteq> h \<Longrightarrow> E g = Some p \<Longrightarrow> (p, k) \<in> U \<Longrightarrow> (p, k) \<in> U' \<and> (\<forall>i. 0 \<le> i \<and> i < k \<longrightarrow> m' (p + i) = m (p + i))"
    and g: "g \<noteq> h" "E g = Some p" "V g = Some ws"
  shows "\<exists>k. (p, k) \<in> U' \<and> 4 * int (length ws) \<le> k \<and> (\<forall>i<length ws. ws ! i \<noteq> None \<longrightarrow> ws ! i = Some (m' (p + 4 * int i)))"
proof -
  obtain k where k: "(p, k) \<in> U" "4 * int (length ws) \<le> k" "\<forall>i<length ws. ws ! i \<noteq> None \<longrightarrow> ws ! i = Some (m (p + 4 * int i))"
    using h g(2,3) unfolding holds_def by blast
  then show ?thesis using others[OF g(1,2) k(1)] by (intro exI[of _ k]) auto
qed

lemma holds_update:
  assumes h: "holds U m E V"
    and others: "\<And>g p k. g \<noteq> h \<Longrightarrow> E g = Some p \<Longrightarrow> (p, k) \<in> U \<Longrightarrow> (p, k) \<in> U' \<and> (\<forall>i. 0 \<le> i \<and> i < k \<longrightarrow> m' (p + i) = m (p + i))"
    and new: "(q, j) \<in> U'" "4 * int (length vs) \<le> j" "\<And>g. g \<noteq> h \<Longrightarrow> E g \<noteq> Some q"
    and vs: "\<And>i. i < length vs \<Longrightarrow> vs ! i \<noteq> None \<Longrightarrow> vs ! i = Some (m' (q + 4 * int i))"
  shows "holds U' m' (E(h \<mapsto> q)) (V(h \<mapsto> vs))"
proof -
  have dom: "dom E = dom V" "inj_on E (dom E)" using h unfolding holds_def by blast+
  have "inj_on (E(h \<mapsto> q)) (dom (E(h \<mapsto> q)))"
    using dom(2) new(3) unfolding inj_on_def by (auto split: if_splits)
  moreover have "\<exists>k. (q, k) \<in> U' \<and> 4 * int (length vs) \<le> k \<and> (\<forall>i<length vs. vs ! i \<noteq> None \<longrightarrow> vs ! i = Some (m' (q + 4 * int i)))"
    using new(1,2) vs by blast
  ultimately show ?thesis
    using dom(1) holds_others[OF h others] unfolding holds_def by (auto split: if_splits)
qed

lemma holds_free:
  assumes h: "holds U m E V"
    and others: "\<And>g p k. g \<noteq> h \<Longrightarrow> E g = Some p \<Longrightarrow> (p, k) \<in> U \<Longrightarrow> (p, k) \<in> U' \<and> (\<forall>i. 0 \<le> i \<and> i < k \<longrightarrow> m' (p + i) = m (p + i))"
  shows "holds U' m' (E(h := None)) (V(h := None))"
proof -
  have dom: "dom E = dom V" "inj_on E (dom E)" using h unfolding holds_def by blast+
  then have "inj_on (E(h := None)) (dom (E(h := None)))" unfolding inj_on_def by (auto split: if_splits)
  then show ?thesis using dom(1) holds_others[OF h others] unfolding holds_def by (auto split: if_splits)
qed

lemma other_pointer:
  assumes "inv s U" "holds U m E V" "E h = Some p" "(p, k) \<in> U" "E g = Some q" "g \<noteq> h" "(q, j) \<in> U"
  shows "(q, j) \<in> U - {(p, k)}" "q + j \<le> p \<or> p + k \<le> q" "q \<noteq> p"
proof -
  have "inj_on E (dom E)" using assms(2) unfolding holds_def by blast
  then show "q \<noteq> p" using assms(3,5,6) by (metis domI inj_onD)
  then show "(q, j) \<in> U - {(p, k)}" "q + j \<le> p \<or> p + k \<le> q" using apart[OF assms(1,4,7)] assms(7) by auto
qed

lemma words_fit: "0 \<le> n \<Longrightarrow> n \<le> k \<Longrightarrow> k mod 4 = 0 \<Longrightarrow> 4 * int (words n) \<le> k"
proof -
  assume "0 \<le> n" "n \<le> k" "k mod 4 = 0"
  then have "4 * ((n + 3) div 4) \<le> k" by presburger
  moreover have "int (words n) = (n + 3) div 4" using \<open>0 \<le> n\<close> by (simp add: words_def)
  ultimately show ?thesis by simp
qed

text \<open>One request.\<close>

lemma served:
  assumes inv: "inv s U" and h: "holds U (op_mem ops s) E V" and ok: "meant limit r V = Some V'"
  shows "serve ops r (E, s) = Some Unreachable \<or>
    (\<exists>E' s' U'. serve ops r (E, s) = Some (Returns (E', s')) \<and> inv s' U' \<and> holds U' (op_mem ops s') E' V')"
proof (cases r)
  case (Alloc g n)
  then have n: "V g = None" "0 \<le> n" "n \<le> limit" "V' = V(g \<mapsto> replicate (words n) None)" using ok by (auto split: if_splits)
  from alloc[OF inv n(2,3)] show ?thesis
  proof (elim disjE exE conjE)
    fix p k s'
    assume a: "op_alloc ops n s = Some (Returns (p, s'))" "inv s' (insert (p, k) U)" "p \<notin> fst ` U" "n \<le> k"
      "same_payloads U (op_mem ops s) (op_mem ops s')"
    have k: "4 * int (words n) \<le> k" using sizes[OF a(2), of p k] n(2) a(4) by (intro words_fit) simp_all
    have "E f \<noteq> Some p" for f
    proof
      assume f: "E f = Some p"
      then obtain ws where "V f = Some ws" using h by (metis (no_types) domD domI holds_def)
      then obtain p' k' where "E f = Some p'" "(p', k') \<in> U" by (rule holdsE[OF h])
      then have "(p, k') \<in> U" using f by simp
      then have "p \<in> fst ` U" by (rule rev_image_eqI) simp
      then show False using a(3) by blast
    qed
    then have "holds (insert (p, k) U) (op_mem ops s') (E(g \<mapsto> p)) (V(g \<mapsto> replicate (words n) None))"
      by (intro holds_update[OF h]) (use a(5) k in \<open>auto dest: same_payloadsD\<close>)
    then show ?thesis using a(1,2) n(4) Alloc by auto
  qed (simp add: Alloc)
next
  case (Realloc g n)
  then obtain ws where ws: "V g = Some ws" "0 \<le> n" "n \<le> limit" "V' = V(g \<mapsto> take (words n) ws @ replicate (words n - length ws) None)"
    using ok by (auto split: option.splits if_splits)
  obtain p k where p: "E g = Some p" "(p, k) \<in> U" "4 * int (length ws) \<le> k"
    "\<forall>i<length ws. ws ! i \<noteq> None \<longrightarrow> ws ! i = Some (op_mem ops s (p + 4 * int i))" by (rule holdsE[OF h ws(1)])
  note other = other_pointer[OF inv h p(1,2)]
  from realloc[OF inv p(2) ws(2,3)] show ?thesis
  proof (elim disjE exE conjE)
    fix q j s'
    assume a: "op_realloc ops p n s = Some (Returns (q, s'))" "inv s' (insert (q, j) (U - {(p, k)}))" "q \<notin> fst ` (U - {(p, k)})" "n \<le> j"
      "same_payloads (U - {(p, k)}) (op_mem ops s) (op_mem ops s')" "copied (op_mem ops s) p (op_mem ops s') q (min k j)"
    let ?vs = "take (words n) ws @ replicate (words n - length ws) None"
    have j: "4 * int (words n) \<le> j" using sizes[OF a(2), of q j] ws(2) a(4) by (intro words_fit) simp_all
    have "E f \<noteq> Some q" if "f \<noteq> g" for f
    proof
      assume f: "E f = Some q"
      then obtain us where "V f = Some us" using h by (metis (no_types) domD domI holds_def)
      then obtain q' k' where "E f = Some q'" "(q', k') \<in> U" by (rule holdsE[OF h])
      then have "(q, k') \<in> U - {(p, k)}" using other(1)[OF _ that, of q k'] f by simp
      then have "q \<in> fst ` (U - {(p, k)})" by (rule rev_image_eqI) simp
      then show False using a(3) by blast
    qed
    moreover have "?vs ! i = Some (op_mem ops s' (q + 4 * int i))" if i: "i < length ?vs" "?vs ! i \<noteq> None" for i
    proof -
      have "i < length ws" "i < words n" using i by (auto simp: nth_append split: if_splits)
      then have "?vs ! i = Some (op_mem ops s (p + 4 * int i))" using p(4) i(2) by (simp add: nth_append)
      moreover have "4 * int i < min k j" using p(3) j \<open>i < length ws\<close> \<open>i < words n\<close> by simp
      then have "op_mem ops s' (q + 4 * int i) = op_mem ops s (p + 4 * int i)" using a(6) by (simp add: copied_def)
      ultimately show ?thesis by simp
    qed
    moreover have "(q', j') \<in> insert (q, j) (U - {(p, k)}) \<and> (\<forall>i. 0 \<le> i \<and> i < j' \<longrightarrow> op_mem ops s' (q' + i) = op_mem ops s (q' + i))"
      if "f \<noteq> g" "E f = Some q'" "(q', j') \<in> U" for f q' j'
      using other(1)[OF that(2,1,3)] same_payloadsD[OF a(5) other(1)[OF that(2,1,3)]] by blast
    moreover have "4 * int (length ?vs) \<le> j" using j by simp
    ultimately have "holds (insert (q, j) (U - {(p, k)})) (op_mem ops s') (E(g \<mapsto> q)) (V(g \<mapsto> ?vs))"
      by (intro holds_update[OF h]) blast+
    then show ?thesis using a(1,2) ws(4) Realloc p(1) by auto
  qed (simp add: Realloc p(1))
next
  case (Free g)
  then obtain ws where ws: "V g = Some ws" "V' = V(g := None)" using ok by (auto split: if_splits)
  obtain p k where p: "E g = Some p" "(p, k) \<in> U" by (rule holdsE[OF h ws(1)])
  note other = other_pointer[OF inv h p(1,2)]
  from free[OF inv p(2)] obtain s' where a: "op_free ops p s = Some (Returns s')" "inv s' (U - {(p, k)})"
    "same_payloads (U - {(p, k)}) (op_mem ops s) (op_mem ops s')" by blast
  have "holds (U - {(p, k)}) (op_mem ops s') (E(g := None)) (V(g := None))"
  proof (rule holds_free[OF h])
    fix f q j
    assume f: "f \<noteq> g" "E f = Some q" "(q, j) \<in> U"
    show "(q, j) \<in> U - {(p, k)} \<and> (\<forall>i. 0 \<le> i \<and> i < j \<longrightarrow> op_mem ops s' (q + i) = op_mem ops s (q + i))"
      using other(1)[OF f(2,1,3)] same_payloadsD[OF a(3) other(1)[OF f(2,1,3)]] by blast
  qed
  then show ?thesis using a(1,2) ws(2) Free p(1) by auto
next
  case (Store g i v)
  then obtain ws where ws: "V g = Some ws" "i < length ws" "V' = V(g \<mapsto> ws[i := Some v])"
    using ok by (auto split: option.splits if_splits)
  obtain p k where p: "E g = Some p" "(p, k) \<in> U" "4 * int (length ws) \<le> k"
    "\<forall>i<length ws. ws ! i \<noteq> None \<longrightarrow> ws ! i = Some (op_mem ops s (p + 4 * int i))" by (rule holdsE[OF h ws(1)])
  note other = other_pointer[OF inv h p(1,2)]
  let ?m = "(op_mem ops s)(p + 4 * int i := v)"
  have "changes (op_mem ops s) ?m {p..<p + k}" using p(3) ws(2) by (auto simp: changes_def)
  note s' = put[OF inv p(2) this]
  have "E f \<noteq> Some p" if "f \<noteq> g" for f
    using h that p(1) unfolding holds_def by (metis domI inj_onD)
  then have "holds U ?m (E(g \<mapsto> p)) (V(g \<mapsto> ws[i := Some v]))"
  proof (intro holds_update[OF h])
    show "(q, j) \<in> U \<and> (\<forall>x. 0 \<le> x \<and> x < j \<longrightarrow> ?m (q + x) = op_mem ops s (q + x))" if "f \<noteq> g" "E f = Some q" "(q, j) \<in> U" for f q j
      using other(2)[OF that(2,1,3)] that(3) p(3) ws(2) by auto
    show "(ws[i := Some v]) ! x = Some (?m (p + 4 * int x))" if "x < length (ws[i := Some v])" "ws[i := Some v] ! x \<noteq> None" for x
      using p(4) that by (cases "x = i") auto
  qed (use p(2,3) in auto)
  moreover have "E(g \<mapsto> p) = E" using p(1) by auto
  ultimately show ?thesis using s' ws(3) Store p(1) by auto
qed

lemma runs:
  "inv s U \<Longrightarrow> holds U (op_mem ops s) E V \<Longrightarrow> meaning limit rs V = Some V' \<Longrightarrow>
   run ops rs (E, s) = Some Unreachable \<or>
   (\<exists>E' s' U'. run ops rs (E, s) = Some (Returns (E', s')) \<and> inv s' U' \<and> holds U' (op_mem ops s') E' V')"
proof (induction rs arbitrary: s U E V)
  case (Cons r rs)
  then obtain V1 where V1: "meant limit r V = Some V1" "meaning limit rs V1 = Some V'" by (auto simp: bind_eq_Some_conv)
  from served[OF Cons.prems(1,2) V1(1)] show ?case
  proof (elim disjE exE conjE)
    fix E1 s1 U1
    assume "serve ops r (E, s) = Some (Returns (E1, s1))" "inv s1 U1" "holds U1 (op_mem ops s1) E1 V1"
    then show ?thesis using Cons.IH[of s1 U1 E1 V1] V1(2) by simp
  qed simp
qed auto

lemma started:
  assumes "inv s {}" "meaning limit rs Map.empty = Some V"
  shows "run ops rs (Map.empty, s) = Some Unreachable \<or>
    (\<exists>E s'. run ops rs (Map.empty, s) = Some (Returns (E, s')) \<and> accurate ops (E, s') V)"
proof -
  have "holds {} (op_mem ops s) Map.empty Map.empty" by (simp add: holds_def)
  from runs[OF assms(1) this assms(2)] show ?thesis
  proof (elim disjE exE conjE)
    fix E s' U
    assume r: "run ops rs (Map.empty, s) = Some (Returns (E, s'))" "inv s' U" "holds U (op_mem ops s') E V"
    have "accurate ops (E, s') V"
      unfolding accurate.simps
    proof (intro conjI allI impI)
      show "dom E = dom V" using r(3) unfolding holds_def by blast
      fix h ws assume ws: "V h = Some ws"
      obtain p k where p: "E h = Some p" "(p, k) \<in> U" "4 * int (length ws) \<le> k"
        "\<forall>i<length ws. ws ! i \<noteq> None \<longrightarrow> ws ! i = Some (op_mem ops s' (p + 4 * int i))" by (rule holdsE[OF r(3) ws])
      then show "\<exists>p. E h = Some p \<and> p mod 16 = 0 \<and> 0 < p \<and> p + 4 * int (length ws) \<le> 65536 * op_pages ops s'
        \<and> (\<forall>i<length ws. ws ! i \<noteq> None \<longrightarrow> ws ! i = Some (op_mem ops s' (p + 4 * int i)))"
        using inside[OF r(2) p(2)] by auto
    qed
    then show ?thesis using r(1) by blast
  qed simp
qed

end

end
