(* ===== verification/As_Tlsf.thy ===== *)
theory As_Tlsf
  imports As_Allocator
begin

unbundle bit_operations_syntax

text \<open>
  \<open>std/rt/tlsf.ts\<close>, the memory manager of the library: a two-level segregated fit allocator for 32-bit memory, with its
  assertions, which are compiled in.
\<close>

section \<open>Constants\<close>

definition SL_BITS :: nat where "SL_BITS = 4"
definition SL_SIZE :: nat where "SL_SIZE = push_bit SL_BITS 1"
definition SB_BITS :: nat where "SB_BITS = SL_BITS + AL_BITS"
definition SB_SIZE :: int where "SB_SIZE = push_bit SB_BITS 1"
definition FL_BITS :: nat where "FL_BITS = 31 - SB_BITS"
definition FREE :: int where "FREE = push_bit 0 1"
definition LEFTFREE :: int where "LEFTFREE = push_bit 1 1"
definition TAGS_MASK :: int where "TAGS_MASK = FREE OR LEFTFREE"
definition BLOCK_MINSIZE :: int where "BLOCK_MINSIZE = ((3 * 4 + BLOCK_OVERHEAD + AL_MASK) AND NOT AL_MASK) - BLOCK_OVERHEAD"
definition SL_START :: int where "SL_START = 4"
definition SL_END :: int where "SL_END = SL_START + push_bit 2 (int FL_BITS)"
definition HL_START :: int where "HL_START = (SL_END + AL_MASK) AND NOT AL_MASK"
definition HL_END :: int where "HL_END = HL_START + int FL_BITS * int SL_SIZE * 4"
definition ROOT_SIZE :: int where "ROOT_SIZE = HL_END + 4"

lemmas tlsf_constants = AL_BITS_def AL_SIZE_def AL_MASK_def BLOCK_OVERHEAD_def SL_BITS_def SL_SIZE_def SB_BITS_def
  SB_SIZE_def FL_BITS_def FREE_def LEFTFREE_def TAGS_MASK_def BLOCK_MINSIZE_def SL_START_def SL_END_def HL_START_def
  HL_END_def ROOT_SIZE_def

section \<open>Blocks and the root\<close>

text \<open>The fields of a block: its information at 0, the previous and the next free block at 4 and 8.\<close>

definition prev_field :: "int \<Rightarrow> int" where "prev_field block = block + 4"
definition next_field :: "int \<Rightarrow> int" where "next_field block = block + 8"

definition GETFREELEFT :: "memory \<Rightarrow> int \<Rightarrow> int" where
  "GETFREELEFT m block = m (block - 4)"

definition GETRIGHT :: "memory \<Rightarrow> int \<Rightarrow> int" where
  "GETRIGHT m block = u32 (block + BLOCK_OVERHEAD + (m block AND NOT TAGS_MASK))"

definition sl_slot :: "int \<Rightarrow> nat \<Rightarrow> int" where
  "sl_slot rt fl = rt + push_bit 2 (int fl) + SL_START"

definition head_slot :: "int \<Rightarrow> nat \<Rightarrow> nat \<Rightarrow> int" where
  "head_slot rt fl sl = rt + push_bit 2 (push_bit SL_BITS (int fl) + int sl) + HL_START"

definition GETSL :: "memory \<Rightarrow> int \<Rightarrow> nat \<Rightarrow> int" where
  "GETSL m rt fl = m (sl_slot rt fl)"

definition SETSL :: "memory \<Rightarrow> int \<Rightarrow> nat \<Rightarrow> int \<Rightarrow> memory" where
  "SETSL m rt fl slMap = m(sl_slot rt fl := slMap)"

definition GETHEAD :: "memory \<Rightarrow> int \<Rightarrow> nat \<Rightarrow> nat \<Rightarrow> int" where
  "GETHEAD m rt fl sl = m (head_slot rt fl sl)"

definition SETHEAD :: "memory \<Rightarrow> int \<Rightarrow> nat \<Rightarrow> nat \<Rightarrow> int \<Rightarrow> memory" where
  "SETHEAD m rt fl sl head = m(head_slot rt fl sl := head)"

definition GETTAIL :: "memory \<Rightarrow> int \<Rightarrow> int" where
  "GETTAIL m rt = m (rt + HL_END)"

definition SETTAIL :: "memory \<Rightarrow> int \<Rightarrow> int \<Rightarrow> memory" where
  "SETTAIL m rt tail = m(rt + HL_END := tail)"

text \<open>The mapping from sizes to lists that insertion and removal share.\<close>

definition mapping_insert :: "int \<Rightarrow> nat \<times> nat" where
  "mapping_insert sz =
     (if sz < SB_SIZE then (0, nat (drop_bit AL_BITS sz))
      else
        (let boundedSize = min sz BLOCK_MAXSIZE;
             fl = 31 - clz 32 boundedSize;
             sl = nat (drop_bit (fl - SL_BITS) boundedSize XOR push_bit SL_BITS 1)
         in (fl - (SB_BITS - 1), sl)))"

section \<open>Removing and inserting free blocks\<close>

definition unlink :: "int \<Rightarrow> int \<Rightarrow> int \<Rightarrow> memory \<Rightarrow> memory" where
  "unlink rt prev next m =
     (let m = (if prev \<noteq> 0 then m(next_field prev := next) else m)
      in if next \<noteq> 0 then m(prev_field next := prev) else m)"

definition unhead :: "int \<Rightarrow> nat \<Rightarrow> nat \<Rightarrow> int \<Rightarrow> memory \<Rightarrow> memory" where
  "unhead rt fl sl next m =
     (let m = SETHEAD m rt fl sl next
      in if next = 0 then
           (let slMap = GETSL m rt fl AND NOT (push_bit sl 1);
                m = SETSL m rt fl slMap
            in if slMap = 0 then m(rt := m rt AND NOT (push_bit fl 1)) else m)
         else m)"

definition removeBlock :: "int \<Rightarrow> int \<Rightarrow> memory \<Rightarrow> memory option" where
  "removeBlock rt block m =
     (let blockInfo = m block;
          sz = blockInfo AND NOT TAGS_MASK;
          (fl, sl) = mapping_insert sz
      in if blockInfo AND FREE = 0 \<or> sz < BLOCK_MINSIZE \<or> \<not> (fl < FL_BITS \<and> sl < SL_SIZE) then None
         else
           (let next = m (next_field block);
                m = unlink rt (m (prev_field block)) next m
            in Some (if block = GETHEAD m rt fl sl then unhead rt fl sl next m else m)))"

definition link :: "int \<Rightarrow> int \<Rightarrow> int \<Rightarrow> memory \<Rightarrow> memory option" where
  "link rt block sz m =
     (let (fl, sl) = mapping_insert sz
      in if \<not> (fl < FL_BITS \<and> sl < SL_SIZE) then None
         else
           (let head = GETHEAD m rt fl sl;
                m = m(prev_field block := 0);
                m = m(next_field block := head);
                m = (if head \<noteq> 0 then m(prev_field head := block) else m);
                m = SETHEAD m rt fl sl block;
                m = m(rt := m rt OR push_bit fl 1)
            in Some (SETSL m rt fl (GETSL m rt fl OR push_bit sl 1))))"

text \<open>The merges of \<open>insertBlock\<close> with the right and with the left neighbour.\<close>

definition merge_right :: "int \<Rightarrow> int \<Rightarrow> memory \<Rightarrow> (memory \<times> int \<times> int \<times> int) option" where
  "merge_right rt block m =
     (let blockInfo = m block;
          right = GETRIGHT m block;
          rightInfo = m right
      in if rightInfo AND FREE \<noteq> 0 then do {
           m \<leftarrow> removeBlock rt right m;
           let blockInfo = u32 (blockInfo + BLOCK_OVERHEAD + (rightInfo AND NOT TAGS_MASK));
           let m = m(block := blockInfo);
           let right = GETRIGHT m block;
           Some (m, blockInfo, right, m right)
         } else Some (m, blockInfo, right, rightInfo))"

definition merge_left :: "int \<Rightarrow> int \<Rightarrow> int \<Rightarrow> memory \<Rightarrow> (memory \<times> int \<times> int) option" where
  "merge_left rt block blockInfo m =
     (if blockInfo AND LEFTFREE \<noteq> 0 then
        (let left = GETFREELEFT m block;
             leftInfo = m left
         in if leftInfo AND FREE = 0 then None
            else do {
              m \<leftarrow> removeBlock rt left m;
              let blockInfo = u32 (leftInfo + BLOCK_OVERHEAD + (blockInfo AND NOT TAGS_MASK));
              Some (m(left := blockInfo), left, blockInfo)
            })
      else Some (m, block, blockInfo))"

definition insertBlock :: "int \<Rightarrow> int \<Rightarrow> memory \<Rightarrow> memory option" where
  "insertBlock rt block m =
     (if block = 0 \<or> m block AND FREE = 0 then None
      else do {
        (m, blockInfo, right, rightInfo) \<leftarrow> merge_right rt block m;
        (m, block, blockInfo) \<leftarrow> merge_left rt block blockInfo m;
        let m = m(right := rightInfo OR LEFTFREE);
        let sz = blockInfo AND NOT TAGS_MASK;
        if sz < BLOCK_MINSIZE \<or> u32 (block + BLOCK_OVERHEAD + sz) \<noteq> right then None
        else link rt block sz (m(right - 4 := block))
      })"

section \<open>Searching and splitting\<close>

definition roundSize :: "int \<Rightarrow> int" where
  "roundSize sz =
     (if sz < drop_bit 1 BLOCK_MAXSIZE then u32 (sz + push_bit ((31 - SL_BITS) - clz 32 sz) 1 - 1) else sz)"

definition mapping_search :: "int \<Rightarrow> nat \<times> nat" where
  "mapping_search sz =
     (if sz < SB_SIZE then (0, nat (drop_bit AL_BITS sz))
      else
        (let requestSize = roundSize sz;
             fl = 31 - clz 32 requestSize;
             sl = nat (drop_bit (fl - SL_BITS) requestSize XOR push_bit SL_BITS 1)
         in (fl - (SB_BITS - 1), sl)))"

text \<open>The head of a list of blocks that are large enough, or 0.\<close>

definition searchBlock :: "int \<Rightarrow> int \<Rightarrow> memory \<Rightarrow> int option" where
  "searchBlock rt sz m =
     (let (fl, sl) = mapping_search sz
      in if \<not> (fl < FL_BITS \<and> sl < SL_SIZE) then None
         else
           (let slMap = GETSL m rt fl AND push_bit sl (NOT 0)
            in if slMap = 0 then
                 (let flMap = m rt AND push_bit (fl + 1) (NOT 0)
                  in if flMap = 0 then Some 0
                     else
                       (let fl = ctz 32 flMap;
                            slMap = GETSL m rt fl
                        in if slMap = 0 then None else Some (GETHEAD m rt fl (ctz 32 slMap))))
               else Some (GETHEAD m rt fl (ctz 32 slMap))))"

definition prepareBlock :: "int \<Rightarrow> int \<Rightarrow> int \<Rightarrow> memory \<Rightarrow> memory option" where
  "prepareBlock rt block sz m =
     (let blockInfo = m block;
          remaining = u32 ((blockInfo AND NOT TAGS_MASK) - sz)
      in if (sz + BLOCK_OVERHEAD) AND AL_MASK \<noteq> 0 then None
         else if remaining \<ge> BLOCK_OVERHEAD + BLOCK_MINSIZE then
           (let m = m(block := sz OR (blockInfo AND LEFTFREE));
                spare = u32 (block + BLOCK_OVERHEAD + sz);
                m = m(spare := (remaining - BLOCK_OVERHEAD) OR FREE)
            in insertBlock rt spare m)
         else
           (let m = m(block := blockInfo AND NOT FREE);
                right = GETRIGHT m block
            in Some (m(right := m right AND NOT LEFTFREE))))"

section \<open>Memory\<close>

record heap =
  hp_mem :: memory
  hp_pages :: int
  hp_root :: int

definition align_up :: "int \<Rightarrow> int" where
  "align_up x = u32 (x + AL_MASK) AND NOT AL_MASK"

definition addMemory :: "int \<Rightarrow> int \<Rightarrow> int \<Rightarrow> memory \<Rightarrow> (bool \<times> memory) option" where
  "addMemory rt start endU64 m =
     (if endU64 < start then None
      else
        (let end = u32 endU64;
             start = u32 (align_up (start + BLOCK_OVERHEAD) - BLOCK_OVERHEAD);
             end = end AND NOT AL_MASK;
             tail = GETTAIL m rt
         in if (if tail \<noteq> 0 then start < tail + BLOCK_OVERHEAD else start < rt + ROOT_SIZE) then None
            else
              (let (start, tailInfo) =
                     (if tail \<noteq> 0 \<and> u32 (start - AL_SIZE) = tail then (u32 (start - AL_SIZE), m tail) else (start, 0));
                   sz = u32 (end - start)
               in if sz < BLOCK_OVERHEAD + BLOCK_MINSIZE + BLOCK_OVERHEAD then Some (False, m)
                  else
                    (let leftSize = sz - 2 * BLOCK_OVERHEAD;
                         m = m(start := (leftSize OR FREE) OR (tailInfo AND LEFTFREE));
                         m = m(prev_field start := 0);
                         m = m(next_field start := 0);
                         tail = u32 (start + BLOCK_OVERHEAD + leftSize);
                         m = m(tail := 0 OR LEFTFREE);
                         m = SETTAIL m rt tail
                     in do { m \<leftarrow> insertBlock rt start m; Some (True, m) }))))"

definition growMemory :: "config \<Rightarrow> int \<Rightarrow> heap \<Rightarrow> heap outcome option" where
  "growMemory cfg sz s =
     (if low_memory_limit cfg \<noteq> 0 then Some Unreachable
      else
        (let rt = hp_root s;
             sz = (if sz \<ge> SB_SIZE then roundSize sz else sz);
             pagesBefore = hp_pages s;
             apart = u32 (u32 (push_bit 16 pagesBefore) - BLOCK_OVERHEAD) \<noteq> GETTAIL (hp_mem s) rt;
             sz = u32 (sz + push_bit (of_bool apart) BLOCK_OVERHEAD);
             pagesNeeded = drop_bit 16 (u32 (sz + 0xFFFF) AND NOT 0xFFFF);
             pagesWanted = max pagesBefore pagesNeeded;
             pagesAfter = (if can_grow cfg pagesBefore pagesWanted then pagesBefore + pagesWanted
                           else pagesBefore + pagesNeeded)
         in if \<not> can_grow cfg pagesBefore pagesWanted \<and> \<not> can_grow cfg pagesBefore pagesNeeded then Some Unreachable
            else do {
              (added, m) \<leftarrow> addMemory rt (u32 (push_bit 16 pagesBefore)) (push_bit 16 pagesAfter) (hp_mem s);
              Some (Returns (s\<lparr>hp_mem := m, hp_pages := pagesAfter\<rparr>))
            }))"

definition computeSize :: "int \<Rightarrow> int" where
  "computeSize sz =
     (if sz \<le> BLOCK_MINSIZE then BLOCK_MINSIZE
      else (u32 (sz + BLOCK_OVERHEAD + AL_MASK) AND NOT AL_MASK) - BLOCK_OVERHEAD)"

definition prepareSize :: "int \<Rightarrow> int outcome option" where
  "prepareSize sz = Some (if sz > BLOCK_MAXSIZE then Throws E_ALLOCATION_TOO_LARGE else Returns (computeSize sz))"

text \<open>The empty root: all the words before the tail are cleared.\<close>

definition clear_root :: "int \<Rightarrow> memory \<Rightarrow> memory" where
  "clear_root rt m =
     fold (\<lambda>fl m. fold (\<lambda>sl m. SETHEAD m rt fl sl 0) [0..<SL_SIZE] (SETSL m rt fl 0)) [0..<FL_BITS]
       (SETTAIL (m(rt := 0)) rt 0)"

definition initialize :: "config \<Rightarrow> heap \<Rightarrow> heap outcome option" where
  "initialize cfg s =
     (let rt = align_up (heap_base cfg);
          pagesBefore = hp_pages s;
          pagesNeeded = drop_bit 16 (u32 (rt + ROOT_SIZE + 0xFFFF) AND NOT 0xFFFF);
          pages = max pagesBefore pagesNeeded
      in if pagesNeeded > pagesBefore \<and> \<not> can_grow cfg pagesBefore (pagesNeeded - pagesBefore) then Some Unreachable
         else
           (let m = clear_root rt (hp_mem s);
                memStart = rt + ROOT_SIZE;
                memEnd = (if low_memory_limit cfg \<noteq> 0 then low_memory_limit cfg AND NOT AL_MASK else push_bit 16 pages)
            in if low_memory_limit cfg \<noteq> 0 \<and> memStart > memEnd then Some Unreachable
               else do {
                 (added, m) \<leftarrow> addMemory rt memStart memEnd m;
                 Some (Returns \<lparr>hp_mem = m, hp_pages = pages, hp_root = rt\<rparr>)
               }))"

section \<open>The operations\<close>

definition allocateBlock :: "config \<Rightarrow> int \<Rightarrow> heap \<Rightarrow> (int \<times> heap) outcome option" where
  "allocateBlock cfg sz s =
     continue (prepareSize sz) (\<lambda>payloadSize. do {
       found \<leftarrow> searchBlock (hp_root s) payloadSize (hp_mem s);
       continue
         (if found \<noteq> 0 then Some (Returns (found, s))
          else continue (growMemory cfg payloadSize s) (\<lambda>s. do {
            found \<leftarrow> searchBlock (hp_root s) payloadSize (hp_mem s);
            Some (Returns (found, s))
          }))
         (\<lambda>(block, s).
            if block = 0 \<or> hp_mem s block AND NOT TAGS_MASK < payloadSize then None
            else do {
              m \<leftarrow> removeBlock (hp_root s) block (hp_mem s);
              m \<leftarrow> prepareBlock (hp_root s) block payloadSize m;
              Some (Returns (block, s\<lparr>hp_mem := m\<rparr>))
            })
     })"

definition freeBlock :: "int \<Rightarrow> heap \<Rightarrow> heap option" where
  "freeBlock block s = do {
     m \<leftarrow> insertBlock (hp_root s) block ((hp_mem s)(block := hp_mem s block OR FREE));
     Some (s\<lparr>hp_mem := m\<rparr>)
   }"

definition moveBlock :: "config \<Rightarrow> int \<Rightarrow> int \<Rightarrow> heap \<Rightarrow> (int \<times> heap) outcome option" where
  "moveBlock cfg block newSize s =
     continue (allocateBlock cfg newSize s) (\<lambda>(newBlock, s).
       let s = s\<lparr>hp_mem := memory_copy (newBlock + BLOCK_OVERHEAD) (block + BLOCK_OVERHEAD)
                               (hp_mem s block AND NOT TAGS_MASK) (hp_mem s)\<rparr>
       in if block \<ge> heap_base cfg then do { s \<leftarrow> freeBlock block s; Some (Returns (newBlock, s)) }
          else Some (Returns (newBlock, s)))"

definition reallocateBlock :: "config \<Rightarrow> int \<Rightarrow> int \<Rightarrow> heap \<Rightarrow> (int \<times> heap) outcome option" where
  "reallocateBlock cfg block sz s =
     continue (prepareSize sz) (\<lambda>payloadSize.
       let m = hp_mem s;
           rt = hp_root s;
           blockInfo = m block;
           blockSize = blockInfo AND NOT TAGS_MASK;
           right = GETRIGHT m block;
           rightInfo = m right;
           mergeSize = u32 (blockSize + BLOCK_OVERHEAD + (rightInfo AND NOT TAGS_MASK))
       in if payloadSize \<le> blockSize then do {
            m \<leftarrow> prepareBlock rt block payloadSize m;
            Some (Returns (block, s\<lparr>hp_mem := m\<rparr>))
          } else if rightInfo AND FREE \<noteq> 0 \<and> mergeSize \<ge> payloadSize then do {
            m \<leftarrow> removeBlock rt right m;
            m \<leftarrow> prepareBlock rt block payloadSize (m(block := (blockInfo AND TAGS_MASK) OR mergeSize));
            Some (Returns (block, s\<lparr>hp_mem := m\<rparr>))
          } else moveBlock cfg block sz s)"

definition checkUsedBlock :: "int \<Rightarrow> heap \<Rightarrow> int option" where
  "checkUsedBlock ptr s =
     (let block = u32 (ptr - BLOCK_OVERHEAD)
      in if ptr \<noteq> 0 \<and> ptr AND AL_MASK = 0 \<and> hp_mem s block AND FREE = 0 then Some block else None)"

definition ensure :: "config \<Rightarrow> heap \<Rightarrow> heap outcome option" where
  "ensure cfg s = (if hp_root s = 0 then initialize cfg s else Some (Returns s))"

definition alloc :: "config \<Rightarrow> int \<Rightarrow> heap \<Rightarrow> (int \<times> heap) outcome option" where
  "alloc cfg sz s =
     continue (ensure cfg s) (\<lambda>s. continue (allocateBlock cfg sz s) (\<lambda>(block, s). Some (Returns (block + BLOCK_OVERHEAD, s))))"

definition realloc :: "config \<Rightarrow> int \<Rightarrow> int \<Rightarrow> heap \<Rightarrow> (int \<times> heap) outcome option" where
  "realloc cfg ptr sz s =
     continue (ensure cfg s) (\<lambda>s. do {
       block \<leftarrow> checkUsedBlock ptr s;
       continue (if ptr < heap_base cfg then moveBlock cfg block sz s else reallocateBlock cfg block sz s)
         (\<lambda>(block, s). Some (Returns (block + BLOCK_OVERHEAD, s)))
     })"

definition free :: "config \<Rightarrow> int \<Rightarrow> heap \<Rightarrow> heap outcome option" where
  "free cfg ptr s =
     (if ptr < heap_base cfg then Some (Returns s)
      else continue (ensure cfg s) (\<lambda>s. do {
        block \<leftarrow> checkUsedBlock ptr s;
        s \<leftarrow> freeBlock block s;
        Some (Returns s)
      }))"

end
