(* ===== verification/As_Tlsf_Sizes.thy ===== *)
theory As_Tlsf_Sizes
  imports As_Tlsf
begin

unbundle bit_operations_syntax

text \<open>
  The words and the size classes of the allocator: a block's information is its size with two tags in the low bits, the
  mapping of sizes to lists is monotone, and the search starts at a list all of whose blocks are large enough.
\<close>

section \<open>Information words\<close>

definition info :: "int \<Rightarrow> bool \<Rightarrow> bool \<Rightarrow> int" where
  "info sz f l = sz + of_bool f + 2 * of_bool l"

lemma low_bits: "(sz :: int) mod 4 = 0 \<Longrightarrow> n < 2 \<Longrightarrow> \<not> bit sz n"
proof -
  assume sz: "sz mod 4 = 0" "n < 2"
  then have "take_bit 2 sz = 0" by (simp add: take_bit_eq_mod)
  then show "\<not> bit sz n" using sz(2) by (metis bit_0_eq bit_take_bit_iff bot_apply bot_bool_def)
qed

lemma bit_info:
  assumes "sz mod 4 = 0"
  shows "bit (info sz f l) n \<longleftrightarrow> n = 0 \<and> f \<or> n = 1 \<and> l \<or> 2 \<le> n \<and> bit sz n"
proof -
  let ?t = "of_bool f OR push_bit 1 (of_bool l) :: int"
  have t: "bit ?t i \<longleftrightarrow> i = 0 \<and> f \<or> i = 1 \<and> l" for i
    by (auto simp: bit_simps)
  have "sz AND ?t = 0"
    by (rule bit_eqI, simp only: bit_and_iff t bit_0_eq bot_apply) (use low_bits[OF assms] in fastforce)
  then have "sz + ?t = sz OR ?t" by (rule disjunctive_add_eq_or)
  moreover have "?t = of_bool f + 2 * of_bool l" by (cases f; cases l) simp_all
  ultimately have "info sz f l = sz OR ?t" by (simp add: info_def add.assoc)
  then have "bit (info sz f l) n \<longleftrightarrow> bit sz n \<or> (n = 0 \<and> f \<or> n = 1 \<and> l)" by (simp only: bit_or_iff t[unfolded bit_or_iff])
  then show ?thesis using low_bits[OF assms, of n] by (cases "2 \<le> n") auto
qed

lemma bit_tags: "bit TAGS_MASK n \<longleftrightarrow> n < 2" "bit FREE n \<longleftrightarrow> n = 0" "bit LEFTFREE n \<longleftrightarrow> n = 1"
proof -
  have tags: "TAGS_MASK = mask 2" "FREE = 2 ^ 0" "LEFTFREE = 2 ^ 1" by (simp_all add: tlsf_constants mask_eq_exp_minus_1)
  show "bit TAGS_MASK n \<longleftrightarrow> n < 2" "bit FREE n \<longleftrightarrow> n = 0" "bit LEFTFREE n \<longleftrightarrow> n = 1"
    by (simp_all only: tags bit_mask_iff bit_exp_iff) auto
qed

lemma info_bits:
  assumes "sz mod 4 = 0"
  shows info_size: "info sz f l AND NOT TAGS_MASK = sz"
    and info_free: "info sz f l AND FREE = of_bool f"
    and info_left: "info sz f l AND LEFTFREE = 2 * of_bool l"
    and info_tags: "info sz f l AND TAGS_MASK = info 0 f l"
    and set_free: "info sz f l OR FREE = info sz True l"
    and set_left: "info sz f l OR LEFTFREE = info sz f True"
    and clear_free: "info sz f l AND NOT FREE = info sz False l"
    and clear_left: "info sz f l AND NOT LEFTFREE = info sz f False"
proof -
  note bits = bit_info[OF assms] bit_tags bit_and_iff bit_or_iff bit_not_iff
  have zero: "bit (info 0 f l) n \<longleftrightarrow> n = 0 \<and> f \<or> n = 1 \<and> l" for n using bit_info[of 0 f l n] by simp
  have of_bools: "bit (of_bool f :: int) n \<longleftrightarrow> n = 0 \<and> f" "bit (2 * of_bool l :: int) n \<longleftrightarrow> n = 1 \<and> l" for n
    by (cases n; auto simp: bit_simps bit_double_iff)+
  show "info sz f l AND NOT TAGS_MASK = sz"
    by (rule bit_eqI) (use low_bits[OF assms] in \<open>auto simp: bits not_less intro: leI\<close>)
  show "info sz f l AND FREE = of_bool f" by (rule bit_eqI) (auto simp: bits of_bools)
  show "info sz f l AND LEFTFREE = 2 * of_bool l" by (rule bit_eqI) (auto simp: bits of_bools)
  show "info sz f l AND TAGS_MASK = info 0 f l" by (rule bit_eqI) (auto simp: bits zero)
  show "info sz f l OR FREE = info sz True l" by (rule bit_eqI) (auto simp: bits)
  show "info sz f l OR LEFTFREE = info sz f True" by (rule bit_eqI) (auto simp: bits)
  show "info sz f l AND NOT FREE = info sz False l" by (rule bit_eqI) (auto simp: bits)
  show "info sz f l AND NOT LEFTFREE = info sz f False" by (rule bit_eqI) (auto simp: bits)
qed

lemma info_join: "sz mod 4 = 0 \<Longrightarrow> sz OR info 0 f l = info sz f l" "sz mod 4 = 0 \<Longrightarrow> info 0 f l OR sz = info sz f l"
proof -
  assume sz: "sz mod 4 = 0"
  have zero: "bit (info 0 f l) n \<longleftrightarrow> n = 0 \<and> f \<or> n = 1 \<and> l" for n using bit_info[of 0 f l n] by simp
  show "sz OR info 0 f l = info sz f l"
    by (rule bit_eqI) (use low_bits[OF sz] in \<open>auto simp: bit_or_iff zero bit_info[OF sz] intro: leI\<close>)
  then show "info 0 f l OR sz = info sz f l" by (simp add: or.commute)
qed

lemma tag_words: "FREE = info 0 True False" "LEFTFREE = info 0 False True" "2 * of_bool l = info 0 False l"
  by (simp_all add: info_def FREE_def LEFTFREE_def)

lemma tagged_free: "sz mod 4 = 0 \<Longrightarrow> (info sz f l AND FREE = 0) = (\<not> f)"
    and tagged_left: "sz mod 4 = 0 \<Longrightarrow> (info sz f l AND LEFTFREE = 0) = (\<not> l)"
  by (simp_all add: info_free info_left)

section \<open>Sizes and lists\<close>

lemma tlsf_numbers: "AL_SIZE = 16" "AL_MASK = 15" "BLOCK_OVERHEAD = 4" "SL_SIZE = 16" "SB_SIZE = 256" "FL_BITS = 23"
    "BLOCK_MINSIZE = 12" "HL_START = 96" "HL_END = 1568" "ROOT_SIZE = 1572" "SB_BITS = 8" "SL_BITS = 4"
    "BLOCK_MAXSIZE = 1073741820" "SL_START = 4" "AL_BITS = 4"
  by (simp_all add: tlsf_constants BLOCK_MAXSIZE_def)

lemma align_bits: "x AND NOT 15 = x - x mod (16 :: int)" "x AND 15 = x mod (16 :: int)"
proof -
  show mod: "x AND 15 = x mod 16" using take_bit_eq_mask[of 4 x] by (simp add: take_bit_eq_mod mask_eq_exp_minus_1)
  have "(x AND mask 4) AND (x AND NOT (mask 4)) = 0" by (rule bit_eqI) (simp add: bit_and_iff bit_not_iff)
  then have "(x AND mask 4) + (x AND NOT (mask 4)) = (x AND mask 4) OR (x AND NOT (mask 4))" by (rule disjunctive_add_eq_or)
  also have "\<dots> = x" by (rule bit_eqI) (auto simp: bit_and_iff bit_or_iff bit_not_iff)
  finally have "x = (x AND 15) + (x AND NOT 15)" by (simp add: mask_eq_exp_minus_1)
  then show "x AND NOT 15 = x - x mod 16" using mod by linarith
qed

lemma ctz_bit: "bit x i \<Longrightarrow> i < w \<Longrightarrow> bit x (ctz w x) \<and> ctz w x \<le> i"
proof -
  assume i: "bit x i" "i < w"
  let ?t = "takeWhile (\<lambda>i. \<not> bit x i) [0..<w]"
  have le: "length ?t \<le> i"
  proof (rule ccontr)
    assume "\<not> length ?t \<le> i"
    then have "i < length ?t" by simp
    then have "?t ! i = i" "?t ! i \<in> set ?t" using i(2) takeWhile_nth[OF \<open>i < length ?t\<close>] nth_mem[OF \<open>i < length ?t\<close>] by simp_all
    then show False using i(1) set_takeWhileD by metis
  qed
  then have "length ?t < length [0..<w]" using i(2) by simp
  from nth_length_takeWhile[OF this] have "bit x (length ?t)" using le i(2) by simp
  with le show ?thesis by (simp add: ctz_def)
qed

lemma high_bits: "bit (x AND push_bit n (NOT 0)) i \<longleftrightarrow> n \<le> i \<and> bit (x :: int) i"
  by (auto simp: bit_and_iff bit_push_bit_iff bit_not_iff bit_mask_iff)

lemma bit_set: "bit (x OR 2 ^ n) i \<longleftrightarrow> i = n \<or> bit (x :: int) i"
  by (auto simp: bit_or_iff bit_exp_iff)

lemma bit_cleared: "bit (x AND NOT (2 ^ n)) i \<longleftrightarrow> i \<noteq> n \<and> bit (x :: int) i"
  by (auto simp: bit_and_iff bit_exp_iff bit_not_iff)

lemma no_bits: "(x :: int) = 0 \<longleftrightarrow> (\<forall>i. \<not> bit x i)"
  by (simp add: bit_eq_iff)

text \<open>The classes of sizes in the order of their lists, and the least size of a class.\<close>

definition class_of :: "nat \<times> nat \<Rightarrow> nat" where
  "class_of c = 16 * fst c + snd c"

definition least_size :: "nat \<Rightarrow> int" where
  "least_size c = (if c < 16 then 16 * int c else 2 ^ (c div 16 + 3) * (16 + int (c mod 16)))"

lemma least_size_mono: "c \<le> d \<Longrightarrow> least_size c \<le> least_size d"
proof (rule lift_Suc_mono_le)
  fix n
  show "least_size n \<le> least_size (Suc n)"
  proof (cases "n < 16")
    case True
    then show ?thesis by (cases "n = 15") (simp_all add: least_size_def)
  next
    case False
    define P where "P = (2 :: int) ^ (n div 16 + 3)"
    have P: "0 < P" "least_size n = P * (16 + int (n mod 16))" using False by (simp_all add: P_def least_size_def)
    have S: "least_size (Suc n) = 2 ^ (Suc n div 16 + 3) * (16 + int (Suc n mod 16))" using False by (simp only: least_size_def) simp
    show ?thesis
    proof (cases "n mod 16 = 15")
      case True
      then have q: "Suc n div 16 = Suc (n div 16)" "int (n mod 16) = 15" "int (Suc n mod 16) = 0" by (simp_all add: div_Suc mod_Suc)
      have "least_size (Suc n) = 2 ^ (Suc (n div 16) + 3) * (16 + 0)" using S unfolding q .
      also have "\<dots> = 32 * P" by (simp add: P_def power_add)
      finally show ?thesis using P(1) unfolding P(2) q(2) by simp
    next
      case other: False
      then have "Suc n div 16 = n div 16" "int (Suc n mod 16) = int (n mod 16) + 1" by (simp_all add: div_Suc mod_Suc)
      with S have "least_size (Suc n) = P * (16 + (int (n mod 16) + 1))" by (simp only: P_def)
      then show ?thesis using P by (simp add: mult_left_mono)
    qed
  qed
qed

lemma xor_16: "\<forall>x\<in>set [16..31]. x XOR 16 = x - (16 :: int)"
  by code_simp

lemma div_between: "0 < d \<Longrightarrow> l * d \<le> b \<Longrightarrow> b < u * d \<Longrightarrow> l \<le> b div d \<and> b div d < (u :: int)"
proof -
  assume d: "0 < d" "l * d \<le> b" "b < u * d"
  have "l * d div d \<le> b div d" using d by (intro zdiv_mono1) simp_all
  moreover have "b div d * d \<le> b" using minus_mod_eq_div_mult[of b d] pos_mod_sign[OF d(1), of b] by linarith
  then have "b div d * d < u * d" using d(3) by linarith
  ultimately show ?thesis using d(1) by simp
qed

lemma mapping_bits:
  assumes "2 ^ p \<le> b" "b < 2 ^ Suc p" "8 \<le> p" "p < 32"
  shows "31 - clz 32 b = p" "16 \<le> b div 2 ^ (p - 4)" "b div 2 ^ (p - 4) < 32"
    "nat (drop_bit (p - 4) b XOR push_bit 4 1) = nat (b div 2 ^ (p - 4)) - 16"
proof -
  have "0 < b" using assms(1) by (smt (verit) zero_less_power)
  then obtain n where n: "b = int n" by (metis nonneg_int_cases order_less_imp_le)
  have "int (2 ^ p) \<le> int n" "int n < int (2 ^ Suc p)" using assms(1,2) n by simp_all
  then have "2 ^ p \<le> n" "n < 2 ^ Suc p" by (simp_all only: of_nat_le_iff of_nat_less_iff)
  then have "clz 32 b = 32 - Suc p" unfolding n using assms(4) by (rule clz_between)
  then show "31 - clz 32 b = p" using assms(4) by simp
  have e: "2 ^ p = 16 * (2 :: int) ^ (p - 4)" using assms(3) power_add[of "2 :: int" 4 "p - 4"] by simp
  then have "16 \<le> b div 2 ^ (p - 4) \<and> b div 2 ^ (p - 4) < 32" using assms(1,2) by (intro div_between) simp_all
  then show ge: "16 \<le> b div 2 ^ (p - 4)" and lt: "b div 2 ^ (p - 4) < 32" by simp_all
  have "b div 2 ^ (p - 4) \<in> set [16..31]" using ge lt by (simp only: set_upto atLeastAtMost_iff) simp
  from bspec[OF xor_16 this] show "nat (drop_bit (p - 4) b XOR push_bit 4 1) = nat (b div 2 ^ (p - 4)) - 16"
    using ge by (simp add: drop_bit_eq_div nat_diff_distrib)
qed

lemma int_ivl: "0 < (b :: int) \<Longrightarrow> b < 2 ^ w \<Longrightarrow> \<exists>p<w. 2 ^ p \<le> b \<and> b < 2 ^ Suc p"
proof -
  assume b: "0 < b" "b < 2 ^ w"
  then obtain n where n: "b = int n" "0 < n" by (metis nonneg_int_cases order_less_imp_le of_nat_0_less_iff)
  obtain p where p: "2 ^ p \<le> n" "n < 2 ^ (p + 1)" using ex_power_ivl1[of 2 n] n(2) by auto
  have "int (2 ^ p) \<le> b" "b < int (2 ^ Suc p)" using p n(1) by (simp_all only: of_nat_le_iff of_nat_less_iff Suc_eq_plus1)
  then have "(2 :: int) ^ p \<le> b" "b < 2 ^ Suc p" by simp_all
  moreover from this(1) have "(2 :: int) ^ p < 2 ^ w" using b(2) by linarith
  then have "p < w" by simp
  ultimately show ?thesis by blast
qed

text \<open>The list of a size from 256, for a power of two below it.\<close>

definition power_class :: "nat \<Rightarrow> int \<Rightarrow> nat \<times> nat" where
  "power_class p b = (p - 7, nat (b div 2 ^ (p - 4)) - 16)"

lemma power_class_bounds:
  assumes "2 ^ p \<le> b" "b < 2 ^ Suc p" "8 \<le> p" "p < 30" "power_class p b = (fl, sl)"
  shows "0 < fl" "fl < 23" "sl < 16" "least_size (class_of (fl, sl)) \<le> b" "b < least_size (Suc (class_of (fl, sl)))"
    "b < least_size (class_of (fl, sl)) + 2 ^ (p - 4)" "2 ^ p \<le> least_size (class_of (fl, sl))"
proof -
  have "p < 32" using assms(4) by simp
  note b = mapping_bits[OF assms(1-3) this]
  let ?q = "b div 2 ^ (p - 4)"
  have c: "fl = p - 7" "sl = nat ?q - 16" using assms(5) by (simp_all add: power_class_def)
  show "0 < fl" "fl < 23" using c(1) assms(3,4) by simp_all
  have "nat ?q < 32" using b(2,3) by linarith
  then show "sl < 16" using c(2) by simp
  have cls: "class_of (fl, sl) div 16 = fl" "class_of (fl, sl) mod 16 = sl" "\<not> class_of (fl, sl) < 16"
    using \<open>sl < 16\<close> \<open>0 < fl\<close> by (simp_all add: class_of_def)
  have "16 + int sl = ?q" using c(2) b(2) by simp
  moreover have "fl + 3 = p - 4" using c(1) assms(3) by simp
  ultimately have least: "least_size (class_of (fl, sl)) = 2 ^ (p - 4) * ?q" using cls by (simp only: least_size_def) simp
  have div: "2 ^ (p - 4) * ?q = b - b mod 2 ^ (p - 4)" by (simp add: minus_mod_eq_mult_div)
  have rem: "0 \<le> b mod 2 ^ (p - 4)" "b mod 2 ^ (p - 4) < 2 ^ (p - 4)" by simp_all
  show "least_size (class_of (fl, sl)) \<le> b" unfolding least div using rem by linarith
  have "2 ^ p = 2 ^ (p - 4) * (16 :: int)" using assms(3) power_add[of "2 :: int" "p - 4" 4] by simp
  also have "\<dots> \<le> 2 ^ (p - 4) * ?q" using b(2) by (intro mult_left_mono) simp_all
  finally show "2 ^ p \<le> least_size (class_of (fl, sl))" unfolding least .
  show "b < least_size (class_of (fl, sl)) + 2 ^ (p - 4)" unfolding least div using rem by linarith
  show "b < least_size (Suc (class_of (fl, sl)))"
  proof (cases "sl = 15")
    case True
    then have "Suc (class_of (fl, sl)) = 16 * Suc fl" by (simp add: class_of_def)
    then have "least_size (Suc (class_of (fl, sl))) = 2 ^ (Suc fl + 3) * 16" by (simp add: least_size_def)
    also have "\<dots> = 2 ^ (Suc p)"
    proof -
      have "Suc p = Suc fl + 3 + 4" using c(1) assms(3) by simp
      then show ?thesis by (simp only: power_add) simp
    qed
    finally show ?thesis using assms(2) by simp
  next
    case False
    have "Suc (class_of (fl, sl)) div 16 = fl" "Suc (class_of (fl, sl)) mod 16 = Suc sl" "\<not> Suc (class_of (fl, sl)) < 16"
      using False \<open>sl < 16\<close> \<open>0 < fl\<close> by (simp_all add: class_of_def mod_Suc div_Suc)
    then have "least_size (Suc (class_of (fl, sl))) = 2 ^ (fl + 3) * (16 + int (Suc sl))" by (simp add: least_size_def)
    also have "\<dots> = 2 ^ (p - 4) * (?q + 1)" using \<open>16 + int sl = ?q\<close> \<open>fl + 3 = p - 4\<close> by (simp add: algebra_simps)
    also have "\<dots> = 2 ^ (p - 4) * ?q + 2 ^ (p - 4)" by (simp add: algebra_simps)
    finally show ?thesis unfolding div using rem by linarith
  qed
qed

lemma mapping_insert_power:
  assumes "2 ^ p \<le> sz" "sz < 2 ^ Suc p" "8 \<le> p" "sz \<le> BLOCK_MAXSIZE"
  shows "mapping_insert sz = power_class p sz" "p < 30"
proof -
  have "(2 :: int) ^ p < 2 ^ 30" using assms(1,4) by (simp add: tlsf_numbers)
  then show "p < 30" by (rule power_less_imp_less_exp[rotated]) simp
  have "(2 :: int) ^ 8 \<le> 2 ^ p" using assms(3) by (intro power_increasing) simp_all
  moreover have "p < 32" using \<open>p < 30\<close> by simp
  note b = mapping_bits[OF assms(1-3) this]
  have "clz 32 sz = 31 - p" using b(1) assms(3) by linarith
  moreover have "(31 - (31 - p)) - 4 = p - 4" "(31 - (31 - p)) - (8 - 1) = p - 7" using \<open>p < 30\<close> by simp_all
  ultimately show "mapping_insert sz = power_class p sz"
    using b(4) assms(1,4) by (simp add: mapping_insert_def power_class_def tlsf_numbers Let_def del: push_bit_of_1)
qed

lemma mapping_small: "sz < 256 \<Longrightarrow> mapping_insert sz = (0, nat (sz div 16))"
  by (simp add: mapping_insert_def tlsf_numbers drop_bit_eq_div)

lemma mapping_clamp: "BLOCK_MAXSIZE \<le> sz \<Longrightarrow> mapping_insert sz = mapping_insert BLOCK_MAXSIZE"
  by (simp add: mapping_insert_def tlsf_numbers min_def)

lemma size_power: "256 \<le> sz \<Longrightarrow> sz < 2 ^ 32 \<Longrightarrow> \<exists>p. 8 \<le> p \<and> 2 ^ p \<le> sz \<and> sz < (2 :: int) ^ Suc p"
proof -
  assume sz: "256 \<le> sz" "sz < 2 ^ 32"
  then obtain p where p: "2 ^ p \<le> sz" "sz < 2 ^ Suc p" using int_ivl[of sz 32] by auto
  then have "(2 :: int) ^ 8 < 2 ^ Suc p" using sz(1) by simp
  then have "8 < Suc p" by (rule power_less_imp_less_exp[rotated]) simp
  with p show ?thesis by (intro exI[of _ p]) simp
qed

lemma class_bounds:
  assumes "0 \<le> sz" "mapping_insert sz = (fl, sl)"
  shows "fl < 23" "sl < 16" "least_size (class_of (fl, sl)) \<le> sz" "sz \<le> BLOCK_MAXSIZE \<Longrightarrow> sz < least_size (Suc (class_of (fl, sl)))"
proof -
  define b where "b = min sz BLOCK_MAXSIZE"
  have b: "0 \<le> b" "b \<le> sz" "b \<le> BLOCK_MAXSIZE" "sz \<le> BLOCK_MAXSIZE \<Longrightarrow> b = sz" "mapping_insert b = (fl, sl)"
    using assms mapping_clamp[of sz] by (auto simp: b_def min_def tlsf_numbers)
  have "fl < 23 \<and> sl < 16 \<and> least_size (class_of (fl, sl)) \<le> b \<and> b < least_size (Suc (class_of (fl, sl)))"
  proof (cases "b < 256")
    case True
    then have "b div 16 < 16" by (simp add: div_less_iff_less_mult pos_imp_zdiv_neg_iff)
    moreover have "0 \<le> b div 16" using b(1) by simp
    ultimately show ?thesis using b(5) True mapping_small[OF True]
      by (cases "b div 16 = 15") (auto simp: class_of_def least_size_def)
  next
    case False
    then obtain p where p: "8 \<le> p" "2 ^ p \<le> b" "b < 2 ^ Suc p" using size_power[of b] b(3) by (auto simp: tlsf_numbers)
    note m = mapping_insert_power[OF p(2,3,1) b(3)]
    show ?thesis using power_class_bounds[OF p(2,3,1) m(2)] m(1) b(5) by metis
  qed
  then show "fl < 23" "sl < 16" "least_size (class_of (fl, sl)) \<le> sz" "sz \<le> BLOCK_MAXSIZE \<Longrightarrow> sz < least_size (Suc (class_of (fl, sl)))"
    using b by auto
qed

text \<open>The list order respects sizes, and the search starts at a list all of whose blocks are large enough.\<close>

lemma class_mono:
  assumes "0 \<le> s" "s \<le> t" "mapping_insert s = c" "mapping_insert t = d"
  shows "class_of c \<le> class_of d"
proof (rule ccontr)
  assume "\<not> class_of c \<le> class_of d"
  then have less: "Suc (class_of d) \<le> class_of c" by simp
  obtain fc sc where c: "c = (fc, sc)" by fastforce
  obtain fd sd where d: "d = (fd, sd)" by fastforce
  note cb = class_bounds[of s fc sc] and db = class_bounds[of t fd sd]
  show False
  proof (cases "t \<le> BLOCK_MAXSIZE")
    case True
    then have "t < least_size (Suc (class_of d))" using db(4) assms c d by simp
    also have "\<dots> \<le> least_size (class_of c)" using less by (rule least_size_mono)
    also have "\<dots> \<le> s" using cb(3) assms c by simp
    finally show False using assms(2) by simp
  next
    case False
    then have "mapping_insert BLOCK_MAXSIZE = d" using mapping_clamp[of t] assms(4) by simp
    then have "BLOCK_MAXSIZE < least_size (Suc (class_of d))"
      using class_bounds(4)[of BLOCK_MAXSIZE fd sd] d by (simp add: tlsf_numbers)
    moreover have "mapping_insert (min s BLOCK_MAXSIZE) = c" using mapping_clamp[of s] assms(3) by (simp add: min_def)
    then have "least_size (class_of c) \<le> min s BLOCK_MAXSIZE"
      using class_bounds(3)[of "min s BLOCK_MAXSIZE" fc sc] assms(1) c by (simp add: tlsf_numbers)
    ultimately show False using least_size_mono[OF less] by simp
  qed
qed

lemma rounded:
  assumes "256 \<le> sz" "sz < drop_bit 1 BLOCK_MAXSIZE"
  obtains p where "8 \<le> p" "2 ^ p \<le> sz" "sz < 2 ^ Suc p" "roundSize sz = sz + 2 ^ (p - 4) - 1" "roundSize sz \<le> BLOCK_MAXSIZE"
proof -
  have sz: "sz < 536870910" using assms(2) by (simp add: tlsf_numbers drop_bit_eq_div)
  then obtain p where p: "8 \<le> p" "2 ^ p \<le> sz" "sz < 2 ^ Suc p" using size_power[of sz] assms(1) by auto
  then have "(2 :: int) ^ p < 2 ^ 29" using sz by simp
  then have p29: "p < 29" by (rule power_less_imp_less_exp[rotated]) simp
  have "31 - clz 32 sz = p" using p p29 by (intro mapping_bits(1)) simp_all
  then have shift: "(31 - SL_BITS) - clz 32 sz = p - 4" by (simp add: tlsf_numbers)
  have "(2 :: int) ^ (p - 4) \<le> 2 ^ 24" using p29 by (intro power_increasing) simp_all
  then have small: "(2 :: int) ^ (p - 4) \<le> 16777216" by simp
  have "(0 :: int) < 2 ^ (p - 4)" by simp
  then have "0 \<le> sz + 2 ^ (p - 4) - 1" "sz + 2 ^ (p - 4) - 1 < 4294967296" using small sz assms(1) by linarith+
  then have "roundSize sz = sz + 2 ^ (p - 4) - 1"
    using assms(2) unfolding roundSize_def shift by (simp add: u32_small push_bit_eq_mult)
  then show ?thesis using that p small sz by (simp add: tlsf_numbers)
qed

lemma mapping_search_insert:
  assumes "12 \<le> sz" "sz < drop_bit 1 BLOCK_MAXSIZE"
  shows "mapping_search sz = mapping_insert (if sz < 256 then sz else roundSize sz)"
proof (cases "sz < 256")
  case False
  then obtain p where p: "8 \<le> p" "2 ^ p \<le> sz" "roundSize sz = sz + 2 ^ (p - 4) - 1" "roundSize sz \<le> BLOCK_MAXSIZE"
    using rounded[of sz] assms(2) by (metis linorder_not_less)
  have "(0 :: int) < 2 ^ (p - 4)" by simp
  then have "256 \<le> roundSize sz" using False p(3) by linarith
  then show ?thesis using False p(4) by (simp add: mapping_search_def mapping_insert_def tlsf_numbers Let_def min_def)
qed (simp add: mapping_search_def mapping_insert_def tlsf_numbers)

lemma search_range:
  assumes "12 \<le> sz" "sz < drop_bit 1 BLOCK_MAXSIZE" "mapping_search sz = (fl, sl)"
  shows "fl < 23" "sl < 16"
proof -
  define q where "q = (if sz < 256 then sz else roundSize sz)"
  have "0 \<le> q"
  proof (cases "sz < 256")
    case False
    then obtain p where p: "roundSize sz = sz + 2 ^ (p - 4) - 1" using rounded[of sz] assms(2) by (metis linorder_not_less)
    have "(0 :: int) < 2 ^ (p - 4)" by simp
    then have "0 \<le> roundSize sz" using False p by linarith
    then show ?thesis using False by (simp add: q_def)
  qed (use assms(1) in \<open>simp add: q_def\<close>)
  moreover have "mapping_insert q = (fl, sl)" using mapping_search_insert[OF assms(1,2)] assms(3) by (simp add: q_def)
  ultimately show "fl < 23" "sl < 16" using class_bounds by blast+
qed

lemma search_fits:
  assumes "12 \<le> sz" "sz mod 16 = 12" "sz < drop_bit 1 BLOCK_MAXSIZE" "12 \<le> t" "t mod 16 = 12"
    and "class_of (mapping_search sz) \<le> class_of (mapping_insert t)"
  shows "sz \<le> t"
proof -
  obtain fl sl where t: "mapping_insert t = (fl, sl)" by fastforce
  have least: "least_size (class_of (mapping_search sz)) \<le> t"
    using class_bounds(3)[OF _ t] least_size_mono[OF assms(6)] assms(4) t by simp
  show ?thesis
  proof (cases "sz < 256")
    case True
    then have search: "mapping_search sz = (0, nat (sz div 16))" by (simp add: mapping_search_def tlsf_numbers drop_bit_eq_div)
    have "sz div 16 < 16" using True by (simp add: div_less_iff_less_mult)
    then have "nat (sz div 16) < 16" "int (nat (sz div 16)) = sz div 16" using assms(1) by simp_all
    then have "16 * (sz div 16) \<le> t" using least by (simp add: search class_of_def least_size_def)
    then show ?thesis using assms(2,5) by presburger
  next
    case False
    then obtain p where p: "8 \<le> p" "2 ^ p \<le> sz" "sz < 2 ^ Suc p" "roundSize sz = sz + 2 ^ (p - 4) - 1" "roundSize sz \<le> BLOCK_MAXSIZE"
      using rounded[of sz] assms(3) by (metis linorder_not_less)
    have search: "mapping_search sz = mapping_insert (roundSize sz)" using mapping_search_insert[OF assms(1,3)] False by simp
    obtain fc sc where c: "mapping_insert (roundSize sz) = (fc, sc)" by fastforce
    have "sz \<le> least_size (class_of (fc, sc))"
    proof (cases "roundSize sz < 2 ^ Suc p")
      case True
      have "(0 :: int) < 2 ^ (p - 4)" by simp
      then have "2 ^ p \<le> roundSize sz" using p(2,4) by linarith
      note m = mapping_insert_power[OF this True p(1,5)]
      have "roundSize sz < least_size (class_of (fc, sc)) + 2 ^ (p - 4)"
        by (rule power_class_bounds(6)[OF \<open>2 ^ p \<le> roundSize sz\<close> True p(1) m(2)]) (use m(1) c in simp)
      then show ?thesis using p(4) by linarith
    next
      case up: False
      have "(2 :: int) ^ (p - 4) \<le> 2 ^ p" by (intro power_increasing) simp_all
      moreover have "(0 :: int) < 2 ^ p" by simp
      moreover have "(2 :: int) ^ Suc (Suc p) = 4 * 2 ^ p" "(2 :: int) ^ Suc p = 2 * 2 ^ p" by simp_all
      ultimately have lt: "roundSize sz < 2 ^ Suc (Suc p)" using p(3,4) by linarith
      have ge: "2 ^ Suc p \<le> roundSize sz" and "8 \<le> Suc p" using up p(1) by simp_all
      note m = mapping_insert_power[OF ge lt this(2) p(5)]
      have "2 ^ Suc p \<le> least_size (class_of (fc, sc))"
        by (rule power_class_bounds(7)[OF ge lt \<open>8 \<le> Suc p\<close> m(2)]) (use m(1) c in simp)
      then show ?thesis using p(3) by linarith
    qed
    then show ?thesis using least search c by simp
  qed
qed

end
