(* ===== verification/As_Tlsf_Lists.thy ===== *)
theory As_Tlsf_Lists
  imports As_Tlsf_Sizes
begin

unbundle bit_operations_syntax

text \<open>
  The free lists in memory: each is a doubly linked list of the free blocks of its class, threaded through their
  payloads. Removing and inserting a block are the operations on the set of free blocks, and write nothing else.
\<close>

section \<open>Doubly linked lists\<close>

text \<open>\<open>seg m p xs h q\<close>: from \<open>h\<close> on, memory holds the blocks \<open>xs\<close>, the first with predecessor \<open>p\<close> and the last with successor \<open>q\<close>.\<close>

fun seg :: "memory \<Rightarrow> int \<Rightarrow> int list \<Rightarrow> int \<Rightarrow> int \<Rightarrow> bool" where
  "seg m p [] h q \<longleftrightarrow> h = q"
| "seg m p (x # xs) h q \<longleftrightarrow> h = x \<and> m (prev_field x) = p \<and> seg m x xs (m (next_field x)) q"

lemma seg_frame:
  "(\<And>x. x \<in> set xs \<Longrightarrow> m' (prev_field x) = m (prev_field x) \<and> m' (next_field x) = m (next_field x)) \<Longrightarrow>
   seg m' p xs h q = seg m p xs h q"
  by (induction xs arbitrary: p h) simp_all

lemma seg_append: "seg m p (xs @ ys) h q \<longleftrightarrow> (\<exists>k. seg m p xs h k \<and> seg m (last (p # xs)) ys k q)"
  by (induction xs arbitrary: p h) simp_all

definition aligned :: "int \<Rightarrow> bool" where
  "aligned x \<longleftrightarrow> x mod 16 = 12"

lemma field_apart:
  "aligned x \<Longrightarrow> aligned y \<Longrightarrow> prev_field x \<noteq> next_field y \<and> next_field x \<noteq> prev_field y"
  "prev_field x = prev_field y \<longleftrightarrow> x = y" "next_field x = next_field y \<longleftrightarrow> x = y"
proof -
  assume "aligned x" "aligned y"
  then have "(x + 4) mod 16 = 0" "(y + 8) mod 16 = 4" "(x + 8) mod 16 = 4" "(y + 4) mod 16 = 0"
    unfolding aligned_def by presburger+
  then have "x + 4 \<noteq> y + 8" "x + 8 \<noteq> y + 4" by (metis zero_neq_numeral)+
  then show "prev_field x \<noteq> next_field y \<and> next_field x \<noteq> prev_field y" by (simp add: prev_field_def next_field_def)
qed (simp_all add: prev_field_def next_field_def)

lemma seg_set_prev:
  "seg m p xs h q \<Longrightarrow> distinct xs \<Longrightarrow> list_all aligned xs \<Longrightarrow> xs \<noteq> [] \<Longrightarrow> seg (m(prev_field (hd xs) := p')) p' xs h q"
proof (cases xs)
  case (Cons x ys)
  assume a: "seg m p xs h q" "distinct xs" "list_all aligned xs"
  have "seg (m(prev_field x := p')) x ys (m (next_field x)) q = seg m x ys (m (next_field x)) q"
    by (rule seg_frame) (use a Cons field_apart in \<open>auto simp: list_all_iff\<close>)
  then show ?thesis using a Cons field_apart(1)[of x x] by auto
qed simp

lemma seg_set_next:
  "seg m p xs h q \<Longrightarrow> distinct xs \<Longrightarrow> list_all aligned xs \<Longrightarrow> xs \<noteq> [] \<Longrightarrow> seg (m(next_field (last xs) := q')) p xs h q'"
proof (induction xs arbitrary: p h)
  case (Cons x xs)
  show ?case
  proof (cases "xs = []")
    case True
    then show ?thesis using Cons.prems field_apart(1)[of x x] by auto
  next
    case False
    then have "last xs \<in> set xs" by simp
    then have "x \<noteq> last xs" "aligned (last xs)" "aligned x" using Cons.prems by (auto simp: list_all_iff)
    then show ?thesis using Cons.IH[of x "m (next_field x)"] Cons.prems False field_apart(1)[of x "last xs"] field_apart(3)[of x "last xs"]
      by auto
  qed
qed simp

section \<open>The root and its lists\<close>

text \<open>
  \<open>lists_ok m rt L F\<close>: the list \<open>L fl sl\<close> holds the free blocks of its class, and the bitmaps tell which lists hold any.
  \<open>F\<close> is the set of free blocks with their sizes.
\<close>

type_synonym free_lists = "nat \<Rightarrow> nat \<Rightarrow> int list"

definition lists_ok :: "memory \<Rightarrow> int \<Rightarrow> free_lists \<Rightarrow> (int \<times> int) set \<Rightarrow> bool" where
  "lists_ok m rt L F \<longleftrightarrow>
     (\<forall>fl<23. \<forall>sl<16. seg m 0 (L fl sl) (GETHEAD m rt fl sl) 0 \<and> distinct (L fl sl)
        \<and> set (L fl sl) = {b. \<exists>sz. (b, sz) \<in> F \<and> mapping_insert sz = (fl, sl)})
     \<and> (\<forall>fl<23. \<forall>i. bit (GETSL m rt fl) i \<longleftrightarrow> i < 16 \<and> L fl i \<noteq> [])
     \<and> (\<forall>i. bit (m rt) i \<longleftrightarrow> i < 23 \<and> (\<exists>sl<16. L i sl \<noteq> []))"

definition frees_ok :: "int \<Rightarrow> (int \<times> int) set \<Rightarrow> bool" where
  "frees_ok rt F \<longleftrightarrow> 0 < rt \<and> rt mod 16 = 0 \<and> single_valued F
     \<and> (\<forall>(b, sz)\<in>F. aligned b \<and> rt + ROOT_SIZE \<le> b \<and> 12 \<le> sz \<and> sz mod 16 = 12)"

text \<open>What the lists may write: the root and the list fields of free blocks.\<close>

definition list_words :: "int \<Rightarrow> (int \<times> int) set \<Rightarrow> int set" where
  "list_words rt F = {rt..<rt + HL_END} \<union> prev_field ` fst ` F \<union> next_field ` fst ` F"

lemma slot_values: "sl_slot rt fl = rt + 4 * int fl + 4" "head_slot rt fl sl = rt + 64 * int fl + 4 * int sl + 96"
  by (simp_all add: sl_slot_def head_slot_def tlsf_numbers push_bit_eq_mult)

lemma slot_bounds:
  "fl < 23 \<Longrightarrow> rt < sl_slot rt fl" "fl < 23 \<Longrightarrow> sl_slot rt fl < rt + 96" "rt + 96 \<le> head_slot rt fl sl"
  "fl < 23 \<Longrightarrow> sl < 16 \<Longrightarrow> head_slot rt fl sl < rt + HL_END"
  unfolding slot_values tlsf_numbers by linarith+

lemma slot_eq:
  "sl_slot rt fl = sl_slot rt fl' \<longleftrightarrow> fl = fl'"
  "sl < 16 \<Longrightarrow> sl' < 16 \<Longrightarrow> head_slot rt fl sl = head_slot rt fl' sl' \<longleftrightarrow> fl = fl' \<and> sl = sl'"
proof -
  show "sl_slot rt fl = sl_slot rt fl' \<longleftrightarrow> fl = fl'" unfolding slot_values by linarith
  assume sl: "sl < 16" "sl' < 16"
  have "fl = fl' \<and> sl = sl'" if "64 * int fl + 4 * int sl = 64 * int fl' + 4 * int sl'"
  proof -
    have eq: "16 * fl + sl = 16 * fl' + sl'" using that by linarith
    have "fl = fl'" using arg_cong[OF eq, of "\<lambda>x. x div 16"] sl by simp
    with eq show ?thesis by simp
  qed
  then show "head_slot rt fl sl = head_slot rt fl' sl' \<longleftrightarrow> fl = fl' \<and> sl = sl'" unfolding slot_values by auto
qed

lemma list_wordsI: "rt \<le> a \<Longrightarrow> a < rt + HL_END \<Longrightarrow> a \<in> list_words rt F"
    "(b, sz) \<in> F \<Longrightarrow> prev_field b \<in> list_words rt F" "(b, sz) \<in> F \<Longrightarrow> next_field b \<in> list_words rt F"
  by (auto simp: list_words_def image_iff) (metis fst_conv)+

lemma lists_frame:
  assumes "lists_ok m rt L F" "changes m m' A" "A \<inter> list_words rt F = {}"
  shows "lists_ok m' rt L F"
proof -
  have root: "m' a = m a" if "rt \<le> a" "a < rt + HL_END" for a
    using list_wordsI(1)[OF that] by (rule changesD[OF assms(2,3)])
  have node: "m' (prev_field b) = m (prev_field b) \<and> m' (next_field b) = m (next_field b)" if "(b, sz) \<in> F" for b sz
    using changesD[OF assms(2,3)] list_wordsI(2,3)[OF that] by blast
  have head: "GETHEAD m' rt fl sl = GETHEAD m rt fl sl" if "fl < 23" "sl < 16" for fl sl
    unfolding GETHEAD_def by (rule root) (use slot_bounds(3)[of rt fl sl] slot_bounds(4)[OF that, of rt] in linarith)+
  have sls: "GETSL m' rt fl = GETSL m rt fl" if "fl < 23" for fl
    unfolding GETSL_def by (rule root) (use slot_bounds(1,2)[OF that, of rt] in \<open>simp_all add: tlsf_numbers\<close>)
  have "m' rt = m rt" by (rule root) (simp_all add: tlsf_numbers)
  moreover have "seg m' 0 (L fl sl) (GETHEAD m' rt fl sl) 0" if "fl < 23" "sl < 16" for fl sl
  proof -
    have "seg m' 0 (L fl sl) (GETHEAD m rt fl sl) 0 = seg m 0 (L fl sl) (GETHEAD m rt fl sl) 0"
      by (rule seg_frame) (use assms(1) that node in \<open>auto simp: lists_ok_def\<close>)
    then show ?thesis using assms(1) that head by (simp add: lists_ok_def)
  qed
  ultimately show ?thesis using assms(1) sls by (simp add: lists_ok_def)
qed

lemma frees_aligned: "frees_ok rt F \<Longrightarrow> (b, sz) \<in> F \<Longrightarrow> aligned b \<and> rt + ROOT_SIZE \<le> b \<and> 0 < b \<and> 12 \<le> sz \<and> sz mod 4 = 0"
proof -
  assume F: "frees_ok rt F" "(b, sz) \<in> F"
  then have b: "0 < rt" "aligned b" "rt + ROOT_SIZE \<le> b" "12 \<le> sz" "sz mod 16 = 12" by (auto simp: frees_ok_def)
  then have "sz mod 4 = 0" by presburger
  moreover have "0 < b" using b(1,3) by (simp add: tlsf_numbers)
  ultimately show ?thesis using b by simp
qed

lemma listed: "lists_ok m rt L F \<Longrightarrow> fl < 23 \<Longrightarrow> sl < 16 \<Longrightarrow> x \<in> set (L fl sl) \<Longrightarrow> \<exists>sz. (x, sz) \<in> F \<and> mapping_insert sz = (fl, sl)"
  by (auto simp: lists_ok_def)

lemma listed_once:
  assumes "lists_ok m rt L F" "frees_ok rt F" "fl < 23" "sl < 16" "fl' < 23" "sl' < 16" "x \<in> set (L fl sl)" "x \<in> set (L fl' sl')"
  shows "fl = fl' \<and> sl = sl'"
proof -
  obtain sz sz' where "(x, sz) \<in> F" "mapping_insert sz = (fl, sl)" "(x, sz') \<in> F" "mapping_insert sz' = (fl', sl')"
    using listed[OF assms(1,3,4,7)] listed[OF assms(1,5,6,8)] by blast
  moreover have "single_valued F" using assms(2) by (simp add: frees_ok_def)
  ultimately show ?thesis by (metis single_valuedD prod.inject)
qed

lemma fields_high: "frees_ok rt F \<Longrightarrow> (b, sz) \<in> F \<Longrightarrow> rt + HL_END < prev_field b \<and> rt + HL_END < next_field b"
  using frees_aligned[of rt F b sz] by (simp add: prev_field_def next_field_def tlsf_numbers)

text \<open>Unlinking a node from its neighbours.\<close>

lemma unlink_seg:
  assumes seg: "seg m 0 (xs @ b # ys) h 0" and distinct: "distinct (xs @ b # ys)" and aligned: "list_all aligned (xs @ b # ys)"
    and nonzero: "0 \<notin> set (xs @ b # ys)" and m': "m' = unlink rt (m (prev_field b)) (m (next_field b)) m"
  shows "seg m' 0 (xs @ ys) (if xs = [] then m (next_field b) else h) 0"
    and "changes m m' (next_field ` set xs \<union> prev_field ` set ys)"
    and "xs = [] \<longleftrightarrow> h = b" "ys = [] \<longleftrightarrow> m (next_field b) = 0"
proof -
  let ?p = "m (prev_field b)" and ?n = "m (next_field b)"
  have parts: "seg m 0 xs h b" "?p = last (0 # xs)" "seg m b ys ?n 0" using seg by (auto simp: seg_append)
  have n: "ys = [] \<Longrightarrow> ?n = 0" "ys \<noteq> [] \<Longrightarrow> hd ys = ?n" using parts(3) by (cases ys; auto)+
  show ys: "ys = [] \<longleftrightarrow> ?n = 0" using n nonzero by (cases ys) auto
  show "xs = [] \<longleftrightarrow> h = b" using parts(1) distinct by (cases xs) auto
  have p: "?p \<noteq> 0 \<longleftrightarrow> xs \<noteq> []" "xs \<noteq> [] \<Longrightarrow> ?p = last xs" using parts(2) nonzero by (auto split: if_splits) (metis last_in_set)
  define m1 where "m1 = (if xs \<noteq> [] then m(next_field (last xs) := ?n) else m)"
  have m1: "m' = (if ys \<noteq> [] then m1(prev_field (hd ys) := ?p) else m1)"
    using p n ys by (simp add: m' unlink_def Let_def m1_def)
  have al: "\<And>x. x \<in> set xs \<Longrightarrow> aligned x" "\<And>y. y \<in> set ys \<Longrightarrow> aligned y" using aligned by (auto simp: list_all_iff)
  have disj: "x \<noteq> y" if "x \<in> set xs" "y \<in> set ys" for x y using distinct that by auto
  have m1_ys: "m1 (prev_field y) = m (prev_field y) \<and> m1 (next_field y) = m (next_field y)" if "y \<in> set ys" for y
  proof (cases "xs = []")
    case False
    then have "last xs \<in> set xs" by simp
    then show ?thesis using field_apart[of "last xs" y] al disj that False by (auto simp: m1_def)
  qed (simp add: m1_def)
  have m'_xs: "m' (prev_field x) = m1 (prev_field x) \<and> m' (next_field x) = m1 (next_field x)" if "x \<in> set xs" for x
  proof (cases "ys = []")
    case False
    then have "hd ys \<in> set ys" by simp
    then show ?thesis using field_apart[of x "hd ys"] al disj that False by (auto simp: m1)
  qed (simp add: m1)
  have "seg m1 b ys ?n 0" using parts(3) seg_frame[of ys m1 m b ?n 0] m1_ys by simp
  then have right: "seg m' ?p ys ?n 0"
    using seg_set_prev[of m1 b ys ?n 0 ?p] distinct aligned n by (cases "ys = []") (auto simp: m1)
  have "seg m1 0 xs h ?n" if "xs \<noteq> []"
    using seg_set_next[OF parts(1), of ?n] distinct aligned that by (simp add: m1_def)
  then have left: "seg m' 0 xs h ?n" if "xs \<noteq> []"
    using seg_frame[of xs m' m1 0 h ?n] m'_xs that by simp
  show "seg m' 0 (xs @ ys) (if xs = [] then ?n else h) 0"
    using left right parts(2) by (cases "xs = []") (auto simp: seg_append)
  show "changes m m' (next_field ` set xs \<union> prev_field ` set ys)"
    unfolding changes_def m1 m1_def by (cases "xs = []"; cases "ys = []") auto
qed

text \<open>The root after an emptied or shortened list.\<close>

lemma unhead_root:
  assumes "fl < 23" "sl < 16" "m' = unhead rt fl sl n m"
  shows "f < 23 \<Longrightarrow> s < 16 \<Longrightarrow> GETHEAD m' rt f s = (if f = fl \<and> s = sl then n else GETHEAD m rt f s)"
    and "f < 23 \<Longrightarrow> bit (GETSL m' rt f) i \<longleftrightarrow> bit (GETSL m rt f) i \<and> \<not> (n = 0 \<and> f = fl \<and> i = sl)"
    and "bit (m' rt) i \<longleftrightarrow> bit (m rt) i \<and> \<not> (n = 0 \<and> i = fl \<and> (\<forall>j. bit (GETSL m rt fl) j \<longrightarrow> j = sl))"
    and "changes m m' {rt..<rt + HL_END}"
proof -
  let ?h = "head_slot rt fl sl" and ?s = "sl_slot rt fl"
  let ?map = "GETSL m rt fl AND NOT (push_bit sl 1)"
  have apart: "sl_slot rt f \<noteq> head_slot rt g s" "rt \<noteq> head_slot rt g s" "rt \<noteq> sl_slot rt f" if "f < 23" for f g s
    using slot_bounds(1,2)[OF that, of rt] slot_bounds(3)[of rt g s] by linarith+
  have m': "m' = (if n = 0 then (if ?map = 0 then (m(?h := n, ?s := ?map))(rt := m rt AND NOT (push_bit fl 1)) else m(?h := n, ?s := ?map)) else m(?h := n))"
    using apart[OF assms(1)] by (simp add: assms(3) unhead_def SETHEAD_def SETSL_def GETSL_def Let_def)
  show "GETHEAD m' rt f s = (if f = fl \<and> s = sl then n else GETHEAD m rt f s)" if "f < 23" "s < 16"
    using apart[OF assms(1)] apart[OF assms(1), symmetric] assms(2) that(2) by (auto simp: m' GETHEAD_def slot_eq)
  have zero: "?map = 0 \<longleftrightarrow> (\<forall>j. bit (GETSL m rt fl) j \<longrightarrow> j = sl)" by (auto simp: no_bits bit_cleared)
  show "bit (GETSL m' rt f) i \<longleftrightarrow> bit (GETSL m rt f) i \<and> \<not> (n = 0 \<and> f = fl \<and> i = sl)" if "f < 23"
    using apart[OF that] apart[OF that, symmetric] zero by (auto simp: m' GETSL_def bit_cleared slot_eq)
  show "bit (m' rt) i \<longleftrightarrow> bit (m rt) i \<and> \<not> (n = 0 \<and> i = fl \<and> (\<forall>j. bit (GETSL m rt fl) j \<longrightarrow> j = sl))"
    using apart[OF assms(1)] apart[OF assms(1), symmetric] zero by (auto simp: m' bit_cleared)
  have "?h \<in> {rt..<rt + HL_END}" "?s \<in> {rt..<rt + HL_END}" "rt \<in> {rt..<rt + HL_END}"
    using slot_bounds(1,2)[OF assms(1), of rt] slot_bounds(3)[of rt fl sl] slot_bounds(4)[OF assms(1,2), of rt] by (simp_all add: tlsf_numbers)
  then show "changes m m' {rt..<rt + HL_END}" unfolding m' changes_def by auto
qed

text \<open>The lists without a block of one of them.\<close>

lemma lists_without:
  assumes ok: "lists_ok m rt L F" and F: "frees_ok rt F" "(b, sz) \<in> F" "mapping_insert sz = (fl, sl)"
    and split: "L fl sl = xs @ b # ys" and m1: "m1 = unlink rt (m (prev_field b)) (m (next_field b)) m"
    and m': "m' = (if b = GETHEAD m1 rt fl sl then unhead rt fl sl (m (next_field b)) m1 else m1)"
  shows "lists_ok m' rt (\<lambda>f s. if f = fl \<and> s = sl then xs @ ys else L f s) (F - {(b, sz)})" (is "lists_ok m' rt ?L' _")
    and "changes m m' (list_words rt F)"
proof -
  have range: "fl < 23" "sl < 16" using class_bounds(1,2)[OF _ F(3)] frees_aligned[OF F(1,2)] by auto
  let ?h = "GETHEAD m rt fl sl" and ?n = "m (next_field b)"
  have list: "seg m 0 (L fl sl) ?h 0" "distinct (L fl sl)" "set (L fl sl) = {b. \<exists>sz. (b, sz) \<in> F \<and> mapping_insert sz = (fl, sl)}"
    using ok range by (simp_all add: lists_ok_def)
  have nodes: "aligned x \<and> x \<noteq> 0 \<and> rt + HL_END < prev_field x \<and> rt + HL_END < next_field x" if "x \<in> set (L fl sl)" for x
    using listed[OF ok range that] frees_aligned[OF F(1)] fields_high[OF F(1)] by (metis order_less_irrefl)
  have members: "set (L f s) \<subseteq> fst ` F" if fs: "f < 23" "s < 16" for f s
  proof
    fix x assume "x \<in> set (L f s)"
    then obtain z where "(x, z) \<in> F" using listed[OF ok fs] by blast
    then show "x \<in> fst ` F" by (rule image_eqI[rotated]) simp
  qed
  have seg: "seg m 0 (xs @ b # ys) ?h 0" "distinct (xs @ b # ys)" using list split by simp_all
  have good: "list_all aligned (xs @ b # ys)" "0 \<notin> set (xs @ b # ys)"
    using nodes unfolding split list_all_iff by blast+
  note u = unlink_seg[OF seg good m1]
  have fields: "next_field ` set xs \<union> prev_field ` set ys \<subseteq> prev_field ` fst ` F \<union> next_field ` fst ` F"
  proof -
    have "set xs \<subseteq> fst ` F" "set ys \<subseteq> fst ` F" using members[OF range] split by auto
    then have "next_field ` set xs \<subseteq> next_field ` fst ` F" "prev_field ` set ys \<subseteq> prev_field ` fst ` F"
      by (simp_all only: image_mono)
    then show ?thesis by (simp only: Un_subset_iff) (simp only: le_supI1 le_supI2)
  qed
  have m1_root: "m1 a = m a" if "a < rt + HL_END" for a
  proof -
    have "a \<noteq> next_field x \<and> a \<noteq> prev_field x" if "x \<in> set xs \<union> set ys" for x
    proof -
      have "x \<in> set (L fl sl)" using that split by auto
      then show ?thesis using nodes[of x] \<open>a < rt + HL_END\<close> by linarith
    qed
    then have "a \<notin> next_field ` set xs \<union> prev_field ` set ys" by blast
    then show ?thesis using u(2) by (simp add: changes_def)
  qed
  have head1: "GETHEAD m1 rt f s = GETHEAD m rt f s" if "f < 23" "s < 16" for f s
    unfolding GETHEAD_def by (rule m1_root) (rule slot_bounds(4)[OF that])
  have sl1: "GETSL m1 rt f = GETSL m rt f" if "f < 23" for f
    unfolding GETSL_def by (rule m1_root) (use slot_bounds(2)[OF that, of rt] in \<open>simp add: tlsf_numbers\<close>)
  have rt1: "m1 rt = m rt" by (rule m1_root) (simp add: tlsf_numbers)
  have first: "b = GETHEAD m1 rt fl sl \<longleftrightarrow> xs = []" using u(3) head1[OF range] by auto
  have m'_alt: "m' = (if xs = [] then unhead rt fl sl ?n m1 else m1)" using m' first by simp
  note root = unhead_root[OF range refl, where n = ?n and m = m1 and rt = rt]
  have m'_root: "changes m1 m' {rt..<rt + HL_END}" unfolding m'_alt using root(4) by (simp add: changes_def)
  show "changes m m' (list_words rt F)"
    by (rule changes_trans[OF u(2) m'_root]) (use fields in \<open>simp_all only: list_words_def Un_assoc le_supI2 Un_upper1\<close>)
  have head': "GETHEAD m' rt f s = (if f = fl \<and> s = sl \<and> xs = [] then ?n else GETHEAD m rt f s)" if "f < 23" "s < 16" for f s
    unfolding m'_alt using root(1)[OF that] head1[OF that] by auto
  have empty: "xs = [] \<and> ?n = 0 \<longleftrightarrow> xs @ ys = []" using u(4) by auto
  have seg': "seg m' p zs h q = seg m1 p zs h q" if zs: "set zs \<subseteq> fst ` F" for p zs h q
  proof (rule seg_frame)
    fix x assume "x \<in> set zs"
    then obtain s where "(x, s) \<in> F" using zs by auto
    then have "prev_field x \<notin> {rt..<rt + HL_END}" "next_field x \<notin> {rt..<rt + HL_END}" using fields_high[OF F(1), of x s] by auto
    then show "m' (prev_field x) = m1 (prev_field x) \<and> m' (next_field x) = m1 (next_field x)"
      using m'_root by (simp add: changes_def)
  qed
  have lists: "seg m' 0 (?L' f s) (GETHEAD m' rt f s) 0 \<and> distinct (?L' f s)
      \<and> set (?L' f s) = {x. \<exists>z. (x, z) \<in> F - {(b, sz)} \<and> mapping_insert z = (f, s)}" if fs: "f < 23" "s < 16" for f s
  proof (cases "f = fl \<and> s = sl")
    case True
    have "set (xs @ ys) \<subseteq> fst ` F" using members[OF range] split by auto
    then have "seg m' 0 (xs @ ys) (GETHEAD m' rt fl sl) 0" using u(1) seg' head'[OF range] by simp
    moreover have "set (xs @ ys) = set (L fl sl) - {b}" using seg(2) split by auto
    moreover have "(b, z) \<in> F \<longleftrightarrow> z = sz" for z using F(1,2) by (auto simp: frees_ok_def single_valued_def)
    ultimately show ?thesis using True seg(2) list(3) by auto
  next
    case False
    have old: "seg m 0 (L f s) (GETHEAD m rt f s) 0" "distinct (L f s)" "set (L f s) = {b. \<exists>sz. (b, sz) \<in> F \<and> mapping_insert sz = (f, s)}"
      using ok fs by (simp_all add: lists_ok_def)
    have "x \<notin> set xs \<union> set ys" if "x \<in> set (L f s)" for x
      using listed_once[OF ok F(1) fs range that] False split by auto
    then have "m1 (prev_field x) = m (prev_field x) \<and> m1 (next_field x) = m (next_field x)" if "x \<in> set (L f s)" for x
    proof -
      assume apart: "\<And>x. x \<in> set (L f s) \<Longrightarrow> x \<notin> set xs \<union> set ys"
      have "aligned x" using that listed[OF ok fs that] frees_aligned[OF F(1)] by blast
      moreover have "\<And>y. y \<in> set xs \<union> set ys \<Longrightarrow> aligned y" using nodes split by auto
      ultimately have "prev_field x \<notin> next_field ` set xs \<union> prev_field ` set ys" "next_field x \<notin> next_field ` set xs \<union> prev_field ` set ys"
        using apart[OF that] field_apart by (auto simp: field_apart(2,3))
      then show ?thesis using u(2) by (simp add: changes_def)
    qed
    then have "seg m1 0 (L f s) (GETHEAD m rt f s) 0" using old(1) seg_frame[of "L f s" m1 m] by simp
    then have "seg m' 0 (L f s) (GETHEAD m' rt f s) 0" using seg'[OF members[OF fs]] head'[OF fs] False by auto
    moreover have "mapping_insert sz \<noteq> (f, s)" using F(3) False by auto
    ultimately show ?thesis using old False by auto
  qed
  have bits: "bit (GETSL m rt f) i \<longleftrightarrow> i < 16 \<and> L f i \<noteq> []" if "f < 23" for f i using ok that by (simp add: lists_ok_def)
  have nonempty: "L fl sl \<noteq> []" using split by simp
  have sls: "bit (GETSL m' rt f) i \<longleftrightarrow> i < 16 \<and> ?L' f i \<noteq> []" if "f < 23" for f i
  proof -
    have "bit (GETSL m' rt f) i \<longleftrightarrow> bit (GETSL m rt f) i \<and> \<not> (xs @ ys = [] \<and> f = fl \<and> i = sl)"
      unfolding m'_alt using root(2)[OF that, of i] sl1[OF that] empty by (cases "xs = []") simp_all
    then show ?thesis using bits[OF that, of i] range(2) nonempty by (cases "f = fl \<and> i = sl") auto
  qed
  have rts: "bit (m' rt) i \<longleftrightarrow> i < 23 \<and> (\<exists>s<16. ?L' i s \<noteq> [])" for i
  proof -
    have old: "bit (m rt) i \<longleftrightarrow> i < 23 \<and> (\<exists>s<16. L i s \<noteq> [])" using ok by (simp add: lists_ok_def)
    have "bit (m' rt) i \<longleftrightarrow> bit (m rt) i \<and> \<not> (xs @ ys = [] \<and> i = fl \<and> (\<forall>j. bit (GETSL m rt fl) j \<longrightarrow> j = sl))"
      unfolding m'_alt using root(3)[of i] sl1[OF range(1)] rt1 empty by (cases "xs = []") simp_all
    then show ?thesis using old bits[OF range(1)] range nonempty by (cases "i = fl") auto
  qed
  show "lists_ok m' rt ?L' (F - {(b, sz)})"
    unfolding lists_ok_def using lists sls rts by blast
qed

lemma removeBlock_spec:
  assumes ok: "lists_ok m rt L F" and F: "frees_ok rt F" "(b, sz) \<in> F" and info: "m b = info sz True l"
  shows "\<exists>m' L'. removeBlock rt b m = Some m' \<and> lists_ok m' rt L' (F - {(b, sz)}) \<and> changes m m' (list_words rt F)"
proof -
  obtain fl sl where map: "mapping_insert sz = (fl, sl)" by fastforce
  have sz: "12 \<le> sz" "sz mod 4 = 0" using frees_aligned[OF F] by auto
  have range: "fl < 23" "sl < 16" using class_bounds(1,2)[OF _ map] sz by auto
  have "b \<in> set (L fl sl)" using ok range F(2) map by (auto simp: lists_ok_def)
  then obtain xs ys where split: "L fl sl = xs @ b # ys" by (meson split_list)
  let ?m1 = "unlink rt (m (prev_field b)) (m (next_field b)) m"
  have "removeBlock rt b m = Some (if b = GETHEAD ?m1 rt fl sl then unhead rt fl sl (m (next_field b)) ?m1 else ?m1)"
    using sz range by (simp add: removeBlock_def info info_size tagged_free map Let_def tlsf_numbers)
  then show ?thesis using lists_without[OF ok F map split refl refl] by blast
qed

text \<open>Linking a block into its list.\<close>

lemma link_spec:
  assumes ok: "lists_ok m rt L F" and F: "frees_ok rt (insert (b, sz) F)" and fresh: "b \<notin> fst ` F"
  shows "\<exists>m' L'. link rt b sz m = Some m' \<and> lists_ok m' rt L' (insert (b, sz) F) \<and> changes m m' (list_words rt (insert (b, sz) F))"
proof -
  obtain fl sl where map: "mapping_insert sz = (fl, sl)" by fastforce
  have b: "aligned b" "0 < b" "rt + ROOT_SIZE \<le> b" "12 \<le> sz" using frees_aligned[OF F, of b sz] by auto
  have range: "fl < 23" "sl < 16" using class_bounds(1,2)[OF _ map] b(4) by auto
  have old: "frees_ok rt F" using F by (auto simp: frees_ok_def single_valued_def)
  let ?h = "GETHEAD m rt fl sl" and ?L' = "\<lambda>f s. if f = fl \<and> s = sl then b # L fl sl else L f s"
  have list: "seg m 0 (L fl sl) ?h 0" "distinct (L fl sl)" "set (L fl sl) = {b. \<exists>sz. (b, sz) \<in> F \<and> mapping_insert sz = (fl, sl)}"
    using ok range by (simp_all add: lists_ok_def)
  have head: "?h = (if L fl sl = [] then 0 else hd (L fl sl))" using list(1) by (cases "L fl sl") auto
  have nodes: "aligned x \<and> 0 < x \<and> x \<noteq> b \<and> rt + HL_END < prev_field x \<and> rt + HL_END < next_field x"
    if fsx: "f < 23" "s < 16" "x \<in> set (L f s)" for f s x
  proof -
    obtain z where z: "(x, z) \<in> F" using listed[OF ok fsx] by blast
    then have "x \<in> fst ` F" by (rule image_eqI[rotated]) simp
    then show ?thesis using frees_aligned[OF old z] fields_high[OF old z] fresh by auto
  qed
  have head0: "?h \<noteq> 0 \<longleftrightarrow> L fl sl \<noteq> []" using head nodes[OF range] by (metis hd_in_set order_less_irrefl)
  define m1 where "m1 = (m(prev_field b := 0))(next_field b := ?h)"
  define m2 where "m2 = (if ?h \<noteq> 0 then m1(prev_field ?h := b) else m1)"
  define m' where "m' = (let m = SETHEAD m2 rt fl sl b; m = m(rt := m rt OR push_bit fl 1) in SETSL m rt fl (GETSL m rt fl OR push_bit sl 1))"
  have link: "link rt b sz m = Some m'"
    using range by (simp add: link_def map Let_def tlsf_numbers m'_def m2_def m1_def del: push_bit_of_1)
  have high: "rt + HL_END < prev_field b" "rt + HL_END < next_field b" using b(3) by (simp_all add: prev_field_def next_field_def tlsf_numbers)
  have hh: "rt + HL_END < prev_field ?h" if "?h \<noteq> 0"
    using that head0 head nodes[OF range, of ?h] by auto
  have m2_root: "m2 a = m a" if "a < rt + HL_END" for a
    using high hh that by (auto simp: m2_def m1_def)
  let ?hs = "head_slot rt fl sl" and ?ss = "sl_slot rt fl"
  have apart: "sl_slot rt f \<noteq> head_slot rt g s \<and> rt \<noteq> head_slot rt g s \<and> rt \<noteq> sl_slot rt f" if "f < 23" for f g s
    using slot_bounds(1,2)[OF that, of rt] slot_bounds(3)[of rt g s] by linarith
  have m'_eq: "m' = m2(?hs := b, rt := m rt OR push_bit fl 1, ?ss := GETSL m rt fl OR push_bit sl 1)"
    using apart[OF range(1), of fl sl] m2_root[of rt] m2_root[of ?ss] slot_bounds(2)[OF range(1), of rt]
    by (simp add: m'_def SETHEAD_def SETSL_def GETSL_def Let_def tlsf_numbers)
  have root_words: "{?hs, rt, ?ss} \<subseteq> {rt..<rt + HL_END}"
    using slot_bounds(1,2)[OF range(1), of rt] slot_bounds(3)[of rt fl sl] slot_bounds(4)[OF range, of rt] by (simp add: tlsf_numbers)
  have field': "m' (prev_field x) = m2 (prev_field x) \<and> m' (next_field x) = m2 (next_field x)"
    if "rt + HL_END < prev_field x" "rt + HL_END < next_field x" for x
    using root_words that unfolding m'_eq by auto
  have head': "GETHEAD m' rt f s = (if f = fl \<and> s = sl then b else GETHEAD m rt f s)" if "f < 23" "s < 16" for f s
    using apart[OF range(1), of f s] slot_eq(2)[OF that(2) range(2), of rt f fl] m2_root[OF slot_bounds(4)[OF that]]
    by (auto simp: m'_eq GETHEAD_def)
  have lists: "seg m' 0 (?L' f s) (GETHEAD m' rt f s) 0 \<and> distinct (?L' f s)
      \<and> set (?L' f s) = {x. \<exists>z. (x, z) \<in> insert (b, sz) F \<and> mapping_insert z = (f, s)}" if fs: "f < 23" "s < 16" for f s
  proof (cases "f = fl \<and> s = sl")
    case True
    have "seg m b (L fl sl) ?h 0 \<or> L fl sl \<noteq> []" using head by auto
    have "seg (m(prev_field ?h := b)) b (L fl sl) ?h 0" if "L fl sl \<noteq> []"
      using seg_set_prev[OF list(1,2), of b] that head nodes[OF range] by (simp add: list_all_iff)
    then have "seg m2 b (L fl sl) ?h 0"
    proof (cases "L fl sl = []")
      case False
      then have h: "?h \<noteq> 0" "?h = hd (L fl sl)" using head head0 by auto
      have "seg m2 b (L fl sl) ?h 0 = seg (m(prev_field ?h := b)) b (L fl sl) ?h 0"
        by (rule seg_frame) (use nodes[OF range] field_apart b(1) h in \<open>auto simp: m2_def m1_def field_apart(2,3)\<close>)
      then show ?thesis using \<open>L fl sl \<noteq> [] \<Longrightarrow> _\<close> False by simp
    qed (use head in simp)
    then have "seg m' b (L fl sl) ?h 0" using seg_frame[of "L fl sl" m' m2 b ?h 0] field' nodes[OF range] by simp
    moreover have "m' (prev_field b) = 0" "m' (next_field b) = ?h"
      using field'[OF high] b(1) nodes[OF range, of ?h] head head0 field_apart[of b b] field_apart[of ?h b] field_apart(2)[of ?h b]
      by (auto simp: m2_def m1_def)
    moreover have "b \<notin> set (L fl sl)" using nodes[OF range] by blast
    moreover have "(b, z) \<in> insert (b, sz) F \<longleftrightarrow> z = sz" for z using fresh by force
    ultimately show ?thesis using True list(2,3) head'[OF range] map by auto
  next
    case False
    have lf: "seg m 0 (L f s) (GETHEAD m rt f s) 0" "distinct (L f s)" "set (L f s) = {b. \<exists>sz. (b, sz) \<in> F \<and> mapping_insert sz = (f, s)}"
      using ok fs by (simp_all add: lists_ok_def)
    have "m' (prev_field x) = m (prev_field x) \<and> m' (next_field x) = m (next_field x)" if x: "x \<in> set (L f s)" for x
    proof -
      have nx: "aligned x" "x \<noteq> b" "rt + HL_END < prev_field x" "rt + HL_END < next_field x" using nodes[OF fs x] by simp_all
      have nb: "prev_field x \<noteq> prev_field b" "prev_field x \<noteq> next_field b" "next_field x \<noteq> prev_field b" "next_field x \<noteq> next_field b"
        using nx(2) field_apart(1)[OF nx(1) b(1)] field_apart(2)[of x b] field_apart(3)[of x b] by simp_all
      have nh: "prev_field x \<noteq> prev_field ?h \<and> next_field x \<noteq> prev_field ?h" if "?h \<noteq> 0"
      proof -
        have h: "?h \<in> set (L fl sl)" using that head head0 by simp
        then have "x \<noteq> ?h" using listed_once[OF ok old fs range x] False by metis
        then show ?thesis using nodes[OF range h] field_apart(1)[OF nx(1), of ?h] field_apart(2)[of x ?h] by simp
      qed
      have "m2 (prev_field x) = m (prev_field x) \<and> m2 (next_field x) = m (next_field x)"
        using nb nh by (cases "?h = 0") (simp_all add: m2_def m1_def)
      then show ?thesis using field'[OF nx(3,4)] by simp
    qed
    then have "seg m' 0 (L f s) (GETHEAD m rt f s) 0" using lf(1) seg_frame[of "L f s" m' m] by simp
    then show ?thesis using False lf head'[OF fs] map by auto
  qed
  have bits: "bit (GETSL m rt f) i \<longleftrightarrow> i < 16 \<and> L f i \<noteq> []" if "f < 23" for f i using ok that by (simp add: lists_ok_def)
  have sls: "bit (GETSL m' rt f) i \<longleftrightarrow> i < 16 \<and> ?L' f i \<noteq> []" if "f < 23" for f i
  proof -
    have "bit (GETSL m' rt f) i \<longleftrightarrow> bit (GETSL m rt f) i \<or> f = fl \<and> i = sl"
      using apart[OF that, of fl sl] slot_eq(1)[of rt f fl] m2_root[of "sl_slot rt f"] slot_bounds(2)[OF that, of rt]
      by (auto simp: m'_eq GETSL_def bit_set tlsf_numbers)
    then show ?thesis using bits[OF that] range by auto
  qed
  have rts: "bit (m' rt) i \<longleftrightarrow> i < 23 \<and> (\<exists>s<16. ?L' i s \<noteq> [])" for i
  proof -
    have "bit (m rt) i \<longleftrightarrow> i < 23 \<and> (\<exists>s<16. L i s \<noteq> [])" using ok by (simp add: lists_ok_def)
    moreover have "bit (m' rt) i \<longleftrightarrow> bit (m rt) i \<or> i = fl" using apart[OF range(1), of fl sl] by (auto simp: m'_eq bit_set)
    ultimately show ?thesis using range by (cases "i = fl") auto
  qed
  have "lists_ok m' rt ?L' (insert (b, sz) F)" unfolding lists_ok_def using lists sls rts by blast
  moreover have "changes m m' (list_words rt (insert (b, sz) F))"
  proof -
    have "prev_field ?h \<in> list_words rt F" if "?h \<noteq> 0"
    proof -
      have "?h \<in> set (L fl sl)" using that head head0 by auto
      then obtain z where "(?h, z) \<in> F" using listed[OF ok range] by blast
      then show ?thesis by (rule list_wordsI)
    qed
    then show ?thesis using root_words unfolding changes_def m'_eq m2_def m1_def list_words_def by auto
  qed
  ultimately show ?thesis using link by blast
qed

section \<open>Searching\<close>

lemma head_listed:
  assumes ok: "lists_ok m rt L F" and "fl < 23" "sl < 16" "L fl sl \<noteq> []"
  shows "\<exists>t. (GETHEAD m rt fl sl, t) \<in> F \<and> mapping_insert t = (fl, sl)"
proof -
  have "seg m 0 (L fl sl) (GETHEAD m rt fl sl) 0" using ok assms(2,3) by (simp add: lists_ok_def)
  then have "GETHEAD m rt fl sl \<in> set (L fl sl)" using assms(4) by (cases "L fl sl") auto
  then show ?thesis by (rule listed[OF ok assms(2,3)])
qed

lemma searchBlock_spec:
  assumes ok: "lists_ok m rt L F" and F: "frees_ok rt F" and sz: "12 \<le> sz" "sz mod 16 = 12" "sz < drop_bit 1 BLOCK_MAXSIZE"
  shows "\<exists>b. searchBlock rt sz m = Some b \<and>
    (b = 0 \<and> (\<forall>(x, t)\<in>F. \<not> class_of (mapping_search sz) \<le> class_of (mapping_insert t)) \<or> (\<exists>t. (b, t) \<in> F \<and> sz \<le> t))"
proof -
  obtain fl sl where map: "mapping_search sz = (fl, sl)" by fastforce
  note range = search_range[OF sz(1,3) map]
  let ?sm = "GETSL m rt fl AND push_bit sl (NOT 0)" and ?fm = "m rt AND push_bit (fl + 1) (NOT 0)"
  have bits: "bit (GETSL m rt f) i \<longleftrightarrow> i < 16 \<and> L f i \<noteq> []" if "f < 23" for f i using ok that by (simp add: lists_ok_def)
  have rbits: "bit (m rt) i \<longleftrightarrow> i < 23 \<and> (\<exists>s<16. L i s \<noteq> [])" for i using ok by (simp add: lists_ok_def)
  have fits: "\<exists>t. (GETHEAD m rt f s, t) \<in> F \<and> sz \<le> t" if fs: "f < 23" "s < 16" "L f s \<noteq> []" "class_of (fl, sl) \<le> class_of (f, s)" for f s
  proof -
    obtain t where t: "(GETHEAD m rt f s, t) \<in> F" "mapping_insert t = (f, s)" using head_listed[OF ok fs(1-3)] by blast
    then have "12 \<le> t" "t mod 16 = 12" using F by (auto simp: frees_ok_def)
    then have "sz \<le> t" using search_fits[OF sz] map t(2) fs(4) by simp
    with t(1) show ?thesis by blast
  qed
  show ?thesis
  proof (cases "?sm = 0")
    case False
    then obtain i where i: "bit ?sm i" by (subst (asm) no_bits) blast
    then have "i < 32" using bits[OF range(1), of i] by (simp only: high_bits) simp
    with i have "bit ?sm (ctz 32 ?sm)" by (rule ctz_bit[THEN conjunct1])
    then have s: "sl \<le> ctz 32 ?sm" "ctz 32 ?sm < 16" "L fl (ctz 32 ?sm) \<noteq> []"
      using bits[OF range(1), of "ctz 32 ?sm"] unfolding high_bits by simp_all
    then have "class_of (fl, sl) \<le> class_of (fl, ctz 32 ?sm)" by (simp add: class_of_def)
    note fit = fits[OF range(1) s(2,3) this]
    have "searchBlock rt sz m = Some (GETHEAD m rt fl (ctz 32 ?sm))"
      using False range unfolding searchBlock_def map Let_def tlsf_numbers prod.case by (simp only: if_False simp_thms)
    with fit show ?thesis by blast
  next
    case sm: True
    show ?thesis
    proof (cases "?fm = 0")
      case True
      have "\<not> class_of (fl, sl) \<le> class_of (mapping_insert t)" if t: "(x, t) \<in> F" for x t
      proof
        obtain f s where ts: "mapping_insert t = (f, s)" by fastforce
        assume le: "class_of (fl, sl) \<le> class_of (mapping_insert t)"
        have fs: "f < 23" "s < 16" using class_bounds(1,2)[OF _ ts] frees_aligned[OF F t] by auto
        then have "x \<in> set (L f s)" using ok t ts by (auto simp: lists_ok_def)
        then have ne: "L f s \<noteq> []" by auto
        show False
        proof (cases "f = fl")
          case True
          then have "sl \<le> s" using le ts by (simp add: class_of_def)
          then have "bit ?sm s" using bits[OF range(1), of s] fs ne True unfolding high_bits by simp
          then show False unfolding sm by simp
        next
          case False
          then have "fl + 1 \<le> f" using le ts range fs by (simp add: class_of_def)
          then have "bit ?fm f" using rbits[of f] fs ne unfolding high_bits by blast
          then show False unfolding \<open>?fm = 0\<close> by simp
        qed
      qed
      then have "\<forall>(x, t)\<in>F. \<not> class_of (mapping_search sz) \<le> class_of (mapping_insert t)" using map by auto
      moreover have "searchBlock rt sz m = Some 0"
        using sm True range unfolding searchBlock_def map Let_def tlsf_numbers prod.case by (simp only: if_True simp_thms if_False)
      ultimately show ?thesis by blast
    next
      case False
      then obtain i where i: "bit ?fm i" by (subst (asm) no_bits) blast
      then have "i < 32" using rbits[of i] by (simp only: high_bits) simp
      with i have "bit ?fm (ctz 32 ?fm)" by (rule ctz_bit[THEN conjunct1])
      then obtain s where f: "fl + 1 \<le> ctz 32 ?fm" "ctz 32 ?fm < 23" "s < 16" "L (ctz 32 ?fm) s \<noteq> []"
        using rbits[of "ctz 32 ?fm"] unfolding high_bits by blast
      let ?f = "ctz 32 ?fm" and ?s = "ctz 32 (GETSL m rt (ctz 32 ?fm))"
      have "bit (GETSL m rt ?f) s" using bits[OF f(2)] f(3,4) by simp
      then have nz: "GETSL m rt ?f \<noteq> 0" and "bit (GETSL m rt ?f) ?s" using ctz_bit[of "GETSL m rt ?f" s 32] f(3) by auto
      then have s: "?s < 16" "L ?f ?s \<noteq> []" using bits[OF f(2)] by auto
      have "class_of (fl, sl) \<le> class_of (?f, ?s)" using f(1) range(2) by (simp add: class_of_def)
      note fit = fits[OF f(2) s this]
      have "searchBlock rt sz m = Some (GETHEAD m rt ?f ?s)"
        using sm False nz range unfolding searchBlock_def map Let_def tlsf_numbers prod.case by (simp only: if_True simp_thms if_False)
      with fit show ?thesis by blast
    qed
  qed
qed

end
