(* ===== verification/As_Tlsf_Blocks.thy ===== *)
theory As_Tlsf_Blocks
  imports As_Tlsf_Lists
begin

unbundle bit_operations_syntax

text \<open>
  The blocks of the heap: they tile the memory behind the root, the last one is a used block without payload, the tags
  of each tell whether it and its left neighbour are free, and no two free blocks are adjacent. Inserting a block merges
  it with its free neighbours, preparing one splits it.
\<close>

section \<open>Tilings\<close>

text \<open>A block is its address, the size of its payload and whether it is free.\<close>

type_synonym blk = "int \<times> int \<times> bool"

fun tiles :: "int \<Rightarrow> blk list \<Rightarrow> int \<Rightarrow> bool" where
  "tiles a [] e \<longleftrightarrow> a = e"
| "tiles a ((x, sz, f) # bs) e \<longleftrightarrow> x = a \<and> tiles (a + 4 + sz) bs e"

fun sized :: "blk \<Rightarrow> bool" where
  "sized (x, sz, f) \<longleftrightarrow> aligned x \<and> (12 \<le> sz \<and> sz mod 16 = 12 \<or> sz = 0 \<and> \<not> f)"

definition layout :: "int \<Rightarrow> int \<Rightarrow> blk list \<Rightarrow> int \<Rightarrow> bool" where
  "layout rt s0 bs e \<longleftrightarrow> 0 < rt \<and> rt mod 16 = 0 \<and> rt + ROOT_SIZE \<le> s0 \<and> list_all sized bs \<and> tiles s0 bs e \<and> e \<le> 2 ^ 32
     \<and> bs \<noteq> [] \<and> last bs = (e - 4, 0, False)"

definition frees :: "blk list \<Rightarrow> (int \<times> int) set" where
  "frees bs = {(x, sz). (x, sz, True) \<in> set bs}"

lemma tiles_append: "tiles a (xs @ ys) e \<longleftrightarrow> (\<exists>k. tiles a xs k \<and> tiles k ys e)"
proof (induction xs arbitrary: a)
  case (Cons B xs)
  then show ?case by (cases B) simp
qed simp

lemma tiles_det: "tiles a bs e \<Longrightarrow> tiles a bs e' \<Longrightarrow> e = e'"
proof (induction bs arbitrary: a)
  case (Cons B bs)
  then show ?case by (cases B) auto
qed simp

lemma sized_nonneg: "sized (x, sz, f) \<Longrightarrow> 0 \<le> sz"
  by auto

lemma tiles_bounds: "tiles a bs e \<Longrightarrow> list_all sized bs \<Longrightarrow> a \<le> e \<and> (\<forall>(x, sz, f)\<in>set bs. a \<le> x \<and> x + 4 + sz \<le> e)"
proof (induction bs arbitrary: a)
  case (Cons B bs)
  obtain x sz f where B: "B = (x, sz, f)" by (cases B) auto
  then have "0 \<le> sz" "tiles (a + 4 + sz) bs e" "x = a" "list_all sized bs" using Cons.prems sized_nonneg[of x sz f] by simp_all
  then show ?case using Cons.IH[of "a + 4 + sz"] B by fastforce
qed simp

lemma tiles_apart:
  "tiles a bs e \<Longrightarrow> list_all sized bs \<Longrightarrow> (x, sz, f) \<in> set bs \<Longrightarrow> (y, sz', g) \<in> set bs \<Longrightarrow>
   (x, sz, f) = (y, sz', g) \<or> x + 4 + sz \<le> y \<or> y + 4 + sz' \<le> x"
proof (induction bs arbitrary: a)
  case (Cons B bs)
  obtain z s h where B: "B = (z, s, h)" by (cases B) auto
  have rest: "tiles (a + 4 + s) bs e" "z = a" "list_all sized bs" using Cons.prems B by simp_all
  note bounds = tiles_bounds[OF rest(1,3)]
  show ?case
  proof (cases "(x, sz, f) \<in> set bs \<and> (y, sz', g) \<in> set bs")
    case True
    then show ?thesis using Cons.IH[OF rest(1,3)] by blast
  next
    case False
    then show ?thesis using Cons.prems(3,4) B rest(2) bounds by fastforce
  qed
qed simp

lemma layoutD:
  assumes "layout rt s0 bs e"
  shows "(x, sz, f) \<in> set bs \<Longrightarrow> aligned x \<and> s0 \<le> x \<and> x + 4 + sz \<le> e \<and> 0 \<le> sz \<and> sz mod 4 = 0"
    and "(x, sz, f) \<in> set bs \<Longrightarrow> (y, sz', g) \<in> set bs \<Longrightarrow> (x, sz, f) = (y, sz', g) \<or> x + 4 + sz \<le> y \<or> y + 4 + sz' \<le> x"
    and "(x, sz, True) \<in> set bs \<Longrightarrow> 12 \<le> sz \<and> sz mod 16 = 12"
    and "0 < rt" "rt mod 16 = 0" "rt + ROOT_SIZE \<le> s0" "e \<le> 2 ^ 32"
proof -
  have l: "tiles s0 bs e" "list_all sized bs" using assms by (simp_all add: layout_def)
  show "(x, sz, f) \<in> set bs \<Longrightarrow> aligned x \<and> s0 \<le> x \<and> x + 4 + sz \<le> e \<and> 0 \<le> sz \<and> sz mod 4 = 0"
  proof -
    assume mem: "(x, sz, f) \<in> set bs"
    then have sized: "sized (x, sz, f)" using l(2) by (auto simp: list_all_iff)
    then have "sz mod 16 = 12 \<or> sz = 0" by auto
    then have "sz mod 4 = 0" by presburger
    moreover have "s0 \<le> x \<and> x + 4 + sz \<le> e" using tiles_bounds[OF l] mem by blast
    ultimately show ?thesis using sized by auto
  qed
  show "(x, sz, f) \<in> set bs \<Longrightarrow> (y, sz', g) \<in> set bs \<Longrightarrow> (x, sz, f) = (y, sz', g) \<or> x + 4 + sz \<le> y \<or> y + 4 + sz' \<le> x"
    by (rule tiles_apart[OF l])
  show "(x, sz, True) \<in> set bs \<Longrightarrow> 12 \<le> sz \<and> sz mod 16 = 12" using l(2) by (auto simp: list_all_iff)
  show "0 < rt" "rt mod 16 = 0" "rt + ROOT_SIZE \<le> s0" "e \<le> 2 ^ 32" using assms by (simp_all add: layout_def)
qed

lemma layout_frees: "layout rt s0 bs e \<Longrightarrow> frees_ok rt (frees bs)"
proof -
  assume lay: "layout rt s0 bs e"
  have "single_valued (frees bs)"
  proof (rule single_valuedI)
    fix x y z assume "(x, y) \<in> frees bs" "(x, z) \<in> frees bs"
    then show "y = z" using layoutD(2)[OF lay, of x y True x z True] layoutD(1)[OF lay, of x y True] layoutD(1)[OF lay, of x z True]
      by (auto simp: frees_def)
  qed
  then show ?thesis using layoutD(1,3-6)[OF lay] by (fastforce simp: frees_ok_def frees_def)
qed

lemma frees_append: "frees (xs @ ys) = frees xs \<union> frees ys" "frees ((x, sz, f) # bs) = (if f then insert (x, sz) (frees bs) else frees bs)" "frees [] = {}"
  by (auto simp: frees_def)

lemma frees_ok_mono: "frees_ok rt F \<Longrightarrow> F' \<subseteq> F \<Longrightarrow> frees_ok rt F'"
  unfolding frees_ok_def by (meson single_valued_subset subsetD)

lemma list_wordsE: "a \<in> list_words rt F \<Longrightarrow> a \<notin> {rt..<rt + HL_END} \<Longrightarrow> \<exists>y ys. (y, ys) \<in> F \<and> (a = y + 4 \<or> a = y + 8)"
  by (auto simp: list_words_def prev_field_def next_field_def)

section \<open>Tags\<close>

text \<open>\<open>l\<close> tells whether the block before the list is free.\<close>

fun tagged :: "memory \<Rightarrow> bool \<Rightarrow> blk list \<Rightarrow> bool" where
  "tagged m l [] \<longleftrightarrow> True"
| "tagged m l ((x, sz, f) # bs) \<longleftrightarrow> m x = info sz f l \<and> (f \<longrightarrow> \<not> l \<and> m (x + sz) = x) \<and> tagged m f bs"

fun free_after :: "bool \<Rightarrow> blk list \<Rightarrow> bool" where
  "free_after l [] = l"
| "free_after l ((x, sz, f) # bs) = free_after f bs"

fun tag_words :: "blk \<Rightarrow> int set" where
  "tag_words (x, sz, f) = (if f then {x, x + sz} else {x})"

fun own_words :: "blk \<Rightarrow> int set" where
  "own_words (x, sz, f) = (if f then {x..<x + 4 + sz} else {x})"

text \<open>The words that the allocator may write: all but the payloads of used blocks.\<close>

definition writable :: "int \<Rightarrow> blk list \<Rightarrow> int set" where
  "writable rt bs = {rt..<rt + HL_END} \<union> \<Union>(own_words ` set bs)"

lemma free_after_append: "free_after l (xs @ ys) = free_after (free_after l xs) ys"
  by (induction l xs rule: free_after.induct) simp_all

lemma tagged_append: "tagged m l (xs @ ys) \<longleftrightarrow> tagged m l xs \<and> tagged m (free_after l xs) ys"
  by (induction m l xs rule: tagged.induct) auto

lemma tagged_frame: "(\<And>B a. B \<in> set bs \<Longrightarrow> a \<in> tag_words B \<Longrightarrow> m' a = m a) \<Longrightarrow> tagged m' l bs = tagged m l bs"
proof (induction bs arbitrary: l)
  case (Cons B bs)
  obtain x sz f where B: "B = (x, sz, f)" by (cases B) auto
  have "m' x = m x" using Cons.prems[of B] B by simp
  moreover have "f \<longrightarrow> m' (x + sz) = m (x + sz)" using Cons.prems[of B] B by simp
  moreover have "tagged m' f bs = tagged m f bs" by (rule Cons.IH) (rule Cons.prems, simp_all)
  ultimately show ?case using B by simp
qed simp

lemma tag_list_apart:
  assumes lay: "layout rt s0 bs e" and "B \<in> set bs" "a \<in> tag_words B" "F \<subseteq> frees bs"
  shows "a \<notin> list_words rt F"
proof
  assume "a \<in> list_words rt F"
  then have "a \<in> list_words rt (frees bs)" using assms(4) by (auto simp: list_words_def)
  obtain x sz f where B: "B = (x, sz, f)" by (cases B) auto
  have a: "a = x \<or> f \<and> a = x + sz" "x \<le> a" "a < x + 4 + sz" "s0 \<le> a"
    using assms(2,3) B layoutD(1)[OF lay, of x sz f] by (auto split: if_splits)
  have "rt + HL_END \<le> a" using a(4) layoutD(6)[OF lay] by (simp add: tlsf_numbers)
  then obtain y sz' where y: "(y, sz', True) \<in> set bs" "a = y + 4 \<or> a = y + 8"
    using \<open>a \<in> list_words rt (frees bs)\<close> by (auto simp: list_words_def frees_def prev_field_def next_field_def)
  then have "12 \<le> sz'" using layoutD(3)[OF lay] by blast
  then have "(x, sz, f) = (y, sz', True)" using layoutD(2)[OF lay, of x sz f y sz' True] assms(2) B y a by auto
  then show False using a(1) y(2) \<open>12 \<le> sz'\<close> by auto
qed

lemma writable_lists: "layout rt s0 bs e \<Longrightarrow> F \<subseteq> frees bs \<Longrightarrow> list_words rt F \<subseteq> writable rt bs"
proof
  fix a assume lay: "layout rt s0 bs e" and F: "F \<subseteq> frees bs" and a: "a \<in> list_words rt F"
  show "a \<in> writable rt bs"
  proof (cases "a \<in> {rt..<rt + HL_END}")
    case False
    then obtain y sz where y: "(y, sz) \<in> F" "a = y + 4 \<or> a = y + 8"
      using a by (auto simp: list_words_def prev_field_def next_field_def)
    then have "(y, sz, True) \<in> set bs" using F by (auto simp: frees_def)
    moreover from this have "12 \<le> sz" using layoutD(3)[OF lay] by blast
    ultimately show ?thesis unfolding writable_def using y(2) by (intro UnI2 UN_I[of "(y, sz, True)"]) auto
  qed (simp add: writable_def)
qed

lemma used_kept:
  assumes lay: "layout rt s0 bs e" and used: "(x, sz, False) \<in> set bs" and a: "x + 4 \<le> a" "a < x + 4 + sz"
  shows "a \<notin> writable rt bs"
proof
  assume "a \<in> writable rt bs"
  moreover have "a \<notin> {rt..<rt + HL_END}" using layoutD(1)[OF lay used] layoutD(6)[OF lay] a by (simp add: tlsf_numbers)
  ultimately obtain y sz' f where y: "(y, sz', f) \<in> set bs" "a \<in> own_words (y, sz', f)" by (auto simp: writable_def)
  then have "y \<le> a" "a < y + 4 + sz'" "a = y \<or> f" using layoutD(1)[OF lay y(1)] by (auto split: if_splits)
  then show False using layoutD(2)[OF lay used y(1)] a by auto
qed

lemma outside_kept: "layout rt s0 bs e \<Longrightarrow> a < rt \<or> e \<le> a \<or> a = rt + HL_END \<Longrightarrow> a \<notin> writable rt bs"
proof
  assume lay: "layout rt s0 bs e" and a: "a < rt \<or> e \<le> a \<or> a = rt + HL_END" and w: "a \<in> writable rt bs"
  have "(e - 4, 0, False) \<in> set bs" using lay by (metis last_in_set layout_def)
  then have "s0 \<le> e - 4" using layoutD(1)[OF lay] by blast
  then have "a \<notin> {rt..<rt + HL_END}" using a layoutD(6)[OF lay] by (auto simp: tlsf_numbers)
  then obtain y sz f where y: "(y, sz, f) \<in> set bs" "a \<in> own_words (y, sz, f)" using w by (auto simp: writable_def)
  then have "s0 \<le> a" "a < e" using layoutD(1)[OF lay y(1)] by (auto split: if_splits)
  then show False using a layoutD(6)[OF lay] layoutD(4)[OF lay] by (auto simp: tlsf_numbers)
qed


lemma layout_around:
  assumes "layout rt s0 (pre @ (b, sz, f) # post) e"
  shows "(x, xs, g) \<in> set pre \<Longrightarrow> x + 4 + xs \<le> b" "(x, xs, g) \<in> set post \<Longrightarrow> b + 4 + sz \<le> x"
proof -
  have l: "tiles s0 (pre @ (b, sz, f) # post) e" "list_all sized pre" "list_all sized post" using assms by (simp_all add: layout_def)
  then have t: "tiles s0 pre b" "tiles (b + 4 + sz) post e" by (auto simp: tiles_append)
  show "(x, xs, g) \<in> set pre \<Longrightarrow> x + 4 + xs \<le> b" using tiles_bounds[OF t(1) l(2)] by blast
  show "(x, xs, g) \<in> set post \<Longrightarrow> b + 4 + sz \<le> x" using tiles_bounds[OF t(2) l(3)] by blast
qed

lemma frees_without:
  assumes "layout rt s0 (pre @ (b, sz, f) # post) e"
  shows "(b, z) \<notin> frees (pre @ post)" "frees (pre @ post) \<subseteq> frees (pre @ (b, sz, f) # post)"
    "frees (pre @ (b, sz, True) # post) = insert (b, sz) (frees (pre @ post))"
proof -
  have "0 \<le> sz" using layoutD(1)[OF assms, of b sz f] by simp
  have "(b, z, g) \<notin> set pre" for g
    using layout_around(1)[OF assms, of b z g] layoutD(1)[OF assms, of b z g] by auto
  moreover have "(b, z, g) \<notin> set post" for g using layout_around(2)[OF assms, of b z g] \<open>0 \<le> sz\<close> by auto
  ultimately show "(b, z) \<notin> frees (pre @ post)" by (simp add: frees_def)
qed (auto simp: frees_def)

text \<open>
  A block taken out: the blocks before and behind it are tagged, the lists hold the free ones of them, and its own
  information is about to be decided. The tag of the right neighbour is unknown.
\<close>

definition opened :: "memory \<Rightarrow> int \<Rightarrow> int \<Rightarrow> blk list \<Rightarrow> int \<Rightarrow> int \<Rightarrow> bool \<Rightarrow> blk list \<Rightarrow> int \<Rightarrow> bool" where
  "opened m rt s0 pre b sz f post e \<longleftrightarrow>
     layout rt s0 (pre @ (b, sz, True) # post) e \<and> tagged m False pre \<and> m b = info sz f (free_after False pre)
     \<and> (\<exists>r. tagged m r post) \<and> (\<exists>L. lists_ok m rt L (frees (pre @ post)))"

lemma tagged_outside:
  assumes lay: "layout rt s0 (pre @ (b, sz, f) # post) e" and ch: "changes m m' A" "A \<subseteq> {b..<b + 4 + sz}"
  shows "tagged m' l pre = tagged m l pre" "tagged m' l post = tagged m l post"
proof -
  have kept: "m' a = m a" if B: "B \<in> set pre \<union> set post" "a \<in> tag_words B" for B a
  proof -
    obtain x xs g where x: "B = (x, xs, g)" by (cases B) auto
    then have "a < b \<or> b + 4 + sz \<le> a"
      using B layout_around[OF lay, of x xs g] layoutD(1)[OF lay, of x xs g] by (auto split: if_splits)
    then show ?thesis using ch by (auto simp: changes_def)
  qed
  show "tagged m' l pre = tagged m l pre" by (rule tagged_frame) (use kept in blast)
  show "tagged m' l post = tagged m l post" by (rule tagged_frame) (use kept in blast)
qed

lemma lists_outside:
  assumes lay: "layout rt s0 (pre @ (b, sz, f) # post) e" and ch: "changes m m' A" "A \<subseteq> {b..<b + 4 + sz}"
    and "lists_ok m rt L (frees (pre @ post))"
  shows "lists_ok m' rt L (frees (pre @ post))"
proof (rule lists_frame[OF assms(4) ch(1)])
  have "a < b \<or> b + 4 + sz \<le> a" if w: "a \<in> list_words rt (frees (pre @ post))" for a
  proof (cases "a \<in> {rt..<rt + HL_END}")
    case True
    then show ?thesis using layoutD(1)[OF lay, of b sz f] layoutD(6)[OF lay] by (simp add: tlsf_numbers)
  next
    case False
    then obtain y ys where y: "(y, ys, True) \<in> set pre \<union> set post" "a = y + 4 \<or> a = y + 8"
      using list_wordsE[OF w] by (auto simp: frees_def)
    then have "12 \<le> ys" using layoutD(3)[OF lay, of y ys] by auto
    then show ?thesis using y layout_around[OF lay, of y ys True] by auto
  qed
  then show "A \<inter> list_words rt (frees (pre @ post)) = {}" using ch(2) by force
qed

lemma openedI:
  assumes lay: "layout rt s0 (pre @ (b, sz, True) # post) e" and tags: "tagged m False pre" "tagged m r post"
    and lists: "lists_ok m rt L (frees (pre @ post))"
    and new: "changes m m' A" "A \<subseteq> {b..<b + 4 + sz}" "m' b = info sz f (free_after False pre)"
  shows "opened m' rt s0 pre b sz f post e"
  unfolding opened_def using lay new(3) tagged_outside[OF lay new(1,2)] tags lists_outside[OF lay new(1,2) lists] by blast

text \<open>Taking a free block out of its list.\<close>

lemma removal:
  assumes lay: "layout rt s0 bs e" and F: "F \<subseteq> frees bs" "(x, xs) \<in> F" and ok: "lists_ok m rt L F" and info: "m x = info xs True l"
  shows "\<exists>m' L'. removeBlock rt x m = Some m' \<and> lists_ok m' rt L' (F - {(x, xs)}) \<and> changes m m' (writable rt bs)
    \<and> (\<forall>B\<in>set bs. \<forall>a\<in>tag_words B. m' a = m a)"
proof -
  have "frees_ok rt F" using layout_frees[OF lay] F(1) by (rule frees_ok_mono)
  then obtain m' L' where m': "removeBlock rt x m = Some m'" "lists_ok m' rt L' (F - {(x, xs)})" "changes m m' (list_words rt F)"
    using removeBlock_spec[OF ok _ F(2) info] by blast
  have "m' a = m a" if "B \<in> set bs" "a \<in> tag_words B" for B a
    using tag_list_apart[OF lay that F(1)] m'(3) by (simp add: changes_def)
  moreover have "changes m m' (writable rt bs)" using changes_mono[OF m'(3) writable_lists[OF lay F(1)]] .
  ultimately show ?thesis using m' by blast
qed

lemma layout_right:
  assumes "layout rt s0 (pre @ (b, sz, True) # post) e"
  obtains r rs g rest where "post = (r, rs, g) # rest" "r = b + 4 + sz" "0 \<le> r" "r < 2 ^ 32" "u32 (b + 4 + sz) = r"
proof (cases post)
  case Nil
  then show thesis using assms by (simp add: layout_def)
next
  case (Cons C rest)
  obtain r rs g where C: "C = (r, rs, g)" by (cases C) auto
  have "tiles s0 (pre @ (b, sz, True) # post) e" using assms by (simp add: layout_def)
  then have "r = b + 4 + sz" using Cons C by (auto simp: tiles_append)
  moreover have "0 \<le> r" "r < 2 ^ 32" using layoutD(1)[OF assms, of r rs g] layoutD(4,6,7)[OF assms] Cons C by (simp_all add: tlsf_numbers)
  ultimately show thesis using that Cons C u32_small by metis
qed

lemma mod12_join: "sz mod 16 = 12 \<Longrightarrow> rs mod 16 = 12 \<Longrightarrow> (sz + 4 + rs) mod 16 = (12 :: int)"
proof -
  assume "sz mod 16 = 12" "rs mod 16 = 12"
  then have "(sz + 4 + rs) mod 16 = (12 + 4 + 12) mod 16" by (intro mod_add_cong) simp_all
  then show ?thesis by simp
qed

lemma layout_join:
  assumes "layout rt s0 (pre @ (b, sz, True) # (r, rs, True) # post) e"
  shows "layout rt s0 (pre @ (b, sz + 4 + rs, True) # post) e"
    "writable rt (pre @ (b, sz + 4 + rs, True) # post) = writable rt (pre @ (b, sz, True) # (r, rs, True) # post)"
proof -
  have l: "tiles s0 (pre @ (b, sz, True) # (r, rs, True) # post) e" "12 \<le> sz" "sz mod 16 = 12" "12 \<le> rs" "rs mod 16 = 12"
    using assms by (simp_all add: layout_def)
  then have r: "r = b + 4 + sz" and t: "tiles s0 (pre @ (b, sz + 4 + rs, True) # post) e" by (auto simp: tiles_append add.assoc)
  have "(sz + 4 + rs) mod 16 = 12" by (rule mod12_join[OF l(3,5)])
  moreover have "post \<noteq> []" using assms by (auto simp: layout_def)
  ultimately show "layout rt s0 (pre @ (b, sz + 4 + rs, True) # post) e" using assms l(2,4) t by (simp add: layout_def)
  have "{b..<b + 4 + (sz + 4 + rs)} = {b..<b + 4 + sz} \<union> {b + 4 + sz..<b + 4 + sz + (4 + rs)}"
    using l ivl_disj_un_two(3)[of b "b + 4 + sz" "b + 4 + sz + (4 + rs)"] by (simp add: algebra_simps)
  then have "{b..<b + 4 + (sz + 4 + rs)} = {b..<b + 4 + sz} \<union> {r..<r + 4 + rs}" by (simp add: r algebra_simps)
  then show "writable rt (pre @ (b, sz + 4 + rs, True) # post) = writable rt (pre @ (b, sz, True) # (r, rs, True) # post)"
    by (simp add: writable_def Un_assoc Un_left_commute)
qed


section \<open>Merging\<close>

fun joined :: "int \<Rightarrow> blk list \<Rightarrow> int \<times> blk list" where
  "joined sz ((r, rs, True) # post) = (sz + 4 + rs, post)"
| "joined sz post = (sz, post)"

definition joined_left :: "blk list \<Rightarrow> int \<Rightarrow> int \<Rightarrow> blk list \<times> int \<times> int" where
  "joined_left pre b sz =
     (if free_after False pre then (butlast pre, fst (last pre), fst (snd (last pre)) + 4 + sz) else (pre, b, sz))"

definition coalesced :: "blk list \<Rightarrow> int \<Rightarrow> int \<Rightarrow> blk list \<Rightarrow> blk list" where
  "coalesced pre b sz post =
     (let (sz, post) = joined sz post; (pre, b, sz) = joined_left pre b sz in pre @ (b, sz, True) # post)"

definition heap_ok :: "memory \<Rightarrow> int \<Rightarrow> int \<Rightarrow> blk list \<Rightarrow> int \<Rightarrow> bool" where
  "heap_ok m rt s0 bs e \<longleftrightarrow> layout rt s0 bs e \<and> tagged m False bs \<and> (\<exists>L. lists_ok m rt L (frees bs))"

lemma u32_info: "0 \<le> sz \<Longrightarrow> sz + 4 \<le> 2 ^ 32 \<Longrightarrow> u32 (info sz f l) = info sz f l"
  by (rule u32_small) (auto simp: info_def)

lemma info_add: "info sz f l + 4 + rs = info (sz + 4 + rs) f l"
  by (simp add: info_def)

lemma openedD:
  assumes "opened m rt s0 pre b sz f post e"
  shows "layout rt s0 (pre @ (b, sz, True) # post) e" "tagged m False pre" "m b = info sz f (free_after False pre)"
    "sz mod 4 = 0" "12 \<le> sz" "sz mod 16 = 12" "0 < b" "m b AND NOT TAGS_MASK = sz" "u32 (info sz f l) = info sz f l"
proof -
  show lay: "layout rt s0 (pre @ (b, sz, True) # post) e" and b: "m b = info sz f (free_after False pre)" "tagged m False pre"
    using assms by (simp_all add: opened_def)
  have "(b, sz, True) \<in> set (pre @ (b, sz, True) # post)" by simp
  note B = layoutD(1,3)[OF lay this]
  show "sz mod 4 = 0" "12 \<le> sz" "sz mod 16 = 12" using B by simp_all
  show "0 < b" using B layoutD(4,6)[OF lay] by (simp add: tlsf_numbers)
  show "m b AND NOT TAGS_MASK = sz" unfolding b by (rule info_size) (use B in simp)
  show "u32 (info sz f l) = info sz f l" by (rule u32_info) (use B layoutD(4,6,7)[OF lay] in \<open>simp_all add: tlsf_numbers\<close>)
qed

lemma opened_right: "opened m rt s0 pre b sz f ((r, rs, g) # rest) e \<Longrightarrow> GETRIGHT m b = r \<and> rs mod 4 = 0 \<and> 0 \<le> rs"
proof -
  assume op: "opened m rt s0 pre b sz f ((r, rs, g) # rest) e"
  have "u32 (b + 4 + sz) = r" by (rule layout_right[OF openedD(1)[OF op]]) simp
  moreover have "rs mod 4 = 0 \<and> 0 \<le> rs" using layoutD(1)[OF openedD(1)[OF op], of r rs g] by simp
  ultimately show ?thesis using openedD(8)[OF op] by (simp add: GETRIGHT_def tlsf_numbers)
qed

lemma merge_right_spec:
  assumes op: "opened m rt s0 pre b sz True post e" and join: "joined sz post = (sz', post')"
  shows "\<exists>m' right rs rest. merge_right rt b m = Some (m', info sz' True (free_after False pre), right, m' right)
    \<and> opened m' rt s0 pre b sz' True post' e \<and> post' = (right, rs, False) # rest
    \<and> changes m m' (writable rt (pre @ (b, sz, True) # post))
    \<and> writable rt (pre @ (b, sz', True) # post') = writable rt (pre @ (b, sz, True) # post)"
proof -
  note lay = openedD(1)[OF op]
  obtain r rs g rest where post: "post = (r, rs, g) # rest" by (rule layout_right[OF lay])
  note right = opened_right[OF op[unfolded post]]
  obtain q L where tags: "tagged m q post" and lists: "lists_ok m rt L (frees (pre @ post))" using op by (auto simp: opened_def)
  have r: "m r = info rs g q" using tags post by simp
  show ?thesis
  proof (cases g)
    case False
    then have "merge_right rt b m = Some (m, m b, r, m r)"
      using right r by (simp add: merge_right_def Let_def tagged_free)
    moreover have "sz' = sz" "post' = post" using join False post by simp_all
    ultimately show ?thesis using op post False openedD(3)[OF op] by (auto simp: changes_def)
  next
    case True
    then have sz': "sz' = sz + 4 + rs" "post' = rest" using join post by simp_all
    have lay2: "layout rt s0 ((pre @ [(b, sz, True)]) @ (r, rs, True) # rest) e" using lay post True by simp
    note without = frees_without[OF lay2]
    have F: "frees (pre @ post) \<subseteq> frees (pre @ (b, sz, True) # post)" by (rule frees_without(2)[OF lay])
    have mem: "(r, rs) \<in> frees (pre @ post)" using post True by (simp add: frees_def)
    have rest: "frees (pre @ post) - {(r, rs)} = frees (pre @ rest)"
      using without(1) post True by (auto simp: frees_append)
    have "m r = info rs True q" using r True by simp
    then obtain m1 L1 where m1: "removeBlock rt r m = Some m1" "lists_ok m1 rt L1 (frees (pre @ rest))"
      "changes m m1 (writable rt (pre @ (b, sz, True) # post))"
      "\<forall>B\<in>set (pre @ (b, sz, True) # post). \<forall>a\<in>tag_words B. m1 a = m a"
      using removal[OF lay F mem lists, of q] unfolding rest by blast
    define m2 where "m2 = m1(b := info sz' True (free_after False pre))"
    have tags1: "tagged m1 False pre" "tagged m1 True rest"
      using tagged_frame[of pre m1 m False] tagged_frame[of rest m1 m True] m1(4) openedD(2)[OF op] tags post True by auto
    have "layout rt s0 (pre @ (b, sz, True) # (r, rs, True) # rest) e" using lay2 by simp
    note lay' = layout_join[OF this]
    have "opened m2 rt s0 pre b sz' True post' e"
      unfolding sz' by (rule openedI[OF lay'(1) tags1 m1(2), of _ "{b}"]) (use right openedD(5)[OF op] in \<open>auto simp: m2_def sz' changes_def\<close>)
    moreover from layout_right[OF lay'(1)] obtain r2 rs2 g2 rest2 where rest2: "rest = (r2, rs2, g2) # rest2" by metis
    moreover have "\<not> g2" using tags1(2) rest2 by simp
    moreover have "changes m m2 (writable rt (pre @ (b, sz, True) # post))"
      using m1(3) openedD(5)[OF op] by (auto simp: changes_def m2_def writable_def)
    moreover have "merge_right rt b m = Some (m2, info sz' True (free_after False pre), r2, m2 r2)"
    proof -
      have "u32 (m b + BLOCK_OVERHEAD + (m r AND NOT TAGS_MASK)) = info sz' True (free_after False pre)"
        using openedD(3)[OF op] openedD(9)[OF \<open>opened m2 rt s0 pre b sz' True post' e\<close>] right
        unfolding r tlsf_numbers by (simp add: info_size info_add sz')
      moreover have "GETRIGHT m2 b = r2" using opened_right \<open>opened m2 rt s0 pre b sz' True post' e\<close> rest2 sz' by metis
      moreover have "m r AND FREE \<noteq> 0" using r right True by (simp add: tagged_free)
      ultimately show ?thesis using right m1(1) by (simp add: merge_right_def Let_def m2_def)
    qed
    ultimately show ?thesis using sz' lay'(2) post True by auto
  qed
qed

lemma tagged_last: "tagged m l pre \<Longrightarrow> free_after l pre \<Longrightarrow> \<not> l \<Longrightarrow>
   \<exists>pre' x xs. pre = pre' @ [(x, xs, True)] \<and> \<not> free_after l pre' \<and> m x = info xs True False \<and> m (x + xs) = x"
proof (cases pre rule: rev_cases)
  case (snoc pre' B)
  assume a: "tagged m l pre" "free_after l pre"
  obtain x xs f where B: "B = (x, xs, f)" by (cases B) auto
  then have "f" using a snoc by (simp add: free_after_append)
  then show ?thesis using a snoc B by (auto simp: tagged_append)
qed simp

lemma merge_left_spec:
  assumes op: "opened m rt s0 pre b sz True post e" and join: "joined_left pre b sz = (pre', b', sz')"
  shows "\<exists>m'. merge_left rt b (info sz True (free_after False pre)) m = Some (m', b', info sz' True False)
    \<and> opened m' rt s0 pre' b' sz' True post e \<and> \<not> free_after False pre'
    \<and> changes m m' (writable rt (pre @ (b, sz, True) # post))
    \<and> writable rt (pre' @ (b', sz', True) # post) = writable rt (pre @ (b, sz, True) # post)
    \<and> (\<forall>B\<in>set post. \<forall>a\<in>tag_words B. m' a = m a)"
proof (cases "free_after False pre")
  case False
  then have "merge_left rt b (info sz True (free_after False pre)) m = Some (m, b, info sz True False)"
    using openedD(4)[OF op] by (simp add: merge_left_def tagged_left)
  then show ?thesis using op False join by (auto simp: joined_left_def changes_def)
next
  case True
  note lay = openedD(1)[OF op]
  obtain pre0 x xs where pre: "pre = pre0 @ [(x, xs, True)]" "\<not> free_after False pre0" "m x = info xs True False" "m (x + xs) = x"
    using tagged_last[OF openedD(2)[OF op] True] by blast
  have j: "pre' = pre0" "b' = x" "sz' = xs + 4 + sz" using join True pre(1) by (simp_all add: joined_left_def)
  obtain q L where tags: "tagged m q post" and lists: "lists_ok m rt L (frees (pre @ post))" using op by (auto simp: opened_def)
  have lay2: "layout rt s0 (pre0 @ (x, xs, True) # (b, sz, True) # post) e" using lay pre(1) by simp
  note lay' = layout_join[OF lay2]
  have xs: "xs mod 4 = 0" "12 \<le> xs" using layoutD(1,3)[OF lay2, of x xs] by auto
  have "b = x + 4 + xs" using layout_right[OF lay2] by (metis prod.inject list.inject)
  then have left: "GETFREELEFT m b = x" using pre(4) by (simp add: GETFREELEFT_def)
  have F: "frees (pre @ post) \<subseteq> frees (pre @ (b, sz, True) # post)" by (rule frees_without(2)[OF lay])
  have mem: "(x, xs) \<in> frees (pre @ post)" using pre(1) by (simp add: frees_def)
  have rest: "frees (pre @ post) - {(x, xs)} = frees (pre0 @ post)"
    using frees_without(1)[OF lay2, of xs] pre(1) by (auto simp: frees_append)
  obtain m1 L1 where m1: "removeBlock rt x m = Some m1" "lists_ok m1 rt L1 (frees (pre0 @ post))"
    "changes m m1 (writable rt (pre @ (b, sz, True) # post))"
    "\<forall>B\<in>set (pre @ (b, sz, True) # post). \<forall>a\<in>tag_words B. m1 a = m a"
    using removal[OF lay F mem lists, of False] pre(3) unfolding rest by blast
  define m2 where "m2 = m1(x := info sz' True False)"
  have tags1: "tagged m1 False pre0" "tagged m1 q post"
    using tagged_frame[of pre0 m1 m False] tagged_frame[of post m1 m q] m1(4) openedD(2)[OF op] tags pre(1) by (auto simp: tagged_append)
  have op2: "opened m2 rt s0 pre0 x sz' True post e"
    unfolding j by (rule openedI[OF lay'(1) tags1 m1(2), of _ "{x}"]) (use xs openedD(5)[OF op] pre(2) in \<open>auto simp: m2_def j changes_def\<close>)
  have "merge_left rt b (info sz True (free_after False pre)) m = Some (m2, x, info sz' True False)"
  proof -
    have "u32 (info xs True False + BLOCK_OVERHEAD + sz) = info sz' True False"
      using openedD(9)[OF op2] by (simp add: info_add tlsf_numbers j)
    then show ?thesis
      using left pre(3) xs True openedD(4)[OF op] m1(1) by (simp add: merge_left_def Let_def tagged_left tagged_free info_size m2_def)
  qed
  moreover have "changes m m2 (writable rt (pre @ (b, sz, True) # post))"
    using m1(3) pre(1) xs by (auto simp: changes_def m2_def writable_def)
  moreover have "m2 a = m a" if "B \<in> set post" "a \<in> tag_words B" for B a
  proof -
    obtain y ys g where B: "B = (y, ys, g)" by (cases B) auto
    have "x + 4 + xs \<le> y" "y \<le> a" using layout_around(2)[OF lay2, of y ys g] layoutD(1)[OF lay2, of y ys g] that B by (auto split: if_splits)
    then have "a \<noteq> x" using xs by simp
    moreover have "m1 a = m a" using m1(4) that by (intro bspec[OF bspec[OF m1(4)], of B a]) simp_all
    ultimately show ?thesis by (simp add: m2_def)
  qed
  ultimately show ?thesis using op2 lay'(2) pre(1,2) j by (intro exI[of _ m2]) simp
qed


section \<open>Inserting\<close>

text \<open>The right neighbour and the end of a free block are marked, and the block is linked.\<close>

lemma insert_marked:
  assumes op: "opened m rt s0 pre b sz True ((r, rs, False) # rest) e" and left: "\<not> free_after False pre"
  shows "\<exists>m'. link rt b sz ((m(r := m r OR LEFTFREE))(r - 4 := b)) = Some m'
    \<and> heap_ok m' rt s0 (pre @ (b, sz, True) # (r, rs, False) # rest) e
    \<and> changes m m' (writable rt (pre @ (b, sz, True) # (r, rs, False) # rest))"
proof -
  let ?post = "(r, rs, False) # rest" and ?bs = "pre @ (b, sz, True) # (r, rs, False) # rest"
  note lay = openedD(1)[OF op]
  obtain q L where tags: "tagged m q ?post" and lists: "lists_ok m rt L (frees (pre @ ?post))" using op by (auto simp: opened_def)
  have r: "r = b + 4 + sz" by (rule layout_right[OF lay]) simp
  have rs: "rs mod 4 = 0" "0 \<le> rs" using opened_right[OF op] by simp_all
  define m2 where "m2 = (m(r := m r OR LEFTFREE))(r - 4 := b)"
  have end': "r - 4 = b + sz" using r by simp
  have mr: "m2 r = info rs False True" using tags rs by (simp add: m2_def set_left)
  have ch: "changes m m2 {r, b + sz}" unfolding m2_def end' by (simp add: changes_def)
  have kept: "m2 a = m a" if "B \<in> set pre \<union> set rest" "a \<in> tag_words B" for B a
  proof -
    obtain x xs g where B: "B = (x, xs, g)" by (cases B) auto
    have "layout rt s0 ((pre @ [(b, sz, True)]) @ (r, rs, False) # rest) e" using lay by simp
    then have around: "x + 4 + xs \<le> b \<or> r + 4 + rs \<le> x"
      using layout_around(1)[OF lay, of x xs g] layout_around(2)[of rt s0 "pre @ [(b, sz, True)]" r rs False rest e x xs g] that(1) B by auto
    have "x \<le> a" "a < x + 4 + xs" using that B layoutD(1)[OF lay, of x xs g] by (auto split: if_splits)
    then have "a \<notin> {r, b + sz}" using around that(1) B r rs openedD(5)[OF op] by auto
    then show ?thesis using ch by (simp add: changes_def)
  qed
  have "m2 b = info sz True False" using openedD(3,5)[OF op] left r by (simp add: m2_def)
  moreover have "tagged m2 False pre" using tagged_frame[of pre m2 m False] kept openedD(2)[OF op] by blast
  moreover have "tagged m False rest" using tags by simp
  then have "tagged m2 False rest" using tagged_frame[of rest m2 m False] kept by blast
  moreover have "m2 (b + sz) = b" by (simp add: m2_def end')
  ultimately have tags2: "tagged m2 False ?bs" using left mr by (simp add: tagged_append)
  have mem: "(b, sz, True) \<in> set ?bs" "(r, rs, False) \<in> set ?bs" by simp_all
  have F: "frees (pre @ ?post) \<subseteq> frees ?bs" "frees ?bs = insert (b, sz) (frees (pre @ ?post))"
    using frees_without(2,3)[OF lay] by simp_all
  have "{r, b + sz} \<inter> list_words rt (frees (pre @ ?post)) = {}"
    using tag_list_apart[OF lay mem(1) _ F(1), of "b + sz"] tag_list_apart[OF lay mem(2) _ F(1), of r] by simp
  then have lists2: "lists_ok m2 rt L (frees (pre @ ?post))" by (rule lists_frame[OF lists ch])
  have "b \<notin> fst ` frees (pre @ ?post)" using frees_without(1)[OF lay] by auto
  then obtain m' L' where m': "link rt b sz m2 = Some m'" "lists_ok m' rt L' (frees ?bs)" "changes m2 m' (list_words rt (frees ?bs))"
    using link_spec[OF lists2, of b sz] layout_frees[OF lay] unfolding F(2) by blast
  have "tagged m' False ?bs"
    using tags2 tagged_frame[of ?bs m' m2 False] tag_list_apart[OF lay _ _ subset_refl] m'(3) unfolding changes_def by blast
  then have "heap_ok m' rt s0 ?bs e" using lay m'(2) by (auto simp: heap_ok_def)
  moreover have "changes m m' (writable rt ?bs)"
  proof (rule changes_trans[OF ch m'(3)])
    show "{r, b + sz} \<subseteq> writable rt ?bs" using openedD(5)[OF op] by (auto simp: writable_def)
    show "list_words rt (frees ?bs) \<subseteq> writable rt ?bs" by (rule writable_lists[OF lay subset_refl])
  qed
  ultimately show ?thesis using m'(1) unfolding m2_def by blast
qed

lemma insertBlock_spec:
  assumes op: "opened m rt s0 pre b sz True post e"
  shows "\<exists>m'. insertBlock rt b m = Some m' \<and> heap_ok m' rt s0 (coalesced pre b sz post) e
    \<and> changes m m' (writable rt (pre @ (b, sz, True) # post))
    \<and> writable rt (coalesced pre b sz post) = writable rt (pre @ (b, sz, True) # post)"
proof -
  obtain sz1 post1 where j1: "joined sz post = (sz1, post1)" by fastforce
  obtain pre2 b2 sz2 where j2: "joined_left pre b sz1 = (pre2, b2, sz2)" by (metis prod_cases3)
  have co: "coalesced pre b sz post = pre2 @ (b2, sz2, True) # post1" by (simp add: coalesced_def j1 j2)
  let ?W = "writable rt (pre @ (b, sz, True) # post)"
  obtain m1 r rs rest where m1: "merge_right rt b m = Some (m1, info sz1 True (free_after False pre), r, m1 r)"
    "opened m1 rt s0 pre b sz1 True post1 e" "post1 = (r, rs, False) # rest" "changes m m1 ?W"
    "writable rt (pre @ (b, sz1, True) # post1) = ?W"
    using merge_right_spec[OF op j1] by blast
  obtain m2 where m2: "merge_left rt b (info sz1 True (free_after False pre)) m1 = Some (m2, b2, info sz2 True False)"
    "opened m2 rt s0 pre2 b2 sz2 True post1 e" "\<not> free_after False pre2" "changes m1 m2 ?W"
    "writable rt (pre2 @ (b2, sz2, True) # post1) = ?W" "\<forall>B\<in>set post1. \<forall>a\<in>tag_words B. m2 a = m1 a"
    using merge_left_spec[OF m1(2) j2] m1(5) by metis
  obtain m' where m': "link rt b2 sz2 ((m2(r := m2 r OR LEFTFREE))(r - 4 := b2)) = Some m'"
    "heap_ok m' rt s0 (pre2 @ (b2, sz2, True) # post1) e" "changes m2 m' ?W"
    using insert_marked[OF m2(2)[unfolded m1(3)] m2(3)] m2(5) unfolding m1(3) by metis
  have "m1 r = m2 r" using m2(6) m1(3) by simp
  moreover have "info sz2 True False AND NOT TAGS_MASK = sz2" using openedD(4)[OF m2(2)] by (simp add: info_size)
  moreover have "u32 (b2 + 4 + sz2) = r" by (rule layout_right[OF openedD(1)[OF m2(2)]]) (use m1(3) in simp)
  moreover have "b \<noteq> 0" "m b AND FREE \<noteq> 0" using openedD(3,4,7)[OF op] by (simp_all add: tagged_free)
  ultimately have "insertBlock rt b m = Some m'"
    using m1(1) m2(1) m'(1) openedD(5)[OF m2(2)] by (simp add: insertBlock_def Let_def tlsf_numbers)
  moreover have "changes m m' ?W"
    using m1(4) m2(4) m'(3) unfolding changes_def by simp
  ultimately show ?thesis using m'(2) m2(5) co by auto
qed


section \<open>Splitting\<close>

definition remainder :: "int \<Rightarrow> int \<Rightarrow> int \<Rightarrow> blk list \<Rightarrow> blk list" where
  "remainder b n sz post = (if n = sz then post else (let (sp, post) = joined (sz - n - 4) post in (b + 4 + n, sp, True) # post))"

lemma layout_split:
  assumes lay: "layout rt s0 (pre @ (b, sz, True) # post) e" and n: "12 \<le> n" "n mod 16 = 12" "n + 16 \<le> sz"
  shows "layout rt s0 (pre @ (b, n, False) # (b + 4 + n, sz - n - 4, True) # post) e"
proof -
  have l: "aligned b" "sz mod 16 = 12" "tiles s0 (pre @ (b, sz, True) # post) e" "post \<noteq> []" using lay by (auto simp: layout_def)
  have "(b + 4 + n) mod 16 = (12 + 4 + 12) mod 16" using l(1) n(2) unfolding aligned_def by (intro mod_add_cong) simp_all
  then have al: "aligned (b + 4 + n)" by (simp add: aligned_def)
  have "(sz - n - 4) mod 16 = (12 - 12 - 4) mod 16" using l(2) n(2) by (intro mod_diff_cong) simp_all
  then have rest: "(sz - n - 4) mod 16 = 12" by simp
  have t: "tiles s0 pre b" "tiles (b + 4 + sz) post e" using l(3) by (auto simp: tiles_append)
  have "b + 4 + n + 4 + (sz - n - 4) = b + 4 + sz" by simp
  then have "tiles (b + 4 + n + 4 + (sz - n - 4)) post e" using t(2) by (rule ssubst)
  then have "tiles s0 (pre @ (b, n, False) # (b + 4 + n, sz - n - 4, True) # post) e"
    using t(1) unfolding tiles_append by (intro exI[of _ b]) (simp only: tiles.simps simp_thms)
  then show ?thesis using lay n l(1,4) al rest by (simp add: layout_def)
qed

lemma layout_used: "layout rt s0 (pre @ (b, sz, True) # post) e \<Longrightarrow> layout rt s0 (pre @ (b, sz, False) # post) e"
  by (auto simp: layout_def tiles_append)

lemma prepare_split:
  assumes op: "opened m rt s0 pre b sz f post e" and n: "12 \<le> n" "n mod 16 = 12" "n + 16 \<le> sz"
  shows "\<exists>m'. prepareBlock rt b n m = Some m' \<and> heap_ok m' rt s0 (pre @ (b, n, False) # remainder b n sz post) e
    \<and> changes m m' (writable rt (pre @ (b, n, False) # remainder b n sz post))"
proof -
  let ?l = "free_after False pre" and ?pre = "pre @ [(b, n, False)]" and ?sp = "b + 4 + n" and ?k = "sz - n - 4"
  note lay = openedD(1)[OF op]
  note split = layout_split[OF lay n]
  obtain q L where tags: "tagged m q post" and lists: "lists_ok m rt L (frees (pre @ post))" using op by (auto simp: opened_def)
  define m1 where "m1 = m(b := info n False ?l)"
  define m2 where "m2 = m1(?sp := info ?k True False)"
  have k: "?k mod 4 = 0" "n mod 4 = 0" using layoutD(1)[OF split, of ?sp ?k True] layoutD(1)[OF split, of b n False] by simp_all
  have in_b: "changes m m1 {b}" "{b} \<subseteq> {b..<b + 4 + sz}" using n by (auto simp: m1_def changes_def)
  have tags1: "tagged m1 False ?pre" "tagged m1 q post" "lists_ok m1 rt L (frees (?pre @ post))"
    using tagged_outside[OF lay in_b] lists_outside[OF lay in_b lists] tags openedD(2)[OF op]
    by (simp_all add: tagged_append m1_def frees_append)
  have "opened m2 rt s0 ?pre ?sp ?k True post e"
    by (rule openedI[OF _ tags1, where A = "{?sp}"]) (use split n in \<open>auto simp: m2_def changes_def free_after_append\<close>)
  from insertBlock_spec[OF this] obtain m' where m': "insertBlock rt ?sp m2 = Some m'" "heap_ok m' rt s0 (coalesced ?pre ?sp ?k post) e"
    "changes m2 m' (writable rt (?pre @ (?sp, ?k, True) # post))"
    "writable rt (coalesced ?pre ?sp ?k post) = writable rt (?pre @ (?sp, ?k, True) # post)" by blast
  have co: "coalesced ?pre ?sp ?k post = pre @ (b, n, False) # remainder b n sz post"
    using n by (simp add: coalesced_def joined_left_def free_after_append remainder_def split: prod.split)
  have "remainder b n sz post = remainder b n sz post \<and> u32 (sz - n) = sz - n \<and> u32 ?sp = ?sp"
    using layoutD(1)[OF split, of ?sp ?k True] layoutD(1)[OF lay, of b sz True] layoutD(4,6,7)[OF lay] n
    by (simp add: u32_small tlsf_numbers)
  moreover have "(n + 4) AND 15 = 0"
  proof -
    have "(n + 4) mod 16 = (12 + 4) mod 16" using n(2) by (intro mod_add_cong) simp_all
    then show ?thesis by (simp add: align_bits)
  qed
  moreover have "n OR (m b AND LEFTFREE) = info n False ?l" "?k OR FREE = info ?k True False"
    using openedD(3,4)[OF op] k by (simp_all only: info_left tag_words(1,3) info_join)
  ultimately have "prepareBlock rt b n m = Some m'"
    using m'(1) n openedD(8)[OF op] by (simp add: prepareBlock_def Let_def tlsf_numbers m1_def m2_def)
  moreover have "changes m m' (writable rt (?pre @ (?sp, ?k, True) # post))"
  proof (rule changes_trans[of _ m2 "{b, ?sp}", OF _ m'(3)])
    show "changes m m2 {b, ?sp}" by (simp add: m2_def m1_def changes_def)
    show "{b, ?sp} \<subseteq> writable rt (?pre @ (?sp, ?k, True) # post)" using n by (auto simp: writable_def)
  qed simp
  ultimately show ?thesis using m'(2,4) unfolding co by auto
qed

lemma prepare_whole:
  assumes op: "opened m rt s0 pre b sz f post e"
  shows "\<exists>m'. prepareBlock rt b sz m = Some m' \<and> heap_ok m' rt s0 (pre @ (b, sz, False) # post) e
    \<and> changes m m' (writable rt (pre @ (b, sz, False) # post))"
proof -
  let ?l = "free_after False pre" and ?bs = "pre @ (b, sz, False) # post"
  note lay = openedD(1)[OF op] and used = layout_used[OF openedD(1)[OF op]]
  obtain r rs g rest where post: "post = (r, rs, g) # rest" "r = b + 4 + sz" by (rule layout_right[OF lay])
  note right = opened_right[OF op[unfolded post(1)]]
  obtain q L where tags: "tagged m q post" and lists: "lists_ok m rt L (frees (pre @ post))" using op by (auto simp: opened_def)
  define m1 where "m1 = m(b := info sz False ?l)"
  define m2 where "m2 = m1(r := m1 r AND NOT LEFTFREE)"
  have in_b: "changes m m1 {b}" "{b} \<subseteq> {b..<b + 4 + sz}" using openedD(5)[OF op] by (auto simp: m1_def changes_def)
  have tags1: "tagged m1 False pre" "tagged m1 q post" "lists_ok m1 rt L (frees ?bs)"
    using tagged_outside[OF lay in_b] lists_outside[OF lay in_b lists] tags openedD(2)[OF op] by (simp_all add: frees_append)
  have "b \<noteq> r" using post(2) openedD(5)[OF op] by simp
  have mr: "m2 r = info rs g False" using tags1(2) post(1) right by (simp add: m2_def clear_left)
  have ch: "changes m1 m2 {r}" by (simp add: m2_def changes_def)
  have lay3: "layout rt s0 ((pre @ [(b, sz, False)]) @ (r, rs, g) # rest) e" using used post(1) by simp
  have kept: "m2 a = m1 a" if B: "B \<in> set pre \<union> set rest" "a \<in> tag_words B" for B a
  proof -
    obtain x xs h where x: "B = (x, xs, h)" by (cases B) auto
    then have "a < r \<or> r + 4 + rs \<le> a"
      using B layout_around[OF lay3, of x xs h] layoutD(1)[OF lay3, of x xs h] by (auto split: if_splits)
    then show ?thesis using ch right by (auto simp: changes_def)
  qed
  have "tagged m2 False pre" using tagged_frame[of pre m2 m1 False] kept tags1(1) by blast
  moreover have "tagged m1 g rest" using tags1(2) post(1) by simp
  then have "tagged m2 g rest" using tagged_frame[of rest m2 m1 g] kept by blast
  moreover have "m2 b = info sz False ?l" using \<open>b \<noteq> r\<close> by (simp add: m2_def m1_def)
  moreover have "g \<longrightarrow> m2 (r + rs) = r" using tags1(2) post(1) layoutD(3)[OF lay, of r rs] by (auto simp: m2_def)
  ultimately have "tagged m2 False ?bs" using post(1) mr by (simp add: tagged_append)
  moreover have "lists_ok m2 rt L (frees ?bs)"
  proof (rule lists_frame[OF tags1(3) ch])
    have "r \<notin> list_words rt (frees ?bs)" by (rule tag_list_apart[OF used, of "(r, rs, g)"]) (use post(1) in simp_all)
    then show "{r} \<inter> list_words rt (frees ?bs) = {}" by simp
  qed
  ultimately have "heap_ok m2 rt s0 ?bs e" using used by (auto simp: heap_ok_def)
  moreover have "prepareBlock rt b sz m = Some m2"
  proof -
    have "(sz + 4) mod 16 = (12 + 4) mod 16" using openedD(6)[OF op] by (intro mod_add_cong) simp_all
    then have "(sz + 4) AND 15 = 0" by (simp add: align_bits)
    moreover have "m b AND NOT FREE = info sz False ?l" using openedD(3,4)[OF op] by (simp add: clear_free)
    moreover have "GETRIGHT m1 b = r" using right openedD(4,8)[OF op] by (simp add: GETRIGHT_def m1_def info_size)
    ultimately show ?thesis using openedD(8)[OF op] by (simp add: prepareBlock_def Let_def tlsf_numbers m1_def m2_def u32_small)
  qed
  moreover have "changes m m2 (writable rt ?bs)"
  proof (rule changes_trans[OF in_b(1) ch])
    show "{b} \<subseteq> writable rt ?bs" by (simp add: writable_def)
    show "{r} \<subseteq> writable rt ?bs" using post(1) right by (auto simp: writable_def)
  qed
  ultimately show ?thesis by blast
qed

lemma prepareBlock_spec:
  assumes op: "opened m rt s0 pre b sz f post e" and n: "12 \<le> n" "n mod 16 = 12" "n \<le> sz"
  shows "\<exists>m'. prepareBlock rt b n m = Some m' \<and> heap_ok m' rt s0 (pre @ (b, n, False) # remainder b n sz post) e
    \<and> changes m m' (writable rt (pre @ (b, n, False) # remainder b n sz post))"
proof (cases "n = sz")
  case True
  then show ?thesis using prepare_whole[OF op] by (simp add: remainder_def)
next
  case False
  have "(sz - n) mod 16 = (12 - 12) mod 16" using openedD(6)[OF op] n(2) by (intro mod_diff_cong) simp_all
  then have "(sz - n) mod 16 = 0" by simp
  then have "16 dvd (sz - n)" by (rule mod_0_imp_dvd)
  then have "16 \<le> sz - n" by (rule zdvd_imp_le) (use False n(3) in simp)
  then show ?thesis using prepare_split[OF op n(1,2)] by simp
qed

end
