(* ===== verification/As_Tlsf_Heap.thy ===== *)
theory As_Tlsf_Heap
  imports As_Tlsf_Blocks
begin

unbundle bit_operations_syntax

text \<open>
  The heap between operations: its blocks tile the memory from behind the root to its end, and the used ones are those
  that the program holds. Adding memory, the first initialization, allocating, reallocating and freeing keep this.
\<close>

section \<open>Live blocks\<close>

text \<open>The pointers that the program holds, with the sizes of the payloads.\<close>

definition live_blocks :: "blk list \<Rightarrow> (int \<times> int) set" where
  "live_blocks bs = {(x + 4, sz) | x sz. (x, sz, False) \<in> set bs \<and> sz \<noteq> 0}"

definition managed :: "config \<Rightarrow> heap \<Rightarrow> blk list \<Rightarrow> bool" where
  "managed cfg s bs \<longleftrightarrow>
     heap_base cfg \<le> hp_root s \<and> 0 < hp_root s \<and> hp_root s mod 16 = 0 \<and> hp_pages s \<le> 65536
     \<and> (if bs = [] then
          lists_ok (hp_mem s) (hp_root s) (\<lambda>fl sl. []) {} \<and> GETTAIL (hp_mem s) (hp_root s) = 0
          \<and> hp_root s + ROOT_SIZE \<le> 65536 * hp_pages s
        else
          (\<exists>s0 e. heap_ok (hp_mem s) (hp_root s) s0 bs e \<and> GETTAIL (hp_mem s) (hp_root s) = e - 4
             \<and> e \<le> 65536 * hp_pages s \<and> (low_memory_limit cfg = 0 \<longrightarrow> e = 65536 * hp_pages s)))"

lemma live_append: "live_blocks (xs @ ys) = live_blocks xs \<union> live_blocks ys"
    "live_blocks ((x, sz, f) # bs) = (if f \<or> sz = 0 then live_blocks bs else insert (x + 4, sz) (live_blocks bs))"
    "live_blocks [] = {}"
  by (auto simp: live_blocks_def)

lemma live_joined: "joined sz post = (sz', post') \<Longrightarrow> live_blocks post' = live_blocks post"
  by (induction sz post rule: joined.induct) (auto simp: live_append)

lemma free_last: "free_after l pre \<Longrightarrow> \<not> l \<Longrightarrow> \<exists>pre' x xs. pre = pre' @ [(x, xs, True)]"
proof (cases pre rule: rev_cases)
  case (snoc pre' B)
  assume "free_after l pre"
  then show ?thesis using snoc by (cases B) (simp add: free_after_append)
qed simp

lemma live_coalesced: "live_blocks (coalesced pre b sz post) = live_blocks pre \<union> live_blocks post"
proof -
  obtain sz1 post1 where j1: "joined sz post = (sz1, post1)" by fastforce
  obtain pre2 b2 sz2 where j2: "joined_left pre b sz1 = (pre2, b2, sz2)" by (metis prod_cases3)
  have "live_blocks pre2 = live_blocks pre"
    using j2 free_last[of False pre] by (auto simp: joined_left_def live_append split: if_splits)
  then show ?thesis using live_joined[OF j1] by (simp add: coalesced_def j1 j2 live_append)
qed

lemma live_remainder: "live_blocks (remainder b n sz post) = live_blocks post"
  by (auto simp: remainder_def live_append dest: live_joined split: prod.split)

lemma payloads_kept:
  "layout rt s0 bs e \<Longrightarrow> changes m m' (insert (rt + HL_END) (writable rt bs)) \<Longrightarrow> U \<subseteq> live_blocks bs \<Longrightarrow> same_payloads U m m'"
proof -
  assume lay: "layout rt s0 bs e" and ch: "changes m m' (insert (rt + HL_END) (writable rt bs))" and U: "U \<subseteq> live_blocks bs"
  have "m' a = m a" if "(p, k) \<in> U" "p \<le> a" "a < p + k" for p k a
  proof -
    have x: "(p - 4, k, False) \<in> set bs" using that(1) U by (auto simp: live_blocks_def)
    then have "a \<notin> writable rt bs" using used_kept[OF lay x] that by simp
    moreover have "a \<noteq> rt + HL_END" using layoutD(1)[OF lay x] layoutD(6)[OF lay] that by (simp add: tlsf_numbers)
    ultimately show ?thesis using ch by (simp add: changes_def)
  qed
  then show ?thesis unfolding same_payloads_def by blast
qed

lemma managedD:
  assumes "managed cfg s bs" "bs \<noteq> []"
  obtains s0 e where "heap_ok (hp_mem s) (hp_root s) s0 bs e" "layout (hp_root s) s0 bs e" "GETTAIL (hp_mem s) (hp_root s) = e - 4"
    "e \<le> 65536 * hp_pages s" "low_memory_limit cfg = 0 \<longrightarrow> e = 65536 * hp_pages s"
  using assms unfolding managed_def heap_ok_def by auto

lemma managed_update:
  assumes "managed cfg s bs" "bs \<noteq> []" "heap_ok (hp_mem s) (hp_root s) s0 bs e" "heap_ok m' (hp_root s) s0' bs' e"
    and "changes (hp_mem s) m' (writable (hp_root s) bs')"
  shows "managed cfg (s\<lparr>hp_mem := m'\<rparr>) bs'"
proof -
  have lay: "layout (hp_root s) s0' bs' e" "layout (hp_root s) s0 bs e" using assms(3,4) by (simp_all add: heap_ok_def)
  then have "bs' \<noteq> []" "last bs = (e - 4, 0, False)" by (simp_all add: layout_def)
  have "m' (hp_root s + HL_END) = hp_mem s (hp_root s + HL_END)"
    using assms(5) outside_kept[OF lay(1)] by (simp add: changes_def)
  moreover obtain s1 e1 where old: "layout (hp_root s) s1 bs e1" "GETTAIL (hp_mem s) (hp_root s) = e1 - 4"
    "e1 \<le> 65536 * hp_pages s" "low_memory_limit cfg = 0 \<longrightarrow> e1 = 65536 * hp_pages s" by (rule managedD[OF assms(1,2)])
  moreover have "e1 = e" using old(1) \<open>last bs = _\<close> by (simp add: layout_def)
  ultimately show ?thesis using assms(1,4) \<open>bs' \<noteq> []\<close> by (auto simp: managed_def GETTAIL_def)
qed

section \<open>Adding memory\<close>

lemma align_up_mod: "0 \<le> x \<Longrightarrow> x + 15 < 2 ^ 32 \<Longrightarrow> align_up x = x + 15 - (x + 15) mod 16"
  unfolding align_up_def tlsf_numbers by (subst u32_small) (simp_all only: align_bits)

text \<open>A new free block before a new last block is inserted.\<close>

lemma added:
  assumes lay: "layout rt s0 (pre @ [(st, k, True), (e - 4, 0, False)]) e" and tags: "tagged m False pre"
    and lists: "lists_ok m rt L (frees pre)"
    and m5: "m5 = SETTAIL (m(st := info k True (free_after False pre), prev_field st := 0, next_field st := 0, e - 4 := info 0 False True)) rt (e - 4)"
  shows "\<exists>m'. insertBlock rt st m5 = Some m' \<and> heap_ok m' rt s0 (coalesced pre st k [(e - 4, 0, False)]) e \<and> GETTAIL m' rt = e - 4
    \<and> changes m m' (insert (rt + HL_END) (writable rt (coalesced pre st k [(e - 4, 0, False)])))"
proof -
  let ?tl = "(e - 4, 0, False)"
  have st: "e - 4 = st + 4 + k" by (rule layout_right[OF lay]) simp
  have k: "12 \<le> k" "aligned st" "s0 \<le> st" using layoutD(1,3)[OF lay, of st k] by auto
  define m4 where "m4 = m(rt + HL_END := e - 4)"
  have eq: "m5 = m4(st := info k True (free_after False pre), prev_field st := 0, next_field st := 0, e - 4 := info 0 False True)"
    using k st layoutD(6)[OF lay] by (auto simp: m5 m4_def SETTAIL_def fun_upd_def prev_field_def next_field_def tlsf_numbers)
  have root: "changes m m4 {rt + HL_END}" by (simp add: m4_def changes_def)
  have "rt + HL_END \<notin> list_words rt (frees pre)"
    using outside_kept[OF lay] writable_lists[OF lay, of "frees pre"] by (auto simp: frees_append)
  then have lists4: "lists_ok m4 rt L (frees pre)" using lists_frame[OF lists root] by simp
  have tags4: "tagged m4 False pre"
  proof -
    have "m4 a = m a" if "B \<in> set pre" "a \<in> tag_words B" for B a
    proof -
      obtain x xs f where B: "B = (x, xs, f)" by (cases B) auto
      then have "s0 \<le> a" using layoutD(1)[OF lay, of x xs f] that by (auto split: if_splits)
      then show ?thesis using layoutD(6)[OF lay] by (simp add: m4_def tlsf_numbers)
    qed
    then show ?thesis using tagged_frame[of pre m4 m False] tags by blast
  qed
  define m45 where "m45 = m4(e - 4 := info 0 False True)"
  have lay2: "layout rt s0 ((pre @ [(st, k, True)]) @ (e - 4, 0, False) # []) e" using lay by simp
  have tl: "changes m4 m45 {e - 4}" "{e - 4} \<subseteq> {e - 4..<e - 4 + 4 + 0}" by (auto simp: m45_def changes_def)
  have "tagged m45 False pre"
  proof -
    have "m45 a = m4 a" if "B \<in> set pre" "a \<in> tag_words B" for B a
    proof -
      obtain x xs f where B: "B = (x, xs, f)" by (cases B) auto
      then have "a < e - 4" using layout_around(1)[OF lay2, of x xs f] layoutD(1)[OF lay, of x xs f] that by (auto split: if_splits)
      then show ?thesis by (simp add: m45_def)
    qed
    then show ?thesis using tagged_frame[of pre m45 m4 False] tags4 by blast
  qed
  moreover have "lists_ok m45 rt L (frees pre)"
  proof (rule lists_frame[OF lists4 tl(1)])
    have "e - 4 \<notin> list_words rt (frees pre)" by (rule tag_list_apart[OF lay, of ?tl]) (auto simp: frees_append)
    then show "{e - 4} \<inter> list_words rt (frees pre) = {}" by simp
  qed
  moreover have ch5: "changes m45 m5 {st, st + 4, st + 8}" using k st by (auto simp: eq m45_def changes_def prev_field_def next_field_def)
  moreover have "m5 st = info k True (free_after False pre)" using k st by (simp add: eq prev_field_def next_field_def)
  moreover have "tagged m45 True [?tl]" by (simp add: m45_def)
  ultimately have "opened m5 rt s0 pre st k True [?tl] e"
    by (intro openedI[OF lay, where m = m45 and r = True and L = L and A = "{st, st + 4, st + 8}"]) (use k in \<open>simp_all add: frees_append\<close>)
  from insertBlock_spec[OF this] obtain m' where m': "insertBlock rt st m5 = Some m'" "heap_ok m' rt s0 (coalesced pre st k [?tl]) e"
    "changes m5 m' (writable rt (pre @ [(st, k, True), ?tl]))"
    "writable rt (coalesced pre st k [?tl]) = writable rt (pre @ [(st, k, True), ?tl])" by blast
  have "m5 (rt + HL_END) = e - 4" by (simp add: m5 SETTAIL_def)
  then have "GETTAIL m' rt = e - 4" using m'(3) outside_kept[OF lay] by (simp add: changes_def GETTAIL_def)
  moreover have "{st, st + 4, st + 8} \<subseteq> writable rt (pre @ [(st, k, True), ?tl])" "e - 4 \<in> writable rt (pre @ [(st, k, True), ?tl])"
    using k by (auto simp: writable_def)
  then have "changes m m' (insert (rt + HL_END) (writable rt (pre @ [(st, k, True), ?tl])))"
    by (intro changes_seq[OF changes_mono[OF root]] changes_seq[OF changes_mono[OF tl(1)]] changes_seq[OF changes_mono[OF ch5]]
        changes_mono[OF m'(3)]) auto
  ultimately show ?thesis using m'(1,2,4) by auto
qed


lemma u32_end: "0 \<le> e \<Longrightarrow> e \<le> 2 ^ 32 \<Longrightarrow> e mod 16 = 0 \<Longrightarrow> 0 < st \<Longrightarrow> st \<le> e \<Longrightarrow> u32 ((u32 e AND NOT 15) - st) = e - st"
proof -
  assume e: "0 \<le> e" "e \<le> 2 ^ 32" "e mod 16 = 0" "0 < st" "st \<le> e"
  show ?thesis
  proof (cases "e = 2 ^ 32")
    case True
    then have zero: "u32 e = 0" by (simp add: u32_def)
    have "u32 (0 - st) = (2 ^ 32 - st) mod 2 ^ 32" by (simp add: u32_def take_bit_eq_mod zmod_zminus1_eq_if minus_mod_self1)
    also have "\<dots> = 2 ^ 32 - st" using e True by (intro mod_pos_pos_trivial) simp_all
    finally show ?thesis using True zero by simp
  next
    case False
    then have "u32 e = e" using e by (intro u32_small) simp_all
    moreover have "e AND NOT 15 = e" unfolding align_bits using e(3) by simp
    moreover have "u32 (e - st) = e - st" using e False by (intro u32_small) simp_all
    ultimately show ?thesis by (simp only:)
  qed
qed

lemma tag_only: "info 0 False l AND LEFTFREE = info 0 False l"
  by (cases l) (simp_all add: info_def LEFTFREE_def)

text \<open>The first memory: a free block from the first address behind the start that can hold a block, and the last block.\<close>

lemma addMemory_first:
  assumes rt: "0 < rt" "rt mod 16 = 0" "rt + ROOT_SIZE \<le> start" and lists: "lists_ok m rt (\<lambda>fl sl. []) {}" "GETTAIL m rt = 0"
    and st: "aligned st" "start \<le> st" "st < start + 16" and e: "e mod 16 = 0" "e \<le> 2 ^ 32" "st + 20 \<le> e"
  shows "\<exists>m'. addMemory rt start e m = Some (True, m') \<and> heap_ok m' rt st [(st, e - st - 8, True), (e - 4, 0, False)] e
    \<and> GETTAIL m' rt = e - 4
    \<and> changes m m' (insert (rt + HL_END) (writable rt [(st, e - st - 8, True), (e - 4, 0, False)]))"
proof -
  let ?k = "e - st - 8"
  have pos: "0 < start" "0 < st" "st + 20 \<le> 2 ^ 32" using rt st e by (simp_all add: tlsf_numbers)
  have al: "(e - 4) mod 16 = (0 - 4) mod 16" "(e - st - 8) mod 16 = (0 - 12 - 8) mod 16"
    using e(1) st(1) unfolding aligned_def by (intro mod_diff_cong; simp)+
  then have al': "aligned (e - 4)" "?k mod 16 = 12" by (simp_all add: aligned_def)
  have "12 \<le> ?k" using e(3) by simp
  then have lay: "layout rt st ([] @ [(st, ?k, True), (e - 4, 0, False)]) e"
    using rt st(1,2) e(2) al' by (simp add: layout_def)
  define m5 where "m5 = SETTAIL (m(st := info ?k True (free_after False []), prev_field st := 0, next_field st := 0, e - 4 := info 0 False True)) rt (e - 4)"
  obtain m' where m': "insertBlock rt st m5 = Some m'" "heap_ok m' rt st [(st, ?k, True), (e - 4, 0, False)] e" "GETTAIL m' rt = e - 4"
    "changes m m' (insert (rt + HL_END) (writable rt [(st, ?k, True), (e - 4, 0, False)]))"
    using added[OF lay _ _ m5_def, of "\<lambda>fl sl. []"] lists by (auto simp: frees_append coalesced_def joined_left_def)
  have start: "u32 (align_up (start + BLOCK_OVERHEAD) - BLOCK_OVERHEAD) = st"
  proof -
    have "(start + 19) mod 16 = (start + 19 - (st + 4)) mod 16"
      using st(1) mod_diff_cong[of "start + 19" 16 "start + 19" "st + 4" 0] unfolding aligned_def
      by (simp add: mod_add_cong[of st 16 12 4 4, simplified])
    also have "\<dots> = start + 19 - (st + 4)" using st by (intro mod_pos_pos_trivial) simp_all
    finally have "start + 19 - (start + 19) mod 16 = st + 4" by simp
    then have "align_up (start + 4) = st + 4" using align_up_mod[of "start + 4"] pos st by (simp add: add.commute[of 19 start])
    then show ?thesis using pos by (simp add: tlsf_numbers u32_small)
  qed
  have tags: "?k OR FREE = info ?k True False" "LEFTFREE = info 0 False True"
  proof -
    have k4: "?k mod 4 = 0" using layoutD(1)[OF lay, of st ?k True] by simp
    show "?k OR FREE = info ?k True False" using info_join(1)[OF k4, of True False] by (simp add: tag_words)
    show "LEFTFREE = info 0 False True" by (rule tag_words)
  qed
  have tail: "u32 (st + BLOCK_OVERHEAD + ?k) = e - 4" using pos e by (simp add: tlsf_numbers u32_small)
  have sz: "u32 ((u32 e AND NOT 15) - st) = e - st" using pos e by (intro u32_end) simp_all
  have "addMemory rt start e m = do { m \<leftarrow> insertBlock rt st m5; Some (True, m) }"
    using sz e(3) rt(3) st(2) tail unfolding addMemory_def start lists(2)
    by (simp add: Let_def tlsf_numbers m5_def tags)
  then show ?thesis using m' by simp
qed


text \<open>More memory: the last block becomes the start of a free block up to a new last block.\<close>

lemma addMemory_more:
  assumes heap: "heap_ok m rt s0 bs e" and tail: "GETTAIL m rt = e - 4"
    and e: "e mod 16 = 0" "e' mod 16 = 0" "e + 32 \<le> e'" "e' \<le> 2 ^ 32"
  shows "\<exists>m'. addMemory rt e e' m = Some (True, m')
    \<and> heap_ok m' rt s0 (coalesced (butlast bs) (e - 4) (e' - e - 4) [(e' - 4, 0, False)]) e' \<and> GETTAIL m' rt = e' - 4
    \<and> changes m m' (insert (rt + HL_END) (writable rt (coalesced (butlast bs) (e - 4) (e' - e - 4) [(e' - 4, 0, False)])))"
proof -
  let ?pre = "butlast bs" and ?st = "e - 4" and ?k = "e' - e - 4"
  have lay: "layout rt s0 bs e" and tags: "tagged m False bs" using heap by (simp_all add: heap_ok_def)
  obtain L where lists: "lists_ok m rt L (frees bs)" using heap by (auto simp: heap_ok_def)
  have bs: "bs = ?pre @ [(e - 4, 0, False)]" using lay by (metis append_butlast_last_id layout_def)
  have "(e - 4, 0, False) \<in> set bs" using bs by (metis in_set_conv_decomp)
  then have pos: "s0 \<le> e - 4" "0 < e - 4" using layoutD(1)[OF lay, of "e - 4" 0 False] layoutD(4,6)[OF lay] by (simp_all add: tlsf_numbers)
  have "(e - 4) mod 16 = (0 - 4) mod 16" "(e' - 4) mod 16 = (0 - 4) mod 16" "(e' - e - 4) mod 16 = (0 - 0 - 4) mod 16"
    using e(1,2) by (intro mod_diff_cong; simp)+
  then have al: "aligned (e - 4)" "aligned (e' - 4)" "?k mod 16 = 12" by (simp_all add: aligned_def)
  have "list_all sized ?pre" "tiles s0 ?pre (e - 4)"
  proof -
    have "list_all sized (?pre @ [(e - 4, 0, False)])" "tiles s0 (?pre @ [(e - 4, 0, False)]) e"
      using lay unfolding bs[symmetric] by (simp_all add: layout_def)
    then show "list_all sized ?pre" "tiles s0 ?pre (e - 4)" by (simp_all add: tiles_append)
  qed
  then have lay2: "layout rt s0 (?pre @ [(?st, ?k, True), (e' - 4, 0, False)]) e'"
    using lay e al by (simp add: layout_def tiles_append)
  have "m (e - 4) = info 0 False (free_after False ?pre)" "tagged m False ?pre"
    using tags bs by (metis tagged.simps(2) tagged_append)+
  note old = this
  have fr: "frees ?pre = frees bs" using bs by (metis frees_append(1,2,3) sup_bot_right)
  define m5 where "m5 = SETTAIL (m(?st := info ?k True (free_after False ?pre), prev_field ?st := 0, next_field ?st := 0, e' - 4 := info 0 False True)) rt (e' - 4)"
  obtain m' where m': "insertBlock rt ?st m5 = Some m'" "heap_ok m' rt s0 (coalesced ?pre ?st ?k [(e' - 4, 0, False)]) e'" "GETTAIL m' rt = e' - 4"
    "changes m m' (insert (rt + HL_END) (writable rt (coalesced ?pre ?st ?k [(e' - 4, 0, False)])))"
    using added[OF lay2 old(2) lists[folded fr] m5_def] by blast
  have "(e + 19) mod 16 = (0 + 19) mod 16" using e(1) by (intro mod_add_cong) simp_all
  then have "align_up (e + 4) = e + 16" using align_up_mod[of "e + 4"] pos e(3,4) by (simp add: add.commute[of 19 e] add.commute[of 16 e])
  then have start: "u32 (align_up (e + BLOCK_OVERHEAD) - BLOCK_OVERHEAD) = e + 12" using pos e(3,4) by (simp add: tlsf_numbers u32_small)
  have old_tail: "u32 (e + 12 - 16) = e - 4" using pos e by (simp add: u32_small)
  have sz: "u32 ((u32 e' AND NOT 15) - ?st) = e' - e + 4" using u32_end[of e' ?st] pos e by simp
  have tail': "u32 (?st + 4 + ?k) = e' - 4" using pos e by (simp add: u32_small)
  have tags5: "(?k OR FREE) OR (m ?st AND info 0 False True) = info ?k True (free_after False ?pre)" "LEFTFREE = info 0 False True"
  proof -
    have k4: "?k mod 4 = 0" using layoutD(1)[OF lay2, of ?st ?k True] by simp
    have "?k OR FREE = info ?k True False" using info_join(1)[OF k4, of True False] by (simp add: tag_words)
    moreover have "info ?k True False OR info 0 False l = info ?k True l" for l
      by (cases l) (simp_all add: set_left[OF k4] tag_words(2)[symmetric] info_def[of 0 False False])
    ultimately show "(?k OR FREE) OR (m ?st AND info 0 False True) = info ?k True (free_after False ?pre)"
      unfolding old(1) tag_words(2)[symmetric] tag_only by simp
    show "LEFTFREE = info 0 False True" by (rule tag_words)
  qed
  have "addMemory rt e e' m = do { m \<leftarrow> insertBlock rt ?st m5; Some (True, m) }"
    using sz e(3) pos old_tail tail' unfolding addMemory_def start tail
    by (simp add: Let_def tlsf_numbers m5_def tags5)
  then show ?thesis using m' by simp
qed


section \<open>Growing\<close>

text \<open>The engine never grows a memory beyond 65536 pages, and a program's static data ends below that.\<close>

definition config_ok :: "config \<Rightarrow> bool" where
  "config_ok cfg \<longleftrightarrow> 0 < heap_base cfg \<and> heap_base cfg < 2 ^ 31 \<and> 0 \<le> low_memory_limit cfg \<and> low_memory_limit cfg < 2 ^ 32
     \<and> (\<forall>pages delta. can_grow cfg pages delta \<longrightarrow> pages + delta \<le> 65536)"

definition keeps :: "(int \<times> int) set \<Rightarrow> heap \<Rightarrow> heap \<Rightarrow> bool" where
  "keeps U s s' \<longleftrightarrow> same_payloads U (hp_mem s) (hp_mem s') \<and> (\<forall>a<hp_root s'. hp_mem s' a = hp_mem s a)"

lemma page_count:
  assumes "0 \<le> x" "x + 65535 < 2 ^ 32"
  shows "drop_bit 16 (u32 (x + 0xFFFF) AND NOT 0xFFFF) = (x + 65535) div 65536" "x \<le> 65536 * ((x + 65535) div 65536)"
    "0 < x \<Longrightarrow> 0 < (x + 65535) div 65536"
proof -
  have "u32 (x + 0xFFFF) = x + 65535" using assms by (simp add: u32_small)
  moreover have "drop_bit 16 (y AND NOT (mask 16)) = drop_bit 16 y" for y :: int
    by (rule bit_eqI) (simp add: bit_drop_bit_eq bit_and_iff bit_not_iff bit_mask_iff)
  ultimately show "drop_bit 16 (u32 (x + 0xFFFF) AND NOT 0xFFFF) = (x + 65535) div 65536"
    by (simp add: mask_eq_exp_minus_1 drop_bit_eq_div)
  show "x \<le> 65536 * ((x + 65535) div 65536)" by linarith
  show "0 < x \<Longrightarrow> 0 < (x + 65535) div 65536" by linarith
qed

lemma heap_keepsI:
  assumes lay: "layout (hp_root s') s0 bs e" and ch: "changes (hp_mem s) (hp_mem s') (insert (hp_root s' + HL_END) (writable (hp_root s') bs))"
    and U: "U \<subseteq> live_blocks bs"
  shows "keeps U s s'"
proof -
  have "hp_mem s' a = hp_mem s a" if "a < hp_root s'" for a
    using ch outside_kept[OF lay, of a] that by (auto simp: changes_def tlsf_numbers)
  then show ?thesis using payloads_kept[OF lay ch U] by (simp add: keeps_def)
qed

lemma search_size:
  assumes "12 \<le> sz" "sz < drop_bit 1 BLOCK_MAXSIZE" and q: "q = (if sz \<ge> SB_SIZE then roundSize sz else sz)"
  shows "mapping_search sz = mapping_insert q" "12 \<le> q" "q \<le> BLOCK_MAXSIZE" "sz mod 16 = 12 \<Longrightarrow> q < 256 \<or> q mod 16 = 11"
proof -
  show "mapping_search sz = mapping_insert q" using mapping_search_insert[OF assms(1,2)] q by (simp add: tlsf_numbers)
  have "12 \<le> q \<and> q \<le> BLOCK_MAXSIZE \<and> (sz mod 16 = 12 \<longrightarrow> q < 256 \<or> q mod 16 = 11)"
  proof (cases "sz < 256")
    case False
    then obtain p where p: "8 \<le> p" "2 ^ p \<le> sz" "roundSize sz = sz + 2 ^ (p - 4) - 1" "roundSize sz \<le> BLOCK_MAXSIZE"
      using rounded[of sz] assms(2) by (metis linorder_not_less)
    have "(2 :: int) ^ (p - 4) = 16 * 2 ^ (p - 8)" using p(1) power_add[of "2 :: int" 4 "p - 8"] by simp
    then have eq: "q = sz - 1 + 16 * 2 ^ (p - 8)" using False q p(3) by (simp add: tlsf_numbers)
    have "(0 :: int) < 2 ^ (p - 8)" by simp
    then have "12 \<le> q" unfolding eq using False by linarith
    moreover have "sz mod 16 = 12 \<Longrightarrow> (sz - 1 + 16 * 2 ^ (p - 8)) mod 16 = 11"
      using mod_diff_cong[of sz 16 12 1 1] by simp
    moreover have "q \<le> BLOCK_MAXSIZE" using False p(4) q by (simp add: tlsf_numbers)
    ultimately show ?thesis unfolding eq by blast
  qed (use assms in \<open>simp add: tlsf_numbers\<close>)
  then show "12 \<le> q" "q \<le> BLOCK_MAXSIZE" "sz mod 16 = 12 \<Longrightarrow> q < 256 \<or> q mod 16 = 11" by blast+
qed

lemma coalesced_frees: "\<exists>x t. (x, t) \<in> frees (coalesced pre b k [(y, 0, False)]) \<and> k \<le> t" if "list_all sized pre"
proof (cases "free_after False pre")
  case True
  then obtain pre' x xs where pre: "pre = pre' @ [(x, xs, True)]" using free_last by blast
  then have "12 \<le> xs" using that by simp
  then show ?thesis using pre True by (intro exI[of _ x] exI[of _ "xs + 4 + k"]) (simp add: coalesced_def joined_left_def frees_append)
next
  case False
  then show ?thesis by (intro exI[of _ b] exI[of _ k]) (simp add: coalesced_def joined_left_def frees_append)
qed


lemma pages_mod: "(65536 * p) mod 16 = (0 :: int)"
proof -
  have "16 dvd 65536 * p" by (rule dvd_mult2) simp
  then show ?thesis by (simp only: dvd_eq_mod_eq_0)
qed

lemma next_16: "x mod 16 = 3 \<Longrightarrow> y mod 16 = 0 \<Longrightarrow> x \<le> y \<Longrightarrow> x + 13 \<le> (y :: int)"
  by presburger

lemma below_12: "x mod 16 = 12 \<Longrightarrow> y mod 16 = 12 \<Longrightarrow> x < y \<Longrightarrow> x + 16 \<le> (y :: int)"
  by presburger

lemma next_16_12: "x mod 16 = 0 \<Longrightarrow> y mod 16 = 0 \<Longrightarrow> x - 12 \<le> y \<Longrightarrow> x \<le> (y :: int)"
  by presburger

lemma growMemory_spec:
  assumes man: "managed cfg s bs" and cfg: "config_ok cfg"
    and sz: "12 \<le> sz" "sz mod 16 = 12" "sz < drop_bit 1 BLOCK_MAXSIZE"
  shows "growMemory cfg sz s = Some Unreachable \<or>
    (\<exists>s' bs' x t. growMemory cfg sz s = Some (Returns s') \<and> managed cfg s' bs' \<and> hp_root s' = hp_root s
      \<and> live_blocks bs' = live_blocks bs \<and> keeps (live_blocks bs) s s'
      \<and> (x, t) \<in> frees bs' \<and> class_of (mapping_search sz) \<le> class_of (mapping_insert t))"
proof (cases "low_memory_limit cfg = 0")
  case False
  then show ?thesis by (simp add: growMemory_def)
next
  case low: True
  let ?rt = "hp_root s" and ?m = "hp_mem s" and ?p = "hp_pages s"
  define q where "q = (if sz \<ge> SB_SIZE then roundSize sz else sz)"
  note q = search_size[OF sz(1,3) q_def]
  have rt: "0 < ?rt" "?rt mod 16 = 0" "?p \<le> 65536" using man by (simp_all add: managed_def)
  define ov where "ov = (if bs = [] then 8 else 4 :: int)"
  have p0: "0 < ?p"
  proof (cases "bs = []")
    case True
    then show ?thesis using man rt(1) by (simp add: managed_def tlsf_numbers)
  next
    case bs: False
    obtain s0 e where h: "layout ?rt s0 bs e" "e \<le> 65536 * ?p" by (rule managedD[OF man bs])
    have "(e - 4, 0, False) \<in> set bs" using h(1) by (metis last_in_set layout_def)
    then show ?thesis using layoutD(1)[OF h(1), of "e - 4" 0 False] layoutD(4,6)[OF h(1)] h(2) by (simp add: tlsf_numbers)
  qed
  have ov: "push_bit (of_bool (u32 (u32 (push_bit 16 ?p) - BLOCK_OVERHEAD) \<noteq> GETTAIL ?m ?rt)) BLOCK_OVERHEAD = ov"
  proof -
    have "u32 (u32 (push_bit 16 ?p) - 4) = 65536 * ?p - 4"
    proof (cases "?p = 65536")
      case True
      then show ?thesis by (simp add: u32_def)
    next
      case False
      then have "u32 (push_bit 16 ?p) = 65536 * ?p" using p0 rt(3) by (subst u32_small) (simp_all add: push_bit_eq_mult)
      then show ?thesis using p0 rt(3) False by (simp add: u32_small)
    qed
    moreover have "GETTAIL ?m ?rt = (if bs = [] then 0 else 65536 * ?p - 4)"
      using man low by (auto simp: managed_def)
    ultimately show ?thesis using p0 by (simp add: ov_def tlsf_numbers)
  qed
  define d where "d = (q + ov + 65535) div 65536"
  have qov: "0 < q + ov" "q + ov + 65535 < 2 ^ 32" using q(2,3) by (simp_all add: ov_def tlsf_numbers)
  note d = page_count[OF less_imp_le[OF qov(1)] qov(2), folded d_def]
  have "0 < d" using d(3) qov(1) by simp
  have u32q: "u32 (q + ov) = q + ov" using qov by (simp add: u32_small)
  define p' where "p' = (if can_grow cfg ?p (max ?p d) then ?p + max ?p d else ?p + d)"
  show ?thesis
  proof (cases "\<not> can_grow cfg ?p (max ?p d) \<and> \<not> can_grow cfg ?p d")
    case True
    then have "growMemory cfg sz s = Some Unreachable"
      unfolding growMemory_def Let_def q_def[symmetric] ov u32q d(1) using low by simp
    then show ?thesis ..
  next
    case False
    then have grown: "p' \<le> 65536" "?p + d \<le> p'" using cfg by (auto simp: p'_def config_ok_def)
    have start: "u32 (push_bit 16 ?p) = 65536 * ?p" using p0 grown \<open>0 < d\<close> by (subst u32_small) (simp_all add: push_bit_eq_mult)
    have grow: "growMemory cfg sz s = do {
        (added, m) \<leftarrow> addMemory ?rt (65536 * ?p) (65536 * p') ?m;
        Some (Returns (s\<lparr>hp_mem := m, hp_pages := p'\<rparr>)) }"
      unfolding growMemory_def Let_def q_def[symmetric] ov
      unfolding u32q d(1) p'_def[symmetric]
      unfolding start using low False by (auto simp: push_bit_eq_mult mult.commute)
    have mods: "(65536 * ?p) mod 16 = 0" "(65536 * p') mod 16 = 0" by (simp_all only: pages_mod)
    have room: "65536 * ?p + 65536 * d \<le> 65536 * p'" "q + ov \<le> 65536 * d" using grown d(2) by simp_all
    show ?thesis
    proof (cases "bs = []")
      case True
      let ?st = "65536 * ?p + 12" and ?k = "65536 * p' - (65536 * ?p + 12) - 8"
      have first: "lists_ok ?m ?rt (\<lambda>fl sl. []) {}" "GETTAIL ?m ?rt = 0" "?rt + ROOT_SIZE \<le> 65536 * ?p"
        using man True by (simp_all add: managed_def)
      have "?st mod 16 = (0 + 12) mod 16" using mods(1) by (intro mod_add_cong) simp_all
      then have al: "aligned ?st" by (simp add: aligned_def)
      obtain m' where m': "addMemory ?rt (65536 * ?p) (65536 * p') ?m = Some (True, m')"
        "heap_ok m' ?rt ?st [(?st, ?k, True), (65536 * p' - 4, 0, False)] (65536 * p')" "GETTAIL m' ?rt = 65536 * p' - 4"
        "changes ?m m' (insert (?rt + HL_END) (writable ?rt [(?st, ?k, True), (65536 * p' - 4, 0, False)]))"
        using addMemory_first[OF rt(1,2) first(3,1,2) al _ _ mods(2)] grown(1) room \<open>0 < d\<close> by auto
      have fit: "q \<le> ?k"
      proof (cases "q < 256")
        case True
        then show ?thesis using room \<open>0 < d\<close> by simp
      next
        case False
        then have "q mod 16 = 11" using q(4) sz(2) by simp
        then have "(q + 8) mod 16 = (11 + 8) mod 16" by (intro mod_add_cong) simp_all
        moreover have "q + 8 \<le> 65536 * d" using room(2) True by (simp add: ov_def)
        moreover have "(65536 * d) mod 16 = 0" by (rule pages_mod)
        ultimately have "q + 8 + 13 \<le> 65536 * d" by (intro next_16) simp_all
        then show ?thesis using room(1) by simp
      qed
      show ?thesis
      proof (intro disjI2 exI conjI)
        let ?s = "s\<lparr>hp_mem := m', hp_pages := p'\<rparr>"
        show "growMemory cfg sz s = Some (Returns ?s)" using grow m'(1) by simp
        show "managed cfg ?s [(?st, ?k, True), (65536 * p' - 4, 0, False)]"
          using man m'(2,3) grown(1) by (auto simp: managed_def)
        show "live_blocks [(?st, ?k, True), (65536 * p' - 4, 0, False)] = live_blocks bs" using True by (simp add: live_append)
        have "layout ?rt ?st [(?st, ?k, True), (65536 * p' - 4, 0, False)] (65536 * p')" using m'(2) by (simp add: heap_ok_def)
        then show "keeps (live_blocks bs) s ?s" using m'(4) True by (intro heap_keepsI[of ?s ?st]) (simp_all add: live_append)
        show "(?st, ?k) \<in> frees [(?st, ?k, True), (65536 * p' - 4, 0, False)]" by (simp add: frees_append)
        show "class_of (mapping_search sz) \<le> class_of (mapping_insert ?k)"
          unfolding q(1) using q(2) fit by (intro class_mono[of q ?k]) simp_all
      qed simp
    next
      case bs: False
      obtain s0 e where h: "heap_ok ?m ?rt s0 bs e" "layout ?rt s0 bs e" "GETTAIL ?m ?rt = e - 4" "low_memory_limit cfg = 0 \<longrightarrow> e = 65536 * ?p"
        by (rule managedD[OF man bs])
      have e: "e = 65536 * ?p" using h(4) low by simp
      let ?k = "65536 * p' - 65536 * ?p - 4" and ?tl = "(65536 * p' - 4, 0, False)"
      let ?bs = "coalesced (butlast bs) (65536 * ?p - 4) ?k [?tl]"
      have "65536 * ?p + 32 \<le> 65536 * p'" using room(1) \<open>0 < d\<close> by simp
      then obtain m' where m': "addMemory ?rt (65536 * ?p) (65536 * p') ?m = Some (True, m')" "heap_ok m' ?rt s0 ?bs (65536 * p')"
        "GETTAIL m' ?rt = 65536 * p' - 4" "changes ?m m' (insert (?rt + HL_END) (writable ?rt ?bs))"
        using addMemory_more[OF h(1)[unfolded e] h(3)[unfolded e] mods] grown(1) by auto
      have lay': "layout ?rt s0 ?bs (65536 * p')" using m'(2) by (simp add: heap_ok_def)
      have split: "bs = butlast bs @ [(e - 4, 0, False)]" using h(2) by (metis append_butlast_last_id layout_def)
      have "live_blocks bs = live_blocks (butlast bs)" by (subst split) (simp add: live_append)
      then have live: "live_blocks ?bs = live_blocks bs" by (simp add: live_coalesced live_append)
      have "list_all sized (butlast bs)" using h(2) by (auto simp: layout_def list_all_iff dest: in_set_butlastD)
      then obtain x t where xt: "(x, t) \<in> frees ?bs" "?k \<le> t" using coalesced_frees by metis
      show ?thesis
      proof (intro disjI2 exI conjI)
        let ?s = "s\<lparr>hp_mem := m', hp_pages := p'\<rparr>"
        show "growMemory cfg sz s = Some (Returns ?s)" using grow m'(1) by simp
        have "?bs \<noteq> []" using lay' by (simp add: layout_def)
        then show "managed cfg ?s ?bs" using man m'(2,3) grown(1) by (auto simp: managed_def)
        show "live_blocks ?bs = live_blocks bs" by (rule live)
        show "keeps (live_blocks bs) s ?s" using m'(4) live lay' by (intro heap_keepsI[of ?s s0 ?bs]) simp_all
        show "(x, t) \<in> frees ?bs" by (rule xt(1))
        have "q \<le> t" using xt(2) room bs by (simp add: ov_def)
        then show "class_of (mapping_search sz) \<le> class_of (mapping_insert t)"
          unfolding q(1) using q(2) by (intro class_mono[of q t]) simp_all
      qed simp
    qed
  qed
qed


section \<open>Initialization\<close>

lemma fold_zeros:
  "(\<And>x m a. x \<in> set xs \<Longrightarrow> g x m a = (if a \<in> A x then 0 else m a)) \<Longrightarrow>
   fold g xs m a = (if \<exists>x\<in>set xs. a \<in> A x then 0 else (m a :: int))"
proof (induction xs arbitrary: m)
  case (Cons x xs)
  have "fold g xs (g x m) a = (if \<exists>x\<in>set xs. a \<in> A x then 0 else g x m a)" by (rule Cons.IH) (use Cons.prems in simp)
  then show ?case using Cons.prems[of x m a] by auto
qed simp

lemma clear_root_at:
  "clear_root rt m a =
     (if a = rt \<or> a = rt + HL_END \<or> (\<exists>fl<23. a = sl_slot rt fl) \<or> (\<exists>fl<23. \<exists>sl<16. a = head_slot rt fl sl) then 0 else m a)"
proof -
  define row where "row = (\<lambda>fl m. fold (\<lambda>sl m. SETHEAD m rt fl sl 0) [0..<16] (SETSL m rt fl 0))"
  have row: "row fl m a = (if a \<in> insert (sl_slot rt fl) (head_slot rt fl ` {..<16}) then 0 else m a)" for fl m a
    unfolding row_def by (subst fold_zeros[where A = "\<lambda>sl. {head_slot rt fl sl}"]) (auto simp: SETHEAD_def SETSL_def)
  have "clear_root rt m a = fold row [0..<23] (SETTAIL (m(rt := 0)) rt 0) a" by (simp add: clear_root_def row_def tlsf_numbers)
  also have "\<dots> = (if \<exists>fl\<in>set [0..<23]. a \<in> insert (sl_slot rt fl) (head_slot rt fl ` {..<16}) then 0 else SETTAIL (m(rt := 0)) rt 0 a)"
    by (rule fold_zeros) (rule row)
  finally show ?thesis by (auto simp: SETTAIL_def)
qed

lemma clear_root_spec:
  "lists_ok (clear_root rt m) rt (\<lambda>fl sl. []) {}" "GETTAIL (clear_root rt m) rt = 0" "changes m (clear_root rt m) {rt..rt + HL_END}"
proof -
  have "GETHEAD (clear_root rt m) rt fl sl = 0" if "fl < 23" "sl < 16" for fl sl
    using that by (auto simp: GETHEAD_def clear_root_at)
  moreover have "GETSL (clear_root rt m) rt fl = 0" if "fl < 23" for fl
    using that by (auto simp: GETSL_def clear_root_at)
  moreover have "clear_root rt m rt = 0" by (simp add: clear_root_at)
  ultimately show "lists_ok (clear_root rt m) rt (\<lambda>fl sl. []) {}" by (simp add: lists_ok_def)
  show "GETTAIL (clear_root rt m) rt = 0" by (simp add: GETTAIL_def clear_root_at)
  have "a \<in> {rt..rt + HL_END}" if "a = sl_slot rt fl" "fl < 23" for a fl
    using slot_bounds(1,2)[OF that(2), of rt] that(1) by (simp add: tlsf_numbers)
  moreover have "a \<in> {rt..rt + HL_END}" if "a = head_slot rt fl sl" "fl < 23" "sl < 16" for a fl sl
    using slot_bounds(3)[of rt fl sl] slot_bounds(4)[OF that(2,3), of rt] that(1) by simp
  moreover have "rt \<in> {rt..rt + HL_END}" "rt + HL_END \<in> {rt..rt + HL_END}" by (simp_all add: tlsf_numbers)
  ultimately show "changes m (clear_root rt m) {rt..rt + HL_END}" unfolding changes_def clear_root_at by auto
qed

lemma start_aligned:
  assumes "rt mod 16 = 0" "0 < rt" "rt + 1600 < 2 ^ 32"
  shows "aligned (rt + 1580)" "u32 (align_up (rt + ROOT_SIZE + BLOCK_OVERHEAD) - BLOCK_OVERHEAD) = rt + 1580"
proof -
  have "(rt + 1580) mod 16 = (0 + 1580) mod 16" using assms(1) by (intro mod_add_cong) simp_all
  then show "aligned (rt + 1580)" by (simp add: aligned_def)
  have "(rt + 1576 + 15) mod 16 = (0 + 1591) mod 16" using assms(1) mod_add_cong[of rt 16 0 1591 1591] by (simp add: add.commute)
  then have "align_up (rt + 1576) = rt + 1584" using align_up_mod[of "rt + 1576"] assms by (simp add: add.commute)
  then show "u32 (align_up (rt + ROOT_SIZE + BLOCK_OVERHEAD) - BLOCK_OVERHEAD) = rt + 1580"
    using assms by (simp add: tlsf_numbers u32_small add.commute[of 1576])
qed

lemma addMemory_small:
  assumes rt: "rt mod 16 = 0" "0 < rt" "rt + 1600 < 2 ^ 32" and tail: "GETTAIL m rt = 0"
    and e: "e mod 16 = 0" "e \<le> 2 ^ 32" "rt + 1580 \<le> e" "e < rt + 1600"
  shows "addMemory rt (rt + ROOT_SIZE) e m = Some (False, m)"
proof -
  have "u32 ((u32 e AND NOT 15) - (rt + 1580)) = e - (rt + 1580)" using rt e by (intro u32_end) simp_all
  then show ?thesis using e unfolding addMemory_def start_aligned(2)[OF rt] tail by (simp add: Let_def tlsf_numbers)
qed

definition first_blocks :: "int \<Rightarrow> int \<Rightarrow> blk list" where
  "first_blocks st e = (if e < st + 20 then [] else [(st, e - st - 8, True), (e - 4, 0, False)])"

lemma first_memory:
  assumes rt: "rt mod 16 = 0" "0 < rt" "rt + 1600 < 2 ^ 32" and e: "e mod 16 = 0" "e \<le> 2 ^ 32" "rt + 1580 \<le> e"
  shows "\<exists>added m'. addMemory rt (rt + ROOT_SIZE) e (clear_root rt m) = Some (added, m')
    \<and> (if first_blocks (rt + 1580) e = [] then m' = clear_root rt m
       else heap_ok m' rt (rt + 1580) (first_blocks (rt + 1580) e) e \<and> GETTAIL m' rt = e - 4)
    \<and> (\<forall>a<rt. m' a = m a)"
proof -
  have below: "\<forall>a<rt. clear_root rt m a = m a" using clear_root_spec(3)[of m rt] by (auto simp: changes_def)
  show ?thesis
  proof (cases "e < rt + 1600")
    case True
    then show ?thesis using addMemory_small[OF rt clear_root_spec(2) e] below by (intro exI[of _ False]) (simp add: first_blocks_def)
  next
    case False
    let ?bs = "[(rt + 1580, e - (rt + 1580) - 8, True), (e - 4, 0, False)]"
    obtain m' where m': "addMemory rt (rt + ROOT_SIZE) e (clear_root rt m) = Some (True, m')" "heap_ok m' rt (rt + 1580) ?bs e"
      "GETTAIL m' rt = e - 4" "changes (clear_root rt m) m' (insert (rt + HL_END) (writable rt ?bs))"
      using addMemory_first[OF rt(2,1) order_refl clear_root_spec(1,2) start_aligned(1)[OF rt] _ _ e(1,2)] False
      by (auto simp: tlsf_numbers)
    have "layout rt (rt + 1580) ?bs e" using m'(2) by (simp add: heap_ok_def)
    then have "m' a = clear_root rt m a" if "a < rt" for a
      using m'(4) outside_kept[of rt "rt + 1580" ?bs e a] that by (simp add: changes_def tlsf_numbers)
    moreover have "first_blocks (rt + 1580) e = ?bs" using False by (simp add: first_blocks_def)
    ultimately show ?thesis using m'(1-3) below by (intro exI[of _ True] exI[of _ m']) simp
  qed
qed

lemma initialize_spec:
  assumes cfg: "config_ok cfg" and pages: "0 \<le> hp_pages s" "hp_pages s \<le> 65536" "low_memory_limit cfg \<le> 65536 * hp_pages s"
  shows "initialize cfg s = Some Unreachable \<or>
    (\<exists>s' bs. initialize cfg s = Some (Returns s') \<and> managed cfg s' bs \<and> live_blocks bs = {} \<and> keeps {} s s'
      \<and> (low_memory_limit cfg = 0 \<longrightarrow> bs = first_blocks (hp_root s' + 1580) (65536 * hp_pages s'))
      \<and> hp_root s' = heap_base cfg + 15 - (heap_base cfg + 15) mod 16 \<and> hp_pages s \<le> hp_pages s')"
proof -
  define rt where "rt = heap_base cfg + 15 - (heap_base cfg + 15) mod 16"
  have hb: "0 < heap_base cfg" "heap_base cfg < 2 ^ 31" using cfg by (simp_all add: config_ok_def)
  have up: "align_up (heap_base cfg) = rt" unfolding rt_def using hb by (intro align_up_mod) simp_all
  have rt: "rt mod 16 = 0" "heap_base cfg \<le> rt" "rt < 2 ^ 31 + 16"
  proof -
    show "rt mod 16 = 0" unfolding rt_def by (simp add: minus_mod_eq_mult_div)
    have "0 \<le> (heap_base cfg + 15) mod 16" "(heap_base cfg + 15) mod 16 < 16" by simp_all
    then show "heap_base cfg \<le> rt" "rt < 2 ^ 31 + 16" unfolding rt_def using hb by linarith+
  qed
  then have rt': "rt mod 16 = 0" "0 < rt" "rt + 1600 < 2 ^ 32" using hb by simp_all
  have n: "0 \<le> rt + ROOT_SIZE" "rt + ROOT_SIZE + 65535 < 2 ^ 32" using rt' rt(3) by (simp_all add: tlsf_numbers)
  define d where "d = (rt + ROOT_SIZE + 65535) div 65536"
  note d = page_count(1,2)[OF n, folded d_def]
  define P where "P = max (hp_pages s) d"
  define e where "e = (if low_memory_limit cfg \<noteq> 0 then low_memory_limit cfg - low_memory_limit cfg mod 16 else 65536 * P)"
  have me: "(if low_memory_limit cfg \<noteq> 0 then low_memory_limit cfg AND NOT AL_MASK else push_bit 16 P) = e"
    unfolding tlsf_numbers align_bits e_def by (simp add: push_bit_eq_mult)
  show ?thesis
  proof (cases "d > hp_pages s \<and> \<not> can_grow cfg (hp_pages s) (d - hp_pages s) \<or> low_memory_limit cfg \<noteq> 0 \<and> rt + ROOT_SIZE > e")
    case True
    then have "initialize cfg s = Some Unreachable"
      unfolding initialize_def Let_def up d(1) P_def[symmetric] me by auto
    then show ?thesis ..
  next
    case False
    have P: "P \<le> 65536" "hp_pages s \<le> P" "rt + ROOT_SIZE \<le> 65536 * P"
    proof -
      have "d \<le> hp_pages s \<or> hp_pages s + (d - hp_pages s) \<le> 65536" using False cfg unfolding config_ok_def by (metis not_le)
      then show "P \<le> 65536" "hp_pages s \<le> P" using pages(2) by (auto simp: P_def)
      have "d \<le> P" by (simp add: P_def)
      then show "rt + ROOT_SIZE \<le> 65536 * P" using d(2) by linarith
    qed
    have e16: "e mod 16 = 0"
    proof (cases "low_memory_limit cfg = 0")
      case True
      then show ?thesis unfolding e_def by (simp only: simp_thms if_False pages_mod)
    next
      case False
      then show ?thesis by (simp add: e_def minus_mod_eq_mult_div)
    qed
    have eP: "e \<le> 65536 * P" "low_memory_limit cfg = 0 \<longrightarrow> e = 65536 * P"
    proof -
      have "0 \<le> low_memory_limit cfg mod 16" by simp
      then show "e \<le> 65536 * P" using pages(3) P(2) unfolding e_def by (auto split: if_splits)
    qed (simp add: e_def)
    have "rt + ROOT_SIZE \<le> e" using False P(3) eP(2) by auto
    moreover have "(rt + 1580 + 4) mod 16 = (0 + 1584) mod 16" using rt(1) mod_add_cong[of rt 16 0 1584 1584] by (simp add: add.commute)
    ultimately have room: "rt + 1580 \<le> e" using e16 next_16_12[of "rt + 1580 + 4" e] by (simp add: tlsf_numbers)
    have "e \<le> 2 ^ 32" using eP(1) P(1) by simp
    from first_memory[OF rt' e16 this room, of "hp_mem s"] obtain ad m' where m': "addMemory rt (rt + ROOT_SIZE) e (clear_root rt (hp_mem s)) = Some (ad, m')"
      "if first_blocks (rt + 1580) e = [] then m' = clear_root rt (hp_mem s)
       else heap_ok m' rt (rt + 1580) (first_blocks (rt + 1580) e) e \<and> GETTAIL m' rt = e - 4" "\<forall>a<rt. m' a = hp_mem s a" by blast
    let ?s = "\<lparr>hp_mem = m', hp_pages = P, hp_root = rt\<rparr>"
    have "initialize cfg s = Some (Returns ?s)"
    proof -
      show ?thesis
        using False m'(1) unfolding initialize_def Let_def up d(1) P_def[symmetric] me by auto
    qed
    moreover have "managed cfg ?s (first_blocks (rt + 1580) e)"
      using rt rt'(2) P(1,3) eP m'(2) clear_root_spec(1,2)[of rt "hp_mem s"] by (auto simp: managed_def split: if_splits)
    moreover have "live_blocks (first_blocks (rt + 1580) e) = {}" by (simp add: first_blocks_def live_append)
    moreover have "keeps {} s ?s" using m'(3) by (simp add: keeps_def same_payloads_def)
    ultimately show ?thesis using eP(2) P(2) rt_def by (intro disjI2 exI[of _ ?s] exI[of _ "first_blocks (rt + 1580) e"]) simp
  qed
qed

end
