(* ===== verification/As_Tlsf_Laws.thy ===== *)
theory As_Tlsf_Laws
  imports As_Tlsf_Heap
begin

unbundle bit_operations_syntax

text \<open>
  What the allocator promises: allocating, reallocating and freeing keep the heap and the payloads that the program
  holds, and no assertion fails, for requests below half a gigabyte.
\<close>

section \<open>Blocks of a heap\<close>

lemma open_free:
  assumes heap: "heap_ok m rt s0 (pre @ (x, t, True) # post) e"
  shows "\<exists>m'. removeBlock rt x m = Some m' \<and> opened m' rt s0 pre x t True post e
    \<and> changes m m' (writable rt (pre @ (x, t, True) # post)) \<and> m x AND NOT TAGS_MASK = t"
proof -
  let ?bs = "pre @ (x, t, True) # post"
  have lay: "layout rt s0 ?bs e" and tags: "tagged m False ?bs" using heap by (simp_all add: heap_ok_def)
  obtain L where lists: "lists_ok m rt L (frees ?bs)" using heap by (auto simp: heap_ok_def)
  have mx: "m x = info t True (free_after False pre)" using tags by (simp add: tagged_append)
  have "(x, t) \<in> frees ?bs" by (simp add: frees_def)
  from removal[OF lay subset_refl this lists mx] obtain m' L' where m': "removeBlock rt x m = Some m'"
    "lists_ok m' rt L' (frees ?bs - {(x, t)})" "changes m m' (writable rt ?bs)" "\<forall>B\<in>set ?bs. \<forall>a\<in>tag_words B. m' a = m a" by blast
  have "frees ?bs - {(x, t)} = frees (pre @ post)" using frees_without(1,3)[OF lay] by auto
  moreover have "tagged m' False pre" "tagged m' True post" "m' x = m x"
    using tagged_frame[of pre m' m False] tagged_frame[of post m' m True] m'(4) tags by (auto simp: tagged_append)
  moreover have "t mod 4 = 0" using layoutD(1)[OF lay, of x t True] by simp
  ultimately show ?thesis using lay m' mx by (auto simp: opened_def info_size)
qed

lemma open_used:
  assumes heap: "heap_ok m rt s0 (pre @ (x, t, False) # post) e" and "t \<noteq> 0"
  shows "opened m rt s0 pre x t False post e"
proof -
  have lay: "layout rt s0 (pre @ (x, t, False) # post) e" using heap by (simp add: heap_ok_def)
  then have "post \<noteq> []" using assms(2) by (auto simp: layout_def)
  then have "layout rt s0 (pre @ (x, t, True) # post) e" using lay assms(2) by (auto simp: layout_def tiles_append)
  then show ?thesis using heap by (auto simp: opened_def heap_ok_def tagged_append frees_append)
qed

lemma open_freed: "opened m rt s0 pre x t False post e \<Longrightarrow> opened (m(x := m x OR FREE)) rt s0 pre x t True post e"
proof -
  assume op: "opened m rt s0 pre x t False post e"
  obtain r L where rest: "tagged m r post" "lists_ok m rt L (frees (pre @ post))" using op by (auto simp: opened_def)
  show ?thesis
    by (rule openedI[OF openedD(1,2)[OF op] rest, where A = "{x}"])
      (use openedD(3,4,5)[OF op] in \<open>auto simp: changes_def set_free\<close>)
qed

text \<open>Writing into a payload.\<close>

lemma payload_write:
  assumes heap: "heap_ok m rt s0 bs e" and used: "(x, t, False) \<in> set bs" and ch: "changes m m' {x + 4..<x + 4 + t}"
  shows "heap_ok m' rt s0 bs e" "m' (rt + HL_END) = m (rt + HL_END)" "a < rt \<Longrightarrow> m' a = m a"
    "same_payloads (live_blocks bs - {(x + 4, t)}) m m'"
proof -
  have lay: "layout rt s0 bs e" using heap by (simp add: heap_ok_def)
  have kept: "m' a = m a" if "a \<in> writable rt bs" for a
    using used_kept[OF lay used, of a] that ch by (auto simp: changes_def)
  have "m' a = m a" if "B \<in> set bs" "a \<in> tag_words B" for B a
  proof (rule kept)
    obtain y s f where B: "B = (y, s, f)" by (cases B) auto
    then have "a \<in> own_words (y, s, f)" using that layoutD(1,3)[OF lay, of y s] by (auto split: if_splits)
    then show "a \<in> writable rt bs" unfolding writable_def using that(1) B by blast
  qed
  then have "tagged m' False bs" using tagged_frame[of bs m' m False] heap by (simp add: heap_ok_def)
  moreover obtain L where L: "lists_ok m rt L (frees bs)" using heap by (auto simp: heap_ok_def)
  have "lists_ok m' rt L (frees bs)"
  proof (rule lists_frame[OF L ch])
    show "{x + 4..<x + 4 + t} \<inter> list_words rt (frees bs) = {}"
      using used_kept[OF lay used] writable_lists[OF lay subset_refl] by auto
  qed
  ultimately show "heap_ok m' rt s0 bs e" using lay by (auto simp: heap_ok_def)
  have x: "rt + ROOT_SIZE \<le> x" using layoutD(1)[OF lay used] layoutD(6)[OF lay] by simp
  show "m' (rt + HL_END) = m (rt + HL_END)" "a < rt \<Longrightarrow> m' a = m a" using ch x by (auto simp: changes_def tlsf_numbers)
  have "m' a = m a" if p: "(p, k) \<in> live_blocks bs - {(x + 4, t)}" "p \<le> a" "a < p + k" for p k a
  proof -
    have y: "(p - 4, k, False) \<in> set bs" "(p, k) \<noteq> (x + 4, t)" using p(1) by (auto simp: live_blocks_def)
    then have "p - 4 + 4 + k \<le> x \<or> x + 4 + t \<le> p - 4" using layoutD(2)[OF lay used y(1)] by auto
    then show ?thesis using ch p(2,3) by (auto simp: changes_def)
  qed
  then show "same_payloads (live_blocks bs - {(x + 4, t)}) m m'" unfolding same_payloads_def by blast
qed

lemma live_block:
  assumes "managed cfg s bs" "(p, k) \<in> live_blocks bs"
  obtains s0 e pre post where "heap_ok (hp_mem s) (hp_root s) s0 bs e" "layout (hp_root s) s0 bs e" "bs \<noteq> []"
    "bs = pre @ (p - 4, k, False) # post" "k \<noteq> 0" "live_blocks bs - {(p, k)} = live_blocks pre \<union> live_blocks post"
proof -
  have p: "(p - 4, k, False) \<in> set bs" "k \<noteq> 0" using assms(2) by (auto simp: live_blocks_def)
  then have "bs \<noteq> []" by auto
  then obtain s0 e where h: "heap_ok (hp_mem s) (hp_root s) s0 bs e" "layout (hp_root s) s0 bs e" using managedD[OF assms(1)] by blast
  obtain pre post where bs: "bs = pre @ (p - 4, k, False) # post" using p(1) by (meson split_list)
  have lay: "layout (hp_root s) s0 (pre @ (p - 4, k, False) # post) e" using h(2) bs by simp
  have "(p - 4, k, False) \<notin> set pre" using layout_around(1)[OF lay, of "p - 4" k False] layoutD(1)[OF h(2) p(1)] by auto
  moreover have "(p - 4, k, False) \<notin> set post" using layout_around(2)[OF lay, of "p - 4" k False] layoutD(1)[OF h(2) p(1)] by auto
  ultimately have "(p, k) \<notin> live_blocks pre \<union> live_blocks post" by (auto simp: live_blocks_def)
  then have "live_blocks bs - {(p, k)} = live_blocks pre \<union> live_blocks post" using p(2) by (simp add: bs live_append)
  then show thesis using that h \<open>bs \<noteq> []\<close> bs p(2) by blast
qed

lemma managed_write:
  assumes man: "managed cfg s bs" and live: "(p, k) \<in> live_blocks bs" and ch: "changes (hp_mem s) m' {p..<p + k}"
  shows "managed cfg (s\<lparr>hp_mem := m'\<rparr>) bs" "keeps (live_blocks bs - {(p, k)}) s (s\<lparr>hp_mem := m'\<rparr>)"
proof -
  obtain s0 e pre post where h: "heap_ok (hp_mem s) (hp_root s) s0 bs e" "bs \<noteq> []" "bs = pre @ (p - 4, k, False) # post"
    by (rule live_block[OF man live])
  obtain s1 e1 where t: "heap_ok (hp_mem s) (hp_root s) s1 bs e1" "GETTAIL (hp_mem s) (hp_root s) = e1 - 4"
    "e1 \<le> 65536 * hp_pages s" "low_memory_limit cfg = 0 \<longrightarrow> e1 = 65536 * hp_pages s" by (rule managedD[OF man h(2)])
  have used: "(p - 4, k, False) \<in> set bs" by (simp add: h(3))
  have "changes (hp_mem s) m' {p - 4 + 4..<p - 4 + 4 + k}" using ch by simp
  note w = payload_write[OF t(1) used this]
  show "managed cfg (s\<lparr>hp_mem := m'\<rparr>) bs" using man h(2) w(1,2) t(2-4) by (auto simp: managed_def GETTAIL_def)
  show "keeps (live_blocks bs - {(p, k)}) s (s\<lparr>hp_mem := m'\<rparr>)" using w(3,4) by (simp add: keeps_def)
qed

lemma managed_frees: "managed cfg s bs \<Longrightarrow> frees_ok (hp_root s) (frees bs) \<and> (\<exists>L. lists_ok (hp_mem s) (hp_root s) L (frees bs))"
proof (cases "bs = []")
  case True
  moreover assume "managed cfg s bs"
  ultimately show ?thesis by (auto simp: managed_def frees_append frees_ok_def single_valued_def)
next
  case False
  moreover assume "managed cfg s bs"
  ultimately obtain s0 e where "heap_ok (hp_mem s) (hp_root s) s0 bs e" "layout (hp_root s) s0 bs e" using managedD by blast
  then show ?thesis using layout_frees by (auto simp: heap_ok_def)
qed

lemma keeps_trans: "keeps U s s1 \<Longrightarrow> keeps U s1 s2 \<Longrightarrow> hp_root s1 = hp_root s2 \<Longrightarrow> keeps U s s2"
  unfolding keeps_def using same_payloads_trans by fastforce

lemma keeps_mono: "keeps U s s' \<Longrightarrow> U' \<subseteq> U \<Longrightarrow> keeps U' s s'"
  unfolding keeps_def using same_payloads_mono by blast


section \<open>Sizes\<close>

lemma computeSize_bounds:
  assumes "0 \<le> n" "n \<le> 2 ^ 29 - 4"
  shows "prepareSize n = Some (Returns (computeSize n))" "12 \<le> computeSize n" "computeSize n mod 16 = 12" "n \<le> computeSize n"
    "computeSize n < drop_bit 1 BLOCK_MAXSIZE" "computeSize n \<le> 2 ^ 29 - 4"
proof -
  have "12 \<le> computeSize n \<and> computeSize n mod 16 = 12 \<and> n \<le> computeSize n \<and> computeSize n \<le> 2 ^ 29 - 4"
  proof (cases "n \<le> 12")
    case False
    define r where "r = (n + 19) mod 16"
    have "u32 (n + 4 + 15) = n + 19" using assms by (simp add: u32_small)
    then have c: "computeSize n = n + 19 - r - 4"
      unfolding computeSize_def tlsf_numbers align_bits r_def using False by simp
    have r: "0 \<le> r" "r < 16" by (simp_all add: r_def)
    have "(n + 19 - r) mod 16 = 0" unfolding r_def by (simp add: minus_mod_eq_mult_div)
    then have "(n + 19 - r - 4) mod 16 = (0 - 4) mod 16" by (intro mod_diff_cong) simp_all
    then have m: "computeSize n mod 16 = 12" unfolding c by simp
    moreover have "computeSize n \<le> 2 ^ 29 - 4"
    proof -
      have "computeSize n < 2 ^ 29 + 12" unfolding c using r assms by simp
      then have "computeSize n + 16 \<le> 2 ^ 29 + 12" using m by (intro below_12) simp_all
      then show ?thesis by simp
    qed
    ultimately show ?thesis using c r False by simp
  qed (use assms in \<open>simp add: computeSize_def tlsf_numbers\<close>)
  then show "12 \<le> computeSize n" "computeSize n mod 16 = 12" "n \<le> computeSize n" "computeSize n < drop_bit 1 BLOCK_MAXSIZE"
    "computeSize n \<le> 2 ^ 29 - 4"
    by (simp_all add: tlsf_numbers drop_bit_eq_div)
  show "prepareSize n = Some (Returns (computeSize n))" using assms by (simp add: prepareSize_def tlsf_numbers)
qed

section \<open>Allocating\<close>

lemma take_block:
  assumes man: "managed cfg s bs" and free: "(x, t) \<in> frees bs" and n: "12 \<le> n" "n mod 16 = 12" "n \<le> t"
  shows "\<exists>m1 m2 bs'. removeBlock (hp_root s) x (hp_mem s) = Some m1 \<and> prepareBlock (hp_root s) x n m1 = Some m2
    \<and> managed cfg (s\<lparr>hp_mem := m2\<rparr>) bs' \<and> live_blocks bs' = insert (x + 4, n) (live_blocks bs)
    \<and> x + 4 \<notin> fst ` live_blocks bs \<and> keeps (live_blocks bs) s (s\<lparr>hp_mem := m2\<rparr>)
    \<and> x \<noteq> 0 \<and> hp_mem s x AND NOT TAGS_MASK = t"
proof -
  let ?m = "hp_mem s" and ?rt = "hp_root s"
  have mem: "(x, t, True) \<in> set bs" using free by (simp add: frees_def)
  then have "bs \<noteq> []" by auto
  obtain s0 e where h: "heap_ok ?m ?rt s0 bs e" "layout ?rt s0 bs e" using managedD[OF man \<open>bs \<noteq> []\<close>] by blast
  obtain pre post where bs: "bs = pre @ (x, t, True) # post" using mem by (meson split_list)
  from open_free[OF h(1)[unfolded bs]] obtain m1 where m1: "removeBlock ?rt x ?m = Some m1" "opened m1 ?rt s0 pre x t True post e"
    "changes ?m m1 (writable ?rt bs)" "?m x AND NOT TAGS_MASK = t" unfolding bs[symmetric] by blast
  let ?bs = "pre @ (x, n, False) # remainder x n t post"
  from prepareBlock_spec[OF m1(2) n] obtain m2 where m2: "prepareBlock ?rt x n m1 = Some m2" "heap_ok m2 ?rt s0 ?bs e"
    "changes m1 m2 (writable ?rt ?bs)" by blast
  have lay': "layout ?rt s0 ?bs e" using m2(2) by (simp add: heap_ok_def)
  have live: "live_blocks ?bs = insert (x + 4, n) (live_blocks bs)" using n(1) by (simp add: bs live_append live_remainder)
  have k1: "keeps (live_blocks bs) s (s\<lparr>hp_mem := m1\<rparr>)"
    by (rule heap_keepsI[of _ s0 bs e]) (use h(2) changes_insert[OF m1(3)] in simp_all)
  have k2: "keeps (live_blocks bs) (s\<lparr>hp_mem := m1\<rparr>) (s\<lparr>hp_mem := m2\<rparr>)"
    by (rule heap_keepsI[of _ s0 ?bs e]) (use lay' changes_insert[OF m2(3)] live in auto)
  have tail: "managed cfg (s\<lparr>hp_mem := m2\<rparr>) ?bs"
  proof -
    obtain s1 e1 where t: "heap_ok ?m ?rt s1 bs e1" "GETTAIL ?m ?rt = e1 - 4" "layout ?rt s1 bs e1"
      "e1 \<le> 65536 * hp_pages s" "low_memory_limit cfg = 0 \<longrightarrow> e1 = 65536 * hp_pages s" by (rule managedD[OF man \<open>bs \<noteq> []\<close>])
    have "e1 = e" using t(3) h(2) by (simp add: layout_def)
    have "m2 (?rt + HL_END) = ?m (?rt + HL_END)"
      using m1(3) m2(3) outside_kept[OF h(2)] outside_kept[OF lay'] by (simp add: changes_def)
    then show ?thesis using man m2(2) t(2,4,5) \<open>e1 = e\<close> \<open>bs \<noteq> []\<close> by (auto simp: managed_def GETTAIL_def)
  qed
  have "x + 4 \<notin> fst ` live_blocks bs"
  proof
    assume "x + 4 \<in> fst ` live_blocks bs"
    then obtain k where k: "(x, k, False) \<in> set bs" by (auto simp: live_blocks_def)
    then show False using layoutD(2)[OF h(2) mem k] layoutD(1)[OF h(2) k] n by auto
  qed
  moreover have "x \<noteq> 0" using openedD(7)[OF m1(2)] by simp
  ultimately show ?thesis using m1(1,4) m2(1) tail live keeps_trans[OF k1 k2] by auto
qed

text \<open>The part behind the search.\<close>

definition take_found :: "int \<Rightarrow> int \<times> heap \<Rightarrow> (int \<times> heap) outcome option" where
  "take_found n = (\<lambda>(block, s).
     if block = 0 \<or> hp_mem s block AND NOT TAGS_MASK < n then None
     else do {
       m \<leftarrow> removeBlock (hp_root s) block (hp_mem s);
       m \<leftarrow> prepareBlock (hp_root s) block n m;
       Some (Returns (block, s\<lparr>hp_mem := m\<rparr>))
     })"

lemma found_taken:
  assumes "managed cfg s bs" "(x, t) \<in> frees bs" "12 \<le> n" "n mod 16 = 12" "n \<le> t"
  shows "\<exists>s' bs'. take_found n (x, s) = Some (Returns (x, s')) \<and> managed cfg s' bs' \<and> hp_root s' = hp_root s \<and> hp_pages s' = hp_pages s
    \<and> live_blocks bs' = insert (x + 4, n) (live_blocks bs) \<and> x + 4 \<notin> fst ` live_blocks bs \<and> keeps (live_blocks bs) s s'"
proof -
  from take_block[OF assms] obtain m1 m2 bs' where m: "removeBlock (hp_root s) x (hp_mem s) = Some m1"
    "prepareBlock (hp_root s) x n m1 = Some m2" "managed cfg (s\<lparr>hp_mem := m2\<rparr>) bs'"
    "live_blocks bs' = insert (x + 4, n) (live_blocks bs)" "x + 4 \<notin> fst ` live_blocks bs"
    "keeps (live_blocks bs) s (s\<lparr>hp_mem := m2\<rparr>)" "x \<noteq> 0" "hp_mem s x AND NOT TAGS_MASK = t" by blast
  then show ?thesis using assms(5) by (intro exI[of _ "s\<lparr>hp_mem := m2\<rparr>"] exI[of _ bs']) (simp add: take_found_def)
qed

lemma allocateBlock_eq:
  assumes "0 \<le> n" "n \<le> 2 ^ 29 - 4"
  shows "allocateBlock cfg n s = do {
    found \<leftarrow> searchBlock (hp_root s) (computeSize n) (hp_mem s);
    continue
      (if found \<noteq> 0 then Some (Returns (found, s))
       else continue (growMemory cfg (computeSize n) s) (\<lambda>s. do {
         found \<leftarrow> searchBlock (hp_root s) (computeSize n) (hp_mem s);
         Some (Returns (found, s))
       }))
      (take_found (computeSize n)) }"
  by (simp add: allocateBlock_def computeSize_bounds(1)[OF assms] take_found_def)

text \<open>A free block of a class that is searched is used, and the memory stays as large as it is.\<close>

lemma allocateBlock_found:
  assumes man: "managed cfg s bs" and n: "0 \<le> n" "n \<le> 2 ^ 29 - 4"
    and big: "(x, t) \<in> frees bs" "class_of (mapping_search (computeSize n)) \<le> class_of (mapping_insert t)"
  shows "\<exists>b s' bs'. allocateBlock cfg n s = Some (Returns (b, s')) \<and> managed cfg s' bs' \<and> hp_root s' = hp_root s \<and> hp_pages s' = hp_pages s
    \<and> live_blocks bs' = insert (b + 4, computeSize n) (live_blocks bs) \<and> b + 4 \<notin> fst ` live_blocks bs \<and> keeps (live_blocks bs) s s'"
proof -
  note k = computeSize_bounds[OF n]
  obtain L where L: "lists_ok (hp_mem s) (hp_root s) L (frees bs)" "frees_ok (hp_root s) (frees bs)" using managed_frees[OF man] by blast
  from searchBlock_spec[OF L k(2,3,5)] big obtain b u where b: "searchBlock (hp_root s) (computeSize n) (hp_mem s) = Some b"
    "(b, u) \<in> frees bs" "computeSize n \<le> u" by blast
  then have "b \<noteq> 0" using frees_aligned[OF L(2) b(2)] by simp
  then have eq: "allocateBlock cfg n s = take_found (computeSize n) (b, s)" using b(1) by (simp add: allocateBlock_eq[OF n])
  show ?thesis unfolding eq using found_taken[OF man b(2) k(2,3) b(3)] by blast
qed

lemma allocateBlock_spec:
  assumes man: "managed cfg s bs" and cfg: "config_ok cfg" and n: "0 \<le> n" "n \<le> 2 ^ 29 - 4"
  shows "allocateBlock cfg n s = Some Unreachable \<or>
    (\<exists>b s' bs'. allocateBlock cfg n s = Some (Returns (b, s')) \<and> managed cfg s' bs' \<and> hp_root s' = hp_root s
      \<and> live_blocks bs' = insert (b + 4, computeSize n) (live_blocks bs) \<and> b + 4 \<notin> fst ` live_blocks bs \<and> keeps (live_blocks bs) s s')"
proof -
  let ?k = "computeSize n" and ?rt = "hp_root s"
  note k = computeSize_bounds[OF n]
  obtain L where L: "lists_ok (hp_mem s) ?rt L (frees bs)" "frees_ok ?rt (frees bs)" using managed_frees[OF man] by blast
  from searchBlock_spec[OF L k(2,3,5)] obtain b where b: "searchBlock ?rt ?k (hp_mem s) = Some b"
    "b = 0 \<or> (\<exists>t. (b, t) \<in> frees bs \<and> ?k \<le> t)" by blast
  show ?thesis
  proof (cases "b = 0")
    case False
    then obtain t where t: "(b, t) \<in> frees bs" "?k \<le> t" using b(2) by blast
    have eq: "allocateBlock cfg n s = take_found ?k (b, s)" using b(1) False by (simp add: allocateBlock_eq[OF n])
    show ?thesis unfolding eq using found_taken[OF man t(1) k(2,3) t(2)] by blast
  next
    case True
    from growMemory_spec[OF man cfg k(2,3,5)] show ?thesis
    proof (elim disjE exE conjE)
      assume "growMemory cfg ?k s = Some Unreachable"
      then show ?thesis using b(1) True by (simp add: allocateBlock_eq[OF n])
    next
      fix s1 bs1 x t
      assume s1: "growMemory cfg ?k s = Some (Returns s1)" "managed cfg s1 bs1" "hp_root s1 = ?rt"
        "live_blocks bs1 = live_blocks bs" "keeps (live_blocks bs) s s1" "(x, t) \<in> frees bs1"
        "class_of (mapping_search ?k) \<le> class_of (mapping_insert t)"
      obtain L1 where L1: "lists_ok (hp_mem s1) ?rt L1 (frees bs1)" "frees_ok ?rt (frees bs1)" using managed_frees[OF s1(2)] s1(3) by auto
      from searchBlock_spec[OF L1 k(2,3,5)] s1(6,7) obtain c u where c: "searchBlock ?rt ?k (hp_mem s1) = Some c" "(c, u) \<in> frees bs1" "?k \<le> u"
        by blast
      have eq: "allocateBlock cfg n s = take_found ?k (c, s1)" using b(1) True s1(1,3) c(1) by (simp add: allocateBlock_eq[OF n])
      from found_taken[OF s1(2) c(2) k(2,3) c(3)] obtain s' bs' where r: "take_found ?k (c, s1) = Some (Returns (c, s'))" "managed cfg s' bs'"
        "hp_root s' = hp_root s1" "live_blocks bs' = insert (c + 4, ?k) (live_blocks bs1)" "c + 4 \<notin> fst ` live_blocks bs1"
        "keeps (live_blocks bs1) s1 s'" by blast
      have "keeps (live_blocks bs) s s'" using keeps_trans[OF s1(5), of s'] r(3,6) s1(4) by simp
      then show ?thesis using eq r s1(3,4) by auto
    qed
  qed
qed

section \<open>Freeing\<close>

lemma coalesced_free:
  assumes lay: "layout rt s0 (pre @ (b, sz, True) # post) e"
  shows "\<exists>x t. (x, t) \<in> frees (coalesced pre b sz post) \<and> sz \<le> t"
proof -
  obtain sz1 post1 where j1: "joined sz post = (sz1, post1)" by fastforce
  obtain pre2 b2 sz2 where j2: "joined_left pre b sz1 = (pre2, b2, sz2)" by (metis prod_cases3)
  have "sz \<le> sz1"
  proof (cases "(sz, post)" rule: joined.cases)
    case (1 sz' r rs post')
    then have "12 \<le> rs" using layoutD(3)[OF lay, of r rs] by simp
    then show ?thesis using j1 1 by simp
  qed (use j1 in auto)
  moreover have "sz1 \<le> sz2"
  proof (cases "free_after False pre")
    case True
    then obtain pre' x xs where pre: "pre = pre' @ [(x, xs, True)]" using free_last by blast
    then have "12 \<le> xs" using layoutD(3)[OF lay, of x xs] by simp
    then show ?thesis using j2 True pre by (auto simp: joined_left_def)
  qed (use j2 in \<open>simp add: joined_left_def\<close>)
  moreover have "(b2, sz2) \<in> frees (coalesced pre b sz post)" by (simp add: coalesced_def j1 j2 frees_append)
  ultimately show ?thesis by fastforce
qed

lemma freeBlock_spec:
  assumes man: "managed cfg s bs" and live: "(p, k) \<in> live_blocks bs"
  shows "\<exists>s' bs'. freeBlock (p - 4) s = Some s' \<and> managed cfg s' bs' \<and> hp_root s' = hp_root s
    \<and> live_blocks bs' = live_blocks bs - {(p, k)} \<and> keeps (live_blocks bs - {(p, k)}) s s'
    \<and> hp_pages s' = hp_pages s \<and> (\<exists>x t. (x, t) \<in> frees bs' \<and> k \<le> t)"
proof -
  let ?m = "hp_mem s" and ?rt = "hp_root s" and ?x = "p - 4"
  obtain s0 e pre post where h: "heap_ok ?m ?rt s0 bs e" "layout ?rt s0 bs e" "bs \<noteq> []" "bs = pre @ (?x, k, False) # post" "k \<noteq> 0"
    "live_blocks bs - {(p, k)} = live_blocks pre \<union> live_blocks post" by (rule live_block[OF man live])
  let ?m1 = "?m(?x := ?m ?x OR FREE)" and ?bs1 = "pre @ (?x, k, True) # post" and ?bs = "coalesced pre ?x k post"
  have op: "opened ?m1 ?rt s0 pre ?x k True post e" by (rule open_freed[OF open_used[OF h(1)[unfolded h(4)] h(5)]])
  from insertBlock_spec[OF op] obtain m' where m': "insertBlock ?rt ?x ?m1 = Some m'" "heap_ok m' ?rt s0 ?bs e"
    "changes ?m1 m' (writable ?rt ?bs1)" "writable ?rt ?bs = writable ?rt ?bs1" by blast
  have lay: "layout ?rt s0 ?bs e" using m'(2) by (simp add: heap_ok_def)
  have "?x \<in> writable ?rt ?bs1" using openedD(5)[OF op] by (auto simp: writable_def)
  then have ch: "changes ?m m' (writable ?rt ?bs)" using m'(3,4) by (auto simp: changes_def)
  have "managed cfg (s\<lparr>hp_mem := m'\<rparr>) ?bs" by (rule managed_update[OF man h(3,1) m'(2) ch])
  moreover have "live_blocks ?bs = live_blocks bs - {(p, k)}" using h(6) by (simp add: live_coalesced)
  moreover from this have "keeps (live_blocks bs - {(p, k)}) s (s\<lparr>hp_mem := m'\<rparr>)"
    by (intro heap_keepsI[of _ s0 ?bs e]) (use lay changes_insert[OF ch] in simp_all)
  moreover have "freeBlock ?x s = Some (s\<lparr>hp_mem := m'\<rparr>)" using m'(1) by (simp add: freeBlock_def)
  moreover have "\<exists>x t. (x, t) \<in> frees ?bs \<and> k \<le> t" by (rule coalesced_free[OF openedD(1)[OF op]])
  ultimately show ?thesis by (intro exI[of _ "s\<lparr>hp_mem := m'\<rparr>"] exI[of _ ?bs]) simp
qed


section \<open>Reallocating\<close>

lemma heap_keepsD: "keeps U s s' \<Longrightarrow> (p, k) \<in> U \<Longrightarrow> 0 \<le> i \<Longrightarrow> i < k \<Longrightarrow> hp_mem s' (p + i) = hp_mem s (p + i)"
  by (auto simp: keeps_def same_payloads_def)

text \<open>A block that stays in place: it is prepared with the new size.\<close>

lemma resize_in_place:
  assumes man: "managed cfg s bs" and h: "heap_ok (hp_mem s) (hp_root s) s0 bs e" "bs \<noteq> []"
    and op: "opened m1 (hp_root s) s0 pre x sz False post e" and ch: "changes (hp_mem s) m1 (insert x (writable (hp_root s) bs))"
    and x: "(x, k, False) \<in> set bs" and n: "12 \<le> n" "n mod 16 = 12" "n \<le> sz"
    and live: "live_blocks pre \<union> live_blocks post = live_blocks bs - {(x + 4, k)}" and keep: "j \<le> n" "j \<le> k"
  shows "\<exists>m' bs'. prepareBlock (hp_root s) x n m1 = Some m' \<and> managed cfg (s\<lparr>hp_mem := m'\<rparr>) bs'
    \<and> live_blocks bs' = insert (x + 4, n) (live_blocks bs - {(x + 4, k)})
    \<and> keeps (live_blocks bs - {(x + 4, k)}) s (s\<lparr>hp_mem := m'\<rparr>) \<and> copied (hp_mem s) (x + 4) m' (x + 4) j"
proof -
  let ?rt = "hp_root s" and ?m = "hp_mem s" and ?bs = "pre @ (x, n, False) # remainder x n sz post" and ?U = "live_blocks bs - {(x + 4, k)}"
  have lay: "layout ?rt s0 bs e" using h(1) by (simp add: heap_ok_def)
  from prepareBlock_spec[OF op n] obtain m' where m': "prepareBlock ?rt x n m1 = Some m'" "heap_ok m' ?rt s0 ?bs e"
    "changes m1 m' (writable ?rt ?bs)" by blast
  have lay': "layout ?rt s0 ?bs e" using m'(2) by (simp add: heap_ok_def)
  have live': "live_blocks ?bs = insert (x + 4, n) ?U" using n(1) live by (simp add: live_append live_remainder)
  have "x \<in> writable ?rt bs" unfolding writable_def by (intro UnI2 UN_I[OF x]) simp
  then have ch1: "changes ?m m1 (writable ?rt bs)" using ch by (auto simp: changes_def)
  have k1: "keeps ?U s (s\<lparr>hp_mem := m1\<rparr>)"
    by (rule heap_keepsI[of _ s0 bs e]) (use lay changes_insert[OF ch1] in auto)
  have k2: "keeps ?U (s\<lparr>hp_mem := m1\<rparr>) (s\<lparr>hp_mem := m'\<rparr>)"
    by (rule heap_keepsI[of _ s0 ?bs e]) (use lay' changes_insert[OF m'(3)] live' in auto)
  have tail: "managed cfg (s\<lparr>hp_mem := m'\<rparr>) ?bs"
  proof -
    obtain s1 e1 where t: "heap_ok ?m ?rt s1 bs e1" "GETTAIL ?m ?rt = e1 - 4" "layout ?rt s1 bs e1"
      "e1 \<le> 65536 * hp_pages s" "low_memory_limit cfg = 0 \<longrightarrow> e1 = 65536 * hp_pages s" by (rule managedD[OF man h(2)])
    have "e1 = e" using t(3) lay by (simp add: layout_def)
    have "m' (?rt + HL_END) = ?m (?rt + HL_END)"
      using ch1 m'(3) outside_kept[OF lay] outside_kept[OF lay'] by (simp add: changes_def)
    then show ?thesis using man m'(2) t(2,4,5) \<open>e1 = e\<close> h(2) by (auto simp: managed_def GETTAIL_def)
  qed
  have "m' (x + 4 + i) = ?m (x + 4 + i)" if "0 \<le> i" "i < j" for i
  proof -
    have "x + 4 + i \<notin> writable ?rt bs" using used_kept[OF lay x, of "x + 4 + i"] that keep by simp
    moreover have "x + 4 + i \<notin> writable ?rt ?bs" using used_kept[OF lay', of x n "x + 4 + i"] that keep by simp
    ultimately show ?thesis using ch1 m'(3) by (simp add: changes_def)
  qed
  then have "copied ?m (x + 4) m' (x + 4) j" by (simp add: copied_def)
  then show ?thesis using m'(1) tail live' keeps_trans[OF k1 k2] by auto
qed

lemma moveBlock_spec:
  assumes man: "managed cfg s bs" and cfg: "config_ok cfg" and live: "(p, k) \<in> live_blocks bs"
    and n: "0 \<le> n" "n \<le> 2 ^ 29 - 4" "k \<le> computeSize n"
  shows "moveBlock cfg (p - 4) n s = Some Unreachable \<or>
    (\<exists>b s' bs'. moveBlock cfg (p - 4) n s = Some (Returns (b, s')) \<and> managed cfg s' bs' \<and> hp_root s' = hp_root s
      \<and> live_blocks bs' = insert (b + 4, computeSize n) (live_blocks bs - {(p, k)}) \<and> b + 4 \<notin> fst ` live_blocks bs
      \<and> keeps (live_blocks bs - {(p, k)}) s s' \<and> copied (hp_mem s) p (hp_mem s') (b + 4) k)"
proof -
  let ?c = "computeSize n" and ?U = "live_blocks bs - {(p, k)}"
  from allocateBlock_spec[OF man cfg n(1,2)] show ?thesis
  proof (elim disjE exE conjE)
    assume "allocateBlock cfg n s = Some Unreachable"
    then show ?thesis by (simp add: moveBlock_def)
  next
    fix b s1 bs1
    assume alloc: "allocateBlock cfg n s = Some (Returns (b, s1))" "managed cfg s1 bs1" "hp_root s1 = hp_root s"
      "live_blocks bs1 = insert (b + 4, ?c) (live_blocks bs)" "b + 4 \<notin> fst ` live_blocks bs" "keeps (live_blocks bs) s s1"
    have live1: "(p, k) \<in> live_blocks bs1" "(b + 4, ?c) \<in> live_blocks bs1" using alloc(4) live by auto
    obtain s0 e pre post where h: "heap_ok (hp_mem s1) (hp_root s1) s0 bs1 e" "layout (hp_root s1) s0 bs1 e"
      "bs1 = pre @ (p - 4, k, False) # post" by (rule live_block[OF alloc(2) live1(1)])
    have "(p - 4, k, False) \<in> set bs1" by (simp add: h(3))
    note P = layoutD(1)[OF h(2) this]
    have "hp_mem s1 (p - 4) = info k False (free_after False pre)" using h(1,3) by (simp add: heap_ok_def tagged_append)
    then have sz: "hp_mem s1 (p - 4) AND NOT TAGS_MASK = k" using P by (simp add: info_size)
    define m2 where "m2 = memory_copy (b + 4) p k (hp_mem s1)"
    let ?s2 = "s1\<lparr>hp_mem := m2\<rparr>"
    have "changes (hp_mem s1) m2 {b + 4..<b + 4 + ?c}" using n(3) by (auto simp: changes_def m2_def memory_copy_def)
    note w = managed_write[OF alloc(2) live1(2) this]
    have "(p, k) \<noteq> (b + 4, ?c)" using live alloc(5) by force
    have live2: "(p, k) \<in> live_blocks bs1" by (rule live1)
    from freeBlock_spec[OF w(1) live2] obtain s' bs' where f: "freeBlock (p - 4) ?s2 = Some s'" "managed cfg s' bs'" "hp_root s' = hp_root s1"
      "live_blocks bs' = live_blocks bs1 - {(p, k)}" "keeps (live_blocks bs1 - {(p, k)}) ?s2 s'" by auto
    have "heap_base cfg \<le> p - 4" using P layoutD(4,6)[OF h(2)] alloc(2) by (simp add: managed_def tlsf_numbers)
    then have "moveBlock cfg (p - 4) n s = Some (Returns (b, s'))"
      using alloc(1) sz f(1) by (simp add: moveBlock_def Let_def m2_def tlsf_numbers)
    moreover have "live_blocks bs' = insert (b + 4, ?c) ?U" using f(4) alloc(4) \<open>(p, k) \<noteq> (b + 4, ?c)\<close> by auto
    moreover have "keeps ?U s s'"
    proof -
      have "?U \<subseteq> live_blocks bs1 - {(b + 4, ?c)}" using alloc(4,5) by force
      then have "keeps ?U s1 ?s2" by (rule keeps_mono[OF w(2)])
      moreover have "keeps ?U ?s2 s'" by (rule keeps_mono[OF f(5)]) (use alloc(4) in auto)
      moreover have "keeps ?U s s1" by (rule keeps_mono[OF alloc(6)]) auto
      ultimately show ?thesis using keeps_trans[of ?U s s1 ?s2] keeps_trans[of ?U s ?s2 s'] f(3) by simp
    qed
    moreover have "copied (hp_mem s) p (hp_mem s') (b + 4) k"
      unfolding copied_def
    proof (intro allI impI)
      fix i assume i: "0 \<le> i \<and> i < k"
      have mem: "(b + 4, ?c) \<in> live_blocks bs1 - {(p, k)}" using live1 \<open>(p, k) \<noteq> (b + 4, ?c)\<close> by auto
      have "hp_mem s' (b + 4 + i) = m2 (b + 4 + i)" using heap_keepsD[OF f(5) mem, of i] i n(3) by simp
      also have "\<dots> = hp_mem s1 (p + i)" using i by (simp add: m2_def memory_copy_def)
      also have "\<dots> = hp_mem s (p + i)" using heap_keepsD[OF alloc(6) live] i by simp
      finally show "hp_mem s' (b + 4 + i) = hp_mem s (p + i)" .
    qed
    ultimately show ?thesis using f(2,3) alloc(3,5) by auto
  qed
qed

lemma reallocateBlock_spec:
  assumes man: "managed cfg s bs" and cfg: "config_ok cfg" and live: "(p, k) \<in> live_blocks bs" and n: "0 \<le> n" "n \<le> 2 ^ 29 - 4"
  shows "reallocateBlock cfg (p - 4) n s = Some Unreachable \<or>
    (\<exists>b s' bs'. reallocateBlock cfg (p - 4) n s = Some (Returns (b, s')) \<and> managed cfg s' bs' \<and> hp_root s' = hp_root s
      \<and> live_blocks bs' = insert (b + 4, computeSize n) (live_blocks bs - {(p, k)}) \<and> b + 4 \<notin> fst ` (live_blocks bs - {(p, k)})
      \<and> keeps (live_blocks bs - {(p, k)}) s s' \<and> copied (hp_mem s) p (hp_mem s') (b + 4) (min k (computeSize n)))"
proof -
  let ?x = "p - 4" and ?c = "computeSize n" and ?rt = "hp_root s" and ?m = "hp_mem s" and ?U = "live_blocks bs - {(p, k)}"
  note c = computeSize_bounds[OF n]
  obtain s0 e pre post where h: "heap_ok ?m ?rt s0 bs e" "layout ?rt s0 bs e" "bs \<noteq> []" "bs = pre @ (?x, k, False) # post" "k \<noteq> 0"
    "?U = live_blocks pre \<union> live_blocks post" by (rule live_block[OF man live])
  have x: "(?x, k, False) \<in> set bs" by (simp add: h(4))
  have op: "opened ?m ?rt s0 pre ?x k False post e" by (rule open_used[OF h(1)[unfolded h(4)] h(5)])
  have fresh: "?x + 4 \<notin> fst ` ?U"
  proof
    assume "?x + 4 \<in> fst ` ?U"
    then obtain j where "(p, j) \<in> ?U" by (elim imageE) (metis diff_add_cancel prod.collapse)
    then have j: "(?x, j, False) \<in> set bs" "j \<noteq> k" by (auto simp: live_blocks_def)
    then show False using layoutD(2)[OF h(2) x j(1)] layoutD(1)[OF h(2) x] layoutD(1)[OF h(2) j(1)] by auto
  qed
  have done_: ?thesis
    if "reallocateBlock cfg ?x n s = do { m \<leftarrow> prepareBlock ?rt ?x ?c m1; Some (Returns (?x, s\<lparr>hp_mem := m\<rparr>)) }"
      "opened m1 ?rt s0 pre ?x sz False post1 e" "changes ?m m1 (insert ?x (writable ?rt bs))" "?c \<le> sz" "live_blocks post1 = live_blocks post"
    for m1 sz post1
  proof -
    have "live_blocks pre \<union> live_blocks post1 = live_blocks bs - {(?x + 4, k)}" using h(6) that(5) by simp
    from resize_in_place[OF man h(1,3) that(2,3) x c(2,3) that(4) this min.cobounded2 min.cobounded1] obtain m' bs' where
      "prepareBlock ?rt ?x ?c m1 = Some m'" "managed cfg (s\<lparr>hp_mem := m'\<rparr>) bs'" "live_blocks bs' = insert (?x + 4, ?c) ?U"
      "keeps ?U s (s\<lparr>hp_mem := m'\<rparr>)" "copied ?m (?x + 4) m' (?x + 4) (min k ?c)" by auto
    then show ?thesis using that(1) fresh by (intro disjI2 exI[of _ ?x] exI[of _ "s\<lparr>hp_mem := m'\<rparr>"] exI[of _ bs']) simp
  qed
  obtain r rs g rest where post: "post = (r, rs, g) # rest" by (rule layout_right[OF openedD(1)[OF op]])
  note right = opened_right[OF op[unfolded post]]
  obtain q L where tags: "tagged ?m q post" using op by (auto simp: opened_def)
  have mr: "?m r = info rs g q" using tags post by simp
  have mx: "?m ?x = info k False (free_after False pre)" "k mod 4 = 0" "?m ?x AND NOT TAGS_MASK = k" using openedD(3,4,8)[OF op] by simp_all
  have rinfo: "?m r AND NOT TAGS_MASK = rs" "(?m r AND FREE \<noteq> 0) = g" using mr right by (simp_all add: info_size tagged_free)
  show ?thesis
  proof (cases "?c \<le> k")
    case True
    then have "reallocateBlock cfg ?x n s = do { m \<leftarrow> prepareBlock ?rt ?x ?c ?m; Some (Returns (?x, s\<lparr>hp_mem := m\<rparr>)) }"
      using c(1) mx(3) by (simp add: reallocateBlock_def Let_def)
    then show ?thesis by (rule done_[OF _ op _ True]) (simp_all add: changes_def)
  next
    case small: False
    show ?thesis
    proof (cases "g \<and> ?c \<le> k + 4 + rs")
      case True
      then have g: "post = (r, rs, True) # rest" using post by simp
      have heap2: "heap_ok ?m ?rt s0 ((pre @ [(?x, k, False)]) @ (r, rs, True) # rest) e" using h(1,4) g by simp
      from open_free[OF heap2] obtain m1 where m1: "removeBlock ?rt r ?m = Some m1"
        "opened m1 ?rt s0 (pre @ [(?x, k, False)]) r rs True rest e" "changes ?m m1 (writable ?rt bs)" using h(4) g by auto
      have lay2: "layout ?rt s0 (pre @ (?x, k, True) # (r, rs, True) # rest) e" using openedD(1)[OF op] g by simp
      note lay' = layout_join(1)[OF lay2]
      obtain q1 L1 where o1: "tagged m1 False (pre @ [(?x, k, False)])" "tagged m1 q1 rest" "lists_ok m1 ?rt L1 (frees ((pre @ [(?x, k, False)]) @ rest))"
        using m1(2) by (auto simp: opened_def)
      then have o2: "tagged m1 False pre" "lists_ok m1 ?rt L1 (frees (pre @ rest))" by (simp_all add: tagged_append frees_append)
      define m2 where "m2 = m1(?x := (?m ?x AND TAGS_MASK) OR (k + 4 + rs))"
      have k4: "(k + 4 + rs) mod 4 = 0" using layoutD(1)[OF lay', of ?x "k + 4 + rs" True] by simp
      have "m2 ?x = info (k + 4 + rs) False (free_after False pre)" using mx(1,2) k4 by (simp add: m2_def info_tags info_join(2))
      then have op2: "opened m2 ?rt s0 pre ?x (k + 4 + rs) False rest e"
        by (intro openedI[OF lay' o2(1) o1(2) o2(2), where A = "{?x}"]) (use right openedD(5)[OF op] in \<open>auto simp: m2_def changes_def\<close>)
      have "u32 (k + 4 + rs) = k + 4 + rs"
        using layoutD(1)[OF lay', of ?x "k + 4 + rs" True] layoutD(4,6,7)[OF lay'] right openedD(5)[OF op] by (intro u32_small) (simp_all add: tlsf_numbers)
      then have "reallocateBlock cfg ?x n s = do { m \<leftarrow> prepareBlock ?rt ?x ?c m2; Some (Returns (?x, s\<lparr>hp_mem := m\<rparr>)) }"
        using c(1) mx(3) small True right rinfo m1(1) by (simp add: reallocateBlock_def Let_def tlsf_numbers m2_def)
      moreover have "changes ?m m2 (insert ?x (writable ?rt bs))" using m1(3) by (auto simp: changes_def m2_def)
      moreover have "live_blocks rest = live_blocks post" using g by (simp add: live_append)
      ultimately show ?thesis using done_[OF _ op2] True by blast
    next
      case False
      have "\<not> (?m r AND FREE \<noteq> 0 \<and> u32 (k + 4 + rs) \<ge> ?c)"
      proof
        assume a: "?m r AND FREE \<noteq> 0 \<and> u32 (k + 4 + rs) \<ge> ?c"
        have "u32 (k + 4 + rs) \<le> k + 4 + rs" unfolding u32_def by (rule take_bit_int_less_eq_self_iff[THEN iffD2]) (use right openedD(5)[OF op] in simp)
        then show False using a False rinfo(2) by simp
      qed
      then have "reallocateBlock cfg ?x n s = moveBlock cfg ?x n s"
        using c(1) mx(3) small right rinfo(1) by (auto simp: reallocateBlock_def Let_def tlsf_numbers)
      moreover have "min k ?c = k" using small by simp
      moreover have "b \<notin> fst ` live_blocks bs \<Longrightarrow> b \<notin> fst ` ?U" for b by auto
      ultimately show ?thesis using moveBlock_spec[OF man cfg live n] small by auto
    qed
  qed
qed


section \<open>The operations\<close>

definition tlsf_operations :: "config \<Rightarrow> heap operations" where
  "tlsf_operations cfg = \<lparr>op_mem = hp_mem, op_pages = hp_pages, op_put = (\<lambda>m s. s\<lparr>hp_mem := m\<rparr>), op_alloc = alloc cfg,
     op_realloc = realloc cfg, op_free = free cfg\<rparr>"

text \<open>Before the first operation the root is 0; a low-memory limit lies inside the memory.\<close>

definition before_use :: "config \<Rightarrow> heap \<Rightarrow> bool" where
  "before_use cfg s \<longleftrightarrow> hp_root s = 0 \<and> 0 \<le> hp_pages s \<and> hp_pages s \<le> 65536 \<and> low_memory_limit cfg \<le> 65536 * hp_pages s"

definition tlsf_inv :: "config \<Rightarrow> heap \<Rightarrow> (int \<times> int) set \<Rightarrow> bool" where
  "tlsf_inv cfg s U \<longleftrightarrow> config_ok cfg \<and> (before_use cfg s \<and> U = {} \<or> (\<exists>bs. managed cfg s bs \<and> U = live_blocks bs))"

lemma managed_root: "managed cfg s bs \<Longrightarrow> 0 < hp_root s \<and> heap_base cfg \<le> hp_root s"
  by (simp add: managed_def)

lemma ensured:
  assumes "tlsf_inv cfg s U"
  shows "ensure cfg s = Some Unreachable \<or>
    (\<exists>s' bs. ensure cfg s = Some (Returns s') \<and> managed cfg s' bs \<and> live_blocks bs = U \<and> same_payloads U (hp_mem s) (hp_mem s'))"
proof (cases "hp_root s = 0")
  case True
  then have "\<not> managed cfg s bs" for bs using managed_root[of cfg s bs] by auto
  then have b: "config_ok cfg" "before_use cfg s" "U = {}" using assms by (auto simp: tlsf_inv_def)
  have "initialize cfg s = Some Unreachable \<or> (\<exists>s' bs. initialize cfg s = Some (Returns s') \<and> managed cfg s' bs \<and> live_blocks bs = {})"
    using initialize_spec[OF b(1), of s] b(2) unfolding before_use_def by blast
  then show ?thesis using True b(3) by (auto simp: ensure_def same_payloads_def)
next
  case False
  then show ?thesis using assms by (auto simp: ensure_def tlsf_inv_def before_use_def same_payloads_def)
qed

lemma pointer_block:
  assumes man: "managed cfg s bs" and live: "(p, k) \<in> live_blocks bs"
  shows "p mod 16 = 0" "16 < p" "heap_base cfg < p" "0 < k" "k mod 4 = 0" "p + k \<le> 65536 * hp_pages s" "checkUsedBlock p s = Some (p - 4)"
proof -
  obtain s0 e pre post where h: "heap_ok (hp_mem s) (hp_root s) s0 bs e" "layout (hp_root s) s0 bs e" "bs \<noteq> []"
    "bs = pre @ (p - 4, k, False) # post" "k \<noteq> 0" by (rule live_block[OF man live])
  obtain s1 e1 where t: "layout (hp_root s) s1 bs e1" "e1 \<le> 65536 * hp_pages s" by (rule managedD[OF man h(3)])
  have "(p - 4, k, False) \<in> set bs" by (simp add: h(4))
  note x = layoutD(1)[OF t(1) this]
  have rt: "hp_root s + 1572 \<le> p - 4" "0 < hp_root s" "heap_base cfg \<le> hp_root s"
    using x layoutD(6)[OF t(1)] man by (simp_all add: managed_def tlsf_numbers)
  have "(p - 4 + 4) mod 16 = (12 + 4) mod 16" using x unfolding aligned_def by (intro mod_add_cong) simp_all
  then show p16: "p mod 16 = 0" by simp
  show "16 < p" "heap_base cfg < p" "0 < k" "k mod 4 = 0" "p + k \<le> 65536 * hp_pages s" using rt x h(5) t(2) by simp_all
  have "hp_mem s (p - 4) = info k False (free_after False pre)" using h(1,4) by (simp add: heap_ok_def tagged_append)
  then have "hp_mem s (p - 4) AND FREE = 0" using x by (simp add: tagged_free)
  moreover have "u32 (p - 4) = p - 4" using rt x layoutD(7)[OF t(1)] by (intro u32_small) simp_all
  ultimately show "checkUsedBlock p s = Some (p - 4)" using p16 rt by (simp add: checkUsedBlock_def tlsf_numbers align_bits)
qed

lemma tlsf_alloc:
  assumes inv: "tlsf_inv cfg s U" and n: "0 \<le> n" "n \<le> 2 ^ 29 - 4"
  shows "alloc cfg n s = Some Unreachable \<or>
    (\<exists>p k s'. alloc cfg n s = Some (Returns (p, s')) \<and> tlsf_inv cfg s' (insert (p, k) U) \<and> p \<notin> fst ` U \<and> n \<le> k
      \<and> same_payloads U (hp_mem s) (hp_mem s'))"
proof -
  have cfg: "config_ok cfg" using inv by (simp add: tlsf_inv_def)
  from ensured[OF inv] show ?thesis
  proof (elim disjE exE conjE)
    fix s1 bs assume s1: "ensure cfg s = Some (Returns s1)" "managed cfg s1 bs" "live_blocks bs = U" "same_payloads U (hp_mem s) (hp_mem s1)"
    from allocateBlock_spec[OF s1(2) cfg n] show ?thesis
    proof (elim disjE exE conjE)
      fix b s' bs'
      assume a: "allocateBlock cfg n s1 = Some (Returns (b, s'))" "managed cfg s' bs'"
        "live_blocks bs' = insert (b + 4, computeSize n) (live_blocks bs)" "b + 4 \<notin> fst ` live_blocks bs" "keeps (live_blocks bs) s1 s'"
      have "alloc cfg n s = Some (Returns (b + 4, s'))" using s1(1) a(1) by (simp add: alloc_def tlsf_numbers)
      moreover have "tlsf_inv cfg s' (insert (b + 4, computeSize n) U)" using a(2,3) s1(3) cfg by (auto simp: tlsf_inv_def)
      moreover have "same_payloads U (hp_mem s) (hp_mem s')" using s1(3,4) a(5) same_payloads_trans by (auto simp: keeps_def)
      ultimately show ?thesis using a(4) s1(3) computeSize_bounds(4)[OF n] by blast
    qed (use s1(1) in \<open>simp add: alloc_def\<close>)
  qed (simp add: alloc_def)
qed

lemma tlsf_realloc:
  assumes inv: "tlsf_inv cfg s U" and p: "(p, k) \<in> U" and n: "0 \<le> n" "n \<le> 2 ^ 29 - 4"
  shows "realloc cfg p n s = Some Unreachable \<or>
    (\<exists>q j s'. realloc cfg p n s = Some (Returns (q, s')) \<and> tlsf_inv cfg s' (insert (q, j) (U - {(p, k)})) \<and> q \<notin> fst ` (U - {(p, k)})
      \<and> n \<le> j \<and> same_payloads (U - {(p, k)}) (hp_mem s) (hp_mem s') \<and> copied (hp_mem s) p (hp_mem s') q (min k j))"
proof -
  obtain bs where bs: "config_ok cfg" "managed cfg s bs" "U = live_blocks bs" using inv p by (auto simp: tlsf_inv_def)
  have live: "(p, k) \<in> live_blocks bs" using p bs(3) by simp
  note b = pointer_block[OF bs(2) live]
  have re: "realloc cfg p n s = continue (reallocateBlock cfg (p - 4) n s) (\<lambda>(block, s). Some (Returns (block + 4, s)))"
    using b(3,7) managed_root[OF bs(2)] by (simp add: realloc_def ensure_def tlsf_numbers)
  from reallocateBlock_spec[OF bs(2,1) live n] show ?thesis
  proof (elim disjE exE conjE)
    fix c s' bs'
    assume a: "reallocateBlock cfg (p - 4) n s = Some (Returns (c, s'))" "managed cfg s' bs'"
      "live_blocks bs' = insert (c + 4, computeSize n) (live_blocks bs - {(p, k)})" "c + 4 \<notin> fst ` (live_blocks bs - {(p, k)})"
      "keeps (live_blocks bs - {(p, k)}) s s'" "copied (hp_mem s) p (hp_mem s') (c + 4) (min k (computeSize n))"
    have "realloc cfg p n s = Some (Returns (c + 4, s'))" using re a(1) by simp
    moreover have "tlsf_inv cfg s' (insert (c + 4, computeSize n) (U - {(p, k)}))" using a(2,3) bs(1,3) by (auto simp: tlsf_inv_def)
    ultimately show ?thesis using a(4,5,6) bs(3) computeSize_bounds(4)[OF n] unfolding keeps_def by blast
  qed (use re in simp)
qed

lemma tlsf_free:
  assumes inv: "tlsf_inv cfg s U" and p: "(p, k) \<in> U"
  shows "\<exists>s'. free cfg p s = Some (Returns s') \<and> tlsf_inv cfg s' (U - {(p, k)}) \<and> same_payloads (U - {(p, k)}) (hp_mem s) (hp_mem s')"
proof -
  obtain bs where bs: "config_ok cfg" "managed cfg s bs" "U = live_blocks bs" using inv p by (auto simp: tlsf_inv_def)
  have live: "(p, k) \<in> live_blocks bs" using p bs(3) by simp
  note b = pointer_block[OF bs(2) live]
  from freeBlock_spec[OF bs(2) live] obtain s' bs' where f : "freeBlock (p - 4) s = Some s'" "managed cfg s' bs'"
    "live_blocks bs' = live_blocks bs - {(p, k)}" "keeps (live_blocks bs - {(p, k)}) s s'" by blast
  have "free cfg p s = Some (Returns s')" using b(3,7) f(1) managed_root[OF bs(2)] by (simp add: free_def ensure_def)
  then show ?thesis using f bs(1,3) by (auto simp: tlsf_inv_def keeps_def)
qed

lemma tlsf_apart:
  assumes "tlsf_inv cfg s U" "(p, k) \<in> U" "(q, j) \<in> U"
  shows "(p, k) = (q, j) \<or> p + k \<le> q \<or> q + j \<le> p"
proof -
  obtain bs where bs: "managed cfg s bs" "U = live_blocks bs" using assms by (auto simp: tlsf_inv_def)
  then have live: "(p, k) \<in> live_blocks bs" "(p - 4, k, False) \<in> set bs" "(q - 4, j, False) \<in> set bs"
    using assms(2,3) by (auto simp: live_blocks_def)
  obtain s0 e pre post where h: "layout (hp_root s) s0 bs e" by (rule live_block[OF bs(1) live(1)])
  show ?thesis using layoutD(2)[OF h live(2,3)] by auto
qed

lemma tlsf_put:
  assumes "tlsf_inv cfg s U" "(p, k) \<in> U" "changes (hp_mem s) m' {p..<p + k}"
  shows "tlsf_inv cfg (s\<lparr>hp_mem := m'\<rparr>) U"
proof -
  obtain bs where bs: "config_ok cfg" "managed cfg s bs" "U = live_blocks bs" using assms by (auto simp: tlsf_inv_def)
  then have "managed cfg (s\<lparr>hp_mem := m'\<rparr>) bs" using managed_write(1)[of cfg s bs p k m'] assms(2,3) by simp
  then show ?thesis using bs by (auto simp: tlsf_inv_def)
qed

interpretation tlsf: allocator "tlsf_operations cfg" "tlsf_inv cfg" "2 ^ 29 - 4" for cfg
proof unfold_locales
  fix s U p k q j n m'
  assume inv: "tlsf_inv cfg s U"
  show "op_alloc (tlsf_operations cfg) n s = Some Unreachable \<or>
    (\<exists>p k s'. op_alloc (tlsf_operations cfg) n s = Some (Returns (p, s')) \<and> tlsf_inv cfg s' (insert (p, k) U) \<and> p \<notin> fst ` U \<and> n \<le> k
      \<and> same_payloads U (op_mem (tlsf_operations cfg) s) (op_mem (tlsf_operations cfg) s'))" if "0 \<le> n" "n \<le> 2 ^ 29 - 4"
    using tlsf_alloc[OF inv that] by (simp add: tlsf_operations_def)
  assume p: "(p, k) \<in> U"
  then obtain bs where bs: "managed cfg s bs" "(p, k) \<in> live_blocks bs" using inv by (auto simp: tlsf_inv_def)
  show "0 < k \<and> k mod 4 = 0" "p mod 16 = 0 \<and> 0 < p \<and> p + k \<le> 65536 * op_pages (tlsf_operations cfg) s"
    using pointer_block[OF bs] by (simp_all add: tlsf_operations_def)
  show "(p, k) = (q, j) \<or> p + k \<le> q \<or> q + j \<le> p" if "(q, j) \<in> U" by (rule tlsf_apart[OF inv p that])
  show "tlsf_inv cfg (op_put (tlsf_operations cfg) m' s) U \<and> op_mem (tlsf_operations cfg) (op_put (tlsf_operations cfg) m' s) = m'"
    if "changes (op_mem (tlsf_operations cfg) s) m' {p..<p + k}"
    using tlsf_put[OF inv p] that by (simp add: tlsf_operations_def)
  show "op_realloc (tlsf_operations cfg) p n s = Some Unreachable \<or>
    (\<exists>q j s'. op_realloc (tlsf_operations cfg) p n s = Some (Returns (q, s')) \<and> tlsf_inv cfg s' (insert (q, j) (U - {(p, k)}))
      \<and> q \<notin> fst ` (U - {(p, k)}) \<and> n \<le> j
      \<and> same_payloads (U - {(p, k)}) (op_mem (tlsf_operations cfg) s) (op_mem (tlsf_operations cfg) s')
      \<and> copied (op_mem (tlsf_operations cfg) s) p (op_mem (tlsf_operations cfg) s') q (min k j))" if "0 \<le> n" "n \<le> 2 ^ 29 - 4"
    using tlsf_realloc[OF inv p that] by (simp add: tlsf_operations_def)
  show "\<exists>s'. op_free (tlsf_operations cfg) p s = Some (Returns s') \<and> tlsf_inv cfg s' (U - {(p, k)})
      \<and> same_payloads (U - {(p, k)}) (op_mem (tlsf_operations cfg) s) (op_mem (tlsf_operations cfg) s')"
    using tlsf_free[OF inv p] by (simp add: tlsf_operations_def)
qed

text \<open>
  C7. A program that keeps to its buffers is served correctly by the allocator, from the first request on an untouched
  memory, or the engine refuses to grow the memory: none of the assertions of the allocator fails, and in the end every
  buffer the program has is aligned to 16, lies inside the memory, and holds in every word what was written there last,
  across all moves, splits, merges and growths in between.
\<close>

theorem tlsf_serves:
  assumes "config_ok cfg" "before_use cfg s" "meaning (2 ^ 29 - 4) rs Map.empty = Some V"
  shows "run (tlsf_operations cfg) rs (Map.empty, s) = Some Unreachable \<or>
    (\<exists>x. run (tlsf_operations cfg) rs (Map.empty, s) = Some (Returns x) \<and> accurate (tlsf_operations cfg) x V)"
proof -
  have "tlsf_inv cfg s {}" using assms(1,2) by (simp add: tlsf_inv_def)
  from tlsf.started[OF this assms(3)] show ?thesis by blast
qed

lemma tlsf_serves_witness:
  "let cfg = \<lparr>heap_base = 16, low_memory_limit = 0, can_grow = (\<lambda>pages delta. pages + delta \<le> 65536)\<rparr>;
       s = \<lparr>hp_mem = (\<lambda>a. 0), hp_pages = 1, hp_root = 0\<rparr>;
       rs = [Alloc 0 8, Store 0 1 7]
   in run (tlsf_operations cfg) rs (Map.empty, s) = Some Unreachable \<or>
    (\<exists>x. run (tlsf_operations cfg) rs (Map.empty, s) = Some (Returns x) \<and> accurate (tlsf_operations cfg) x [0 \<mapsto> [None, Some 7]])"
  unfolding Let_def by (rule tlsf_serves) (simp_all add: config_ok_def before_use_def words_def numeral_2_eq_2)


section \<open>First use\<close>

lemma first_use:
  assumes cfg: "heap_base cfg = 16" "low_memory_limit cfg = 0" and s: "hp_root s = 0" "1 \<le> hp_pages s" "hp_pages s \<le> 65536"
  shows "\<exists>m. ensure cfg s = Some (Returns (s\<lparr>hp_mem := m, hp_root := 16\<rparr>))
    \<and> heap_ok m 16 (16 + 1580) (first_blocks (16 + 1580) (65536 * hp_pages s)) (65536 * hp_pages s)"
proof -
  let ?e = "65536 * hp_pages s"
  have up: "align_up 16 = 16" using align_up_mod[of 16] by simp
  have needed: "drop_bit 16 (u32 (16 + ROOT_SIZE + 0xFFFF) AND NOT 0xFFFF) = 1"
    using page_count(1)[of "16 + ROOT_SIZE"] by (simp add: tlsf_numbers)
  have some: "first_blocks (16 + 1580) ?e \<noteq> []" using s(2) by (simp add: first_blocks_def)
  have "16 dvd ?e" by (rule dvd_mult2) simp
  then have "?e mod 16 = 0" by simp
  then obtain added m where m: "addMemory 16 (16 + ROOT_SIZE) ?e (clear_root 16 (hp_mem s)) = Some (added, m)"
    "heap_ok m 16 (16 + 1580) (first_blocks (16 + 1580) ?e) ?e"
    using first_memory[of 16 ?e "hp_mem s"] s(2,3) some by auto
  have "initialize cfg s = Some (Returns (s\<lparr>hp_mem := m, hp_root := 16\<rparr>))"
    unfolding initialize_def cfg Let_def up needed using s(2) m(1)
    by (cases s) (simp add: push_bit_eq_mult mult.commute max_absorb1)
  then show ?thesis using m(2) s(1) by (auto simp: ensure_def)
qed


section \<open>Reuse\<close>

text \<open>
  C11. Memory is reused: after a block was freed, a request whose rounded size the block holds succeeds and does not grow
  the memory, whatever else is allocated.
\<close>

theorem tlsf_reuses:
  assumes inv: "tlsf_inv cfg s U" and p: "(p, k) \<in> U" and n: "0 \<le> n" "n \<le> 2 ^ 29 - 4"
    and fits: "(if computeSize n \<ge> SB_SIZE then roundSize (computeSize n) else computeSize n) \<le> k"
  shows "\<exists>s' q s''. free cfg p s = Some (Returns s') \<and> alloc cfg n s' = Some (Returns (q, s'')) \<and> hp_pages s'' = hp_pages s"
proof -
  obtain bs where bs: "config_ok cfg" "managed cfg s bs" "U = live_blocks bs" using inv p by (auto simp: tlsf_inv_def)
  have live: "(p, k) \<in> live_blocks bs" using p bs(3) by simp
  note b = pointer_block[OF bs(2) live] and c = computeSize_bounds[OF n]
  note q = search_size[OF c(2,5) refl]
  from freeBlock_spec[OF bs(2) live] obtain s' bs' x t where f: "freeBlock (p - 4) s = Some s'" "managed cfg s' bs'"
    "hp_pages s' = hp_pages s" "(x, t) \<in> frees bs'" "k \<le> t" by blast
  have "class_of (mapping_search (computeSize n)) \<le> class_of (mapping_insert t)"
    unfolding q(1) using q(2) fits f(5) by (intro class_mono[OF _ _ refl refl]) simp_all
  from allocateBlock_found[OF f(2) n f(4) this] obtain c s'' where "allocateBlock cfg n s' = Some (Returns (c, s''))" "hp_pages s'' = hp_pages s'" by blast
  moreover have "free cfg p s = Some (Returns s')" using b(3,7) f(1) managed_root[OF bs(2)] by (simp add: free_def ensure_def)
  ultimately show ?thesis using f(3) managed_root[OF f(2)] by (simp add: alloc_def ensure_def)
qed

lemma tlsf_reuses_witness:
  "let cfg = \<lparr>heap_base = 16, low_memory_limit = 0, can_grow = (\<lambda>pages delta. False)\<rparr>;
       s0 = \<lparr>hp_mem = (\<lambda>a. 0), hp_pages = 1, hp_root = 0\<rparr>
   in \<exists>p s s' q s''. alloc cfg 100 s0 = Some (Returns (p, s)) \<and> free cfg p s = Some (Returns s')
     \<and> alloc cfg 100 s' = Some (Returns (q, s'')) \<and> hp_pages s'' = hp_pages s"
proof -
  define cfg where "cfg = \<lparr>heap_base = 16, low_memory_limit = 0, can_grow = (\<lambda>pages delta. False)\<rparr>"
  define s0 where "s0 = \<lparr>hp_mem = (\<lambda>a. 0), hp_pages = 1, hp_root = 0\<rparr>"
  have ok: "config_ok cfg" by (simp add: config_ok_def cfg_def)
  obtain m where m: "ensure cfg s0 = Some (Returns (s0\<lparr>hp_mem := m, hp_root := 16\<rparr>))"
    using first_use[of cfg s0] by (auto simp: cfg_def s0_def)
  obtain s1 bs where s1: "initialize cfg s0 = Some (Returns s1)" "managed cfg s1 bs" "bs = first_blocks (hp_root s1 + 1580) (65536 * hp_pages s1)"
    using initialize_spec[OF ok, of s0] m by (auto simp: cfg_def s0_def ensure_def)
  then have "s1 = s0\<lparr>hp_mem := m, hp_root := 16\<rparr>" using m by (simp add: ensure_def s0_def)
  then have big: "(1596, 63932) \<in> frees bs" using s1(3) by (simp add: first_blocks_def s0_def frees_def)
  have size: "computeSize 100 = 108" by (simp add: computeSize_def tlsf_numbers u32_small align_bits)
  have cls: "class_of (mapping_search 108) \<le> class_of (mapping_insert 63932)" by code_simp
  obtain b s bs' where b: "allocateBlock cfg 100 s1 = Some (Returns (b, s))" "managed cfg s bs'" "(b + 4, 108) \<in> live_blocks bs'"
    using allocateBlock_found[OF s1(2) _ _ big, of 100] cls by (auto simp: size)
  have "alloc cfg 100 s0 = Some (Returns (b + 4, s))" using b(1) s1(1) m by (simp add: alloc_def ensure_def s0_def tlsf_numbers)
  moreover have "tlsf_inv cfg s (live_blocks bs')" using ok b(2) by (auto simp: tlsf_inv_def)
  then have "\<exists>s' q s''. free cfg (b + 4) s = Some (Returns s') \<and> alloc cfg 100 s' = Some (Returns (q, s'')) \<and> hp_pages s'' = hp_pages s"
    by (rule tlsf_reuses[OF _ b(3)]) (simp_all add: size tlsf_numbers)
  ultimately show ?thesis unfolding cfg_def s0_def Let_def by blast
qed


section \<open>Good fit\<close>

text \<open>
  C12. The search is a good fit: every list from the one it starts at holds only blocks that are large enough, every block
  that holds the rounded size is in one of these lists, and rounding adds less than a sixteenth of the size. The lists exist.
\<close>

theorem tlsf_good_fit:
  assumes sz: "12 \<le> sz" "sz mod 16 = 12" "sz < drop_bit 1 BLOCK_MAXSIZE" and t: "12 \<le> t" "t mod 16 = 12"
    and q: "q = (if sz \<ge> SB_SIZE then roundSize sz else sz)"
  shows "(class_of (mapping_search sz) \<le> class_of (mapping_insert t) \<longrightarrow> sz \<le> t)
    \<and> (q \<le> t \<longrightarrow> class_of (mapping_search sz) \<le> class_of (mapping_insert t))
    \<and> sz \<le> q \<and> 16 * (q - sz) < sz
    \<and> fst (mapping_search sz) < FL_BITS \<and> snd (mapping_search sz) < SL_SIZE
    \<and> fst (mapping_insert t) < FL_BITS \<and> snd (mapping_insert t) < SL_SIZE"
proof (intro conjI impI)
  note search = search_size[OF sz(1,3) q]
  show "sz \<le> t" if "class_of (mapping_search sz) \<le> class_of (mapping_insert t)" by (rule search_fits[OF sz t that])
  show "class_of (mapping_search sz) \<le> class_of (mapping_insert t)" if "q \<le> t"
    unfolding search(1) using search(2) that by (intro class_mono[OF _ _ refl refl]) simp_all
  have "sz \<le> q \<and> 16 * (q - sz) < sz"
  proof (cases "sz < 256")
    case False
    then obtain p where p: "8 \<le> p" "2 ^ p \<le> sz" "roundSize sz = sz + 2 ^ (p - 4) - 1"
      using rounded[of sz] sz(3) by (metis linorder_not_less)
    have "(2 :: int) ^ p = 2 ^ (p - 4 + 4)" using p(1) by simp
    also have "\<dots> = 16 * 2 ^ (p - 4)" unfolding power_add by simp
    finally have "16 * 2 ^ (p - 4) \<le> sz" using p(2) by simp
    moreover have "(0 :: int) < 2 ^ (p - 4)" by simp
    ultimately show ?thesis using False p(3) q by (simp add: tlsf_numbers)
  qed (use sz(1) q in \<open>simp add: tlsf_numbers\<close>)
  then show "sz \<le> q" "16 * (q - sz) < sz" by blast+
  obtain fl sl where s: "mapping_search sz = (fl, sl)" by fastforce
  show "fst (mapping_search sz) < FL_BITS" "snd (mapping_search sz) < SL_SIZE"
    using search_range[OF sz(1,3) s] s by (simp_all add: tlsf_numbers)
  obtain fi si where i: "mapping_insert t = (fi, si)" by fastforce
  show "fst (mapping_insert t) < FL_BITS" "snd (mapping_insert t) < SL_SIZE"
    using class_bounds[OF _ i] t(1) i by (simp_all add: tlsf_numbers)
qed

lemma tlsf_good_fit_witness:
  "\<not> class_of (mapping_search 268) \<le> class_of (mapping_insert 252) \<and> class_of (mapping_search 268) \<le> class_of (mapping_insert 284)"
proof -
  have q: "roundSize 268 = 283" "SB_SIZE = 256" "drop_bit (Suc 0) BLOCK_MAXSIZE = 536870910" by code_simp+
  show ?thesis using tlsf_good_fit[of 268 252 283] tlsf_good_fit[of 268 284 283] by (simp add: q)
qed


section \<open>Large requests\<close>

text \<open>
  From half of the maximal size on the search does not round: the head of the list that it finds can be smaller than the
  request, and the assertion behind it fails although the memory could grow.
\<close>

lemma large_request_aborts:
  assumes "cfg = \<lparr>heap_base = 16, low_memory_limit = 0, can_grow = (\<lambda>pages delta. pages + delta \<le> 65536)\<rparr>"
    and "s = \<lparr>hp_mem = (\<lambda>a. 0), hp_pages = 8200, hp_root = 0\<rparr>"
  shows "alloc cfg 537394000 s = None"
proof -
  let ?e = "65536 * 8200 :: int" and ?t = 537393596
  have blocks: "first_blocks (16 + 1580) ?e = [(1596, ?t, True), (?e - 4, 0, False)]" by (simp add: first_blocks_def)
  from first_use[of cfg s] obtain m where ensured: "ensure cfg s = Some (Returns \<lparr>hp_mem = m, hp_pages = 8200, hp_root = 16\<rparr>)"
    and m: "heap_ok m 16 (16 + 1580) [(1596, ?t, True), (?e - 4, 0, False)] ?e" using blocks unfolding assms by auto
  let ?s = "\<lparr>hp_mem = m, hp_pages = 8200, hp_root = 16\<rparr>"
  have size: "prepareSize 537394000 = Some (Returns 537394012)"
    by (simp add: prepareSize_def computeSize_def tlsf_numbers u32_small align_bits)
  have cls: "mapping_search 537394012 = (22, 0)" "mapping_insert ?t = (22, 0)" by code_simp+
  obtain L where L: "lists_ok m 16 L {(1596, ?t)}" and info: "m 1596 = info ?t True False" using m by (auto simp: heap_ok_def frees_append)
  have "set (L 22 i) = {b. b = 1596 \<and> i = 0}" if "i < 16" for i using L that cls(2) by (auto simp: lists_ok_def)
  then have list: "L 22 0 \<noteq> []" "set (L 22 0) = {1596}" by (auto, force)
  have "seg m 0 (L 22 0) (GETHEAD m 16 22 0) 0" using L by (simp add: lists_ok_def)
  then have head: "GETHEAD m 16 22 0 = 1596" using list by (cases "L 22 0") auto
  have bit0: "bit (GETSL m 16 22) 0" using L list by (simp add: lists_ok_def)
  then have "GETSL m 16 22 \<noteq> 0" "ctz 32 (GETSL m 16 22) = 0" using ctz_bit[of _ 0 32] by auto
  then have "searchBlock 16 537394012 m = Some 1596" by (simp add: searchBlock_def cls(1) tlsf_numbers Let_def head)
  moreover have "m 1596 AND NOT TAGS_MASK = ?t" unfolding info by (rule info_size) simp
  ultimately have "allocateBlock cfg 537394000 ?s = None" by (simp add: allocateBlock_def size)
  then show ?thesis by (simp add: alloc_def ensured)
qed

end
