(* ===== verification/As_Stub.thy ===== *)
theory As_Stub
  imports As_Tlsf_Heap
begin

unbundle bit_operations_syntax

text \<open>
  \<open>std/rt/stub.ts\<close>, the minimal runtime: blocks are laid one behind the other, and only the last one is given back. It
  keeps the contract of a memory manager in memories of up to two gigabytes. Beyond three the end of a block can wrap around.
\<close>

section \<open>State and operations\<close>

record stub =
  st_mem :: memory
  st_pages :: int
  st_offset :: int

definition startOffset :: "config \<Rightarrow> int" where
  "startOffset cfg = u32 (align_up (u32 (heap_base cfg + BLOCK_OVERHEAD)) - BLOCK_OVERHEAD)"

definition maybeGrowMemory :: "config \<Rightarrow> int \<Rightarrow> stub \<Rightarrow> stub outcome option" where
  "maybeGrowMemory cfg newOffset s =
     (let pagesBefore = st_pages s;
          maxOffset = align_up (u32 (push_bit 16 pagesBefore))
      in if newOffset > maxOffset then
           (let pagesNeeded = drop_bit 16 (u32 (newOffset - maxOffset + 0xFFFF) AND NOT 0xFFFF);
                pagesWanted = max pagesBefore pagesNeeded
            in if can_grow cfg pagesBefore pagesWanted then
                 Some (Returns (s\<lparr>st_pages := pagesBefore + pagesWanted, st_offset := newOffset\<rparr>))
               else if can_grow cfg pagesBefore pagesNeeded then
                 Some (Returns (s\<lparr>st_pages := pagesBefore + pagesNeeded, st_offset := newOffset\<rparr>))
               else Some Unreachable)
         else Some (Returns (s\<lparr>st_offset := newOffset\<rparr>)))"

definition stub_computeSize :: "int \<Rightarrow> int" where
  "stub_computeSize sz = u32 ((u32 (sz + BLOCK_OVERHEAD + AL_MASK) AND NOT AL_MASK) - BLOCK_OVERHEAD)"

definition set_info :: "int \<Rightarrow> int \<Rightarrow> stub \<Rightarrow> stub" where
  "set_info block payloadSize s = s\<lparr>st_mem := (st_mem s)(block := payloadSize)\<rparr>"

definition stub_alloc :: "config \<Rightarrow> int \<Rightarrow> stub \<Rightarrow> (int \<times> stub) outcome option" where
  "stub_alloc cfg sz s =
     (if sz > BLOCK_MAXSIZE then Some (Throws E_ALLOCATION_TOO_LARGE)
      else
        (let block = st_offset s;
             ptr = u32 (st_offset s + BLOCK_OVERHEAD);
             payloadSize = stub_computeSize sz
         in continue (maybeGrowMemory cfg (u32 (ptr + payloadSize)) s) (\<lambda>s. Some (Returns (ptr, set_info block payloadSize s)))))"

definition stub_realloc :: "config \<Rightarrow> int \<Rightarrow> int \<Rightarrow> stub \<Rightarrow> (int \<times> stub) outcome option" where
  "stub_realloc cfg ptr sz s =
     (if \<not> (ptr \<noteq> 0 \<and> ptr AND AL_MASK = 0) then None
      else
        (let block = u32 (ptr - BLOCK_OVERHEAD);
             actualSize = st_mem s block;
             isLast = u32 (ptr + actualSize) = st_offset s;
             payloadSize = stub_computeSize sz
         in if sz > actualSize then
              (if isLast then
                 (if sz > BLOCK_MAXSIZE then Some (Throws E_ALLOCATION_TOO_LARGE)
                  else continue (maybeGrowMemory cfg (u32 (ptr + payloadSize)) s)
                    (\<lambda>s. Some (Returns (ptr, set_info block payloadSize s))))
               else continue (stub_alloc cfg (max payloadSize (u32 (push_bit 1 actualSize))) s)
                 (\<lambda>(newPtr, s). Some (Returns (newPtr, s\<lparr>st_mem := memory_copy newPtr ptr actualSize (st_mem s)\<rparr>))))
            else if isLast then
              Some (Returns (ptr, set_info block payloadSize (s\<lparr>st_offset := u32 (ptr + payloadSize)\<rparr>)))
            else Some (Returns (ptr, s))))"

definition stub_free :: "int \<Rightarrow> stub \<Rightarrow> stub outcome option" where
  "stub_free ptr s =
     (if \<not> (ptr \<noteq> 0 \<and> ptr AND AL_MASK = 0) then None
      else
        (let block = u32 (ptr - BLOCK_OVERHEAD)
         in Some (Returns (if u32 (ptr + st_mem s block) = st_offset s then s\<lparr>st_offset := block\<rparr> else s))))"

definition stub_reset :: "config \<Rightarrow> stub \<Rightarrow> stub" where
  "stub_reset cfg s = s\<lparr>st_offset := startOffset cfg\<rparr>"

text \<open>Objects: a header of four words before the payload, the last two of them the class and the size.\<close>

definition stub_new :: "config \<Rightarrow> int \<Rightarrow> int \<Rightarrow> stub \<Rightarrow> (int \<times> stub) outcome option" where
  "stub_new cfg sz rt_id s =
     (if sz > OBJECT_MAXSIZE then Some (Throws E_ALLOCATION_TOO_LARGE)
      else continue (stub_alloc cfg (u32 (OBJECT_OVERHEAD + sz)) s)
        (\<lambda>(ptr, s). Some (Returns (u32 (ptr + OBJECT_OVERHEAD),
           s\<lparr>st_mem := (st_mem s)(ptr := 0, ptr + 4 := 0, ptr + 8 := rt_id, ptr + 12 := sz)\<rparr>))))"

definition stub_renew :: "config \<Rightarrow> int \<Rightarrow> int \<Rightarrow> stub \<Rightarrow> (int \<times> stub) outcome option" where
  "stub_renew cfg oldPtr sz s =
     (if sz > OBJECT_MAXSIZE then Some (Throws E_ALLOCATION_TOO_LARGE)
      else continue (stub_realloc cfg (u32 (oldPtr - OBJECT_OVERHEAD)) (u32 (OBJECT_OVERHEAD + sz)) s)
        (\<lambda>(ptr, s). Some (Returns (u32 (ptr + OBJECT_OVERHEAD), s\<lparr>st_mem := (st_mem s)(ptr + 12 := sz)\<rparr>))))"

definition stub_operations :: "config \<Rightarrow> stub operations" where
  "stub_operations cfg = \<lparr>op_mem = st_mem, op_pages = st_pages, op_put = (\<lambda>m s. s\<lparr>st_mem := m\<rparr>), op_alloc = stub_alloc cfg,
     op_realloc = stub_realloc cfg, op_free = stub_free\<rparr>"

section \<open>The invariant\<close>

text \<open>The engine grows the memory up to two gigabytes.\<close>

definition stub_config_ok :: "config \<Rightarrow> bool" where
  "stub_config_ok cfg \<longleftrightarrow> 0 < heap_base cfg \<and> heap_base cfg < 2 ^ 31
     \<and> (\<forall>pages delta. can_grow cfg pages delta \<longrightarrow> pages + delta \<le> 32768)"

text \<open>The blocks up to the offset, with those that were given up in between, and their sizes in front of them.\<close>

definition stub_blocks :: "config \<Rightarrow> stub \<Rightarrow> blk list \<Rightarrow> bool" where
  "stub_blocks cfg s bs \<longleftrightarrow> tiles (startOffset cfg) bs (st_offset s) \<and> list_all sized bs
     \<and> (\<forall>(x, k, f)\<in>set bs. st_mem s x = k \<and> 12 \<le> k) \<and> (bs = [] \<or> st_offset s \<le> 65536 * st_pages s)
     \<and> 0 \<le> st_pages s \<and> st_pages s \<le> 32768"

definition stub_inv :: "config \<Rightarrow> stub \<Rightarrow> (int \<times> int) set \<Rightarrow> bool" where
  "stub_inv cfg s U \<longleftrightarrow> stub_config_ok cfg \<and> (\<exists>bs. stub_blocks cfg s bs \<and> U = live_blocks bs)"

lemma startOffset_bounds: "stub_config_ok cfg \<Longrightarrow> heap_base cfg \<le> startOffset cfg \<and> startOffset cfg \<le> 2 ^ 31 + 19 \<and> aligned (startOffset cfg)"
proof -
  assume "stub_config_ok cfg"
  then have hb: "0 < heap_base cfg" "heap_base cfg < 2 ^ 31" by (simp_all add: stub_config_ok_def)
  define r where "r = (heap_base cfg + 4 + 15) mod 16"
  have up: "align_up (u32 (heap_base cfg + BLOCK_OVERHEAD)) = heap_base cfg + 4 + 15 - r"
    using hb align_up_mod[of "heap_base cfg + 4"] by (simp add: u32_small tlsf_numbers r_def)
  have r: "0 \<le> r" "r < 16" by (simp_all add: r_def)
  have start: "startOffset cfg = heap_base cfg + 15 - r" using up r hb by (simp add: startOffset_def tlsf_numbers u32_small)
  have "(heap_base cfg + 4 + 15 - r) mod 16 = 0" unfolding r_def by (simp add: minus_mod_eq_mult_div)
  then have "(heap_base cfg + 4 + 15 - r - 4) mod 16 = (0 - 4) mod 16" by (intro mod_diff_cong) simp_all
  moreover have "heap_base cfg + 4 + 15 - r - 4 = startOffset cfg" using start by simp
  ultimately have "aligned (startOffset cfg)" by (simp only: aligned_def) simp
  then show ?thesis using start r hb by simp
qed

lemma next_aligned: "aligned x \<Longrightarrow> k mod 16 = 12 \<Longrightarrow> aligned (x + 4 + k)"
proof -
  assume "aligned x" "k mod 16 = 12"
  then have "(x + 4 + k) mod 16 = (12 + 4 + 12) mod 16" unfolding aligned_def by (intro mod_add_cong) simp_all
  then show ?thesis by (simp add: aligned_def)
qed

lemma tiles_aligned: "tiles a bs e \<Longrightarrow> list_all sized bs \<Longrightarrow> aligned a \<Longrightarrow> (\<forall>(x, k, f)\<in>set bs. 12 \<le> k) \<Longrightarrow> aligned e"
proof (induction bs arbitrary: a)
  case (Cons B bs)
  obtain x k f where B: "B = (x, k, f)" by (cases B) auto
  then have "k mod 16 = 12" "x = a" using Cons.prems by auto
  then show ?case using Cons B next_aligned by auto
qed simp

lemma tiles_end: "tiles a bs a \<Longrightarrow> list_all sized bs \<Longrightarrow> bs = []"
proof (cases bs)
  case (Cons B rest)
  assume t: "tiles a bs a" "list_all sized bs"
  obtain x k f where B: "B = (x, k, f)" by (cases B) auto
  then have "tiles (a + 4 + k) rest a" "0 \<le> k" "list_all sized rest" using t Cons sized_nonneg by auto
  then show ?thesis using tiles_bounds[of "a + 4 + k" rest a] by simp
qed simp

lemma stub_facts:
  assumes "stub_config_ok cfg" "stub_blocks cfg s bs"
  shows "aligned (st_offset s)" "0 < st_offset s" "st_offset s \<le> 2 ^ 31 + 19" "0 < startOffset cfg"
    "(x, k, f) \<in> set bs \<Longrightarrow> aligned x \<and> startOffset cfg \<le> x \<and> x + 4 + k \<le> st_offset s \<and> 12 \<le> k \<and> k mod 16 = 12 \<and> st_mem s x = k"
proof -
  have t: "tiles (startOffset cfg) bs (st_offset s)" "list_all sized bs" "\<forall>(x, k, f)\<in>set bs. st_mem s x = k \<and> 12 \<le> k"
    "bs = [] \<or> st_offset s \<le> 65536 * st_pages s" "st_pages s \<le> 32768"
    using assms(2) by (simp_all add: stub_blocks_def)
  note start = startOffset_bounds[OF assms(1)] and b = tiles_bounds[OF t(1,2)]
  show "0 < startOffset cfg" using start assms(1) by (simp add: stub_config_ok_def)
  then show "0 < st_offset s" using b by simp
  show "aligned (st_offset s)" by (rule tiles_aligned[OF t(1,2)]) (use start t(3) in auto)
  show "st_offset s \<le> 2 ^ 31 + 19"
  proof (cases "bs = []")
    case True
    then show ?thesis using t(1) start by simp
  next
    case False
    then show ?thesis using t(4,5) by simp
  qed
  show "(x, k, f) \<in> set bs \<Longrightarrow> aligned x \<and> startOffset cfg \<le> x \<and> x + 4 + k \<le> st_offset s \<and> 12 \<le> k \<and> k mod 16 = 12 \<and> st_mem s x = k"
  proof -
    assume mem: "(x, k, f) \<in> set bs"
    then have "sized (x, k, f)" "12 \<le> k" "st_mem s x = k" using t(2,3) by (auto simp: list_all_iff)
    then show ?thesis using b mem by auto
  qed
qed


section \<open>The laws\<close>

lemma stub_size:
  assumes "0 \<le> n" "n \<le> BLOCK_MAXSIZE"
  shows "12 \<le> stub_computeSize n" "stub_computeSize n mod 16 = 12" "n \<le> stub_computeSize n" "stub_computeSize n < n + 16"
proof -
  define r where "r = (n + 19) mod 16"
  have r: "0 \<le> r" "r < 16" by (simp_all add: r_def)
  have n: "n \<le> 1073741820" using assms(2) by (simp add: tlsf_numbers)
  have "u32 (n + 4 + 15) = n + 19" using assms(1) n by (simp add: u32_small)
  then have eq: "stub_computeSize n = u32 (n + 19 - r - 4)" unfolding stub_computeSize_def tlsf_numbers align_bits r_def by simp
  have m: "(n + 19 - r) mod 16 = 0" unfolding r_def by (simp add: minus_mod_eq_mult_div)
  have "16 \<le> n + 19 - r"
  proof -
    have "3 < n + 19 - r" using assms(1) r by simp
    then show ?thesis using m by presburger
  qed
  then have c: "stub_computeSize n = n + 19 - r - 4" unfolding eq using n r by (intro u32_small) simp_all
  have "(n + 19 - r - 4) mod 16 = (0 - 4) mod 16" using m by (intro mod_diff_cong) simp_all
  then show "stub_computeSize n mod 16 = 12" unfolding c by simp
  show "12 \<le> stub_computeSize n" unfolding c using \<open>16 \<le> n + 19 - r\<close> by simp
  show "n \<le> stub_computeSize n" "stub_computeSize n < n + 16" unfolding c using r by simp_all
qed

lemma grow_spec:
  assumes cfg: "stub_config_ok cfg" and s: "0 \<le> st_pages s" "st_pages s \<le> 32768" and new: "0 < new" "new + 65536 < 2 ^ 32"
  shows "maybeGrowMemory cfg new s = Some Unreachable \<or>
    (\<exists>pages. maybeGrowMemory cfg new s = Some (Returns (s\<lparr>st_pages := pages, st_offset := new\<rparr>))
      \<and> st_pages s \<le> pages \<and> pages \<le> 32768 \<and> new \<le> 65536 * pages)"
proof -
  let ?p = "st_pages s"
  have max: "align_up (u32 (push_bit 16 ?p)) = 65536 * ?p"
  proof -
    have "(65536 * ?p + 15) mod 16 = (0 + 15) mod 16" using pages_mod by (intro mod_add_cong) simp_all
    moreover have "u32 (push_bit 16 ?p) = 65536 * ?p" using s by (subst u32_small) (simp_all add: push_bit_eq_mult)
    ultimately show ?thesis using s align_up_mod[of "65536 * ?p"] by simp
  qed
  show ?thesis
  proof (cases "new > 65536 * ?p")
    case False
    then have "maybeGrowMemory cfg new s = Some (Returns (s\<lparr>st_offset := new\<rparr>))" by (simp add: maybeGrowMemory_def max)
    then show ?thesis using False s by (intro disjI2 exI[of _ ?p]) simp
  next
    case True
    define d where "d = (new - 65536 * ?p + 65535) div 65536"
    have x: "0 \<le> new - 65536 * ?p" "new - 65536 * ?p + 65535 < 2 ^ 32" using True new s by simp_all
    note d = page_count(1,2)[OF x, folded d_def]
    have "0 < d" using True by (simp add: d_def)
    define pages where "pages = (if can_grow cfg ?p (max ?p d) then ?p + max ?p d else ?p + d)"
    show ?thesis
    proof (cases "can_grow cfg ?p (max ?p d) \<or> can_grow cfg ?p d")
      case no: False
      then have "maybeGrowMemory cfg new s = Some Unreachable" using True unfolding maybeGrowMemory_def Let_def max d(1) by simp
      then show ?thesis ..
    next
      case grown: True
      then have "pages \<le> 32768" "?p + d \<le> pages" using cfg by (auto simp: pages_def stub_config_ok_def)
      moreover have "maybeGrowMemory cfg new s = Some (Returns (s\<lparr>st_pages := pages, st_offset := new\<rparr>))"
        using True grown unfolding maybeGrowMemory_def Let_def max d(1) pages_def by auto
      moreover have "new \<le> 65536 * pages" using d(2) \<open>?p + d \<le> pages\<close> by simp
      ultimately show ?thesis using \<open>0 < d\<close> by (intro disjI2 exI[of _ pages]) simp
    qed
  qed
qed

text \<open>The last block is laid behind the others, or gets another size.\<close>

lemma lay_block:
  assumes cfg: "stub_config_ok cfg" and tiles: "tiles (startOffset cfg) pre x" and all: "list_all sized pre"
    and old: "\<forall>(y, k, f)\<in>set pre. m y = k \<and> 12 \<le> k" and c: "aligned x" "12 \<le> c" "c mod 16 = 12"
    and new: "st_mem s' = m(x := c)" "st_offset s' = x + 4 + c" "x + 4 + c \<le> 65536 * st_pages s'" "0 \<le> st_pages s'" "st_pages s' \<le> 32768"
  shows "stub_blocks cfg s' (pre @ [(x, c, False)])" "live_blocks (pre @ [(x, c, False)]) = insert (x + 4, c) (live_blocks pre)"
    "same_payloads (live_blocks pre) m (st_mem s')" "(p, k) \<in> live_blocks pre \<Longrightarrow> p + k \<le> x"
proof -
  have b: "\<forall>(y, k, f)\<in>set pre. y + 4 + k \<le> x" using tiles_bounds[OF tiles all] by auto
  show "stub_blocks cfg s' (pre @ [(x, c, False)])"
  proof -
    have "st_mem s' y = k \<and> 12 \<le> k" if "(y, k, f) \<in> set pre" for y k f
      using bspec[OF old that] bspec[OF b that] by (auto simp: new(1))
    then show ?thesis using tiles all c new by (auto simp: stub_blocks_def tiles_append)
  qed
  show "live_blocks (pre @ [(x, c, False)]) = insert (x + 4, c) (live_blocks pre)" using c(2) by (simp add: live_append)
  show below: "(p, k) \<in> live_blocks pre \<Longrightarrow> p + k \<le> x" for p k using b by (auto simp: live_blocks_def)
  then show "same_payloads (live_blocks pre) m (st_mem s')" unfolding same_payloads_def new(1) by fastforce
qed

lemma stub_alloc_law:
  assumes cfg: "stub_config_ok cfg" and bs: "stub_blocks cfg s bs" and n: "0 \<le> n" "n \<le> BLOCK_MAXSIZE"
  shows "stub_alloc cfg n s = Some Unreachable \<or>
    (\<exists>s'. stub_alloc cfg n s = Some (Returns (st_offset s + 4, s')) \<and> stub_blocks cfg s' (bs @ [(st_offset s, stub_computeSize n, False)])
      \<and> same_payloads (live_blocks bs) (st_mem s) (st_mem s') \<and> (\<forall>(p, k)\<in>live_blocks bs. p + k \<le> st_offset s))"
proof -
  let ?o = "st_offset s" and ?c = "stub_computeSize n"
  note f = stub_facts[OF cfg bs] and c = stub_size[OF n]
  have n': "n \<le> 1073741820" using n(2) by (simp add: tlsf_numbers)
  have ptr: "u32 (?o + BLOCK_OVERHEAD) = ?o + 4" "u32 (?o + 4 + ?c) = ?o + 4 + ?c" using f(2,3) c(1,4) n' by (simp_all add: tlsf_numbers u32_small)
  have p: "0 \<le> st_pages s" "st_pages s \<le> 32768" using bs by (simp_all add: stub_blocks_def)
  have eq: "stub_alloc cfg n s = continue (maybeGrowMemory cfg (?o + 4 + ?c) s) (\<lambda>s. Some (Returns (?o + 4, set_info ?o ?c s)))" for s'
    using n(2) by (simp add: stub_alloc_def Let_def ptr)
  have "0 < ?o + 4 + ?c" "?o + 4 + ?c + 65536 < 2 ^ 32" using f(2,3) c(1,4) n' by simp_all
  from grow_spec[OF cfg p this] show ?thesis
  proof (elim disjE exE conjE)
    fix pages
    assume g: "maybeGrowMemory cfg (?o + 4 + ?c) s = Some (Returns (s\<lparr>st_pages := pages, st_offset := ?o + 4 + ?c\<rparr>))"
      "st_pages s \<le> pages" "pages \<le> 32768" "?o + 4 + ?c \<le> 65536 * pages"
    let ?s = "set_info ?o ?c (s\<lparr>st_pages := pages, st_offset := ?o + 4 + ?c\<rparr>)"
    have old: "tiles (startOffset cfg) bs ?o" "list_all sized bs" "\<forall>(y, k, f)\<in>set bs. st_mem s y = k \<and> 12 \<le> k"
      using bs by (simp_all add: stub_blocks_def)
    note l = lay_block[OF cfg old f(1) c(1,2), of ?s]
    have "stub_alloc cfg n s = Some (Returns (?o + 4, ?s))" unfolding eq g(1) by simp
    moreover have "stub_blocks cfg ?s (bs @ [(?o, ?c, False)])" by (rule l(1)) (use g p in \<open>simp_all add: set_info_def\<close>)
    moreover have "same_payloads (live_blocks bs) (st_mem s) (st_mem ?s)" by (rule l(3)) (use g p in \<open>simp_all add: set_info_def\<close>)
    moreover have "\<forall>(p, k)\<in>live_blocks bs. p + k \<le> ?o" using tiles_bounds[OF old(1,2)] by (auto simp: live_blocks_def)
    ultimately show ?thesis by blast
  qed (simp add: eq)
qed

lemma stub_pointer:
  assumes cfg: "stub_config_ok cfg" and bs: "stub_blocks cfg s bs" and live: "(p, k) \<in> live_blocks bs"
  obtains pre post where "bs = pre @ (p - 4, k, False) # post" "live_blocks bs - {(p, k)} = live_blocks pre \<union> live_blocks post"
    "p + k = st_offset s \<longleftrightarrow> post = []" "tiles (startOffset cfg) pre (p - 4)" "p mod 16 = 0" "4 < p" "12 \<le> k" "k mod 16 = 12"
    "st_mem s (p - 4) = k" "p + k \<le> st_offset s" "u32 (p - 4) = p - 4" "u32 (p + k) = p + k" "\<not> (\<not> (p \<noteq> 0 \<and> p AND AL_MASK = 0))"
proof -
  have x: "(p - 4, k, False) \<in> set bs" using live by (auto simp: live_blocks_def)
  then obtain pre post where split: "bs = pre @ (p - 4, k, False) # post" by (meson split_list)
  note f = stub_facts[OF cfg bs] and x' = stub_facts(5)[OF cfg bs x]
  have t: "tiles (startOffset cfg) bs (st_offset s)" "list_all sized pre" "list_all sized post" using bs split by (simp_all add: stub_blocks_def)
  then have t': "tiles (startOffset cfg) pre (p - 4)" "tiles (p - 4 + 4 + k) post (st_offset s)" by (auto simp: split tiles_append)
  have "(p, k) \<notin> live_blocks pre" using tiles_bounds[OF t'(1) t(2)] x' by (auto simp: live_blocks_def)
  moreover have "(p, k) \<notin> live_blocks post" using tiles_bounds[OF t'(2) t(3)] x' by (auto simp: live_blocks_def)
  moreover have "k \<noteq> 0" using x' by simp
  ultimately have "live_blocks bs - {(p, k)} = live_blocks pre \<union> live_blocks post" by (simp add: split live_append)
  moreover have "p + k = st_offset s \<longleftrightarrow> post = []"
  proof
    assume "p + k = st_offset s"
    then have "tiles (st_offset s) post (st_offset s)" using t'(2) by simp
    then show "post = []" using tiles_end t(3) by blast
  qed (use t'(2) in simp)
  moreover have "(p - 4 + 4) mod 16 = (12 + 4) mod 16" using x' unfolding aligned_def by (intro mod_add_cong) simp_all
  then have p16: "p mod 16 = 0" by simp
  moreover have "p AND AL_MASK = 0" using p16 by (simp add: tlsf_numbers align_bits)
  moreover have "4 < p" "u32 (p - 4) = p - 4" "u32 (p + k) = p + k" using x' f(3,4) by (simp_all add: u32_small)
  ultimately show thesis using that split t'(1) x' by simp
qed


lemma last_block:
  assumes cfg: "stub_config_ok cfg" and bs: "stub_blocks cfg s (pre @ [(p - 4, k, False)])" and "p mod 16 = 0" "4 < p"
    and c: "12 \<le> c" "c mod 16 = 12" and s': "st_mem s' = (st_mem s)(p - 4 := c)" "st_offset s' = p + c"
    "p + c \<le> 65536 * st_pages s'" "0 \<le> st_pages s'" "st_pages s' \<le> 32768"
  shows "stub_blocks cfg s' (pre @ [(p - 4, c, False)])" "same_payloads (live_blocks pre) (st_mem s) (st_mem s')"
    "copied (st_mem s) p (st_mem s') p n" "live_blocks (pre @ [(p - 4, c, False)]) = insert (p, c) (live_blocks pre)"
proof -
  have old: "tiles (startOffset cfg) pre (p - 4)" "list_all sized pre" "\<forall>(y, k, f)\<in>set pre. st_mem s y = k \<and> 12 \<le> k" "aligned (p - 4)"
    using bs by (auto simp: stub_blocks_def tiles_append)
  note l = lay_block[OF cfg old c, of s']
  show "stub_blocks cfg s' (pre @ [(p - 4, c, False)])" by (rule l(1)) (use s' in simp_all)
  show "same_payloads (live_blocks pre) (st_mem s) (st_mem s')" by (rule l(3)) (use s' in simp_all)
  show "copied (st_mem s) p (st_mem s') p n" by (auto simp: copied_def s'(1))
  show "live_blocks (pre @ [(p - 4, c, False)]) = insert (p, c) (live_blocks pre)" using c by (simp add: live_append)
qed

lemma give_up: "stub_blocks cfg s (pre @ (x, k, False) # post) \<Longrightarrow> stub_blocks cfg s (pre @ (x, k, True) # post)"
  by (auto simp: stub_blocks_def tiles_append)

lemma stub_moved:
  assumes cfg: "stub_config_ok cfg" and bs: "stub_blocks cfg s bs" and live: "(p, k) \<in> live_blocks bs"
    and c: "0 \<le> c" "c \<le> BLOCK_MAXSIZE" "k \<le> c"
  shows "continue (stub_alloc cfg c s) (\<lambda>(q, s). Some (Returns (q, s\<lparr>st_mem := memory_copy q p k (st_mem s)\<rparr>))) = Some Unreachable \<or>
    (\<exists>q j s' bs'. continue (stub_alloc cfg c s) (\<lambda>(q, s). Some (Returns (q, s\<lparr>st_mem := memory_copy q p k (st_mem s)\<rparr>))) = Some (Returns (q, s'))
      \<and> stub_blocks cfg s' bs' \<and> live_blocks bs' = insert (q, j) (live_blocks bs - {(p, k)}) \<and> q \<notin> fst ` (live_blocks bs - {(p, k)}) \<and> c \<le> j
      \<and> same_payloads (live_blocks bs - {(p, k)}) (st_mem s) (st_mem s') \<and> copied (st_mem s) p (st_mem s') q (min k j))"
proof -
  obtain pre post where b: "bs = pre @ (p - 4, k, False) # post" "live_blocks bs - {(p, k)} = live_blocks pre \<union> live_blocks post" "12 \<le> k"
    by (rule stub_pointer[OF cfg bs live])
  let ?q = "st_offset s + 4" and ?j = "stub_computeSize c" and ?U = "live_blocks bs - {(p, k)}"
  note j = stub_size[OF c(1,2)]
  from stub_alloc_law[OF cfg bs c(1,2)] show ?thesis
  proof (elim disjE exE conjE)
    fix s1
    assume a: "stub_alloc cfg c s = Some (Returns (?q, s1))" "stub_blocks cfg s1 (bs @ [(st_offset s, ?j, False)])"
      "same_payloads (live_blocks bs) (st_mem s) (st_mem s1)" "\<forall>(p, k)\<in>live_blocks bs. p + k \<le> st_offset s"
    let ?m = "memory_copy ?q p k (st_mem s1)" and ?bs = "pre @ (p - 4, k, True) # post @ [(st_offset s, ?j, False)]"
    let ?s = "s1\<lparr>st_mem := ?m\<rparr>"
    have below: "?m a = st_mem s1 a" if "a < ?q" for a using that by (simp add: memory_copy_def)
    have s1: "stub_blocks cfg s1 ?bs" using give_up[of cfg s1 pre "p - 4" k "post @ [(st_offset s, ?j, False)]"] a(2) b(1) by simp
    have kept: "?m x = st_mem s1 x" if xm: "(x, i, f) \<in> set ?bs" for x i f
    proof (rule below)
      consider "x = p - 4 \<and> i = k" | "(x, i, f) \<in> set bs" | "x = st_offset s" using xm b(1) by auto
      then have "x \<le> st_offset s" using stub_facts(5)[OF cfg bs, of x i f] stub_facts(5)[OF cfg bs, of "p - 4" k False] b(1,3) by cases auto
      then show "x < ?q" by simp
    qed
    have old: "\<forall>(x, i, f)\<in>set ?bs. st_mem s1 x = i \<and> 12 \<le> i" using s1 unfolding stub_blocks_def by (elim conjE)
    have "?m x = i \<and> 12 \<le> i" if "(x, i, f) \<in> set ?bs" for x i f using kept[OF that] bspec[OF old that] by simp
    then have "\<forall>(x, i, f)\<in>set ?bs. ?m x = i \<and> 12 \<le> i" by blast
    then have "stub_blocks cfg ?s ?bs" using s1 by (simp add: stub_blocks_def)
    moreover have "live_blocks ?bs = insert (?q, ?j) ?U" using j(1) b(2) by (auto simp: live_append)
    moreover have "?q \<notin> fst ` ?U"
    proof
      assume "?q \<in> fst ` ?U"
      then obtain i where i: "(?q, i) \<in> live_blocks bs" by (elim imageE) (metis DiffD1 prod.collapse)
      then have "?q + i \<le> st_offset s" using a(4) by auto
      moreover have "0 \<le> i" using i stub_facts(5)[OF cfg bs] by (fastforce simp: live_blocks_def)
      ultimately show False by simp
    qed
    moreover have "same_payloads ?U (st_mem s) ?m"
    proof -
      have "same_payloads (live_blocks bs) (st_mem s1) ?m" unfolding same_payloads_def using a(4) below by fastforce
      then show ?thesis using same_payloads_trans[OF a(3)] same_payloads_mono[of _ _ _ ?U] by blast
    qed
    moreover have "copied (st_mem s) p ?m ?q (min k ?j)"
      using same_payloadsD[OF a(3) live] by (auto simp: copied_def memory_copy_def)
    ultimately show ?thesis using a(1) j(3)
      by (intro disjI2 exI[of _ ?q] exI[of _ ?j] exI[of _ ?s] exI[of _ ?bs]) simp
  qed simp
qed

lemma stub_realloc_law:
  assumes cfg: "stub_config_ok cfg" and bs: "stub_blocks cfg s bs" and live: "(p, k) \<in> live_blocks bs" and n: "0 \<le> n" "n \<le> 2 ^ 29 - 4"
  shows "stub_realloc cfg p n s = Some Unreachable \<or>
    (\<exists>q j s' bs'. stub_realloc cfg p n s = Some (Returns (q, s')) \<and> stub_blocks cfg s' bs'
      \<and> live_blocks bs' = insert (q, j) (live_blocks bs - {(p, k)}) \<and> q \<notin> fst ` (live_blocks bs - {(p, k)}) \<and> n \<le> j
      \<and> same_payloads (live_blocks bs - {(p, k)}) (st_mem s) (st_mem s') \<and> copied (st_mem s) p (st_mem s') q (min k j))"
proof -
  obtain pre post where b: "bs = pre @ (p - 4, k, False) # post" "live_blocks bs - {(p, k)} = live_blocks pre \<union> live_blocks post"
    "p + k = st_offset s \<longleftrightarrow> post = []" "tiles (startOffset cfg) pre (p - 4)" "p mod 16 = 0" "4 < p" "12 \<le> k" "k mod 16 = 12"
    "st_mem s (p - 4) = k" "p + k \<le> st_offset s" "u32 (p - 4) = p - 4" "u32 (p + k) = p + k" "\<not> (\<not> (p \<noteq> 0 \<and> p AND AL_MASK = 0))"
    by (rule stub_pointer[OF cfg bs live])
  let ?c = "stub_computeSize n" and ?U = "live_blocks bs - {(p, k)}"
  have n': "n \<le> BLOCK_MAXSIZE" using n by (simp add: tlsf_numbers)
  note c = stub_size[OF n(1) n'] and f = stub_facts[OF cfg bs]
  have c29: "?c \<le> 2 ^ 29 - 4" using below_12[of ?c "2 ^ 29 + 12"] c n(2) by simp
  have pages: "0 \<le> st_pages s" "st_pages s \<le> 32768" "st_offset s \<le> 65536 * st_pages s" using bs b(1) by (auto simp: stub_blocks_def)
  have fresh: "p \<notin> fst ` ?U"
  proof
    assume "p \<in> fst ` ?U"
    then obtain i where "(p, i) \<in> ?U" by (elim imageE) (metis prod.collapse)
    then have "(p - 4, i, False) \<in> set bs" "(p - 4, k, False) \<in> set bs" "i \<noteq> k" using live by (auto simp: live_blocks_def)
    then show False using stub_facts(5)[OF cfg bs] by metis
  qed
  have pc: "u32 (p + ?c) = p + ?c" using b(6,7,10) f(3) c(1) c29 by (intro u32_small) simp_all
  have eq: "stub_realloc cfg p n s =
    (if n > k then
       (if p + k = st_offset s then continue (maybeGrowMemory cfg (p + ?c) s) (\<lambda>s. Some (Returns (p, set_info (p - 4) ?c s)))
        else continue (stub_alloc cfg (max ?c (u32 (push_bit 1 k))) s)
          (\<lambda>(q, s). Some (Returns (q, s\<lparr>st_mem := memory_copy q p k (st_mem s)\<rparr>))))
     else if p + k = st_offset s then Some (Returns (p, set_info (p - 4) ?c (s\<lparr>st_offset := p + ?c\<rparr>)))
     else Some (Returns (p, s)))"
    using b(9,11,12,13) n' pc by (simp add: stub_realloc_def Let_def tlsf_numbers)
  show ?thesis
  proof (cases "p + k = st_offset s")
    case last: True
    then have post: "post = []" using b(3) by simp
    then have bs1: "stub_blocks cfg s (pre @ [(p - 4, k, False)])" and U: "?U = live_blocks pre" using bs b(1,2) by (simp_all add: live_append)
    note resized = last_block[OF cfg bs1 b(5,6) c(1,2)]
    show ?thesis
    proof (cases "n > k")
      case True
      have "0 < p + ?c" "p + ?c + 65536 < 2 ^ 32" using b(6,7,10) f(3) c(1) c29 by simp_all
      from grow_spec[OF cfg pages(1,2) this] show ?thesis
      proof (elim disjE exE conjE)
        fix P assume g: "maybeGrowMemory cfg (p + ?c) s = Some (Returns (s\<lparr>st_pages := P, st_offset := p + ?c\<rparr>))"
          "st_pages s \<le> P" "P \<le> 32768" "p + ?c \<le> 65536 * P"
        let ?s = "set_info (p - 4) ?c (s\<lparr>st_pages := P, st_offset := p + ?c\<rparr>)"
        have r: "stub_realloc cfg p n s = Some (Returns (p, ?s))" using True last g(1) by (simp add: eq)
        show ?thesis
          using r resized[of ?s] g pages(1) U fresh c(3)
          by (intro disjI2 exI[of _ p] exI[of _ ?c] exI[of _ ?s] exI[of _ "pre @ [(p - 4, ?c, False)]"]) (simp add: set_info_def)
      qed (use True last in \<open>simp add: eq\<close>)
    next
      case False
      let ?s = "set_info (p - 4) ?c (s\<lparr>st_offset := p + ?c\<rparr>)"
      have "?c \<le> k" using below_12[of ?c "k + 16"] c b(8) False mod_add_self2[of k 16] by simp
      then have "p + ?c \<le> 65536 * st_pages s" using last pages(3) by simp
      moreover have "stub_realloc cfg p n s = Some (Returns (p, ?s))" using False last by (simp add: eq)
      ultimately show ?thesis using resized[of ?s] pages U fresh c(3)
        by (intro disjI2 exI[of _ p] exI[of _ ?c] exI[of _ ?s] exI[of _ "pre @ [(p - 4, ?c, False)]"]) (simp add: set_info_def)
    qed
  next
    case notlast: False
    show ?thesis
    proof (cases "n > k")
      case True
      let ?d = "max ?c (u32 (push_bit 1 k))"
      have "u32 (push_bit 1 k) = 2 * k" using True n(2) b(7) by (subst u32_small) (simp_all add: push_bit_eq_mult)
      then have "0 \<le> ?d" "?d \<le> BLOCK_MAXSIZE" "k \<le> ?d" "n \<le> ?d" using c(1,3) c29 True n(2) b(7) by (simp_all add: tlsf_numbers)
      note d = this
      have eq': "stub_realloc cfg p n s = continue (stub_alloc cfg ?d s) (\<lambda>(q, s). Some (Returns (q, s\<lparr>st_mem := memory_copy q p k (st_mem s)\<rparr>)))"
        using True notlast by (simp add: eq)
      have "n \<le> j" if "?d \<le> j" for j using d(4) that by (rule order_trans)
      with stub_moved[OF cfg bs live d(1-3)] show ?thesis unfolding eq' by meson
    next
      case False
      then have "stub_realloc cfg p n s = Some (Returns (p, s))" using notlast by (simp add: eq)
      moreover have "insert (p, k) ?U = live_blocks bs" using live by blast
      ultimately show ?thesis using bs fresh False
        by (intro disjI2 exI[of _ p] exI[of _ k] exI[of _ s] exI[of _ bs]) (simp add: same_payloads_def copied_def)
    qed
  qed
qed

lemma stub_free_law:
  assumes cfg: "stub_config_ok cfg" and bs: "stub_blocks cfg s bs" and live: "(p, k) \<in> live_blocks bs"
  shows "\<exists>s' bs'. stub_free p s = Some (Returns s') \<and> stub_blocks cfg s' bs' \<and> live_blocks bs' = live_blocks bs - {(p, k)}
    \<and> st_mem s' = st_mem s"
proof -
  obtain pre post where b: "bs = pre @ (p - 4, k, False) # post" "live_blocks bs - {(p, k)} = live_blocks pre \<union> live_blocks post"
    "p + k = st_offset s \<longleftrightarrow> post = []" "tiles (startOffset cfg) pre (p - 4)" "p mod 16 = 0" "4 < p" "12 \<le> k" "k mod 16 = 12"
    "st_mem s (p - 4) = k" "p + k \<le> st_offset s" "u32 (p - 4) = p - 4" "u32 (p + k) = p + k" "\<not> (\<not> (p \<noteq> 0 \<and> p AND AL_MASK = 0))"
    by (rule stub_pointer[OF cfg bs live])
  have eq: "stub_free p s = Some (Returns (if p + k = st_offset s then s\<lparr>st_offset := p - 4\<rparr> else s))"
    using b(9,11,12,13) by (simp add: stub_free_def Let_def tlsf_numbers)
  show ?thesis
  proof (cases "post = []")
    case True
    have "stub_blocks cfg (s\<lparr>st_offset := p - 4\<rparr>) pre" using bs b(1,4,7,10) True by (auto simp: stub_blocks_def)
    then show ?thesis using eq b(2,3) True by (intro exI[of _ "s\<lparr>st_offset := p - 4\<rparr>"] exI[of _ pre]) (simp add: live_append)
  next
    case False
    have "stub_blocks cfg s (pre @ (p - 4, k, True) # post)" using bs b(1) by (intro give_up) simp
    then show ?thesis using eq b(2,3) False by (intro exI[of _ s] exI[of _ "pre @ (p - 4, k, True) # post"]) (simp add: live_append)
  qed
qed


lemma stub_tiles: "stub_inv cfg s U \<Longrightarrow> (p, k) \<in> U \<Longrightarrow> \<exists>bs. stub_blocks cfg s bs \<and> U = live_blocks bs \<and> (p - 4, k, False) \<in> set bs \<and> stub_config_ok cfg"
  by (auto simp: stub_inv_def live_blocks_def)

interpretation stub: allocator "stub_operations cfg" "stub_inv cfg" "2 ^ 29 - 4" for cfg
proof unfold_locales
  fix s U p k q j n m'
  assume inv: "stub_inv cfg s U"
  then obtain bs where bs: "stub_config_ok cfg" "stub_blocks cfg s bs" "U = live_blocks bs" by (auto simp: stub_inv_def)
  show "op_alloc (stub_operations cfg) n s = Some Unreachable \<or>
    (\<exists>p k s'. op_alloc (stub_operations cfg) n s = Some (Returns (p, s')) \<and> stub_inv cfg s' (insert (p, k) U) \<and> p \<notin> fst ` U \<and> n \<le> k
      \<and> same_payloads U (op_mem (stub_operations cfg) s) (op_mem (stub_operations cfg) s'))" if n: "0 \<le> n" "n \<le> 2 ^ 29 - 4"
  proof -
    have n': "n \<le> BLOCK_MAXSIZE" using n by (simp add: tlsf_numbers)
    note c = stub_size[OF n(1) n']
    from stub_alloc_law[OF bs(1,2) n(1) n'] show ?thesis
    proof (elim disjE exE conjE)
      fix s' assume a: "stub_alloc cfg n s = Some (Returns (st_offset s + 4, s'))"
        "stub_blocks cfg s' (bs @ [(st_offset s, stub_computeSize n, False)])"
        "same_payloads (live_blocks bs) (st_mem s) (st_mem s')" "\<forall>(p, k)\<in>live_blocks bs. p + k \<le> st_offset s"
      have "insert (st_offset s + 4, stub_computeSize n) U = live_blocks (bs @ [(st_offset s, stub_computeSize n, False)])"
        using c(1) bs(3) by (simp add: live_append)
      then have "stub_inv cfg s' (insert (st_offset s + 4, stub_computeSize n) U)" using a(2) bs(1) by (auto simp: stub_inv_def)
      moreover have "st_offset s + 4 \<notin> fst ` U"
      proof
        assume "st_offset s + 4 \<in> fst ` U"
        then obtain i where i: "(st_offset s + 4, i) \<in> live_blocks bs" using bs(3) by (elim imageE) (metis prod.collapse)
        then have "st_offset s + 4 + i \<le> st_offset s" using a(4) by auto
        moreover have "(st_offset s, i, False) \<in> set bs" using i by (auto simp: live_blocks_def)
        then have "12 \<le> i" using stub_facts(5)[OF bs(1,2)] by blast
        ultimately show False by simp
      qed
      ultimately show ?thesis using a(1,3) c(3) bs(3) by (auto simp: stub_operations_def)
    qed (simp add: stub_operations_def)
  qed
  assume p: "(p, k) \<in> U"
  have x: "(p - 4, k, False) \<in> set bs" using p bs(3) by (auto simp: live_blocks_def)
  note f = stub_facts(5)[OF bs(1,2) x]
  have live: "(p, k) \<in> live_blocks bs" using p bs(3) by simp
  obtain pre post where t: "p mod 16 = 0" "4 < p" "p + k \<le> st_offset s" by (rule stub_pointer[OF bs(1,2) live])
  have "k mod 16 = 12" "12 \<le> k" using f by simp_all
  then show "0 < k \<and> k mod 4 = 0" by presburger
  have "st_offset s \<le> 65536 * st_pages s" using bs(2) x by (auto simp: stub_blocks_def)
  then show "p mod 16 = 0 \<and> 0 < p \<and> p + k \<le> 65536 * op_pages (stub_operations cfg) s" using t by (simp add: stub_operations_def)
  show "(p, k) = (q, j) \<or> p + k \<le> q \<or> q + j \<le> p" if "(q, j) \<in> U"
  proof -
    have "(q - 4, j, False) \<in> set bs" using that bs(3) by (auto simp: live_blocks_def)
    moreover have "tiles (startOffset cfg) bs (st_offset s)" "list_all sized bs" using bs(2) by (simp_all add: stub_blocks_def)
    ultimately show ?thesis using tiles_apart[OF _ _ x, of "startOffset cfg" "st_offset s" "q - 4" j False] by auto
  qed
  show "stub_inv cfg (op_put (stub_operations cfg) m' s) U \<and> op_mem (stub_operations cfg) (op_put (stub_operations cfg) m' s) = m'"
    if "changes (op_mem (stub_operations cfg) s) m' {p..<p + k}"
  proof -
    have ch: "changes (st_mem s) m' {p..<p + k}" using that by (simp add: stub_operations_def)
    have t: "tiles (startOffset cfg) bs (st_offset s)" "list_all sized bs" using bs(2) by (simp_all add: stub_blocks_def)
    have "m' y = i \<and> 12 \<le> i" if "(y, i, g) \<in> set bs" for y i g
    proof -
      have "(p - 4, k, False) = (y, i, g) \<or> p - 4 + 4 + k \<le> y \<or> y + 4 + i \<le> p - 4" by (rule tiles_apart[OF t x that])
      then have "y \<notin> {p..<p + k}" using stub_facts(5)[OF bs(1,2) that] f by auto
      then show ?thesis using ch stub_facts(5)[OF bs(1,2) that] by (simp add: changes_def)
    qed
    then have "stub_blocks cfg (s\<lparr>st_mem := m'\<rparr>) bs" using bs(2) by (auto simp: stub_blocks_def)
    then show ?thesis using bs(1,3) by (auto simp: stub_inv_def stub_operations_def)
  qed
  show "op_realloc (stub_operations cfg) p n s = Some Unreachable \<or>
    (\<exists>q j s'. op_realloc (stub_operations cfg) p n s = Some (Returns (q, s')) \<and> stub_inv cfg s' (insert (q, j) (U - {(p, k)}))
      \<and> q \<notin> fst ` (U - {(p, k)}) \<and> n \<le> j
      \<and> same_payloads (U - {(p, k)}) (op_mem (stub_operations cfg) s) (op_mem (stub_operations cfg) s')
      \<and> copied (op_mem (stub_operations cfg) s) p (op_mem (stub_operations cfg) s') q (min k j))" if "0 \<le> n" "n \<le> 2 ^ 29 - 4"
    using stub_realloc_law[OF bs(1,2) live that] bs(1,3) unfolding stub_inv_def stub_operations_def by (simp, metis)
  show "\<exists>s'. op_free (stub_operations cfg) p s = Some (Returns s') \<and> stub_inv cfg s' (U - {(p, k)})
      \<and> same_payloads (U - {(p, k)}) (op_mem (stub_operations cfg) s) (op_mem (stub_operations cfg) s')"
  proof -
    from stub_free_law[OF bs(1,2) live] obtain s' bs' where f: "stub_free p s = Some (Returns s')" "stub_blocks cfg s' bs'"
      "live_blocks bs' = U - {(p, k)}" "st_mem s' = st_mem s" unfolding bs(3) by blast
    then have "stub_inv cfg s' (U - {(p, k)})" using bs(1) unfolding stub_inv_def by metis
    then show ?thesis using f(1,4) by (auto simp: stub_operations_def same_payloads_def)
  qed
qed

text \<open>
  C10. A program that keeps to its buffers is served correctly by the minimal runtime in memories of up to two gigabytes,
  or the engine refuses to grow the memory: no assertion fails, and in the end every buffer the program has is aligned
  to 16, lies inside the memory, and holds in every word what was written there last, although freed memory is only
  reused when it was allocated last and a reallocated block may stay where it is.
\<close>

theorem stub_serves:
  assumes "stub_config_ok cfg" "st_offset s = startOffset cfg" "0 \<le> st_pages s" "st_pages s \<le> 32768"
    and "meaning (2 ^ 29 - 4) rs Map.empty = Some V"
  shows "run (stub_operations cfg) rs (Map.empty, s) = Some Unreachable \<or>
    (\<exists>x. run (stub_operations cfg) rs (Map.empty, s) = Some (Returns x) \<and> accurate (stub_operations cfg) x V)"
proof -
  have "stub_blocks cfg s []" using assms(2-4) by (simp add: stub_blocks_def)
  then have "stub_inv cfg s {}" using assms(1) by (auto simp: stub_inv_def live_append)
  from stub.started[OF this assms(5)] show ?thesis by blast
qed

lemma stub_serves_witness:
  "let cfg = \<lparr>heap_base = 16, low_memory_limit = 0, can_grow = (\<lambda>pages delta. pages + delta \<le> 32768)\<rparr>;
       s = \<lparr>st_mem = (\<lambda>a. 0), st_pages = 1, st_offset = startOffset cfg\<rparr>;
       rs = [Alloc 0 8, Store 0 1 7, Realloc 0 12]
   in run (stub_operations cfg) rs (Map.empty, s) = Some Unreachable \<or>
    (\<exists>x. run (stub_operations cfg) rs (Map.empty, s) = Some (Returns x) \<and> accurate (stub_operations cfg) x [0 \<mapsto> [None, Some 7, None]])"
  unfolding Let_def by (rule stub_serves) (simp_all add: stub_config_ok_def words_def numeral_2_eq_2 numeral_3_eq_3)


text \<open>Where the end of a block wraps around, the block is given out beyond the memory and the offset goes back.\<close>

lemma stub_wraps:
  assumes "st_offset s = 2 ^ 32 - 2 ^ 29 - 4" "st_pages s = 65535"
  shows "\<exists>s'. stub_alloc cfg BLOCK_MAXSIZE s = Some (Returns (2 ^ 32 - 2 ^ 29, s')) \<and> st_offset s' = 2 ^ 29 - 4 \<and> st_pages s' = 65535"
proof -
  have up: "align_up (u32 4294901760) = 4294901760"
    using align_up_mod[of 4294901760] by (simp add: u32_small)
  have c: "stub_computeSize 1073741820 = 1073741820"
    unfolding stub_computeSize_def tlsf_numbers by (simp add: u32_small align_bits)
  have "u32 3758096384 = 3758096384" "u32 4831838204 = 536870908" by (simp_all add: u32_def take_bit_eq_mod)
  then have "maybeGrowMemory cfg (u32 (u32 (st_offset s + BLOCK_OVERHEAD) + stub_computeSize 1073741820)) s
      = Some (Returns (s\<lparr>st_offset := 536870908\<rparr>))"
    using assms by (simp add: maybeGrowMemory_def up c tlsf_numbers Let_def)
  then show ?thesis using assms \<open>u32 3758096384 = 3758096384\<close>
    by (simp add: stub_alloc_def Let_def tlsf_numbers set_info_def)
qed

end
