(* ===== verification/Spec2Isabelle.thy ===== *)
theory Spec2Isabelle
  imports Bus_Laws Kit_Laws Kit_Machine Kit_Refinement Resolve Infrastructure Approval Background_Laws Lifecycle
    Workers Dispatch Harness Test_Runtime Surface Endowments Build_Resolve Build_Patches
    Harness_Patches Execa Documents Bundle_Setup As_Sort_Laws As_Map_Laws As_Set As_Uri_Laws
    As_Number_Laws As_Tlsf_Laws As_Stub
begin

text \<open>
  Verification development of the JavaScript runtime of brainkit.

  \<^bold>\<open>The program.\<close> Brainkit is a Go host that runs deployments (TypeScript packages) in QuickJS. What a
  deployment sees is written in JavaScript: the scripts of \<open>internal/jsruntime/runtime\<close>, which talk to
  the host through \<open>__go_brainkit_*\<close> functions, and the bundle of \<open>internal/embed/agent/bundle\<close>, which
  adapts the Mastra framework to the single-threaded engine and is put together by \<open>build.mjs\<close>. Deployments
  may also compile AssemblyScript to WebAssembly; the compiler links the library under
  \<open>internal/embed/compiler/std\<close> into every module it produces. The
  bridge helpers (\<open>bridges.js\<close>) carry every call to the host. The bus and the resource registry
  (\<open>bus.js\<close>) share the tables of handlers, references and cleanups. \<open>resolve.js\<close> and
  \<open>infrastructure.js\<close> build the APIs on the bridge, \<open>approval.js\<close> uses the bus to ask for approvals,
  \<open>dispatch.js\<close> answers the host's commands, and \<open>kit_runtime.js\<close> assembles it all into the endowments of
  a deployment's compartment and the host's harness.

  \<^bold>\<open>Conventions.\<close> Values are the datatype \<open>jsval\<close> of \<open>Js_Values\<close>, objects are insertion-ordered
  dictionaries (\<open>Prelude\<close>). A stateful operation is a computation from the globals to \<open>Inl\<close> the thrown
  value or \<open>Inr\<close> the result and the globals it leaves; a throw keeps the writes made before it. The host
  is a parameter that answers every call from the log of earlier calls (\<open>Host\<close>), so that it may fail at
  any point and answer differently each time. Asynchronous code is modelled by what happens between its
  steps: an \<open>await\<close> is a point at which a parameter may change the shared state. Bodies of third-party
  code are parameters; where a law about them is needed it is a hypothesis with a witness. \<open>js_string\<close> is the
  conversion to a string of values without a conversion of their own; where the code converts a value that it was
  handed by others, \<open>js_convert\<close> is the general one, which may throw.

  \<^bold>\<open>Theories and the code they model.\<close>
  \<^item> \<open>Bridges\<close>: \<open>bridges.js\<close>. The error class, the request helpers and the wire envelope; decoding throws typed errors,
    but for a message that cannot be converted to a string.
  \<^item> \<open>Host\<close>, \<open>Registry\<close>, \<open>Bus\<close>, \<open>Bus_Laws\<close>: \<open>bus.js\<close>. The record \<open>globals\<close> holds \<open>__bus_subs\<close>, \<open>_refs\<close>, the
    cleanups and the stream handlers. Replies survive the envelope, stream events are numbered in
    order, options of streaming calls are checked before anything is touched, handlers are released.
  \<^item> \<open>Kit_Api\<close>, \<open>Kit_Laws\<close>, \<open>Kit_Machine\<close>: \<open>kit.register\<close>, the scoped bus and kit of a deployment. The name of a
    service is computed in five places, each modelled by itself; the specification \<open>service_name\<close> relates them. The machine
    \<open>kit_step\<close> performs any operation of the bus and the registry; its invariant relates the three
    tables, and the locale \<open>machine\<close> of \<open>Prelude\<close> lifts it to every sequence of operations.
  \<^item> \<open>Kit_Refinement\<close>: the machine refines its specification, a map from subscription ids to handlers that
    changes only by the results callers see; messages are delivered as the map says.
  \<^item> \<open>Resolve\<close>, \<open>Infrastructure\<close>: \<open>resolve.js\<close>, \<open>infrastructure.js\<close>. The three instance caches are
    interpretations of the locale \<open>cache_slot\<close>; a change of the registry empties exactly the slot it
    concerns.
  \<^item> \<open>Approval\<close>: \<open>approval.js\<close>. The loop may run for ever with a limit that is infinite or not a number, so it is
    a \<open>partial_function\<close>; it terminates for every finite limit and follows its question protocol.
  \<^item> \<open>Dispatch\<close>: \<open>dispatch.js\<close>, the commands on workflows, tools, secrets, the registry and storages.
  \<^item> \<open>Harness\<close>, \<open>Harness_Patches\<close>: the harness of \<open>kit_runtime.js\<close> and the changes \<open>entry.mjs\<close> makes to its class:
    events are sanitised to bounded depth, an accepted configuration is complete, \<open>sendMessage\<close> waits for its run and
    returns in time, provided the original \<open>sendMessage\<close> that it calls settles, resumptions follow a protocol.
  \<^item> \<open>Surface\<close>, \<open>Endowments\<close>: the exports of \<open>agent\<close>, \<open>ai\<close>, \<open>kit\<close> and \<open>test\<close>, the keys of the bundle and the
    endowment literal as tables, and the endowments that are closures.
  \<^item> \<open>Test_Runtime\<close>: \<open>test_runtime.js\<close>. The runner reports every test in order, also those that time out, which
    may go on deploying while later functions are awaited; what it has not torn down it still lists.
  \<^item> \<open>Background\<close>, \<open>Background_Laws\<close>: the inline execution of background tasks in \<open>entry.mjs\<close>, over the storage
    operations as a parameter with the laws of a map; a run executes at most one more time than the
    retries left.
  \<^item> \<open>Lifecycle\<close>, \<open>Workers\<close>: stream tracking and the worker bridge of \<open>entry.mjs\<close> as machines with counters. Which
    methods an instance has and which of the calls to it fail are parameters of the worker bridge; a failing call has no
    effect, and a listener whose removal fails stays live.
  \<^item> \<open>Execa\<close>, \<open>Documents\<close>, \<open>Bundle_Setup\<close>: the process replacement, the document readers and what runs once when the
    bundle is evaluated (\<open>entry.mjs\<close>, \<open>patches.js\<close>, \<open>ecosystem-canaries.mjs\<close>).
  \<^item> \<open>Stubs\<close>, \<open>Build_Resolve\<close>, \<open>Build_Patches\<close>: \<open>build.mjs\<close>. The stub modules as tables and what they evaluate to, the
    resolution of Node imports, and the rewriting of the bundle, with the regular expressions as
    deterministic patterns: each name is followed by a literal that ends it, so no backtracking occurs.
  \<^item> \<open>As_Memory\<close>: integers and memory blocks of the AssemblyScript library under \<open>compiler/std\<close>. A block is a list of
    elements; a load or a store outside it, or of a slot never written, is \<open>None\<close>, so that a result \<open>Some\<close> says that
    the routine stayed inside its blocks. The limits of an allocation are those of the default runtime.
  \<^item> \<open>As_Sort\<close>, \<open>As_Sort_Laws\<close>: \<open>util/sort.ts\<close>. The power sort sorts for every comparator that is a total preorder, its run
    stack never overflows, and the default comparators are orders except where they wrap. A comparator is a function of
    the two elements; one that keeps a state of its own is not modelled.
  \<^item> \<open>As_Hash\<close>, \<open>As_Map\<close>, \<open>As_Map_Laws\<close>, \<open>As_Set\<close>: \<open>util/hash.ts\<close>, \<open>map.ts\<close> and \<open>set.ts\<close>. A map is a simulation of an
    insertion-ordered dictionary, a set of a list without repetition (locale \<open>simulation\<close>), on keys for which
    the comparison of the code is equality. Floats are compared by value but hashed by their bits: with the two zeros, or
    a NaN, the answers depend on the number of buckets, and are those of no dictionary. The chain of a bucket
    strictly descends in the entries, so fuel for every entry is enough for the search.
  \<^item> \<open>As_Uri\<close>, \<open>As_Uri_Laws\<close>: \<open>util/uri.ts\<close>. Percent-encoding is the UTF-8 encoding of the code points, decoding is its
    inverse and safe on every input.
  \<^item> \<open>As_Number\<close>, \<open>As_Digits\<close>, \<open>As_Writers\<close>, \<open>As_Number_Laws\<close>: the integer half of \<open>util/number.ts\<close>, \<open>strtol\<close> of
    \<open>util/string.ts\<close> and the integer classes of \<open>number.ts\<close>. The locale \<open>number_writer\<close> is the contract of the routines that
    write digits, \<open>wrapping\<close> that of the arithmetic of fixed width the parser needs.
  \<^item> \<open>As_Allocator\<close>: \<open>rt/common.ts\<close> and the contract of a memory manager, the locale \<open>allocator\<close>: it gives out disjoint,
    aligned payloads inside the memory and leaves the other payloads as they are. From these laws alone follows that a
    program which keeps to its buffers sees them as independent blocks, the view that \<open>As_Memory\<close> takes.
  \<^item> \<open>As_Tlsf\<close>, \<open>As_Tlsf_Sizes\<close>, \<open>As_Tlsf_Lists\<close>, \<open>As_Tlsf_Blocks\<close>, \<open>As_Tlsf_Heap\<close>, \<open>As_Tlsf_Laws\<close>: \<open>rt/tlsf.ts\<close>, all of its
    operations with their assertions, over words of linear memory. The two-level classes of sizes and the rounding of the
    search; the free lists and their bitmaps; blocks that tile the managed memory with their tags and back references;
    growth and the first use; the operations, and the interpretation of the contract.
  \<^item> \<open>As_Stub\<close>: \<open>rt/stub.ts\<close>, the minimal runtime, with the same contract in memories of up to two gigabytes.

  \<^bold>\<open>Bounds.\<close> Sanitising recurses to depth 8 as in the code; \<open>runWorkflow\<close> polls at most 300 times as in the
  code. \<open>runTests\<close> takes fuel for the hooks that register further hooks while they run; with fuel for
  every hook present and none added, the result is never \<open>OutOfFuel\<close>. Task runs, approvals, the wait of
  \<open>sendMessage\<close> and the loops of \<open>Execa\<close> are partial functions whose termination is proved under the
  stated conditions. Numbers are exact rationals with NaN and the infinities; the code only
  counts, compares and truncates, within the range in which doubles are exact. A memory block of the
  AssemblyScript library has at most \<open>2 ^ 30 - 4\<close> bytes and an object \<open>2 ^ 30 - 20\<close>; strings of at most \<open>2 ^ 24\<close> units
  always fit with all their escapes. The contract of the memory managers is for requests of at most \<open>2 ^ 29 - 4\<close> bytes,
  above which the search of \<open>rt/tlsf.ts\<close> does not round, and for static data that ends below two gigabytes.

  \<^bold>\<open>Not modelled.\<close> The generated bundles, the AssemblyScript compiler and the rest of its library
  (floating-point numbers and mathematics, the \<open>String\<close> class, typed arrays, the collectors,
  bindings), QuickJS and the vendored engines, the Go host, type declarations, fixtures and examples; the DOM stubs and the SES
  polyfills, which only define constants and engine properties; the bodies of the canaries, the
  provider imports and the debug counters of \<open>entry.mjs\<close>; \<open>expect().toThrow\<close>, \<open>sleep\<close> and \<open>sendTo\<close> of the
  test runtime, which delegate to timers and the bus. Characters are code units below 256, those of the
  AssemblyScript library any integers. Of that library, running out of linear memory, which traps, the links and visitors of the
  collector and null strings are left out; a buffer that grows is always a new object. The
  tracing hooks of the memory managers are left out, and no other code is assumed to grow the memory.
\<close>

end
